(* ===== verification/Prelude.thy ===== *)
theory Prelude
  imports Main "HOL-Library.Monad_Syntax" "HOL-Library.Multiset"
begin

text \<open>
  Shared vocabulary of the development: the run-time failure monad (the option type, where
  \<open>None\<close> is a kernel \<open>BUG()\<close>, a NULL dereference, an access outside an allocated array or the
  use of an uninitialised variable), C's fixed-width arithmetic on naturals, kernel macros
  (\<open>DIV_ROUND_UP\<close>, \<open>KB\<close>, \<open>MB\<close>), checked array access and the generic list and arithmetic
  lemmas the component theories use.

  Conventions on integers. A C \<open>int\<close> or \<open>unsigned\<close> that is only counted up below a bound that an
  assertion of the code checks is a \<open>nat\<close>. Where the C code can wrap (an unsigned decrement, a
  cast to a narrower type, a difference of unsigned values), the model applies \<open>u8\<close>, \<open>u16\<close>, \<open>u32\<close> or
  \<open>u64\<close> explicitly. Times are nanosecond counts held in \<open>uint64_t\<close>; 2^64 ns are 584 years, so sums
  of times are taken in \<open>nat\<close>, and only differences of times wrap.
\<close>

named_theorems arr_simps "checked array access and update"
named_theorems geo_simps "arithmetic of the flash geometry"
named_theorems frame_simps "what an operation leaves unchanged"

section \<open>Failure monad\<close>

text \<open>\<open>NVMEV_ASSERT(x)\<close> is \<open>BUG_ON(!(x))\<close> (nvmev.h): a failed assertion stops the kernel.\<close>

definition NVMEV_ASSERT :: "bool \<Rightarrow> unit option" where
  "NVMEV_ASSERT b = (if b then Some () else None)"

text \<open>Checked array access \<open>a[i]\<close>: outside the allocated array the C program has no behaviour.\<close>

definition idx :: "'a list \<Rightarrow> nat \<Rightarrow> 'a option" where
  "idx xs i = (if i < length xs then Some (xs ! i) else None)"

text \<open>A write through a pointer to the array element \<open>a[i]\<close>.\<close>

definition modl :: "'a list \<Rightarrow> nat \<Rightarrow> ('a \<Rightarrow> 'a) \<Rightarrow> 'a list" where
  "modl xs i f = xs[i := f (xs ! i)]"

section \<open>Fixed-width arithmetic\<close>

definition u8 :: "nat \<Rightarrow> nat" where "u8 x = x mod 2 ^ 8"
definition u16 :: "nat \<Rightarrow> nat" where "u16 x = x mod 2 ^ 16"
definition u32 :: "nat \<Rightarrow> nat" where "u32 x = x mod 2 ^ 32"
definition u64 :: "nat \<Rightarrow> nat" where "u64 x = x mod 2 ^ 64"

text \<open>Unsigned subtraction and decrement at a width.\<close>

definition sub32 :: "nat \<Rightarrow> nat \<Rightarrow> nat" where
  "sub32 a b = u32 (a + 2 ^ 32 - u32 b)"

definition sub64 :: "nat \<Rightarrow> nat \<Rightarrow> nat" where
  "sub64 a b = u64 (a + 2 ^ 64 - u64 b)"

definition inc32 :: "nat \<Rightarrow> nat" where "inc32 a = u32 (a + 1)"
definition dec32 :: "nat \<Rightarrow> nat" where "dec32 a = sub32 a 1"

text \<open>Kernel macros.\<close>

definition DIV_ROUND_UP :: "nat \<Rightarrow> nat \<Rightarrow> nat" where
  "DIV_ROUND_UP n d = (n + d - 1) div d"

definition KB :: "nat \<Rightarrow> nat" where "KB k = k * 2 ^ 10"
definition MB :: "nat \<Rightarrow> nat" where "MB m = m * 2 ^ 20"
definition GB :: "nat \<Rightarrow> nat" where "GB g = g * 2 ^ 30"
definition NS_PER_SEC :: "nat \<Rightarrow> nat" where "NS_PER_SEC s = s * 1000 * 1000 * 1000"

section \<open>Generic lemmas\<close>

lemma NVMEV_ASSERT_Some [simp]: "NVMEV_ASSERT b = Some u \<longleftrightarrow> b"
  by (simp add: NVMEV_ASSERT_def)

lemma NVMEV_ASSERT_True [simp]: "NVMEV_ASSERT True = Some ()"
  by simp

lemma NVMEV_ASSERT_None [simp]: "NVMEV_ASSERT b = None \<longleftrightarrow> \<not> b"
  by (simp add: NVMEV_ASSERT_def)

lemma NVMEV_ASSERT_bind [simp]: "b \<Longrightarrow> (NVMEV_ASSERT b \<bind> f) = f ()"
  by (simp add: NVMEV_ASSERT_def)

lemma idx_Some [arr_simps]: "idx xs i = Some x \<longleftrightarrow> i < length xs \<and> xs ! i = x"
  by (auto simp: idx_def)

lemma idx_in [arr_simps]: "i < length xs \<Longrightarrow> idx xs i = Some (xs ! i)"
  by (simp add: idx_def)

lemma idx_out [arr_simps]: "length xs \<le> i \<Longrightarrow> idx xs i = None"
  by (simp add: idx_def)

lemma length_modl [simp, arr_simps]: "length (modl xs i f) = length xs"
  by (simp add: modl_def)

lemma idx_modl [arr_simps]:
  "idx (modl xs i f) j = (if i = j then map_option f (idx xs i) else idx xs j)"
  by (auto simp: idx_def modl_def)

lemma nth_modl [arr_simps]:
  "j < length xs \<Longrightarrow> modl xs i f ! j = (if i = j then f (xs ! j) else xs ! j)"
  by (auto simp: modl_def)

lemma idx_upd [arr_simps]:
  "idx (xs[i := v]) j = (if i = j \<and> i < length xs then Some v else idx xs j)"
  by (auto simp: idx_def)

lemma idx_map [arr_simps]: "idx (map f xs) i = map_option f (idx xs i)"
  by (simp add: idx_def)

lemma idx_replicate [arr_simps]: "idx (replicate n x) i = (if i < n then Some x else None)"
  by (simp add: idx_def)

lemma idx_upt [arr_simps]: "idx [0..<n] i = (if i < n then Some i else None)"
  by (simp add: idx_def)

lemma u_small [simp]:
  "x < 2 ^ 8 \<Longrightarrow> u8 x = x" "x < 2 ^ 16 \<Longrightarrow> u16 x = x"
  "x < 2 ^ 32 \<Longrightarrow> u32 x = x" "x < 2 ^ 64 \<Longrightarrow> u64 x = x"
  by (simp_all add: u8_def u16_def u32_def u64_def)

lemma u_bound: "u8 x < 2 ^ 8" "u16 x < 2 ^ 16" "u32 x < 2 ^ 32" "u64 x < 2 ^ 64"
  by (simp_all add: u8_def u16_def u32_def u64_def)

lemma wrap_sub:
  "b \<le> a \<Longrightarrow> a < 2 ^ 32 \<Longrightarrow> u32 (a + 2 ^ 32 - b) = a - b"
  "b \<le> a \<Longrightarrow> a < 2 ^ 64 \<Longrightarrow> u64 (a + 2 ^ 64 - b) = a - b"
proof -
  have *: "(a + m - b) mod m = a - b" if "b \<le> a" "a < m" for m :: nat
  proof -
    have "(a + m - b) mod m = ((a - b) + m) mod m"
      using that by (intro arg_cong [where f = "\<lambda>x. x mod m"]) linarith
    also have "\<dots> = (a - b) mod m" by (rule mod_add_self2)
    also have "\<dots> = a - b" using that by simp
    finally show ?thesis .
  qed
  show "b \<le> a \<Longrightarrow> a < 2 ^ 32 \<Longrightarrow> u32 (a + 2 ^ 32 - b) = a - b"
    unfolding u32_def by (rule *)
  show "b \<le> a \<Longrightarrow> a < 2 ^ 64 \<Longrightarrow> u64 (a + 2 ^ 64 - b) = a - b"
    unfolding u64_def by (rule *)
qed

lemma sub32_le: "b \<le> a \<Longrightarrow> a < 2 ^ 32 \<Longrightarrow> sub32 a b = a - b"
  using wrap_sub(1) [of b a] by (simp add: sub32_def del: power_numeral)

lemma sub64_le: "b \<le> a \<Longrightarrow> a < 2 ^ 64 \<Longrightarrow> sub64 a b = a - b"
  using wrap_sub(2) [of b a] by (simp add: sub64_def del: power_numeral)

lemma dec32_pos: "0 < a \<Longrightarrow> a < 2 ^ 32 \<Longrightarrow> dec32 a = a - 1"
  by (simp add: dec32_def sub32_le)

lemma dec32_zero: "dec32 0 = 2 ^ 32 - 1"
  by (simp add: dec32_def sub32_def u32_def)

lemma inc32_small: "a + 1 < 2 ^ 32 \<Longrightarrow> inc32 a = a + 1"
  by (simp add: inc32_def)

lemma DIV_ROUND_UP_mult_ge: "0 < d \<Longrightarrow> n \<le> d * DIV_ROUND_UP n d"
proof -
  assume d: "0 < d"
  have "n + d - 1 = d * ((n + d - 1) div d) + (n + d - 1) mod d"
    by (metis mult_div_mod_eq)
  moreover have "(n + d - 1) mod d \<le> d - 1"
    using mod_less_divisor [OF d, of "n + d - 1"] by simp
  ultimately show ?thesis using d unfolding DIV_ROUND_UP_def by linarith
qed

lemma DIV_ROUND_UP_mult: "0 < d \<Longrightarrow> DIV_ROUND_UP (d * k) d = k"
proof -
  assume d: "0 < d"
  then have "d * k + d - 1 = (d - 1) + d * k" by simp
  then have "(d * k + d - 1) div d = ((d - 1) + d * k) div d" by (rule arg_cong)
  also have "\<dots> = k + (d - 1) div d" using d by (simp only: div_mult_self2)
  also have "\<dots> = k" using d by simp
  finally show ?thesis by (simp add: DIV_ROUND_UP_def)
qed

lemma DIV_ROUND_UP_pos: "0 < n \<Longrightarrow> 0 < d \<Longrightarrow> 0 < DIV_ROUND_UP n d"
  using DIV_ROUND_UP_mult_ge [of d n] by (cases "DIV_ROUND_UP n d") auto

lemma mixed_radix_less: "(a::nat) < m \<Longrightarrow> b < n \<Longrightarrow> a * n + b < m * n"
proof -
  assume "a < m" "b < n"
  then have "a * n + b < Suc a * n" by simp
  also have "\<dots> \<le> m * n" using \<open>a < m\<close> by (intro mult_le_mono1) simp
  finally show ?thesis .
qed

lemma mixed_radix_inj:
  assumes "(b::nat) < n" "b' < n" "a * n + b = a' * n + b'"
  shows "a = a' \<and> b = b'"
proof -
  have "(a * n + b) div n = (a' * n + b') div n" and "(a * n + b) mod n = (a' * n + b') mod n"
    using assms by simp_all
  then show ?thesis using assms(1,2) by simp
qed

text \<open>Invariants of a monadic fold over a list.\<close>

fun foldM :: "('a \<Rightarrow> 's \<Rightarrow> 's option) \<Rightarrow> 'a list \<Rightarrow> 's \<Rightarrow> 's option" where
  "foldM f [] s = Some s"
| "foldM f (x # xs) s = f x s \<bind> foldM f xs"

lemma foldM_append [simp]: "foldM f (xs @ ys) s = foldM f xs s \<bind> foldM f ys"
  by (induction xs arbitrary: s) (auto split: Option.bind_splits)

text \<open>Total correctness of a loop: an invariant indexed by the iterations done gives both that
  the loop returns and what holds of its result.\<close>

lemma foldM_total:
  assumes "P [] s"
    and "\<And>ys x zs s. xs = ys @ x # zs \<Longrightarrow> P ys s \<Longrightarrow> \<exists>s'. f x s = Some s' \<and> P (ys @ [x]) s'"
  shows "\<exists>s'. foldM f xs s = Some s' \<and> P xs s'"
  using assms
proof (induction xs arbitrary: P s)
  case Nil
  then show ?case by simp
next
  case (Cons x xs)
  from Cons.prems(2) [of "[]" x xs s] Cons.prems(1)
  obtain s1 where s1: "f x s = Some s1" "P [x] s1" by auto
  have "\<exists>s'. foldM f xs s1 = Some s' \<and> P (x # xs) s'"
  proof (rule Cons.IH [of "\<lambda>ys. P (x # ys)"])
    show "P [x] s1" by (rule s1)
    fix ys y zs s
    assume "xs = ys @ y # zs" "P (x # ys) s"
    then show "\<exists>s'. f y s = Some s' \<and> P (x # ys @ [y]) s'"
      using Cons.prems(2) [of "x # ys" y zs s] by simp
  qed
  with s1 show ?case by auto
qed

lemma foldM_inv:
  assumes "foldM f xs s = Some s'" and "P s"
    and "\<And>x s s'. x \<in> set xs \<Longrightarrow> f x s = Some s' \<Longrightarrow> P s \<Longrightarrow> P s'"
  shows "P s'"
  using assms
proof (induction xs arbitrary: s)
  case Nil
  then show ?case by simp
next
  case (Cons x xs)
  from Cons.prems(1) obtain s1 where "f x s = Some s1" and "foldM f xs s1 = Some s'"
    by (auto split: Option.bind_splits)
  moreover from this Cons.prems(2,3) have "P s1" by auto
  ultimately show ?case using Cons.prems(3) by (intro Cons.IH [of s1]) auto
qed

end
