(* ===== verification/Ssd_Config.thy ===== *)
theory Ssd_Config
  imports Prelude
begin

text \<open>
  The device configurations of \<open>ssd_config.h\<close>. The header defines one set of macros for the
  \<open>BASE_SSD\<close> chosen in the build; the model has them as the fields of a record, so that the code that
  uses the macros takes the record, and the sets of values as the constants \<open>SAMSUNG_970PRO\<close>,
  \<open>ZNS_PROTOTYPE\<close> and \<open>WD_ZN540\<close>. The two ZNS sets define no SLC macros (0 here), \<open>SAMSUNG_970PRO\<close> has no
  zone macros (0 here). \<open>INTEL_OPTANE\<close> and \<open>KV_PROTOTYPE\<close> have no flash geometry.
\<close>

record ssd_config =
  LBA_BITS :: nat
  MDTS :: nat
  CELL_MODE :: nat
  SSD_PARTITIONS :: nat
  NAND_CHANNELS :: nat
  LUNS_PER_NAND_CH :: nat
  PLNS_PER_LUN :: nat
  FLASH_PAGE_SIZE :: nat
  ONESHOT_PAGE_SIZE :: nat
  BLKS_PER_PLN :: nat
  BLK_SIZE :: nat
  MAX_CH_XFER_SIZE :: nat
  WRITE_UNIT_SIZE :: nat
  NAND_CHANNEL_BANDWIDTH :: nat
  PCIE_BANDWIDTH :: nat
  NAND_4KB_READ_LATENCY_LSB :: nat
  NAND_4KB_READ_LATENCY_MSB :: nat
  NAND_4KB_READ_LATENCY_CSB :: nat
  NAND_READ_LATENCY_LSB :: nat
  NAND_READ_LATENCY_MSB :: nat
  NAND_READ_LATENCY_CSB :: nat
  NAND_PROG_LATENCY :: nat
  NAND_ERASE_LATENCY :: nat
  SLC_PORTION :: nat
  SLC_ONESHOT_PAGE_SIZE :: nat
  NAND_4KB_READ_LATENCY_SLC :: nat
  NAND_READ_LATENCY_SLC :: nat
  NAND_PROG_LATENCY_SLC :: nat
  NAND_ERASE_LATENCY_SLC :: nat
  FW_4KB_READ_LATENCY :: nat
  FW_READ_LATENCY :: nat
  FW_WBUF_LATENCY0 :: nat
  FW_WBUF_LATENCY1 :: nat
  FW_CH_XFER_LATENCY :: nat
  GLOBAL_WB_SIZE :: nat
  ZONE_SIZE :: nat
  DIES_PER_ZONE :: nat
  ZONE_WB_SIZE :: nat
  MAX_ZRWA_ZONES :: nat
  ZRWAFG_SIZE :: nat
  ZRWA_SIZE :: nat
  ZRWA_BUFFER_SIZE :: nat
  WRITE_EARLY_COMPLETION :: bool

definition SAMSUNG_970PRO :: ssd_config where
  "SAMSUNG_970PRO = \<lparr>
     LBA_BITS = 9,
     MDTS = 6,
     CELL_MODE = 3,
     SSD_PARTITIONS = 4,
     NAND_CHANNELS = 4,
     LUNS_PER_NAND_CH = 4,
     PLNS_PER_LUN = 1,
     FLASH_PAGE_SIZE = KB 16,
     ONESHOT_PAGE_SIZE = KB 16 * 3,
     BLKS_PER_PLN = 1024,
     BLK_SIZE = 0,
     MAX_CH_XFER_SIZE = KB 16,
     WRITE_UNIT_SIZE = 512,
     NAND_CHANNEL_BANDWIDTH = 800,
     PCIE_BANDWIDTH = 3360,
     NAND_4KB_READ_LATENCY_LSB = 35760 - 6000,
     NAND_4KB_READ_LATENCY_MSB = 35760 + 6000,
     NAND_4KB_READ_LATENCY_CSB = 35760,
     NAND_READ_LATENCY_LSB = 36013 - 6000,
     NAND_READ_LATENCY_MSB = 36013 + 6000,
     NAND_READ_LATENCY_CSB = 36013,
     NAND_PROG_LATENCY = 185000,
     NAND_ERASE_LATENCY = 0,
     SLC_PORTION = 10,
     SLC_ONESHOT_PAGE_SIZE = KB 16,
     NAND_4KB_READ_LATENCY_SLC = 16254,
     NAND_READ_LATENCY_SLC = 16369,
     NAND_PROG_LATENCY_SLC = 40547,
     NAND_ERASE_LATENCY_SLC = 0,
     FW_4KB_READ_LATENCY = 21500,
     FW_READ_LATENCY = 30490,
     FW_WBUF_LATENCY0 = 4000,
     FW_WBUF_LATENCY1 = 460,
     FW_CH_XFER_LATENCY = 0,
     GLOBAL_WB_SIZE = 4 * 4 * (KB 16 * 3) * 2,
     ZONE_SIZE = 0,
     DIES_PER_ZONE = 0,
     ZONE_WB_SIZE = 0,
     MAX_ZRWA_ZONES = 0,
     ZRWAFG_SIZE = 0,
     ZRWA_SIZE = 0,
     ZRWA_BUFFER_SIZE = 0,
     WRITE_EARLY_COMPLETION = True\<rparr>"

definition ZNS_PROTOTYPE :: ssd_config where
  "ZNS_PROTOTYPE = \<lparr>
     LBA_BITS = 9,
     MDTS = 6,
     CELL_MODE = 3,
     SSD_PARTITIONS = 1,
     NAND_CHANNELS = 8,
     LUNS_PER_NAND_CH = 16,
     PLNS_PER_LUN = 1,
     FLASH_PAGE_SIZE = KB 64,
     ONESHOT_PAGE_SIZE = KB 64 * 2,
     BLKS_PER_PLN = 0,
     BLK_SIZE = MB 32 div 1,
     MAX_CH_XFER_SIZE = KB 64,
     WRITE_UNIT_SIZE = KB 64 * 2,
     NAND_CHANNEL_BANDWIDTH = 800,
     PCIE_BANDWIDTH = 3200,
     NAND_4KB_READ_LATENCY_LSB = 25485,
     NAND_4KB_READ_LATENCY_MSB = 25485,
     NAND_4KB_READ_LATENCY_CSB = 25485,
     NAND_READ_LATENCY_LSB = 40950,
     NAND_READ_LATENCY_MSB = 40950,
     NAND_READ_LATENCY_CSB = 40950,
     NAND_PROG_LATENCY = 1913640,
     NAND_ERASE_LATENCY = 0,
     SLC_PORTION = 0,
     SLC_ONESHOT_PAGE_SIZE = 0,
     NAND_4KB_READ_LATENCY_SLC = 0,
     NAND_READ_LATENCY_SLC = 0,
     NAND_PROG_LATENCY_SLC = 0,
     NAND_ERASE_LATENCY_SLC = 0,
     FW_4KB_READ_LATENCY = 37540 - 7390 + 2000,
     FW_READ_LATENCY = 37540 - 7390 + 2000,
     FW_WBUF_LATENCY0 = 0,
     FW_WBUF_LATENCY1 = 0,
     FW_CH_XFER_LATENCY = 413,
     GLOBAL_WB_SIZE = 8 * 16 * (KB 64 * 2) * 2,
     ZONE_SIZE = MB 32,
     DIES_PER_ZONE = 1,
     ZONE_WB_SIZE = 0,
     MAX_ZRWA_ZONES = 0,
     ZRWAFG_SIZE = 0,
     ZRWA_SIZE = 0,
     ZRWA_BUFFER_SIZE = 0,
     WRITE_EARLY_COMPLETION = False\<rparr>"

definition WD_ZN540 :: ssd_config where
  "WD_ZN540 = \<lparr>
     LBA_BITS = 9,
     MDTS = 6,
     CELL_MODE = 3,
     SSD_PARTITIONS = 1,
     NAND_CHANNELS = 8,
     LUNS_PER_NAND_CH = 4,
     PLNS_PER_LUN = 1,
     FLASH_PAGE_SIZE = KB 32,
     ONESHOT_PAGE_SIZE = KB 32 * 3,
     BLKS_PER_PLN = 0,
     BLK_SIZE = GB 2 div (8 * 4),
     MAX_CH_XFER_SIZE = KB 32,
     WRITE_UNIT_SIZE = 512,
     NAND_CHANNEL_BANDWIDTH = 450,
     PCIE_BANDWIDTH = 3050,
     NAND_4KB_READ_LATENCY_LSB = 50000,
     NAND_4KB_READ_LATENCY_MSB = 50000,
     NAND_4KB_READ_LATENCY_CSB = 50000,
     NAND_READ_LATENCY_LSB = 58000,
     NAND_READ_LATENCY_MSB = 58000,
     NAND_READ_LATENCY_CSB = 58000,
     NAND_PROG_LATENCY = 561000,
     NAND_ERASE_LATENCY = 0,
     SLC_PORTION = 0,
     SLC_ONESHOT_PAGE_SIZE = 0,
     NAND_4KB_READ_LATENCY_SLC = 0,
     NAND_READ_LATENCY_SLC = 0,
     NAND_PROG_LATENCY_SLC = 0,
     NAND_ERASE_LATENCY_SLC = 0,
     FW_4KB_READ_LATENCY = 20000,
     FW_READ_LATENCY = 13000,
     FW_WBUF_LATENCY0 = 5600,
     FW_WBUF_LATENCY1 = 600,
     FW_CH_XFER_LATENCY = 0,
     GLOBAL_WB_SIZE = 0,
     ZONE_SIZE = GB 2,
     DIES_PER_ZONE = 8 * 4,
     ZONE_WB_SIZE = 10 * (KB 32 * 3),
     MAX_ZRWA_ZONES = 0,
     ZRWAFG_SIZE = 0,
     ZRWA_SIZE = 0,
     ZRWA_BUFFER_SIZE = 0,
     WRITE_EARLY_COMPLETION = True\<rparr>"

definition LBA_SIZE :: "ssd_config \<Rightarrow> nat" where "LBA_SIZE cfg = 2 ^ LBA_BITS cfg"

definition LBA_TO_BYTE :: "ssd_config \<Rightarrow> nat \<Rightarrow> nat" where
  "LBA_TO_BYTE cfg lba = lba * 2 ^ LBA_BITS cfg"

definition BYTE_TO_LBA :: "ssd_config \<Rightarrow> nat \<Rightarrow> nat" where
  "BYTE_TO_LBA cfg b = b div 2 ^ LBA_BITS cfg"

text \<open>\<open>ENABLE_SLC_CACHE\<close> is defined as 1 for every build.\<close>

definition ENABLE_SLC_CACHE :: bool where "ENABLE_SLC_CACHE \<longleftrightarrow> True"

end
