(* ===== verification/Channel_Model.thy ===== *)
theory Channel_Model
  imports Prelude
begin

text \<open>
  The bandwidth model of a NAND channel or of the PCIe link (\<open>channel_model.c\<close>, \<open>channel_model.h\<close>):
  a ring of time slots of 4 us, each with the credits (128-byte transfer units) still available in
  it. A request takes credits from the slot of its start time onwards and is delayed when it has
  to reach later slots. The wall clock that \<open>chmodel_request\<close> reads is the argument \<open>now\<close>.

  Shown: every request on a well-formed ring returns (the credit loop ends), keeps the ring
  well-formed (in particular every slot outside the window of \<open>valid_len\<close> slots from \<open>head\<close> has all its
  credits), never completes before its request time, and takes exactly the credits that the
  transferred bytes need, or all that are left in the ring.
\<close>

section \<open>Model\<close>

definition NR_CREDIT_ENTRIES :: nat where "NR_CREDIT_ENTRIES = 1024 * 96"
definition UNIT_TIME_INTERVAL :: nat where "UNIT_TIME_INTERVAL = 4000"
definition UNIT_XFER_SIZE :: nat where "UNIT_XFER_SIZE = 128"
definition UNIT_XFER_CREDITS :: nat where "UNIT_XFER_CREDITS = 1"

text \<open>The array \<open>avail_credits[NR_CREDIT_ENTRIES]\<close> is a function of the index; every access of the model
  is below \<open>NR_CREDIT_ENTRIES\<close>. A \<open>credit_t\<close> is a \<open>uint8_t\<close>.\<close>

record channel_model =
  cur_time :: nat
  head :: nat
  valid_len :: nat
  max_credits :: nat
  command_credits :: nat
  xfer_lat :: nat
  avail_credits :: "nat \<Rightarrow> nat"

definition BANDWIDTH_TO_TX_TIME :: "nat \<Rightarrow> nat" where
  "BANDWIDTH_TO_TX_TIME MB_S = UNIT_XFER_SIZE * NS_PER_SEC 1 div MB MB_S"

definition BANDWIDTH_TO_MAX_CREDITS :: "nat \<Rightarrow> nat" where
  "BANDWIDTH_TO_MAX_CREDITS MB_S =
     MB MB_S * UNIT_TIME_INTERVAL div NS_PER_SEC 1 div UNIT_XFER_SIZE * UNIT_XFER_CREDITS"

definition MEMSET :: "(nat \<Rightarrow> nat) \<Rightarrow> nat \<Rightarrow> nat \<Rightarrow> nat \<Rightarrow> (nat \<Rightarrow> nat)" where
  "MEMSET a from v len = (\<lambda>i. if from \<le> i \<and> i < from + len then u8 v else a i)"

definition chmodel_init :: "nat \<Rightarrow> channel_model" where
  "chmodel_init bandwidth =
     (let mc = u32 (BANDWIDTH_TO_MAX_CREDITS bandwidth) in
      \<lparr>cur_time = 0, head = 0, valid_len = 0, max_credits = mc, command_credits = 0,
       xfer_lat = u32 (BANDWIDTH_TO_TX_TIME bandwidth),
       avail_credits = MEMSET (\<lambda>_. 0) 0 mc NR_CREDIT_ENTRIES\<rparr>)"

text \<open>The \<open>while (1)\<close> loop of \<open>chmodel_request\<close>: \<open>None\<close> would be a loop that does not end.\<close>

partial_function (option) credit_loop ::
  "nat \<Rightarrow> (nat \<Rightarrow> nat) \<Rightarrow> nat \<Rightarrow> nat \<Rightarrow> nat \<Rightarrow> ((nat \<Rightarrow> nat) \<times> nat \<times> nat) option" where
  "credit_loop h0 avail pos remaining_credits delay =
     (let consumed_credits = (if remaining_credits \<le> avail pos then remaining_credits else avail pos);
          avail = avail(pos := avail pos - consumed_credits);
          remaining_credits = remaining_credits - consumed_credits
      in if remaining_credits \<noteq> 0
         then let next_pos = (pos + 1) mod NR_CREDIT_ENTRIES
              in if next_pos \<noteq> h0 then credit_loop h0 avail next_pos remaining_credits (delay + 1)
                 else Some (avail, pos, delay)
         else Some (avail, pos, delay))"

text \<open>The first part of \<open>chmodel_request\<close>: the head moves to the slot of the current time and the
  slots it leaves behind get all their credits back.\<close>

definition chmodel_advance :: "channel_model \<Rightarrow> nat \<Rightarrow> channel_model" where
  "chmodel_advance ch now =
     (let offs = u32 (sub64 (now div UNIT_TIME_INTERVAL) (cur_time ch div UNIT_TIME_INTERVAL));
          offs = (if offs < valid_len ch then offs else valid_len ch);
          avail = (if NR_CREDIT_ENTRIES \<le> head ch + offs
                   then MEMSET (MEMSET (avail_credits ch) (head ch) (max_credits ch)
                                  (NR_CREDIT_ENTRIES - head ch))
                          0 (max_credits ch) (offs - (NR_CREDIT_ENTRIES - head ch))
                   else MEMSET (avail_credits ch) (head ch) (max_credits ch) offs)
      in ch\<lparr>avail_credits := avail, head := (head ch + offs) mod NR_CREDIT_ENTRIES, cur_time := now,
            valid_len := valid_len ch - offs\<rparr>)"

definition valid_length :: "nat \<Rightarrow> nat \<Rightarrow> nat" where
  "valid_length h0 pos = (if h0 \<le> pos then pos - h0 + 1 else NR_CREDIT_ENTRIES - (h0 - pos - 1))"

definition chmodel_request :: "channel_model \<Rightarrow> nat \<Rightarrow> nat \<Rightarrow> nat \<Rightarrow> (nat \<times> channel_model) option" where
  "chmodel_request ch now request_time len =
     (let units_to_xfer = u32 (DIV_ROUND_UP len UNIT_XFER_SIZE);
          ch = chmodel_advance ch now
      in do {
        NVMEV_ASSERT (valid_len ch \<le> NR_CREDIT_ENTRIES);
        if request_time < now then Some (request_time, ch)
        else let request_time_offs =
                   u32 (sub64 (request_time div UNIT_TIME_INTERVAL) (now div UNIT_TIME_INTERVAL))
             in if NR_CREDIT_ENTRIES \<le> request_time_offs then Some (request_time, ch)
             else let pos = (head ch + request_time_offs) mod NR_CREDIT_ENTRIES;
                      remaining_credits = u32 (units_to_xfer * UNIT_XFER_CREDITS + command_credits ch)
                  in do {
                    NVMEV_ASSERT (max_credits ch \<noteq> 0);
                    (avail, pos, delay) \<leftarrow> credit_loop (head ch) (avail_credits ch) pos remaining_credits 0;
                    let default_delay = remaining_credits div max_credits ch;
                        vl = (if valid_len ch < valid_length (head ch) pos
                              then valid_length (head ch) pos else valid_len ch);
                        delay = (if default_delay < delay then delay - default_delay else 0);
                        total_latency = u32 (xfer_lat ch * units_to_xfer) + delay * UNIT_TIME_INTERVAL
                    in Some (request_time + total_latency,
                             ch\<lparr>avail_credits := avail, valid_len := vl\<rparr>)
                  }
      })"

section \<open>The credit ring\<close>

text \<open>Slot at distance \<open>i\<close> from the head.\<close>

definition slot :: "channel_model \<Rightarrow> nat \<Rightarrow> nat" where
  "slot ch i = (head ch + i) mod NR_CREDIT_ENTRIES"

definition chm_inv :: "channel_model \<Rightarrow> bool" where
  "chm_inv ch \<longleftrightarrow> head ch < NR_CREDIT_ENTRIES \<and> valid_len ch \<le> NR_CREDIT_ENTRIES \<and>
     0 < max_credits ch \<and> max_credits ch < 2 ^ 8 \<and>
     (\<forall>i < NR_CREDIT_ENTRIES. avail_credits ch i \<le> max_credits ch) \<and>
     (\<forall>i. valid_len ch \<le> i \<and> i < NR_CREDIT_ENTRIES \<longrightarrow> avail_credits ch (slot ch i) = max_credits ch)"

definition credits_left :: "channel_model \<Rightarrow> nat \<Rightarrow> nat" where
  "credits_left ch r = (\<Sum>i \<in> {r..<NR_CREDIT_ENTRIES}. avail_credits ch (slot ch i))"

lemma NR_pos [simp]: "0 < NR_CREDIT_ENTRIES"
  by (simp add: NR_CREDIT_ENTRIES_def)

lemma ring_cases:
  assumes "(h::nat) < n" "i < n"
  shows "(h + i) mod n = (if h + i < n then h + i else h + i - n)"
  using assms by (simp add: mod_if)

lemma ring_inj:
  assumes "(h::nat) < n" "i < n" "j < n" "(h + i) mod n = (h + j) mod n"
  shows "i = j"
  using assms by (auto simp: ring_cases split: if_splits)

lemma ring_surj:
  assumes "(h::nat) < n" "p < n"
  obtains i where "i < n" "p = (h + i) mod n"
proof (cases "h \<le> p")
  case True
  then show ?thesis using that [of "p - h"] assms by simp
next
  case False
  then show ?thesis using that [of "p + n - h"] assms by (simp add: ring_cases)
qed

lemma slot_less [simp]: "slot ch i < NR_CREDIT_ENTRIES"
  by (simp add: slot_def)

lemma slot_inj:
  "head ch < NR_CREDIT_ENTRIES \<Longrightarrow> i < NR_CREDIT_ENTRIES \<Longrightarrow> j < NR_CREDIT_ENTRIES \<Longrightarrow>
   slot ch i = slot ch j \<longleftrightarrow> i = j"
  using ring_inj [of "head ch" NR_CREDIT_ENTRIES i j] by (auto simp: slot_def)

lemma chmodel_init_inv:
  assumes "0 < BANDWIDTH_TO_MAX_CREDITS bw" "BANDWIDTH_TO_MAX_CREDITS bw < 2 ^ 8"
  shows "chm_inv (chmodel_init bw)"
  using assms by (simp add: chm_inv_def chmodel_init_def Let_def MEMSET_def)

text \<open>Both branches of the reset write the \<open>offs\<close> slots from the head, and nothing else.\<close>

lemma advance_avail:
  assumes "head ch < NR_CREDIT_ENTRIES" "offs \<le> NR_CREDIT_ENTRIES" "i < NR_CREDIT_ENTRIES"
  shows "(if NR_CREDIT_ENTRIES \<le> head ch + offs
          then MEMSET (MEMSET a (head ch) m (NR_CREDIT_ENTRIES - head ch)) 0 m
                 (offs - (NR_CREDIT_ENTRIES - head ch))
          else MEMSET a (head ch) m offs) (slot ch i) = (if i < offs then u8 m else a (slot ch i))"
  using assms by (auto simp: MEMSET_def slot_def ring_cases)

lemma chmodel_advance_frame [simp]:
  "max_credits (chmodel_advance ch now) = max_credits ch"
  "xfer_lat (chmodel_advance ch now) = xfer_lat ch"
  "command_credits (chmodel_advance ch now) = command_credits ch"
  by (simp_all add: chmodel_advance_def Let_def)

lemma chmodel_advance_inv:
  assumes inv: "chm_inv ch"
  shows "chm_inv (chmodel_advance ch now)"
proof -
  let ?ch = "chmodel_advance ch now" and ?N = NR_CREDIT_ENTRIES
  obtain offs where offs: "offs \<le> valid_len ch" "head ?ch = (head ch + offs) mod ?N"
    "valid_len ?ch = valid_len ch - offs"
    and av: "\<And>i. i < ?N \<Longrightarrow> avail_credits ?ch (slot ch i) =
      (if i < offs then u8 (max_credits ch) else avail_credits ch (slot ch i))"
  proof -
    let ?o = "u32 (sub64 (now div UNIT_TIME_INTERVAL) (cur_time ch div UNIT_TIME_INTERVAL))"
    let ?offs = "if ?o < valid_len ch then ?o else valid_len ch"
    show ?thesis
      by (rule that [of ?offs])
        (use inv advance_avail [of ch ?offs _ "avail_credits ch" "max_credits ch"]
          in \<open>simp_all add: chmodel_advance_def Let_def chm_inv_def\<close>)
  qed
  have h: "head ch < ?N" "valid_len ch \<le> ?N" and m: "u8 (max_credits ch) = max_credits ch"
    using inv by (auto simp: chm_inv_def)
  have full: "avail_credits ch (slot ch i) = max_credits ch" if "valid_len ch \<le> i" "i < ?N" for i
    using inv that by (simp add: chm_inv_def)
  have le: "avail_credits ch (slot ch i) \<le> max_credits ch" for i
    using inv slot_less [of ch i] unfolding chm_inv_def by blast
  have sl: "slot ?ch i = (if i + offs < ?N then slot ch (i + offs) else slot ch (i + offs - ?N))"
    if "i < ?N" for i
  proof -
    have "slot ?ch i = (head ch + (i + offs)) mod ?N"
      unfolding slot_def offs(2) by (simp add: mod_simps ac_simps)
    then show ?thesis using that by (simp add: slot_def mod_if)
  qed
  have "avail_credits ?ch p \<le> max_credits ch" if "p < ?N" for p
  proof -
    obtain i where i: "i < ?N" "p = (head ch + i) mod ?N" using ring_surj [OF h(1) \<open>p < ?N\<close>] by blast
    then have "p = slot ch i" by (simp add: slot_def)
    then show ?thesis using av [OF i(1)] m le by simp
  qed
  moreover have "avail_credits ?ch (slot ?ch i) = max_credits ch"
    if i: "valid_len ch - offs \<le> i" "i < ?N" for i
  proof (cases "i + offs < ?N")
    case True
    then show ?thesis using i sl [OF i(2)] av [OF True] full [of "i + offs"] m by simp
  next
    case False
    have lt: "i + offs - ?N < ?N" "i + offs - ?N < offs" using i False offs(1) h(2) by linarith+
    then show ?thesis using sl [OF i(2)] False av [OF lt(1)] m by simp
  qed
  ultimately show ?thesis
    using inv offs h unfolding chm_inv_def by simp
qed

text \<open>The credit loop, seen from the head: it starts at distance \<open>r\<close> and stops at distance \<open>r'\<close>.\<close>

lemma credit_loop_ok:
  assumes h: "h0 < n" and n: "n = NR_CREDIT_ENTRIES" and r: "r < n"
    and le: "\<forall>i < n. av i \<le> M"
  defines "s \<equiv> \<lambda>i. (h0 + i) mod n"
  shows "\<exists>av' r'. credit_loop h0 av (s r) rem dl = Some (av', s r', dl + (r' - r)) \<and>
           r \<le> r' \<and> r' < n \<and> (\<forall>i < n. av' i \<le> av i) \<and>
           (\<forall>i < n. i < r \<or> r' < i \<longrightarrow> av' (s i) = av (s i)) \<and>
           (\<Sum>i \<in> {r..<n}. av' (s i)) + min rem (\<Sum>i \<in> {r..<n}. av (s i)) = (\<Sum>i \<in> {r..<n}. av (s i))"
  using r le
proof (induction "n - r" arbitrary: r av rem dl)
  case 0
  then show ?case by simp
next
  case (Suc k)
  let ?c = "min rem (av (s r))"
  let ?av = "av(s r := av (s r) - ?c)"
  have inj: "s i = s j \<longleftrightarrow> i = j" if "i < n" "j < n" for i j
    using ring_inj [OF h that] by (auto simp: s_def)
  have lt: "s i < n" for i using Suc.prems(1) by (simp add: s_def)
  have sum1: "(\<Sum>i \<in> {r..<n}. f (s i)) = f (s r) + (\<Sum>i \<in> {Suc r..<n}. f (s i))" for f :: "nat \<Rightarrow> nat"
    using Suc.prems(1) by (simp add: sum.atLeast_Suc_lessThan)
  have eq: "(\<Sum>i \<in> {Suc r..<n}. ?av (s i)) = (\<Sum>i \<in> {Suc r..<n}. av (s i))"
    using inj Suc.prems(1) by (intro sum.cong) auto
  have unf: "credit_loop h0 av (s r) rem dl =
      (if rem - ?c \<noteq> 0 then (if (s r + 1) mod n \<noteq> h0 then credit_loop h0 ?av ((s r + 1) mod n) (rem - ?c) (dl + 1)
         else Some (?av, s r, dl)) else Some (?av, s r, dl))"
    by (subst credit_loop.simps) (simp add: Let_def n min_def)
  have nxt: "(s r + 1) mod n = s (Suc r)" by (simp add: s_def mod_Suc_eq)
  have last: "s (Suc r) = h0 \<longleftrightarrow> Suc r = n"
    using h Suc.prems(1) by (auto simp: s_def ring_cases mod_if)
  show ?case
  proof (cases "rem - ?c \<noteq> 0 \<and> Suc r < n")
    case True
    then have c: "?c = av (s r)" by simp
    have "k = n - Suc r" using Suc.hyps(2) by simp
    moreover have "\<forall>i < n. ?av i \<le> M" using Suc.prems(2) by (auto intro: order_trans [OF diff_le_self])
    ultimately obtain av' r' where
      ih: "credit_loop h0 ?av (s (Suc r)) (rem - ?c) (dl + 1) = Some (av', s r', dl + 1 + (r' - Suc r))"
      "Suc r \<le> r'" "r' < n" "\<forall>i < n. av' i \<le> ?av i"
      "\<forall>i < n. i < Suc r \<or> r' < i \<longrightarrow> av' (s i) = ?av (s i)"
      "(\<Sum>i \<in> {Suc r..<n}. av' (s i)) + min (rem - ?c) (\<Sum>i \<in> {Suc r..<n}. ?av (s i)) =
       (\<Sum>i \<in> {Suc r..<n}. ?av (s i))"
      using Suc.hyps(1) [of "Suc r" ?av "rem - ?c" "dl + 1"] True by blast
    have run: "credit_loop h0 av (s r) rem dl = Some (av', s r', dl + (r' - r))"
      using unf nxt last True ih(1,2) by (simp del: fun_upd_apply)
    have le': "av' i \<le> av i" if "i < n" for i
      using ih(4) that by (metis diff_le_self fun_upd_apply order_trans)
    have same: "av' (s i) = av (s i)" if "i < n" "i < r \<or> r' < i" for i
      using ih(2,5) that inj [of i r] Suc.prems(1) by auto
    have avr: "av' (s r) = 0" using ih(5) Suc.prems(1) c by simp
    have "(\<Sum>i \<in> {r..<n}. av' (s i)) + min rem (\<Sum>i \<in> {r..<n}. av (s i)) = (\<Sum>i \<in> {r..<n}. av (s i))"
      unfolding sum1 [of av] sum1 [of av'] avr using ih(6) [unfolded eq] c True by linarith
    then show ?thesis using run ih(2,3) le' same by (intro exI conjI) (assumption | simp)+
  next
    case False
    have run: "credit_loop h0 av (s r) rem dl = Some (?av, s r, dl)"
      using unf nxt last False Suc.prems(1) by (auto simp del: fun_upd_apply)
    have e: "?c = rem \<or> Suc r = n" using False Suc.prems(1) by auto
    have "(\<Sum>i \<in> {r..<n}. ?av (s i)) + min rem (\<Sum>i \<in> {r..<n}. av (s i)) = (\<Sum>i \<in> {r..<n}. av (s i))"
      unfolding sum1 [of av] sum1 [of ?av] eq using e by auto
    moreover have "?av (s i) = av (s i)" if "i < n" "i < r \<or> r < i" for i
      using that inj [of i r] Suc.prems(1) by auto
    moreover have "?av i \<le> av i" for i by simp
    ultimately show ?thesis using run Suc.prems(1) by (intro exI [of _ ?av] exI [of _ r]) auto
  qed
qed

text \<open>The window invariant after the loop has taken credits up to distance \<open>r'\<close>.\<close>

lemma take_credits_inv:
  assumes inv: "chm_inv ch" and r': "r' < NR_CREDIT_ENTRIES"
    and le: "\<forall>i < NR_CREDIT_ENTRIES. av i \<le> avail_credits ch i"
    and same: "\<forall>i < NR_CREDIT_ENTRIES. r' < i \<longrightarrow> av (slot ch i) = avail_credits ch (slot ch i)"
    and vl: "vl = max (valid_len ch) (Suc r')"
  shows "chm_inv (ch\<lparr>avail_credits := av, valid_len := vl\<rparr>)"
proof -
  let ?ch = "ch\<lparr>avail_credits := av, valid_len := vl\<rparr>"
  have "av i \<le> max_credits ch" if "i < NR_CREDIT_ENTRIES" for i
    using inv le that unfolding chm_inv_def by (meson order_trans)
  moreover have "av (slot ?ch i) = max_credits ch" if "vl \<le> i" "i < NR_CREDIT_ENTRIES" for i
    using inv same that vl by (simp add: chm_inv_def slot_def)
  ultimately show ?thesis
    using inv r' vl by (simp add: chm_inv_def)
qed

lemma ring_distance:
  assumes "head ch < NR_CREDIT_ENTRIES" "r < NR_CREDIT_ENTRIES"
  shows "valid_length (head ch) (slot ch r) = Suc r"
  using assms by (auto simp: valid_length_def slot_def ring_cases)

definition request_offs :: "nat \<Rightarrow> nat \<Rightarrow> nat" where
  "request_offs request_time now =
     u32 (sub64 (request_time div UNIT_TIME_INTERVAL) (now div UNIT_TIME_INTERVAL))"

definition request_credits :: "channel_model \<Rightarrow> nat \<Rightarrow> nat" where
  "request_credits ch len =
     u32 (u32 (DIV_ROUND_UP len UNIT_XFER_SIZE) * UNIT_XFER_CREDITS + command_credits ch)"

lemma chmodel_request_late:
  assumes "chm_inv ch" "request_time < now \<or> NR_CREDIT_ENTRIES \<le> request_offs request_time now"
  shows "chmodel_request ch now request_time len = Some (request_time, chmodel_advance ch now)"
  using assms chmodel_advance_inv [OF assms(1), of now]
  by (auto simp: chmodel_request_def request_offs_def Let_def chm_inv_def)

lemma chmodel_request_taken:
  assumes inv: "chm_inv ch" and now: "now \<le> request_time"
    and r: "request_offs request_time now < NR_CREDIT_ENTRIES"
  defines "ch1 \<equiv> chmodel_advance ch now" and "r \<equiv> request_offs request_time now"
  shows "\<exists>t ch'. chmodel_request ch now request_time len = Some (t, ch') \<and> request_time \<le> t \<and>
     chm_inv ch' \<and> max_credits ch' = max_credits ch \<and> head ch' = head ch1 \<and>
     credits_left ch' r + min (request_credits ch len) (credits_left ch1 r) = credits_left ch1 r"
proof -
  let ?N = NR_CREDIT_ENTRIES
  have inv1: "chm_inv ch1" unfolding ch1_def by (rule chmodel_advance_inv [OF inv])
  then have h: "head ch1 < ?N" "valid_len ch1 \<le> ?N" "max_credits ch1 \<noteq> 0"
    and le: "\<forall>i < ?N. avail_credits ch1 i \<le> max_credits ch1"
    by (simp_all add: chm_inv_def)
  obtain av r' where run: "credit_loop (head ch1) (avail_credits ch1) (slot ch1 r)
        (request_credits ch len) 0 = Some (av, slot ch1 r', 0 + (r' - r))"
    and r': "r \<le> r'" "r' < ?N"
    and av: "\<forall>i < ?N. av i \<le> avail_credits ch1 i"
      "\<forall>i < ?N. i < r \<or> r' < i \<longrightarrow> av (slot ch1 i) = avail_credits ch1 (slot ch1 i)"
    and sum: "(\<Sum>i \<in> {r..<?N}. av (slot ch1 i)) + min (request_credits ch len) (credits_left ch1 r) =
      credits_left ch1 r"
    using credit_loop_ok [OF h(1) refl r le, folded r_def, of "request_credits ch len" 0]
    unfolding slot_def credits_left_def by blast
  let ?ch = "ch1\<lparr>avail_credits := av, valid_len := max (valid_len ch1) (Suc r')\<rparr>"
  obtain d where eq: "chmodel_request ch now request_time len = Some (request_time + d, ?ch)"
    using now r h run ring_distance [OF h(1) r'(2)]
    by (simp add: chmodel_request_def Let_def ch1_def r_def request_offs_def
        request_credits_def slot_def max_def)
  have "chm_inv ?ch" by (rule take_credits_inv [OF inv1 r'(2) av(1)]) (use av(2) in auto)
  moreover have "credits_left ?ch r = (\<Sum>i \<in> {r..<?N}. av (slot ch1 i))"
    by (simp add: credits_left_def slot_def)
  moreover have "max_credits ?ch = max_credits ch" "head ?ch = head ch1" by (simp_all add: ch1_def)
  ultimately show ?thesis unfolding eq using sum by (intro exI conjI) (rule refl | simp)+
qed

text \<open>The contract of the model towards the SSD: a request returns, not before its start.\<close>

lemma chmodel_request_ok:
  assumes "chm_inv ch"
  shows "\<exists>t ch'. chmodel_request ch now request_time len = Some (t, ch') \<and> request_time \<le> t \<and> chm_inv ch'"
proof (cases "request_time < now \<or> NR_CREDIT_ENTRIES \<le> request_offs request_time now")
  case True
  then show ?thesis using chmodel_request_late [OF assms True] chmodel_advance_inv [OF assms] by simp
next
  case False
  then show ?thesis using chmodel_request_taken [OF assms] by (meson not_le)
qed

end
