(* ===== verification/Ssd.thy ===== *)
theory Ssd
  imports Ssd_Config Channel_Model
begin

text \<open>
  The flash back end of \<open>ssd.c\<close> and \<open>ssd.h\<close>: geometry (\<open>ssd_init_params\<close>, \<open>ssd_init_params_slc\<close>), the tree of
  channels, LUNs, planes, blocks and pages with its constructors, the write buffer, and the timing
  of NAND commands (\<open>ssd_advance_nand\<close>, \<open>ssd_advance_pcie\<close>, \<open>ssd_advance_write_buffer\<close>,
  \<open>ssd_next_idle_time\<close>).

  The clock \<open>cpu_clock()\<close> that the code reads is an arbitrary sequence of readings kept in the
  state (\<open>clk\<close>, with the number of readings done so far, \<open>tick\<close>). Pointers into the NAND tree are
  physical page addresses: \<open>get_blk\<close> follows one for reading, \<open>upd_blk\<close> writes through it. \<open>kmalloc\<close>
  succeeds, and a field that the constructors leave uninitialised holds an arbitrary number.
\<close>

section \<open>Data\<close>

datatype pg_status = PG_FREE | PG_INVALID | PG_VALID

datatype sec_status = SEC_FREE | SEC_INVALID | SEC_VALID

definition NAND_READ :: nat where "NAND_READ = 0"
definition NAND_WRITE :: nat where "NAND_WRITE = 1"
definition NAND_ERASE :: nat where "NAND_ERASE = 2"
definition NAND_NOP :: nat where "NAND_NOP = 3"

datatype io_type = USER_IO | GC_IO

text \<open>The bit-field view of \<open>struct ppa\<close> (16, 16, 8, 8, 8 and 8 bits) and its 64-bit view.\<close>

record ppa =
  p_pg :: nat
  p_blk :: nat
  p_pl :: nat
  p_lun :: nat
  p_ch :: nat
  p_rsv :: nat

definition ppa_val :: "ppa \<Rightarrow> nat" where
  "ppa_val a = p_pg a + 2 ^ 16 * (p_blk a + 2 ^ 16 * (p_pl a + 2 ^ 8 * (p_lun a +
                 2 ^ 8 * (p_ch a + 2 ^ 8 * p_rsv a))))"

definition zero_ppa :: ppa where
  "zero_ppa = \<lparr>p_pg = 0, p_blk = 0, p_pl = 0, p_lun = 0, p_ch = 0, p_rsv = 0\<rparr>"

definition ones_ppa :: ppa where
  "ones_ppa = \<lparr>p_pg = 2 ^ 16 - 1, p_blk = 2 ^ 16 - 1, p_pl = 2 ^ 8 - 1, p_lun = 2 ^ 8 - 1,
               p_ch = 2 ^ 8 - 1, p_rsv = 2 ^ 8 - 1\<rparr>"

definition UNMAPPED_PPA :: nat where "UNMAPPED_PPA = 2 ^ 64 - 1"
definition INVALID_LPN :: nat where "INVALID_LPN = 2 ^ 64 - 1"

text \<open>\<open>blk_in_ssd\<close> of the third view: block, plane, LUN and channel as one 40-bit number.\<close>

definition blk_in_ssd :: "ppa \<Rightarrow> nat" where
  "blk_in_ssd a = p_blk a + 2 ^ 16 * (p_pl a + 2 ^ 8 * (p_lun a + 2 ^ 8 * p_ch a))"

record nand_page =
  sec :: "sec_status list"
  nsecs :: nat
  status :: pg_status

record nand_block =
  pgs :: "nand_page list"
  npgs :: nat
  ipc :: nat
  vpc :: nat
  erase_cnt :: nat
  blk_wp :: nat

record nand_plane =
  blks :: "nand_block list"
  next_pln_avail_time :: nat
  nblks :: nat

record nand_lun =
  pls :: "nand_plane list"
  npls :: nat
  next_lun_avail_time :: nat
  busy :: bool
  lun_gc_endtime :: nat

record ssd_channel =
  luns :: "nand_lun list"
  nluns :: nat
  ch_gc_endtime :: nat
  perf_model :: channel_model

record nand_cmd =
  nc_type :: io_type
  nc_cmd :: nat
  nc_xfer_size :: nat
  nc_stime :: nat
  nc_interleave :: bool
  nc_ppa :: ppa

record buffer =
  b_size :: nat
  b_remaining :: nat

record ssdparams =
  secsz :: nat
  secs_per_pg :: nat
  pgsz :: nat
  pgs_per_flashpg :: nat
  flashpgs_per_blk :: nat
  pgs_per_oneshotpg :: nat
  oneshotpgs_per_blk :: nat
  pgs_per_blk :: nat
  blks_per_pl :: nat
  pls_per_lun :: nat
  luns_per_ch :: nat
  nchs :: nat
  cell_mode :: nat
  write_unit_size :: nat
  write_early_completion :: bool
  pg_4kb_rd_lat :: "nat list"
  pg_rd_lat :: "nat list"
  pg_wr_lat :: nat
  blk_er_lat :: nat
  max_ch_xfer_size :: nat
  fw_4kb_rd_lat :: nat
  fw_rd_lat :: nat
  fw_wbuf_lat0 :: nat
  fw_wbuf_lat1 :: nat
  fw_ch_xfer_lat :: nat
  ch_bandwidth :: nat
  pcie_bandwidth :: nat
  secs_per_blk :: nat
  secs_per_pl :: nat
  secs_per_lun :: nat
  secs_per_ch :: nat
  tt_secs :: nat
  pgs_per_pl :: nat
  pgs_per_lun :: nat
  pgs_per_ch :: nat
  tt_pgs :: nat
  blks_per_lun :: nat
  blks_per_ch :: nat
  tt_blks :: nat
  secs_per_line :: nat
  pgs_per_line :: nat
  blks_per_line :: nat
  tt_lines :: nat
  pls_per_ch :: nat
  tt_pls :: nat
  tt_luns :: nat
  pg_4kb_rd_lat_slc :: nat
  pg_rd_lat_slc :: nat
  pg_wr_lat_slc :: nat
  blk_er_lat_slc :: nat
  flashpgs_per_blk_slc :: nat
  oneshotpgs_per_blk_slc :: nat
  pgs_per_oneshotpg_slc :: nat
  pgs_per_blk_slc :: nat
  secs_per_blk_slc :: nat
  secs_per_line_slc :: nat
  pgs_per_line_slc :: nat
  tt_lines_tlc :: nat
  tt_lines_slc :: nat
  write_buffer_size :: nat

record ssd =
  sp :: ssdparams
  chs :: "ssd_channel list"
  pcie :: channel_model
  write_buffer :: buffer
  cpu_nr_dispatcher :: nat
  clk :: "nat \<Rightarrow> nat"
  tick :: nat

section \<open>Geometry\<close>

text \<open>The parameters of a build without SLC cache. The SLC fields of the structure are not
  assigned: they keep what \<open>spp0\<close> holds. (\<open>check_params\<close> is empty.)\<close>

definition ssd_init_params :: "ssd_config \<Rightarrow> ssdparams \<Rightarrow> nat \<Rightarrow> nat \<Rightarrow> ssdparams option" where
  "ssd_init_params cfg spp0 capacity nparts = do {
       NVMEV_ASSERT (nparts \<noteq> 0);
       NVMEV_ASSERT (NAND_CHANNELS cfg mod nparts = 0);
       let capacity = capacity div nparts;
           secsz = LBA_SIZE cfg;
           secs_per_pg = 4096 div LBA_SIZE cfg;
           pgsz = secsz * secs_per_pg;
           nchs = NAND_CHANNELS cfg div nparts;
           pls_per_lun = PLNS_PER_LUN cfg;
           luns_per_ch = LUNS_PER_NAND_CH cfg;
           blk_size = (if 0 < BLKS_PER_PLN cfg
                       then DIV_ROUND_UP capacity (BLKS_PER_PLN cfg * pls_per_lun * luns_per_ch * nchs)
                       else BLK_SIZE cfg);
           blks_per_pl = (if 0 < BLKS_PER_PLN cfg then BLKS_PER_PLN cfg
                          else DIV_ROUND_UP capacity (BLK_SIZE cfg * pls_per_lun * luns_per_ch * nchs))
       in do {
       NVMEV_ASSERT (0 < BLKS_PER_PLN cfg \<or> 0 < BLK_SIZE cfg);
       NVMEV_ASSERT (ONESHOT_PAGE_SIZE cfg mod pgsz = 0 \<and> FLASH_PAGE_SIZE cfg mod pgsz = 0);
       NVMEV_ASSERT (ONESHOT_PAGE_SIZE cfg mod FLASH_PAGE_SIZE cfg = 0);
       let pgs_per_oneshotpg = ONESHOT_PAGE_SIZE cfg div pgsz;
           oneshotpgs_per_blk = DIV_ROUND_UP blk_size (ONESHOT_PAGE_SIZE cfg);
           pgs_per_flashpg = FLASH_PAGE_SIZE cfg div pgsz;
           flashpgs_per_blk = (ONESHOT_PAGE_SIZE cfg div FLASH_PAGE_SIZE cfg) * oneshotpgs_per_blk;
           pgs_per_blk = pgs_per_oneshotpg * oneshotpgs_per_blk;
           secs_per_blk = secs_per_pg * pgs_per_blk;
           secs_per_pl = secs_per_blk * blks_per_pl;
           secs_per_lun = secs_per_pl * pls_per_lun;
           secs_per_ch = secs_per_lun * luns_per_ch;
           pgs_per_pl = pgs_per_blk * blks_per_pl;
           pgs_per_lun = pgs_per_pl * pls_per_lun;
           pgs_per_ch = pgs_per_lun * luns_per_ch;
           blks_per_lun = blks_per_pl * pls_per_lun;
           blks_per_ch = blks_per_lun * luns_per_ch;
           tt_luns = luns_per_ch * nchs;
           pgs_per_line = tt_luns * pgs_per_blk
       in Some \<lparr>secsz = secsz, secs_per_pg = secs_per_pg, pgsz = pgsz, pgs_per_flashpg = pgs_per_flashpg,
        flashpgs_per_blk = flashpgs_per_blk, pgs_per_oneshotpg = pgs_per_oneshotpg,
        oneshotpgs_per_blk = oneshotpgs_per_blk, pgs_per_blk = pgs_per_blk, blks_per_pl = blks_per_pl,
        pls_per_lun = pls_per_lun, luns_per_ch = luns_per_ch, nchs = nchs, cell_mode = CELL_MODE cfg,
        write_unit_size = WRITE_UNIT_SIZE cfg,
        write_early_completion = WRITE_EARLY_COMPLETION cfg,
        pg_4kb_rd_lat = [NAND_4KB_READ_LATENCY_LSB cfg, NAND_4KB_READ_LATENCY_MSB cfg,
                         NAND_4KB_READ_LATENCY_CSB cfg],
        pg_rd_lat = [NAND_READ_LATENCY_LSB cfg, NAND_READ_LATENCY_MSB cfg, NAND_READ_LATENCY_CSB cfg],
        pg_wr_lat = NAND_PROG_LATENCY cfg, blk_er_lat = NAND_ERASE_LATENCY cfg,
        max_ch_xfer_size = MAX_CH_XFER_SIZE cfg, fw_4kb_rd_lat = FW_4KB_READ_LATENCY cfg,
        fw_rd_lat = FW_READ_LATENCY cfg, fw_wbuf_lat0 = FW_WBUF_LATENCY0 cfg,
        fw_wbuf_lat1 = FW_WBUF_LATENCY1 cfg, fw_ch_xfer_lat = FW_CH_XFER_LATENCY cfg,
        ch_bandwidth = NAND_CHANNEL_BANDWIDTH cfg, pcie_bandwidth = PCIE_BANDWIDTH cfg,
        secs_per_blk = secs_per_blk, secs_per_pl = secs_per_pl, secs_per_lun = secs_per_lun,
        secs_per_ch = secs_per_ch, tt_secs = secs_per_ch * nchs,
        pgs_per_pl = pgs_per_pl, pgs_per_lun = pgs_per_lun, pgs_per_ch = pgs_per_ch,
        tt_pgs = pgs_per_ch * nchs, blks_per_lun = blks_per_lun, blks_per_ch = blks_per_ch,
        tt_blks = blks_per_ch * nchs, secs_per_line = pgs_per_line * secs_per_pg,
        pgs_per_line = pgs_per_line, blks_per_line = tt_luns, tt_lines = blks_per_lun,
        pls_per_ch = pls_per_lun * luns_per_ch, tt_pls = pls_per_lun * luns_per_ch * nchs,
        tt_luns = tt_luns,
        pg_4kb_rd_lat_slc = ssdparams.pg_4kb_rd_lat_slc spp0, pg_rd_lat_slc = ssdparams.pg_rd_lat_slc spp0,
        pg_wr_lat_slc = ssdparams.pg_wr_lat_slc spp0, blk_er_lat_slc = ssdparams.blk_er_lat_slc spp0,
        flashpgs_per_blk_slc = ssdparams.flashpgs_per_blk_slc spp0, oneshotpgs_per_blk_slc = ssdparams.oneshotpgs_per_blk_slc spp0,
        pgs_per_oneshotpg_slc = ssdparams.pgs_per_oneshotpg_slc spp0, pgs_per_blk_slc = ssdparams.pgs_per_blk_slc spp0,
        secs_per_blk_slc = ssdparams.secs_per_blk_slc spp0, secs_per_line_slc = ssdparams.secs_per_line_slc spp0,
        pgs_per_line_slc = ssdparams.pgs_per_line_slc spp0, tt_lines_tlc = ssdparams.tt_lines_tlc spp0,
        tt_lines_slc = ssdparams.tt_lines_slc spp0,
        write_buffer_size = GLOBAL_WB_SIZE cfg\<rparr>}}"

text \<open>The parameters of a build with SLC cache: the first \<open>SLC_PORTION\<close> percent of the lines hold
  one bit per cell and so have fewer pages.\<close>

definition ssd_init_params_slc :: "ssd_config \<Rightarrow> nat \<Rightarrow> nat \<Rightarrow> ssdparams option" where
  "ssd_init_params_slc cfg capacity nparts = do {
       NVMEV_ASSERT (nparts \<noteq> 0);
       NVMEV_ASSERT (NAND_CHANNELS cfg mod nparts = 0);
       let capacity = capacity div nparts;
           secsz = LBA_SIZE cfg;
           secs_per_pg = 4096 div LBA_SIZE cfg;
           pgsz = secsz * secs_per_pg;
           nchs = NAND_CHANNELS cfg div nparts;
           pls_per_lun = PLNS_PER_LUN cfg;
           luns_per_ch = LUNS_PER_NAND_CH cfg;
           blk_size = (if 0 < BLKS_PER_PLN cfg
                       then DIV_ROUND_UP capacity (BLKS_PER_PLN cfg * pls_per_lun * luns_per_ch * nchs)
                       else BLK_SIZE cfg);
           blks_per_pl = (if 0 < BLKS_PER_PLN cfg then BLKS_PER_PLN cfg
                          else DIV_ROUND_UP capacity (BLK_SIZE cfg * pls_per_lun * luns_per_ch * nchs))
       in do {
       NVMEV_ASSERT (0 < BLKS_PER_PLN cfg \<or> 0 < BLK_SIZE cfg);
       NVMEV_ASSERT (ONESHOT_PAGE_SIZE cfg mod pgsz = 0 \<and> FLASH_PAGE_SIZE cfg mod pgsz = 0);
       NVMEV_ASSERT (ONESHOT_PAGE_SIZE cfg mod FLASH_PAGE_SIZE cfg = 0);
       let pgs_per_oneshotpg = ONESHOT_PAGE_SIZE cfg div pgsz;
           oneshotpgs_per_blk = DIV_ROUND_UP blk_size (ONESHOT_PAGE_SIZE cfg);
           pgs_per_flashpg = FLASH_PAGE_SIZE cfg div pgsz;
           flashpgs_per_blk = (ONESHOT_PAGE_SIZE cfg div FLASH_PAGE_SIZE cfg) * oneshotpgs_per_blk;
           pgs_per_blk = pgs_per_oneshotpg * oneshotpgs_per_blk;
           oneshotpgs_per_blk_slc = oneshotpgs_per_blk;
           pgs_per_oneshotpg_slc = SLC_ONESHOT_PAGE_SIZE cfg div pgsz;
           pgs_per_blk_slc = pgs_per_oneshotpg_slc * oneshotpgs_per_blk_slc;
           tt_lines_slc = blks_per_pl * SLC_PORTION cfg div 100;
           tt_lines_tlc = blks_per_pl - tt_lines_slc;
           secs_per_blk = secs_per_pg * pgs_per_blk;
           secs_per_blk_slc = secs_per_pg * pgs_per_blk_slc;
           secs_per_pl = secs_per_blk * tt_lines_tlc + secs_per_blk_slc * tt_lines_slc;
           secs_per_lun = secs_per_pl * pls_per_lun;
           secs_per_ch = secs_per_lun * luns_per_ch;
           pgs_per_pl = pgs_per_blk_slc * tt_lines_slc + pgs_per_blk * tt_lines_tlc;
           pgs_per_lun = pgs_per_pl * pls_per_lun;
           pgs_per_ch = pgs_per_lun * luns_per_ch;
           blks_per_lun = blks_per_pl * pls_per_lun;
           blks_per_ch = blks_per_lun * luns_per_ch;
           tt_luns = luns_per_ch * nchs;
           pgs_per_line_slc = tt_luns * pgs_per_blk_slc;
           pgs_per_line = tt_luns * pgs_per_blk
       in do {
       NVMEV_ASSERT (BLKS_PER_PLN cfg = blks_per_pl);
       Some \<lparr>secsz = secsz, secs_per_pg = secs_per_pg, pgsz = pgsz, pgs_per_flashpg = pgs_per_flashpg,
        flashpgs_per_blk = flashpgs_per_blk, pgs_per_oneshotpg = pgs_per_oneshotpg,
        oneshotpgs_per_blk = oneshotpgs_per_blk, pgs_per_blk = pgs_per_blk, blks_per_pl = blks_per_pl,
        pls_per_lun = pls_per_lun, luns_per_ch = luns_per_ch, nchs = nchs, cell_mode = CELL_MODE cfg,
        write_unit_size = WRITE_UNIT_SIZE cfg,
        write_early_completion = WRITE_EARLY_COMPLETION cfg,
        pg_4kb_rd_lat = [NAND_4KB_READ_LATENCY_LSB cfg, NAND_4KB_READ_LATENCY_MSB cfg,
                         NAND_4KB_READ_LATENCY_CSB cfg],
        pg_rd_lat = [NAND_READ_LATENCY_LSB cfg, NAND_READ_LATENCY_MSB cfg, NAND_READ_LATENCY_CSB cfg],
        pg_wr_lat = NAND_PROG_LATENCY cfg, blk_er_lat = NAND_ERASE_LATENCY cfg,
        max_ch_xfer_size = MAX_CH_XFER_SIZE cfg, fw_4kb_rd_lat = FW_4KB_READ_LATENCY cfg,
        fw_rd_lat = FW_READ_LATENCY cfg, fw_wbuf_lat0 = FW_WBUF_LATENCY0 cfg,
        fw_wbuf_lat1 = FW_WBUF_LATENCY1 cfg, fw_ch_xfer_lat = FW_CH_XFER_LATENCY cfg,
        ch_bandwidth = NAND_CHANNEL_BANDWIDTH cfg, pcie_bandwidth = PCIE_BANDWIDTH cfg,
        secs_per_blk = secs_per_blk, secs_per_pl = secs_per_pl, secs_per_lun = secs_per_lun,
        secs_per_ch = secs_per_ch, tt_secs = secs_per_ch * nchs,
        pgs_per_pl = pgs_per_pl, pgs_per_lun = pgs_per_lun, pgs_per_ch = pgs_per_ch,
        tt_pgs = pgs_per_ch * nchs, blks_per_lun = blks_per_lun, blks_per_ch = blks_per_ch,
        tt_blks = blks_per_ch * nchs, secs_per_line = pgs_per_line * secs_per_pg,
        pgs_per_line = pgs_per_line, blks_per_line = tt_luns, tt_lines = blks_per_pl,
        pls_per_ch = pls_per_lun * luns_per_ch, tt_pls = pls_per_lun * luns_per_ch * nchs,
        tt_luns = tt_luns,
        pg_4kb_rd_lat_slc = NAND_4KB_READ_LATENCY_SLC cfg, pg_rd_lat_slc = NAND_READ_LATENCY_SLC cfg,
        pg_wr_lat_slc = NAND_PROG_LATENCY_SLC cfg, blk_er_lat_slc = NAND_ERASE_LATENCY_SLC cfg,
        flashpgs_per_blk_slc = (SLC_ONESHOT_PAGE_SIZE cfg div FLASH_PAGE_SIZE cfg) * oneshotpgs_per_blk_slc,
        oneshotpgs_per_blk_slc = oneshotpgs_per_blk_slc, pgs_per_oneshotpg_slc = pgs_per_oneshotpg_slc,
        pgs_per_blk_slc = pgs_per_blk_slc, secs_per_blk_slc = secs_per_blk_slc,
        secs_per_line_slc = secs_per_pg * pgs_per_line_slc, pgs_per_line_slc = pgs_per_line_slc,
        tt_lines_tlc = tt_lines_tlc, tt_lines_slc = tt_lines_slc,
        write_buffer_size = GLOBAL_WB_SIZE cfg\<rparr>}}}"

section \<open>NAND tree\<close>

definition get_ch :: "ssd \<Rightarrow> ppa \<Rightarrow> ssd_channel option" where
  "get_ch s a = idx (chs s) (p_ch a)"

definition get_lun :: "ssd \<Rightarrow> ppa \<Rightarrow> nand_lun option" where
  "get_lun s a = do { c \<leftarrow> get_ch s a; idx (luns c) (p_lun a) }"

definition get_pl :: "ssd \<Rightarrow> ppa \<Rightarrow> nand_plane option" where
  "get_pl s a = do { l \<leftarrow> get_lun s a; idx (pls l) (p_pl a) }"

definition get_blk :: "ssd \<Rightarrow> ppa \<Rightarrow> nand_block option" where
  "get_blk s a = do { p \<leftarrow> get_pl s a; idx (blks p) (p_blk a) }"

definition get_pg :: "ssd \<Rightarrow> ppa \<Rightarrow> nand_page option" where
  "get_pg s a = do { b \<leftarrow> get_blk s a; idx (pgs b) (p_pg a) }"

text \<open>\<open>get_cell\<close>: a division by zero has no result.\<close>

definition get_cell :: "ssd \<Rightarrow> ppa \<Rightarrow> nat option" where
  "get_cell s a = do {
     NVMEV_ASSERT (pgs_per_flashpg (sp s) \<noteq> 0 \<and> cell_mode (sp s) \<noteq> 0);
     Some (p_pg a div pgs_per_flashpg (sp s) mod cell_mode (sp s)) }"

text \<open>Writes through the pointers that the \<open>get_\<close> functions return.\<close>

definition upd_ch :: "(ssd_channel \<Rightarrow> ssd_channel) \<Rightarrow> ssd \<Rightarrow> ppa \<Rightarrow> ssd" where
  "upd_ch f s a = s\<lparr>chs := modl (chs s) (p_ch a) f\<rparr>"

definition upd_lun :: "(nand_lun \<Rightarrow> nand_lun) \<Rightarrow> ssd \<Rightarrow> ppa \<Rightarrow> ssd" where
  "upd_lun f s a = upd_ch (\<lambda>c. c\<lparr>luns := modl (luns c) (p_lun a) f\<rparr>) s a"

definition upd_pl :: "(nand_plane \<Rightarrow> nand_plane) \<Rightarrow> ssd \<Rightarrow> ppa \<Rightarrow> ssd" where
  "upd_pl f s a = upd_lun (\<lambda>l. l\<lparr>pls := modl (pls l) (p_pl a) f\<rparr>) s a"

definition upd_blk :: "(nand_block \<Rightarrow> nand_block) \<Rightarrow> ssd \<Rightarrow> ppa \<Rightarrow> ssd" where
  "upd_blk f s a = upd_pl (\<lambda>p. p\<lparr>blks := modl (blks p) (p_blk a) f\<rparr>) s a"

definition upd_pg :: "(nand_page \<Rightarrow> nand_page) \<Rightarrow> ssd \<Rightarrow> ppa \<Rightarrow> ssd" where
  "upd_pg f s a = upd_blk (\<lambda>b. b\<lparr>pgs := modl (pgs b) (p_pg a) f\<rparr>) s a"

definition ssd_init_nand_page :: "ssdparams \<Rightarrow> nand_page" where
  "ssd_init_nand_page spp =
     \<lparr>sec = map (\<lambda>i. SEC_FREE) [0..<secs_per_pg spp], nsecs = secs_per_pg spp, status = PG_FREE\<rparr>"

definition ssd_init_nand_blk :: "ssdparams \<Rightarrow> nand_block" where
  "ssd_init_nand_blk spp =
     \<lparr>pgs = map (\<lambda>i. ssd_init_nand_page spp) [0..<pgs_per_blk spp], npgs = pgs_per_blk spp,
      ipc = 0, vpc = 0, erase_cnt = 0, blk_wp = 0\<rparr>"

definition ssd_init_nand_blk_slc :: "ssdparams \<Rightarrow> nand_block" where
  "ssd_init_nand_blk_slc spp =
     \<lparr>pgs = map (\<lambda>i. ssd_init_nand_page spp) [0..<pgs_per_blk_slc spp], npgs = pgs_per_blk_slc spp,
      ipc = 0, vpc = 0, erase_cnt = 0, blk_wp = 0\<rparr>"

definition ssd_init_nand_plane :: "nat \<Rightarrow> ssdparams \<Rightarrow> nand_plane" where
  "ssd_init_nand_plane junk spp =
     \<lparr>blks = map (\<lambda>i. if i < tt_lines_slc spp then ssd_init_nand_blk_slc spp
                     else ssd_init_nand_blk spp) [0..<blks_per_pl spp],
      next_pln_avail_time = junk, nblks = blks_per_pl spp\<rparr>"

definition ssd_init_nand_lun :: "nat \<Rightarrow> ssdparams \<Rightarrow> nand_lun" where
  "ssd_init_nand_lun junk spp =
     \<lparr>pls = map (\<lambda>i. ssd_init_nand_plane junk spp) [0..<pls_per_lun spp], npls = pls_per_lun spp,
      next_lun_avail_time = 0, busy = False, lun_gc_endtime = junk\<rparr>"

definition ssd_init_ch :: "nat \<Rightarrow> ssdparams \<Rightarrow> ssd_channel" where
  "ssd_init_ch junk spp =
     (let m = chmodel_init (ch_bandwidth spp)
      in \<lparr>luns = map (\<lambda>i. ssd_init_nand_lun junk spp) [0..<luns_per_ch spp], nluns = luns_per_ch spp,
          ch_gc_endtime = junk,
          perf_model = m\<lparr>xfer_lat := u32 (xfer_lat m + fw_ch_xfer_lat spp * UNIT_XFER_SIZE div KB 4)\<rparr>\<rparr>)"

definition ssd_init_pcie :: "ssdparams \<Rightarrow> channel_model" where
  "ssd_init_pcie spp = chmodel_init (pcie_bandwidth spp)"

section \<open>Write buffer\<close>

definition buffer_init :: "nat \<Rightarrow> buffer" where
  "buffer_init sz = \<lparr>b_size = sz, b_remaining = sz\<rparr>"

text \<open>All or nothing: the number of bytes granted is the number asked for or 0.\<close>

definition buffer_allocate :: "buffer \<Rightarrow> nat \<Rightarrow> (nat \<times> buffer) option" where
  "buffer_allocate buf sz = do {
     NVMEV_ASSERT (sz \<le> b_size buf);
     let sz = (if b_remaining buf < sz then 0 else sz)
     in Some (u32 sz, buf\<lparr>b_remaining := b_remaining buf - sz\<rparr>) }"

definition buffer_release :: "buffer \<Rightarrow> nat \<Rightarrow> buffer" where
  "buffer_release buf sz = buf\<lparr>b_remaining := u64 (b_remaining buf + sz)\<rparr>"

definition buffer_refill :: "buffer \<Rightarrow> buffer" where
  "buffer_refill buf = buf\<lparr>b_remaining := b_size buf\<rparr>"

definition ssd_init :: "nat \<Rightarrow> (nat \<Rightarrow> nat) \<Rightarrow> ssdparams \<Rightarrow> nat \<Rightarrow> ssd" where
  "ssd_init junk clock spp cpu_nr =
     \<lparr>sp = spp, chs = map (\<lambda>i. ssd_init_ch junk spp) [0..<nchs spp], pcie = ssd_init_pcie spp,
      write_buffer = buffer_init (write_buffer_size spp), cpu_nr_dispatcher = cpu_nr,
      clk = clock, tick = 0\<rparr>"

section \<open>Timing\<close>

definition get_ioclock :: "ssd \<Rightarrow> nat \<times> ssd" where
  "get_ioclock s = (clk s (tick s), s\<lparr>tick := tick s + 1\<rparr>)"

text \<open>\<open>chmodel_request\<close> on the channel of an address, and on the PCIe link.\<close>

definition ch_request :: "ssd \<Rightarrow> ppa \<Rightarrow> nat \<Rightarrow> nat \<Rightarrow> (nat \<times> ssd) option" where
  "ch_request s a request_time len = do {
     c \<leftarrow> get_ch s a;
     let (now, s) = get_ioclock s
     in do { (t, m) \<leftarrow> chmodel_request (perf_model c) now request_time len;
             Some (t, upd_ch (\<lambda>c. c\<lparr>perf_model := m\<rparr>) s a) } }"

definition ssd_advance_pcie :: "ssd \<Rightarrow> nat \<Rightarrow> nat \<Rightarrow> (nat \<times> ssd) option" where
  "ssd_advance_pcie s request_time len =
     (let (now, s) = get_ioclock s
      in do { (t, m) \<leftarrow> chmodel_request (pcie s) now request_time len; Some (t, s\<lparr>pcie := m\<rparr>) })"

definition ssd_advance_write_buffer :: "ssd \<Rightarrow> nat \<Rightarrow> nat \<Rightarrow> (nat \<times> ssd) option" where
  "ssd_advance_write_buffer s request_time len =
     (let nsecs_latest = request_time + fw_wbuf_lat0 (sp s);
          nsecs_latest = nsecs_latest + fw_wbuf_lat1 (sp s) * DIV_ROUND_UP len (KB 4)
      in ssd_advance_pcie s nsecs_latest len)"

text \<open>The transfer loop of a NAND read: chunks of at most \<open>max_ch_xfer_size\<close> bytes through the
  channel and, when \<open>interleave_pci_dma\<close> is set, on through PCIe. The result has the last values of
  \<open>chnl_etime\<close> and \<open>completed_time\<close>, which are uninitialised (\<open>None\<close>) when nothing is transferred.\<close>

partial_function (option) read_xfer_loop ::
  "ssd \<Rightarrow> nand_cmd \<Rightarrow> nat \<Rightarrow> nat \<Rightarrow> (nat \<times> nat) option \<Rightarrow> ((nat \<times> nat) option \<times> ssd) option" where
  "read_xfer_loop s ncmd chnl_stime remaining xf =
     (if remaining = 0 then Some (xf, s)
      else let xfer_size = min remaining (max_ch_xfer_size (sp s))
           in do {
             (chnl_etime, s) \<leftarrow> ch_request s (nc_ppa ncmd) chnl_stime xfer_size;
             (completed_time, s) \<leftarrow> (if nc_interleave ncmd then ssd_advance_pcie s chnl_etime xfer_size
                                    else Some (chnl_etime, s));
             read_xfer_loop s ncmd chnl_etime (remaining - xfer_size) (Some (chnl_etime, completed_time))
           })"

definition set_avail :: "nat \<Rightarrow> ssd \<Rightarrow> ppa \<Rightarrow> ssd" where
  "set_avail t s a = upd_lun (\<lambda>l. l\<lparr>next_lun_avail_time := t\<rparr>) s a"

definition read_lat :: "ssd \<Rightarrow> nand_cmd \<Rightarrow> nat \<Rightarrow> nat option" where
  "read_lat s ncmd cell =
     (let slc = (ENABLE_SLC_CACHE \<and> p_blk (nc_ppa ncmd) < tt_lines_slc (sp s))
      in if nc_xfer_size ncmd = 4096
         then (if slc then Some (pg_4kb_rd_lat_slc (sp s)) else idx (pg_4kb_rd_lat (sp s)) cell)
         else (if slc then Some (pg_rd_lat_slc (sp s)) else idx (pg_rd_lat (sp s)) cell))"

definition write_lat :: "ssd \<Rightarrow> ppa \<Rightarrow> nat" where
  "write_lat s a =
     (if ENABLE_SLC_CACHE \<and> p_blk a < tt_lines_slc (sp s) then pg_wr_lat_slc (sp s) else pg_wr_lat (sp s))"

definition erase_lat :: "ssd \<Rightarrow> ppa \<Rightarrow> nat" where
  "erase_lat s a =
     (if ENABLE_SLC_CACHE \<and> p_blk a < tt_lines_slc (sp s) then blk_er_lat_slc (sp s) else blk_er_lat (sp s))"

text \<open>\<open>ssd_advance_nand\<close> from the point where \<open>cmd_stime\<close> is known.\<close>

definition nand_issue :: "ssd \<Rightarrow> nand_cmd \<Rightarrow> nat \<Rightarrow> (nat \<times> ssd) option" where
  "nand_issue s ncmd cmd_stime =
     (let a = nc_ppa ncmd
      in if ppa_val a = UNMAPPED_PPA then Some (cmd_stime, s)
      else do {
        lun \<leftarrow> get_lun s a;
        cell \<leftarrow> get_cell s a;
        if nc_cmd ncmd = NAND_READ then
          let nand_stime = max (next_lun_avail_time lun) cmd_stime
          in do {
            lat \<leftarrow> read_lat s ncmd cell;
            (xf, s) \<leftarrow> read_xfer_loop s ncmd (nand_stime + lat) (nc_xfer_size ncmd) None;
            (chnl_etime, completed_time) \<leftarrow> xf;
            Some (completed_time, set_avail chnl_etime s a)
          }
        else if nc_cmd ncmd = NAND_WRITE then
          let chnl_stime = max (next_lun_avail_time lun) cmd_stime
          in do {
            (chnl_etime, s) \<leftarrow> ch_request s a chnl_stime (nc_xfer_size ncmd);
            let nand_etime = chnl_etime + write_lat s a
            in Some (nand_etime, set_avail nand_etime s a)
          }
        else if nc_cmd ncmd = NAND_ERASE then
          let nand_etime = max (next_lun_avail_time lun) cmd_stime + erase_lat s a
          in Some (nand_etime, set_avail nand_etime s a)
        else if nc_cmd ncmd = NAND_NOP then
          let nand_stime = max (next_lun_avail_time lun) cmd_stime
          in Some (nand_stime, set_avail nand_stime s a)
        else Some (0, s)
      })"

definition ssd_advance_nand :: "ssd \<Rightarrow> nand_cmd \<Rightarrow> (nat \<times> ssd) option" where
  "ssd_advance_nand s ncmd =
     (let (cmd_stime, s) = (if nc_stime ncmd = 0 then get_ioclock s else (nc_stime ncmd, s))
      in nand_issue s ncmd cmd_stime)"

definition ssd_next_idle_time :: "ssd \<Rightarrow> (nat \<times> ssd) option" where
  "ssd_next_idle_time s =
     (let (latest, s) = get_ioclock s
      in do {
        latest \<leftarrow> foldM (\<lambda>i latest. do {
             c \<leftarrow> idx (chs s) i;
             foldM (\<lambda>j latest. do { l \<leftarrow> idx (luns c) j; Some (max latest (next_lun_avail_time l)) })
               [0..<luns_per_ch (sp s)] latest
           }) [0..<nchs (sp s)] latest;
        Some (latest, s)
      })"

end
