(* ===== verification/Pqueue.thy ===== *)
theory Pqueue
  imports Prelude
begin

text \<open>
  The binary-heap priority queue of \<open>pqueue/pqueue.c\<close>. A queue is the C struct: a 1-based array of
  element pointers (\<open>q_d\<close>, slot 0 unused) and the client's callbacks, which read and write the
  priority and the position that the elements themselves store. The elements live in a store
  \<open>'s\<close> that the callbacks read and update, so every operation takes and returns the store.

  The locale \<open>pq_callbacks\<close> is the contract between the queue and its client: what the callbacks
  must satisfy. In it every operation is shown to keep the heap order that the source's own
  checker \<open>pqueue_is_valid\<close> tests, to keep each element's stored position equal to its slot, to
  insert and remove exactly the element asked for, and to touch nothing else of the store.
\<close>

section \<open>Model\<close>

record ('s, 'e) pqueue =
  q_size :: nat
  q_avail :: nat
  q_step :: nat
  cmppri :: "nat \<Rightarrow> nat \<Rightarrow> bool"
  getpri :: "'s \<Rightarrow> 'e \<Rightarrow> nat"
  setpri :: "'s \<Rightarrow> 'e \<Rightarrow> nat \<Rightarrow> 's"
  getpos :: "'s \<Rightarrow> 'e \<Rightarrow> nat"
  setpos :: "'s \<Rightarrow> 'e \<Rightarrow> nat \<Rightarrow> 's"
  q_d :: "'e list"

definition left :: "nat \<Rightarrow> nat" where "left i = 2 * i"
definition right :: "nat \<Rightarrow> nat" where "right i = 2 * i + 1"
definition parent :: "nat \<Rightarrow> nat" where "parent i = i div 2"

text \<open>\<open>kmalloc\<close> leaves the array uninitialised: \<open>junk\<close> is what it holds. Allocation succeeds.\<close>

definition pqueue_init ::
  "'e list \<Rightarrow> nat \<Rightarrow> (nat \<Rightarrow> nat \<Rightarrow> bool) \<Rightarrow> ('s \<Rightarrow> 'e \<Rightarrow> nat) \<Rightarrow> ('s \<Rightarrow> 'e \<Rightarrow> nat \<Rightarrow> 's) \<Rightarrow>
   ('s \<Rightarrow> 'e \<Rightarrow> nat) \<Rightarrow> ('s \<Rightarrow> 'e \<Rightarrow> nat \<Rightarrow> 's) \<Rightarrow> ('s, 'e) pqueue" where
  "pqueue_init junk n cmp gpri spri gpos spos =
     \<lparr>q_size = 1, q_avail = n + 1, q_step = n + 1, cmppri = cmp, getpri = gpri, setpri = spri,
      getpos = gpos, setpos = spos, q_d = take (n + 1) junk\<rparr>"

definition pqueue_size :: "('s, 'e) pqueue \<Rightarrow> nat" where
  "pqueue_size q = q_size q - 1"

text \<open>The loop of \<open>bubble_up\<close>: the hole moves from \<open>i\<close> towards the root while the parent's
  priority ranks behind \<open>moving_pri\<close>.\<close>

function bubble_up_loop ::
  "('s, 'e) pqueue \<Rightarrow> nat \<Rightarrow> 'e list \<Rightarrow> 's \<Rightarrow> nat \<Rightarrow> 'e list \<times> 's \<times> nat" where
  "bubble_up_loop q moving_pri d s i =
     (let parent_node = parent i in
      if 1 < i \<and> cmppri q (getpri q s (d ! parent_node)) moving_pri
      then bubble_up_loop q moving_pri (d[i := d ! parent_node]) (setpos q s (d ! parent_node) i)
             parent_node
      else (d, s, i))"
  by pat_completeness auto
termination
  by (relation "measure (\<lambda>(q, p, d, s, i). i)") (auto simp: parent_def)

definition bubble_up :: "('s, 'e) pqueue \<Rightarrow> 's \<Rightarrow> nat \<Rightarrow> ('s, 'e) pqueue \<times> 's" where
  "bubble_up q s i =
     (let moving_node = q_d q ! i;
          moving_pri = getpri q s moving_node;
          (d, s, i) = bubble_up_loop q moving_pri (q_d q) s i
      in (q\<lparr>q_d := d[i := moving_node]\<rparr>, setpos q s moving_node i))"

definition maxchild :: "('s, 'e) pqueue \<Rightarrow> 'e list \<Rightarrow> 's \<Rightarrow> nat \<Rightarrow> nat" where
  "maxchild q d s i =
     (let child_node = left i in
      if q_size q \<le> child_node then 0
      else if child_node + 1 < q_size q \<and>
              cmppri q (getpri q s (d ! child_node)) (getpri q s (d ! (child_node + 1)))
      then child_node + 1 else child_node)"

lemma maxchild_cases:
  "maxchild q d s i = 0 \<or> (i < maxchild q d s i \<and> maxchild q d s i < q_size q)"
  by (auto simp: maxchild_def left_def Let_def)

function percolate_down_loop ::
  "('s, 'e) pqueue \<Rightarrow> nat \<Rightarrow> 'e list \<Rightarrow> 's \<Rightarrow> nat \<Rightarrow> 'e list \<times> 's \<times> nat" where
  "percolate_down_loop q moving_pri d s i =
     (let child_node = maxchild q d s i in
      if child_node \<noteq> 0 \<and> cmppri q moving_pri (getpri q s (d ! child_node))
      then percolate_down_loop q moving_pri (d[i := d ! child_node])
             (setpos q s (d ! child_node) i) child_node
      else (d, s, i))"
  by pat_completeness auto
termination
proof (relation "measure (\<lambda>(q, p, d, s, i). q_size q - i)", goal_cases)
  case 1
  then show ?case by simp
next
  case (2 q p d s i c)
  then show ?case using maxchild_cases [of q d s i] by auto
qed

definition percolate_down :: "('s, 'e) pqueue \<Rightarrow> 's \<Rightarrow> nat \<Rightarrow> ('s, 'e) pqueue \<times> 's" where
  "percolate_down q s i =
     (let moving_node = q_d q ! i;
          moving_pri = getpri q s moving_node;
          (d, s, i) = percolate_down_loop q moving_pri (q_d q) s i
      in (q\<lparr>q_d := d[i := moving_node]\<rparr>, setpos q s moving_node i))"

text \<open>When the array is full the C code only prints a message and writes behind its end: no
  behaviour. (The queue handle is never NULL in this model.)\<close>

definition pqueue_insert :: "('s, 'e) pqueue \<Rightarrow> 's \<Rightarrow> 'e \<Rightarrow> (('s, 'e) pqueue \<times> 's) option" where
  "pqueue_insert q s e =
     (if q_size q < length (q_d q)
      then let i = q_size q
           in Some (bubble_up (q\<lparr>q_size := q_size q + 1, q_d := (q_d q)[i := e]\<rparr>) s i)
      else None)"

definition pqueue_change_priority ::
  "('s, 'e) pqueue \<Rightarrow> 's \<Rightarrow> nat \<Rightarrow> 'e \<Rightarrow> (('s, 'e) pqueue \<times> 's) option" where
  "pqueue_change_priority q s new_pri e =
     (let old_pri = getpri q s e;
          s = setpri q s e new_pri;
          posn = getpos q s e
      in if posn < length (q_d q)
         then Some (if cmppri q old_pri new_pri then bubble_up q s posn else percolate_down q s posn)
         else None)"

definition pqueue_remove :: "('s, 'e) pqueue \<Rightarrow> 's \<Rightarrow> 'e \<Rightarrow> (('s, 'e) pqueue \<times> 's) option" where
  "pqueue_remove q s e =
     (let posn = getpos q s e in
      if posn < length (q_d q) \<and> 0 < q_size q \<and> q_size q \<le> length (q_d q)
      then let n = q_size q - 1;
               q = q\<lparr>q_size := n, q_d := (q_d q)[posn := q_d q ! n]\<rparr>
           in Some (if cmppri q (getpri q s e) (getpri q s (q_d q ! posn))
                    then bubble_up q s posn else percolate_down q s posn)
      else None)"

text \<open>\<open>pqueue_pop\<close> and \<open>pqueue_peek\<close> return NULL (\<open>None\<close> here) on the empty queue.\<close>

definition pqueue_pop :: "('s, 'e) pqueue \<Rightarrow> 's \<Rightarrow> 'e option \<times> ('s, 'e) pqueue \<times> 's" where
  "pqueue_pop q s =
     (if q_size q = 1 then (None, q, s)
      else let head = q_d q ! 1;
               n = q_size q - 1;
               q = q\<lparr>q_size := n, q_d := (q_d q)[1 := q_d q ! n]\<rparr>
           in (Some head, percolate_down q s 1))"

definition pqueue_peek :: "('s, 'e) pqueue \<Rightarrow> 'e option" where
  "pqueue_peek q = (if q_size q = 1 then None else Some (q_d q ! 1))"

text \<open>The source's checker. At position 0 the recursion of the C code would not end; it is only
  called from the root, position 1.\<close>

function subtree_is_valid :: "('s, 'e) pqueue \<Rightarrow> 's \<Rightarrow> nat \<Rightarrow> bool" where
  "subtree_is_valid q s pos =
     (if pos = 0 then False
      else (if left pos < q_size q
            then \<not> cmppri q (getpri q s (q_d q ! pos)) (getpri q s (q_d q ! left pos)) \<and>
                 subtree_is_valid q s (left pos)
            else True) \<and>
           (if right pos < q_size q
            then \<not> cmppri q (getpri q s (q_d q ! pos)) (getpri q s (q_d q ! right pos)) \<and>
                 subtree_is_valid q s (right pos)
            else True))"
  by pat_completeness auto
termination
  by (relation "measure (\<lambda>(q, s, pos). q_size q - pos)") (auto simp: left_def right_def)

definition pqueue_is_valid :: "('s, 'e) pqueue \<Rightarrow> 's \<Rightarrow> bool" where
  "pqueue_is_valid q s = subtree_is_valid q s 1"

declare bubble_up_loop.simps [simp del] percolate_down_loop.simps [simp del]
  subtree_is_valid.simps [simp del]

text \<open>The elements in the queue, in array order.\<close>

definition live :: "('s, 'e) pqueue \<Rightarrow> 'e list" where
  "live q = map ((!) (q_d q)) [1..<q_size q]"

section \<open>Heap order\<close>

text \<open>Between a node and its parent the order fails to be violated: the form in which the
  invariant is used. It is what \<open>pqueue_is_valid\<close> checks.\<close>

definition heap_at :: "('s, 'e) pqueue \<Rightarrow> 's \<Rightarrow> nat \<Rightarrow> bool" where
  "heap_at q s j \<longleftrightarrow>
     \<not> cmppri q (getpri q s (q_d q ! parent j)) (getpri q s (q_d q ! j))"

lemma subtree_heap_at:
  assumes "subtree_is_valid q s i" and "2 \<le> j" "j < q_size q" and "j div 2 ^ k = i" "i \<noteq> j"
  shows "heap_at q s j"
  using assms
proof (induction q s i arbitrary: k rule: subtree_is_valid.induct)
  case (1 q s i)
  have i0: "i \<noteq> 0" using "1.prems"(1) by (subst (asm) subtree_is_valid.simps) (auto split: if_splits)
  from "1.prems"(4,5) obtain k' where k: "k = Suc k'" by (cases k) auto
  define c where "c = j div 2 ^ k'"
  have ci: "c div 2 = i" using "1.prems"(4) k by (metis c_def div_mult2_eq power_Suc2)
  have cle: "c \<le> j" by (simp add: c_def)
  then have cs: "c < q_size q" using "1.prems"(3) by simp
  have c: "c = left i \<or> c = right i" using ci by (auto simp: left_def right_def)
  have sub: "subtree_is_valid q s c \<and>
      \<not> cmppri q (getpri q s (q_d q ! i)) (getpri q s (q_d q ! c))"
    using "1.prems"(1) i0 c cs by (subst (asm) subtree_is_valid.simps) (auto split: if_splits)
  show ?case
  proof (cases "c = j")
    case True
    then show ?thesis using sub ci by (simp add: heap_at_def parent_def)
  next
    case False
    have ij: "left i < q_size q" if "c = left i" using cs that by simp
    from c show ?thesis
    proof
      assume "c = left i"
      then show ?thesis
        using "1.IH"(1) [OF i0, of k'] sub cs False "1.prems"(2,3) by (auto simp: c_def)
    next
      assume "c = right i"
      then show ?thesis
        using "1.IH"(2) [OF i0, of k'] sub cs False "1.prems"(2,3) by (auto simp: c_def)
    qed
  qed
qed

lemma heap_at_subtree:
  assumes "\<forall>j. 2 \<le> j \<and> j < q_size q \<longrightarrow> heap_at q s j" and "i \<noteq> 0"
  shows "subtree_is_valid q s i"
  using assms
proof (induction q s i rule: subtree_is_valid.induct)
  case (1 q s i)
  have l: "left i < q_size q \<Longrightarrow> heap_at q s (left i)" and r: "right i < q_size q \<Longrightarrow> heap_at q s (right i)"
    using "1.prems" by (auto simp: left_def right_def)
  have p: "parent (left i) = i" "parent (right i) = i" by (auto simp: parent_def left_def right_def)
  have nz: "left i \<noteq> 0" "right i \<noteq> 0" using "1.prems"(2) by (auto simp: left_def right_def)
  show ?case
    using "1.IH" "1.prems" l r p nz
    by (subst subtree_is_valid.simps) (auto simp: heap_at_def)
qed

lemma pqueue_is_valid_iff:
  "pqueue_is_valid q s \<longleftrightarrow> (\<forall>j. 2 \<le> j \<and> j < q_size q \<longrightarrow> heap_at q s j)"
proof
  assume v: "pqueue_is_valid q s"
  show "\<forall>j. 2 \<le> j \<and> j < q_size q \<longrightarrow> heap_at q s j"
  proof (intro allI impI)
    fix j assume j: "2 \<le> j \<and> j < q_size q"
    have "\<exists>k. j div 2 ^ k = 1" using j
    proof (induction j rule: less_induct)
      case (less j)
      show ?case
      proof (cases "j < 4")
        case True
        then have "j div 2 ^ 1 = 1" using less.prems by auto
        then show ?thesis by blast
      next
        case False
        then have "j div 2 < j" "2 \<le> j div 2" "j div 2 < q_size q" using less.prems by auto
        then obtain k where "j div 2 div 2 ^ k = 1" using less.IH by blast
        then have "j div 2 ^ Suc k = 1" by (simp add: div_mult2_eq)
        then show ?thesis by blast
      qed
    qed
    then obtain k where "j div 2 ^ k = 1" ..
    then show "heap_at q s j"
      using subtree_heap_at [of q s 1 j k] v j by (simp add: pqueue_is_valid_def)
  qed
next
  assume "\<forall>j. 2 \<le> j \<and> j < q_size q \<longrightarrow> heap_at q s j"
  then show "pqueue_is_valid q s"
    unfolding pqueue_is_valid_def by (rule heap_at_subtree) simp
qed

section \<open>Contract between the queue and its client\<close>

text \<open>\<open>fixes\<close>: the four callbacks, the comparison, \<open>rest\<close> (all that the client keeps of an element
  apart from its position) and \<open>ok\<close> (the element pointer is valid). \<open>assumes\<close>: reads after writes,
  and that \<open>cmp\<close> ranks priorities (its complement is a total preorder).\<close>

locale pq_callbacks =
  fixes cmp :: "nat \<Rightarrow> nat \<Rightarrow> bool"
    and gpri :: "'s \<Rightarrow> 'e \<Rightarrow> nat"
    and spri :: "'s \<Rightarrow> 'e \<Rightarrow> nat \<Rightarrow> 's"
    and gpos :: "'s \<Rightarrow> 'e \<Rightarrow> nat"
    and spos :: "'s \<Rightarrow> 'e \<Rightarrow> nat \<Rightarrow> 's"
    and rest :: "'s \<Rightarrow> 'r"
    and ok :: "'s \<Rightarrow> 'e \<Rightarrow> bool"
  assumes cmp_irrefl: "\<not> cmp a a"
    and cmp_asym: "cmp a b \<Longrightarrow> \<not> cmp b a"
    and cmp_ntrans: "\<not> cmp a b \<Longrightarrow> \<not> cmp b c \<Longrightarrow> \<not> cmp a c"
    and gpos_spos: "ok s e \<Longrightarrow> gpos (spos s e p) e' = (if e' = e then p else gpos s e')"
    and gpri_spos: "gpri (spos s e p) e' = gpri s e'"
    and rest_spos: "rest (spos s e p) = rest s"
    and ok_spos: "ok (spos s e p) e' = ok s e'"
    and gpri_spri: "ok s e \<Longrightarrow> gpri (spri s e p) e' = (if e' = e then p else gpri s e')"
    and gpos_spri: "gpos (spri s e p) e' = gpos s e'"
    and ok_spri: "ok (spri s e p) e' = ok s e'"
begin

lemmas cb_simps = gpos_spos gpri_spos rest_spos ok_spos gpri_spri gpos_spri ok_spri

definition uses :: "('s, 'e) pqueue \<Rightarrow> bool" where
  "uses q \<longleftrightarrow> cmppri q = cmp \<and> getpri q = gpri \<and> setpri q = spri \<and> getpos q = gpos \<and> setpos q = spos"

text \<open>The representation invariant of a queue in its store.\<close>

definition pq_inv :: "('s, 'e) pqueue \<Rightarrow> 's \<Rightarrow> bool" where
  "pq_inv q s \<longleftrightarrow> uses q \<and> 1 \<le> q_size q \<and> q_size q \<le> length (q_d q) \<and>
     distinct (live q) \<and> (\<forall>j. 1 \<le> j \<and> j < q_size q \<longrightarrow> ok s (q_d q ! j) \<and> gpos s (q_d q ! j) = j) \<and>
     (\<forall>j. 2 \<le> j \<and> j < q_size q \<longrightarrow> heap_at q s j)"

text \<open>State of a sift: slot \<open>i\<close> is a hole for the element \<open>m\<close>; every other slot holds an element
  that knows its slot; \<open>s0\<close> is the store before the sift and \<open>M\<close> the set of elements of the queue.\<close>

definition sift :: "nat \<Rightarrow> 'e \<Rightarrow> 'e set \<Rightarrow> 's \<Rightarrow> 'e list \<Rightarrow> 's \<Rightarrow> nat \<Rightarrow> bool" where
  "sift n m M s0 d s i \<longleftrightarrow>
     1 \<le> i \<and> i < n \<and> n \<le> length d \<and> ok s m \<and>
     set (map ((!) (d[i := m])) [1..<n]) = M \<and> distinct (map ((!) (d[i := m])) [1..<n]) \<and>
     (\<forall>e. gpri s e = gpri s0 e) \<and> rest s = rest s0 \<and> (\<forall>e. ok s e = ok s0 e) \<and>
     (\<forall>e. e \<notin> M \<longrightarrow> gpos s e = gpos s0 e) \<and>
     (\<forall>j. 1 \<le> j \<and> j < n \<and> j \<noteq> i \<longrightarrow> ok s (d ! j) \<and> gpos s (d ! j) = j)"

lemma nth_in_M:
  assumes "set (map ((!) d) [1..<n]) = M" "1 \<le> j" "j < n"
  shows "d ! j \<in> M"
  using assms(2,3) unfolding assms(1) [symmetric] by auto

lemma map_upd_swap:
  assumes "1 \<le> i" "i < n" "1 \<le> j" "j < n" "i \<noteq> j" "n \<le> length d"
  shows "mset (map ((!) (d[i := d ! j, j := m])) [1..<n]) = mset (map ((!) (d[i := m])) [1..<n])"
proof -
  let ?xs = "map ((!) (d[i := m])) [1..<n]"
  have "map ((!) (d[i := d ! j, j := m])) [1..<n] = ?xs[(i - 1) := ?xs ! (j - 1), (j - 1) := ?xs ! (i - 1)]"
    using assms by (auto intro!: nth_equalityI simp: nth_list_update)
  then show ?thesis using assms by (simp only:) (rule mset_swap; simp)
qed

lemma sift_step:
  assumes "sift n m M s0 d s i"
    and "1 \<le> j" "j < n" "j \<noteq> i"
  shows "sift n m M s0 (d[i := d ! j]) (spos s (d ! j) i) j"
proof -
  note s = assms(1) [unfolded sift_def]
  have sw: "mset (map ((!) (d[i := d ! j, j := m])) [1..<n]) = mset (map ((!) (d[i := m])) [1..<n])"
    using map_upd_swap [of i n j d m] s assms(2-4) by simp
  have M: "set (map ((!) (d[i := d ! j, j := m])) [1..<n]) = M"
    and D: "distinct (map ((!) (d[i := d ! j, j := m])) [1..<n])"
    using s mset_eq_setD [OF sw] mset_eq_imp_distinct_iff [OF sw] by simp_all
  have okj: "ok s (d ! j)" using s assms(2-4) by blast
  have dj: "d ! j \<in> M"
    using nth_in_M [of "d[i := m]" n M j] s assms(2-4) by simp
  have inj: "d ! l \<noteq> d ! j" if "1 \<le> l" "l < n" "l \<noteq> i" "l \<noteq> j" for l
    using s assms(2-4) that by metis
  show ?thesis
    unfolding sift_def using s assms(2-4) M D okj dj inj
    by (auto simp: cb_simps nth_list_update)
qed

lemma sift_end:
  assumes "sift n m M s0 d s i"
  shows "set (map ((!) (d[i := m])) [1..<n]) = M" and "distinct (map ((!) (d[i := m])) [1..<n])"
    and "\<forall>j. 1 \<le> j \<and> j < n \<longrightarrow> ok (spos s m i) (d[i := m] ! j) \<and> gpos (spos s m i) (d[i := m] ! j) = j"
    and "\<forall>e. gpri (spos s m i) e = gpri s0 e" and "rest (spos s m i) = rest s0"
    and "\<forall>e. ok (spos s m i) e = ok s0 e"
    and "\<forall>e. e \<notin> M \<longrightarrow> gpos (spos s m i) e = gpos s0 e"
proof -
  note s = assms(1) [unfolded sift_def]
  show M: "set (map ((!) (d[i := m])) [1..<n]) = M" and D: "distinct (map ((!) (d[i := m])) [1..<n])"
    using s by simp_all
  have mM: "m \<in> M" using nth_in_M [OF M, of i] s by simp
  have inj: "d ! j \<noteq> m" if "1 \<le> j" "j < n" "j \<noteq> i" for j
  proof -
    have "inj_on ((!) (d[i := m])) {1..<n}" using D by (simp add: distinct_map)
    then have "d[i := m] ! j \<noteq> d[i := m] ! i" using that s inj_onD [of _ "{1..<n}" j i] by force
    then show ?thesis using that s by simp
  qed
  show "\<forall>j. 1 \<le> j \<and> j < n \<longrightarrow> ok (spos s m i) (d[i := m] ! j) \<and> gpos (spos s m i) (d[i := m] ! j) = j"
    using s inj by (auto simp: cb_simps nth_list_update)
  show "\<forall>e. gpri (spos s m i) e = gpri s0 e" "rest (spos s m i) = rest s0"
    "\<forall>e. ok (spos s m i) e = ok s0 e" using s by (simp_all add: cb_simps)
  show "\<forall>e. e \<notin> M \<longrightarrow> gpos (spos s m i) e = gpos s0 e" using s mM by (auto simp: cb_simps)
qed

text \<open>Heap order on an array: the order holds for every slot \<open>j\<close> that \<open>B\<close> allows.\<close>

definition heap_on :: "('e \<Rightarrow> nat) \<Rightarrow> 'e list \<Rightarrow> nat \<Rightarrow> (nat \<Rightarrow> bool) \<Rightarrow> bool" where
  "heap_on P D n B \<longleftrightarrow> (\<forall>j. 2 \<le> j \<and> j < n \<and> B j \<longrightarrow> \<not> cmp (P (D ! (j div 2))) (P (D ! j)))"

text \<open>The grandparent condition: above the hole everything ranks before the hole's children.\<close>

definition bridge :: "('e \<Rightarrow> nat) \<Rightarrow> 'e list \<Rightarrow> nat \<Rightarrow> nat \<Rightarrow> bool" where
  "bridge P D n i \<longleftrightarrow>
     (\<forall>j. 2 \<le> i \<and> j < n \<and> j div 2 = i \<longrightarrow> \<not> cmp (P (D ! (i div 2))) (P (D ! j)))"

lemma bubble_step:
  assumes "heap_on P D n (\<lambda>j. j \<noteq> i)" "bridge P D n i" "1 < i" "i < n" "n \<le> length D"
    and c: "cmp (P (D ! (i div 2))) (P (D ! i))"
  defines "D' \<equiv> D[i := D ! (i div 2), i div 2 := D ! i]"
  shows "heap_on P D' n (\<lambda>j. j \<noteq> i div 2)" and "bridge P D' n (i div 2)"
proof -
  let ?p = "i div 2"
  have p: "?p \<noteq> i" "?p < n" "0 < ?p" using assms(3,4) by auto
  have D': "D' ! ?p = D ! i" "D' ! i = D ! ?p" "\<And>l. l \<noteq> i \<Longrightarrow> l \<noteq> ?p \<Longrightarrow> D' ! l = D ! l"
    using p assms(4,5) by (simp_all add: D'_def)
  have h: "\<not> cmp (P (D ! (j div 2))) (P (D ! j))" if "2 \<le> j" "j < n" "j \<noteq> i" for j
    using assms(1) that by (auto simp: heap_on_def)
  have b: "\<not> cmp (P (D ! ?p)) (P (D ! j))" if "j < n" "j div 2 = i" for j
    using assms(2,3) that by (auto simp: bridge_def)
  have c': "\<not> cmp (P (D ! i)) (P (D ! ?p))" using cmp_asym [OF c] .
  show "heap_on P D' n (\<lambda>j. j \<noteq> ?p)"
    unfolding heap_on_def
  proof (intro allI impI)
    fix j assume j: "2 \<le> j \<and> j < n \<and> j \<noteq> ?p"
    consider "j = i" | "j \<noteq> i" "j div 2 = i" | "j \<noteq> i" "j div 2 = ?p" | "j \<noteq> i" "j div 2 \<noteq> i" "j div 2 \<noteq> ?p"
      by blast
    then show "\<not> cmp (P (D' ! (j div 2))) (P (D' ! j))"
    proof cases
      case 1
      then show ?thesis using D' c' by simp
    next
      case 2
      then show ?thesis using D' b j by simp
    next
      case 3
      then have "\<not> cmp (P (D ! ?p)) (P (D ! j))" using h [of j] j by simp
      then show ?thesis using 3 D' j c' cmp_ntrans by metis
    next
      case 4
      then show ?thesis using D'(3) [of j] D'(3) [of "j div 2"] h [of j] j by simp
    qed
  qed
  show "bridge P D' n ?p"
    unfolding bridge_def
  proof (intro allI impI)
    fix j assume j: "2 \<le> ?p \<and> j < n \<and> j div 2 = ?p"
    have pp: "?p div 2 \<noteq> i" "?p div 2 \<noteq> ?p" using j assms(3) by auto
    have up: "\<not> cmp (P (D ! (?p div 2))) (P (D ! ?p))" using h [of ?p] j p by simp
    show "\<not> cmp (P (D' ! (?p div 2))) (P (D' ! j))"
    proof (cases "j = i")
      case True
      then show ?thesis using D' pp up by simp
    next
      case False
      have "j \<noteq> ?p" using j by auto
      moreover have "2 \<le> j" using j div_le_dividend [of j 2] by linarith
      then have "\<not> cmp (P (D ! ?p)) (P (D ! j))" using h [of j] j False by auto
      ultimately show ?thesis using False D' pp up cmp_ntrans by metis
    qed
  qed
qed

lemma percolate_step:
  assumes "heap_on P D n (\<lambda>j. j div 2 \<noteq> i)" "bridge P D n i" "1 \<le> i" "n \<le> length D"
    and ch: "ch div 2 = i" "ch < n" "2 \<le> ch"
    and best: "\<And>j. j < n \<Longrightarrow> j div 2 = i \<Longrightarrow> \<not> cmp (P (D ! ch)) (P (D ! j))"
    and c: "cmp (P (D ! i)) (P (D ! ch))"
  defines "D' \<equiv> D[i := D ! ch, ch := D ! i]"
  shows "heap_on P D' n (\<lambda>j. j div 2 \<noteq> ch)" and "bridge P D' n ch"
proof -
  have p: "ch \<noteq> i" "i < n" using assms(3) ch by auto
  have D': "D' ! ch = D ! i" "D' ! i = D ! ch" "\<And>l. l \<noteq> i \<Longrightarrow> l \<noteq> ch \<Longrightarrow> D' ! l = D ! l"
    using p assms(4) ch by (simp_all add: D'_def)
  have h: "\<not> cmp (P (D ! (j div 2))) (P (D ! j))" if "2 \<le> j" "j < n" "j div 2 \<noteq> i" for j
    using assms(1) that by (auto simp: heap_on_def)
  have c': "\<not> cmp (P (D ! ch)) (P (D ! i))" using cmp_asym [OF c] .
  show "heap_on P D' n (\<lambda>j. j div 2 \<noteq> ch)"
    unfolding heap_on_def
  proof (intro allI impI)
    fix j assume j: "2 \<le> j \<and> j < n \<and> j div 2 \<noteq> ch"
    consider "j = ch" | "j \<noteq> ch" "j div 2 = i" | "j = i" | "j \<noteq> i" "j \<noteq> ch" "j div 2 \<noteq> i"
      by blast
    then show "\<not> cmp (P (D' ! (j div 2))) (P (D' ! j))"
    proof cases
      case 1
      then show ?thesis using D' c' ch by simp
    next
      case 2
      moreover have "j \<noteq> i" using 2 assms(3) by auto
      ultimately show ?thesis using D' best j by simp
    next
      case 3
      then have "\<not> cmp (P (D ! (i div 2))) (P (D ! ch))" using assms(2) ch j by (auto simp: bridge_def)
      moreover have "i div 2 \<noteq> i" using assms(3) by auto
      ultimately show ?thesis using 3 D' j by simp
    next
      case 4
      then show ?thesis using D'(3) [of j] D'(3) [of "j div 2"] h [of j] j by simp
    qed
  qed
  show "bridge P D' n ch"
    unfolding bridge_def
  proof (intro allI impI)
    fix j assume j: "2 \<le> ch \<and> j < n \<and> j div 2 = ch"
    then have "j \<noteq> i" "j \<noteq> ch" "j div 2 \<noteq> i" using ch assms(3) p by auto
    moreover have "2 \<le> j" using j div_le_dividend [of j 2] by linarith
    ultimately show "\<not> cmp (P (D' ! (ch div 2))) (P (D' ! j))" using D' h [of j] j ch by simp
  qed
qed

lemma bubble_up_loop_ok:
  assumes "bubble_up_loop q pr d s i = (d', s', i')"
    and "uses q" "sift n m M s0 d s i" "pr = gpri s0 m"
    and "heap_on (gpri s0) (d[i := m]) n (\<lambda>j. j \<noteq> i)" "bridge (gpri s0) (d[i := m]) n i"
  shows "sift n m M s0 d' s' i' \<and> heap_on (gpri s0) (d'[i' := m]) n (\<lambda>j. True) \<and> length d' = length d"
  using assms
proof (induction q pr d s i rule: bubble_up_loop.induct)
  case (1 q pr d s i)
  note sf = "1.prems"(3) [unfolded sift_def]
  have cb: "cmppri q = cmp" "getpri q = gpri" "setpos q = spos" using "1.prems"(2) by (simp_all add: uses_def)
  show ?case
  proof (cases "1 < i \<and> cmp (gpri s (d ! (i div 2))) pr")
    case True
    let ?p = "i div 2"
    have p: "?p \<noteq> i" "1 \<le> ?p" "?p < n" using True sf by auto
    have rec: "bubble_up_loop q pr (d[i := d ! ?p]) (spos s (d ! ?p) i) ?p = (d', s', i')"
      using "1.prems"(1) True cb by (subst (asm) bubble_up_loop.simps) (simp add: parent_def Let_def)
    have eq: "d[i := d ! ?p, ?p := m] = (d[i := m])[i := d[i := m] ! ?p, ?p := d[i := m] ! i]"
      using sf p by (simp add: nth_list_update)
    have "cmp (gpri s0 (d[i := m] ! ?p)) (gpri s0 (d[i := m] ! i))"
      using True sf p "1.prems"(4) by simp
    note st = bubble_step [OF "1.prems"(5,6) conjunct1 [OF True] _ _ this]
    have st': "heap_on (gpri s0) (d[i := d ! ?p, ?p := m]) n (\<lambda>j. j \<noteq> ?p)"
      "bridge (gpri s0) (d[i := d ! ?p, ?p := m]) n ?p"
      unfolding eq using st sf by simp_all
    have "sift n m M s0 (d[i := d ! ?p]) (spos s (d ! ?p) i) ?p"
      by (rule sift_step [OF "1.prems"(3)]) (use p in simp_all)
    from "1.IH" [of ?p] rec this st' "1.prems"(2,4) True cb show ?thesis
      by (simp add: parent_def)
  next
    case False
    then have r: "d' = d" "s' = s" "i' = i"
      using "1.prems"(1) cb by (subst (asm) bubble_up_loop.simps, simp add: parent_def Let_def split: if_splits)+
    have "\<not> cmp (gpri s0 (d[i := m] ! (i div 2))) (gpri s0 (d[i := m] ! i))" if "2 \<le> i"
    proof -
      have "i div 2 \<noteq> i" using that by simp
      then show ?thesis using False sf "1.prems"(4) that by simp
    qed
    then have "heap_on (gpri s0) (d[i := m]) n (\<lambda>j. True)"
      using "1.prems"(5) unfolding heap_on_def by metis
    then show ?thesis using r "1.prems"(3) by simp
  qed
qed

lemma maxchild_best:
  assumes "uses q" "maxchild q d s i = c" "1 \<le> i"
  shows "c = 0 \<Longrightarrow> \<not> (\<exists>j < q_size q. j div 2 = i)"
    and "c \<noteq> 0 \<Longrightarrow> c div 2 = i \<and> c < q_size q \<and> 2 \<le> c"
    and "c \<noteq> 0 \<Longrightarrow> j < q_size q \<Longrightarrow> j div 2 = i \<Longrightarrow> \<not> cmp (gpri s (d ! c)) (gpri s (d ! j))"
proof -
  have two: "j = 2 * i \<or> j = 2 * i + 1" if "j div 2 = i" for j using that by auto
  show "\<not> (\<exists>j < q_size q. j div 2 = i)" if "c = 0"
    using assms that two by (fastforce simp: maxchild_def left_def Let_def split: if_splits)
  show "c div 2 = i \<and> c < q_size q \<and> 2 \<le> c" if "c \<noteq> 0"
    using assms that by (auto simp: maxchild_def left_def Let_def split: if_splits)
  show "\<not> cmp (gpri s (d ! c)) (gpri s (d ! j))" if "c \<noteq> 0" "j < q_size q" "j div 2 = i"
    using two [OF that(3)] assms that(1,2) cmp_irrefl cmp_asym
    by (auto simp: maxchild_def left_def Let_def uses_def split: if_splits)
qed

lemma percolate_down_loop_ok:
  assumes "percolate_down_loop q pr d s i = (d', s', i')"
    and "uses q" "sift n m M s0 d s i" "pr = gpri s0 m" "n = q_size q"
    and "heap_on (gpri s0) (d[i := m]) n (\<lambda>j. j div 2 \<noteq> i)" "bridge (gpri s0) (d[i := m]) n i"
  shows "sift n m M s0 d' s' i' \<and> heap_on (gpri s0) (d'[i' := m]) n (\<lambda>j. True) \<and> length d' = length d"
  using assms
proof (induction q pr d s i rule: percolate_down_loop.induct)
  case (1 q pr d s i)
  note sf = "1.prems"(3) [unfolded sift_def]
  have cb: "cmppri q = cmp" "getpri q = gpri" "setpos q = spos" using "1.prems"(2) by (simp_all add: uses_def)
  define c where "c = maxchild q d s i"
  have i1: "1 \<le> i" using sf by simp
  note mb = maxchild_best [OF "1.prems"(2) c_def [symmetric] i1]
  have oth: "d[i := m] ! j = d ! j" if "j div 2 = i" for j using that i1 by (cases "j = i") auto
  have i: "d[i := m] ! i = m" using sf by simp
  show ?case
  proof (cases "c \<noteq> 0 \<and> cmp pr (gpri s (d ! c))")
    case True
    have cc: "c div 2 = i" "c < n" "2 \<le> c" using mb(2) True "1.prems"(5) by simp_all
    then have ne: "c \<noteq> i" "1 \<le> c" using i1 by auto
    have rec: "percolate_down_loop q pr (d[i := d ! c]) (spos s (d ! c) i) c = (d', s', i')"
      using "1.prems"(1) True cb by (subst (asm) percolate_down_loop.simps) (simp add: c_def Let_def)
    have best: "\<not> cmp (gpri s0 (d[i := m] ! c)) (gpri s0 (d[i := m] ! j))" if "j < n" "j div 2 = i" for j
      using mb(3) [of j] that True sf oth cc "1.prems"(5) by simp
    have "cmp (gpri s0 (d[i := m] ! i)) (gpri s0 (d[i := m] ! c))"
      using True sf i oth cc "1.prems"(4) by simp
    note st = percolate_step [OF "1.prems"(6,7) i1 _ cc best this]
    have eq: "(d[i := m])[i := d[i := m] ! c, c := d[i := m] ! i] = d[i := d ! c, c := m]"
      by (simp only: i oth [OF cc(1)] list_update_overwrite)
    have nd: "n \<le> length (d[i := m])" using sf by simp
    have st': "heap_on (gpri s0) (d[i := d ! c, c := m]) n (\<lambda>j. j div 2 \<noteq> c)"
      "bridge (gpri s0) (d[i := d ! c, c := m]) n c"
      using st [OF nd] by (simp_all only: eq)
    have "sift n m M s0 (d[i := d ! c]) (spos s (d ! c) i) c"
      by (rule sift_step [OF "1.prems"(3)]) (use ne cc in simp_all)
    from "1.IH" [of c] rec this st' "1.prems"(2,4,5) True cb show ?thesis
      by (simp add: c_def)
  next
    case False
    then have r: "d' = d" "s' = s" "i' = i"
      using "1.prems"(1) cb
      by (subst (asm) percolate_down_loop.simps, simp add: c_def Let_def split: if_splits)+
    have "\<not> cmp (gpri s0 (d[i := m] ! i)) (gpri s0 (d[i := m] ! j))" if "j < n" "j div 2 = i" for j
    proof -
      have c0: "c \<noteq> 0" using mb(1) that "1.prems"(5) by auto
      then have "\<not> cmp pr (gpri s (d ! c))" using False by simp
      then have "\<not> cmp pr (gpri s (d ! j))" using mb(3) [OF c0] that "1.prems"(5) cmp_ntrans by blast
      then show ?thesis using i oth that sf "1.prems"(4) by simp
    qed
    then have "heap_on (gpri s0) (d[i := m]) n (\<lambda>j. True)"
      using "1.prems"(6) unfolding heap_on_def by metis
    then show ?thesis using r "1.prems"(3) by simp
  qed
qed

text \<open>What an operation may change of the store: the positions of the elements in \<open>M\<close>.\<close>

definition only_pos :: "'e set \<Rightarrow> 's \<Rightarrow> 's \<Rightarrow> bool" where
  "only_pos M s s' \<longleftrightarrow> (\<forall>e. gpri s' e = gpri s e) \<and> rest s' = rest s \<and> (\<forall>e. ok s' e = ok s e) \<and>
     (\<forall>e. e \<notin> M \<longrightarrow> gpos s' e = gpos s e)"

lemma live_set: "set (live q) = (!) (q_d q) ` {1..<q_size q}"
  by (simp add: live_def)

lemma live_distinct: "distinct (live q) \<longleftrightarrow> inj_on ((!) (q_d q)) {1..<q_size q}"
  by (simp add: live_def distinct_map)

definition sifted :: "('s, 'e) pqueue \<Rightarrow> 's \<Rightarrow> 'e set \<Rightarrow> ('s, 'e) pqueue \<times> 's \<Rightarrow> bool" where
  "sifted q s M r \<longleftrightarrow> (case r of (q', s') \<Rightarrow>
     pq_inv q' s' \<and> set (live q') = M \<and> q_size q' = q_size q \<and> length (q_d q') = length (q_d q) \<and>
     only_pos M s s')"

lemma sift_done:
  assumes "uses q" "n = q_size q" "sift n m M s d s1 i" "length d = length (q_d q)"
    and "heap_on (gpri s) (d[i := m]) n (\<lambda>j. True)"
  shows "sifted q s M (q\<lparr>q_d := d[i := m]\<rparr>, spos s1 m i)"
proof -
  let ?q = "q\<lparr>q_d := d[i := m]\<rparr>" and ?s = "spos s1 m i"
  note e = sift_end [OF assms(3)]
  have u: "uses ?q" using assms(1) by (simp add: uses_def)
  have b: "1 \<le> q_size q" "q_size q \<le> length d" using assms(2,3) by (simp_all add: sift_def)
  have lv: "live ?q = map ((!) (d[i := m])) [1..<n]" using assms(2) by (simp add: live_def)
  have "\<forall>j. 2 \<le> j \<and> j < n \<longrightarrow> heap_at ?q ?s j"
    using assms(1,5) e(4) by (simp add: heap_at_def parent_def heap_on_def uses_def)
  then have "pq_inv ?q ?s"
    using u b e(2,3) assms(2) lv by (auto simp: pq_inv_def)
  then show ?thesis
    using e lv assms(2,4) by (simp add: sifted_def only_pos_def)
qed

lemma bubble_up_ok:
  assumes "uses q" "n = q_size q" "sift n (q_d q ! i) M s (q_d q) s i"
    and "heap_on (gpri s) (q_d q) n (\<lambda>j. j \<noteq> i)" "bridge (gpri s) (q_d q) n i"
  shows "sifted q s M (bubble_up q s i)"
proof -
  obtain d' s' i' where l: "bubble_up_loop q (gpri s (q_d q ! i)) (q_d q) s i = (d', s', i')"
    by (metis prod_cases3)
  have cb: "getpri q = gpri" "setpos q = spos" using assms(1) by (simp_all add: uses_def)
  have r: "bubble_up q s i = (q\<lparr>q_d := d'[i' := q_d q ! i]\<rparr>, spos s' (q_d q ! i) i')"
    using l cb by (simp add: bubble_up_def Let_def)
  from bubble_up_loop_ok [OF l assms(1,3) refl] assms(4,5)
  have "sift n (q_d q ! i) M s d' s' i'" "heap_on (gpri s) (d'[i' := q_d q ! i]) n (\<lambda>j. True)"
    "length d' = length (q_d q)" by simp_all
  then show ?thesis unfolding r using sift_done assms(1,2) by blast
qed

lemma percolate_down_ok:
  assumes "uses q" "n = q_size q" "sift n (q_d q ! i) M s (q_d q) s i"
    and "heap_on (gpri s) (q_d q) n (\<lambda>j. j div 2 \<noteq> i)" "bridge (gpri s) (q_d q) n i"
  shows "sifted q s M (percolate_down q s i)"
proof -
  obtain d' s' i' where l: "percolate_down_loop q (gpri s (q_d q ! i)) (q_d q) s i = (d', s', i')"
    by (metis prod_cases3)
  have cb: "getpri q = gpri" "setpos q = spos" using assms(1) by (simp_all add: uses_def)
  have r: "percolate_down q s i = (q\<lparr>q_d := d'[i' := q_d q ! i]\<rparr>, spos s' (q_d q ! i) i')"
    using l cb by (simp add: percolate_down_def Let_def)
  from percolate_down_loop_ok [OF l assms(1,3) refl assms(2)] assms(4,5)
  have "sift n (q_d q ! i) M s d' s' i'" "heap_on (gpri s) (d'[i' := q_d q ! i]) n (\<lambda>j. True)"
    "length d' = length (q_d q)" by simp_all
  then show ?thesis unfolding r using sift_done assms(1,2) by blast
qed

text \<open>After a change at one slot \<open>i\<close> of a valid queue (a new element or a new priority there),
  whichever of the two sifts the comparison with the old priority selects repairs the order.\<close>

lemma fixup:
  assumes "uses q" "n = q_size q" "sift n (q_d q ! i) M s (q_d q) s i"
    and H: "heap_on (gpri s) (q_d q) n (\<lambda>j. j \<noteq> i \<and> j div 2 \<noteq> i)"
    and up: "2 \<le> i \<Longrightarrow> \<not> cmp (gpri s (q_d q ! (i div 2))) old"
    and down: "\<And>j. j < n \<Longrightarrow> j div 2 = i \<Longrightarrow> \<not> cmp old (gpri s (q_d q ! j))"
  shows "sifted q s M (if cmp old (gpri s (q_d q ! i)) then bubble_up q s i else percolate_down q s i)"
proof -
  let ?new = "gpri s (q_d q ! i)"
  have br: "bridge (gpri s) (q_d q) n i"
    using up down cmp_ntrans unfolding bridge_def by blast
  show ?thesis
  proof (cases "cmp old ?new")
    case True
    have "heap_on (gpri s) (q_d q) n (\<lambda>j. j \<noteq> i)"
      using H down cmp_asym [OF True] cmp_ntrans unfolding heap_on_def by metis
    then show ?thesis using True bubble_up_ok [OF assms(1-3) _ br] by simp
  next
    case False
    have "heap_on (gpri s) (q_d q) n (\<lambda>j. j div 2 \<noteq> i)"
      using H up False cmp_ntrans unfolding heap_on_def by metis
    then show ?thesis using False percolate_down_ok [OF assms(1-3) _ br] by simp
  qed
qed

lemma pq_inv_heap_on:
  assumes "pq_inv q s"
  shows "heap_on (gpri s) (q_d q) (q_size q) (\<lambda>j. True)"
  using assms by (auto simp: pq_inv_def heap_at_def parent_def heap_on_def uses_def)

lemma pq_inv_live:
  assumes "pq_inv q s" "e \<in> set (live q)"
  shows "1 \<le> gpos s e" "gpos s e < q_size q" "q_d q ! gpos s e = e" "ok s e"
proof -
  from assms(2) obtain j where j: "e = q_d q ! j" "1 \<le> j" "j < q_size q" by (auto simp: live_set)
  with assms(1) have "gpos s e = j" "ok s e" by (auto simp: pq_inv_def)
  with j show "1 \<le> gpos s e" "gpos s e < q_size q" "q_d q ! gpos s e = e" "ok s e" by auto
qed

lemma pqueue_init_inv:
  assumes "n < length junk"
  shows "pq_inv (pqueue_init junk n cmp gpri spri gpos spos) s"
    and "live (pqueue_init junk n cmp gpri spri gpos spos) = []"
  using assms by (auto simp: pq_inv_def uses_def pqueue_init_def live_def)

lemma pqueue_insert_ok:
  assumes inv: "pq_inv q s" and e: "ok s e" "e \<notin> set (live q)" and room: "q_size q < length (q_d q)"
  shows "\<exists>q' s'. pqueue_insert q s e = Some (q', s') \<and> pq_inv q' s' \<and>
           set (live q') = insert e (set (live q)) \<and> q_size q' = q_size q + 1 \<and>
           length (q_d q') = length (q_d q) \<and> only_pos (insert e (set (live q))) s s'"
proof -
  let ?n = "q_size q" and ?q = "q\<lparr>q_size := q_size q + 1, q_d := (q_d q)[q_size q := e]\<rparr>"
  have n: "1 \<le> ?n" and u: "uses q" using inv by (simp_all add: pq_inv_def)
  have lv: "map ((!) (q_d ?q)) [1..<?n + 1] = live q @ [e]"
    using room n by (auto simp: live_def)
  have "sift (?n + 1) (q_d ?q ! ?n) (insert e (set (live q))) s (q_d ?q) s ?n"
    using inv e room n lv by (auto simp: sift_def pq_inv_def)
  moreover have "heap_on (gpri s) (q_d ?q) (?n + 1) (\<lambda>j. j \<noteq> ?n)"
    using pq_inv_heap_on [OF inv] room by (auto simp: heap_on_def nth_list_update)
  moreover have "bridge (gpri s) (q_d ?q) (?n + 1) ?n"
    using n by (auto simp: bridge_def)
  ultimately have "sifted ?q s (insert e (set (live q))) (bubble_up ?q s ?n)"
    using u by (intro bubble_up_ok [where n = "?n + 1"]) (simp_all add: uses_def)
  then show ?thesis
    using room by (cases "bubble_up ?q s ?n") (auto simp: pqueue_insert_def Let_def sifted_def)
qed

lemma pqueue_change_priority_ok:
  assumes inv: "pq_inv q s" and e: "e \<in> set (live q)"
  shows "\<exists>q' s'. pqueue_change_priority q s p e = Some (q', s') \<and> pq_inv q' s' \<and>
           set (live q') = set (live q) \<and> q_size q' = q_size q \<and> length (q_d q') = length (q_d q) \<and>
           only_pos (set (live q)) (spri s e p) s'"
proof -
  let ?s = "spri s e p" and ?i = "gpos s e" and ?n = "q_size q"
  note lv = pq_inv_live [OF inv e]
  have u: "uses q" and cb: "cmppri q = cmp" "getpri q = gpri" "setpri q = spri" "getpos q = gpos"
    using inv by (simp_all add: pq_inv_def uses_def)
  have uniq: "q_d q ! j = e \<longleftrightarrow> j = ?i" if "1 \<le> j" "j < ?n" for j
    using inv that lv by (auto simp: pq_inv_def)
  have H: "heap_on (gpri s) (q_d q) ?n (\<lambda>j. True)" using inv by (rule pq_inv_heap_on)
  have same: "gpri ?s (q_d q ! j) = gpri s (q_d q ! j)" if "1 \<le> j" "j < ?n" "j \<noteq> ?i" for j
    using uniq that lv(4) by (simp add: cb_simps)
  have upd: "(q_d q)[?i := e] = q_d q" using lv(3) list_update_id [of "q_d q" ?i] by simp
  have sf: "sift ?n (q_d q ! ?i) (set (live q)) ?s (q_d q) ?s ?i"
    using inv lv upd by (auto simp: sift_def pq_inv_def live_def cb_simps)
  have hp: "heap_on (gpri ?s) (q_d q) ?n (\<lambda>j. j \<noteq> ?i \<and> j div 2 \<noteq> ?i)"
    using H same by (auto simp: heap_on_def)
  have up: "\<not> cmp (gpri ?s (q_d q ! (?i div 2))) (gpri s e)" if "2 \<le> ?i"
    using H same [of "?i div 2"] that lv by (auto simp: heap_on_def)
  have down: "\<not> cmp (gpri s e) (gpri ?s (q_d q ! j))" if "j < ?n" "j div 2 = ?i" for j
  proof -
    have j: "2 \<le> j" "j \<noteq> ?i" using that lv(1) by auto
    then have "\<not> cmp (gpri s (q_d q ! (j div 2))) (gpri s (q_d q ! j))"
      using H that unfolding heap_on_def by blast
    then show ?thesis using same [of j] j that lv(3) by simp
  qed
  have "sifted q ?s (set (live q))
     (if cmp (gpri s e) (gpri ?s (q_d q ! ?i)) then bubble_up q ?s ?i else percolate_down q ?s ?i)"
    by (rule fixup [OF u refl sf hp up down])
  moreover have "gpri ?s (q_d q ! ?i) = p" using lv by (simp add: cb_simps)
  moreover have "?i < length (q_d q)" using inv lv by (simp add: pq_inv_def)
  ultimately show ?thesis
    using lv(4) cb
    by (cases "if cmp (gpri s e) p then bubble_up q ?s ?i else percolate_down q ?s ?i")
      (auto simp: pqueue_change_priority_def Let_def sifted_def cb_simps)
qed

lemma heap_root_best:
  assumes "heap_on P D n (\<lambda>j. True)" "1 \<le> j" "j < n"
  shows "\<not> cmp (P (D ! 1)) (P (D ! j))"
  using assms(2,3)
proof (induction j rule: less_induct)
  case (less j)
  show ?case
  proof (cases "j = 1")
    case True
    then show ?thesis using cmp_irrefl by simp
  next
    case False
    then have j: "2 \<le> j" "j div 2 < j" "1 \<le> j div 2" "j div 2 < n" using less.prems by auto
    then have "\<not> cmp (P (D ! 1)) (P (D ! (j div 2)))" using less.IH by blast
    moreover have "\<not> cmp (P (D ! (j div 2))) (P (D ! j))"
      using assms(1) j(1) less.prems(2) unfolding heap_on_def by blast
    ultimately show ?thesis using cmp_ntrans by blast
  qed
qed

text \<open>\<open>pqueue_peek\<close> gives an element that no element of the queue ranks before; NULL exactly when
  the queue is empty.\<close>

lemma pqueue_peek_ok:
  assumes inv: "pq_inv q s"
  shows "pqueue_peek q = None \<longleftrightarrow> live q = []"
    and "pqueue_peek q = Some e \<Longrightarrow>
      e \<in> set (live q) \<and> (\<forall>x \<in> set (live q). \<not> cmp (gpri s e) (gpri s x))"
proof -
  show "pqueue_peek q = None \<longleftrightarrow> live q = []"
    using inv by (auto simp: pqueue_peek_def live_def pq_inv_def)
  assume "pqueue_peek q = Some e"
  then have e: "e = q_d q ! 1" "1 < q_size q"
    using inv by (auto simp: pqueue_peek_def pq_inv_def split: if_splits)
  have "\<not> cmp (gpri s e) (gpri s x)" if "x \<in> set (live q)" for x
    using that heap_root_best [OF pq_inv_heap_on [OF inv]] e(1) unfolding live_set by auto
  moreover have "e \<in> set (live q)" using e unfolding live_set by auto
  ultimately show "e \<in> set (live q) \<and> (\<forall>x \<in> set (live q). \<not> cmp (gpri s e) (gpri s x))" by blast
qed

lemma live_remove:
  assumes inv: "pq_inv q s" and i: "1 \<le> i" "i < q_size q"
  defines "n \<equiv> q_size q - 1"
  defines "D \<equiv> (q_d q)[i := q_d q ! n]"
  shows "set (map ((!) D) [1..<n]) = set (live q) - {q_d q ! i}" and "distinct (map ((!) D) [1..<n])"
proof -
  have b: "1 \<le> n" "q_size q = Suc n" "n < length (q_d q)" using inv i by (auto simp: pq_inv_def n_def)
  have inj: "inj_on ((!) (q_d q)) {1..<Suc n}" using inv b(2) by (simp add: pq_inv_def live_distinct)
  define f where "f j = (if j = i then n else j)" for j
  have D: "D ! j = q_d q ! f j" if "j < n" for j using that b by (simp add: D_def f_def nth_list_update)
  have f: "inj_on f {1..<n}" "f ` {1..<n} = {1..<Suc n} - {i}"
    using i b(1,2) by (auto simp: f_def inj_on_def image_def split: if_splits)
  have m: "map ((!) D) [1..<n] = map ((!) (q_d q)) (map f [1..<n])" using D by simp
  have "set (map ((!) D) [1..<n]) = (!) (q_d q) ` ({1..<Suc n} - {i})"
    unfolding m using f(2) by (metis image_set list.set_map set_upt)
  also have "\<dots> = (!) (q_d q) ` {1..<Suc n} - {q_d q ! i}"
    using inj_on_image_set_diff [OF inj, of "{1..<Suc n}" "{i}"] i b(2) by simp
  finally show "set (map ((!) D) [1..<n]) = set (live q) - {q_d q ! i}" using b(2) by (simp add: live_set)
  show "distinct (map ((!) D) [1..<n])"
    unfolding m distinct_map
    using f inj by (simp add: inj_on_diff)
qed

text \<open>Removal moves the last element into the slot \<open>i\<close> that became free and sifts it.\<close>

definition removed :: "('s, 'e) pqueue \<Rightarrow> 's \<Rightarrow> 'e \<Rightarrow> ('s, 'e) pqueue \<times> 's \<Rightarrow> bool" where
  "removed q s e r \<longleftrightarrow> (case r of (q', s') \<Rightarrow>
     pq_inv q' s' \<and> set (live q') = set (live q) - {e} \<and> q_size q' = q_size q - 1 \<and>
     length (q_d q') = length (q_d q) \<and> only_pos (set (live q)) s s')"

lemma remove_last:
  assumes inv: "pq_inv q s" and i: "1 \<le> i" "i = q_size q - 1"
  shows "removed q s (q_d q ! i) (percolate_down (q\<lparr>q_size := i, q_d := (q_d q)[i := q_d q ! i]\<rparr>) s i)"
proof -
  let ?q = "q\<lparr>q_size := i\<rparr>" and ?s = "spos s (q_d q ! i) i"
  have b: "q_size q = Suc i" "i < length (q_d q)" using inv i by (auto simp: pq_inv_def)
  have cb: "setpos q = spos" "getpri q = gpri" "cmppri q = cmp" using inv by (simp_all add: pq_inv_def uses_def)
  have "maxchild ?q d s i = 0" for d s using i by (simp add: maxchild_def left_def)
  then have r: "percolate_down (q\<lparr>q_size := i, q_d := (q_d q)[i := q_d q ! i]\<rparr>) s i = (?q, ?s)"
    unfolding percolate_down_def by (subst percolate_down_loop.simps) (simp add: Let_def cb)
  have okp: "ok s (q_d q ! j) \<and> gpos s (q_d q ! j) = j" if "1 \<le> j" "j \<le> i" for j
    using inv b(1) that by (auto simp: pq_inv_def)
  have pos: "gpos ?s e = gpos s e" for e using okp [OF i(1) order_refl] by (metis gpos_spos)
  have lv: "live q = live ?q @ [q_d q ! i]" using i(1) by (simp add: live_def b(1))
  have d: "distinct (live q)" using inv by (simp add: pq_inv_def)
  have ha: "heap_at ?q ?s j = heap_at q s j" for j by (simp add: heap_at_def cb cb_simps)
  have "uses ?q" using inv by (simp add: pq_inv_def uses_def)
  moreover have "distinct (live ?q)" using d lv by simp
  moreover have "\<forall>j. 2 \<le> j \<and> j < i \<longrightarrow> heap_at ?q ?s j" using inv b(1) unfolding ha pq_inv_def by simp
  moreover have "\<forall>j. 1 \<le> j \<and> j < i \<longrightarrow> ok ?s (q_d q ! j) \<and> gpos ?s (q_d q ! j) = j"
    using okp pos by (simp add: ok_spos)
  ultimately have "pq_inv ?q ?s" using i(1) b(2) by (simp add: pq_inv_def)
  moreover have "set (live ?q) = set (live q) - {q_d q ! i}" using lv d by auto
  ultimately show ?thesis
    unfolding r removed_def using b(1) pos by (simp add: only_pos_def cb_simps)
qed

lemma remove_at:
  assumes inv: "pq_inv q s" and i: "1 \<le> i" "i < q_size q - 1"
  defines "q1 \<equiv> q\<lparr>q_size := q_size q - 1, q_d := (q_d q)[i := q_d q ! (q_size q - 1)]\<rparr>"
  shows "removed q s (q_d q ! i)
     (if cmp (gpri s (q_d q ! i)) (gpri s (q_d q1 ! i)) then bubble_up q1 s i else percolate_down q1 s i)"
proof -
  let ?n = "q_size q - 1" and ?d = "q_d q"
  have b: "q_size q = Suc ?n" "?n < length ?d" using inv i by (auto simp: pq_inv_def)
  have u: "uses q1" using inv by (simp add: pq_inv_def uses_def q1_def)
  have q1: "q_d q1 = ?d[i := ?d ! ?n]" "q_size q1 = ?n" by (simp_all add: q1_def)
  have nth: "q_d q1 ! i = ?d ! ?n" "\<And>j. j \<noteq> i \<Longrightarrow> q_d q1 ! j = ?d ! j"
    using i b by (simp_all add: q1)
  have H: "heap_on (gpri s) ?d (Suc ?n) (\<lambda>j. True)" using pq_inv_heap_on [OF inv] b(1) by simp
  have okp: "ok s (?d ! j) \<and> gpos s (?d ! j) = j" if "1 \<le> j" "j < Suc ?n" for j
    using inv b(1) that by (auto simp: pq_inv_def)
  have lr: "set (map ((!) (q_d q1)) [1..<?n]) = set (live q) - {?d ! i}"
    "distinct (map ((!) (q_d q1)) [1..<?n])"
    using live_remove [OF inv i(1)] i(2) by (simp_all add: q1)
  have last: "gpos s (?d ! ?n) = ?n" "ok s (?d ! ?n)" using okp [of ?n] i by auto
  have pos: "e \<notin> set (live q) - {?d ! i} \<Longrightarrow> True" for e by simp
  have upd: "(q_d q1)[i := q_d q1 ! i] = q_d q1" by simp
  have sf: "sift ?n (q_d q1 ! i) (set (live q) - {?d ! i}) s (q_d q1) s i"
    unfolding sift_def upd using lr last nth okp i b q1 by auto
  have hp: "heap_on (gpri s) (q_d q1) ?n (\<lambda>j. j \<noteq> i \<and> j div 2 \<noteq> i)"
    using H nth unfolding heap_on_def by (metis less_SucI)
  have up: "\<not> cmp (gpri s (q_d q1 ! (i div 2))) (gpri s (?d ! i))" if "2 \<le> i"
  proof -
    have "i div 2 \<noteq> i" using that by simp
    then show ?thesis using H that i nth(2) [of "i div 2"] unfolding heap_on_def by (metis less_SucI)
  qed
  have down: "\<not> cmp (gpri s (?d ! i)) (gpri s (q_d q1 ! j))" if "j < ?n" "j div 2 = i" for j
  proof -
    have "j \<noteq> i" "2 \<le> j" using that i(1) by auto
    then show ?thesis using H that nth(2) [of j] unfolding heap_on_def by (metis less_SucI)
  qed
  have "sifted q1 s (set (live q) - {?d ! i})
     (if cmp (gpri s (?d ! i)) (gpri s (q_d q1 ! i)) then bubble_up q1 s i else percolate_down q1 s i)"
    by (rule fixup [OF u q1(2) [symmetric] sf hp up down])
  then show ?thesis
    by (auto simp: removed_def sifted_def q1 only_pos_def split: prod.splits)
qed

lemma pqueue_remove_ok:
  assumes inv: "pq_inv q s" and e: "e \<in> set (live q)"
  shows "\<exists>q' s'. pqueue_remove q s e = Some (q', s') \<and> removed q s e (q', s')"
proof -
  note lv = pq_inv_live [OF inv e]
  let ?i = "gpos s e" and ?n = "q_size q - 1"
  let ?q1 = "q\<lparr>q_size := ?n, q_d := (q_d q)[?i := q_d q ! ?n]\<rparr>"
  let ?r = "if cmp (gpri s e) (gpri s (q_d ?q1 ! ?i)) then bubble_up ?q1 s ?i else percolate_down ?q1 s ?i"
  have b: "?i < length (q_d q)" "0 < q_size q" "q_size q \<le> length (q_d q)"
    using inv lv by (auto simp: pq_inv_def)
  have eq: "pqueue_remove q s e = Some ?r"
    using b inv by (simp add: pqueue_remove_def Let_def pq_inv_def uses_def)
  have "removed q s e ?r"
  proof (cases "?i = ?n")
    case True
    then have "q_d ?q1 ! ?i = e" using lv b by simp
    then have "?r = percolate_down ?q1 s ?i" using cmp_irrefl by simp
    moreover have "removed q s e (percolate_down ?q1 s ?i)"
      using remove_last [OF inv lv(1) True] unfolding lv(3) True [symmetric] by (simp only: lv(3))
    ultimately show ?thesis by (simp only:)
  next
    case False
    then show ?thesis using remove_at [OF inv lv(1)] lv by simp
  qed
  then show ?thesis using eq by (metis prod.exhaust)
qed

text \<open>\<open>pqueue_pop\<close> removes the element that \<open>pqueue_peek\<close> shows.\<close>

lemma pqueue_pop_ok:
  assumes inv: "pq_inv q s"
  shows "fst (pqueue_pop q s) = pqueue_peek q"
    and "live q = [] \<Longrightarrow> pqueue_pop q s = (None, q, s)"
    and "pqueue_pop q s = (Some e, q', s') \<Longrightarrow> removed q s e (q', s')"
proof -
  show "fst (pqueue_pop q s) = pqueue_peek q" by (simp add: pqueue_pop_def pqueue_peek_def Let_def)
  show "live q = [] \<Longrightarrow> pqueue_pop q s = (None, q, s)"
    using inv by (auto simp: pqueue_pop_def live_def pq_inv_def)
  assume p: "pqueue_pop q s = (Some e, q', s')"
  then have n: "1 < q_size q" using inv by (auto simp: pqueue_pop_def pq_inv_def split: if_splits)
  let ?n = "q_size q - 1"
  let ?q1 = "q\<lparr>q_size := ?n, q_d := (q_d q)[1 := q_d q ! ?n]\<rparr>"
  have e: "e = q_d q ! 1" and r: "percolate_down ?q1 s 1 = (q', s')"
    using p n by (simp_all add: pqueue_pop_def Let_def)
  show "removed q s e (q', s')"
  proof (cases "?n = 1")
    case True
    then show ?thesis using remove_last [OF inv, of 1] r e by simp
  next
    case False
    have "\<not> cmp (gpri s e) (gpri s (q_d ?q1 ! 1))"
      using heap_root_best [OF pq_inv_heap_on [OF inv], of ?n] n inv e by (auto simp: pq_inv_def)
    then show ?thesis using remove_at [OF inv, of 1] n False r e by simp
  qed
qed

end

end
