(* ===== verification/Conv_Ftl.thy ===== *)
theory Conv_Ftl
  imports Ssd Pqueue
begin

text \<open>
  The page-mapping FTL with an SLC cache of \<open>conv_ftl.c\<close>: one \<open>struct conv_ftl\<close> (one partition of the
  device) and every operation on it. Host writes go to the SLC lines (\<open>slm\<close>, write pointer \<open>wp\<close>);
  migration moves an SLC line's valid pages to the TLC lines (\<open>lm\<close>, write pointer \<open>gc_wp\<close>); garbage
  collection does the same for a TLC line.

  Pointers to \<open>struct line\<close> are addresses into one store, \<open>lines\<close>, of which the arrays that \<open>slm.lines\<close>
  and \<open>lm.lines\<close> point to are consecutive ranges (\<open>lines_base\<close>). The lists of free and full lines are
  lists of addresses, and \<open>list_del_init\<close> takes an address off the list it is on. The victim queue
  is the queue of theory \<open>Pqueue\<close> on that store, with the callbacks \<open>victim_line_*\<close>.

  The clock \<open>ktime_get_ns()\<close> is a sequence of readings (\<open>kclk\<close>, \<open>ktick\<close>).
\<close>

section \<open>Data\<close>

datatype line_mode = SLC_MODE | TLC_MODE

record convparams =
  gc_thres_lines :: nat
  gc_thres_lines_high :: nat
  enable_gc_delay :: bool
  mig_thres_lines :: nat
  mig_thres_lines_high :: nat
  pba_pcent :: nat

record line =
  line_id :: nat
  l_ipc :: nat
  l_vpc :: nat
  l_pos :: nat
  mtime :: nat

record write_pointer =
  curline :: nat
  w_ch :: nat
  w_lun :: nat
  w_pg :: nat
  w_blk :: nat
  w_pl :: nat

record line_mgmt =
  lines_base :: nat
  free_line_list :: "nat list"
  victim_line_pq :: "(line list, nat) pqueue"
  full_line_list :: "nat list"
  lm_tt_lines :: nat
  free_line_cnt :: nat
  victim_line_cnt :: nat
  full_line_cnt :: nat

record write_flow_control =
  write_credits :: nat
  credits_to_refill :: nat

record conv_ftl =
  ssd :: ssd
  cp :: convparams
  maptbl :: "ppa list"
  rmap :: "nat list"
  wp :: write_pointer
  gc_wp :: write_pointer
  lines :: "line list"
  lm :: line_mgmt
  slm :: line_mgmt
  wfc :: write_flow_control
  gc_cnt :: nat
  copy_cnt :: nat
  age_cnt :: "nat list"
  slc_mode :: line_mode
  dyn_slc_mode :: line_mode
  kclk :: "nat \<Rightarrow> nat"
  ktick :: nat

text \<open>The two line managements by the kind of line, and writes to one of them.\<close>

definition lmof :: "line_mode \<Rightarrow> conv_ftl \<Rightarrow> line_mgmt" where
  "lmof r cf = (case r of SLC_MODE \<Rightarrow> slm cf | TLC_MODE \<Rightarrow> lm cf)"

definition upd_lm :: "line_mode \<Rightarrow> (line_mgmt \<Rightarrow> line_mgmt) \<Rightarrow> conv_ftl \<Rightarrow> conv_ftl" where
  "upd_lm r f cf = (case r of SLC_MODE \<Rightarrow> cf\<lparr>slm := f (slm cf)\<rparr> | TLC_MODE \<Rightarrow> cf\<lparr>lm := f (lm cf)\<rparr>)"

abbreviation spp_of :: "conv_ftl \<Rightarrow> ssdparams" where "spp_of cf \<equiv> sp (ssd cf)"

definition ktime_get_ns :: "conv_ftl \<Rightarrow> nat \<times> conv_ftl" where
  "ktime_get_ns cf = (kclk cf (ktick cf), cf\<lparr>ktick := ktick cf + 1\<rparr>)"

section \<open>Thresholds and the mapping tables\<close>

definition last_pg_in_wordline :: "conv_ftl \<Rightarrow> ppa \<Rightarrow> bool" where
  "last_pg_in_wordline cf a \<longleftrightarrow>
     p_pg a mod pgs_per_oneshotpg (spp_of cf) = pgs_per_oneshotpg (spp_of cf) - 1"

definition last_pg_in_wordline_slc :: "conv_ftl \<Rightarrow> ppa \<Rightarrow> bool" where
  "last_pg_in_wordline_slc cf a \<longleftrightarrow>
     p_pg a mod pgs_per_oneshotpg_slc (spp_of cf) = pgs_per_oneshotpg_slc (spp_of cf) - 1"

definition should_gc :: "conv_ftl \<Rightarrow> bool" where
  "should_gc cf \<longleftrightarrow> free_line_cnt (lm cf) \<le> gc_thres_lines (cp cf)"

definition should_gc_high :: "conv_ftl \<Rightarrow> bool" where
  "should_gc_high cf \<longleftrightarrow> free_line_cnt (lm cf) \<le> gc_thres_lines_high (cp cf)"

definition should_migration :: "conv_ftl \<Rightarrow> bool" where
  "should_migration cf \<longleftrightarrow> free_line_cnt (slm cf) \<le> mig_thres_lines (cp cf)"

definition should_migration_high :: "conv_ftl \<Rightarrow> bool" where
  "should_migration_high cf \<longleftrightarrow> free_line_cnt (slm cf) \<le> mig_thres_lines_high (cp cf)"

definition get_maptbl_ent :: "conv_ftl \<Rightarrow> nat \<Rightarrow> ppa option" where
  "get_maptbl_ent cf lpn = idx (maptbl cf) lpn"

definition set_maptbl_ent :: "conv_ftl \<Rightarrow> nat \<Rightarrow> ppa \<Rightarrow> conv_ftl option" where
  "set_maptbl_ent cf lpn a = do {
     NVMEV_ASSERT (lpn < tt_pgs (spp_of cf));
     NVMEV_ASSERT (lpn < length (maptbl cf));
     Some (cf\<lparr>maptbl := (maptbl cf)[lpn := a]\<rparr>) }"

definition ppa2pgidx :: "conv_ftl \<Rightarrow> ppa \<Rightarrow> nat option" where
  "ppa2pgidx cf a =
     (let spp = spp_of cf;
          lunbase = p_ch a * pgs_per_ch spp + p_lun a * pgs_per_lun spp + p_pl a * pgs_per_pl spp
      in do {
        pgidx \<leftarrow> (case slc_mode cf of
           SLC_MODE \<Rightarrow>
             if p_blk a < tt_lines_slc spp then do {
               NVMEV_ASSERT (p_pg a < pgs_per_blk_slc spp);
               Some (lunbase + p_blk a * pgs_per_blk_slc spp + p_pg a) }
             else Some (lunbase + (tt_lines_slc spp * pgs_per_blk_slc spp +
                     (p_blk a - tt_lines_slc spp) * pgs_per_blk spp) + p_pg a)
         | TLC_MODE \<Rightarrow> Some (lunbase + p_blk a * pgs_per_blk spp + p_pg a));
        NVMEV_ASSERT (pgidx < tt_pgs spp);
        Some pgidx
      })"

definition get_rmap_ent :: "conv_ftl \<Rightarrow> ppa \<Rightarrow> nat option" where
  "get_rmap_ent cf a = do { pgidx \<leftarrow> ppa2pgidx cf a; idx (rmap cf) pgidx }"

definition set_rmap_ent :: "conv_ftl \<Rightarrow> nat \<Rightarrow> ppa \<Rightarrow> conv_ftl option" where
  "set_rmap_ent cf lpn a = do {
     pgidx \<leftarrow> ppa2pgidx cf a;
     NVMEV_ASSERT (pgidx < length (rmap cf));
     Some (cf\<lparr>rmap := (rmap cf)[pgidx := lpn]\<rparr>) }"

section \<open>Callbacks of the victim queue\<close>

definition victim_line_cmp_pri :: "nat \<Rightarrow> nat \<Rightarrow> bool" where
  "victim_line_cmp_pri nxt cur \<longleftrightarrow> cur < nxt"

definition victim_line_get_pri :: "line list \<Rightarrow> nat \<Rightarrow> nat" where
  "victim_line_get_pri h a = l_vpc (h ! a)"

definition victim_line_set_pri :: "line list \<Rightarrow> nat \<Rightarrow> nat \<Rightarrow> line list" where
  "victim_line_set_pri h a pri = modl h a (\<lambda>l. l\<lparr>l_vpc := pri\<rparr>)"

definition victim_line_get_pos :: "line list \<Rightarrow> nat \<Rightarrow> nat" where
  "victim_line_get_pos h a = l_pos (h ! a)"

definition victim_line_set_pos :: "line list \<Rightarrow> nat \<Rightarrow> nat \<Rightarrow> line list" where
  "victim_line_set_pos h a pos = modl h a (\<lambda>l. l\<lparr>l_pos := pos\<rparr>)"

section \<open>Lines and write pointers\<close>

definition upd_line :: "(line \<Rightarrow> line) \<Rightarrow> nat \<Rightarrow> conv_ftl \<Rightarrow> conv_ftl" where
  "upd_line f a cf = cf\<lparr>lines := modl (lines cf) a f\<rparr>"

definition list_del_init :: "nat \<Rightarrow> conv_ftl \<Rightarrow> conv_ftl" where
  "list_del_init a cf =
     (let del = (\<lambda>m. m\<lparr>free_line_list := removeAll a (free_line_list m),
                      full_line_list := removeAll a (full_line_list m)\<rparr>)
      in cf\<lparr>lm := del (lm cf), slm := del (slm cf)\<rparr>)"

definition victim_insert :: "line_mode \<Rightarrow> nat \<Rightarrow> conv_ftl \<Rightarrow> conv_ftl option" where
  "victim_insert r a cf = do {
     (q, h) \<leftarrow> pqueue_insert (victim_line_pq (lmof r cf)) (lines cf) a;
     Some (upd_lm r (\<lambda>m. m\<lparr>victim_line_pq := q\<rparr>) (cf\<lparr>lines := h\<rparr>)) }"

definition victim_change_priority :: "line_mode \<Rightarrow> nat \<Rightarrow> nat \<Rightarrow> conv_ftl \<Rightarrow> conv_ftl option" where
  "victim_change_priority r pri a cf = do {
     (q, h) \<leftarrow> pqueue_change_priority (victim_line_pq (lmof r cf)) (lines cf) pri a;
     Some (upd_lm r (\<lambda>m. m\<lparr>victim_line_pq := q\<rparr>) (cf\<lparr>lines := h\<rparr>)) }"

definition new_lines :: "nat \<Rightarrow> nat \<Rightarrow> line list" where
  "new_lines offset n = map (\<lambda>i. \<lparr>line_id = i + offset, l_ipc = 0, l_vpc = 0, l_pos = 0, mtime = 0\<rparr>) [0..<n]"

definition new_pq :: "(nat \<Rightarrow> nat) \<Rightarrow> nat \<Rightarrow> (line list, nat) pqueue" where
  "new_pq junk n = pqueue_init (map junk [0..<n + 1]) n victim_line_cmp_pri victim_line_get_pri
     victim_line_set_pri victim_line_get_pos victim_line_set_pos"

text \<open>\<open>junk\<close> is the content of the uninitialised arrays of the queues; in TLC mode \<open>slm\<close> is left as
  it is.\<close>

definition init_lines :: "(nat \<Rightarrow> nat) \<Rightarrow> conv_ftl \<Rightarrow> conv_ftl option" where
  "init_lines junk cf =
     (let spp = spp_of cf in
      case slc_mode cf of
        SLC_MODE \<Rightarrow> do {
          NVMEV_ASSERT (tt_lines_tlc spp + tt_lines_slc spp = tt_lines spp);
          Some (cf\<lparr>lines := new_lines 0 (tt_lines_slc spp) @ new_lines (tt_lines_slc spp) (tt_lines_tlc spp),
            lm := \<lparr>lines_base = tt_lines_slc spp,
                   free_line_list = map (\<lambda>i. tt_lines_slc spp + i) [0..<tt_lines_tlc spp],
                   victim_line_pq = new_pq junk (tt_lines_tlc spp), full_line_list = [],
                   lm_tt_lines = tt_lines_tlc spp, free_line_cnt = tt_lines_tlc spp,
                   victim_line_cnt = 0, full_line_cnt = 0\<rparr>,
            slm := \<lparr>lines_base = 0, free_line_list = [0..<tt_lines_slc spp],
                    victim_line_pq = new_pq junk (tt_lines_slc spp), full_line_list = [],
                    lm_tt_lines = tt_lines_slc spp, free_line_cnt = tt_lines_slc spp,
                    victim_line_cnt = 0, full_line_cnt = 0\<rparr>\<rparr>) }
      | TLC_MODE \<Rightarrow> do {
          NVMEV_ASSERT (blks_per_pl spp = tt_lines spp);
          Some (cf\<lparr>lines := new_lines 0 (tt_lines spp),
            lm := \<lparr>lines_base = 0, free_line_list = [0..<tt_lines spp],
                   victim_line_pq = new_pq junk (tt_lines spp), full_line_list = [],
                   lm_tt_lines = tt_lines spp, free_line_cnt = tt_lines spp,
                   victim_line_cnt = 0, full_line_cnt = 0\<rparr>\<rparr>) })"

definition init_write_flow_control :: "conv_ftl \<Rightarrow> conv_ftl" where
  "init_write_flow_control cf =
     (let n = (case slc_mode cf of SLC_MODE \<Rightarrow> pgs_per_line_slc (spp_of cf) | TLC_MODE \<Rightarrow> pgs_per_line (spp_of cf))
      in cf\<lparr>wfc := \<lparr>write_credits = n, credits_to_refill = n\<rparr>\<rparr>)"

definition check_addr :: "nat \<Rightarrow> nat \<Rightarrow> unit option" where
  "check_addr a mx = NVMEV_ASSERT (a < mx)"

text \<open>The result \<open>None\<close> in the first component is the NULL pointer.\<close>

definition get_next_free_line :: "conv_ftl \<Rightarrow> nat option \<times> conv_ftl" where
  "get_next_free_line cf =
     (let r = (if slc_mode cf = SLC_MODE \<and> dyn_slc_mode cf = SLC_MODE then SLC_MODE else TLC_MODE)
      in case free_line_list (lmof r cf) of
           [] \<Rightarrow> (None, cf)
         | a # _ \<Rightarrow> (Some a, upd_lm r (\<lambda>m. m\<lparr>free_line_cnt := dec32 (free_line_cnt m)\<rparr>) (list_del_init a cf)))"

definition get_wp :: "io_type \<Rightarrow> conv_ftl \<Rightarrow> write_pointer" where
  "get_wp io cf = (case io of USER_IO \<Rightarrow> wp cf | GC_IO \<Rightarrow> gc_wp cf)"

definition set_wp :: "io_type \<Rightarrow> write_pointer \<Rightarrow> conv_ftl \<Rightarrow> conv_ftl" where
  "set_wp io w cf = (case io of USER_IO \<Rightarrow> cf\<lparr>wp := w\<rparr> | GC_IO \<Rightarrow> cf\<lparr>gc_wp := w\<rparr>)"

definition prepare_write_pointer :: "io_type \<Rightarrow> conv_ftl \<Rightarrow> conv_ftl option" where
  "prepare_write_pointer io cf =
     (let cf = cf\<lparr>dyn_slc_mode := (if slc_mode cf = SLC_MODE \<and> io = USER_IO then SLC_MODE else TLC_MODE)\<rparr>;
          (cur, cf) = get_next_free_line cf
      in do {
        a \<leftarrow> cur;
        l \<leftarrow> idx (lines cf) a;
        Some (set_wp io \<lparr>curline = a, w_ch = 0, w_lun = 0, w_pg = 0, w_blk = line_id l, w_pl = 0\<rparr> cf)
      })"

text \<open>The end of \<open>advance_write_pointer\<close>: the current line is used up. \<open>r\<close> is the line management
  chosen at its start.\<close>

definition retire_line :: "line_mode \<Rightarrow> nat \<Rightarrow> nat \<Rightarrow> conv_ftl \<Rightarrow> conv_ftl option" where
  "retire_line r cur_pgs_per_line a cf = do {
     l \<leftarrow> idx (lines cf) a;
     if l_vpc l = cur_pgs_per_line then do {
       NVMEV_ASSERT (l_ipc l = 0);
       Some (upd_lm r (\<lambda>m. m\<lparr>full_line_list := full_line_list m @ [a],
                             full_line_cnt := inc32 (full_line_cnt m)\<rparr>) cf) }
     else do {
       NVMEV_ASSERT (l_vpc l < cur_pgs_per_line);
       NVMEV_ASSERT (0 < l_ipc l);
       NVMEV_ASSERT (l_vpc l + l_ipc l = cur_pgs_per_line);
       cf \<leftarrow> victim_insert r a cf;
       Some (upd_lm r (\<lambda>m. m\<lparr>victim_line_cnt := inc32 (victim_line_cnt m)\<rparr>) cf) } }"

definition next_line :: "io_type \<Rightarrow> write_pointer \<Rightarrow> conv_ftl \<Rightarrow> conv_ftl option" where
  "next_line io w cf = do {
     check_addr (w_blk w) (blks_per_pl (spp_of cf));
     let cf = cf\<lparr>dyn_slc_mode := (case io of USER_IO \<Rightarrow> SLC_MODE | GC_IO \<Rightarrow> TLC_MODE)\<rparr>;
         (cur, cf) = get_next_free_line cf
     in do {
       a \<leftarrow> cur;
       l \<leftarrow> idx (lines cf) a;
       check_addr (line_id l) (blks_per_pl (spp_of cf));
       NVMEV_ASSERT (w_pg w = 0 \<and> w_lun w = 0 \<and> w_ch w = 0);
       NVMEV_ASSERT (w_pl w = 0);
       Some (set_wp io (w\<lparr>curline := a, w_blk := line_id l\<rparr>) cf) } }"

definition advance_write_pointer :: "io_type \<Rightarrow> conv_ftl \<Rightarrow> conv_ftl option" where
  "advance_write_pointer io cf =
     (let spp = spp_of cf; w = get_wp io cf;
          r = (if slc_mode cf = SLC_MODE \<and> io = USER_IO then SLC_MODE else TLC_MODE);
          cur_pgs_per_blk = (case r of SLC_MODE \<Rightarrow> pgs_per_blk_slc spp | TLC_MODE \<Rightarrow> pgs_per_blk spp);
          k = (case r of SLC_MODE \<Rightarrow> pgs_per_oneshotpg_slc spp | TLC_MODE \<Rightarrow> pgs_per_oneshotpg spp);
          cur_pgs_per_line = (case r of SLC_MODE \<Rightarrow> pgs_per_line_slc spp | TLC_MODE \<Rightarrow> pgs_per_line spp)
      in do {
        check_addr (w_pg w) cur_pgs_per_blk;
        NVMEV_ASSERT (k \<noteq> 0);
        let w = w\<lparr>w_pg := w_pg w + 1\<rparr>
        in if w_pg w mod k \<noteq> 0 then Some (set_wp io w cf)
        else do {
        let w = w\<lparr>w_pg := w_pg w - k\<rparr>
        in do {
        check_addr (w_ch w) (nchs spp);
        let w = w\<lparr>w_ch := w_ch w + 1\<rparr>
        in if w_ch w \<noteq> nchs spp then Some (set_wp io w cf)
        else do {
        check_addr (w_lun w) (luns_per_ch spp);
        let w = w\<lparr>w_ch := 0, w_lun := w_lun w + 1\<rparr>
        in if w_lun w \<noteq> luns_per_ch spp then Some (set_wp io w cf)
        else let w = w\<lparr>w_lun := 0, w_pg := w_pg w + k\<rparr>
        in if w_pg w \<noteq> cur_pgs_per_blk then Some (set_wp io w cf)
        else do {
          cf \<leftarrow> retire_line r cur_pgs_per_line (curline w) cf;
          next_line io (w\<lparr>w_pg := 0\<rparr>) cf }}}}})"

definition get_new_page :: "io_type \<Rightarrow> conv_ftl \<Rightarrow> ppa option" where
  "get_new_page io cf =
     (let w = get_wp io cf;
          a = zero_ppa\<lparr>p_ch := u8 (w_ch w), p_lun := u8 (w_lun w), p_pg := u16 (w_pg w),
                       p_blk := u16 (w_blk w), p_pl := u8 (w_pl w)\<rparr>
      in do { NVMEV_ASSERT (p_pl a = 0); Some a })"

definition init_maptbl :: "conv_ftl \<Rightarrow> conv_ftl" where
  "init_maptbl cf = cf\<lparr>maptbl := map (\<lambda>i. ones_ppa) [0..<tt_pgs (spp_of cf)]\<rparr>"

definition init_rmap :: "conv_ftl \<Rightarrow> conv_ftl" where
  "init_rmap cf = cf\<lparr>rmap := map (\<lambda>i. INVALID_LPN) [0..<tt_pgs (spp_of cf)]\<rparr>"

text \<open>\<open>cf\<close> is the memory that \<open>kmalloc\<close> returned.\<close>

definition conv_init_ftl :: "(nat \<Rightarrow> nat) \<Rightarrow> convparams \<Rightarrow> ssd \<Rightarrow> conv_ftl \<Rightarrow> conv_ftl option" where
  "conv_init_ftl junk cpp s cf = do {
     let cf = init_rmap (init_maptbl (cf\<lparr>cp := cpp, ssd := s,
                slc_mode := (if ENABLE_SLC_CACHE then SLC_MODE else TLC_MODE)\<rparr>))
     in do {
       cf \<leftarrow> init_lines junk cf;
       cf \<leftarrow> prepare_write_pointer USER_IO cf;
       cf \<leftarrow> prepare_write_pointer GC_IO cf;
       Some (init_write_flow_control cf) } }"

text \<open>\<open>OP_AREA_PERCENT\<close> is 0.07 in the configuration that uses this FTL: \<open>(int)((1 + 0.07) * 100)\<close> is 107.\<close>

definition conv_init_params :: convparams where
  "conv_init_params = \<lparr>gc_thres_lines = 2, gc_thres_lines_high = 2, enable_gc_delay = True,
     mig_thres_lines = 2, mig_thres_lines_high = 2, pba_pcent = 107\<rparr>"

section \<open>Page states\<close>

definition valid_ppa :: "conv_ftl \<Rightarrow> ppa \<Rightarrow> bool" where
  "valid_ppa cf a =
     (let spp = spp_of cf
      in p_ch a < nchs spp \<and> p_lun a < luns_per_ch spp \<and> p_pl a < pls_per_lun spp \<and>
         p_blk a < blks_per_pl spp \<and>
         (case slc_mode cf of
            SLC_MODE \<Rightarrow> if p_blk a < lm_tt_lines (slm cf) then p_pg a < pgs_per_blk_slc spp
                        else p_pg a < pgs_per_blk spp
          | TLC_MODE \<Rightarrow> p_pg a < pgs_per_blk spp))"

definition valid_lpn :: "conv_ftl \<Rightarrow> nat \<Rightarrow> bool" where
  "valid_lpn cf lpn \<longleftrightarrow> lpn < tt_pgs (spp_of cf)"

definition mapped_ppa :: "ppa \<Rightarrow> bool" where
  "mapped_ppa a \<longleftrightarrow> \<not> ppa_val a = UNMAPPED_PPA"

text \<open>The address of the line of a page; outside the arrays there is no line.\<close>

definition get_line :: "conv_ftl \<Rightarrow> ppa \<Rightarrow> nat option" where
  "get_line cf a =
     (case slc_mode cf of
        SLC_MODE \<Rightarrow>
          let boundary = lm_tt_lines (slm cf)
          in if p_blk a < boundary then Some (lines_base (slm cf) + p_blk a)
             else do { NVMEV_ASSERT (p_blk a - boundary < lm_tt_lines (lm cf));
                       Some (lines_base (lm cf) + (p_blk a - boundary)) }
      | TLC_MODE \<Rightarrow> do { NVMEV_ASSERT (p_blk a < lm_tt_lines (lm cf));
                         Some (lines_base (lm cf) + p_blk a) })"

text \<open>Kind of the line of a block, as \<open>mark_page_valid\<close>, \<open>mark_page_invalid\<close>, \<open>mark_block_free\<close> and
  \<open>mark_line_free\<close> each compute it.\<close>

definition region :: "conv_ftl \<Rightarrow> ppa \<Rightarrow> line_mode" where
  "region cf a = (if slc_mode cf = SLC_MODE \<and> p_blk a < tt_lines_slc (spp_of cf) then SLC_MODE else TLC_MODE)"

definition cur_pgs_per_blk :: "conv_ftl \<Rightarrow> ppa \<Rightarrow> nat" where
  "cur_pgs_per_blk cf a = (case region cf a of SLC_MODE \<Rightarrow> pgs_per_blk_slc (spp_of cf) | TLC_MODE \<Rightarrow> pgs_per_blk (spp_of cf))"

definition cur_pgs_per_line :: "conv_ftl \<Rightarrow> ppa \<Rightarrow> nat" where
  "cur_pgs_per_line cf a = (case region cf a of SLC_MODE \<Rightarrow> pgs_per_line_slc (spp_of cf) | TLC_MODE \<Rightarrow> pgs_per_line (spp_of cf))"

definition set_pg_status :: "pg_status \<Rightarrow> ppa \<Rightarrow> conv_ftl \<Rightarrow> conv_ftl" where
  "set_pg_status st a cf = cf\<lparr>ssd := upd_pg (\<lambda>p. p\<lparr>status := st\<rparr>) (ssd cf) a\<rparr>"

definition upd_block :: "(nand_block \<Rightarrow> nand_block) \<Rightarrow> ppa \<Rightarrow> conv_ftl \<Rightarrow> conv_ftl" where
  "upd_block f a cf = cf\<lparr>ssd := upd_blk f (ssd cf) a\<rparr>"

definition mark_page_invalid :: "conv_ftl \<Rightarrow> ppa \<Rightarrow> conv_ftl option" where
  "mark_page_invalid cf a =
     (let r = region cf a; ppb = cur_pgs_per_blk cf a; ppl = cur_pgs_per_line cf a
      in do {
        NVMEV_ASSERT (tt_lines_slc (spp_of cf) = lm_tt_lines (slm cf));
        pg \<leftarrow> get_pg (ssd cf) a;
        NVMEV_ASSERT (status pg = PG_VALID);
        let cf = set_pg_status PG_INVALID a cf
        in do {
        blk \<leftarrow> get_blk (ssd cf) a;
        NVMEV_ASSERT (ipc blk < ppb);
        NVMEV_ASSERT (0 < vpc blk \<and> vpc blk \<le> ppb);
        let cf = upd_block (\<lambda>b. b\<lparr>ipc := ipc b + 1, vpc := vpc b - 1\<rparr>) a cf
        in do {
        la \<leftarrow> get_line cf a;
        line \<leftarrow> idx (lines cf) la;
        NVMEV_ASSERT (l_ipc line < ppl);
        NVMEV_ASSERT (l_vpc line = ppl \<longrightarrow> l_ipc line = 0);
        let was_full_line = (l_vpc line = ppl);
            cf = upd_line (\<lambda>l. l\<lparr>l_ipc := l_ipc l + 1\<rparr>) la cf
        in do {
        NVMEV_ASSERT (0 < l_vpc line \<and> l_vpc line \<le> ppl);
        cf \<leftarrow> (if l_pos line \<noteq> 0 then victim_change_priority r (l_vpc line - 1) la cf
               else Some (upd_line (\<lambda>l. l\<lparr>l_vpc := l_vpc l - 1\<rparr>) la cf));
        if was_full_line then do {
          let cf = upd_lm r (\<lambda>m. m\<lparr>full_line_cnt := dec32 (full_line_cnt m)\<rparr>) (list_del_init la cf)
          in do {
          line \<leftarrow> idx (lines cf) la;
          NVMEV_ASSERT (l_vpc line + l_ipc line = ppl);
          cf \<leftarrow> victim_insert r la cf;
          Some (upd_lm r (\<lambda>m. m\<lparr>victim_line_cnt := inc32 (victim_line_cnt m)\<rparr>) cf) } }
        else Some cf }}}})"

definition mark_page_valid :: "conv_ftl \<Rightarrow> ppa \<Rightarrow> conv_ftl option" where
  "mark_page_valid cf a =
     (let ppb = cur_pgs_per_blk cf a; ppl = cur_pgs_per_line cf a
      in do {
        pg \<leftarrow> get_pg (ssd cf) a;
        NVMEV_ASSERT (status pg = PG_FREE);
        let cf = set_pg_status PG_VALID a cf
        in do {
        blk \<leftarrow> get_blk (ssd cf) a;
        NVMEV_ASSERT (vpc blk < ppb);
        let cf = upd_block (\<lambda>b. b\<lparr>vpc := vpc b + 1\<rparr>) a cf
        in do {
        la \<leftarrow> get_line cf a;
        line \<leftarrow> idx (lines cf) la;
        NVMEV_ASSERT (l_vpc line < ppl);
        Some (upd_line (\<lambda>l. l\<lparr>l_vpc := l_vpc l + 1\<rparr>) la cf) }}})"

definition free_pages :: "ssdparams \<Rightarrow> nat \<Rightarrow> nand_block \<Rightarrow> nand_block option" where
  "free_pages spp n = foldM (\<lambda>i b. do {
     pg \<leftarrow> idx (pgs b) i;
     NVMEV_ASSERT (nsecs pg = secs_per_pg spp);
     Some (b\<lparr>pgs := modl (pgs b) i (\<lambda>p. p\<lparr>status := PG_FREE\<rparr>)\<rparr>) }) [0..<n]"

definition mark_block_free :: "conv_ftl \<Rightarrow> ppa \<Rightarrow> conv_ftl option" where
  "mark_block_free cf a = do {
     blk \<leftarrow> get_blk (ssd cf) a;
     b \<leftarrow> free_pages (spp_of cf) (cur_pgs_per_blk cf a) blk;
     NVMEV_ASSERT (npgs b = cur_pgs_per_blk cf a);
     Some (upd_block (\<lambda>_. b\<lparr>ipc := 0, vpc := 0, erase_cnt := erase_cnt b + 1\<rparr>) a cf) }"

section \<open>Garbage collection and migration\<close>

definition gc_cmd :: "io_type \<Rightarrow> nat \<Rightarrow> nat \<Rightarrow> ppa \<Rightarrow> nand_cmd" where
  "gc_cmd io c xfer a = \<lparr>nc_type = io, nc_cmd = c, nc_xfer_size = xfer, nc_stime = 0, nc_interleave = False, nc_ppa = a\<rparr>"

definition advance_nand :: "conv_ftl \<Rightarrow> nand_cmd \<Rightarrow> (nat \<times> conv_ftl) option" where
  "advance_nand cf ncmd = do { (t, s) \<leftarrow> ssd_advance_nand (ssd cf) ncmd; Some (t, cf\<lparr>ssd := s\<rparr>) }"

definition gc_read_page :: "conv_ftl \<Rightarrow> ppa \<Rightarrow> conv_ftl option" where
  "gc_read_page cf a =
     (if enable_gc_delay (cp cf)
      then do { (_, cf) \<leftarrow> advance_nand cf (gc_cmd GC_IO NAND_READ (pgsz (spp_of cf)) a); Some cf }
      else Some cf)"

definition gc_write_page :: "conv_ftl \<Rightarrow> ppa \<Rightarrow> conv_ftl option" where
  "gc_write_page cf old_ppa = do {
     lpn \<leftarrow> get_rmap_ent cf old_ppa;
     NVMEV_ASSERT (valid_lpn cf lpn);
     new_ppa \<leftarrow> get_new_page GC_IO cf;
     cf \<leftarrow> set_maptbl_ent cf lpn new_ppa;
     cf \<leftarrow> set_rmap_ent cf lpn new_ppa;
     cf \<leftarrow> mark_page_valid cf new_ppa;
     let cf = cf\<lparr>copy_cnt := u64 (copy_cnt cf + 1)\<rparr>
     in do {
       cf \<leftarrow> advance_write_pointer GC_IO cf;
       if enable_gc_delay (cp cf)
       then let gcw = (if last_pg_in_wordline cf new_ppa
                       then gc_cmd GC_IO NAND_WRITE (pgsz (spp_of cf) * pgs_per_oneshotpg (spp_of cf)) new_ppa
                       else gc_cmd GC_IO NAND_NOP 0 new_ppa)
            in do { (_, cf) \<leftarrow> advance_nand cf gcw; Some cf }
       else Some cf } }"

text \<open>Age classes in microseconds: \<open>US(a)\<close> is \<open>a * 1000 * 1000\<close>.\<close>

definition age_levelize :: "nat \<Rightarrow> nat" where
  "age_levelize age_us =
     (if age_us < 5 * 1000 * 1000 then 1
      else if age_us < 10 * 1000 * 1000 then 5
      else if age_us < 25 * 1000 * 1000 then 10
      else if age_us < 50 * 1000 * 1000 then 20
      else if age_us < 100 * 1000 * 1000 then 40
      else if age_us < 200 * 1000 * 1000 then 80
      else 250)"

definition SCALER :: nat where "SCALER = 1000000000000"

text \<open>Pages per line stay below 2^22, so the products fit a \<open>long long\<close>; \<open>vpc\<close> does not exceed \<open>ppl\<close>.\<close>

definition calculate_cost_benefit_val :: "conv_ftl \<Rightarrow> line \<Rightarrow> nat \<times> conv_ftl" where
  "calculate_cost_benefit_val cf cur_line =
     (let (now, cf) = ktime_get_ns cf;
          age_us = sub64 now (mtime cur_line) div 1000;
          age = age_levelize age_us;
          ppl = pgs_per_line (spp_of cf)
      in (if l_vpc cur_line = ppl then SCALER * 10
          else l_vpc cur_line * SCALER div ((ppl - l_vpc cur_line) * age), cf))"

text \<open>The scan of the queue's array: the slot with the least cost-benefit value, \<open>cb_min\<close> being its
  value (initially \<open>LLONG_MAX\<close>).\<close>

definition cb_scan :: "conv_ftl \<Rightarrow> (nat option \<times> nat \<times> conv_ftl) option" where
  "cb_scan cf =
     (let q = victim_line_pq (lm cf)
      in foldM (\<lambda>i (min_idx, cb_min, cf). do {
           a \<leftarrow> idx (q_d q) i;
           cur_line \<leftarrow> idx (lines cf) a;
           if l_ipc cur_line = 0 then Some (min_idx, cb_min, cf)
           else let (v, cf) = calculate_cost_benefit_val cf cur_line
                in Some (if v < cb_min then (Some i, v, cf) else (min_idx, cb_min, cf))
         }) [1..<q_size q] (None, 2 ^ 63 - 1, cf))"

text \<open>\<open>CB\<close> is defined unconditionally in the source: this is the cost-benefit branch.\<close>

definition select_victim_line :: "conv_ftl \<Rightarrow> bool \<Rightarrow> (nat option \<times> conv_ftl) option" where
  "select_victim_line cf force = do {
     (min_idx, _, cf) \<leftarrow> cb_scan cf;
     case min_idx of
       None \<Rightarrow> Some (None, cf)
     | Some i \<Rightarrow> do {
         a \<leftarrow> idx (q_d (victim_line_pq (lm cf))) i;
         (q, h) \<leftarrow> pqueue_remove (victim_line_pq (lm cf)) (lines cf) a;
         let cf = cf\<lparr>lines := modl h a (\<lambda>l. l\<lparr>l_pos := 0\<rparr>),
                    lm := (lm cf)\<lparr>victim_line_pq := q, victim_line_cnt := dec32 (victim_line_cnt (lm cf))\<rparr>\<rparr>;
             (now, cf) = ktime_get_ns cf
         in do {
           line \<leftarrow> idx (lines cf) a;
           let age = sub64 now (mtime line) div 1000000000;
               slot = (if age < 200 then age else 200)
           in Some (Some a, cf\<lparr>age_cnt := modl (age_cnt cf) slot inc32\<rparr>) } } }"

text \<open>\<open>CB2\<close> and \<open>RD2\<close> are defined by no build: this is the greedy branch.\<close>

definition select_victim_line_slc :: "conv_ftl \<Rightarrow> bool \<Rightarrow> (nat option \<times> conv_ftl) option" where
  "select_victim_line_slc cf force =
     (case pqueue_peek (victim_line_pq (slm cf)) of
        None \<Rightarrow>
          (case full_line_list (slm cf) of
             [] \<Rightarrow> Some (None, cf)
           | a # _ \<Rightarrow> let cf = list_del_init a cf
                     in Some (Some a, cf\<lparr>slm := (slm cf)\<lparr>full_line_cnt := dec32 (full_line_cnt (slm cf))\<rparr>\<rparr>))
      | Some a \<Rightarrow> do {
          line \<leftarrow> idx (lines cf) a;
          if \<not> force \<and> pgs_per_line_slc (spp_of cf) div 8 < l_vpc line then Some (None, cf)
          else let (_, q, h) = pqueue_pop (victim_line_pq (slm cf)) (lines cf)
               in Some (Some a, cf\<lparr>lines := modl h a (\<lambda>l. l\<lparr>l_pos := 0\<rparr>),
                    slm := (slm cf)\<lparr>victim_line_pq := q,
                                    victim_line_cnt := dec32 (victim_line_cnt (slm cf))\<rparr>\<rparr>) })"

text \<open>\<open>clean_one_block\<close> is not called by the code.\<close>

definition clean_one_block :: "conv_ftl \<Rightarrow> ppa \<Rightarrow> conv_ftl option" where
  "clean_one_block cf a = do {
     (cnt, cf) \<leftarrow> foldM (\<lambda>pg (cnt, cf). do {
         p \<leftarrow> get_pg (ssd cf) (a\<lparr>p_pg := u16 pg\<rparr>);
         NVMEV_ASSERT (status p \<noteq> PG_FREE);
         if status p = PG_VALID then do {
           cf \<leftarrow> gc_read_page cf (a\<lparr>p_pg := u16 pg\<rparr>);
           cf \<leftarrow> gc_write_page cf (a\<lparr>p_pg := u16 pg\<rparr>);
           Some (cnt + 1, cf) }
         else Some (cnt, cf) }) [0..<pgs_per_blk (spp_of cf)] (0, cf);
     b \<leftarrow> get_blk (ssd cf) a;
     NVMEV_ASSERT (vpc b = cnt);
     Some cf }"

definition pg_off :: "ppa \<Rightarrow> nat \<Rightarrow> ppa" where
  "pg_off a i = a\<lparr>p_pg := u16 (p_pg a + i)\<rparr>"

text \<open>The first loop of \<open>clean_one_flashpg\<close> counts the valid pages; the second moves them.\<close>

definition count_valid :: "conv_ftl \<Rightarrow> ppa \<Rightarrow> nat option" where
  "count_valid cf a = foldM (\<lambda>i cnt. do {
     p \<leftarrow> get_pg (ssd cf) (pg_off a i);
     NVMEV_ASSERT (status p \<noteq> PG_FREE);
     Some (if status p = PG_VALID then cnt + 1 else cnt) }) [0..<pgs_per_flashpg (spp_of cf)] 0"

definition move_page :: "ppa \<Rightarrow> nat \<Rightarrow> conv_ftl \<Rightarrow> conv_ftl option" where
  "move_page a i cf = do {
     p \<leftarrow> get_pg (ssd cf) (pg_off a i);
     if status p = PG_VALID then gc_write_page cf (pg_off a i) else Some cf }"

definition clean_one_flashpg :: "conv_ftl \<Rightarrow> ppa \<Rightarrow> conv_ftl option" where
  "clean_one_flashpg cf a =
     (let migr = (slc_mode cf = SLC_MODE \<and> dyn_slc_mode cf = SLC_MODE);
          io = (if migr then USER_IO else GC_IO)
      in do {
        NVMEV_ASSERT (migr \<longrightarrow> p_blk a < tt_lines_slc (spp_of cf));
        cnt \<leftarrow> count_valid cf a;
        if cnt = 0 then Some cf
        else do {
          cf \<leftarrow> (if enable_gc_delay (cp cf)
                 then do { (_, cf) \<leftarrow> advance_nand cf (gc_cmd io NAND_READ (pgsz (spp_of cf) * cnt) a); Some cf }
                 else Some cf);
          foldM (move_page a) [0..<pgs_per_flashpg (spp_of cf)] cf } })"

definition mark_line_free :: "conv_ftl \<Rightarrow> ppa \<Rightarrow> conv_ftl option" where
  "mark_line_free cf a = do {
     la \<leftarrow> get_line cf a;
     NVMEV_ASSERT (la < length (lines cf));
     Some (upd_lm (region cf a) (\<lambda>m. m\<lparr>free_line_list := free_line_list m @ [la],
                                       free_line_cnt := inc32 (free_line_cnt m)\<rparr>)
            (upd_line (\<lambda>l. l\<lparr>l_ipc := 0, l_vpc := 0\<rparr>) la cf)) }"

definition free_block :: "io_type \<Rightarrow> ppa \<Rightarrow> conv_ftl \<Rightarrow> conv_ftl option" where
  "free_block io a cf = do {
     cf \<leftarrow> mark_block_free cf a;
     cf \<leftarrow> (if enable_gc_delay (cp cf)
            then do { (_, cf) \<leftarrow> advance_nand cf (gc_cmd io NAND_ERASE 0 a); Some cf }
            else Some cf);
     Some (cf\<lparr>ssd := upd_lun (\<lambda>l. l\<lparr>lun_gc_endtime := next_lun_avail_time l\<rparr>) (ssd cf) a\<rparr>) }"

text \<open>Body of the loops of \<open>do_gc\<close>. The reserved bits of \<open>ppa\<close>, uninitialised in the code, are 0 here.\<close>

definition gc_ppa :: "ssdparams \<Rightarrow> nat \<Rightarrow> nat \<Rightarrow> nat \<Rightarrow> nat \<Rightarrow> ppa" where
  "gc_ppa spp b flashpg ch lun =
     \<lparr>p_pg = u16 (flashpg * pgs_per_flashpg spp), p_blk = u16 b, p_pl = 0, p_lun = u8 lun, p_ch = u8 ch, p_rsv = 0\<rparr>"

definition gc_step :: "io_type \<Rightarrow> nat \<Rightarrow> nat \<Rightarrow> nat \<Rightarrow> nat \<Rightarrow> nat \<Rightarrow> conv_ftl \<Rightarrow> conv_ftl option" where
  "gc_step io b flashpgs flashpg ch lun cf =
     (let a = gc_ppa (spp_of cf) b flashpg ch lun
      in do {
        _ \<leftarrow> get_lun (ssd cf) a;
        cf \<leftarrow> clean_one_flashpg cf a;
        if flashpg = flashpgs - 1 then free_block io a cf else Some cf })"

definition do_gc :: "conv_ftl \<Rightarrow> bool \<Rightarrow> conv_ftl option" where
  "do_gc cf force =
     (let spp = spp_of cf;
          migr = (dyn_slc_mode cf = SLC_MODE);
          flashpgs = (if migr then flashpgs_per_blk_slc spp else flashpgs_per_blk spp);
          io = (if migr then USER_IO else GC_IO)
      in do {
        (victim, cf) \<leftarrow> (if migr then select_victim_line_slc cf force
                         else do { (v, cf) \<leftarrow> select_victim_line cf force;
                                   Some (v, cf\<lparr>gc_cnt := u64 (gc_cnt cf + 1)\<rparr>) });
        case victim of
          None \<Rightarrow> Some cf
        | Some va \<Rightarrow> do {
            line \<leftarrow> idx (lines cf) va;
            let refill = (if dyn_slc_mode cf = SLC_MODE then pgs_per_line_slc spp else l_ipc line);
                cf = cf\<lparr>wfc := (wfc cf)\<lparr>credits_to_refill := refill\<rparr>\<rparr>;
                b = line_id line
            in do {
              cf \<leftarrow> foldM (\<lambda>flashpg. foldM (\<lambda>ch. foldM (\<lambda>lun. gc_step io b flashpgs flashpg ch lun)
                       [0..<luns_per_ch spp]) [0..<nchs spp]) [0..<flashpgs] cf;
              mark_line_free cf (gc_ppa spp b 0 0 0) } } })"

definition foreground_gc :: "conv_ftl \<Rightarrow> conv_ftl option" where
  "foreground_gc cf =
     (if should_migration_high cf then do {
        cf \<leftarrow> (if should_gc_high cf then do_gc (cf\<lparr>dyn_slc_mode := TLC_MODE\<rparr>) True else Some cf);
        (if slc_mode cf = SLC_MODE then do_gc (cf\<lparr>dyn_slc_mode := SLC_MODE\<rparr>) True else Some cf) }
      else Some cf)"

definition consume_write_credit :: "conv_ftl \<Rightarrow> conv_ftl" where
  "consume_write_credit cf = cf\<lparr>wfc := (wfc cf)\<lparr>write_credits := dec32 (write_credits (wfc cf))\<rparr>\<rparr>"

definition check_and_refill_write_credit :: "conv_ftl \<Rightarrow> conv_ftl option" where
  "check_and_refill_write_credit cf =
     (if write_credits (wfc cf) = 0 then do {
        cf \<leftarrow> foreground_gc cf;
        Some (cf\<lparr>wfc := (wfc cf)\<lparr>write_credits :=
                u32 (write_credits (wfc cf) + credits_to_refill (wfc cf))\<rparr>\<rparr>) }
      else Some cf)"

section \<open>Host accesses to one page\<close>

definition is_same_flash_page :: "conv_ftl \<Rightarrow> ppa \<Rightarrow> ppa \<Rightarrow> bool" where
  "is_same_flash_page cf a b \<longleftrightarrow>
     blk_in_ssd a = blk_in_ssd b \<and>
     p_pg a div pgs_per_flashpg (spp_of cf) = p_pg b div pgs_per_flashpg (spp_of cf)"

text \<open>The body of the loop of \<open>conv_write\<close> for the page \<open>lpn\<close> of this partition. The first result is
  the completion time of the NAND program and the bytes of write buffer to release at that time,
  if this page completes a wordline.\<close>

definition overwrite :: "conv_ftl \<Rightarrow> nat \<Rightarrow> conv_ftl option" where
  "overwrite cf lpn = do {
     a \<leftarrow> get_maptbl_ent cf lpn;
     if mapped_ppa a then do {
       cf \<leftarrow> mark_page_invalid cf a;
       cf \<leftarrow> set_rmap_ent cf INVALID_LPN a;
       la \<leftarrow> get_line cf a;
       let (now, cf) = ktime_get_ns cf
       in Some (upd_line (\<lambda>l. l\<lparr>mtime := now\<rparr>) la cf) }
     else Some cf }"

definition new_write :: "conv_ftl \<Rightarrow> nat \<Rightarrow> (ppa \<times> conv_ftl) option" where
  "new_write cf lpn = do {
     a \<leftarrow> get_new_page USER_IO cf;
     cf \<leftarrow> set_maptbl_ent cf lpn a;
     cf \<leftarrow> set_rmap_ent cf lpn a;
     cf \<leftarrow> mark_page_valid cf a;
     cf \<leftarrow> advance_write_pointer USER_IO cf;
     Some (a, cf) }"

definition program_wordline :: "conv_ftl \<Rightarrow> nand_cmd \<Rightarrow> ppa \<Rightarrow> ((nat \<times> nat) option \<times> conv_ftl) option" where
  "program_wordline cf swr a =
     (let slc = (slc_mode cf = SLC_MODE)
      in if (if slc then last_pg_in_wordline_slc cf a else last_pg_in_wordline cf a)
         then do {
           (t, cf) \<leftarrow> advance_nand cf (swr\<lparr>nc_ppa := a\<rparr>);
           Some (Some (t, (if slc then pgs_per_oneshotpg_slc (spp_of cf) else pgs_per_oneshotpg (spp_of cf)) *
                         pgsz (spp_of cf)), cf) }
         else Some (None, cf))"

definition write_page :: "conv_ftl \<Rightarrow> nand_cmd \<Rightarrow> nat \<Rightarrow> ((nat \<times> nat) option \<times> conv_ftl) option" where
  "write_page cf swr lpn = do {
     cf \<leftarrow> overwrite cf lpn;
     (a, cf) \<leftarrow> new_write cf lpn;
     (done, cf) \<leftarrow> program_wordline cf swr a;
     cf \<leftarrow> check_and_refill_write_credit (consume_write_credit cf);
     Some (done, cf) }"

end
