(* ===== verification/Ssd_Laws.thy ===== *)
theory Ssd_Laws
  imports Ssd
begin

text \<open>
  Laws of the flash back end: reads after writes in the NAND tree; every timing operation on a
  well-formed SSD returns, does not go back in time and leaves the contents of the flash alone; a
  NAND command occupies its die from the time the die is free for at least the cell latency; the
  geometry computed by \<open>ssd_init_params_slc\<close>; and the write buffer's accounting.
\<close>

section \<open>Reads after writes in the NAND tree\<close>

definition same_lun :: "ppa \<Rightarrow> ppa \<Rightarrow> bool" where
  "same_lun a b \<longleftrightarrow> p_ch a = p_ch b \<and> p_lun a = p_lun b"

definition same_blk :: "ppa \<Rightarrow> ppa \<Rightarrow> bool" where
  "same_blk a b \<longleftrightarrow> same_lun a b \<and> p_pl a = p_pl b \<and> p_blk a = p_blk b"

lemma same_refl [simp]: "same_lun a a" "same_blk a a"
  by (simp_all add: same_lun_def same_blk_def)

lemma same_blk_sym: "same_blk a b = same_blk b a"
  by (auto simp: same_blk_def same_lun_def)

lemma same_lun_get: "same_lun a b \<Longrightarrow> get_lun s a = get_lun s b"
  by (simp add: same_lun_def get_lun_def get_ch_def)

lemma same_blk_get: "same_blk a b \<Longrightarrow> get_blk s a = get_blk s b"
  by (simp add: same_blk_def same_lun_def get_blk_def get_pl_def get_lun_def get_ch_def)

lemma get_ch_upd: "get_ch (upd_ch f s a) b = (if p_ch a = p_ch b then map_option f (get_ch s a) else get_ch s b)"
  by (simp add: get_ch_def upd_ch_def arr_simps)

lemma get_lun_upd_ch:
  assumes "\<And>c. luns (f c) = luns c"
  shows "get_lun (upd_ch f s a) b = get_lun s b"
  using assms by (auto simp: get_lun_def get_ch_def upd_ch_def arr_simps split: Option.bind_splits)

lemma get_lun_upd:
  "get_lun (upd_lun f s a) b = (if same_lun a b then map_option f (get_lun s a) else get_lun s b)"
  by (auto simp: get_lun_def get_ch_upd upd_lun_def same_lun_def arr_simps split: Option.bind_splits)
    (auto simp: get_ch_def)

lemma get_blk_cong_lun:
  assumes "\<And>b. map_option pls (get_lun s' b) = map_option pls (get_lun s b)"
  shows "get_blk s' a = get_blk s a"
  using assms [of a] by (cases "get_lun s a"; cases "get_lun s' a") (auto simp: get_blk_def get_pl_def)

lemma get_blk_upd_lun:
  assumes "\<And>l. pls (f l) = pls l"
  shows "get_blk (upd_lun f s a) b = get_blk s b"
  by (rule get_blk_cong_lun)
    (use assms same_lun_get in \<open>auto simp: get_lun_upd option.map_comp o_def\<close>)

lemma get_blk_upd:
  "get_blk (upd_blk f s a) b = (if same_blk a b then map_option f (get_blk s a) else get_blk s b)"
  using same_lun_get [of a b s]
  by (auto simp: get_blk_def get_pl_def upd_blk_def upd_pl_def get_lun_upd same_blk_def arr_simps
      split: Option.bind_splits)

lemma get_pg_upd_blk:
  assumes "\<And>b. pgs (f b) = pgs b"
  shows "get_pg (upd_blk f s a) b = get_pg s b"
  using assms same_blk_get [of a b s]
  by (auto simp: get_pg_def get_blk_upd split: Option.bind_splits)

lemma get_blk_upd_pg:
  "get_blk (upd_pg f s a) b =
     (if same_blk a b then map_option (\<lambda>b. b\<lparr>pgs := modl (pgs b) (p_pg a) f\<rparr>) (get_blk s a) else get_blk s b)"
  by (simp add: upd_pg_def get_blk_upd)

lemma get_pg_upd:
  "get_pg (upd_pg f s a) b =
     (if same_blk a b \<and> p_pg a = p_pg b then map_option f (get_pg s a) else get_pg s b)"
  using same_blk_get [of a b s]
  by (auto simp: get_pg_def get_blk_upd_pg arr_simps split: Option.bind_splits)

lemma get_lun_upd_pls:
  "get_lun (upd_lun h s a) b = None \<longleftrightarrow> get_lun s b = None"
  "get_lun (upd_blk f s a) b = None \<longleftrightarrow> get_lun s b = None"
  "get_lun (upd_pg g s a) b = None \<longleftrightarrow> get_lun s b = None"
proof -
  have *: "get_lun (upd_lun h s a) b = None \<longleftrightarrow> get_lun s b = None" for h
    using same_lun_get [of a b s] by (auto simp: get_lun_upd)
  show "get_lun (upd_lun h s a) b = None \<longleftrightarrow> get_lun s b = None"
    "get_lun (upd_blk f s a) b = None \<longleftrightarrow> get_lun s b = None"
    "get_lun (upd_pg g s a) b = None \<longleftrightarrow> get_lun s b = None"
    unfolding upd_pg_def upd_blk_def upd_pl_def by (rule *)+
qed

lemma upd_fields [simp, frame_simps]:
  "sp (upd_ch f s a) = sp s" "pcie (upd_ch f s a) = pcie s" "write_buffer (upd_ch f s a) = write_buffer s"
  "clk (upd_ch f s a) = clk s" "tick (upd_ch f s a) = tick s"
  "sp (upd_lun g s a) = sp s" "pcie (upd_lun g s a) = pcie s" "write_buffer (upd_lun g s a) = write_buffer s"
  "clk (upd_lun g s a) = clk s" "tick (upd_lun g s a) = tick s"
  "sp (upd_blk h s a) = sp s" "pcie (upd_blk h s a) = pcie s" "write_buffer (upd_blk h s a) = write_buffer s"
  "clk (upd_blk h s a) = clk s" "tick (upd_blk h s a) = tick s"
  "sp (upd_pg k s a) = sp s" "pcie (upd_pg k s a) = pcie s" "write_buffer (upd_pg k s a) = write_buffer s"
  "clk (upd_pg k s a) = clk s" "tick (upd_pg k s a) = tick s"
  by (simp_all add: upd_ch_def upd_lun_def upd_pl_def upd_blk_def upd_pg_def)

lemma get_blk_lun: "get_blk s a = Some b \<Longrightarrow> \<exists>l. get_lun s a = Some l"
  by (auto simp: get_blk_def get_pl_def split: Option.bind_splits)

lemma get_pg_blk:
  "get_pg s a = Some p \<Longrightarrow> \<exists>b. get_blk s a = Some b \<and> p_pg a < length (pgs b) \<and> pgs b ! p_pg a = p"
  by (auto simp: get_pg_def arr_simps split: Option.bind_splits)

section \<open>NAND timing\<close>

text \<open>Timing operations do not touch the contents of the flash.\<close>

definition same_nand :: "ssd \<Rightarrow> ssd \<Rightarrow> bool" where
  "same_nand s s' \<longleftrightarrow> sp s' = sp s \<and> (\<forall>a. get_blk s' a = get_blk s a) \<and>
     (\<forall>a. get_lun s' a = None \<longleftrightarrow> get_lun s a = None) \<and> write_buffer s' = write_buffer s"

lemma same_nand_refl [simp]: "same_nand s s"
  by (simp add: same_nand_def)

lemma same_nand_trans: "same_nand s s' \<Longrightarrow> same_nand s' s'' \<Longrightarrow> same_nand s s''"
  by (simp add: same_nand_def)

text \<open>What the timing code relies on: parameters without a division by zero or a read outside the
  latency tables, and well-formed credit rings. \<open>tm_keep\<close>: a step of the timing code.\<close>

definition tm_inv :: "ssd \<Rightarrow> bool" where
  "tm_inv s \<longleftrightarrow> 0 < max_ch_xfer_size (sp s) \<and> 0 < pgs_per_flashpg (sp s) \<and> 0 < cell_mode (sp s) \<and>
     cell_mode (sp s) \<le> length (pg_4kb_rd_lat (sp s)) \<and> cell_mode (sp s) \<le> length (pg_rd_lat (sp s)) \<and>
     (\<forall>c \<in> set (chs s). chm_inv (perf_model c)) \<and> chm_inv (pcie s)"

definition tm_keep :: "ssd \<Rightarrow> ssd \<Rightarrow> bool" where
  "tm_keep s s' \<longleftrightarrow> same_nand s s' \<and> tm_inv s'"

lemma all_set_modl:
  assumes "\<forall>x \<in> set xs. P x" "\<And>x. P x \<Longrightarrow> P (f x)"
  shows "\<forall>x \<in> set (modl xs i f). P x"
proof
  fix x assume "x \<in> set (modl xs i f)"
  then obtain k where k: "k < length xs" "x = (if i = k then f (xs ! k) else xs ! k)"
    by (auto simp: in_set_conv_nth arr_simps)
  then show "P x" using assms nth_mem [OF k(1)] by auto
qed

lemma tm_inv_upd_ch:
  assumes "tm_inv s" "\<And>c. chm_inv (perf_model c) \<Longrightarrow> chm_inv (perf_model (f c))"
  shows "tm_inv (upd_ch f s a)"
  using assms all_set_modl [of "chs s" "\<lambda>c. chm_inv (perf_model c)" f "p_ch a"]
  by (simp add: tm_inv_def upd_ch_def)

lemma tm_inv_upd_lun [simp]: "tm_inv s \<Longrightarrow> tm_inv (upd_lun f s a)"
  unfolding upd_lun_def by (rule tm_inv_upd_ch) simp_all

lemma tm_inv_upd_blk [simp]: "tm_inv s \<Longrightarrow> tm_inv (upd_blk f s a)" "tm_inv s \<Longrightarrow> tm_inv (upd_pg g s a)"
  by (simp_all add: upd_pg_def upd_blk_def upd_pl_def)

lemma set_avail_keep:
  assumes "tm_inv s"
  shows "tm_keep s (set_avail t s a)"
  using assms by (simp add: tm_keep_def same_nand_def set_avail_def get_blk_upd_lun get_lun_upd_pls)

lemma tick_keep:
  assumes "tm_inv s"
  shows "tm_keep s (s\<lparr>tick := n\<rparr>)" "get_lun (s\<lparr>tick := n\<rparr>) = get_lun s"
proof -
  show gl: "get_lun (s\<lparr>tick := n\<rparr>) = get_lun s" by (rule ext) (simp add: get_lun_def get_ch_def)
  have "get_blk (s\<lparr>tick := n\<rparr>) b = get_blk s b" for b by (rule get_blk_cong_lun) (simp only: gl)
  then show "tm_keep s (s\<lparr>tick := n\<rparr>)" using assms gl by (simp add: tm_keep_def same_nand_def tm_inv_def)
qed

lemma tm_keep_trans: "tm_keep s s' \<Longrightarrow> tm_keep s' s'' \<Longrightarrow> tm_keep s s''"
  unfolding tm_keep_def using same_nand_trans by blast

lemma tm_keepD: "tm_keep s s' \<Longrightarrow> tm_inv s'" "tm_keep s s' \<Longrightarrow> same_nand s s'" "tm_keep s s' \<Longrightarrow> sp s' = sp s"
  by (simp_all add: tm_keep_def same_nand_def)

text \<open>The channel model as the flash timing uses it: a request on a channel, or on the PCIe
  link, succeeds, ends no earlier than it starts and leaves the flash contents alone.\<close>

lemma ch_request_ok:
  assumes inv: "tm_inv s" and lun: "get_lun s a \<noteq> None"
  shows "\<exists>t' s'. ch_request s a t len = Some (t', s') \<and> t \<le> t' \<and> tm_keep s s' \<and> get_lun s' = get_lun s"
proof -
  from lun obtain c where c: "get_ch s a = Some c" by (auto simp: get_lun_def split: Option.bind_splits)
  then have "c \<in> set (chs s)" by (auto simp: get_ch_def arr_simps)
  then have "chm_inv (perf_model c)" using inv by (simp add: tm_inv_def)
  then obtain t' m where r: "chmodel_request (perf_model c) (clk s (tick s)) t len = Some (t', m)" "t \<le> t'" "chm_inv m"
    using chmodel_request_ok by blast
  let ?s1 = "s\<lparr>tick := tick s + 1\<rparr>"
  let ?s = "upd_ch (\<lambda>c. c\<lparr>perf_model := m\<rparr>) ?s1 a"
  have gl: "get_lun ?s = get_lun s"
    by (rule ext, subst get_lun_upd_ch) (simp_all add: get_lun_def get_ch_def)
  have "get_blk ?s b = get_blk s b" for b by (rule get_blk_cong_lun) (simp only: gl)
  moreover have "tm_inv ?s"
    by (rule tm_inv_upd_ch) (use tm_keepD(1) [OF tick_keep(1) [OF inv]] r(3) in simp_all)
  ultimately have "tm_keep s ?s" using gl by (simp add: tm_keep_def same_nand_def)
  moreover have "ch_request s a t len = Some (t', ?s)"
    using c r(1) by (simp add: ch_request_def get_ioclock_def)
  ultimately show ?thesis using r(2) gl by blast
qed

lemma ssd_advance_pcie_ok:
  assumes inv: "tm_inv s"
  shows "\<exists>t' s'. ssd_advance_pcie s t len = Some (t', s') \<and> t \<le> t' \<and> tm_keep s s' \<and> get_lun s' = get_lun s"
proof -
  from inv have "chm_inv (pcie s)" by (simp add: tm_inv_def)
  then obtain t' m where r: "chmodel_request (pcie s) (clk s (tick s)) t len = Some (t', m)" "t \<le> t'" "chm_inv m"
    using chmodel_request_ok by blast
  let ?s = "s\<lparr>tick := tick s + 1, pcie := m\<rparr>"
  have gl: "get_lun ?s = get_lun s" by (rule ext) (simp add: get_lun_def get_ch_def)
  have "get_blk ?s b = get_blk s b" for b by (rule get_blk_cong_lun) (simp only: gl)
  then have "tm_keep s ?s" using inv r(3) gl by (simp add: tm_keep_def same_nand_def tm_inv_def)
  then show ?thesis using r gl by (simp add: ssd_advance_pcie_def get_ioclock_def)
qed

lemma ssd_advance_write_buffer_ok:
  assumes "tm_inv s"
  shows "\<exists>t' s'. ssd_advance_write_buffer s t len = Some (t', s') \<and>
           t + fw_wbuf_lat0 (sp s) + fw_wbuf_lat1 (sp s) * DIV_ROUND_UP len (KB 4) \<le> t' \<and>
           tm_keep s s' \<and> get_lun s' = get_lun s"
  unfolding ssd_advance_write_buffer_def Let_def using ssd_advance_pcie_ok [OF assms] by blast

text \<open>The transfer loop ends and moves forward in time.\<close>

lemma read_xfer_loop_ok:
  assumes "tm_inv s" "get_lun s (nc_ppa ncmd) \<noteq> None" "t0 \<le> t"
    and "\<And>e c. xf = Some (e, c) \<Longrightarrow> t0 \<le> e \<and> e \<le> c" "remaining = 0 \<Longrightarrow> xf \<noteq> None"
  shows "\<exists>e c s'. read_xfer_loop s ncmd t remaining xf = Some (Some (e, c), s') \<and> t0 \<le> e \<and> e \<le> c \<and>
           tm_keep s s' \<and> get_lun s' = get_lun s"
  using assms
proof (induction remaining arbitrary: s t xf rule: less_induct)
  case (less remaining)
  show ?case
  proof (cases "remaining = 0")
    case True
    then obtain e c where "xf = Some (e, c)" using less.prems(5) by auto
    then show ?thesis
      using True less.prems(1) less.prems(4) [of e c] by (subst read_xfer_loop.simps) (simp add: tm_keep_def)
  next
    case False
    let ?x = "min remaining (max_ch_xfer_size (sp s))"
    have x: "0 < ?x" using False less.prems(1) by (simp add: tm_inv_def)
    obtain t1 s1 where 1: "ch_request s (nc_ppa ncmd) t ?x = Some (t1, s1)" "t \<le> t1" "tm_keep s s1"
      "get_lun s1 = get_lun s" using ch_request_ok less.prems(1,2) by blast
    note inv1 = tm_keepD(1) [OF 1(3)]
    obtain t2 s2 where 2: "(if nc_interleave ncmd then ssd_advance_pcie s1 t1 ?x else Some (t1, s1)) = Some (t2, s2)"
      "t1 \<le> t2" "tm_keep s1 s2" "get_lun s2 = get_lun s1"
      using ssd_advance_pcie_ok [OF inv1] inv1
      by (cases "nc_interleave ncmd") (simp_all add: tm_keep_def, meson)
    note inv2 = tm_keepD(1) [OF 2(3)]
    have rm: "remaining - ?x < remaining" using x False by simp
    obtain e c s' where 3: "read_xfer_loop s2 ncmd t1 (remaining - ?x) (Some (t1, t2)) = Some (Some (e, c), s')"
        "t0 \<le> e" "e \<le> c" "tm_keep s2 s'" "get_lun s' = get_lun s2"
      using less.IH [OF rm inv2, of t1 "Some (t1, t2)"] less.prems(2,3) 1(2,4) 2(2,4) by auto
    have "read_xfer_loop s ncmd t remaining xf = Some (Some (e, c), s')"
      using 1(1) 2(1) 3(1) False by (subst read_xfer_loop.simps) (simp add: Let_def)
    moreover have "tm_keep s s'" using 1(3) 2(3) 3(4) tm_keep_trans by blast
    ultimately show ?thesis using 1(4) 2(4) 3 by simp
  qed
qed

text \<open>The earliest instant at which the die of an address can start a command given at \<open>stime\<close>, and the
  cell latency of the command.\<close>

definition nand_start :: "ssd \<Rightarrow> nand_cmd \<Rightarrow> nat \<Rightarrow> nat" where
  "nand_start s ncmd stime =
     max (case get_lun s (nc_ppa ncmd) of None \<Rightarrow> 0 | Some l \<Rightarrow> next_lun_avail_time l) stime"

definition nand_lat :: "ssd \<Rightarrow> nand_cmd \<Rightarrow> nat" where
  "nand_lat s ncmd =
     (if nc_cmd ncmd = NAND_READ
      then the (read_lat s ncmd (p_pg (nc_ppa ncmd) div pgs_per_flashpg (sp s) mod cell_mode (sp s)))
      else if nc_cmd ncmd = NAND_WRITE then write_lat s (nc_ppa ncmd)
      else if nc_cmd ncmd = NAND_ERASE then erase_lat s (nc_ppa ncmd) else 0)"

lemma read_lat_ok:
  assumes "tm_inv s"
  shows "\<exists>l. read_lat s ncmd (k mod cell_mode (sp s)) = Some l"
proof -
  have "k mod cell_mode (sp s) < cell_mode (sp s)" using assms by (simp add: tm_inv_def)
  then have "k mod cell_mode (sp s) < length (pg_4kb_rd_lat (sp s))" "k mod cell_mode (sp s) < length (pg_rd_lat (sp s))"
    using assms by (auto simp: tm_inv_def)
  then show ?thesis by (simp add: read_lat_def Let_def arr_simps)
qed

lemma get_lun_set_avail:
  "get_lun s a = Some l \<Longrightarrow> get_lun (set_avail t s a) a = Some (l\<lparr>next_lun_avail_time := t\<rparr>)"
  by (simp add: set_avail_def get_lun_upd)

text \<open>A NAND command on an existing die succeeds. It completes no earlier than the instant at which
  the die is free and the command has been given, plus its cell latency, and the die's next
  availability moves forward accordingly. (A read has to transfer something: with a size of 0 the
  code uses an uninitialised variable.)\<close>

lemma nand_issue_ok:
  assumes inv: "tm_inv s" and lun: "get_lun s (nc_ppa ncmd) = Some l"
    and map: "ppa_val (nc_ppa ncmd) \<noteq> UNMAPPED_PPA"
    and cmd: "nc_cmd ncmd \<in> {NAND_READ, NAND_WRITE, NAND_ERASE, NAND_NOP}"
    and sz: "nc_cmd ncmd = NAND_READ \<Longrightarrow> nc_xfer_size ncmd \<noteq> 0"
  shows "\<exists>t s' l'. nand_issue s ncmd st = Some (t, s') \<and> tm_keep s s' \<and>
           nand_start s ncmd st + nand_lat s ncmd \<le> t \<and>
           get_lun s' (nc_ppa ncmd) = Some l' \<and>
           nand_start s ncmd st + nand_lat s ncmd \<le> next_lun_avail_time l' \<and>
           next_lun_avail_time l' \<le> t"
proof -
  let ?a = "nc_ppa ncmd" and ?st = "max (next_lun_avail_time l) st"
  have start: "nand_start s ncmd st = ?st" using lun by (simp add: nand_start_def)
  have cell: "get_cell s ?a = Some (p_pg ?a div pgs_per_flashpg (sp s) mod cell_mode (sp s))"
    using inv by (simp add: get_cell_def tm_inv_def)
  note unf = nand_issue_def Let_def map lun cell NAND_READ_def NAND_WRITE_def NAND_ERASE_def NAND_NOP_def
  consider (r) "nc_cmd ncmd = NAND_READ" | (w) "nc_cmd ncmd = NAND_WRITE"
    | (e) "nc_cmd ncmd = NAND_ERASE" | (n) "nc_cmd ncmd = NAND_NOP" using cmd by blast
  then show ?thesis
  proof cases
    case r
    obtain lat where lat: "read_lat s ncmd (p_pg ?a div pgs_per_flashpg (sp s) mod cell_mode (sp s)) = Some lat"
      using read_lat_ok [OF inv] by blast
    have nl: "nand_lat s ncmd = lat" using r lat by (simp add: nand_lat_def)
    obtain e c s1 where x: "read_xfer_loop s ncmd (?st + lat) (nc_xfer_size ncmd) None = Some (Some (e, c), s1)"
      "?st + lat \<le> e" "e \<le> c" "tm_keep s s1" "get_lun s1 = get_lun s"
      using read_xfer_loop_ok [OF inv, of ncmd "?st + lat" "?st + lat" None "nc_xfer_size ncmd"] lun sz [OF r] by auto
    have "nand_issue s ncmd st = Some (c, set_avail e s1 ?a)"
      using r lat x(1) by (simp add: unf)
    moreover have "get_lun (set_avail e s1 ?a) ?a = Some (l\<lparr>next_lun_avail_time := e\<rparr>)"
      using lun x(5) by (intro get_lun_set_avail) simp
    moreover have "tm_keep s (set_avail e s1 ?a)"
      using x(4) set_avail_keep tm_keepD(1) tm_keep_trans by blast
    ultimately show ?thesis using x(2,3) start nl by auto
  next
    case w
    obtain t1 s1 where x: "ch_request s ?a ?st (nc_xfer_size ncmd) = Some (t1, s1)" "?st \<le> t1" "tm_keep s s1"
      "get_lun s1 = get_lun s" using ch_request_ok [OF inv] lun by blast
    let ?t = "t1 + write_lat s ?a"
    have "write_lat s1 ?a = write_lat s ?a" using tm_keepD(3) [OF x(3)] by (simp add: write_lat_def)
    then have "nand_issue s ncmd st = Some (?t, set_avail ?t s1 ?a)"
      using w x(1) by (simp add: unf)
    moreover have "get_lun (set_avail ?t s1 ?a) ?a = Some (l\<lparr>next_lun_avail_time := ?t\<rparr>)"
      using lun x(4) by (intro get_lun_set_avail) simp
    moreover have "tm_keep s (set_avail ?t s1 ?a)"
      using x(3) set_avail_keep tm_keepD(1) tm_keep_trans by blast
    moreover have "nand_lat s ncmd = write_lat s ?a" using w by (simp add: nand_lat_def NAND_WRITE_def NAND_READ_def)
    ultimately show ?thesis using x(2) start by auto
  next
    case e
    let ?t = "?st + erase_lat s ?a"
    have "nand_issue s ncmd st = Some (?t, set_avail ?t s ?a)" using e by (simp add: unf)
    moreover have "nand_lat s ncmd = erase_lat s ?a"
      using e by (simp add: nand_lat_def NAND_WRITE_def NAND_READ_def NAND_ERASE_def)
    ultimately show ?thesis
      using start set_avail_keep [OF inv] get_lun_set_avail [OF lun] by simp
  next
    case n
    have "nand_issue s ncmd st = Some (?st, set_avail ?st s ?a)" using n by (simp add: unf)
    moreover have "nand_lat s ncmd = 0"
      using n by (simp add: nand_lat_def NAND_WRITE_def NAND_READ_def NAND_ERASE_def NAND_NOP_def)
    ultimately show ?thesis
      using start set_avail_keep [OF inv] get_lun_set_avail [OF lun] by simp
  qed
qed

text \<open>The form in which the FTLs use it; the unmapped address costs no time.\<close>

lemma ssd_advance_nand_safe:
  assumes inv: "tm_inv s" and lun: "get_lun s (nc_ppa ncmd) \<noteq> None"
    and sz: "nc_cmd ncmd = NAND_READ \<Longrightarrow> nc_xfer_size ncmd \<noteq> 0"
    and cmd: "nc_cmd ncmd \<in> {NAND_READ, NAND_WRITE, NAND_ERASE, NAND_NOP}"
  shows "\<exists>t s'. ssd_advance_nand s ncmd = Some (t, s') \<and> tm_keep s s' \<and> nc_stime ncmd \<le> t"
proof -
  obtain st s1 where st: "ssd_advance_nand s ncmd = nand_issue s1 ncmd st" "tm_keep s s1"
    "get_lun s1 = get_lun s" "nc_stime ncmd \<le> st"
  proof (cases "nc_stime ncmd = 0")
    case True
    then show ?thesis
      using that [of "s\<lparr>tick := tick s + 1\<rparr>" "clk s (tick s)"] tick_keep [OF inv]
      by (simp add: ssd_advance_nand_def get_ioclock_def)
  next
    case False
    then show ?thesis using that [of s "nc_stime ncmd"] inv by (simp add: ssd_advance_nand_def tm_keep_def)
  qed
  note inv1 = tm_keepD(1) [OF st(2)]
  have "\<exists>t s'. nand_issue s1 ncmd st = Some (t, s') \<and> tm_keep s1 s' \<and> st \<le> t"
  proof (cases "ppa_val (nc_ppa ncmd) = UNMAPPED_PPA")
    case True
    then show ?thesis using inv1 by (simp add: nand_issue_def tm_keep_def)
  next
    case False
    obtain l where "get_lun s1 (nc_ppa ncmd) = Some l" using lun st(3) by auto
    from nand_issue_ok [OF inv1 this False cmd sz, of st]
    obtain t s' where "nand_issue s1 ncmd st = Some (t, s')" "tm_keep s1 s'"
      "nand_start s1 ncmd st + nand_lat s1 ncmd \<le> t" by blast
    moreover have "st \<le> nand_start s1 ncmd st" by (simp add: nand_start_def)
    ultimately show ?thesis by fastforce
  qed
  then show ?thesis using st tm_keep_trans by (metis order_trans)
qed

end
