(* ===== verification/Conv_Geo.thy ===== *)
theory Conv_Geo
  imports Conv_Ftl Ssd_Laws
begin

text \<open>
  Geometry of a device with SLC cache, as the FTL uses it: the set of page addresses, the order in
  which a write pointer visits the pages of a line (\<open>windex\<close>), and the page number that
  \<open>ppa2pgidx\<close> computes (\<open>pgi\<close>), which is injective and below \<open>tt_pgs\<close>. The facts about the parameters
  that the FTL relies on are collected in \<open>geo\<close>, and \<open>ssd_init_params_slc\<close> establishes them.
\<close>

section \<open>Parameters\<close>

text \<open>Pages per block, pages per wordline and pages per line of the block number \<open>b\<close>.\<close>

definition ppb :: "ssdparams \<Rightarrow> nat \<Rightarrow> nat" where
  "ppb spp b = (if b < tt_lines_slc spp then pgs_per_blk_slc spp else pgs_per_blk spp)"

definition kk :: "ssdparams \<Rightarrow> nat \<Rightarrow> nat" where
  "kk spp b = (if b < tt_lines_slc spp then pgs_per_oneshotpg_slc spp else pgs_per_oneshotpg spp)"

definition ppl :: "ssdparams \<Rightarrow> nat \<Rightarrow> nat" where
  "ppl spp b = (if b < tt_lines_slc spp then pgs_per_line_slc spp else pgs_per_line spp)"

definition geo :: "ssdparams \<Rightarrow> bool" where
  "geo spp \<longleftrightarrow>
     0 < nchs spp \<and> nchs spp \<le> 2 ^ 8 \<and> 0 < luns_per_ch spp \<and> luns_per_ch spp \<le> 2 ^ 8 \<and> pls_per_lun spp = 1 \<and>
     0 < pgs_per_flashpg spp \<and> 0 < pgs_per_oneshotpg spp \<and> 0 < pgs_per_oneshotpg_slc spp \<and>
     0 < pgsz spp \<and>
     pgs_per_blk spp = pgs_per_oneshotpg spp * oneshotpgs_per_blk spp \<and>
     pgs_per_blk_slc spp = pgs_per_oneshotpg_slc spp * oneshotpgs_per_blk_slc spp \<and>
     pgs_per_blk spp = pgs_per_flashpg spp * flashpgs_per_blk spp \<and>
     pgs_per_blk_slc spp = pgs_per_flashpg spp * flashpgs_per_blk_slc spp \<and>
     0 < pgs_per_blk_slc spp \<and> pgs_per_blk_slc spp \<le> pgs_per_blk spp \<and> pgs_per_blk spp \<le> 2 ^ 16 \<and>
     pgs_per_line spp = luns_per_ch spp * nchs spp * pgs_per_blk spp \<and>
     pgs_per_line_slc spp = luns_per_ch spp * nchs spp * pgs_per_blk_slc spp \<and>
     blks_per_pl spp = tt_lines spp \<and> tt_lines spp = tt_lines_slc spp + tt_lines_tlc spp \<and>
     tt_lines spp \<le> 2 ^ 16 \<and>
     pgs_per_pl spp = pgs_per_blk_slc spp * tt_lines_slc spp + pgs_per_blk spp * tt_lines_tlc spp \<and>
     pgs_per_lun spp = pgs_per_pl spp * pls_per_lun spp \<and>
     pgs_per_ch spp = pgs_per_lun spp * luns_per_ch spp \<and> tt_pgs spp = pgs_per_ch spp * nchs spp"

lemma geoD:
  assumes "geo spp"
  shows "0 < nchs spp" "nchs spp \<le> 2 ^ 8" "0 < luns_per_ch spp" "luns_per_ch spp \<le> 2 ^ 8" "pls_per_lun spp = 1"
    "0 < pgs_per_flashpg spp" "0 < pgs_per_oneshotpg spp" "0 < pgs_per_oneshotpg_slc spp" "0 < pgsz spp"
    "0 < pgs_per_blk_slc spp" "0 < pgs_per_blk spp" "pgs_per_blk_slc spp \<le> pgs_per_blk spp" "pgs_per_blk spp \<le> 2 ^ 16"
    "blks_per_pl spp = tt_lines spp" "tt_lines spp = tt_lines_slc spp + tt_lines_tlc spp" "tt_lines spp \<le> 2 ^ 16"
    "pgs_per_line spp = luns_per_ch spp * nchs spp * pgs_per_blk spp"
    "pgs_per_line_slc spp = luns_per_ch spp * nchs spp * pgs_per_blk_slc spp"
    "pgs_per_blk spp = pgs_per_flashpg spp * flashpgs_per_blk spp"
    "pgs_per_blk_slc spp = pgs_per_flashpg spp * flashpgs_per_blk_slc spp"
proof -
  note g = assms [unfolded geo_def]
  show "0 < nchs spp" "nchs spp \<le> 2 ^ 8" "0 < luns_per_ch spp" "luns_per_ch spp \<le> 2 ^ 8" "pls_per_lun spp = 1"
    "0 < pgs_per_flashpg spp" "0 < pgs_per_oneshotpg spp" "0 < pgs_per_oneshotpg_slc spp" "0 < pgsz spp"
    "0 < pgs_per_blk_slc spp" "pgs_per_blk_slc spp \<le> pgs_per_blk spp" "pgs_per_blk spp \<le> 2 ^ 16"
    "blks_per_pl spp = tt_lines spp" "tt_lines spp = tt_lines_slc spp + tt_lines_tlc spp" "tt_lines spp \<le> 2 ^ 16"
    "pgs_per_line spp = luns_per_ch spp * nchs spp * pgs_per_blk spp"
    "pgs_per_line_slc spp = luns_per_ch spp * nchs spp * pgs_per_blk_slc spp"
    "pgs_per_blk spp = pgs_per_flashpg spp * flashpgs_per_blk spp"
    "pgs_per_blk_slc spp = pgs_per_flashpg spp * flashpgs_per_blk_slc spp"
    using g by blast+
  then show "0 < pgs_per_blk spp" by linarith
qed

lemma geo_pos:
  assumes "geo spp"
  shows "0 < nchs spp" "0 < luns_per_ch spp" "0 < ppb spp b" "0 < kk spp b" "0 < ppl spp b"
    "0 < pgs_per_flashpg spp" "0 < pgsz spp"
  by (simp_all add: geoD(1-13,17-18) [OF assms] ppb_def kk_def ppl_def)

lemma geo_ppl: "geo spp \<Longrightarrow> ppl spp b = luns_per_ch spp * nchs spp * ppb spp b"
  by (auto simp: geo_def ppb_def ppl_def)

lemma geo_ppb_kk: "geo spp \<Longrightarrow> ppb spp b mod kk spp b = 0"
  by (auto simp: geo_def ppb_def kk_def)

lemma geo_ppb_bound: "geo spp \<Longrightarrow> ppb spp b \<le> 2 ^ 16"
  by (auto simp: geo_def ppb_def)

section \<open>Pages\<close>

definition pages :: "ssdparams \<Rightarrow> ppa set" where
  "pages spp = {a. p_ch a < nchs spp \<and> p_lun a < luns_per_ch spp \<and> p_pl a = 0 \<and> p_blk a < tt_lines spp \<and>
                   p_pg a < ppb spp (p_blk a) \<and> p_rsv a = 0}"

definition line_pages :: "ssdparams \<Rightarrow> nat \<Rightarrow> ppa set" where
  "line_pages spp b = {a \<in> pages spp. p_blk a = b}"

definition blk_pages :: "ssdparams \<Rightarrow> ppa \<Rightarrow> ppa set" where
  "blk_pages spp a = {x \<in> pages spp. same_blk a x}"

definition mk :: "nat \<Rightarrow> nat \<Rightarrow> nat \<Rightarrow> nat \<Rightarrow> ppa" where
  "mk c l b p = \<lparr>p_pg = p, p_blk = b, p_pl = 0, p_lun = l, p_ch = c, p_rsv = 0\<rparr>"

lemma mk_sel [simp]:
  "p_pg (mk c l b p) = p" "p_blk (mk c l b p) = b" "p_pl (mk c l b p) = 0" "p_lun (mk c l b p) = l"
  "p_ch (mk c l b p) = c" "p_rsv (mk c l b p) = 0"
  by (simp_all add: mk_def)

lemma mk_in_pages [simp]:
  "mk c l b p \<in> pages spp \<longleftrightarrow> c < nchs spp \<and> l < luns_per_ch spp \<and> b < tt_lines spp \<and> p < ppb spp b"
  by (simp add: pages_def)

lemma pages_mk: "a \<in> pages spp \<Longrightarrow> a = mk (p_ch a) (p_lun a) (p_blk a) (p_pg a)"
  by (auto simp: pages_def mk_def)

lemma pages_eqI:
  assumes "a \<in> pages spp" "b \<in> pages spp" "p_ch a = p_ch b" "p_lun a = p_lun b" "p_blk a = p_blk b" "p_pg a = p_pg b"
  shows "a = b"
  using assms pages_mk by metis

lemma same_blk_pages:
  "a \<in> pages spp \<Longrightarrow> b \<in> pages spp \<Longrightarrow>
   same_blk a b \<longleftrightarrow> p_ch a = p_ch b \<and> p_lun a = p_lun b \<and> p_blk a = p_blk b"
  by (auto simp: same_blk_def same_lun_def pages_def)

lemma finite_line_pages: "finite (line_pages spp b)"
  and card_line_pages: "b < tt_lines spp \<Longrightarrow> card (line_pages spp b) = luns_per_ch spp * nchs spp * ppb spp b"
proof -
  let ?S = "{..<nchs spp} \<times> {..<luns_per_ch spp} \<times> {..<ppb spp b}"
  let ?f = "\<lambda>(c, l, p). mk c l b p"
  have sub: "line_pages spp b \<subseteq> ?f ` ?S"
  proof
    fix a assume a: "a \<in> line_pages spp b"
    then have "a = ?f (p_ch a, p_lun a, p_pg a)" using pages_mk [of a spp] by (simp add: line_pages_def)
    moreover have "(p_ch a, p_lun a, p_pg a) \<in> ?S" using a by (auto simp: line_pages_def pages_def)
    ultimately show "a \<in> ?f ` ?S" by (rule image_eqI)
  qed
  then show "finite (line_pages spp b)" by (rule finite_subset) simp
  assume "b < tt_lines spp"
  then have "line_pages spp b = ?f ` ?S" using sub by (auto simp: line_pages_def)
  moreover have "inj_on ?f ?S" by (auto simp: inj_on_def mk_def)
  ultimately show "card (line_pages spp b) = luns_per_ch spp * nchs spp * ppb spp b"
    by (simp add: card_image card_cartesian_product)
qed

lemma finite_blk_pages [simp]: "finite (blk_pages spp a)"
  by (rule finite_subset [OF _ finite_line_pages [of spp "p_blk a"]])
    (auto simp: blk_pages_def line_pages_def same_blk_def)

lemma card_blk_pages:
  assumes "a \<in> pages spp"
  shows "card (blk_pages spp a) = ppb spp (p_blk a)"
proof -
  let ?f = "\<lambda>p. mk (p_ch a) (p_lun a) (p_blk a) p"
  have "blk_pages spp a = ?f ` {..<ppb spp (p_blk a)}"
  proof (intro set_eqI iffI)
    fix x assume "x \<in> blk_pages spp a"
    then have x: "x \<in> pages spp" "same_blk a x" by (auto simp: blk_pages_def)
    then have "x = ?f (p_pg x)" using pages_mk [OF x(1)] assms by (simp add: same_blk_pages)
    moreover have "p_pg x < ppb spp (p_blk a)" using x assms by (auto simp: pages_def same_blk_def)
    ultimately show "x \<in> ?f ` {..<ppb spp (p_blk a)}" by auto
  next
    fix x assume "x \<in> ?f ` {..<ppb spp (p_blk a)}"
    then show "x \<in> blk_pages spp a"
      using assms by (auto simp: blk_pages_def same_blk_def same_lun_def) (auto simp: pages_def)
  qed
  moreover have "inj_on ?f {..<ppb spp (p_blk a)}" by (auto simp: inj_on_def mk_def)
  ultimately show ?thesis by (simp add: card_image)
qed

lemma blk_pages_line: "a \<in> pages spp \<Longrightarrow> blk_pages spp a \<subseteq> line_pages spp (p_blk a)"
  by (auto simp: blk_pages_def line_pages_def same_blk_def)

lemma mapped_page: "a \<in> pages spp \<Longrightarrow> geo spp \<Longrightarrow> mapped_ppa a"
proof -
  assume "a \<in> pages spp" "geo spp"
  then have "p_rsv a = 0" "p_ch a < 2 ^ 8" "p_lun a < 2 ^ 8" "p_pl a < 2 ^ 8" "p_blk a < 2 ^ 16" "p_pg a < 2 ^ 16"
    using geo_ppb_bound [of spp "p_blk a"] by (auto simp: pages_def geo_def)
  then have "ppa_val a < UNMAPPED_PPA"
    by (simp add: ppa_val_def UNMAPPED_PPA_def)
  then show ?thesis by (simp add: mapped_ppa_def)
qed

lemma ones_unmapped [simp]: "\<not> mapped_ppa ones_ppa"
  by (simp add: mapped_ppa_def ones_ppa_def ppa_val_def UNMAPPED_PPA_def)

section \<open>Write order\<close>

text \<open>Position of a page in the order in which \<open>advance_write_pointer\<close> visits the pages of a line: a
  wordline on each channel, then on each LUN, then the next wordline.\<close>

definition worder :: "ssdparams \<Rightarrow> nat \<Rightarrow> nat \<Rightarrow> nat \<Rightarrow> nat \<Rightarrow> nat" where
  "worder spp k c l p = ((p div k * luns_per_ch spp + l) * nchs spp + c) * k + p mod k"

definition windex :: "ssdparams \<Rightarrow> ppa \<Rightarrow> nat" where
  "windex spp a = worder spp (kk spp (p_blk a)) (p_ch a) (p_lun a) (p_pg a)"

lemma worder_inj:
  assumes "c < nchs spp" "c' < nchs spp" "l < luns_per_ch spp" "l' < luns_per_ch spp" "0 < k"
    and "worder spp k c l p = worder spp k c' l' p'"
  shows "c = c' \<and> l = l' \<and> p = p'"
proof -
  have 1: "(p div k * luns_per_ch spp + l) * nchs spp + c = (p' div k * luns_per_ch spp + l') * nchs spp + c'"
    "p mod k = p' mod k"
    using mixed_radix_inj [OF mod_less_divisor [OF assms(5)] mod_less_divisor [OF assms(5)]] assms(6)
    unfolding worder_def by blast+
  have 2: "p div k * luns_per_ch spp + l = p' div k * luns_per_ch spp + l'" "c = c'"
    using mixed_radix_inj [OF assms(1,2) 1(1)] by simp_all
  have 3: "p div k = p' div k" "l = l'" using mixed_radix_inj [OF assms(3,4) 2(1)] by simp_all
  have "p = p'" using 1(2) 3(1) by (metis mult_div_mod_eq)
  then show ?thesis using 2 3 by simp
qed

lemma windex_inj:
  assumes "geo spp" "a \<in> line_pages spp b" "x \<in> line_pages spp b" "windex spp a = windex spp x"
  shows "a = x"
proof -
  have "p_ch a = p_ch x \<and> p_lun a = p_lun x \<and> p_pg a = p_pg x"
    using assms geo_pos(4) [OF assms(1), of b]
    by (intro worder_inj [of _ spp _ _ _ "kk spp b"]) (auto simp: windex_def line_pages_def pages_def)
  then show ?thesis using assms by (intro pages_eqI [of a spp x]) (auto simp: line_pages_def)
qed

lemma windex_bound:
  assumes "geo spp" "a \<in> pages spp"
  shows "windex spp a < ppl spp (p_blk a)"
proof -
  let ?k = "kk spp (p_blk a)" and ?n = "ppb spp (p_blk a)"
  have a: "p_ch a < nchs spp" "p_lun a < luns_per_ch spp" "p_pg a < ?n" using assms by (auto simp: pages_def)
  have k: "0 < ?k" "?n = ?n div ?k * ?k" using geo_pos(4) [OF assms(1)] geo_ppb_kk [OF assms(1), of "p_blk a"]
    by (auto simp: mod_eq_0_iff_dvd)
  have "p_pg a div ?k < ?n div ?k" using a(3) k by (metis div_less_iff_less_mult)
  then have "(p_pg a div ?k * luns_per_ch spp + p_lun a) < ?n div ?k * luns_per_ch spp"
    using a(2) by (rule mixed_radix_less)
  then have "(p_pg a div ?k * luns_per_ch spp + p_lun a) * nchs spp + p_ch a < ?n div ?k * luns_per_ch spp * nchs spp"
    using a(1) by (rule mixed_radix_less)
  then have "windex spp a < ?n div ?k * luns_per_ch spp * nchs spp * ?k"
    unfolding windex_def worder_def using k(1) by (elim mixed_radix_less) simp
  also have "\<dots> = luns_per_ch spp * nchs spp * (?n div ?k * ?k)" by (simp add: ac_simps)
  also have "\<dots> = ppl spp (p_blk a)" using k(2) geo_ppl [OF assms(1)] by simp
  finally show ?thesis .
qed

section \<open>Page numbers\<close>

definition blkbase :: "ssdparams \<Rightarrow> nat \<Rightarrow> nat" where
  "blkbase spp b = (if b < tt_lines_slc spp then b * pgs_per_blk_slc spp
     else tt_lines_slc spp * pgs_per_blk_slc spp + (b - tt_lines_slc spp) * pgs_per_blk spp)"

definition pgi :: "ssdparams \<Rightarrow> ppa \<Rightarrow> nat" where
  "pgi spp a = (p_ch a * luns_per_ch spp + p_lun a) * pgs_per_pl spp + (blkbase spp (p_blk a) + p_pg a)"

lemma blkbase_step: "blkbase spp b + ppb spp b = blkbase spp (Suc b)"
proof -
  consider "Suc b < tt_lines_slc spp" | "Suc b = tt_lines_slc spp" | "tt_lines_slc spp \<le> b" by linarith
  then show ?thesis
  proof cases
    case 2
    then have "tt_lines_slc spp = Suc b" by simp
    then show ?thesis by (simp add: blkbase_def ppb_def)
  next
    case 3
    then show ?thesis by (simp add: blkbase_def ppb_def Suc_diff_le)
  qed (simp add: blkbase_def ppb_def)
qed

lemma blkbase_mono: "b \<le> b' \<Longrightarrow> blkbase spp b \<le> blkbase spp b'"
  by (rule lift_Suc_mono_le [of "blkbase spp"]) (use blkbase_step [of spp] in \<open>metis le_add1\<close>)

lemma blkbase_inj:
  assumes "p < ppb spp b" "p' < ppb spp b'" "blkbase spp b + p = blkbase spp b' + p'"
  shows "b = b' \<and> p = p'"
proof -
  have *: False if "b1 < b2" "p1 < ppb spp b1" "blkbase spp b1 + p1 = blkbase spp b2 + p2" for b1 b2 p1 p2
    using that blkbase_mono [of "Suc b1" b2 spp] blkbase_step [of spp b1] by simp
  then show ?thesis using assms by (metis add_left_cancel linorder_neqE_nat)
qed

lemma blkbase_bound:
  assumes "geo spp" "b < tt_lines spp" "p < ppb spp b"
  shows "blkbase spp b + p < pgs_per_pl spp"
proof -
  have "blkbase spp b + p < blkbase spp (Suc b)" using blkbase_step [of spp b] assms(3) by simp
  also have "\<dots> \<le> blkbase spp (tt_lines spp)" by (rule blkbase_mono) (use assms(2) in simp)
  also have "\<dots> = pgs_per_pl spp" using assms(1) by (auto simp: blkbase_def geo_def ac_simps)
  finally show ?thesis .
qed

lemma pgi_bound:
  assumes "geo spp" "a \<in> pages spp"
  shows "pgi spp a < tt_pgs spp"
proof -
  have a: "p_ch a < nchs spp" "p_lun a < luns_per_ch spp" "blkbase spp (p_blk a) + p_pg a < pgs_per_pl spp"
    using assms blkbase_bound [OF assms(1)] by (auto simp: pages_def)
  have "pgi spp a < nchs spp * luns_per_ch spp * pgs_per_pl spp"
    unfolding pgi_def by (intro mixed_radix_less a)
  also have "\<dots> = tt_pgs spp" using assms(1) by (simp add: geo_def ac_simps)
  finally show ?thesis .
qed

lemma pgi_inj:
  assumes "geo spp" "a \<in> pages spp" "x \<in> pages spp" "pgi spp a = pgi spp x"
  shows "a = x"
proof -
  have bd: "blkbase spp (p_blk y) + p_pg y < pgs_per_pl spp" if "y \<in> pages spp" for y
    using that blkbase_bound [OF assms(1)] by (auto simp: pages_def)
  have l: "p_lun y < luns_per_ch spp" "p_pg y < ppb spp (p_blk y)" if "y \<in> pages spp" for y using that by (auto simp: pages_def)
  have 1: "p_ch a * luns_per_ch spp + p_lun a = p_ch x * luns_per_ch spp + p_lun x"
    "blkbase spp (p_blk a) + p_pg a = blkbase spp (p_blk x) + p_pg x"
    using mixed_radix_inj [OF bd [OF assms(2)] bd [OF assms(3)]] assms(4) unfolding pgi_def by blast+
  have "p_ch a = p_ch x \<and> p_lun a = p_lun x" using mixed_radix_inj [OF l(1) [OF assms(2)] l(1) [OF assms(3)] 1(1)] .
  moreover have "p_blk a = p_blk x \<and> p_pg a = p_pg x"
    using blkbase_inj [OF l(2) [OF assms(2)] l(2) [OF assms(3)] 1(2)] .
  ultimately show ?thesis using pages_eqI assms(2,3) by blast
qed

lemma ppa2pgidx_pages:
  assumes "geo (spp_of cf)" "slc_mode cf = SLC_MODE" "a \<in> pages (spp_of cf)"
  shows "ppa2pgidx cf a = Some (pgi (spp_of cf) a)"
proof -
  let ?spp = "spp_of cf"
  have g: "pgs_per_lun ?spp = pgs_per_pl ?spp" "pgs_per_ch ?spp = pgs_per_pl ?spp * luns_per_ch ?spp"
    using assms(1) by (auto simp: geo_def)
  have "p_pg a < ppb ?spp (p_blk a)" "p_pl a = 0" using assms(3) by (auto simp: pages_def)
  then show ?thesis
    using pgi_bound [OF assms(1,3)] assms(2)
    by (auto simp: ppa2pgidx_def Let_def pgi_def blkbase_def ppb_def g algebra_simps)
qed

text \<open>Geometry from a configuration: what \<open>ssd_init_params_slc\<close> computes satisfies \<open>geo\<close>, whenever the
  field widths of a physical page address can hold it.\<close>

lemma ssd_init_params_slc_geo:
  assumes "ssd_init_params_slc cfg capacity nparts = Some spp"
    and "0 < NAND_CHANNELS cfg div nparts" "NAND_CHANNELS cfg div nparts \<le> 2 ^ 8"
    and "0 < LUNS_PER_NAND_CH cfg" "LUNS_PER_NAND_CH cfg \<le> 2 ^ 8" "PLNS_PER_LUN cfg = 1"
    and "0 < capacity div nparts" "LBA_BITS cfg \<le> 12"
    and "0 < FLASH_PAGE_SIZE cfg" "0 < SLC_ONESHOT_PAGE_SIZE cfg" "0 < ONESHOT_PAGE_SIZE cfg"
    and "SLC_ONESHOT_PAGE_SIZE cfg mod FLASH_PAGE_SIZE cfg = 0" "SLC_ONESHOT_PAGE_SIZE cfg \<le> ONESHOT_PAGE_SIZE cfg"
    and "SLC_PORTION cfg \<le> 100" "0 < BLKS_PER_PLN cfg" "BLKS_PER_PLN cfg \<le> 2 ^ 16"
    and "pgs_per_blk spp \<le> 2 ^ 16"
  shows "geo spp"
proof -
  let ?F = "FLASH_PAGE_SIZE cfg" and ?O = "ONESHOT_PAGE_SIZE cfg" and ?S = "SLC_ONESHOT_PAGE_SIZE cfg"
  let ?n = "NAND_CHANNELS cfg div nparts"
  let ?z = "2 ^ LBA_BITS cfg * (4096 div 2 ^ LBA_BITS cfg) :: nat"
  let ?blk = "DIV_ROUND_UP (capacity div nparts) (BLKS_PER_PLN cfg * PLNS_PER_LUN cfg * LUNS_PER_NAND_CH cfg * ?n)"
  let ?w = "DIV_ROUND_UP ?blk ?O"
  have z: "?z = 4096"
  proof -
    have "(2::nat) ^ LBA_BITS cfg dvd 2 ^ 12" using assms(8) by (rule le_imp_power_dvd)
    then have "?z = 2 ^ 12" by (simp add: dvd_mult_div_cancel)
    then show ?thesis by simp
  qed
  have d: "?O mod 4096 = 0" "?F mod 4096 = 0" "?O mod ?F = 0"
    using assms(1) unfolding ssd_init_params_slc_def LBA_SIZE_def Let_def z by (auto split: Option.bind_splits)
  obtain j where j: "?F = 4096 * j" using d(2) by (metis mult_div_mod_eq add.right_neutral)
  obtain m where m: "?O = ?F * m" using d(3) by (metis mult_div_mod_eq add.right_neutral)
  obtain e where e: "?S = ?F * e" using assms(12) by (metis mult_div_mod_eq add.right_neutral)
  have q: "?O div 4096 = j * m" "?S div 4096 = j * e" "?F div 4096 = j" "?O div ?F = m" "?S div ?F = e"
    using j m e assms(9) by simp_all
  have pos: "0 < j" "0 < m" "0 < e" "e \<le> m" using j m e assms(9-11,13) by auto
  have w: "0 < ?w" using assms(2,4,6,7,11,15) by (intro DIV_ROUND_UP_pos) auto
  have slc: "BLKS_PER_PLN cfg * SLC_PORTION cfg div 100 \<le> BLKS_PER_PLN cfg"
    using div_le_mono [OF mult_le_mono2 [OF assms(14), of "BLKS_PER_PLN cfg"], of 100] by simp
  have eqs: "nchs spp = ?n" "luns_per_ch spp = LUNS_PER_NAND_CH cfg" "pls_per_lun spp = 1"
    "pgs_per_flashpg spp = j" "pgs_per_oneshotpg spp = j * m" "pgs_per_oneshotpg_slc spp = j * e" "pgsz spp = 4096"
    "oneshotpgs_per_blk spp = ?w" "oneshotpgs_per_blk_slc spp = ?w" "flashpgs_per_blk spp = m * ?w"
    "flashpgs_per_blk_slc spp = e * ?w" "pgs_per_blk spp = j * m * ?w" "pgs_per_blk_slc spp = j * e * ?w"
    "blks_per_pl spp = BLKS_PER_PLN cfg" "tt_lines spp = BLKS_PER_PLN cfg"
    "tt_lines_slc spp = BLKS_PER_PLN cfg * SLC_PORTION cfg div 100"
    "tt_lines_tlc spp = BLKS_PER_PLN cfg - BLKS_PER_PLN cfg * SLC_PORTION cfg div 100"
    "pgs_per_line spp = LUNS_PER_NAND_CH cfg * ?n * (j * m * ?w)"
    "pgs_per_line_slc spp = LUNS_PER_NAND_CH cfg * ?n * (j * e * ?w)"
    "pgs_per_pl spp = pgs_per_blk_slc spp * tt_lines_slc spp + pgs_per_blk spp * tt_lines_tlc spp"
    "pgs_per_lun spp = pgs_per_pl spp * pls_per_lun spp" "pgs_per_ch spp = pgs_per_lun spp * luns_per_ch spp"
    "tt_pgs spp = pgs_per_ch spp * nchs spp"
    using assms(1,6,15) unfolding ssd_init_params_slc_def LBA_SIZE_def Let_def z q
    by (auto split: Option.bind_splits)
  have "j * e * ?w \<le> j * m * ?w" using pos(4) by simp
  moreover have "j * m * ?w \<le> 2 ^ 16" using assms(17) unfolding eqs(12) .
  ultimately show ?thesis
    unfolding geo_def eqs using assms(2-5,15,16) pos w slc by (simp add: ac_simps)
qed

end
