(* ===== verification/Conv_Inv.thy ===== *)
theory Conv_Inv
  imports Conv_Geo
begin

text \<open>
  The invariant of the FTL and the operations that change the state of pages and lines.

  \<open>nand_inv\<close>: the NAND tree has the shape of the geometry and every block's counters count its
  pages. \<open>lines_inv\<close>: the same for the counters of the lines. \<open>lm_inv\<close>: the lines of one kind are
  partitioned into the free list, the full list, the victim queue, the line under the write pointer
  and the lines \<open>V\<close> that are in none of them (the victim of a collection that is under way).
  \<open>cls\<close>: what the membership says about the pages. \<open>binv\<close> is all of this for both kinds of lines.
\<close>

section \<open>The victim queue on the line store\<close>

interpretation vq: pq_callbacks victim_line_cmp_pri victim_line_get_pri victim_line_set_pri
  victim_line_get_pos victim_line_set_pos "map (\<lambda>l. l\<lparr>l_pos := 0\<rparr>)" "\<lambda>h a. a < length h"
proof (unfold_locales, goal_cases)
  case (4 h e p e')
  then show ?case by (auto simp: victim_line_get_pos_def victim_line_set_pos_def modl_def nth_list_update)
next
  case (5 h e p e')
  then show ?case
    by (cases "e < length h"; cases "e = e'") (simp_all add: victim_line_get_pri_def victim_line_set_pos_def modl_def list_update_beyond)
next
  case (6 h e p)
  then show ?case by (auto simp: victim_line_set_pos_def arr_simps intro!: nth_equalityI)
next
  case (8 h e p e')
  then show ?case by (auto simp: victim_line_get_pri_def victim_line_set_pri_def modl_def nth_list_update)
next
  case (9 h e p e')
  then show ?case
    by (cases "e < length h"; cases "e = e'") (simp_all add: victim_line_get_pos_def victim_line_set_pri_def modl_def list_update_beyond)
qed (auto simp: victim_line_cmp_pri_def victim_line_set_pri_def victim_line_set_pos_def)

lemma only_posD:
  assumes "vq.only_pos M h h'"
  shows "length h' = length h"
    and "e < length h \<Longrightarrow> line_id (h' ! e) = line_id (h ! e) \<and> l_ipc (h' ! e) = l_ipc (h ! e) \<and> l_vpc (h' ! e) = l_vpc (h ! e)"
    and "e < length h \<Longrightarrow> e \<notin> M \<Longrightarrow> l_pos (h' ! e) = l_pos (h ! e)"
proof -
  have m: "map (\<lambda>l. l\<lparr>l_pos := 0\<rparr>) h' = map (\<lambda>l. l\<lparr>l_pos := 0\<rparr>) h" using assms by (simp add: vq.only_pos_def)
  then show len: "length h' = length h" by (metis length_map)
  show "line_id (h' ! e) = line_id (h ! e) \<and> l_ipc (h' ! e) = l_ipc (h ! e) \<and> l_vpc (h' ! e) = l_vpc (h ! e)"
    if "e < length h"
  proof -
    have "(h' ! e)\<lparr>l_pos := 0\<rparr> = (h ! e)\<lparr>l_pos := 0\<rparr>" using arg_cong [OF m, of "\<lambda>xs. xs ! e"] that len by simp
    then show ?thesis by (metis line.select_convs(1-3) line.surjective line.update_convs(4))
  qed
  show "e < length h \<Longrightarrow> e \<notin> M \<Longrightarrow> l_pos (h' ! e) = l_pos (h ! e)"
    using assms by (simp add: vq.only_pos_def victim_line_get_pos_def)
qed

lemma pq_frame:
  assumes "vq.pq_inv q h" "length h' = length h"
    and "\<And>e. e \<in> set (live q) \<Longrightarrow> l_pos (h' ! e) = l_pos (h ! e) \<and> l_vpc (h' ! e) = l_vpc (h ! e)"
  shows "vq.pq_inv q h'"
proof -
  have d: "q_d q ! j \<in> set (live q)" if "1 \<le> j" "j < q_size q" for j using that by (auto simp: live_def)
  have u: "getpri q = victim_line_get_pri" using assms(1) by (simp add: vq.pq_inv_def vq.uses_def)
  have "heap_at q h' j" if "2 \<le> j" "j < q_size q" for j
  proof -
    have "heap_at q h j" using assms(1) that by (simp add: vq.pq_inv_def)
    moreover have "1 \<le> j div 2" "j div 2 < q_size q" using that by auto
    ultimately show ?thesis
      using assms(3) d [of j] d [of "j div 2"] that u
      by (simp add: heap_at_def parent_def victim_line_get_pri_def)
  qed
  then show ?thesis
    using assms(1,2,3) d by (auto simp: vq.pq_inv_def victim_line_get_pos_def)
qed

lemma pq_live_bounds:
  assumes "vq.pq_inv q h" "e \<in> set (live q)"
  shows "e < length h" "l_pos (h ! e) \<noteq> 0"
  using vq.pq_inv_live [OF assms] by (auto simp: victim_line_get_pos_def)

lemma live_length: "length (live q) = q_size q - 1"
  by (simp add: live_def)

section \<open>Status of pages\<close>

definition stat :: "ssd \<Rightarrow> ppa \<Rightarrow> pg_status" where
  "stat s a = status (the (get_pg s a))"

definition st_in :: "ssd \<Rightarrow> pg_status \<Rightarrow> ppa set \<Rightarrow> ppa set" where
  "st_in s st A = {x \<in> A. stat s x = st}"

definition blk_ok :: "ssd \<Rightarrow> ppa \<Rightarrow> nand_block \<Rightarrow> bool" where
  "blk_ok s a blk \<longleftrightarrow>
     length (pgs blk) = ppb (sp s) (p_blk a) \<and> npgs blk = ppb (sp s) (p_blk a) \<and>
     (\<forall>p \<in> set (pgs blk). nsecs p = secs_per_pg (sp s)) \<and>
     vpc blk = card (st_in s PG_VALID (blk_pages (sp s) a)) \<and>
     ipc blk = card (st_in s PG_INVALID (blk_pages (sp s) a))"

definition nand_inv :: "ssd \<Rightarrow> bool" where
  "nand_inv s \<longleftrightarrow> geo (sp s) \<and> tm_inv s \<and> (\<forall>a \<in> pages (sp s). \<exists>blk. get_blk s a = Some blk \<and> blk_ok s a blk)"

lemma nand_page:
  assumes "nand_inv s" "a \<in> pages (sp s)"
  obtains blk pg where "get_blk s a = Some blk" "blk_ok s a blk" "get_pg s a = Some pg" "status pg = stat s a"
    "pg = pgs blk ! p_pg a" "p_pg a < length (pgs blk)"
proof -
  obtain blk where b: "get_blk s a = Some blk" "blk_ok s a blk" using assms by (auto simp: nand_inv_def)
  moreover have "p_pg a < length (pgs blk)" using b(2) assms(2) by (simp add: blk_ok_def pages_def)
  ultimately show ?thesis
    using that [of blk "pgs blk ! p_pg a"] by (simp add: get_pg_def arr_simps stat_def)
qed

lemma nand_lun: "nand_inv s \<Longrightarrow> a \<in> pages (sp s) \<Longrightarrow> get_lun s a \<noteq> None"
  using nand_page [of s a] get_blk_lun by (metis option.distinct(1))

lemma stat_same_nand: "same_nand s s' \<Longrightarrow> stat s' = stat s"
  by (rule ext) (simp add: stat_def get_pg_def same_nand_def)

lemma nand_inv_keep: "nand_inv s \<Longrightarrow> tm_keep s s' \<Longrightarrow> nand_inv s'"
  using stat_same_nand [of s s'] by (simp add: nand_inv_def tm_keep_def blk_ok_def st_in_def same_nand_def)

lemma st_in_finite [simp]: "finite (st_in s st (line_pages spp b))" "finite (st_in s st (blk_pages spp a))"
  by (auto simp: st_in_def finite_line_pages)

text \<open>One page changes its status from \<open>st0\<close> to \<open>st\<close>.\<close>

definition stat_upd :: "ssd \<Rightarrow> ssd \<Rightarrow> ppa \<Rightarrow> pg_status \<Rightarrow> bool" where
  "stat_upd s s' a st \<longleftrightarrow> sp s' = sp s \<and> (\<forall>x \<in> pages (sp s). stat s' x = (if x = a then st else stat s x))"

lemma st_in_upd:
  assumes "stat_upd s s' a st" "A \<subseteq> pages (sp s)"
  shows "st_in s' q A = (if a \<in> A \<and> q = st then insert a (st_in s q A) else st_in s q A - {a}) \<or> a \<notin> A"
    and "a \<notin> A \<Longrightarrow> st_in s' q A = st_in s q A"
  using assms by (auto simp: st_in_def stat_upd_def subset_iff)

lemma card_st_in_upd:
  assumes "stat_upd s s' a st" "A \<subseteq> pages (sp s)" "finite A" "a \<in> A" "stat s a = st0" "st0 \<noteq> st"
  shows "card (st_in s' st A) = card (st_in s st A) + 1"
    and "card (st_in s' st0 A) + 1 = card (st_in s st0 A)"
    and "q \<noteq> st \<Longrightarrow> q \<noteq> st0 \<Longrightarrow> st_in s' q A = st_in s q A"
proof -
  have f: "finite (st_in s q A)" for q using assms(3) by (simp add: st_in_def)
  have "st_in s' st A = insert a (st_in s st A)" "a \<notin> st_in s st A"
    using assms by (auto simp: st_in_def stat_upd_def subset_iff)
  then show "card (st_in s' st A) = card (st_in s st A) + 1" using f by simp
  have "st_in s st0 A = insert a (st_in s' st0 A)" "a \<notin> st_in s' st0 A"
    using assms by (auto simp: st_in_def stat_upd_def subset_iff split: if_splits)
  moreover have "finite (st_in s' st0 A)" using assms(3) by (simp add: st_in_def)
  ultimately show "card (st_in s' st0 A) + 1 = card (st_in s st0 A)" by simp
  show "q \<noteq> st \<Longrightarrow> q \<noteq> st0 \<Longrightarrow> st_in s' q A = st_in s q A"
    using assms by (auto simp: st_in_def stat_upd_def subset_iff)
qed

lemma pages_sub: "line_pages spp b \<subseteq> pages spp" "blk_pages spp a \<subseteq> pages spp"
  by (auto simp: line_pages_def blk_pages_def)

text \<open>The write of a page's status together with the counters of its block.\<close>

lemma nand_set_page:
  assumes inv: "nand_inv s" and a: "a \<in> pages (sp s)" and st0: "stat s a = st0" "st0 \<noteq> st"
    and g: "\<And>b. pgs (g b) = pgs b \<and> npgs (g b) = npgs b"
    and v: "\<And>b s'. blk_ok s a b \<Longrightarrow> stat_upd s s' a st \<Longrightarrow>
        vpc (g b) = card (st_in s' PG_VALID (blk_pages (sp s) a)) \<and>
        ipc (g b) = card (st_in s' PG_INVALID (blk_pages (sp s) a))"
  defines "s' \<equiv> upd_blk g (upd_pg (\<lambda>p. p\<lparr>status := st\<rparr>) s a) a"
  shows "nand_inv s'" and "stat_upd s s' a st"
proof -
  let ?s1 = "upd_pg (\<lambda>p. p\<lparr>status := st\<rparr>) s a"
  have sp: "sp s' = sp s" by (simp add: s'_def)
  have gp: "get_pg s' x = (if same_blk a x \<and> p_pg a = p_pg x then map_option (\<lambda>p. p\<lparr>status := st\<rparr>) (get_pg s a) else get_pg s x)" for x
    unfolding s'_def using get_pg_upd_blk [of g] g by (simp only: get_pg_upd)
  have eq: "same_blk a x \<and> p_pg a = p_pg x \<longleftrightarrow> x = a" if "x \<in> pages (sp s)" for x
    using pages_eqI [OF that a] same_blk_pages [OF a that] by metis
  show su: "stat_upd s s' a st"
    unfolding stat_upd_def
  proof (intro conjI ballI sp)
    fix x assume x: "x \<in> pages (sp s)"
    obtain pg where "get_pg s a = Some pg" using nand_page [OF inv a] by blast
    then show "stat s' x = (if x = a then st else stat s x)"
      unfolding stat_def gp eq [OF x] by simp
  qed
  show "nand_inv s'"
    unfolding nand_inv_def sp
  proof (intro conjI ballI)
    show "geo (sp s)" "tm_inv s'" using inv by (simp_all add: nand_inv_def s'_def)
    fix x assume x: "x \<in> pages (sp s)"
    obtain blk where b: "get_blk s x = Some blk" "blk_ok s x blk" using nand_page [OF inv x] by blast
    show "\<exists>blk. get_blk s' x = Some blk \<and> blk_ok s' x blk"
    proof (cases "same_blk a x")
      case True
      then have ab: "get_blk s a = Some blk" "blk_pages (sp s) x = blk_pages (sp s) a" "p_blk x = p_blk a"
        using b(1) same_blk_get [OF True] by (auto simp: blk_pages_def same_blk_def same_lun_def)
      then have oka: "blk_ok s a blk" using b(2) by (simp add: blk_ok_def)
      let ?b = "g (blk\<lparr>pgs := modl (pgs blk) (p_pg a) (\<lambda>p. p\<lparr>status := st\<rparr>)\<rparr>)"
      have "blk_ok s a (blk\<lparr>pgs := modl (pgs blk) (p_pg a) (\<lambda>p. p\<lparr>status := st\<rparr>)\<rparr>)"
        using oka all_set_modl [of "pgs blk" "\<lambda>p. nsecs p = secs_per_pg (sp s)" "\<lambda>p. p\<lparr>status := st\<rparr>" "p_pg a"]
        by (simp add: blk_ok_def)
      from v [OF this su] this have "blk_ok s' x ?b"
        using ab sp g by (simp add: blk_ok_def)
      moreover have "get_blk s' x = Some ?b"
        using True ab(1) by (simp add: s'_def get_blk_upd get_blk_upd_pg)
      ultimately show ?thesis by blast
    next
      case False
      then have "a \<notin> blk_pages (sp s) x" using a by (auto simp: blk_pages_def same_blk_sym)
      then have "st_in s' q (blk_pages (sp s) x) = st_in s q (blk_pages (sp s) x)" for q
        using st_in_upd(2) [OF su pages_sub(2)] by blast
      then have "blk_ok s' x blk" using b(2) sp by (simp add: blk_ok_def)
      then show ?thesis using False b(1) by (simp add: s'_def get_blk_upd get_blk_upd_pg)
    qed
  qed
qed

section \<open>Lines\<close>

definition lines_inv :: "ssd \<Rightarrow> line list \<Rightarrow> nat set \<Rightarrow> bool" where
  "lines_inv s h E \<longleftrightarrow> length h = tt_lines (sp s) \<and> (\<forall>b < tt_lines (sp s). line_id (h ! b) = b) \<and>
     (\<forall>b < tt_lines (sp s). b \<notin> E \<longrightarrow>
        l_vpc (h ! b) = card (st_in s PG_VALID (line_pages (sp s) b)) \<and>
        l_ipc (h ! b) = card (st_in s PG_INVALID (line_pages (sp s) b)))"

definition rng :: "ssdparams \<Rightarrow> line_mode \<Rightarrow> nat set" where
  "rng spp r = (case r of SLC_MODE \<Rightarrow> {..<tt_lines_slc spp} | TLC_MODE \<Rightarrow> {tt_lines_slc spp..<tt_lines spp})"

definition nlines :: "ssdparams \<Rightarrow> line_mode \<Rightarrow> nat" where
  "nlines spp r = (case r of SLC_MODE \<Rightarrow> tt_lines_slc spp | TLC_MODE \<Rightarrow> tt_lines_tlc spp)"

definition base_of :: "ssdparams \<Rightarrow> line_mode \<Rightarrow> nat" where
  "base_of spp r = (case r of SLC_MODE \<Rightarrow> 0 | TLC_MODE \<Rightarrow> tt_lines_slc spp)"

abbreviation pq_of :: "line_mgmt \<Rightarrow> (line list, nat) pqueue" where "pq_of m \<equiv> victim_line_pq m"

definition members :: "line_mgmt \<Rightarrow> nat list \<Rightarrow> nat list" where
  "members m cs = free_line_list m @ full_line_list m @ live (pq_of m) @ cs"

text \<open>\<open>cs\<close> is the list with the line under the write pointer.\<close>

definition lm_inv :: "ssdparams \<Rightarrow> line list \<Rightarrow> line_mode \<Rightarrow> line_mgmt \<Rightarrow> nat list \<Rightarrow> nat set \<Rightarrow> bool" where
  "lm_inv spp h r m cs V \<longleftrightarrow>
     lines_base m = base_of spp r \<and> lm_tt_lines m = nlines spp r \<and>
     free_line_cnt m = length (free_line_list m) \<and> full_line_cnt m = length (full_line_list m) \<and>
     victim_line_cnt m = length (live (pq_of m)) \<and>
     vq.pq_inv (pq_of m) h \<and> length (q_d (pq_of m)) = nlines spp r + 1 \<and>
     distinct (members m cs) \<and> set (members m cs) \<inter> V = {} \<and>
     set (members m cs) \<union> (V \<inter> rng spp r) = rng spp r"

definition pos_inv :: "line list \<Rightarrow> nat set \<Rightarrow> bool" where
  "pos_inv h Q \<longleftrightarrow> (\<forall>b < length h. b \<notin> Q \<longrightarrow> l_pos (h ! b) = 0)"

lemma rng_finite [simp]: "finite (rng spp r)"
  by (cases r) (auto simp: rng_def)

lemma rng_card: "geo spp \<Longrightarrow> card (rng spp r) = nlines spp r"
  by (cases r) (auto simp: rng_def nlines_def geoD(15))

lemma rng_bound: "geo spp \<Longrightarrow> b \<in> rng spp r \<Longrightarrow> b < tt_lines spp"
  by (cases r) (auto simp: rng_def geoD(15))

lemma rng_disj: "b \<in> rng spp r \<Longrightarrow> b \<in> rng spp r' \<Longrightarrow> r = r'"
  by (cases r; cases r') (auto simp: rng_def)

lemma rng_cover: "geo spp \<Longrightarrow> b < tt_lines spp \<Longrightarrow> \<exists>r. b \<in> rng spp r"
  by (cases "b < tt_lines_slc spp") (auto simp: rng_def intro: exI [of _ SLC_MODE] exI [of _ TLC_MODE])

lemma members_rng: "lm_inv spp h r m cs V \<Longrightarrow> a \<in> set (members m cs) \<Longrightarrow> a \<in> rng spp r \<and> a \<notin> V"
  unfolding lm_inv_def by blast

lemma length_members: "length (members m cs) =
  length (free_line_list m) + length (full_line_list m) + length (live (pq_of m)) + length cs"
  by (simp add: members_def)

lemma members_count:
  assumes "geo spp" "lm_inv spp h r m cs V"
  shows "length (members m cs) + card (V \<inter> rng spp r) = nlines spp r"
proof -
  have d: "distinct (members m cs)" "set (members m cs) \<inter> V = {}" "set (members m cs) \<union> (V \<inter> rng spp r) = rng spp r"
    using assms(2) by (simp_all add: lm_inv_def)
  have "card (rng spp r) = card (set (members m cs)) + card (V \<inter> rng spp r)"
    using d by (subst d(3) [symmetric], subst card_Un_disjoint) auto
  then show ?thesis using distinct_card [OF d(1)] rng_card [OF assms(1), of r] by simp
qed

lemma members_small:
  assumes "geo spp" "lm_inv spp h r m cs V"
  shows "length (free_line_list m) < 2 ^ 32 - 1" "length (full_line_list m) < 2 ^ 32 - 1"
    "length (live (pq_of m)) < 2 ^ 32 - 1"
proof -
  have "nlines spp r \<le> 2 ^ 16" using geoD(15,16) [OF assms(1)] by (cases r) (auto simp: nlines_def)
  then show "length (free_line_list m) < 2 ^ 32 - 1" "length (full_line_list m) < 2 ^ 32 - 1"
    "length (live (pq_of m)) < 2 ^ 32 - 1"
    using members_count [OF assms] unfolding length_members by simp_all
qed

text \<open>Moves of one line between the parts of the partition. Detaching puts it into \<open>V\<close>.\<close>

lemma lm_detach_full:
  assumes g: "geo spp" and inv: "lm_inv spp h r m cs V" and a: "a \<in> set (full_line_list m)"
  shows "lm_inv spp h r (m\<lparr>free_line_list := removeAll a (free_line_list m),
      full_line_list := removeAll a (full_line_list m), full_line_cnt := dec32 (full_line_cnt m)\<rparr>) cs (insert a V)"
proof -
  note i = inv [unfolded lm_inv_def members_def]
  have d: "distinct (full_line_list m)" "a \<notin> set (free_line_list m)" using i a by auto
  have "length (removeAll a (full_line_list m)) = length (full_line_list m) - 1"
    using d(1) a by (simp add: distinct_remove1_removeAll [symmetric] length_remove1)
  moreover have "0 < length (full_line_list m)" using a by (cases "full_line_list m") auto
  ultimately have "dec32 (full_line_cnt m) = length (removeAll a (full_line_list m))"
    using i members_small(2) [OF g inv] by (simp add: dec32_pos)
  moreover have "a \<in> rng spp r" using members_rng [OF inv, of a] a by (simp add: members_def)
  ultimately show ?thesis using i a d(2) by (auto simp: lm_inv_def members_def distinct_removeAll)
qed

lemma lm_attach_full:
  assumes g: "geo spp" and inv: "lm_inv spp h r m cs (insert a V)" and a: "a \<in> rng spp r" "a \<notin> V"
  shows "lm_inv spp h r (m\<lparr>full_line_list := full_line_list m @ [a], full_line_cnt := inc32 (full_line_cnt m)\<rparr>) cs V"
proof -
  note i = inv [unfolded lm_inv_def members_def]
  have "inc32 (full_line_cnt m) = length (full_line_list m) + 1"
    using i members_small(2) [OF g inv] by (simp add: inc32_small)
  then show ?thesis using i a by (auto simp: lm_inv_def members_def)
qed

lemma lm_attach_free:
  assumes g: "geo spp" and inv: "lm_inv spp h r m cs (insert a V)" and a: "a \<in> rng spp r" "a \<notin> V"
  shows "lm_inv spp h r (m\<lparr>free_line_list := free_line_list m @ [a], free_line_cnt := inc32 (free_line_cnt m)\<rparr>) cs V"
proof -
  note i = inv [unfolded lm_inv_def members_def]
  have "inc32 (free_line_cnt m) = length (free_line_list m) + 1"
    using i members_small(1) [OF g inv] by (simp add: inc32_small)
  then show ?thesis using i a by (auto simp: lm_inv_def members_def)
qed

lemma lm_detach_cur:
  assumes "lm_inv spp h r m [a] V"
  shows "lm_inv spp h r m [] (insert a V)"
  using assms by (auto simp: lm_inv_def members_def)

lemma lm_take_free:
  assumes g: "geo spp" and inv: "lm_inv spp h r m [] V" and a: "free_line_list m = a # xs"
  shows "lm_inv spp h r (m\<lparr>free_line_list := removeAll a (free_line_list m),
      full_line_list := removeAll a (full_line_list m), free_line_cnt := dec32 (free_line_cnt m)\<rparr>) [a] V"
    and "removeAll a (free_line_list m) = xs" "removeAll a (full_line_list m) = full_line_list m"
proof -
  note i = inv [unfolded lm_inv_def members_def]
  have d: "a \<notin> set xs" "a \<notin> set (full_line_list m)" using i a by auto
  then show r: "removeAll a (free_line_list m) = xs" "removeAll a (full_line_list m) = full_line_list m"
    using a by simp_all
  have "dec32 (free_line_cnt m) = length xs"
    using i a members_small(1) [OF g inv] by (simp add: dec32_pos)
  then show "lm_inv spp h r (m\<lparr>free_line_list := removeAll a (free_line_list m),
      full_line_list := removeAll a (full_line_list m), free_line_cnt := dec32 (free_line_cnt m)\<rparr>) [a] V"
    unfolding r using i a by (auto simp: lm_inv_def members_def)
qed

lemma lm_detach_other:
  assumes "lm_inv spp h r m cs V" "a \<notin> rng spp r"
  shows "m\<lparr>free_line_list := removeAll a (free_line_list m), full_line_list := removeAll a (full_line_list m)\<rparr> = m"
    and "lm_inv spp h r m cs (insert a V)" and "lm_inv spp h r m cs (V - {a})"
proof -
  have n: "a \<notin> set (members m cs)" using assms members_rng by blast
  then show "m\<lparr>free_line_list := removeAll a (free_line_list m), full_line_list := removeAll a (full_line_list m)\<rparr> = m"
    by (simp add: members_def)
  show "lm_inv spp h r m cs (insert a V)" "lm_inv spp h r m cs (V - {a})" using assms n unfolding lm_inv_def by auto
qed

lemma lm_inv_frame:
  assumes "lm_inv spp h r m cs V" "length h' = length h"
    and "\<And>e. e \<in> set (live (pq_of m)) \<Longrightarrow> l_pos (h' ! e) = l_pos (h ! e) \<and> l_vpc (h' ! e) = l_vpc (h ! e)"
  shows "lm_inv spp h' r m cs V"
  using assms(1) pq_frame [OF _ assms(2,3)] unfolding lm_inv_def by blast

lemma lm_attach_victim:
  assumes g: "geo spp" and inv: "lm_inv spp h r m cs (insert a V)" and a: "a \<in> rng spp r" "a \<notin> V" "a < length h"
  shows "\<exists>q h'. pqueue_insert (pq_of m) h a = Some (q, h') \<and>
      lm_inv spp h' r (m\<lparr>victim_line_pq := q, victim_line_cnt := inc32 (victim_line_cnt m)\<rparr>) cs V \<and>
      set (live q) = insert a (set (live (pq_of m))) \<and> vq.only_pos (insert a (set (live (pq_of m)))) h h'"
proof -
  note i = inv [unfolded lm_inv_def members_def]
  have n: "a \<notin> set (live (pq_of m))" using i by auto
  have "card (insert a V \<inter> rng spp r) \<ge> 1" using a(1) by (simp add: Suc_leI card_gt_0_iff)
  then have sz: "length (live (pq_of m)) < nlines spp r"
    using members_count [OF g inv] unfolding length_members by linarith
  then have room: "q_size (pq_of m) < length (q_d (pq_of m))" using i by (simp add: live_length)
  have pinv: "vq.pq_inv (pq_of m) h" using i by blast
  obtain q h' where q: "pqueue_insert (pq_of m) h a = Some (q, h')" "vq.pq_inv q h'"
    "set (live q) = insert a (set (live (pq_of m)))" "q_size q = q_size (pq_of m) + 1"
    "length (q_d q) = length (q_d (pq_of m))" "vq.only_pos (insert a (set (live (pq_of m)))) h h'"
    using vq.pqueue_insert_ok [OF pinv a(3) n room] by blast
  have "1 \<le> q_size (pq_of m)" using pinv by (simp add: vq.pq_inv_def)
  then have len: "length (live q) = length (live (pq_of m)) + 1" using q(4) by (simp add: live_length)
  have dq: "distinct (live q)" using q(2) by (simp add: vq.pq_inv_def)
  have cnt: "inc32 (victim_line_cnt m) = length (live q)"
    using i len members_small(3) [OF g inv] by (simp add: inc32_small)
  have "lm_inv spp h' r (m\<lparr>victim_line_pq := q, victim_line_cnt := inc32 (victim_line_cnt m)\<rparr>) cs V"
    unfolding lm_inv_def members_def using i q(2,5) cnt dq a(1,2) by (auto simp: q(3))
  then show ?thesis using q(1,3,6) by blast
qed

lemma lm_change_priority:
  assumes inv: "lm_inv spp h r m cs V" and a: "a \<in> set (live (pq_of m))"
  shows "\<exists>q h'. pqueue_change_priority (pq_of m) h p a = Some (q, h') \<and>
      lm_inv spp h' r (m\<lparr>victim_line_pq := q\<rparr>) cs V \<and> set (live q) = set (live (pq_of m)) \<and>
      vq.only_pos (set (live (pq_of m))) (modl h a (\<lambda>l. l\<lparr>l_vpc := p\<rparr>)) h'"
proof -
  note i = inv [unfolded lm_inv_def members_def]
  have pinv: "vq.pq_inv (pq_of m) h" using i by blast
  obtain q h' where q: "pqueue_change_priority (pq_of m) h p a = Some (q, h')" "vq.pq_inv q h'"
    "set (live q) = set (live (pq_of m))" "q_size q = q_size (pq_of m)" "length (q_d q) = length (q_d (pq_of m))"
    "vq.only_pos (set (live (pq_of m))) (victim_line_set_pri h a p) h'"
    using vq.pqueue_change_priority_ok [OF pinv a, of p] by blast
  have "distinct (live q)" using q(2) by (simp add: vq.pq_inv_def)
  moreover have "length (live q) = length (live (pq_of m))" using q(4) by (simp add: live_length)
  ultimately have "lm_inv spp h' r (m\<lparr>victim_line_pq := q\<rparr>) cs V"
    unfolding lm_inv_def members_def using i q(2,5) by (auto simp: q(3))
  then show ?thesis using q(1,3,6) by (auto simp: victim_line_set_pri_def)
qed

text \<open>A line taken off the victim queue: its stored position is reset by the caller.\<close>

lemma lm_detach_victim:
  assumes g: "geo spp" and inv: "lm_inv spp h r m cs V" and a: "a \<in> set (live (pq_of m))"
    and rm: "vq.removed (pq_of m) h a (q, h1)"
  defines "h' \<equiv> modl h1 a (\<lambda>l. l\<lparr>l_pos := 0\<rparr>)"
  shows "lm_inv spp h' r (m\<lparr>victim_line_pq := q, victim_line_cnt := dec32 (victim_line_cnt m)\<rparr>) cs (insert a V)"
    and "set (live q) = set (live (pq_of m)) - {a}" and "length h' = length h"
    and "e < length h \<Longrightarrow> line_id (h' ! e) = line_id (h ! e) \<and> l_ipc (h' ! e) = l_ipc (h ! e) \<and> l_vpc (h' ! e) = l_vpc (h ! e)"
    and "e < length h \<Longrightarrow> e \<notin> set (live (pq_of m)) \<Longrightarrow> l_pos (h' ! e) = l_pos (h ! e)" and "l_pos (h' ! a) = 0"
proof -
  note i = inv [unfolded lm_inv_def members_def]
  have pinv: "vq.pq_inv (pq_of m) h" using i by blast
  note al = pq_live_bounds [OF pinv a]
  have q: "vq.pq_inv q h1" "set (live q) = set (live (pq_of m)) - {a}" "q_size q = q_size (pq_of m) - 1"
    "length (q_d q) = length (q_d (pq_of m))" "vq.only_pos (set (live (pq_of m))) h h1"
    using rm by (simp_all add: vq.removed_def)
  note op = only_posD [OF q(5)]
  show "set (live q) = set (live (pq_of m)) - {a}" by (rule q(2))
  show len: "length h' = length h" using op(1) by (simp add: h'_def)
  show "e < length h \<Longrightarrow> line_id (h' ! e) = line_id (h ! e) \<and> l_ipc (h' ! e) = l_ipc (h ! e) \<and> l_vpc (h' ! e) = l_vpc (h ! e)" for e
    using op(1) op(2) [of e] by (simp add: h'_def arr_simps)
  show "e < length h \<Longrightarrow> e \<notin> set (live (pq_of m)) \<Longrightarrow> l_pos (h' ! e) = l_pos (h ! e)" for e
    using op(1) op(3) [of e] a by (auto simp: h'_def arr_simps)
  show "l_pos (h' ! a) = 0" using op(1) al(1) by (simp add: h'_def arr_simps)
  have pinv': "vq.pq_inv q h'"
    by (rule pq_frame [OF q(1)]) (use q(2) pq_live_bounds(1) [OF q(1)] in \<open>auto simp: h'_def arr_simps\<close>)
  have "distinct (live q)" using q(1) by (simp add: vq.pq_inv_def)
  moreover have "dec32 (victim_line_cnt m) = length (live q)"
  proof -
    have "0 < length (live (pq_of m))" using a by (cases "live (pq_of m)") auto
    then have "dec32 (victim_line_cnt m) = length (live (pq_of m)) - 1"
      using i members_small(3) [OF g inv] by (simp add: dec32_pos)
    then show ?thesis using q(3) by (simp add: live_length)
  qed
  moreover have "a \<in> rng spp r" using members_rng [OF inv, of a] a by (simp add: members_def)
  ultimately show "lm_inv spp h' r (m\<lparr>victim_line_pq := q, victim_line_cnt := dec32 (victim_line_cnt m)\<rparr>) cs (insert a V)"
    unfolding lm_inv_def members_def using i q(4) pinv' a by (auto simp: q(2))
qed

section \<open>The invariant\<close>

definition wpof :: "line_mode \<Rightarrow> conv_ftl \<Rightarrow> write_pointer" where
  "wpof r cf = (case r of SLC_MODE \<Rightarrow> wp cf | TLC_MODE \<Rightarrow> gc_wp cf)"

definition wpp :: "write_pointer \<Rightarrow> ppa" where
  "wpp w = mk (w_ch w) (w_lun w) (w_blk w) (w_pg w)"

definition wp_ok :: "ssdparams \<Rightarrow> write_pointer \<Rightarrow> bool" where
  "wp_ok spp w \<longleftrightarrow> w_blk w = curline w \<and> w_pl w = 0 \<and> wpp w \<in> pages spp"

text \<open>\<open>n\<close> is the number of pages of the current line written so far.\<close>

definition cls :: "ssd \<Rightarrow> line_mgmt \<Rightarrow> nat \<Rightarrow> nat \<Rightarrow> bool" where
  "cls s m cur n \<longleftrightarrow>
     (\<forall>b \<in> set (free_line_list m). \<forall>x \<in> line_pages (sp s) b. stat s x = PG_FREE) \<and>
     (\<forall>b \<in> set (full_line_list m). \<forall>x \<in> line_pages (sp s) b. stat s x = PG_VALID) \<and>
     (\<forall>b \<in> set (live (pq_of m)). (\<forall>x \<in> line_pages (sp s) b. stat s x \<noteq> PG_FREE) \<and>
        (\<exists>x \<in> line_pages (sp s) b. stat s x = PG_INVALID)) \<and>
     (\<forall>x \<in> line_pages (sp s) cur. stat s x = PG_FREE \<longleftrightarrow> n \<le> windex (sp s) x)"

definition victims :: "conv_ftl \<Rightarrow> nat set" where
  "victims cf = set (live (pq_of (slm cf))) \<union> set (live (pq_of (lm cf)))"

definition binv :: "conv_ftl \<Rightarrow> (line_mode \<Rightarrow> nat) \<Rightarrow> nat set \<Rightarrow> bool" where
  "binv cf n V \<longleftrightarrow> slc_mode cf = SLC_MODE \<and> nand_inv (ssd cf) \<and> lines_inv (ssd cf) (lines cf) V \<and>
     pos_inv (lines cf) (victims cf) \<and>
     (\<forall>r. lm_inv (spp_of cf) (lines cf) r (lmof r cf) [curline (wpof r cf)] V \<and>
          cls (ssd cf) (lmof r cf) (curline (wpof r cf)) (n r) \<and> wp_ok (spp_of cf) (wpof r cf))"

definition settled :: "conv_ftl \<Rightarrow> line_mode \<Rightarrow> nat" where
  "settled cf r = windex (spp_of cf) (wpp (wpof r cf))"

lemma binvD:
  assumes "binv cf n V"
  shows "slc_mode cf = SLC_MODE" "nand_inv (ssd cf)" "geo (spp_of cf)" "lines_inv (ssd cf) (lines cf) V"
    "pos_inv (lines cf) (victims cf)"
    "lm_inv (spp_of cf) (lines cf) r (lmof r cf) [curline (wpof r cf)] V"
    "cls (ssd cf) (lmof r cf) (curline (wpof r cf)) (n r)" "wp_ok (spp_of cf) (wpof r cf)"
  using assms by (auto simp: binv_def nand_inv_def)

lemma lmof_simps [simp, frame_simps]:
  "lmof r (cf\<lparr>maptbl := x1\<rparr>) = lmof r cf" "lmof r (cf\<lparr>rmap := x2\<rparr>) = lmof r cf"
  "lmof r (cf\<lparr>wfc := x3\<rparr>) = lmof r cf" "lmof r (cf\<lparr>gc_cnt := x4\<rparr>) = lmof r cf"
  "lmof r (cf\<lparr>copy_cnt := x5\<rparr>) = lmof r cf" "lmof r (cf\<lparr>age_cnt := x6\<rparr>) = lmof r cf"
  "lmof r (cf\<lparr>dyn_slc_mode := x7\<rparr>) = lmof r cf" "lmof r (cf\<lparr>ktick := x8\<rparr>) = lmof r cf"
  "lmof r (cf\<lparr>ssd := x9\<rparr>) = lmof r cf" "lmof r (cf\<lparr>lines := x10\<rparr>) = lmof r cf"
  "lmof r (cf\<lparr>wp := x11\<rparr>) = lmof r cf" "lmof r (cf\<lparr>gc_wp := x11\<rparr>) = lmof r cf"
  by (cases r; simp add: lmof_def)+

lemma wpof_simps [simp, frame_simps]:
  "wpof r (cf\<lparr>maptbl := x1\<rparr>) = wpof r cf" "wpof r (cf\<lparr>rmap := x2\<rparr>) = wpof r cf"
  "wpof r (cf\<lparr>wfc := x3\<rparr>) = wpof r cf" "wpof r (cf\<lparr>gc_cnt := x4\<rparr>) = wpof r cf"
  "wpof r (cf\<lparr>copy_cnt := x5\<rparr>) = wpof r cf" "wpof r (cf\<lparr>age_cnt := x6\<rparr>) = wpof r cf"
  "wpof r (cf\<lparr>dyn_slc_mode := x7\<rparr>) = wpof r cf" "wpof r (cf\<lparr>ktick := x8\<rparr>) = wpof r cf"
  "wpof r (cf\<lparr>ssd := x9\<rparr>) = wpof r cf" "wpof r (cf\<lparr>lines := x10\<rparr>) = wpof r cf"
  "wpof r (upd_lm r' f cf) = wpof r cf"
  by (cases r; cases r'; simp add: wpof_def upd_lm_def)+

lemma upd_lm_simps [simp, frame_simps]:
  "lmof r (upd_lm r' f cf) = (if r = r' then f (lmof r cf) else lmof r cf)"
  "ssd (upd_lm r' f cf) = ssd cf" "lines (upd_lm r' f cf) = lines cf" "slc_mode (upd_lm r' f cf) = slc_mode cf"
  "maptbl (upd_lm r' f cf) = maptbl cf" "rmap (upd_lm r' f cf) = rmap cf" "wfc (upd_lm r' f cf) = wfc cf"
  "cp (upd_lm r' f cf) = cp cf" "dyn_slc_mode (upd_lm r' f cf) = dyn_slc_mode cf"
  by (cases r; cases r'; simp add: lmof_def upd_lm_def)+

lemma victims_lmof: "victims cf = set (live (pq_of (lmof SLC_MODE cf))) \<union> set (live (pq_of (lmof TLC_MODE cf)))"
  by (simp add: victims_def lmof_def)

text \<open>The invariant reads the flash, the lines, the line managements and the write pointers only.\<close>

lemma binv_cong:
  assumes "binv cf n V" "slc_mode cf' = slc_mode cf" "ssd cf' = ssd cf" "lines cf' = lines cf"
    "\<And>r. lmof r cf' = lmof r cf" "\<And>r. wpof r cf' = wpof r cf"
  shows "binv cf' n V"
  using assms by (simp add: binv_def victims_lmof)

lemma binv_timing:
  assumes "binv cf n V" "tm_keep (ssd cf) s'"
  shows "binv (cf\<lparr>ssd := s'\<rparr>) n V"
proof -
  have s: "stat s' = stat (ssd cf)" and sp: "sp s' = spp_of cf"
    using assms(2) stat_same_nand tm_keepD by blast+
  show ?thesis
    using assms(1) nand_inv_keep [OF _ assms(2)]
    by (simp add: binv_def sp lines_inv_def cls_def st_in_def s victims_lmof)
qed

section \<open>Counting the pages of a line\<close>

lemma line_cards:
  assumes "geo (sp s)" "b < tt_lines (sp s)"
  shows "card (st_in s PG_VALID (line_pages (sp s) b)) + card (st_in s PG_INVALID (line_pages (sp s) b)) +
         card (st_in s PG_FREE (line_pages (sp s) b)) = ppl (sp s) b"
proof -
  let ?L = "line_pages (sp s) b"
  have "card ((st_in s PG_VALID ?L \<union> st_in s PG_INVALID ?L) \<union> st_in s PG_FREE ?L) =
      card (st_in s PG_VALID ?L \<union> st_in s PG_INVALID ?L) + card (st_in s PG_FREE ?L)"
    by (rule card_Un_disjoint) (auto simp: st_in_def finite_line_pages)
  moreover have "(st_in s PG_VALID ?L \<union> st_in s PG_INVALID ?L) \<union> st_in s PG_FREE ?L = ?L"
    by (auto simp: st_in_def intro: pg_status.exhaust)
  moreover have "card (st_in s PG_VALID ?L \<union> st_in s PG_INVALID ?L) =
      card (st_in s PG_VALID ?L) + card (st_in s PG_INVALID ?L)"
    by (rule card_Un_disjoint) (auto simp: st_in_def finite_line_pages)
  ultimately show ?thesis using card_line_pages [OF assms(2)] geo_ppl [OF assms(1)] by simp
qed

lemma card_st_in_pos:
  "a \<in> line_pages spp b \<Longrightarrow> stat s a = st \<Longrightarrow> 0 < card (st_in s st (line_pages spp b))"
  by (auto simp: card_gt_0_iff st_in_def finite_line_pages)

lemma st_in_empty: "(\<forall>x \<in> A. stat s x \<noteq> st) \<Longrightarrow> st_in s st A = {}"
  by (auto simp: st_in_def)

lemma blk_cards:
  assumes "geo (sp s)" "a \<in> pages (sp s)"
  shows "card (st_in s PG_VALID (blk_pages (sp s) a)) + card (st_in s PG_INVALID (blk_pages (sp s) a)) \<le> ppb (sp s) (p_blk a)"
proof -
  let ?L = "blk_pages (sp s) a"
  have "card (st_in s PG_VALID ?L) + card (st_in s PG_INVALID ?L) = card (st_in s PG_VALID ?L \<union> st_in s PG_INVALID ?L)"
    by (rule card_Un_disjoint [symmetric]) (auto simp: st_in_def)
  also have "\<dots> \<le> card ?L" by (rule card_mono) (auto simp: st_in_def)
  finally show ?thesis using card_blk_pages [OF assms(2)] by simp
qed

lemma lines_inv_step:
  assumes inv: "lines_inv s h E" and su: "stat_upd s s' a st" and a: "a \<in> pages (sp s)"
    and len: "length h' = length h" and ids: "\<And>e. e < length h \<Longrightarrow> line_id (h' ! e) = line_id (h ! e)"
    and oth: "\<And>e. e < length h \<Longrightarrow> e \<noteq> p_blk a \<Longrightarrow> l_vpc (h' ! e) = l_vpc (h ! e) \<and> l_ipc (h' ! e) = l_ipc (h ! e)"
    and b: "p_blk a \<notin> E \<Longrightarrow> l_vpc (h' ! p_blk a) = card (st_in s' PG_VALID (line_pages (sp s) (p_blk a))) \<and>
        l_ipc (h' ! p_blk a) = card (st_in s' PG_INVALID (line_pages (sp s) (p_blk a)))"
  shows "lines_inv s' h' E"
proof -
  have sp: "sp s' = sp s" using su by (simp add: stat_upd_def)
  have "st_in s' q (line_pages (sp s) e) = st_in s q (line_pages (sp s) e)" if "e \<noteq> p_blk a" for e q
    by (rule st_in_upd(2) [OF su pages_sub(1)]) (use that in \<open>simp add: line_pages_def\<close>)
  then show ?thesis
    using inv len ids oth b unfolding lines_inv_def sp by (metis (no_types, lifting))
qed

lemma cls_invalidate:
  assumes c: "cls s m cur n" and su: "stat_upd s s' a PG_INVALID" and a: "a \<in> pages (sp s)" "stat s a = PG_VALID"
    and m': "set (free_line_list m') = set (free_line_list m)"
      "set (full_line_list m') \<subseteq> set (full_line_list m) - {p_blk a}"
      "set (live (pq_of m')) \<subseteq> set (live (pq_of m)) \<union> (if p_blk a \<in> set (full_line_list m) then {p_blk a} else {})"
  shows "cls s' m' cur n"
proof -
  have sp: "sp s' = sp s" using su by (simp add: stat_upd_def)
  have st: "stat s' x = (if x = a then PG_INVALID else stat s x)" if "x \<in> line_pages (sp s) b" for x b
    using su that by (auto simp: stat_upd_def line_pages_def)
  have al: "a \<in> line_pages (sp s) (p_blk a)" using a by (simp add: line_pages_def)
  have "(\<forall>x \<in> line_pages (sp s) b. stat s' x \<noteq> PG_FREE) \<and> (\<exists>x \<in> line_pages (sp s) b. stat s' x = PG_INVALID)"
    if "b \<in> set (live (pq_of m'))" for b
  proof (cases "b \<in> set (live (pq_of m))")
    case True
    then show ?thesis using c st unfolding cls_def by (metis pg_status.distinct(1))
  next
    case False
    then have "b = p_blk a" "b \<in> set (full_line_list m)" using m'(3) that by (auto split: if_splits)
    then show ?thesis using c st al unfolding cls_def by (metis pg_status.distinct(1,3))
  qed
  then show ?thesis
    using c m'(1,2) st a unfolding cls_def sp by (auto simp: line_pages_def split: if_splits)
qed

lemma cls_other:
  assumes "cls s m cur n" "stat_upd s s' a st" "p_blk a \<notin> set (members m [cur])"
  shows "cls s' m cur n"
proof -
  have "stat s' x = stat s x" if "x \<in> line_pages (sp s) b" "b \<in> set (members m [cur])" for x b
    using assms(2,3) that by (auto simp: stat_upd_def line_pages_def)
  moreover have "sp s' = sp s" using assms(2) by (simp add: stat_upd_def)
  ultimately show ?thesis using assms(1) unfolding cls_def members_def by auto
qed

section \<open>Invalidating a page\<close>

lemma region_rng:
  assumes "binv cf n V" "a \<in> pages (spp_of cf)"
  shows "p_blk a \<in> rng (spp_of cf) (region cf a)" "cur_pgs_per_blk cf a = ppb (spp_of cf) (p_blk a)"
    "cur_pgs_per_line cf a = ppl (spp_of cf) (p_blk a)"
  using assms binvD(1) [OF assms(1)]
  by (auto simp: region_def rng_def cur_pgs_per_blk_def cur_pgs_per_line_def ppb_def ppl_def pages_def)

lemma lm_tt:
  assumes "binv cf n V"
  shows "lm_tt_lines (slm cf) = tt_lines_slc (spp_of cf)" "lines_base (slm cf) = 0"
    "lm_tt_lines (lm cf) = tt_lines_tlc (spp_of cf)" "lines_base (lm cf) = tt_lines_slc (spp_of cf)"
  using binvD(6) [OF assms, of SLC_MODE] binvD(6) [OF assms, of TLC_MODE]
  by (simp_all add: lm_inv_def nlines_def base_of_def lmof_def)

lemma get_line_blk:
  assumes "slc_mode cf = SLC_MODE" "geo (spp_of cf)" "p_blk a < tt_lines (spp_of cf)"
    "lm_tt_lines (slm cf) = tt_lines_slc (spp_of cf)" "lines_base (slm cf) = 0"
    "lm_tt_lines (lm cf) = tt_lines_tlc (spp_of cf)" "lines_base (lm cf) = tt_lines_slc (spp_of cf)"
  shows "get_line cf a = Some (p_blk a)"
  using assms geoD(15) [OF assms(2)] by (auto simp: get_line_def Let_def)

lemma list_del_other:
  assumes "\<And>r'. r' \<noteq> r \<Longrightarrow> lm_inv spp h r' (lmof r' cf) (cs r') (V r')" "a \<in> rng spp r"
  shows "list_del_init a cf = upd_lm r (\<lambda>m. m\<lparr>free_line_list := removeAll a (free_line_list m),
      full_line_list := removeAll a (full_line_list m)\<rparr>) cf"
proof -
  have "a \<notin> rng spp r'" if "r' \<noteq> r" for r' using assms(2) rng_disj that by blast
  then have "(lmof r' cf)\<lparr>free_line_list := removeAll a (free_line_list (lmof r' cf)),
      full_line_list := removeAll a (full_line_list (lmof r' cf))\<rparr> = lmof r' cf" if "r' \<noteq> r" for r'
    using lm_detach_other(1) assms(1) that by blast
  from this [of SLC_MODE] this [of TLC_MODE] show ?thesis
    by (cases r) (simp_all add: list_del_init_def Let_def upd_lm_def lmof_def)
qed

text \<open>The parts of the state that the page operations may change.\<close>

definition same_rest :: "conv_ftl \<Rightarrow> conv_ftl \<Rightarrow> bool" where
  "same_rest cf cf' \<longleftrightarrow> cp cf' = cp cf \<and> maptbl cf' = maptbl cf \<and> rmap cf' = rmap cf \<and> wfc cf' = wfc cf \<and>
     slc_mode cf' = slc_mode cf \<and> dyn_slc_mode cf' = dyn_slc_mode cf"

lemma victim_in_pq:
  assumes "binv cf n V" "b \<in> rng (spp_of cf) r" "b \<in> victims cf"
  shows "b \<in> set (live (pq_of (lmof r cf)))"
proof -
  obtain r' where r': "b \<in> set (live (pq_of (lmof r' cf)))" using assms(3) by (auto simp: victims_lmof)
  then have "b \<in> rng (spp_of cf) r'"
    using members_rng [OF binvD(6) [OF assms(1)], of b r'] by (simp add: members_def)
  then show ?thesis using r' rng_disj [OF assms(2)] by blast
qed

lemma nand_invalidate:
  assumes inv: "nand_inv s" and a: "a \<in> pages (sp s)" "stat s a = PG_VALID"
  defines "s' \<equiv> upd_blk (\<lambda>b. b\<lparr>ipc := ipc b + 1, vpc := vpc b - 1\<rparr>) (upd_pg (\<lambda>p. p\<lparr>status := PG_INVALID\<rparr>) s a) a"
  shows "nand_inv s'" "stat_upd s s' a PG_INVALID"
proof -
  have "vpc b - 1 = card (st_in s'' PG_VALID (blk_pages (sp s) a)) \<and> ipc b + 1 = card (st_in s'' PG_INVALID (blk_pages (sp s) a))"
    if "blk_ok s a b" "stat_upd s s'' a PG_INVALID" for b s''
    using that card_st_in_upd(1,2) [OF that(2) pages_sub(2) finite_blk_pages _ a(2), of a] a(1)
    by (simp add: blk_ok_def blk_pages_def)
  then show "nand_inv s'" "stat_upd s s' a PG_INVALID"
    unfolding s'_def by (intro nand_set_page [OF inv a]; simp)+
qed

text \<open>The head of \<open>mark_page_invalid\<close>: what its assertions test holds, and what remains is the change of
  the line's counters and of its place.\<close>

definition line_invalidate :: "line_mode \<Rightarrow> nat \<Rightarrow> nat \<Rightarrow> conv_ftl \<Rightarrow> conv_ftl option" where
  "line_invalidate r np b cf =
     (let line = lines cf ! b; cf = upd_line (\<lambda>l. l\<lparr>l_ipc := l_ipc l + 1\<rparr>) b cf
      in do {
        cf \<leftarrow> (if l_pos line \<noteq> 0 then victim_change_priority r (l_vpc line - 1) b cf
               else Some (upd_line (\<lambda>l. l\<lparr>l_vpc := l_vpc l - 1\<rparr>) b cf));
        if l_vpc line = np then do {
          let cf = upd_lm r (\<lambda>m. m\<lparr>full_line_cnt := dec32 (full_line_cnt m)\<rparr>) (list_del_init b cf)
          in do {
          line \<leftarrow> idx (lines cf) b;
          NVMEV_ASSERT (l_vpc line + l_ipc line = np);
          cf \<leftarrow> victim_insert r b cf;
          Some (upd_lm r (\<lambda>m. m\<lparr>victim_line_cnt := inc32 (victim_line_cnt m)\<rparr>) cf) } }
        else Some cf })"

lemma mark_page_invalid_head:
  assumes inv: "binv cf n V" and a: "a \<in> pages (spp_of cf)" "stat (ssd cf) a = PG_VALID" "p_blk a \<notin> V"
  defines "s' \<equiv> upd_blk (\<lambda>b. b\<lparr>ipc := ipc b + 1, vpc := vpc b - 1\<rparr>)
                 (upd_pg (\<lambda>p. p\<lparr>status := PG_INVALID\<rparr>) (ssd cf) a) a"
  shows "mark_page_invalid cf a =
    line_invalidate (region cf a) (ppl (spp_of cf) (p_blk a)) (p_blk a) (cf\<lparr>ssd := s'\<rparr>)"
proof -
  let ?b = "p_blk a" and ?spp = "spp_of cf" and ?L = "line_pages (spp_of cf) (p_blk a)"
  note g = binvD(3) [OF inv]
  have b: "?b < tt_lines ?spp" using a(1) by (simp add: pages_def)
  have aL: "a \<in> ?L" using a(1) by (simp add: line_pages_def)
  obtain blk pg where bp: "get_blk (ssd cf) a = Some blk" "blk_ok (ssd cf) a blk" "get_pg (ssd cf) a = Some pg"
    "status pg = PG_VALID" using nand_page [OF binvD(2) [OF inv] a(1)] a(2) by metis
  have "a \<in> st_in (ssd cf) PG_VALID (blk_pages ?spp a)" using a by (simp add: st_in_def blk_pages_def)
  then have bv: "0 < card (st_in (ssd cf) PG_VALID (blk_pages ?spp a))"
    using st_in_finite(2) by (metis card_gt_0_iff empty_iff)
  note bc = blk_cards [OF g a(1)]
  have blkc: "ipc blk < ppb ?spp ?b" "0 < vpc blk" "vpc blk \<le> ppb ?spp ?b"
    using bp(2) bv bc by (auto simp: blk_ok_def)
  note lc = line_cards [OF g b]
  have lv: "0 < card (st_in (ssd cf) PG_VALID ?L)" using card_st_in_pos [OF aL a(2)] .
  have li: "l_vpc (lines cf ! ?b) = card (st_in (ssd cf) PG_VALID ?L)" "l_ipc (lines cf ! ?b) = card (st_in (ssd cf) PG_INVALID ?L)"
    and len: "length (lines cf) = tt_lines ?spp"
    using binvD(4) [OF inv] b a(3) by (auto simp: lines_inv_def)
  have l: "l_ipc (lines cf ! ?b) < ppl ?spp ?b" "0 < l_vpc (lines cf ! ?b)" "l_vpc (lines cf ! ?b) \<le> ppl ?spp ?b"
    "l_vpc (lines cf ! ?b) = ppl ?spp ?b \<longrightarrow> l_ipc (lines cf ! ?b) = 0"
    using li lc lv by linarith+
  have gl: "get_line (cf\<lparr>ssd := s'\<rparr>) a = Some ?b"
    by (rule get_line_blk) (use binvD(1) [OF inv] g b lm_tt [OF inv] in \<open>simp_all add: s'_def\<close>)
  show ?thesis
    using bp blkc l gl len b lm_tt(1) [OF inv] region_rng(2,3) [OF inv a(1)]
    by (simp add: mark_page_invalid_def Let_def set_pg_status_def upd_block_def get_blk_upd_pg s'_def
        line_invalidate_def arr_simps)
qed

text \<open>Putting the invariant together again after a page of line \<open>b\<close> has become invalid.\<close>

lemma binv_invalidate_close:
  assumes inv: "binv cf n V" and a: "a \<in> pages (spp_of cf)" "stat (ssd cf) a = PG_VALID" "p_blk a \<notin> V"
    and s': "nand_inv s'" "stat_upd (ssd cf) s' a PG_INVALID"
    and cf': "ssd cf' = s'" "slc_mode cf' = SLC_MODE" "\<And>r. wpof r cf' = wpof r cf"
    and len: "length (lines cf') = length (lines cf)"
    and ids: "\<And>e. e < length (lines cf) \<Longrightarrow> line_id (lines cf' ! e) = line_id (lines cf ! e)"
    and cnt: "\<And>e. e < length (lines cf) \<Longrightarrow> e \<noteq> p_blk a \<Longrightarrow>
        l_vpc (lines cf' ! e) = l_vpc (lines cf ! e) \<and> l_ipc (lines cf' ! e) = l_ipc (lines cf ! e)"
    and b: "l_vpc (lines cf' ! p_blk a) = l_vpc (lines cf ! p_blk a) - 1" "l_ipc (lines cf' ! p_blk a) = l_ipc (lines cf ! p_blk a) + 1"
    and pos: "pos_inv (lines cf') (victims cf')"
    and r: "p_blk a \<in> rng (spp_of cf) r" "lm_inv (spp_of cf) (lines cf') r (lmof r cf') [curline (wpof r cf)] V"
    and oth: "\<And>r'. r' \<noteq> r \<Longrightarrow> lmof r' cf' = lmof r' cf"
      "\<And>e. e < length (lines cf) \<Longrightarrow> e \<notin> rng (spp_of cf) r \<Longrightarrow> l_pos (lines cf' ! e) = l_pos (lines cf ! e)"
    and m': "set (free_line_list (lmof r cf')) = set (free_line_list (lmof r cf))"
      "set (full_line_list (lmof r cf')) \<subseteq> set (full_line_list (lmof r cf)) - {p_blk a}"
      "set (live (pq_of (lmof r cf'))) \<subseteq> set (live (pq_of (lmof r cf))) \<union> (if p_blk a \<in> set (full_line_list (lmof r cf)) then {p_blk a} else {})"
  shows "binv cf' n V"
proof -
  have sp: "sp s' = spp_of cf" using s'(2) by (simp add: stat_upd_def)
  have ba: "p_blk a < tt_lines (spp_of cf)" and aL: "a \<in> line_pages (spp_of cf) (p_blk a)"
    using a(1) by (auto simp: pages_def line_pages_def)
  have "lines_inv s' (lines cf') V"
  proof (rule lines_inv_step [OF binvD(4) [OF inv] s'(2) a(1) len ids])
    assume "p_blk a \<notin> V"
    then have "l_vpc (lines cf ! p_blk a) = card (st_in (ssd cf) PG_VALID (line_pages (spp_of cf) (p_blk a)))"
      "l_ipc (lines cf ! p_blk a) = card (st_in (ssd cf) PG_INVALID (line_pages (spp_of cf) (p_blk a)))"
      using binvD(4) [OF inv] ba by (auto simp: lines_inv_def)
    then show "l_vpc (lines cf' ! p_blk a) = card (st_in s' PG_VALID (line_pages (spp_of cf) (p_blk a))) \<and>
        l_ipc (lines cf' ! p_blk a) = card (st_in s' PG_INVALID (line_pages (spp_of cf) (p_blk a)))"
      using card_st_in_upd(1,2) [OF s'(2) pages_sub(1) finite_line_pages aL a(2)] b by simp
  qed (use cnt in auto)
  moreover have "lm_inv (spp_of cf) (lines cf') r' (lmof r' cf') [curline (wpof r' cf)] V \<and>
      cls s' (lmof r' cf') (curline (wpof r' cf)) (n r')" for r'
  proof (cases "r' = r")
    case True
    then show ?thesis using r(2) cls_invalidate [OF binvD(7) [OF inv] s'(2) a(1,2) m'] by simp
  next
    case False
    have nr: "e \<notin> rng (spp_of cf) r" if "e \<in> set (members (lmof r' cf) [curline (wpof r' cf)])" for e
      using members_rng [OF binvD(6) [OF inv] that] rng_disj False by blast
    have nb: "p_blk a \<notin> set (members (lmof r' cf) [curline (wpof r' cf)])" using nr r(1) by blast
    have "lm_inv (spp_of cf) (lines cf') r' (lmof r' cf) [curline (wpof r' cf)] V"
    proof (rule lm_inv_frame [OF binvD(6) [OF inv] len])
      fix e assume e: "e \<in> set (live (pq_of (lmof r' cf)))"
      have "vq.pq_inv (pq_of (lmof r' cf)) (lines cf)" using binvD(6) [OF inv, of r'] by (simp add: lm_inv_def)
      then have "e < length (lines cf)" using e pq_live_bounds by blast
      moreover have "e \<notin> rng (spp_of cf) r" "e \<noteq> p_blk a" using nr [of e] nb e by (auto simp: members_def)
      ultimately show "l_pos (lines cf' ! e) = l_pos (lines cf ! e) \<and> l_vpc (lines cf' ! e) = l_vpc (lines cf ! e)"
        using oth(2) cnt by blast
    qed
    then show ?thesis using oth(1) [OF False] cls_other [OF binvD(7) [OF inv] s'(2) nb] by simp
  qed
  ultimately show ?thesis
    using s'(1) pos cf' sp binvD(8) [OF inv] by (simp add: binv_def)
qed

lemma line_invalidate_victim:
  assumes inv: "binv cf n V" and b: "b \<in> set (live (pq_of (lmof r cf)))" and v: "l_vpc (lines cf ! b) \<noteq> np"
  shows "\<exists>q h'. line_invalidate r np b (cf\<lparr>ssd := s'\<rparr>) =
      Some (upd_lm r (\<lambda>m. m\<lparr>victim_line_pq := q\<rparr>) (cf\<lparr>ssd := s', lines := h'\<rparr>)) \<and>
    lm_inv (spp_of cf) h' r ((lmof r cf)\<lparr>victim_line_pq := q\<rparr>) [curline (wpof r cf)] V \<and>
    set (live q) = set (live (pq_of (lmof r cf))) \<and>
    vq.only_pos (set (live q)) (modl (lines cf) b (\<lambda>l. l\<lparr>l_ipc := l_ipc l + 1, l_vpc := l_vpc l - 1\<rparr>)) h'"
proof -
  let ?h1 = "modl (lines cf) b (\<lambda>l. l\<lparr>l_ipc := l_ipc l + 1\<rparr>)" and ?m = "lmof r cf"
  have pinv: "vq.pq_inv (pq_of ?m) (lines cf)" using binvD(6) [OF inv, of r] by (simp add: lm_inv_def)
  note bl = pq_live_bounds [OF pinv b]
  have inv1: "lm_inv (spp_of cf) ?h1 r ?m [curline (wpof r cf)] V"
    by (rule lm_inv_frame [OF binvD(6) [OF inv]]) (use pq_live_bounds(1) [OF pinv] in \<open>auto simp: arr_simps\<close>)
  obtain q h' where q: "pqueue_change_priority (pq_of ?m) ?h1 (l_vpc (lines cf ! b) - 1) b = Some (q, h')"
    "lm_inv (spp_of cf) h' r (?m\<lparr>victim_line_pq := q\<rparr>) [curline (wpof r cf)] V"
    "set (live q) = set (live (pq_of ?m))"
    "vq.only_pos (set (live (pq_of ?m))) (modl ?h1 b (\<lambda>l. l\<lparr>l_vpc := l_vpc (lines cf ! b) - 1\<rparr>)) h'"
    using lm_change_priority [OF inv1 b] by blast
  have "modl ?h1 b (\<lambda>l. l\<lparr>l_vpc := l_vpc (lines cf ! b) - 1\<rparr>) =
      modl (lines cf) b (\<lambda>l. l\<lparr>l_ipc := l_ipc l + 1, l_vpc := l_vpc l - 1\<rparr>)"
    using bl(1) by (simp add: modl_def)
  moreover have "line_invalidate r np b (cf\<lparr>ssd := s'\<rparr>) =
      Some (upd_lm r (\<lambda>m. m\<lparr>victim_line_pq := q\<rparr>) (cf\<lparr>ssd := s', lines := h'\<rparr>))"
    using bl v q(1) by (simp add: line_invalidate_def Let_def victim_change_priority_def upd_line_def)
  ultimately show ?thesis using q(2-4) by (intro exI [of _ q] exI [of _ h']) simp
qed

lemma line_invalidate_plain:
  assumes "l_pos (lines cf ! b) = 0" "l_vpc (lines cf ! b) \<noteq> np" "b < length (lines cf)"
  shows "line_invalidate r np b (cf\<lparr>ssd := s'\<rparr>) =
    Some (cf\<lparr>ssd := s', lines := modl (lines cf) b (\<lambda>l. l\<lparr>l_ipc := l_ipc l + 1, l_vpc := l_vpc l - 1\<rparr>)\<rparr>)"
  using assms by (simp add: line_invalidate_def Let_def upd_line_def modl_def)

lemma line_invalidate_full:
  assumes inv: "binv cf n V" and b: "b \<in> set (full_line_list (lmof r cf))" "b \<in> rng (spp_of cf) r" "b \<notin> V"
    and v: "l_vpc (lines cf ! b) = np" "l_ipc (lines cf ! b) = 0" "0 < np"
  defines "h1 \<equiv> modl (lines cf) b (\<lambda>l. l\<lparr>l_ipc := l_ipc l + 1, l_vpc := l_vpc l - 1\<rparr>)"
  shows "\<exists>m' h'. line_invalidate r np b (cf\<lparr>ssd := s'\<rparr>) = Some (upd_lm r (\<lambda>_. m') (cf\<lparr>ssd := s', lines := h'\<rparr>)) \<and>
    lm_inv (spp_of cf) h' r m' [curline (wpof r cf)] V \<and> free_line_list m' = free_line_list (lmof r cf) \<and>
    set (full_line_list m') = set (full_line_list (lmof r cf)) - {b} \<and>
    set (live (pq_of m')) = insert b (set (live (pq_of (lmof r cf)))) \<and> vq.only_pos (set (live (pq_of m'))) h1 h'"
proof -
  let ?m = "lmof r cf" and ?spp = "spp_of cf"
  note g = binvD(3) [OF inv] and lmi = binvD(6) [OF inv, of r, unfolded lm_inv_def members_def]
  have len: "length (lines cf) = tt_lines ?spp" using binvD(4) [OF inv] by (simp add: lines_inv_def)
  have bl: "b < length (lines cf)" using rng_bound [OF g b(2)] len by simp
  have nl: "b \<notin> set (live (pq_of ?m))" "b \<notin> set (free_line_list ?m)" using lmi b(1) by auto
  have "b \<notin> victims cf" using victim_in_pq [OF inv b(2)] nl by blast
  then have pos: "l_pos (lines cf ! b) = 0" using binvD(5) [OF inv] bl by (simp add: pos_inv_def)
  have pinv: "vq.pq_inv (pq_of ?m) (lines cf)" using lmi by blast
  have h1: "length h1 = length (lines cf)" "modl (modl (lines cf) b (\<lambda>l. l\<lparr>l_ipc := l_ipc l + 1\<rparr>)) b (\<lambda>l. l\<lparr>l_vpc := l_vpc l - 1\<rparr>) = h1"
    using bl by (simp_all add: h1_def modl_def)
  have i1: "lm_inv ?spp h1 r ?m [curline (wpof r cf)] V"
    by (rule lm_inv_frame [OF binvD(6) [OF inv] h1(1)])
      (use nl pq_live_bounds(1) [OF pinv] in \<open>auto simp: h1_def arr_simps\<close>)
  define m1 where "m1 = ?m\<lparr>free_line_list := removeAll b (free_line_list ?m),
    full_line_list := removeAll b (full_line_list ?m), full_line_cnt := dec32 (full_line_cnt ?m)\<rparr>"
  have i2: "lm_inv ?spp h1 r m1 [curline (wpof r cf)] (insert b V)"
    unfolding m1_def by (rule lm_detach_full [OF g i1 b(1)])
  obtain q h' where q: "pqueue_insert (pq_of m1) h1 b = Some (q, h')"
    "lm_inv ?spp h' r (m1\<lparr>victim_line_pq := q, victim_line_cnt := inc32 (victim_line_cnt m1)\<rparr>) [curline (wpof r cf)] V"
    "set (live q) = insert b (set (live (pq_of m1)))" "vq.only_pos (insert b (set (live (pq_of m1)))) h1 h'"
    using lm_attach_victim [OF g i2 b(2,3)] bl h1(1) by auto
  let ?m' = "m1\<lparr>victim_line_pq := q, victim_line_cnt := inc32 (victim_line_cnt m1)\<rparr>"
  let ?c = "cf\<lparr>ssd := s', lines := h1\<rparr>"
  have del: "list_del_init b ?c = upd_lm r (\<lambda>m. m\<lparr>free_line_list := removeAll b (free_line_list m),
      full_line_list := removeAll b (full_line_list m)\<rparr>) ?c"
    by (rule list_del_other [of r ?spp "lines cf" _ "\<lambda>r. [curline (wpof r cf)]" "\<lambda>_. V"])
      (use binvD(6) [OF inv] b(2) in simp_all)
  have ln: "idx h1 b = Some ((lines cf ! b)\<lparr>l_ipc := l_ipc (lines cf ! b) + 1, l_vpc := l_vpc (lines cf ! b) - 1\<rparr>)"
    using bl by (simp add: h1_def arr_simps)
  have "line_invalidate r np b (cf\<lparr>ssd := s'\<rparr>) = Some (upd_lm r (\<lambda>_. ?m') (cf\<lparr>ssd := s', lines := h'\<rparr>))"
    using pos v h1(2) del ln q(1)
    by (cases r) (simp_all add: line_invalidate_def Let_def upd_line_def victim_insert_def lmof_def upd_lm_def m1_def)
  moreover have "removeAll b (free_line_list ?m) = free_line_list ?m" using nl(2) by simp
  ultimately show ?thesis using q(2-4) by (intro exI [of _ ?m'] exI [of _ h']) (simp add: m1_def)
qed

text \<open>A line is full exactly when it is on the full list.\<close>

lemma line_class:
  assumes inv: "binv cf n V" and n: "n r \<le> settled cf r" and b: "b \<in> rng (spp_of cf) r" "b \<notin> V"
  shows "l_vpc (lines cf ! b) = ppl (spp_of cf) b \<longleftrightarrow> b \<in> set (full_line_list (lmof r cf))"
    and "b \<in> set (full_line_list (lmof r cf)) \<Longrightarrow> l_ipc (lines cf ! b) = 0"
    and "b \<in> set (live (pq_of (lmof r cf))) \<Longrightarrow> l_vpc (lines cf ! b) \<noteq> ppl (spp_of cf) b"
proof -
  let ?spp = "spp_of cf" and ?s = "ssd cf" and ?m = "lmof r cf" and ?L = "line_pages (spp_of cf) b"
  note g = binvD(3) [OF inv] and c = binvD(7) [OF inv, of r, unfolded cls_def]
  have bt: "b < tt_lines ?spp" using rng_bound [OF g b(1)] .
  have cnt: "l_vpc (lines cf ! b) = card (st_in ?s PG_VALID ?L)" "l_ipc (lines cf ! b) = card (st_in ?s PG_INVALID ?L)"
    using binvD(4) [OF inv] bt b(2) by (simp_all add: lines_inv_def)
  note lc = line_cards [OF g bt]
  have nv: "l_vpc (lines cf ! b) < ppl ?spp b" if "x \<in> ?L" "stat ?s x \<noteq> PG_VALID" for x
    using card_st_in_pos [OF that(1) refl, of ?s] that(2) lc cnt by (cases "stat ?s x") auto
  have full: "l_vpc (lines cf ! b) = ppl ?spp b \<and> l_ipc (lines cf ! b) = 0" if "b \<in> set (full_line_list ?m)"
  proof -
    have "\<forall>x \<in> ?L. stat ?s x = PG_VALID" using c that by blast
    then have "st_in ?s PG_INVALID ?L = {}" "st_in ?s PG_FREE ?L = {}" by (auto simp: st_in_def)
    then show ?thesis using lc cnt by simp
  qed
  have mem: "b \<in> set (members ?m [curline (wpof r cf)])" using binvD(6) [OF inv, of r] b by (auto simp: lm_inv_def)
  have ne: "\<exists>x. x \<in> ?L"
  proof -
    have "0 < card ?L" using card_line_pages [OF bt] geo_pos(1-3) [OF g] by simp
    then show ?thesis by (metis card_gt_0_iff equals0I)
  qed
  have live: "l_vpc (lines cf ! b) < ppl ?spp b" if "b \<in> set (live (pq_of ?m))"
    using c that nv by (metis pg_status.distinct(5))
  then show "b \<in> set (live (pq_of ?m)) \<Longrightarrow> l_vpc (lines cf ! b) \<noteq> ppl ?spp b" by simp
  show "b \<in> set (full_line_list ?m) \<Longrightarrow> l_ipc (lines cf ! b) = 0" using full by blast
  show "l_vpc (lines cf ! b) = ppl ?spp b \<longleftrightarrow> b \<in> set (full_line_list ?m)"
  proof
    assume v: "l_vpc (lines cf ! b) = ppl ?spp b"
    consider "b \<in> set (free_line_list ?m)" | "b \<in> set (full_line_list ?m)" | "b \<in> set (live (pq_of ?m))"
      | "b = curline (wpof r cf)" using mem by (auto simp: members_def)
    then show "b \<in> set (full_line_list ?m)"
    proof cases
      case 1
      obtain x where "x \<in> ?L" using ne by blast
      moreover have "stat ?s x = PG_FREE" using c 1 \<open>x \<in> ?L\<close> by blast
      ultimately show ?thesis using nv v by fastforce
    next
      case 3
      then show ?thesis using live v by simp
    next
      case 4
      have "wpp (wpof r cf) \<in> ?L" using binvD(8) [OF inv, of r] 4 by (auto simp: wp_ok_def line_pages_def wpp_def)
      moreover have "stat ?s (wpp (wpof r cf)) = PG_FREE"
        using c calculation n 4 by (simp add: settled_def)
      ultimately show ?thesis using nv v by fastforce
    qed
  next
    assume "b \<in> set (full_line_list ?m)"
    then show "l_vpc (lines cf ! b) = ppl ?spp b" using full by blast
  qed
qed

lemma upd_lm_rest [simp]:
  "same_rest cf (upd_lm r f (cf\<lparr>ssd := s, lines := h\<rparr>))" "same_rest cf (cf\<lparr>ssd := s, lines := h\<rparr>)"
  by (cases r; simp add: same_rest_def upd_lm_def)+

lemma wpof_upds [simp]:
  "wpof r (upd_lm r' f (cf\<lparr>ssd := s, lines := h\<rparr>)) = wpof r cf" "wpof r (cf\<lparr>ssd := s, lines := h\<rparr>) = wpof r cf"
  "lmof r (cf\<lparr>ssd := s, lines := h\<rparr>) = lmof r cf"
  by (cases r; cases r'; simp add: wpof_def upd_lm_def lmof_def)+

lemma ex_mode: "(\<exists>r. P r) \<longleftrightarrow> P SLC_MODE \<or> P TLC_MODE"
  by (metis line_mode.exhaust)

lemma victims_upd:
  "e \<in> victims (upd_lm r (\<lambda>_. m') (cf\<lparr>ssd := s, lines := h\<rparr>)) \<longleftrightarrow>
     e \<in> set (live (pq_of m')) \<or> (\<exists>r'. r' \<noteq> r \<and> e \<in> set (live (pq_of (lmof r' cf))))"
  unfolding victims_lmof ex_mode by (cases r) auto

lemma victims_ex: "e \<in> victims cf \<longleftrightarrow> (\<exists>r. e \<in> set (live (pq_of (lmof r cf))))"
  unfolding victims_lmof ex_mode by simp

lemma only_pos_refl: "vq.only_pos M h h"
  by (simp add: vq.only_pos_def)

lemma binv_invalidate:
  assumes inv: "binv cf n V" and a: "a \<in> pages (spp_of cf)" "stat (ssd cf) a = PG_VALID" "p_blk a \<notin> V"
    and s': "nand_inv s'" "stat_upd (ssd cf) s' a PG_INVALID"
    and r: "p_blk a \<in> rng (spp_of cf) r" "lm_inv (spp_of cf) h' r m' [curline (wpof r cf)] V"
    and m': "free_line_list m' = free_line_list (lmof r cf)"
      "set (full_line_list m') = set (full_line_list (lmof r cf)) - {p_blk a}"
      "set (live (pq_of m')) = set (live (pq_of (lmof r cf))) \<union> (if p_blk a \<in> set (full_line_list (lmof r cf)) then {p_blk a} else {})"
    and op: "vq.only_pos (set (live (pq_of m')))
       (modl (lines cf) (p_blk a) (\<lambda>l. l\<lparr>l_ipc := l_ipc l + 1, l_vpc := l_vpc l - 1\<rparr>)) h'"
  shows "binv (upd_lm r (\<lambda>_. m') (cf\<lparr>ssd := s', lines := h'\<rparr>)) n V"
proof -
  let ?b = "p_blk a" and ?h = "lines cf" and ?cf = "upd_lm r (\<lambda>_. m') (cf\<lparr>ssd := s', lines := h'\<rparr>)"
  have "length ?h = tt_lines (spp_of cf)" using binvD(4) [OF inv] by (simp add: lines_inv_def)
  then have bl: "?b < length ?h" using a(1) by (simp add: pages_def)
  note o = only_posD [OF op]
  have h: "length h' = length ?h"
    "\<And>e. e < length ?h \<Longrightarrow> line_id (h' ! e) = line_id (?h ! e)"
    "\<And>e. e < length ?h \<Longrightarrow> e \<noteq> ?b \<Longrightarrow> l_vpc (h' ! e) = l_vpc (?h ! e) \<and> l_ipc (h' ! e) = l_ipc (?h ! e)"
    "l_vpc (h' ! ?b) = l_vpc (?h ! ?b) - 1" "l_ipc (h' ! ?b) = l_ipc (?h ! ?b) + 1"
    "\<And>e. e < length ?h \<Longrightarrow> e \<notin> set (live (pq_of m')) \<Longrightarrow> l_pos (h' ! e) = l_pos (?h ! e)"
    using o(1) o(2) [of ?b] o(2) o(3) bl by (simp_all add: nth_modl)
  have mr: "e \<in> rng (spp_of cf) r" if "e \<in> set (live (pq_of m'))" for e
    using members_rng [OF r(2), of e] that by (simp add: members_def)
  have pos: "pos_inv h' (victims ?cf)"
    unfolding pos_inv_def
  proof (intro allI impI)
    fix e assume e: "e < length h'" "e \<notin> victims ?cf"
    then have ne: "e \<notin> set (live (pq_of m'))" and "\<forall>r'. r' \<noteq> r \<longrightarrow> e \<notin> set (live (pq_of (lmof r' cf)))"
      unfolding victims_upd by blast+
    then have "e \<notin> victims cf" unfolding victims_ex m'(3) by (metis UnCI)
    then have "l_pos (?h ! e) = 0" using binvD(5) [OF inv] e(1) h(1) by (simp add: pos_inv_def)
    then show "l_pos (h' ! e) = 0" using h(6) [of e] ne e(1) h(1) by simp
  qed
  show ?thesis
    by (rule binv_invalidate_close [OF inv a s' _ _ _ _ _ _ _ _ _ r(1)])
      (use h pos r(2) m' mr binvD(1) [OF inv] in simp_all, blast)
qed

lemma mark_page_invalid_ok:
  assumes inv: "binv cf n V" and n: "\<And>r. n r \<le> settled cf r"
    and a: "a \<in> pages (spp_of cf)" "stat (ssd cf) a = PG_VALID" "p_blk a \<notin> V"
  shows "\<exists>cf'. mark_page_invalid cf a = Some cf' \<and> binv cf' n V \<and> same_rest cf cf' \<and>
    stat_upd (ssd cf) (ssd cf') a PG_INVALID \<and> (\<forall>r. wpof r cf' = wpof r cf) \<and>
    (\<forall>r. free_line_list (lmof r cf') = free_line_list (lmof r cf))"
proof -
  let ?b = "p_blk a" and ?spp = "spp_of cf" and ?r = "region cf a" and ?np = "ppl (spp_of cf) (p_blk a)"
  let ?m = "lmof ?r cf" and ?h1 = "modl (lines cf) ?b (\<lambda>l. l\<lparr>l_ipc := l_ipc l + 1, l_vpc := l_vpc l - 1\<rparr>)"
  define s' where "s' = upd_blk (\<lambda>b. b\<lparr>ipc := ipc b + 1, vpc := vpc b - 1\<rparr>)
                 (upd_pg (\<lambda>p. p\<lparr>status := PG_INVALID\<rparr>) (ssd cf) a) a"
  note s' = nand_invalidate [OF binvD(2) [OF inv] a(1,2), folded s'_def]
  note hd = mark_page_invalid_head [OF inv a, folded s'_def]
  note br = region_rng(1) [OF inv a(1)]
  note cl = line_class [OF inv n br a(3)]
  have len: "length (lines cf) = tt_lines ?spp" using binvD(4) [OF inv] by (simp add: lines_inv_def)
  have bl: "?b < length (lines cf)" using a(1) len by (simp add: pages_def)
  have dis: "?b \<notin> set (full_line_list ?m)" if "?b \<in> set (live (pq_of ?m))"
    using binvD(6) [OF inv, of ?r] that by (auto simp: lm_inv_def members_def)
  have "\<exists>m' h'. line_invalidate ?r ?np ?b (cf\<lparr>ssd := s'\<rparr>) = Some (upd_lm ?r (\<lambda>_. m') (cf\<lparr>ssd := s', lines := h'\<rparr>)) \<and>
    lm_inv ?spp h' ?r m' [curline (wpof ?r cf)] V \<and> free_line_list m' = free_line_list ?m \<and>
    set (full_line_list m') = set (full_line_list ?m) - {?b} \<and>
    set (live (pq_of m')) = set (live (pq_of ?m)) \<union> (if ?b \<in> set (full_line_list ?m) then {?b} else {}) \<and>
    vq.only_pos (set (live (pq_of m'))) ?h1 h'"
  proof -
    consider (live) "?b \<in> set (live (pq_of ?m))" | (full) "?b \<in> set (full_line_list ?m)"
      | (other) "?b \<notin> set (live (pq_of ?m))" "?b \<notin> set (full_line_list ?m)" by blast
    then show ?thesis
    proof cases
      case live
      obtain q h' where q: "line_invalidate ?r ?np ?b (cf\<lparr>ssd := s'\<rparr>) =
          Some (upd_lm ?r (\<lambda>m. m\<lparr>victim_line_pq := q\<rparr>) (cf\<lparr>ssd := s', lines := h'\<rparr>))"
        "lm_inv ?spp h' ?r (?m\<lparr>victim_line_pq := q\<rparr>) [curline (wpof ?r cf)] V"
        "set (live q) = set (live (pq_of ?m))" "vq.only_pos (set (live q)) ?h1 h'"
        using line_invalidate_victim [OF inv live cl(3) [OF live]] by blast
      have "upd_lm ?r (\<lambda>m. m\<lparr>victim_line_pq := q\<rparr>) (cf\<lparr>ssd := s', lines := h'\<rparr>) =
          upd_lm ?r (\<lambda>_. ?m\<lparr>victim_line_pq := q\<rparr>) (cf\<lparr>ssd := s', lines := h'\<rparr>)"
        by (cases ?r) (simp_all add: upd_lm_def lmof_def)
      then show ?thesis
        using q dis [OF live] by (intro exI [of _ "?m\<lparr>victim_line_pq := q\<rparr>"] exI [of _ h']) simp
    next
      case full
      show ?thesis
        using line_invalidate_full [OF inv full br a(3) _ cl(2) [OF full], of ?np s'] cl(1) full
          geo_pos(5) [OF binvD(3) [OF inv]] by auto
    next
      case other
      have "?b \<notin> victims cf" using victim_in_pq [OF inv br] other(1) by blast
      then have pos: "l_pos (lines cf ! ?b) = 0" using binvD(5) [OF inv] bl by (simp add: pos_inv_def)
      have "lm_inv ?spp ?h1 ?r ?m [curline (wpof ?r cf)] V"
      proof (rule lm_inv_frame [OF binvD(6) [OF inv]])
        fix e assume e: "e \<in> set (live (pq_of ?m))"
        have "vq.pq_inv (pq_of ?m) (lines cf)" using binvD(6) [OF inv, of ?r] by (simp add: lm_inv_def)
        then have "e < length (lines cf)" using e pq_live_bounds by blast
        moreover have "e \<noteq> ?b" using e other(1) by blast
        ultimately show "l_pos (?h1 ! e) = l_pos (lines cf ! e) \<and> l_vpc (?h1 ! e) = l_vpc (lines cf ! e)"
          by (simp add: nth_modl)
      qed simp
      moreover have "upd_lm ?r (\<lambda>_. ?m) (cf\<lparr>ssd := s', lines := ?h1\<rparr>) = cf\<lparr>ssd := s', lines := ?h1\<rparr>"
        by (cases ?r) (simp_all add: upd_lm_def lmof_def)
      ultimately show ?thesis
        using line_invalidate_plain [OF pos _ bl, of ?np ?r s'] cl(1) other only_pos_refl
        by (intro exI [of _ ?m] exI [of _ ?h1]) simp
    qed
  qed
  then obtain m' h' where m: "line_invalidate ?r ?np ?b (cf\<lparr>ssd := s'\<rparr>) = Some (upd_lm ?r (\<lambda>_. m') (cf\<lparr>ssd := s', lines := h'\<rparr>))"
    "lm_inv ?spp h' ?r m' [curline (wpof ?r cf)] V" "free_line_list m' = free_line_list ?m"
    "set (full_line_list m') = set (full_line_list ?m) - {?b}"
    "set (live (pq_of m')) = set (live (pq_of ?m)) \<union> (if ?b \<in> set (full_line_list ?m) then {?b} else {})"
    "vq.only_pos (set (live (pq_of m'))) ?h1 h'" by blast
  have "binv (upd_lm ?r (\<lambda>_. m') (cf\<lparr>ssd := s', lines := h'\<rparr>)) n V"
    by (rule binv_invalidate [OF inv a s' br m(2-6)])
  then show ?thesis using hd m(1,3) s'(2) by simp
qed

end
