(* ===== verification/Conv_Append.thy ===== *)
theory Conv_Append
  imports Conv_Inv
begin

text \<open>
  Appending a page at a write pointer: \<open>mark_page_valid\<close> of the page under the pointer followed by
  \<open>advance_write_pointer\<close>. Shown: the pointer visits the pages of a line in the order of \<open>windex\<close>; at
  the end of a line the line goes to the full list or to the victim queue and the next free line is
  taken; the invariant is kept; and the room of the write pointer (the pages it can still write
  before it runs out of free lines) goes down by exactly one.
\<close>

definition linesz :: "ssdparams \<Rightarrow> line_mode \<Rightarrow> nat" where
  "linesz spp r = (case r of SLC_MODE \<Rightarrow> pgs_per_line_slc spp | TLC_MODE \<Rightarrow> pgs_per_line spp)"

definition io_of :: "line_mode \<Rightarrow> io_type" where
  "io_of r = (case r of SLC_MODE \<Rightarrow> USER_IO | TLC_MODE \<Rightarrow> GC_IO)"

definition room :: "conv_ftl \<Rightarrow> line_mode \<Rightarrow> nat" where
  "room cf r = linesz (spp_of cf) r * length (free_line_list (lmof r cf)) +
               (linesz (spp_of cf) r - settled cf r)"

lemma linesz_ppl: "b \<in> rng spp r \<Longrightarrow> ppl spp b = linesz spp r"
  by (cases r) (auto simp: rng_def ppl_def linesz_def)

lemma wp_set [simp]:
  "get_wp (io_of r) cf = wpof r cf" "wpof r' (set_wp (io_of r) w cf) = (if r' = r then w else wpof r' cf)"
  "lmof r' (set_wp io w cf) = lmof r' cf" "ssd (set_wp io w cf) = ssd cf" "lines (set_wp io w cf) = lines cf"
  "slc_mode (set_wp io w cf) = slc_mode cf" "victims (set_wp io w cf) = victims cf"
  "maptbl (set_wp io w cf) = maptbl cf" "rmap (set_wp io w cf) = rmap cf" "wfc (set_wp io w cf) = wfc cf"
  "cp (set_wp io w cf) = cp cf" "dyn_slc_mode (set_wp io w cf) = dyn_slc_mode cf"
  by (cases r; cases r'; cases io; simp add: io_of_def get_wp_def set_wp_def wpof_def lmof_def victims_def)+

lemma cur_rng:
  assumes "binv cf n V"
  shows "curline (wpof r cf) \<in> rng (spp_of cf) r" "curline (wpof r cf) \<notin> V"
    "wpp (wpof r cf) \<in> line_pages (spp_of cf) (curline (wpof r cf))"
proof -
  show "curline (wpof r cf) \<in> rng (spp_of cf) r" "curline (wpof r cf) \<notin> V"
    using members_rng [OF binvD(6) [OF assms, of r], of "curline (wpof r cf)"] by (simp_all add: members_def)
  show "wpp (wpof r cf) \<in> line_pages (spp_of cf) (curline (wpof r cf))"
    using binvD(8) [OF assms, of r] by (auto simp: wp_ok_def line_pages_def wpp_def)
qed

lemma settled_bound:
  assumes "binv cf n V"
  shows "settled cf r < linesz (spp_of cf) r"
proof -
  have w: "wpp (wpof r cf) \<in> pages (spp_of cf)" "p_blk (wpp (wpof r cf)) = curline (wpof r cf)"
    using cur_rng(3) [OF assms, of r] by (simp_all add: line_pages_def)
  then show ?thesis
    using windex_bound [OF binvD(3) [OF assms] w(1)] linesz_ppl [OF cur_rng(1) [OF assms]] by (simp add: settled_def)
qed

section \<open>Marking the page under the write pointer\<close>

lemma nand_validate:
  assumes inv: "nand_inv s" and a: "a \<in> pages (sp s)" "stat s a = PG_FREE"
  defines "s' \<equiv> upd_blk (\<lambda>b. b\<lparr>vpc := vpc b + 1\<rparr>) (upd_pg (\<lambda>p. p\<lparr>status := PG_VALID\<rparr>) s a) a"
  shows "nand_inv s'" "stat_upd s s' a PG_VALID"
proof -
  have "vpc b + 1 = card (st_in s'' PG_VALID (blk_pages (sp s) a)) \<and> ipc b = card (st_in s'' PG_INVALID (blk_pages (sp s) a))"
    if "blk_ok s a b" "stat_upd s s'' a PG_VALID" for b s''
    using that card_st_in_upd(1,3) [OF that(2) pages_sub(2) finite_blk_pages _ a(2), of a] a(1)
    by (simp add: blk_ok_def blk_pages_def)
  then show "nand_inv s'" "stat_upd s s' a PG_VALID"
    unfolding s'_def by (intro nand_set_page [OF inv a]; simp)+
qed

lemma cls_append:
  assumes c: "cls s m cur n" and su: "stat_upd s s' a PG_VALID" and g: "geo (sp s)"
    and a: "a \<in> line_pages (sp s) cur" "windex (sp s) a = n"
    and dis: "cur \<notin> set (free_line_list m)" "cur \<notin> set (full_line_list m)" "cur \<notin> set (live (pq_of m))"
  shows "cls s' m cur (n + 1)"
proof -
  have sp: "sp s' = sp s" using su by (simp add: stat_upd_def)
  have st: "stat s' x = (if x = a then PG_VALID else stat s x)" if "x \<in> line_pages (sp s) b" for x b
    using su that by (auto simp: stat_upd_def line_pages_def)
  have oth: "stat s' x = stat s x" if "x \<in> line_pages (sp s) b" "b \<noteq> cur" for x b
    using st [OF that(1)] a that by (auto simp: line_pages_def)
  have ncur: "b \<noteq> cur" if "b \<in> set (free_line_list m) \<union> set (full_line_list m) \<union> set (live (pq_of m))" for b
    using dis that by auto
  have "stat s' x = PG_FREE \<longleftrightarrow> n + 1 \<le> windex (sp s) x" if x: "x \<in> line_pages (sp s) cur" for x
  proof (cases "x = a")
    case True
    then show ?thesis using st [OF x] a(2) by simp
  next
    case False
    then have "windex (sp s) x \<noteq> n" using windex_inj [OF g x a(1)] a(2) by auto
    moreover have "stat s x = PG_FREE \<longleftrightarrow> n \<le> windex (sp s) x" using c x by (simp add: cls_def)
    ultimately show ?thesis using st [OF x] False by auto
  qed
  then show ?thesis
    using c oth ncur unfolding cls_def sp by (simp add: Ball_def Bex_def)
qed

lemma mark_page_valid_ok:
  assumes inv: "binv cf n V" and n: "n r = settled cf r"
  defines "a \<equiv> wpp (wpof r cf)"
  shows "\<exists>s' h'. mark_page_valid cf a = Some (cf\<lparr>ssd := s', lines := h'\<rparr>) \<and>
    binv (cf\<lparr>ssd := s', lines := h'\<rparr>) (n(r := n r + 1)) V \<and> stat_upd (ssd cf) s' a PG_VALID"
proof -
  let ?spp = "spp_of cf" and ?s = "ssd cf" and ?b = "curline (wpof r cf)" and ?h = "lines cf"
  let ?L = "line_pages (spp_of cf) (curline (wpof r cf))"
  note g = binvD(3) [OF inv] and cr = cur_rng [OF inv, of r, folded a_def]
  have ap: "a \<in> pages ?spp" and ab: "p_blk a = ?b" using cr(3) by (auto simp: line_pages_def)
  have bt: "?b < tt_lines ?spp" using ap ab by (simp add: pages_def)
  have fr: "stat ?s a = PG_FREE"
    using binvD(7) [OF inv, of r] cr(3) n by (simp add: cls_def settled_def a_def)
  define s' where "s' = upd_blk (\<lambda>b. b\<lparr>vpc := vpc b + 1\<rparr>) (upd_pg (\<lambda>p. p\<lparr>status := PG_VALID\<rparr>) ?s a) a"
  define h' where "h' = modl ?h ?b (\<lambda>l. l\<lparr>l_vpc := l_vpc l + 1\<rparr>)"
  note s' = nand_validate [OF binvD(2) [OF inv] ap fr, folded s'_def]
  have sp: "sp s' = ?spp" using s'(2) by (simp add: stat_upd_def)
  obtain blk pg where bp: "get_blk ?s a = Some blk" "blk_ok ?s a blk" "get_pg ?s a = Some pg"
    "status pg = PG_FREE" using nand_page [OF binvD(2) [OF inv] ap] fr by metis
  have len: "length ?h = tt_lines ?spp" and lv: "l_vpc (?h ! ?b) = card (st_in ?s PG_VALID ?L)"
    "l_ipc (?h ! ?b) = card (st_in ?s PG_INVALID ?L)"
    using binvD(4) [OF inv] bt cr(2) by (auto simp: lines_inv_def)
  have vl: "l_vpc (?h ! ?b) < ppl ?spp ?b"
    using line_cards [OF g bt] card_st_in_pos [OF cr(3) fr] lv by linarith
  have "card (st_in ?s PG_VALID (blk_pages ?spp a)) < card (blk_pages ?spp a)"
  proof (rule psubset_card_mono [OF finite_blk_pages])
    have "a \<in> blk_pages ?spp a" using ap by (simp add: blk_pages_def)
    moreover have "a \<notin> st_in ?s PG_VALID (blk_pages ?spp a)" using fr by (simp add: st_in_def)
    ultimately show "st_in ?s PG_VALID (blk_pages ?spp a) \<subset> blk_pages ?spp a" by (auto simp: st_in_def)
  qed
  then have vb: "vpc blk < ppb ?spp ?b" using bp(2) card_blk_pages [OF ap] ab by (simp add: blk_ok_def)
  have gl: "get_line (cf\<lparr>ssd := s'\<rparr>) a = Some ?b"
    unfolding ab [symmetric] by (rule get_line_blk) (use binvD(1) [OF inv] g ab bt lm_tt [OF inv] sp in simp_all)
  have ex: "mark_page_valid cf a = Some (cf\<lparr>ssd := s', lines := h'\<rparr>)"
    using bp vb vl gl len bt region_rng(2,3) [OF inv ap] ab
    by (simp add: mark_page_valid_def Let_def set_pg_status_def upd_block_def get_blk_upd_pg s'_def h'_def
        upd_line_def arr_simps)
  have hs: "length h' = length ?h"
    "\<And>e. e < length ?h \<Longrightarrow> line_id (h' ! e) = line_id (?h ! e) \<and> l_pos (h' ! e) = l_pos (?h ! e) \<and> l_ipc (h' ! e) = l_ipc (?h ! e)"
    "\<And>e. e < length ?h \<Longrightarrow> e \<noteq> ?b \<Longrightarrow> l_vpc (h' ! e) = l_vpc (?h ! e)" "l_vpc (h' ! ?b) = l_vpc (?h ! ?b) + 1"
    using bt len by (auto simp: h'_def nth_modl)
  have L: "lines_inv s' h' V"
    by (rule lines_inv_step [OF binvD(4) [OF inv] s'(2) ap hs(1)])
      (use hs lv card_st_in_upd(1,3) [OF s'(2) pages_sub(1) finite_line_pages cr(3) fr] ab bt len in simp_all)
  have P: "pos_inv h' (victims cf)" using binvD(5) [OF inv] hs(1,2) by (simp add: pos_inv_def)
  have M: "lm_inv ?spp h' r' (lmof r' cf) [curline (wpof r' cf)] V" for r'
  proof (rule lm_inv_frame [OF binvD(6) [OF inv] hs(1)])
    fix e assume e: "e \<in> set (live (pq_of (lmof r' cf)))"
    have pinv: "vq.pq_inv (pq_of (lmof r' cf)) ?h" using binvD(6) [OF inv, of r'] by (simp add: lm_inv_def)
    have er: "e \<in> rng ?spp r'" using members_rng [OF binvD(6) [OF inv, of r'], of e] e by (simp add: members_def)
    have "e \<noteq> ?b"
    proof
      assume eq: "e = ?b"
      then have "r' = r" using er cr(1) rng_disj by blast
      then show False using binvD(6) [OF inv, of r] e eq by (auto simp: lm_inv_def members_def)
    qed
    then show "l_pos (h' ! e) = l_pos (?h ! e) \<and> l_vpc (h' ! e) = l_vpc (?h ! e)"
      using hs pq_live_bounds(1) [OF pinv e] by blast
  qed
  have C: "cls s' (lmof r' cf) (curline (wpof r' cf)) ((n(r := n r + 1)) r')" for r'
  proof (cases "r' = r")
    case True
    have "?b \<notin> set (free_line_list (lmof r cf))" "?b \<notin> set (full_line_list (lmof r cf))" "?b \<notin> set (live (pq_of (lmof r cf)))"
      using binvD(6) [OF inv, of r] by (auto simp: lm_inv_def members_def)
    then show ?thesis
      using cls_append [OF binvD(7) [OF inv, of r] s'(2) g cr(3)] n True by (simp add: settled_def a_def)
  next
    case False
    have "?b \<notin> set (members (lmof r' cf) [curline (wpof r' cf)])"
      using members_rng [OF binvD(6) [OF inv, of r']] cr(1) rng_disj False by blast
    then show ?thesis using cls_other [OF binvD(7) [OF inv, of r'] s'(2)] ab False by simp
  qed
  have "binv (cf\<lparr>ssd := s', lines := h'\<rparr>) (n(r := n r + 1)) V"
    using s'(1) L P M C sp binvD(1,8) [OF inv] by (simp add: binv_def victims_lmof)
  then show ?thesis using ex s'(2) by blast
qed

section \<open>The order of the write pointer\<close>

lemma worder_next:
  assumes "0 < k"
  shows "(p + 1) mod k \<noteq> 0 \<Longrightarrow> worder spp k c l (p + 1) = worder spp k c l p + 1"
    and "(p + 1) mod k = 0 \<Longrightarrow> worder spp k c l p + 1 = ((p div k * luns_per_ch spp + l) * nchs spp + (c + 1)) * k"
    and "(p + 1) mod k = 0 \<Longrightarrow> p + 1 = (p div k + 1) * k"
proof -
  have m: "(p + 1) mod k = 0 \<Longrightarrow> p mod k + 1 = k"
    using assms by (metis Suc_eq_plus1 mod_Suc nat.distinct(1))
  show "(p + 1) mod k \<noteq> 0 \<Longrightarrow> worder spp k c l (p + 1) = worder spp k c l p + 1"
    by (auto simp: worder_def mod_Suc div_Suc split: if_splits)
  show "(p + 1) mod k = 0 \<Longrightarrow> worder spp k c l p + 1 = ((p div k * luns_per_ch spp + l) * nchs spp + (c + 1)) * k"
    using m by (simp add: worder_def)
  have "p = p div k * k + p mod k" by (simp add: div_mult_mod_eq)
  then show "(p + 1) mod k = 0 \<Longrightarrow> p + 1 = (p div k + 1) * k" using m by (metis add.assoc add_mult_distrib mult_1)
qed

lemma worder_line: "0 < k \<Longrightarrow> worder spp k c l (q * k) = ((q * luns_per_ch spp + l) * nchs spp + c) * k"
  by (simp add: worder_def)

text \<open>One step of the pointer: to the next page in the write order, or past the end of the line.\<close>

lemma advance_pointer:
  fixes r
  assumes inv: "binv cf n V"
  defines "w \<equiv> wpof r cf"
  shows "(\<exists>w'. advance_write_pointer (io_of r) cf = Some (set_wp (io_of r) w' cf) \<and> wp_ok (spp_of cf) w' \<and>
           curline w' = curline w \<and> windex (spp_of cf) (wpp w') = windex (spp_of cf) (wpp w) + 1) \<or>
         (windex (spp_of cf) (wpp w) + 1 = linesz (spp_of cf) r \<and>
          advance_write_pointer (io_of r) cf = do {
            cf \<leftarrow> retire_line r (linesz (spp_of cf) r) (curline w) cf;
            next_line (io_of r) (w\<lparr>w_ch := 0, w_lun := 0, w_pg := 0\<rparr>) cf })"
proof -
  let ?spp = "spp_of cf" and ?b = "w_blk w" and ?p = "w_pg w" and ?c = "w_ch w" and ?l = "w_lun w"
  let ?k = "kk (spp_of cf) (w_blk w)" and ?n = "ppb (spp_of cf) (w_blk w)"
  let ?q = "w_pg w div kk (spp_of cf) (w_blk w)"
  note g = binvD(3) [OF inv]
  have ok: "wp_ok ?spp w" and br: "?b \<in> rng ?spp r"
    using binvD(8) [OF inv, of r] cur_rng(1) [OF inv, of r] by (simp_all add: w_def wp_ok_def)
  have wb: "?c < nchs ?spp" "?l < luns_per_ch ?spp" "?b < tt_lines ?spp" "?p < ?n" and bc: "?b = curline w" and pl: "w_pl w = 0"
    using ok by (auto simp: wp_ok_def wpp_def)
  have k: "0 < ?k" "?n mod ?k = 0" using geo_pos(4) [OF g] geo_ppb_kk [OF g] by blast+
  have par: "(case r of SLC_MODE \<Rightarrow> pgs_per_blk_slc ?spp | TLC_MODE \<Rightarrow> pgs_per_blk ?spp) = ?n"
    "(case r of SLC_MODE \<Rightarrow> pgs_per_oneshotpg_slc ?spp | TLC_MODE \<Rightarrow> pgs_per_oneshotpg ?spp) = ?k"
    "(if slc_mode cf = SLC_MODE \<and> io_of r = USER_IO then SLC_MODE else TLC_MODE) = r"
    using br binvD(1) [OF inv] by (cases r; auto simp: rng_def ppb_def kk_def io_of_def)+
  have wi: "windex ?spp (wpp w) = worder ?spp ?k ?c ?l ?p" by (simp add: windex_def wpp_def)
  have okI: "wp_ok ?spp w' \<and> windex ?spp (wpp w') = worder ?spp ?k (w_ch w') (w_lun w') (w_pg w')"
    if "w_ch w' < nchs ?spp" "w_lun w' < luns_per_ch ?spp" "w_pg w' < ?n" "w_blk w' = ?b" "curline w' = ?b" "w_pl w' = 0" for w'
    using that wb by (simp add: wp_ok_def wpp_def windex_def)
  note unf = advance_write_pointer_def Let_def par check_addr_def
  consider (adv) "(?p + 1) mod ?k \<noteq> 0" | (wrap) "(?p + 1) mod ?k = 0" by blast
  then show ?thesis
  proof cases
    case adv
    have "?p + 1 \<noteq> ?n" using adv k(2) by auto
    then have "?p + 1 < ?n" using wb(4) by simp
    then have "wp_ok ?spp (w\<lparr>w_pg := ?p + 1\<rparr>) \<and> windex ?spp (wpp (w\<lparr>w_pg := ?p + 1\<rparr>)) = windex ?spp (wpp w) + 1"
      using okI [of "w\<lparr>w_pg := ?p + 1\<rparr>"] wb bc pl worder_next(1) [OF k(1) adv] wi by simp
    moreover have "advance_write_pointer (io_of r) cf = Some (set_wp (io_of r) (w\<lparr>w_pg := ?p + 1\<rparr>) cf)"
      using adv k(1) wb(4) unfolding unf by (simp add: w_def)
    ultimately show ?thesis by (intro disjI1 exI [of _ "w\<lparr>w_pg := ?p + 1\<rparr>"]) simp
  next
    case wrap
    note wn = worder_next(2,3) [OF k(1) wrap]
    have sub: "?p + 1 - ?k = ?q * ?k" using wn(2) by simp
    have qn: "?q * ?k < ?n" using sub k(1) wb(4) by linarith
    have le: "(?q + 1) * ?k \<le> ?n" using wn(2) wb(4) by linarith
    have wrp: "w_pg w + 1 - ?k + ?k = (?q + 1) * ?k" using sub by simp
    consider (ch) "?c + 1 \<noteq> nchs ?spp" | (lun) "?c + 1 = nchs ?spp" "?l + 1 \<noteq> luns_per_ch ?spp"
      | (pg) "?c + 1 = nchs ?spp" "?l + 1 = luns_per_ch ?spp" "(?q + 1) * ?k \<noteq> ?n"
      | (last) "?c + 1 = nchs ?spp" "?l + 1 = luns_per_ch ?spp" "(?q + 1) * ?k = ?n" by blast
    then show ?thesis
    proof cases
      case ch
      let ?w = "w\<lparr>w_pg := ?q * ?k, w_ch := ?c + 1\<rparr>"
      have "wp_ok ?spp ?w \<and> windex ?spp (wpp ?w) = windex ?spp (wpp w) + 1"
        using okI [of ?w] bc pl ch wb qn wn(1) wi worder_line [OF k(1)] by simp
      moreover have "advance_write_pointer (io_of r) cf = Some (set_wp (io_of r) ?w cf)"
        using wrap k(1) wb ch sub unfolding unf by (simp add: w_def)
      ultimately show ?thesis by (intro disjI1 exI [of _ ?w]) simp
    next
      case lun
      let ?w = "w\<lparr>w_pg := ?q * ?k, w_ch := 0, w_lun := ?l + 1\<rparr>"
      have "((?q * luns_per_ch ?spp + ?l) * nchs ?spp + (?c + 1)) = (?q * luns_per_ch ?spp + (?l + 1)) * nchs ?spp + 0"
        unfolding lun(1) by (simp add: algebra_simps)
      then have "windex ?spp (wpp w) + 1 = worder ?spp ?k 0 (?l + 1) (?q * ?k)"
        using wn(1) wi worder_line [OF k(1)] by metis
      then have "wp_ok ?spp ?w \<and> windex ?spp (wpp ?w) = windex ?spp (wpp w) + 1"
        using okI [of ?w] bc pl lun wb qn by simp
      moreover have "advance_write_pointer (io_of r) cf = Some (set_wp (io_of r) ?w cf)"
        using wrap k(1) wb lun sub unfolding unf by (simp add: w_def)
      ultimately show ?thesis by (intro disjI1 exI [of _ ?w]) simp
    next
      case pg
      let ?w = "w\<lparr>w_ch := 0, w_lun := 0, w_pg := (?q + 1) * ?k\<rparr>"
      have "((?q * luns_per_ch ?spp + ?l) * nchs ?spp + (?c + 1)) = ((?q + 1) * luns_per_ch ?spp + 0) * nchs ?spp + 0"
        unfolding pg(1) pg(2) [symmetric] by (simp add: algebra_simps)
      then have "windex ?spp (wpp w) + 1 = worder ?spp ?k 0 0 ((?q + 1) * ?k)"
        using wn(1) wi worder_line [OF k(1)] by metis
      then have "wp_ok ?spp ?w \<and> windex ?spp (wpp ?w) = windex ?spp (wpp w) + 1"
        using okI [of ?w] bc pl pg(3) le geo_pos(1,2) [OF g] by simp
      moreover have "advance_write_pointer (io_of r) cf = Some (set_wp (io_of r) ?w cf)"
        using wrap k(1) wb pg sub wrp unfolding unf by (simp add: w_def add.commute)
      ultimately show ?thesis by (intro disjI1 exI [of _ ?w]) simp
    next
      case last
      have "((?q * luns_per_ch ?spp + ?l) * nchs ?spp + (?c + 1)) * ?k = luns_per_ch ?spp * nchs ?spp * ((?q + 1) * ?k)"
        unfolding last(1) last(2) [symmetric] by (simp add: algebra_simps)
      then have "windex ?spp (wpp w) + 1 = linesz ?spp r"
        using wn(1) wi last(3) geo_ppl [OF g, of ?b] linesz_ppl [OF br] by simp
      moreover have "advance_write_pointer (io_of r) cf = do {
            cf \<leftarrow> retire_line r (linesz ?spp r) (curline w) cf;
            next_line (io_of r) (w\<lparr>w_ch := 0, w_lun := 0, w_pg := 0\<rparr>) cf }"
        using wrap k(1) wb last sub wrp unfolding unf by (simp add: w_def linesz_def)
      ultimately show ?thesis by blast
    qed
  qed
qed

section \<open>The end of a line\<close>

text \<open>The used-up line goes to the full list or to the victim queue.\<close>

lemma retire_line_ok:
  assumes inv: "binv cf n V" and n: "n r = linesz (spp_of cf) r"
  defines "b \<equiv> curline (wpof r cf)"
  shows "\<exists>m' h'. retire_line r (linesz (spp_of cf) r) b cf = Some (upd_lm r (\<lambda>_. m') (cf\<lparr>lines := h'\<rparr>)) \<and>
    lm_inv (spp_of cf) h' r m' [] V \<and> free_line_list m' = free_line_list (lmof r cf) \<and>
    vq.only_pos (set (live (pq_of m'))) (lines cf) h' \<and>
    set (live (pq_of (lmof r cf))) \<subseteq> set (live (pq_of m')) \<and>
    (\<forall>e \<in> set (full_line_list m'). \<forall>x \<in> line_pages (spp_of cf) e. stat (ssd cf) x = PG_VALID) \<and>
    (\<forall>e \<in> set (live (pq_of m')). (\<forall>x \<in> line_pages (spp_of cf) e. stat (ssd cf) x \<noteq> PG_FREE) \<and>
        (\<exists>x \<in> line_pages (spp_of cf) e. stat (ssd cf) x = PG_INVALID))"
proof -
  let ?spp = "spp_of cf" and ?s = "ssd cf" and ?m = "lmof r cf" and ?h = "lines cf" and ?N = "linesz (spp_of cf) r"
  let ?L = "line_pages (spp_of cf) b"
  note g = binvD(3) [OF inv] and cr = cur_rng [OF inv, of r, folded b_def]
  note lmi = binvD(6) [OF inv, of r, folded b_def] and c = binvD(7) [OF inv, of r, folded b_def, unfolded cls_def]
  have bt: "b < tt_lines ?spp" using rng_bound [OF g cr(1)] .
  have np: "ppl ?spp b = ?N" by (rule linesz_ppl [OF cr(1)])
  have len: "length ?h = tt_lines ?spp" and cnt: "l_vpc (?h ! b) = card (st_in ?s PG_VALID ?L)"
    "l_ipc (?h ! b) = card (st_in ?s PG_INVALID ?L)"
    using binvD(4) [OF inv] bt cr(2) by (auto simp: lines_inv_def)
  have nf: "\<forall>x \<in> ?L. stat ?s x \<noteq> PG_FREE"
  proof
    fix x assume x: "x \<in> ?L"
    then have "windex ?spp x < ?N" using windex_bound [OF g, of x] np by (simp add: line_pages_def)
    then show "stat ?s x \<noteq> PG_FREE" using c x n by auto
  qed
  have sum: "l_vpc (?h ! b) + l_ipc (?h ! b) = ?N"
    using line_cards [OF g bt] cnt np st_in_empty [OF nf] by simp
  have i: "idx ?h b = Some (?h ! b)" using bt len by (simp add: arr_simps)
  have d: "lm_inv ?spp ?h r ?m [] (insert b V)" by (rule lm_detach_cur [OF lmi])
  have old: "\<forall>e \<in> set (full_line_list ?m). \<forall>x \<in> line_pages ?spp e. stat ?s x = PG_VALID"
    "\<forall>e \<in> set (live (pq_of ?m)). (\<forall>x \<in> line_pages ?spp e. stat ?s x \<noteq> PG_FREE) \<and> (\<exists>x \<in> line_pages ?spp e. stat ?s x = PG_INVALID)"
    using c by blast+
  show ?thesis
  proof (cases "l_vpc (?h ! b) = ?N")
    case True
    let ?m' = "?m\<lparr>full_line_list := full_line_list ?m @ [b], full_line_cnt := inc32 (full_line_cnt ?m)\<rparr>"
    have i0: "l_ipc (?h ! b) = 0" using sum True by simp
    have "st_in ?s PG_INVALID ?L = {}" using i0 cnt by simp
    then have ni: "\<forall>x \<in> ?L. stat ?s x \<noteq> PG_INVALID" by (auto simp: st_in_def)
    have "\<forall>x \<in> ?L. stat ?s x = PG_VALID"
    proof
      fix x assume "x \<in> ?L"
      then show "stat ?s x = PG_VALID" using nf ni by (cases "stat ?s x") auto
    qed
    moreover have "lm_inv ?spp ?h r ?m' [] V" by (rule lm_attach_full [OF g d cr(1,2)])
    moreover have "retire_line r ?N b cf = Some (upd_lm r (\<lambda>_. ?m') (cf\<lparr>lines := ?h\<rparr>))"
      using i True i0 by (cases r) (simp_all add: retire_line_def upd_lm_def lmof_def)
    ultimately show ?thesis using old only_pos_refl by (intro exI [of _ ?m'] exI [of _ ?h]) auto
  next
    case False
    have bl: "b < length ?h" using bt len by simp
    obtain q h' where q: "pqueue_insert (pq_of ?m) ?h b = Some (q, h')"
      "lm_inv ?spp h' r (?m\<lparr>victim_line_pq := q, victim_line_cnt := inc32 (victim_line_cnt ?m)\<rparr>) [] V"
      "set (live q) = insert b (set (live (pq_of ?m)))" "vq.only_pos (insert b (set (live (pq_of ?m)))) ?h h'"
      using lm_attach_victim [OF g d cr(1,2) bl] by blast
    let ?m' = "?m\<lparr>victim_line_pq := q, victim_line_cnt := inc32 (victim_line_cnt ?m)\<rparr>"
    have pos: "0 < l_ipc (?h ! b)" "l_vpc (?h ! b) < ?N" using sum False by linarith+
    then have "st_in ?s PG_INVALID ?L \<noteq> {}" using cnt by force
    then have "\<exists>x \<in> ?L. stat ?s x = PG_INVALID" by (auto simp: st_in_def)
    moreover have "retire_line r ?N b cf = Some (upd_lm r (\<lambda>_. ?m') (cf\<lparr>lines := h'\<rparr>))"
      using i False pos sum q(1) by (cases r) (simp_all add: retire_line_def victim_insert_def upd_lm_def lmof_def)
    ultimately show ?thesis using old q(2-4) nf by (intro exI [of _ ?m'] exI [of _ h']) auto
  qed
qed

text \<open>Everything but the flash contents, the lines, the write pointers and the mode.\<close>

definition keeps :: "conv_ftl \<Rightarrow> conv_ftl \<Rightarrow> bool" where
  "keeps cf cf' \<longleftrightarrow> cp cf' = cp cf \<and> maptbl cf' = maptbl cf \<and> rmap cf' = rmap cf \<and> wfc cf' = wfc cf \<and>
     slc_mode cf' = slc_mode cf"

lemma keeps_refl [simp]: "keeps cf cf" and keeps_trans: "keeps cf cf1 \<Longrightarrow> keeps cf1 cf2 \<Longrightarrow> keeps cf cf2"
  by (simp_all add: keeps_def)

lemma next_line_eq:
  assumes mode: "slc_mode cf = SLC_MODE" and fl: "free_line_list (lmof r cf) = x # xs"
    and x: "x < length (lines cf)" "line_id (lines cf ! x) = x" "x < blks_per_pl (spp_of cf)"
    and w: "w_ch w = 0" "w_lun w = 0" "w_pg w = 0" "w_pl w = 0" "w_blk w < blks_per_pl (spp_of cf)"
    and oth: "\<And>r'. r' \<noteq> r \<Longrightarrow> lm_inv (spp_of cf) (lines cf) r' (lmof r' cf) (cs r') V" "x \<in> rng (spp_of cf) r"
  shows "next_line (io_of r) w cf = Some (set_wp (io_of r) (w\<lparr>curline := x, w_blk := x\<rparr>)
     (upd_lm r (\<lambda>m. m\<lparr>free_line_list := removeAll x (free_line_list m), full_line_list := removeAll x (full_line_list m),
                     free_line_cnt := dec32 (free_line_cnt m)\<rparr>) (cf\<lparr>dyn_slc_mode := r\<rparr>)))"
proof -
  let ?cf = "cf\<lparr>dyn_slc_mode := r\<rparr>"
  have del: "list_del_init x ?cf = upd_lm r (\<lambda>m. m\<lparr>free_line_list := removeAll x (free_line_list m),
      full_line_list := removeAll x (full_line_list m)\<rparr>) ?cf"
    by (rule list_del_other [of r "spp_of cf" "lines cf" _ cs "\<lambda>_. V"]) (use oth in simp_all)
  have "(if slc_mode ?cf = SLC_MODE \<and> dyn_slc_mode ?cf = SLC_MODE then SLC_MODE else TLC_MODE) = r"
    using mode by (cases r) simp_all
  then have "get_next_free_line ?cf = (Some x, upd_lm r (\<lambda>m. m\<lparr>free_line_list := removeAll x (free_line_list m),
      full_line_list := removeAll x (full_line_list m), free_line_cnt := dec32 (free_line_cnt m)\<rparr>) ?cf)"
    unfolding get_next_free_line_def Let_def using fl del
    by (cases r) (simp_all add: upd_lm_def lmof_def)
  moreover have "cf\<lparr>dyn_slc_mode := (case io_of r of USER_IO \<Rightarrow> SLC_MODE | GC_IO \<Rightarrow> TLC_MODE)\<rparr> = ?cf"
    by (cases r) (simp_all add: io_of_def)
  ultimately show ?thesis
    using x w by (simp add: next_line_def check_addr_def arr_simps)
qed

lemma line_switch:
  assumes inv: "binv cf n V" and n: "n r = linesz (spp_of cf) r" and fl: "free_line_list (lmof r cf) = x # xs"
    and w: "w_ch w = 0" "w_lun w = 0" "w_pg w = 0" "w_pl w = 0" "w_blk w < tt_lines (spp_of cf)"
  shows "\<exists>cf'. do { cf \<leftarrow> retire_line r (linesz (spp_of cf) r) (curline (wpof r cf)) cf; next_line (io_of r) w cf } = Some cf' \<and>
     binv cf' (n(r := 0)) V \<and> settled cf' r = 0 \<and> free_line_list (lmof r cf') = xs \<and>
     (\<forall>r'. r' \<noteq> r \<longrightarrow> wpof r' cf' = wpof r' cf \<and> free_line_list (lmof r' cf') = free_line_list (lmof r' cf)) \<and>
     ssd cf' = ssd cf \<and> keeps cf cf' \<and> dyn_slc_mode cf' = r"
proof -
  let ?spp = "spp_of cf" and ?s = "ssd cf" and ?h = "lines cf"
  note g = binvD(3) [OF inv]
  obtain m' h' where R: "retire_line r (linesz ?spp r) (curline (wpof r cf)) cf = Some (upd_lm r (\<lambda>_. m') (cf\<lparr>lines := h'\<rparr>))"
    "lm_inv ?spp h' r m' [] V" "free_line_list m' = free_line_list (lmof r cf)"
    "vq.only_pos (set (live (pq_of m'))) ?h h'" "set (live (pq_of (lmof r cf))) \<subseteq> set (live (pq_of m'))"
    "\<forall>e \<in> set (full_line_list m'). \<forall>x \<in> line_pages ?spp e. stat ?s x = PG_VALID"
    "\<forall>e \<in> set (live (pq_of m')). (\<forall>x \<in> line_pages ?spp e. stat ?s x \<noteq> PG_FREE) \<and>
        (\<exists>x \<in> line_pages ?spp e. stat ?s x = PG_INVALID)"
    using retire_line_ok [OF inv n] by blast
  let ?c1 = "upd_lm r (\<lambda>_. m') (cf\<lparr>lines := h'\<rparr>)"
  note op = only_posD [OF R(4)]
  have len: "length ?h = tt_lines ?spp" and ids: "\<forall>b < tt_lines ?spp. line_id (?h ! b) = b"
    using binvD(4) [OF inv] by (simp_all add: lines_inv_def)
  have fl': "free_line_list m' = x # xs" using R(3) fl by simp
  have xr: "x \<in> rng ?spp r" using members_rng [OF R(2), of x] fl' by (simp add: members_def)
  have xb: "x < tt_lines ?spp" using rng_bound [OF g xr] .
  have mr: "e \<in> rng ?spp r" if "e \<in> set (live (pq_of m'))" for e
    using members_rng [OF R(2), of e] that by (simp add: members_def)
  have O: "lm_inv ?spp h' r' (lmof r' cf) [curline (wpof r' cf)] V" if "r' \<noteq> r" for r'
  proof (rule lm_inv_frame [OF binvD(6) [OF inv] op(1)])
    fix e assume e: "e \<in> set (live (pq_of (lmof r' cf)))"
    have pinv: "vq.pq_inv (pq_of (lmof r' cf)) ?h" using binvD(6) [OF inv, of r'] by (simp add: lm_inv_def)
    have "e \<in> rng ?spp r'" using members_rng [OF binvD(6) [OF inv, of r'], of e] e by (simp add: members_def)
    then have "e \<notin> set (live (pq_of m'))" using mr rng_disj that by blast
    then show "l_pos (h' ! e) = l_pos (?h ! e) \<and> l_vpc (h' ! e) = l_vpc (?h ! e)"
      using op(2,3) pq_live_bounds(1) [OF pinv e] by blast
  qed
  define m2 where "m2 = m'\<lparr>free_line_list := removeAll x (free_line_list m'), full_line_list := removeAll x (full_line_list m'),
      free_line_cnt := dec32 (free_line_cnt m')\<rparr>"
  note T = lm_take_free [OF g R(2) fl', folded m2_def]
  have m2: "free_line_list m2 = xs" "full_line_list m2 = full_line_list m'" "pq_of m2 = pq_of m'"
    using T(2,3) by (simp_all add: m2_def)
  let ?w = "w\<lparr>curline := x, w_blk := x\<rparr>"
  let ?cf = "set_wp (io_of r) ?w (upd_lm r (\<lambda>m. m\<lparr>free_line_list := removeAll x (free_line_list m),
      full_line_list := removeAll x (full_line_list m), free_line_cnt := dec32 (free_line_cnt m)\<rparr>) (?c1\<lparr>dyn_slc_mode := r\<rparr>))"
  have N: "next_line (io_of r) w ?c1 = Some ?cf"
    by (rule next_line_eq [where xs = xs and cs = "\<lambda>r. [curline (wpof r cf)]" and V = V])
      (use fl' xb op(1,2) len ids w geoD(14) [OF g] O xr binvD(1) [OF inv] in simp_all)
  have L: "lmof r' ?cf = (if r' = r then m2 else lmof r' cf)" for r' by (simp add: m2_def)
  have W: "wpof r' ?cf = (if r' = r then ?w else wpof r' cf)" for r' by simp
  have sx: "wpp ?w = mk 0 0 x 0" using w by (simp add: wpp_def)
  have wi: "windex ?spp (wpp ?w) = 0" by (simp add: sx windex_def worder_def)
  have okw: "wp_ok ?spp ?w" using w xb geo_pos(1-3) [OF g] by (simp add: wp_ok_def sx)
  have C: "cls ?s (lmof r' ?cf) (curline (wpof r' ?cf)) ((n(r := 0)) r')" for r'
  proof (cases "r' = r")
    case True
    have "\<forall>e \<in> set (x # xs). \<forall>y \<in> line_pages ?spp e. stat ?s y = PG_FREE"
      using binvD(7) [OF inv, of r] fl by (simp add: cls_def)
    moreover have "lmof r' ?cf = m2" "curline (wpof r' ?cf) = x" "(n(r := 0)) r' = 0" using L [of r'] W [of r'] True by simp_all
    ultimately show ?thesis using R(6,7) unfolding cls_def by (simp add: m2 del: lmof_simps upd_lm_simps wp_set)
  next
    case False
    then show ?thesis using binvD(7) [OF inv, of r'] by (simp add: L W)
  qed
  have P: "pos_inv h' (victims ?cf)"
    unfolding pos_inv_def
  proof (intro allI impI)
    fix e assume e: "e < length h'" "e \<notin> victims ?cf"
    then have no: "e \<notin> set (live (pq_of (if r' = r then m2 else lmof r' cf)))" for r'
      unfolding victims_ex L by blast
    have ne: "e \<notin> set (live (pq_of m'))" using no [of r] m2(3) by simp
    have "e \<notin> set (live (pq_of (lmof r' cf)))" for r' using no [of r'] ne R(5) by (cases "r' = r") auto
    then have "e \<notin> victims cf" unfolding victims_ex by blast
    then show "l_pos (h' ! e) = 0"
      using binvD(5) [OF inv] e(1) op(1) op(3) [OF _ ne] by (simp add: pos_inv_def)
  qed
  have I: "lines_inv ?s h' V"
    using binvD(4) [OF inv] op(1,2) by (simp add: lines_inv_def)
  have "binv ?cf (n(r := 0)) V"
    unfolding binv_def
  proof (intro conjI allI)
    fix r'
    show "lm_inv (spp_of ?cf) (lines ?cf) r' (lmof r' ?cf) [curline (wpof r' ?cf)] V"
      using T(1) O by (simp add: m2_def)
    show "cls (ssd ?cf) (lmof r' ?cf) (curline (wpof r' ?cf)) ((n(r := 0)) r')" using C by simp
    show "wp_ok (spp_of ?cf) (wpof r' ?cf)" using okw binvD(8) [OF inv] by simp
  qed (use binvD(1,2) [OF inv] P I in simp_all)
  moreover have "keeps cf ?cf" by (simp add: keeps_def)
  moreover have "settled ?cf r = 0" using wi by (simp add: settled_def)
  moreover have "free_line_list (lmof r ?cf) = xs" unfolding L using m2(1) by simp
  moreover have "\<forall>r'. r' \<noteq> r \<longrightarrow> wpof r' ?cf = wpof r' cf \<and> free_line_list (lmof r' ?cf) = free_line_list (lmof r' cf)"
    unfolding L W by simp
  moreover have "do { cf \<leftarrow> retire_line r (linesz ?spp r) (curline (wpof r cf)) cf; next_line (io_of r) w cf } = Some ?cf"
    using R(1) N by simp
  ultimately show ?thesis by (intro exI [of _ ?cf]) simp
qed

section \<open>Appending\<close>

text \<open>\<open>moved\<close>: how the pointer of kind \<open>r\<close> goes one page further.\<close>

definition moved :: "line_mode \<Rightarrow> conv_ftl \<Rightarrow> conv_ftl \<Rightarrow> bool" where
  "moved r cf cf' \<longleftrightarrow>
     (settled cf' r = settled cf r + 1 \<and> free_line_list (lmof r cf') = free_line_list (lmof r cf) \<or>
      settled cf' r = 0 \<and> settled cf r + 1 = linesz (spp_of cf) r \<and>
        (\<exists>x. free_line_list (lmof r cf) = x # free_line_list (lmof r cf'))) \<and>
     (\<forall>r'. r' \<noteq> r \<longrightarrow> settled cf' r' = settled cf r' \<and> free_line_list (lmof r' cf') = free_line_list (lmof r' cf)) \<and>
     spp_of cf' = spp_of cf"

lemma moved_room:
  assumes "moved r cf cf'" "settled cf r < linesz (spp_of cf) r"
  shows "room cf' r + 1 = room cf r" and "r' \<noteq> r \<Longrightarrow> room cf' r' = room cf r'"
  using assms by (auto simp: moved_def room_def)

lemma advance_ok:
  assumes inv: "binv cf n V" and n: "n = (settled cf)(r := settled cf r + 1)" and rm: "2 \<le> room cf r"
  shows "\<exists>cf'. advance_write_pointer (io_of r) cf = Some cf' \<and> binv cf' (settled cf') V \<and> ssd cf' = ssd cf \<and>
    keeps cf cf' \<and> moved r cf cf' \<and> (dyn_slc_mode cf' = dyn_slc_mode cf \<or> dyn_slc_mode cf' = r)"
  using advance_pointer [OF inv, of r]
proof (elim disjE exE conjE)
  fix w'
  let ?cf = "set_wp (io_of r) w' cf"
  assume w': "advance_write_pointer (io_of r) cf = Some ?cf" "wp_ok (spp_of cf) w'" "curline w' = curline (wpof r cf)"
    "windex (spp_of cf) (wpp w') = windex (spp_of cf) (wpp (wpof r cf)) + 1"
  have st: "settled ?cf = n" using w'(4) by (auto simp: settled_def n)
  have "binv ?cf n V"
    unfolding binv_def
  proof (intro conjI allI)
    fix r'
    have c: "curline (wpof r' ?cf) = curline (wpof r' cf)" using w'(3) by simp
    show "lm_inv (spp_of ?cf) (lines ?cf) r' (lmof r' ?cf) [curline (wpof r' ?cf)] V"
      "cls (ssd ?cf) (lmof r' ?cf) (curline (wpof r' ?cf)) (n r')"
      unfolding c using binvD(6,7) [OF inv, of r'] by simp_all
    show "wp_ok (spp_of ?cf) (wpof r' ?cf)" using w'(2) binvD(8) [OF inv] by simp
  qed (use binvD(1,2,4,5) [OF inv] in simp_all)
  moreover have "moved r cf ?cf" unfolding moved_def st by (simp add: n)
  ultimately show ?thesis using w'(1) st by (intro exI [of _ ?cf]) (simp add: keeps_def)
next
  let ?w = "(wpof r cf)\<lparr>w_ch := 0, w_lun := 0, w_pg := 0\<rparr>"
  assume l: "windex (spp_of cf) (wpp (wpof r cf)) + 1 = linesz (spp_of cf) r"
    "advance_write_pointer (io_of r) cf = do { cf \<leftarrow> retire_line r (linesz (spp_of cf) r) (curline (wpof r cf)) cf;
       next_line (io_of r) ?w cf }"
  have s: "settled cf r + 1 = linesz (spp_of cf) r" using l(1) by (simp add: settled_def)
  then have "free_line_list (lmof r cf) \<noteq> []" using rm by (auto simp: room_def)
  then obtain x xs where fl: "free_line_list (lmof r cf) = x # xs" by (cases "free_line_list (lmof r cf)") auto
  have "wp_ok (spp_of cf) (wpof r cf)" by (rule binvD(8) [OF inv])
  then have w: "w_pl ?w = 0" "w_blk ?w < tt_lines (spp_of cf)" by (auto simp: wp_ok_def wpp_def)
  obtain cf' where C: "advance_write_pointer (io_of r) cf = Some cf'" "binv cf' (n(r := 0)) V" "settled cf' r = 0"
    "free_line_list (lmof r cf') = xs"
    "\<forall>r'. r' \<noteq> r \<longrightarrow> wpof r' cf' = wpof r' cf \<and> free_line_list (lmof r' cf') = free_line_list (lmof r' cf)"
    "ssd cf' = ssd cf" "keeps cf cf'" "dyn_slc_mode cf' = r"
    using line_switch [OF inv _ fl _ _ _ w] s n l(2) by auto
  have "settled cf' = n(r := 0)" using C(3,5,6) n by (auto simp: settled_def)
  moreover have "moved r cf cf'" using C(3-6) s fl by (simp add: moved_def settled_def)
  ultimately show ?thesis using C by (intro exI [of _ cf']) simp
qed

end
