(* ===== verification/Conv_Map.thy ===== *)
theory Conv_Map
  imports Conv_Append
begin

text \<open>
  The mapping tables. \<open>minv cf D H\<close>: every mapped logical page except those of \<open>H\<close> is mapped to a
  valid page that is not in \<open>D\<close> and whose reverse entry names it, and conversely every valid page
  outside \<open>D\<close> is the page that its reverse entry's logical page is mapped to. \<open>D\<close> are the pages that a
  running collection has copied away (they are still marked valid), \<open>H\<close> the logical page that is being
  rewritten. With \<open>D\<close> and \<open>H\<close> empty the two tables are inverse bijections between the mapped logical
  pages and the valid flash pages.
\<close>

definition minv :: "conv_ftl \<Rightarrow> ppa set \<Rightarrow> nat set \<Rightarrow> bool" where
  "minv cf D H \<longleftrightarrow>
     length (maptbl cf) = tt_pgs (spp_of cf) \<and> length (rmap cf) = tt_pgs (spp_of cf) \<and>
     (\<forall>lpn < tt_pgs (spp_of cf). lpn \<notin> H \<and> mapped_ppa (maptbl cf ! lpn) \<longrightarrow>
        maptbl cf ! lpn \<in> pages (spp_of cf) \<and> stat (ssd cf) (maptbl cf ! lpn) = PG_VALID \<and>
        maptbl cf ! lpn \<notin> D \<and> rmap cf ! pgi (spp_of cf) (maptbl cf ! lpn) = lpn) \<and>
     (\<forall>a \<in> pages (spp_of cf). stat (ssd cf) a = PG_VALID \<and> a \<notin> D \<longrightarrow>
        rmap cf ! pgi (spp_of cf) a < tt_pgs (spp_of cf) \<and> rmap cf ! pgi (spp_of cf) a \<notin> H \<and>
        maptbl cf ! (rmap cf ! pgi (spp_of cf) a) = a)"

text \<open>The logical pages that have been written.\<close>

definition lpns :: "conv_ftl \<Rightarrow> nat set" where
  "lpns cf = {lpn. lpn < tt_pgs (spp_of cf) \<and> mapped_ppa (maptbl cf ! lpn)}"

text \<open>No valid page outside \<open>D\<close> claims \<open>lpn\<close>.\<close>

definition unclaimed :: "conv_ftl \<Rightarrow> ppa set \<Rightarrow> nat \<Rightarrow> bool" where
  "unclaimed cf D lpn \<longleftrightarrow> (\<forall>a \<in> pages (spp_of cf). stat (ssd cf) a = PG_VALID \<and> a \<notin> D \<longrightarrow>
     rmap cf ! pgi (spp_of cf) a \<noteq> lpn)"

lemma minv_cong:
  assumes "minv cf D H" "maptbl cf' = maptbl cf" "rmap cf' = rmap cf" "spp_of cf' = spp_of cf"
    "\<And>a. a \<in> pages (spp_of cf) \<Longrightarrow> stat (ssd cf') a = stat (ssd cf) a"
  shows "minv cf' D H"
  using assms(1,5) unfolding minv_def assms(2-4) by (metis (no_types, lifting))

lemma minv_invalidate:
  assumes inv: "minv cf D {}" and g: "geo (spp_of cf)" and lpn: "lpn < tt_pgs (spp_of cf)" "mapped_ppa (maptbl cf ! lpn)"
    and su: "stat_upd (ssd cf) (ssd cf') (maptbl cf ! lpn) PG_INVALID"
    and cf': "maptbl cf' = maptbl cf" "rmap cf' = (rmap cf)[pgi (spp_of cf) (maptbl cf ! lpn) := q]"
  shows "minv cf' D {lpn}" "unclaimed cf' D lpn"
proof -
  let ?a = "maptbl cf ! lpn" and ?spp = "spp_of cf"
  have sp: "spp_of cf' = ?spp" using su by (simp add: stat_upd_def)
  note M1 = inv [unfolded minv_def, THEN conjunct2, THEN conjunct2, THEN conjunct1, rule_format]
  note M2 = inv [unfolded minv_def, THEN conjunct2, THEN conjunct2, THEN conjunct2, rule_format]
  have a: "?a \<in> pages ?spp" "stat (ssd cf) ?a = PG_VALID" "?a \<notin> D" "rmap cf ! pgi ?spp ?a = lpn"
    using M1 [OF lpn(1)] lpn(2) by simp_all
  have st: "stat (ssd cf') x = (if x = ?a then PG_INVALID else stat (ssd cf) x)" if "x \<in> pages ?spp" for x
    using su that by (simp add: stat_upd_def)
  have rm: "rmap cf' ! pgi ?spp x = rmap cf ! pgi ?spp x" if "x \<in> pages ?spp" "x \<noteq> ?a" for x
  proof -
    have "pgi ?spp x \<noteq> pgi ?spp ?a" using pgi_inj [OF g that(1) a(1)] that(2) by blast
    then show ?thesis using cf'(2) by simp
  qed
  have A: "x \<in> pages ?spp \<and> stat (ssd cf) x = PG_VALID \<and> x \<noteq> ?a"
    if "x \<in> pages ?spp" "stat (ssd cf') x = PG_VALID" for x using st that by (auto split: if_splits)
  show "unclaimed cf' D lpn"
    unfolding unclaimed_def sp
  proof (intro ballI impI)
    fix x assume x: "x \<in> pages ?spp" "stat (ssd cf') x = PG_VALID \<and> x \<notin> D"
    then have y: "stat (ssd cf) x = PG_VALID" "x \<noteq> ?a" using A by blast+
    then have "maptbl cf ! (rmap cf ! pgi ?spp x) = x" using M2 x by blast
    then have "rmap cf ! pgi ?spp x \<noteq> lpn" using y(2) by auto
    then show "rmap cf' ! pgi ?spp x \<noteq> lpn" using rm [OF x(1) y(2)] by simp
  qed
  show "minv cf' D {lpn}"
    unfolding minv_def sp
  proof (intro conjI allI ballI impI)
    show "length (maptbl cf') = tt_pgs ?spp" "length (rmap cf') = tt_pgs ?spp" using inv cf' by (simp_all add: minv_def)
  next
    fix l assume l: "l < tt_pgs ?spp" "l \<notin> {lpn} \<and> mapped_ppa (maptbl cf' ! l)"
    then have m: "maptbl cf ! l \<in> pages ?spp" "stat (ssd cf) (maptbl cf ! l) = PG_VALID" "maptbl cf ! l \<notin> D"
      "rmap cf ! pgi ?spp (maptbl cf ! l) = l" using M1 [OF l(1)] cf'(1) by auto
    have ne: "maptbl cf ! l \<noteq> ?a" using m(4) a(4) l(2) by auto
    show "maptbl cf' ! l \<in> pages ?spp" "stat (ssd cf') (maptbl cf' ! l) = PG_VALID" "maptbl cf' ! l \<notin> D"
      "rmap cf' ! pgi ?spp (maptbl cf' ! l) = l"
      using m ne st [OF m(1)] rm [OF m(1) ne] cf'(1) by simp_all
  next
    fix x assume x: "x \<in> pages ?spp" "stat (ssd cf') x = PG_VALID \<and> x \<notin> D"
    then have y: "stat (ssd cf) x = PG_VALID" "x \<noteq> ?a" using A by blast+
    then have m: "rmap cf ! pgi ?spp x < tt_pgs ?spp" "maptbl cf ! (rmap cf ! pgi ?spp x) = x" using M2 [OF x(1)] x(2) by auto
    show "rmap cf' ! pgi ?spp x < tt_pgs ?spp" "rmap cf' ! pgi ?spp x \<notin> {lpn}" "maptbl cf' ! (rmap cf' ! pgi ?spp x) = x"
      using m y rm [OF x(1) y(2)] cf'(1) by auto
  qed
qed

text \<open>A collection starts to move the valid page \<open>old\<close>.\<close>

lemma minv_take:
  assumes inv: "minv cf D {}" and old: "old \<in> pages (spp_of cf)" "stat (ssd cf) old = PG_VALID" "old \<notin> D"
  defines "lpn \<equiv> rmap cf ! pgi (spp_of cf) old"
  shows "minv cf (insert old D) {lpn}" "unclaimed cf (insert old D) lpn" "lpn < tt_pgs (spp_of cf)" "maptbl cf ! lpn = old"
proof -
  note M1 = inv [unfolded minv_def, THEN conjunct2, THEN conjunct2, THEN conjunct1, rule_format]
  note M2 = inv [unfolded minv_def, THEN conjunct2, THEN conjunct2, THEN conjunct2, rule_format]
  show l: "lpn < tt_pgs (spp_of cf)" "maptbl cf ! lpn = old" using M2 [OF old(1)] old(2,3) by (simp_all add: lpn_def)
  show "unclaimed cf (insert old D) lpn" using M2 l(2) unfolding unclaimed_def by (metis insert_iff)
  show "minv cf (insert old D) {lpn}"
    unfolding minv_def
  proof (intro conjI allI ballI impI)
    show "length (maptbl cf) = tt_pgs (spp_of cf)" "length (rmap cf) = tt_pgs (spp_of cf)" using inv by (simp_all add: minv_def)
  next
    fix l assume a: "l < tt_pgs (spp_of cf)" "l \<notin> {lpn} \<and> mapped_ppa (maptbl cf ! l)"
    then show "maptbl cf ! l \<in> pages (spp_of cf)" "stat (ssd cf) (maptbl cf ! l) = PG_VALID"
      "rmap cf ! pgi (spp_of cf) (maptbl cf ! l) = l" using M1 by auto
    then show "maptbl cf ! l \<notin> insert old D" using M1 [OF a(1)] a(2) by (auto simp: lpn_def)
  next
    fix x assume x: "x \<in> pages (spp_of cf)" "stat (ssd cf) x = PG_VALID \<and> x \<notin> insert old D"
    then show "rmap cf ! pgi (spp_of cf) x < tt_pgs (spp_of cf)" "maptbl cf ! (rmap cf ! pgi (spp_of cf) x) = x"
      using M2 by auto
    then show "rmap cf ! pgi (spp_of cf) x \<notin> {lpn}" using l(2) x by auto
  qed
qed

text \<open>A free page becomes the page of \<open>lpn\<close>.\<close>

lemma minv_assign:
  assumes inv: "minv cf D H" and g: "geo (spp_of cf)" and lpn: "lpn < tt_pgs (spp_of cf)" "unclaimed cf D lpn"
    and a: "a \<in> pages (spp_of cf)" "stat (ssd cf) a = PG_FREE" "a \<notin> D"
    and su: "stat_upd (ssd cf) (ssd cf') a PG_VALID"
    and cf': "maptbl cf' = (maptbl cf)[lpn := a]" "rmap cf' = (rmap cf)[pgi (spp_of cf) a := lpn]"
  shows "minv cf' D (H - {lpn})" "lpns cf' = insert lpn (lpns cf)"
proof -
  let ?spp = "spp_of cf"
  have sp: "spp_of cf' = ?spp" using su by (simp add: stat_upd_def)
  note M1 = inv [unfolded minv_def, THEN conjunct2, THEN conjunct2, THEN conjunct1, rule_format]
  note M2 = inv [unfolded minv_def, THEN conjunct2, THEN conjunct2, THEN conjunct2, rule_format]
  have len: "length (maptbl cf) = tt_pgs ?spp" "length (rmap cf) = tt_pgs ?spp" using inv by (simp_all add: minv_def)
  have st: "stat (ssd cf') x = (if x = a then PG_VALID else stat (ssd cf) x)" if "x \<in> pages ?spp" for x
    using su that by (simp add: stat_upd_def)
  have rm: "rmap cf' ! pgi ?spp x = (if x = a then lpn else rmap cf ! pgi ?spp x)" if "x \<in> pages ?spp" for x
  proof (cases "x = a")
    case True
    then show ?thesis using pgi_bound [OF g a(1)] cf'(2) len by simp
  next
    case False
    then have "pgi ?spp x \<noteq> pgi ?spp a" using pgi_inj [OF g that a(1)] by blast
    then show ?thesis using cf'(2) False by simp
  qed
  have mt: "maptbl cf' ! l = (if l = lpn then a else maptbl cf ! l)" for l using cf'(1) lpn(1) len by auto
  show "lpns cf' = insert lpn (lpns cf)"
    using lpn(1) mapped_page [OF a(1) g] by (auto simp: lpns_def sp mt)
  show "minv cf' D (H - {lpn})"
    unfolding minv_def sp
  proof (intro conjI allI ballI impI)
    show "length (maptbl cf') = tt_pgs ?spp" "length (rmap cf') = tt_pgs ?spp" using len cf' by simp_all
  next
    fix l assume l: "l < tt_pgs ?spp" "l \<notin> H - {lpn} \<and> mapped_ppa (maptbl cf' ! l)"
    have "maptbl cf' ! l \<in> pages ?spp \<and> stat (ssd cf') (maptbl cf' ! l) = PG_VALID \<and> maptbl cf' ! l \<notin> D \<and>
      rmap cf' ! pgi ?spp (maptbl cf' ! l) = l"
    proof (cases "l = lpn")
      case True
      then show ?thesis using a st [OF a(1)] rm [OF a(1)] mt by simp
    next
      case False
      then have m: "maptbl cf ! l \<in> pages ?spp" "stat (ssd cf) (maptbl cf ! l) = PG_VALID" "maptbl cf ! l \<notin> D"
        "rmap cf ! pgi ?spp (maptbl cf ! l) = l" using M1 [OF l(1)] l(2) mt by auto
      then have "maptbl cf ! l \<noteq> a" using a(2) by auto
      then show ?thesis using m st [OF m(1)] rm [OF m(1)] mt False by simp
    qed
    then show "maptbl cf' ! l \<in> pages ?spp" "stat (ssd cf') (maptbl cf' ! l) = PG_VALID" "maptbl cf' ! l \<notin> D"
      "rmap cf' ! pgi ?spp (maptbl cf' ! l) = l" by simp_all
  next
    fix x assume x: "x \<in> pages ?spp" "stat (ssd cf') x = PG_VALID \<and> x \<notin> D"
    have "rmap cf' ! pgi ?spp x < tt_pgs ?spp \<and> rmap cf' ! pgi ?spp x \<notin> H - {lpn} \<and> maptbl cf' ! (rmap cf' ! pgi ?spp x) = x"
    proof (cases "x = a")
      case True
      then show ?thesis using rm [OF a(1)] lpn(1) mt by simp
    next
      case False
      then have v: "stat (ssd cf) x = PG_VALID" using st [OF x(1)] x(2) by simp
      then have "rmap cf ! pgi ?spp x \<noteq> lpn" using lpn(2) x by (auto simp: unclaimed_def)
      then show ?thesis using M2 [OF x(1)] v x(2) rm [OF x(1)] False mt by auto
    qed
    then show "rmap cf' ! pgi ?spp x < tt_pgs ?spp" "rmap cf' ! pgi ?spp x \<notin> H - {lpn}" "maptbl cf' ! (rmap cf' ! pgi ?spp x) = x"
      by simp_all
  qed
qed

section \<open>The page that is written next\<close>

lemma get_new_page_ok:
  assumes inv: "binv cf n V"
  shows "get_new_page (io_of r) cf = Some (wpp (wpof r cf))"
proof -
  note g = binvD(3) [OF inv]
  have "wpp (wpof r cf) \<in> pages (spp_of cf)" "w_pl (wpof r cf) = 0" using binvD(8) [OF inv, of r] by (auto simp: wp_ok_def)
  then have "w_ch (wpof r cf) < 2 ^ 8" "w_lun (wpof r cf) < 2 ^ 8" "w_blk (wpof r cf) < 2 ^ 16" "w_pg (wpof r cf) < 2 ^ 16"
    using geoD(2,4,16) [OF g] geo_ppb_bound [OF g, of "w_blk (wpof r cf)"] by (auto simp: wpp_def)
  moreover have "u8 0 = 0" by simp
  ultimately show ?thesis
    using \<open>w_pl (wpof r cf) = 0\<close> by (simp add: get_new_page_def Let_def zero_ppa_def wpp_def mk_def del: power_numeral)
qed

text \<open>Assigning the next page of kind \<open>r\<close> to \<open>lpn\<close>: the table updates and \<open>mark_page_valid\<close>.\<close>

lemma assign_ok:
  fixes r
  assumes inv: "binv cf (settled cf) V" and m: "minv cf D H" and lpn: "lpn < tt_pgs (spp_of cf)" "unclaimed cf D lpn"
    and D: "\<And>x. x \<in> D \<Longrightarrow> stat (ssd cf) x = PG_VALID"
  defines "a \<equiv> wpp (wpof r cf)"
  shows "\<exists>cf'. (do { cf \<leftarrow> set_maptbl_ent cf lpn a; cf \<leftarrow> set_rmap_ent cf lpn a; mark_page_valid cf a }) = Some cf' \<and>
    binv cf' ((settled cf)(r := settled cf r + 1)) V \<and> minv cf' D (H - {lpn}) \<and> lpns cf' = insert lpn (lpns cf) \<and>
    stat_upd (ssd cf) (ssd cf') a PG_VALID \<and> stat (ssd cf) a = PG_FREE \<and> settled cf' = settled cf \<and>
    (\<forall>r. lmof r cf' = lmof r cf) \<and> cp cf' = cp cf \<and> wfc cf' = wfc cf \<and> dyn_slc_mode cf' = dyn_slc_mode cf"
proof -
  let ?spp = "spp_of cf"
  note g = binvD(3) [OF inv] and cr = cur_rng [OF inv, of r, folded a_def]
  have ap: "a \<in> pages ?spp" using cr(3) by (simp add: line_pages_def)
  have fr: "stat (ssd cf) a = PG_FREE"
    using binvD(7) [OF inv, of r] cr(3) by (simp add: cls_def settled_def a_def)
  have len: "length (maptbl cf) = tt_pgs ?spp" "length (rmap cf) = tt_pgs ?spp" using m by (simp_all add: minv_def)
  define c2 where "c2 = cf\<lparr>maptbl := (maptbl cf)[lpn := a], rmap := (rmap cf)[pgi ?spp a := lpn]\<rparr>"
  have e1: "set_maptbl_ent cf lpn a = Some (cf\<lparr>maptbl := (maptbl cf)[lpn := a]\<rparr>)"
    using lpn(1) len by (simp add: set_maptbl_ent_def)
  have "ppa2pgidx (cf\<lparr>maptbl := (maptbl cf)[lpn := a]\<rparr>) a = Some (pgi ?spp a)"
    using ppa2pgidx_pages [of "cf\<lparr>maptbl := (maptbl cf)[lpn := a]\<rparr>" a] g binvD(1) [OF inv] ap by simp
  then have e2: "set_rmap_ent (cf\<lparr>maptbl := (maptbl cf)[lpn := a]\<rparr>) lpn a = Some c2"
    using pgi_bound [OF g ap] len by (simp add: set_rmap_ent_def c2_def)
  have fr2: "ssd c2 = ssd cf" "\<And>r. wpof r c2 = wpof r cf" "\<And>r. lmof r c2 = lmof r cf" by (simp_all add: c2_def)
  have set2: "settled c2 = settled cf" by (rule ext) (simp add: settled_def fr2)
  have inv2: "binv c2 (settled c2) V"
    unfolding set2 by (rule binv_cong [OF inv]) (simp_all add: c2_def)
  obtain s' h' where mv: "mark_page_valid c2 a = Some (c2\<lparr>ssd := s', lines := h'\<rparr>)"
    "binv (c2\<lparr>ssd := s', lines := h'\<rparr>) ((settled c2)(r := settled c2 r + 1)) V" "stat_upd (ssd c2) s' a PG_VALID"
    using mark_page_valid_ok [OF inv2 refl, of r] fr2(2) by (auto simp: a_def)
  let ?cf = "c2\<lparr>ssd := s', lines := h'\<rparr>"
  have su: "stat_upd (ssd cf) (ssd ?cf) a PG_VALID" using mv(3) fr2(1) by simp
  have "a \<notin> D" using D fr by force
  then have M: "minv ?cf D (H - {lpn})" "lpns ?cf = insert lpn (lpns cf)"
    using minv_assign [OF m g lpn ap fr _ su] by (simp_all add: c2_def)
  have sp: "sp s' = ?spp" using su by (simp add: stat_upd_def)
  have st: "settled ?cf = settled cf" by (rule ext) (simp add: settled_def fr2 sp)
  show ?thesis
    using e1 e2 mv(1) mv(2) [unfolded set2] M su fr st by (intro exI [of _ ?cf]) (simp add: c2_def)
qed

end
