(* ===== verification/Conv_Gc.thy ===== *)
theory Conv_Gc
  imports Conv_Map
begin

text \<open>
  Garbage collection and migration. A victim line \<open>v\<close> is read flash page by flash page over all dies;
  its valid pages are appended at the GC write pointer and the tables redirected; after the last
  flash page of a block the block is erased; at the end the line goes to its free list. Shown: when
  the TLC lines have room for the valid pages of the victim, \<open>do_gc\<close> runs without violating an
  assertion, keeps the invariant, loses no mapping and gives back the whole victim line.
\<close>

section \<open>Timing commands\<close>

lemma advance_nand_ok:
  assumes inv: "binv cf n V" and a: "nc_ppa ncmd \<in> pages (spp_of cf)"
    and cmd: "nc_cmd ncmd \<in> {NAND_READ, NAND_WRITE, NAND_ERASE, NAND_NOP}"
      "nc_cmd ncmd = NAND_READ \<Longrightarrow> nc_xfer_size ncmd \<noteq> 0"
  shows "\<exists>t s'. advance_nand cf ncmd = Some (t, cf\<lparr>ssd := s'\<rparr>) \<and> tm_keep (ssd cf) s' \<and> nc_stime ncmd \<le> t"
proof -
  have "tm_inv (ssd cf)" using binvD(2) [OF inv] by (simp add: nand_inv_def)
  then obtain t s' where "ssd_advance_nand (ssd cf) ncmd = Some (t, s')" "tm_keep (ssd cf) s'" "nc_stime ncmd \<le> t"
    using ssd_advance_nand_safe [OF _ nand_lun [OF binvD(2) [OF inv] a] cmd(2,1)] by blast
  then show ?thesis by (intro exI [of _ t] exI [of _ s']) (simp add: advance_nand_def)
qed

lemma timing_frame:
  assumes "tm_keep (ssd cf) s'"
  shows "settled (cf\<lparr>ssd := s'\<rparr>) = settled cf" "room (cf\<lparr>ssd := s'\<rparr>) = room cf" "stat s' = stat (ssd cf)"
    "minv cf D H \<Longrightarrow> minv (cf\<lparr>ssd := s'\<rparr>) D H" "lpns (cf\<lparr>ssd := s'\<rparr>) = lpns cf" "sp s' = spp_of cf"
proof -
  show sp: "sp s' = spp_of cf" and st: "stat s' = stat (ssd cf)" using assms stat_same_nand tm_keepD by blast+
  show se: "settled (cf\<lparr>ssd := s'\<rparr>) = settled cf" by (rule ext) (simp add: settled_def sp)
  show "room (cf\<lparr>ssd := s'\<rparr>) = room cf" by (rule ext) (simp add: room_def sp se)
  show "minv cf D H \<Longrightarrow> minv (cf\<lparr>ssd := s'\<rparr>) D H" by (erule minv_cong) (simp_all add: sp st)
  show "lpns (cf\<lparr>ssd := s'\<rparr>) = lpns cf" by (simp add: lpns_def sp)
qed

text \<open>What a collection leaves as it is.\<close>

definition gcf :: "conv_ftl \<Rightarrow> conv_ftl \<Rightarrow> bool" where
  "gcf cf cf' \<longleftrightarrow> spp_of cf' = spp_of cf \<and> cp cf' = cp cf \<and> wfc cf' = wfc cf \<and> lpns cf' = lpns cf \<and>
     settled cf' SLC_MODE = settled cf SLC_MODE \<and>
     free_line_list (lmof SLC_MODE cf') = free_line_list (lmof SLC_MODE cf) \<and>
     (dyn_slc_mode cf' = dyn_slc_mode cf \<or> dyn_slc_mode cf' = TLC_MODE)"

lemma gcf_refl [simp]: "gcf cf cf" and gcf_trans: "gcf cf cf1 \<Longrightarrow> gcf cf1 cf2 \<Longrightarrow> gcf cf cf2"
  by (auto simp: gcf_def)

lemma gcf_timing: "tm_keep (ssd cf) s' \<Longrightarrow> gcf cf (cf\<lparr>ssd := s'\<rparr>)"
  using timing_frame [of cf s'] by (simp add: gcf_def)

section \<open>Moving one page\<close>

lemma gc_write_page_ok:
  assumes inv: "binv cf (settled cf) V" and m: "minv cf D {}" and old: "old \<in> pages (spp_of cf)"
      "stat (ssd cf) old = PG_VALID" "old \<notin> D"
    and D: "\<And>x. x \<in> D \<Longrightarrow> stat (ssd cf) x = PG_VALID" and rm: "2 \<le> room cf TLC_MODE"
  shows "\<exists>cf'. gc_write_page cf old = Some cf' \<and> binv cf' (settled cf') V \<and> minv cf' (insert old D) {} \<and> gcf cf cf' \<and>
    stat_upd (ssd cf) (ssd cf') (wpp (wpof TLC_MODE cf)) PG_VALID \<and> stat (ssd cf) (wpp (wpof TLC_MODE cf)) = PG_FREE \<and>
    room cf' TLC_MODE + 1 = room cf TLC_MODE"
proof -
  let ?spp = "spp_of cf" and ?a = "wpp (wpof TLC_MODE cf)" and ?lpn = "rmap cf ! pgi (spp_of cf) old"
  note g = binvD(3) [OF inv]
  note T = minv_take [OF m old]
  have D': "x \<in> insert old D \<Longrightarrow> stat (ssd cf) x = PG_VALID" for x using D old(2) by auto
  have ap: "?a \<in> pages ?spp" using binvD(8) [OF inv, of TLC_MODE] by (simp add: wp_ok_def)
  have rme: "get_rmap_ent cf old = Some ?lpn"
    using ppa2pgidx_pages [OF g binvD(1) [OF inv] old(1)] pgi_bound [OF g old(1)] m
    by (simp add: get_rmap_ent_def arr_simps minv_def)
  have nw: "get_new_page GC_IO cf = Some ?a" using get_new_page_ok [OF inv, of TLC_MODE] by (simp add: io_of_def)
  obtain c1 where c1: "(do { cf \<leftarrow> set_maptbl_ent cf ?lpn ?a; cf \<leftarrow> set_rmap_ent cf ?lpn ?a; mark_page_valid cf ?a }) = Some c1"
    "binv c1 ((settled cf)(TLC_MODE := settled cf TLC_MODE + 1)) V" "minv c1 (insert old D) {}"
    "lpns c1 = insert ?lpn (lpns cf)" "stat_upd (ssd cf) (ssd c1) ?a PG_VALID" "stat (ssd cf) ?a = PG_FREE"
    "settled c1 = settled cf" "\<And>r. lmof r c1 = lmof r cf" "cp c1 = cp cf" "wfc c1 = wfc cf" "dyn_slc_mode c1 = dyn_slc_mode cf"
    using assign_ok [OF inv T(1,3,2) D', of TLC_MODE] by auto
  have sp1: "spp_of c1 = ?spp" using c1(5) by (simp add: stat_upd_def)
  let ?c1 = "c1\<lparr>copy_cnt := u64 (copy_cnt c1 + 1)\<rparr>"
  have r1: "room c1 = room cf" by (rule ext) (simp add: room_def sp1 c1(7,8))
  have s1: "settled ?c1 = settled c1" "room ?c1 = room cf"
    unfolding r1 [symmetric] by (rule ext, simp add: settled_def, rule ext, simp add: room_def settled_def)
  have b1: "binv ?c1 ((settled ?c1)(TLC_MODE := settled ?c1 TLC_MODE + 1)) V"
    unfolding s1(1) c1(7) by (rule binv_cong [OF c1(2)]) simp_all
  obtain c2 where c2: "advance_write_pointer (io_of TLC_MODE) ?c1 = Some c2" "binv c2 (settled c2) V" "ssd c2 = ssd ?c1"
    "keeps ?c1 c2" "moved TLC_MODE ?c1 c2" "dyn_slc_mode c2 = dyn_slc_mode ?c1 \<or> dyn_slc_mode c2 = TLC_MODE"
    using advance_ok [OF b1 refl] rm s1(2) by auto
  have k2: "cp c2 = cp c1" "maptbl c2 = maptbl c1" "rmap c2 = rmap c1" "wfc c2 = wfc c1" "ssd c2 = ssd c1"
    using c2(3,4) by (simp_all add: keeps_def)
  have M2: "minv c2 (insert old D) {}" by (rule minv_cong [OF c1(3)]) (simp_all add: k2)
  have "?lpn \<in> lpns cf" using T(3,4) mapped_page [OF old(1) g] by (simp add: lpns_def)
  moreover have "lpns c2 = lpns c1" by (simp add: lpns_def k2)
  ultimately have L2: "lpns c2 = lpns cf" using c1(4) by (simp add: insert_absorb)
  have mv: "settled c2 SLC_MODE = settled cf SLC_MODE" "free_line_list (lmof SLC_MODE c2) = free_line_list (lmof SLC_MODE cf)"
    using c2(5) s1(1) c1(7,8) by (simp_all add: moved_def)
  have bd: "settled ?c1 TLC_MODE < linesz (spp_of ?c1) TLC_MODE"
    using settled_bound [OF inv, of TLC_MODE] s1(1) c1(7) sp1 by simp
  have R2: "room c2 TLC_MODE + 1 = room cf TLC_MODE" using moved_room(1) [OF c2(5) bd] s1(2) by simp
  have G2: "gcf cf c2" using k2 L2 mv sp1 c1(9-11) c2(6) by (simp add: gcf_def)
  have ap2: "?a \<in> pages (spp_of c2)" using ap k2(5) sp1 by simp
  let ?gcw = "if last_pg_in_wordline c2 ?a then gc_cmd GC_IO NAND_WRITE (pgsz (spp_of c2) * pgs_per_oneshotpg (spp_of c2)) ?a
     else gc_cmd GC_IO NAND_NOP 0 ?a"
  obtain t s' where n: "advance_nand c2 ?gcw = Some (t, c2\<lparr>ssd := s'\<rparr>)" "tm_keep (ssd c2) s'"
  proof -
    have "nc_ppa ?gcw \<in> pages (spp_of c2)" "nc_cmd ?gcw \<in> {NAND_READ, NAND_WRITE, NAND_ERASE, NAND_NOP}" "nc_cmd ?gcw \<noteq> NAND_READ"
      using ap2 by (simp_all add: gc_cmd_def NAND_READ_def NAND_WRITE_def NAND_NOP_def)
    then show ?thesis using that advance_nand_ok [OF c2(2), of ?gcw] by blast
  qed
  have pre: "gc_write_page cf old = (if enable_gc_delay (cp c2) then do { (_, cf) \<leftarrow> advance_nand c2 ?gcw; Some cf } else Some c2)"
  proof -
    obtain x y where "set_maptbl_ent cf ?lpn ?a = Some x" "set_rmap_ent x ?lpn ?a = Some y" "mark_page_valid y ?a = Some c1"
      using c1(1) by (auto simp: bind_eq_Some_conv)
    then show ?thesis using rme nw T(3) c2(1) by (simp add: gc_write_page_def valid_lpn_def io_of_def)
  qed
  show ?thesis
  proof (cases "enable_gc_delay (cp c2)")
    case True
    let ?c3 = "c2\<lparr>ssd := s'\<rparr>"
    note F = timing_frame [OF n(2)]
    have "binv ?c3 (settled ?c3) V" unfolding F(1) by (rule binv_timing [OF c2(2) n(2)])
    moreover have "stat_upd (ssd cf) (ssd ?c3) ?a PG_VALID" using c1(5) k2(5) F(3,6) by (simp add: stat_upd_def)
    moreover have "gcf cf ?c3" using G2 gcf_timing [OF n(2)] gcf_trans by blast
    ultimately show ?thesis
      using pre True n(1) F(2,4) M2 R2 c1(6) by (intro exI [of _ ?c3]) simp
  next
    case False
    then show ?thesis using pre c2(2) M2 G2 R2 c1(5,6) k2(5) by (intro exI [of _ c2]) simp
  qed
qed

section \<open>Invariant of a collection\<close>

text \<open>\<open>P\<close>: the pages of the victim that have been processed, \<open>Fr\<close>: those of its erased blocks. \<open>K\<close> is the
  room that will be left when all valid pages of the victim have been moved.\<close>

definition ginv :: "conv_ftl \<Rightarrow> nat \<Rightarrow> ppa set \<Rightarrow> ppa set \<Rightarrow> nat \<Rightarrow> bool" where
  "ginv cf v P Fr K \<longleftrightarrow> binv cf (settled cf) {v} \<and>
     minv cf (st_in (ssd cf) PG_VALID (line_pages (spp_of cf) v \<inter> P)) {} \<and>
     (\<forall>x \<in> line_pages (spp_of cf) v. stat (ssd cf) x = PG_FREE \<longleftrightarrow> x \<in> Fr) \<and> Fr \<subseteq> P \<and> 1 \<le> K \<and>
     room cf TLC_MODE = K + card (st_in (ssd cf) PG_VALID (line_pages (spp_of cf) v - P))"

lemma ginvD:
  assumes "ginv cf v P Fr K"
  shows "binv cf (settled cf) {v}" "minv cf (st_in (ssd cf) PG_VALID (line_pages (spp_of cf) v \<inter> P)) {}"
    "x \<in> line_pages (spp_of cf) v \<Longrightarrow> stat (ssd cf) x = PG_FREE \<longleftrightarrow> x \<in> Fr" "Fr \<subseteq> P" "1 \<le> K"
    "room cf TLC_MODE = K + card (st_in (ssd cf) PG_VALID (line_pages (spp_of cf) v - P))"
  using assms by (auto simp: ginv_def)

lemma ginv_skip:
  assumes "ginv cf v P Fr K" "\<And>x. x \<in> S \<Longrightarrow> x \<in> line_pages (spp_of cf) v \<Longrightarrow> stat (ssd cf) x \<noteq> PG_VALID"
  shows "ginv cf v (P \<union> S) Fr K"
proof -
  have "st_in (ssd cf) PG_VALID (line_pages (spp_of cf) v \<inter> (P \<union> S)) = st_in (ssd cf) PG_VALID (line_pages (spp_of cf) v \<inter> P)"
    "st_in (ssd cf) PG_VALID (line_pages (spp_of cf) v - (P \<union> S)) = st_in (ssd cf) PG_VALID (line_pages (spp_of cf) v - P)"
    using assms(2) by (auto simp: st_in_def)
  then show ?thesis using assms(1) unfolding ginv_def by auto
qed

lemma ginv_timing:
  assumes "ginv cf v P Fr K" "tm_keep (ssd cf) s'"
  shows "ginv (cf\<lparr>ssd := s'\<rparr>) v P Fr K"
  using assms(1) binv_timing [OF ginvD(1) [OF assms(1)] assms(2)] timing_frame(4) [OF assms(2) ginvD(2) [OF assms(1)]]
  by (simp add: ginv_def timing_frame(1,2,3,6) [OF assms(2)] st_in_def)

lemma move_page_ok:
  assumes gi: "ginv cf v P Fr K" and x: "pg_off a i \<in> line_pages (spp_of cf) v" "pg_off a i \<notin> P"
  shows "\<exists>cf'. move_page a i cf = Some cf' \<and> ginv cf' v (insert (pg_off a i) P) Fr K \<and> gcf cf cf'"
proof -
  let ?x = "pg_off a i" and ?spp = "spp_of cf" and ?L = "line_pages (spp_of cf) v"
  note inv = ginvD(1) [OF gi]
  have xp: "?x \<in> pages ?spp" using x(1) by (simp add: line_pages_def)
  obtain blk pg where pg: "get_pg (ssd cf) ?x = Some pg" "status pg = stat (ssd cf) ?x"
    using nand_page [OF binvD(2) [OF inv] xp] by metis
  show ?thesis
  proof (cases "stat (ssd cf) ?x = PG_VALID")
    case False
    then have "ginv cf v (P \<union> {?x}) Fr K" by (intro ginv_skip [OF gi]) auto
    then show ?thesis using pg False by (intro exI [of _ cf]) (simp add: move_page_def)
  next
    case True
    let ?D = "st_in (ssd cf) PG_VALID (?L \<inter> P)"
    have fin: "finite (st_in (ssd cf) q (?L - Q))" for q Q
      by (rule finite_subset [OF _ finite_line_pages [of ?spp v]]) (auto simp: st_in_def)
    have "?x \<in> st_in (ssd cf) PG_VALID (?L - P)" using x True by (simp add: st_in_def)
    then have c: "card (st_in (ssd cf) PG_VALID (?L - P)) = card (st_in (ssd cf) PG_VALID (?L - insert ?x P)) + 1"
    proof -
      have "st_in (ssd cf) PG_VALID (?L - P) = insert ?x (st_in (ssd cf) PG_VALID (?L - insert ?x P))"
        using x True by (auto simp: st_in_def)
      moreover have "?x \<notin> st_in (ssd cf) PG_VALID (?L - insert ?x P)" by (simp add: st_in_def)
      ultimately show ?thesis using fin by simp
    qed
    then have rm: "2 \<le> room cf TLC_MODE" using ginvD(5,6) [OF gi] by linarith
    have D: "?x \<notin> ?D" "\<And>y. y \<in> ?D \<Longrightarrow> stat (ssd cf) y = PG_VALID" using x(2) by (auto simp: st_in_def)
    obtain cf' where W: "gc_write_page cf ?x = Some cf'" "binv cf' (settled cf') {v}" "minv cf' (insert ?x ?D) {}" "gcf cf cf'"
      "stat_upd (ssd cf) (ssd cf') (wpp (wpof TLC_MODE cf)) PG_VALID" "room cf' TLC_MODE + 1 = room cf TLC_MODE"
      using gc_write_page_ok [OF inv ginvD(2) [OF gi] xp True D rm] by blast
    have sp: "spp_of cf' = ?spp" using W(5) by (simp add: stat_upd_def)
    have "wpp (wpof TLC_MODE cf) \<notin> ?L" using cur_rng(2,3) [OF inv, of TLC_MODE] by (auto simp: line_pages_def)
    then have st: "stat (ssd cf') y = stat (ssd cf) y" if "y \<in> ?L" for y
      using W(5) that by (auto simp: stat_upd_def line_pages_def)
    have "insert ?x ?D = st_in (ssd cf') PG_VALID (?L \<inter> insert ?x P)"
      using x(1) True st by (auto simp: st_in_def)
    moreover have "st_in (ssd cf') PG_VALID (?L - insert ?x P) = st_in (ssd cf) PG_VALID (?L - insert ?x P)"
      using st by (auto simp: st_in_def)
    moreover have "room cf' TLC_MODE = K + card (st_in (ssd cf) PG_VALID (?L - insert ?x P))"
      using W(6) c ginvD(6) [OF gi] by simp
    ultimately have "ginv cf' v (insert ?x P) Fr K"
      using W(2,3) st ginvD(3,4,5) [OF gi] by (auto simp: ginv_def sp)
    moreover have "move_page a i cf = Some cf'" using pg True W(1) by (simp add: move_page_def)
    ultimately show ?thesis using W(4) by blast
  qed
qed

lemma count_valid_ok:
  assumes gi: "ginv cf v P Fr K" and x: "\<And>i. i < pgs_per_flashpg (spp_of cf) \<Longrightarrow> pg_off a i \<in> line_pages (spp_of cf) v - P"
  shows "\<exists>n. count_valid cf a = Some n \<and>
    (n = 0 \<longrightarrow> (\<forall>i < pgs_per_flashpg (spp_of cf). stat (ssd cf) (pg_off a i) \<noteq> PG_VALID))"
proof -
  let ?k = "pgs_per_flashpg (spp_of cf)" and ?Q = "\<lambda>ys n. n = 0 \<longrightarrow> (\<forall>i \<in> set ys. stat (ssd cf) (pg_off a i) \<noteq> PG_VALID)"
  have "\<exists>n. count_valid cf a = Some n \<and> ?Q [0..<?k] n"
    unfolding count_valid_def
  proof (rule foldM_total [where P = ?Q])
    fix ys i zs and n :: nat
    assume "[0..<?k] = ys @ i # zs" and q: "?Q ys n"
    then have "i < ?k" by (metis atLeastLessThan_iff in_set_conv_decomp set_upt)
    note xi = x [OF this]
    obtain blk pg where pg: "get_pg (ssd cf) (pg_off a i) = Some pg" "status pg = stat (ssd cf) (pg_off a i)"
      using nand_page [OF binvD(2) [OF ginvD(1) [OF gi]], of "pg_off a i"] xi by (metis DiffD1 line_pages_def mem_Collect_eq)
    have "stat (ssd cf) (pg_off a i) \<noteq> PG_FREE" using ginvD(3,4) [OF gi] xi by blast
    then show "\<exists>n'. (do { p \<leftarrow> get_pg (ssd cf) (pg_off a i); NVMEV_ASSERT (status p \<noteq> PG_FREE);
        Some (if status p = PG_VALID then n + 1 else n) }) = Some n' \<and> ?Q (ys @ [i]) n'"
      using pg q by auto
  qed simp
  then show ?thesis by auto
qed

lemma move_pages_ok:
  assumes gi: "ginv cf v P Fr K" and x: "\<And>i. i < k \<Longrightarrow> pg_off a i \<in> line_pages (spp_of cf) v - P"
    and inj: "inj_on (pg_off a) {..<k}"
  shows "\<exists>cf'. foldM (move_page a) [0..<k] cf = Some cf' \<and> ginv cf' v (P \<union> pg_off a ` {..<k}) Fr K \<and> gcf cf cf'"
proof -
  let ?Q = "\<lambda>ys c. ginv c v (P \<union> pg_off a ` set ys) Fr K \<and> gcf cf c"
  have "\<exists>cf'. foldM (move_page a) [0..<k] cf = Some cf' \<and> ?Q [0..<k] cf'"
  proof (rule foldM_total [where P = ?Q])
    show "?Q [] cf" using gi by simp
    fix ys i zs c
    assume e: "[0..<k] = ys @ i # zs" and q: "?Q ys c"
    have i: "i < k" "set ys \<subseteq> {..<k}" using arg_cong [OF e, of set] by auto
    have "distinct (ys @ i # zs)" using e by (metis distinct_upt)
    then have "pg_off a i \<notin> pg_off a ` set ys" using inj i by (auto dest: inj_onD)
    moreover have "spp_of c = spp_of cf" using q by (simp add: gcf_def)
    ultimately obtain c' where "move_page a i c = Some c'" "ginv c' v (insert (pg_off a i) (P \<union> pg_off a ` set ys)) Fr K" "gcf c c'"
      using move_page_ok [of c v "P \<union> pg_off a ` set ys" Fr K a i] q x [OF i(1)] by auto
    then show "\<exists>c'. move_page a i c = Some c' \<and> ?Q (ys @ [i]) c'" using q gcf_trans by auto
  qed
  then show ?thesis by (simp add: atLeast0LessThan)
qed

lemma clean_one_flashpg_ok:
  assumes gi: "ginv cf v P Fr K" and x: "\<And>i. i < pgs_per_flashpg (spp_of cf) \<Longrightarrow> pg_off a i \<in> line_pages (spp_of cf) v - P"
    and inj: "inj_on (pg_off a) {..<pgs_per_flashpg (spp_of cf)}"
    and a: "pg_off a 0 = a" and dyn: "dyn_slc_mode cf = SLC_MODE \<Longrightarrow> v < tt_lines_slc (spp_of cf)"
  shows "\<exists>cf'. clean_one_flashpg cf a = Some cf' \<and> ginv cf' v (P \<union> pg_off a ` {..<pgs_per_flashpg (spp_of cf)}) Fr K \<and> gcf cf cf'"
proof -
  let ?k = "pgs_per_flashpg (spp_of cf)" and ?io = "if slc_mode cf = SLC_MODE \<and> dyn_slc_mode cf = SLC_MODE then USER_IO else GC_IO"
  note inv = ginvD(1) [OF gi] and g = binvD(3) [OF ginvD(1) [OF gi]]
  have "a \<in> line_pages (spp_of cf) v" using x [of 0] geo_pos(6) [OF g] a by simp
  then have ap: "a \<in> pages (spp_of cf)" and av: "p_blk a = v" by (simp_all add: line_pages_def)
  obtain n where n: "count_valid cf a = Some n" "n = 0 \<longrightarrow> (\<forall>i < ?k. stat (ssd cf) (pg_off a i) \<noteq> PG_VALID)"
    using count_valid_ok [OF gi x] by blast
  have as: "slc_mode cf = SLC_MODE \<and> dyn_slc_mode cf = SLC_MODE \<longrightarrow> p_blk a < tt_lines_slc (spp_of cf)" using dyn av by simp
  show ?thesis
  proof (cases "n = 0")
    case True
    have "ginv cf v (P \<union> pg_off a ` {..<?k}) Fr K" by (rule ginv_skip [OF gi]) (use n(2) True in auto)
    then show ?thesis using n(1) True as by (intro exI [of _ cf]) (simp add: clean_one_flashpg_def Let_def)
  next
    case False
    let ?rd = "gc_cmd ?io NAND_READ (pgsz (spp_of cf) * n) a"
    obtain t s' where r: "advance_nand cf ?rd = Some (t, cf\<lparr>ssd := s'\<rparr>)" "tm_keep (ssd cf) s'"
      using advance_nand_ok [OF inv, of ?rd] ap False geo_pos(7) [OF g] by (auto simp: gc_cmd_def)
    define c1 where "c1 = (if enable_gc_delay (cp cf) then cf\<lparr>ssd := s'\<rparr> else cf)"
    have c1: "ginv c1 v P Fr K" "gcf cf c1" "spp_of c1 = spp_of cf"
      using gi ginv_timing [OF gi r(2)] gcf_timing [OF r(2)] timing_frame(6) [OF r(2)] by (simp_all add: c1_def)
    obtain cf' where m: "foldM (move_page a) [0..<?k] c1 = Some cf'" "ginv cf' v (P \<union> pg_off a ` {..<?k}) Fr K" "gcf c1 cf'"
      using move_pages_ok [OF c1(1), of ?k a] x inj c1(3) by auto
    have "clean_one_flashpg cf a = Some cf'"
      using n(1) False as r(1) m(1) timing_frame(6) [OF r(2)]
      by (cases "enable_gc_delay (cp cf)") (simp_all add: clean_one_flashpg_def Let_def c1_def)
    then show ?thesis using m(2,3) c1(2) gcf_trans by blast
  qed
qed

section \<open>Erasing a block\<close>

lemma free_pages_ok:
  assumes "\<forall>p \<in> set (pgs blk). nsecs p = secs_per_pg spp"
  shows "free_pages spp (length (pgs blk)) blk = Some (blk\<lparr>pgs := map (\<lambda>p. p\<lparr>status := PG_FREE\<rparr>) (pgs blk)\<rparr>)"
proof -
  let ?f = "\<lambda>p :: nand_page. p\<lparr>status := PG_FREE\<rparr>"
  let ?Q = "\<lambda>ys b. b = blk\<lparr>pgs := map ?f (take (length ys) (pgs blk)) @ drop (length ys) (pgs blk)\<rparr>"
  have "\<exists>b. free_pages spp (length (pgs blk)) blk = Some b \<and> ?Q [0..<length (pgs blk)] b"
    unfolding free_pages_def
  proof (rule foldM_total [where P = ?Q])
    fix ys i zs and b :: nand_block
    assume e: "[0..<length (pgs blk)] = ys @ i # zs" and q: "?Q ys b"
    have l: "length ys < length (pgs blk)" using arg_cong [OF e, of length] by simp
    have "[0..<length (pgs blk)] ! length ys = i" unfolding e by simp
    then have i: "i = length ys" "i < length (pgs blk)" using l by simp_all
    have "nsecs (pgs blk ! i) = secs_per_pg spp" using assms i(2) by simp
    moreover have "(map ?f (take i (pgs blk)) @ drop i (pgs blk))[i := ?f (pgs blk ! i)] =
        map ?f (take (Suc i) (pgs blk)) @ drop (Suc i) (pgs blk)"
      using i(2) by (simp add: list_update_append take_Suc_conv_app_nth Cons_nth_drop_Suc [symmetric] list_update_length)
    ultimately show "\<exists>b'. (do { pg \<leftarrow> idx (pgs b) i; NVMEV_ASSERT (nsecs pg = secs_per_pg spp);
        Some (b\<lparr>pgs := modl (pgs b) i ?f\<rparr>) }) = Some b' \<and> ?Q (ys @ [i]) b'"
      using q i by (simp add: arr_simps nth_append modl_def)
  qed simp
  then show ?thesis by simp
qed

definition erased :: "ssd \<Rightarrow> ssd \<Rightarrow> ppa \<Rightarrow> bool" where
  "erased s s' a \<longleftrightarrow> sp s' = sp s \<and>
     (\<forall>x \<in> pages (sp s). stat s' x = (if x \<in> blk_pages (sp s) a then PG_FREE else stat s x))"

lemma nand_erase:
  fixes n
  assumes inv: "nand_inv s" and a: "a \<in> pages (sp s)" and b: "get_blk s a = Some blk"
  defines "s' \<equiv> upd_blk (\<lambda>_. blk\<lparr>pgs := map (\<lambda>p. p\<lparr>status := PG_FREE\<rparr>) (pgs blk), ipc := 0, vpc := 0, erase_cnt := n\<rparr>) s a"
  shows "nand_inv s'" "erased s s' a"
proof -
  let ?b = "blk\<lparr>pgs := map (\<lambda>p. p\<lparr>status := PG_FREE\<rparr>) (pgs blk), ipc := 0, vpc := 0, erase_cnt := n\<rparr>"
  have sp: "sp s' = sp s" by (simp add: s'_def)
  have ok: "blk_ok s a blk" using nand_page [OF inv a] b by (metis option.inject)
  have gb: "get_blk s' x = (if same_blk a x then Some ?b else get_blk s x)" for x
    using b by (simp add: s'_def get_blk_upd)
  show er: "erased s s' a"
    unfolding erased_def
  proof (intro conjI ballI sp)
    fix x assume x: "x \<in> pages (sp s)"
    show "stat s' x = (if x \<in> blk_pages (sp s) a then PG_FREE else stat s x)"
    proof (cases "same_blk a x")
      case True
      then have "p_pg x < length (pgs blk)" using ok x by (auto simp: blk_ok_def pages_def same_blk_def)
      then show ?thesis using True x by (simp add: stat_def get_pg_def gb arr_simps blk_pages_def)
    next
      case False
      then show ?thesis by (simp add: stat_def get_pg_def gb blk_pages_def)
    qed
  qed
  show "nand_inv s'"
    unfolding nand_inv_def sp
  proof (intro conjI ballI)
    show "geo (sp s)" "tm_inv s'" using inv by (simp_all add: nand_inv_def s'_def)
    fix x assume x: "x \<in> pages (sp s)"
    show "\<exists>blk. get_blk s' x = Some blk \<and> blk_ok s' x blk"
    proof (cases "same_blk a x")
      case True
      then have eq: "blk_pages (sp s) x = blk_pages (sp s) a" "p_blk x = p_blk a"
        by (auto simp: blk_pages_def same_blk_def same_lun_def)
      have "st_in s' q (blk_pages (sp s) a) = {}" if "q \<noteq> PG_FREE" for q
        using er that pages_sub(2) [of "sp s" a] by (auto simp: st_in_def erased_def)
      then have "blk_ok s' x ?b" using ok sp by (simp add: blk_ok_def eq)
      then show ?thesis using True gb by simp
    next
      case False
      then have "x' \<notin> blk_pages (sp s) a" if "x' \<in> blk_pages (sp s) x" for x'
        using that by (auto simp: blk_pages_def same_blk_def same_lun_def)
      then have "st_in s' q (blk_pages (sp s) x) = st_in s q (blk_pages (sp s) x)" for q
        using er pages_sub(2) [of "sp s" x] by (auto simp: st_in_def erased_def subset_iff)
      moreover obtain blk' where "get_blk s x = Some blk'" "blk_ok s x blk'" using nand_page [OF inv x] by blast
      ultimately show ?thesis using False gb sp by (simp add: blk_ok_def)
    qed
  qed
qed

text \<open>The flash changes on pages of lines of \<open>V\<close> only.\<close>

lemma binv_nand_frame:
  assumes inv: "binv cf n V" and s': "nand_inv s'" "sp s' = spp_of cf"
    and st: "\<And>b x. b < tt_lines (spp_of cf) \<Longrightarrow> b \<notin> V \<Longrightarrow> x \<in> line_pages (spp_of cf) b \<Longrightarrow> stat s' x = stat (ssd cf) x"
  shows "binv (cf\<lparr>ssd := s'\<rparr>) n V"
proof -
  note g = binvD(3) [OF inv]
  have eq: "st_in s' q (line_pages (spp_of cf) b) = st_in (ssd cf) q (line_pages (spp_of cf) b)"
    if "b < tt_lines (spp_of cf)" "b \<notin> V" for q b using st [OF that] by (auto simp: st_in_def)
  have L: "lines_inv s' (lines cf) V" using binvD(4) [OF inv] s'(2) by (simp add: lines_inv_def eq)
  have "cls s' (lmof r cf) (curline (wpof r cf)) (n r)" for r
  proof -
    have m: "stat s' x = stat (ssd cf) x"
      if "b \<in> set (members (lmof r cf) [curline (wpof r cf)])" "x \<in> line_pages (spp_of cf) b" for x b
      using st [OF _ _ that(2)] members_rng [OF binvD(6) [OF inv] that(1)] rng_bound [OF g] by blast
    have "stat s' x = stat (ssd cf) x" if "b \<in> set (free_line_list (lmof r cf))" "x \<in> line_pages (spp_of cf) b" for x b
      using m [OF _ that(2)] that(1) by (simp add: members_def)
    moreover have "stat s' x = stat (ssd cf) x" if "b \<in> set (full_line_list (lmof r cf))" "x \<in> line_pages (spp_of cf) b" for x b
      using m [OF _ that(2)] that(1) by (simp add: members_def)
    moreover have "stat s' x = stat (ssd cf) x" if "b \<in> set (live (pq_of (lmof r cf)))" "x \<in> line_pages (spp_of cf) b" for x b
      using m [OF _ that(2)] that(1) by (simp add: members_def)
    moreover have "stat s' x = stat (ssd cf) x" if "x \<in> line_pages (spp_of cf) (curline (wpof r cf))" for x
      using m [OF _ that] by (simp add: members_def)
    ultimately show ?thesis using binvD(7) [OF inv, of r] unfolding cls_def s'(2) by simp
  qed
  then show ?thesis using inv L s' by (simp add: binv_def victims_lmof)
qed

lemma gc_end_keep:
  assumes "tm_inv s"
  shows "tm_keep s (upd_lun (\<lambda>l. l\<lparr>lun_gc_endtime := next_lun_avail_time l\<rparr>) s a)"
  using assms by (simp add: tm_keep_def same_nand_def get_blk_upd_lun get_lun_upd_pls)

lemma free_block_ok:
  assumes gi: "ginv cf v P Fr K" and a: "a \<in> line_pages (spp_of cf) v" and P: "blk_pages (spp_of cf) a \<subseteq> P"
  shows "\<exists>cf'. free_block io a cf = Some cf' \<and> ginv cf' v P (Fr \<union> blk_pages (spp_of cf) a) K \<and> gcf cf cf'"
proof -
  let ?spp = "spp_of cf" and ?B = "blk_pages (spp_of cf) a" and ?L = "line_pages (spp_of cf) v"
  note inv = ginvD(1) [OF gi]
  have ap: "a \<in> pages ?spp" and av: "p_blk a = v" using a by (auto simp: line_pages_def)
  have BL: "?B \<subseteq> ?L" using blk_pages_line [OF ap] av by simp
  obtain blk where b: "get_blk (ssd cf) a = Some blk" "blk_ok (ssd cf) a blk" using nand_page [OF binvD(2) [OF inv] ap] by blast
  define s1 where "s1 = upd_blk (\<lambda>_. blk\<lparr>pgs := map (\<lambda>p. p\<lparr>status := PG_FREE\<rparr>) (pgs blk), ipc := 0, vpc := 0, erase_cnt := erase_cnt blk + 1\<rparr>) (ssd cf) a"
  note E = nand_erase [OF binvD(2) [OF inv] ap b(1), of "erase_cnt blk + 1", folded s1_def]
  have len: "length (pgs blk) = cur_pgs_per_blk cf a" "npgs blk = cur_pgs_per_blk cf a"
    using b(2) region_rng(2) [OF inv ap] by (simp_all add: blk_ok_def)
  have fp: "free_pages ?spp (cur_pgs_per_blk cf a) blk = Some (blk\<lparr>pgs := map (\<lambda>p. p\<lparr>status := PG_FREE\<rparr>) (pgs blk)\<rparr>)"
    using free_pages_ok [of blk ?spp] b(2) len(1) by (simp add: blk_ok_def)
  let ?c1 = "cf\<lparr>ssd := s1\<rparr>"
  have mb: "mark_block_free cf a = Some ?c1"
    using b(1) fp len(2) by (simp add: mark_block_free_def upd_block_def s1_def)
  have sp1: "sp s1 = ?spp" by (simp add: s1_def)
  have st: "stat s1 x = (if x \<in> ?B then PG_FREE else stat (ssd cf) x)" if "x \<in> pages ?spp" for x
    using E(2) that by (simp add: erased_def)
  have B1: "binv ?c1 (settled cf) {v}"
    by (rule binv_nand_frame [OF inv E(1) sp1]) (use st BL in \<open>auto simp: line_pages_def\<close>)
  have se: "settled ?c1 = settled cf" by (rule ext) (simp add: settled_def sp1)
  have ro: "room ?c1 = room cf" by (rule ext) (simp add: room_def se sp1)
  let ?D = "st_in (ssd cf) PG_VALID (?L \<inter> P)" and ?D1 = "st_in s1 PG_VALID (?L \<inter> P)"
  have Lp: "?L \<subseteq> pages ?spp" by (auto simp: line_pages_def)
  have D1: "?D1 = ?D - ?B" using st Lp by (auto simp: st_in_def split: if_splits)
  have BD: "x \<in> ?D" if "x \<in> ?B" "stat (ssd cf) x = PG_VALID" for x using that P BL by (auto simp: st_in_def)
  have M1: "minv ?c1 ?D1 {}"
  proof -
    have m: "minv cf ?D {}" by (rule ginvD(2) [OF gi])
    note M1 = m [unfolded minv_def, THEN conjunct2, THEN conjunct2, THEN conjunct1, rule_format]
    note M2 = m [unfolded minv_def, THEN conjunct2, THEN conjunct2, THEN conjunct2, rule_format]
    have bk: "x \<notin> ?D \<and> stat (ssd cf) x = PG_VALID" if "x \<in> pages ?spp" "stat s1 x = PG_VALID" "x \<notin> ?D1" for x
      using that st D1 by (auto split: if_splits)
    have fw: "stat s1 x = PG_VALID \<and> x \<notin> ?D1" if "x \<in> pages ?spp" "stat (ssd cf) x = PG_VALID" "x \<notin> ?D" for x
      using that st D1 BD by (auto split: if_splits)
    show ?thesis
      unfolding minv_def
    proof (intro conjI allI ballI impI)
      show "length (maptbl ?c1) = tt_pgs (spp_of ?c1)" "length (rmap ?c1) = tt_pgs (spp_of ?c1)" using m by (simp_all add: minv_def sp1)
    next
      fix l assume "l < tt_pgs (spp_of ?c1)" "l \<notin> {} \<and> mapped_ppa (maptbl ?c1 ! l)"
      then have y: "l < tt_pgs ?spp" "mapped_ppa (maptbl cf ! l)" by (simp_all add: sp1)
      show "maptbl ?c1 ! l \<in> pages (spp_of ?c1)" "rmap ?c1 ! pgi (spp_of ?c1) (maptbl ?c1 ! l) = l"
        using M1 [OF y(1)] y(2) by (simp_all add: sp1)
      show "stat (ssd ?c1) (maptbl ?c1 ! l) = PG_VALID" "maptbl ?c1 ! l \<notin> ?D1"
        using fw [of "maptbl cf ! l"] M1 [OF y(1)] y(2) by simp_all
    next
      fix x assume "x \<in> pages (spp_of ?c1)" "stat (ssd ?c1) x = PG_VALID \<and> x \<notin> ?D1"
      then have y: "x \<in> pages ?spp" "x \<notin> ?D \<and> stat (ssd cf) x = PG_VALID" using bk by (simp_all add: sp1)
      show "rmap ?c1 ! pgi (spp_of ?c1) x < tt_pgs (spp_of ?c1)" "rmap ?c1 ! pgi (spp_of ?c1) x \<notin> {}"
        "maptbl ?c1 ! (rmap ?c1 ! pgi (spp_of ?c1) x) = x" using M2 [OF y(1)] y(2) by (simp_all add: sp1)
    qed
  qed
  have G1: "ginv ?c1 v P (Fr \<union> ?B) K"
  proof -
    have "st_in s1 PG_VALID (?L - P) = st_in (ssd cf) PG_VALID (?L - P)"
    proof -
      have "stat s1 x = stat (ssd cf) x" if "x \<in> ?L" "x \<notin> P" for x
      proof -
        have "x \<in> pages ?spp" "x \<notin> ?B" using that Lp P by blast+
        then show ?thesis using st [of x] by simp
      qed
      then show ?thesis by (auto simp: st_in_def)
    qed
    moreover have "stat s1 x = PG_FREE \<longleftrightarrow> x \<in> Fr \<union> ?B" if "x \<in> ?L" for x
      using st [of x] that Lp ginvD(3) [OF gi that] by auto
    ultimately show ?thesis using B1 M1 P ginvD(4-6) [OF gi] unfolding ginv_def se ro by (simp add: sp1)
  qed
  have ap1: "nc_ppa (gc_cmd io NAND_ERASE 0 a) \<in> pages (spp_of ?c1)" using ap by (simp add: gc_cmd_def sp1)
  obtain t s2 where n: "advance_nand ?c1 (gc_cmd io NAND_ERASE 0 a) = Some (t, ?c1\<lparr>ssd := s2\<rparr>)" "tm_keep s1 s2"
    using advance_nand_ok [OF B1 ap1] by (auto simp: gc_cmd_def NAND_READ_def NAND_ERASE_def)
  define c2 where "c2 = (if enable_gc_delay (cp cf) then ?c1\<lparr>ssd := s2\<rparr> else ?c1)"
  have C1: "gcf cf ?c1" using ginvD(1) [OF gi] by (simp add: gcf_def lpns_def se sp1)
  have C2: "ginv c2 v P (Fr \<union> ?B) K" "gcf ?c1 c2"
    using G1 ginv_timing [OF G1, of s2] gcf_timing [of ?c1 s2] n(2) by (simp_all add: c2_def)
  let ?s3 = "upd_lun (\<lambda>l. l\<lparr>lun_gc_endtime := next_lun_avail_time l\<rparr>) (ssd c2) a"
  have k: "tm_keep (ssd c2) ?s3" using gc_end_keep binvD(2) [OF ginvD(1) [OF C2(1)]] by (simp add: nand_inv_def)
  have "free_block io a cf = Some (c2\<lparr>ssd := ?s3\<rparr>)"
    using mb n(1) by (simp add: free_block_def c2_def)
  then show ?thesis using ginv_timing [OF C2(1) k] gcf_timing [OF k] C1 C2(2) gcf_trans by blast
qed

section \<open>The loops over flash pages, channels and dies\<close>

lemma foldM_map: "foldM f (map h ys) s = foldM (\<lambda>y. f (h y)) ys s"
  by (induction ys arbitrary: s) (auto split: Option.bind_splits)

lemma foldM_product: "foldM (\<lambda>x. foldM (g x) ys) xs s = foldM (\<lambda>(x, y). g x y) (List.product xs ys) s"
  by (induction xs arbitrary: s) (simp_all add: foldM_map cong: bind_option_cong)

lemma foldM_product3:
  "foldM (\<lambda>x. foldM (\<lambda>y. foldM (\<lambda>z. g x y z) zs) ys) xs s =
   foldM (\<lambda>(x, y, z). g x y z) (List.product xs (List.product ys zs)) s"
proof -
  have "(\<lambda>x. foldM (\<lambda>y. foldM (\<lambda>z. g x y z) zs) ys) = (\<lambda>x. foldM (\<lambda>(y, z). g x y z) (List.product ys zs))"
    by (intro ext) (rule foldM_product)
  then show ?thesis by (simp only: foldM_product)
qed

lemma product_prefix:
  assumes "sorted xs" "List.product xs ys = as @ (x, y) # bs" "x' < x" "x' \<in> set xs" "y' \<in> set ys"
  shows "(x', y') \<in> set as"
proof -
  have s: "sorted_wrt (\<lambda>p q. fst p \<le> fst q) (List.product xs ys)" using assms(1)
    by (induction xs) (auto simp: sorted_wrt_append sorted_wrt_map intro: sorted_wrt_true)
  have "(x', y') \<in> set (List.product xs ys)" using assms(4,5) by simp
  then have "(x', y') \<in> set as \<or> (x', y') = (x, y) \<or> (x', y') \<in> set bs" unfolding assms(2) by auto
  moreover have "(x', y') \<notin> set bs"
    using s assms(3) unfolding assms(2) by (auto simp: sorted_wrt_append)
  ultimately show ?thesis using assms(3) by auto
qed

text \<open>The pages of flash page \<open>f\<close> of the block \<open>v\<close> of a die.\<close>

definition fpages :: "ssdparams \<Rightarrow> nat \<Rightarrow> nat \<times> nat \<times> nat \<Rightarrow> ppa set" where
  "fpages spp v t = (case t of (f, c, l) \<Rightarrow> mk c l v ` {f * pgs_per_flashpg spp..<(f + 1) * pgs_per_flashpg spp})"

definition nflash :: "ssdparams \<Rightarrow> nat \<Rightarrow> nat" where
  "nflash spp v = (if v < tt_lines_slc spp then flashpgs_per_blk_slc spp else flashpgs_per_blk spp)"

lemma nflash_ppb: "geo spp \<Longrightarrow> ppb spp v = nflash spp v * pgs_per_flashpg spp"
  by (simp add: ppb_def nflash_def geoD(19,20))

lemma gc_ppa_ok:
  assumes g: "geo spp" and "f < nflash spp v" "c < nchs spp" "l < luns_per_ch spp" "v < tt_lines spp"
  shows "gc_ppa spp v f c l = mk c l v (f * pgs_per_flashpg spp)"
    and "i < pgs_per_flashpg spp \<Longrightarrow> pg_off (mk c l v (f * pgs_per_flashpg spp)) i = mk c l v (f * pgs_per_flashpg spp + i)"
    and "i < pgs_per_flashpg spp \<Longrightarrow> mk c l v (f * pgs_per_flashpg spp + i) \<in> line_pages spp v"
proof -
  have b: "f * pgs_per_flashpg spp + i < ppb spp v" if "i < pgs_per_flashpg spp" for i
    using mixed_radix_less [OF assms(2) that] nflash_ppb [OF g] by simp
  have "c < 2 ^ 8" "l < 2 ^ 8" "v < 2 ^ 16" using assms geoD(2,4,16) [OF g] by linarith+
  moreover have w: "f * pgs_per_flashpg spp + i < 2 ^ 16" if "i < pgs_per_flashpg spp" for i
    using b [OF that] geo_ppb_bound [OF g, of v] by linarith
  moreover have "f * pgs_per_flashpg spp < 2 ^ 16" using w [of 0] geoD(6) [OF g] by simp
  ultimately show "gc_ppa spp v f c l = mk c l v (f * pgs_per_flashpg spp)" by (simp add: gc_ppa_def mk_def del: power_numeral)
  show "i < pgs_per_flashpg spp \<Longrightarrow> pg_off (mk c l v (f * pgs_per_flashpg spp)) i = mk c l v (f * pgs_per_flashpg spp + i)"
    using w by (simp add: pg_off_def mk_def)
  show "i < pgs_per_flashpg spp \<Longrightarrow> mk c l v (f * pgs_per_flashpg spp + i) \<in> line_pages spp v"
    using b assms(3-5) by (simp add: line_pages_def)
qed

lemma pg_off_fpages:
  assumes g: "geo spp" and "f < nflash spp v" "c < nchs spp" "l < luns_per_ch spp" "v < tt_lines spp"
  shows "pg_off (mk c l v (f * pgs_per_flashpg spp)) ` {..<pgs_per_flashpg spp} = fpages spp v (f, c, l)"
proof -
  let ?k = "pgs_per_flashpg spp"
  have "pg_off (mk c l v (f * ?k)) ` {..<?k} = (\<lambda>i. mk c l v (f * ?k + i)) ` {..<?k}"
    using gc_ppa_ok(2) [OF assms] by (intro image_cong) auto
  also have "\<dots> = mk c l v ` ((\<lambda>i. f * ?k + i) ` {..<?k})" by (simp add: image_image)
  also have "(\<lambda>i. f * ?k + i) ` {..<?k} = {f * ?k..<f * ?k + ?k}"
    by (simp add: lessThan_atLeast0 image_add_atLeastLessThan add.commute)
  finally show ?thesis by (simp add: fpages_def add.commute)
qed

lemma fpages_inj:
  assumes "x \<in> fpages spp v t" "x \<in> fpages spp v t'" "0 < pgs_per_flashpg spp"
  shows "t = t'"
proof -
  obtain f c l where t: "t = (f, c, l)" by (cases t)
  obtain f' c' l' where t': "t' = (f', c', l')" by (cases t')
  obtain p where p: "x = mk c l v p" "f * pgs_per_flashpg spp \<le> p" "p < (f + 1) * pgs_per_flashpg spp"
    using assms(1) by (auto simp: fpages_def t)
  obtain p' where p': "x = mk c' l' v p'" "f' * pgs_per_flashpg spp \<le> p'" "p' < (f' + 1) * pgs_per_flashpg spp"
    using assms(2) by (auto simp: fpages_def t')
  have e: "c = c'" "l = l'" "p = p'" using p(1) p'(1) by (auto simp: mk_def)
  have "p div pgs_per_flashpg spp = f" "p' div pgs_per_flashpg spp = f'"
    using p(2,3) p'(2,3) by (auto intro!: div_nat_eqI simp: ac_simps)
  then show ?thesis using e t t' by simp
qed

lemma fpages_div:
  assumes "geo spp" "mk c l v p \<in> pages spp"
  shows "mk c l v p \<in> fpages spp v (p div pgs_per_flashpg spp, c, l)" "p div pgs_per_flashpg spp < nflash spp v"
proof -
  let ?k = "pgs_per_flashpg spp"
  have k: "0 < ?k" using geoD(6) [OF assms(1)] .
  have "p div ?k * ?k \<le> p" by simp
  moreover have "p < (p div ?k + 1) * ?k" using k by (metis Suc_eq_plus1 dividend_less_div_times mult.commute mult_Suc)
  ultimately show "mk c l v p \<in> fpages spp v (p div ?k, c, l)" by (simp add: fpages_def)
  have "p < nflash spp v * ?k" using assms nflash_ppb [OF assms(1)] by simp
  then show "p div ?k < nflash spp v" by (simp add: less_mult_imp_div_less)
qed

text \<open>What the iterations \<open>T\<close> have processed and erased.\<close>

definition done_pages :: "ssdparams \<Rightarrow> nat \<Rightarrow> (nat \<times> nat \<times> nat) set \<Rightarrow> ppa set" where
  "done_pages spp v T = (\<Union>t \<in> T. fpages spp v t)"

definition done_blks :: "ssdparams \<Rightarrow> nat \<Rightarrow> (nat \<times> nat \<times> nat) set \<Rightarrow> ppa set" where
  "done_blks spp v T = (\<Union>(f, c, l) \<in> T. if f = nflash spp v - 1 then blk_pages spp (mk c l v 0) else {})"

lemma gc_step_ok:
  assumes gi: "ginv cf v (done_pages (spp_of cf) v T) (done_blks (spp_of cf) v T) K"
    and t: "(f, c, l) \<notin> T" "f < nflash (spp_of cf) v" "c < nchs (spp_of cf)" "l < luns_per_ch (spp_of cf)" "v < tt_lines (spp_of cf)"
    and before: "\<And>f'. f' < f \<Longrightarrow> (f', c, l) \<in> T" and dyn: "dyn_slc_mode cf = SLC_MODE \<Longrightarrow> v < tt_lines_slc (spp_of cf)"
  shows "\<exists>cf'. gc_step io v (nflash (spp_of cf) v) f c l cf = Some cf' \<and>
    ginv cf' v (done_pages (spp_of cf) v (insert (f, c, l) T)) (done_blks (spp_of cf) v (insert (f, c, l) T)) K \<and> gcf cf cf'"
proof -
  let ?spp = "spp_of cf" and ?k = "pgs_per_flashpg (spp_of cf)" and ?a = "mk c l v (f * pgs_per_flashpg (spp_of cf))"
  let ?P = "done_pages (spp_of cf) v" and ?B = "done_blks (spp_of cf) v"
  note g = binvD(3) [OF ginvD(1) [OF gi]]
  note A = gc_ppa_ok [OF g t(2-5)] and F = pg_off_fpages [OF g t(2-5)]
  have k: "0 < ?k" using geoD(6) [OF g] .
  have al: "?a \<in> line_pages ?spp v" using A(3) [OF k] by simp
  then have ap: "?a \<in> pages ?spp" by (simp add: line_pages_def)
  have x: "pg_off ?a i \<in> line_pages ?spp v - ?P T" if i: "i < ?k" for i
  proof -
    have "pg_off ?a i \<in> fpages ?spp v (f, c, l)" using F i by blast
    then have "pg_off ?a i \<notin> ?P T" using fpages_inj [OF _ _ k] t(1) unfolding done_pages_def by blast
    then show ?thesis using A(2,3) [OF i] by simp
  qed
  have inj: "inj_on (pg_off ?a) {..<?k}"
    by (rule inj_onI) (use A(2) in \<open>auto simp: mk_def\<close>)
  have a0: "pg_off ?a 0 = ?a" using A(2) [OF k] by simp
  obtain c1 where c1: "clean_one_flashpg cf ?a = Some c1" "ginv c1 v (?P T \<union> fpages ?spp v (f, c, l)) (?B T) K" "gcf cf c1"
    using clean_one_flashpg_ok [OF gi x inj a0 dyn] F by auto
  have sp1: "spp_of c1 = ?spp" using c1(3) by (simp add: gcf_def)
  have P': "?P T \<union> fpages ?spp v (f, c, l) = ?P (insert (f, c, l) T)" by (auto simp: done_pages_def)
  obtain ln where ln: "get_lun (ssd cf) ?a = Some ln" using nand_lun [OF binvD(2) [OF ginvD(1) [OF gi]] ap] by auto
  show ?thesis
  proof (cases "f = nflash ?spp v - 1")
    case False
    then have "?B (insert (f, c, l) T) = ?B T" by (auto simp: done_blks_def)
    then show ?thesis using c1 P' False A(1) ln by (intro exI [of _ c1]) (simp add: gc_step_def)
  next
    case True
    have B: "blk_pages ?spp ?a = blk_pages ?spp (mk c l v 0)" by (auto simp: blk_pages_def same_blk_def same_lun_def)
    have B': "?B (insert (f, c, l) T) = ?B T \<union> blk_pages ?spp ?a" using True B by (auto simp: done_blks_def)
    have "blk_pages (spp_of c1) ?a \<subseteq> ?P (insert (f, c, l) T)"
    proof
      fix y assume "y \<in> blk_pages (spp_of c1) ?a"
      then have y: "y \<in> pages ?spp" "same_blk ?a y" by (simp_all add: blk_pages_def sp1)
      then have e: "y = mk c l v (p_pg y)" using same_blk_pages [OF ap y(1)] pages_mk [OF y(1)] by simp
      then have q: "y \<in> fpages ?spp v (p_pg y div ?k, c, l)" "p_pg y div ?k < nflash ?spp v"
        using fpages_div [OF g, of c l v "p_pg y"] y(1) by metis+
      have "p_pg y div ?k \<le> f" using q(2) True by simp
      then have "(p_pg y div ?k, c, l) \<in> insert (f, c, l) T" using before by (cases "p_pg y div ?k = f") auto
      then show "y \<in> ?P (insert (f, c, l) T)" using q(1) by (auto simp: done_pages_def)
    qed
    then obtain c2 where c2: "free_block io ?a c1 = Some c2" "ginv c2 v (?P (insert (f, c, l) T)) (?B T \<union> blk_pages ?spp ?a) K" "gcf c1 c2"
      using free_block_ok [of c1 v "?P (insert (f, c, l) T)" "?B T" K ?a io] c1(2) P' al sp1 by auto
    have "gc_step io v (nflash ?spp v) f c l cf = Some c2"
      using c1(1) c2(1) A(1) ln True by (simp add: gc_step_def)
    then show ?thesis using c2(2,3) c1(3) B' gcf_trans by (intro exI [of _ c2]) auto
  qed
qed

text \<open>The three nested loops of \<open>do_gc\<close> process every page of the line and erase every block.\<close>

lemma gc_loop_ok:
  assumes gi: "ginv cf v {} {} K" and v: "v < tt_lines (spp_of cf)"
    and dyn: "dyn_slc_mode cf = SLC_MODE \<Longrightarrow> v < tt_lines_slc (spp_of cf)"
  shows "\<exists>cf'. foldM (\<lambda>f. foldM (\<lambda>c. foldM (\<lambda>l. gc_step io v (nflash (spp_of cf) v) f c l)
      [0..<luns_per_ch (spp_of cf)]) [0..<nchs (spp_of cf)]) [0..<nflash (spp_of cf) v] cf = Some cf' \<and>
    ginv cf' v (line_pages (spp_of cf) v) (line_pages (spp_of cf) v) K \<and> gcf cf cf'"
proof -
  let ?spp = "spp_of cf"
  let ?n = "nflash ?spp v" and ?ts = "List.product [0..<nflash (spp_of cf) v] (List.product [0..<nchs (spp_of cf)] [0..<luns_per_ch (spp_of cf)])"
  let ?g = "\<lambda>(f, c, l). gc_step io v (nflash (spp_of cf) v) f c l"
  let ?Q = "\<lambda>ys s. ginv s v (done_pages ?spp v (set ys)) (done_blks ?spp v (set ys)) K \<and> gcf cf s"
  note g = binvD(3) [OF ginvD(1) [OF gi]]
  have flat: "foldM (\<lambda>f. foldM (\<lambda>c. foldM (\<lambda>l. gc_step io v ?n f c l) [0..<luns_per_ch ?spp]) [0..<nchs ?spp]) [0..<?n] cf =
      foldM ?g ?ts cf" by (rule foldM_product3)
  have "\<exists>s. foldM ?g ?ts cf = Some s \<and> ?Q ?ts s"
  proof (rule foldM_total [where P = ?Q])
    show "?Q [] cf" using gi by (simp add: done_pages_def done_blks_def)
    fix ys t zs s
    assume e: "?ts = ys @ t # zs" and q: "?Q ys s"
    obtain f c l where t: "t = (f, c, l)" by (cases t)
    have "t \<in> set ?ts" unfolding e by simp
    then have b: "f < ?n" "c < nchs ?spp" "l < luns_per_ch ?spp" using t by auto
    have "distinct ?ts" by (intro distinct_product) simp_all
    then have ni: "(f, c, l) \<notin> set ys" unfolding e t by simp
    have bef: "(f', c, l) \<in> set ys" if "f' < f" for f'
      by (rule product_prefix [OF _ e [unfolded t] that]) (use b that in auto)
    have sp: "spp_of s = ?spp" and dy: "dyn_slc_mode s = SLC_MODE \<Longrightarrow> v < tt_lines_slc ?spp"
      using q dyn by (auto simp: gcf_def)
    obtain s' where "gc_step io v ?n f c l s = Some s'"
      "ginv s' v (done_pages ?spp v (insert (f, c, l) (set ys))) (done_blks ?spp v (insert (f, c, l) (set ys))) K" "gcf s s'"
      using gc_step_ok [of s v "set ys" K f c l io, unfolded sp, OF _ ni b v bef dy] q by blast
    then show "\<exists>s'. ?g t s = Some s' \<and> ?Q (ys @ [t]) s'" using t q gcf_trans by auto
  qed
  then obtain s where s: "foldM ?g ?ts cf = Some s" "?Q ?ts s" by blast
  have k: "0 < pgs_per_flashpg ?spp" using geoD(6) [OF g] .
  have in_ts: "(f, c, l) \<in> set ?ts" if "f < ?n" "c < nchs ?spp" "l < luns_per_ch ?spp" for f c l using that by simp
  have "line_pages ?spp v \<subseteq> done_pages ?spp v (set ?ts)"
  proof
    fix x assume x: "x \<in> line_pages ?spp v"
    then have e: "x = mk (p_ch x) (p_lun x) v (p_pg x)" "x \<in> pages ?spp" using pages_mk by (auto simp: line_pages_def)
    then have "x \<in> fpages ?spp v (p_pg x div pgs_per_flashpg ?spp, p_ch x, p_lun x)" "p_pg x div pgs_per_flashpg ?spp < ?n"
      using fpages_div [OF g, of "p_ch x" "p_lun x" v "p_pg x"] by metis+
    moreover have "p_ch x < nchs ?spp" "p_lun x < luns_per_ch ?spp" using e(2) by (auto simp: pages_def)
    ultimately show "x \<in> done_pages ?spp v (set ?ts)" using in_ts unfolding done_pages_def by blast
  qed
  moreover have "done_pages ?spp v (set ?ts) \<subseteq> line_pages ?spp v"
  proof
    fix x assume "x \<in> done_pages ?spp v (set ?ts)"
    then obtain f c l where b: "x \<in> fpages ?spp v (f, c, l)" "f < ?n" "c < nchs ?spp" "l < luns_per_ch ?spp"
      by (auto simp: done_pages_def)
    then show "x \<in> line_pages ?spp v"
      unfolding pg_off_fpages [OF g b(2-4) v, symmetric] using gc_ppa_ok(2,3) [OF g b(2-4) v] by auto
  qed
  moreover have "done_blks ?spp v (set ?ts) = line_pages ?spp v"
  proof -
    have bl: "blk_pages ?spp (mk c l v 0) \<subseteq> line_pages ?spp v" if "c < nchs ?spp" "l < luns_per_ch ?spp" for c l
      using blk_pages_line [of "mk c l v 0" ?spp] that v geo_pos(3) [OF g] by simp
    have "x \<in> done_blks ?spp v (set ?ts)" if x: "x \<in> line_pages ?spp v" for x
    proof -
      have xp: "x \<in> pages ?spp" "p_blk x = v" using x by (simp_all add: line_pages_def)
      then have b: "p_ch x < nchs ?spp" "p_lun x < luns_per_ch ?spp" by (auto simp: pages_def)
      have "x \<in> blk_pages ?spp (mk (p_ch x) (p_lun x) v 0)" using xp by (auto simp: blk_pages_def same_blk_def same_lun_def pages_def)
      moreover have "0 < ?n" using nflash_ppb [OF g, of v] geo_pos(3) [OF g, of v] by (cases ?n) auto
      then have "(?n - 1, p_ch x, p_lun x) \<in> set ?ts" using in_ts b by simp
      ultimately show ?thesis by (force simp: done_blks_def)
    qed
    moreover have "done_blks ?spp v (set ?ts) \<subseteq> line_pages ?spp v"
      using bl [THEN subsetD] by (auto simp: done_blks_def split: if_splits)
    ultimately show ?thesis by blast
  qed
  ultimately have "done_pages ?spp v (set ?ts) = line_pages ?spp v" "done_blks ?spp v (set ?ts) = line_pages ?spp v" by blast+
  then show ?thesis using s unfolding flat by (intro exI [of _ s]) simp
qed

section \<open>Returning the line\<close>

lemma mark_line_free_ok:
  assumes gi: "ginv cf v (line_pages (spp_of cf) v) (line_pages (spp_of cf) v) K" and v: "v \<in> rng (spp_of cf) r"
  shows "\<exists>cf'. mark_line_free cf (gc_ppa (spp_of cf) v 0 0 0) = Some cf' \<and> binv cf' (settled cf') {} \<and> minv cf' {} {} \<and>
    ssd cf' = ssd cf \<and> keeps cf cf' \<and> dyn_slc_mode cf' = dyn_slc_mode cf \<and> lpns cf' = lpns cf \<and> settled cf' = settled cf \<and>
    (\<forall>r'. free_line_list (lmof r' cf') = free_line_list (lmof r' cf) @ (if r' = r then [v] else []))"
proof -
  let ?spp = "spp_of cf" and ?h = "lines cf" and ?a = "gc_ppa (spp_of cf) v 0 0 0"
  note inv = ginvD(1) [OF gi] and g = binvD(3) [OF ginvD(1) [OF gi]]
  have vt: "v < tt_lines ?spp" using rng_bound [OF g v] .
  have n0: "0 < nflash ?spp v" using nflash_ppb [OF g, of v] geo_pos(3) [OF g, of v] by (cases "nflash ?spp v") auto
  have a: "?a = mk 0 0 v 0" using gc_ppa_ok(1) [OF g n0 geoD(1) [OF g] geoD(3) [OF g] vt] by simp
  have ap: "?a \<in> pages ?spp" using a geo_pos(1-3) [OF g] vt by simp
  have reg: "region cf ?a = r" using region_rng(1) [OF inv ap] v rng_disj by (simp add: a)
  have gl: "get_line cf ?a = Some v"
    using get_line_blk [OF binvD(1) [OF inv] g _ lm_tt [OF inv], of ?a] vt by (simp add: a)
  have len: "length ?h = tt_lines ?spp" using binvD(4) [OF inv] by (simp add: lines_inv_def)
  have fr: "stat (ssd cf) x = PG_FREE" if "x \<in> line_pages ?spp v" for x using ginvD(3) [OF gi that] that by simp
  define h' where "h' = modl ?h v (\<lambda>l. l\<lparr>l_ipc := 0, l_vpc := 0\<rparr>)"
  define m' where "m' = (lmof r cf)\<lparr>free_line_list := free_line_list (lmof r cf) @ [v], free_line_cnt := inc32 (free_line_cnt (lmof r cf))\<rparr>"
  define cf' where "cf' = upd_lm r (\<lambda>m. m\<lparr>free_line_list := free_line_list m @ [v], free_line_cnt := inc32 (free_line_cnt m)\<rparr>)
      (cf\<lparr>lines := h'\<rparr>)"
  have ex: "mark_line_free cf ?a = Some cf'"
    using gl reg len vt by (simp add: mark_line_free_def cf'_def upd_line_def h'_def)
  have L: "lmof r' cf' = (if r' = r then m' else lmof r' cf)" for r' by (simp add: cf'_def m'_def)
  have W: "wpof r' cf' = wpof r' cf" for r' by (simp add: cf'_def)
  have h: "length h' = length ?h"
    "\<And>e. e < length ?h \<Longrightarrow> line_id (h' ! e) = line_id (?h ! e) \<and> l_pos (h' ! e) = l_pos (?h ! e)"
    "\<And>e. e < length ?h \<Longrightarrow> e \<noteq> v \<Longrightarrow> l_vpc (h' ! e) = l_vpc (?h ! e) \<and> l_ipc (h' ! e) = l_ipc (?h ! e)"
    "l_vpc (h' ! v) = 0" "l_ipc (h' ! v) = 0"
    using vt len by (auto simp: h'_def nth_modl)
  have nv: "e \<noteq> v" if "e \<in> set (members (lmof r' cf) [curline (wpof r' cf)])" for e r'
    using members_rng [OF binvD(6) [OF inv] that] by blast
  have M: "lm_inv ?spp h' r' (lmof r' cf) [curline (wpof r' cf)] {v}" for r'
  proof (rule lm_inv_frame [OF binvD(6) [OF inv] h(1)])
    fix e assume e: "e \<in> set (live (pq_of (lmof r' cf)))"
    have "vq.pq_inv (pq_of (lmof r' cf)) ?h" using binvD(6) [OF inv, of r'] by (simp add: lm_inv_def)
    then have "e < length ?h" using e pq_live_bounds by blast
    then show "l_pos (h' ! e) = l_pos (?h ! e) \<and> l_vpc (h' ! e) = l_vpc (?h ! e)"
      using h(2,3) [of e] nv [of e r'] e by (simp add: members_def)
  qed
  have M': "lm_inv ?spp h' r' (lmof r' cf') [curline (wpof r' cf)] {}" for r'
  proof (cases "r' = r")
    case True
    have "lm_inv ?spp h' r m' [curline (wpof r cf)] {}"
      unfolding m'_def by (rule lm_attach_free [OF g M v]) simp
    then show ?thesis using True L by simp
  next
    case False
    then have "v \<notin> rng ?spp r'" using v rng_disj by blast
    from lm_detach_other(3) [OF M this] show ?thesis using False L by simp
  qed
  have LI: "lines_inv (ssd cf) h' {}"
  proof -
    have "st_in (ssd cf) q (line_pages ?spp v) = {}" if "q \<noteq> PG_FREE" for q using fr that by (auto simp: st_in_def)
    then show ?thesis using binvD(4) [OF inv] h len unfolding lines_inv_def by (metis card.empty empty_iff pg_status.distinct(1,3) singletonD)
  qed
  have V: "victims cf' = victims cf" unfolding victims_lmof L by (cases r) (simp_all add: m'_def)
  have P: "pos_inv h' (victims cf')" using binvD(5) [OF inv] h(1,2) unfolding V by (simp add: pos_inv_def)
  have C: "cls (ssd cf) (lmof r' cf') (curline (wpof r' cf)) (settled cf r')" for r'
  proof (cases "r' = r")
    case True
    then show ?thesis using binvD(7) [OF inv, of r] fr by (simp add: L m'_def cls_def)
  next
    case False
    then show ?thesis using binvD(7) [OF inv, of r'] by (simp add: L)
  qed
  have S: "settled cf' = settled cf" by (rule ext) (simp add: settled_def cf'_def)
  have f: "slc_mode cf' = SLC_MODE" "ssd cf' = ssd cf" "lines cf' = h'" using binvD(1) [OF inv] by (simp_all add: cf'_def)
  have B: "binv cf' (settled cf') {}"
    unfolding binv_def f S W using binvD(2,8) [OF inv] LI P M' C by simp
  have "st_in (ssd cf) PG_VALID (line_pages ?spp v \<inter> line_pages ?spp v) = {}" using fr by (auto simp: st_in_def)
  then have "minv cf {} {}" using ginvD(2) [OF gi] by simp
  then have "minv cf' {} {}" by (rule minv_cong) (simp_all add: cf'_def)
  moreover have "keeps cf cf'" "dyn_slc_mode cf' = dyn_slc_mode cf" "lpns cf' = lpns cf"
    by (simp_all add: keeps_def cf'_def lpns_def)
  ultimately show ?thesis using ex B S f(2) L by (intro exI [of _ cf']) (simp add: m'_def)
qed

end
