(* ===== verification/Conv_Collect.thy ===== *)
theory Conv_Collect
  imports Conv_Gc
begin

text \<open>
  Choice of the victim and the whole of a collection. \<open>select_victim_line\<close> (cost-benefit, TLC lines)
  and \<open>select_victim_line_slc\<close> (fewest valid pages, else the oldest full line) take a line without free
  pages off its queue or list; \<open>do_gc\<close> moves its valid pages and frees it; \<open>foreground_gc\<close> runs a
  collection of the TLC lines and a migration of an SLC line as the thresholds ask for.
\<close>

section \<open>Taking a line off its list\<close>

lemma clsD:
  assumes "cls s m cur n"
  shows "b \<in> set (free_line_list m) \<Longrightarrow> x \<in> line_pages (sp s) b \<Longrightarrow> stat s x = PG_FREE"
    "b \<in> set (full_line_list m) \<Longrightarrow> x \<in> line_pages (sp s) b \<Longrightarrow> stat s x = PG_VALID"
    "b \<in> set (live (pq_of m)) \<Longrightarrow> x \<in> line_pages (sp s) b \<Longrightarrow> stat s x \<noteq> PG_FREE"
    "b \<in> set (live (pq_of m)) \<Longrightarrow> \<exists>x \<in> line_pages (sp s) b. stat s x = PG_INVALID"
    "x \<in> line_pages (sp s) cur \<Longrightarrow> stat s x = PG_FREE \<longleftrightarrow> n \<le> windex (sp s) x"
  using assms unfolding cls_def by blast+

definition detached :: "conv_ftl \<Rightarrow> conv_ftl \<Rightarrow> bool" where
  "detached cf cf' \<longleftrightarrow> ssd cf' = ssd cf \<and> keeps cf cf' \<and> dyn_slc_mode cf' = dyn_slc_mode cf \<and>
     (\<forall>r. wpof r cf' = wpof r cf \<and> free_line_list (lmof r cf') = free_line_list (lmof r cf))"

lemma detachedD:
  assumes "detached cf cf'"
  shows "settled cf' = settled cf" "room cf' = room cf" "lpns cf' = lpns cf" "minv cf D H \<Longrightarrow> minv cf' D H"
    "spp_of cf' = spp_of cf" "cp cf' = cp cf" "wfc cf' = wfc cf" "dyn_slc_mode cf' = dyn_slc_mode cf"
proof -
  show e: "spp_of cf' = spp_of cf" "cp cf' = cp cf" "wfc cf' = wfc cf" "dyn_slc_mode cf' = dyn_slc_mode cf"
    using assms by (simp_all add: detached_def keeps_def)
  show s: "settled cf' = settled cf" using assms by (intro ext) (simp add: settled_def detached_def)
  show "room cf' = room cf" using assms by (intro ext) (simp add: room_def s detached_def)
  show "lpns cf' = lpns cf" using assms by (simp add: lpns_def detached_def keeps_def)
  show "minv cf D H \<Longrightarrow> minv cf' D H" by (erule minv_cong) (use assms in \<open>simp_all add: detached_def keeps_def\<close>)
qed

lemma binv_detach:
  assumes inv: "binv cf n {}" and a: "a \<in> rng (spp_of cf) r"
    and m': "lm_inv (spp_of cf) h' r m' [curline (wpof r cf)] {a}" "free_line_list m' = free_line_list (lmof r cf)"
      "set (full_line_list m') \<subseteq> set (full_line_list (lmof r cf))" "set (live (pq_of m')) = set (live (pq_of (lmof r cf))) - {a}"
    and h: "length h' = length (lines cf)"
      "\<And>e. e < length (lines cf) \<Longrightarrow> line_id (h' ! e) = line_id (lines cf ! e) \<and> l_ipc (h' ! e) = l_ipc (lines cf ! e) \<and> l_vpc (h' ! e) = l_vpc (lines cf ! e)"
      "\<And>e. e < length (lines cf) \<Longrightarrow> e \<notin> set (live (pq_of (lmof r cf))) \<Longrightarrow> l_pos (h' ! e) = l_pos (lines cf ! e)"
      "l_pos (h' ! a) = 0"
  shows "binv (upd_lm r (\<lambda>_. m') (cf\<lparr>lines := h'\<rparr>)) n {a}" and "detached cf (upd_lm r (\<lambda>_. m') (cf\<lparr>lines := h'\<rparr>))"
proof -
  let ?cf = "upd_lm r (\<lambda>_. m') (cf\<lparr>lines := h'\<rparr>)"
  show "detached cf ?cf" using m'(2) by (simp add: detached_def keeps_def)
  have O: "lm_inv (spp_of cf) h' r' (lmof r' cf) [curline (wpof r' cf)] {a}" if "r' \<noteq> r" for r'
  proof -
    have na: "a \<notin> rng (spp_of cf) r'" using a rng_disj that by blast
    have "lm_inv (spp_of cf) h' r' (lmof r' cf) [curline (wpof r' cf)] {}"
    proof (rule lm_inv_frame [OF binvD(6) [OF inv] h(1)])
      fix e assume e: "e \<in> set (live (pq_of (lmof r' cf)))"
      have "vq.pq_inv (pq_of (lmof r' cf)) (lines cf)" using binvD(6) [OF inv, of r'] by (simp add: lm_inv_def)
      then have el: "e < length (lines cf)" using e pq_live_bounds by blast
      have "e \<in> rng (spp_of cf) r'" using members_rng [OF binvD(6) [OF inv, of r'], of e] e by (simp add: members_def)
      then have "e \<notin> rng (spp_of cf) r" using rng_disj that by blast
      then have "e \<notin> set (live (pq_of (lmof r cf)))"
        using members_rng [OF binvD(6) [OF inv, of r], of e] by (auto simp: members_def)
      then show "l_pos (h' ! e) = l_pos (lines cf ! e) \<and> l_vpc (h' ! e) = l_vpc (lines cf ! e)" using h(2,3) el by blast
    qed
    then show ?thesis using lm_detach_other(2) [OF _ na] by simp
  qed
  have P: "pos_inv h' (victims ?cf)"
    unfolding pos_inv_def
  proof (intro allI impI)
    fix e assume e: "e < length h'" "e \<notin> victims ?cf"
    have v: "e \<in> victims ?cf \<longleftrightarrow> e \<in> set (live (pq_of m')) \<or> (\<exists>r'. r' \<noteq> r \<and> e \<in> set (live (pq_of (lmof r' cf))))"
      using victims_upd [where s = "ssd cf" and h = h' and cf = cf] by simp
    show "l_pos (h' ! e) = 0"
    proof (cases "e = a")
      case False
      then have n1: "e \<notin> set (live (pq_of (lmof r cf)))" using e(2) v m'(4) by blast
      moreover have "e \<notin> victims cf"
      proof
        assume "e \<in> victims cf"
        then obtain r' where r': "e \<in> set (live (pq_of (lmof r' cf)))" using victims_ex by blast
        then have "r' \<noteq> r" using n1 by (cases "r' = r") simp_all
        then have "e \<in> victims ?cf" unfolding v using r' by blast
        then show False using e(2) by contradiction
      qed
      ultimately show ?thesis using h(1,3) e(1) binvD(5) [OF inv] by (simp add: pos_inv_def)
    qed (use h(4) in simp)
  qed
  have L: "lines_inv (ssd cf) h' {a}" using binvD(4) [OF inv] h(1,2) by (simp add: lines_inv_def)
  have C: "cls (ssd cf) m' (curline (wpof r cf)) (n r)"
    unfolding cls_def
  proof (intro conjI ballI)
    note c = clsD [OF binvD(7) [OF inv, of r]]
    show "stat (ssd cf) x = PG_FREE" if "b \<in> set (free_line_list m')" "x \<in> line_pages (spp_of cf) b" for b x
      using c(1) that m'(2) by simp
    show "stat (ssd cf) x = PG_VALID" if "b \<in> set (full_line_list m')" "x \<in> line_pages (spp_of cf) b" for b x
      using c(2) that m'(3) by blast
    show "stat (ssd cf) x \<noteq> PG_FREE" if "b \<in> set (live (pq_of m'))" "x \<in> line_pages (spp_of cf) b" for b x
      using c(3) that m'(4) by blast
    show "\<exists>x \<in> line_pages (spp_of cf) b. stat (ssd cf) x = PG_INVALID" if "b \<in> set (live (pq_of m'))" for b
      using c(4) that m'(4) by blast
    show "stat (ssd cf) x = PG_FREE \<longleftrightarrow> n r \<le> windex (spp_of cf) x" if "x \<in> line_pages (spp_of cf) (curline (wpof r cf))" for x
      using c(5) that by blast
  qed
  show "binv ?cf n {a}"
    unfolding binv_def
  proof (intro conjI allI)
    fix r'
    show "lm_inv (spp_of ?cf) (lines ?cf) r' (lmof r' ?cf) [curline (wpof r' ?cf)] {a}" using m'(1) O by simp
    show "cls (ssd ?cf) (lmof r' ?cf) (curline (wpof r' ?cf)) (n r')" using C binvD(7) [OF inv, of r'] by simp
    show "wp_ok (spp_of ?cf) (wpof r' ?cf)" using binvD(8) [OF inv] by simp
  qed (use binvD(1,2) [OF inv] P L in simp_all)
qed

lemma detach_victim_ok:
  assumes inv: "binv cf n {}" and a: "a \<in> set (live (pq_of (lmof r cf)))"
    and rm: "vq.removed (pq_of (lmof r cf)) (lines cf) a (q, h)"
  defines "cf' \<equiv> upd_lm r (\<lambda>m. m\<lparr>victim_line_pq := q, victim_line_cnt := dec32 (victim_line_cnt m)\<rparr>)
      (cf\<lparr>lines := modl h a (\<lambda>l. l\<lparr>l_pos := 0\<rparr>)\<rparr>)"
  shows "binv cf' n {a}" "detached cf cf'" "a \<in> rng (spp_of cf) r" "\<forall>x \<in> line_pages (spp_of cf) a. stat (ssd cf) x \<noteq> PG_FREE"
    "\<exists>x \<in> line_pages (spp_of cf) a. stat (ssd cf) x = PG_INVALID" "l_ipc (lines cf' ! a) = l_ipc (lines cf ! a)"
proof -
  let ?m' = "(lmof r cf)\<lparr>victim_line_pq := q, victim_line_cnt := dec32 (victim_line_cnt (lmof r cf))\<rparr>"
    and ?h = "modl h a (\<lambda>l. l\<lparr>l_pos := 0\<rparr>)"
  note D = lm_detach_victim [OF binvD(3) [OF inv] binvD(6) [OF inv] a rm]
  show ar: "a \<in> rng (spp_of cf) r" using members_rng [OF binvD(6) [OF inv, of r], of a] a by (simp add: members_def)
  show "\<forall>x \<in> line_pages (spp_of cf) a. stat (ssd cf) x \<noteq> PG_FREE" "\<exists>x \<in> line_pages (spp_of cf) a. stat (ssd cf) x = PG_INVALID"
    using clsD(3,4) [OF binvD(7) [OF inv, of r] a] by blast+
  have e: "cf' = upd_lm r (\<lambda>_. ?m') (cf\<lparr>lines := ?h\<rparr>)" by (cases r) (simp_all add: cf'_def upd_lm_def lmof_def)
  show "l_ipc (lines cf' ! a) = l_ipc (lines cf ! a)"
    using D(4) [of a] pq_live_bounds(1) [of "pq_of (lmof r cf)" "lines cf" a] a binvD(6) [OF inv, of r]
    by (simp add: cf'_def lm_inv_def)
  show "binv cf' n {a}" "detached cf cf'"
    unfolding e using D by (intro binv_detach [OF inv ar]; simp)+
qed

lemma detach_full_ok:
  assumes inv: "binv cf n {}" and a: "a \<in> set (full_line_list (lmof r cf))"
  defines "cf' \<equiv> upd_lm r (\<lambda>m. m\<lparr>full_line_cnt := dec32 (full_line_cnt m)\<rparr>) (list_del_init a cf)"
  shows "binv cf' n {a}" "detached cf cf'" "a \<in> rng (spp_of cf) r" "\<forall>x \<in> line_pages (spp_of cf) a. stat (ssd cf) x \<noteq> PG_FREE"
    "l_ipc (lines cf' ! a) = l_ipc (lines cf ! a)"
proof -
  let ?m = "lmof r cf"
  let ?m' = "?m\<lparr>free_line_list := removeAll a (free_line_list ?m), full_line_list := removeAll a (full_line_list ?m),
     full_line_cnt := dec32 (full_line_cnt ?m)\<rparr>"
  note i = binvD(6) [OF inv, of r]
  show ar: "a \<in> rng (spp_of cf) r" using members_rng [OF i, of a] a by (simp add: members_def)
  show "\<forall>x \<in> line_pages (spp_of cf) a. stat (ssd cf) x \<noteq> PG_FREE"
    using clsD(2) [OF binvD(7) [OF inv, of r] a] by force
  have nf: "a \<notin> set (free_line_list ?m)" "a \<notin> set (live (pq_of ?m))" using i a by (auto simp: lm_inv_def members_def)
  have bl: "a < length (lines cf)" using rng_bound [OF binvD(3) [OF inv] ar] binvD(4) [OF inv] by (simp add: lines_inv_def)
  have p0: "l_pos (lines cf ! a) = 0"
    using binvD(5) [OF inv] bl victim_in_pq [OF inv ar] nf(2) by (auto simp: pos_inv_def)
  have "list_del_init a cf = upd_lm r (\<lambda>m. m\<lparr>free_line_list := removeAll a (free_line_list m),
      full_line_list := removeAll a (full_line_list m)\<rparr>) cf"
    by (rule list_del_other [of r "spp_of cf" "lines cf" cf "\<lambda>r. [curline (wpof r cf)]" "\<lambda>_. {}"]) (use binvD(6) [OF inv] ar in simp_all)
  then have e: "cf' = upd_lm r (\<lambda>_. ?m') (cf\<lparr>lines := lines cf\<rparr>)" by (cases r) (simp_all add: cf'_def upd_lm_def lmof_def)
  show "l_ipc (lines cf' ! a) = l_ipc (lines cf ! a)" by (simp add: cf'_def list_del_init_def Let_def)
  show "binv cf' n {a}" "detached cf cf'"
    unfolding e using lm_detach_full [OF binvD(3) [OF inv] i a] nf p0 by (intro binv_detach [OF inv ar]; auto)+
qed

section \<open>Choosing the victim\<close>

text \<open>The victim \<open>w\<close> of a collection of the lines of kind \<open>r\<close>: it is off all lists and has no free page.\<close>

definition picked :: "line_mode \<Rightarrow> conv_ftl \<Rightarrow> nat option \<Rightarrow> conv_ftl \<Rightarrow> bool" where
  "picked r cf w cf' \<longleftrightarrow> detached cf cf' \<and> binv cf' (settled cf') (set_option w) \<and>
     (\<forall>v \<in> set_option w. v \<in> rng (spp_of cf) r \<and> (\<forall>x \<in> line_pages (spp_of cf) v. stat (ssd cf) x \<noteq> PG_FREE) \<and>
        l_ipc (lines cf' ! v) = l_ipc (lines cf ! v))"

lemma picked_none: "binv cf (settled cf) {} \<Longrightarrow> picked r cf None cf"
  by (simp add: picked_def detached_def)

text \<open>Lines of at most 2^22 pages keep every cost-benefit value below the initial minimum.\<close>

lemma cb_val_small:
  assumes "l_vpc ln \<le> pgs_per_line (spp_of cf)" "pgs_per_line (spp_of cf) \<le> 2 ^ 22"
  shows "fst (calculate_cost_benefit_val cf ln) < 2 ^ 63 - 1"
proof -
  have "l_vpc ln * SCALER \<le> 2 ^ 22 * SCALER" using assms by (intro mult_le_mono1) linarith
  then have "l_vpc ln * SCALER div m \<le> 2 ^ 22 * SCALER" for m using div_le_dividend le_trans by blast
  then have "l_vpc ln * SCALER div m < 2 ^ 63 - 1" for m
    by (rule le_less_trans) (simp add: SCALER_def)
  then show ?thesis by (simp add: calculate_cost_benefit_val_def ktime_get_ns_def Let_def SCALER_def)
qed

lemma cb_val_frame: "snd (calculate_cost_benefit_val cf ln) = cf\<lparr>ktick := ktick cf + 1\<rparr>"
  by (simp add: calculate_cost_benefit_val_def ktime_get_ns_def Let_def)

lemma ktick_upd [simp]: "(cf\<lparr>ktick := a\<rparr>)\<lparr>ktick := b\<rparr> = cf\<lparr>ktick := b\<rparr>" "cf\<lparr>ktick := ktick cf\<rparr> = cf"
  by simp_all

lemma victim_counts:
  assumes inv: "binv cf n {}" and a: "a \<in> set (live (pq_of (lmof r cf)))"
  shows "a < length (lines cf)" "0 < l_ipc (lines cf ! a)" "l_vpc (lines cf ! a) \<le> linesz (spp_of cf) r"
proof -
  note g = binvD(3) [OF inv]
  have ar: "a \<in> rng (spp_of cf) r" using members_rng [OF binvD(6) [OF inv, of r], of a] a by (simp add: members_def)
  have at: "a < tt_lines (spp_of cf)" using rng_bound [OF g ar] .
  show "a < length (lines cf)" using at binvD(4) [OF inv] by (simp add: lines_inv_def)
  have c: "l_vpc (lines cf ! a) = card (st_in (ssd cf) PG_VALID (line_pages (spp_of cf) a))"
    "l_ipc (lines cf ! a) = card (st_in (ssd cf) PG_INVALID (line_pages (spp_of cf) a))"
    using binvD(4) [OF inv] at by (simp_all add: lines_inv_def)
  obtain x where x: "x \<in> line_pages (spp_of cf) a" "stat (ssd cf) x = PG_INVALID"
    using clsD(4) [OF binvD(7) [OF inv, of r] a] by blast
  show "0 < l_ipc (lines cf ! a)" using card_st_in_pos [OF x] c by simp
  show "l_vpc (lines cf ! a) \<le> linesz (spp_of cf) r" using line_cards [OF g at] c linesz_ppl [OF ar] by simp
qed

definition clocked :: "conv_ftl \<Rightarrow> conv_ftl \<Rightarrow> bool" where
  "clocked cf c \<longleftrightarrow> (\<exists>k. c = cf\<lparr>ktick := k\<rparr>)"

lemma clockedI [simp]: "clocked cf (cf\<lparr>ktick := k\<rparr>)" "clocked cf cf"
  by (auto simp: clocked_def intro: exI [of _ "ktick cf"])

lemma cb_scan_ok:
  assumes inv: "binv cf n {}"
  shows "\<exists>mi mn k. cb_scan cf = Some (mi, mn, cf\<lparr>ktick := k\<rparr>) \<and>
    (\<forall>i. mi = Some i \<longrightarrow> 1 \<le> i \<and> i < q_size (pq_of (lm cf))) \<and>
    (mi = None \<and> pgs_per_line (spp_of cf) \<le> 2 ^ 22 \<longrightarrow> live (pq_of (lm cf)) = [])"
proof -
  let ?q = "pq_of (lm cf)"
  let ?f = "\<lambda>i (min_idx, cb_min, cf). do { a \<leftarrow> idx (q_d ?q) i; cur_line \<leftarrow> idx (lines cf) a;
      if l_ipc cur_line = 0 then Some (min_idx, cb_min, cf)
      else let (v, cf) = calculate_cost_benefit_val cf cur_line
           in Some (if v < cb_min then (Some i, v, cf) else (min_idx, cb_min, cf)) }"
  let ?Q = "\<lambda>ys (mi, mn :: nat, c). clocked cf c \<and> (\<forall>i. mi = Some i \<longrightarrow> 1 \<le> i \<and> i < q_size ?q) \<and>
      (mi = None \<longrightarrow> mn = 2 ^ 63 - 1 \<and> (pgs_per_line (spp_of cf) \<le> 2 ^ 22 \<longrightarrow> ys = []))"
  have m: "lm cf = lmof TLC_MODE cf" by (simp add: lmof_def)
  have pinv: "vq.pq_inv ?q (lines cf)" using binvD(6) [OF inv, of TLC_MODE] by (simp add: lm_inv_def m)
  have "\<exists>s. foldM ?f [1..<q_size ?q] (None, 2 ^ 63 - 1, cf) = Some s \<and> ?Q [1..<q_size ?q] s"
  proof (rule foldM_total [where P = ?Q])
    show "?Q [] (None, 2 ^ 63 - 1, cf)" by simp
    fix ys i zs s
    assume e: "[1..<q_size ?q] = ys @ i # zs" and q: "?Q ys s"
    obtain mi mn c where s: "s = (mi, mn, c)" by (cases s)
    obtain k where k: "c = cf\<lparr>ktick := k\<rparr>" using q s by (auto simp: clocked_def)
    have "i \<in> set [1..<q_size ?q]" unfolding e by simp
    then have i: "1 \<le> i" "i < q_size ?q" by auto
    let ?a = "q_d ?q ! i"
    have al: "?a \<in> set (live ?q)" using i by (auto simp: live_def)
    note V = victim_counts [OF inv al [unfolded m], folded m]
    have il: "i < length (q_d ?q)" using pinv i by (simp add: vq.pq_inv_def)
    define v where "v = fst (calculate_cost_benefit_val c (lines cf ! ?a))"
    have cv: "calculate_cost_benefit_val c (lines cf ! ?a) = (v, cf\<lparr>ktick := k + 1\<rparr>)"
      using cb_val_frame [of c "lines cf ! ?a"] k by (simp add: prod_eq_iff v_def)
    have small: "v < 2 ^ 63 - 1" if "pgs_per_line (spp_of cf) \<le> 2 ^ 22"
      unfolding v_def by (rule cb_val_small) (use V(3) that k in \<open>simp_all add: linesz_def m\<close>)
    have lc: "lines c = lines cf" using k by simp
    have F1: "?f i s = Some (if v < mn then (Some i, v, cf\<lparr>ktick := k + 1\<rparr>) else (mi, mn, cf\<lparr>ktick := k + 1\<rparr>))"
      using s il V(1,2) cv by (simp add: arr_simps lc)
    have F2: "?Q (ys @ [i]) (if v < mn then (Some i, v, cf\<lparr>ktick := k + 1\<rparr>) else (mi, mn, cf\<lparr>ktick := k + 1\<rparr>))"
    proof (cases "v < mn")
      case True
      then show ?thesis using i by simp
    next
      case False
      have "mi \<noteq> None" if "pgs_per_line (spp_of cf) \<le> 2 ^ 22" using False small [OF that] q s by auto
      then show ?thesis using False q s by auto
    qed
    show "\<exists>s'. ?f i s = Some s' \<and> ?Q (ys @ [i]) s'" by (rule exI, rule conjI [OF F1 F2])
  qed
  then obtain s where s: "foldM ?f [1..<q_size ?q] (None, 2 ^ 63 - 1, cf) = Some s" "?Q [1..<q_size ?q] s"
    by (elim exE conjE)
  obtain mi mn c where c: "s = (mi, mn, c)" by (cases s)
  note r = s [unfolded c]
  then have "cb_scan cf = Some (mi, mn, c)" by (simp add: cb_scan_def Let_def)
  moreover have "[1..<q_size ?q] = [] \<longrightarrow> live ?q = []" by (simp add: live_def)
  moreover obtain k where "c = cf\<lparr>ktick := k\<rparr>" using r(2) by (auto simp: clocked_def)
  ultimately show ?thesis using r(2) by - (rule exI [of _ mi], rule exI [of _ mn], rule exI [of _ k], auto)
qed

lemma picked_cong:
  assumes "picked r cf w c1" "slc_mode c2 = slc_mode c1" "ssd c2 = ssd c1" "lines c2 = lines c1"
    "\<And>r. lmof r c2 = lmof r c1" "\<And>r. wpof r c2 = wpof r c1" "keeps c1 c2" "dyn_slc_mode c2 = dyn_slc_mode c1"
  shows "picked r cf w c2"
proof -
  have "settled c2 = settled c1" using assms(3,6) by (intro ext) (simp add: settled_def)
  then have "binv c2 (settled c2) (set_option w)"
    using binv_cong [OF _ assms(2-6)] assms(1) by (simp add: picked_def)
  moreover have "detached cf c2"
    using assms(1,3,5-8) keeps_trans unfolding picked_def detached_def by auto
  ultimately show ?thesis using assms(1,4) by (simp add: picked_def)
qed

lemma select_victim_line_ok:
  assumes inv: "binv cf (settled cf) {}"
  shows "\<exists>w cf'. select_victim_line cf force = Some (w, cf') \<and> picked TLC_MODE cf w cf' \<and>
    (\<forall>v \<in> set_option w. \<exists>x \<in> line_pages (spp_of cf) v. stat (ssd cf) x = PG_INVALID) \<and>
    (w = None \<and> pgs_per_line (spp_of cf) \<le> 2 ^ 22 \<longrightarrow> live (pq_of (lm cf)) = [])"
proof -
  obtain mi mn k where S: "cb_scan cf = Some (mi, mn, cf\<lparr>ktick := k\<rparr>)"
    "\<forall>i. mi = Some i \<longrightarrow> 1 \<le> i \<and> i < q_size (pq_of (lm cf))"
    "mi = None \<and> pgs_per_line (spp_of cf) \<le> 2 ^ 22 \<longrightarrow> live (pq_of (lm cf)) = []"
    using cb_scan_ok [OF inv] by blast
  let ?c0 = "cf\<lparr>ktick := k\<rparr>"
  show ?thesis
  proof (cases mi)
    case None
    have "picked TLC_MODE cf None ?c0" by (rule picked_cong [OF picked_none [OF inv]]) (simp_all add: keeps_def)
    then show ?thesis using None S by (intro exI [of _ None] exI [of _ ?c0]) (simp add: select_victim_line_def)
  next
    case (Some i)
    then have i: "1 \<le> i" "i < q_size (pq_of (lm cf))" using S(2) by auto
    have m: "lm cf = lmof TLC_MODE cf" by (simp add: lmof_def)
    have pinv: "vq.pq_inv (pq_of (lm cf)) (lines cf)" using binvD(6) [OF inv, of TLC_MODE] by (simp add: lm_inv_def m)
    define a where "a = q_d (pq_of (lm cf)) ! i"
    have al: "a \<in> set (live (pq_of (lm cf)))" using i by (auto simp: live_def a_def)
    obtain q h where rm: "pqueue_remove (pq_of (lm cf)) (lines cf) a = Some (q, h)" "vq.removed (pq_of (lm cf)) (lines cf) a (q, h)"
      using vq.pqueue_remove_ok [OF pinv al] by blast
    note D = detach_victim_ok [OF inv al [unfolded m] rm(2) [unfolded m]]
    let ?c1 = "upd_lm TLC_MODE (\<lambda>m. m\<lparr>victim_line_pq := q, victim_line_cnt := dec32 (victim_line_cnt m)\<rparr>)
      (cf\<lparr>lines := modl h a (\<lambda>l. l\<lparr>l_pos := 0\<rparr>)\<rparr>)"
    let ?c2 = "cf\<lparr>lines := modl h a (\<lambda>l. l\<lparr>l_pos := 0\<rparr>),
      lm := (lm cf)\<lparr>victim_line_pq := q, victim_line_cnt := dec32 (victim_line_cnt (lm cf))\<rparr>\<rparr>"
    have "settled ?c1 = settled cf" using D(2) detachedD(1) by blast
    then have P: "picked TLC_MODE cf (Some a) ?c1" using D by (simp add: picked_def)
    have len: "a < length h" using rm(2) victim_counts(1) [OF inv al [unfolded m]] only_posD(1) by (auto simp: vq.removed_def)
    have il: "i < length (q_d (pq_of (lm cf)))" using pinv i by (simp add: vq.pq_inv_def)
    obtain k2 ag where ag: "select_victim_line cf force = Some (Some a, ?c2\<lparr>ktick := k2, age_cnt := ag\<rparr>)"
      using S(1) Some rm(1) len il
      by (simp add: select_victim_line_def arr_simps a_def [symmetric] ktime_get_ns_def Let_def)
    have "picked TLC_MODE cf (Some a) (?c2\<lparr>ktick := k2, age_cnt := ag\<rparr>)"
    proof (rule picked_cong [OF P])
      fix r show "lmof r (?c2\<lparr>ktick := k2, age_cnt := ag\<rparr>) = lmof r ?c1" "wpof r (?c2\<lparr>ktick := k2, age_cnt := ag\<rparr>) = wpof r ?c1"
        by (cases r; simp add: lmof_def wpof_def upd_lm_def)+
    qed (simp_all add: keeps_def upd_lm_def)
    then show ?thesis using ag D(5) by (intro exI [of _ "Some a"] exI [of _ "?c2\<lparr>ktick := k2, age_cnt := ag\<rparr>"]) simp
  qed
qed

lemma select_victim_line_slc_ok:
  assumes inv: "binv cf (settled cf) {}"
  shows "\<exists>w cf'. select_victim_line_slc cf force = Some (w, cf') \<and> picked SLC_MODE cf w cf' \<and>
    (w = None \<and> force \<longrightarrow> full_line_list (slm cf) = [] \<and> live (pq_of (slm cf)) = [])"
proof -
  have m: "slm cf = lmof SLC_MODE cf" by (simp add: lmof_def)
  have pinv: "vq.pq_inv (pq_of (slm cf)) (lines cf)" using binvD(6) [OF inv, of SLC_MODE] by (simp add: lm_inv_def m)
  note pk = vq.pqueue_peek_ok [OF pinv]
  show ?thesis
  proof (cases "pqueue_peek (pq_of (slm cf))")
    case None
    then have l: "live (pq_of (slm cf)) = []" using pk(1) by blast
    show ?thesis
    proof (cases "full_line_list (slm cf)")
      case Nil
      then show ?thesis using None l picked_none [OF inv]
        by (intro exI [of _ None] exI [of _ cf]) (simp add: select_victim_line_slc_def)
    next
      case (Cons a xs)
      then have af: "a \<in> set (full_line_list (lmof SLC_MODE cf))" by (simp add: m [symmetric])
      note D = detach_full_ok [OF inv af]
      let ?c1 = "upd_lm SLC_MODE (\<lambda>m. m\<lparr>full_line_cnt := dec32 (full_line_cnt m)\<rparr>) (list_del_init a cf)"
      have "settled ?c1 = settled cf" using D(2) detachedD(1) by blast
      then have "picked SLC_MODE cf (Some a) ?c1" using D by (simp add: picked_def)
      then show ?thesis using None Cons
        by (intro exI [of _ "Some a"] exI [of _ ?c1]) (simp add: select_victim_line_slc_def upd_lm_def Let_def)
    qed
  next
    case (Some a)
    have al: "a \<in> set (live (pq_of (slm cf)))" using pk(2) [OF Some] by blast
    have bl: "a < length (lines cf)" using victim_counts(1) [OF inv al [unfolded m]] .
    show ?thesis
    proof (cases "\<not> force \<and> pgs_per_line_slc (spp_of cf) div 8 < l_vpc (lines cf ! a)")
      case True
      then show ?thesis using Some bl picked_none [OF inv]
        by (intro exI [of _ None] exI [of _ cf]) (simp add: select_victim_line_slc_def arr_simps)
    next
      case False
      obtain q h where p: "pqueue_pop (pq_of (slm cf)) (lines cf) = (Some a, q, h)"
        using vq.pqueue_pop_ok(1) [OF pinv] Some by (metis prod.exhaust_sel)
      note rm = vq.pqueue_pop_ok(3) [OF pinv p]
      note D = detach_victim_ok [OF inv al [unfolded m] rm [unfolded m]]
      let ?c1 = "upd_lm SLC_MODE (\<lambda>m. m\<lparr>victim_line_pq := q, victim_line_cnt := dec32 (victim_line_cnt m)\<rparr>)
        (cf\<lparr>lines := modl h a (\<lambda>l. l\<lparr>l_pos := 0\<rparr>)\<rparr>)"
      have "settled ?c1 = settled cf" using D(2) detachedD(1) by blast
      then have "picked SLC_MODE cf (Some a) ?c1" using D by (simp add: picked_def)
      then show ?thesis using Some False bl p
        by (intro exI [of _ "Some a"] exI [of _ ?c1]) (auto simp add: select_victim_line_slc_def arr_simps upd_lm_def)
    qed
  qed
qed

section \<open>One collection\<close>

definition npg :: "conv_ftl \<Rightarrow> pg_status \<Rightarrow> nat \<Rightarrow> nat" where
  "npg cf st v = card (st_in (ssd cf) st (line_pages (spp_of cf) v))"

text \<open>Result of a collection of the lines of kind \<open>r\<close> with victim \<open>w\<close>: nothing is lost, the victim is the
  last free line of its kind, and the TLC write pointer has lost the room of the pages that were moved
  and won the room of the victim.\<close>

definition collected :: "line_mode \<Rightarrow> conv_ftl \<Rightarrow> nat option \<Rightarrow> conv_ftl \<Rightarrow> bool" where
  "collected r cf w cf' \<longleftrightarrow> binv cf' (settled cf') {} \<and> minv cf' {} {} \<and> spp_of cf' = spp_of cf \<and> cp cf' = cp cf \<and>
     lpns cf' = lpns cf \<and> settled cf' SLC_MODE = settled cf SLC_MODE \<and>
     write_credits (wfc cf') = write_credits (wfc cf) \<and>
     (case w of None \<Rightarrow> credits_to_refill (wfc cf') = credits_to_refill (wfc cf) \<and> room cf' TLC_MODE = room cf TLC_MODE \<and>
         free_line_list (lmof SLC_MODE cf') = free_line_list (lmof SLC_MODE cf)
      | Some v \<Rightarrow> v \<in> rng (spp_of cf) r \<and> npg cf PG_FREE v = 0 \<and>
         room cf' TLC_MODE + npg cf PG_VALID v = room cf TLC_MODE + (if r = TLC_MODE then linesz (spp_of cf) TLC_MODE else 0) \<and>
         free_line_list (lmof SLC_MODE cf') = free_line_list (lmof SLC_MODE cf) @ (if r = SLC_MODE then [v] else []) \<and>
         credits_to_refill (wfc cf') = (if r = SLC_MODE then pgs_per_line_slc (spp_of cf) else npg cf PG_INVALID v))"

lemma collect_line_ok:
  assumes pk: "picked r cf (Some v) c1" and m: "minv cf {} {}" and rm: "npg cf PG_VALID v < room cf TLC_MODE"
    and c: "slc_mode c2 = slc_mode c1" "ssd c2 = ssd c1" "lines c2 = lines c1" "\<And>r. lmof r c2 = lmof r c1" "\<And>r. wpof r c2 = wpof r c1"
      "cp c2 = cp c1" "maptbl c2 = maptbl c1" "rmap c2 = rmap c1" "dyn_slc_mode c2 = r"
      "write_credits (wfc c2) = write_credits (wfc cf)"
      "credits_to_refill (wfc c2) = (if r = SLC_MODE then pgs_per_line_slc (spp_of cf) else npg cf PG_INVALID v)"
  shows "\<exists>cf'. do { c' \<leftarrow> foldM (\<lambda>f. foldM (\<lambda>c. foldM (\<lambda>l. gc_step io v (nflash (spp_of cf) v) f c l)
      [0..<luns_per_ch (spp_of cf)]) [0..<nchs (spp_of cf)]) [0..<nflash (spp_of cf) v] c2;
      mark_line_free c' (gc_ppa (spp_of cf) v 0 0 0) } = Some cf' \<and> collected r cf (Some v) cf'"
proof -
  let ?spp = "spp_of cf" and ?n = "nflash (spp_of cf) v"
  have d: "detached cf c1" and b1: "binv c1 (settled c1) {v}" and vr: "v \<in> rng ?spp r"
    and nf: "\<And>x. x \<in> line_pages ?spp v \<Longrightarrow> stat (ssd cf) x \<noteq> PG_FREE" using pk by (simp_all add: picked_def)
  note D = detachedD [OF d]
  have s1: "ssd c1 = ssd cf" "keeps cf c1" using d by (simp_all add: detached_def)
  have se: "settled c2 = settled cf" unfolding D(1) [symmetric] by (rule ext) (simp add: settled_def c)
  have ro: "room c2 = room cf" unfolding D(2) [symmetric] by (rule ext) (simp add: room_def se D(1) c)
  have lp: "lpns c2 = lpns cf" using s1 by (simp add: lpns_def c keeps_def)
  have b2: "binv c2 (settled c2) {v}" unfolding se D(1) [symmetric] by (rule binv_cong [OF b1]) (simp_all add: c)
  note g = binvD(3) [OF b2]
  have m2: "minv c2 {} {}" by (rule minv_cong [OF m]) (use s1 c in \<open>simp_all add: keeps_def\<close>)
  have sp2: "spp_of c2 = ?spp" using c(2) s1(1) by simp
  have gt: "geo ?spp" using g sp2 by simp
  have vt: "v < tt_lines ?spp" using rng_bound [OF gt vr] .
  have G: "ginv c2 v {} {} (room cf TLC_MODE - npg cf PG_VALID v)"
    using b2 m2 nf rm c(2) s1(1) by (simp add: ginv_def ro npg_def st_in_def)
  have dyn: "dyn_slc_mode c2 = SLC_MODE \<Longrightarrow> v < tt_lines_slc ?spp" using c(9) vr by (simp add: rng_def)
  obtain c3 where c3: "foldM (\<lambda>f. foldM (\<lambda>c. foldM (\<lambda>l. gc_step io v ?n f c l) [0..<luns_per_ch ?spp]) [0..<nchs ?spp]) [0..<?n] c2 = Some c3"
    "ginv c3 v (line_pages ?spp v) (line_pages ?spp v) (room cf TLC_MODE - npg cf PG_VALID v)" "gcf c2 c3"
    using gc_loop_ok [OF G, of io] vt dyn unfolding sp2 by blast
  have sp3: "spp_of c3 = ?spp" using c3(3) sp2 by (simp add: gcf_def)
  obtain c4 where c4: "mark_line_free c3 (gc_ppa ?spp v 0 0 0) = Some c4" "binv c4 (settled c4) {}" "minv c4 {} {}"
    "ssd c4 = ssd c3" "keeps c3 c4" "lpns c4 = lpns c3" "settled c4 = settled c3"
    "\<And>r'. free_line_list (lmof r' c4) = free_line_list (lmof r' c3) @ (if r' = r then [v] else [])"
    using mark_line_free_ok [of c3 v _ r] c3(2) vr unfolding sp3 by blast
  have R3: "room c3 TLC_MODE = room cf TLC_MODE - npg cf PG_VALID v"
    using ginvD(6) [OF c3(2)] sp3 by (simp add: st_in_def)
  have R4: "room c4 TLC_MODE = room c3 TLC_MODE + (if r = TLC_MODE then linesz ?spp TLC_MODE else 0)"
    using c4(4,7,8) sp3 by (simp add: room_def)
  have F4: "free_line_list (lmof SLC_MODE c4) = free_line_list (lmof SLC_MODE cf) @ (if r = SLC_MODE then [v] else [])"
    using c4(8) [of SLC_MODE] c3(3) c(4) d by (cases r) (simp_all add: gcf_def detached_def)
  have k: "cp c4 = cp cf" "wfc c4 = wfc c2" "lpns c4 = lpns cf" "settled c4 SLC_MODE = settled cf SLC_MODE" "spp_of c4 = ?spp"
    using c4(4-7) c3(3) lp se c(6) D(6) sp3 by (simp_all add: gcf_def keeps_def)
  have "st_in (ssd cf) PG_FREE (line_pages ?spp v) = {}" using nf by (auto simp: st_in_def)
  then have "npg cf PG_FREE v = 0" by (simp add: npg_def)
  then have "collected r cf (Some v) c4"
    unfolding collected_def using c4(2,3) k F4 vr R3 R4 rm c(10,11) by simp
  then show ?thesis using c3(1) c4(1) by (intro exI [of _ c4]) simp
qed

lemma picked_counts:
  assumes pk: "picked r cf (Some v) c1" and inv: "binv cf n {}"
  shows "npg cf PG_VALID v + npg cf PG_INVALID v = linesz (spp_of cf) r"
    "idx (lines c1) v = Some (lines c1 ! v)" "line_id (lines c1 ! v) = v"
    "l_ipc (lines c1 ! v) = npg cf PG_INVALID v"
proof -
  have vr: "v \<in> rng (spp_of cf) r" and nf: "\<forall>x \<in> line_pages (spp_of cf) v. stat (ssd cf) x \<noteq> PG_FREE"
    and b1: "binv c1 (settled c1) {v}" and s: "ssd c1 = ssd cf" using pk by (simp_all add: picked_def detached_def)
  note g = binvD(3) [OF inv]
  have vt: "v < tt_lines (spp_of cf)" using rng_bound [OF g vr] .
  have "st_in (ssd cf) PG_FREE (line_pages (spp_of cf) v) = {}" using nf by (auto simp: st_in_def)
  then show "npg cf PG_VALID v + npg cf PG_INVALID v = linesz (spp_of cf) r"
    using line_cards [OF g vt] linesz_ppl [OF vr] by (simp add: npg_def)
  show "idx (lines c1) v = Some (lines c1 ! v)" "line_id (lines c1 ! v) = v"
    using binvD(4) [OF b1] vt s by (simp_all add: lines_inv_def arr_simps)
  show "l_ipc (lines c1 ! v) = npg cf PG_INVALID v" using pk binvD(4) [OF inv] vt by (simp add: lines_inv_def npg_def picked_def)
qed

text \<open>\<open>do_gc\<close> unfolded at the mode it is called in.\<close>

lemma do_gc_picked:
  assumes sel: "(if r = SLC_MODE then select_victim_line_slc cf force
      else do { (v, cf) \<leftarrow> select_victim_line cf force; Some (v, cf\<lparr>gc_cnt := u64 (gc_cnt cf + 1)\<rparr>) }) = Some (w, c1)"
    and pk: "picked r cf w c1" and m: "minv cf {} {}" and inv: "binv cf n {}" and dyn: "dyn_slc_mode cf = r"
    and rm: "\<And>v. w = Some v \<Longrightarrow> npg cf PG_VALID v < room cf TLC_MODE"
  shows "\<exists>cf'. do_gc cf force = Some cf' \<and> collected r cf w cf'"
proof (cases w)
  case None
  have D: "detached cf c1" "binv c1 (settled c1) {}" using pk None by (simp_all add: picked_def)
  note dd = detachedD [OF D(1)]
  have "do_gc cf force = Some c1"
    using sel dyn None by (cases r) (simp_all add: do_gc_def Let_def)
  moreover have "collected r cf w c1"
    using D dd m None by (simp add: collected_def detached_def)
  ultimately show ?thesis by blast
next
  case (Some v)
  note D = detachedD [of cf c1]
  have d: "detached cf c1" and vr: "v \<in> rng (spp_of cf) r" using pk Some by (simp_all add: picked_def)
  note dd = detachedD [OF d] and pc = picked_counts [OF pk [unfolded Some] inv]
  let ?refill = "if r = SLC_MODE then pgs_per_line_slc (spp_of cf) else l_ipc (lines c1 ! v)"
  let ?c2 = "c1\<lparr>wfc := (wfc c1)\<lparr>credits_to_refill := ?refill\<rparr>\<rparr>" and ?io = "if r = SLC_MODE then USER_IO else GC_IO"
  have nf: "(if r = SLC_MODE then flashpgs_per_blk_slc (spp_of cf) else flashpgs_per_blk (spp_of cf)) = nflash (spp_of cf) v"
    using vr by (cases r) (auto simp: nflash_def rng_def)
  have ex: "do_gc cf force = do { c' \<leftarrow> foldM (\<lambda>f. foldM (\<lambda>c. foldM (\<lambda>l. gc_step ?io v (nflash (spp_of cf) v) f c l)
      [0..<luns_per_ch (spp_of cf)]) [0..<nchs (spp_of cf)]) [0..<nflash (spp_of cf) v] ?c2;
      mark_line_free c' (gc_ppa (spp_of cf) v 0 0 0) }"
    using sel dyn Some pc(2,3) dd(8) nf by (cases r) (simp_all add: do_gc_def Let_def)
  have "write_credits (wfc ?c2) = write_credits (wfc cf)"
    "credits_to_refill (wfc ?c2) = (if r = SLC_MODE then pgs_per_line_slc (spp_of cf) else npg cf PG_INVALID v)"
    using dd(7) pc(4) by simp_all
  then obtain cf' where "do { c' \<leftarrow> foldM (\<lambda>f. foldM (\<lambda>c. foldM (\<lambda>l. gc_step ?io v (nflash (spp_of cf) v) f c l)
      [0..<luns_per_ch (spp_of cf)]) [0..<nchs (spp_of cf)]) [0..<nflash (spp_of cf) v] ?c2;
      mark_line_free c' (gc_ppa (spp_of cf) v 0 0 0) } = Some cf'" "collected r cf (Some v) cf'"
    using collect_line_ok [OF pk [unfolded Some] m rm [OF Some], of ?c2 ?io] dyn dd(8) by auto
  then show ?thesis using ex Some by auto
qed

text \<open>Garbage collection of the TLC lines: with room for one more line it succeeds, and the room grows
  by the number of invalid pages of the victim, of which there is at least one.\<close>

lemma do_gc_tlc_ok:
  assumes inv: "binv cf (settled cf) {}" and m: "minv cf {} {}" and dyn: "dyn_slc_mode cf = TLC_MODE"
    and rm: "linesz (spp_of cf) TLC_MODE \<le> room cf TLC_MODE"
  shows "\<exists>w cf'. do_gc cf force = Some cf' \<and> collected TLC_MODE cf w cf' \<and>
    (\<forall>v. w = Some v \<longrightarrow> 0 < npg cf PG_INVALID v \<and> room cf' TLC_MODE = room cf TLC_MODE + npg cf PG_INVALID v) \<and>
    (w = None \<and> pgs_per_line (spp_of cf) \<le> 2 ^ 22 \<longrightarrow> live (pq_of (lm cf)) = [])"
proof -
  obtain w c1 where S: "select_victim_line cf force = Some (w, c1)" "picked TLC_MODE cf w c1"
    "\<forall>v \<in> set_option w. \<exists>x \<in> line_pages (spp_of cf) v. stat (ssd cf) x = PG_INVALID"
    "w = None \<and> pgs_per_line (spp_of cf) \<le> 2 ^ 22 \<longrightarrow> live (pq_of (lm cf)) = []"
    using select_victim_line_ok [OF inv] by blast
  let ?c1 = "c1\<lparr>gc_cnt := u64 (gc_cnt c1 + 1)\<rparr>"
  have pk: "picked TLC_MODE cf w ?c1" by (rule picked_cong [OF S(2)]) (simp_all add: keeps_def)
  have cnt: "npg cf PG_VALID v + npg cf PG_INVALID v = linesz (spp_of cf) TLC_MODE" "0 < npg cf PG_INVALID v" if "w = Some v" for v
  proof -
    show "npg cf PG_VALID v + npg cf PG_INVALID v = linesz (spp_of cf) TLC_MODE"
      using picked_counts(1) [OF S(2) [unfolded that] inv] .
    show "0 < npg cf PG_INVALID v" using S(3) that card_st_in_pos by (auto simp: npg_def)
  qed
  have rm': "npg cf PG_VALID v < room cf TLC_MODE" if "w = Some v" for v using cnt [OF that] rm by linarith
  have sel: "(if TLC_MODE = SLC_MODE then select_victim_line_slc cf force
      else do { (v, cf) \<leftarrow> select_victim_line cf force; Some (v, cf\<lparr>gc_cnt := u64 (gc_cnt cf + 1)\<rparr>) }) = Some (w, ?c1)"
    using S(1) by simp
  obtain cf' where C: "do_gc cf force = Some cf'" "collected TLC_MODE cf w cf'"
    using do_gc_picked [OF sel pk m inv dyn rm'] by blast
  have "room cf' TLC_MODE = room cf TLC_MODE + npg cf PG_INVALID v" if "w = Some v" for v
    using C(2) cnt [OF that] that by (simp add: collected_def)
  then show ?thesis using C S(4) cnt by blast
qed

text \<open>Migration of an SLC line: with room for the pages of a full SLC line it succeeds.\<close>

lemma do_gc_slc_ok:
  assumes inv: "binv cf (settled cf) {}" and m: "minv cf {} {}" and dyn: "dyn_slc_mode cf = SLC_MODE"
    and rm: "linesz (spp_of cf) SLC_MODE < room cf TLC_MODE"
  shows "\<exists>w cf'. do_gc cf force = Some cf' \<and> collected SLC_MODE cf w cf' \<and>
    (\<forall>v. w = Some v \<longrightarrow> room cf' TLC_MODE + npg cf PG_VALID v = room cf TLC_MODE \<and> npg cf PG_VALID v \<le> linesz (spp_of cf) SLC_MODE) \<and>
    (w = None \<and> force \<longrightarrow> full_line_list (slm cf) = [] \<and> live (pq_of (slm cf)) = [])"
proof -
  obtain w c1 where S: "select_victim_line_slc cf force = Some (w, c1)" "picked SLC_MODE cf w c1"
    "w = None \<and> force \<longrightarrow> full_line_list (slm cf) = [] \<and> live (pq_of (slm cf)) = []"
    using select_victim_line_slc_ok [OF inv] by blast
  have cnt: "npg cf PG_VALID v \<le> linesz (spp_of cf) SLC_MODE" if "w = Some v" for v
    using picked_counts(1) [OF S(2) [unfolded that] inv] by linarith
  have rm': "npg cf PG_VALID v < room cf TLC_MODE" if "w = Some v" for v using cnt [OF that] rm by linarith
  have sel: "(if SLC_MODE = SLC_MODE then select_victim_line_slc cf force
      else do { (v, cf) \<leftarrow> select_victim_line cf force; Some (v, cf\<lparr>gc_cnt := u64 (gc_cnt cf + 1)\<rparr>) }) = Some (w, c1)"
    using S(1) by simp
  obtain cf' where C: "do_gc cf force = Some cf'" "collected SLC_MODE cf w cf'"
    using do_gc_picked [OF sel S(2) m inv dyn rm'] by blast
  have "room cf' TLC_MODE + npg cf PG_VALID v = room cf TLC_MODE" if "w = Some v" for v
    using C(2) that by (simp add: collected_def)
  then show ?thesis using C S(3) cnt by blast
qed

end
