(* ===== verification/Conv_Write.thy ===== *)
theory Conv_Write
  imports Conv_Collect
begin

text \<open>
  The write path of a partition: \<open>foreground_gc\<close>, the write credits and the body of the loop of
  \<open>conv_write\<close>. \<open>ftl_inv\<close> is the invariant between two host writes: besides the consistency of flash,
  lines and tables, the write credits are the pages left in the SLC line under the write pointer, and
  at least three SLC lines are free. As long as the TLC lines have room for one more line
  (\<open>pgs_per_line < room\<close>), a page write succeeds and keeps all of it.
\<close>

section \<open>Foreground collection\<close>

lemma binv_dyn:
  assumes "binv cf (settled cf) {}" "minv cf {} {}"
  shows "binv (cf\<lparr>dyn_slc_mode := r\<rparr>) (settled (cf\<lparr>dyn_slc_mode := r\<rparr>)) {}" "minv (cf\<lparr>dyn_slc_mode := r\<rparr>) {} {}"
    "settled (cf\<lparr>dyn_slc_mode := r\<rparr>) = settled cf" "room (cf\<lparr>dyn_slc_mode := r\<rparr>) = room cf" "lpns (cf\<lparr>dyn_slc_mode := r\<rparr>) = lpns cf"
proof -
  show s: "settled (cf\<lparr>dyn_slc_mode := r\<rparr>) = settled cf" by (rule ext) (simp add: settled_def)
  show "room (cf\<lparr>dyn_slc_mode := r\<rparr>) = room cf" by (rule ext) (simp add: room_def s)
  show "lpns (cf\<lparr>dyn_slc_mode := r\<rparr>) = lpns cf" by (simp add: lpns_def)
  show "binv (cf\<lparr>dyn_slc_mode := r\<rparr>) (settled (cf\<lparr>dyn_slc_mode := r\<rparr>)) {}"
    unfolding s by (rule binv_cong [OF assms(1)]) simp_all
  show "minv (cf\<lparr>dyn_slc_mode := r\<rparr>) {} {}" by (rule minv_cong [OF assms(2)]) simp_all
qed

lemma linesz_le: "geo spp \<Longrightarrow> linesz spp SLC_MODE \<le> linesz spp TLC_MODE"
  by (simp add: linesz_def geoD(12,17,18))

lemma slc_candidates:
  assumes inv: "binv cf n {}" and "length (free_line_list (slm cf)) \<le> 2" "4 \<le> tt_lines_slc (spp_of cf)"
  shows "\<not> (full_line_list (slm cf) = [] \<and> live (pq_of (slm cf)) = [])"
  using members_count [OF binvD(3) [OF inv] binvD(6) [OF inv, of SLC_MODE]] assms(2,3)
  by (auto simp: length_members nlines_def lmof_def)

lemma free_cnt:
  assumes "binv cf n V"
  shows "free_line_cnt (slm cf) = length (free_line_list (slm cf))" "free_line_cnt (lm cf) = length (free_line_list (lm cf))"
  using binvD(6) [OF assms, of SLC_MODE] binvD(6) [OF assms, of TLC_MODE] by (simp_all add: lm_inv_def lmof_def)

text \<open>What a foreground collection leaves and achieves.\<close>

definition fg_done :: "conv_ftl \<Rightarrow> conv_ftl \<Rightarrow> bool" where
  "fg_done cf cf' \<longleftrightarrow> binv cf' (settled cf') {} \<and> minv cf' {} {} \<and> spp_of cf' = spp_of cf \<and> cp cf' = cp cf \<and>
     lpns cf' = lpns cf \<and> settled cf' SLC_MODE = settled cf SLC_MODE \<and> write_credits (wfc cf') = write_credits (wfc cf) \<and>
     credits_to_refill (wfc cf') = pgs_per_line_slc (spp_of cf) \<and> 3 \<le> length (free_line_list (slm cf')) \<and>
     room cf TLC_MODE \<le> room cf' TLC_MODE + linesz (spp_of cf) SLC_MODE"

lemma foreground_gc_ok:
  assumes inv: "binv cf (settled cf) {}" and m: "minv cf {} {}" and cp: "cp cf = conv_init_params"
    and fr: "2 \<le> length (free_line_list (slm cf))" "4 \<le> tt_lines_slc (spp_of cf)"
    and cr: "credits_to_refill (wfc cf) = pgs_per_line_slc (spp_of cf)"
    and rm: "linesz (spp_of cf) TLC_MODE < room cf TLC_MODE"
  shows "\<exists>cf'. foreground_gc cf = Some cf' \<and> fg_done cf cf'"
proof (cases "length (free_line_list (slm cf)) \<le> 2")
  case False
  then have "foreground_gc cf = Some cf"
    using cp free_cnt [OF inv] by (simp add: foreground_gc_def should_migration_high_def conv_init_params_def)
  moreover have "fg_done cf cf" using assms False by (simp add: fg_done_def)
  ultimately show ?thesis by blast
next
  case True
  note ll = linesz_le [OF binvD(3) [OF inv]]
  have "\<exists>c2. (if should_gc_high cf then do_gc (cf\<lparr>dyn_slc_mode := TLC_MODE\<rparr>) True else Some cf) = Some c2 \<and>
    binv c2 (settled c2) {} \<and> minv c2 {} {} \<and> spp_of c2 = spp_of cf \<and> cp c2 = cp cf \<and> lpns c2 = lpns cf \<and>
    settled c2 SLC_MODE = settled cf SLC_MODE \<and> write_credits (wfc c2) = write_credits (wfc cf) \<and>
    free_line_list (slm c2) = free_line_list (slm cf) \<and> room cf TLC_MODE \<le> room c2 TLC_MODE"
  proof (cases "should_gc_high cf")
    case False
    then show ?thesis using inv m by simp
  next
    case hi: True
    let ?c1 = "cf\<lparr>dyn_slc_mode := TLC_MODE\<rparr>"
    note d = binv_dyn [OF inv m, of TLC_MODE]
    obtain w c2 where C: "do_gc ?c1 True = Some c2" "collected TLC_MODE ?c1 w c2"
      "\<forall>v. w = Some v \<longrightarrow> room c2 TLC_MODE = room ?c1 TLC_MODE + npg ?c1 PG_INVALID v"
      using do_gc_tlc_ok [OF d(1,2), of True] rm d(4) by auto
    have "room cf TLC_MODE \<le> room c2 TLC_MODE" using C(2,3) d(4) by (cases w) (simp_all add: collected_def)
    then show ?thesis using hi C(1,2) d(3,5)
      by (intro exI [of _ c2]) (cases w, simp_all add: collected_def lmof_def)
  qed
  then obtain c2 where c2: "(if should_gc_high cf then do_gc (cf\<lparr>dyn_slc_mode := TLC_MODE\<rparr>) True else Some cf) = Some c2"
    "binv c2 (settled c2) {}" "minv c2 {} {}" "spp_of c2 = spp_of cf" "cp c2 = cp cf" "lpns c2 = lpns cf"
    "settled c2 SLC_MODE = settled cf SLC_MODE" "write_credits (wfc c2) = write_credits (wfc cf)"
    "free_line_list (slm c2) = free_line_list (slm cf)" "room cf TLC_MODE \<le> room c2 TLC_MODE" by blast
  let ?c3 = "c2\<lparr>dyn_slc_mode := SLC_MODE\<rparr>"
  note d = binv_dyn [OF c2(2,3), of SLC_MODE]
  have "linesz (spp_of ?c3) SLC_MODE < room ?c3 TLC_MODE" using rm c2(4,10) ll d(4) by simp
  then obtain w c4 where C: "do_gc ?c3 True = Some c4" "collected SLC_MODE ?c3 w c4"
    "\<forall>v. w = Some v \<longrightarrow> room c4 TLC_MODE + npg ?c3 PG_VALID v = room ?c3 TLC_MODE \<and> npg ?c3 PG_VALID v \<le> linesz (spp_of ?c3) SLC_MODE"
    "w = None \<longrightarrow> full_line_list (slm ?c3) = [] \<and> live (pq_of (slm ?c3)) = []"
    using do_gc_slc_ok [OF d(1,2), of True] by auto
  have "w \<noteq> None" using C(4) slc_candidates [OF d(1)] True fr(2) c2(4,9) by auto
  then obtain v where v: "w = Some v" by blast
  have "should_migration_high cf" using True cp free_cnt [OF inv] by (simp add: should_migration_high_def conv_init_params_def)
  then have "foreground_gc cf = Some c4"
    using c2(1) C(1) binvD(1) [OF c2(2)] by (simp add: foreground_gc_def)
  moreover have "fg_done cf c4"
    using C(2,3) v c2(4-10) d(3-5) fr(1) by (simp add: fg_done_def collected_def lmof_def)
  ultimately show ?thesis by blast
qed

section \<open>Rewriting a page\<close>

lemma binv_lines_frame:
  assumes inv: "binv cf n V" and h: "length h = length (lines cf)"
    "\<And>e. e < length (lines cf) \<Longrightarrow> line_id (h ! e) = line_id (lines cf ! e) \<and> l_ipc (h ! e) = l_ipc (lines cf ! e) \<and>
      l_vpc (h ! e) = l_vpc (lines cf ! e) \<and> l_pos (h ! e) = l_pos (lines cf ! e)"
  shows "binv (cf\<lparr>lines := h\<rparr>) n V"
proof -
  have "lm_inv (spp_of cf) h r (lmof r cf) [curline (wpof r cf)] V" for r
  proof (rule lm_inv_frame [OF binvD(6) [OF inv] h(1)])
    fix e assume e: "e \<in> set (live (pq_of (lmof r cf)))"
    have "vq.pq_inv (pq_of (lmof r cf)) (lines cf)" using binvD(6) [OF inv, of r] by (simp add: lm_inv_def)
    then show "l_pos (h ! e) = l_pos (lines cf ! e) \<and> l_vpc (h ! e) = l_vpc (lines cf ! e)" using e pq_live_bounds h(2) by blast
  qed
  moreover have "lines_inv (ssd cf) h V" "pos_inv h (victims cf)"
    using binvD(4,5) [OF inv] h by (simp_all add: lines_inv_def pos_inv_def)
  ultimately show ?thesis using inv by (simp add: binv_def victims_lmof)
qed

lemma unmapped_unclaimed:
  assumes m: "minv cf {} {}" and g: "geo (spp_of cf)" and "\<not> mapped_ppa (maptbl cf ! lpn)"
  shows "unclaimed cf {} lpn"
  unfolding unclaimed_def
proof (intro ballI impI)
  fix a assume a: "a \<in> pages (spp_of cf)" "stat (ssd cf) a = PG_VALID \<and> a \<notin> {}"
  then have "maptbl cf ! (rmap cf ! pgi (spp_of cf) a) = a" using m by (simp add: minv_def)
  then show "rmap cf ! pgi (spp_of cf) a \<noteq> lpn" using mapped_page [OF a(1) g] assms(3) by auto
qed

text \<open>The old copy of a page is dropped; everything but its mapping stays.\<close>

lemma overwrite_ok:
  assumes inv: "binv cf (settled cf) {}" and m: "minv cf {} {}" and lpn: "lpn < tt_pgs (spp_of cf)"
  shows "\<exists>cf' H. overwrite cf lpn = Some cf' \<and> binv cf' (settled cf') {} \<and> minv cf' {} H \<and> H \<subseteq> {lpn} \<and> unclaimed cf' {} lpn \<and>
    maptbl cf' = maptbl cf \<and> spp_of cf' = spp_of cf \<and> cp cf' = cp cf \<and> wfc cf' = wfc cf \<and> settled cf' = settled cf \<and>
    (\<forall>r. free_line_list (lmof r cf') = free_line_list (lmof r cf)) \<and> room cf' = room cf"
proof (cases "mapped_ppa (maptbl cf ! lpn)")
  case False
  have "lpn < length (maptbl cf)" using m lpn by (simp add: minv_def)
  then have "overwrite cf lpn = Some cf" using False by (simp add: overwrite_def get_maptbl_ent_def arr_simps)
  then show ?thesis
    using inv m unmapped_unclaimed [OF m binvD(3) [OF inv] False] by (intro exI [of _ cf] exI [of _ "{}"]) simp
next
  case True
  let ?a = "maptbl cf ! lpn" and ?spp = "spp_of cf"
  note g = binvD(3) [OF inv]
  have len: "length (maptbl cf) = tt_pgs ?spp" "length (rmap cf) = tt_pgs ?spp" using m by (simp_all add: minv_def)
  have a: "?a \<in> pages ?spp" "stat (ssd cf) ?a = PG_VALID" using m lpn True by (auto simp: minv_def)
  obtain c1 where c1: "mark_page_invalid cf ?a = Some c1" "binv c1 (settled cf) {}" "same_rest cf c1"
    "stat_upd (ssd cf) (ssd c1) ?a PG_INVALID" "\<forall>r. wpof r c1 = wpof r cf"
    "\<forall>r. free_line_list (lmof r c1) = free_line_list (lmof r cf)"
    using mark_page_invalid_ok [OF inv _ a] by auto
  have sp1: "spp_of c1 = ?spp" using c1(4) by (simp add: stat_upd_def)
  note sr = c1(3) [unfolded same_rest_def]
  let ?c2 = "c1\<lparr>rmap := (rmap cf)[pgi ?spp ?a := INVALID_LPN]\<rparr>"
  have "ppa2pgidx c1 ?a = Some (pgi ?spp ?a)"
    using ppa2pgidx_pages [of c1 ?a] g a(1) sp1 binvD(1) [OF c1(2)] by simp
  then have e2: "set_rmap_ent c1 INVALID_LPN ?a = Some ?c2"
    using pgi_bound [OF g a(1)] len sr by (simp add: set_rmap_ent_def)
  have s2: "settled ?c2 = settled cf" by (rule ext) (simp add: settled_def sp1 c1(5))
  have b2: "binv ?c2 (settled cf) {}" by (rule binv_cong [OF c1(2)]) simp_all
  have m2: "minv ?c2 {} {lpn}" "unclaimed ?c2 {} lpn"
    using minv_invalidate [OF m g lpn True, of ?c2 INVALID_LPN] c1(4) sr by simp_all
  have bl: "p_blk ?a < tt_lines ?spp" using a(1) by (simp add: pages_def)
  have gl: "get_line ?c2 ?a = Some (p_blk ?a)"
    using get_line_blk [OF binvD(1) [OF b2] _ _ lm_tt [OF b2], of ?a] g bl sp1 by simp
  let ?h = "modl (lines c1) (p_blk ?a) (\<lambda>l. l\<lparr>mtime := kclk c1 (ktick c1)\<rparr>)"
  let ?c3 = "?c2\<lparr>ktick := ktick c1 + 1, lines := ?h\<rparr>"
  have ex: "overwrite cf lpn = Some ?c3"
    using c1(1) e2 gl lpn len True
    by (simp add: overwrite_def get_maptbl_ent_def arr_simps ktime_get_ns_def upd_line_def)
  have "binv (?c2\<lparr>lines := ?h\<rparr>) (settled cf) {}"
    by (rule binv_lines_frame [OF b2]) (simp_all add: arr_simps)
  then have b3: "binv ?c3 (settled cf) {}" by (rule binv_cong) simp_all
  have s3: "settled ?c3 = settled cf" by (rule ext) (simp add: settled_def sp1 c1(5))
  have m3: "minv ?c3 {} {lpn}" by (rule minv_cong [OF m2(1)]) simp_all
  have u3: "unclaimed ?c3 {} lpn" using m2(2) by (simp add: unclaimed_def)
  have r3: "room ?c3 = room cf" by (rule ext) (simp add: room_def s3 [simplified] sp1 c1(6))
  show ?thesis
    using ex b3 m3 u3 s3 r3 sp1 sr c1(6) by (intro exI [of _ ?c3] exI [of _ "{lpn}"]) simp
qed

text \<open>The new copy of a page goes to the page under the SLC write pointer.\<close>

lemma new_write_ok:
  assumes inv: "binv cf (settled cf) {}" and m: "minv cf {} H" "H \<subseteq> {lpn}" and lpn: "lpn < tt_pgs (spp_of cf)" "unclaimed cf {} lpn"
    and rm: "2 \<le> room cf SLC_MODE"
  shows "\<exists>a cf'. new_write cf lpn = Some (a, cf') \<and> a = wpp (wpof SLC_MODE cf) \<and> a \<in> pages (spp_of cf) \<and>
    binv cf' (settled cf') {} \<and> minv cf' {} {} \<and> lpns cf' = insert lpn (lpns cf) \<and>
    maptbl cf' = (maptbl cf)[lpn := a] \<and> cp cf' = cp cf \<and> wfc cf' = wfc cf \<and> moved SLC_MODE cf cf'"
proof -
  let ?a = "wpp (wpof SLC_MODE cf)"
  have nw: "get_new_page USER_IO cf = Some ?a" using get_new_page_ok [OF inv, of SLC_MODE] by (simp add: io_of_def)
  have ap: "?a \<in> pages (spp_of cf)" using cur_rng(3) [OF inv, of SLC_MODE] by (simp add: line_pages_def)
  have len: "length (maptbl cf) = tt_pgs (spp_of cf)" using m(1) by (simp add: minv_def)
  obtain c1 where c1: "(do { cf \<leftarrow> set_maptbl_ent cf lpn ?a; cf \<leftarrow> set_rmap_ent cf lpn ?a; mark_page_valid cf ?a }) = Some c1"
    "binv c1 ((settled cf)(SLC_MODE := settled cf SLC_MODE + 1)) {}" "minv c1 {} (H - {lpn})"
    "lpns c1 = insert lpn (lpns cf)" "stat_upd (ssd cf) (ssd c1) ?a PG_VALID"
    "settled c1 = settled cf" "\<And>r. lmof r c1 = lmof r cf" "cp c1 = cp cf" "wfc c1 = wfc cf"
    using assign_ok [OF inv m(1) lpn, of SLC_MODE] by auto
  have mt: "maptbl c1 = (maptbl cf)[lpn := ?a]"
  proof -
    have "set_maptbl_ent cf lpn ?a = Some (cf\<lparr>maptbl := (maptbl cf)[lpn := ?a]\<rparr>)" using lpn(1) len by (simp add: set_maptbl_ent_def)
    moreover have "maptbl y = maptbl x" if "set_rmap_ent x lpn ?a = Some y" for x y
      using that by (auto simp: set_rmap_ent_def bind_eq_Some_conv NVMEV_ASSERT_def split: if_splits)
    moreover have "maptbl y = maptbl x" if "mark_page_valid x ?a = Some y" for x y
      using that by (auto simp: mark_page_valid_def Let_def bind_eq_Some_conv set_pg_status_def upd_block_def upd_line_def)
    ultimately show ?thesis using c1(1) by (auto simp: bind_eq_Some_conv)
  qed
  have sp1: "spp_of c1 = spp_of cf" using c1(5) by (simp add: stat_upd_def)
  have r1: "room c1 = room cf" by (rule ext) (simp add: room_def sp1 c1(6,7))
  have H0: "H - {lpn} = {}" using m(2) by blast
  have m1: "minv c1 {} {}" using c1(3) unfolding H0 .
  obtain c2 where c2: "advance_write_pointer (io_of SLC_MODE) c1 = Some c2" "binv c2 (settled c2) {}" "ssd c2 = ssd c1"
    "keeps c1 c2" "moved SLC_MODE c1 c2"
    using advance_ok [OF c1(2)] c1(6) rm r1 by auto
  have "new_write cf lpn = Some (?a, c2)"
  proof -
    obtain x y where "set_maptbl_ent cf lpn ?a = Some x" "set_rmap_ent x lpn ?a = Some y" "mark_page_valid y ?a = Some c1"
      using c1(1) by (auto simp: bind_eq_Some_conv)
    then show ?thesis using nw c2(1) by (simp add: new_write_def io_of_def)
  qed
  moreover have "minv c2 {} {}" by (rule minv_cong [OF m1]) (use c2(3,4) in \<open>simp_all add: keeps_def\<close>)
  moreover have "lpns c2 = insert lpn (lpns cf)" using c1(4) c2(3,4) by (simp add: lpns_def keeps_def)
  moreover have "moved SLC_MODE cf c2" using c2(5) sp1 c1(6,7) by (simp add: moved_def)
  moreover have "maptbl c2 = (maptbl cf)[lpn := ?a]" "cp c2 = cp cf" "wfc c2 = wfc cf"
    using mt c2(4) c1(8,9) by (simp_all add: keeps_def)
  ultimately show ?thesis using ap c2(2) by (intro exI [of _ ?a] exI [of _ c2]) simp
qed

section \<open>The invariant between host writes\<close>

definition ftl_inv :: "conv_ftl \<Rightarrow> bool" where
  "ftl_inv cf \<longleftrightarrow> binv cf (settled cf) {} \<and> minv cf {} {} \<and> cp cf = conv_init_params \<and> 4 \<le> tt_lines_slc (spp_of cf) \<and>
     pgs_per_line_slc (spp_of cf) < 2 ^ 31 \<and>
     3 \<le> length (free_line_list (slm cf)) \<and> credits_to_refill (wfc cf) = pgs_per_line_slc (spp_of cf) \<and>
     write_credits (wfc cf) + settled cf SLC_MODE = pgs_per_line_slc (spp_of cf)"

text \<open>The room of the TLC lines together with the credits already granted. A page written by the host costs
  at most one page of it (shown below), so it is what a sequence of writes can rely on.\<close>

definition budget :: "conv_ftl \<Rightarrow> nat" where
  "budget cf = room cf TLC_MODE + write_credits (wfc cf)"

lemma program_wordline_ok:
  assumes inv: "binv cf (settled cf) {}" and m: "minv cf {} {}" and a: "a \<in> pages (spp_of cf)" and sw: "nc_cmd swr = NAND_WRITE"
  shows "\<exists>d s'. program_wordline cf swr a = Some (d, cf\<lparr>ssd := s'\<rparr>) \<and> tm_keep (ssd cf) s' \<and>
    (d = None \<longleftrightarrow> \<not> last_pg_in_wordline_slc cf a) \<and>
    (\<forall>t n. d = Some (t, n) \<longrightarrow> nc_stime swr \<le> t \<and> n = pgs_per_oneshotpg_slc (spp_of cf) * pgsz (spp_of cf))"
proof (cases "last_pg_in_wordline_slc cf a")
  case False
  have "tm_keep (ssd cf) (ssd cf)" using binvD(2) [OF inv] by (simp add: tm_keep_def nand_inv_def)
  then show ?thesis using False binvD(1) [OF inv]
    by (intro exI [of _ None] exI [of _ "ssd cf"]) (simp add: program_wordline_def)
next
  case True
  obtain t s' where n: "advance_nand cf (swr\<lparr>nc_ppa := a\<rparr>) = Some (t, cf\<lparr>ssd := s'\<rparr>)" "tm_keep (ssd cf) s'" "nc_stime swr \<le> t"
    using advance_nand_ok [OF inv, of "swr\<lparr>nc_ppa := a\<rparr>"] a sw by (auto simp: NAND_WRITE_def NAND_READ_def)
  note sp = timing_frame(6) [OF n(2)]
  show ?thesis using True n binvD(1) [OF inv] sp
    by (intro exI [of _ "Some (t, pgs_per_oneshotpg_slc (spp_of cf) * pgsz (spp_of cf))"] exI [of _ s'])
      (simp add: program_wordline_def)
qed

text \<open>One write credit is spent; when the last is spent the line under the write pointer has just been
  changed, a collection runs and the credits of the new line are granted.\<close>

lemma credits_ok:
  assumes inv: "binv cf (settled cf) {}" and m: "minv cf {} {}" and cp: "cp cf = conv_init_params" "4 \<le> tt_lines_slc (spp_of cf)"
    "pgs_per_line_slc (spp_of cf) < 2 ^ 31"
    and cr: "credits_to_refill (wfc cf) = pgs_per_line_slc (spp_of cf)" "0 < write_credits (wfc cf)"
    and pos: "settled cf SLC_MODE + write_credits (wfc cf) = pgs_per_line_slc (spp_of cf) + 1 \<and> 3 \<le> length (free_line_list (slm cf)) \<and>
        1 < write_credits (wfc cf) \<or>
      settled cf SLC_MODE = 0 \<and> write_credits (wfc cf) = 1 \<and> 2 \<le> length (free_line_list (slm cf))"
    and rm: "linesz (spp_of cf) TLC_MODE < room cf TLC_MODE"
  shows "\<exists>cf'. check_and_refill_write_credit (consume_write_credit cf) = Some cf' \<and> ftl_inv cf' \<and> lpns cf' = lpns cf \<and>
    spp_of cf' = spp_of cf \<and> budget cf \<le> budget cf' + 1"
proof -
  have w: "write_credits (wfc cf) < 2 ^ 32" using pos cp(3) by auto
  let ?c1 = "consume_write_credit cf"
  have wc: "wfc ?c1 = (wfc cf)\<lparr>write_credits := write_credits (wfc cf) - 1\<rparr>"
    using cr(2) w by (simp add: consume_write_credit_def dec32_pos)
  have same: "ssd ?c1 = ssd cf" "slm ?c1 = slm cf" "lm ?c1 = lm cf" "cp ?c1 = cp cf" "maptbl ?c1 = maptbl cf" "rmap ?c1 = rmap cf"
    "lines ?c1 = lines cf" "slc_mode ?c1 = slc_mode cf" "\<And>r. lmof r ?c1 = lmof r cf" "\<And>r. wpof r ?c1 = wpof r cf"
    by (simp_all add: consume_write_credit_def)
  have s1: "settled ?c1 = settled cf" by (rule ext) (simp add: settled_def same)
  have r1: "room ?c1 = room cf" by (rule ext) (simp add: room_def s1 same)
  have b1: "binv ?c1 (settled ?c1) {}" unfolding s1 by (rule binv_cong [OF inv]) (simp_all add: same)
  have m1: "minv ?c1 {} {}" by (rule minv_cong [OF m]) (simp_all add: same)
  have l1: "lpns ?c1 = lpns cf" by (simp add: lpns_def same)
  show ?thesis
  proof (cases "1 < write_credits (wfc cf)")
    case True
    then have "check_and_refill_write_credit ?c1 = Some ?c1" using wc by (simp add: check_and_refill_write_credit_def)
    moreover have "write_credits (wfc ?c1) + settled ?c1 SLC_MODE = pgs_per_line_slc (spp_of ?c1)"
      using pos True wc by (simp add: same s1) arith
    then have "ftl_inv ?c1" using True b1 m1 cp cr pos wc by (simp add: ftl_inv_def same s1)
    ultimately show ?thesis using l1 r1 same wc by (intro exI [of _ ?c1]) (simp add: budget_def)
  next
    case False
    then have p: "settled cf SLC_MODE = 0" "write_credits (wfc cf) = 1" "2 \<le> length (free_line_list (slm cf))" using pos by auto
    obtain c2 where c2: "foreground_gc ?c1 = Some c2" "fg_done ?c1 c2"
      using foreground_gc_ok [OF b1 m1] cp cr p(3) rm r1 wc by (auto simp: same)
    let ?c3 = "c2\<lparr>wfc := (wfc c2)\<lparr>write_credits := u32 (write_credits (wfc c2) + credits_to_refill (wfc c2))\<rparr>\<rparr>"
    note f = c2(2) [unfolded fg_done_def]
    have ex: "check_and_refill_write_credit ?c1 = Some ?c3" using c2(1) p(2) wc by (simp add: check_and_refill_write_credit_def)
    have s3: "settled ?c3 = settled c2" by (rule ext) (simp add: settled_def)
    have r3: "room ?c3 = room c2" by (rule ext) (simp add: room_def s3 [simplified])
    have b3: "binv ?c3 (settled ?c3) {}" unfolding s3 by (rule binv_cong [of c2]) (use f in simp_all)
    have m3: "minv ?c3 {} {}" by (rule minv_cong [of c2]) (use f in simp_all)
    have cr3: "write_credits (wfc ?c3) = pgs_per_line_slc (spp_of cf)" "credits_to_refill (wfc ?c3) = pgs_per_line_slc (spp_of cf)"
      using f wc p(2) cp(3) same(1) by simp_all
    have "ftl_inv ?c3"
      unfolding ftl_inv_def using b3 m3 cr3 f cp p(1) same(1,4) s1 s3 by simp
    moreover have "lpns ?c3 = lpns cf"
    proof -
      have "lpns ?c3 = lpns c2" by (simp add: lpns_def)
      then show ?thesis using f l1 by simp
    qed
    moreover have "budget cf \<le> budget ?c3 + 1"
      using f r1 r3 same(1) p(2) cr3(1) by (simp add: budget_def linesz_def)
    ultimately show ?thesis using ex f same(1) by (intro exI [of _ ?c3]) simp
  qed
qed

lemma write_page_ok:
  assumes inv: "ftl_inv cf" and lpn: "lpn < tt_pgs (spp_of cf)" and sw: "nc_cmd swr = NAND_WRITE"
    and rm: "pgs_per_line (spp_of cf) < room cf TLC_MODE"
  shows "\<exists>d cf'. write_page cf swr lpn = Some (d, cf') \<and> ftl_inv cf' \<and> lpns cf' = insert lpn (lpns cf) \<and>
    spp_of cf' = spp_of cf \<and> budget cf \<le> budget cf' + 1 \<and>
    (\<forall>t n. d = Some (t, n) \<longrightarrow> nc_stime swr \<le> t \<and> n = pgs_per_oneshotpg_slc (spp_of cf) * pgsz (spp_of cf))"
proof -
  note i = inv [unfolded ftl_inv_def]
  have b: "binv cf (settled cf) {}" and m: "minv cf {} {}" using i by simp_all
  let ?spp = "spp_of cf"
  obtain c1 H where c1: "overwrite cf lpn = Some c1" "binv c1 (settled c1) {}" "minv c1 {} H" "H \<subseteq> {lpn}" "unclaimed c1 {} lpn"
    "maptbl c1 = maptbl cf" "spp_of c1 = ?spp" "cp c1 = cp cf" "wfc c1 = wfc cf" "settled c1 = settled cf"
    "\<forall>r. free_line_list (lmof r c1) = free_line_list (lmof r cf)" "room c1 = room cf"
    using overwrite_ok [OF b m lpn] by blast
  have sb: "settled cf r < linesz ?spp r" for r using settled_bound [OF b] .
  have "2 \<le> room cf SLC_MODE"
  proof -
    have "1 \<le> linesz ?spp SLC_MODE" using sb [of SLC_MODE] by linarith
    moreover have "3 \<le> length (free_line_list (lmof SLC_MODE cf))" using i by (simp add: lmof_def)
    ultimately have "1 * 3 \<le> linesz ?spp SLC_MODE * length (free_line_list (lmof SLC_MODE cf))" by (rule mult_le_mono)
    then show ?thesis by (simp add: room_def)
  qed
  then obtain a c2 where c2: "new_write c1 lpn = Some (a, c2)" "a \<in> pages ?spp" "binv c2 (settled c2) {}" "minv c2 {} {}"
    "lpns c2 = insert lpn (lpns c1)" "cp c2 = cp c1" "wfc c2 = wfc c1" "moved SLC_MODE c1 c2"
    using new_write_ok [OF c1(2-4) _ c1(5)] lpn c1(7,12) by auto
  have sp2: "spp_of c2 = ?spp" using c2(8) c1(7) by (simp add: moved_def)
  obtain d s' where p: "program_wordline c2 swr a = Some (d, c2\<lparr>ssd := s'\<rparr>)" "tm_keep (ssd c2) s'"
    "\<forall>t n. d = Some (t, n) \<longrightarrow> nc_stime swr \<le> t \<and> n = pgs_per_oneshotpg_slc ?spp * pgsz ?spp"
    using program_wordline_ok [OF c2(3,4) _ sw, of a] c2(2) sp2 by auto
  let ?c3 = "c2\<lparr>ssd := s'\<rparr>"
  note F = timing_frame [OF p(2)]
  have b3: "binv ?c3 (settled ?c3) {}" unfolding F(1) by (rule binv_timing [OF c2(3) p(2)])
  have m3: "minv ?c3 {} {}" by (rule F(4) [OF c2(4)])
  have mv: "settled c2 SLC_MODE = settled cf SLC_MODE + 1 \<and> free_line_list (slm c2) = free_line_list (slm cf) \<or>
     settled c2 SLC_MODE = 0 \<and> settled cf SLC_MODE + 1 = pgs_per_line_slc ?spp \<and>
     length (free_line_list (slm cf)) = length (free_line_list (slm c2)) + 1"
  proof -
    have fl: "free_line_list (slm c1) = free_line_list (slm cf)" using c1(11) [rule_format, of SLC_MODE] by (simp add: lmof_def)
    have "settled c2 SLC_MODE = settled c1 SLC_MODE + 1 \<and> free_line_list (slm c2) = free_line_list (slm c1) \<or>
      settled c2 SLC_MODE = 0 \<and> settled c1 SLC_MODE + 1 = linesz (spp_of c1) SLC_MODE \<and>
        (\<exists>x. free_line_list (slm c1) = x # free_line_list (slm c2))"
      using c2(8) by (simp add: moved_def lmof_def)
    then show ?thesis unfolding fl c1(7,10) by (auto simp: linesz_def)
  qed
  have rT: "room c2 TLC_MODE = room cf TLC_MODE"
    using moved_room(2) [OF c2(8), of TLC_MODE] sb c1(7,10,12) by simp
  have s2: "settled c2 SLC_MODE < pgs_per_line_slc ?spp" using settled_bound [OF c2(3), of SLC_MODE] sp2 by (simp add: linesz_def)
  have wp: "0 < write_credits (wfc cf)" using i sb [of SLC_MODE] by (simp add: linesz_def)
  have pos: "settled c2 SLC_MODE + write_credits (wfc cf) = pgs_per_line_slc ?spp + 1 \<and> 3 \<le> length (free_line_list (slm c2)) \<and>
        1 < write_credits (wfc cf) \<or>
      settled c2 SLC_MODE = 0 \<and> write_credits (wfc cf) = 1 \<and> 2 \<le> length (free_line_list (slm c2))"
    using mv
  proof
    assume "settled c2 SLC_MODE = settled cf SLC_MODE + 1 \<and> free_line_list (slm c2) = free_line_list (slm cf)"
    then show ?thesis using i s2 by auto
  next
    assume "settled c2 SLC_MODE = 0 \<and> settled cf SLC_MODE + 1 = pgs_per_line_slc ?spp \<and>
     length (free_line_list (slm cf)) = length (free_line_list (slm c2)) + 1"
    then show ?thesis using i by auto
  qed
  have "\<exists>cf'. check_and_refill_write_credit (consume_write_credit ?c3) = Some cf' \<and> ftl_inv cf' \<and> lpns cf' = lpns ?c3 \<and>
    spp_of cf' = spp_of ?c3 \<and> budget ?c3 \<le> budget cf' + 1"
    by (rule credits_ok [OF b3 m3]) (use i c1(8,9) c2(6,7) pos wp rm rT F(1,2,6) sp2 in \<open>simp_all add: linesz_def\<close>)
  then obtain c4 where c4: "check_and_refill_write_credit (consume_write_credit ?c3) = Some c4" "ftl_inv c4" "lpns c4 = lpns ?c3"
    "spp_of c4 = spp_of ?c3" "budget ?c3 \<le> budget c4 + 1" by blast
  have bud: "budget ?c3 = budget cf" using rT F(2) c1(9) c2(7) by (simp add: budget_def)
  have "write_page cf swr lpn = Some (d, c4)" using c1(1) c2(1) p(1) c4(1) by (simp add: write_page_def)
  moreover have "lpns c4 = insert lpn (lpns cf)" using c4(3) F(5) c2(5) c1(6,7) by (simp add: lpns_def)
  ultimately show ?thesis
    using c4(2,4,5) F(6) bud sp2 p(3) by (intro exI [of _ d] exI [of _ c4]) simp
qed

section \<open>Sequences of writes\<close>

text \<open>\<open>n\<close> page writes succeed when the budget exceeds the two lines in use by \<open>n\<close>.\<close>

definition affords :: "conv_ftl \<Rightarrow> nat \<Rightarrow> bool" where
  "affords cf n \<longleftrightarrow> pgs_per_line (spp_of cf) + pgs_per_line_slc (spp_of cf) + n \<le> budget cf"

lemma affords_room: "ftl_inv cf \<Longrightarrow> affords cf (Suc n) \<Longrightarrow> pgs_per_line (spp_of cf) < room cf TLC_MODE"
  by (simp add: ftl_inv_def affords_def budget_def)

lemma affords_step:
  "affords cf (Suc n) \<Longrightarrow> budget cf \<le> budget cf' + 1 \<Longrightarrow> spp_of cf' = spp_of cf \<Longrightarrow> affords cf' n"
  by (simp add: affords_def)

lemma write_pages_ok:
  assumes "ftl_inv cf" "affords cf (length ls)" "\<forall>l \<in> set ls. l < tt_pgs (spp_of cf)" "nc_cmd swr = NAND_WRITE"
  shows "\<exists>cf'. foldM (\<lambda>l cf. do { (_, cf) \<leftarrow> write_page cf swr l; Some cf }) ls cf = Some cf' \<and> ftl_inv cf' \<and>
    lpns cf' = lpns cf \<union> set ls \<and> spp_of cf' = spp_of cf \<and> budget cf \<le> budget cf' + length ls"
  using assms
proof (induction ls arbitrary: cf)
  case Nil
  then show ?case by simp
next
  case (Cons l ls)
  note rm = affords_room [OF Cons.prems(1) Cons.prems(2) [simplified]]
  obtain d c1 where c1: "write_page cf swr l = Some (d, c1)" "ftl_inv c1" "lpns c1 = insert l (lpns cf)" "spp_of c1 = spp_of cf"
    "budget cf \<le> budget c1 + 1"
    using write_page_ok [OF Cons.prems(1) _ Cons.prems(4) rm, of l] Cons.prems(3) by auto
  have "affords c1 (length ls)" using affords_step [OF Cons.prems(2) [simplified] c1(5,4)] .
  then obtain c2 where "foldM (\<lambda>l cf. do { (_, cf) \<leftarrow> write_page cf swr l; Some cf }) ls c1 = Some c2" "ftl_inv c2"
    "lpns c2 = lpns c1 \<union> set ls" "spp_of c2 = spp_of c1" "budget c1 \<le> budget c2 + length ls"
    using Cons.IH [OF c1(2)] Cons.prems(3,4) c1(4) by auto
  then show ?case using c1 by (intro exI [of _ c2]) auto
qed

end
