(* ===== verification/Conv_Init.thy ===== *)
theory Conv_Init
  imports Conv_Write
begin

text \<open>
  Initialisation. \<open>ssd_init\<close> builds a NAND tree of the shape of the geometry with every page free, and
  \<open>conv_init_ftl\<close> on it establishes \<open>ftl_inv\<close>: no page is mapped and the TLC write pointer has all the
  TLC pages before it.
\<close>

section \<open>The NAND tree\<close>

definition timing_ok :: "ssdparams \<Rightarrow> bool" where
  "timing_ok spp \<longleftrightarrow> 0 < max_ch_xfer_size spp \<and> 0 < cell_mode spp \<and>
     cell_mode spp \<le> length (pg_4kb_rd_lat spp) \<and> cell_mode spp \<le> length (pg_rd_lat spp) \<and>
     0 < BANDWIDTH_TO_MAX_CREDITS (ch_bandwidth spp) \<and> BANDWIDTH_TO_MAX_CREDITS (ch_bandwidth spp) < 2 ^ 8 \<and>
     0 < BANDWIDTH_TO_MAX_CREDITS (pcie_bandwidth spp) \<and> BANDWIDTH_TO_MAX_CREDITS (pcie_bandwidth spp) < 2 ^ 8"

lemma ssd_init_get_blk:
  assumes g: "geo spp" and a: "a \<in> pages spp"
  shows "get_blk (ssd_init junk clock spp cpu) a =
    Some (if p_blk a < tt_lines_slc spp then ssd_init_nand_blk_slc spp else ssd_init_nand_blk spp)"
proof -
  have b: "p_ch a < nchs spp" "p_lun a < luns_per_ch spp" "p_pl a = 0" "p_blk a < blks_per_pl spp" "0 < pls_per_lun spp"
    using a geoD(5,14) [OF g] by (auto simp: pages_def)
  then show ?thesis
    by (simp add: get_blk_def get_pl_def get_lun_def get_ch_def ssd_init_def ssd_init_ch_def ssd_init_nand_lun_def
        ssd_init_nand_plane_def Let_def idx_map idx_upt)
qed

lemma ssd_init_tm: "geo spp \<Longrightarrow> timing_ok spp \<Longrightarrow> tm_inv (ssd_init junk clock spp cpu)"
proof -
  assume g: "geo spp" and t: "timing_ok spp"
  have c: "chm_inv (chmodel_init (ch_bandwidth spp))" "chm_inv (chmodel_init (pcie_bandwidth spp))"
    using t by (auto intro!: chmodel_init_inv simp: timing_ok_def)
  have x: "chm_inv (m\<lparr>xfer_lat := n\<rparr>) = chm_inv m" for m n by (simp add: chm_inv_def slot_def)
  show ?thesis
    using t c geoD(6) [OF g]
    by (auto simp: tm_inv_def timing_ok_def ssd_init_def ssd_init_ch_def ssd_init_pcie_def Let_def x)
qed

lemma ssd_init_ok:
  assumes g: "geo spp" and t: "timing_ok spp"
  shows "nand_inv (ssd_init junk clock spp cpu)" "\<And>a. a \<in> pages spp \<Longrightarrow> stat (ssd_init junk clock spp cpu) a = PG_FREE"
proof -
  let ?s = "ssd_init junk clock spp cpu"
  have sp: "sp ?s = spp" by (simp add: ssd_init_def)
  show st: "stat ?s a = PG_FREE" if a: "a \<in> pages spp" for a
  proof -
    have "p_pg a < ppb spp (p_blk a)" using a by (simp add: pages_def)
    then show ?thesis
      using ssd_init_get_blk [OF g a]
      by (cases "p_blk a < tt_lines_slc spp") (auto simp: stat_def get_pg_def ppb_def ssd_init_nand_blk_def ssd_init_nand_blk_slc_def ssd_init_nand_page_def idx_map idx_upt)
  qed
  have e: "st_in ?s q (blk_pages spp a) = {}" if "q \<noteq> PG_FREE" for q a
    using st that pages_sub(2) [of spp a] by (auto simp: st_in_def)
  have "blk_ok ?s a (if p_blk a < tt_lines_slc spp then ssd_init_nand_blk_slc spp else ssd_init_nand_blk spp)" for a
    using e [of PG_VALID a] e [of PG_INVALID a]
    by (auto simp: blk_ok_def sp ppb_def ssd_init_nand_blk_def ssd_init_nand_blk_slc_def ssd_init_nand_page_def)
  then show "nand_inv ?s"
    using ssd_init_get_blk [OF g] ssd_init_tm [OF g t] g by (simp add: nand_inv_def sp)
qed

section \<open>The FTL\<close>

text \<open>The state that \<open>conv_init_ftl\<close> leaves.\<close>

definition init_lm :: "(nat \<Rightarrow> nat) \<Rightarrow> nat \<Rightarrow> nat \<Rightarrow> line_mgmt" where
  "init_lm junk b n = \<lparr>lines_base = b, free_line_list = [Suc b..<b + n], victim_line_pq = new_pq junk n, full_line_list = [],
     lm_tt_lines = n, free_line_cnt = n - 1, victim_line_cnt = 0, full_line_cnt = 0\<rparr>"

definition init_state :: "(nat \<Rightarrow> nat) \<Rightarrow> ssd \<Rightarrow> conv_ftl \<Rightarrow> conv_ftl \<Rightarrow> bool" where
  "init_state junk s cf0 cf \<longleftrightarrow> ssd cf = s \<and> cp cf = conv_init_params \<and> slc_mode cf = SLC_MODE \<and>
     maptbl cf = map (\<lambda>i. ones_ppa) [0..<tt_pgs (sp s)] \<and> rmap cf = map (\<lambda>i. INVALID_LPN) [0..<tt_pgs (sp s)] \<and>
     lines cf = new_lines 0 (tt_lines_slc (sp s)) @ new_lines (tt_lines_slc (sp s)) (tt_lines_tlc (sp s)) \<and>
     slm cf = init_lm junk 0 (tt_lines_slc (sp s)) \<and> lm cf = init_lm junk (tt_lines_slc (sp s)) (tt_lines_tlc (sp s)) \<and>
     wp cf = \<lparr>curline = 0, w_ch = 0, w_lun = 0, w_pg = 0, w_blk = 0, w_pl = 0\<rparr> \<and>
     gc_wp cf = \<lparr>curline = tt_lines_slc (sp s), w_ch = 0, w_lun = 0, w_pg = 0, w_blk = tt_lines_slc (sp s), w_pl = 0\<rparr> \<and>
     wfc cf = \<lparr>write_credits = pgs_per_line_slc (sp s), credits_to_refill = pgs_per_line_slc (sp s)\<rparr>"

lemma new_lines_nth: "i < n \<Longrightarrow> new_lines k n ! i = \<lparr>line_id = i + k, l_ipc = 0, l_vpc = 0, l_pos = 0, mtime = 0\<rparr>"
  and new_lines_len: "length (new_lines k n) = n"
  by (simp_all add: new_lines_def)

lemma lines_nth:
  "i < m + n \<Longrightarrow> (new_lines 0 m @ new_lines m n) ! i = \<lparr>line_id = i, l_ipc = 0, l_vpc = 0, l_pos = 0, mtime = 0\<rparr>"
  by (simp add: nth_append new_lines_len new_lines_nth)

lemma take_first:
  assumes "0 < n"
  shows "removeAll b [b..<b + n] = [Suc b..<b + n]" "[b..<b + n] = b # [Suc b..<b + n]"
proof -
  show e: "[b..<b + n] = b # [Suc b..<b + n]" using assms by (simp add: upt_conv_Cons)
  have "removeAll b [Suc b..<b + n] = [Suc b..<b + n]" by (rule removeAll_id) simp
  then show "removeAll b [b..<b + n] = [Suc b..<b + n]" unfolding e by simp
qed

lemma shift_upt: "map (\<lambda>i. k + i) [0..<n] = [k..<k + n]"
  by (simp add: map_add_upt add.commute)

lemma conv_init_ftl_state:
  assumes g: "geo (sp s)" and n: "0 < tt_lines_slc (sp s)" "0 < tt_lines_tlc (sp s)"
  shows "\<exists>cf'. conv_init_ftl junk conv_init_params s cf = Some cf' \<and> init_state junk s cf cf'"
proof -
  let ?S = "tt_lines_slc (sp s)" and ?T = "tt_lines_tlc (sp s)"
  have tt: "?T + ?S = tt_lines (sp s)" "tt_lines (sp s) \<le> 2 ^ 16" using geoD(15,16) [OF g] by simp_all
  then have small: "?S < 2 ^ 32" "?T < 2 ^ 32" by simp_all
  have dec: "dec32 ?S = ?S - 1" "dec32 ?T = ?T - 1" using dec32_pos n small by blast+
  have fl: "[0..<?S] = 0 # [Suc 0..<?S]" "[?S..<?S + ?T] = ?S # [Suc ?S..<?S + ?T]"
    using take_first(2) [OF n(1), of 0] take_first(2) [OF n(2), of ?S] by simp_all
  have rm: "removeAll 0 [0..<?S] = [Suc 0..<?S]" "removeAll ?S [?S..<?S + ?T] = [Suc ?S..<?S + ?T]"
    "removeAll 0 [?S..<?S + ?T] = [?S..<?S + ?T]" "removeAll ?S [Suc 0..<?S] = [Suc 0..<?S]"
    using take_first(1) [OF n(1), of 0] take_first(1) [OF n(2), of ?S] n(1)
    by (simp_all add: removeAll_id)
  define c0 where "c0 = init_rmap (init_maptbl (cf\<lparr>cp := conv_init_params, ssd := s, slc_mode := SLC_MODE\<rparr>))"
  define ls where "ls = new_lines 0 ?S @ new_lines ?S ?T"
  have l0: "idx ls 0 = Some \<lparr>line_id = 0, l_ipc = 0, l_vpc = 0, l_pos = 0, mtime = 0\<rparr>"
    "idx ls ?S = Some \<lparr>line_id = ?S, l_ipc = 0, l_vpc = 0, l_pos = 0, mtime = 0\<rparr>"
    using lines_nth [of 0 ?S ?T] lines_nth [of ?S ?S ?T] n by (simp_all add: idx_def ls_def new_lines_len)
  define m0 where "m0 = (\<lambda>b k. \<lparr>lines_base = b, free_line_list = [b..<b + k], victim_line_pq = new_pq junk k, full_line_list = [],
     lm_tt_lines = k, free_line_cnt = k, victim_line_cnt = 0, full_line_cnt = 0\<rparr>)"
  define c1 where "c1 = c0\<lparr>lines := ls, lm := m0 ?S ?T, slm := m0 0 ?S\<rparr>"
  have f0: "ssd c0 = s" "slc_mode c0 = SLC_MODE" by (simp_all add: c0_def init_rmap_def init_maptbl_def)
  have i1: "init_lines junk c0 = Some c1"
    using tt f0 by (simp add: init_lines_def Let_def c1_def m0_def ls_def shift_upt)
  define c2 where "c2 = c1\<lparr>dyn_slc_mode := SLC_MODE, lm := m0 ?S ?T, slm := init_lm junk 0 ?S,
     wp := \<lparr>curline = 0, w_ch = 0, w_lun = 0, w_pg = 0, w_blk = 0, w_pl = 0\<rparr>\<rparr>"
  have i2: "prepare_write_pointer USER_IO c1 = Some c2"
    using fl rm dec l0(1) f0(2)
    by (simp add: prepare_write_pointer_def Let_def get_next_free_line_def lmof_def upd_lm_def list_del_init_def
        c1_def c2_def m0_def init_lm_def set_wp_def)
  define c3 where "c3 = c2\<lparr>dyn_slc_mode := TLC_MODE, lm := init_lm junk ?S ?T, slm := init_lm junk 0 ?S,
     gc_wp := \<lparr>curline = ?S, w_ch = 0, w_lun = 0, w_pg = 0, w_blk = ?S, w_pl = 0\<rparr>\<rparr>"
  have i3: "prepare_write_pointer GC_IO c2 = Some c3"
    using fl rm dec l0(2) f0(2)
    by (simp add: prepare_write_pointer_def Let_def get_next_free_line_def lmof_def upd_lm_def list_del_init_def
        c1_def c2_def c3_def m0_def init_lm_def set_wp_def)
  have "conv_init_ftl junk conv_init_params s cf = Some (init_write_flow_control c3)"
    using i1 i2 i3 by (simp add: conv_init_ftl_def ENABLE_SLC_CACHE_def c0_def Let_def)
  moreover have "init_state junk s cf (init_write_flow_control c3)"
    by (simp add: init_state_def init_write_flow_control_def Let_def c3_def c2_def c1_def c0_def init_rmap_def init_maptbl_def ls_def)
  ultimately show ?thesis by blast
qed

lemma init_lm_inv:
  assumes g: "geo spp" and n: "0 < nlines spp r"
  shows "lm_inv spp h r (init_lm junk (base_of spp r) (nlines spp r)) [base_of spp r] {}"
proof -
  let ?b = "base_of spp r" and ?n = "nlines spp r"
  have "?n < length (map junk [0..<?n + 1])" by simp
  note P = vq.pqueue_init_inv(1) [OF this, of h, folded new_pq_def] vq.pqueue_init_inv(2) [OF this, folded new_pq_def]
  have "rng spp r = {?b..<?b + ?n}" using geoD(15) [OF g]
    by (cases r) (simp_all add: rng_def base_of_def nlines_def lessThan_atLeast0)
  also have "\<dots> = insert ?b {Suc ?b..<?b + ?n}" using n by (intro set_eqI) (simp; linarith)
  finally have R: "rng spp r = insert ?b {Suc ?b..<?b + ?n}" .
  have "length (q_d (new_pq junk ?n)) = ?n + 1" by (simp add: new_pq_def pqueue_init_def)
  then show ?thesis using P R by (simp add: lm_inv_def init_lm_def members_def)
qed

lemma init_state_inv:
  assumes g: "geo (sp s)" and n: "4 \<le> tt_lines_slc (sp s)" "0 < tt_lines_tlc (sp s)" and nd: "nand_inv s"
    and fr: "\<And>a. a \<in> pages (sp s) \<Longrightarrow> stat s a = PG_FREE" and sm: "pgs_per_line_slc (sp s) < 2 ^ 31"
    and st: "init_state junk s cf0 cf"
  shows "ftl_inv cf" "lpns cf = {}" "room cf TLC_MODE = pgs_per_line (sp s) * tt_lines_tlc (sp s)"
proof -
  let ?spp = "sp s"
  note i = st [unfolded init_state_def]
  have L: "lmof r cf = init_lm junk (base_of ?spp r) (nlines ?spp r)" "curline (wpof r cf) = base_of ?spp r" for r
    using i by (cases r; simp add: lmof_def wpof_def base_of_def nlines_def)+
  have n': "0 < nlines ?spp r" for r using n by (cases r) (simp_all add: nlines_def)
  have bt: "base_of ?spp r < tt_lines ?spp" for r using n geoD(15) [OF g] by (cases r) (simp_all add: base_of_def)
  have W: "wpp (wpof r cf) = mk 0 0 (base_of ?spp r) 0" "w_blk (wpof r cf) = base_of ?spp r" "w_pl (wpof r cf) = 0" for r
    using i by (cases r; simp add: wpof_def base_of_def wpp_def)+
  have se: "settled cf r = 0" for r using i W(1) by (simp add: settled_def windex_def worder_def)
  have lv: "live (pq_of (init_lm junk b k)) = []" for b k by (simp add: init_lm_def new_pq_def pqueue_init_def live_def)
  have vic: "victims cf = {}" by (simp add: victims_lmof L lv)
  have e: "st_in s q (line_pages ?spp b) = {}" if "q \<noteq> PG_FREE" for q b
    using fr that by (auto simp: st_in_def line_pages_def)
  have "lines_inv s (lines cf) {}"
    using i e [of PG_VALID] e [of PG_INVALID] lines_nth [of _ "tt_lines_slc ?spp" "tt_lines_tlc ?spp"] geoD(15) [OF g]
    by (simp add: lines_inv_def new_lines_len)
  moreover have "pos_inv (lines cf) (victims cf)"
    using i lines_nth [of _ "tt_lines_slc ?spp" "tt_lines_tlc ?spp"] by (simp add: pos_inv_def new_lines_len)
  moreover have "cls s (lmof r cf) (curline (wpof r cf)) (settled cf r)" for r
    unfolding cls_def L se lv using fr by (auto simp: line_pages_def init_lm_def)
  moreover have "wp_ok ?spp (wpof r cf)" for r
    using W [of r] L(2) [of r] bt [of r] geo_pos(1-3) [OF g] by (simp add: wp_ok_def)
  moreover have "lm_inv ?spp (lines cf) r (lmof r cf) [curline (wpof r cf)] {}" for r
    unfolding L by (rule init_lm_inv [OF g n'])
  ultimately have B: "binv cf (settled cf) {}" using i nd by (simp add: binv_def)
  have M: "minv cf {} {}" using i fr by (auto simp: minv_def)
  show "ftl_inv cf"
    unfolding ftl_inv_def using B M i n sm se by (simp add: init_lm_def)
  show "lpns cf = {}" using i by (simp add: lpns_def)
  have "length (free_line_list (lmof TLC_MODE cf)) + 1 = tt_lines_tlc ?spp"
    using n(2) by (simp add: L init_lm_def nlines_def base_of_def)
  then have "tt_lines_tlc ?spp = Suc (length (free_line_list (lmof TLC_MODE cf)))" by simp
  then show "room cf TLC_MODE = pgs_per_line ?spp * tt_lines_tlc ?spp"
    using i se by (simp add: room_def linesz_def)
qed

text \<open>Initialisation on a fresh SSD.\<close>

lemma conv_init_ftl_ok:
  assumes g: "geo spp" and t: "timing_ok spp" and n: "4 \<le> tt_lines_slc spp" "0 < tt_lines_tlc spp" "pgs_per_line_slc spp < 2 ^ 31"
  shows "\<exists>cf'. conv_init_ftl junk conv_init_params (ssd_init j clock spp cpu) cf = Some cf' \<and> ftl_inv cf' \<and> lpns cf' = {} \<and>
    ssd cf' = ssd_init j clock spp cpu \<and> room cf' TLC_MODE = pgs_per_line spp * tt_lines_tlc spp"
proof -
  let ?s = "ssd_init j clock spp cpu"
  have sp: "sp ?s = spp" by (simp add: ssd_init_def)
  have g': "geo (sp ?s)" and n': "4 \<le> tt_lines_slc (sp ?s)" "0 < tt_lines_tlc (sp ?s)" "pgs_per_line_slc (sp ?s) < 2 ^ 31"
    using g n sp by simp_all
  obtain cf' where c: "conv_init_ftl junk conv_init_params ?s cf = Some cf'" "init_state junk ?s cf cf'"
    using conv_init_ftl_state [OF g'] n' by auto
  have fr: "stat ?s a = PG_FREE" if "a \<in> pages (sp ?s)" for a using ssd_init_ok(2) [OF g t] that sp by simp
  note I = init_state_inv [OF g' n'(1,2) ssd_init_ok(1) [OF g t] fr n'(3) c(2)]
  have "ssd cf' = ?s" using c(2) by (simp add: init_state_def)
  then show ?thesis using c(1) I sp by (intro exI [of _ cf']) simp
qed

end
