(* ===== verification/Nvme.thy ===== *)
theory Nvme
  imports Prelude
begin

text \<open>
  The part of the NVMe protocol that the code reads (\<open>nvme.h\<close>) and the interface between the dispatcher
  and a namespace (\<open>nvmev.h\<close>): submission entries, completion entries, opcodes, status codes, and the
  request and result that \<open>proc_io_cmd\<close> takes and fills in.

  \<open>struct nvme_command\<close> is a union of views of the same 64 bytes; the record is its common view, with the six
  command words \<open>cdw10\<close> to \<open>cdw15\<close> as fields, and every other view is a group of functions that read the
  bytes of these words (the machine is little-endian).
\<close>

section \<open>Submission entries\<close>

record nvme_command =
  opcode :: nat
  cflags :: nat
  command_id :: nat
  nsid :: nat
  prp1 :: nat
  prp2 :: nat
  cdw10 :: nat
  cdw11 :: nat
  cdw12 :: nat
  cdw13 :: nat
  cdw14 :: nat
  cdw15 :: nat

text \<open>Low and high half of a 32-bit word, and two words as a 64-bit number.\<close>

definition lo16 :: "nat \<Rightarrow> nat" where "lo16 w = w mod 2 ^ 16"
definition hi16 :: "nat \<Rightarrow> nat" where "hi16 w = w div 2 ^ 16 mod 2 ^ 16"
definition le64 :: "nat \<Rightarrow> nat \<Rightarrow> nat" where "le64 lo hi = u32 lo + 2 ^ 32 * u32 hi"

text \<open>\<open>struct nvme_rw_command\<close>.\<close>

definition rw_slba :: "nvme_command \<Rightarrow> nat" where "rw_slba c = le64 (cdw10 c) (cdw11 c)"
definition rw_length :: "nvme_command \<Rightarrow> nat" where "rw_length c = lo16 (cdw12 c)"
definition rw_control :: "nvme_command \<Rightarrow> nat" where "rw_control c = hi16 (cdw12 c)"

text \<open>\<open>rw.control & NVME_RW_FUA\<close>: bit 14 of the control field.\<close>

definition rw_fua :: "nvme_command \<Rightarrow> bool" where
  "rw_fua c \<longleftrightarrow> odd (rw_control c div 2 ^ 14)"

lemma lo16_less: "lo16 w < 2 ^ 16"
  by (simp add: lo16_def)

lemma hi16_less: "hi16 w < 2 ^ 16"
  by (simp add: hi16_def)

lemma le64_less: "le64 a b < 2 ^ 64"
  using mixed_radix_less [of "u32 b" "2 ^ 32" "u32 a" "2 ^ 32"] u_bound(3) [of a] u_bound(3) [of b]
  by (simp add: le64_def algebra_simps)

section \<open>Opcodes and status codes\<close>

definition nvme_cmd_flush :: nat where "nvme_cmd_flush = 0x00"
definition nvme_cmd_write :: nat where "nvme_cmd_write = 0x01"
definition nvme_cmd_read :: nat where "nvme_cmd_read = 0x02"
definition nvme_cmd_zone_mgmt_send :: nat where "nvme_cmd_zone_mgmt_send = 0x79"
definition nvme_cmd_zone_mgmt_recv :: nat where "nvme_cmd_zone_mgmt_recv = 0x7a"
definition nvme_cmd_zone_append :: nat where "nvme_cmd_zone_append = 0x7d"

lemmas io_opcodes = nvme_cmd_flush_def nvme_cmd_write_def nvme_cmd_read_def nvme_cmd_zone_mgmt_send_def
  nvme_cmd_zone_mgmt_recv_def nvme_cmd_zone_append_def

definition NVME_SC_SUCCESS :: nat where "NVME_SC_SUCCESS = 0"
definition NVME_SC_INVALID_OPCODE :: nat where "NVME_SC_INVALID_OPCODE = 1"
definition NVME_SC_INVALID_FIELD :: nat where "NVME_SC_INVALID_FIELD = 2"
definition NVME_SC_INTERNAL :: nat where "NVME_SC_INTERNAL = 6"
definition NVME_SC_LBA_RANGE :: nat where "NVME_SC_LBA_RANGE = 0x80"

definition NVME_CSI_NVM :: nat where "NVME_CSI_NVM = 0"
definition NVME_CSI_KV :: nat where "NVME_CSI_KV = 1"
definition NVME_CSI_ZNS :: nat where "NVME_CSI_ZNS = 2"

section \<open>Requests and results\<close>

record nvmev_request =
  rq_cmd :: nvme_command
  rq_sq_id :: nat
  rq_nsecs_start :: nat

record nvmev_result =
  rs_status :: nat
  rs_nsecs_target :: nat

text \<open>A call of \<open>schedule_internal_operation\<close>: the submission queue, the time and the bytes of write buffer to
  give back at that time.\<close>

record internal_op =
  io_sqid :: nat
  io_nsecs :: nat
  io_release :: nat

end
