(* ===== verification/Conv_Io.thy ===== *)
theory Conv_Io
  imports Conv_Init Nvme
begin

text \<open>
  The conventional namespace of \<open>conv_ftl.c\<close>: \<open>SSD_PARTITIONS\<close> instances of the FTL over which the logical
  pages are striped, and the host commands on it (\<open>conv_write\<close>, \<open>conv_read\<close>, \<open>conv_flush\<close>,
  \<open>conv_proc_nvme_io_cmd\<close>) and its construction (\<open>conv_init_namespace\<close>).

  All instances point to one PCIe link and one write buffer: these are fields of the namespace here, and
  \<open>load\<close> puts the link into the SSD of the instance that runs, \<open>store\<close> takes it back. The functions of an
  instance do not read the write buffer, which only \<open>conv_write\<close> uses. The clock \<open>local_clock()\<close>
  of \<open>conv_flush\<close> is a sequence of readings as in the other theories. What \<open>conv_write\<close> asks
  \<open>schedule_internal_operation\<close> to do is a list in its result.
\<close>

section \<open>The namespace\<close>

record conv_ns =
  ns_id :: nat
  ns_csi :: nat
  ns_size :: nat
  nr_parts :: nat
  ftls :: "conv_ftl list"
  sh_pcie :: channel_model
  sh_wbuf :: buffer
  lclk :: "nat \<Rightarrow> nat"
  ltick :: nat

definition load :: "conv_ns \<Rightarrow> conv_ftl \<Rightarrow> conv_ftl" where
  "load ns cf = cf\<lparr>ssd := (ssd cf)\<lparr>pcie := sh_pcie ns\<rparr>\<rparr>"

definition part :: "conv_ns \<Rightarrow> nat \<Rightarrow> conv_ftl option" where
  "part ns i = map_option (load ns) (idx (ftls ns) i)"

definition store :: "nat \<Rightarrow> conv_ftl \<Rightarrow> conv_ns \<Rightarrow> conv_ns" where
  "store i cf ns = ns\<lparr>ftls := (ftls ns)[i := cf], sh_pcie := pcie (ssd cf)\<rparr>"

text \<open>The first and the last logical page of a request, and its bytes; \<open>length\<close> counts from 0.\<close>

definition first_lpn :: "ssdparams \<Rightarrow> nvme_command \<Rightarrow> nat" where
  "first_lpn spp c = rw_slba c div secs_per_pg spp"

definition last_lpn :: "ssdparams \<Rightarrow> nvme_command \<Rightarrow> nat" where
  "last_lpn spp c = (let nr_lba = rw_length c + 1 in u64 (rw_slba c + nr_lba - 1) div secs_per_pg spp)"

definition req_bytes :: "ssd_config \<Rightarrow> nvme_command \<Rightarrow> nat" where
  "req_bytes cfg c = LBA_TO_BYTE cfg (rw_length c + 1)"

section \<open>Write\<close>

text \<open>One iteration of the loop of \<open>conv_write\<close>: \<open>latest\<close> is \<open>nsecs_latest\<close>, \<open>ops\<close> the internal operations
  scheduled so far.\<close>

definition write_step :: "nat \<Rightarrow> nand_cmd \<Rightarrow> nat \<Rightarrow> nat \<times> internal_op list \<times> conv_ns \<Rightarrow>
    (nat \<times> internal_op list \<times> conv_ns) option" where
  "write_step sqid swr lpn st =
     (let (latest, ops, ns) = st; i = lpn mod nr_parts ns
      in do {
        cf \<leftarrow> part ns i;
        (done, cf) \<leftarrow> write_page cf swr (lpn div nr_parts ns);
        let ns = store i cf ns
        in Some (case done of
             None \<Rightarrow> (latest, ops, ns)
           | Some (t, n) \<Rightarrow> (max t latest, ops @ [\<lparr>io_sqid = sqid, io_nsecs = t, io_release = n\<rparr>], ns)) })"

text \<open>The first result is \<open>None\<close> when the code returns \<open>false\<close>: the command is not taken and will be tried again.\<close>

definition conv_write :: "ssd_config \<Rightarrow> conv_ns \<Rightarrow> nvmev_request \<Rightarrow>
    (nvmev_result option \<times> internal_op list \<times> conv_ns) option" where
  "conv_write cfg ns req = do {
     cf \<leftarrow> part ns 0;
     NVMEV_ASSERT (nr_parts ns \<noteq> 0);
     NVMEV_ASSERT (secs_per_pg (spp_of cf) \<noteq> 0);
     let spp = spp_of cf; start_lpn = first_lpn spp (rq_cmd req); end_lpn = last_lpn spp (rq_cmd req);
         swr = \<lparr>nc_type = USER_IO, nc_cmd = NAND_WRITE, nc_xfer_size = pgsz spp * pgs_per_oneshotpg spp,
                nc_stime = 0, nc_interleave = False, nc_ppa = zero_ppa\<rparr>
     in if tt_pgs spp \<le> end_lpn div nr_parts ns then Some (None, [], ns)
     else do {
       (allocated, wb) \<leftarrow> buffer_allocate (sh_wbuf ns) (req_bytes cfg (rq_cmd req));
       let ns = ns\<lparr>sh_wbuf := wb\<rparr>
       in if allocated < req_bytes cfg (rq_cmd req) then Some (None, [], ns)
       else do {
         (xfer_completed, s) \<leftarrow> ssd_advance_write_buffer (ssd cf) (rq_nsecs_start req) (req_bytes cfg (rq_cmd req));
         let ns = store 0 (cf\<lparr>ssd := s\<rparr>) ns
         in do {
           (latest, ops, ns) \<leftarrow> foldM (write_step (rq_sq_id req) (swr\<lparr>nc_stime := xfer_completed\<rparr>))
              [start_lpn..<end_lpn + 1] (xfer_completed, [], ns);
           Some (Some \<lparr>rs_status = NVME_SC_SUCCESS,
                       rs_nsecs_target = (if rw_fua (rq_cmd req) \<or> \<not> write_early_completion spp
                                          then latest else xfer_completed)\<rparr>, ops, ns) } } } }"

section \<open>Read\<close>

text \<open>The reading of the pages of one instance. The state has \<open>xfer_size\<close>, \<open>prev_ppa\<close> and \<open>nsecs_latest\<close>; a read
  is issued for the flash page of \<open>prev_ppa\<close> when the next page lies on another flash page.\<close>

definition issue_read :: "nand_cmd \<Rightarrow> nat \<Rightarrow> ppa \<Rightarrow> nat \<Rightarrow> conv_ftl \<Rightarrow> (nat \<times> conv_ftl) option" where
  "issue_read srd xfer_size prev latest cf =
     (if 0 < xfer_size then do {
        (t, cf) \<leftarrow> advance_nand cf (srd\<lparr>nc_xfer_size := xfer_size, nc_ppa := prev\<rparr>);
        Some (max t latest, cf) }
      else Some (latest, cf))"

definition read_page :: "nand_cmd \<Rightarrow> nat \<Rightarrow> nat \<Rightarrow> nat \<times> ppa \<times> nat \<times> conv_ftl \<Rightarrow> (nat \<times> ppa \<times> nat \<times> conv_ftl) option" where
  "read_page srd pg_size local_lpn st =
     (let (xfer_size, prev, latest, cf) = st
      in do {
        cur \<leftarrow> get_maptbl_ent cf local_lpn;
        if \<not> mapped_ppa cur \<or> \<not> valid_ppa cf cur then Some (xfer_size, prev, latest, cf)
        else do {
          NVMEV_ASSERT (mapped_ppa prev \<longrightarrow> pgs_per_flashpg (spp_of cf) \<noteq> 0);
          if mapped_ppa prev \<and> is_same_flash_page cf cur prev
          then Some (u32 (xfer_size + pg_size), prev, latest, cf)
          else do {
            (latest, cf) \<leftarrow> issue_read srd xfer_size prev latest cf;
            Some (u32 pg_size, cur, latest, cf) } } })"

definition read_part :: "nand_cmd \<Rightarrow> nat \<Rightarrow> nat list \<Rightarrow> nat \<Rightarrow> nat \<Rightarrow> conv_ftl \<Rightarrow> (nat \<times> conv_ftl) option" where
  "read_part srd pg_size local_lpns first latest cf = do {
     prev \<leftarrow> get_maptbl_ent cf first;
     (xfer_size, prev, latest, cf) \<leftarrow> foldM (read_page srd pg_size) local_lpns (0, prev, latest, cf);
     issue_read srd xfer_size prev latest cf }"

text \<open>\<open>for (lpn = a; lpn <= b; lpn += n)\<close>\<close>

definition stride :: "nat \<Rightarrow> nat \<Rightarrow> nat \<Rightarrow> nat list" where
  "stride a b n = (if b < a then [] else map (\<lambda>k. a + k * n) [0..<(b - a) div n + 1])"

definition read_step :: "nand_cmd \<Rightarrow> nat \<Rightarrow> nat \<Rightarrow> nat \<Rightarrow> nat \<times> conv_ns \<Rightarrow> (nat \<times> conv_ns) option" where
  "read_step srd pg_size end_lpn start_lpn st =
     (let (latest, ns) = st; n = nr_parts ns; i = start_lpn mod n
      in do {
        cf \<leftarrow> part ns i;
        (latest, cf) \<leftarrow> read_part srd pg_size (map (\<lambda>l. l div n) (stride start_lpn end_lpn n)) (start_lpn div n) latest cf;
        Some (latest, store i cf ns) })"

definition conv_read :: "ssd_config \<Rightarrow> conv_ns \<Rightarrow> nvmev_request \<Rightarrow> (nvmev_result option \<times> conv_ns) option" where
  "conv_read cfg ns req = do {
     cf \<leftarrow> part ns 0;
     NVMEV_ASSERT (nr_parts ns \<noteq> 0);
     NVMEV_ASSERT (secs_per_pg (spp_of cf) \<noteq> 0);
     let spp = spp_of cf; start_lpn = first_lpn spp (rq_cmd req); end_lpn = last_lpn spp (rq_cmd req)
     in if tt_pgs spp \<le> end_lpn div nr_parts ns then Some (None, ns)
     else do {
       let stime = rq_nsecs_start req +
             (if req_bytes cfg (rq_cmd req) \<le> KB 4 * nr_parts ns then fw_4kb_rd_lat spp else fw_rd_lat spp);
           srd = \<lparr>nc_type = USER_IO, nc_cmd = NAND_READ, nc_xfer_size = 0, nc_stime = stime,
                  nc_interleave = True, nc_ppa = zero_ppa\<rparr>
       in do {
         (latest, ns) \<leftarrow> foldM (read_step srd (pgsz spp) end_lpn)
            [start_lpn..<min (end_lpn + 1) (start_lpn + nr_parts ns)] (rq_nsecs_start req, ns);
         Some (Some \<lparr>rs_status = NVME_SC_SUCCESS, rs_nsecs_target = latest\<rparr>, ns) } } }"

section \<open>Flush and dispatch\<close>

text \<open>The counters that \<open>conv_flush\<close> adds up are only printed.\<close>

definition flush_step :: "nat \<Rightarrow> nat \<times> conv_ns \<Rightarrow> (nat \<times> conv_ns) option" where
  "flush_step i st = (let (latest, ns) = st in do {
     cf \<leftarrow> part ns i;
     (t, s) \<leftarrow> ssd_next_idle_time (ssd cf);
     Some (max latest t, store i (cf\<lparr>ssd := s\<rparr>) ns) })"

definition conv_flush :: "conv_ns \<Rightarrow> (nvmev_result \<times> conv_ns) option" where
  "conv_flush ns =
     (let start = lclk ns (ltick ns); ns = ns\<lparr>ltick := ltick ns + 1\<rparr>
      in do {
        (latest, ns) \<leftarrow> foldM flush_step [0..<nr_parts ns] (start, ns);
        Some (\<lparr>rs_status = NVME_SC_SUCCESS, rs_nsecs_target = latest\<rparr>, ns) })"

text \<open>\<open>ret\<close> is what \<open>*ret\<close> holds before the call; a command that is not implemented leaves it. The first result
  is the value returned.\<close>

definition conv_proc_nvme_io_cmd :: "ssd_config \<Rightarrow> conv_ns \<Rightarrow> nvmev_request \<Rightarrow> nvmev_result \<Rightarrow>
    (bool \<times> nvmev_result \<times> internal_op list \<times> conv_ns) option" where
  "conv_proc_nvme_io_cmd cfg ns req ret = do {
     NVMEV_ASSERT (ns_csi ns = NVME_CSI_NVM);
     let opc = opcode (rq_cmd req)
     in if opc = nvme_cmd_write then do {
          (r, ops, ns) \<leftarrow> conv_write cfg ns req;
          Some (case r of None \<Rightarrow> (False, ret, ops, ns) | Some r \<Rightarrow> (True, r, ops, ns)) }
        else if opc = nvme_cmd_read then do {
          (r, ns) \<leftarrow> conv_read cfg ns req;
          Some (case r of None \<Rightarrow> (False, ret, [], ns) | Some r \<Rightarrow> (True, r, [], ns)) }
        else if opc = nvme_cmd_flush then do {
          (r, ns) \<leftarrow> conv_flush ns;
          Some (True, r, [], ns) }
        else Some (True, ret, [], ns) }"

section \<open>Construction\<close>

text \<open>\<open>kmalloc\<close> returns memory with arbitrary contents \<open>cf0 i\<close>; \<open>junk\<close> and \<open>j\<close> are the contents of the other
  uninitialised memory. The instances after the first give up their own link and buffer.\<close>

definition init_part :: "(nat \<Rightarrow> nat) \<Rightarrow> nat \<Rightarrow> (nat \<Rightarrow> nat \<Rightarrow> nat) \<Rightarrow> (nat \<Rightarrow> conv_ftl) \<Rightarrow> ssdparams \<Rightarrow> nat \<Rightarrow> nat \<Rightarrow> conv_ftl list \<Rightarrow>
    conv_ftl list option" where
  "init_part junk j clock cf0 spp cpu i fs = do {
     cf \<leftarrow> conv_init_ftl junk conv_init_params (ssd_init j (clock i) spp cpu) (cf0 i);
     Some (fs @ [cf]) }"

definition conv_init_namespace :: "ssd_config \<Rightarrow> (nat \<Rightarrow> nat) \<Rightarrow> nat \<Rightarrow> (nat \<Rightarrow> nat \<Rightarrow> nat) \<Rightarrow> (nat \<Rightarrow> conv_ftl) \<Rightarrow> ssdparams \<Rightarrow>
    conv_ns \<Rightarrow> nat \<Rightarrow> nat \<Rightarrow> nat \<Rightarrow> conv_ns option" where
  "conv_init_namespace cfg junk j clock cf0 spp0 ns0 nid sz cpu_nr = do {
     spp \<leftarrow> (if ENABLE_SLC_CACHE then ssd_init_params_slc cfg sz (SSD_PARTITIONS cfg)
             else ssd_init_params cfg spp0 sz (SSD_PARTITIONS cfg));
     fs \<leftarrow> foldM (init_part junk j clock cf0 spp cpu_nr) [0..<SSD_PARTITIONS cfg] [];
     f0 \<leftarrow> idx fs 0;
     Some (ns0\<lparr>ns_id := nid, ns_csi := NVME_CSI_NVM, nr_parts := SSD_PARTITIONS cfg, ftls := fs,
       sh_pcie := pcie (ssd f0), sh_wbuf := write_buffer (ssd f0),
       ns_size := u64 (sz * 100) div pba_pcent conv_init_params\<rparr>) }"

end
