(* ===== verification/Conv_Io_Laws.thy ===== *)
theory Conv_Io_Laws
  imports Conv_Io
begin

text \<open>
  Laws of the conventional namespace: its invariant, the effect of host writes on the set of mapped
  logical pages, and that reads and flushes change timing only.
\<close>

section \<open>The invariant\<close>

definition ns_inv :: "ssdparams \<Rightarrow> conv_ns \<Rightarrow> bool" where
  "ns_inv spp ns \<longleftrightarrow> ns_csi ns = NVME_CSI_NVM \<and> 0 < nr_parts ns \<and> length (ftls ns) = nr_parts ns \<and> chm_inv (sh_pcie ns) \<and>
     0 < secs_per_pg spp \<and> (\<forall>cf \<in> set (ftls ns). ftl_inv cf \<and> spp_of cf = spp)"

text \<open>The logical pages of the namespace that are mapped: page \<open>l\<close> is page \<open>l div n\<close> of instance \<open>l mod n\<close>.\<close>

definition mapped :: "conv_ns \<Rightarrow> nat set" where
  "mapped ns = {l. l div nr_parts ns \<in> lpns (ftls ns ! (l mod nr_parts ns))}"

text \<open>The physical page of a logical page of the namespace.\<close>

definition ns_ppa :: "conv_ns \<Rightarrow> nat \<Rightarrow> ppa" where
  "ns_ppa ns l = maptbl (ftls ns ! (l mod nr_parts ns)) ! (l div nr_parts ns)"

lemma pcie_keep: "tm_inv s \<Longrightarrow> chm_inv m \<Longrightarrow> tm_keep s (s\<lparr>pcie := m\<rparr>)"
proof -
  assume s: "tm_inv s" "chm_inv m"
  have gl: "get_lun (s\<lparr>pcie := m\<rparr>) = get_lun s" by (rule ext) (simp add: get_lun_def get_ch_def)
  have "get_blk (s\<lparr>pcie := m\<rparr>) b = get_blk s b" for b by (rule get_blk_cong_lun) (simp only: gl)
  then show ?thesis using s gl by (simp add: tm_keep_def same_nand_def tm_inv_def)
qed

lemma ftl_tm: "ftl_inv cf \<Longrightarrow> tm_inv (ssd cf)"
  by (auto simp: ftl_inv_def dest!: binvD(2)) (simp add: nand_inv_def)

text \<open>A step of the timing code inside an instance.\<close>

lemma ftl_timing:
  assumes inv: "ftl_inv cf" and k: "tm_keep (ssd cf) s'"
  shows "ftl_inv (cf\<lparr>ssd := s'\<rparr>)" "lpns (cf\<lparr>ssd := s'\<rparr>) = lpns cf" "budget (cf\<lparr>ssd := s'\<rparr>) = budget cf"
    "spp_of (cf\<lparr>ssd := s'\<rparr>) = spp_of cf"
proof -
  note F = timing_frame [OF k]
  have b: "binv cf (settled cf) {}" and m: "minv cf {} {}" using inv by (simp_all add: ftl_inv_def)
  have "binv (cf\<lparr>ssd := s'\<rparr>) (settled (cf\<lparr>ssd := s'\<rparr>)) {}" unfolding F(1) by (rule binv_timing [OF b k])
  moreover have "minv (cf\<lparr>ssd := s'\<rparr>) {} {}" by (rule F(4) [OF m])
  ultimately show "ftl_inv (cf\<lparr>ssd := s'\<rparr>)" using inv F(1,6) by (simp add: ftl_inv_def)
  show "lpns (cf\<lparr>ssd := s'\<rparr>) = lpns cf" by (rule F(5))
  show "budget (cf\<lparr>ssd := s'\<rparr>) = budget cf" using F(2) by (simp add: budget_def)
  show "spp_of (cf\<lparr>ssd := s'\<rparr>) = spp_of cf" using F(6) by simp
qed

lemma load_ok:
  assumes "ns_inv spp ns" "i < nr_parts ns"
  shows "part ns i = Some (load ns (ftls ns ! i))" "ftl_inv (load ns (ftls ns ! i))" "lpns (load ns (ftls ns ! i)) = lpns (ftls ns ! i)"
    "budget (load ns (ftls ns ! i)) = budget (ftls ns ! i)" "spp_of (load ns (ftls ns ! i)) = spp"
    "maptbl (load ns (ftls ns ! i)) = maptbl (ftls ns ! i)"
proof -
  let ?c = "ftls ns ! i"
  have c: "ftl_inv ?c" "spp_of ?c = spp" and i: "i < length (ftls ns)" and m: "chm_inv (sh_pcie ns)"
    using assms by (simp_all add: ns_inv_def)
  note t = ftl_timing [OF c(1) pcie_keep [OF ftl_tm [OF c(1)] m]]
  show "part ns i = Some (load ns ?c)" using i by (simp add: part_def arr_simps)
  show "ftl_inv (load ns ?c)" "lpns (load ns ?c) = lpns ?c" "budget (load ns ?c) = budget ?c" "spp_of (load ns ?c) = spp"
    "maptbl (load ns ?c) = maptbl ?c"
    using t c(2) by (simp_all add: load_def)
qed

lemma store_ok:
  assumes "ns_inv spp ns" "i < nr_parts ns" "ftl_inv cf" "spp_of cf = spp"
  shows "ns_inv spp (store i cf ns)"
proof -
  have "x \<in> set (ftls ns) \<or> x = cf" if "x \<in> set ((ftls ns)[i := cf])" for x using that set_update_subset_insert by fastforce
  moreover have "chm_inv (pcie (ssd cf))" using ftl_tm [OF assms(3)] by (simp add: tm_inv_def)
  ultimately show ?thesis using assms by (auto simp: ns_inv_def store_def)
qed

lemma store_sel [simp]:
  "nr_parts (store i cf ns) = nr_parts ns" "ftls (store i cf ns) = (ftls ns)[i := cf]" "sh_wbuf (store i cf ns) = sh_wbuf ns"
  "ns_size (store i cf ns) = ns_size ns" "ns_csi (store i cf ns) = ns_csi ns" "ns_id (store i cf ns) = ns_id ns"
  "lclk (store i cf ns) = lclk ns" "ltick (store i cf ns) = ltick ns"
  by (simp_all add: store_def)

lemma ns_inv_wbuf: "ns_inv spp (ns\<lparr>sh_wbuf := b\<rparr>) = ns_inv spp ns"
  by (simp add: ns_inv_def)

section \<open>Write\<close>

text \<open>The pages of a range that fall to an instance.\<close>

definition share :: "nat \<Rightarrow> nat \<Rightarrow> nat list \<Rightarrow> nat" where
  "share n i ls = length (filter (\<lambda>l. l mod n = i) ls)"

lemma affords_mono: "affords cf n \<Longrightarrow> k \<le> n \<Longrightarrow> affords cf k"
  by (simp add: affords_def)

lemma affords_budget: "spp_of cf' = spp_of cf \<Longrightarrow> budget cf' = budget cf \<Longrightarrow> affords cf' k = affords cf k"
  by (simp add: affords_def)

text \<open>What the loop of \<open>conv_write\<close> leaves alone.\<close>

definition ns_frame :: "conv_ns \<Rightarrow> conv_ns \<Rightarrow> bool" where
  "ns_frame ns ns' \<longleftrightarrow> nr_parts ns' = nr_parts ns \<and> sh_wbuf ns' = sh_wbuf ns \<and> ns_size ns' = ns_size ns \<and> ns_csi ns' = ns_csi ns \<and>
     ns_id ns' = ns_id ns"

lemma ns_frame_trans: "ns_frame a b \<Longrightarrow> ns_frame b c \<Longrightarrow> ns_frame a c"
  by (simp add: ns_frame_def)

definition op_ok :: "ssdparams \<Rightarrow> nat \<Rightarrow> nat \<Rightarrow> nat \<Rightarrow> internal_op \<Rightarrow> bool" where
  "op_ok spp sqid t0 t1 o' \<longleftrightarrow> io_sqid o' = sqid \<and> t0 \<le> io_nsecs o' \<and> io_nsecs o' \<le> t1 \<and>
     io_release o' = pgs_per_oneshotpg_slc spp * pgsz spp"

lemma mapped_store:
  assumes "i < nr_parts ns" "length (ftls ns) = nr_parts ns"
    and "lpns cf = insert (l div nr_parts ns) (lpns (ftls ns ! i))" "i = l mod nr_parts ns"
  shows "mapped (store i cf ns) = insert l (mapped ns)"
proof (rule set_eqI)
  fix x
  let ?n = "nr_parts ns"
  have xi: "x = l" if "x mod ?n = i" "x div ?n = l div ?n" using that assms(4) by (metis div_mod_decomp)
  show "x \<in> mapped (store i cf ns) \<longleftrightarrow> x \<in> insert l (mapped ns)"
  proof (cases "x mod ?n = i")
    case True
    then show ?thesis using assms xi by (auto simp: mapped_def)
  next
    case False
    then show ?thesis using assms by (auto simp: mapped_def)
  qed
qed

lemma write_step_ok:
  assumes inv: "ns_inv spp ns" and l: "l div nr_parts ns < tt_pgs spp" and sw: "nc_cmd swr = NAND_WRITE"
    and af: "\<forall>i < nr_parts ns. affords (ftls ns ! i) (share (nr_parts ns) i (l # ls) + m i)" and lt: "nc_stime swr \<le> latest"
  shows "\<exists>latest' new ns'. write_step sqid swr l (latest, ops, ns) = Some (latest', ops @ new, ns') \<and> ns_inv spp ns' \<and>
    mapped ns' = insert l (mapped ns) \<and> ns_frame ns ns' \<and> latest \<le> latest' \<and>
    (\<forall>o' \<in> set new. op_ok spp sqid (nc_stime swr) latest' o') \<and> length new \<le> 1 \<and>
    (\<forall>i < nr_parts ns. affords (ftls ns' ! i) (share (nr_parts ns) i ls + m i))"
proof -
  let ?n = "nr_parts ns" let ?i = "l mod ?n" let ?c = "load ns (ftls ns ! ?i)"
  have n: "0 < ?n" "length (ftls ns) = ?n" using inv by (simp_all add: ns_inv_def)
  then have i: "?i < ?n" by simp
  note L = load_ok [OF inv i]
  have sp: "spp_of (ftls ns ! ?i) = spp" using inv i by (simp add: ns_inv_def)
  have "affords (ftls ns ! ?i) (Suc (share ?n ?i ls + m ?i))" using af [rule_format, OF i] by (simp add: share_def)
  then have a: "affords ?c (Suc (share ?n ?i ls + m ?i))" using affords_budget [of ?c "ftls ns ! ?i"] L(4,5) sp by simp
  obtain d cf where c: "write_page ?c swr (l div ?n) = Some (d, cf)" "ftl_inv cf" "lpns cf = insert (l div ?n) (lpns ?c)"
    "spp_of cf = spp" "budget ?c \<le> budget cf + 1"
    "\<forall>t n. d = Some (t, n) \<longrightarrow> nc_stime swr \<le> t \<and> n = pgs_per_oneshotpg_slc spp * pgsz spp"
    using write_page_ok [OF L(2) _ sw affords_room [OF L(2) a], of "l div ?n"] l L(5) by auto
  let ?ns = "store ?i cf ns"
  have inv': "ns_inv spp ?ns" by (rule store_ok [OF inv i c(2,4)])
  have mp: "mapped ?ns = insert l (mapped ns)" by (rule mapped_store [OF i n(2)]) (use c(3) L(3) in simp_all)
  have fr: "ns_frame ns ?ns" by (simp add: ns_frame_def)
  have af': "affords (ftls ?ns ! j) (share ?n j ls + m j)" if j: "j < ?n" for j
  proof (cases "j = ?i")
    case True
    have "affords cf (share ?n ?i ls + m ?i)" by (rule affords_step [OF a c(5)]) (use c(4) L(5) in simp)
    then show ?thesis using True i n(2) by simp
  next
    case False
    then have "share ?n j (l # ls) = share ?n j ls" by (simp add: share_def)
    then show ?thesis using af j False by auto
  qed
  show ?thesis
  proof (cases d)
    case None
    have "write_step sqid swr l (latest, ops, ns) = Some (latest, ops @ [], ?ns)"
      using L(1) c(1) None by (simp add: write_step_def Let_def)
    moreover have "\<forall>o' \<in> set []. op_ok spp sqid (nc_stime swr) latest o'" "length [] \<le> (1::nat)" by simp_all
    ultimately show ?thesis using inv' mp fr af' by blast
  next
    case (Some p)
    obtain t k where p: "p = (t, k)" by (cases p)
    let ?o = "\<lparr>io_sqid = sqid, io_nsecs = t, io_release = k\<rparr>"
    have "write_step sqid swr l (latest, ops, ns) = Some (max t latest, ops @ [?o], ?ns)"
      using L(1) c(1) Some p by (simp add: write_step_def Let_def)
    moreover have "\<forall>o' \<in> set [?o]. op_ok spp sqid (nc_stime swr) (max t latest) o'"
      using c(6) Some p by (simp add: op_ok_def)
    moreover have "latest \<le> max t latest" "length [?o] \<le> 1" by simp_all
    ultimately show ?thesis using inv' mp fr af' by blast
  qed
qed

lemma write_loop_ok:
  assumes "ns_inv spp ns" "\<forall>l \<in> set ls. l div nr_parts ns < tt_pgs spp" "nc_cmd swr = NAND_WRITE"
    and "\<forall>i < nr_parts ns. affords (ftls ns ! i) (share (nr_parts ns) i ls + m i)" "nc_stime swr \<le> latest"
  shows "\<exists>latest' new ns'. foldM (write_step sqid swr) ls (latest, ops, ns) = Some (latest', ops @ new, ns') \<and> ns_inv spp ns' \<and>
    mapped ns' = mapped ns \<union> set ls \<and> ns_frame ns ns' \<and> latest \<le> latest' \<and>
    (\<forall>o' \<in> set new. op_ok spp sqid (nc_stime swr) latest' o') \<and> length new \<le> length ls \<and> (\<forall>i < nr_parts ns. affords (ftls ns' ! i) (m i))"
  using assms
proof (induction ls arbitrary: ns latest ops)
  case Nil
  then show ?case by (intro exI [of _ latest] exI [of _ "[]"] exI [of _ ns]) (simp add: ns_frame_def share_def)
next
  case (Cons l ls)
  have l: "l div nr_parts ns < tt_pgs spp" using Cons.prems(2) by simp
  obtain l1 n1 ns1 where s: "write_step sqid swr l (latest, ops, ns) = Some (l1, ops @ n1, ns1)" "ns_inv spp ns1"
    "mapped ns1 = insert l (mapped ns)" "ns_frame ns ns1" "latest \<le> l1" "\<forall>o' \<in> set n1. op_ok spp sqid (nc_stime swr) l1 o'" "length n1 \<le> 1"
    "\<forall>i < nr_parts ns. affords (ftls ns1 ! i) (share (nr_parts ns) i ls + m i)"
    using write_step_ok [OF Cons.prems(1) l Cons.prems(3-5)] by blast
  have n: "nr_parts ns1 = nr_parts ns" using s(4) by (simp add: ns_frame_def)
  have h: "\<forall>l \<in> set ls. l div nr_parts ns1 < tt_pgs spp" "\<forall>i < nr_parts ns1. affords (ftls ns1 ! i) (share (nr_parts ns1) i ls + m i)"
    "nc_stime swr \<le> l1" using Cons.prems(2,5) s(5,8) n by auto
  obtain l2 n2 ns2 where r: "foldM (write_step sqid swr) ls (l1, ops @ n1, ns1) = Some (l2, (ops @ n1) @ n2, ns2)" "ns_inv spp ns2"
    "mapped ns2 = mapped ns1 \<union> set ls" "ns_frame ns1 ns2" "l1 \<le> l2" "\<forall>o' \<in> set n2. op_ok spp sqid (nc_stime swr) l2 o'"
    "length n2 \<le> length ls" "\<forall>i < nr_parts ns1. affords (ftls ns2 ! i) (m i)"
    using Cons.IH [OF s(2) h(1) Cons.prems(3) h(2,3)] by blast
  have "foldM (write_step sqid swr) (l # ls) (latest, ops, ns) = Some (l2, ops @ (n1 @ n2), ns2)" using s(1) r(1) by simp
  moreover have "\<forall>o' \<in> set (n1 @ n2). op_ok spp sqid (nc_stime swr) l2 o'" using s(6) r(5,6) by (auto simp: op_ok_def)
  moreover have "mapped ns2 = mapped ns \<union> set (l # ls)" using s(3) r(3) by auto
  moreover have "ns_frame ns ns2" "latest \<le> l2" using ns_frame_trans [OF s(4) r(4)] s(5) r(5) by simp_all
  moreover have "length (n1 @ n2) \<le> length (l # ls)" "\<forall>i < nr_parts ns. affords (ftls ns2 ! i) (m i)" using s(7) r(7,8) n by simp_all
  ultimately show ?case using r(2) by blast
qed

text \<open>The logical pages of a request.\<close>

definition req_pages :: "ssdparams \<Rightarrow> nvme_command \<Rightarrow> nat list" where
  "req_pages spp c = [first_lpn spp c..<last_lpn spp c + 1]"

definition in_range :: "ssdparams \<Rightarrow> conv_ns \<Rightarrow> nvme_command \<Rightarrow> bool" where
  "in_range spp ns c \<longleftrightarrow> last_lpn spp c div nr_parts ns < tt_pgs spp"

lemma req_pages_bound:
  assumes "in_range spp ns c" "l \<in> set (req_pages spp c)"
  shows "l div nr_parts ns < tt_pgs spp"
proof -
  have "l \<le> last_lpn spp c" using assms(2) by (auto simp: req_pages_def)
  then have "l div nr_parts ns \<le> last_lpn spp c div nr_parts ns" by (rule div_le_mono)
  then show ?thesis using assms(1) by (simp add: in_range_def)
qed

lemma req_bytes_small: "LBA_BITS cfg \<le> 15 \<Longrightarrow> req_bytes cfg c < 2 ^ 32"
proof -
  assume b: "LBA_BITS cfg \<le> 15"
  have "rw_length c + 1 \<le> 2 ^ 16" using lo16_less [of "cdw12 c"] by (simp add: rw_length_def)
  moreover have "(2::nat) ^ LBA_BITS cfg \<le> 2 ^ 15" using b by (rule power_increasing) simp
  ultimately have "(rw_length c + 1) * 2 ^ LBA_BITS cfg \<le> 2 ^ 16 * 2 ^ 15" by (rule mult_le_mono)
  then show ?thesis by (simp add: req_bytes_def LBA_TO_BYTE_def)
qed

lemma conv_write_head:
  assumes inv: "ns_inv spp ns"
  shows "part ns 0 = Some (load ns (ftls ns ! 0))" "spp_of (load ns (ftls ns ! 0)) = spp" "ftl_inv (load ns (ftls ns ! 0))"
    "nr_parts ns \<noteq> 0" "secs_per_pg spp \<noteq> 0"
proof -
  have "0 < nr_parts ns" using inv by (simp add: ns_inv_def)
  note L = load_ok [OF inv this]
  show "part ns 0 = Some (load ns (ftls ns ! 0))" "spp_of (load ns (ftls ns ! 0)) = spp" "ftl_inv (load ns (ftls ns ! 0))"
    using L by blast+
  show "nr_parts ns \<noteq> 0" "secs_per_pg spp \<noteq> 0" using inv by (simp_all add: ns_inv_def)
qed

lemma conv_write_refused:
  assumes inv: "ns_inv spp ns" and r: "\<not> in_range spp ns (rq_cmd req)"
  shows "conv_write cfg ns req = Some (None, [], ns)"
  using conv_write_head [OF inv] r by (simp add: conv_write_def in_range_def Let_def)

lemma conv_write_full:
  assumes inv: "ns_inv spp ns" and r: "in_range spp ns (rq_cmd req)"
    and b: "b_remaining (sh_wbuf ns) < req_bytes cfg (rq_cmd req)" "req_bytes cfg (rq_cmd req) \<le> b_size (sh_wbuf ns)"
  shows "conv_write cfg ns req = Some (None, [], ns)"
  using conv_write_head [OF inv] r b
  by (simp add: conv_write_def in_range_def Let_def buffer_allocate_def u32_def)

lemma conv_write_taken:
  assumes inv: "ns_inv spp ns" and r: "in_range spp ns (rq_cmd req)" and bits: "LBA_BITS cfg \<le> 15"
    and b: "req_bytes cfg (rq_cmd req) \<le> b_remaining (sh_wbuf ns)" "req_bytes cfg (rq_cmd req) \<le> b_size (sh_wbuf ns)"
    and af: "\<forall>i < nr_parts ns. affords (ftls ns ! i) (share (nr_parts ns) i (req_pages spp (rq_cmd req)) + m i)"
  shows "\<exists>res ops ns'. conv_write cfg ns req = Some (Some res, ops, ns') \<and> ns_inv spp ns' \<and>
    mapped ns' = mapped ns \<union> set (req_pages spp (rq_cmd req)) \<and> rs_status res = NVME_SC_SUCCESS \<and>
    rq_nsecs_start req + fw_wbuf_lat0 spp + fw_wbuf_lat1 spp * DIV_ROUND_UP (req_bytes cfg (rq_cmd req)) (KB 4) \<le> rs_nsecs_target res \<and>
    b_remaining (sh_wbuf ns') + req_bytes cfg (rq_cmd req) = b_remaining (sh_wbuf ns) \<and> b_size (sh_wbuf ns') = b_size (sh_wbuf ns) \<and>
    (\<exists>t. (\<forall>o' \<in> set ops. op_ok spp (rq_sq_id req) (rq_nsecs_start req) t o') \<and>
      (rw_fua (rq_cmd req) \<or> \<not> write_early_completion spp \<longrightarrow> rs_nsecs_target res = t)) \<and>
    length ops \<le> length (req_pages spp (rq_cmd req)) \<and> nr_parts ns' = nr_parts ns \<and> (\<forall>i < nr_parts ns. affords (ftls ns' ! i) (m i))"
proof -
  let ?c = "rq_cmd req" let ?z = "req_bytes cfg ?c" let ?cf = "load ns (ftls ns ! 0)"
  let ?wb = "(sh_wbuf ns)\<lparr>b_remaining := b_remaining (sh_wbuf ns) - ?z\<rparr>"
  note H = conv_write_head [OF inv]
  have z: "?z < 2 ^ 32" by (rule req_bytes_small [OF bits])
  have al: "buffer_allocate (sh_wbuf ns) ?z = Some (?z, ?wb)" using b z by (simp add: buffer_allocate_def Let_def)
  obtain t0 s where w: "ssd_advance_write_buffer (ssd ?cf) (rq_nsecs_start req) ?z = Some (t0, s)"
    "rq_nsecs_start req + fw_wbuf_lat0 spp + fw_wbuf_lat1 spp * DIV_ROUND_UP ?z (KB 4) \<le> t0" "tm_keep (ssd ?cf) s"
    using ssd_advance_write_buffer_ok [OF ftl_tm [OF H(3)]] H(2) by metis
  note T = ftl_timing [OF H(3) w(3)]
  define ns1 where "ns1 = store 0 (?cf\<lparr>ssd := s\<rparr>) (ns\<lparr>sh_wbuf := ?wb\<rparr>)"
  have n0: "0 < nr_parts ns" "length (ftls ns) = nr_parts ns" using inv by (simp_all add: ns_inv_def)
  have L3: "lpns (load ns (ftls ns ! 0)) = lpns (ftls ns ! 0)" "budget (load ns (ftls ns ! 0)) = budget (ftls ns ! 0)"
    using load_ok [OF inv n0(1)] by blast+
  have inv1: "ns_inv spp ns1"
    unfolding ns1_def by (rule store_ok) (use inv n0 T(1,4) H(2) in \<open>simp_all add: ns_inv_wbuf\<close>)
  have f1: "nr_parts ns1 = nr_parts ns" "sh_wbuf ns1 = ?wb" by (simp_all add: ns1_def)
  have f2: "ftls ns1 = (ftls ns)[0 := ?cf\<lparr>ssd := s\<rparr>]" by (simp add: ns1_def)
  have lp: "lpns (ftls ns1 ! i) = lpns (ftls ns ! i)" if "i < nr_parts ns" for i
    using that f2 n0 T(2) L3(1) by (cases "i = 0") simp_all
  have mp1: "mapped ns1 = mapped ns" using lp n0(1) by (auto simp: mapped_def f1)
  have sps: "spp_of (ftls ns ! i) = spp" if "i < nr_parts ns" for i using inv that by (simp add: ns_inv_def)
  have af1: "affords (ftls ns1 ! i) k = affords (ftls ns ! i) k" if "i < nr_parts ns" for i k
  proof (cases "i = 0")
    case True
    then have "ftls ns1 ! i = ?cf\<lparr>ssd := s\<rparr>" using f2 n0 by simp
    then show ?thesis using affords_budget [of "?cf\<lparr>ssd := s\<rparr>" "ftls ns ! 0" k] T(3,4) L3(2) H(2) sps that True by simp
  next
    case False
    then show ?thesis using f2 by simp
  qed
  let ?swr = "\<lparr>nc_type = USER_IO, nc_cmd = NAND_WRITE, nc_xfer_size = pgsz spp * pgs_per_oneshotpg spp,
                nc_stime = t0, nc_interleave = False, nc_ppa = zero_ppa\<rparr>"
  have "\<exists>t new ns'. foldM (write_step (rq_sq_id req) ?swr) (req_pages spp ?c) (t0, [], ns1) = Some (t, [] @ new, ns') \<and> ns_inv spp ns' \<and>
    mapped ns' = mapped ns1 \<union> set (req_pages spp ?c) \<and> ns_frame ns1 ns' \<and> t0 \<le> t \<and>
    (\<forall>o' \<in> set new. op_ok spp (rq_sq_id req) (nc_stime ?swr) t o') \<and> length new \<le> length (req_pages spp ?c) \<and> (\<forall>i < nr_parts ns1. affords (ftls ns' ! i) (m i))"
    by (rule write_loop_ok [OF inv1]) (use r req_pages_bound [of spp ns ?c] af af1 f1 in \<open>simp_all\<close>)
  then obtain t new ns' where loop: "foldM (write_step (rq_sq_id req) ?swr) (req_pages spp ?c) (t0, [], ns1) = Some (t, new, ns')"
    "ns_inv spp ns'" "mapped ns' = mapped ns1 \<union> set (req_pages spp ?c)" "ns_frame ns1 ns'" "t0 \<le> t"
    "\<forall>o' \<in> set new. op_ok spp (rq_sq_id req) t0 t o'" "length new \<le> length (req_pages spp ?c)" "\<forall>i < nr_parts ns. affords (ftls ns' ! i) (m i)" using f1(1) by auto
  have np: "nr_parts ns' = nr_parts ns" using loop(4) f1(1) by (simp add: ns_frame_def)
  let ?res = "\<lparr>rs_status = NVME_SC_SUCCESS, rs_nsecs_target = (if rw_fua ?c \<or> \<not> write_early_completion spp then t else t0)\<rparr>"
  have ex: "conv_write cfg ns req = Some (Some ?res, new, ns')"
    using H(1,2,4,5) r al w(1) loop(1) [unfolded req_pages_def ns1_def]
    by (simp add: conv_write_def Let_def in_range_def req_pages_def ns1_def)
  have tm: "rq_nsecs_start req + fw_wbuf_lat0 spp + fw_wbuf_lat1 spp * DIV_ROUND_UP ?z (KB 4) \<le> rs_nsecs_target ?res"
    using w(2) loop(5) by simp
  have op: "\<forall>o' \<in> set new. op_ok spp (rq_sq_id req) (rq_nsecs_start req) t o'" using loop(6) w(2) by (auto simp: op_ok_def)
  have wb: "b_remaining (sh_wbuf ns') + ?z = b_remaining (sh_wbuf ns)" "b_size (sh_wbuf ns') = b_size (sh_wbuf ns)"
    using loop(4) f1(2) b(1) by (simp_all add: ns_frame_def)
  show ?thesis
    using ex loop(2,3,7,8) mp1 tm wb op np
    by (intro exI [of _ ?res] exI [of _ new] exI [of _ ns'] conjI exI [of _ t]) simp_all
qed

section \<open>Read\<close>

text \<open>Reference: the physical pages read are cut into runs of consecutive pages on one flash page, each given
  by its first page and its length.\<close>

function runs :: "(ppa \<Rightarrow> ppa \<Rightarrow> bool) \<Rightarrow> ppa list \<Rightarrow> (ppa \<times> nat) list" where
  "runs same [] = []"
| "runs same (a # as) = (a, 1 + length (takeWhile (\<lambda>b. same b a) as)) # runs same (dropWhile (\<lambda>b. same b a) as)"
  by pat_completeness auto
termination
  by (relation "measure (\<lambda>(same, as). length as)") (simp_all add: le_imp_less_Suc length_dropWhile_le)

definition issue_run :: "nand_cmd \<Rightarrow> nat \<Rightarrow> ppa \<times> nat \<Rightarrow> nat \<times> conv_ftl \<Rightarrow> (nat \<times> conv_ftl) option" where
  "issue_run srd pg_size r st = issue_read srd (snd r * pg_size) (fst r) (fst st) (snd st)"

lemma foldM_Nil_fun: "foldM f [] = Some"
  by (rule ext) simp

lemma runs_sum: "sum_list (map snd (runs same as)) = length as"
proof (induction same as rule: runs.induct)
  case (2 same a as)
  have "length as = length (takeWhile (\<lambda>b. same b a) as) + length (dropWhile (\<lambda>b. same b a) as)"
    by (metis length_append takeWhile_dropWhile_id)
  with 2 show ?case by simp
qed simp

lemma runs_mem: "(a, k) \<in> set (runs same as) \<Longrightarrow> a \<in> set as \<and> 0 < k \<and> k \<le> length as"
proof (induction same as rule: runs.induct)
  case (2 same b as)
  have "length (takeWhile (\<lambda>c. same c b) as) \<le> length as" "length (dropWhile (\<lambda>c. same c b) as) \<le> length as"
    by (simp_all add: length_takeWhile_le length_dropWhile_le)
  moreover have "set (dropWhile (\<lambda>c. same c b) as) \<subseteq> set as" by (auto dest: set_dropWhileD)
  ultimately show ?case using 2 by auto
qed simp

lemma ftl_pages:
  assumes inv: "ftl_inv cf" and a: "a \<in> pages (spp_of cf)"
  shows "mapped_ppa a" "valid_ppa cf a" "get_lun (ssd cf) a \<noteq> None"
proof -
  have b: "binv cf (settled cf) {}" using inv by (simp add: ftl_inv_def)
  note g = binvD(3) [OF b]
  show "mapped_ppa a" by (rule mapped_page [OF a g])
  show "valid_ppa cf a"
    using a lm_tt(1) [OF b] binvD(1) [OF b] geoD(5,14) [OF g] by (simp add: valid_ppa_def Let_def pages_def ppb_def split: if_splits)
  show "get_lun (ssd cf) a \<noteq> None" by (rule nand_lun [OF binvD(2) [OF b] a])
qed

lemma ftl_map:
  assumes "ftl_inv cf" "l < tt_pgs (spp_of cf)"
  shows "get_maptbl_ent cf l = Some (maptbl cf ! l)" "mapped_ppa (maptbl cf ! l) \<Longrightarrow> maptbl cf ! l \<in> pages (spp_of cf)"
  using assms by (auto simp: ftl_inv_def minv_def get_maptbl_ent_def arr_simps)

lemma issue_read_ok:
  assumes inv: "ftl_inv cf" and a: "a \<in> pages (spp_of cf)" and x: "0 < x" and c: "nc_cmd srd = NAND_READ"
  shows "\<exists>t s'. issue_read srd x a latest cf = Some (t, cf\<lparr>ssd := s'\<rparr>) \<and> tm_keep (ssd cf) s' \<and> latest \<le> t \<and> nc_stime srd \<le> t"
proof -
  let ?n = "srd\<lparr>nc_xfer_size := x, nc_ppa := a\<rparr>"
  have "get_lun (ssd cf) (nc_ppa ?n) \<noteq> None" using ftl_pages(3) [OF inv a] by simp
  then obtain t s' where t: "ssd_advance_nand (ssd cf) ?n = Some (t, s')" "tm_keep (ssd cf) s'" "nc_stime ?n \<le> t"
    using ssd_advance_nand_safe [OF ftl_tm [OF inv], of ?n] c x by auto
  then show ?thesis
    using x by (intro exI [of _ "max t latest"] exI [of _ s']) (simp add: issue_read_def advance_nand_def)
qed

text \<open>The mapped pages among the pages read.\<close>

definition read_ppas :: "ppa list \<Rightarrow> nat list \<Rightarrow> ppa list" where
  "read_ppas tbl ls = filter mapped_ppa (map ((!) tbl) ls)"

lemma same_page_spp: "spp_of cf' = spp_of cf \<Longrightarrow> is_same_flash_page cf' = is_same_flash_page cf"
  by (intro ext) (simp add: is_same_flash_page_def)

text \<open>The loop in the middle of a run of \<open>k\<close> pages that starts at \<open>a\<close>.\<close>

lemma read_loop_run:
  assumes "ftl_inv cf" "\<forall>l \<in> set ls. l < tt_pgs (spp_of cf)" "a \<in> pages (spp_of cf)" "0 < k" "0 < pg" "(k + length ls) * pg < 2 ^ 32"
    "nc_cmd srd = NAND_READ"
  shows "(foldM (read_page srd pg) ls (k * pg, a, latest, cf) \<bind> (\<lambda>(x, p, l, c). issue_read srd x p l c)) =
    foldM (issue_run srd pg)
      ((a, k + length (takeWhile (\<lambda>b. is_same_flash_page cf b a) (read_ppas (maptbl cf) ls))) #
       runs (is_same_flash_page cf) (dropWhile (\<lambda>b. is_same_flash_page cf b a) (read_ppas (maptbl cf) ls))) (latest, cf)"
  using assms
proof (induction ls arbitrary: cf a k latest)
  case Nil
  then show ?case by (simp add: read_ppas_def issue_run_def foldM_Nil_fun)
next
  case (Cons l ls)
  have l: "l < tt_pgs (spp_of cf)" using Cons.prems(2) by simp
  let ?b = "maptbl cf ! l" let ?same = "is_same_flash_page cf"
  note m = ftl_map [OF Cons.prems(1) l]
  have pf: "pgs_per_flashpg (spp_of cf) \<noteq> 0" using ftl_tm [OF Cons.prems(1)] by (simp add: tm_inv_def)
  have ma: "mapped_ppa a" using ftl_pages(1) Cons.prems(1,3) by blast
  have sz: "(k + length ls) * pg < 2 ^ 32" "(k + 1 + length ls) * pg < 2 ^ 32" "(1 + length ls) * pg < 2 ^ 32"
  proof -
    have e: "(k + length (l # ls)) * pg = (k + length ls) * pg + pg" "(k + 1 + length ls) * pg = (k + length ls) * pg + pg"
      by (simp_all add: algebra_simps)
    then show "(k + length ls) * pg < 2 ^ 32" "(k + 1 + length ls) * pg < 2 ^ 32" using Cons.prems(6) by linarith+
    have "(1 + length ls) * pg \<le> (k + length (l # ls)) * pg" using Cons.prems(4) by (intro mult_le_mono1) simp
    then show "(1 + length ls) * pg < 2 ^ 32" using Cons.prems(6) by linarith
  qed
  show ?case
  proof (cases "mapped_ppa ?b")
    case False
    have "read_page srd pg l (k * pg, a, latest, cf) = Some (k * pg, a, latest, cf)" using m(1) False by (simp add: read_page_def)
    moreover have "read_ppas (maptbl cf) (l # ls) = read_ppas (maptbl cf) ls" using False by (simp add: read_ppas_def)
    ultimately show ?thesis using Cons.IH [OF Cons.prems(1) _ Cons.prems(3-5) sz(1) Cons.prems(7)] Cons.prems(2) by simp
  next
    case True
    note b = m(2) [OF True]
    have vb: "valid_ppa cf ?b" using ftl_pages(2) Cons.prems(1) b by blast
    have rp: "read_ppas (maptbl cf) (l # ls) = ?b # read_ppas (maptbl cf) ls" using True by (simp add: read_ppas_def)
    show ?thesis
    proof (cases "?same ?b a")
      case same: True
      have "(k + 1) * pg \<le> (k + 1 + length ls) * pg" by (rule mult_le_mono1) simp
      then have "u32 (k * pg + pg) = (k + 1) * pg" using sz(2) by (simp add: algebra_simps)
      then have "read_page srd pg l (k * pg, a, latest, cf) = Some ((k + 1) * pg, a, latest, cf)"
        using m(1) True vb ma pf same by (simp add: read_page_def)
      then show ?thesis using Cons.IH [OF Cons.prems(1) _ Cons.prems(3) _ Cons.prems(5) sz(2) Cons.prems(7)] Cons.prems(2) rp same by simp
    next
      case diff: False
      have kp: "0 < k * pg" using Cons.prems(4,5) by simp
      obtain t s' where i: "issue_read srd (k * pg) a latest cf = Some (t, cf\<lparr>ssd := s'\<rparr>)" "tm_keep (ssd cf) s'"
        using issue_read_ok [OF Cons.prems(1,3) kp Cons.prems(7)] by blast
      let ?c = "cf\<lparr>ssd := s'\<rparr>"
      note T = ftl_timing [OF Cons.prems(1) i(2)]
      have "1 * pg \<le> (1 + length ls) * pg" by (rule mult_le_mono1) simp
      then have "u32 pg = 1 * pg" using sz(3) by simp
      then have step: "read_page srd pg l (k * pg, a, latest, cf) = Some (1 * pg, ?b, t, ?c)"
        using m(1) True vb ma pf diff i(1) by (simp add: read_page_def)
      have "(foldM (read_page srd pg) ls (1 * pg, ?b, t, ?c) \<bind> (\<lambda>(x, p, l, c). issue_read srd x p l c)) =
        foldM (issue_run srd pg)
          ((?b, 1 + length (takeWhile (\<lambda>x. is_same_flash_page ?c x ?b) (read_ppas (maptbl ?c) ls))) #
           runs (is_same_flash_page ?c) (dropWhile (\<lambda>x. is_same_flash_page ?c x ?b) (read_ppas (maptbl ?c) ls))) (t, ?c)"
        by (rule Cons.IH [OF T(1)]) (use Cons.prems(2,5,7) sz(3) T(4) b in simp_all)
      also have "is_same_flash_page ?c = ?same" by (rule same_page_spp) (rule T(4))
      finally show ?thesis using step i(1) rp diff by (simp add: issue_run_def)
    qed
  qed
qed

text \<open>The loop before the first mapped page.\<close>

lemma read_loop_start:
  assumes "ftl_inv cf" "\<forall>l \<in> set ls. l < tt_pgs (spp_of cf)" "0 < pg" "(1 + length ls) * pg < 2 ^ 32" "nc_cmd srd = NAND_READ"
    "\<not> mapped_ppa p"
  shows "(foldM (read_page srd pg) ls (0, p, latest, cf) \<bind> (\<lambda>(x, p, l, c). issue_read srd x p l c)) =
    foldM (issue_run srd pg) (runs (is_same_flash_page cf) (read_ppas (maptbl cf) ls)) (latest, cf)"
  using assms
proof (induction ls)
  case Nil
  then show ?case by (simp add: read_ppas_def issue_read_def)
next
  case (Cons l ls)
  have l: "l < tt_pgs (spp_of cf)" using Cons.prems(2) by simp
  let ?b = "maptbl cf ! l"
  note m = ftl_map [OF Cons.prems(1) l]
  have sz: "(1 + length ls) * pg < 2 ^ 32" using Cons.prems(4) by simp
  show ?case
  proof (cases "mapped_ppa ?b")
    case False
    have "read_page srd pg l (0, p, latest, cf) = Some (0, p, latest, cf)" using m(1) False by (simp add: read_page_def)
    moreover have "read_ppas (maptbl cf) (l # ls) = read_ppas (maptbl cf) ls" using False by (simp add: read_ppas_def)
    ultimately show ?thesis using Cons.IH Cons.prems sz by simp
  next
    case True
    note b = m(2) [OF True]
    have vb: "valid_ppa cf ?b" using ftl_pages(2) Cons.prems(1) b by blast
    have rp: "read_ppas (maptbl cf) (l # ls) = ?b # read_ppas (maptbl cf) ls" using True by (simp add: read_ppas_def)
    have "1 * pg \<le> (1 + length ls) * pg" by (rule mult_le_mono1) simp
    then have "u32 pg = 1 * pg" using sz by simp
    then have "read_page srd pg l (0, p, latest, cf) = Some (1 * pg, ?b, latest, cf)"
      using m(1) True vb Cons.prems(6) by (simp add: read_page_def issue_read_def)
    then show ?thesis using read_loop_run [OF Cons.prems(1) _ b _ Cons.prems(3) sz Cons.prems(5)] Cons.prems(2) rp by simp
  qed
qed

lemma same_page_refl: "is_same_flash_page cf a a"
  by (simp add: is_same_flash_page_def)

text \<open>The optimised reading of an instance's pages issues one NAND read for each run.\<close>

lemma read_part_runs:
  assumes inv: "ftl_inv cf" and ls: "\<forall>l \<in> set (l # ls). l < tt_pgs (spp_of cf)" and pg: "0 < pg" "(2 + length ls) * pg < 2 ^ 32"
    and c: "nc_cmd srd = NAND_READ"
  shows "read_part srd pg (l # ls) l latest cf =
    foldM (issue_run srd pg) (runs (is_same_flash_page cf) (read_ppas (maptbl cf) (l # ls))) (latest, cf)"
proof -
  have l: "l < tt_pgs (spp_of cf)" using ls by simp
  note m = ftl_map [OF inv l]
  have e: "read_part srd pg (l # ls) l latest cf =
    (foldM (read_page srd pg) (l # ls) (0, maptbl cf ! l, latest, cf) \<bind> (\<lambda>(x, p, l, c). issue_read srd x p l c))"
    using m(1) by (simp add: read_part_def)
  have sz: "(1 + length (l # ls)) * pg < 2 ^ 32" using pg(2) by simp
  show ?thesis
  proof (cases "mapped_ppa (maptbl cf ! l)")
    case False
    show ?thesis unfolding e by (rule read_loop_start [OF inv ls pg(1) sz c False])
  next
    case True
    note b = m(2) [OF True]
    have vb: "valid_ppa cf (maptbl cf ! l)" using ftl_pages(2) inv b by blast
    have pf: "pgs_per_flashpg (spp_of cf) \<noteq> 0" using ftl_tm [OF inv] by (simp add: tm_inv_def)
    have rp: "read_ppas (maptbl cf) (l # ls) = (maptbl cf ! l) # read_ppas (maptbl cf) ls" using True by (simp add: read_ppas_def)
    have sz1: "(1 + length ls) * pg < 2 ^ 32" using pg(2) by simp
    have "1 * pg \<le> (1 + length ls) * pg" by (rule mult_le_mono1) simp
    then have "u32 pg = 1 * pg" using sz1 by simp
    then have "read_page srd pg l (0, maptbl cf ! l, latest, cf) = Some (1 * pg, maptbl cf ! l, latest, cf)"
      using m(1) True vb pf by (simp add: read_page_def same_page_refl)
    then show ?thesis unfolding e using read_loop_run [OF inv _ b _ pg(1) sz1 c] ls rp by simp
  qed
qed

lemma issue_runs_ok:
  assumes "ftl_inv cf" "\<forall>(a, k) \<in> set rs. a \<in> pages (spp_of cf) \<and> 0 < k" "0 < pg" "nc_cmd srd = NAND_READ"
  shows "\<exists>t s'. foldM (issue_run srd pg) rs (latest, cf) = Some (t, cf\<lparr>ssd := s'\<rparr>) \<and> tm_keep (ssd cf) s' \<and> latest \<le> t \<and>
    (rs \<noteq> [] \<longrightarrow> nc_stime srd \<le> t)"
  using assms
proof (induction rs arbitrary: cf latest)
  case Nil
  have "tm_keep (ssd cf) (ssd cf)" using ftl_tm [OF Nil.prems(1)] by (simp add: tm_keep_def)
  then show ?case by (intro exI [of _ latest] exI [of _ "ssd cf"]) simp
next
  case (Cons r rs)
  obtain a k where r: "r = (a, k)" by (cases r)
  have a: "a \<in> pages (spp_of cf)" and k: "0 < k * pg" using Cons.prems(2,3) r by auto
  obtain t s' where i: "issue_read srd (k * pg) a latest cf = Some (t, cf\<lparr>ssd := s'\<rparr>)" "tm_keep (ssd cf) s'" "latest \<le> t" "nc_stime srd \<le> t"
    using issue_read_ok [OF Cons.prems(1) a k Cons.prems(4)] by blast
  note T = ftl_timing [OF Cons.prems(1) i(2)]
  have "\<forall>(a, k) \<in> set rs. a \<in> pages (spp_of (cf\<lparr>ssd := s'\<rparr>)) \<and> 0 < k" using Cons.prems(2) T(4) by auto
  then obtain t2 s2 where j: "foldM (issue_run srd pg) rs (t, cf\<lparr>ssd := s'\<rparr>) = Some (t2, (cf\<lparr>ssd := s'\<rparr>)\<lparr>ssd := s2\<rparr>)"
    "tm_keep s' s2" "t \<le> t2" using Cons.IH [OF T(1) _ Cons.prems(3,4), of t] by auto
  have "foldM (issue_run srd pg) (r # rs) (latest, cf) = Some (t2, cf\<lparr>ssd := s2\<rparr>)"
    using i(1) j(1) r by (simp add: issue_run_def)
  then show ?case using tm_keep_trans [OF i(2) j(2)] i(3,4) j(3) by (intro exI [of _ t2] exI [of _ s2]) simp
qed

lemma read_part_ok:
  assumes inv: "ftl_inv cf" and ls: "\<forall>l \<in> set (l # ls). l < tt_pgs (spp_of cf)" and pg: "0 < pg" "(2 + length ls) * pg < 2 ^ 32"
    and c: "nc_cmd srd = NAND_READ"
  shows "\<exists>t s'. read_part srd pg (l # ls) l latest cf = Some (t, cf\<lparr>ssd := s'\<rparr>) \<and> tm_keep (ssd cf) s' \<and> latest \<le> t"
proof -
  let ?rs = "runs (is_same_flash_page cf) (read_ppas (maptbl cf) (l # ls))"
  have "a \<in> pages (spp_of cf) \<and> 0 < k" if "(a, k) \<in> set ?rs" for a k
  proof -
    have a: "a \<in> set (read_ppas (maptbl cf) (l # ls))" "0 < k" using runs_mem [OF that] by simp_all
    then obtain x where "x \<in> set (l # ls)" "a = maptbl cf ! x" "mapped_ppa a" unfolding read_ppas_def set_filter set_map by blast
    then show ?thesis using ftl_map(2) [OF inv, of x] ls a(2) by blast
  qed
  then show ?thesis
    unfolding read_part_runs [OF inv ls pg c] using issue_runs_ok [OF inv _ pg(1) c, of ?rs latest] by blast
qed

text \<open>Reads and flushes: everything but the timing stays.\<close>

definition ns_same :: "conv_ns \<Rightarrow> conv_ns \<Rightarrow> bool" where
  "ns_same ns ns' \<longleftrightarrow> ns_frame ns ns' \<and> mapped ns' = mapped ns \<and> (\<forall>l. ns_ppa ns' l = ns_ppa ns l) \<and>
     (\<forall>i < nr_parts ns. budget (ftls ns' ! i) = budget (ftls ns ! i))"

lemma ns_same_trans: "ns_same a b \<Longrightarrow> ns_same b c \<Longrightarrow> ns_same a c"
  by (simp add: ns_same_def ns_frame_def)

lemma store_timing:
  assumes inv: "ns_inv spp ns" and i: "i < nr_parts ns" and k: "tm_keep (ssd (load ns (ftls ns ! i))) s'"
  shows "ns_inv spp (store i ((load ns (ftls ns ! i))\<lparr>ssd := s'\<rparr>) ns)" "ns_same ns (store i ((load ns (ftls ns ! i))\<lparr>ssd := s'\<rparr>) ns)"
proof -
  let ?c = "load ns (ftls ns ! i)" let ?c' = "?c\<lparr>ssd := s'\<rparr>"
  note L = load_ok [OF inv i]
  note T = ftl_timing [OF L(2) k]
  have n: "0 < nr_parts ns" "length (ftls ns) = nr_parts ns" using inv by (simp_all add: ns_inv_def)
  show "ns_inv spp (store i ?c' ns)" by (rule store_ok [OF inv i T(1)]) (use T(4) L(5) in simp)
  have e: "lpns (((ftls ns)[i := ?c']) ! j) = lpns (ftls ns ! j)" "maptbl (((ftls ns)[i := ?c']) ! j) = maptbl (ftls ns ! j)"
    "budget (((ftls ns)[i := ?c']) ! j) = budget (ftls ns ! j)" if "j < nr_parts ns" for j
    using that n T(2,3) L(3,4,6) by (cases "j = i"; simp)+
  then show "ns_same ns (store i ?c' ns)"
    using n(1) by (auto simp: ns_same_def ns_frame_def mapped_def ns_ppa_def)
qed

lemma stride_le: "l \<in> set (stride a b n) \<Longrightarrow> l \<le> b"
proof -
  assume l: "l \<in> set (stride a b n)"
  then have ab: "a \<le> b" by (cases "b < a") (simp_all add: stride_def)
  have "stride a b n = map (\<lambda>k. a + k * n) [0..<(b - a) div n + 1]" using ab unfolding stride_def by (subst if_not_P) simp_all
  then have "l \<in> (\<lambda>k. a + k * n) ` {0..<(b - a) div n + 1}" using l by (simp only: set_map set_upt)
  then obtain k where k: "l = a + k * n" "k < (b - a) div n + 1" by (elim imageE) (rule that, assumption, simp)
  have "k * n \<le> (b - a) div n * n" using k(2) by (intro mult_le_mono1) simp
  also have "\<dots> \<le> b - a" by simp
  finally show ?thesis using k(1) ab by simp
qed

lemma stride_Cons: "a \<le> b \<Longrightarrow> \<exists>ls. stride a b n = a # ls \<and> length ls = (b - a) div n"
proof -
  assume "a \<le> b"
  then have "stride a b n = map (\<lambda>k. a + k * n) (0 # [1..<(b - a) div n + 1])"
    unfolding stride_def by (simp add: upt_conv_Cons)
  then show ?thesis by simp
qed

lemma read_step_ok:
  assumes inv: "ns_inv spp ns" and l: "l \<le> e" "e div nr_parts ns < tt_pgs spp" and pg: "0 < pg" "(2 + (e - l)) * pg < 2 ^ 32"
    and c: "nc_cmd srd = NAND_READ"
  shows "\<exists>t ns'. read_step srd pg e l (latest, ns) = Some (t, ns') \<and> ns_inv spp ns' \<and> ns_same ns ns' \<and> latest \<le> t"
proof -
  let ?n = "nr_parts ns" let ?i = "l mod ?n" let ?c = "load ns (ftls ns ! ?i)"
  have n: "0 < ?n" using inv by (simp add: ns_inv_def)
  then have i: "?i < ?n" by simp
  note L = load_ok [OF inv i]
  obtain ls where ls: "stride l e ?n = l # ls" "length ls = (e - l) div ?n" using stride_Cons [OF l(1)] by blast
  have b: "x div ?n < tt_pgs spp" if "x \<in> set (stride l e ?n)" for x
    using div_le_mono [OF stride_le [OF that], of ?n] l(2) by simp
  have "(2 + length (map (\<lambda>x. x div ?n) ls)) * pg \<le> (2 + (e - l)) * pg" using ls(2) by (intro mult_le_mono1) simp
  then have sz: "(2 + length (map (\<lambda>x. x div ?n) ls)) * pg < 2 ^ 32" using pg(2) by linarith
  have "\<forall>x \<in> set (l div ?n # map (\<lambda>x. x div ?n) ls). x < tt_pgs (spp_of ?c)" using b ls(1) L(5) by auto
  then obtain t s' where r: "read_part srd pg (l div ?n # map (\<lambda>x. x div ?n) ls) (l div ?n) latest ?c = Some (t, ?c\<lparr>ssd := s'\<rparr>)"
    "tm_keep (ssd ?c) s'" "latest \<le> t" using read_part_ok [OF L(2) _ pg(1) sz c] by blast
  have "read_step srd pg e l (latest, ns) = Some (t, store ?i (?c\<lparr>ssd := s'\<rparr>) ns)"
    using L(1) ls(1) r(1) by (simp add: read_step_def Let_def)
  then show ?thesis using store_timing [OF inv i r(2)] r(3) by blast
qed

lemma read_steps_ok:
  assumes "ns_inv spp ns" "\<forall>l \<in> set ls. l0 \<le> l \<and> l \<le> e" "e div nr_parts ns < tt_pgs spp" "0 < pg" "(2 + (e - l0)) * pg < 2 ^ 32" "nc_cmd srd = NAND_READ"
  shows "\<exists>t ns'. foldM (read_step srd pg e) ls (latest, ns) = Some (t, ns') \<and> ns_inv spp ns' \<and> ns_same ns ns' \<and> latest \<le> t"
  using assms
proof (induction ls arbitrary: ns latest)
  case Nil
  then show ?case by (intro exI [of _ latest] exI [of _ ns]) (simp add: ns_same_def ns_frame_def)
next
  case (Cons l ls)
  have l: "l \<le> e" "l0 \<le> l" using Cons.prems(2) by simp_all
  have "(2 + (e - l)) * pg \<le> (2 + (e - l0)) * pg" using l by (intro mult_le_mono1) simp
  then have sz: "(2 + (e - l)) * pg < 2 ^ 32" using Cons.prems(5) by linarith
  obtain t ns1 where s: "read_step srd pg e l (latest, ns) = Some (t, ns1)" "ns_inv spp ns1" "ns_same ns ns1" "latest \<le> t"
    using read_step_ok [OF Cons.prems(1) l(1) Cons.prems(3,4) sz Cons.prems(6)] by blast
  have h: "\<forall>l \<in> set ls. l0 \<le> l \<and> l \<le> e" "e div nr_parts ns1 < tt_pgs spp"
    using Cons.prems(2,3) s(3) by (simp_all add: ns_same_def ns_frame_def)
  obtain t2 ns2 where r: "foldM (read_step srd pg e) ls (t, ns1) = Some (t2, ns2)" "ns_inv spp ns2" "ns_same ns1 ns2" "t \<le> t2"
    using Cons.IH [OF s(2) h Cons.prems(4-6)] by blast
  then show ?case using s ns_same_trans [OF s(3) r(3)] by (intro exI [of _ t2] exI [of _ ns2]) simp
qed

lemma conv_read_ok:
  assumes inv: "ns_inv spp ns" and r: "in_range spp ns (rq_cmd req)"
    and sz: "(2 + (last_lpn spp (rq_cmd req) - first_lpn spp (rq_cmd req))) * pgsz spp < 2 ^ 32"
  shows "\<exists>t ns'. conv_read cfg ns req = Some (Some \<lparr>rs_status = NVME_SC_SUCCESS, rs_nsecs_target = t\<rparr>, ns') \<and> ns_inv spp ns' \<and>
    ns_same ns ns' \<and> rq_nsecs_start req \<le> t"
proof -
  let ?c = "rq_cmd req" let ?a = "first_lpn spp ?c" let ?e = "last_lpn spp ?c"
  note H = conv_write_head [OF inv]
  have pg: "0 < pgsz spp" using binvD(3) [of "load ns (ftls ns ! 0)"] H(2,3) geoD(9) by (auto simp: ftl_inv_def)
  let ?st = "rq_nsecs_start req + (if req_bytes cfg ?c \<le> KB 4 * nr_parts ns then fw_4kb_rd_lat spp else fw_rd_lat spp)"
  let ?srd = "\<lparr>nc_type = USER_IO, nc_cmd = NAND_READ, nc_xfer_size = 0, nc_stime = ?st, nc_interleave = True, nc_ppa = zero_ppa\<rparr>"
  obtain t ns' where l: "foldM (read_step ?srd (pgsz spp) ?e) [?a..<min (?e + 1) (?a + nr_parts ns)] (rq_nsecs_start req, ns) = Some (t, ns')"
    "ns_inv spp ns'" "ns_same ns ns'" "rq_nsecs_start req \<le> t"
    using read_steps_ok [OF inv, of "[?a..<min (?e + 1) (?a + nr_parts ns)]" ?a ?e "pgsz spp" ?srd "rq_nsecs_start req"]
      r sz pg by (auto simp: in_range_def)
  have "conv_read cfg ns req = Some (Some \<lparr>rs_status = NVME_SC_SUCCESS, rs_nsecs_target = t\<rparr>, ns')"
    by (cases "req_bytes cfg ?c \<le> KB 4 * nr_parts ns") (use H r l(1) in \<open>simp_all add: conv_read_def in_range_def Let_def\<close>)
  then show ?thesis using l by blast
qed

lemma conv_read_refused:
  assumes inv: "ns_inv spp ns" and r: "\<not> in_range spp ns (rq_cmd req)"
  shows "conv_read cfg ns req = Some (None, ns)"
  using conv_write_head [OF inv] r by (simp add: conv_read_def in_range_def Let_def)

section \<open>Flush\<close>

lemma idle_loops:
  assumes "\<forall>x \<in> set xs. \<forall>l. \<exists>l'. f x l = Some l' \<and> (l::nat) \<le> l'"
  shows "\<exists>l'. foldM f xs l = Some l' \<and> l \<le> l'"
  using assms
proof (induction xs arbitrary: l)
  case (Cons x xs)
  have "\<exists>l'. f x l = Some l' \<and> l \<le> l'" using Cons.prems by simp
  then obtain l1 where "f x l = Some l1" "l \<le> l1" by blast
  moreover have "\<exists>l'. foldM f xs l1 = Some l' \<and> l1 \<le> l'" by (rule Cons.IH) (use Cons.prems in simp)
  then obtain l2 where "foldM f xs l1 = Some l2" "l1 \<le> l2" by blast
  ultimately show ?case by auto
qed simp

lemma ssd_next_idle_time_ok:
  assumes nd: "nand_inv s" and t: "0 < tt_lines (sp s)"
  shows "\<exists>t. ssd_next_idle_time s = Some (t, s\<lparr>tick := tick s + 1\<rparr>) \<and> clk s (tick s) \<le> t"
proof -
  have g: "geo (sp s)" using nd by (simp add: nand_inv_def)
  have lun: "\<exists>l. get_lun s (mk i j 0 0) = Some l" if "i < nchs (sp s)" "j < luns_per_ch (sp s)" for i j
    using nand_lun [OF nd, of "mk i j 0 0"] that t geo_pos(3) [OF g, of 0] by auto
  have in_c: "\<exists>c. idx (chs s) i = Some c \<and> (\<forall>j < luns_per_ch (sp s). \<exists>l. idx (luns c) j = Some l)" if i: "i < nchs (sp s)" for i
  proof -
    obtain l where "get_lun s (mk i 0 0 0) = Some l" using lun [OF i geoD(3) [OF g]] by blast
    then obtain c where c: "idx (chs s) i = Some c" by (auto simp: get_lun_def get_ch_def split: Option.bind_splits)
    have "\<exists>l. idx (luns c) j = Some l" if "j < luns_per_ch (sp s)" for j
      using lun [OF i that] c by (auto simp: get_lun_def get_ch_def)
    then show ?thesis using c by blast
  qed
  let ?f = "\<lambda>c j latest. do { l \<leftarrow> idx (luns c) j; Some (max latest (next_lun_avail_time l)) }"
  let ?g = "\<lambda>i latest. do { c \<leftarrow> idx (chs s) i; foldM (?f c) [0..<luns_per_ch (sp s)] latest }"
  have "\<exists>l'. ?g i l = Some l' \<and> l \<le> l'" if i: "i < nchs (sp s)" for i l
  proof -
    obtain c where c: "idx (chs s) i = Some c" "\<forall>j < luns_per_ch (sp s). \<exists>l. idx (luns c) j = Some l" using in_c [OF i] by blast
    have "\<forall>j \<in> set [0..<luns_per_ch (sp s)]. \<forall>l. \<exists>l'. ?f c j l = Some l' \<and> l \<le> l'" using c(2) by fastforce
    then show ?thesis using idle_loops [of "[0..<luns_per_ch (sp s)]" "?f c" l] c(1) by simp
  qed
  then obtain l' where l': "foldM ?g [0..<nchs (sp s)] (clk s (tick s)) = Some l'" "clk s (tick s) \<le> l'"
    using idle_loops [of "[0..<nchs (sp s)]" ?g "clk s (tick s)"] by auto
  then have "ssd_next_idle_time s = Some (l', s\<lparr>tick := tick s + 1\<rparr>)" by (simp add: ssd_next_idle_time_def get_ioclock_def)
  then show ?thesis using l'(2) by blast
qed

text \<open>A flush completes at the earliest when the clock was read.\<close>

lemma flush_step_ok:
  assumes inv: "ns_inv spp ns" and i: "i < nr_parts ns"
  shows "\<exists>t ns'. flush_step i (latest, ns) = Some (t, ns') \<and> ns_inv spp ns' \<and> ns_same ns ns' \<and> latest \<le> t"
proof -
  let ?c = "load ns (ftls ns ! i)"
  note L = load_ok [OF inv i]
  have nd: "nand_inv (ssd ?c)" and "4 \<le> tt_lines_slc (spp_of ?c)" using L(2) binvD(2) by (auto simp: ftl_inv_def)
  then have t: "0 < tt_lines (sp (ssd ?c))" using geoD(15) [of "spp_of ?c"] by (simp add: nand_inv_def)
  obtain t where t: "ssd_next_idle_time (ssd ?c) = Some (t, (ssd ?c)\<lparr>tick := tick (ssd ?c) + 1\<rparr>)"
    using ssd_next_idle_time_ok [OF nd t] by blast
  have k: "tm_keep (ssd ?c) ((ssd ?c)\<lparr>tick := tick (ssd ?c) + 1\<rparr>)" by (rule tick_keep(1) [OF ftl_tm [OF L(2)]])
  show ?thesis
    using L(1) t store_timing [OF inv i k] by (intro exI [of _ "max latest t"]) (simp add: flush_step_def)
qed

lemma flush_steps_ok:
  assumes "ns_inv spp ns" "\<forall>i \<in> set is. i < nr_parts ns"
  shows "\<exists>t ns'. foldM flush_step is (latest, ns) = Some (t, ns') \<and> ns_inv spp ns' \<and> ns_same ns ns' \<and> latest \<le> t"
  using assms
proof (induction "is" arbitrary: ns latest)
  case Nil
  then show ?case by (intro exI [of _ latest] exI [of _ ns]) (simp add: ns_same_def ns_frame_def)
next
  case (Cons i "is")
  have i: "i < nr_parts ns" using Cons.prems(2) by simp
  obtain t ns1 where s: "flush_step i (latest, ns) = Some (t, ns1)" "ns_inv spp ns1" "ns_same ns ns1" "latest \<le> t"
    using flush_step_ok [OF Cons.prems(1) i] by blast
  have h: "\<forall>i \<in> set is. i < nr_parts ns1" using Cons.prems(2) s(3) by (simp add: ns_same_def ns_frame_def)
  obtain t2 ns2 where r: "foldM flush_step is (t, ns1) = Some (t2, ns2)" "ns_inv spp ns2" "ns_same ns1 ns2" "t \<le> t2"
    using Cons.IH [OF s(2) h] by blast
  then show ?case using s ns_same_trans [OF s(3) r(3)] by (intro exI [of _ t2] exI [of _ ns2]) simp
qed

lemma conv_flush_ok:
  assumes inv: "ns_inv spp ns"
  shows "\<exists>t ns'. conv_flush ns = Some (\<lparr>rs_status = NVME_SC_SUCCESS, rs_nsecs_target = t\<rparr>, ns') \<and> ns_inv spp ns' \<and> ns_same ns ns' \<and>
    lclk ns (ltick ns) \<le> t"
proof -
  let ?ns = "ns\<lparr>ltick := ltick ns + 1\<rparr>"
  have i: "ns_inv spp ?ns" using inv by (simp add: ns_inv_def)
  obtain t ns' where l: "foldM flush_step [0..<nr_parts ?ns] (lclk ns (ltick ns), ?ns) = Some (t, ns')" "ns_inv spp ns'" "ns_same ?ns ns'"
    "lclk ns (ltick ns) \<le> t" using flush_steps_ok [OF i, of "[0..<nr_parts ?ns]" "lclk ns (ltick ns)"] by auto
  have "mapped ?ns = mapped ns" "ns_ppa ?ns x = ns_ppa ns x" for x by (simp_all add: mapped_def ns_ppa_def)
  then have "ns_same ns ns'" using l(3) by (simp add: ns_same_def ns_frame_def)
  moreover have "conv_flush ns = Some (\<lparr>rs_status = NVME_SC_SUCCESS, rs_nsecs_target = t\<rparr>, ns')"
    using l(1) by (simp add: conv_flush_def)
  ultimately show ?thesis using l(2,4) by blast
qed

section \<open>Construction\<close>

lemma init_part_ok:
  assumes g: "geo spp" and t: "timing_ok spp" and n: "4 \<le> tt_lines_slc spp" "0 < tt_lines_tlc spp" "pgs_per_line_slc spp < 2 ^ 31"
  shows "\<exists>cf. init_part junk j clock cf0 spp cpu i fs = Some (fs @ [cf]) \<and> ftl_inv cf \<and> lpns cf = {} \<and> spp_of cf = spp \<and>
    write_buffer (ssd cf) = buffer_init (write_buffer_size spp) \<and> budget cf = pgs_per_line spp * tt_lines_tlc spp + write_credits (wfc cf)"
proof -
  obtain cf where c: "conv_init_ftl junk conv_init_params (ssd_init j (clock i) spp cpu) (cf0 i) = Some cf" "ftl_inv cf" "lpns cf = {}"
    "ssd cf = ssd_init j (clock i) spp cpu" "room cf TLC_MODE = pgs_per_line spp * tt_lines_tlc spp"
    using conv_init_ftl_ok [OF g t n] by blast
  have "spp_of cf = spp" "write_buffer (ssd cf) = buffer_init (write_buffer_size spp)" using c(4) by (simp_all add: ssd_init_def)
  then show ?thesis using c by (intro exI [of _ cf]) (simp add: init_part_def budget_def)
qed

definition fresh :: "ssdparams \<Rightarrow> conv_ftl \<Rightarrow> bool" where
  "fresh spp cf \<longleftrightarrow> ftl_inv cf \<and> lpns cf = {} \<and> spp_of cf = spp \<and> write_buffer (ssd cf) = buffer_init (write_buffer_size spp) \<and>
     pgs_per_line spp * tt_lines_tlc spp \<le> budget cf"

lemma init_parts_ok:
  assumes g: "geo spp" and t: "timing_ok spp" and n: "4 \<le> tt_lines_slc spp" "0 < tt_lines_tlc spp" "pgs_per_line_slc spp < 2 ^ 31"
  shows "\<exists>fs'. foldM (init_part junk j clock cf0 spp cpu) is fs = Some (fs @ fs') \<and> length fs' = length is \<and> (\<forall>cf \<in> set fs'. fresh spp cf)"
proof (induction "is" arbitrary: fs)
  case (Cons i "is")
  obtain cf where c: "init_part junk j clock cf0 spp cpu i fs = Some (fs @ [cf])" "fresh spp cf"
    using init_part_ok [OF g t n] unfolding fresh_def by (metis le_add1)
  obtain fs' where f: "foldM (init_part junk j clock cf0 spp cpu) is (fs @ [cf]) = Some ((fs @ [cf]) @ fs')" "length fs' = length is"
    "\<forall>cf \<in> set fs'. fresh spp cf" using Cons.IH by blast
  then show ?case using c by (intro exI [of _ "cf # fs'"]) simp
qed simp

text \<open>What the parameters have to satisfy.\<close>

definition params_ok :: "ssdparams \<Rightarrow> bool" where
  "params_ok spp \<longleftrightarrow> geo spp \<and> timing_ok spp \<and> 4 \<le> tt_lines_slc spp \<and> 0 < tt_lines_tlc spp \<and> pgs_per_line_slc spp < 2 ^ 31 \<and>
     0 < secs_per_pg spp"

lemma conv_init_namespace_ok:
  assumes sp: "ssd_init_params_slc cfg sz (SSD_PARTITIONS cfg) = Some spp" and p: "params_ok spp" and n: "0 < SSD_PARTITIONS cfg"
  shows "\<exists>ns. conv_init_namespace cfg junk j clock cf0 spp0 ns0 nid sz cpu = Some ns \<and> ns_inv spp ns \<and> mapped ns = {} \<and>
    nr_parts ns = SSD_PARTITIONS cfg \<and> sh_wbuf ns = buffer_init (write_buffer_size spp) \<and>
    (\<forall>i < nr_parts ns. pgs_per_line spp * tt_lines_tlc spp \<le> budget (ftls ns ! i)) \<and> ns_size ns = u64 (sz * 100) div 107 \<and> ns_id ns = nid"
proof -
  note P = p [unfolded params_ok_def]
  obtain fs where f: "foldM (init_part junk j clock cf0 spp cpu) [0..<SSD_PARTITIONS cfg] [] = Some fs" "length fs = SSD_PARTITIONS cfg"
    "\<forall>cf \<in> set fs. fresh spp cf"
    using init_parts_ok [of spp junk j clock cf0 cpu "[0..<SSD_PARTITIONS cfg]" "[]"] P by auto
  have fr: "fresh spp (fs ! i)" if "i < SSD_PARTITIONS cfg" for i using f(2,3) that by simp
  let ?ns = "ns0\<lparr>ns_id := nid, ns_csi := NVME_CSI_NVM, nr_parts := SSD_PARTITIONS cfg, ftls := fs, sh_pcie := pcie (ssd (fs ! 0)),
    sh_wbuf := write_buffer (ssd (fs ! 0)), ns_size := u64 (sz * 100) div pba_pcent conv_init_params\<rparr>"
  have ex: "conv_init_namespace cfg junk j clock cf0 spp0 ns0 nid sz cpu = Some ?ns"
    using sp f(1,2) n by (simp add: conv_init_namespace_def ENABLE_SLC_CACHE_def arr_simps)
  have "chm_inv (pcie (ssd (fs ! 0)))" using ftl_tm [of "fs ! 0"] fr [OF n] by (simp add: fresh_def tm_inv_def)
  then have "ns_inv spp ?ns" using f(2,3) n P by (simp add: ns_inv_def fresh_def)
  moreover have "mapped ?ns = {}" using fr n by (simp add: mapped_def fresh_def)
  ultimately show ?thesis using ex fr n by (intro exI [of _ ?ns]) (simp add: fresh_def conv_init_params_def)
qed

end
