(* ===== verification/Sample_Device.thy ===== *)
theory Sample_Device
  imports Conv_Io_Laws
begin

text \<open>
  A device of the configuration that the build uses (\<open>SAMSUNG_970PRO\<close>) with 16 GB of flash: its
  parameters as \<open>ssd_init_params_slc\<close> computes them, one of its four partitions and its namespace as the
  constructors leave them. The properties are applied to it.
\<close>

text \<open>The fields of the geometry, each from the ones before it. The local definitions of the function are taken
  apart one at a time.\<close>

lemma LetE:
  assumes "Let a f = y"
  obtains x where "x = a" "f x = y"
  using assms by (simp add: Let_def)

lemma bindE:
  assumes "(m \<bind> f) = Some y"
  obtains x where "m = Some x" "f x = Some y"
  using assms by (auto simp: bind_eq_Some_conv)

lemma slc_fields:
  assumes "ssd_init_params_slc cfg capacity nparts = Some spp"
  shows "nchs spp = NAND_CHANNELS cfg div nparts \<and> luns_per_ch spp = LUNS_PER_NAND_CH cfg \<and> pls_per_lun spp = PLNS_PER_LUN cfg \<and>
    secs_per_pg spp = 4096 div LBA_SIZE cfg \<and> pgsz spp = LBA_SIZE cfg * secs_per_pg spp \<and> tt_lines spp = BLKS_PER_PLN cfg \<and>
    pgs_per_oneshotpg spp = ONESHOT_PAGE_SIZE cfg div pgsz spp \<and> pgs_per_oneshotpg_slc spp = SLC_ONESHOT_PAGE_SIZE cfg div pgsz spp \<and>
    pgs_per_flashpg spp = FLASH_PAGE_SIZE cfg div pgsz spp \<and>
    pgs_per_blk spp = pgs_per_oneshotpg spp * oneshotpgs_per_blk spp \<and>
    pgs_per_blk_slc spp = pgs_per_oneshotpg_slc spp * oneshotpgs_per_blk spp \<and>
    tt_lines_slc spp = BLKS_PER_PLN cfg * SLC_PORTION cfg div 100 \<and> tt_lines_tlc spp = BLKS_PER_PLN cfg - tt_lines_slc spp \<and>
    pgs_per_line spp = luns_per_ch spp * nchs spp * pgs_per_blk spp \<and>
    pgs_per_line_slc spp = luns_per_ch spp * nchs spp * pgs_per_blk_slc spp \<and>
    tt_pgs spp = (pgs_per_blk_slc spp * tt_lines_slc spp + pgs_per_blk spp * tt_lines_tlc spp) * pls_per_lun spp * luns_per_ch spp * nchs spp \<and>
    cell_mode spp = CELL_MODE cfg \<and> max_ch_xfer_size spp = MAX_CH_XFER_SIZE cfg \<and> write_buffer_size spp = GLOBAL_WB_SIZE cfg \<and>
    fw_wbuf_lat0 spp = FW_WBUF_LATENCY0 cfg \<and> fw_wbuf_lat1 spp = FW_WBUF_LATENCY1 cfg \<and>
    ch_bandwidth spp = NAND_CHANNEL_BANDWIDTH cfg \<and> pcie_bandwidth spp = PCIE_BANDWIDTH cfg \<and>
    length (pg_4kb_rd_lat spp) = 3 \<and> length (pg_rd_lat spp) = 3 \<and>
    (0 < BLKS_PER_PLN cfg \<longrightarrow> oneshotpgs_per_blk spp = DIV_ROUND_UP (DIV_ROUND_UP (capacity div nparts)
     (BLKS_PER_PLN cfg * pls_per_lun spp * luns_per_ch spp * nchs spp)) (ONESHOT_PAGE_SIZE cfg))"
  using assms unfolding ssd_init_params_slc_def
  apply (elim LetE bindE)
  apply (simp only: option.inject NVMEV_ASSERT_Some)
  apply (erule subst [where t = spp])
  apply (simp (no_asm) only: ssdparams.select_convs)
  apply (intro conjI; (rule refl | assumption | simp (no_asm))?)
  done

definition spl_spp :: ssdparams where
  "spl_spp = the (ssd_init_params_slc SAMSUNG_970PRO (GB 16) 4)"

lemma spl_params: "ssd_init_params_slc SAMSUNG_970PRO (GB 16) 4 = Some spl_spp"
proof -
  have "ssd_init_params_slc SAMSUNG_970PRO (GB 16) 4 \<noteq> None"
    by (simp add: ssd_init_params_slc_def SAMSUNG_970PRO_def LBA_SIZE_def KB_def GB_def DIV_ROUND_UP_def Let_def)
  then show ?thesis by (simp add: spl_spp_def)
qed

lemma spl_values:
  "nchs spl_spp = 1" "luns_per_ch spl_spp = 4" "pgs_per_blk spl_spp = 264" "pgs_per_blk_slc spl_spp = 88"
  "tt_lines_slc spl_spp = 102" "tt_lines_tlc spl_spp = 922" "pgs_per_line spl_spp = 1056" "pgs_per_line_slc spl_spp = 352"
  "secs_per_pg spl_spp = 8" "pgsz spl_spp = 4096" "tt_pgs spl_spp = 1009536" "write_buffer_size spl_spp = 1572864"
  "fw_wbuf_lat0 spl_spp = 4000" "fw_wbuf_lat1 spl_spp = 460" "pgs_per_flashpg spl_spp = 4"
  "cell_mode spl_spp = 3" "pgs_per_oneshotpg_slc spl_spp = 4" "pgs_per_oneshotpg spl_spp = 12" "max_ch_xfer_size spl_spp = 16384"
  "ch_bandwidth spl_spp = 800" "pcie_bandwidth spl_spp = 3360" "length (pg_4kb_rd_lat spl_spp) = 3" "length (pg_rd_lat spl_spp) = 3"
  "tt_lines spl_spp = 1024" "pls_per_lun spl_spp = 1"
proof -
  have c: "NAND_CHANNELS SAMSUNG_970PRO = 4" "LUNS_PER_NAND_CH SAMSUNG_970PRO = 4" "PLNS_PER_LUN SAMSUNG_970PRO = 1"
    "LBA_SIZE SAMSUNG_970PRO = 512" "BLKS_PER_PLN SAMSUNG_970PRO = 1024" "ONESHOT_PAGE_SIZE SAMSUNG_970PRO = 49152"
    "SLC_ONESHOT_PAGE_SIZE SAMSUNG_970PRO = 16384" "FLASH_PAGE_SIZE SAMSUNG_970PRO = 16384" "SLC_PORTION SAMSUNG_970PRO = 10"
    "CELL_MODE SAMSUNG_970PRO = 3" "MAX_CH_XFER_SIZE SAMSUNG_970PRO = 16384" "GLOBAL_WB_SIZE SAMSUNG_970PRO = 1572864"
    "FW_WBUF_LATENCY0 SAMSUNG_970PRO = 4000" "FW_WBUF_LATENCY1 SAMSUNG_970PRO = 460" "NAND_CHANNEL_BANDWIDTH SAMSUNG_970PRO = 800"
    "PCIE_BANDWIDTH SAMSUNG_970PRO = 3360"
    by (simp_all add: SAMSUNG_970PRO_def LBA_SIZE_def KB_def)
  note f = slc_fields [OF spl_params, unfolded c]
  have 1: "nchs spl_spp = 1" "luns_per_ch spl_spp = 4" "pls_per_lun spl_spp = 1" "secs_per_pg spl_spp = 8" "tt_lines spl_spp = 1024"
    "tt_lines_slc spl_spp = 102" using f by simp_all
  then have 2: "pgsz spl_spp = 4096" "tt_lines_tlc spl_spp = 922" "oneshotpgs_per_blk spl_spp = 22"
    using f by (simp_all add: DIV_ROUND_UP_def GB_def)
  then have 3: "pgs_per_oneshotpg spl_spp = 12" "pgs_per_oneshotpg_slc spl_spp = 4" "pgs_per_flashpg spl_spp = 4" using f by simp_all
  then have 4: "pgs_per_blk spl_spp = 264" "pgs_per_blk_slc spl_spp = 88" using f 2 by simp_all
  then have 5: "pgs_per_line spl_spp = 1056" "pgs_per_line_slc spl_spp = 352" "tt_pgs spl_spp = 1009536" using f 1 2 by simp_all
  show "nchs spl_spp = 1" "luns_per_ch spl_spp = 4" "pgs_per_blk spl_spp = 264" "pgs_per_blk_slc spl_spp = 88"
    "tt_lines_slc spl_spp = 102" "tt_lines_tlc spl_spp = 922" "pgs_per_line spl_spp = 1056" "pgs_per_line_slc spl_spp = 352"
    "secs_per_pg spl_spp = 8" "pgsz spl_spp = 4096" "tt_pgs spl_spp = 1009536" "write_buffer_size spl_spp = 1572864"
    "fw_wbuf_lat0 spl_spp = 4000" "fw_wbuf_lat1 spl_spp = 460" "pgs_per_flashpg spl_spp = 4"
    "cell_mode spl_spp = 3" "pgs_per_oneshotpg_slc spl_spp = 4" "pgs_per_oneshotpg spl_spp = 12" "max_ch_xfer_size spl_spp = 16384"
    "ch_bandwidth spl_spp = 800" "pcie_bandwidth spl_spp = 3360" "length (pg_4kb_rd_lat spl_spp) = 3" "length (pg_rd_lat spl_spp) = 3"
    "tt_lines spl_spp = 1024" "pls_per_lun spl_spp = 1"
    using 1 2 3 4 5 f by simp_all
qed

lemma spl_geo: "geo spl_spp"
  by (rule ssd_init_params_slc_geo [OF spl_params])
    (simp_all add: SAMSUNG_970PRO_def KB_def GB_def spl_values)

lemma spl_ok: "params_ok spl_spp"
  using spl_geo
  by (simp add: params_ok_def timing_ok_def spl_values BANDWIDTH_TO_MAX_CREDITS_def MB_def UNIT_TIME_INTERVAL_def
      NS_PER_SEC_def UNIT_XFER_SIZE_def UNIT_XFER_CREDITS_def)

text \<open>Memory as an allocator may return it, and a running clock.\<close>

definition spl_lm :: line_mgmt where
  "spl_lm = \<lparr>lines_base = 0, free_line_list = [], victim_line_pq = new_pq (\<lambda>_. 0) 0, full_line_list = [], lm_tt_lines = 0,
     free_line_cnt = 0, victim_line_cnt = 0, full_line_cnt = 0\<rparr>"

definition spl_clock :: "nat \<Rightarrow> nat" where "spl_clock i = 1000 * i"

definition spl_ssd :: ssd where
  "spl_ssd = ssd_init 0 spl_clock spl_spp 0"

lemma spl_ssd_sp [simp]: "sp spl_ssd = spl_spp"
  by (simp add: spl_ssd_def ssd_init_def)

definition spl_mem :: conv_ftl where
  "spl_mem = (let w = \<lparr>curline = 0, w_ch = 0, w_lun = 0, w_pg = 0, w_blk = 0, w_pl = 0\<rparr>
     in \<lparr>ssd = spl_ssd, cp = conv_init_params, maptbl = [], rmap = [], wp = w, gc_wp = w, lines = [], lm = spl_lm, slm = spl_lm,
         wfc = \<lparr>write_credits = 0, credits_to_refill = 0\<rparr>, gc_cnt = 0, copy_cnt = 0, age_cnt = replicate 201 0,
         slc_mode = SLC_MODE, dyn_slc_mode = SLC_MODE, kclk = spl_clock, ktick = 0\<rparr>)"

definition spl_ftl :: conv_ftl where
  "spl_ftl = the (conv_init_ftl (\<lambda>_. 0) conv_init_params spl_ssd spl_mem)"

lemma spl_ftl_ok:
  "conv_init_ftl (\<lambda>_. 0) conv_init_params spl_ssd spl_mem = Some spl_ftl" "ftl_inv spl_ftl" "lpns spl_ftl = {}"
  "ssd spl_ftl = spl_ssd" "spp_of spl_ftl = spl_spp" "room spl_ftl TLC_MODE = 973632"
proof -
  have p: "geo spl_spp" "timing_ok spl_spp" "4 \<le> tt_lines_slc spl_spp" "0 < tt_lines_tlc spl_spp" "pgs_per_line_slc spl_spp < 2 ^ 31"
    using spl_ok by (simp_all add: params_ok_def)
  obtain cf where c: "conv_init_ftl (\<lambda>_. 0) conv_init_params (ssd_init 0 spl_clock spl_spp 0) spl_mem = Some cf"
    "ftl_inv cf" "lpns cf = {}" "ssd cf = ssd_init 0 spl_clock spl_spp 0" "room cf TLC_MODE = pgs_per_line spl_spp * tt_lines_tlc spl_spp"
    using conv_init_ftl_ok [OF p] by blast
  have e: "spl_ftl = cf" using c(1) by (simp add: spl_ftl_def spl_ssd_def)
  show "conv_init_ftl (\<lambda>_. 0) conv_init_params spl_ssd spl_mem = Some spl_ftl" "ftl_inv spl_ftl" "lpns spl_ftl = {}"
    "ssd spl_ftl = spl_ssd" "spp_of spl_ftl = spl_spp" "room spl_ftl TLC_MODE = 973632"
    using c by (simp_all add: e spl_ssd_def [symmetric] spl_values)
qed

definition spl_ns :: conv_ns where
  "spl_ns = the (conv_init_namespace SAMSUNG_970PRO (\<lambda>_. 0) 0 (\<lambda>_. spl_clock) (\<lambda>_. spl_mem) spl_spp
     \<lparr>ns_id = 0, ns_csi = 0, ns_size = 0, nr_parts = 0, ftls = [], sh_pcie = ssd_init_pcie spl_spp,
      sh_wbuf = buffer_init 0, lclk = spl_clock, ltick = 0\<rparr> 0 (GB 16) 0)"

lemma spl_ns_ok:
  "ns_inv spl_spp spl_ns" "mapped spl_ns = {}" "nr_parts spl_ns = 4" "sh_wbuf spl_ns = buffer_init 1572864"
  "\<And>i. i < 4 \<Longrightarrow> affords (ftls spl_ns ! i) 900000"
proof -
  have n: "SSD_PARTITIONS SAMSUNG_970PRO = 4" by (simp add: SAMSUNG_970PRO_def)
  have sp: "ssd_init_params_slc SAMSUNG_970PRO (GB 16) (SSD_PARTITIONS SAMSUNG_970PRO) = Some spl_spp" using spl_params by (simp add: n)
  have "0 < SSD_PARTITIONS SAMSUNG_970PRO" by (simp add: n)
  note I = conv_init_namespace_ok [OF sp spl_ok this, of "\<lambda>_. 0" 0 "\<lambda>_. spl_clock" "\<lambda>_. spl_mem" spl_spp
     "\<lparr>ns_id = 0, ns_csi = 0, ns_size = 0, nr_parts = 0, ftls = [], sh_pcie = ssd_init_pcie spl_spp,
      sh_wbuf = buffer_init 0, lclk = spl_clock, ltick = 0\<rparr>" 0 0]
  then have K: "ns_inv spl_spp spl_ns \<and> mapped spl_ns = {} \<and> nr_parts spl_ns = 4 \<and> sh_wbuf spl_ns = buffer_init 1572864 \<and>
    (\<forall>i < nr_parts spl_ns. 973632 \<le> budget (ftls spl_ns ! i))"
    by (elim exE conjE) (simp add: spl_ns_def n spl_values)
  then show "ns_inv spl_spp spl_ns" "mapped spl_ns = {}" "nr_parts spl_ns = 4" "sh_wbuf spl_ns = buffer_init 1572864" by blast+
  fix i :: nat assume i: "i < 4"
  have "973632 \<le> budget (ftls spl_ns ! i)" "spp_of (ftls spl_ns ! i) = spl_spp"
    using K i by (auto simp: ns_inv_def)
  then show "affords (ftls spl_ns ! i) 900000" by (simp add: affords_def spl_values)
qed

end
