(* ===== verification/Core_Properties.thy ===== *)
theory Core_Properties
  imports Sample_Device
begin

text \<open>Properties of what the FTLs rest on: the channel model, the victim queue on the store of lines, the NAND timing and the
  write buffer.\<close>

section \<open>Channel model\<close>

lemma chm800: "chm_inv (chmodel_init 800)"
  by (rule chmodel_init_inv)
    (simp_all add: BANDWIDTH_TO_MAX_CREDITS_def MB_def UNIT_TIME_INTERVAL_def NS_PER_SEC_def UNIT_XFER_SIZE_def UNIT_XFER_CREDITS_def)

text \<open>A request on a well-formed channel always returns (the credit loop ends), never completes
  before its start time, and leaves the ring of credits well-formed.\<close>

theorem chmodel_request_total:
  "chm_inv ch \<Longrightarrow> \<exists>t ch'. chmodel_request ch now request_time len = Some (t, ch') \<and> request_time \<le> t \<and> chm_inv ch'"
  by (rule chmodel_request_ok)

theorem chmodel_request_total_witness:
  "\<exists>t ch'. chmodel_request (chmodel_init 800) 100 5000 4096 = Some (t, ch') \<and> 5000 \<le> t \<and> chm_inv ch'"
  by (rule chmodel_request_total [OF chm800])

text \<open>A request inside the window of the ring takes exactly its credits from the slots that are not before its start
  time, or all that there are when they do not suffice.\<close>

theorem chmodel_request_credits:
  assumes "chm_inv ch" "now \<le> request_time" "request_offs request_time now < NR_CREDIT_ENTRIES"
  shows "\<exists>t ch'. chmodel_request ch now request_time len = Some (t, ch') \<and>
    credits_left ch' (request_offs request_time now) +
      min (request_credits ch len) (credits_left (chmodel_advance ch now) (request_offs request_time now)) =
    credits_left (chmodel_advance ch now) (request_offs request_time now)"
  using chmodel_request_taken [OF assms] by blast

theorem chmodel_request_credits_witness:
  "\<exists>t ch'. chmodel_request (chmodel_init 800) 100 5000 4096 = Some (t, ch') \<and>
    credits_left ch' (request_offs 5000 100) +
      min (request_credits (chmodel_init 800) 4096) (credits_left (chmodel_advance (chmodel_init 800) 100) (request_offs 5000 100)) =
    credits_left (chmodel_advance (chmodel_init 800) 100) (request_offs 5000 100)"
  by (rule chmodel_request_credits [OF chm800])
    (simp_all add: request_offs_def sub64_def u32_def u64_def UNIT_TIME_INTERVAL_def NR_CREDIT_ENTRIES_def)

section \<open>The queue of lines\<close>

text \<open>Inserting a line that is not in the queue, with room left, succeeds: the queue stays a heap in which every line knows its
  slot, has that line in addition, and nothing of the lines but their slots changes.\<close>

theorem victim_queue_insert:
  assumes "vq.pq_inv q h" "a < length h" "a \<notin> set (live q)" "q_size q < length (q_d q)"
  shows "\<exists>q' h'. pqueue_insert q h a = Some (q', h') \<and> vq.pq_inv q' h' \<and> set (live q') = insert a (set (live q)) \<and>
    map (\<lambda>l. l\<lparr>l_pos := 0\<rparr>) h' = map (\<lambda>l. l\<lparr>l_pos := 0\<rparr>) h"
  using vq.pqueue_insert_ok [OF assms] by (auto simp: vq.only_pos_def)

definition two_lines :: "line list" where
  "two_lines = [\<lparr>line_id = 0, l_ipc = 1, l_vpc = 3, l_pos = 0, mtime = 0\<rparr>, \<lparr>line_id = 1, l_ipc = 3, l_vpc = 1, l_pos = 0, mtime = 0\<rparr>]"

lemma empty_queue: "vq.pq_inv (new_pq (\<lambda>_. 0) 2) h" "live (new_pq (\<lambda>_. 0) 2) = []" "q_size (new_pq (\<lambda>_. 0) 2) = 1" "length (q_d (new_pq (\<lambda>_. 0) 2)) = 3"
proof -
  have "2 < length (map (\<lambda>_. 0 :: nat) [0..<2 + 1])" by simp
  from vq.pqueue_init_inv(1) [OF this, of h] vq.pqueue_init_inv(2) [OF this]
  show "vq.pq_inv (new_pq (\<lambda>_. 0) 2) h" "live (new_pq (\<lambda>_. 0) 2) = []" by (simp_all add: new_pq_def)
  show "q_size (new_pq (\<lambda>_. 0) 2) = 1" "length (q_d (new_pq (\<lambda>_. 0) 2)) = 3" by (simp_all add: new_pq_def pqueue_init_def)
qed

theorem victim_queue_insert_witness:
  "\<exists>q' h'. pqueue_insert (new_pq (\<lambda>_. 0) 2) two_lines 1 = Some (q', h') \<and> vq.pq_inv q' h' \<and> set (live q') = insert 1 (set (live (new_pq (\<lambda>_. 0) 2))) \<and>
    map (\<lambda>l. l\<lparr>l_pos := 0\<rparr>) h' = map (\<lambda>l. l\<lparr>l_pos := 0\<rparr>) two_lines"
  by (rule victim_queue_insert [OF empty_queue(1)]) (simp_all add: empty_queue two_lines_def)

text \<open>C40: Taking a line from a queue that is not empty takes one with the fewest valid pages, and leaves a heap with the others.\<close>

theorem victim_queue_pop:
  assumes "vq.pq_inv q h" "live q \<noteq> []"
  shows "\<exists>a q' h'. pqueue_pop q h = (Some a, q', h') \<and> a \<in> set (live q) \<and> (\<forall>x \<in> set (live q). l_vpc (h ! a) \<le> l_vpc (h ! x)) \<and>
    vq.pq_inv q' h' \<and> set (live q') = set (live q) - {a} \<and> map (\<lambda>l. l\<lparr>l_pos := 0\<rparr>) h' = map (\<lambda>l. l\<lparr>l_pos := 0\<rparr>) h"
proof -
  obtain a where a: "pqueue_peek q = Some a" using vq.pqueue_peek_ok(1) [OF assms(1)] assms(2) by (cases "pqueue_peek q") auto
  note p = vq.pqueue_peek_ok(2) [OF assms(1) a]
  obtain q' h' where r: "pqueue_pop q h = (Some a, q', h')" using vq.pqueue_pop_ok(1) [OF assms(1)] a by (cases "pqueue_pop q h") auto
  note d = vq.pqueue_pop_ok(3) [OF assms(1) r]
  show ?thesis using r d p
    by (intro exI [of _ a] exI [of _ q'] exI [of _ h'])
      (auto simp: vq.removed_def vq.only_pos_def victim_line_cmp_pri_def victim_line_get_pri_def not_less)
qed

theorem victim_queue_pop_witness:
  "\<exists>(q :: (line list, nat) pqueue) h a q' h'. set (live q) = {0, 1} \<and> pqueue_pop q h = (Some a, q', h') \<and> a = 1 \<and> set (live q') = {0}"
proof -
  obtain q1 h1 where i: "pqueue_insert (new_pq (\<lambda>_. 0) 2) two_lines 0 = Some (q1, h1)" "vq.pq_inv q1 h1"
    "set (live q1) = insert 0 (set (live (new_pq (\<lambda>_. 0) 2)))" "q_size q1 = q_size (new_pq (\<lambda>_. 0) 2) + 1" "length (q_d q1) = length (q_d (new_pq (\<lambda>_. 0) 2))"
    "vq.only_pos (insert 0 (set (live (new_pq (\<lambda>_. 0) 2)))) two_lines h1"
    using vq.pqueue_insert_ok [OF empty_queue(1) [of two_lines], of 0] by (auto simp: empty_queue two_lines_def)
  have l1: "length h1 = 2" using only_posD(1) [OF i(6)] by (simp add: two_lines_def)
  obtain q h where j: "vq.pq_inv q h" "set (live q) = insert 1 (set (live q1))" "vq.only_pos (insert 1 (set (live q1))) h1 h"
    using vq.pqueue_insert_ok [OF i(2), of 1] i(3-5) l1 by (auto simp: empty_queue)
  have s: "set (live q) = {0, 1}" using i(3) j(2) by (auto simp: empty_queue)
  have v: "l_vpc (h ! e) = l_vpc (two_lines ! e)" if "e < 2" for e
  proof -
    have "e < length two_lines" "e < length h1" using that l1 by (simp_all add: two_lines_def)
    then have "l_vpc (h1 ! e) = l_vpc (two_lines ! e)" "l_vpc (h ! e) = l_vpc (h1 ! e)"
      using only_posD(2) [OF i(6)] only_posD(2) [OF j(3)] by blast+
    then show ?thesis by simp
  qed
  have "live q \<noteq> []" using s by (metis empty_set insert_not_empty)
  from victim_queue_pop [OF j(1) this]
  obtain a q' h' where p: "pqueue_pop q h = (Some a, q', h')" "a \<in> set (live q)" "\<forall>x \<in> set (live q). l_vpc (h ! a) \<le> l_vpc (h ! x)"
    "set (live q') = set (live q) - {a}" by blast
  have w: "l_vpc (h ! 0) = 3" "l_vpc (h ! 1) = 1" using v [of 0] v [of 1] by (simp_all add: two_lines_def)
  have "1 \<in> set (live q)" unfolding s by simp
  then have "l_vpc (h ! a) \<le> 1" using p(3) w(2) by fastforce
  then have "a \<noteq> 0" using w(1) by (cases "a = 0") simp_all
  moreover have "a \<in> {0, 1}" using p(2) unfolding s .
  ultimately have "a = 1" by simp
  then have "set (live q') = {0}" unfolding p(4) s by auto
  then show ?thesis using s p(1) \<open>a = 1\<close> by blast
qed

text \<open>Changing the priority of a line of the queue sets its number of valid pages and restores the heap, in both directions.\<close>

theorem victim_queue_change:
  assumes "vq.pq_inv q h" "a \<in> set (live q)"
  shows "\<exists>q' h'. pqueue_change_priority q h p a = Some (q', h') \<and> vq.pq_inv q' h' \<and> set (live q') = set (live q) \<and>
    map (\<lambda>l. l\<lparr>l_pos := 0\<rparr>) h' = map (\<lambda>l. l\<lparr>l_pos := 0\<rparr>) (victim_line_set_pri h a p)"
  using vq.pqueue_change_priority_ok [OF assms, of p] by (auto simp: vq.only_pos_def)

theorem victim_queue_change_witness:
  "\<exists>q h q' h'. 1 \<in> set (live q) \<and> pqueue_change_priority q h 7 1 = Some (q', h') \<and> vq.pq_inv q' h' \<and> set (live q') = set (live q)"
proof -
  obtain q h where i: "vq.pq_inv q h" "set (live q) = insert 1 (set (live (new_pq (\<lambda>_. 0) 2)))"
    using vq.pqueue_insert_ok [OF empty_queue(1) [of two_lines], of 1] by (auto simp: empty_queue two_lines_def)
  have m: "1 \<in> set (live q)" using i(2) by simp
  show ?thesis using victim_queue_change [OF i(1) m, of 7] m by blast
qed

section \<open>NAND timing and write buffer\<close>

text \<open>A NAND command on a die starts no earlier than the die is free and takes at least the latency of its cell (SLC or
  TLC, the cell's bit for reads); the die stays busy until then, and the contents of the flash do not change.\<close>

theorem nand_die_busy:
  assumes "tm_inv s" "get_lun s (nc_ppa ncmd) = Some l" "ppa_val (nc_ppa ncmd) \<noteq> UNMAPPED_PPA"
    "nc_cmd ncmd \<in> {NAND_READ, NAND_WRITE, NAND_ERASE, NAND_NOP}" "nc_cmd ncmd = NAND_READ \<Longrightarrow> nc_xfer_size ncmd \<noteq> 0"
  shows "\<exists>t s' l'. nand_issue s ncmd st = Some (t, s') \<and> same_nand s s' \<and> tm_inv s' \<and>
    max (next_lun_avail_time l) st + nand_lat s ncmd \<le> t \<and>
    get_lun s' (nc_ppa ncmd) = Some l' \<and> max (next_lun_avail_time l) st + nand_lat s ncmd \<le> next_lun_avail_time l' \<and> next_lun_avail_time l' \<le> t"
  using nand_issue_ok [OF assms, of st] assms(2) by (auto simp: nand_start_def tm_keep_def)

theorem nand_die_busy_witness:
  "\<exists>t s' l'. nand_issue spl_ssd \<lparr>nc_type = USER_IO, nc_cmd = NAND_WRITE, nc_xfer_size = 16384, nc_stime = 7, nc_interleave = False, nc_ppa = mk 0 1 5 3\<rparr> 7 = Some (t, s') \<and>
    7 + pg_wr_lat_slc spl_spp \<le> t \<and> get_lun s' (mk 0 1 5 3) = Some l' \<and> next_lun_avail_time l' \<le> t"
proof -
  have p: "timing_ok spl_spp" using spl_ok by (simp add: params_ok_def)
  have nd: "nand_inv spl_ssd" unfolding spl_ssd_def by (rule ssd_init_ok [OF spl_geo p])
  have a: "mk 0 1 5 3 \<in> pages (sp spl_ssd)" by (simp add: spl_values ppb_def)
  obtain l where l: "get_lun spl_ssd (mk 0 1 5 3) = Some l" using nand_lun [OF nd a] by auto
  let ?n = "\<lparr>nc_type = USER_IO, nc_cmd = NAND_WRITE, nc_xfer_size = 16384, nc_stime = 7, nc_interleave = False, nc_ppa = mk 0 1 5 3\<rparr>"
  have m: "ppa_val (mk 0 1 5 3) \<noteq> UNMAPPED_PPA" by (simp add: ppa_val_def UNMAPPED_PPA_def)
  have "\<exists>t s' l'. nand_issue spl_ssd ?n 7 = Some (t, s') \<and> same_nand spl_ssd s' \<and> tm_inv s' \<and>
    max (next_lun_avail_time l) 7 + nand_lat spl_ssd ?n \<le> t \<and>
    get_lun s' (nc_ppa ?n) = Some l' \<and> max (next_lun_avail_time l) 7 + nand_lat spl_ssd ?n \<le> next_lun_avail_time l' \<and> next_lun_avail_time l' \<le> t"
    by (rule nand_die_busy) (use nd l m in \<open>simp_all add: nand_inv_def NAND_WRITE_def NAND_READ_def\<close>)
  moreover have "nand_lat spl_ssd ?n = pg_wr_lat_slc spl_spp"
    by (simp add: nand_lat_def NAND_WRITE_def NAND_READ_def write_lat_def ENABLE_SLC_CACHE_def spl_values)
  ultimately show ?thesis by fastforce
qed

text \<open>Releasing what an allocation granted restores the write buffer.\<close>

theorem buffer_roundtrip:
  assumes "sz \<le> b_size buf" "sz < 2 ^ 32" "b_remaining buf < 2 ^ 64"
  shows "\<exists>n buf'. buffer_allocate buf sz = Some (n, buf') \<and> (n = sz \<or> n = 0 \<and> b_remaining buf < sz) \<and>
    b_remaining buf' + n = b_remaining buf \<and> buffer_release buf' n = buf"
  using assms by (auto simp: buffer_allocate_def buffer_release_def Let_def u32_def)

theorem buffer_roundtrip_witness:
  "\<exists>n buf'. buffer_allocate (buffer_init 1572864) 8192 = Some (n, buf') \<and> (n = 8192 \<or> n = 0 \<and> b_remaining (buffer_init 1572864) < 8192) \<and>
    b_remaining buf' + n = b_remaining (buffer_init 1572864) \<and> buffer_release buf' n = buffer_init 1572864"
  by (rule buffer_roundtrip) (simp_all add: buffer_init_def)

end
