(* ===== verification/Conv_Choice.thy ===== *)
theory Conv_Choice
  imports Conv_Collect
begin

text \<open>
  What the victim selections optimise: \<open>select_victim_line\<close> takes the first TLC line of the queue with the least
  cost-benefit value, each line rated at the reading of the clock that the scan takes for it;
  \<open>select_victim_line_slc\<close> takes the SLC line at the top of the queue, which has the fewest valid pages.
\<close>

section \<open>The cost-benefit value\<close>

text \<open>The policy, stated without the code: the age of a line since its last write (in the arithmetic of 64 bits), a
  table of age classes with their weights, and the value of a line, its valid pages over its other pages times the
  weight of its age, in units of 10^-12; a line of valid pages only has the value ten.\<close>

definition elapsed_ns :: "nat \<Rightarrow> nat \<Rightarrow> nat" where
  "elapsed_ns now t = nat ((int now - int t) mod 2 ^ 64)"

definition age_classes :: "(nat \<times> nat) list" where
  "age_classes = [(5000000, 1), (10000000, 5), (25000000, 10), (50000000, 20), (100000000, 40), (200000000, 80)]"

definition age_weight :: "nat \<Rightarrow> nat" where
  "age_weight us = (case find (\<lambda>c. us < fst c) age_classes of Some c \<Rightarrow> snd c | None \<Rightarrow> 250)"

definition victim_score :: "nat \<Rightarrow> nat \<Rightarrow> line \<Rightarrow> nat" where
  "victim_score pl now l =
     (if l_vpc l = pl then 10 ^ 13
      else l_vpc l * 10 ^ 12 div ((pl - l_vpc l) * age_weight (elapsed_ns now (mtime l) div 1000)))"

lemma sub64_elapsed: "sub64 a b = elapsed_ns a b"
proof -
  have "int (a + 2 ^ 64 - u64 b) = int a + 2 ^ 64 - int b mod 2 ^ 64"
    by (simp add: u64_def of_nat_diff trans_le_add2 zmod_int)
  then have "int (sub64 a b) = (int a + 2 ^ 64 - int b mod 2 ^ 64) mod 2 ^ 64"
    by (simp add: sub64_def u64_def zmod_int)
  also have "\<dots> = (int a - int b) mod 2 ^ 64" by (simp add: mod_simps diff_add_eq [symmetric] del: diff_add_eq)
  finally show ?thesis by (simp add: elapsed_ns_def)
qed

lemma age_levelize_weight: "age_levelize us = age_weight us"
  by (simp add: age_levelize_def age_weight_def age_classes_def)

lemma cb_val_score:
  "calculate_cost_benefit_val c l = (victim_score (pgs_per_line (spp_of c)) (kclk c (ktick c)) l, c\<lparr>ktick := ktick c + 1\<rparr>)"
  by (simp add: calculate_cost_benefit_val_def victim_score_def ktime_get_ns_def Let_def sub64_elapsed age_levelize_weight SCALER_def)

lemma victim_score_small:
  assumes "l_vpc l \<le> pl" "pl \<le> 2 ^ 22"
  shows "victim_score pl now l < 2 ^ 63 - 1"
proof -
  have "l_vpc l * 10 ^ 12 \<le> 2 ^ 22 * 10 ^ 12" using assms by (intro mult_le_mono1) linarith
  then have "l_vpc l * 10 ^ 12 div m \<le> 2 ^ 22 * 10 ^ 12" for m using div_le_dividend le_trans by blast
  then have "l_vpc l * 10 ^ 12 div m < 2 ^ 63 - 1" for m by (rule le_less_trans) simp
  then show ?thesis by (simp add: victim_score_def)
qed

section \<open>The scan\<close>

text \<open>A queue whose lines can be rated: its array is a heap on existing lines, each has an invalid page (so that the scan
  takes one reading of the clock for each) and not more valid pages than a line has.\<close>

definition ratable :: "conv_ftl \<Rightarrow> bool" where
  "ratable cf \<longleftrightarrow> vq.pq_inv (pq_of (lm cf)) (lines cf) \<and> pgs_per_line (spp_of cf) \<le> 2 ^ 22 \<and>
     (\<forall>a \<in> set (live (pq_of (lm cf))). 0 < l_ipc (lines cf ! a) \<and> l_vpc (lines cf ! a) \<le> pgs_per_line (spp_of cf))"

text \<open>The value of the candidate of slot \<open>k + 1\<close> of the array, at its reading of the clock.\<close>

definition rated :: "conv_ftl \<Rightarrow> nat \<Rightarrow> nat" where
  "rated cf k = victim_score (pgs_per_line (spp_of cf)) (kclk cf (ktick cf + k)) (lines cf ! (live (pq_of (lm cf)) ! k))"

text \<open>The first position with the least value.\<close>

definition first_least :: "(nat \<Rightarrow> nat) \<Rightarrow> nat \<Rightarrow> nat \<Rightarrow> bool" where
  "first_least f n j \<longleftrightarrow> j < n \<and> (\<forall>i < n. f j \<le> f i) \<and> (\<forall>i < j. f j < f i)"

lemma first_least_Suc:
  "first_least f n j \<Longrightarrow> first_least f (Suc n) (if f n < f j then n else j)"
  by (auto simp: first_least_def less_Suc_eq)

lemma cb_scan_first:
  assumes r: "ratable cf"
  defines "n \<equiv> length (live (pq_of (lm cf)))"
  shows "\<exists>mi mn. cb_scan cf = Some (mi, mn, cf\<lparr>ktick := ktick cf + n\<rparr>) \<and>
    (case mi of None \<Rightarrow> n = 0 | Some i \<Rightarrow> 1 \<le> i \<and> first_least (rated cf) n (i - 1))"
proof -
  let ?q = "pq_of (lm cf)"
  let ?f = "\<lambda>i (min_idx, cb_min, cf). do { a \<leftarrow> idx (q_d ?q) i; cur_line \<leftarrow> idx (lines cf) a;
      if l_ipc cur_line = 0 then Some (min_idx, cb_min, cf)
      else let (v, cf) = calculate_cost_benefit_val cf cur_line
           in Some (if v < cb_min then (Some i, v, cf) else (min_idx, cb_min, cf)) }"
  let ?Q = "\<lambda>ys (mi, mn :: nat, c). c = cf\<lparr>ktick := ktick cf + length ys\<rparr> \<and>
      (case mi of None \<Rightarrow> ys = [] \<and> mn = 2 ^ 63 - 1
       | Some i \<Rightarrow> 1 \<le> i \<and> mn = rated cf (i - 1) \<and> first_least (rated cf) (length ys) (i - 1))"
  have pinv: "vq.pq_inv ?q (lines cf)" using r by (simp add: ratable_def)
  have nq: "n = length [1..<q_size ?q]" by (simp add: n_def live_def)
  have "\<exists>s. foldM ?f [1..<q_size ?q] (None, 2 ^ 63 - 1, cf) = Some s \<and> ?Q [1..<q_size ?q] s"
  proof (rule foldM_total [where P = ?Q])
    show "?Q [] (None, 2 ^ 63 - 1, cf)" by simp
    fix ys i zs s
    assume e: "[1..<q_size ?q] = ys @ i # zs" and q: "?Q ys s"
    obtain mi mn c where s: "s = (mi, mn, c)" by (cases s)
    have c: "c = cf\<lparr>ktick := ktick cf + length ys\<rparr>" using q s by simp
    have lc: "lines c = lines cf" by (simp add: c)
    have k: "length ys < q_size ?q - 1" using arg_cong [OF e, of length] by simp
    have i: "i = Suc (length ys)" using arg_cong [OF e, of "\<lambda>xs. xs ! length ys"] k by simp
    let ?a = "q_d ?q ! i" and ?k = "length ys"
    have lk: "live ?q ! ?k = ?a" using k i by (simp add: live_def)
    have al: "?a \<in> set (live ?q)" using k i by (auto simp: live_def)
    have A: "i < length (q_d ?q)" "?a < length (lines cf)" using pinv k i by (auto simp: vq.pq_inv_def)
    have I: "0 < l_ipc (lines cf ! ?a)" "l_vpc (lines cf ! ?a) \<le> pgs_per_line (spp_of cf)" "pgs_per_line (spp_of cf) \<le> 2 ^ 22"
      using r al by (simp_all add: ratable_def)
    have v: "calculate_cost_benefit_val c (lines cf ! ?a) = (rated cf ?k, cf\<lparr>ktick := ktick cf + length (ys @ [i])\<rparr>)"
      by (simp add: cb_val_score c rated_def lk)
    have small: "rated cf ?k < 2 ^ 63 - 1" unfolding rated_def lk by (rule victim_score_small [OF I(2,3)])
    let ?s = "if rated cf ?k < mn then (Some i, rated cf ?k, cf\<lparr>ktick := ktick cf + length (ys @ [i])\<rparr>)
      else (mi, mn, cf\<lparr>ktick := ktick cf + length (ys @ [i])\<rparr>)"
    have F1: "?f i s = Some ?s" using A I(1) v lc by (simp add: s arr_simps)
    have F2: "?Q (ys @ [i]) ?s"
    proof (cases mi)
      case None
      then show ?thesis using q s small i by (simp add: first_least_def)
    next
      case (Some m)
      then have m: "1 \<le> m" "mn = rated cf (m - 1)" "first_least (rated cf) ?k (m - 1)" using q s by auto
      show ?thesis using first_least_Suc [OF m(3)] m(1,2) Some i by (simp split: if_splits)
    qed
    show "\<exists>s'. ?f i s = Some s' \<and> ?Q (ys @ [i]) s'" by (rule exI, rule conjI [OF F1 F2])
  qed
  then obtain s where s: "foldM ?f [1..<q_size ?q] (None, 2 ^ 63 - 1, cf) = Some s" "?Q [1..<q_size ?q] s"
    by (elim exE conjE)
  obtain mi mn c where c: "s = (mi, mn, c)" by (cases s)
  have "cb_scan cf = Some (mi, mn, c)" using s(1) c by (simp add: cb_scan_def Let_def)
  then show ?thesis using s(2) c nq by (intro exI [of _ mi] exI [of _ mn]) (auto split: option.splits)
qed

section \<open>The selection\<close>

text \<open>What the selection leaves: without a candidate the readings of the clock only; else the victim leaves the queue and
  its counter, knows no slot any more, no line changes otherwise, and the histogram counts its age in seconds
  at one more reading.\<close>

definition victim_taken :: "conv_ftl \<Rightarrow> nat \<Rightarrow> conv_ftl \<Rightarrow> bool" where
  "victim_taken cf v cf' \<longleftrightarrow>
     (let n = length (live (pq_of (lm cf)));
          s = min 200 (elapsed_ns (kclk cf (ktick cf + n)) (mtime (lines cf ! v)) div 1000000000)
      in set (live (pq_of (lm cf'))) = set (live (pq_of (lm cf))) - {v} \<and>
         length (live (pq_of (lm cf'))) = n - 1 \<and>
         victim_line_cnt (lm cf') = dec32 (victim_line_cnt (lm cf)) \<and>
         l_pos (lines cf' ! v) = 0 \<and> map (l_pos_update (\<lambda>_. 0)) (lines cf') = map (l_pos_update (\<lambda>_. 0)) (lines cf) \<and>
         age_cnt cf' = (age_cnt cf)[s := u32 (age_cnt cf ! s + 1)] \<and> ktick cf' = ktick cf + n + 1)"

lemma select_victim_line_first:
  assumes r: "ratable cf" and ag: "length (age_cnt cf) = 201"
  shows "\<exists>w cf'. select_victim_line cf force = Some (w, cf') \<and>
    (case w of None \<Rightarrow> live (pq_of (lm cf)) = [] | Some v \<Rightarrow>
       (\<exists>j. first_least (rated cf) (length (live (pq_of (lm cf)))) j \<and> v = live (pq_of (lm cf)) ! j) \<and> victim_taken cf v cf')"
proof -
  let ?q = "pq_of (lm cf)"
  let ?n = "length (live ?q)"
  have pinv: "vq.pq_inv ?q (lines cf)" using r by (simp add: ratable_def)
  obtain mi mn where S: "cb_scan cf = Some (mi, mn, cf\<lparr>ktick := ktick cf + ?n\<rparr>)"
    "case mi of None \<Rightarrow> ?n = 0 | Some i \<Rightarrow> 1 \<le> i \<and> first_least (rated cf) ?n (i - 1)"
    using cb_scan_first [OF r] by blast
  show ?thesis
  proof (cases mi)
    case None
    then show ?thesis using S by (simp add: select_victim_line_def)
  next
    case (Some i)
    then have i: "1 \<le> i" "first_least (rated cf) ?n (i - 1)" using S(2) by auto
    have n: "?n = q_size ?q - 1" by (simp add: live_def)
    have b: "i < q_size ?q" "i - 1 < ?n" using i n by (auto simp: first_least_def)
    define a where "a = live ?q ! (i - 1)"
    have ai: "q_d ?q ! i = a" using b i(1) by (simp add: live_def a_def)
    have al: "a \<in> set (live ?q)" unfolding a_def by (rule nth_mem [OF b(2)])
    obtain q h where rm: "pqueue_remove ?q (lines cf) a = Some (q, h)" "vq.removed ?q (lines cf) a (q, h)"
      using vq.pqueue_remove_ok [OF pinv al] by blast
    have R: "set (live q) = set (live ?q) - {a}" "q_size q = q_size ?q - 1" "vq.only_pos (set (live ?q)) (lines cf) h"
      using rm(2) by (simp_all add: vq.removed_def)
    have same: "map (l_pos_update (\<lambda>_. 0)) h = map (l_pos_update (\<lambda>_. 0)) (lines cf)" using R(3) by (simp add: vq.only_pos_def)
    have la: "a < length (lines cf)" using pinv b(1) i(1) ai by (auto simp: vq.pq_inv_def)
    have lh: "length h = length (lines cf)" using arg_cong [OF same, of length] by simp
    have "mtime (map (l_pos_update (\<lambda>_. 0)) h ! a) = mtime (map (l_pos_update (\<lambda>_. 0)) (lines cf) ! a)" by (simp only: same)
    then have mt: "mtime (h ! a) = mtime (lines cf ! a)" using la lh by simp
    let ?s = "min 200 (elapsed_ns (kclk cf (ktick cf + ?n)) (mtime (lines cf ! a)) div 1000000000)"
    let ?c = "cf\<lparr>lines := modl h a (\<lambda>l. l\<lparr>l_pos := 0\<rparr>),
      lm := (lm cf)\<lparr>victim_line_pq := q, victim_line_cnt := dec32 (victim_line_cnt (lm cf))\<rparr>,
      ktick := ktick cf + ?n + 1, age_cnt := (age_cnt cf)[?s := u32 (age_cnt cf ! ?s + 1)]\<rparr>"
    have hz: "(map (l_pos_update (\<lambda>_. 0)) (lines cf))[a := (h ! a)\<lparr>l_pos := 0\<rparr>] = map (l_pos_update (\<lambda>_. 0)) (lines cf)"
      unfolding same [symmetric] using la lh by (intro nth_equalityI) (auto simp: nth_list_update)
    have il: "i < length (q_d ?q)" using pinv b by (simp add: vq.pq_inv_def)
    have mn: "(if x < 200 then x else 200) = min 200 x" for x :: nat by simp
    have "select_victim_line cf force = Some (Some a, ?c)"
      using S(1) Some rm(1) la lh il ag mt
      by (simp add: select_victim_line_def arr_simps ai ktime_get_ns_def Let_def sub64_elapsed mn modl_def inc32_def del: min.commute)
    moreover have "victim_taken cf a ?c"
      using R(1,2) la lh same hz n
      by (simp add: victim_taken_def Let_def live_def modl_def map_update del: set_map)
    ultimately show ?thesis using i(2) by (intro exI [of _ "Some a"] exI [of _ ?c]) (auto simp: a_def)
  qed
qed

lemma select_victim_line_slc_least:
  assumes inv: "binv cf (settled cf) {}" and sel: "select_victim_line_slc cf force = Some (Some v, cf')"
  shows "live (pq_of (slm cf)) \<noteq> [] \<Longrightarrow> v \<in> set (live (pq_of (slm cf)))"
    "a \<in> set (live (pq_of (slm cf))) \<Longrightarrow> l_vpc (lines cf ! v) \<le> l_vpc (lines cf ! a)"
    "live (pq_of (slm cf)) = [] \<Longrightarrow> v = hd (full_line_list (slm cf)) \<and> full_line_list (slm cf) \<noteq> []"
proof -
  have pinv: "vq.pq_inv (pq_of (slm cf)) (lines cf)" using binvD(6) [OF inv, of SLC_MODE] by (simp add: lm_inv_def lmof_def)
  note P = vq.pqueue_peek_ok [OF pinv]
  have pk: "pqueue_peek (pq_of (slm cf)) = Some v" if "live (pq_of (slm cf)) \<noteq> []"
  proof -
    obtain e where e: "pqueue_peek (pq_of (slm cf)) = Some e" using P(1) \<open>live (pq_of (slm cf)) \<noteq> []\<close> by (cases "pqueue_peek (pq_of (slm cf))") auto
    then have "e = v" using sel
      by (auto simp: select_victim_line_slc_def bind_eq_Some_conv Let_def split: if_splits prod.splits)
    then show ?thesis using e by simp
  qed
  show "live (pq_of (slm cf)) \<noteq> [] \<Longrightarrow> v \<in> set (live (pq_of (slm cf)))" using P(2) pk by blast
  show "l_vpc (lines cf ! v) \<le> l_vpc (lines cf ! a)" if a: "a \<in> set (live (pq_of (slm cf)))"
  proof -
    have "live (pq_of (slm cf)) \<noteq> []" using a by auto
    from P(2) [OF pk [OF this]] a have "\<not> victim_line_cmp_pri (victim_line_get_pri (lines cf) v) (victim_line_get_pri (lines cf) a)" by blast
    then show ?thesis by (simp add: victim_line_cmp_pri_def victim_line_get_pri_def)
  qed
  show "v = hd (full_line_list (slm cf)) \<and> full_line_list (slm cf) \<noteq> []" if "live (pq_of (slm cf)) = []"
    using sel P(1) that by (auto simp: select_victim_line_slc_def Let_def split: list.splits)
qed

end
