(* ===== verification/Ftl_Properties.thy ===== *)
theory Ftl_Properties
  imports Sample_Device Conv_Choice
begin

text \<open>
  The properties of one partition of the conventional FTL: page writes, garbage collection and migration,
  victim selection, the mapping, the accounting of the lines and the geometry.
\<close>

text \<open>Consistency of flash, lines, write pointers and tables.\<close>

definition consistent :: "conv_ftl \<Rightarrow> bool" where
  "consistent cf \<longleftrightarrow> binv cf (settled cf) {} \<and> minv cf {} {}"

lemma ftl_consistent: "ftl_inv cf \<Longrightarrow> consistent cf"
  by (simp add: ftl_inv_def consistent_def)

definition spl_write :: nand_cmd where
  "spl_write = \<lparr>nc_type = USER_IO, nc_cmd = NAND_WRITE, nc_xfer_size = 49152, nc_stime = 5000, nc_interleave = False, nc_ppa = zero_ppa\<rparr>"

lemma spl_written: "\<exists>d cf. write_page spl_ftl spl_write 5 = Some (d, cf) \<and> ftl_inv cf \<and> lpns cf = {5} \<and> spp_of cf = spl_spp"
proof -
  have "\<exists>d cf'. write_page spl_ftl spl_write 5 = Some (d, cf') \<and> ftl_inv cf' \<and> lpns cf' = insert 5 (lpns spl_ftl) \<and>
    spp_of cf' = spp_of spl_ftl \<and> budget spl_ftl \<le> budget cf' + 1 \<and>
    (\<forall>t n. d = Some (t, n) \<longrightarrow> nc_stime spl_write \<le> t \<and> n = pgs_per_oneshotpg_slc (spp_of spl_ftl) * pgsz (spp_of spl_ftl))"
    by (rule write_page_ok [OF spl_ftl_ok(2)]) (simp_all add: spl_ftl_ok spl_values spl_write_def)
  then obtain d cf where w: "write_page spl_ftl spl_write 5 = Some (d, cf)" "ftl_inv cf" "lpns cf = insert 5 (lpns spl_ftl)"
    "spp_of cf = spp_of spl_ftl" by blast
  have "lpns cf = {5}" "spp_of cf = spl_spp" using w(3,4) by (simp_all add: spl_ftl_ok)
  then show ?thesis using w(1,2) by blast
qed

section \<open>Writes\<close>

text \<open>C4: A page write succeeds whenever the TLC lines have room for more than one line; it keeps the invariant of the
  partition, maps exactly that page in addition, costs at most one page of the budget, and, when it completes an SLC
  wordline, reports the bytes of that wordline with a time that is not before the start of the command.\<close>

theorem write_page_effect:
  assumes "ftl_inv cf" "lpn < tt_pgs (spp_of cf)" "nc_cmd swr = NAND_WRITE" "pgs_per_line (spp_of cf) < room cf TLC_MODE"
  shows "\<exists>d cf'. write_page cf swr lpn = Some (d, cf') \<and> ftl_inv cf' \<and> lpns cf' = insert lpn (lpns cf) \<and>
    spp_of cf' = spp_of cf \<and> budget cf \<le> budget cf' + 1 \<and>
    (\<forall>t n. d = Some (t, n) \<longrightarrow> nc_stime swr \<le> t \<and> n = pgs_per_oneshotpg_slc (spp_of cf) * pgsz (spp_of cf))"
  using write_page_ok [OF assms] .

theorem write_page_effect_witness:
  "\<exists>d cf'. write_page spl_ftl spl_write 100 = Some (d, cf') \<and> ftl_inv cf' \<and> lpns cf' = insert 100 (lpns spl_ftl) \<and>
    spp_of cf' = spp_of spl_ftl \<and> budget spl_ftl \<le> budget cf' + 1 \<and>
    (\<forall>t n. d = Some (t, n) \<longrightarrow> nc_stime spl_write \<le> t \<and> n = pgs_per_oneshotpg_slc (spp_of spl_ftl) * pgsz (spp_of spl_ftl))"
  by (rule write_page_effect [OF spl_ftl_ok(2)]) (simp_all add: spl_ftl_ok spl_values spl_write_def)

text \<open>A new page goes to the page under the SLC write pointer, which is free and valid afterwards, becomes the mapping of the
  logical page, and the write pointer moves to the next page of the striping order of its line, or to the first
  free line when the line is used up.\<close>

theorem new_write_effect:
  assumes "consistent cf" "lpn < tt_pgs (spp_of cf)" "\<not> mapped_ppa (maptbl cf ! lpn)" "2 \<le> room cf SLC_MODE"
  shows "\<exists>a cf'. new_write cf lpn = Some (a, cf') \<and> a = wpp (wp cf) \<and> stat (ssd cf) a = PG_FREE \<and> consistent cf' \<and>
    maptbl cf' = (maptbl cf)[lpn := a] \<and> stat (ssd cf') a = PG_VALID \<and> moved SLC_MODE cf cf'"
proof -
  have b: "binv cf (settled cf) {}" and m: "minv cf {} {}" using assms(1) by (simp_all add: consistent_def)
  have u: "unclaimed cf {} lpn" by (rule unmapped_unclaimed [OF m binvD(3) [OF b] assms(3)])
  obtain a cf' where n: "new_write cf lpn = Some (a, cf')" "a = wpp (wpof SLC_MODE cf)" "a \<in> pages (spp_of cf)"
    "binv cf' (settled cf') {}" "minv cf' {} {}" "lpns cf' = insert lpn (lpns cf)" "maptbl cf' = (maptbl cf)[lpn := a]" "moved SLC_MODE cf cf'"
    using new_write_ok [OF b m _ assms(2) u assms(4)] by blast
  have w: "wpof SLC_MODE cf = wp cf" by (simp add: wpof_def)
  have "stat (ssd cf) (wpp (wpof SLC_MODE cf)) = PG_FREE"
    using assign_ok [OF b m assms(2) u, of SLC_MODE] by auto
  moreover have "stat (ssd cf') a = PG_VALID"
  proof -
    have l: "lpn < length (maptbl cf)" using m assms(2) by (simp add: minv_def)
    have "spp_of cf' = spp_of cf" using n(8) by (simp add: moved_def)
    then have "lpn < tt_pgs (spp_of cf')" "mapped_ppa (maptbl cf' ! lpn)"
      using assms(2) n(7) l mapped_page [OF n(3) binvD(3) [OF b]] by simp_all
    then have "stat (ssd cf') (maptbl cf' ! lpn) = PG_VALID" using n(5) by (simp add: minv_def)
    then show ?thesis using n(7) l by simp
  qed
  ultimately show ?thesis using n w by (intro exI [of _ a] exI [of _ cf']) (simp add: consistent_def)
qed

theorem new_write_effect_witness:
  "\<exists>a cf'. new_write spl_ftl 7 = Some (a, cf') \<and> a = wpp (wp spl_ftl) \<and> stat (ssd spl_ftl) a = PG_FREE \<and> consistent cf' \<and>
    maptbl cf' = (maptbl spl_ftl)[7 := a] \<and> stat (ssd cf') a = PG_VALID \<and> moved SLC_MODE spl_ftl cf'"
proof (rule new_write_effect [OF ftl_consistent [OF spl_ftl_ok(2)]])
  show "7 < tt_pgs (spp_of spl_ftl)" by (simp add: spl_ftl_ok spl_values)
  then show "\<not> mapped_ppa (maptbl spl_ftl ! 7)" using spl_ftl_ok(3) by (auto simp: lpns_def)
  have "3 * 1 \<le> length (free_line_list (slm spl_ftl)) * linesz (spp_of spl_ftl) SLC_MODE"
    by (rule mult_le_mono) (use spl_ftl_ok(2) in \<open>simp_all add: ftl_inv_def spl_ftl_ok linesz_def spl_values\<close>)
  then show "2 \<le> room spl_ftl SLC_MODE" by (simp add: room_def lmof_def mult.commute)
qed

text \<open>Marking a valid page as invalid succeeds and changes the state of that page only; the counters of its
  block and line, the class of its line (a full line becomes a candidate for collection) and the order of the
  queue of candidates follow.\<close>

theorem mark_page_invalid_effect:
  assumes "consistent cf" "lpn \<in> lpns cf"
  shows "\<exists>cf'. mark_page_invalid cf (maptbl cf ! lpn) = Some cf' \<and> binv cf' (settled cf') {} \<and>
    stat (ssd cf) (maptbl cf ! lpn) = PG_VALID \<and> stat_upd (ssd cf) (ssd cf') (maptbl cf ! lpn) PG_INVALID"
proof -
  have b: "binv cf (settled cf) {}" and m: "minv cf {} {}" using assms(1) by (simp_all add: consistent_def)
  have a: "maptbl cf ! lpn \<in> pages (spp_of cf)" "stat (ssd cf) (maptbl cf ! lpn) = PG_VALID"
    using m assms(2) by (auto simp: minv_def lpns_def)
  obtain cf' where c: "mark_page_invalid cf (maptbl cf ! lpn) = Some cf'" "binv cf' (settled cf) {}"
    "stat_upd (ssd cf) (ssd cf') (maptbl cf ! lpn) PG_INVALID" "\<forall>r. wpof r cf' = wpof r cf"
    using mark_page_invalid_ok [OF b _ a] by auto
  have "settled cf' = settled cf" using c(3,4) by (intro ext) (simp add: settled_def stat_upd_def)
  then show ?thesis using c a by (intro exI [of _ cf']) simp
qed

theorem mark_page_invalid_effect_witness:
  "\<exists>cf cf'. mark_page_invalid cf (maptbl cf ! 5) = Some cf' \<and> binv cf' (settled cf') {} \<and>
    stat (ssd cf) (maptbl cf ! 5) = PG_VALID \<and> stat_upd (ssd cf) (ssd cf') (maptbl cf ! 5) PG_INVALID"
proof -
  obtain cf where w: "ftl_inv cf" "lpns cf = {5}" using spl_written by blast
  show ?thesis using mark_page_invalid_effect [OF ftl_consistent [OF w(1)], of 5] w(2) by blast
qed

section \<open>Collection and migration\<close>

text \<open>C3: Garbage collection of the TLC lines with a line of room loses no data: it keeps every mapped page mapped and the
  tables consistent; when it collects a line, that line is a TLC line with an invalid page and without free pages, and the
  room grows by exactly its invalid pages. It finds no victim only when there is no candidate.\<close>

theorem do_gc_no_loss:
  assumes "consistent cf" "dyn_slc_mode cf = TLC_MODE" "linesz (spp_of cf) TLC_MODE \<le> room cf TLC_MODE"
  shows "\<exists>w cf'. do_gc cf force = Some cf' \<and> consistent cf' \<and> lpns cf' = lpns cf \<and>
    (\<forall>v. w = Some v \<longrightarrow> v \<in> rng (spp_of cf) TLC_MODE \<and> npg cf PG_FREE v = 0 \<and> 0 < npg cf PG_INVALID v \<and>
       room cf' TLC_MODE = room cf TLC_MODE + npg cf PG_INVALID v) \<and>
    (w = None \<and> pgs_per_line (spp_of cf) \<le> 2 ^ 22 \<longrightarrow> live (pq_of (lm cf)) = [])"
proof -
  have b: "binv cf (settled cf) {}" and m: "minv cf {} {}" using assms(1) by (simp_all add: consistent_def)
  obtain w cf' where g: "do_gc cf force = Some cf'" "collected TLC_MODE cf w cf'"
    "\<forall>v. w = Some v \<longrightarrow> 0 < npg cf PG_INVALID v \<and> room cf' TLC_MODE = room cf TLC_MODE + npg cf PG_INVALID v"
    "w = None \<and> pgs_per_line (spp_of cf) \<le> 2 ^ 22 \<longrightarrow> live (pq_of (lm cf)) = []"
    using do_gc_tlc_ok [OF b m assms(2,3), of force] by blast
  note c = g(2) [unfolded collected_def]
  show ?thesis using g c by (intro exI [of _ w] exI [of _ cf']) (simp add: consistent_def split: option.splits)
qed

theorem do_gc_no_loss_witness:
  "\<exists>w cf'. do_gc (spl_ftl\<lparr>dyn_slc_mode := TLC_MODE\<rparr>) True = Some cf' \<and> consistent cf' \<and> lpns cf' = lpns (spl_ftl\<lparr>dyn_slc_mode := TLC_MODE\<rparr>) \<and>
    (\<forall>v. w = Some v \<longrightarrow> v \<in> rng spl_spp TLC_MODE \<and> npg (spl_ftl\<lparr>dyn_slc_mode := TLC_MODE\<rparr>) PG_FREE v = 0 \<and>
       0 < npg (spl_ftl\<lparr>dyn_slc_mode := TLC_MODE\<rparr>) PG_INVALID v \<and>
       room cf' TLC_MODE = room (spl_ftl\<lparr>dyn_slc_mode := TLC_MODE\<rparr>) TLC_MODE + npg (spl_ftl\<lparr>dyn_slc_mode := TLC_MODE\<rparr>) PG_INVALID v)"
proof -
  let ?c = "spl_ftl\<lparr>dyn_slc_mode := TLC_MODE\<rparr>"
  have i: "binv spl_ftl (settled spl_ftl) {}" "minv spl_ftl {} {}" using spl_ftl_ok(2) by (simp_all add: ftl_inv_def)
  note d = binv_dyn [OF i, of TLC_MODE]
  have "consistent ?c" "linesz (spp_of ?c) TLC_MODE \<le> room ?c TLC_MODE"
    using d by (simp_all add: consistent_def spl_ftl_ok linesz_def spl_values)
  from do_gc_no_loss [OF this(1) _ this(2), of True] show ?thesis by (simp add: spl_ftl_ok) blast
qed

text \<open>C2: Migration, the collection of an SLC line into the TLC lines, with more than an SLC line of room there, loses no data:
  every mapped page stays mapped and the tables consistent; the line is an SLC line without free pages, goes to the end of
  the free SLC lines, and takes exactly its valid pages of the room. Forced, it finds no victim only when there is no
  candidate.\<close>

theorem migration_no_loss:
  assumes "consistent cf" "dyn_slc_mode cf = SLC_MODE" "linesz (spp_of cf) SLC_MODE < room cf TLC_MODE"
  shows "\<exists>w cf'. do_gc cf force = Some cf' \<and> consistent cf' \<and> lpns cf' = lpns cf \<and>
    (\<forall>v. w = Some v \<longrightarrow> v \<in> rng (spp_of cf) SLC_MODE \<and> npg cf PG_FREE v = 0 \<and>
       free_line_list (slm cf') = free_line_list (slm cf) @ [v] \<and> room cf' TLC_MODE + npg cf PG_VALID v = room cf TLC_MODE) \<and>
    (w = None \<and> force \<longrightarrow> full_line_list (slm cf) = [] \<and> live (pq_of (slm cf)) = [])"
proof -
  have b: "binv cf (settled cf) {}" and m: "minv cf {} {}" using assms(1) by (simp_all add: consistent_def)
  obtain w cf' where g: "do_gc cf force = Some cf'" "collected SLC_MODE cf w cf'"
    "\<forall>v. w = Some v \<longrightarrow> room cf' TLC_MODE + npg cf PG_VALID v = room cf TLC_MODE \<and> npg cf PG_VALID v \<le> linesz (spp_of cf) SLC_MODE"
    "w = None \<and> force \<longrightarrow> full_line_list (slm cf) = [] \<and> live (pq_of (slm cf)) = []"
    using do_gc_slc_ok [OF b m assms(2,3), of force] by blast
  note c = g(2) [unfolded collected_def]
  show ?thesis using g c by (intro exI [of _ w] exI [of _ cf']) (simp add: consistent_def lmof_def split: option.splits)
qed

theorem migration_no_loss_witness:
  "\<exists>cf w cf'. do_gc cf True = Some cf' \<and> consistent cf' \<and> lpns cf' = {5} \<and>
    (\<forall>v. w = Some v \<longrightarrow> v \<in> rng (spp_of cf) SLC_MODE \<and> npg cf PG_FREE v = 0 \<and>
       free_line_list (slm cf') = free_line_list (slm cf) @ [v] \<and> room cf' TLC_MODE + npg cf PG_VALID v = room cf TLC_MODE)"
proof -
  have "\<exists>d cf'. write_page spl_ftl spl_write 5 = Some (d, cf') \<and> ftl_inv cf' \<and> lpns cf' = insert 5 (lpns spl_ftl) \<and>
    spp_of cf' = spp_of spl_ftl \<and> budget spl_ftl \<le> budget cf' + 1 \<and>
    (\<forall>t n. d = Some (t, n) \<longrightarrow> nc_stime spl_write \<le> t \<and> n = pgs_per_oneshotpg_slc (spp_of spl_ftl) * pgsz (spp_of spl_ftl))"
    by (rule write_page_ok [OF spl_ftl_ok(2)]) (simp_all add: spl_ftl_ok spl_values spl_write_def)
  then obtain cf where w: "ftl_inv cf" "lpns cf = insert 5 (lpns spl_ftl)" "spp_of cf = spp_of spl_ftl" "budget spl_ftl \<le> budget cf + 1" by blast
  let ?c = "cf\<lparr>dyn_slc_mode := SLC_MODE\<rparr>"
  have i: "binv cf (settled cf) {}" "minv cf {} {}" using w(1) by (simp_all add: ftl_inv_def)
  note d = binv_dyn [OF i, of SLC_MODE]
  have "write_credits (wfc cf) \<le> pgs_per_line_slc (spp_of cf)" using w(1) by (simp add: ftl_inv_def)
  then have "linesz (spp_of ?c) SLC_MODE < room ?c TLC_MODE"
    using w(3,4) d(4) by (simp add: budget_def spl_ftl_ok linesz_def spl_values)
  moreover have "consistent ?c" using d by (simp add: consistent_def)
  ultimately obtain v cf' where "do_gc ?c True = Some cf'" "consistent cf'" "lpns cf' = lpns ?c"
    "\<forall>x. v = Some x \<longrightarrow> x \<in> rng (spp_of ?c) SLC_MODE \<and> npg ?c PG_FREE x = 0 \<and>
       free_line_list (slm cf') = free_line_list (slm ?c) @ [x] \<and> room cf' TLC_MODE + npg ?c PG_VALID x = room ?c TLC_MODE"
    using migration_no_loss [of ?c True] by auto
  moreover have "lpns ?c = {5}" using d(5) w(2) by (simp add: spl_ftl_ok)
  ultimately show ?thesis by (intro exI [of _ ?c] exI [of _ v] exI [of _ cf']) simp
qed

text \<open>C9: A foreground collection leaves at least three free SLC lines and the credits of one SLC line to refill, loses no data
  and costs at most one SLC line of TLC room; the code collects the TLC lines first when they run short.\<close>

theorem foreground_gc_effect:
  assumes "consistent cf" "cp cf = conv_init_params" "2 \<le> length (free_line_list (slm cf))" "4 \<le> tt_lines_slc (spp_of cf)"
    "credits_to_refill (wfc cf) = pgs_per_line_slc (spp_of cf)" "linesz (spp_of cf) TLC_MODE < room cf TLC_MODE"
  shows "\<exists>cf'. foreground_gc cf = Some cf' \<and> consistent cf' \<and> lpns cf' = lpns cf \<and> 3 \<le> length (free_line_list (slm cf')) \<and>
    credits_to_refill (wfc cf') = pgs_per_line_slc (spp_of cf) \<and> room cf TLC_MODE \<le> room cf' TLC_MODE + linesz (spp_of cf) SLC_MODE"
proof -
  have b: "binv cf (settled cf) {}" and m: "minv cf {} {}" using assms(1) by (simp_all add: consistent_def)
  show ?thesis using foreground_gc_ok [OF b m assms(2-6)] by (auto simp: fg_done_def consistent_def)
qed

theorem foreground_gc_effect_witness:
  "\<exists>cf'. foreground_gc spl_ftl = Some cf' \<and> consistent cf' \<and> lpns cf' = lpns spl_ftl \<and> 3 \<le> length (free_line_list (slm cf')) \<and>
    credits_to_refill (wfc cf') = pgs_per_line_slc (spp_of spl_ftl) \<and>
    room spl_ftl TLC_MODE \<le> room cf' TLC_MODE + linesz (spp_of spl_ftl) SLC_MODE"
  by (rule foreground_gc_effect [OF ftl_consistent [OF spl_ftl_ok(2)]])
    (use spl_ftl_ok(2) in \<open>simp_all add: ftl_inv_def spl_ftl_ok linesz_def spl_values\<close>)

text \<open>Consistency makes every line of the TLC queue ratable.\<close>

lemma consistent_ratable:
  assumes "consistent cf" "pgs_per_line (spp_of cf) \<le> 2 ^ 22"
  shows "ratable cf"
proof -
  have b: "binv cf (settled cf) {}" using assms(1) by (simp add: consistent_def)
  have m: "lm cf = lmof TLC_MODE cf" by (simp add: lmof_def)
  show ?thesis
    using binvD(6) [OF b, of TLC_MODE] victim_counts(2,3) [OF b, of _ TLC_MODE] assms(2)
    by (simp add: ratable_def lm_inv_def m linesz_def)
qed

text \<open>C11: Garbage collection takes the first candidate, in the order of the queue's array, with the least cost-benefit
  value: valid pages over other pages times the weight of the age of the line, each candidate rated at the reading
  of the running clock that the scan takes for it. There is a victim whenever the queue is not empty; it leaves the queue,
  the heap of the others and all other data of the lines stay, and the histogram counts its age.\<close>

theorem cost_benefit_victim:
  assumes "ratable cf" "length (age_cnt cf) = 201"
  shows "\<exists>w cf'. select_victim_line cf force = Some (w, cf') \<and> (w = None \<longleftrightarrow> live (pq_of (lm cf)) = []) \<and>
    (\<forall>v. w = Some v \<longrightarrow> victim_taken cf v cf' \<and>
      (\<exists>j. v = live (pq_of (lm cf)) ! j \<and> first_least (rated cf) (length (live (pq_of (lm cf)))) j))"
proof -
  obtain w cf' where s: "select_victim_line cf force = Some (w, cf')"
    "case w of None \<Rightarrow> live (pq_of (lm cf)) = [] | Some v \<Rightarrow>
       (\<exists>j. first_least (rated cf) (length (live (pq_of (lm cf)))) j \<and> v = live (pq_of (lm cf)) ! j) \<and> victim_taken cf v cf'"
    using select_victim_line_first [OF assms, of force] by blast
  have "w = None \<longleftrightarrow> live (pq_of (lm cf)) = []" using s(2) by (auto simp: first_least_def split: option.splits)
  then show ?thesis using s by (intro exI [of _ w] exI [of _ cf']) auto
qed

text \<open>Two candidates: line 0 with 100 valid pages, written one second ago, at the top of the queue, and line 1 with
  200 valid pages, written 300 seconds ago. The clock advances a microsecond from one reading to the next.\<close>

definition two_line :: "nat \<Rightarrow> nat \<Rightarrow> nat \<Rightarrow> line" where
  "two_line i v t = \<lparr>line_id = i, l_ipc = 1056 - v, l_vpc = v, l_pos = i + 1, mtime = t\<rparr>"

definition two_lines :: conv_ftl where
  "two_lines = spl_mem\<lparr>lines := [two_line 0 100 299000000000, two_line 1 200 0],
     lm := spl_lm\<lparr>victim_line_pq := (new_pq (\<lambda>_. 0) 3)\<lparr>q_d := [0, 0, 1], q_size := 3\<rparr>, victim_line_cnt := 2\<rparr>,
     kclk := \<lambda>i. 300000000000 + 1000 * i\<rparr>"

lemma two_lines_ok:
  "ratable two_lines" "length (age_cnt two_lines) = 201" "live (pq_of (lm two_lines)) = [0, 1]"
  "rated two_lines 1 < rated two_lines 0" "pqueue_peek (pq_of (lm two_lines)) = Some 0"
proof -
  have q: "pq_of (lm two_lines) = (new_pq (\<lambda>_. 0) 3)\<lparr>q_d := [0, 0, 1], q_size := 3\<rparr>" by (simp add: two_lines_def)
  show l: "live (pq_of (lm two_lines)) = [0, 1]" by (simp add: q live_def upt_rec)
  have sp: "spp_of two_lines = spl_spp" by (simp add: two_lines_def spl_mem_def Let_def)
  have ln: "lines two_lines = [two_line 0 100 299000000000, two_line 1 200 0]" by (simp add: two_lines_def)
  have j: "1 \<le> j \<and> j < 3 \<longleftrightarrow> j = 1 \<or> j = 2" "Suc 0 \<le> j \<and> j < 3 \<longleftrightarrow> j = 1 \<or> j = 2" "2 \<le> j \<and> j < 3 \<longleftrightarrow> j = 2"
    for j :: nat by auto
  have "vq.pq_inv (pq_of (lm two_lines)) (lines two_lines)"
    unfolding vq.pq_inv_def l unfolding q ln
    by (auto simp del: One_nat_def simp: vq.uses_def new_pq_def pqueue_init_def j heap_at_def parent_def victim_line_get_pos_def
        victim_line_get_pri_def victim_line_cmp_pri_def two_line_def)
  then show "ratable two_lines" by (simp add: ratable_def l sp ln spl_values two_line_def)
  show "length (age_cnt two_lines) = 201" by (simp add: two_lines_def spl_mem_def Let_def)
  have k: "kclk two_lines i = 300000000000 + 1000 * i" "ktick two_lines = 0" for i
    by (simp_all add: two_lines_def spl_mem_def Let_def)
  show "rated two_lines 1 < rated two_lines 0"
    by (simp add: rated_def l sp ln k spl_values victim_score_def two_line_def elapsed_ns_def age_weight_def age_classes_def)
  show "pqueue_peek (pq_of (lm two_lines)) = Some 0" by (simp add: q pqueue_peek_def new_pq_def pqueue_init_def)
qed

theorem cost_benefit_victim_witness:
  "\<exists>cf'. select_victim_line two_lines False = Some (Some 1, cf') \<and> set (live (pq_of (lm cf'))) = {0} \<and>
    victim_line_cnt (lm cf') = 1 \<and> pqueue_peek (pq_of (lm two_lines)) = Some 0"
proof -
  note T = two_lines_ok
  obtain w cf' where s: "select_victim_line two_lines False = Some (w, cf')" "w = None \<longleftrightarrow> live (pq_of (lm two_lines)) = []"
    "\<forall>v. w = Some v \<longrightarrow> victim_taken two_lines v cf' \<and>
      (\<exists>j. v = live (pq_of (lm two_lines)) ! j \<and> first_least (rated two_lines) (length (live (pq_of (lm two_lines)))) j)"
    using cost_benefit_victim [OF T(1,2), of False] by blast
  obtain v where v: "w = Some v" using s(2) T(3) by (cases w) simp_all
  obtain j where j: "v = [0, 1] ! j" "first_least (rated two_lines) 2 j" and t: "victim_taken two_lines v cf'"
    using s(3) v by (auto simp: T(3) numeral_2_eq_2)
  have "rated two_lines j \<le> rated two_lines 1" using j(2) by (simp add: first_least_def)
  then have "j \<noteq> 0" using T(4) by (intro notI) simp
  then have "j = 1" using j(2) by (simp add: first_least_def)
  then have v1: "v = 1" using j(1) by simp
  have "set (live (pq_of (lm cf'))) = set [0, 1] - {1}" "victim_line_cnt (lm cf') = dec32 (victim_line_cnt (lm two_lines))"
    using t by (simp_all only: victim_taken_def Let_def T(3) v1)
  moreover have "victim_line_cnt (lm two_lines) = 2" by (simp add: two_lines_def)
  ultimately have "set (live (pq_of (lm cf'))) = {0}" "victim_line_cnt (lm cf') = 1"
    by (auto simp: dec32_def sub32_def u32_def)
  then show ?thesis using s(1) v v1 T(5) by (intro exI [of _ cf']) simp
qed

text \<open>The victim of a forced migration is an SLC line of the queue with the fewest valid pages, or, when the queue is empty,
  the oldest of the full lines; there is one whenever there is any candidate.\<close>

theorem greedy_slc_victim:
  assumes "consistent cf"
  shows "\<exists>w cf'. select_victim_line_slc cf True = Some (w, cf') \<and>
    (w = None \<longleftrightarrow> live (pq_of (slm cf)) = [] \<and> full_line_list (slm cf) = []) \<and>
    (\<forall>v. w = Some v \<longrightarrow> (if live (pq_of (slm cf)) = [] then v = hd (full_line_list (slm cf))
       else v \<in> set (live (pq_of (slm cf))) \<and> (\<forall>a \<in> set (live (pq_of (slm cf))). l_vpc (lines cf ! v) \<le> l_vpc (lines cf ! a))))"
proof -
  have b: "binv cf (settled cf) {}" using assms(1) by (simp add: consistent_def)
  obtain w cf' where s: "select_victim_line_slc cf True = Some (w, cf')"
    "w = None \<longrightarrow> full_line_list (slm cf) = [] \<and> live (pq_of (slm cf)) = []"
    using select_victim_line_slc_ok [OF b, of True] by blast
  show ?thesis
  proof (cases w)
    case None
    then show ?thesis using s by (intro exI [of _ w] exI [of _ cf']) simp
  next
    case (Some v)
    note l = select_victim_line_slc_least [OF b s(1) [unfolded Some]]
    show ?thesis using s(1) Some l by (intro exI [of _ w] exI [of _ cf']) auto
  qed
qed

theorem greedy_slc_victim_witness:
  "\<exists>w cf'. select_victim_line_slc spl_ftl True = Some (w, cf') \<and>
    (w = None \<longleftrightarrow> live (pq_of (slm spl_ftl)) = [] \<and> full_line_list (slm spl_ftl) = [])"
  using greedy_slc_victim [OF ftl_consistent [OF spl_ftl_ok(2)]] by blast

section \<open>Mapping, lines and geometry\<close>

text \<open>What consistency says of the tables: the mapping table is a bijection between the mapped logical pages and the valid flash
  pages, and the reverse table is its inverse.\<close>

lemma consistent_bijection:
  assumes "consistent cf"
  shows "bij_betw ((!) (maptbl cf)) (lpns cf) {a \<in> pages (spp_of cf). stat (ssd cf) a = PG_VALID} \<and>
    (\<forall>l \<in> lpns cf. get_rmap_ent cf (maptbl cf ! l) = Some l)"
proof -
  have b: "binv cf (settled cf) {}" and m: "minv cf {} {}" using assms(1) by (simp_all add: consistent_def)
  note g = binvD(3) [OF b]
  let ?V = "{a \<in> pages (spp_of cf). stat (ssd cf) a = PG_VALID}"
  let ?r = "\<lambda>a. rmap cf ! pgi (spp_of cf) a"
  have f: "maptbl cf ! l \<in> ?V \<and> ?r (maptbl cf ! l) = l" if "l \<in> lpns cf" for l using m that by (auto simp: minv_def lpns_def)
  have r: "?r a \<in> lpns cf \<and> maptbl cf ! ?r a = a" if "a \<in> ?V" for a
    using m that mapped_page [OF _ g, of a] by (auto simp: minv_def lpns_def)
  have "bij_betw ((!) (maptbl cf)) (lpns cf) ?V"
    by (rule bij_betw_byWitness [where f' = ?r]) (use f r in auto)
  moreover have "get_rmap_ent cf (maptbl cf ! l) = Some l" if "l \<in> lpns cf" for l
  proof -
    have a: "maptbl cf ! l \<in> pages (spp_of cf)" "?r (maptbl cf ! l) = l" using f [OF that] by auto
    have "pgi (spp_of cf) (maptbl cf ! l) < length (rmap cf)" using pgi_bound [OF g a(1)] m by (simp add: minv_def)
    then show ?thesis using ppa2pgidx_pages [OF g binvD(1) [OF b] a(1)] a(2) by (simp add: get_rmap_ent_def arr_simps)
  qed
  ultimately show ?thesis by blast
qed

text \<open>What consistency says of the lines: those of each kind are partitioned into the free lines, the full lines, the candidates in the victim queue and the line
  under the write pointer; the four counters count them, and the two counters of a line count its valid and invalid
  pages.\<close>

lemma consistent_lines:
  assumes "consistent cf"
  shows "distinct (free_line_list (lmof r cf) @ full_line_list (lmof r cf) @ live (pq_of (lmof r cf)) @ [curline (wpof r cf)]) \<and>
    set (free_line_list (lmof r cf) @ full_line_list (lmof r cf) @ live (pq_of (lmof r cf)) @ [curline (wpof r cf)]) = rng (spp_of cf) r \<and>
    free_line_cnt (lmof r cf) + full_line_cnt (lmof r cf) + victim_line_cnt (lmof r cf) + 1 = lm_tt_lines (lmof r cf) \<and>
    (\<forall>b \<in> rng (spp_of cf) r. l_vpc (lines cf ! b) = npg cf PG_VALID b \<and> l_ipc (lines cf ! b) = npg cf PG_INVALID b)"
proof -
  have b: "binv cf (settled cf) {}" using assms(1) by (simp add: consistent_def)
  note g = binvD(3) [OF b] and L = binvD(6) [OF b, of r]
  have m: "distinct (members (lmof r cf) [curline (wpof r cf)])" "set (members (lmof r cf) [curline (wpof r cf)]) = rng (spp_of cf) r"
    using L by (simp_all add: lm_inv_def)
  have c: "length (members (lmof r cf) [curline (wpof r cf)]) = nlines (spp_of cf) r"
    using distinct_card [OF m(1)] m(2) rng_card [OF g, of r] by simp
  have "free_line_cnt (lmof r cf) + full_line_cnt (lmof r cf) + victim_line_cnt (lmof r cf) + 1 = lm_tt_lines (lmof r cf)"
    using c L by (simp add: lm_inv_def length_members)
  moreover have "\<forall>x \<in> rng (spp_of cf) r. l_vpc (lines cf ! x) = npg cf PG_VALID x \<and> l_ipc (lines cf ! x) = npg cf PG_INVALID x"
    using binvD(4) [OF b] rng_bound [OF g, of _ r] by (simp add: lines_inv_def npg_def)
  ultimately show ?thesis using m by (simp add: members_def)
qed

text \<open>\<open>ppa2pgidx\<close> numbers the pages of the two regions without overlap: it never fails on a page of the device, its numbers are below
  the number of pages, and different pages have different numbers.\<close>

theorem page_numbers:
  assumes "geo (spp_of cf)" "slc_mode cf = SLC_MODE"
  shows "\<exists>f. (\<forall>a \<in> pages (spp_of cf). ppa2pgidx cf a = Some (f a) \<and> f a < tt_pgs (spp_of cf)) \<and> inj_on f (pages (spp_of cf))"
proof (intro exI conjI ballI)
  show "ppa2pgidx cf a = Some (pgi (spp_of cf) a)" "pgi (spp_of cf) a < tt_pgs (spp_of cf)" if "a \<in> pages (spp_of cf)" for a
    using ppa2pgidx_pages [OF assms that] pgi_bound [OF assms(1) that] by simp_all
  show "inj_on (pgi (spp_of cf)) (pages (spp_of cf))" using pgi_inj [OF assms(1)] by (auto intro!: inj_onI)
qed

theorem page_numbers_witness:
  "\<exists>f. (\<forall>a \<in> pages spl_spp. ppa2pgidx spl_ftl a = Some (f a) \<and> f a < 1009536) \<and> inj_on f (pages spl_spp)"
proof -
  have "slc_mode spl_ftl = SLC_MODE" using spl_ftl_ok(2) binvD(1) by (auto simp: ftl_inv_def)
  then show ?thesis using page_numbers [of spl_ftl] spl_geo by (simp add: spl_ftl_ok spl_values)
qed

text \<open>C39: The geometry that \<open>ssd_init_params_slc\<close> computes is consistent (the relations of \<open>geo\<close> between channels, LUNs, lines, blocks,
  wordlines and pages hold) for every configuration whose sizes divide and whose numbers fit the fields of a page address.\<close>

theorem slc_geometry:
  assumes "ssd_init_params_slc cfg capacity nparts = Some spp"
    and "0 < NAND_CHANNELS cfg div nparts" "NAND_CHANNELS cfg div nparts \<le> 2 ^ 8"
    and "0 < LUNS_PER_NAND_CH cfg" "LUNS_PER_NAND_CH cfg \<le> 2 ^ 8" "PLNS_PER_LUN cfg = 1"
    and "0 < capacity div nparts" "LBA_BITS cfg \<le> 12"
    and "0 < FLASH_PAGE_SIZE cfg" "0 < SLC_ONESHOT_PAGE_SIZE cfg" "0 < ONESHOT_PAGE_SIZE cfg"
    and "SLC_ONESHOT_PAGE_SIZE cfg mod FLASH_PAGE_SIZE cfg = 0" "SLC_ONESHOT_PAGE_SIZE cfg \<le> ONESHOT_PAGE_SIZE cfg"
    and "SLC_PORTION cfg \<le> 100" "0 < BLKS_PER_PLN cfg" "BLKS_PER_PLN cfg \<le> 2 ^ 16"
    and "pgs_per_blk spp \<le> 2 ^ 16"
  shows "geo spp"
  using ssd_init_params_slc_geo [OF assms] .

theorem slc_geometry_witness: "geo spl_spp"
  by (rule slc_geometry [OF spl_params]) (simp_all add: SAMSUNG_970PRO_def KB_def GB_def spl_values)

end
