(* ===== verification/Work_Queue.thy ===== *)
theory Work_Queue
  imports Nvme
begin

text \<open>
  The work queues of the I/O workers (\<open>io.c\<close>): an array of entries in which two lists are linked by index, the
  requests in flight (doubly linked, from \<open>io_seq\<close> to \<open>io_seq_end\<close>, sorted by completion time) and the free entries
  (from \<open>free_seq\<close> to \<open>free_seq_end\<close>). The operations are those of the dispatcher: taking a free entry
  (\<open>__allocate_work_queue_entry\<close>), inserting it (\<open>__insert_req_sorted\<close>), giving the completed entries back
  (\<open>__reclaim_completed_reqs\<close>), and the initialisation.

  \<open>-1\<close> in the \<open>unsigned int\<close> links is \<open>NIL\<close>. The time stamps of \<open>PERF_DEBUG\<close> are left out.
\<close>

section \<open>Data\<close>

definition NIL :: nat where "NIL = 2 ^ 32 - 1"
definition NR_MAX_PARALLEL_IO :: nat where "NR_MAX_PARALLEL_IO = 16384"

text \<open>\<open>wk_buffer\<close> stands for the pointer \<open>write_buffer\<close>: the number of the namespace that has it.\<close>

record io_work =
  wk_sqid :: nat
  wk_cqid :: nat
  wk_sq_entry :: nat
  wk_command_id :: nat
  wk_nsecs_start :: nat
  wk_nsecs_target :: nat
  wk_nsecs_enqueue :: nat
  wk_is_copied :: bool
  wk_is_completed :: bool
  wk_status :: nat
  wk_result0 :: nat
  wk_result1 :: nat
  wk_is_internal :: bool
  wk_buffer :: nat
  wk_release :: nat
  wk_next :: nat
  wk_prev :: nat

record io_worker =
  work_queue :: "io_work list"
  free_seq :: nat
  free_seq_end :: nat
  io_seq :: nat
  io_seq_end :: nat
  latest_nsecs :: nat
  worker_id :: nat

text \<open>A write through a pointer to an entry; outside the array there is no entry.\<close>

definition upd_work :: "nat \<Rightarrow> (io_work \<Rightarrow> io_work) \<Rightarrow> io_worker \<Rightarrow> io_worker option" where
  "upd_work i f w = do { e \<leftarrow> idx (work_queue w) i; Some (w\<lparr>work_queue := (work_queue w)[i := f e]\<rparr>) }"

section \<open>Insertion\<close>

text \<open>The loop that looks for the entry after which the new one goes, from the end of the list.\<close>

partial_function (option) find_pos :: "io_worker \<Rightarrow> nat \<Rightarrow> nat \<Rightarrow> nat option" where
  "find_pos w target cur =
     (if cur = NIL then Some NIL
      else do {
        e \<leftarrow> idx (work_queue w) cur;
        if wk_nsecs_target e \<le> latest_nsecs w \<or> wk_nsecs_target e \<le> target then Some cur
        else find_pos w target (wk_prev e) })"

definition insert_req_sorted :: "nat \<Rightarrow> io_worker \<Rightarrow> nat \<Rightarrow> io_worker option" where
  "insert_req_sorted entry w target =
     (if io_seq w = NIL then Some (w\<lparr>io_seq := entry, io_seq_end := entry\<rparr>)
      else do {
        cur \<leftarrow> find_pos w target (io_seq_end w);
        if cur = NIL then do {
          w \<leftarrow> upd_work (io_seq w) (\<lambda>e. e\<lparr>wk_prev := entry\<rparr>) w;
          w \<leftarrow> upd_work entry (\<lambda>e. e\<lparr>wk_next := io_seq w\<rparr>) w;
          Some (w\<lparr>io_seq := entry\<rparr>) }
        else do {
          c \<leftarrow> idx (work_queue w) cur;
          if wk_next c = NIL then do {
            w \<leftarrow> upd_work entry (\<lambda>e. e\<lparr>wk_prev := cur\<rparr>) w;
            upd_work cur (\<lambda>e. e\<lparr>wk_next := entry\<rparr>) (w\<lparr>io_seq_end := entry\<rparr>) }
          else do {
            w \<leftarrow> upd_work entry (\<lambda>e. e\<lparr>wk_prev := cur, wk_next := wk_next c\<rparr>) w;
            w \<leftarrow> upd_work (wk_next c) (\<lambda>e. e\<lparr>wk_prev := entry\<rparr>) w;
            upd_work cur (\<lambda>e. e\<lparr>wk_next := entry\<rparr>) w } } })"

section \<open>Allocation and reclaim\<close>

text \<open>The part of \<open>__allocate_work_queue_entry\<close> on the worker; the result \<open>None\<close> inside is the NULL pointer.\<close>

definition allocate_entry :: "io_worker \<Rightarrow> (nat \<times> io_worker) option option" where
  "allocate_entry w = do {
     e \<leftarrow> idx (work_queue w) (free_seq w);
     if NR_MAX_PARALLEL_IO \<le> wk_next e then Some None
     else Some (Some (free_seq w, w\<lparr>free_seq := wk_next e\<rparr>)) }"

definition reclaimable :: "io_worker \<Rightarrow> io_work \<Rightarrow> bool" where
  "reclaimable w e \<longleftrightarrow> wk_is_completed e \<and> wk_is_copied e \<and> wk_nsecs_target e \<le> latest_nsecs w"

partial_function (option) reclaim_scan :: "io_worker \<Rightarrow> nat \<Rightarrow> nat \<Rightarrow> nat option" where
  "reclaim_scan w cur last_entry =
     (if cur = NIL then Some last_entry
      else do {
        e \<leftarrow> idx (work_queue w) cur;
        if reclaimable w e then reclaim_scan w (wk_next e) cur else Some last_entry })"

text \<open>The body of the loop of \<open>__reclaim_completed_reqs\<close>, for one worker.\<close>

definition reclaim_worker :: "io_worker \<Rightarrow> io_worker option" where
  "reclaim_worker w =
     (let first_entry = io_seq w
      in do {
        last_entry \<leftarrow> reclaim_scan w first_entry NIL;
        if last_entry = NIL then Some w
        else do {
          l \<leftarrow> idx (work_queue w) last_entry;
          let w = w\<lparr>io_seq := wk_next l\<rparr>
          in do {
            w \<leftarrow> (if wk_next l \<noteq> NIL then upd_work (wk_next l) (\<lambda>e. e\<lparr>wk_prev := NIL\<rparr>) w else Some w);
            w \<leftarrow> upd_work last_entry (\<lambda>e. e\<lparr>wk_next := NIL\<rparr>) w;
            w \<leftarrow> upd_work first_entry (\<lambda>e. e\<lparr>wk_prev := free_seq_end w\<rparr>) w;
            w \<leftarrow> upd_work (free_seq_end w) (\<lambda>e. e\<lparr>wk_next := first_entry\<rparr>) w;
            Some (w\<lparr>free_seq_end := last_entry\<rparr>) } } })"

section \<open>Initialisation\<close>

definition zero_work :: io_work where
  "zero_work = \<lparr>wk_sqid = 0, wk_cqid = 0, wk_sq_entry = 0, wk_command_id = 0, wk_nsecs_start = 0, wk_nsecs_target = 0,
     wk_nsecs_enqueue = 0, wk_is_copied = False, wk_is_completed = False, wk_status = 0, wk_result0 = 0, wk_result1 = 0,
     wk_is_internal = False, wk_buffer = 0, wk_release = 0, wk_next = 0, wk_prev = 0\<rparr>"

definition init_worker :: "nat \<Rightarrow> io_worker" where
  "init_worker i =
     (let q = map (\<lambda>i. zero_work\<lparr>wk_next := i + 1, wk_prev := dec32 i\<rparr>) [0..<NR_MAX_PARALLEL_IO]
      in \<lparr>work_queue = modl q (NR_MAX_PARALLEL_IO - 1) (\<lambda>e. e\<lparr>wk_next := NIL\<rparr>),
          free_seq = 0, free_seq_end = NR_MAX_PARALLEL_IO - 1, io_seq = NIL, io_seq_end = NIL, latest_nsecs = 0, worker_id = i\<rparr>)"

section \<open>Linked lists in the array\<close>

text \<open>\<open>path q p xs r\<close>: from the index \<open>p\<close> the links \<open>next\<close> lead through the entries \<open>xs\<close> to the index \<open>r\<close>; \<open>prevs q p xs\<close>: the links \<open>prev\<close>
  lead back through \<open>xs\<close> to \<open>p\<close>.\<close>

fun path :: "io_work list \<Rightarrow> nat \<Rightarrow> nat list \<Rightarrow> nat \<Rightarrow> bool" where
  "path q p [] r \<longleftrightarrow> p = r"
| "path q p (x # xs) r \<longleftrightarrow> p = x \<and> path q (wk_next (q ! x)) xs r"

fun prevs :: "io_work list \<Rightarrow> nat \<Rightarrow> nat list \<Rightarrow> bool" where
  "prevs q p [] \<longleftrightarrow> True"
| "prevs q p (x # xs) \<longleftrightarrow> wk_prev (q ! x) = p \<and> prevs q x xs"

definition last_of :: "nat \<Rightarrow> nat list \<Rightarrow> nat" where
  "last_of p xs = (if xs = [] then p else last xs)"

lemma last_of_simps [simp]: "last_of p [] = p" "last_of p (xs @ [x]) = x" "last_of p (xs @ y # ys) = last_of y ys"
  by (simp_all add: last_of_def)

lemma last_of_Cons: "last_of p (x # xs) = last_of x xs"
  by (simp add: last_of_def)

lemma path_append [simp]: "path q p (xs @ ys) r \<longleftrightarrow> (\<exists>m. path q p xs m \<and> path q m ys r)"
  by (induction xs arbitrary: p) auto

lemma prevs_append [simp]: "prevs q p (xs @ ys) \<longleftrightarrow> prevs q p xs \<and> prevs q (last_of p xs) ys"
  by (induction xs arbitrary: p) (auto simp: last_of_def)

lemma path_cong: "\<forall>x \<in> set xs. wk_next (q' ! x) = wk_next (q ! x) \<Longrightarrow> path q' p xs r = path q p xs r"
  by (induction xs arbitrary: p) auto

lemma prevs_cong: "\<forall>x \<in> set xs. wk_prev (q' ! x) = wk_prev (q ! x) \<Longrightarrow> prevs q' p xs = prevs q p xs"
  by (induction xs arbitrary: p) auto

lemma path_hd: "path q p xs r \<Longrightarrow> p = (if xs = [] then r else hd xs)"
  by (cases xs) auto

text \<open>The representation: \<open>io\<close> are the requests in flight in order, \<open>fr\<close> the free entries. There is always a free entry.\<close>

definition wq_inv :: "io_worker \<Rightarrow> nat list \<Rightarrow> nat list \<Rightarrow> bool" where
  "wq_inv w io fr \<longleftrightarrow> length (work_queue w) = NR_MAX_PARALLEL_IO \<and>
     path (work_queue w) (io_seq w) io NIL \<and> prevs (work_queue w) NIL io \<and> (io \<noteq> [] \<longrightarrow> io_seq_end w = last io) \<and>
     path (work_queue w) (free_seq w) fr NIL \<and> fr \<noteq> [] \<and> free_seq_end w = last fr \<and>
     distinct (io @ fr) \<and> set (io @ fr) = {..<NR_MAX_PARALLEL_IO}"

lemma nil_big: "x < NR_MAX_PARALLEL_IO \<Longrightarrow> x \<noteq> NIL" "NR_MAX_PARALLEL_IO \<le> NIL"
  by (simp_all add: NR_MAX_PARALLEL_IO_def NIL_def)

lemma wq_in: "wq_inv w io fr \<Longrightarrow> x \<in> set io \<union> set fr \<Longrightarrow> x < length (work_queue w) \<and> x \<noteq> NIL"
  using nil_big(1) by (auto simp: wq_inv_def)

text \<open>The order: an entry whose time has come counts as due now.\<close>

definition due :: "io_worker \<Rightarrow> nat \<Rightarrow> nat" where
  "due w x = max (latest_nsecs w) (wk_nsecs_target (work_queue w ! x))"

definition sorted_io :: "io_worker \<Rightarrow> nat list \<Rightarrow> bool" where
  "sorted_io w io \<longleftrightarrow> sorted (map (due w) io)"

text \<open>Reference insertion: behind every entry that is due no later.\<close>

definition ins :: "('a \<Rightarrow> bool) \<Rightarrow> 'a \<Rightarrow> 'a list \<Rightarrow> 'a list" where
  "ins le e xs = rev (dropWhile (\<lambda>x. \<not> le x) (rev xs)) @ e # rev (takeWhile (\<lambda>x. \<not> le x) (rev xs))"

lemma ins_split: "\<exists>ys zs. xs = ys @ zs \<and> ins le e xs = ys @ e # zs \<and> (\<forall>z \<in> set zs. \<not> le z) \<and> (ys \<noteq> [] \<longrightarrow> le (last ys))"
proof -
  let ?d = "dropWhile (\<lambda>x. \<not> le x) (rev xs)" and ?t = "takeWhile (\<lambda>x. \<not> le x) (rev xs)"
  have "rev xs = ?t @ ?d" by simp
  then have "xs = rev ?d @ rev ?t" by (metis rev_append rev_rev_ident)
  moreover have "\<forall>z \<in> set (rev ?t). \<not> le z" by (auto dest: set_takeWhileD)
  moreover have "rev ?d \<noteq> [] \<longrightarrow> le (last (rev ?d))" using hd_dropWhile [of "\<lambda>x. \<not> le x" "rev xs"] by (simp add: last_rev)
  ultimately show ?thesis unfolding ins_def by blast
qed

lemma map_ins: "map f (ins (\<lambda>x. le (f x)) e xs) = ins le (f e) (map f xs)"
  by (simp add: ins_def rev_map takeWhile_map dropWhile_map comp_def)

lemma length_ins [simp]: "length (ins le e xs) = Suc (length xs)"
  using ins_split [of xs le e] by auto

lemma set_ins [simp]: "set (ins le e xs) = insert e (set xs)"
  using ins_split [of xs le e] by auto

lemma distinct_ins [simp]: "e \<notin> set xs \<Longrightarrow> distinct (ins le e xs) = distinct xs"
  using ins_split [of xs le e] by auto

lemma ins_sorted:
  fixes k :: "'a \<Rightarrow> nat"
  assumes "sorted (map k xs)"
  shows "sorted (map k (ins (\<lambda>x. k x \<le> k e) e xs))"
proof -
  obtain ys zs where s: "xs = ys @ zs" "ins (\<lambda>x. k x \<le> k e) e xs = ys @ e # zs" "\<forall>z \<in> set zs. \<not> k z \<le> k e" "ys \<noteq> [] \<longrightarrow> k (last ys) \<le> k e"
    using ins_split [of xs "\<lambda>x. k x \<le> k e" e] by blast
  have "k y \<le> k e" if y: "y \<in> set ys" for y
  proof -
    obtain vs v where v: "ys = vs @ [v]" using y by (cases ys rule: rev_cases) auto
    then have "k y \<le> k v" using assms y s(1) by (auto simp: sorted_append)
    then show ?thesis using s(4) v by simp
  qed
  then show ?thesis using assms s by (auto simp: sorted_append)
qed

end
