(* ===== verification/Io_Dispatch.thy ===== *)
theory Io_Dispatch
  imports Work_Queue
begin

text \<open>
  The dispatcher and the I/O workers (\<open>io.c\<close>): fetching commands from a submission queue, scheduling them
  on the work queue of a worker with the completion time that the namespace computes, posting completion entries and
  taking note of the doorbells of the completion queues.

  The handler \<open>proc_io_cmd\<close> of a namespace is a function pointer in the code and a parameter \<open>proc\<close> here; the internal
  operations that it schedules are a list in its result. So are \<open>rel\<close>, which gives bytes of write buffer back, and
  \<open>perform\<close>, which copies the data of a command in the memory \<open>dmem\<close> (theory \<open>Prp\<close>). The entries of a queue are those of its mapped pages in one list;
  a queue keeps the address of its first page too, for the theory \<open>Controller\<close>, which reads the pages of the host before each doorbell.
  The readings of the clocks are a sequence; the wall clock of the worker is read as such, not as \<open>local_clock() + delta\<close>.
\<close>

section \<open>Data\<close>

record nvmev_sq_stat =
  nr_dispatched :: nat
  nr_dispatch :: nat
  nr_in_flight :: nat
  max_nr_in_flight :: nat
  total_io :: nat

record submission_queue =
  sq_qid :: nat
  sq_cqid :: nat
  sq_size :: nat
  sq_st :: nvmev_sq_stat
  sq_entries :: "nvme_command list"
  sq_base :: nat

record nvme_completion =
  ce_result0 :: nat
  ce_result1 :: nat
  ce_sq_head :: nat
  ce_sq_id :: nat
  ce_command_id :: nat
  ce_status :: nat

record completion_queue =
  cq_qid :: nat
  cq_irq_vector :: nat
  cq_irq_enabled :: bool
  cq_interrupt_ready :: bool
  cq_size :: nat
  cq_phase :: nat
  cq_head :: nat
  cq_tail :: int
  cq_entries :: "nvme_completion list"
  cq_base :: nat

record ('ns, 'm) nvmev_dev =
  io_workers :: "io_worker list"
  io_worker_turn :: nat
  nr_io_workers :: nat
  nspaces :: "'ns list"
  sqes :: "submission_queue option list"
  cqes :: "completion_queue option list"
  dmem :: 'm
  dclk :: "nat \<Rightarrow> nat"
  dtick :: nat

type_synonym 'ns proc_io_cmd = "'ns \<Rightarrow> nvmev_request \<Rightarrow> nvmev_result \<Rightarrow> (bool \<times> nvmev_result \<times> internal_op list \<times> 'ns) option"

text \<open>A queue that is not there is a NULL pointer.\<close>

definition ptr :: "'a option list \<Rightarrow> nat \<Rightarrow> 'a option" where
  "ptr qs i = do { q \<leftarrow> idx qs i; q }"

definition read_clk :: "('ns, 'm) nvmev_dev \<Rightarrow> nat \<times> ('ns, 'm) nvmev_dev" where
  "read_clk dev = (dclk dev (dtick dev), dev\<lparr>dtick := dtick dev + 1\<rparr>)"

definition upd_worker :: "nat \<Rightarrow> (io_worker \<Rightarrow> io_worker option) \<Rightarrow> ('ns, 'm) nvmev_dev \<Rightarrow> ('ns, 'm) nvmev_dev option" where
  "upd_worker k f dev = do {
     w \<leftarrow> idx (io_workers dev) k;
     w \<leftarrow> f w;
     Some (dev\<lparr>io_workers := (io_workers dev)[k := w]\<rparr>) }"

section \<open>Scheduling a request on a worker\<close>

definition get_io_worker :: "('ns, 'm) nvmev_dev \<Rightarrow> nat \<Rightarrow> nat option" where
  "get_io_worker dev sqid = do { NVMEV_ASSERT (nr_io_workers dev \<noteq> 0); Some (dec32 sqid mod nr_io_workers dev) }"

text \<open>The result inside is the worker and the entry; \<open>None\<close> there is the NULL pointer of a full work queue.\<close>

definition allocate_work_queue_entry :: "nat \<Rightarrow> ('ns, 'm) nvmev_dev \<Rightarrow> ((nat \<times> nat) option \<times> ('ns, 'm) nvmev_dev) option" where
  "allocate_work_queue_entry sqid dev = do {
     k \<leftarrow> get_io_worker dev sqid;
     w \<leftarrow> idx (io_workers dev) k;
     r \<leftarrow> allocate_entry w;
     Some (case r of None \<Rightarrow> (None, dev)
       | Some (e, w) \<Rightarrow> (Some (k, e), dev\<lparr>io_worker_turn := (if k + 1 = nr_io_workers dev then 0 else k + 1),
                                          io_workers := (io_workers dev)[k := w]\<rparr>)) }"

definition fill_req :: "nat \<Rightarrow> nat \<Rightarrow> nat \<Rightarrow> nat \<Rightarrow> nat \<Rightarrow> nat \<Rightarrow> nvmev_result \<Rightarrow> io_work \<Rightarrow> io_work" where
  "fill_req sqid cqid sq_entry cid nsecs_start now ret w =
     w\<lparr>wk_sqid := sqid, wk_cqid := cqid, wk_sq_entry := sq_entry, wk_command_id := cid, wk_nsecs_start := nsecs_start,
       wk_nsecs_enqueue := now, wk_nsecs_target := rs_nsecs_target ret, wk_status := rs_status ret,
       wk_is_completed := False, wk_is_copied := False, wk_prev := NIL, wk_next := NIL, wk_is_internal := False\<rparr>"

definition enqueue_io_req :: "nat \<Rightarrow> nat \<Rightarrow> nat \<Rightarrow> nat \<Rightarrow> nvmev_result \<Rightarrow> ('ns, 'm) nvmev_dev \<Rightarrow> ('ns, 'm) nvmev_dev option" where
  "enqueue_io_req sqid cqid sq_entry nsecs_start ret dev = do {
     (r, dev) \<leftarrow> allocate_work_queue_entry sqid dev;
     case r of None \<Rightarrow> Some dev
     | Some (k, e) \<Rightarrow> do {
         sq \<leftarrow> ptr (sqes dev) sqid;
         cmd \<leftarrow> idx (sq_entries sq) sq_entry;
         let (now, dev) = read_clk dev
         in upd_worker k (\<lambda>w. do {
              w \<leftarrow> upd_work e (fill_req sqid cqid sq_entry (command_id cmd) nsecs_start now ret) w;
              insert_req_sorted e w (rs_nsecs_target ret) }) dev } }"

definition fill_internal :: "nat \<Rightarrow> nat \<Rightarrow> nat \<Rightarrow> nat \<Rightarrow> nat \<Rightarrow> io_work \<Rightarrow> io_work" where
  "fill_internal sqid now nsecs_target buf release w =
     w\<lparr>wk_sqid := sqid, wk_nsecs_start := now, wk_nsecs_enqueue := now, wk_nsecs_target := nsecs_target,
       wk_is_completed := False, wk_is_copied := True, wk_prev := NIL, wk_next := NIL, wk_is_internal := True,
       wk_buffer := buf, wk_release := release\<rparr>"

definition schedule_internal_operation :: "nat \<Rightarrow> internal_op \<Rightarrow> ('ns, 'm) nvmev_dev \<Rightarrow> ('ns, 'm) nvmev_dev option" where
  "schedule_internal_operation buf iop dev = do {
     (r, dev) \<leftarrow> allocate_work_queue_entry (io_sqid iop) dev;
     case r of None \<Rightarrow> Some dev
     | Some (k, e) \<Rightarrow>
         let (now, dev) = read_clk dev
         in upd_worker k (\<lambda>w. do {
              w \<leftarrow> upd_work e (fill_internal (io_sqid iop) now (io_nsecs iop) buf (io_release iop)) w;
              insert_req_sorted e w (io_nsecs iop) }) dev }"

definition reclaim_completed_reqs :: "('ns, 'm) nvmev_dev \<Rightarrow> ('ns, 'm) nvmev_dev option" where
  "reclaim_completed_reqs dev = foldM (\<lambda>turn. upd_worker turn reclaim_worker) [0..<nr_io_workers dev] dev"

section \<open>Submission queues\<close>

definition cmd_io_size :: "nat \<Rightarrow> nvme_command \<Rightarrow> nat" where
  "cmd_io_size lba_bits c = (rw_length c + 1) * 2 ^ lba_bits"

text \<open>The result is the size of the command, or \<open>None\<close> if the namespace does not take it now.\<close>

definition proc_io :: "'ns proc_io_cmd \<Rightarrow> nat \<Rightarrow> nat \<Rightarrow> nat \<Rightarrow> ('ns, 'm) nvmev_dev \<Rightarrow> (nat option \<times> ('ns, 'm) nvmev_dev) option" where
  "proc_io proc lba_bits sqid sq_entry dev = do {
     sq \<leftarrow> ptr (sqes dev) sqid;
     let (nsecs_start, dev) = read_clk dev
     in do {
       cmd \<leftarrow> idx (sq_entries sq) sq_entry;
       let i = dec32 (nsid cmd)
       in do {
         ns \<leftarrow> idx (nspaces dev) i;
         (taken, ret, ops, ns) \<leftarrow> proc ns \<lparr>rq_cmd = cmd, rq_sq_id = sqid, rq_nsecs_start = nsecs_start\<rparr>
            \<lparr>rs_status = NVME_SC_SUCCESS, rs_nsecs_target = nsecs_start\<rparr>;
         dev \<leftarrow> foldM (schedule_internal_operation i) ops (dev\<lparr>nspaces := (nspaces dev)[i := ns]\<rparr>);
         if \<not> taken then Some (None, dev)
         else do {
           dev \<leftarrow> enqueue_io_req sqid (sq_cqid sq) sq_entry nsecs_start ret dev;
           dev \<leftarrow> reclaim_completed_reqs dev;
           Some (Some (cmd_io_size lba_bits cmd), dev) } } } }"

definition upd_sq :: "nat \<Rightarrow> (submission_queue \<Rightarrow> submission_queue) \<Rightarrow> ('ns, 'm) nvmev_dev \<Rightarrow> ('ns, 'm) nvmev_dev option" where
  "upd_sq sqid f dev = do { sq \<leftarrow> ptr (sqes dev) sqid; Some (dev\<lparr>sqes := (sqes dev)[sqid := Some (f sq)]\<rparr>) }"

definition count_io :: "nat \<Rightarrow> nvmev_sq_stat \<Rightarrow> nvmev_sq_stat" where
  "count_io io_size st = st\<lparr>nr_dispatched := inc32 (nr_dispatched st), nr_in_flight := inc32 (nr_in_flight st),
     total_io := u64 (total_io st + io_size)\<rparr>"

text \<open>The loop over the new entries: \<open>n\<close> are left, \<open>seq\<close> are done.\<close>

fun sq_loop :: "'ns proc_io_cmd \<Rightarrow> nat \<Rightarrow> nat \<Rightarrow> nat \<Rightarrow> nat \<Rightarrow> nat \<Rightarrow> ('ns, 'm) nvmev_dev \<Rightarrow> (nat \<times> ('ns, 'm) nvmev_dev) option" where
  "sq_loop proc lba_bits sqid 0 seq sq_entry dev = Some (seq, dev)"
| "sq_loop proc lba_bits sqid (Suc n) seq sq_entry dev = do {
     (r, dev) \<leftarrow> proc_io proc lba_bits sqid sq_entry dev;
     case r of None \<Rightarrow> Some (seq, dev)
     | Some io_size \<Rightarrow> do {
         sq \<leftarrow> ptr (sqes dev) sqid;
         dev \<leftarrow> upd_sq sqid (\<lambda>sq. sq\<lparr>sq_st := count_io io_size (sq_st sq)\<rparr>) dev;
         sq_loop proc lba_bits sqid n (Suc seq) (if Suc sq_entry = sq_size sq then 0 else Suc sq_entry) dev } }"

text \<open>\<open>max_t(int, a, b)\<close> of two unsigned counters: the comparison is signed.\<close>

definition s32 :: "nat \<Rightarrow> int" where "s32 x = (if u32 x < 2 ^ 31 then int (u32 x) else int (u32 x) - 2 ^ 32)"

definition max_int :: "nat \<Rightarrow> nat \<Rightarrow> nat" where "max_int a b = (if s32 a > s32 b then a else b)"

definition end_dispatch :: "nvmev_sq_stat \<Rightarrow> nvmev_sq_stat" where
  "end_dispatch st = st\<lparr>nr_dispatch := inc32 (nr_dispatch st), max_nr_in_flight := max_int (max_nr_in_flight st) (nr_in_flight st)\<rparr>"

definition nvmev_proc_io_sq :: "'ns proc_io_cmd \<Rightarrow> nat \<Rightarrow> nat \<Rightarrow> nat \<Rightarrow> nat \<Rightarrow> ('ns, 'm) nvmev_dev \<Rightarrow> (nat \<times> ('ns, 'm) nvmev_dev) option" where
  "nvmev_proc_io_sq proc lba_bits sqid new_db old_db dev = do {
     q \<leftarrow> idx (sqes dev) sqid;
     case q of None \<Rightarrow> Some (old_db, dev)
     | Some sq \<Rightarrow> do {
         let num_proc = (if new_db < old_db then new_db + sq_size sq - old_db else new_db - old_db)
         in do {
           (seq, dev) \<leftarrow> sq_loop proc lba_bits sqid num_proc 0 old_db dev;
           dev \<leftarrow> upd_sq sqid (\<lambda>sq. sq\<lparr>sq_st := end_dispatch (sq_st sq)\<rparr>) dev;
           NVMEV_ASSERT (sq_size sq \<noteq> 0);
           Some ((old_db + seq) mod sq_size sq, dev) } } }"

section \<open>Completion queues\<close>

text \<open>An entry whose submission queue is gone is skipped.\<close>

definition count_completion :: "nvme_completion \<Rightarrow> ('ns, 'm) nvmev_dev \<Rightarrow> ('ns, 'm) nvmev_dev option" where
  "count_completion e dev = do {
     q \<leftarrow> idx (sqes dev) (ce_sq_id e);
     case q of None \<Rightarrow> Some dev
     | Some _ \<Rightarrow> upd_sq (ce_sq_id e) (\<lambda>sq. sq\<lparr>sq_st := (sq_st sq)\<lparr>nr_in_flight := dec32 (nr_in_flight (sq_st sq))\<rparr>\<rparr>) dev }"

text \<open>The loop of \<open>nvmev_proc_io_cq\<close> from \<open>i\<close> to \<open>new_db\<close>. The entry is read before the index is checked.\<close>

partial_function (option) cq_loop :: "completion_queue \<Rightarrow> int \<Rightarrow> int \<Rightarrow> ('ns, 'm) nvmev_dev \<Rightarrow> ('ns, 'm) nvmev_dev option" where
  "cq_loop cq new_db i dev =
     (if i = new_db then Some dev
      else if i < 0 then None
      else do {
        e \<leftarrow> idx (cq_entries cq) (nat i);
        if int (cq_size cq) \<le> i then cq_loop cq new_db 0 dev
        else do {
          dev \<leftarrow> count_completion e dev;
          cq_loop cq new_db (i + 1) dev } })"

definition nvmev_proc_io_cq :: "nat \<Rightarrow> int \<Rightarrow> int \<Rightarrow> ('ns, 'm) nvmev_dev \<Rightarrow> ('ns, 'm) nvmev_dev option" where
  "nvmev_proc_io_cq cqid new_db old_db dev = do {
     cq \<leftarrow> ptr (cqes dev) cqid;
     dev \<leftarrow> cq_loop cq new_db old_db dev;
     Some (dev\<lparr>cqes := (cqes dev)[cqid := Some (cq\<lparr>cq_tail := (if new_db = - 1 then int (cq_size cq) - 1 else new_db - 1)\<rparr>)]\<rparr>) }"

definition make_cqe :: "nat \<Rightarrow> io_work \<Rightarrow> nvme_completion" where
  "make_cqe phase w = \<lparr>ce_result0 = wk_result0 w, ce_result1 = wk_result1 w, ce_sq_head = u16 (wk_sq_entry w), ce_sq_id = u16 (wk_sqid w),
     ce_command_id = u16 (wk_command_id w), ce_status = u16 (or phase (2 * wk_status w))\<rparr>"

definition post :: "io_work \<Rightarrow> completion_queue \<Rightarrow> completion_queue option" where
  "post w cq = do {
     _ \<leftarrow> idx (cq_entries cq) (cq_head cq);
     let wrap = Suc (cq_head cq) = cq_size cq
     in Some (cq\<lparr>cq_entries := (cq_entries cq)[cq_head cq := make_cqe (cq_phase cq) w],
                 cq_head := (if wrap then 0 else Suc (cq_head cq)),
                 cq_phase := (if wrap then (if cq_phase cq = 0 then 1 else 0) else cq_phase cq), cq_interrupt_ready := True\<rparr>) }"

definition fill_cq_result :: "io_work \<Rightarrow> ('ns, 'm) nvmev_dev \<Rightarrow> ('ns, 'm) nvmev_dev option" where
  "fill_cq_result w dev = do {
     cq \<leftarrow> ptr (cqes dev) (wk_cqid w);
     cq \<leftarrow> post w cq;
     Some (dev\<lparr>cqes := (cqes dev)[wk_cqid w := Some cq]\<rparr>) }"

section \<open>The worker\<close>

text \<open>\<open>__do_perform_io(w->sqid, w->sq_entry)\<close>: the command is read from its queue again.\<close>

definition copy_data :: "(nvme_command \<Rightarrow> 'm \<Rightarrow> 'm option) \<Rightarrow> io_work \<Rightarrow> ('ns, 'm) nvmev_dev \<Rightarrow> ('ns, 'm) nvmev_dev option" where
  "copy_data perform w dev = do {
     sq \<leftarrow> ptr (sqes dev) (wk_sqid w);
     cmd \<leftarrow> idx (sq_entries sq) (wk_sq_entry w);
     m \<leftarrow> perform cmd (dmem dev);
     Some (dev\<lparr>dmem := m\<rparr>) }"

text \<open>One iteration of the inner loop of \<open>nvmev_io_worker\<close>, for worker \<open>k\<close> at the entry \<open>cur\<close>.\<close>

definition work_step :: "(nvme_command \<Rightarrow> 'm \<Rightarrow> 'm option) \<Rightarrow> (nat \<Rightarrow> 'ns \<Rightarrow> 'ns) \<Rightarrow> nat \<Rightarrow> nat \<Rightarrow>
    ('ns, 'm) nvmev_dev \<Rightarrow> ('ns, 'm) nvmev_dev option" where
  "work_step perform rel k cur dev = (let (curr_nsecs, dev) = read_clk dev in do {
     dev \<leftarrow> upd_worker k (\<lambda>wk. Some (wk\<lparr>latest_nsecs := curr_nsecs\<rparr>)) dev;
     wk \<leftarrow> idx (io_workers dev) k;
     w \<leftarrow> idx (work_queue wk) cur;
     if wk_is_completed w then Some dev
     else do {
       dev \<leftarrow> (if wk_is_copied w then Some dev
         else do {
           dev \<leftarrow> (if wk_is_internal w then Some dev else copy_data perform w dev);
           upd_worker k (upd_work cur (\<lambda>w. w\<lparr>wk_is_copied := True\<rparr>)) dev });
       if wk_nsecs_target w \<le> curr_nsecs then do {
         dev \<leftarrow> (if wk_is_internal w then do {
                  ns \<leftarrow> idx (nspaces dev) (wk_buffer w);
                  Some (dev\<lparr>nspaces := (nspaces dev)[wk_buffer w := rel (wk_release w) ns]\<rparr>) }
                else fill_cq_result w dev);
         upd_worker k (upd_work cur (\<lambda>w. w\<lparr>wk_is_completed := True\<rparr>)) dev }
       else Some dev } })"

text \<open>The inner loop, from the entry \<open>cur\<close> along the links.\<close>

partial_function (option) work_loop :: "(nvme_command \<Rightarrow> 'm \<Rightarrow> 'm option) \<Rightarrow> (nat \<Rightarrow> 'ns \<Rightarrow> 'ns) \<Rightarrow> nat \<Rightarrow> nat \<Rightarrow>
    ('ns, 'm) nvmev_dev \<Rightarrow> ('ns, 'm) nvmev_dev option" where
  "work_loop perform rel k cur dev =
     (if cur = NIL then Some dev
      else do {
        dev \<leftarrow> work_step perform rel k cur dev;
        wk \<leftarrow> idx (io_workers dev) k;
        w \<leftarrow> idx (work_queue wk) cur;
        work_loop perform rel k (wk_next w) dev })"

definition work_pass :: "(nvme_command \<Rightarrow> 'm \<Rightarrow> 'm option) \<Rightarrow> (nat \<Rightarrow> 'ns \<Rightarrow> 'ns) \<Rightarrow> nat \<Rightarrow>
    ('ns, 'm) nvmev_dev \<Rightarrow> ('ns, 'm) nvmev_dev option" where
  "work_pass perform rel k dev = do {
     wk \<leftarrow> idx (io_workers dev) k;
     work_loop perform rel k (io_seq wk) dev }"

text \<open>The interrupts of the worker: the queues that belong to it, are enabled and have news; the result are the vectors
  that are signalled. The lock is free here.\<close>

definition irq_step :: "nat \<Rightarrow> nat \<Rightarrow> nat list \<times> ('ns, 'm) nvmev_dev \<Rightarrow> (nat list \<times> ('ns, 'm) nvmev_dev) option" where
  "irq_step k qidx st = (let (sent, dev) = st in do {
     q \<leftarrow> idx (cqes dev) qidx;
     w \<leftarrow> get_io_worker dev qidx;
     Some (if w \<noteq> k then (sent, dev)
       else (case q of None \<Rightarrow> (sent, dev)
         | Some cq \<Rightarrow> if cq_irq_enabled cq \<and> cq_interrupt_ready cq
             then (sent @ [cq_irq_vector cq], dev\<lparr>cqes := (cqes dev)[qidx := Some (cq\<lparr>cq_interrupt_ready := False\<rparr>)]\<rparr>)
             else (sent, dev))) })"

definition irq_pass :: "nat \<Rightarrow> nat \<Rightarrow> ('ns, 'm) nvmev_dev \<Rightarrow> (nat list \<times> ('ns, 'm) nvmev_dev) option" where
  "irq_pass nr_cq k dev = foldM (irq_step k) [1..<nr_cq + 1] ([], dev)"

text \<open>\<open>NVMEV_IO_WORKER_INIT\<close>\<close>

definition nvmev_io_worker_init :: "('ns, 'm) nvmev_dev \<Rightarrow> ('ns, 'm) nvmev_dev" where
  "nvmev_io_worker_init dev = dev\<lparr>io_workers := map init_worker [0..<nr_io_workers dev], io_worker_turn := 0\<rparr>"

end
