(* ===== verification/Work_Queue_Laws.thy ===== *)
theory Work_Queue_Laws
  imports Work_Queue
begin

text \<open>
  The work queue implements its abstraction, the list of requests in flight and the list of free entries: insertion is
  insertion behind every entry that is due no later, allocation takes the first free entry and keeps one, reclaim
  moves the completed prefix of the list to the end of the free entries. Entries are never lost nor duplicated.
\<close>

lemma upd_work_in:
  "i < length (work_queue w) \<Longrightarrow> upd_work i f w = Some (w\<lparr>work_queue := (work_queue w)[i := f (work_queue w ! i)]\<rparr>)"
  by (simp add: upd_work_def arr_simps)

section \<open>Insertion\<close>

lemma find_pos_ok:
  assumes "prevs (work_queue w) NIL xs" "\<forall>x \<in> set xs. x < length (work_queue w) \<and> x \<noteq> NIL"
  shows "find_pos w t (last_of NIL xs) =
    Some (last_of NIL (rev (dropWhile (\<lambda>x. \<not> (wk_nsecs_target (work_queue w ! x) \<le> latest_nsecs w \<or> wk_nsecs_target (work_queue w ! x) \<le> t)) (rev xs))))"
  using assms
proof (induction xs rule: rev_induct)
  case Nil
  then show ?case by (subst find_pos.simps) simp
next
  case (snoc x xs)
  have p: "prevs (work_queue w) NIL xs" "wk_prev (work_queue w ! x) = last_of NIL xs" using snoc.prems(1) by simp_all
  have x: "x < length (work_queue w)" "x \<noteq> NIL" using snoc.prems(2) by simp_all
  have "\<forall>x \<in> set xs. x < length (work_queue w) \<and> x \<noteq> NIL" using snoc.prems(2) by simp
  note IH = snoc.IH [OF p(1) this]
  show ?case
  proof (cases "wk_nsecs_target (work_queue w ! x) \<le> latest_nsecs w \<or> wk_nsecs_target (work_queue w ! x) \<le> t")
    case True
    then show ?thesis using x by (subst find_pos.simps) (auto simp: arr_simps)
  next
    case False
    then have "find_pos w t (last_of NIL (xs @ [x])) = find_pos w t (last_of NIL xs)"
      using x p(2) by (subst find_pos.simps) (simp add: arr_simps)
    then show ?thesis using IH False by simp
  qed
qed

text \<open>Linking a new entry \<open>e\<close> between two parts of a list.\<close>

lemma link_between:
  assumes p: "path q s (ys @ zs) NIL" "prevs q NIL (ys @ zs)" and d: "distinct (ys @ zs)" "e \<notin> set (ys @ zs)"
    and nx: "\<And>x. x \<in> insert e (set (ys @ zs)) \<Longrightarrow> wk_next (q' ! x) =
      (if x = e then (if zs = [] then NIL else hd zs) else if ys \<noteq> [] \<and> x = last ys then e else wk_next (q ! x))"
    and pv: "\<And>x. x \<in> insert e (set (ys @ zs)) \<Longrightarrow> wk_prev (q' ! x) =
      (if x = e then last_of NIL ys else if zs \<noteq> [] \<and> x = hd zs then e else wk_prev (q ! x))"
  shows "path q' (if ys = [] then e else s) (ys @ e # zs) NIL" "prevs q' NIL (ys @ e # zs)"
proof -
  obtain m where m: "path q s ys m" "path q m zs NIL" using p(1) by auto
  have mz: "m = (if zs = [] then NIL else hd zs)" using path_hd [OF m(2)] by simp
  have zn: "wk_next (q' ! x) = wk_next (q ! x)" if x: "x \<in> set zs" for x
  proof -
    have "x \<noteq> e" using d(2) x by auto
    moreover have "x \<notin> set ys" using d(1) x by auto
    then have "ys \<noteq> [] \<Longrightarrow> x \<noteq> last ys" using last_in_set [of ys] by blast
    ultimately show ?thesis using nx [of x] x by (cases "ys = []") simp_all
  qed
  have Z: "path q' m zs NIL" using m(2) path_cong [of zs q' q m NIL] zn by blast
  have en: "wk_next (q' ! e) = m" using nx [of e] mz by simp
  show "path q' (if ys = [] then e else s) (ys @ e # zs) NIL"
  proof (cases ys rule: rev_cases)
    case Nil
    then show ?thesis using Z en by simp
  next
    case (snoc us y)
    have Y: "path q s us y" "wk_next (q ! y) = m" using m(1) snoc by auto
    have "wk_next (q' ! x) = wk_next (q ! x)" if x: "x \<in> set us" for x
    proof -
      have "x \<noteq> e" "x \<noteq> y" using d x snoc by auto
      then show ?thesis using nx [of x] x snoc by simp
    qed
    then have P: "path q' s us y" using Y(1) path_cong [of us q' q s y] by blast
    have "wk_next (q' ! y) = e" using nx [of y] d(2) snoc by (cases "y = e") simp_all
    then show ?thesis using P Z en snoc by simp
  qed
  have pz: "prevs q (last_of NIL ys) zs" "prevs q NIL ys" using p(2) by simp_all
  have "wk_prev (q' ! x) = wk_prev (q ! x)" if x: "x \<in> set ys" for x
  proof -
    have "x \<noteq> e" using d(2) x by auto
    moreover have "x \<notin> set zs" using d(1) x by auto
    then have "zs \<noteq> [] \<Longrightarrow> x \<noteq> hd zs" using hd_in_set [of zs] by blast
    ultimately show ?thesis using pv [of x] x by (cases "zs = []") simp_all
  qed
  then have Y: "prevs q' NIL ys" using pz(2) prevs_cong [of ys q' q NIL] by blast
  have ep: "wk_prev (q' ! e) = last_of NIL ys" using pv [of e] by simp
  show "prevs q' NIL (ys @ e # zs)"
  proof (cases zs)
    case Nil
    then show ?thesis using Y ep by simp
  next
    case (Cons z us)
    have "wk_prev (q' ! x) = wk_prev (q ! x)" if x: "x \<in> set us" for x
    proof -
      have "x \<noteq> e" "x \<noteq> z" using d x Cons by auto
      then show ?thesis using pv [of x] x Cons by simp
    qed
    then have P: "prevs q' z us" using pz(1) Cons prevs_cong [of us q' q z] by simp
    have "wk_prev (q' ! z) = e" using pv [of z] d(2) Cons by (cases "z = e") simp_all
    then show ?thesis using Y ep P Cons by simp
  qed
qed

text \<open>An entry that is about to be inserted: it is on neither list and its links are cleared.\<close>

definition taken :: "io_worker \<Rightarrow> nat list \<Rightarrow> nat list \<Rightarrow> nat \<Rightarrow> bool" where
  "taken w io fr e \<longleftrightarrow> length (work_queue w) = NR_MAX_PARALLEL_IO \<and>
     path (work_queue w) (io_seq w) io NIL \<and> prevs (work_queue w) NIL io \<and> (io \<noteq> [] \<longrightarrow> io_seq_end w = last io) \<and>
     path (work_queue w) (free_seq w) fr NIL \<and> fr \<noteq> [] \<and> free_seq_end w = last fr \<and>
     distinct (e # io @ fr) \<and> set (e # io @ fr) = {..<NR_MAX_PARALLEL_IO} \<and>
     wk_next (work_queue w ! e) = NIL \<and> wk_prev (work_queue w ! e) = NIL"

text \<open>What an insertion changes of the entries: links only.\<close>

definition same_work :: "io_work \<Rightarrow> io_work \<Rightarrow> bool" where
  "same_work a b \<longleftrightarrow> a\<lparr>wk_next := 0, wk_prev := 0\<rparr> = b\<lparr>wk_next := 0, wk_prev := 0\<rparr>"

definition only_links :: "io_worker \<Rightarrow> io_worker \<Rightarrow> bool" where
  "only_links w w' \<longleftrightarrow> length (work_queue w') = length (work_queue w) \<and> latest_nsecs w' = latest_nsecs w \<and> worker_id w' = worker_id w \<and>
     (\<forall>x < length (work_queue w). same_work (work_queue w' ! x) (work_queue w ! x))"

lemma same_work_simps [simp]:
  "same_work a a" "same_work (a\<lparr>wk_next := x\<rparr>) b = same_work a b" "same_work (a\<lparr>wk_prev := x\<rparr>) b = same_work a b"
  by (simp_all add: same_work_def)

lemma only_links_upd:
  assumes "only_links w w'" "\<And>e. same_work (f e) e"
  shows "only_links w (w'\<lparr>work_queue := (work_queue w')[i := f (work_queue w' ! i)]\<rparr>)"
proof -
  have tr: "same_work (f e) b" if "same_work e b" for e b
    using assms(2) [of e] that unfolding same_work_def by (rule trans)
  have "same_work ((work_queue w')[i := f (work_queue w' ! i)] ! x) (work_queue w ! x)" if x: "x < length (work_queue w)" for x
    using assms(1) x tr by (cases "x = i") (simp_all add: only_links_def)
  then show ?thesis using assms(1) by (simp add: only_links_def)
qed

lemma insert_req_sorted_ok:
  fixes target
  assumes t: "taken w io fr e"
  defines "le \<equiv> \<lambda>x. wk_nsecs_target (work_queue w ! x) \<le> latest_nsecs w \<or> wk_nsecs_target (work_queue w ! x) \<le> target"
  shows "\<exists>w'. insert_req_sorted e w target = Some w' \<and> wq_inv w' (ins le e io) fr \<and> only_links w w'"
proof -
  let ?q = "work_queue w"
  note T = t [unfolded taken_def]
  have len: "length ?q = NR_MAX_PARALLEL_IO" using T by simp
  have inN: "x < NR_MAX_PARALLEL_IO" if "x \<in> insert e (set io \<union> set fr)" for x using T that by auto
  have inq: "x < length ?q" "x \<noteq> NIL" if "x \<in> insert e (set io \<union> set fr)" for x
    using inN [OF that] nil_big(1) len by auto
  have ol: "only_links w w" by (simp add: only_links_def)
  have D: "distinct io" "e \<notin> set io" "distinct fr" "e \<notin> set fr" "set io \<inter> set fr = {}" using T by auto
  note P = ins_split [of io le e]
  obtain ys zs where s: "io = ys @ zs" "ins le e io = ys @ e # zs" "\<forall>z \<in> set zs. \<not> le z" "ys \<noteq> [] \<longrightarrow> le (last ys)" using P by blast
  have fin: "wq_inv w' (ins le e io) fr"
    if w': "length (work_queue w') = length ?q" "path (work_queue w') (io_seq w') (ys @ e # zs) NIL" "prevs (work_queue w') NIL (ys @ e # zs)"
      "io_seq_end w' = last (ys @ e # zs)" "free_seq w' = free_seq w" "free_seq_end w' = free_seq_end w"
      "\<forall>x \<in> set fr. wk_next (work_queue w' ! x) = wk_next (?q ! x)" for w'
  proof -
    have "path (work_queue w') (free_seq w') fr NIL" using T w'(5,7) path_cong [of fr "work_queue w'" ?q "free_seq w" NIL] by simp
    moreover have "distinct ((ys @ e # zs) @ fr)" "set ((ys @ e # zs) @ fr) = {..<NR_MAX_PARALLEL_IO}" using T s(1) by auto
    ultimately show ?thesis using T w' len s(2) by (simp add: wq_inv_def)
  qed
  show ?thesis
  proof (cases "io = []")
    case True
    then have "io_seq w = NIL" using T by simp
    then have ex: "insert_req_sorted e w target = Some (w\<lparr>io_seq := e, io_seq_end := e\<rparr>)" by (simp add: insert_req_sorted_def)
    have y: "ys = []" "zs = []" using s(1) True by simp_all
    have "wq_inv (w\<lparr>io_seq := e, io_seq_end := e\<rparr>) (ins le e io) fr"
      by (rule fin) (use T y in simp_all)
    moreover have "only_links w (w\<lparr>io_seq := e, io_seq_end := e\<rparr>)" by (simp add: only_links_def)
    ultimately show ?thesis using ex by blast
  next
    case ne: False
    have hd: "io_seq w = hd io" "io_seq_end w = last_of NIL io" using T ne path_hd [of ?q "io_seq w" io NIL] by (simp_all add: last_of_def)
    have sq: "io_seq w \<noteq> NIL" using hd(1) inq(2) ne by simp
    have fp: "find_pos w target (io_seq_end w) = Some (last_of NIL ys)"
    proof -
      have "\<forall>x \<in> set io. x < length ?q \<and> x \<noteq> NIL" using inq by blast
      from find_pos_ok [OF _ this, of target] T have
        "find_pos w target (last_of NIL io) = Some (last_of NIL (rev (dropWhile (\<lambda>x. \<not> le x) (rev io))))" by (simp add: le_def)
      moreover have "rev (dropWhile (\<lambda>x. \<not> le x) (rev io)) = ys"
      proof -
        have "dropWhile (\<lambda>x. \<not> le x) (rev zs @ rev ys) = dropWhile (\<lambda>x. \<not> le x) (rev ys)"
          using s(3) by (intro dropWhile_append2) auto
        also have "\<dots> = rev ys" using s(4) by (cases ys rule: rev_cases) simp_all
        finally show ?thesis using s(1) by simp
      qed
      ultimately show ?thesis using hd(2) by simp
    qed
    have ee: "e \<notin> set (ys @ zs)" "distinct (ys @ zs)" using D s(1) by simp_all
    have lnk: "path ?q (io_seq w) (ys @ zs) NIL" "prevs ?q NIL (ys @ zs)" using T s(1) by simp_all
    have le': "e < length ?q" using inq by simp
    have fin2: "wq_inv (w\<lparr>work_queue := q', io_seq := if ys = [] then e else io_seq w, io_seq_end := last (ys @ e # zs)\<rparr>) (ins le e io) fr"
      if lq: "length q' = length ?q"
        and nx: "\<And>x. x < length ?q \<Longrightarrow> wk_next (q' ! x) =
          (if x = e then (if zs = [] then NIL else hd zs) else if ys \<noteq> [] \<and> x = last ys then e else wk_next (?q ! x))"
        and pv: "\<And>x. x < length ?q \<Longrightarrow> wk_prev (q' ! x) =
          (if x = e then last_of NIL ys else if zs \<noteq> [] \<and> x = hd zs then e else wk_prev (?q ! x))" for q'
    proof -
      have i: "x < length ?q" if "x \<in> insert e (set (ys @ zs))" for x using inq(1) [of x] that s(1) by auto
      have L: "path q' (if ys = [] then e else io_seq w) (ys @ e # zs) NIL" "prevs q' NIL (ys @ e # zs)"
        by (rule link_between [OF lnk ee(2,1) nx [OF i] pv [OF i]]; assumption)+
      have f: "wk_next (q' ! x) = wk_next (?q ! x)" if x: "x \<in> set fr" for x
      proof -
        have "x \<noteq> e" "x \<notin> set ys" using D x s(1) by auto
        then have "x \<noteq> e" "ys \<noteq> [] \<Longrightarrow> x \<noteq> last ys" using last_in_set [of ys] by blast+
        then show ?thesis using nx [of x] inq(1) [of x] x by (cases "ys = []") simp_all
      qed
      define h where "h = (if ys = [] then e else io_seq w)"
      have "path q' h (ys @ e # zs) NIL" using L(1) by (simp only: h_def)
      then show ?thesis unfolding h_def [symmetric] by (intro fin) (use lq L(2) f in simp_all)
    qed
    show ?thesis
    proof (cases "ys = []")
      case True
      then obtain z us where z: "zs = z # us" "io_seq w = z" using s(1) hd(1) ne by (cases zs) auto
      have zl: "z < length ?q" "z \<noteq> e" using inq(1) s(1) z(1) ee(1) by auto
      define q1 where "q1 = ?q[z := (?q ! z)\<lparr>wk_prev := e\<rparr>]"
      define q2 where "q2 = q1[e := (q1 ! e)\<lparr>wk_next := z\<rparr>]"
      let ?w = "w\<lparr>work_queue := q2, io_seq := e\<rparr>"
      have ex: "insert_req_sorted e w target = Some ?w"
        using sq fp True z(2) zl(1) le' by (simp add: insert_req_sorted_def upd_work_in q1_def q2_def)
      have ep: "wk_prev (?q ! e) = NIL" using T by simp
      have "wq_inv (w\<lparr>work_queue := q2, io_seq := if ys = [] then e else io_seq w, io_seq_end := last (ys @ e # zs)\<rparr>) (ins le e io) fr"
        by (rule fin2) (use True z zl le' ep in \<open>simp_all add: nth_list_update q1_def q2_def\<close>)
      moreover have "io_seq_end w = last zs" using hd(2) s(1) True ne by (simp add: last_of_def)
      then have "w\<lparr>work_queue := q2, io_seq := if ys = [] then e else io_seq w, io_seq_end := last (ys @ e # zs)\<rparr> = ?w"
        using True z(1) by (intro io_worker.equality) simp_all
      moreover have "only_links w ?w"
      proof -
        have "only_links w (w\<lparr>work_queue := q1\<rparr>)" unfolding q1_def by (rule only_links_upd [OF ol, where f = "\<lambda>e'. e'\<lparr>wk_prev := e\<rparr>"]) simp
        then have "only_links w (w\<lparr>work_queue := q1, work_queue := q2\<rparr>)"
          using only_links_upd [where f = "\<lambda>e'. e'\<lparr>wk_next := z\<rparr>" and i = e and w' = "w\<lparr>work_queue := q1\<rparr>" and w = w] by (simp add: q2_def)
        then show ?thesis by (simp add: only_links_def)
      qed
      ultimately show ?thesis using ex by simp
    next
      case ysne: False
      then obtain us y where y: "ys = us @ [y]" by (cases ys rule: rev_cases) auto
      have yl: "y < length ?q" "y \<noteq> e" "y \<noteq> NIL" using inq s(1) y ee(1) by auto
      have ny: "wk_next (?q ! y) = (if zs = [] then NIL else hd zs)"
      proof -
        obtain m where "path ?q (io_seq w) ys m" "path ?q m zs NIL" using lnk(1) by auto
        then show ?thesis using path_hd [of ?q m zs NIL] y by auto
      qed
      have en: "wk_next (?q ! e) = NIL" using T by simp
      show ?thesis
      proof (cases zs)
        case Nil
        define q1 where "q1 = ?q[e := (?q ! e)\<lparr>wk_prev := y\<rparr>]"
        define q2 where "q2 = q1[y := (q1 ! y)\<lparr>wk_next := e\<rparr>]"
        let ?w = "w\<lparr>work_queue := q2, io_seq_end := e\<rparr>"
        have ex: "insert_req_sorted e w target = Some ?w"
          using sq fp y yl le' ny Nil by (simp add: insert_req_sorted_def upd_work_in arr_simps q1_def q2_def)
        have "wq_inv (w\<lparr>work_queue := q2, io_seq := if ys = [] then e else io_seq w, io_seq_end := last (ys @ e # zs)\<rparr>) (ins le e io) fr"
          by (rule fin2) (use y yl le' en Nil in \<open>simp_all add: nth_list_update q1_def q2_def\<close>)
        moreover have "w\<lparr>work_queue := q2, io_seq := if ys = [] then e else io_seq w, io_seq_end := last (ys @ e # zs)\<rparr> = ?w"
          using y Nil by (intro io_worker.equality) simp_all
        moreover have "only_links w ?w"
        proof -
          have "only_links w (w\<lparr>work_queue := q1\<rparr>)" unfolding q1_def by (rule only_links_upd [OF ol, where f = "\<lambda>e'. e'\<lparr>wk_prev := y\<rparr>"]) simp
          then have "only_links w (w\<lparr>work_queue := q1, work_queue := q2\<rparr>)"
            using only_links_upd [where f = "\<lambda>e'. e'\<lparr>wk_next := e\<rparr>" and i = y and w' = "w\<lparr>work_queue := q1\<rparr>" and w = w] by (simp add: q2_def)
          then show ?thesis by (simp add: only_links_def)
        qed
        ultimately show ?thesis using ex by simp
      next
        case (Cons z vs)
        have zl: "z < length ?q" "z \<noteq> e" "z \<noteq> y" "z \<noteq> NIL" using inq s(1) y Cons ee by auto
        define q1 where "q1 = ?q[e := (?q ! e)\<lparr>wk_prev := y, wk_next := z\<rparr>]"
        define q2 where "q2 = q1[z := (q1 ! z)\<lparr>wk_prev := e\<rparr>]"
        define q3 where "q3 = q2[y := (q2 ! y)\<lparr>wk_next := e\<rparr>]"
        let ?w = "w\<lparr>work_queue := q3\<rparr>"
        have ex: "insert_req_sorted e w target = Some ?w"
          using sq fp y yl zl le' ny Cons by (simp add: insert_req_sorted_def upd_work_in arr_simps q1_def q2_def q3_def)
        have "wq_inv (w\<lparr>work_queue := q3, io_seq := if ys = [] then e else io_seq w, io_seq_end := last (ys @ e # zs)\<rparr>) (ins le e io) fr"
          by (rule fin2) (use y yl zl le' en Cons in \<open>simp_all add: nth_list_update q1_def q2_def q3_def\<close>)
        moreover have "io_seq_end w = last zs" using hd(2) s(1) ne Cons by (simp add: last_of_def)
        then have "w\<lparr>work_queue := q3, io_seq := if ys = [] then e else io_seq w, io_seq_end := last (ys @ e # zs)\<rparr> = ?w"
          using y Cons by (intro io_worker.equality) simp_all
        moreover have "only_links w ?w"
        proof -
          have "only_links w (w\<lparr>work_queue := q1\<rparr>)" unfolding q1_def by (rule only_links_upd [OF ol, where f = "\<lambda>e'. e'\<lparr>wk_prev := y, wk_next := z\<rparr>"]) simp
          then have "only_links w (w\<lparr>work_queue := q1, work_queue := q2\<rparr>)"
            using only_links_upd [where f = "\<lambda>e'. e'\<lparr>wk_prev := e\<rparr>" and i = z and w' = "w\<lparr>work_queue := q1\<rparr>" and w = w] by (simp add: q2_def)
          then have "only_links w (w\<lparr>work_queue := q1, work_queue := q2, work_queue := q3\<rparr>)"
            using only_links_upd [where f = "\<lambda>e'. e'\<lparr>wk_next := e\<rparr>" and i = y and w' = "w\<lparr>work_queue := q1, work_queue := q2\<rparr>" and w = w] by (simp add: q3_def)
          then show ?thesis by simp
        qed
        ultimately show ?thesis using ex by simp
      qed
    qed
  qed
qed

text \<open>The reference insertion is insertion by due time, so the list stays sorted.\<close>

lemma same_work_target: "same_work a b \<Longrightarrow> wk_nsecs_target a = wk_nsecs_target b"
  unfolding same_work_def by (drule arg_cong [where f = wk_nsecs_target]) simp

lemma due_only_links: "only_links w w' \<Longrightarrow> x < length (work_queue w) \<Longrightarrow> due w' x = due w x"
  using same_work_target [of "work_queue w' ! x" "work_queue w ! x"] by (simp add: only_links_def due_def)

lemma le_due:
  assumes "wk_nsecs_target (work_queue w ! e) = target"
  shows "(wk_nsecs_target (work_queue w ! x) \<le> latest_nsecs w \<or> wk_nsecs_target (work_queue w ! x) \<le> target) = (due w x \<le> due w e)"
  using assms by (auto simp: due_def max_def)

lemma insert_req_sorted_sorted:
  assumes t: "taken w io fr e" and tg: "wk_nsecs_target (work_queue w ! e) = target" and so: "sorted_io w io"
  shows "\<exists>w'. insert_req_sorted e w target = Some w' \<and> wq_inv w' (ins (\<lambda>x. due w x \<le> due w e) e io) fr \<and> only_links w w' \<and>
    sorted_io w' (ins (\<lambda>x. due w x \<le> due w e) e io)"
proof -
  obtain w' where w: "insert_req_sorted e w target = Some w'" "wq_inv w' (ins (\<lambda>x. due w x \<le> due w e) e io) fr" "only_links w w'"
    using insert_req_sorted_ok [OF t, of target] unfolding le_due [OF tg] by blast
  have so': "sorted (map (due w) (ins (\<lambda>x. due w x \<le> due w e) e io))" using ins_sorted so by (simp add: sorted_io_def)
  have "map (due w') (ins (\<lambda>x. due w x \<le> due w e) e io) = map (due w) (ins (\<lambda>x. due w x \<le> due w e) e io)"
  proof (rule map_cong [OF refl], rule due_only_links [OF w(3)])
    fix x assume "x \<in> set (ins (\<lambda>x. due w x \<le> due w e) e io)"
    then show "x < length (work_queue w)" using t by (auto simp: taken_def)
  qed
  then have "sorted_io w' (ins (\<lambda>x. due w x \<le> due w e) e io)" using so' unfolding sorted_io_def by (rule ssubst)
  then show ?thesis using w by blast
qed

section \<open>Allocation\<close>

lemma allocate_entry_ok:
  assumes "wq_inv w io (e # fr)"
  shows "allocate_entry w = Some (if fr = [] then None else Some (e, w\<lparr>free_seq := hd fr\<rparr>))"
proof -
  have e: "free_seq w = e" "path (work_queue w) (wk_next (work_queue w ! e)) fr NIL" "e < length (work_queue w)"
    using assms by (auto simp: wq_inv_def)
  have n: "wk_next (work_queue w ! e) = (if fr = [] then NIL else hd fr)" using path_hd [OF e(2)] .
  have "fr \<noteq> [] \<Longrightarrow> hd fr < NR_MAX_PARALLEL_IO" using assms by (cases fr) (auto simp: wq_inv_def)
  then show ?thesis using e(1,3) n nil_big(2) by (cases "fr = []") (simp_all add: allocate_entry_def arr_simps)
qed

lemma taken_fill:
  assumes i: "wq_inv w io (e # fr)" and fr: "fr \<noteq> []" and f: "\<And>x. wk_next (f x) = NIL" "\<And>x. wk_prev (f x) = NIL"
  shows "taken (w\<lparr>free_seq := hd fr, work_queue := (work_queue w)[e := f (work_queue w ! e)]\<rparr>) io fr e"
proof -
  let ?q = "work_queue w" and ?q' = "(work_queue w)[e := f (work_queue w ! e)]"
  note I = i [unfolded wq_inv_def]
  have e: "e < length ?q" "e \<notin> set io" "e \<notin> set fr" using I by auto
  have ne: "?q' ! x = ?q ! x" if "x \<in> set io \<union> set fr" for x using that e by (auto simp: nth_list_update)
  have "path ?q (wk_next (?q ! e)) fr NIL" using I by simp
  moreover from path_hd [OF this] fr have "wk_next (?q ! e) = hd fr" by simp
  ultimately have "path ?q' (hd fr) fr NIL" using path_cong [of fr ?q' ?q "hd fr" NIL] ne by simp
  moreover have "path ?q' (io_seq w) io NIL" using I path_cong [of io ?q' ?q "io_seq w" NIL] ne by simp
  moreover have "prevs ?q' NIL io" using I prevs_cong [of io ?q' ?q NIL] ne by simp
  moreover have "distinct (e # io @ fr)" "set (e # io @ fr) = {..<NR_MAX_PARALLEL_IO}" using I by auto
  ultimately show ?thesis using I fr e f unfolding taken_def by simp
qed

section \<open>Reclaim\<close>

lemma path_relink:
  "path q p xs r \<Longrightarrow> xs \<noteq> [] \<Longrightarrow> distinct xs \<Longrightarrow>
   (\<And>x. x \<in> set xs \<Longrightarrow> wk_next (q' ! x) = (if x = last xs then r' else wk_next (q ! x))) \<Longrightarrow> path q' p xs r'"
proof (induction xs arbitrary: p)
  case (Cons x xs)
  show ?case
  proof (cases "xs = []")
    case True
    then show ?thesis using Cons.prems by simp
  next
    case False
    have "path q' (wk_next (q ! x)) xs r'"
      using Cons.prems False by (intro Cons.IH) auto
    moreover have "x \<noteq> last xs" using Cons.prems(3) False by auto
    ultimately show ?thesis using Cons.prems(1) Cons.prems(4) [of x] False by simp
  qed
qed simp

lemma reclaim_scan_ok:
  assumes "path (work_queue w) cur xs NIL" "\<forall>x \<in> set xs. x < length (work_queue w) \<and> x \<noteq> NIL"
  shows "reclaim_scan w cur l = Some (last_of l (takeWhile (\<lambda>x. reclaimable w (work_queue w ! x)) xs))"
  using assms
proof (induction xs arbitrary: cur l)
  case Nil
  then show ?case by (subst reclaim_scan.simps) simp
next
  case (Cons x xs)
  then show ?case by (subst reclaim_scan.simps) (simp add: arr_simps last_of_Cons)
qed

lemma only_links_list:
  assumes "length q' = length (work_queue w)" "\<And>x. x < length (work_queue w) \<Longrightarrow> same_work (q' ! x) (work_queue w ! x)"
    "work_queue w' = q'" "latest_nsecs w' = latest_nsecs w" "worker_id w' = worker_id w"
  shows "only_links w w'"
  using assms by (simp add: only_links_def)

lemma same_work_upd: "same_work (q ! x) b \<Longrightarrow> (\<And>a. same_work (f a) b = same_work a b) \<Longrightarrow> same_work (q[i := f (q ! i)] ! x) b"
  by (cases "i < length q"; cases "x = i") (simp_all add: not_less list_update_beyond)

lemma reclaim_worker_ok:
  fixes w io
  assumes i: "wq_inv w io fr"
  defines "ds \<equiv> takeWhile (\<lambda>x. reclaimable w (work_queue w ! x)) io"
    and "rest \<equiv> dropWhile (\<lambda>x. reclaimable w (work_queue w ! x)) io"
  shows "\<exists>w'. reclaim_worker w = Some w' \<and> wq_inv w' rest (fr @ ds) \<and> only_links w w'"
proof -
  let ?q = "work_queue w"
  note I = i [unfolded wq_inv_def]
  have io: "io = ds @ rest" by (simp add: ds_def rest_def)
  have inq: "x < length ?q" "x \<noteq> NIL" if "x \<in> set io \<union> set fr" for x using wq_in [OF i that] by simp_all
  have sc: "reclaim_scan w (io_seq w) NIL = Some (last_of NIL ds)"
    unfolding ds_def using I inq by (intro reclaim_scan_ok) auto
  show ?thesis
  proof (cases ds rule: rev_cases)
    case Nil
    then have "reclaim_worker w = Some w" using sc by (simp add: reclaim_worker_def)
    moreover have "only_links w w" by (simp add: only_links_def)
    ultimately show ?thesis using i io Nil by auto
  next
    case (snoc us l)
    obtain f0 where f0: "io_seq w = f0" by simp
    have dne: "ds \<noteq> []" "last ds = l" using snoc by simp_all
    have f: "hd ds = f0" "f0 \<in> set ds" using I io dne path_hd [of ?q "io_seq w" io NIL] f0 by (auto simp: hd_append)
    obtain fe where fe: "free_seq_end w = fe" "last fr = fe" "fe \<in> set fr" "fr \<noteq> []" using I by simp
    have D: "distinct ds" "distinct rest" "distinct fr" "set ds \<inter> set rest = {}" "set ds \<inter> set fr = {}" "set rest \<inter> set fr = {}"
      using I io by auto
    have l: "l \<in> set ds" using snoc by simp
    have P: "path ?q f0 ds (wk_next (?q ! l))" "path ?q (wk_next (?q ! l)) rest NIL"
      using I io f0 snoc by auto
    have nl: "wk_next (?q ! l) = (if rest = [] then NIL else hd rest)" using path_hd [OF P(2)] .
    have R: "prevs ?q l rest" using I io snoc by simp
    have N: "l < length ?q" "f0 < length ?q" "fe < length ?q" "l \<noteq> NIL" "f0 \<noteq> fe" "l \<noteq> fe"
      using inq l f(2) fe(3) io D(5) by auto
    define q0 where "q0 = (if rest = [] then ?q else ?q[hd rest := (?q ! hd rest)\<lparr>wk_prev := NIL\<rparr>])"
    define q1 where "q1 = q0[l := (q0 ! l)\<lparr>wk_next := NIL\<rparr>]"
    define q2 where "q2 = q1[f0 := (q1 ! f0)\<lparr>wk_prev := fe\<rparr>]"
    define q3 where "q3 = q2[fe := (q2 ! fe)\<lparr>wk_next := f0\<rparr>]"
    have hr: "hd rest < length ?q" "hd rest \<noteq> l" "hd rest \<noteq> f0" "hd rest \<noteq> NIL" if "rest \<noteq> []"
      using that inq io l f(2) D(4) hd_in_set [of rest] by auto
    have lq: "length q0 = length ?q" "length q1 = length ?q" "length q2 = length ?q" "length q3 = length ?q"
      by (simp_all add: q0_def q1_def q2_def q3_def)
    define w' where "w' = w\<lparr>work_queue := q3, io_seq := wk_next (?q ! l), free_seq_end := l\<rparr>"
    have ex: "reclaim_worker w = Some w'"
    proof -
      have "(if wk_next (?q ! l) \<noteq> NIL then upd_work (wk_next (?q ! l)) (\<lambda>e. e\<lparr>wk_prev := NIL\<rparr>) (w\<lparr>io_seq := wk_next (?q ! l)\<rparr>)
          else Some (w\<lparr>io_seq := wk_next (?q ! l)\<rparr>)) = Some (w\<lparr>work_queue := q0, io_seq := wk_next (?q ! l)\<rparr>)"
        using nl hr by (cases "rest = []") (simp_all add: upd_work_in q0_def)
      then show ?thesis using sc snoc f0 fe(1) N lq
        by (simp add: reclaim_worker_def upd_work_in arr_simps w'_def q1_def q2_def q3_def Let_def)
    qed
    have nx: "wk_next (q3 ! x) = (if x = fe then f0 else if x = l then NIL else wk_next (?q ! x))"
      "wk_prev (q3 ! x) = (if x = f0 then fe else if rest \<noteq> [] \<and> x = hd rest then NIL else wk_prev (?q ! x))"
      if "x < length ?q" for x
      using that N hr lq by (cases "rest = []"; simp add: nth_list_update q0_def q1_def q2_def q3_def)+
    have "path q3 (free_seq w) fr f0"
    proof (rule path_relink [of ?q _ _ NIL])
      fix x assume x: "x \<in> set fr"
      have "x \<noteq> l" using x l D(5) by auto
      then show "wk_next (q3 ! x) = (if x = last fr then f0 else wk_next (?q ! x))" using nx(1) [of x] inq x fe(2) by simp
    qed (use I D fe in simp_all)
    moreover have "path q3 f0 ds NIL"
    proof (rule path_relink [OF P(1)])
      fix x assume x: "x \<in> set ds"
      have "x \<noteq> fe" using x fe(3) D(5) by auto
      then show "wk_next (q3 ! x) = (if x = last ds then NIL else wk_next (?q ! x))" using nx(1) [of x] inq [of x] x io dne by simp
    qed (use D dne in simp_all)
    ultimately have F: "path q3 (free_seq w) (fr @ ds) NIL" by auto
    have "path q3 (wk_next (?q ! l)) rest NIL"
    proof -
      have "wk_next (q3 ! x) = wk_next (?q ! x)" if x: "x \<in> set rest" for x
      proof -
        have "x \<noteq> fe" "x \<noteq> l" using x fe(3) l D by auto
        then show ?thesis using nx(1) [of x] inq [of x] x io by simp
      qed
      then show ?thesis using P(2) path_cong [of rest q3 ?q] by blast
    qed
    moreover have "prevs q3 NIL rest"
    proof (cases rest)
      case (Cons z zs)
      have "wk_prev (q3 ! x) = wk_prev (?q ! x)" if x: "x \<in> set zs" for x
      proof -
        have "x \<noteq> z" "x \<noteq> f0" using x f(2) D Cons by auto
        then show ?thesis using nx(2) [of x] inq [of x] x io Cons by simp
      qed
      then have "prevs q3 z zs" using R Cons prevs_cong [of zs q3 ?q z] by simp
      moreover have "wk_prev (q3 ! z) = NIL" using nx(2) [of z] hr Cons by simp
      ultimately show ?thesis using Cons by simp
    qed simp
    moreover have "rest \<noteq> [] \<Longrightarrow> io_seq_end w = last rest" using I io by simp
    moreover have "distinct (rest @ fr @ ds)" "set (rest @ fr @ ds) = {..<NR_MAX_PARALLEL_IO}" using I io by auto
    ultimately have "wq_inv w' rest (fr @ ds)"
      using I F lq fe dne by (simp add: wq_inv_def w'_def)
    moreover have "only_links w w'"
    proof (rule only_links_list [of q3])
      fix x assume "x < length ?q"
      have "same_work (q0 ! x) (?q ! x)" by (cases "rest = []") (simp_all add: q0_def same_work_upd)
      then show "same_work (q3 ! x) (?q ! x)" unfolding q1_def q2_def q3_def by (intro same_work_upd) simp_all
    qed (simp_all add: lq w'_def)
    ultimately show ?thesis using ex by blast
  qed
qed

section \<open>Initialisation\<close>

lemma path_upto: "a \<le> b \<Longrightarrow> (\<And>x. a \<le> x \<Longrightarrow> x < b \<Longrightarrow> wk_next (q ! x) = Suc x) \<Longrightarrow> path q a [a..<b] b"
proof (induction "b - a" arbitrary: a)
  case (Suc n)
  have "path q (Suc a) [Suc a..<b] b" using Suc.hyps(2) Suc.prems by (intro Suc.hyps(1)) auto
  then show ?case using Suc.hyps(2) Suc.prems by (simp add: upt_conv_Cons)
qed simp

lemma init_worker_ok: "wq_inv (init_worker i) [] [0..<NR_MAX_PARALLEL_IO]" "sorted_io (init_worker i) []"
proof -
  let ?q = "work_queue (init_worker i)"
  define q where "q = map (\<lambda>i. zero_work\<lparr>wk_next := i + 1, wk_prev := dec32 i\<rparr>) [0..<NR_MAX_PARALLEL_IO]"
  have p: "0 < NR_MAX_PARALLEL_IO" by (simp add: NR_MAX_PARALLEL_IO_def)
  have q: "?q = q[NR_MAX_PARALLEL_IO - 1 := (q ! (NR_MAX_PARALLEL_IO - 1))\<lparr>wk_next := NIL\<rparr>]"
    and r: "free_seq (init_worker i) = 0" "free_seq_end (init_worker i) = NR_MAX_PARALLEL_IO - 1" "io_seq (init_worker i) = NIL"
    by (simp_all add: init_worker_def q_def modl_def Let_def)
  have lq: "length q = NR_MAX_PARALLEL_IO" by (simp add: q_def)
  have nq: "wk_next (q ! x) = Suc x" if "x < NR_MAX_PARALLEL_IO" for x using that by (simp add: q_def)
  have "path q 0 [0..<NR_MAX_PARALLEL_IO] NR_MAX_PARALLEL_IO" using nq by (intro path_upto) auto
  then have "path ?q 0 [0..<NR_MAX_PARALLEL_IO] NIL"
  proof (rule path_relink)
    fix x assume "x \<in> set [0..<NR_MAX_PARALLEL_IO]"
    then show "wk_next (?q ! x) = (if x = last [0..<NR_MAX_PARALLEL_IO] then NIL else wk_next (q ! x))"
      using p lq by (simp add: q nth_list_update)
  qed (use p in simp_all)
  moreover have "length ?q = NR_MAX_PARALLEL_IO" using q lq by simp
  moreover have "last [0..<NR_MAX_PARALLEL_IO] = NR_MAX_PARALLEL_IO - 1" "[0..<NR_MAX_PARALLEL_IO] \<noteq> []" using p by simp_all
  ultimately show "wq_inv (init_worker i) [] [0..<NR_MAX_PARALLEL_IO]"
    using r by (simp add: wq_inv_def lessThan_atLeast0)
  show "sorted_io (init_worker i) []" by (simp add: sorted_io_def)
qed

end
