(* ===== verification/Dispatch_Laws.thy ===== *)
theory Dispatch_Laws
  imports Io_Dispatch Work_Queue_Laws
begin

text \<open>
  The work queues of all workers implement lists of requests in flight, one per worker, sorted by the time at which the
  requests are due. Scheduling a request is insertion into the list of its worker, or nothing when all entries but one
  are taken; the reclaim drops the prefix of completed requests. On top of that: what the dispatcher does with a
  namespace that keeps the contract of the locale \<open>io_namespace\<close>.
\<close>

section \<open>Abstraction of a work queue\<close>

definition payload :: "io_work \<Rightarrow> io_work" where
  "payload e = e\<lparr>wk_next := 0, wk_prev := 0\<rparr>"

definition wq_abs :: "io_worker \<Rightarrow> io_work list \<Rightarrow> bool" where
  "wq_abs w xs \<longleftrightarrow> (\<exists>io fr. wq_inv w io fr \<and> sorted_io w io \<and> xs = map (\<lambda>i. payload (work_queue w ! i)) io)"

text \<open>The time at which a request is due, seen from the time \<open>t\<close> of the worker.\<close>

definition due_at :: "nat \<Rightarrow> io_work \<Rightarrow> nat" where
  "due_at t e = max t (wk_nsecs_target e)"

lemma payload_simps [simp]:
  "wk_nsecs_target (payload e) = wk_nsecs_target e" "wk_is_completed (payload e) = wk_is_completed e"
  "wk_is_copied (payload e) = wk_is_copied e" "payload (payload e) = payload e" "reclaimable w (payload e) = reclaimable w e"
  by (simp_all add: payload_def reclaimable_def)

lemma payload_same: "same_work a b \<longleftrightarrow> payload a = payload b"
  by (simp add: same_work_def payload_def)

lemma due_due_at: "due w i = due_at (latest_nsecs w) (payload (work_queue w ! i))"
  by (simp add: due_def due_at_def)

lemma path_unique: "path q p xs r \<Longrightarrow> path q p ys r \<Longrightarrow> r \<notin> set xs \<Longrightarrow> r \<notin> set ys \<Longrightarrow> xs = ys"
proof (induction xs arbitrary: p ys)
  case Nil
  then show ?case by (cases ys) auto
next
  case (Cons x xs)
  then show ?case by (cases ys) auto
qed

lemma wq_abs_unique: "wq_abs w xs \<Longrightarrow> wq_abs w ys \<Longrightarrow> xs = ys"
proof -
  assume "wq_abs w xs" "wq_abs w ys"
  then obtain io fr io' fr' where i: "wq_inv w io fr" "wq_inv w io' fr'" "xs = map (\<lambda>i. payload (work_queue w ! i)) io"
    "ys = map (\<lambda>i. payload (work_queue w ! i)) io'" unfolding wq_abs_def by blast
  have "NIL \<notin> set io" "NIL \<notin> set io'" using wq_in [OF i(1)] wq_in [OF i(2)] by blast+
  then show ?thesis using i path_unique [of "work_queue w" "io_seq w" io NIL io'] by (simp add: wq_inv_def)
qed

lemma wq_abs_sorted: "wq_abs w xs \<Longrightarrow> sorted (map (due_at (latest_nsecs w)) xs)"
  by (auto simp: wq_abs_def sorted_io_def due_due_at [abs_def] comp_def)

lemma wq_length: "wq_inv w io fr \<Longrightarrow> length io + length fr = NR_MAX_PARALLEL_IO"
proof -
  assume "wq_inv w io fr"
  then have "distinct (io @ fr)" "set (io @ fr) = {..<NR_MAX_PARALLEL_IO}" by (simp_all add: wq_inv_def)
  then have "length (io @ fr) = card {..<NR_MAX_PARALLEL_IO}" using distinct_card [of "io @ fr"] by simp
  then show ?thesis by simp
qed

lemma wq_abs_bound: "wq_abs w xs \<Longrightarrow> length xs < NR_MAX_PARALLEL_IO"
proof -
  assume "wq_abs w xs"
  then obtain io fr where i: "wq_inv w io fr" "length xs = length io" by (auto simp: wq_abs_def)
  moreover have "fr \<noteq> []" using i(1) by (simp add: wq_inv_def)
  ultimately show ?thesis using wq_length [OF i(1)] by (cases fr) simp_all
qed

text \<open>The list with a new request, and the list of a worker that stays.\<close>

definition add_req :: "nat \<Rightarrow> io_work \<Rightarrow> io_work list \<Rightarrow> io_work list" where
  "add_req t p xs = ins (\<lambda>x. due_at t x \<le> due_at t p) p xs"

lemma set_add_req [simp]: "set (add_req t p xs) = insert p (set xs)" "length (add_req t p xs) = Suc (length xs)"
  by (simp_all add: add_req_def)

lemma enq_worker:
  assumes a: "wq_abs w xs" and room: "Suc (length xs) < NR_MAX_PARALLEL_IO"
    and f: "\<And>x. wk_next (f x) = NIL" "\<And>x. wk_prev (f x) = NIL" "\<And>x. wk_nsecs_target (f x) = target"
  shows "\<exists>e w1 w' old. allocate_entry w = Some (Some (e, w1)) \<and>
    (do { w \<leftarrow> upd_work e f w1; insert_req_sorted e w target }) = Some w' \<and>
    wq_abs w' (add_req (latest_nsecs w) (payload (f old)) xs) \<and> latest_nsecs w' = latest_nsecs w"
proof -
  obtain io fr0 where i: "wq_inv w io fr0" "sorted_io w io" "xs = map (\<lambda>i. payload (work_queue w ! i)) io"
    using a by (auto simp: wq_abs_def)
  have "1 < length fr0" using wq_length [OF i(1)] room i(3) by simp
  then obtain e fr where fr: "fr0 = e # fr" "fr \<noteq> []" by (cases fr0) auto
  note I = i(1) [unfolded fr(1)]
  let ?w1 = "w\<lparr>free_seq := hd fr\<rparr>" let ?old = "work_queue w ! e"
  let ?w2 = "w\<lparr>free_seq := hd fr, work_queue := (work_queue w)[e := f ?old]\<rparr>"
  have e: "e < length (work_queue w)" "e \<notin> set io" using I by (auto simp: wq_inv_def)
  have al: "allocate_entry w = Some (Some (e, ?w1))" using allocate_entry_ok [OF I] fr(2) by simp
  have t: "taken ?w2 io fr e" by (rule taken_fill [OF I fr(2) f(1,2)])
  have same: "work_queue ?w2 ! x = work_queue w ! x" if "x \<in> set io" for x using that e by (auto simp: nth_list_update)
  have ee: "work_queue ?w2 ! e = f ?old" using e by simp
  have tg: "wk_nsecs_target (work_queue ?w2 ! e) = target" using f(3) ee by simp
  have "map (due ?w2) io = map (due w) io" using same by (simp add: due_def)
  then have so: "sorted_io ?w2 io" using i(2) unfolding sorted_io_def by (rule ssubst)
  obtain w' where w': "insert_req_sorted e ?w2 target = Some w'" "wq_inv w' (ins (\<lambda>x. due ?w2 x \<le> due ?w2 e) e io) fr" "only_links ?w2 w'"
    "sorted_io w' (ins (\<lambda>x. due ?w2 x \<le> due ?w2 e) e io)" using insert_req_sorted_sorted [OF t tg so] by blast
  let ?g = "\<lambda>i. payload (work_queue ?w2 ! i)"
  let ?io' = "ins (\<lambda>x. due ?w2 x \<le> due ?w2 e) e io"
  have inq: "x < length (work_queue ?w2)" if "x \<in> insert e (set io)" for x using that I by (auto simp: wq_inv_def)
  have "map (\<lambda>i. payload (work_queue w' ! i)) ?io' = map ?g ?io'"
  proof (rule map_cong [OF refl])
    fix x assume "x \<in> set ?io'"
    then show "payload (work_queue w' ! x) = payload (work_queue ?w2 ! x)"
      using inq [of x] w'(3) by (simp only: set_ins only_links_def payload_same)
  qed
  also have "\<dots> = ins (\<lambda>y. due_at (latest_nsecs w) y \<le> due_at (latest_nsecs w) (?g e)) (?g e) (map ?g io)"
    using map_ins [of ?g "\<lambda>y. due_at (latest_nsecs w) y \<le> due_at (latest_nsecs w) (?g e)" e io] by (simp add: due_due_at)
  also have "map ?g io = xs" using same i(3) by simp
  finally have m: "map (\<lambda>i. payload (work_queue w' ! i)) ?io' = add_req (latest_nsecs w) (payload (f ?old)) xs"
    by (simp only: add_req_def ee)
  have "wq_abs w' (add_req (latest_nsecs w) (payload (f ?old)) xs)"
    unfolding wq_abs_def by (intro exI [of _ ?io'] exI [of _ fr] conjI w'(2,4) m [symmetric])
  moreover have "(do { w \<leftarrow> upd_work e f ?w1; insert_req_sorted e w target }) = Some w'"
    using e w'(1) by (simp add: upd_work_in)
  moreover have "latest_nsecs w' = latest_nsecs w" using w'(3) by (simp add: only_links_def)
  ultimately show ?thesis using al by blast
qed

lemma alloc_full: "wq_abs w xs \<Longrightarrow> \<not> Suc (length xs) < NR_MAX_PARALLEL_IO \<Longrightarrow> allocate_entry w = Some None"
proof -
  assume a: "wq_abs w xs" "\<not> Suc (length xs) < NR_MAX_PARALLEL_IO"
  obtain io fr where i: "wq_inv w io fr" "xs = map (\<lambda>i. payload (work_queue w ! i)) io" using a(1) by (auto simp: wq_abs_def)
  have "length fr \<le> 1" "fr \<noteq> []" using wq_length [OF i(1)] a(2) i by (simp_all add: wq_inv_def)
  then obtain e where "fr = [e]" by (cases fr) auto
  then show ?thesis using allocate_entry_ok [of w io e "[]"] i(1) by simp
qed

lemma reclaim_abs:
  assumes "wq_abs w xs"
  shows "\<exists>w'. reclaim_worker w = Some w' \<and> wq_abs w' (dropWhile (reclaimable w) xs) \<and> latest_nsecs w' = latest_nsecs w"
proof -
  obtain io fr where i: "wq_inv w io fr" "sorted_io w io" "xs = map (\<lambda>i. payload (work_queue w ! i)) io"
    using assms by (auto simp: wq_abs_def)
  let ?rest = "dropWhile (\<lambda>x. reclaimable w (work_queue w ! x)) io" and ?ds = "takeWhile (\<lambda>x. reclaimable w (work_queue w ! x)) io"
  obtain w' where w': "reclaim_worker w = Some w'" "wq_inv w' ?rest (fr @ ?ds)" "only_links w w'" using reclaim_worker_ok [OF i(1)] by blast
  have inq: "x < length (work_queue w)" if "x \<in> set ?rest" for x
    using set_dropWhileD [OF that] wq_in [OF i(1), of x] by simp
  have l: "latest_nsecs w' = latest_nsecs w" using w'(3) by (simp add: only_links_def)
  have "dropWhile (reclaimable w) xs = map (\<lambda>i. payload (work_queue w ! i)) ?rest"
    using i(3) by (simp add: dropWhile_map comp_def)
  also have "\<dots> = map (\<lambda>i. payload (work_queue w' ! i)) ?rest"
    using inq w'(3) by (intro map_cong refl) (simp add: only_links_def payload_same)
  finally have x: "dropWhile (reclaimable w) xs = map (\<lambda>i. payload (work_queue w' ! i)) ?rest" .
  have "io = ?ds @ ?rest" by simp
  then have "map (due w) io = map (due w) ?ds @ map (due w) ?rest" by (metis map_append)
  then have "sorted (map (due w) ?rest)" using i(2) unfolding sorted_io_def by (simp only: sorted_append)
  moreover have "map (due w') ?rest = map (due w) ?rest"
    by (rule map_cong [OF refl]) (rule due_only_links [OF w'(3) inq])
  ultimately have "sorted_io w' ?rest" unfolding sorted_io_def by (simp only:)
  then have "wq_abs w' (dropWhile (reclaimable w) xs)" unfolding wq_abs_def using w'(2) x by blast
  then show ?thesis using w'(1) l by blast
qed

lemma init_abs: "wq_abs (init_worker i) []"
  unfolding wq_abs_def using init_worker_ok by (intro exI [of _ "[]"] exI [of _ "[0..<NR_MAX_PARALLEL_IO]"]) simp

section \<open>All workers\<close>

definition dev_abs :: "('ns, 'm) nvmev_dev \<Rightarrow> io_work list list \<Rightarrow> bool" where
  "dev_abs dev qs \<longleftrightarrow> 0 < nr_io_workers dev \<and> length (io_workers dev) = nr_io_workers dev \<and> list_all2 wq_abs (io_workers dev) qs"

text \<open>What scheduling leaves alone.\<close>

definition dev_same :: "('ns, 'm) nvmev_dev \<Rightarrow> ('ns, 'm) nvmev_dev \<Rightarrow> bool" where
  "dev_same dev dev' \<longleftrightarrow> nr_io_workers dev' = nr_io_workers dev \<and> nspaces dev' = nspaces dev \<and> sqes dev' = sqes dev \<and> cqes dev' = cqes dev \<and>
     dmem dev' = dmem dev \<and> dclk dev' = dclk dev \<and> dtick dev \<le> dtick dev' \<and> map latest_nsecs (io_workers dev') = map latest_nsecs (io_workers dev)"

lemma dev_same_refl [simp]: "dev_same dev dev"
  by (simp add: dev_same_def)

lemma dev_same_trans: "dev_same a b \<Longrightarrow> dev_same b c \<Longrightarrow> dev_same a c"
  by (simp add: dev_same_def)

definition worker_of :: "('ns, 'm) nvmev_dev \<Rightarrow> nat \<Rightarrow> nat" where
  "worker_of dev sqid = dec32 sqid mod nr_io_workers dev"

definition latest_of :: "('ns, 'm) nvmev_dev \<Rightarrow> nat \<Rightarrow> nat" where
  "latest_of dev k = latest_nsecs (io_workers dev ! k)"

lemma dev_same_latest: "dev_same dev dev' \<Longrightarrow> k < length (io_workers dev) \<Longrightarrow> latest_of dev' k = latest_of dev k"
proof -
  assume a: "dev_same dev dev'" "k < length (io_workers dev)"
  have m: "map latest_nsecs (io_workers dev') = map latest_nsecs (io_workers dev)" using a(1) by (simp add: dev_same_def)
  from map_eq_imp_length_eq [OF this] have "k < length (io_workers dev')" using a(2) by simp
  then show ?thesis using arg_cong [OF m, of "\<lambda>l. l ! k"] a(2) by (simp add: latest_of_def)
qed

text \<open>The abstract scheduling: into the list of the worker, unless it is full.\<close>

definition push_req :: "('ns, 'm) nvmev_dev \<Rightarrow> nat \<Rightarrow> io_work \<Rightarrow> io_work list list \<Rightarrow> io_work list list" where
  "push_req dev sqid p qs = (let k = worker_of dev sqid in
     if Suc (length (qs ! k)) < NR_MAX_PARALLEL_IO then qs[k := add_req (latest_of dev k) p (qs ! k)] else qs)"

lemma dev_absD:
  assumes "dev_abs dev qs"
  shows "worker_of dev sqid < length (io_workers dev)" "length qs = length (io_workers dev)" "nr_io_workers dev \<noteq> 0"
    "k < length (io_workers dev) \<Longrightarrow> wq_abs (io_workers dev ! k) (qs ! k)"
  using assms by (auto simp: dev_abs_def worker_of_def list_all2_conv_all_nth)

lemma schedule_gen:
  fixes sqid :: nat
  assumes a: "dev_abs dev qs" and f: "\<And>now x. wk_next (f now x) = NIL" "\<And>now x. wk_prev (f now x) = NIL" "\<And>now x. wk_nsecs_target (f now x) = target"
  defines "run \<equiv> do { (r, dev) \<leftarrow> allocate_work_queue_entry sqid dev;
     case r of None \<Rightarrow> Some dev
     | Some (k, e) \<Rightarrow> let (now, dev) = read_clk dev
         in upd_worker k (\<lambda>w. do { w \<leftarrow> upd_work e (f now) w; insert_req_sorted e w target }) dev }"
  shows "\<exists>dev' old. run = Some dev' \<and> dev_abs dev' (push_req dev sqid (payload (f (dclk dev (dtick dev)) old)) qs) \<and> dev_same dev dev'"
proof -
  let ?k = "worker_of dev sqid" let ?w = "io_workers dev ! ?k" let ?now = "dclk dev (dtick dev)"
  note D = dev_absD [OF a]
  have w: "wq_abs ?w (qs ! ?k)" by (rule D(4) [OF D(1)])
  have g: "get_io_worker dev sqid = Some ?k" using D(3) by (simp add: get_io_worker_def worker_of_def)
  have ix: "idx (io_workers dev) ?k = Some ?w" using D(1) by (simp add: arr_simps)
  show ?thesis
  proof (cases "Suc (length (qs ! ?k)) < NR_MAX_PARALLEL_IO")
    case False
    then have "run = Some dev" using alloc_full [OF w] g ix by (simp add: run_def allocate_work_queue_entry_def)
    then show ?thesis using a False by (simp add: push_req_def)
  next
    case True
    obtain e w1 w' old where e: "allocate_entry ?w = Some (Some (e, w1))"
      "(do { w \<leftarrow> upd_work e (f ?now) w1; insert_req_sorted e w target }) = Some w'"
      "wq_abs w' (add_req (latest_nsecs ?w) (payload (f ?now old)) (qs ! ?k))" "latest_nsecs w' = latest_nsecs ?w"
      using enq_worker [OF w True, of "f ?now", OF f] by blast
    obtain v where v: "upd_work e (f ?now) w1 = Some v" "insert_req_sorted e v target = Some w'"
      using e(2) by (auto simp: bind_eq_Some_conv)
    define turn where "turn = (if ?k + 1 = nr_io_workers dev then 0 else ?k + 1)"
    let ?d1 = "dev\<lparr>io_worker_turn := turn, io_workers := (io_workers dev)[?k := w1]\<rparr>"
    let ?d2 = "?d1\<lparr>dtick := dtick dev + 1\<rparr>" let ?d3 = "?d2\<lparr>io_workers := (io_workers dev)[?k := w']\<rparr>"
    have al: "allocate_work_queue_entry sqid dev = Some (Some (?k, e), ?d1)"
      using g ix e(1) by (simp add: allocate_work_queue_entry_def turn_def)
    have rc: "read_clk ?d1 = (?now, ?d2)" by (simp add: read_clk_def)
    have up: "upd_worker ?k (\<lambda>w. do { w \<leftarrow> upd_work e (f ?now) w; insert_req_sorted e w target }) ?d2 = Some ?d3"
      using v D(1) by (simp add: upd_worker_def arr_simps)
    have "run = Some ?d3" by (simp only: run_def al rc up bind.bind_lunit prod.case option.case Let_def)
    moreover have "dev_abs ?d3 (push_req dev sqid (payload (f ?now old)) qs)"
      using a e(3) True by (auto simp: dev_abs_def push_req_def latest_of_def Let_def intro: list_all2_update_cong)
    moreover have "dev_same dev ?d3" using e(4) D(1) [of sqid] list_update_id [of "map latest_nsecs (io_workers dev)" ?k]
      by (simp add: dev_same_def map_update del: list_update_id)
    ultimately show ?thesis by blast
  qed
qed

lemma enqueue_ok:
  assumes a: "dev_abs dev qs" and sq: "ptr (sqes dev) sqid = Some sq" "sq_entry < length (sq_entries sq)"
  shows "\<exists>dev' old. enqueue_io_req sqid cqid sq_entry start ret dev = Some dev' \<and>
    dev_abs dev' (push_req dev sqid (payload (fill_req sqid cqid sq_entry (command_id (sq_entries sq ! sq_entry)) start (dclk dev (dtick dev)) ret old)) qs) \<and>
    dev_same dev dev'"
proof -
  let ?cid = "command_id (sq_entries sq ! sq_entry)"
  have "enqueue_io_req sqid cqid sq_entry start ret dev = do { (r, dev) \<leftarrow> allocate_work_queue_entry sqid dev;
     case r of None \<Rightarrow> Some dev
     | Some (k, e) \<Rightarrow> let (now, dev) = read_clk dev
         in upd_worker k (\<lambda>w. do { w \<leftarrow> upd_work e (fill_req sqid cqid sq_entry ?cid start now ret) w;
            insert_req_sorted e w (rs_nsecs_target ret) }) dev }"
  proof -
    have "ptr (sqes d) sqid = Some sq" if "allocate_work_queue_entry sqid dev = Some (r, d)" for r d
      using that sq(1) by (auto simp: allocate_work_queue_entry_def bind_eq_Some_conv split: option.splits)
    then show ?thesis using sq(2) unfolding enqueue_io_req_def
      by (intro bind_option_cong refl) (auto simp: arr_simps split: option.split)
  qed
  then show ?thesis
    using schedule_gen [OF a, of "\<lambda>now. fill_req sqid cqid sq_entry ?cid start now ret" "rs_nsecs_target ret" sqid]
    by (simp add: fill_req_def)
qed

lemma schedule_ok:
  assumes "dev_abs dev qs"
  shows "\<exists>dev' old. schedule_internal_operation buf iop dev = Some dev' \<and>
    dev_abs dev' (push_req dev (io_sqid iop) (payload (fill_internal (io_sqid iop) (dclk dev (dtick dev)) (io_nsecs iop) buf (io_release iop) old)) qs) \<and>
    dev_same dev dev'"
  using schedule_gen [OF assms, of "\<lambda>now. fill_internal (io_sqid iop) now (io_nsecs iop) buf (io_release iop)" "io_nsecs iop" "io_sqid iop"]
  by (simp add: schedule_internal_operation_def fill_internal_def)

lemma reclaim_loop:
  assumes "length ws' = length (io_workers dev)" "k \<le> length (io_workers dev)" "\<And>i. i < length (io_workers dev) \<Longrightarrow> reclaim_worker (io_workers dev ! i) = Some (ws' ! i)"
  shows "foldM (\<lambda>turn. upd_worker turn reclaim_worker) [0..<k] dev = Some (dev\<lparr>io_workers := take k ws' @ drop k (io_workers dev)\<rparr>)"
  using assms
proof (induction k)
  case (Suc k)
  have "foldM (\<lambda>turn. upd_worker turn reclaim_worker) [0..<k] dev = Some (dev\<lparr>io_workers := take k ws' @ drop k (io_workers dev)\<rparr>)"
    using Suc by simp
  moreover have d: "drop k (io_workers dev) = io_workers dev ! k # drop (Suc k) (io_workers dev)" "take (Suc k) ws' = take k ws' @ [ws' ! k]"
    using Suc.prems by (simp_all add: Cons_nth_drop_Suc take_Suc_conv_app_nth)
  moreover have "upd_worker k reclaim_worker (dev\<lparr>io_workers := take k ws' @ drop k (io_workers dev)\<rparr>) =
      Some (dev\<lparr>io_workers := take (Suc k) ws' @ drop (Suc k) (io_workers dev)\<rparr>)"
    using Suc.prems by (simp add: d upd_worker_def arr_simps nth_append list_update_append)
  ultimately show ?case by simp
qed simp

lemma reclaim_ok:
  assumes a: "dev_abs dev qs"
  shows "\<exists>dev'. reclaim_completed_reqs dev = Some dev' \<and> dev_abs dev' (map2 (\<lambda>w. dropWhile (reclaimable w)) (io_workers dev) qs) \<and> dev_same dev dev'"
proof -
  note D = dev_absD [OF a]
  let ?n = "length (io_workers dev)"
  have "\<forall>i \<in> {..<?n}. \<exists>w'. reclaim_worker (io_workers dev ! i) = Some w' \<and> wq_abs w' (dropWhile (reclaimable (io_workers dev ! i)) (qs ! i)) \<and>
    latest_nsecs w' = latest_nsecs (io_workers dev ! i)" using reclaim_abs [OF D(4)] by blast
  from bchoice [OF this] obtain g where g: "\<And>i. i < ?n \<Longrightarrow> reclaim_worker (io_workers dev ! i) = Some (g i)"
    "\<And>i. i < ?n \<Longrightarrow> wq_abs (g i) (dropWhile (reclaimable (io_workers dev ! i)) (qs ! i))"
    "\<And>i. i < ?n \<Longrightarrow> latest_nsecs (g i) = latest_nsecs (io_workers dev ! i)" by blast
  let ?ws = "map g [0..<?n]"
  have nr: "nr_io_workers dev = ?n" using a by (simp add: dev_abs_def)
  have "foldM (\<lambda>turn. upd_worker turn reclaim_worker) [0..<?n] dev = Some (dev\<lparr>io_workers := take ?n ?ws @ drop ?n (io_workers dev)\<rparr>)"
    by (rule reclaim_loop) (simp_all add: g(1))
  then have "reclaim_completed_reqs dev = Some (dev\<lparr>io_workers := ?ws\<rparr>)" by (simp add: reclaim_completed_reqs_def nr)
  moreover have "dev_abs (dev\<lparr>io_workers := ?ws\<rparr>) (map2 (\<lambda>w. dropWhile (reclaimable w)) (io_workers dev) qs)"
    using a g(2) D(2) by (simp add: dev_abs_def nr list_all2_conv_all_nth)
  moreover have "map latest_nsecs ?ws = map latest_nsecs (io_workers dev)"
    by (rule nth_equalityI) (simp_all add: g(3))
  ultimately show ?thesis by (auto simp: dev_same_def)
qed

end
