(* ===== verification/Dispatch_Client.thy ===== *)
theory Dispatch_Client
  imports Dispatch_Laws
begin

text \<open>
  The interface between the dispatcher and a namespace, and what the dispatcher does with any namespace that keeps it.
  \<open>ok n ns\<close> says that the namespace is well-formed and can afford commands of the total cost \<open>n\<close>; the handler takes or
  refuses every admissible command it can afford, schedules no more internal operations than its cost, and all on the
  submission queue of the command.
\<close>

section \<open>The contract of a namespace\<close>

locale io_namespace =
  fixes proc :: "'ns proc_io_cmd"
    and rel :: "nat \<Rightarrow> 'ns \<Rightarrow> 'ns"
    and ok :: "nat \<Rightarrow> 'ns \<Rightarrow> bool"
    and cost :: "nvme_command \<Rightarrow> nat"
    and good :: "nvme_command \<Rightarrow> bool"
  assumes serve: "\<And>n ns cmd sqid t. ok (cost cmd + n) ns \<Longrightarrow> good cmd \<Longrightarrow>
      \<exists>b res ops ns'. proc ns \<lparr>rq_cmd = cmd, rq_sq_id = sqid, rq_nsecs_start = t\<rparr> \<lparr>rs_status = NVME_SC_SUCCESS, rs_nsecs_target = t\<rparr> =
        Some (b, res, ops, ns') \<and> ok n ns' \<and> length ops \<le> cost cmd \<and> (\<forall>p \<in> set ops. io_sqid p = sqid)"
    and less: "\<And>n m ns. ok n ns \<Longrightarrow> m \<le> n \<Longrightarrow> ok m ns"
    and release: "\<And>n ns k. ok n ns \<Longrightarrow> ok n (rel k ns)"

text \<open>No request is lost: it stays in the list of its worker until it is copied and completed.\<close>

definition none_lost :: "io_work list list \<Rightarrow> io_work list list \<Rightarrow> bool" where
  "none_lost qs qs' \<longleftrightarrow> length qs' = length qs \<and>
     (\<forall>k < length qs. \<forall>x \<in> set (qs ! k). x \<in> set (qs' ! k) \<or> wk_is_completed x \<and> wk_is_copied x)"

lemma none_lost_refl [simp]: "none_lost qs qs"
  by (simp add: none_lost_def)

lemma none_lost_trans: "none_lost a b \<Longrightarrow> none_lost b c \<Longrightarrow> none_lost a c"
  unfolding none_lost_def by (metis (no_types))

lemma push_nth:
  "k < length qs \<Longrightarrow> push_req dev sqid p qs ! k =
    (if k = worker_of dev sqid \<and> Suc (length (qs ! k)) < NR_MAX_PARALLEL_IO then add_req (latest_of dev k) p (qs ! k) else qs ! k)"
  by (cases "k = worker_of dev sqid") (simp_all add: push_req_def Let_def)

lemma none_lost_push: "none_lost qs (push_req dev sqid p qs)"
proof -
  have "length (push_req dev sqid p qs) = length qs" by (simp add: push_req_def Let_def)
  then show ?thesis by (simp add: none_lost_def push_nth)
qed

lemma none_lost_reclaim: "length ws = length qs \<Longrightarrow> none_lost qs (map2 (\<lambda>w. dropWhile (reclaimable w)) ws qs)"
proof -
  assume l: "length ws = length qs"
  have "x \<in> set (dropWhile (reclaimable w) xs) \<or> wk_is_completed x \<and> wk_is_copied x" if "x \<in> set xs" for w x xs
  proof -
    have "x \<in> set (takeWhile (reclaimable w) xs) \<or> x \<in> set (dropWhile (reclaimable w) xs)"
      using that takeWhile_dropWhile_id [of "reclaimable w" xs] by (metis Un_iff set_append)
    then show ?thesis by (auto dest!: set_takeWhileD simp: reclaimable_def)
  qed
  then show ?thesis using l by (simp add: none_lost_def)
qed

lemma length_push [simp]: "length (push_req dev sqid p qs) = length qs"
  by (simp add: push_req_def Let_def)

lemma length_push_nth: "k < length qs \<Longrightarrow> length (push_req dev sqid p qs ! k) \<le> Suc (length (qs ! k))"
  by (simp add: push_nth)

lemma push_new:
  "dev_abs dev qs \<Longrightarrow> Suc (length (qs ! worker_of dev sqid)) < NR_MAX_PARALLEL_IO \<Longrightarrow> p \<in> set (push_req dev sqid p qs ! worker_of dev sqid)"
  using dev_absD(1,2) [of dev qs] by (simp add: push_req_def Let_def)

section \<open>Internal operations\<close>

lemma schedule_all:
  assumes "dev_abs dev qs" "\<forall>p \<in> set ops. io_sqid p = sqid"
  shows "\<exists>dev' qs'. foldM (schedule_internal_operation buf) ops dev = Some dev' \<and> dev_abs dev' qs' \<and> dev_same dev dev' \<and> none_lost qs qs' \<and>
    length (qs' ! worker_of dev sqid) \<le> length (qs ! worker_of dev sqid) + length ops"
  using assms
proof (induction ops arbitrary: dev qs)
  case Nil
  then show ?case by (intro exI [of _ dev] exI [of _ qs]) simp
next
  case (Cons p ops)
  obtain d1 old where d1: "schedule_internal_operation buf p dev = Some d1" "dev_same dev d1"
    "dev_abs d1 (push_req dev (io_sqid p) (payload (fill_internal (io_sqid p) (dclk dev (dtick dev)) (io_nsecs p) buf (io_release p) old)) qs)"
    using schedule_ok [OF Cons.prems(1), of buf p] by blast
  define q1 where "q1 = push_req dev (io_sqid p) (payload (fill_internal (io_sqid p) (dclk dev (dtick dev)) (io_nsecs p) buf (io_release p) old)) qs"
  have a1: "dev_abs d1 q1" using d1(3) q1_def by simp
  obtain d2 q2 where d2: "foldM (schedule_internal_operation buf) ops d1 = Some d2" "dev_abs d2 q2" "dev_same d1 d2" "none_lost q1 q2"
    "length (q2 ! worker_of d1 sqid) \<le> length (q1 ! worker_of d1 sqid) + length ops" using Cons.IH [OF a1] Cons.prems(2) by auto
  have w: "worker_of d1 sqid = worker_of dev sqid" using d1(2) by (simp add: worker_of_def dev_same_def)
  have "length (q1 ! worker_of dev sqid) \<le> Suc (length (qs ! worker_of dev sqid))"
    unfolding q1_def using dev_absD(1,2) [OF Cons.prems(1)] by (intro length_push_nth) simp
  then have "length (q2 ! worker_of dev sqid) \<le> length (qs ! worker_of dev sqid) + length (p # ops)" using d2(5) w by simp
  moreover have "none_lost qs q2" using none_lost_trans [OF _ d2(4)] none_lost_push q1_def by blast
  moreover have "foldM (schedule_internal_operation buf) (p # ops) dev = Some d2" using d1(1) d2(1) by simp
  ultimately show ?case using d2(2) dev_same_trans [OF d1(2) d2(3)] by blast
qed

section \<open>Dispatch\<close>

text \<open>A request for the entry \<open>sq_entry\<close> of the queue \<open>sqid\<close> that is in flight.\<close>

definition is_req :: "nat \<Rightarrow> nat \<Rightarrow> nat \<Rightarrow> nat \<Rightarrow> io_work \<Rightarrow> bool" where
  "is_req sqid cqid sq_entry cid x \<longleftrightarrow> wk_sqid x = sqid \<and> wk_cqid x = cqid \<and> wk_sq_entry x = sq_entry \<and> wk_command_id x = cid \<and>
     \<not> wk_is_completed x \<and> \<not> wk_is_copied x \<and> \<not> wk_is_internal x"

text \<open>All namespaces satisfy \<open>P\<close>.\<close>

definition all_ns :: "('ns \<Rightarrow> bool) \<Rightarrow> ('ns, 'm) nvmev_dev \<Rightarrow> bool" where
  "all_ns P dev \<longleftrightarrow> (\<forall>ns \<in> set (nspaces dev). P ns)"

text \<open>The entry that the loop of \<open>nvmev_proc_io_sq\<close> looks at in round \<open>j\<close> when it starts at \<open>s\<close>, and its command.\<close>

definition entry_at :: "submission_queue \<Rightarrow> nat \<Rightarrow> nat \<Rightarrow> nat" where
  "entry_at sq s j = (s + j) mod sq_size sq"

definition cmd_at :: "submission_queue \<Rightarrow> nat \<Rightarrow> nat \<Rightarrow> nvme_command" where
  "cmd_at sq s j = sq_entries sq ! entry_at sq s j"

definition admissible :: "(nvme_command \<Rightarrow> bool) \<Rightarrow> ('ns, 'm) nvmev_dev \<Rightarrow> submission_queue \<Rightarrow> nat \<Rightarrow> nat \<Rightarrow> bool" where
  "admissible good dev sq s n \<longleftrightarrow> (\<forall>j < n. good (cmd_at sq s j) \<and> dec32 (nsid (cmd_at sq s j)) < length (nspaces dev))"

definition costs :: "(nvme_command \<Rightarrow> nat) \<Rightarrow> submission_queue \<Rightarrow> nat \<Rightarrow> nat \<Rightarrow> nat" where
  "costs cost sq s n = sum_list (map (\<lambda>j. cost (cmd_at sq s j)) [0..<n])"

definition count_ios :: "nat \<Rightarrow> submission_queue \<Rightarrow> nat \<Rightarrow> nat \<Rightarrow> nvmev_sq_stat \<Rightarrow> nvmev_sq_stat" where
  "count_ios lba_bits sq s n st = fold count_io (map (\<lambda>j. cmd_io_size lba_bits (cmd_at sq s j)) [0..<n]) st"

text \<open>Dispatched entries: each of the first \<open>n\<close> is in flight.\<close>

definition dispatched :: "nat \<Rightarrow> submission_queue \<Rightarrow> nat \<Rightarrow> nat \<Rightarrow> io_work list \<Rightarrow> bool" where
  "dispatched sqid sq s n xs \<longleftrightarrow> (\<forall>j < n. \<exists>x \<in> set xs. is_req sqid (sq_cqid sq) (entry_at sq s j) (command_id (cmd_at sq s j)) x)"

lemma ptr_same: "ptr qs i = Some q \<Longrightarrow> qs[i := Some q] = qs"
proof -
  assume "ptr qs i = Some q"
  then have "qs ! i = Some q" by (auto simp: ptr_def bind_eq_Some_conv idx_def split: if_splits)
  then show ?thesis by (metis list_update_id)
qed

lemma upt_shift: "map f [0..<Suc n] = f 0 # map (\<lambda>j. f (Suc j)) [0..<n]"
  by (simp add: upt_conv_Cons map_Suc_upt [symmetric] comp_def del: upt_Suc)

lemma entry_next:
  "s < sq_size sq \<Longrightarrow> entry_at sq (if Suc s = sq_size sq then 0 else Suc s) j = entry_at sq s (Suc j)"
  "s < sq_size sq \<Longrightarrow> cmd_at sq (if Suc s = sq_size sq then 0 else Suc s) j = cmd_at sq s (Suc j)"
proof -
  assume s: "s < sq_size sq"
  have "(if Suc s = sq_size sq then 0 else Suc s) = Suc s mod sq_size sq" using s by auto
  then show e: "entry_at sq (if Suc s = sq_size sq then 0 else Suc s) j = entry_at sq s (Suc j)"
    by (simp only: entry_at_def mod_add_left_eq add_Suc add_Suc_right)
  show "cmd_at sq (if Suc s = sq_size sq then 0 else Suc s) j = cmd_at sq s (Suc j)" by (simp only: cmd_at_def e)
qed

lemma entry_0: "s < sq_size sq \<Longrightarrow> entry_at sq s 0 = s" "s < sq_size sq \<Longrightarrow> cmd_at sq s 0 = sq_entries sq ! s"
  by (simp_all add: entry_at_def cmd_at_def)

lemma entry_st [simp]: "entry_at (sq\<lparr>sq_st := x\<rparr>) = entry_at sq" "cmd_at (sq\<lparr>sq_st := x\<rparr>) = cmd_at sq"
  by (intro ext; simp add: entry_at_def cmd_at_def)+

lemma dispatched_keep:
  "none_lost qs qs' \<Longrightarrow> k < length qs \<Longrightarrow> x \<in> set (qs ! k) \<Longrightarrow> is_req a b c d x \<Longrightarrow> x \<in> set (qs' ! k)"
  unfolding none_lost_def is_req_def by blast

text \<open>Dispatching reads the clock and leaves the time of the workers and the memory alone.\<close>

definition clk_same :: "('ns, 'm) nvmev_dev \<Rightarrow> ('ns, 'm) nvmev_dev \<Rightarrow> bool" where
  "clk_same dev dev' \<longleftrightarrow> dmem dev' = dmem dev \<and> dclk dev' = dclk dev \<and> dtick dev \<le> dtick dev' \<and> map latest_nsecs (io_workers dev') = map latest_nsecs (io_workers dev)"

lemma clk_same_refl [simp]: "clk_same dev dev"
  by (simp add: clk_same_def)

lemma clk_same_trans: "clk_same a b \<Longrightarrow> clk_same b c \<Longrightarrow> clk_same a c"
  by (simp add: clk_same_def)

lemma clk_dev_same: "dev_same a b \<Longrightarrow> clk_same a b"
  by (simp add: clk_same_def dev_same_def)

context io_namespace begin

lemma proc_io_ok:
  assumes a: "dev_abs dev qs" and sq: "ptr (sqes dev) sqid = Some sq" "sq_entry < length (sq_entries sq)"
    and c: "cmd = sq_entries sq ! sq_entry" "good cmd" "dec32 (nsid cmd) < length (nspaces dev)" and o: "all_ns (ok (cost cmd + n)) dev"
  shows "\<exists>r dev' qs'. proc_io proc lba_bits sqid sq_entry dev = Some (r, dev') \<and> dev_abs dev' qs' \<and> none_lost qs qs' \<and> all_ns (ok n) dev' \<and>
    length (nspaces dev') = length (nspaces dev) \<and> sqes dev' = sqes dev \<and> cqes dev' = cqes dev \<and> nr_io_workers dev' = nr_io_workers dev \<and> clk_same dev dev' \<and>
    length (qs' ! worker_of dev sqid) \<le> length (qs ! worker_of dev sqid) + cost cmd + 1 \<and>
    (r = None \<or> r = Some (cmd_io_size lba_bits cmd) \<and>
      (length (qs ! worker_of dev sqid) + cost cmd + 1 < NR_MAX_PARALLEL_IO \<longrightarrow>
        (\<exists>x \<in> set (qs' ! worker_of dev sqid). is_req sqid (sq_cqid sq) sq_entry (command_id cmd) x)))"
proof -
  let ?i = "dec32 (nsid cmd)" let ?t = "dclk dev (dtick dev)" let ?k = "worker_of dev sqid"
  have ns: "ok (cost cmd + n) (nspaces dev ! ?i)" using o c(3) by (simp add: all_ns_def)
  obtain b res ops ns' where p: "proc (nspaces dev ! ?i) \<lparr>rq_cmd = cmd, rq_sq_id = sqid, rq_nsecs_start = ?t\<rparr>
      \<lparr>rs_status = NVME_SC_SUCCESS, rs_nsecs_target = ?t\<rparr> = Some (b, res, ops, ns')" "ok n ns'" "length ops \<le> cost cmd" "\<forall>p \<in> set ops. io_sqid p = sqid"
    using serve [OF ns c(2)] by blast
  let ?d0 = "dev\<lparr>dtick := dtick dev + 1, nspaces := (nspaces dev)[?i := ns']\<rparr>"
  have a0: "dev_abs ?d0 qs" using a by (simp add: dev_abs_def)
  obtain d1 q1 where d1: "foldM (schedule_internal_operation ?i) ops ?d0 = Some d1" "dev_abs d1 q1" "dev_same ?d0 d1" "none_lost qs q1"
    "length (q1 ! worker_of ?d0 sqid) \<le> length (qs ! worker_of ?d0 sqid) + length ops" using schedule_all [OF a0 p(4)] by blast
  have F: "nspaces d1 = (nspaces dev)[?i := ns']" "sqes d1 = sqes dev" "cqes d1 = cqes dev" "nr_io_workers d1 = nr_io_workers dev" "worker_of d1 sqid = ?k"
    "worker_of ?d0 sqid = ?k"
    using d1(3) by (simp_all add: dev_same_def worker_of_def)
  have ck: "clk_same dev d1" using d1(3) by (simp add: clk_same_def dev_same_def)
  have ao: "all_ns (ok n) d1" unfolding all_ns_def F(1)
  proof
    fix x assume "x \<in> set ((nspaces dev)[?i := ns'])"
    then have "x = ns' \<or> x \<in> set (nspaces dev)" by (meson in_mono insertE set_update_subset_insert)
    then show "ok n x" using p(2) o less [of "cost cmd + n" x n] by (auto simp: all_ns_def)
  qed
  have pr: "proc_io proc lba_bits sqid sq_entry dev = (if \<not> b then Some (None, d1) else do {
           dev \<leftarrow> enqueue_io_req sqid (sq_cqid sq) sq_entry ?t res d1;
           dev \<leftarrow> reclaim_completed_reqs dev;
           Some (Some (cmd_io_size lba_bits cmd), dev) })"
    using sq c(1,3) p(1) d1(1) by (simp add: proc_io_def read_clk_def arr_simps Let_def)
  show ?thesis
  proof (cases b)
    case False
    then have "proc_io proc lba_bits sqid sq_entry dev = Some (None, d1)" using pr by simp
    moreover have "length (nspaces d1) = length (nspaces dev)" using F(1) by simp
    moreover have "length (q1 ! ?k) \<le> length (qs ! ?k) + cost cmd + 1" using d1(5) p(3) F(6) by simp
    ultimately show ?thesis using d1(2,4) ao F ck by blast
  next
    case True
    define x where "x = (\<lambda>old. payload (fill_req sqid (sq_cqid sq) sq_entry (command_id cmd) ?t (dclk d1 (dtick d1)) res old))"
    obtain d2 old where d2: "enqueue_io_req sqid (sq_cqid sq) sq_entry ?t res d1 = Some d2" "dev_abs d2 (push_req d1 sqid (x old) q1)" "dev_same d1 d2"
      using enqueue_ok [OF d1(2), of sqid sq sq_entry "sq_cqid sq" ?t res] sq c(1) F(2) unfolding x_def by auto
    define q2 where "q2 = push_req d1 sqid (x old) q1"
    have a2: "dev_abs d2 q2" using d2(2) q2_def by simp
    let ?q3 = "map2 (\<lambda>w. dropWhile (reclaimable w)) (io_workers d2) q2"
    obtain d3 where d3: "reclaim_completed_reqs d2 = Some d3" "dev_abs d3 ?q3" "dev_same d2 d3" using reclaim_ok [OF a2] by blast
    have k2: "none_lost q2 ?q3" using dev_absD(2) [OF a2] by (intro none_lost_reclaim) simp
    have "none_lost q1 q2" by (simp add: q2_def none_lost_push)
    then have k: "none_lost qs ?q3" using d1(4) k2 none_lost_trans by blast
    have new: "\<exists>y \<in> set (?q3 ! ?k). is_req sqid (sq_cqid sq) sq_entry (command_id cmd) y" if l: "length (qs ! ?k) + cost cmd + 1 < NR_MAX_PARALLEL_IO"
    proof -
      have "Suc (length (q1 ! ?k)) < NR_MAX_PARALLEL_IO" using l d1(5) p(3) F(6) by simp
      then have m: "x old \<in> set (q2 ! ?k)" using push_new [OF d1(2), of sqid "x old"] F(5) q2_def by simp
      have r: "is_req sqid (sq_cqid sq) sq_entry (command_id cmd) (x old)"
        by (simp add: x_def is_req_def fill_req_def payload_def)
      have "?k < length q2" using dev_absD(1) [OF a, of sqid] dev_absD(2) [OF d1(2)] dev_absD(2) [OF a] d1(4) by (simp add: q2_def none_lost_def)
      then have "x old \<in> set (?q3 ! ?k) \<or> wk_is_completed (x old) \<and> wk_is_copied (x old)" using k2 m unfolding none_lost_def by blast
      then show ?thesis using r unfolding is_req_def by blast
    qed
    have ex: "proc_io proc lba_bits sqid sq_entry dev = Some (Some (cmd_io_size lba_bits cmd), d3)" using pr d2(1) d3(1) True by simp
    have G: "nspaces d3 = nspaces d1" "sqes d3 = sqes dev" "cqes d3 = cqes dev" "nr_io_workers d3 = nr_io_workers dev"
      using d2(3) d3(3) F by (simp_all add: dev_same_def)
    have "all_ns (ok n) d3" "length (nspaces d3) = length (nspaces dev)" using ao G(1) F(1) by (simp_all add: all_ns_def)
    moreover have "length (?q3 ! ?k) \<le> length (qs ! ?k) + cost cmd + 1"
    proof -
      have kl: "?k < length q1" "?k < length q2" using dev_absD(1) [OF a, of sqid] dev_absD(2) [OF d1(2)] dev_absD(2) [OF a] d1(4)
        by (simp_all add: q2_def none_lost_def)
      have "length (?q3 ! ?k) \<le> length (q2 ! ?k)" using kl(2) dev_absD(2) [OF a2] by (simp add: length_dropWhile_le)
      also have "\<dots> \<le> Suc (length (q1 ! ?k))" unfolding q2_def by (rule length_push_nth [OF kl(1)])
      finally show ?thesis using d1(5) p(3) F(6) by simp
    qed
    moreover have "clk_same dev d3"
      using clk_same_trans [OF ck clk_same_trans [OF clk_dev_same [OF d2(3)] clk_dev_same [OF d3(3)]]] .
    ultimately show ?thesis using ex d3(2) k G(2-4) new by blast
  qed
qed

lemma sq_loop_ok:
  assumes "dev_abs dev qs" "ptr (sqes dev) sqid = Some sq" "sq_size sq \<le> length (sq_entries sq)" "s < sq_size sq"
    and "admissible good dev sq s n" "all_ns (ok (costs cost sq s n + m)) dev"
  shows "\<exists>k dev' qs'. sq_loop proc lba_bits sqid n j s dev = Some (j + k, dev') \<and> k \<le> n \<and> dev_abs dev' qs' \<and> none_lost qs qs' \<and>
    all_ns (ok m) dev' \<and> length (nspaces dev') = length (nspaces dev) \<and> cqes dev' = cqes dev \<and> nr_io_workers dev' = nr_io_workers dev \<and> clk_same dev dev' \<and>
    sqes dev' = (sqes dev)[sqid := Some (sq\<lparr>sq_st := count_ios lba_bits sq s k (sq_st sq)\<rparr>)] \<and>
    (k < n \<longrightarrow> (\<exists>d. proc_io proc lba_bits sqid (entry_at sq s k) d = Some (None, dev'))) \<and>
    (length (qs ! worker_of dev sqid) + costs cost sq s n + n < NR_MAX_PARALLEL_IO \<longrightarrow> dispatched sqid sq s k (qs' ! worker_of dev sqid))"
  using assms
proof (induction n arbitrary: dev qs sq s j)
  case 0
  have "(sqes dev)[sqid := Some sq] = sqes dev" by (rule ptr_same [OF "0.prems"(2)])
  then show ?case using "0.prems"
    by (intro exI [of _ 0] exI [of _ dev] exI [of _ qs]) (simp add: costs_def count_ios_def dispatched_def)
next
  case (Suc n)
  let ?cmd = "sq_entries sq ! s" let ?k = "worker_of dev sqid" let ?s' = "if Suc s = sq_size sq then 0 else Suc s"
  note N = entry_next [OF Suc.prems(4)] note Z = entry_0 [OF Suc.prems(4)]
  have s: "s < length (sq_entries sq)" using Suc.prems(3,4) by simp
  have gd: "good ?cmd" "dec32 (nsid ?cmd) < length (nspaces dev)" using Suc.prems(5) Z by (auto simp: admissible_def)
  have co: "costs cost sq s (Suc n) = cost ?cmd + costs cost sq ?s' n" by (simp only: costs_def upt_shift N Z) simp
  have o: "all_ns (ok (cost ?cmd + (costs cost sq ?s' n + m))) dev" using Suc.prems(6) by (simp only: co add.assoc)
  obtain r d1 q1 where p: "proc_io proc lba_bits sqid s dev = Some (r, d1)" "dev_abs d1 q1" "none_lost qs q1" "all_ns (ok (costs cost sq ?s' n + m)) d1"
    "length (nspaces d1) = length (nspaces dev)" "sqes d1 = sqes dev" "cqes d1 = cqes dev" "nr_io_workers d1 = nr_io_workers dev" "clk_same dev d1"
    "length (q1 ! ?k) \<le> length (qs ! ?k) + cost ?cmd + 1"
    "r = None \<or> r = Some (cmd_io_size lba_bits ?cmd) \<and> (length (qs ! ?k) + cost ?cmd + 1 < NR_MAX_PARALLEL_IO \<longrightarrow>
        (\<exists>x \<in> set (q1 ! ?k). is_req sqid (sq_cqid sq) s (command_id ?cmd) x))"
    using proc_io_ok [OF Suc.prems(1,2) s refl gd o, of lba_bits] by blast
  show ?case
  proof (cases r)
    case None
    have "(sqes dev)[sqid := Some sq] = sqes dev" by (rule ptr_same [OF Suc.prems(2)])
    moreover have "all_ns (ok m) d1" using p(4) less by (auto simp: all_ns_def)
    moreover have "sq_loop proc lba_bits sqid (Suc n) j s dev = Some (j + 0, d1)" using p(1) None by simp
    ultimately show ?thesis using p None Z(1)
      by (intro exI [of _ 0] exI [of _ d1] exI [of _ q1]) (auto simp: count_ios_def dispatched_def)
  next
    case (Some z)
    have z: "z = cmd_io_size lba_bits ?cmd" using p(11) Some by simp
    let ?sq = "sq\<lparr>sq_st := count_io z (sq_st sq)\<rparr>"
    let ?d2 = "d1\<lparr>sqes := (sqes dev)[sqid := Some ?sq]\<rparr>"
    have sl: "sqid < length (sqes dev)" using Suc.prems(2) by (auto simp: ptr_def bind_eq_Some_conv idx_def split: if_splits)
    have pt: "ptr (sqes d1) sqid = Some sq" using p(6) Suc.prems(2) by simp
    have step: "sq_loop proc lba_bits sqid (Suc n) j s dev = sq_loop proc lba_bits sqid n (Suc j) ?s' ?d2"
      using p(1,6) Some pt by (simp add: upd_sq_def)
    have h: "dev_abs ?d2 q1" "ptr (sqes ?d2) sqid = Some ?sq" "sq_size ?sq \<le> length (sq_entries ?sq)" "?s' < sq_size ?sq"
      using p(2) sl Suc.prems(3,4) by (auto simp: dev_abs_def ptr_def arr_simps)
    have h2: "admissible good ?d2 ?sq ?s' n" unfolding admissible_def entry_st N
      using Suc.prems(5) p(5) by (simp add: admissible_def)
    have h3: "all_ns (ok (costs cost ?sq ?s' n + m)) ?d2" using p(4) by (simp add: all_ns_def costs_def)
    obtain k d3 q3 where l: "sq_loop proc lba_bits sqid n (Suc j) ?s' ?d2 = Some (Suc j + k, d3)" "k \<le> n" "dev_abs d3 q3" "none_lost q1 q3"
      "all_ns (ok m) d3" "length (nspaces d3) = length (nspaces ?d2)" "cqes d3 = cqes ?d2" "nr_io_workers d3 = nr_io_workers ?d2" "clk_same ?d2 d3"
      "sqes d3 = (sqes ?d2)[sqid := Some (?sq\<lparr>sq_st := count_ios lba_bits ?sq ?s' k (sq_st ?sq)\<rparr>)]"
      "k < n \<longrightarrow> (\<exists>d. proc_io proc lba_bits sqid (entry_at ?sq ?s' k) d = Some (None, d3))"
      "length (q1 ! worker_of ?d2 sqid) + costs cost ?sq ?s' n + n < NR_MAX_PARALLEL_IO \<longrightarrow> dispatched sqid ?sq ?s' k (q3 ! worker_of ?d2 sqid)"
      using Suc.IH [OF h h2 h3, of "Suc j"] by blast
    have w: "worker_of ?d2 sqid = ?k" using p(8) by (simp add: worker_of_def)
    have kl: "?k < length q1" using dev_absD(1) [OF Suc.prems(1), of sqid] dev_absD(2) [OF Suc.prems(1)] p(3) by (simp add: none_lost_def)
    have ci: "count_ios lba_bits sq s (Suc k) (sq_st sq) = count_ios lba_bits ?sq ?s' k (count_io z (sq_st sq))"
      by (simp only: count_ios_def upt_shift N Z z entry_st) simp
    have di: "dispatched sqid sq s (Suc k) (q3 ! ?k)" if r: "length (qs ! ?k) + costs cost sq s (Suc n) + Suc n < NR_MAX_PARALLEL_IO"
    proof -
      have cs: "costs cost ?sq ?s' n = costs cost sq ?s' n" by (simp add: costs_def)
      have "length (q1 ! ?k) + costs cost sq ?s' n + n < NR_MAX_PARALLEL_IO" using r p(10) co by linarith
      then have d: "dispatched sqid ?sq ?s' k (q3 ! ?k)" using l(12) w cs by simp
      have "length (qs ! ?k) + cost ?cmd + 1 < NR_MAX_PARALLEL_IO" using r co by linarith
      then obtain x where x: "x \<in> set (q1 ! ?k)" "is_req sqid (sq_cqid sq) s (command_id ?cmd) x" using p(11) Some by blast
      have x3: "x \<in> set (q3 ! ?k)" by (rule dispatched_keep [OF l(4) kl x])
      show ?thesis unfolding dispatched_def
      proof (intro allI impI)
        fix i assume i: "i < Suc k"
        show "\<exists>x \<in> set (q3 ! ?k). is_req sqid (sq_cqid sq) (entry_at sq s i) (command_id (cmd_at sq s i)) x"
        proof (cases i)
          case 0
          then show ?thesis using x(2) x3 Z by auto
        next
          case (Suc i')
          then show ?thesis using d i unfolding dispatched_def entry_st N by auto
        qed
      qed
    qed
    have "sqes d3 = (sqes dev)[sqid := Some (sq\<lparr>sq_st := count_ios lba_bits sq s (Suc k) (sq_st sq)\<rparr>)]"
      using l(10) by (simp add: ci)
    moreover have "Suc k < Suc n \<longrightarrow> (\<exists>d. proc_io proc lba_bits sqid (entry_at sq s (Suc k)) d = Some (None, d3))"
      using l(11) unfolding entry_st N by simp
    moreover have "sq_loop proc lba_bits sqid (Suc n) j s dev = Some (j + Suc k, d3)" using step l(1) by simp
    moreover have "clk_same dev d3" using p(9) l(9) by (simp add: clk_same_def)
    ultimately show ?thesis using l(2-8) none_lost_trans [OF p(3) l(4)] p(5,7,8) di
      by (intro exI [of _ "Suc k"] exI [of _ d3] exI [of _ q3]) simp
  qed
qed

lemma proc_io_sq_ok:
  fixes new_db old_db and dev :: "('ns, 'm) nvmev_dev"
  assumes a: "dev_abs dev qs" "ptr (sqes dev) sqid = Some sq" "sq_size sq \<le> length (sq_entries sq)" "old_db < sq_size sq" "new_db < sq_size sq"
  defines "n \<equiv> (if new_db < old_db then new_db + sq_size sq - old_db else new_db - old_db)"
  assumes b: "admissible good dev sq old_db n" "all_ns (ok (costs cost sq old_db n + m)) dev"
  shows "\<exists>k dev' qs'. nvmev_proc_io_sq proc lba_bits sqid new_db old_db dev = Some (entry_at sq old_db k, dev') \<and> k \<le> n \<and>
    (k = n \<longrightarrow> entry_at sq old_db k = new_db) \<and> dev_abs dev' qs' \<and> none_lost qs qs' \<and> all_ns (ok m) dev' \<and>
    clk_same dev dev' \<and> cqes dev' = cqes dev \<and> ptr (sqes dev') sqid = Some (sq\<lparr>sq_st := end_dispatch (count_ios lba_bits sq old_db k (sq_st sq))\<rparr>) \<and>
    (k < n \<longrightarrow> (\<exists>d (d' :: ('ns, 'm) nvmev_dev). proc_io proc lba_bits sqid (entry_at sq old_db k) d = Some (None, d'))) \<and>
    (length (qs ! worker_of dev sqid) + costs cost sq old_db n + n < NR_MAX_PARALLEL_IO \<longrightarrow> dispatched sqid sq old_db k (qs' ! worker_of dev sqid))"
proof -
  obtain k d q' where l: "sq_loop proc lba_bits sqid n 0 old_db dev = Some (0 + k, d)" "k \<le> n" "dev_abs d q'" "none_lost qs q'"
    "all_ns (ok m) d" "length (nspaces d) = length (nspaces dev)" "cqes d = cqes dev" "nr_io_workers d = nr_io_workers dev" "clk_same dev d"
    "sqes d = (sqes dev)[sqid := Some (sq\<lparr>sq_st := count_ios lba_bits sq old_db k (sq_st sq)\<rparr>)]"
    "k < n \<longrightarrow> (\<exists>d'. proc_io proc lba_bits sqid (entry_at sq old_db k) d' = Some (None, d))"
    "length (qs ! worker_of dev sqid) + costs cost sq old_db n + n < NR_MAX_PARALLEL_IO \<longrightarrow> dispatched sqid sq old_db k (q' ! worker_of dev sqid)"
    using sq_loop_ok [OF a(1-4) b, of lba_bits 0] by blast
  have sl: "sqid < length (sqes dev)" "idx (sqes dev) sqid = Some (Some sq)"
    using a(2) by (auto simp: ptr_def bind_eq_Some_conv idx_def split: if_splits)
  let ?sq = "sq\<lparr>sq_st := end_dispatch (count_ios lba_bits sq old_db k (sq_st sq))\<rparr>"
  let ?d = "d\<lparr>sqes := (sqes dev)[sqid := Some ?sq]\<rparr>"
  have "nvmev_proc_io_sq proc lba_bits sqid new_db old_db dev = Some (entry_at sq old_db k, ?d)"
    using sl l(1,10) a(4) unfolding nvmev_proc_io_sq_def
    by (simp add: n_def [symmetric] upd_sq_def ptr_def arr_simps entry_at_def Let_def)
  moreover have "dev_abs ?d q'" "all_ns (ok m) ?d" "ptr (sqes ?d) sqid = Some ?sq"
    using l(3,5) sl by (simp_all add: dev_abs_def all_ns_def ptr_def arr_simps)
  moreover have "k = n \<longrightarrow> entry_at sq old_db k = new_db"
    using a(4,5) by (auto simp: entry_at_def n_def)
  moreover have "clk_same dev ?d" "cqes ?d = cqes dev" using l(7,9) by (simp_all add: clk_same_def)
  ultimately show ?thesis using l(2,4,11,12) by blast
qed

end

end
