(* ===== verification/Conv_Dispatch.thy ===== *)
theory Conv_Dispatch
  imports Dispatch_Client Conv_Io_Laws
begin

text \<open>
  The conventional namespace under the dispatcher: its handler \<open>conv_proc_nvme_io_cmd\<close> keeps the contract \<open>io_namespace\<close>.
  The cost of a write is the number of its pages, and a namespace can afford commands of cost \<open>n\<close> when each of its
  instances can afford \<open>n\<close> page writes.
\<close>

definition conv_release :: "nat \<Rightarrow> conv_ns \<Rightarrow> conv_ns" where
  "conv_release k ns = ns\<lparr>sh_wbuf := buffer_release (sh_wbuf ns) k\<rparr>"

definition conv_ok :: "ssdparams \<Rightarrow> nat \<Rightarrow> nat \<Rightarrow> conv_ns \<Rightarrow> bool" where
  "conv_ok spp B n ns \<longleftrightarrow> ns_inv spp ns \<and> b_size (sh_wbuf ns) = B \<and> (\<forall>i < nr_parts ns. affords (ftls ns ! i) n)"

definition conv_cost :: "ssdparams \<Rightarrow> nvme_command \<Rightarrow> nat" where
  "conv_cost spp c = (if opcode c = nvme_cmd_write then length (req_pages spp c) else 0)"

definition conv_good :: "ssd_config \<Rightarrow> ssdparams \<Rightarrow> nat \<Rightarrow> nvme_command \<Rightarrow> bool" where
  "conv_good cfg spp B c \<longleftrightarrow> LBA_BITS cfg \<le> 15 \<and>
     (opcode c = nvme_cmd_write \<longrightarrow> req_bytes cfg c \<le> B) \<and>
     (opcode c = nvme_cmd_read \<longrightarrow> (2 + (last_lpn spp c - first_lpn spp c)) * pgsz spp < 2 ^ 32)"

lemma conv_ok_less: "conv_ok spp B n ns \<Longrightarrow> m \<le> n \<Longrightarrow> conv_ok spp B m ns"
  using affords_mono by (auto simp: conv_ok_def)

lemma conv_ok_same: "conv_ok spp B n ns \<Longrightarrow> ns_inv spp ns' \<Longrightarrow> ns_same ns ns' \<Longrightarrow> conv_ok spp B n ns'"
proof -
  assume o: "conv_ok spp B n ns" and i: "ns_inv spp ns'" and s: "ns_same ns ns'"
  have np: "nr_parts ns' = nr_parts ns" "b_size (sh_wbuf ns') = b_size (sh_wbuf ns)" using s by (simp_all add: ns_same_def ns_frame_def)
  have "affords (ftls ns' ! j) n" if j: "j < nr_parts ns'" for j
  proof -
    have "spp_of (ftls ns' ! j) = spp" "spp_of (ftls ns ! j) = spp" using i o j np by (simp_all add: ns_inv_def conv_ok_def)
    moreover have "budget (ftls ns' ! j) = budget (ftls ns ! j)" using s j np by (simp add: ns_same_def)
    ultimately show ?thesis using affords_budget [of "ftls ns' ! j" "ftls ns ! j" n] o j np by (simp add: conv_ok_def)
  qed
  then show ?thesis using o i np by (simp add: conv_ok_def)
qed

lemma conv_serve_write:
  assumes o: "conv_ok spp B (length (req_pages spp (rq_cmd req)) + n) ns" and g: "LBA_BITS cfg \<le> 15" "req_bytes cfg (rq_cmd req) \<le> B"
  shows "\<exists>r ops ns'. conv_write cfg ns req = Some (r, ops, ns') \<and> conv_ok spp B n ns' \<and> length ops \<le> length (req_pages spp (rq_cmd req)) \<and>
    (\<forall>p \<in> set ops. io_sqid p = rq_sq_id req)"
proof -
  let ?c = "rq_cmd req"
  have inv: "ns_inv spp ns" and B: "b_size (sh_wbuf ns) = B" using o by (simp_all add: conv_ok_def)
  have o': "conv_ok spp B n ns" using conv_ok_less [OF o] by simp
  consider "\<not> in_range spp ns ?c" | "in_range spp ns ?c" "b_remaining (sh_wbuf ns) < req_bytes cfg ?c"
    | "in_range spp ns ?c" "req_bytes cfg ?c \<le> b_remaining (sh_wbuf ns)" by linarith
  then show ?thesis
  proof cases
    case 1
    then show ?thesis using conv_write_refused [OF inv] o' by fastforce
  next
    case 2
    then show ?thesis using conv_write_full [OF inv 2] g(2) B o' by fastforce
  next
    case 3
    have af: "\<forall>i < nr_parts ns. affords (ftls ns ! i) (share (nr_parts ns) i (req_pages spp ?c) + n)"
    proof (intro allI impI)
      fix i assume "i < nr_parts ns"
      then have "affords (ftls ns ! i) (length (req_pages spp ?c) + n)" using o by (simp add: conv_ok_def)
      then show "affords (ftls ns ! i) (share (nr_parts ns) i (req_pages spp ?c) + n)"
        by (rule affords_mono) (simp add: share_def)
    qed
    have bs: "req_bytes cfg ?c \<le> b_size (sh_wbuf ns)" using g(2) B by simp
    obtain res ops ns' t where w: "conv_write cfg ns req = Some (Some res, ops, ns')" "ns_inv spp ns'" "b_size (sh_wbuf ns') = b_size (sh_wbuf ns)"
      "\<forall>o' \<in> set ops. op_ok spp (rq_sq_id req) (rq_nsecs_start req) t o'" "length ops \<le> length (req_pages spp ?c)" "nr_parts ns' = nr_parts ns"
      "\<forall>i < nr_parts ns. affords (ftls ns' ! i) n" using conv_write_taken [OF inv 3(1) g(1) 3(2) bs af] by blast
    have "conv_ok spp B n ns'" using w(2,3,6,7) B by (simp add: conv_ok_def)
    moreover have "\<forall>p \<in> set ops. io_sqid p = rq_sq_id req" using w(4) by (simp add: op_ok_def)
    ultimately show ?thesis using w(1,5) by blast
  qed
qed

interpretation conv_cmds: io_namespace "conv_proc_nvme_io_cmd cfg" conv_release "conv_ok spp B" "conv_cost spp" "conv_good cfg spp B"
  for cfg spp B
proof
  fix n :: nat and ns :: conv_ns and cmd :: nvme_command and sqid t :: nat
  assume o: "conv_ok spp B (conv_cost spp cmd + n) ns" and g: "conv_good cfg spp B cmd"
  let ?req = "\<lparr>rq_cmd = cmd, rq_sq_id = sqid, rq_nsecs_start = t\<rparr>" let ?ret = "\<lparr>rs_status = NVME_SC_SUCCESS, rs_nsecs_target = t\<rparr>"
  have inv: "ns_inv spp ns" and c: "ns_csi ns = NVME_CSI_NVM" using o by (simp_all add: conv_ok_def ns_inv_def)
  have o': "conv_ok spp B n ns" using conv_ok_less [OF o] by simp
  show "\<exists>b res ops ns'. conv_proc_nvme_io_cmd cfg ns ?req ?ret = Some (b, res, ops, ns') \<and> conv_ok spp B n ns' \<and>
      length ops \<le> conv_cost spp cmd \<and> (\<forall>p \<in> set ops. io_sqid p = sqid)"
  proof (cases "opcode cmd = nvme_cmd_write")
    case True
    then have cc: "conv_cost spp cmd = length (req_pages spp (rq_cmd ?req))" by (simp add: conv_cost_def)
    obtain r ops ns' where w: "conv_write cfg ns ?req = Some (r, ops, ns')" "conv_ok spp B n ns'" "length ops \<le> length (req_pages spp (rq_cmd ?req))"
      "\<forall>p \<in> set ops. io_sqid p = rq_sq_id ?req"
      using conv_serve_write [of spp B ?req n ns cfg] o g True unfolding cc by (auto simp: conv_good_def)
    then show ?thesis using True c cc by (cases r) (simp_all add: conv_proc_nvme_io_cmd_def ex_bool_eq)
  next
    case nw: False
    show ?thesis
    proof (cases "opcode cmd = nvme_cmd_read")
      case True
      show ?thesis
      proof (cases "in_range spp ns cmd")
        case False
        then show ?thesis using conv_read_refused [OF inv, of ?req cfg] True nw c o' by (simp add: conv_proc_nvme_io_cmd_def ex_bool_eq)
      next
        case r: True
        have "(2 + (last_lpn spp (rq_cmd ?req) - first_lpn spp (rq_cmd ?req))) * pgsz spp < 2 ^ 32" using g True by (simp add: conv_good_def)
        then obtain tt ns' where "conv_read cfg ns ?req = Some (Some \<lparr>rs_status = NVME_SC_SUCCESS, rs_nsecs_target = tt\<rparr>, ns')" "ns_inv spp ns'" "ns_same ns ns'"
          using conv_read_ok [OF inv, of ?req cfg] r by auto
        then show ?thesis using True nw c conv_ok_same [OF o'] by (simp add: conv_proc_nvme_io_cmd_def ex_bool_eq)
      qed
    next
      case nr: False
      show ?thesis
      proof (cases "opcode cmd = nvme_cmd_flush")
        case True
        obtain tt ns' where "conv_flush ns = Some (\<lparr>rs_status = NVME_SC_SUCCESS, rs_nsecs_target = tt\<rparr>, ns')" "ns_inv spp ns'" "ns_same ns ns'"
          using conv_flush_ok [OF inv] by blast
        then show ?thesis using True nw nr c conv_ok_same [OF o'] by (simp add: conv_proc_nvme_io_cmd_def ex_bool_eq)
      next
        case False
        then show ?thesis using nw nr c o' by (simp add: conv_proc_nvme_io_cmd_def ex_bool_eq)
      qed
    qed
  qed
next
  fix n m :: nat and ns :: conv_ns
  assume "conv_ok spp B n ns" "m \<le> n"
  then show "conv_ok spp B m ns" by (rule conv_ok_less)
next
  fix n k :: nat and ns :: conv_ns
  assume "conv_ok spp B n ns"
  then show "conv_ok spp B n (conv_release k ns)" by (simp add: conv_ok_def conv_release_def ns_inv_wbuf buffer_release_def)
qed

end
