(* ===== verification/Conv_Reach.thy ===== *)
theory Conv_Reach
  imports Conv_Dispatch
begin

text \<open>
  The histories of a conventional namespace: host commands through \<open>conv_proc_nvme_io_cmd\<close> and releases of buffer space by
  the worker, in any order, from the namespace that the constructor leaves. A history is indexed by the set of the logical
  pages whose write was taken.
\<close>

text \<open>Commands that the model answers for: a write fits the whole write buffer and the instances can afford its pages (each
  keeps two lines of room for collection); a read does not exceed the width of a transfer size.\<close>

definition acceptable :: "ssd_config \<Rightarrow> ssdparams \<Rightarrow> conv_ns \<Rightarrow> nvme_command \<Rightarrow> bool" where
  "acceptable cfg spp ns c \<longleftrightarrow> LBA_BITS cfg \<le> 15 \<and>
     (opcode c = nvme_cmd_write \<longrightarrow> req_bytes cfg c \<le> b_size (sh_wbuf ns) \<and>
        (\<forall>i < nr_parts ns. affords (ftls ns ! i) (share (nr_parts ns) i (req_pages spp c)))) \<and>
     (opcode c = nvme_cmd_read \<longrightarrow> (2 + (last_lpn spp c - first_lpn spp c)) * pgsz spp < 2 ^ 32)"

text \<open>The pages that a command adds: those of a write that the handler takes (\<open>b\<close>, the value it returns).\<close>

definition written :: "ssdparams \<Rightarrow> bool \<Rightarrow> nvme_command \<Rightarrow> nat set" where
  "written spp b c = (if b \<and> opcode c = nvme_cmd_write then set (req_pages spp c) else {})"

inductive conv_run :: "ssd_config \<Rightarrow> ssdparams \<Rightarrow> conv_ns \<Rightarrow> conv_ns \<Rightarrow> nat set \<Rightarrow> bool" for cfg spp ns0 where
  conv_run_start: "conv_run cfg spp ns0 ns0 {}"
| conv_run_command: "conv_run cfg spp ns0 ns W \<Longrightarrow> acceptable cfg spp ns (rq_cmd req) \<Longrightarrow>
    conv_proc_nvme_io_cmd cfg ns req ret = Some (b, res, ops, ns') \<Longrightarrow> conv_run cfg spp ns0 ns' (W \<union> written spp b (rq_cmd req))"
| conv_run_release: "conv_run cfg spp ns0 ns W \<Longrightarrow> conv_run cfg spp ns0 (conv_release k ns) W"

text \<open>Every acceptable command is processed, keeps the invariant and adds its pages.\<close>

lemma conv_command_ok:
  assumes inv: "ns_inv spp ns" and g: "acceptable cfg spp ns (rq_cmd req)"
  shows "\<exists>b res ops ns'. conv_proc_nvme_io_cmd cfg ns req ret = Some (b, res, ops, ns') \<and> ns_inv spp ns' \<and>
    nr_parts ns' = nr_parts ns \<and> mapped ns' = mapped ns \<union> written spp b (rq_cmd req)"
proof -
  let ?c = "rq_cmd req"
  have c: "ns_csi ns = NVME_CSI_NVM" using inv by (simp add: ns_inv_def)
  have same: "nr_parts ns' = nr_parts ns \<and> mapped ns' = mapped ns" if "ns_same ns ns'" for ns'
    using that by (simp add: ns_same_def ns_frame_def)
  show ?thesis
  proof (cases "opcode ?c = nvme_cmd_write")
    case True
    then have A: "LBA_BITS cfg \<le> 15" "req_bytes cfg ?c \<le> b_size (sh_wbuf ns)"
      "\<forall>i < nr_parts ns. affords (ftls ns ! i) (share (nr_parts ns) i (req_pages spp ?c) + 0)"
      using g by (simp_all add: acceptable_def)
    consider "\<not> in_range spp ns ?c" | "in_range spp ns ?c" "b_remaining (sh_wbuf ns) < req_bytes cfg ?c"
      | "in_range spp ns ?c" "req_bytes cfg ?c \<le> b_remaining (sh_wbuf ns)" by linarith
    then show ?thesis
    proof cases
      case 1
      then show ?thesis using conv_write_refused [OF inv 1] True c inv by (simp add: conv_proc_nvme_io_cmd_def written_def ex_bool_eq)
    next
      case 2
      then show ?thesis using conv_write_full [OF inv 2 A(2)] True c inv by (simp add: conv_proc_nvme_io_cmd_def written_def ex_bool_eq)
    next
      case 3
      obtain res ops ns' where w: "conv_write cfg ns req = Some (Some res, ops, ns')" "ns_inv spp ns'" "nr_parts ns' = nr_parts ns"
        "mapped ns' = mapped ns \<union> set (req_pages spp ?c)"
        using conv_write_taken [OF inv 3(1) A(1) 3(2) A(2,3)] by blast
      then show ?thesis using True c by (simp add: conv_proc_nvme_io_cmd_def written_def ex_bool_eq)
    qed
  next
    case nw: False
    then have e: "written spp b ?c = {}" for b by (simp add: written_def)
    consider "opcode ?c = nvme_cmd_read" "in_range spp ns ?c" | "opcode ?c = nvme_cmd_read" "\<not> in_range spp ns ?c"
      | "opcode ?c \<noteq> nvme_cmd_read" "opcode ?c = nvme_cmd_flush" | "opcode ?c \<noteq> nvme_cmd_read" "opcode ?c \<noteq> nvme_cmd_flush" by blast
    then show ?thesis
    proof cases
      case 1
      then have "(2 + (last_lpn spp ?c - first_lpn spp ?c)) * pgsz spp < 2 ^ 32" using g by (simp add: acceptable_def)
      then obtain t ns' where "conv_read cfg ns req = Some (Some \<lparr>rs_status = NVME_SC_SUCCESS, rs_nsecs_target = t\<rparr>, ns')"
        "ns_inv spp ns'" "ns_same ns ns'" using conv_read_ok [OF inv 1(2)] by blast
      then show ?thesis using 1 nw c same by (simp add: conv_proc_nvme_io_cmd_def e ex_bool_eq)
    next
      case 2
      then show ?thesis using conv_read_refused [OF inv 2(2), of cfg] nw c inv by (simp add: conv_proc_nvme_io_cmd_def e ex_bool_eq)
    next
      case 3
      obtain t ns' where "conv_flush ns = Some (\<lparr>rs_status = NVME_SC_SUCCESS, rs_nsecs_target = t\<rparr>, ns')"
        "ns_inv spp ns'" "ns_same ns ns'" using conv_flush_ok [OF inv] by blast
      then show ?thesis using 3 nw c same by (simp add: conv_proc_nvme_io_cmd_def e ex_bool_eq)
    next
      case 4
      then show ?thesis using nw c inv by (simp add: conv_proc_nvme_io_cmd_def e ex_bool_eq)
    qed
  qed
qed

lemma conv_run_inv:
  assumes "conv_run cfg spp ns0 ns W" "ns_inv spp ns0" "mapped ns0 = {}"
  shows "ns_inv spp ns \<and> nr_parts ns = nr_parts ns0 \<and> mapped ns = W"
  using assms(1)
proof induction
  case conv_run_start
  then show ?case using assms(2,3) by simp
next
  case (conv_run_command ns W req ret b res ops ns')
  then show ?case using conv_command_ok [of spp ns cfg req ret] by auto
next
  case (conv_run_release ns W k)
  have "mapped (ns\<lparr>sh_wbuf := w\<rparr>) = mapped ns" for w by (simp add: mapped_def)
  then show ?case using conv_run_release.IH by (simp add: conv_release_def ns_inv_wbuf)
qed

text \<open>From the constructor.\<close>

lemma conv_run_ready:
  assumes "conv_init_namespace cfg junk j clock cf0 spp0 mem nid sz cpu = Some ns0" "conv_run cfg spp ns0 ns W"
    and "ssd_init_params_slc cfg sz (SSD_PARTITIONS cfg) = Some spp" "params_ok spp" "0 < SSD_PARTITIONS cfg"
  shows "ns_inv spp ns" "nr_parts ns = SSD_PARTITIONS cfg" "mapped ns = W"
proof -
  have "ns_inv spp ns0 \<and> mapped ns0 = {} \<and> nr_parts ns0 = SSD_PARTITIONS cfg"
    using conv_init_namespace_ok [OF assms(3-5), of junk j clock cf0 spp0 mem nid cpu] assms(1) by auto
  then show "ns_inv spp ns" "nr_parts ns = SSD_PARTITIONS cfg" "mapped ns = W" using conv_run_inv [OF assms(2)] by simp_all
qed

end
