(* ===== verification/Conv_Properties.thy ===== *)
theory Conv_Properties
  imports Conv_Reach Ftl_Properties
begin

text \<open>
  The properties of the conventional FTL: the host commands of a namespace, then what they rest on in a
  partition. Each is applied to the sample device.
\<close>

section \<open>Requests on the sample device\<close>

text \<open>A command of 16 sectors (two pages) at sector 80 (page 10).\<close>

definition spl_cmd :: "nat \<Rightarrow> nvme_command" where
  "spl_cmd opc = \<lparr>opcode = opc, cflags = 0, command_id = 7, nsid = 1, prp1 = 0, prp2 = 0,
     cdw10 = 80, cdw11 = 0, cdw12 = 15, cdw13 = 0, cdw14 = 0, cdw15 = 0\<rparr>"

definition spl_req :: "nat \<Rightarrow> nvmev_request" where
  "spl_req opc = \<lparr>rq_cmd = spl_cmd opc, rq_sq_id = 1, rq_nsecs_start = 5000\<rparr>"

lemma spl_cmd_pages: "first_lpn spl_spp (spl_cmd opc) = 10" "last_lpn spl_spp (spl_cmd opc) = 11" "req_bytes SAMSUNG_970PRO (spl_cmd opc) = 8192"
  "req_pages spl_spp (spl_cmd opc) = [10, 11]" "in_range spl_spp spl_ns (spl_cmd opc)"
proof -
  have s: "rw_slba (spl_cmd opc) = 80" "rw_length (spl_cmd opc) = 15"
    by (simp_all add: rw_slba_def rw_length_def spl_cmd_def le64_def lo16_def u32_def)
  show f: "first_lpn spl_spp (spl_cmd opc) = 10" "last_lpn spl_spp (spl_cmd opc) = 11"
    by (simp_all add: first_lpn_def last_lpn_def s spl_values u64_def)
  show "req_bytes SAMSUNG_970PRO (spl_cmd opc) = 8192" by (simp add: req_bytes_def LBA_TO_BYTE_def s SAMSUNG_970PRO_def)
  show "req_pages spl_spp (spl_cmd opc) = [10, 11]" by (simp add: req_pages_def f upt_rec)
  show "in_range spl_spp spl_ns (spl_cmd opc)" by (simp add: in_range_def f spl_ns_ok spl_values)
qed

lemma spl_affords: "\<forall>i < nr_parts spl_ns. affords (ftls spl_ns ! i) (share (nr_parts spl_ns) i [10, 11])"
proof (intro allI impI)
  fix i assume "i < nr_parts spl_ns"
  then have "affords (ftls spl_ns ! i) 900000" using spl_ns_ok by simp
  then show "affords (ftls spl_ns ! i) (share (nr_parts spl_ns) i [10, 11])" by (rule affords_mono) (simp add: share_def)
qed

definition spl_swr :: nand_cmd where
  "spl_swr = \<lparr>nc_type = USER_IO, nc_cmd = NAND_WRITE, nc_xfer_size = 49152, nc_stime = 5000, nc_interleave = False, nc_ppa = zero_ppa\<rparr>"

section \<open>Host commands\<close>

text \<open>C1: A write whose pages exist, that fits the free write buffer and that the instances can afford succeeds: it keeps
  the invariant of the namespace, maps exactly its pages in addition, reports success no earlier than the firmware
  latency allows, takes its bytes from the buffer and schedules, for each completed wordline, the release
  of a wordline of buffer at the end of its program operation; with FUA, or without early completion, it
  completes only after all of these.\<close>

theorem conv_write_effect:
  assumes "ns_inv spp ns" "in_range spp ns (rq_cmd req)" "LBA_BITS cfg \<le> 15"
    "req_bytes cfg (rq_cmd req) \<le> b_remaining (sh_wbuf ns)" "req_bytes cfg (rq_cmd req) \<le> b_size (sh_wbuf ns)"
    "\<forall>i < nr_parts ns. affords (ftls ns ! i) (share (nr_parts ns) i (req_pages spp (rq_cmd req)))"
  shows "\<exists>res ops ns'. conv_write cfg ns req = Some (Some res, ops, ns') \<and> ns_inv spp ns' \<and>
    mapped ns' = mapped ns \<union> set (req_pages spp (rq_cmd req)) \<and> rs_status res = NVME_SC_SUCCESS \<and>
    rq_nsecs_start req + fw_wbuf_lat0 spp + fw_wbuf_lat1 spp * DIV_ROUND_UP (req_bytes cfg (rq_cmd req)) (KB 4) \<le> rs_nsecs_target res \<and>
    b_remaining (sh_wbuf ns') + req_bytes cfg (rq_cmd req) = b_remaining (sh_wbuf ns) \<and> b_size (sh_wbuf ns') = b_size (sh_wbuf ns) \<and>
    (\<exists>t. (\<forall>o' \<in> set ops. op_ok spp (rq_sq_id req) (rq_nsecs_start req) t o') \<and>
      (rw_fua (rq_cmd req) \<or> \<not> write_early_completion spp \<longrightarrow> rs_nsecs_target res = t))"
proof -
  have "\<forall>i < nr_parts ns. affords (ftls ns ! i) (share (nr_parts ns) i (req_pages spp (rq_cmd req)) + 0)" using assms(6) by simp
  from conv_write_taken [OF assms(1-5) this] show ?thesis by blast
qed

theorem conv_write_effect_witness:
  "\<exists>res ops ns'. conv_write SAMSUNG_970PRO spl_ns (spl_req nvme_cmd_write) = Some (Some res, ops, ns') \<and> ns_inv spl_spp ns' \<and>
    mapped ns' = {10, 11} \<and> 5000 + 4000 + 460 * 2 \<le> rs_nsecs_target res \<and> b_remaining (sh_wbuf ns') = 1572864 - 8192"
proof -
  have r: "rq_cmd (spl_req nvme_cmd_write) = spl_cmd nvme_cmd_write" "rq_nsecs_start (spl_req nvme_cmd_write) = 5000"
    by (simp_all add: spl_req_def)
  have "\<exists>res ops ns'. conv_write SAMSUNG_970PRO spl_ns (spl_req nvme_cmd_write) = Some (Some res, ops, ns') \<and> ns_inv spl_spp ns' \<and>
    mapped ns' = mapped spl_ns \<union> set (req_pages spl_spp (rq_cmd (spl_req nvme_cmd_write))) \<and> rs_status res = NVME_SC_SUCCESS \<and>
    rq_nsecs_start (spl_req nvme_cmd_write) + fw_wbuf_lat0 spl_spp +
      fw_wbuf_lat1 spl_spp * DIV_ROUND_UP (req_bytes SAMSUNG_970PRO (rq_cmd (spl_req nvme_cmd_write))) (KB 4) \<le> rs_nsecs_target res \<and>
    b_remaining (sh_wbuf ns') + req_bytes SAMSUNG_970PRO (rq_cmd (spl_req nvme_cmd_write)) = b_remaining (sh_wbuf spl_ns) \<and>
    b_size (sh_wbuf ns') = b_size (sh_wbuf spl_ns) \<and>
    (\<exists>t. (\<forall>o' \<in> set ops. op_ok spl_spp (rq_sq_id (spl_req nvme_cmd_write)) (rq_nsecs_start (spl_req nvme_cmd_write)) t o') \<and>
      (rw_fua (rq_cmd (spl_req nvme_cmd_write)) \<or> \<not> write_early_completion spl_spp \<longrightarrow> rs_nsecs_target res = t))"
    by (rule conv_write_effect)
      (use spl_ns_ok spl_affords in \<open>simp_all add: r spl_cmd_pages buffer_init_def, simp_all add: SAMSUNG_970PRO_def\<close>)
  then obtain res ops ns' where w: "conv_write SAMSUNG_970PRO spl_ns (spl_req nvme_cmd_write) = Some (Some res, ops, ns')" "ns_inv spl_spp ns'"
    "mapped ns' = mapped spl_ns \<union> set (req_pages spl_spp (rq_cmd (spl_req nvme_cmd_write)))"
    "rq_nsecs_start (spl_req nvme_cmd_write) + fw_wbuf_lat0 spl_spp +
      fw_wbuf_lat1 spl_spp * DIV_ROUND_UP (req_bytes SAMSUNG_970PRO (rq_cmd (spl_req nvme_cmd_write))) (KB 4) \<le> rs_nsecs_target res"
    "b_remaining (sh_wbuf ns') + req_bytes SAMSUNG_970PRO (rq_cmd (spl_req nvme_cmd_write)) = b_remaining (sh_wbuf spl_ns)"
    by blast
  have "mapped ns' = {10, 11}" "5000 + 4000 + 460 * 2 \<le> rs_nsecs_target res" "b_remaining (sh_wbuf ns') = 1572864 - 8192"
    using w(3-5) by (simp_all add: r spl_cmd_pages spl_ns_ok spl_values buffer_init_def DIV_ROUND_UP_def KB_def)
  then show ?thesis using w(1,2) by blast
qed

text \<open>C12: A write that is out of range, or for which the buffer has no room, is refused without any change.\<close>

theorem conv_write_refusal:
  assumes "ns_inv spp ns" "req_bytes cfg (rq_cmd req) \<le> b_size (sh_wbuf ns)"
    "\<not> in_range spp ns (rq_cmd req) \<or> b_remaining (sh_wbuf ns) < req_bytes cfg (rq_cmd req)"
  shows "conv_write cfg ns req = Some (None, [], ns)"
  using conv_write_refused [OF assms(1)] conv_write_full [OF assms(1) _ _ assms(2)] assms(3) by blast

theorem conv_write_refusal_witness:
  "conv_write SAMSUNG_970PRO (spl_ns\<lparr>sh_wbuf := \<lparr>b_size = 1572864, b_remaining = 4096\<rparr>\<rparr>) (spl_req nvme_cmd_write) =
     Some (None, [], spl_ns\<lparr>sh_wbuf := \<lparr>b_size = 1572864, b_remaining = 4096\<rparr>\<rparr>)"
  by (rule conv_write_refusal [of spl_spp]) (simp_all add: ns_inv_wbuf spl_ns_ok spl_req_def spl_cmd_pages)

text \<open>C7: A read within the range always succeeds, completes no earlier than it starts and changes timing only: the
  mapping of every page, the set of mapped pages, the budgets and the write buffer stay.\<close>

theorem conv_read_only:
  assumes "ns_inv spp ns" "in_range spp ns (rq_cmd req)"
    "(2 + (last_lpn spp (rq_cmd req) - first_lpn spp (rq_cmd req))) * pgsz spp < 2 ^ 32"
  shows "\<exists>t ns'. conv_read cfg ns req = Some (Some \<lparr>rs_status = NVME_SC_SUCCESS, rs_nsecs_target = t\<rparr>, ns') \<and>
    ns_inv spp ns' \<and> ns_same ns ns' \<and> rq_nsecs_start req \<le> t"
  using conv_read_ok [OF assms] .

theorem conv_read_only_witness:
  "\<exists>t ns'. conv_read SAMSUNG_970PRO spl_ns (spl_req nvme_cmd_read) = Some (Some \<lparr>rs_status = NVME_SC_SUCCESS, rs_nsecs_target = t\<rparr>, ns') \<and>
    ns_inv spl_spp ns' \<and> ns_same spl_ns ns' \<and> rq_nsecs_start (spl_req nvme_cmd_read) \<le> t"
  by (rule conv_read_only [OF spl_ns_ok(1)]) (simp_all add: spl_req_def spl_cmd_pages spl_values)

text \<open>C6: The optimised reading of the pages of an instance is the reading of the maximal runs of consecutive pages on one
  flash page, one NAND read for each; the runs have all mapped pages and no other.\<close>

theorem read_aggregation:
  assumes "ftl_inv cf" "\<forall>x \<in> set (l # ls). x < tt_pgs (spp_of cf)" "0 < pg" "(2 + length ls) * pg < 2 ^ 32" "nc_cmd srd = NAND_READ"
  shows "read_part srd pg (l # ls) l latest cf =
      foldM (issue_run srd pg) (runs (is_same_flash_page cf) (read_ppas (maptbl cf) (l # ls))) (latest, cf) \<and>
    sum_list (map snd (runs (is_same_flash_page cf) (read_ppas (maptbl cf) (l # ls)))) = length (filter (\<lambda>x. x \<in> lpns cf) (l # ls))"
proof -
  have "mapped_ppa (maptbl cf ! x) \<longleftrightarrow> x \<in> lpns cf" if "x \<in> set (l # ls)" for x using assms(2) that by (auto simp: lpns_def)
  then have "filter (mapped_ppa \<circ> (!) (maptbl cf)) (l # ls) = filter (\<lambda>x. x \<in> lpns cf) (l # ls)"
    by (intro filter_cong) auto
  then have "length (read_ppas (maptbl cf) (l # ls)) = length (filter (\<lambda>x. x \<in> lpns cf) (l # ls))"
    by (simp only: read_ppas_def filter_map length_map)
  then show ?thesis using read_part_runs [OF assms] runs_sum [of "is_same_flash_page cf" "read_ppas (maptbl cf) (l # ls)"] by simp
qed

theorem read_aggregation_witness:
  "read_part (spl_swr\<lparr>nc_cmd := NAND_READ\<rparr>) 4096 [5, 6] 5 0 spl_ftl =
      foldM (issue_run (spl_swr\<lparr>nc_cmd := NAND_READ\<rparr>) 4096) (runs (is_same_flash_page spl_ftl) (read_ppas (maptbl spl_ftl) [5, 6])) (0, spl_ftl) \<and>
    sum_list (map snd (runs (is_same_flash_page spl_ftl) (read_ppas (maptbl spl_ftl) [5, 6]))) = length (filter (\<lambda>x. x \<in> lpns spl_ftl) [5, 6])"
  by (rule read_aggregation [OF spl_ftl_ok(2), of 5 "[6]" 4096 "spl_swr\<lparr>nc_cmd := NAND_READ\<rparr>"]) (simp_all add: spl_ftl_ok spl_values)

text \<open>Flush succeeds, completes no earlier than the clock reading it starts from and changes timing only.\<close>

theorem conv_flush_only:
  assumes "ns_inv spp ns"
  shows "\<exists>t ns'. conv_flush ns = Some (\<lparr>rs_status = NVME_SC_SUCCESS, rs_nsecs_target = t\<rparr>, ns') \<and> ns_inv spp ns' \<and> ns_same ns ns' \<and>
    lclk ns (ltick ns) \<le> t"
  using conv_flush_ok [OF assms] .

theorem conv_flush_only_witness:
  "\<exists>t ns'. conv_flush spl_ns = Some (\<lparr>rs_status = NVME_SC_SUCCESS, rs_nsecs_target = t\<rparr>, ns') \<and> ns_inv spl_spp ns' \<and> ns_same spl_ns ns' \<and>
    lclk spl_ns (ltick spl_ns) \<le> t"
  by (rule conv_flush_only [OF spl_ns_ok(1)])

text \<open>A command with an opcode that the FTL does not implement is taken as done, and leaves the result and the namespace as
  they are.\<close>

theorem conv_proc_unimplemented:
  assumes "ns_csi ns = NVME_CSI_NVM" "opcode (rq_cmd req) \<notin> {nvme_cmd_write, nvme_cmd_read, nvme_cmd_flush}"
  shows "conv_proc_nvme_io_cmd cfg ns req ret = Some (True, ret, [], ns)"
  using assms by (simp add: conv_proc_nvme_io_cmd_def)

theorem conv_proc_unimplemented_witness:
  "conv_proc_nvme_io_cmd SAMSUNG_970PRO spl_ns (spl_req 9) \<lparr>rs_status = 0, rs_nsecs_target = 5000\<rparr> =
     Some (True, \<lparr>rs_status = 0, rs_nsecs_target = 5000\<rparr>, [], spl_ns)"
  by (rule conv_proc_unimplemented) (use spl_ns_ok(1) in \<open>simp_all add: ns_inv_def spl_req_def spl_cmd_def io_opcodes\<close>)

text \<open>C8: Initialisation of a namespace with parameters that fit the field widths establishes the invariant: nothing is mapped,
  the write buffer is empty, every instance can afford all its TLC pages, and the logical size is the capacity
  over 1.07.\<close>

theorem conv_init_establishes:
  assumes "ssd_init_params_slc cfg sz (SSD_PARTITIONS cfg) = Some spp" "params_ok spp" "0 < SSD_PARTITIONS cfg"
  shows "\<exists>ns. conv_init_namespace cfg junk j clock cf0 spp0 ns0 nid sz cpu = Some ns \<and> ns_inv spp ns \<and> mapped ns = {} \<and>
    nr_parts ns = SSD_PARTITIONS cfg \<and> sh_wbuf ns = buffer_init (write_buffer_size spp) \<and>
    (\<forall>i < nr_parts ns. pgs_per_line spp * tt_lines_tlc spp \<le> budget (ftls ns ! i)) \<and> ns_size ns = u64 (sz * 100) div 107 \<and> ns_id ns = nid"
  using conv_init_namespace_ok [OF assms] .

theorem conv_init_establishes_witness:
  "\<exists>ns. conv_init_namespace SAMSUNG_970PRO (\<lambda>_. 0) 0 (\<lambda>_. spl_clock) (\<lambda>_. spl_mem) spl_spp spl_ns 3 (GB 16) 0 = Some ns \<and>
    ns_inv spl_spp ns \<and> mapped ns = {} \<and> ns_id ns = 3"
proof -
  have n: "SSD_PARTITIONS SAMSUNG_970PRO = 4" by (simp add: SAMSUNG_970PRO_def)
  have sp: "ssd_init_params_slc SAMSUNG_970PRO (GB 16) (SSD_PARTITIONS SAMSUNG_970PRO) = Some spl_spp" using spl_params by (simp add: n)
  have "0 < SSD_PARTITIONS SAMSUNG_970PRO" by (simp add: n)
  from conv_init_establishes [OF sp spl_ok this, of "\<lambda>_. 0" 0 "\<lambda>_. spl_clock" "\<lambda>_. spl_mem" spl_spp spl_ns 3 0] show ?thesis by blast
qed

section \<open>Every history of commands\<close>

text \<open>C5: After every history of host commands and buffer releases since the construction of the namespace, with garbage
  collections and migrations wherever the writes cause them: exactly the pages of the writes that were taken are mapped; in
  every instance the mapping table is a bijection between its written logical pages and its valid flash pages, and the
  reverse table is the inverse.\<close>

theorem mapping_bijection:
  assumes "conv_init_namespace cfg junk j clock cf0 spp0 mem nid sz cpu = Some ns0" "conv_run cfg spp ns0 ns W"
    and "ssd_init_params_slc cfg sz (SSD_PARTITIONS cfg) = Some spp" "params_ok spp" "0 < SSD_PARTITIONS cfg"
  shows "mapped ns = W \<and> (\<forall>i < SSD_PARTITIONS cfg.
    bij_betw ((!) (maptbl (ftls ns ! i))) {l. l * SSD_PARTITIONS cfg + i \<in> W}
      {a \<in> pages spp. stat (ssd (ftls ns ! i)) a = PG_VALID} \<and>
    (\<forall>l. l * SSD_PARTITIONS cfg + i \<in> W \<longrightarrow> get_rmap_ent (ftls ns ! i) (maptbl (ftls ns ! i) ! l) = Some l))"
proof (intro conjI allI impI)
  note R = conv_run_ready [OF assms]
  show "mapped ns = W" by (rule R(3))
  fix i assume i: "i < SSD_PARTITIONS cfg"
  have f: "consistent (ftls ns ! i)" "spp_of (ftls ns ! i) = spp"
    using R(1,2) i ftl_consistent by (simp_all add: ns_inv_def)
  have L: "{l. l * SSD_PARTITIONS cfg + i \<in> W} = lpns (ftls ns ! i)"
    unfolding R(3) [symmetric] mapped_def R(2) using i by (simp add: div_mult_self3)
  note B = consistent_bijection [OF f(1), unfolded f(2) L [symmetric]]
  show "bij_betw ((!) (maptbl (ftls ns ! i))) {l. l * SSD_PARTITIONS cfg + i \<in> W} {a \<in> pages spp. stat (ssd (ftls ns ! i)) a = PG_VALID}"
    using B by blast
  show "get_rmap_ent (ftls ns ! i) (maptbl (ftls ns ! i) ! l) = Some l" if "l * SSD_PARTITIONS cfg + i \<in> W" for l
    using B that by blast
qed

text \<open>The sample namespace after a write of the pages 10 and 11, which fall to the instances 2 and 3.\<close>

lemma spl_history:
  "\<exists>ns. conv_run SAMSUNG_970PRO spl_spp spl_ns ns {10, 11} \<and>
    conv_init_namespace SAMSUNG_970PRO (\<lambda>_. 0) 0 (\<lambda>_. spl_clock) (\<lambda>_. spl_mem) spl_spp
     \<lparr>ns_id = 0, ns_csi = 0, ns_size = 0, nr_parts = 0, ftls = [], sh_pcie = ssd_init_pcie spl_spp,
      sh_wbuf = buffer_init 0, lclk = spl_clock, ltick = 0\<rparr> 0 (GB 16) 0 = Some spl_ns \<and>
    ssd_init_params_slc SAMSUNG_970PRO (GB 16) (SSD_PARTITIONS SAMSUNG_970PRO) = Some spl_spp \<and> SSD_PARTITIONS SAMSUNG_970PRO = 4"
proof -
  have n: "SSD_PARTITIONS SAMSUNG_970PRO = 4" by (simp add: SAMSUNG_970PRO_def)
  have sp: "ssd_init_params_slc SAMSUNG_970PRO (GB 16) (SSD_PARTITIONS SAMSUNG_970PRO) = Some spl_spp" using spl_params by (simp add: n)
  let ?m = "\<lparr>ns_id = 0, ns_csi = 0, ns_size = 0, nr_parts = 0, ftls = [], sh_pcie = ssd_init_pcie spl_spp,
      sh_wbuf = buffer_init 0, lclk = spl_clock, ltick = 0\<rparr>"
  obtain ns0 where i: "conv_init_namespace SAMSUNG_970PRO (\<lambda>_. 0) 0 (\<lambda>_. spl_clock) (\<lambda>_. spl_mem) spl_spp ?m 0 (GB 16) 0 = Some ns0"
    using conv_init_namespace_ok [OF sp spl_ok, of "\<lambda>_. 0" 0 "\<lambda>_. spl_clock" "\<lambda>_. spl_mem" spl_spp ?m 0 0] n by auto
  then have init: "conv_init_namespace SAMSUNG_970PRO (\<lambda>_. 0) 0 (\<lambda>_. spl_clock) (\<lambda>_. spl_mem) spl_spp ?m 0 (GB 16) 0 = Some spl_ns"
    by (simp add: spl_ns_def)
  let ?r = "spl_req nvme_cmd_write"
  have r: "rq_cmd ?r = spl_cmd nvme_cmd_write" "opcode (spl_cmd nvme_cmd_write) = nvme_cmd_write"
    by (simp_all add: spl_req_def spl_cmd_def)
  have bits: "LBA_BITS SAMSUNG_970PRO \<le> 15" by (simp add: SAMSUNG_970PRO_def)
  have adm: "acceptable SAMSUNG_970PRO spl_spp spl_ns (rq_cmd ?r)"
    using bits spl_affords spl_ns_ok unfolding acceptable_def r spl_cmd_pages by (simp add: buffer_init_def io_opcodes)
  obtain res ops ns where w: "conv_write SAMSUNG_970PRO spl_ns ?r = Some (Some res, ops, ns)"
    using conv_write_taken [OF spl_ns_ok(1), of ?r SAMSUNG_970PRO "\<lambda>_. 0"] spl_affords spl_ns_ok
      bits by (simp add: r spl_cmd_pages buffer_init_def) blast
  have c: "ns_csi spl_ns = NVME_CSI_NVM" using spl_ns_ok(1) by (simp add: ns_inv_def)
  have p: "conv_proc_nvme_io_cmd SAMSUNG_970PRO spl_ns ?r res = Some (True, res, ops, ns)"
    using w c by (simp add: conv_proc_nvme_io_cmd_def r)
  have "conv_run SAMSUNG_970PRO spl_spp spl_ns ns ({} \<union> written spl_spp True (rq_cmd ?r))"
    by (rule conv_run_command [OF conv_run_start adm p])
  then have "conv_run SAMSUNG_970PRO spl_spp spl_ns ns {10, 11}" by (simp add: written_def r spl_cmd_pages)
  then show ?thesis using init sp n by blast
qed

theorem mapping_bijection_witness:
  "\<exists>ns a. maptbl (ftls ns ! 2) ! 2 = a \<and> stat (ssd (ftls ns ! 2)) a = PG_VALID \<and> get_rmap_ent (ftls ns ! 2) a = Some 2 \<and>
    mapped ns = {10, 11}"
proof -
  obtain ns where h: "conv_run SAMSUNG_970PRO spl_spp spl_ns ns {10, 11}"
    "conv_init_namespace SAMSUNG_970PRO (\<lambda>_. 0) 0 (\<lambda>_. spl_clock) (\<lambda>_. spl_mem) spl_spp
     \<lparr>ns_id = 0, ns_csi = 0, ns_size = 0, nr_parts = 0, ftls = [], sh_pcie = ssd_init_pcie spl_spp,
      sh_wbuf = buffer_init 0, lclk = spl_clock, ltick = 0\<rparr> 0 (GB 16) 0 = Some spl_ns"
    "ssd_init_params_slc SAMSUNG_970PRO (GB 16) (SSD_PARTITIONS SAMSUNG_970PRO) = Some spl_spp" "SSD_PARTITIONS SAMSUNG_970PRO = 4"
    using spl_history by blast
  have "0 < SSD_PARTITIONS SAMSUNG_970PRO" using h(4) by simp
  note M = mapping_bijection [OF h(2,1,3) spl_ok this, unfolded h(4)]
  have two: "(2 :: nat) < 4" "2 * 4 + 2 \<in> {10 :: nat, 11}" by simp_all
  have m: "mapped ns = {10, 11}" and B: "bij_betw ((!) (maptbl (ftls ns ! 2))) {l. l * 4 + 2 \<in> {10, 11}}
      {a \<in> pages spl_spp. stat (ssd (ftls ns ! 2)) a = PG_VALID}"
    and g: "get_rmap_ent (ftls ns ! 2) (maptbl (ftls ns ! 2) ! 2) = Some 2" using M two by blast+
  have "maptbl (ftls ns ! 2) ! 2 \<in> {a \<in> pages spl_spp. stat (ssd (ftls ns ! 2)) a = PG_VALID}" by (rule bij_betwE [OF B, rule_format]) simp
  then show ?thesis using m g by blast
qed



end
