(* ===== verification/Completion_Laws.thy ===== *)
theory Completion_Laws
  imports Dispatch_Laws
begin

text \<open>
  Completions: the ring of a completion queue and its phase bit, the doorbells of the host, and a pass of a worker
  over its requests.
\<close>

section \<open>The ring\<close>

text \<open>\<open>p\<close> entries have been posted: the round they are in gives the phase.\<close>

definition phase_of :: "nat \<Rightarrow> nat \<Rightarrow> nat" where
  "phase_of sz p = (if even (p div sz) then 1 else 0)"

definition cq_ok :: "completion_queue \<Rightarrow> nat \<Rightarrow> bool" where
  "cq_ok cq p \<longleftrightarrow> 0 < cq_size cq \<and> cq_size cq \<le> length (cq_entries cq) \<and> cq_head cq = p mod cq_size cq \<and> cq_phase cq = phase_of (cq_size cq) p"

lemma phase_Suc: "phase_of sz (Suc p) = (if Suc (p mod sz) = sz then 1 - phase_of sz p else phase_of sz p)"
  by (simp add: phase_of_def div_Suc mod_Suc)

lemma post_ok:
  assumes "cq_ok cq p"
  shows "\<exists>cq'. post w cq = Some cq' \<and> cq_ok cq' (Suc p) \<and> cq_size cq' = cq_size cq \<and> cq_interrupt_ready cq' \<and>
    cq_entries cq' = (cq_entries cq)[p mod cq_size cq := make_cqe (phase_of (cq_size cq) p) w]"
proof -
  have s: "0 < cq_size cq" "cq_size cq \<le> length (cq_entries cq)" "cq_head cq = p mod cq_size cq" "cq_phase cq = phase_of (cq_size cq) p"
    using assms by (simp_all add: cq_ok_def)
  have "p mod cq_size cq < length (cq_entries cq)" using s(1,2) mod_less_divisor [of "cq_size cq" p] by linarith
  moreover have "(if phase_of (cq_size cq) p = 0 then 1 else 0) = 1 - phase_of (cq_size cq) p" by (simp add: phase_of_def)
  ultimately show ?thesis using s by (simp add: post_def arr_simps cq_ok_def phase_Suc mod_Suc Let_def)
qed

lemma mod_diff_small: "(a::nat) < b \<Longrightarrow> b < a + s \<Longrightarrow> a mod s \<noteq> b mod s"
proof
  assume a: "a < b" "b < a + s" and e: "a mod s = b mod s"
  then have "s dvd b - a" using mod_eq_dvd_iff_nat [of a b s] by simp
  then show False using a by (auto dest: dvd_imp_le)
qed

text \<open>A sequence of postings: each of the last \<open>size\<close> is found where the host looks for it, with the phase of its round.\<close>

lemma post_all:
  assumes "cq_ok cq p"
  shows "\<exists>cq'. foldM post ws cq = Some cq' \<and> cq_ok cq' (p + length ws) \<and> cq_size cq' = cq_size cq \<and>
    (\<forall>j < length ws. length ws \<le> j + cq_size cq \<longrightarrow> cq_entries cq' ! ((p + j) mod cq_size cq) = make_cqe (phase_of (cq_size cq) (p + j)) (ws ! j))"
proof (induction ws rule: rev_induct)
  case Nil
  then show ?case using assms by simp
next
  case (snoc w ws)
  let ?s = "cq_size cq" let ?n = "length ws"
  obtain c where c: "foldM post ws cq = Some c" "cq_ok c (p + ?n)" "cq_size c = ?s"
    "\<And>j. j < ?n \<Longrightarrow> ?n \<le> j + ?s \<Longrightarrow> cq_entries c ! ((p + j) mod ?s) = make_cqe (phase_of ?s (p + j)) (ws ! j)" using snoc by blast
  obtain c' where c': "post w c = Some c'" "cq_ok c' (Suc (p + ?n))" "cq_size c' = ?s"
    "cq_entries c' = (cq_entries c)[(p + ?n) mod ?s := make_cqe (phase_of ?s (p + ?n)) w]" using post_ok [OF c(2), of w] c(3) by auto
  have s: "0 < ?s" "?s \<le> length (cq_entries c)" using c(2,3) by (simp_all add: cq_ok_def)
  have "cq_entries c' ! ((p + j) mod ?s) = make_cqe (phase_of ?s (p + j)) ((ws @ [w]) ! j)" if j: "j < Suc ?n" "Suc ?n \<le> j + ?s" for j
  proof (cases "j = ?n")
    case True
    have "(p + ?n) mod ?s < length (cq_entries c)" using s mod_less_divisor [of ?s "p + ?n"] by linarith
    then show ?thesis using c'(4) True by simp
  next
    case False
    then have "(p + j) mod ?s \<noteq> (p + ?n) mod ?s" using j by (intro mod_diff_small) linarith+
    then show ?thesis using c(4) [of j] c'(4) j False by (simp add: nth_append)
  qed
  then show ?case using c(1) c'(1-3) by simp
qed

lemma cqe_status:
  assumes "wk_status w < 2 ^ 15" "ph \<in> {0, 1}"
  shows "ce_status (make_cqe ph w) mod 2 = ph" "ce_status (make_cqe ph w) div 2 = wk_status w"
proof -
  have "or ph (2 * wk_status w) = ph + 2 * wk_status w" using assms(2) by (auto simp: one_or_eq Suc_0_or_eq)
  moreover have "ph + 2 * wk_status w < 2 ^ 16" using assms by auto
  ultimately have "ce_status (make_cqe ph w) = ph + 2 * wk_status w" by (simp add: make_cqe_def u16_def)
  then show "ce_status (make_cqe ph w) mod 2 = ph" "ce_status (make_cqe ph w) div 2 = wk_status w" using assms(2) by auto
qed

section \<open>Doorbells of a completion queue\<close>

text \<open>The entries that the host has consumed between two doorbells.\<close>

definition consumed :: "nat \<Rightarrow> nat \<Rightarrow> nat \<Rightarrow> nat list" where
  "consumed sz old new = (if old \<le> new then [old..<new] else [old..<sz] @ [0..<new])"

lemma cq_loop_up:
  fixes dev :: "('ns, 'm) nvmev_dev"
  assumes "i \<le> new" "new \<le> cq_size cq" "cq_size cq \<le> length (cq_entries cq)"
  shows "cq_loop cq (int new) (int i) dev = foldM (\<lambda>j. count_completion (cq_entries cq ! j)) [i..<new] dev"
  using assms(1)
proof (induction "new - i" arbitrary: i dev)
  case 0
  then show ?case by (subst cq_loop.simps) simp
next
  case (Suc n)
  have i: "i < new" "i < length (cq_entries cq)" "\<not> cq_size cq \<le> i" using Suc.hyps(2) Suc.prems assms by simp_all
  have "cq_loop cq (int new) (int i) dev = count_completion (cq_entries cq ! i) dev \<bind> cq_loop cq (int new) (int (Suc i))"
    using i by (subst cq_loop.simps) (simp add: arr_simps add.commute)
  also have "\<dots> = count_completion (cq_entries cq ! i) dev \<bind> foldM (\<lambda>j. count_completion (cq_entries cq ! j)) [Suc i..<new]"
  proof (intro bind_option_cong refl)
    fix d :: "('ns, 'm) nvmev_dev"
    have "n = new - Suc i" "Suc i \<le> new" using Suc.hyps(2) i by simp_all
    then show "cq_loop cq (int new) (int (Suc i)) d = foldM (\<lambda>j. count_completion (cq_entries cq ! j)) [Suc i..<new] d"
      by (rule Suc.hyps(1))
  qed
  finally show ?case using i(1) by (simp add: upt_conv_Cons)
qed

lemma cq_loop_wrap:
  fixes dev :: "('ns, 'm) nvmev_dev"
  assumes "i \<le> cq_size cq" "new < i" "cq_size cq < length (cq_entries cq)"
  shows "cq_loop cq (int new) (int i) dev = foldM (\<lambda>j. count_completion (cq_entries cq ! j)) ([i..<cq_size cq] @ [0..<new]) dev"
  using assms(1,2)
proof (induction "cq_size cq - i" arbitrary: i dev)
  case 0
  then have "i = cq_size cq" by simp
  then have "cq_loop cq (int new) (int i) dev = cq_loop cq (int new) (int 0) dev"
    using 0 assms(3) by (subst cq_loop.simps) (simp add: arr_simps)
  then show ?case using cq_loop_up [of 0 new cq dev] 0 assms(3) by simp
next
  case (Suc n)
  have i: "i < cq_size cq" "i < length (cq_entries cq)" "i \<noteq> new" using Suc.hyps(2) Suc.prems assms by simp_all
  have "cq_loop cq (int new) (int i) dev = count_completion (cq_entries cq ! i) dev \<bind> cq_loop cq (int new) (int (Suc i))"
    using i by (subst cq_loop.simps) (simp add: arr_simps add.commute)
  also have "\<dots> = count_completion (cq_entries cq ! i) dev \<bind> foldM (\<lambda>j. count_completion (cq_entries cq ! j)) ([Suc i..<cq_size cq] @ [0..<new])"
  proof (intro bind_option_cong refl)
    fix d :: "('ns, 'm) nvmev_dev"
    have "n = cq_size cq - Suc i" "Suc i \<le> cq_size cq" "new < Suc i" using Suc.hyps(2) Suc.prems i by simp_all
    then show "cq_loop cq (int new) (int (Suc i)) d = foldM (\<lambda>j. count_completion (cq_entries cq ! j)) ([Suc i..<cq_size cq] @ [0..<new]) d"
      by (rule Suc.hyps(1))
  qed
  finally show ?case using i(1) by (simp add: upt_conv_Cons)
qed

lemma proc_io_cq_loop:
  assumes "ptr (cqes dev) cqid = Some cq" "old \<le> cq_size cq" "new < cq_size cq" "cq_size cq \<le> length (cq_entries cq)"
    "new < old \<longrightarrow> cq_size cq < length (cq_entries cq)"
  shows "nvmev_proc_io_cq cqid (int new) (int old) dev = do {
     dev \<leftarrow> foldM (\<lambda>j. count_completion (cq_entries cq ! j)) (consumed (cq_size cq) old new) dev;
     Some (dev\<lparr>cqes := (cqes dev)[cqid := Some (cq\<lparr>cq_tail := int new - 1\<rparr>)]\<rparr>) }"
  using assms cq_loop_up [of old new cq dev] cq_loop_wrap [of old cq new dev]
  by (simp add: nvmev_proc_io_cq_def consumed_def)

lemma foldM_nth: "foldM (\<lambda>j. f (xs ! j)) js s = foldM f (map ((!) xs) js) s"
  by (induction js arbitrary: s) (simp_all cong: bind_option_cong)

text \<open>What the completions do to the counters.\<close>

definition in_flight_upd :: "(nat \<Rightarrow> nat) \<Rightarrow> submission_queue \<Rightarrow> submission_queue" where
  "in_flight_upd f sq = sq\<lparr>sq_st := (sq_st sq)\<lparr>nr_in_flight := f (nr_in_flight (sq_st sq))\<rparr>\<rparr>"

lemma in_flight_upd_comp: "in_flight_upd f (in_flight_upd g sq) = in_flight_upd (\<lambda>x. f (g x)) sq" "in_flight_upd (\<lambda>x. x) sq = sq"
  by (simp_all add: in_flight_upd_def)

lemma in_flight_upd_id: "in_flight_upd (\<lambda>x. x) = (\<lambda>sq. sq)" "in_flight_upd id = (\<lambda>sq. sq)"
  by (intro ext; simp add: in_flight_upd_def)+

definition settle :: "nvme_completion list \<Rightarrow> submission_queue option list \<Rightarrow> submission_queue option list" where
  "settle es qs = map (\<lambda>i. map_option (in_flight_upd (dec32 ^^ length (filter (\<lambda>e. ce_sq_id e = i) es))) (qs ! i)) [0..<length qs]"

lemma length_settle [simp]: "length (settle es qs) = length qs"
  by (simp add: settle_def)

lemma count_completion_ok:
  assumes "ce_sq_id e < length (sqes dev)"
  shows "count_completion e dev = Some (dev\<lparr>sqes := settle [e] (sqes dev)\<rparr>)"
proof (cases "sqes dev ! ce_sq_id e")
  case None
  have "settle [e] (sqes dev) = sqes dev"
    by (rule nth_equalityI) (use None in \<open>auto simp: settle_def in_flight_upd_id option.map_ident\<close>)
  then show ?thesis using assms None by (simp add: count_completion_def arr_simps)
next
  case (Some sq)
  have "settle [e] (sqes dev) = (sqes dev)[ce_sq_id e := Some (in_flight_upd dec32 sq)]"
    by (rule nth_equalityI) (use Some in \<open>auto simp: settle_def in_flight_upd_id option.map_ident nth_list_update\<close>)
  then show ?thesis using assms Some by (simp add: count_completion_def upd_sq_def ptr_def arr_simps in_flight_upd_def)
qed

lemma settle_settle: "settle es (settle [e] qs) = settle (e # es) qs"
  by (rule nth_equalityI)
    (auto simp: settle_def option.map_comp comp_def in_flight_upd_comp funpow_swap1 intro!: option.map_cong0 arg_cong2 [of _ _ _ _ in_flight_upd])

lemma count_all:
  "\<forall>e \<in> set es. ce_sq_id e < length (sqes dev) \<Longrightarrow> foldM count_completion es dev = Some (dev\<lparr>sqes := settle es (sqes dev)\<rparr>)"
proof (induction es arbitrary: dev)
  case Nil
  have "settle [] (sqes dev) = sqes dev"
    by (rule nth_equalityI) (simp_all add: settle_def in_flight_upd_id option.map_ident)
  then show ?case by simp
next
  case (Cons e es)
  then show ?case by (simp add: count_completion_ok settle_settle)
qed

end
