(* ===== verification/Worker_Laws.thy ===== *)
theory Worker_Laws
  imports Completion_Laws
begin

text \<open>
  A pass of an I/O worker over the requests in flight: each is copied once, and completed as soon as the clock has
  reached its target time; completions are posted in the order of the list, and the list stays the same.
\<close>

section \<open>The contract of the data path\<close>

text \<open>The commands of \<open>can\<close> can be copied in any memory of \<open>mok\<close>.\<close>

locale data_copy =
  fixes perform :: "nvme_command \<Rightarrow> 'm \<Rightarrow> 'm option"
    and can :: "nvme_command \<Rightarrow> bool"
    and mok :: "'m \<Rightarrow> bool"
  assumes copy: "\<And>cmd m. can cmd \<Longrightarrow> mok m \<Longrightarrow> \<exists>m'. perform cmd m = Some m' \<and> mok m'"

section \<open>One request\<close>

text \<open>What a visit at the time \<open>t\<close> does to a request, and the completion it posts.\<close>

definition visit :: "nat \<Rightarrow> io_work \<Rightarrow> io_work" where
  "visit t e = (if wk_is_completed e then e else e\<lparr>wk_is_copied := True, wk_is_completed := wk_nsecs_target e \<le> t\<rparr>)"

definition completes :: "nat \<Rightarrow> io_work \<Rightarrow> bool" where
  "completes t e \<longleftrightarrow> \<not> wk_is_completed e \<and> wk_nsecs_target e \<le> t \<and> \<not> wk_is_internal e"

definition post_to :: "io_work \<Rightarrow> completion_queue option list \<Rightarrow> completion_queue option list option" where
  "post_to e cqs = do { cq \<leftarrow> ptr cqs (wk_cqid e); cq \<leftarrow> post e cq; Some (cqs[wk_cqid e := Some cq]) }"

text \<open>What a visit does to the memory and to the namespaces: a command of the host that was not copied yet is read again from
  its submission queue and its data are moved; an internal operation whose time has come gives its bytes back to the
  buffer of its namespace.\<close>

definition copy_of :: "(nvme_command \<Rightarrow> 'm \<Rightarrow> 'm option) \<Rightarrow> submission_queue option list \<Rightarrow> io_work \<Rightarrow> 'm \<Rightarrow> 'm option" where
  "copy_of perform sqs e m =
     (if wk_is_completed e \<or> wk_is_copied e \<or> wk_is_internal e then Some m
      else do { sq \<leftarrow> ptr sqs (wk_sqid e); cmd \<leftarrow> idx (sq_entries sq) (wk_sq_entry e); perform cmd m })"

definition release_of :: "(nat \<Rightarrow> 'ns \<Rightarrow> 'ns) \<Rightarrow> nat \<times> io_work \<Rightarrow> 'ns list \<Rightarrow> 'ns list" where
  "release_of rel te nss =
     (let e = snd te
      in if \<not> wk_is_completed e \<and> wk_nsecs_target e \<le> fst te \<and> wk_is_internal e
         then nss[wk_buffer e := rel (wk_release e) (nss ! wk_buffer e)] else nss)"

lemma visit_simps [simp]:
  "wk_next (visit t e) = wk_next e" "wk_prev (visit t e) = wk_prev e" "wk_nsecs_target (visit t e) = wk_nsecs_target e"
  "visit t (payload e) = payload (visit t e)"
  by (simp_all add: visit_def payload_def)

definition cqs_ok :: "completion_queue option list \<Rightarrow> bool" where
  "cqs_ok cqs \<longleftrightarrow> (\<forall>i cq. ptr cqs i = Some cq \<longrightarrow> (\<exists>p. cq_ok cq p))"

definition serviceable :: "(nvme_command \<Rightarrow> bool) \<Rightarrow> ('ns, 'm) nvmev_dev \<Rightarrow> io_work \<Rightarrow> bool" where
  "serviceable can dev e \<longleftrightarrow> wk_is_completed e \<or>
     (if wk_is_internal e then wk_buffer e < length (nspaces dev)
      else ptr (cqes dev) (wk_cqid e) \<noteq> None \<and> (wk_is_copied e \<or> (\<exists>sq. ptr (sqes dev) (wk_sqid e) = Some sq \<and>
        wk_sq_entry e < length (sq_entries sq) \<and> can (sq_entries sq ! wk_sq_entry e))))"

text \<open>What a worker leaves alone.\<close>

definition pass_frame :: "('ns, 'm) nvmev_dev \<Rightarrow> ('ns, 'm) nvmev_dev \<Rightarrow> bool" where
  "pass_frame dev dev' \<longleftrightarrow> nr_io_workers dev' = nr_io_workers dev \<and> sqes dev' = sqes dev \<and> dclk dev' = dclk dev \<and>
     length (nspaces dev') = length (nspaces dev) \<and> (\<forall>i. (ptr (cqes dev') i = None) = (ptr (cqes dev) i = None))"

lemma pass_frame_trans: "pass_frame a b \<Longrightarrow> pass_frame b c \<Longrightarrow> pass_frame a c"
  by (simp add: pass_frame_def)

lemma serviceable_frame: "pass_frame dev dev' \<Longrightarrow> serviceable can dev' e = serviceable can dev e"
  by (simp add: pass_frame_def serviceable_def)

lemma ptr_upd: "i < length qs \<Longrightarrow> ptr (qs[i := Some x]) j = (if j = i then Some x else ptr qs j)"
  by (simp add: ptr_def arr_simps)

lemma ptr_in: "ptr qs i = Some x \<Longrightarrow> i < length qs"
  by (auto simp: ptr_def bind_eq_Some_conv idx_def split: if_splits)

lemma post_to_ok:
  assumes "cqs_ok cqs" "ptr cqs (wk_cqid e) \<noteq> None"
  shows "\<exists>cqs'. post_to e cqs = Some cqs' \<and> cqs_ok cqs' \<and> (\<forall>i. (ptr cqs' i = None) = (ptr cqs i = None))"
proof -
  obtain cq where cq: "ptr cqs (wk_cqid e) = Some cq" using assms(2) by blast
  then obtain p where "cq_ok cq p" using assms(1) by (auto simp: cqs_ok_def)
  then obtain cq' where c: "post e cq = Some cq'" "cq_ok cq' (Suc p)" using post_ok by blast
  have "cqs_ok (cqs[wk_cqid e := Some cq'])"
    using assms(1) c(2) ptr_in [OF cq] by (auto simp: cqs_ok_def ptr_upd split: if_splits)
  moreover have "(ptr (cqs[wk_cqid e := Some cq']) i = None) = (ptr cqs i = None)" for i
    using ptr_in [OF cq] cq by (simp add: ptr_upd)
  ultimately show ?thesis using cq c(1) by (simp add: post_to_def)
qed

lemma fill_post: "fill_cq_result e dev = do { cqs \<leftarrow> post_to e (cqes dev); Some (dev\<lparr>cqes := cqs\<rparr>) }"
  by (cases "ptr (cqes dev) (wk_cqid e)"; simp add: fill_cq_result_def post_to_def)

section \<open>A step of a worker\<close>

lemma upd_worker_in: "k < length (io_workers dev) \<Longrightarrow> f (io_workers dev ! k) = Some w \<Longrightarrow>
  upd_worker k f dev = Some (dev\<lparr>io_workers := (io_workers dev)[k := w]\<rparr>)"
  by (simp add: upd_worker_def arr_simps)

context data_copy begin

lemma copy_data_ok:
  assumes "ptr (sqes dev) (wk_sqid e) = Some sq" "wk_sq_entry e < length (sq_entries sq)" "can (sq_entries sq ! wk_sq_entry e)" "mok (dmem dev)"
  shows "\<exists>m. copy_data perform e dev = Some (dev\<lparr>dmem := m\<rparr>) \<and> mok m \<and> perform (sq_entries sq ! wk_sq_entry e) (dmem dev) = Some m"
  using copy [OF assms(3,4)] assms(1,2) by (auto simp: copy_data_def arr_simps)

lemma work_step_ok:
  assumes k: "k < length (io_workers dev)" and c: "cur < length (work_queue (io_workers dev ! k))"
    and s: "serviceable can dev (work_queue (io_workers dev ! k) ! cur)" and cq: "cqs_ok (cqes dev)" and m: "mok (dmem dev)"
  defines "w \<equiv> io_workers dev ! k" and "t \<equiv> dclk dev (dtick dev)"
  defines "e \<equiv> work_queue w ! cur"
  shows "\<exists>dev'. work_step perform rel k cur dev = Some dev' \<and>
    io_workers dev' = (io_workers dev)[k := w\<lparr>latest_nsecs := t, work_queue := (work_queue w)[cur := visit t e]\<rparr>] \<and>
    pass_frame dev dev' \<and> dtick dev' = Suc (dtick dev) \<and> cqs_ok (cqes dev') \<and> mok (dmem dev') \<and>
    (if completes t e then post_to e (cqes dev) else Some (cqes dev)) = Some (cqes dev') \<and>
    copy_of perform (sqes dev) e (dmem dev) = Some (dmem dev') \<and> nspaces dev' = release_of rel (t, e) (nspaces dev)"
proof -
  let ?w1 = "w\<lparr>latest_nsecs := t\<rparr>"
  let ?d1 = "dev\<lparr>dtick := dtick dev + 1, io_workers := (io_workers dev)[k := ?w1]\<rparr>"
  have start: "work_step perform rel k cur dev = (if wk_is_completed e then Some ?d1 else do {
       dev \<leftarrow> (if wk_is_copied e then Some ?d1
         else do {
           dev \<leftarrow> (if wk_is_internal e then Some ?d1 else copy_data perform e ?d1);
           upd_worker k (upd_work cur (\<lambda>w. w\<lparr>wk_is_copied := True\<rparr>)) dev });
       if wk_nsecs_target e \<le> t then do {
         dev \<leftarrow> (if wk_is_internal e then do {
                  ns \<leftarrow> idx (nspaces dev) (wk_buffer e);
                  Some (dev\<lparr>nspaces := (nspaces dev)[wk_buffer e := rel (wk_release e) ns]\<rparr>) }
                else fill_cq_result e dev);
         upd_worker k (upd_work cur (\<lambda>w. w\<lparr>wk_is_completed := True\<rparr>)) dev }
       else Some dev })"
    using k c by (simp add: work_step_def read_clk_def upd_worker_in arr_simps w_def t_def e_def)
  show ?thesis
  proof (cases "wk_is_completed e")
    case True
    have "(work_queue w)[cur := visit t e] = work_queue w" using True by (simp add: visit_def e_def)
    then have "w\<lparr>latest_nsecs := t, work_queue := (work_queue w)[cur := visit t e]\<rparr> = ?w1" by simp
    then show ?thesis using start True cq m by (simp add: pass_frame_def completes_def copy_of_def release_of_def)
  next
    case nc: False
    let ?e2 = "e\<lparr>wk_is_copied := True\<rparr>"
    let ?w2 = "?w1\<lparr>work_queue := (work_queue w)[cur := ?e2]\<rparr>"
    obtain m' where c2: "(if wk_is_copied e then Some ?d1
         else do {
           dev \<leftarrow> (if wk_is_internal e then Some ?d1 else copy_data perform e ?d1);
           upd_worker k (upd_work cur (\<lambda>w. w\<lparr>wk_is_copied := True\<rparr>)) dev }) =
        Some (?d1\<lparr>io_workers := (io_workers dev)[k := ?w2], dmem := m'\<rparr>)" "mok m'"
      "copy_of perform (sqes dev) e (dmem dev) = Some m'"
    proof (cases "wk_is_copied e")
      case True
      then have "?e2 = e" by simp
      then have "?w2 = ?w1" by (simp add: e_def)
      then have "?d1\<lparr>io_workers := (io_workers dev)[k := ?w2], dmem := dmem dev\<rparr> = ?d1" by simp
      then show ?thesis using that [of "dmem dev"] True m by (simp add: copy_of_def)
    next
      case False
      obtain m' where m': "(if wk_is_internal e then Some ?d1 else copy_data perform e ?d1) = Some (?d1\<lparr>dmem := m'\<rparr>)" "mok m'"
        "copy_of perform (sqes dev) e (dmem dev) = Some m'"
      proof (cases "wk_is_internal e")
        case True
        then show ?thesis using that [of "dmem dev"] m by (simp add: copy_of_def)
      next
        case f: False
        obtain sq where sq: "ptr (sqes dev) (wk_sqid e) = Some sq" "wk_sq_entry e < length (sq_entries sq)" "can (sq_entries sq ! wk_sq_entry e)"
          using s nc False f by (auto simp: serviceable_def w_def e_def)
        obtain m' where "copy_data perform e ?d1 = Some (?d1\<lparr>dmem := m'\<rparr>)" "mok m'" "perform (sq_entries sq ! wk_sq_entry e) (dmem dev) = Some m'"
          using copy_data_ok [of ?d1 e sq] sq m by auto
        then show ?thesis using that [of m'] sq(1,2) nc False f by (simp add: copy_of_def arr_simps)
      qed
      then show ?thesis using that [of m'] False k c
        by (simp add: upd_worker_in upd_work_in w_def e_def)
    qed
    let ?d2 = "?d1\<lparr>io_workers := (io_workers dev)[k := ?w2], dmem := m'\<rparr>"
    have step2: "work_step perform rel k cur dev = (if wk_nsecs_target e \<le> t then do {
         dev \<leftarrow> (if wk_is_internal e then do {
                  ns \<leftarrow> idx (nspaces ?d2) (wk_buffer e);
                  Some (?d2\<lparr>nspaces := (nspaces ?d2)[wk_buffer e := rel (wk_release e) ns]\<rparr>) }
                else fill_cq_result e ?d2);
         upd_worker k (upd_work cur (\<lambda>w. w\<lparr>wk_is_completed := True\<rparr>)) dev }
       else Some ?d2)" unfolding start c2(1) using nc by simp
    show ?thesis
    proof (cases "wk_nsecs_target e \<le> t")
      case False
      have "?e2 = visit t e" using False nc by (simp add: visit_def)
      then show ?thesis using step2 False cq c2(2,3) by (simp add: pass_frame_def completes_def release_of_def)
    next
      case True
      have vi: "?e2\<lparr>wk_is_completed := True\<rparr> = visit t e" using True nc by (simp add: visit_def)
      let ?w3 = "?w2\<lparr>work_queue := (work_queue w)[cur := visit t e]\<rparr>"
      have fin: "upd_worker k (upd_work cur (\<lambda>w. w\<lparr>wk_is_completed := True\<rparr>)) d = Some (d\<lparr>io_workers := (io_workers dev)[k := ?w3]\<rparr>)"
        if "io_workers d = (io_workers dev)[k := ?w2]" for d
        using that k c vi by (simp add: upd_worker_in upd_work_in w_def e_def)
      show ?thesis
      proof (cases "wk_is_internal e")
        case i: True
        have b: "wk_buffer e < length (nspaces dev)" using s nc i by (simp add: serviceable_def w_def e_def)
        have "work_step perform rel k cur dev =
          Some (?d2\<lparr>nspaces := (nspaces dev)[wk_buffer e := rel (wk_release e) (nspaces dev ! wk_buffer e)], io_workers := (io_workers dev)[k := ?w3]\<rparr>)"
          unfolding step2 using True i b by (simp add: arr_simps fin)
        then show ?thesis using i cq c2(2,3) True nc by (simp add: pass_frame_def completes_def release_of_def)
      next
        case i: False
        have "ptr (cqes dev) (wk_cqid e) \<noteq> None" using s nc i by (simp add: serviceable_def w_def e_def)
        from post_to_ok [OF cq this] obtain cqs' where q: "post_to e (cqes dev) = Some cqs'" "cqs_ok cqs'" "\<forall>i. (ptr cqs' i = None) = (ptr (cqes dev) i = None)"
          by blast
        have "work_step perform rel k cur dev = Some (?d2\<lparr>cqes := cqs', io_workers := (io_workers dev)[k := ?w3]\<rparr>)"
          unfolding step2 fill_post using True i q(1) by (simp add: fin)
        moreover have "completes t e" using nc True i by (simp add: completes_def)
        ultimately show ?thesis using q c2(2,3) i by (simp add: pass_frame_def release_of_def)
      qed
    qed
  qed
qed

end

section \<open>A pass\<close>

definition readings :: "('ns, 'm) nvmev_dev \<Rightarrow> nat \<Rightarrow> nat list" where
  "readings dev n = map (\<lambda>j. dclk dev (dtick dev + j)) [0..<n]"

definition post_if :: "nat \<times> io_work \<Rightarrow> completion_queue option list \<Rightarrow> completion_queue option list option" where
  "post_if te cqs = (if completes (fst te) (snd te) then post_to (snd te) cqs else Some cqs)"

lemma wq_inv_visit:
  assumes "wq_inv w io fr"
  shows "wq_inv (w\<lparr>latest_nsecs := t, work_queue := (work_queue w)[cur := visit t (work_queue w ! cur)]\<rparr>) io fr"
proof -
  let ?q = "work_queue w" let ?q' = "(work_queue w)[cur := visit t (work_queue w ! cur)]"
  have n: "wk_next (?q' ! x) = wk_next (?q ! x)" "wk_prev (?q' ! x) = wk_prev (?q ! x)" for x
    by (cases "cur < length ?q"; cases "x = cur"; simp add: not_less list_update_beyond)+
  have "path ?q' p xs NIL = path ?q p xs NIL" for p xs using path_cong [of xs ?q' ?q p NIL] n(1) by blast
  moreover have "prevs ?q' NIL io = prevs ?q NIL io" using prevs_cong [of io ?q' ?q NIL] n(2) by blast
  ultimately show ?thesis using assms by (simp add: wq_inv_def)
qed

lemma pass_frame_refl [simp]: "pass_frame dev dev"
  by (simp add: pass_frame_def)

context data_copy begin

lemma work_loop_ok:
  assumes "k < length (io_workers dev)" "wq_inv (io_workers dev ! k) (io1 @ rest) fr"
    "\<forall>i \<in> set rest. serviceable can dev (work_queue (io_workers dev ! k) ! i)" "cqs_ok (cqes dev)" "mok (dmem dev)"
  shows "\<exists>dev' w'. work_loop perform rel k (if rest = [] then NIL else hd rest) dev = Some dev' \<and>
    io_workers dev' = (io_workers dev)[k := w'] \<and> wq_inv w' (io1 @ rest) fr \<and>
    (\<forall>i. i \<notin> set rest \<longrightarrow> work_queue w' ! i = work_queue (io_workers dev ! k) ! i) \<and>
    map ((!) (work_queue w')) rest = map2 visit (readings dev (length rest)) (map ((!) (work_queue (io_workers dev ! k))) rest) \<and>
    latest_nsecs w' = last (latest_nsecs (io_workers dev ! k) # readings dev (length rest)) \<and> pass_frame dev dev' \<and>
    dtick dev' = dtick dev + length rest \<and> cqs_ok (cqes dev') \<and> mok (dmem dev') \<and>
    foldM post_if (zip (readings dev (length rest)) (map ((!) (work_queue (io_workers dev ! k))) rest)) (cqes dev) = Some (cqes dev') \<and>
    foldM (copy_of perform (sqes dev)) (map ((!) (work_queue (io_workers dev ! k))) rest) (dmem dev) = Some (dmem dev') \<and>
    nspaces dev' = fold (release_of rel) (zip (readings dev (length rest)) (map ((!) (work_queue (io_workers dev ! k))) rest)) (nspaces dev)"
  using assms
proof (induction rest arbitrary: dev io1)
  case Nil
  have "work_loop perform rel k NIL dev = Some dev" by (subst work_loop.simps) simp
  moreover have "io_workers dev = (io_workers dev)[k := io_workers dev ! k]" by simp
  ultimately show ?case using Nil.prems
    by (intro exI [of _ dev] exI [of _ "io_workers dev ! k"]) (simp add: readings_def)
next
  case (Cons x xs)
  define w where "w = io_workers dev ! k"
  define t where "t = dclk dev (dtick dev)"
  define e where "e = work_queue w ! x"
  define w1 where "w1 = w\<lparr>latest_nsecs := t, work_queue := (work_queue w)[x := visit t e]\<rparr>"
  have i: "wq_inv w (io1 @ x # xs) fr" using Cons.prems(2) by (simp add: w_def)
  have xn: "x < length (work_queue w)" "x \<noteq> NIL" using wq_in [OF i, of x] by simp_all
  have xd: "x \<notin> set xs" using i by (simp add: wq_inv_def)
  have sx: "serviceable can dev (work_queue (io_workers dev ! k) ! x)" using Cons.prems(3) by simp
  obtain d1 where d1: "work_step perform rel k x dev = Some d1" "io_workers d1 = (io_workers dev)[k := w1]" "pass_frame dev d1"
    "dtick d1 = Suc (dtick dev)" "cqs_ok (cqes d1)" "mok (dmem d1)" "post_if (t, e) (cqes dev) = Some (cqes d1)"
    "copy_of perform (sqes dev) e (dmem dev) = Some (dmem d1)" "nspaces d1 = release_of rel (t, e) (nspaces dev)"
    using work_step_ok [OF Cons.prems(1) xn(1) [unfolded w_def] sx Cons.prems(4,5), of rel]
    unfolding post_if_def fst_conv snd_conv w_def t_def e_def w1_def by blast
  have k1: "k < length (io_workers d1)" and w1: "io_workers d1 ! k = w1" using d1(2) Cons.prems(1) by simp_all
  have i1: "wq_inv w1 (io1 @ x # xs) fr" unfolding w1_def e_def by (rule wq_inv_visit [OF i])
  then have i1': "wq_inv (io_workers d1 ! k) ((io1 @ [x]) @ xs) fr" using w1 by simp
  have same: "work_queue w1 ! j = work_queue w ! j" if "j \<noteq> x" for j using that by (simp add: w1_def)
  have s1: "\<forall>j \<in> set xs. serviceable can d1 (work_queue (io_workers d1 ! k) ! j)"
  proof
    fix j assume j: "j \<in> set xs"
    then have "j \<noteq> x" using xd by blast
    then show "serviceable can d1 (work_queue (io_workers d1 ! k) ! j)"
      using Cons.prems(3) j same w1 serviceable_frame [OF d1(3)] by (simp add: w_def)
  qed
  obtain d2 w2 where l: "work_loop perform rel k (if xs = [] then NIL else hd xs) d1 = Some d2" "io_workers d2 = (io_workers d1)[k := w2]"
    "wq_inv w2 ((io1 @ [x]) @ xs) fr" "\<forall>i. i \<notin> set xs \<longrightarrow> work_queue w2 ! i = work_queue (io_workers d1 ! k) ! i"
    "map ((!) (work_queue w2)) xs = map2 visit (readings d1 (length xs)) (map ((!) (work_queue (io_workers d1 ! k))) xs)"
    "latest_nsecs w2 = last (latest_nsecs (io_workers d1 ! k) # readings d1 (length xs))" "pass_frame d1 d2"
    "dtick d2 = dtick d1 + length xs" "cqs_ok (cqes d2)" "mok (dmem d2)"
    "foldM post_if (zip (readings d1 (length xs)) (map ((!) (work_queue (io_workers d1 ! k))) xs)) (cqes d1) = Some (cqes d2)"
    "foldM (copy_of perform (sqes d1)) (map ((!) (work_queue (io_workers d1 ! k))) xs) (dmem d1) = Some (dmem d2)"
    "nspaces d2 = fold (release_of rel) (zip (readings d1 (length xs)) (map ((!) (work_queue (io_workers d1 ! k))) xs)) (nspaces d1)"
    using Cons.IH [OF k1 i1' s1 d1(5,6)] by blast
  have rd: "readings dev (length (x # xs)) = t # readings d1 (length xs)"
    using d1(3,4) by (simp add: readings_def t_def pass_frame_def map_upt_Suc del: upt_Suc)
  have mx: "map ((!) (work_queue w1)) xs = map ((!) (work_queue w)) xs" using same xd by (metis (mono_tags, lifting) map_cong)
  have x1: "work_queue w1 ! x = visit t e" using xn(1) by (simp add: w1_def)
  have x2: "work_queue w2 ! x = visit t e" using l(4) xd x1 w1 by simp
  have nx: "wk_next (work_queue w1 ! x) = (if xs = [] then NIL else hd xs)"
  proof -
    have "path (work_queue w1) (wk_next (work_queue w1 ! x)) xs NIL" using i1 by (auto simp: wq_inv_def)
    from path_hd [OF this] show ?thesis .
  qed
  have "work_loop perform rel k x dev = Some d2"
    using xn d1(1) w1 k1 nx l(1) by (subst work_loop.simps) (simp add: arr_simps w1_def)
  moreover have "io_workers d2 = (io_workers dev)[k := w2]" using l(2) d1(2) by simp
  moreover have "wq_inv w2 (io1 @ x # xs) fr" using l(3) by simp
  moreover have "\<forall>i. i \<notin> set (x # xs) \<longrightarrow> work_queue w2 ! i = work_queue w ! i" using l(4) w1 same by simp
  moreover have "map ((!) (work_queue w2)) (x # xs) = map2 visit (readings dev (length (x # xs))) (map ((!) (work_queue w)) (x # xs))"
    unfolding rd using l(5) w1 mx x2 by (simp add: e_def)
  moreover have "latest_nsecs w2 = last (latest_nsecs w # readings dev (length (x # xs)))"
    unfolding rd using l(6) w1 by (simp add: w1_def)
  moreover have "foldM post_if (zip (readings dev (length (x # xs))) (map ((!) (work_queue w)) (x # xs))) (cqes dev) = Some (cqes d2)"
    unfolding rd using l(11) d1(7) w1 mx by (simp add: e_def)
  moreover have "foldM (copy_of perform (sqes dev)) (map ((!) (work_queue w)) (x # xs)) (dmem dev) = Some (dmem d2)"
    using l(12) d1(3,8) w1 mx by (simp add: e_def pass_frame_def)
  moreover have "nspaces d2 = fold (release_of rel) (zip (readings dev (length (x # xs))) (map ((!) (work_queue w)) (x # xs))) (nspaces dev)"
    unfolding rd using l(13) d1(9) w1 mx by (simp add: e_def)
  moreover have "dtick d2 = dtick dev + length (x # xs)" using l(8) d1(4) by simp
  ultimately show ?case using l(9,10) pass_frame_trans [OF d1(3) l(7)]
    by (intro exI [of _ d2] exI [of _ w2]) (simp add: w_def)
qed

lemma work_pass_ok:
  assumes a: "dev_abs dev qs" and k: "k < length (io_workers dev)" and s: "\<forall>e \<in> set (qs ! k). serviceable can dev e"
    and cq: "cqs_ok (cqes dev)" and m: "mok (dmem dev)" and clk: "mono (dclk dev)" "latest_of dev k \<le> dclk dev (dtick dev)"
  defines "ts \<equiv> readings dev (length (qs ! k))"
  shows "\<exists>dev'. work_pass perform rel k dev = Some dev' \<and> dev_abs dev' (qs[k := map2 visit ts (qs ! k)]) \<and> pass_frame dev dev' \<and>
    cqs_ok (cqes dev') \<and> mok (dmem dev') \<and> dtick dev' = dtick dev + length (qs ! k) \<and>
    (\<exists>w'. io_workers dev' = (io_workers dev)[k := w'] \<and> latest_nsecs w' \<le> dclk dev' (dtick dev')) \<and>
    foldM post_if (zip ts (qs ! k)) (cqes dev) = Some (cqes dev') \<and>
    foldM (copy_of perform (sqes dev)) (qs ! k) (dmem dev) = Some (dmem dev') \<and>
    nspaces dev' = fold (release_of rel) (zip ts (qs ! k)) (nspaces dev)"
proof -
  let ?w = "io_workers dev ! k"
  have "wq_abs ?w (qs ! k)" using dev_absD(4) [OF a k] .
  then obtain io fr where i: "wq_inv ?w io fr" "sorted_io ?w io" "qs ! k = map (\<lambda>i. payload (work_queue ?w ! i)) io"
    unfolding wq_abs_def by blast
  have pm: "qs ! k = map payload (map ((!) (work_queue ?w)) io)" using i(3) by simp
  have sv: "serviceable can dev (payload e) = serviceable can dev e" for e by (simp add: serviceable_def payload_def)
  have s': "\<forall>j \<in> set io. serviceable can dev (work_queue ?w ! j)" using s sv unfolding i(3) by auto
  have len: "length (qs ! k) = length io" by (simp add: i(3))
  obtain d w' where l: "work_loop perform rel k (if io = [] then NIL else hd io) dev = Some d" "io_workers d = (io_workers dev)[k := w']"
    "wq_inv w' ([] @ io) fr" "map ((!) (work_queue w')) io = map2 visit ts (map ((!) (work_queue ?w)) io)"
    "latest_nsecs w' = last (latest_nsecs ?w # ts)" "pass_frame dev d" "dtick d = dtick dev + length io" "cqs_ok (cqes d)" "mok (dmem d)"
    "foldM post_if (zip ts (map ((!) (work_queue ?w)) io)) (cqes dev) = Some (cqes d)"
    "foldM (copy_of perform (sqes dev)) (map ((!) (work_queue ?w)) io) (dmem dev) = Some (dmem d)"
    "nspaces d = fold (release_of rel) (zip ts (map ((!) (work_queue ?w)) io)) (nspaces dev)"
    using work_loop_ok [OF k _ s' cq m, of "[]" fr rel] i(1) unfolding ts_def len by auto
  have "io_seq ?w = (if io = [] then NIL else hd io)" using i(1) path_hd [of "work_queue ?w" "io_seq ?w" io NIL] by (simp add: wq_inv_def)
  then have ex: "work_pass perform rel k dev = Some d" using l(1) k by (simp add: work_pass_def arr_simps)
  have vp: "map2 visit us (map payload ys) = map payload (map2 visit us ys)" for us ys
    by (simp add: zip_map2 comp_def case_prod_beta)
  have ab: "map2 visit ts (qs ! k) = map (\<lambda>i. payload (work_queue w' ! i)) io"
  proof -
    have "map2 visit ts (qs ! k) = map payload (map ((!) (work_queue w')) io)" unfolding pm vp l(4) ..
    then show ?thesis by simp
  qed
  have tg: "map wk_nsecs_target (map2 visit us ys) = map wk_nsecs_target (take (length us) ys)" for us ys
    by (induction us ys rule: list_induct2') simp_all
  have lt: "length ts = length io" by (simp add: ts_def readings_def len)
  have tgt: "wk_nsecs_target (work_queue w' ! j) = wk_nsecs_target (work_queue ?w ! j)" if j: "j \<in> set io" for j
  proof -
    have "map wk_nsecs_target (map ((!) (work_queue w')) io) = map wk_nsecs_target (map ((!) (work_queue ?w)) io)"
      unfolding l(4) tg lt by simp
    then show ?thesis using j by simp
  qed
  have ge: "latest_nsecs ?w \<le> latest_nsecs w'"
  proof (cases "io = []")
    case True
    then show ?thesis using l(5) lt by simp
  next
    case False
    then have "last ts = dclk dev (dtick dev + (length io - 1))" unfolding ts_def readings_def len by (simp add: last_map)
    moreover have "dclk dev (dtick dev) \<le> dclk dev (dtick dev + (length io - 1))" using clk(1) by (simp add: monoD)
    moreover have "ts \<noteq> []" using False lt by auto
    ultimately show ?thesis using l(5) clk(2) by (simp add: latest_of_def)
  qed
  have le: "latest_nsecs w' \<le> dclk d (dtick d)"
  proof -
    have c: "dclk d = dclk dev" using l(6) by (simp add: pass_frame_def)
    have "\<forall>x \<in> set (latest_nsecs ?w # ts). x \<le> dclk dev (dtick dev + length io)"
      using clk monoD [OF clk(1), of "dtick dev" "dtick dev + length io"] unfolding ts_def readings_def len
      by (auto simp: latest_of_def intro: monoD [OF clk(1)])
    then have "last (latest_nsecs ?w # ts) \<le> dclk dev (dtick dev + length io)" by (metis last_in_set list.distinct(1))
    then show ?thesis using l(5,7) c by simp
  qed
  have so: "sorted_io w' io"
  proof -
    have "sorted (map (max (latest_nsecs w')) (map (due ?w) io))"
      using i(2) unfolding sorted_io_def by (rule sorted_map_mono) (simp add: mono_on_def max.coboundedI2)
    moreover have "map (due w') io = map (max (latest_nsecs w')) (map (due ?w) io)"
      using tgt ge by (auto simp: due_def max_def)
    ultimately show ?thesis unfolding sorted_io_def by (simp only:)
  qed
  have "wq_abs w' (map2 visit ts (qs ! k))" unfolding wq_abs_def ab using l(3) so by auto
  then have "dev_abs d (qs[k := map2 visit ts (qs ! k)])"
    using a l(2,6) by (auto simp: dev_abs_def pass_frame_def intro: list_all2_update_cong)
  moreover have "foldM post_if (zip ts (qs ! k)) (cqes dev) = Some (cqes d)"
  proof -
    have pi: "post_if (t, payload e) cqs = post_if (t, e) cqs" for t e cqs
      by (simp add: post_if_def completes_def post_to_def post_def make_cqe_def payload_def)
    have "foldM post_if (zip us (map payload ys)) cqs = foldM post_if (zip us ys) cqs" for us ys cqs
      by (induction us ys arbitrary: cqs rule: list_induct2') (simp_all add: pi cong: bind_option_cong)
    then show ?thesis using l(10) unfolding pm by (simp only:)
  qed
  moreover have "foldM (copy_of perform (sqes dev)) (qs ! k) (dmem dev) = Some (dmem d)"
  proof -
    have cp: "copy_of perform (sqes dev) (payload e) = copy_of perform (sqes dev) e" for e
      by (rule ext) (simp add: copy_of_def payload_def)
    have "foldM (copy_of perform (sqes dev)) (map payload ys) m = foldM (copy_of perform (sqes dev)) ys m" for ys m
      by (induction ys arbitrary: m) (simp_all add: cp cong: bind_option_cong)
    then show ?thesis using l(11) unfolding pm by (simp only:)
  qed
  moreover have "nspaces d = fold (release_of rel) (zip ts (qs ! k)) (nspaces dev)"
  proof -
    have rl: "release_of rel (t, payload e) = release_of rel (t, e)" for t e
      by (rule ext) (simp add: release_of_def payload_def Let_def)
    have "fold (release_of rel) (zip us (map payload ys)) nss = fold (release_of rel) (zip us ys) nss" for us ys nss
      by (induction us ys arbitrary: nss rule: list_induct2') (simp_all add: rl)
    then show ?thesis using l(12) unfolding pm by (simp only:)
  qed
  moreover have "\<exists>w'. io_workers d = (io_workers dev)[k := w'] \<and> latest_nsecs w' \<le> dclk d (dtick d)" using l(2) le by blast
  ultimately show ?thesis using ex l(6-9) len by auto
qed

end

end
