(* ===== verification/Io_System.thy ===== *)
theory Io_System
  imports Dispatch_Client Worker_Laws
begin

text \<open>
  The I/O side of the device as a transition system: doorbells of submission and completion queues and passes of
  the workers, in any order. Every reachable state is well-formed, and no step of an admissible request fails.
\<close>

section \<open>The invariant\<close>

definition sys_inv :: "('ns \<Rightarrow> bool) \<Rightarrow> ('m \<Rightarrow> bool) \<Rightarrow> ('ns, 'm) nvmev_dev \<Rightarrow> bool" where
  "sys_inv P mok dev \<longleftrightarrow> (\<exists>qs. dev_abs dev qs) \<and> all_ns P dev \<and> cqs_ok (cqes dev) \<and> mok (dmem dev) \<and> mono (dclk dev) \<and>
     (\<forall>w \<in> set (io_workers dev). latest_nsecs w \<le> dclk dev (dtick dev))"

lemma latest_in: "(\<forall>w \<in> set (io_workers dev). latest_nsecs w \<le> t) \<longleftrightarrow> (\<forall>l \<in> set (map latest_nsecs (io_workers dev)). l \<le> t)"
  by auto

lemma clk_latest:
  assumes "clk_same dev dev'" "mono (dclk dev)" "\<forall>w \<in> set (io_workers dev). latest_nsecs w \<le> dclk dev (dtick dev)"
  shows "\<forall>w \<in> set (io_workers dev'). latest_nsecs w \<le> dclk dev' (dtick dev')"
proof -
  have "dclk dev (dtick dev) \<le> dclk dev' (dtick dev')" using assms(1,2) by (simp add: clk_same_def monoD)
  moreover have "map latest_nsecs (io_workers dev') = map latest_nsecs (io_workers dev)" using assms(1) by (simp add: clk_same_def)
  ultimately show ?thesis using assms(3) unfolding latest_in by auto
qed

text \<open>A pass gives buffer back and changes the namespaces in no other way.\<close>

lemma fill_nspaces: "fill_cq_result e dev = Some dev' \<Longrightarrow> nspaces dev' = nspaces dev"
  by (auto simp: fill_cq_result_def bind_eq_Some_conv)

lemma upd_worker_nspaces: "upd_worker k f dev = Some dev' \<Longrightarrow> nspaces dev' = nspaces dev"
  by (auto simp: upd_worker_def bind_eq_Some_conv)

lemma copy_nspaces: "copy_data perform e dev = Some dev' \<Longrightarrow> nspaces dev' = nspaces dev"
  by (auto simp: copy_data_def bind_eq_Some_conv)

lemma all_ns_upd: "all_ns P dev \<Longrightarrow> P x \<Longrightarrow> nspaces dev' = (nspaces dev)[i := x] \<Longrightarrow> all_ns P dev'"
  unfolding all_ns_def by (metis insertE set_update_subset_insert subsetD)

lemma work_step_ns:
  assumes "work_step perform rel k cur dev = Some dev'" "all_ns P dev" "\<And>ns n. P ns \<Longrightarrow> P (rel n ns)"
  shows "all_ns P dev'"
proof -
  let ?t = "dclk dev (dtick dev)"
  obtain d1 wk w where 1: "upd_worker k (\<lambda>wk. Some (wk\<lparr>latest_nsecs := ?t\<rparr>)) (dev\<lparr>dtick := dtick dev + 1\<rparr>) = Some d1"
    "idx (io_workers d1) k = Some wk" "idx (work_queue wk) cur = Some w"
    "(if wk_is_completed w then Some d1
     else do {
       dev \<leftarrow> (if wk_is_copied w then Some d1
         else do {
           dev \<leftarrow> (if wk_is_internal w then Some d1 else copy_data perform w d1);
           upd_worker k (upd_work cur (\<lambda>w. w\<lparr>wk_is_copied := True\<rparr>)) dev });
       if wk_nsecs_target w \<le> ?t then do {
         dev \<leftarrow> (if wk_is_internal w then do {
                  ns \<leftarrow> idx (nspaces dev) (wk_buffer w);
                  Some (dev\<lparr>nspaces := (nspaces dev)[wk_buffer w := rel (wk_release w) ns]\<rparr>) }
                else fill_cq_result w dev);
         upd_worker k (upd_work cur (\<lambda>w. w\<lparr>wk_is_completed := True\<rparr>)) dev }
       else Some dev }) = Some dev'"
    using assms(1) by (auto simp: work_step_def read_clk_def bind_eq_Some_conv)
  have a1: "all_ns P d1" using assms(2) upd_worker_nspaces [OF 1(1)] by (simp add: all_ns_def)
  show ?thesis
  proof (cases "wk_is_completed w")
    case True
    then show ?thesis using 1(4) a1 by simp
  next
    case False
    obtain d2 where 2: "(if wk_is_copied w then Some d1
         else do {
           dev \<leftarrow> (if wk_is_internal w then Some d1 else copy_data perform w d1);
           upd_worker k (upd_work cur (\<lambda>w. w\<lparr>wk_is_copied := True\<rparr>)) dev }) = Some d2"
      "(if wk_nsecs_target w \<le> ?t then do {
         dev \<leftarrow> (if wk_is_internal w then do {
                  ns \<leftarrow> idx (nspaces d2) (wk_buffer w);
                  Some (d2\<lparr>nspaces := (nspaces d2)[wk_buffer w := rel (wk_release w) ns]\<rparr>) }
                else fill_cq_result w d2);
         upd_worker k (upd_work cur (\<lambda>w. w\<lparr>wk_is_completed := True\<rparr>)) dev }
       else Some d2) = Some dev'" using 1(4) False by (auto simp: bind_eq_Some_conv)
    have "nspaces d2 = nspaces d1"
    proof (cases "wk_is_copied w")
      case c: False
      then obtain d where d: "(if wk_is_internal w then Some d1 else copy_data perform w d1) = Some d"
        "upd_worker k (upd_work cur (\<lambda>w. w\<lparr>wk_is_copied := True\<rparr>)) d = Some d2" using 2(1) by (auto simp: bind_eq_Some_conv)
      have "nspaces d = nspaces d1" using d(1) copy_nspaces [of perform w d1 d] by (cases "wk_is_internal w") simp_all
      then show ?thesis using upd_worker_nspaces [OF d(2)] by simp
    qed (use 2(1) in simp)
    then have a2: "all_ns P d2" using a1 by (simp add: all_ns_def)
    show ?thesis
    proof (cases "wk_nsecs_target w \<le> ?t")
      case True
      then obtain d3 where 3: "(if wk_is_internal w then do {
                  ns \<leftarrow> idx (nspaces d2) (wk_buffer w);
                  Some (d2\<lparr>nspaces := (nspaces d2)[wk_buffer w := rel (wk_release w) ns]\<rparr>) }
                else fill_cq_result w d2) = Some d3" "upd_worker k (upd_work cur (\<lambda>w. w\<lparr>wk_is_completed := True\<rparr>)) d3 = Some dev'"
        using 2(2) by (auto simp: bind_eq_Some_conv)
      have "all_ns P d3"
      proof (cases "wk_is_internal w")
        case True
        then obtain ns where ns: "idx (nspaces d2) (wk_buffer w) = Some ns" "nspaces d3 = (nspaces d2)[wk_buffer w := rel (wk_release w) ns]"
          using 3(1) by (auto simp: bind_eq_Some_conv)
        have "P ns" using ns(1) a2 by (auto simp: all_ns_def arr_simps)
        then show ?thesis using all_ns_upd [OF a2 assms(3) ns(2)] by simp
      next
        case False
        then have "fill_cq_result w d2 = Some d3" using 3(1) by simp
        from fill_nspaces [OF this] show ?thesis using a2 by (simp add: all_ns_def)
      qed
      then show ?thesis using upd_worker_nspaces [OF 3(2)] by (simp add: all_ns_def)
    next
      case False
      then show ?thesis using 2(2) a2 by simp
    qed
  qed
qed

lemma work_loop_ns:
  assumes "work_loop perform rel k cur dev = Some dev'"
  shows "(\<forall>ns n. P ns \<longrightarrow> P (rel n ns)) \<longrightarrow> all_ns P dev \<longrightarrow> all_ns P dev'"
proof (rule work_loop.raw_induct [where P = "\<lambda>perform rel k cur dev dev'. (\<forall>ns n. P ns \<longrightarrow> P (rel n ns)) \<longrightarrow> all_ns P dev \<longrightarrow> all_ns P dev'", OF _ assms],
    intro impI, goal_cases)
  case (1 wl perform rel k cur dev dev')
  show ?case
  proof (cases "cur = NIL")
    case True
    then show ?thesis using 1 by simp
  next
    case False
    then obtain d and wk :: io_worker and w :: io_work where "work_step perform rel k cur dev = Some d" "wl perform rel k (wk_next w) d = Some dev'"
      using 1(2) by (auto simp: bind_eq_Some_conv)
    moreover from this(1) have "all_ns P d" by (rule work_step_ns) (use 1(3,4) in blast)+
    ultimately show ?thesis using 1(1,3) by blast
  qed
qed

lemma work_pass_ns:
  assumes "work_pass perform rel k dev = Some dev'" "all_ns P dev" "\<And>ns n. P ns \<Longrightarrow> P (rel n ns)"
  shows "all_ns P dev'"
proof -
  obtain wk :: io_worker where "work_loop perform rel k (io_seq wk) dev = Some dev'" using assms(1) by (auto simp: work_pass_def bind_eq_Some_conv)
  from work_loop_ns [OF this, of P] show ?thesis using assms(2,3) by blast
qed

section \<open>Steps\<close>

text \<open>A state comes with the budget that the namespaces can still afford. The host rings the doorbell of a submission queue
  for admissible commands, consumes completions, and a worker makes a pass when its requests can be served.\<close>

inductive io_step :: "'ns proc_io_cmd \<Rightarrow> (nvme_command \<Rightarrow> 'm \<Rightarrow> 'm option) \<Rightarrow> (nat \<Rightarrow> 'ns \<Rightarrow> 'ns) \<Rightarrow> nat \<Rightarrow> (nvme_command \<Rightarrow> nat) \<Rightarrow>
    (nvme_command \<Rightarrow> bool) \<Rightarrow> (nvme_command \<Rightarrow> bool) \<Rightarrow> nat \<times> ('ns, 'm) nvmev_dev \<Rightarrow> nat \<times> ('ns, 'm) nvmev_dev \<Rightarrow> bool"
  for proc perform rel lba_bits cost good can where
  submit: "ptr (sqes dev) sqid = Some sq \<Longrightarrow> sq_size sq \<le> length (sq_entries sq) \<Longrightarrow> old_db < sq_size sq \<Longrightarrow> new_db < sq_size sq \<Longrightarrow>
      n = (if new_db < old_db then new_db + sq_size sq - old_db else new_db - old_db) \<Longrightarrow> admissible good dev sq old_db n \<Longrightarrow>
      nvmev_proc_io_sq proc lba_bits sqid new_db old_db dev = Some (db, dev') \<Longrightarrow>
      io_step proc perform rel lba_bits cost good can (costs cost sq old_db n + m, dev) (m, dev')"
| complete: "ptr (cqes dev) cqid = Some cq \<Longrightarrow> old < cq_size cq \<Longrightarrow> new < cq_size cq \<Longrightarrow> cq_size cq < length (cq_entries cq) \<Longrightarrow>
      \<forall>e \<in> set (cq_entries cq). ce_sq_id e < length (sqes dev) \<Longrightarrow>
      nvmev_proc_io_cq cqid (int new) (int old) dev = Some dev' \<Longrightarrow>
      io_step proc perform rel lba_bits cost good can (m, dev) (m, dev')"
| work: "dev_abs dev qs \<Longrightarrow> k < length (io_workers dev) \<Longrightarrow> \<forall>e \<in> set (qs ! k). serviceable can dev e \<Longrightarrow>
      work_pass perform rel k dev = Some dev' \<Longrightarrow>
      io_step proc perform rel lba_bits cost good can (m, dev) (m, dev')"

definition io_steps :: "'ns proc_io_cmd \<Rightarrow> (nvme_command \<Rightarrow> 'm \<Rightarrow> 'm option) \<Rightarrow> (nat \<Rightarrow> 'ns \<Rightarrow> 'ns) \<Rightarrow> nat \<Rightarrow> (nvme_command \<Rightarrow> nat) \<Rightarrow>
    (nvme_command \<Rightarrow> bool) \<Rightarrow> (nvme_command \<Rightarrow> bool) \<Rightarrow> nat \<times> ('ns, 'm) nvmev_dev \<Rightarrow> nat \<times> ('ns, 'm) nvmev_dev \<Rightarrow> bool" where
  "io_steps proc perform rel lba_bits cost good can = (io_step proc perform rel lba_bits cost good can)\<^sup>*\<^sup>*"

lemma complete_inv:
  assumes i: "sys_inv P mok dev" and c: "ptr (cqes dev) cqid = Some cq" "old < cq_size cq" "new < cq_size cq" "cq_size cq < length (cq_entries cq)"
    "\<forall>e \<in> set (cq_entries cq). ce_sq_id e < length (sqes dev)"
  shows "\<exists>dev'. nvmev_proc_io_cq cqid (int new) (int old) dev = Some dev' \<and> sys_inv P mok dev' \<and>
    sqes dev' = settle (map ((!) (cq_entries cq)) (consumed (cq_size cq) old new)) (sqes dev) \<and>
    cqes dev' = (cqes dev)[cqid := Some (cq\<lparr>cq_tail := int new - 1\<rparr>)] \<and> io_workers dev' = io_workers dev \<and> nspaces dev' = nspaces dev"
proof -
  let ?es = "map ((!) (cq_entries cq)) (consumed (cq_size cq) old new)"
  have "set (consumed (cq_size cq) old new) \<subseteq> {..<length (cq_entries cq)}" using c(2-4) by (auto simp: consumed_def)
  then have es: "\<forall>e \<in> set ?es. ce_sq_id e < length (sqes dev)" using c(5) by auto
  have "nvmev_proc_io_cq cqid (int new) (int old) dev = do {
     dev \<leftarrow> foldM (\<lambda>j. count_completion (cq_entries cq ! j)) (consumed (cq_size cq) old new) dev;
     Some (dev\<lparr>cqes := (cqes dev)[cqid := Some (cq\<lparr>cq_tail := int new - 1\<rparr>)]\<rparr>) }"
    by (rule proc_io_cq_loop) (use c in simp_all)
  then have ex: "nvmev_proc_io_cq cqid (int new) (int old) dev =
      Some (dev\<lparr>sqes := settle ?es (sqes dev), cqes := (cqes dev)[cqid := Some (cq\<lparr>cq_tail := int new - 1\<rparr>)]\<rparr>)"
    unfolding foldM_nth count_all [OF es] by simp
  have cl: "cqid < length (cqes dev)" by (rule ptr_in [OF c(1)])
  have "cqs_ok (cqes dev)" using i by (simp add: sys_inv_def)
  then obtain p where "cq_ok cq p" using c(1) unfolding cqs_ok_def by blast
  then have "cq_ok (cq\<lparr>cq_tail := int new - 1\<rparr>) p" by (simp add: cq_ok_def)
  then have "cqs_ok ((cqes dev)[cqid := Some (cq\<lparr>cq_tail := int new - 1\<rparr>)])"
    using i c(1) cl by (auto simp: sys_inv_def cqs_ok_def ptr_upd split: if_splits)
  then have "sys_inv P mok (dev\<lparr>sqes := settle ?es (sqes dev), cqes := (cqes dev)[cqid := Some (cq\<lparr>cq_tail := int new - 1\<rparr>)]\<rparr>)"
    using i by (simp add: sys_inv_def dev_abs_def all_ns_def)
  then show ?thesis using ex by simp
qed

text \<open>The system of a namespace with its contract and a data path with its contract.\<close>

locale io_system = io_namespace proc rel ok cost good + data_copy perform can mok
  for proc :: "'ns proc_io_cmd" and rel :: "nat \<Rightarrow> 'ns \<Rightarrow> 'ns" and ok :: "nat \<Rightarrow> 'ns \<Rightarrow> bool" and cost :: "nvme_command \<Rightarrow> nat"
    and good :: "nvme_command \<Rightarrow> bool" and perform :: "nvme_command \<Rightarrow> 'm \<Rightarrow> 'm option" and can :: "nvme_command \<Rightarrow> bool" and mok :: "'m \<Rightarrow> bool"
begin

lemma work_inv:
  assumes i: "sys_inv (ok n) mok dev" and a: "dev_abs dev qs" and k: "k < length (io_workers dev)" and s: "\<forall>e \<in> set (qs ! k). serviceable can dev e"
  shows "\<exists>dev'. work_pass perform rel k dev = Some dev' \<and> sys_inv (ok n) mok dev'"
proof -
  have I: "cqs_ok (cqes dev)" "mok (dmem dev)" "mono (dclk dev)" "all_ns (ok n) dev"
    "\<And>w. w \<in> set (io_workers dev) \<Longrightarrow> latest_nsecs w \<le> dclk dev (dtick dev)" using i by (auto simp: sys_inv_def)
  have lk: "latest_of dev k \<le> dclk dev (dtick dev)" using I(5) [OF nth_mem [OF k]] by (simp add: latest_of_def)
  obtain dev' where d: "work_pass perform rel k dev = Some dev'" "dev_abs dev' (qs[k := map2 visit (readings dev (length (qs ! k))) (qs ! k)])"
    "pass_frame dev dev'" "cqs_ok (cqes dev')" "mok (dmem dev')" "dtick dev' = dtick dev + length (qs ! k)"
    "\<exists>w'. io_workers dev' = (io_workers dev)[k := w'] \<and> latest_nsecs w' \<le> dclk dev' (dtick dev')"
    using work_pass_ok [OF a k s I(1-3) lk, of rel] by blast
  have ck: "dclk dev' = dclk dev" using d(3) by (simp add: pass_frame_def)
  have "\<forall>w \<in> set (io_workers dev'). latest_nsecs w \<le> dclk dev' (dtick dev')"
  proof
    fix w assume "w \<in> set (io_workers dev')"
    then consider "w \<in> set (io_workers dev)" | "latest_nsecs w \<le> dclk dev' (dtick dev')"
      using d(7) by (metis insertE set_update_subset_insert subsetD)
    then show "latest_nsecs w \<le> dclk dev' (dtick dev')"
    proof cases
      case 1
      have "dclk dev (dtick dev) \<le> dclk dev' (dtick dev')" using I(3) ck d(6) by (simp add: monoD)
      then show ?thesis using I(5) [OF 1] by simp
    qed
  qed
  moreover have "all_ns (ok n) dev'" by (rule work_pass_ns [OF d(1) I(4) release])
  ultimately have "sys_inv (ok n) mok dev'" using d(2,4,5) I(3) ck by (auto simp: sys_inv_def)
  then show ?thesis using d(1) by blast
qed

lemma submit_inv:
  fixes new_db old_db
  assumes i: "sys_inv (ok (costs cost sq old_db n + m)) mok dev" and s: "ptr (sqes dev) sqid = Some sq" "sq_size sq \<le> length (sq_entries sq)"
    "old_db < sq_size sq" "new_db < sq_size sq" "n = (if new_db < old_db then new_db + sq_size sq - old_db else new_db - old_db)"
    "admissible good dev sq old_db n"
  shows "\<exists>db dev'. nvmev_proc_io_sq proc lba_bits sqid new_db old_db dev = Some (db, dev') \<and> sys_inv (ok m) mok dev'"
proof -
  obtain qs where a: "dev_abs dev qs" using i by (auto simp: sys_inv_def)
  have o: "all_ns (ok (costs cost sq old_db n + m)) dev" using i by (simp add: sys_inv_def)
  obtain j dev' qs' where d: "nvmev_proc_io_sq proc lba_bits sqid new_db old_db dev = Some (entry_at sq old_db j, dev')"
    "dev_abs dev' qs'" "all_ns (ok m) dev'" "clk_same dev dev'" "cqes dev' = cqes dev"
    using proc_io_sq_ok [OF a s(1-4), of m lba_bits, folded s(5), OF s(6) o] by blast
  have "mono (dclk dev)" "\<forall>w \<in> set (io_workers dev). latest_nsecs w \<le> dclk dev (dtick dev)" using i by (simp_all add: sys_inv_def)
  note L = clk_latest [OF d(4) this]
  have "dclk dev' = dclk dev" "dmem dev' = dmem dev" using d(4) by (simp_all add: clk_same_def)
  then have "sys_inv (ok m) mok dev'" using d(2,3,5) L i by (auto simp: sys_inv_def)
  then show ?thesis using d(1) by blast
qed

lemma step_inv:
  "io_step proc perform rel lba_bits cost good can s s' \<Longrightarrow> sys_inv (ok (fst s)) mok (snd s) \<Longrightarrow> sys_inv (ok (fst s')) mok (snd s')"
proof (induction rule: io_step.induct)
  case (submit dev sqid sq old_db new_db n db dev' m)
  then show ?case using submit_inv [of sq old_db n m dev sqid new_db lba_bits] by auto
next
  case (complete dev cqid cq old new dev' m)
  then show ?case using complete_inv [of "ok m" mok dev cqid cq old new] by auto
next
  case (work dev qs k dev' m)
  then show ?case using work_inv [of m dev qs k] by auto
qed

lemma steps_inv:
  "io_steps proc perform rel lba_bits cost good can s s' \<Longrightarrow> sys_inv (ok (fst s)) mok (snd s) \<Longrightarrow> sys_inv (ok (fst s')) mok (snd s')"
  unfolding io_steps_def by (induction rule: rtranclp_induct) (auto intro: step_inv)

end

end
