(* ===== verification/Prp.thy ===== *)
theory Prp
  imports Nvme
begin

text \<open>
  The copying of the data of a command between the pages of the host and the storage (\<open>__do_perform_io\<close> and
  \<open>__do_perform_io_using_dma\<close> of \<open>io.c\<close>): the pages are named by two PRP entries, the second of which points to a list
  of entries when more than two pages are needed.

  The memory of the host and the storage are two byte arrays. \<open>pfn\<close> is the kernel's \<open>pfn_valid\<close>. A page frame with a
  kernel page is mapped by \<open>kmap_atomic_pfn\<close>, which returns the address of its first byte; any other by \<open>memremap\<close>, which
  returns the address of the byte asked for. One page is mapped, so reading a list behind it has no behaviour. The DMA engine
  (\<open>dma.c\<close>) copies the bytes it is told to; a transfer is complete when the routine returns.
\<close>

section \<open>Memory\<close>

definition PAGE_SIZE :: nat where "PAGE_SIZE = 4096"

record sys_mem =
  host :: "nat \<Rightarrow> nat"
  disk :: "nat \<Rightarrow> nat"

definition read64 :: "(nat \<Rightarrow> nat) \<Rightarrow> nat \<Rightarrow> nat" where
  "read64 h a = fold (\<lambda>k v. v + h (a + k) * 256 ^ k) [0..<8] 0"

definition memcpy :: "(nat \<Rightarrow> nat) \<Rightarrow> nat \<Rightarrow> (nat \<Rightarrow> nat) \<Rightarrow> nat \<Rightarrow> nat \<Rightarrow> nat \<Rightarrow> nat" where
  "memcpy dst d src s n = (\<lambda>x. if d \<le> x \<and> x < d + n then src (s + (x - d)) else dst x)"

text \<open>The address a page is read at after mapping, with the offset in the page added.\<close>

definition data_addr :: "(nat \<Rightarrow> bool) \<Rightarrow> nat \<Rightarrow> nat" where
  "data_addr pfn paddr = (if pfn (paddr div PAGE_SIZE) then paddr else paddr + paddr mod PAGE_SIZE)"

text \<open>The \<open>i\<close>-th entry of a list; the offset is added to a \<open>void\<close> pointer in the first case and to a \<open>u64\<close> pointer in the
  other.\<close>

definition list_entry :: "(nat \<Rightarrow> bool) \<Rightarrow> (nat \<Rightarrow> nat) \<Rightarrow> nat \<Rightarrow> nat \<Rightarrow> nat option" where
  "list_entry pfn h l i =
     (let off = l mod PAGE_SIZE; b = (if pfn (l div PAGE_SIZE) then off else 8 * off) + 8 * i
      in if b + 8 \<le> PAGE_SIZE then Some (read64 h ((if pfn (l div PAGE_SIZE) then l - off else l) + b)) else None)"

definition cmd_io_offset :: "nat \<Rightarrow> nvme_command \<Rightarrow> nat" where
  "cmd_io_offset lba_bits c = u64 (rw_slba c * 2 ^ lba_bits)"

definition io_length :: "nat \<Rightarrow> nvme_command \<Rightarrow> nat" where
  "io_length lba_bits c = (rw_length c + 1) * 2 ^ lba_bits"

section \<open>The walk over the PRP entries\<close>

text \<open>The \<open>n\<close>-th address (from 1), when \<open>rem\<close> bytes are left; \<open>lst\<close> is the address of the list and \<open>k\<close> the number of its entries used.\<close>

definition next_prp :: "(nat \<Rightarrow> bool) \<Rightarrow> (nat \<Rightarrow> nat) \<Rightarrow> nvme_command \<Rightarrow> nat \<Rightarrow> nat \<Rightarrow> nat option \<times> nat \<Rightarrow>
    (nat \<times> nat option \<times> nat) option" where
  "next_prp pfn h cmd n rem st = (let (lst, k) = st in
     if n = 1 then Some (prp1 cmd, lst, k)
     else if n = 2 then
       (if PAGE_SIZE < rem then do { p \<leftarrow> list_entry pfn h (prp2 cmd) k; Some (p, Some (prp2 cmd), k + 1) }
        else Some (prp2 cmd, lst, k))
     else do { l \<leftarrow> lst; p \<leftarrow> list_entry pfn h l k; Some (p, lst, k + 1) })"

definition seg_len :: "nat \<Rightarrow> nat \<Rightarrow> nat" where
  "seg_len rem paddr =
     (let io_size = min rem PAGE_SIZE; off = paddr mod PAGE_SIZE
      in if off \<noteq> 0 \<and> PAGE_SIZE < io_size + off then PAGE_SIZE - off else io_size)"

lemma seg_len_pos: "0 < rem \<Longrightarrow> 0 < seg_len rem p" "seg_len rem p \<le> rem" "seg_len rem p \<le> PAGE_SIZE - p mod PAGE_SIZE"
  using mod_less_divisor [of PAGE_SIZE p] by (auto simp: seg_len_def Let_def PAGE_SIZE_def)

section \<open>Copying page by page\<close>

definition copy_seg :: "nat list \<Rightarrow> nvme_command \<Rightarrow> nat \<Rightarrow> nat \<Rightarrow> nat \<Rightarrow> sys_mem \<Rightarrow> sys_mem option" where
  "copy_seg bases cmd a off n m =
     (if opcode cmd = nvme_cmd_write \<or> opcode cmd = nvme_cmd_zone_append then do {
        b \<leftarrow> idx bases (dec32 (nsid cmd));
        Some (m\<lparr>disk := memcpy (disk m) (b + off) (host m) a n\<rparr>) }
      else if opcode cmd = nvme_cmd_read then do {
        b \<leftarrow> idx bases (dec32 (nsid cmd));
        Some (m\<lparr>host := memcpy (host m) a (disk m) (b + off) n\<rparr>) }
      else Some m)"

function perform_loop :: "(nat \<Rightarrow> bool) \<Rightarrow> nat list \<Rightarrow> nvme_command \<Rightarrow> nat \<Rightarrow> nat option \<times> nat \<Rightarrow> nat \<Rightarrow> nat \<Rightarrow> sys_mem \<Rightarrow> sys_mem option" where
  "perform_loop pfn bases cmd n st rem off m =
     (if rem = 0 then Some m
      else do {
        (paddr, st) \<leftarrow> next_prp pfn (host m) cmd (n + 1) rem st;
        m \<leftarrow> copy_seg bases cmd (data_addr pfn paddr) off (seg_len rem paddr) m;
        perform_loop pfn bases cmd (n + 1) st (rem - seg_len rem paddr) (off + seg_len rem paddr) m })"
  by pat_completeness auto
termination
  by (relation "measure (\<lambda>(pfn, bases, cmd, n, st, rem, off, m). rem)") (simp_all add: seg_len_pos)

declare perform_loop.simps [simp del]

definition do_perform_io :: "(nat \<Rightarrow> bool) \<Rightarrow> nat list \<Rightarrow> nat \<Rightarrow> nvme_command \<Rightarrow> sys_mem \<Rightarrow> sys_mem option" where
  "do_perform_io pfn bases lba_bits cmd m =
     perform_loop pfn bases cmd 0 (None, 0) (io_length lba_bits cmd) (cmd_io_offset lba_bits cmd) m"

section \<open>Copying runs of pages by DMA\<close>

definition MAX_PRPS :: nat where "MAX_PRPS = 512"

text \<open>The first loop: the addresses are put into \<open>paddr_list\<close>, from index 1.\<close>

function gather :: "(nat \<Rightarrow> bool) \<Rightarrow> (nat \<Rightarrow> nat) \<Rightarrow> nvme_command \<Rightarrow> nat \<Rightarrow> nat option \<times> nat \<Rightarrow> nat \<Rightarrow> nat list \<Rightarrow> (nat \<times> nat list) option" where
  "gather pfn h cmd n st rem pl =
     (if rem = 0 then Some (n, pl)
      else do {
        NVMEV_ASSERT (n + 1 < length pl);
        (paddr, st) \<leftarrow> next_prp pfn h cmd (n + 1) rem st;
        gather pfn h cmd (n + 1) st (rem - seg_len rem paddr) (pl[n + 1 := paddr]) })"
  by pat_completeness auto
termination
  by (relation "measure (\<lambda>(pfn, h, cmd, n, st, rem, pl). rem)") (simp_all add: seg_len_pos)

declare gather.simps [simp del]

text \<open>The inner loop of the second: from \<open>i\<close> on, as long as the addresses are consecutive pages. The result is the index
  after the run and the size.\<close>

function extend_run :: "nat list \<Rightarrow> nat \<Rightarrow> nat \<Rightarrow> nat \<Rightarrow> nat \<times> nat" where
  "extend_run pl num i page_size =
     (if i \<le> num \<and> pl ! i = pl ! (i - 1) + PAGE_SIZE then extend_run pl num (i + 1) (page_size + PAGE_SIZE) else (i, page_size))"
  by pat_completeness auto
termination
  by (relation "measure (\<lambda>(pl, num, i, page_size). num + 1 - i)") auto

declare extend_run.simps [simp del]

lemma extend_run_le: "ps \<le> snd (extend_run pl num i ps)"
proof (induction pl num i ps rule: extend_run.induct)
  case (1 pl num i ps)
  then show ?case by (subst extend_run.simps) (auto dest: le_trans [rotated])
qed

definition dma_copy :: "nvme_command \<Rightarrow> nat \<Rightarrow> nat \<Rightarrow> nat \<Rightarrow> sys_mem \<Rightarrow> sys_mem" where
  "dma_copy cmd a off n m =
     (if opcode cmd = nvme_cmd_write \<or> opcode cmd = nvme_cmd_zone_append then m\<lparr>disk := memcpy (disk m) off (host m) a n\<rparr>
      else if opcode cmd = nvme_cmd_read then m\<lparr>host := memcpy (host m) a (disk m) off n\<rparr>
      else m)"

function dma_loop :: "nvme_command \<Rightarrow> nat list \<Rightarrow> nat \<Rightarrow> nat \<Rightarrow> nat \<Rightarrow> nat \<Rightarrow> sys_mem \<Rightarrow> sys_mem option" where
  "dma_loop cmd pl num i rem off m =
     (if rem = 0 then Some m
      else do {
        paddr \<leftarrow> idx pl i;
        let run = extend_run pl num (i + 1) (seg_len rem paddr); io_size = min rem (snd run)
        in dma_loop cmd pl num (fst run) (rem - io_size) (off + io_size) (dma_copy cmd paddr off io_size m) })"
  by pat_completeness auto
termination
proof (relation "measure (\<lambda>(cmd, pl, num, i, rem, off, m). rem)", goal_cases)
  case (2 cmd pl num i rem off m paddr run io_size)
  then show ?case using extend_run_le [of "seg_len rem paddr" pl num "i + 1"] seg_len_pos(1) [of rem paddr] by auto
qed simp

declare dma_loop.simps [simp del]

definition do_perform_io_using_dma :: "(nat \<Rightarrow> bool) \<Rightarrow> nat \<Rightarrow> nvme_command \<Rightarrow> sys_mem \<Rightarrow> sys_mem option" where
  "do_perform_io_using_dma pfn lba_bits cmd m = do {
     (num, pl) \<leftarrow> gather pfn (host m) cmd 0 (None, 0) (io_length lba_bits cmd) (replicate (MAX_PRPS + 1) 0);
     dma_loop cmd pl num 1 (io_length lba_bits cmd) (cmd_io_offset lba_bits cmd) m }"

section \<open>A buffer of the device to the host\<close>

text \<open>\<open>__prp_transfer_data\<close> of \<open>zns_mgmt_recv.c\<close> with \<open>io = 0\<close>, and the same loop of \<open>kv_iter_read\<close>: from a buffer to the pages
  of the host, all mapped by \<open>kmap_atomic_pfn\<close>. Reading behind the end of the buffer has no behaviour.\<close>

function prp_out_loop :: "nat list \<Rightarrow> nvme_command \<Rightarrow> nat \<Rightarrow> nat option \<times> nat \<Rightarrow> nat \<Rightarrow> nat \<Rightarrow> sys_mem \<Rightarrow> sys_mem option" where
  "prp_out_loop buf cmd n st rem off m =
     (if rem = 0 then Some m
      else do {
        (paddr, st) \<leftarrow> next_prp (\<lambda>_. True) (host m) cmd (n + 1) rem st;
        NVMEV_ASSERT (off + seg_len rem paddr \<le> length buf);
        prp_out_loop buf cmd (n + 1) st (rem - seg_len rem paddr) (off + seg_len rem paddr)
          (m\<lparr>host := memcpy (host m) paddr (\<lambda>x. buf ! x) off (seg_len rem paddr)\<rparr>) })"
  by pat_completeness auto
termination
  by (relation "measure (\<lambda>(buf, cmd, n, st, rem, off, m). rem)") (simp_all add: seg_len_pos)

declare prp_out_loop.simps [simp del]

definition prp_transfer_out :: "nat list \<Rightarrow> nvme_command \<Rightarrow> nat \<Rightarrow> sys_mem \<Rightarrow> sys_mem option" where
  "prp_transfer_out buf cmd len m = prp_out_loop buf cmd 0 (None, 0) len 0 m"

section \<open>The addresses and segments of a command\<close>

function prps :: "(nat \<Rightarrow> bool) \<Rightarrow> (nat \<Rightarrow> nat) \<Rightarrow> nvme_command \<Rightarrow> nat \<Rightarrow> nat option \<times> nat \<Rightarrow> nat \<Rightarrow> nat list option" where
  "prps pfn h cmd n st rem =
     (if rem = 0 then Some []
      else do {
        (paddr, st) \<leftarrow> next_prp pfn h cmd (n + 1) rem st;
        ps \<leftarrow> prps pfn h cmd (n + 1) st (rem - seg_len rem paddr);
        Some (paddr # ps) })"
  by pat_completeness auto
termination
  by (relation "measure (\<lambda>(pfn, h, cmd, n, st, rem). rem)") (simp_all add: seg_len_pos)

declare prps.simps [simp del]

fun segs :: "nat \<Rightarrow> nat \<Rightarrow> nat list \<Rightarrow> (nat \<times> nat \<times> nat) list" where
  "segs rem off [] = []"
| "segs rem off (p # ps) = (p, off, seg_len rem p) # segs (rem - seg_len rem p) (off + seg_len rem p) ps"

fun covers :: "nat \<Rightarrow> nat list \<Rightarrow> bool" where
  "covers rem [] \<longleftrightarrow> rem = 0"
| "covers rem (p # ps) \<longleftrightarrow> 0 < rem \<and> covers (rem - seg_len rem p) ps"

lemma prps_0 [simp]: "prps pfn h cmd n st 0 = Some []"
  by (subst prps.simps) simp

lemma prps_pos:
  "0 < rem \<Longrightarrow> prps pfn h cmd n st rem = Some ps \<longleftrightarrow> (\<exists>p st' qs. next_prp pfn h cmd (n + 1) rem st = Some (p, st') \<and>
     prps pfn h cmd (n + 1) st' (rem - seg_len rem p) = Some qs \<and> ps = p # qs)"
  by (subst prps.simps) (auto simp: bind_eq_Some_conv)

lemma prps_covers: "prps pfn h cmd n st rem = Some ps \<Longrightarrow> covers rem ps"
proof (induction ps arbitrary: n st rem)
  case Nil
  then show ?case by (cases "rem = 0") (simp_all add: prps_pos)
next
  case (Cons p ps)
  then show ?case by (cases "rem = 0") (auto simp: prps_pos)
qed

lemma gather_prps:
  "prps pfn h cmd n st rem = Some ps \<Longrightarrow> n + length ps < length pl \<Longrightarrow>
    gather pfn h cmd n st rem pl = Some (n + length ps, take (n + 1) pl @ ps @ drop (n + 1 + length ps) pl)"
proof (induction ps arbitrary: n st rem pl)
  case Nil
  then have "rem = 0" using prps_covers by fastforce
  then show ?case by (subst gather.simps) simp
next
  case (Cons p ps)
  have r: "0 < rem" using prps_covers [OF Cons.prems(1)] by simp
  then obtain st' where st: "next_prp pfn h cmd (n + 1) rem st = Some (p, st')" "prps pfn h cmd (n + 1) st' (rem - seg_len rem p) = Some ps"
    using Cons.prems(1) by (auto simp: prps_pos)
  have l: "n + 1 + length ps < length (pl[n + 1 := p])" using Cons.prems(2) by simp
  have "gather pfn h cmd n st rem pl = gather pfn h cmd (n + 1) st' (rem - seg_len rem p) (pl[n + 1 := p])"
    using r st(1) Cons.prems(2) by (subst gather.simps) simp
  also have "\<dots> = Some (n + 1 + length ps, take (n + 1 + 1) (pl[n + 1 := p]) @ ps @ drop (n + 1 + 1 + length ps) (pl[n + 1 := p]))"
    by (rule Cons.IH [OF st(2) l])
  also have "take (n + 1 + 1) (pl[n + 1 := p]) = take (n + 1) pl @ [p]"
    using Cons.prems(2) take_Suc_conv_app_nth [of "n + 1" "pl[n + 1 := p]"] by simp
  finally show ?case using Cons.prems(2) by simp
qed

section \<open>Page by page\<close>

text \<open>The list of a command lies in one page; changes elsewhere do not affect the walk.\<close>

definition list_safe :: "nvme_command \<Rightarrow> nat option \<times> nat \<Rightarrow> bool" where
  "list_safe cmd st \<longleftrightarrow> fst st = None \<or> fst st = Some (prp2 cmd)"

definition same_page :: "nvme_command \<Rightarrow> (nat \<Rightarrow> nat) \<Rightarrow> (nat \<Rightarrow> nat) \<Rightarrow> bool" where
  "same_page cmd h h' \<longleftrightarrow> (\<forall>x. x div PAGE_SIZE = prp2 cmd div PAGE_SIZE \<longrightarrow> h x = h' x)"

lemma read64_cong: "(\<And>k. k < 8 \<Longrightarrow> h (a + k) = h' (a + k)) \<Longrightarrow> read64 h a = read64 h' a"
  unfolding read64_def by (intro fold_cong refl) auto

lemma list_entry_cong:
  assumes "\<And>x. x div PAGE_SIZE = l div PAGE_SIZE \<Longrightarrow> h x = h' x" "pfn (l div PAGE_SIZE)"
  shows "list_entry pfn h l i = list_entry pfn h' l i"
proof -
  have "read64 h (l - l mod PAGE_SIZE + b) = read64 h' (l - l mod PAGE_SIZE + b)" if b: "b + 8 \<le> PAGE_SIZE" for b
  proof (rule read64_cong)
    fix k :: nat assume k: "k < 8"
    have "l - l mod PAGE_SIZE + b + k = PAGE_SIZE * (l div PAGE_SIZE) + (b + k)" by (simp add: minus_mod_eq_mult_div)
    also have "\<dots> div PAGE_SIZE = l div PAGE_SIZE" using b k by (simp add: PAGE_SIZE_def)
    finally show "h (l - l mod PAGE_SIZE + b + k) = h' (l - l mod PAGE_SIZE + b + k)" by (rule assms(1))
  qed
  from this [of "l mod PAGE_SIZE + 8 * i"] have "l mod PAGE_SIZE + 8 * i + 8 \<le> PAGE_SIZE \<Longrightarrow> read64 h (l + 8 * i) = read64 h' (l + 8 * i)"
    by (simp add: add.assoc)
  then show ?thesis using assms(2) by (simp add: list_entry_def Let_def)
qed

lemma next_prp_cong:
  assumes "same_page cmd h h'" "list_safe cmd st" "pfn (prp2 cmd div PAGE_SIZE)"
  shows "next_prp pfn h cmd n rem st = next_prp pfn h' cmd n rem st"
proof -
  have "list_entry pfn h (prp2 cmd) k = list_entry pfn h' (prp2 cmd) k" for k
    using assms(1,3) by (intro list_entry_cong) (simp_all add: same_page_def)
  then show ?thesis using assms(2) by (auto simp: next_prp_def list_safe_def split: prod.split)
qed

lemma next_prp_safe: "next_prp pfn h cmd n rem st = Some (p, st') \<Longrightarrow> list_safe cmd st \<Longrightarrow> list_safe cmd st'"
  by (auto simp: next_prp_def list_safe_def bind_eq_Some_conv split: prod.splits if_splits)

lemma prps_cong:
  "same_page cmd h h' \<Longrightarrow> pfn (prp2 cmd div PAGE_SIZE) \<Longrightarrow> list_safe cmd st \<Longrightarrow> prps pfn h cmd n st rem = Some ps \<Longrightarrow> prps pfn h' cmd n st rem = Some ps"
proof (induction ps arbitrary: n st rem)
  case Nil
  then show ?case by (cases "rem = 0") (simp_all add: prps_pos)
next
  case (Cons p ps)
  show ?case
  proof (cases "rem = 0")
    case True
    then show ?thesis using Cons.prems(4) by simp
  next
    case False
    then obtain st' where st: "next_prp pfn h cmd (n + 1) rem st = Some (p, st')" "prps pfn h cmd (n + 1) st' (rem - seg_len rem p) = Some ps"
      using Cons.prems(4) by (auto simp: prps_pos)
    have "prps pfn h' cmd (n + 1) st' (rem - seg_len rem p) = Some ps"
      by (rule Cons.IH [OF Cons.prems(1,2) next_prp_safe [OF st(1) Cons.prems(3)] st(2)])
    then show ?thesis using False st(1) next_prp_cong [of cmd h h' st pfn] Cons.prems by (auto simp: prps_pos)
  qed
qed

text \<open>Without a list, which two pages do not need, the walk does not read the memory at all.\<close>

lemma prps_short:
  "prps pfn h cmd n st rem = Some ps \<Longrightarrow> n + length ps \<le> 2 \<Longrightarrow> prps pfn h' cmd n st rem = Some ps"
proof (induction ps arbitrary: n st rem)
  case Nil
  then show ?case by (cases "rem = 0") (simp_all add: prps_pos)
next
  case (Cons p ps)
  have r: "0 < rem" using prps_covers [OF Cons.prems(1)] by simp
  then obtain st' where st: "next_prp pfn h cmd (n + 1) rem st = Some (p, st')" "prps pfn h cmd (n + 1) st' (rem - seg_len rem p) = Some ps"
    using Cons.prems(1) by (auto simp: prps_pos)
  have "\<not> (n + 1 = 2 \<and> PAGE_SIZE < rem)"
  proof
    assume a: "n + 1 = 2 \<and> PAGE_SIZE < rem"
    have "seg_len rem p \<le> PAGE_SIZE" using seg_len_pos(3) [of rem p] by simp
    then have "ps \<noteq> []" using prps_covers [OF st(2)] a by auto
    then show False using Cons.prems(2) a by (cases ps) simp_all
  qed
  then have "next_prp pfn h' cmd (n + 1) rem st = Some (p, st')"
    using st(1) Cons.prems(2) by (auto simp: next_prp_def split: if_splits prod.splits)
  moreover have "prps pfn h' cmd (n + 1) st' (rem - seg_len rem p) = Some ps" using Cons.IH [OF st(2)] Cons.prems(2) by simp
  ultimately show ?case using r by (auto simp: prps_pos)
qed

text \<open>The data of a read does not go into the page of the list.\<close>

definition apart :: "nvme_command \<Rightarrow> (nat \<times> nat \<times> nat) list \<Rightarrow> bool" where
  "apart cmd ss \<longleftrightarrow> opcode cmd = nvme_cmd_read \<longrightarrow>
     (\<forall>(a, off, n) \<in> set ss. \<forall>x. a \<le> x \<and> x < a + n \<longrightarrow> x div PAGE_SIZE \<noteq> prp2 cmd div PAGE_SIZE)"

definition copy_segs :: "nat list \<Rightarrow> nvme_command \<Rightarrow> (nat \<times> nat \<times> nat) list \<Rightarrow> sys_mem \<Rightarrow> sys_mem option" where
  "copy_segs bases cmd = foldM (\<lambda>(a, off, n). copy_seg bases cmd a off n)"

lemma copy_seg_page:
  assumes "copy_seg bases cmd a off n m = Some m'" "opcode cmd = nvme_cmd_read \<longrightarrow> (\<forall>x. a \<le> x \<and> x < a + n \<longrightarrow> x div PAGE_SIZE \<noteq> prp2 cmd div PAGE_SIZE)"
  shows "same_page cmd (host m) (host m')"
  using assms by (auto simp: copy_seg_def same_page_def memcpy_def bind_eq_Some_conv io_opcodes split: if_splits)

lemma perform_loop_segs:
  assumes "\<And>x. pfn x" "prps pfn (host m) cmd n st rem = Some ps" "list_safe cmd st" "n + length ps \<le> 2 \<or> apart cmd (segs rem off ps)"
  shows "perform_loop pfn bases cmd n st rem off m = copy_segs bases cmd (segs rem off ps) m"
  using assms(2-4)
proof (induction ps arbitrary: n st rem off m)
  case Nil
  then have "rem = 0" using prps_covers by fastforce
  then show ?case by (subst perform_loop.simps) (simp add: copy_segs_def)
next
  case (Cons p ps)
  have r: "0 < rem" using prps_covers [OF Cons.prems(1)] by simp
  then obtain st' where st: "next_prp pfn (host m) cmd (n + 1) rem st = Some (p, st')" "prps pfn (host m) cmd (n + 1) st' (rem - seg_len rem p) = Some ps"
    using Cons.prems(1) by (auto simp: prps_pos)
  have da: "data_addr pfn p = p" using assms(1) by (simp add: data_addr_def)
  have e: "perform_loop pfn bases cmd n st rem off m = copy_seg bases cmd p off (seg_len rem p) m \<bind>
      perform_loop pfn bases cmd (n + 1) st' (rem - seg_len rem p) (off + seg_len rem p)"
    using r st(1) da by (subst perform_loop.simps) simp
  also have "\<dots> = copy_seg bases cmd p off (seg_len rem p) m \<bind> copy_segs bases cmd (segs (rem - seg_len rem p) (off + seg_len rem p) ps)"
  proof (cases "copy_seg bases cmd p off (seg_len rem p) m")
    case (Some m')
    have "prps pfn (host m') cmd (n + 1) st' (rem - seg_len rem p) = Some ps"
    proof (cases "n + length (p # ps) \<le> 2")
      case True
      then show ?thesis by (intro prps_short [OF st(2)]) simp
    next
      case False
      have "same_page cmd (host m) (host m')"
        by (rule copy_seg_page [OF Some]) (use Cons.prems(3) False in \<open>simp add: apart_def\<close>)
      then show ?thesis using prps_cong [OF _ assms(1) next_prp_safe [OF st(1) Cons.prems(2)] st(2)] by blast
    qed
    moreover have "n + 1 + length ps \<le> 2 \<or> apart cmd (segs (rem - seg_len rem p) (off + seg_len rem p) ps)"
      using Cons.prems(3) by (auto simp: apart_def)
    ultimately show ?thesis using Cons.IH [of m' "n + 1" st' "rem - seg_len rem p" "off + seg_len rem p"]
        next_prp_safe [OF st(1) Cons.prems(2)] Some by simp
  qed simp
  finally show ?case by (simp add: copy_segs_def)
qed

section \<open>Runs\<close>

fun cons_pages :: "nat \<Rightarrow> nat list \<Rightarrow> nat" where
  "cons_pages q [] = 0"
| "cons_pages q (x # xs) = (if x = q + PAGE_SIZE then Suc (cons_pages x xs) else 0)"

lemma extend_run_cons:
  "drop i (take (num + 1) pl) = xs \<Longrightarrow> pl ! (i - 1) = q \<Longrightarrow> num < length pl \<Longrightarrow>
    extend_run pl num i z = (i + cons_pages q xs, z + cons_pages q xs * PAGE_SIZE)"
proof (induction xs arbitrary: i q z)
  case Nil
  then have "num < i" by simp
  then show ?case by (subst extend_run.simps) simp
next
  case (Cons x xs)
  have "drop i (take (num + 1) pl) \<noteq> []" using Cons.prems(1) by simp
  then have i: "i \<le> num" by simp
  then have x: "pl ! i = x" "drop (i + 1) (take (num + 1) pl) = xs"
    using Cons.prems by (simp_all add: Cons_nth_drop_Suc [symmetric])
  show ?case
  proof (cases "x = q + PAGE_SIZE")
    case True
    have "extend_run pl num i z = extend_run pl num (i + 1) (z + PAGE_SIZE)"
      using i x(1) Cons.prems(2) True by (subst extend_run.simps) simp
    then show ?thesis using Cons.IH [of "i + 1" x "z + PAGE_SIZE"] x Cons.prems(3) True by simp
  next
    case False
    then show ?thesis using x(1) Cons.prems(2) by (subst extend_run.simps) simp
  qed
qed

definition dma_segs :: "nvme_command \<Rightarrow> (nat \<times> nat \<times> nat) list \<Rightarrow> sys_mem \<Rightarrow> sys_mem" where
  "dma_segs cmd = fold (\<lambda>(a, off, n). dma_copy cmd a off n)"

lemma dma_copy_add: "dma_copy cmd (a + n) (off + n) k (dma_copy cmd a off n m) = dma_copy cmd a off (n + k) m"
proof -
  have "memcpy (memcpy d a s b n) (a + n) s (b + n) k = memcpy d a s b (n + k)" for d a s b
    by (rule ext) (auto simp: memcpy_def)
  then show ?thesis by (simp add: dma_copy_def)
qed

lemma seg_aligned: "p mod PAGE_SIZE = 0 \<Longrightarrow> seg_len rem p = min rem PAGE_SIZE"
  by (simp add: seg_len_def Let_def)

lemma run_segs:
  assumes "covers rem (p # xs)" "\<forall>x \<in> set xs. x mod PAGE_SIZE = 0"
  defines "r \<equiv> cons_pages p xs"
  defines "n \<equiv> min rem (seg_len rem p + r * PAGE_SIZE)"
  shows "dma_segs cmd (segs rem off (p # xs)) m = dma_segs cmd (segs (rem - n) (off + n) (drop r xs)) (dma_copy cmd p off n m) \<and>
    covers (rem - n) (drop r xs) \<and> r \<le> length xs"
  using assms(1,2) unfolding n_def r_def
proof (induction xs arbitrary: rem p off m)
  case Nil
  have "min rem (seg_len rem p) = seg_len rem p" using seg_len_pos(2) by simp
  then show ?case using Nil by (simp add: dma_segs_def)
next
  case (Cons x xs)
  have c: "covers (rem - seg_len rem p) (x # xs)" using Cons.prems(1) by simp
  show ?case
  proof (cases "x = p + PAGE_SIZE")
    case False
    have "min rem (seg_len rem p) = seg_len rem p" using seg_len_pos(2) by simp
    then show ?thesis using False c by (simp add: dma_segs_def)
  next
    case True
    then have "p mod PAGE_SIZE = 0" using Cons.prems(2) by simp
    then have s: "seg_len rem p = PAGE_SIZE" "PAGE_SIZE < rem" using seg_aligned c by auto
    have sx: "seg_len (rem - PAGE_SIZE) x = min (rem - PAGE_SIZE) PAGE_SIZE" using seg_aligned Cons.prems(2) by simp
    let ?r = "cons_pages x xs" define k where "k = min (rem - PAGE_SIZE) (seg_len (rem - PAGE_SIZE) x + ?r * PAGE_SIZE)"
    have IH: "dma_segs cmd (segs (rem - PAGE_SIZE) (off + PAGE_SIZE) (x # xs)) (dma_copy cmd p off PAGE_SIZE m) =
        dma_segs cmd (segs (rem - PAGE_SIZE - k) (off + PAGE_SIZE + k) (drop ?r xs)) (dma_copy cmd x (off + PAGE_SIZE) k (dma_copy cmd p off PAGE_SIZE m)) \<and>
      covers (rem - PAGE_SIZE - k) (drop ?r xs) \<and> ?r \<le> length xs"
      unfolding k_def by (rule Cons.IH) (use c s Cons.prems(2) in simp_all)
    have k: "min rem (seg_len rem p + cons_pages p (x # xs) * PAGE_SIZE) = PAGE_SIZE + k"
      using True s sx unfolding k_def by (auto simp: min_def algebra_simps)
    have "dma_segs cmd (segs rem off (p # x # xs)) m = dma_segs cmd (segs (rem - PAGE_SIZE) (off + PAGE_SIZE) (x # xs)) (dma_copy cmd p off PAGE_SIZE m)"
      by (simp add: dma_segs_def s(1))
    moreover have "drop (cons_pages p (x # xs)) (x # xs) = drop ?r xs" "cons_pages p (x # xs) \<le> length (x # xs)" using True IH by simp_all
    moreover have "rem - (PAGE_SIZE + k) = rem - PAGE_SIZE - k" "off + (PAGE_SIZE + k) = off + PAGE_SIZE + k" by simp_all
    ultimately show ?thesis unfolding k using IH True dma_copy_add [of cmd p PAGE_SIZE off k m] by (simp only:)
  qed
qed

lemma dma_loop_segs:
  "drop i (take (num + 1) pl) = ps \<Longrightarrow> covers rem ps \<Longrightarrow> \<forall>x \<in> set (tl ps). x mod PAGE_SIZE = 0 \<Longrightarrow> num < length pl \<Longrightarrow> 0 < i \<Longrightarrow>
    dma_loop cmd pl num i rem off m = Some (dma_segs cmd (segs rem off ps) m)"
proof (induction "length ps" arbitrary: i rem off m ps rule: less_induct)
  case less
  show ?case
  proof (cases ps)
    case Nil
    then have "rem = 0" using less.prems(2) by simp
    then show ?thesis using Nil by (subst dma_loop.simps) (simp add: dma_segs_def)
  next
    case (Cons p xs)
    have r: "0 < rem" using less.prems(2) Cons by simp
    have "drop i (take (num + 1) pl) \<noteq> []" using less.prems(1) Cons by simp
    then have i: "i \<le> num" by simp
    then have x: "pl ! i = p" "drop (i + 1) (take (num + 1) pl) = xs"
      using less.prems(1,4) Cons by (simp_all add: Cons_nth_drop_Suc [symmetric])
    let ?r = "cons_pages p xs" let ?n = "min rem (seg_len rem p + ?r * PAGE_SIZE)"
    have er: "extend_run pl num (i + 1) (seg_len rem p) = (i + 1 + ?r, seg_len rem p + ?r * PAGE_SIZE)"
      using extend_run_cons [OF x(2) _ less.prems(4), of p "seg_len rem p"] x(1) by simp
    have al: "\<forall>y \<in> set xs. y mod PAGE_SIZE = 0" using less.prems(3) Cons by simp
    have R: "dma_segs cmd (segs rem off (p # xs)) m = dma_segs cmd (segs (rem - ?n) (off + ?n) (drop ?r xs)) (dma_copy cmd p off ?n m)"
      "covers (rem - ?n) (drop ?r xs)" "?r \<le> length xs" using run_segs [of rem p xs cmd off m] less.prems(2) Cons al by blast+
    have st: "dma_loop cmd pl num i rem off m = dma_loop cmd pl num (i + 1 + ?r) (rem - ?n) (off + ?n) (dma_copy cmd p off ?n m)"
      using r i x(1) less.prems(4) er by (subst dma_loop.simps) (simp add: arr_simps Let_def)
    have "drop (i + 1 + ?r) (take (num + 1) pl) = drop ?r xs" using x(2) by (metis add.commute drop_drop)
    moreover have "\<forall>y \<in> set (tl (drop ?r xs)). y mod PAGE_SIZE = 0" using al by (metis in_set_dropD list.set_sel(2) tl_Nil list.set(1) empty_iff)
    moreover have "length (drop ?r xs) < length ps" using Cons by simp
    ultimately have "dma_loop cmd pl num (i + 1 + ?r) (rem - ?n) (off + ?n) (dma_copy cmd p off ?n m) =
        Some (dma_segs cmd (segs (rem - ?n) (off + ?n) (drop ?r xs)) (dma_copy cmd p off ?n m))"
      using less.hyps R(2) less.prems(4) by simp
    then show ?thesis using st R(1) Cons by simp
  qed
qed

end
