(* ===== verification/Prp_Laws.thy ===== *)
theory Prp_Laws
  imports Prp Worker_Laws
begin

text \<open>
  What the data path does to the memory: copying page by page and copying runs of pages by DMA are the same, byte \<open>j\<close> of a command goes
  between the place that the PRP entries give it and the byte \<open>j\<close> after the offset of the command in the storage, and
  what is written is read back. The page-wise copying keeps the contract of the locale \<open>data_copy\<close>.
\<close>

section \<open>The two routines agree\<close>

lemma copy_seg_dma: "idx bases (dec32 (nsid cmd)) = Some 0 \<Longrightarrow> copy_seg bases cmd a off n m = Some (dma_copy cmd a off n m)"
  by (simp add: copy_seg_def dma_copy_def)

lemma copy_segs_dma: "idx bases (dec32 (nsid cmd)) = Some 0 \<Longrightarrow> copy_segs bases cmd ss m = Some (dma_segs cmd ss m)"
  by (induction ss arbitrary: m) (auto simp: copy_segs_def dma_segs_def copy_seg_dma)

lemma dma_ok:
  assumes "prps pfn (host m) cmd 0 (None, 0) (io_length lb cmd) = Some ps" "length ps \<le> MAX_PRPS" "\<forall>p \<in> set (tl ps). p mod PAGE_SIZE = 0"
  shows "do_perform_io_using_dma pfn lb cmd m = Some (dma_segs cmd (segs (io_length lb cmd) (cmd_io_offset lb cmd) ps) m)"
proof -
  let ?pl = "take (0 + 1) (replicate (MAX_PRPS + 1) 0) @ ps @ drop (0 + 1 + length ps) (replicate (MAX_PRPS + 1) 0)"
  have g: "gather pfn (host m) cmd 0 (None, 0) (io_length lb cmd) (replicate (MAX_PRPS + 1) 0) = Some (0 + length ps, ?pl)"
    by (rule gather_prps [OF assms(1)]) (use assms(2) in simp)
  have "dma_loop cmd ?pl (length ps) 1 (io_length lb cmd) (cmd_io_offset lb cmd) m =
      Some (dma_segs cmd (segs (io_length lb cmd) (cmd_io_offset lb cmd) ps) m)"
    by (rule dma_loop_segs [OF _ prps_covers [OF assms(1)] assms(3)]) (use assms(2) in simp_all)
  then show ?thesis using g by (simp add: do_perform_io_using_dma_def)
qed

lemma page_ok:
  assumes "\<And>x. pfn x" "prps pfn (host m) cmd 0 (None, 0) (io_length lb cmd) = Some ps"
    "length ps \<le> 2 \<or> apart cmd (segs (io_length lb cmd) (cmd_io_offset lb cmd) ps)"
  shows "do_perform_io pfn bases lb cmd m = copy_segs bases cmd (segs (io_length lb cmd) (cmd_io_offset lb cmd) ps) m"
  unfolding do_perform_io_def by (rule perform_loop_segs [OF assms(1,2)]) (use assms(3) in \<open>simp_all add: list_safe_def\<close>)

section \<open>Bytes\<close>

text \<open>The address of byte \<open>j\<close> of a command of \<open>rem\<close> bytes.\<close>

fun byte_addr :: "nat \<Rightarrow> nat list \<Rightarrow> nat \<Rightarrow> nat" where
  "byte_addr rem [] j = 0"
| "byte_addr rem (p # ps) j = (if j < seg_len rem p then p + j else byte_addr (rem - seg_len rem p) ps (j - seg_len rem p))"

lemma write_bytes:
  assumes "covers rem ps" "opcode cmd = nvme_cmd_write \<or> opcode cmd = nvme_cmd_zone_append"
  shows "dma_segs cmd (segs rem off ps) m =
    m\<lparr>disk := \<lambda>x. if off \<le> x \<and> x < off + rem then host m (byte_addr rem ps (x - off)) else disk m x\<rparr>"
  using assms(1)
proof (induction ps arbitrary: rem off m)
  case Nil
  then have "rem = 0" by simp
  then have "(\<lambda>x. if off \<le> x \<and> x < off + rem then host m (byte_addr rem [] (x - off)) else disk m x) = disk m" by (intro ext) simp
  then show ?case by (simp add: dma_segs_def)
next
  case (Cons p ps)
  let ?s = "seg_len rem p"
  have s: "?s \<le> rem" using seg_len_pos(2) .
  have "dma_segs cmd (segs rem off (p # ps)) m = dma_segs cmd (segs (rem - ?s) (off + ?s) ps) (dma_copy cmd p off ?s m)"
    by (simp add: dma_segs_def)
  also have "\<dots> = (m\<lparr>disk := memcpy (disk m) off (host m) p ?s\<rparr>)\<lparr>disk := \<lambda>x. if off + ?s \<le> x \<and> x < off + ?s + (rem - ?s)
      then host m (byte_addr (rem - ?s) ps (x - (off + ?s))) else memcpy (disk m) off (host m) p ?s x\<rparr>"
  proof -
    have "dma_copy cmd p off ?s m = m\<lparr>disk := memcpy (disk m) off (host m) p ?s\<rparr>" using assms(2) by (simp add: dma_copy_def)
    moreover have c: "covers (rem - ?s) ps" using Cons.prems by simp
    moreover have hd: "host (m\<lparr>disk := D\<rparr>) = host m" "disk (m\<lparr>disk := D\<rparr>) = D" for D by simp_all
    ultimately show ?thesis using Cons.IH [OF c, of "off + ?s" "m\<lparr>disk := memcpy (disk m) off (host m) p ?s\<rparr>"] unfolding hd by (simp only:)
  qed
  also have "\<dots> = m\<lparr>disk := \<lambda>x. if off \<le> x \<and> x < off + rem then host m (byte_addr rem (p # ps) (x - off)) else disk m x\<rparr>"
    using s by (auto simp: memcpy_def fun_eq_iff intro!: sys_mem.equality)
  finally show ?case .
qed

lemma read_bytes:
  assumes "covers rem ps" "inj_on (byte_addr rem ps) {..<rem}" "opcode cmd = nvme_cmd_read"
  shows "\<exists>h. dma_segs cmd (segs rem off ps) m = m\<lparr>host := h\<rparr> \<and> (\<forall>j < rem. h (byte_addr rem ps j) = disk m (off + j)) \<and>
    (\<forall>x. x \<notin> byte_addr rem ps ` {..<rem} \<longrightarrow> h x = host m x)"
  using assms(1,2)
proof (induction ps arbitrary: rem off m)
  case Nil
  have "m = m\<lparr>host := host m\<rparr>" by simp
  then show ?case using Nil by (intro exI [of _ "host m"]) (simp add: dma_segs_def)
next
  case (Cons p ps)
  let ?s = "seg_len rem p" let ?B = "byte_addr rem (p # ps)" let ?b = "byte_addr (rem - ?s) ps"
  have s: "?s \<le> rem" using seg_len_pos(2) .
  let ?m1 = "dma_copy cmd p off ?s m"
  have dm: "?m1 = m\<lparr>host := memcpy (host m) p (disk m) off ?s\<rparr>" using assms(3) by (simp add: dma_copy_def io_opcodes)
  have m1: "disk ?m1 = disk m" "\<And>j. j < ?s \<Longrightarrow> host ?m1 (p + j) = disk m (off + j)" "\<And>h. ?m1\<lparr>host := h\<rparr> = m\<lparr>host := h\<rparr>"
    unfolding dm by (simp_all add: memcpy_def)
  have m2: "host ?m1 x = host m x" if "x \<notin> (+) p ` {..<?s}" for x
  proof -
    have "\<not> (p \<le> x \<and> x < p + ?s)"
    proof
      assume "p \<le> x \<and> x < p + ?s"
      then have "x = p + (x - p)" "x - p \<in> {..<?s}" by auto
      then show False using that by blast
    qed
    then show ?thesis unfolding dm by (auto simp: memcpy_def)
  qed
  have sh: "?B (j + ?s) = ?b j" for j by simp
  have "inj_on ?b {..<rem - ?s}"
  proof (rule inj_onI)
    fix i j assume "i \<in> {..<rem - ?s}" "j \<in> {..<rem - ?s}" "?b i = ?b j"
    then have "?B (i + ?s) = ?B (j + ?s)" "i + ?s \<in> {..<rem}" "j + ?s \<in> {..<rem}" using sh by auto
    then have "i + ?s = j + ?s" using Cons.prems(2) unfolding inj_on_def by blast
    then show "i = j" by simp
  qed
  then obtain h where h: "dma_segs cmd (segs (rem - ?s) (off + ?s) ps) ?m1 = ?m1\<lparr>host := h\<rparr>" "\<forall>j < rem - ?s. h (?b j) = disk ?m1 (off + ?s + j)"
    "\<forall>x. x \<notin> ?b ` {..<rem - ?s} \<longrightarrow> h x = host ?m1 x" using Cons.IH [of "rem - ?s" "off + ?s" ?m1] Cons.prems(1) by auto
  have "dma_segs cmd (segs rem off (p # ps)) m = m\<lparr>host := h\<rparr>" using h(1) m1(3) by (simp add: dma_segs_def)
  moreover have "h (?B j) = disk m (off + j)" if j: "j < rem" for j
  proof (cases "j < ?s")
    case True
    have "p + j \<notin> ?b ` {..<rem - ?s}"
    proof
      assume "p + j \<in> ?b ` {..<rem - ?s}"
      then obtain i where i: "i < rem - ?s" "p + j = ?b i" by auto
      then have "?B j = ?B (i + ?s)" using True sh by simp
      then have "j = i + ?s" using Cons.prems(2) j i(1) unfolding inj_on_def by (metis lessThan_iff less_diff_conv)
      then show False using True by simp
    qed
    then show ?thesis using h(3) m1(2) [OF True] True by simp
  next
    case False
    then have "h (?b (j - ?s)) = disk ?m1 (off + ?s + (j - ?s))" using h(2) j by simp
    then show ?thesis using False m1(1) by simp
  qed
  moreover have "h x = host m x" if x: "x \<notin> ?B ` {..<rem}" for x
  proof -
    have "x \<notin> ?b ` {..<rem - ?s}"
    proof
      assume "x \<in> ?b ` {..<rem - ?s}"
      then obtain i where "i < rem - ?s" "x = ?B (i + ?s)" using sh by auto
      then have "x = ?B (i + ?s)" "i + ?s \<in> {..<rem}" by simp_all
      then show False using x by blast
    qed
    moreover have "x \<notin> (+) p ` {..<?s}"
    proof
      assume "x \<in> (+) p ` {..<?s}"
      then obtain i where "i < ?s" "x = ?B i" by auto
      then have "x = ?B i" "i \<in> {..<rem}" using s by simp_all
      then show False using x by blast
    qed
    ultimately show ?thesis using h(3) m2 by simp
  qed
  ultimately show ?case by blast
qed

section \<open>The contract of the data path\<close>

text \<open>\<open>CS\<close> are the commands in use and \<open>L\<close> their addresses: the memory holds the lists, and no read goes into the page of a list.\<close>

definition lists_ok :: "(nat \<Rightarrow> bool) \<Rightarrow> nat \<Rightarrow> nvme_command set \<Rightarrow> (nvme_command \<Rightarrow> nat list) \<Rightarrow> sys_mem \<Rightarrow> bool" where
  "lists_ok pfn lb CS L m \<longleftrightarrow> (\<forall>c \<in> CS. prps pfn (host m) c 0 (None, 0) (io_length lb c) = Some (L c))"

definition apart_from :: "nvme_command \<Rightarrow> nvme_command \<Rightarrow> (nat \<times> nat \<times> nat) list \<Rightarrow> bool" where
  "apart_from d c ss \<longleftrightarrow> opcode c = nvme_cmd_read \<longrightarrow>
     (\<forall>(a, off, n) \<in> set ss. \<forall>x. a \<le> x \<and> x < a + n \<longrightarrow> x div PAGE_SIZE \<noteq> prp2 d div PAGE_SIZE)"

definition host_ok :: "(nat \<Rightarrow> bool) \<Rightarrow> nat list \<Rightarrow> nat \<Rightarrow> nvme_command set \<Rightarrow> (nvme_command \<Rightarrow> nat list) \<Rightarrow> bool" where
  "host_ok pfn bases lb CS L \<longleftrightarrow> (\<forall>x. pfn x) \<and> (\<forall>c \<in> CS. dec32 (nsid c) < length bases \<and>
     (\<forall>d \<in> CS. length (L d) \<le> 2 \<or> apart_from d c (segs (io_length lb c) (cmd_io_offset lb c) (L c))))"

lemma copy_segs_page:
  "dec32 (nsid c) < length bases \<Longrightarrow> apart_from d c ss \<Longrightarrow> \<exists>m'. copy_segs bases c ss m = Some m' \<and> same_page d (host m) (host m')"
proof (induction ss arbitrary: m)
  case Nil
  then show ?case by (simp add: copy_segs_def same_page_def)
next
  case (Cons s ss)
  obtain a off n where s: "s = (a, off, n)" by (cases s) auto
  have "copy_seg bases c a off n m \<noteq> None" using Cons.prems(1) by (simp add: copy_seg_def arr_simps)
  then obtain m1 where m1: "copy_seg bases c a off n m = Some m1" by blast
  have p1: "same_page d (host m) (host m1)"
    using m1 Cons.prems(2) s by (auto simp: copy_seg_def same_page_def apart_from_def memcpy_def bind_eq_Some_conv io_opcodes split: if_splits)
  have "apart_from d c ss" using Cons.prems(2) by (simp add: apart_from_def)
  then obtain m2 where "copy_segs bases c ss m1 = Some m2" "same_page d (host m1) (host m2)" using Cons.IH Cons.prems(1) by blast
  then show ?case using m1 p1 s by (auto simp: copy_segs_def same_page_def)
qed

lemma copy_segs_some: "dec32 (nsid c) < length bases \<Longrightarrow> \<exists>m'. copy_segs bases c ss m = Some m'"
proof (induction ss arbitrary: m)
  case (Cons s ss)
  obtain a off n where s: "s = (a, off, n)" by (cases s) auto
  have "copy_seg bases c a off n m \<noteq> None" using Cons.prems by (simp add: copy_seg_def arr_simps)
  then show ?case using Cons.IH [OF Cons.prems] s by (auto simp: copy_segs_def)
qed (simp add: copy_segs_def)

interpretation prp_copy: data_copy "do_perform_io pfn bases lb" "\<lambda>c. c \<in> CS \<and> host_ok pfn bases lb CS L" "lists_ok pfn lb CS L"
  for pfn bases lb CS L
proof
  fix c :: nvme_command and m :: sys_mem
  assume c: "c \<in> CS \<and> host_ok pfn bases lb CS L" and m: "lists_ok pfn lb CS L m"
  let ?ss = "segs (io_length lb c) (cmd_io_offset lb c) (L c)"
  have H: "\<And>x. pfn x" "dec32 (nsid c) < length bases" "\<And>d. d \<in> CS \<Longrightarrow> length (L d) \<le> 2 \<or> apart_from d c ?ss" using c by (auto simp: host_ok_def)
  have "length (L c) \<le> 2 \<or> apart c ?ss" using H(3) [of c] c by (auto simp: apart_from_def apart_def)
  moreover have pr: "prps pfn (host m) c 0 (None, 0) (io_length lb c) = Some (L c)" using m c by (simp add: lists_ok_def)
  ultimately have e: "do_perform_io pfn bases lb c m = copy_segs bases c ?ss m" using page_ok [OF H(1) pr] by blast
  obtain m' where m': "copy_segs bases c ?ss m = Some m'" using copy_segs_some [OF H(2)] by blast
  have "lists_ok pfn lb CS L m'" unfolding lists_ok_def
  proof
    fix d assume d: "d \<in> CS"
    have ls: "list_safe d (None, 0)" by (simp add: list_safe_def)
    have pr: "prps pfn (host m) d 0 (None, 0) (io_length lb d) = Some (L d)" using m d by (simp add: lists_ok_def)
    show "prps pfn (host m') d 0 (None, 0) (io_length lb d) = Some (L d)"
    proof (cases "length (L d) \<le> 2")
      case True
      then show ?thesis by (intro prps_short [OF pr]) simp
    next
      case False
      then have "same_page d (host m) (host m')" using copy_segs_page [OF H(2), of d ?ss m] H(3) [OF d] m' by auto
      then show ?thesis by (rule prps_cong [where pfn = pfn, OF _ H(1) ls pr])
    qed
  qed
  then show "\<exists>m'. do_perform_io pfn bases lb c m = Some m' \<and> lists_ok pfn lb CS L m'" using e m' by simp
qed

section \<open>A buffer of the device to the host\<close>

text \<open>The copying is that of a read command whose data is the buffer.\<close>

definition as_read :: "nvme_command \<Rightarrow> nvme_command" where
  "as_read c = c\<lparr>opcode := nvme_cmd_read, nsid := 1\<rparr>"

lemma as_read_prp: "next_prp pfn h (as_read c) n rem st = next_prp pfn h c n rem st"
  by (cases st) (simp add: next_prp_def as_read_def)

lemma as_read_base: "idx [0::nat] (dec32 (nsid (as_read c))) = Some 0"
  by (simp add: as_read_def dec32_def sub32_le arr_simps)

lemma out_perform:
  "off + rem \<le> length buf \<Longrightarrow> disk m' = (\<lambda>x. buf ! x) \<Longrightarrow> host m' = host m \<Longrightarrow>
    prp_out_loop buf c n st rem off m =
      map_option (\<lambda>r. m\<lparr>host := host r\<rparr>) (perform_loop (\<lambda>_. True) [0] (as_read c) n st rem off m')"
proof (induction buf c n st rem off m arbitrary: m' rule: prp_out_loop.induct)
  case (1 buf c n st rem off m)
  show ?case
  proof (cases "rem = 0")
    case True
    then show ?thesis using "1.prems" by (subst prp_out_loop.simps, subst perform_loop.simps) simp
  next
    case False
    show ?thesis
    proof (cases "next_prp (\<lambda>_. True) (host m) c (n + 1) rem st")
      case None
      then show ?thesis using False "1.prems" by (subst prp_out_loop.simps, subst perform_loop.simps) (simp add: as_read_prp)
    next
      case (Some ps)
      obtain p st' where ps: "ps = (p, st')" by (cases ps)
      let ?k = "seg_len rem p"
      have l: "off + ?k \<le> length buf" "off + ?k + (rem - ?k) \<le> length buf" using seg_len_pos(2) [of rem p] "1.prems"(1) by simp_all
      let ?m = "m\<lparr>host := memcpy (host m) p (\<lambda>x. buf ! x) off ?k\<rparr>"
      let ?m' = "m'\<lparr>host := memcpy (host m') p (disk m') off ?k\<rparr>"
      have IH: "prp_out_loop buf c (n + 1) st' (rem - ?k) (off + ?k) ?m =
          map_option (\<lambda>r. ?m\<lparr>host := host r\<rparr>) (perform_loop (\<lambda>_. True) [0] (as_read c) (n + 1) st' (rem - ?k) (off + ?k) ?m')"
        by (rule "1.IH" [OF False Some]) (use ps l "1.prems" in simp_all)
      have cs: "copy_seg [0] (as_read c) (data_addr (\<lambda>_. True) p) off ?k m' = Some ?m'"
        using as_read_base [of c] by (simp add: copy_seg_def as_read_def io_opcodes data_addr_def)
      have "prp_out_loop buf c n st rem off m = prp_out_loop buf c (n + 1) st' (rem - ?k) (off + ?k) ?m"
        using False Some ps l by (subst prp_out_loop.simps) simp
      moreover have "perform_loop (\<lambda>_. True) [0] (as_read c) n st rem off m' = perform_loop (\<lambda>_. True) [0] (as_read c) (n + 1) st' (rem - ?k) (off + ?k) ?m'"
        using False Some ps "1.prems" cs by (subst perform_loop.simps) (simp add: as_read_prp)
      ultimately show ?thesis using IH by simp
    qed
  qed
qed

lemma prps_as_read: "prps pfn h (as_read c) n st rem = prps pfn h c n st rem"
proof (induction pfn h c n st rem rule: prps.induct)
  case (1 pfn h c n st rem)
  show ?case
  proof (cases "rem = 0")
    case False
    show ?thesis
    proof (cases "next_prp pfn h c (n + 1) rem st")
      case (Some r)
      obtain p st' where r: "r = (p, st')" by (cases r)
      have "prps pfn h (as_read c) (n + 1) st' (rem - seg_len rem p) = prps pfn h c (n + 1) st' (rem - seg_len rem p)"
        using "1.IH" [OF False Some] r by simp
      then show ?thesis using False Some r by (subst (1 2) prps.simps) (simp add: as_read_prp)
    qed (use False in \<open>subst (1 2) prps.simps, simp add: as_read_prp\<close>)
  qed (simp add: prps.simps)
qed

text \<open>What the host finds: byte \<open>j\<close> of the buffer at the address of byte \<open>j\<close> of the command.\<close>

lemma transfer_ok:
  assumes "prps (\<lambda>_. True) (host m) c 0 (None, 0) len = Some ps" "len \<le> length buf" "inj_on (byte_addr len ps) {..<len}"
    and "length ps \<le> 2 \<or> apart (as_read c) (segs len 0 ps)"
  shows "\<exists>h. prp_transfer_out buf c len m = Some (m\<lparr>host := h\<rparr>) \<and> (\<forall>j < len. h (byte_addr len ps j) = buf ! j)"
proof -
  let ?c = "as_read c" and ?m = "m\<lparr>disk := \<lambda>x. buf ! x\<rparr>"
  have p: "prps (\<lambda>_. True) (host ?m) ?c 0 (None, 0) len = Some ps" using assms(1) by (simp add: prps_as_read)
  have "perform_loop (\<lambda>_. True) [0] ?c 0 (None, 0) len 0 ?m = copy_segs [0] ?c (segs len 0 ps) ?m"
    by (rule perform_loop_segs [OF _ p]) (use assms(4) in \<open>simp_all add: list_safe_def\<close>)
  also have "\<dots> = Some (dma_segs ?c (segs len 0 ps) ?m)" by (rule copy_segs_dma [OF as_read_base])
  finally have e: "perform_loop (\<lambda>_. True) [0] ?c 0 (None, 0) len 0 ?m = Some (dma_segs ?c (segs len 0 ps) ?m)" .
  have "opcode ?c = nvme_cmd_read" by (simp add: as_read_def)
  from read_bytes [OF prps_covers [OF p] assms(3) this, of 0 ?m]
  obtain h where "dma_segs ?c (segs len 0 ps) ?m = ?m\<lparr>host := h\<rparr>" "\<forall>j < len. h (byte_addr len ps j) = disk ?m (0 + j)" by blast
  then show ?thesis using out_perform [of 0 len buf ?m m c 0 "(None, 0)"] assms(2) e by (auto simp: prp_transfer_out_def)
qed

end
