(* ===== verification/Simple_Ftl.thy ===== *)
theory Simple_Ftl
  imports Dispatch_Client
begin

text \<open>
  The simple latency model (\<open>simple_ftl.c\<close>, the Optane build): the device is a number of I/O units, each of which is busy
  until the time \<open>io_unit_stat\<close>. A command occupies consecutive units, one after the other. It is the second provider of
  the interface \<open>io_namespace\<close>.

  The parameters and the units are fields of the device in the code (\<open>nvmev_vdev->config\<close>) and of the namespace here; the
  wall clock is a sequence of readings.
\<close>

section \<open>Model\<close>

record simple_ns =
  s_id :: nat
  s_csi :: nat
  s_size :: nat
  nr_io_units :: nat
  io_unit_shift :: nat
  s_lba_bits :: nat
  read_delay :: nat
  read_time :: nat
  read_trailing :: nat
  write_delay :: nat
  write_time :: nat
  write_trailing :: nat
  io_unit_stat :: "nat list"
  s_clk :: "nat \<Rightarrow> nat"
  s_tick :: nat

text \<open>The loop: \<open>nr\<close> is the local \<open>nr_io_units\<close>, the number of units whose trailing time is still to be counted.\<close>

function units_loop :: "nat \<Rightarrow> nat \<Rightarrow> nat \<Rightarrow> nat \<Rightarrow> nat \<Rightarrow> nat \<Rightarrow> nat \<Rightarrow> nat \<Rightarrow> nat list \<Rightarrow> (nat \<times> nat list) option" where
  "units_loop units unit_size latency trailing latest nr io_unit len stat = do {
     NVMEV_ASSERT (io_unit < length stat);
     NVMEV_ASSERT (0 < unit_size);
     let latest = latest + latency;
         stat = stat[io_unit := latest + (if 0 < nr then trailing else 0)];
         rest = len - min len unit_size;
         io_unit = (if units \<le> Suc io_unit then 0 else Suc io_unit)
     in if 0 < rest then units_loop units unit_size latency trailing latest (nr - 1) io_unit rest stat
        else Some (latest, stat) }"
  by pat_completeness auto
termination
  by (relation "measure (\<lambda>(units, unit_size, latency, trailing, latest, nr, io_unit, len, stat). len)") auto

declare units_loop.simps [simp del]

definition schedule_io_units :: "nat \<Rightarrow> nat \<Rightarrow> nat \<Rightarrow> nat \<Rightarrow> simple_ns \<Rightarrow> (nat \<times> simple_ns) option" where
  "schedule_io_units opc lba len nsecs_start ns = do {
     NVMEV_ASSERT (s_lba_bits ns \<le> io_unit_shift ns \<and> io_unit_shift ns < 31);
     NVMEV_ASSERT (nr_io_units ns \<noteq> 0);
     let io_unit_size = 2 ^ io_unit_shift ns;
         io_unit = lba div 2 ^ (io_unit_shift ns - s_lba_bits ns) mod nr_io_units ns;
         nr = min (nr_io_units ns) (DIV_ROUND_UP len io_unit_size);
         (delay, latency, trailing) =
           (if opc = nvme_cmd_write then (write_delay ns, write_time ns, write_trailing ns)
            else if opc = nvme_cmd_read then (read_delay ns, read_time ns, read_trailing ns)
            else (0, 0, 0))
     in do {
       busy \<leftarrow> idx (io_unit_stat ns) io_unit;
       (latest, stat) \<leftarrow> units_loop (nr_io_units ns) io_unit_size latency trailing (max nsecs_start busy + delay) nr io_unit len (io_unit_stat ns);
       Some (latest, ns\<lparr>io_unit_stat := stat\<rparr>) } }"

definition schedule_flush :: "simple_ns \<Rightarrow> nat option" where
  "schedule_flush ns = foldM (\<lambda>i latest. do { t \<leftarrow> idx (io_unit_stat ns) i; Some (max latest t) }) [0..<nr_io_units ns] 0"

definition simple_proc_nvme_io_cmd :: "simple_ns proc_io_cmd" where
  "simple_proc_nvme_io_cmd ns req ret = do {
     NVMEV_ASSERT (s_csi ns = NVME_CSI_NVM);
     let cmd = rq_cmd req
     in if opcode cmd = nvme_cmd_write \<or> opcode cmd = nvme_cmd_read then do {
          let now = s_clk ns (s_tick ns)
          in do {
            (t, ns) \<leftarrow> schedule_io_units (opcode cmd) (rw_slba cmd) (cmd_io_size (s_lba_bits ns) cmd) now (ns\<lparr>s_tick := s_tick ns + 1\<rparr>);
            Some (True, ret\<lparr>rs_nsecs_target := t\<rparr>, [], ns) } }
        else if opcode cmd = nvme_cmd_flush then do {
          t \<leftarrow> schedule_flush ns;
          Some (True, ret\<lparr>rs_nsecs_target := t\<rparr>, [], ns) }
        else Some (True, ret, [], ns) }"

definition simple_init_namespace :: "nat \<Rightarrow> nat \<Rightarrow> simple_ns \<Rightarrow> simple_ns" where
  "simple_init_namespace nid sz ns = ns\<lparr>s_id := nid, s_csi := NVME_CSI_NVM, s_size := sz\<rparr>"

section \<open>Laws\<close>

definition simple_inv :: "simple_ns \<Rightarrow> bool" where
  "simple_inv ns \<longleftrightarrow> s_csi ns = NVME_CSI_NVM \<and> 0 < nr_io_units ns \<and> length (io_unit_stat ns) = nr_io_units ns \<and>
     s_lba_bits ns \<le> io_unit_shift ns \<and> io_unit_shift ns < 31"

lemma div_round_up_step: "0 < s \<Longrightarrow> s < n \<Longrightarrow> DIV_ROUND_UP n s = Suc (DIV_ROUND_UP (n - s) s)"
proof -
  assume a: "0 < s" "s < n"
  then have "n + s - 1 = (n - s + s - 1) + s" by simp
  then have "(n + s - 1) div s = (n - s + s - 1) div s + 1" using a(1) by (metis Suc_eq_plus1 div_add_self2 less_not_refl2)
  then show ?thesis by (simp add: DIV_ROUND_UP_def)
qed

lemma div_round_up_1: "0 < n \<Longrightarrow> n \<le> s \<Longrightarrow> DIV_ROUND_UP n s = 1"
proof -
  assume "0 < n" "n \<le> s"
  then have "s \<le> n + s - 1" "n + s - 1 < 2 * s" by simp_all
  then show ?thesis unfolding DIV_ROUND_UP_def by (simp add: div_nat_eqI)
qed

text \<open>The loop makes one round for each unit of data, and no unit becomes free earlier than it was.\<close>

lemma units_loop_ok:
  assumes "0 < len" "io_unit < units" "length stat = units" "0 < unit_size"
  shows "\<exists>stat'. units_loop units unit_size latency trailing latest nr io_unit len stat = Some (latest + latency * DIV_ROUND_UP len unit_size, stat') \<and>
    length stat' = units \<and>
    (\<forall>j < units. stat' ! j = stat ! j \<or> latest + latency \<le> stat' ! j \<and> stat' ! j \<le> latest + latency * DIV_ROUND_UP len unit_size + trailing)"
  using assms
proof (induction len arbitrary: latest nr io_unit stat rule: less_induct)
  case (less len)
  let ?t = "latest + latency" let ?st = "stat[io_unit := ?t + (if 0 < nr then trailing else 0)]"
  let ?next = "if units \<le> Suc io_unit then 0 else Suc io_unit"
  show ?case
  proof (cases "len \<le> unit_size")
    case True
    then have r: "DIV_ROUND_UP len unit_size = 1" using less.prems(1) by (rule div_round_up_1 [rotated])
    have "units_loop units unit_size latency trailing latest nr io_unit len stat = Some (?t, ?st)"
      using less.prems True by (subst units_loop.simps) (simp add: Let_def)
    moreover have "\<forall>j < units. ?st ! j = stat ! j \<or> ?t \<le> ?st ! j \<and> ?st ! j \<le> latest + latency * DIV_ROUND_UP len unit_size + trailing"
      using less.prems(2,3) r by (auto simp: nth_list_update)
    ultimately show ?thesis using less.prems(3) r by simp
  next
    case False
    have m: "len - min len unit_size = len - unit_size" "0 < len - unit_size" "len - unit_size < len" using False less.prems(4) by simp_all
    have r: "DIV_ROUND_UP len unit_size = Suc (DIV_ROUND_UP (len - unit_size) unit_size)"
      using False less.prems(4) by (intro div_round_up_step) simp_all
    have n: "?next < units" "length ?st = units" using less.prems(2,3) by auto
    obtain st' where st': "units_loop units unit_size latency trailing ?t (nr - 1) ?next (len - unit_size) ?st =
        Some (?t + latency * DIV_ROUND_UP (len - unit_size) unit_size, st')" "length st' = units"
      "\<forall>j < units. st' ! j = ?st ! j \<or> ?t + latency \<le> st' ! j \<and> st' ! j \<le> ?t + latency * DIV_ROUND_UP (len - unit_size) unit_size + trailing"
      using less.IH [OF m(3,2) n less.prems(4)] by blast
    have e: "?t + latency * DIV_ROUND_UP (len - unit_size) unit_size = latest + latency * DIV_ROUND_UP len unit_size" by (simp add: r)
    have "units_loop units unit_size latency trailing latest nr io_unit len stat =
        units_loop units unit_size latency trailing ?t (nr - 1) ?next (len - unit_size) ?st"
      using less.prems m by (subst units_loop.simps) (simp add: Let_def)
    moreover have "st' ! j = stat ! j \<or> ?t \<le> st' ! j \<and> st' ! j \<le> latest + latency * DIV_ROUND_UP len unit_size + trailing" if j: "j < units" for j
    proof (cases "st' ! j = ?st ! j")
      case True
      have "?st ! j = stat ! j \<or> ?t \<le> ?st ! j \<and> ?st ! j \<le> ?t + trailing" using less.prems(2,3) j by (auto simp: nth_list_update)
      moreover have "?t + trailing \<le> latest + latency * DIV_ROUND_UP len unit_size + trailing" by (simp add: r)
      ultimately show ?thesis unfolding True by (elim disjE) (simp, linarith)
    next
      case False
      then have "?t + latency \<le> st' ! j" "st' ! j \<le> ?t + latency * DIV_ROUND_UP (len - unit_size) unit_size + trailing" using st'(3) j by auto
      then show ?thesis using e by auto
    qed
    ultimately show ?thesis using st'(1,2) e by auto
  qed
qed

lemma schedule_io_units_ok:
  fixes lba opc start :: nat
  assumes inv: "simple_inv ns" and len: "0 < len"
  defines "u \<equiv> lba div 2 ^ (io_unit_shift ns - s_lba_bits ns) mod nr_io_units ns"
    and "lat \<equiv> if opc = nvme_cmd_write then write_time ns else if opc = nvme_cmd_read then read_time ns else 0"
    and "del \<equiv> if opc = nvme_cmd_write then write_delay ns else if opc = nvme_cmd_read then read_delay ns else 0"
  shows "\<exists>stat'. schedule_io_units opc lba len start ns =
      Some (max start (io_unit_stat ns ! u) + del + lat * DIV_ROUND_UP len (2 ^ io_unit_shift ns), ns\<lparr>io_unit_stat := stat'\<rparr>) \<and>
    length stat' = nr_io_units ns"
proof -
  have i: "0 < nr_io_units ns" "length (io_unit_stat ns) = nr_io_units ns" "s_lba_bits ns \<le> io_unit_shift ns" "io_unit_shift ns < 31"
    using inv by (simp_all add: simple_inv_def)
  have u: "u < nr_io_units ns" using i(1) by (simp add: u_def)
  let ?tr = "if opc = nvme_cmd_write then write_trailing ns else if opc = nvme_cmd_read then read_trailing ns else 0"
  obtain st where st: "units_loop (nr_io_units ns) (2 ^ io_unit_shift ns) lat ?tr (max start (io_unit_stat ns ! u) + del)
      (min (nr_io_units ns) (DIV_ROUND_UP len (2 ^ io_unit_shift ns))) u len (io_unit_stat ns) =
      Some (max start (io_unit_stat ns ! u) + del + lat * DIV_ROUND_UP len (2 ^ io_unit_shift ns), st)" "length st = nr_io_units ns"
    using units_loop_ok [OF len u i(2), of "2 ^ io_unit_shift ns"] by fastforce
  have "(if opc = nvme_cmd_write then (write_delay ns, write_time ns, write_trailing ns)
            else if opc = nvme_cmd_read then (read_delay ns, read_time ns, read_trailing ns)
            else (0, 0, 0)) = (del, lat, ?tr)" by (simp add: del_def lat_def)
  then have "schedule_io_units opc lba len start ns =
      Some (max start (io_unit_stat ns ! u) + del + lat * DIV_ROUND_UP len (2 ^ io_unit_shift ns), ns\<lparr>io_unit_stat := st\<rparr>)"
    using i u st(1) unfolding schedule_io_units_def u_def [symmetric] by (simp add: arr_simps Let_def)
  then show ?thesis using st(2) by blast
qed

lemma schedule_flush_ok:
  assumes "simple_inv ns"
  shows "schedule_flush ns = Some (Max (set (io_unit_stat ns)))"
proof -
  let ?st = "io_unit_stat ns"
  have i: "0 < nr_io_units ns" "length ?st = nr_io_units ns" using assms by (simp_all add: simple_inv_def)
  have "foldM (\<lambda>i latest. do { t \<leftarrow> idx ?st i; Some (max latest t) }) [0..<n] 0 = Some (fold max (take n ?st) 0)" if "n \<le> length ?st" for n
    using that by (induction n) (simp_all add: arr_simps take_Suc_conv_app_nth max.commute)
  from this [of "length ?st"] have f: "schedule_flush ns = Some (fold max ?st 0)" using i(2) by (simp add: schedule_flush_def)
  have "?st \<noteq> []" using i by auto
  then have "fold max ?st 0 = Max (set (0 # ?st))" by (simp only: Max.set_eq_fold)
  also have "\<dots> = Max (set ?st)" using \<open>?st \<noteq> []\<close> by simp
  finally show ?thesis using f by simp
qed

lemma cmd_size_pos: "0 < cmd_io_size b c"
  by (simp add: cmd_io_size_def)

interpretation simple_cmds: io_namespace simple_proc_nvme_io_cmd "\<lambda>_ ns. ns" "\<lambda>_. simple_inv" "\<lambda>_. 0" "\<lambda>_. True"
proof
  fix n :: nat and ns :: simple_ns and cmd :: nvme_command and sqid t :: nat
  assume inv: "simple_inv ns"
  let ?req = "\<lparr>rq_cmd = cmd, rq_sq_id = sqid, rq_nsecs_start = t\<rparr>" let ?ret = "\<lparr>rs_status = NVME_SC_SUCCESS, rs_nsecs_target = t\<rparr>"
  have c: "s_csi ns = NVME_CSI_NVM" using inv by (simp add: simple_inv_def)
  have "\<exists>res ns'. simple_proc_nvme_io_cmd ns ?req ?ret = Some (True, res, [], ns') \<and> simple_inv ns'"
  proof (cases "opcode cmd = nvme_cmd_write \<or> opcode cmd = nvme_cmd_read")
    case True
    let ?ns = "ns\<lparr>s_tick := s_tick ns + 1\<rparr>"
    have inv': "simple_inv ?ns" using inv by (simp add: simple_inv_def)
    obtain tt st where s: "schedule_io_units (opcode cmd) (rw_slba cmd) (cmd_io_size (s_lba_bits ns) cmd) (s_clk ns (s_tick ns)) ?ns =
        Some (tt, ?ns\<lparr>io_unit_stat := st\<rparr>)" "length st = nr_io_units ?ns"
      using schedule_io_units_ok [OF inv' cmd_size_pos] by blast
    have "simple_inv (?ns\<lparr>io_unit_stat := st\<rparr>)" using inv' s(2) by (simp add: simple_inv_def)
    then show ?thesis using s(1) True c by (simp add: simple_proc_nvme_io_cmd_def Let_def)
  next
    case False
    then show ?thesis using c inv schedule_flush_ok [OF inv] by (simp add: simple_proc_nvme_io_cmd_def)
  qed
  then show "\<exists>b res ops ns'. simple_proc_nvme_io_cmd ns ?req ?ret = Some (b, res, ops, ns') \<and> simple_inv ns' \<and> length ops \<le> 0 \<and>
      (\<forall>p \<in> set ops. io_sqid p = sqid)" by force
qed simp_all

end
