(* ===== verification/Io_Devices.thy ===== *)
theory Io_Devices
  imports Io_System Prp_Laws Conv_Dispatch Simple_Ftl Sample_Device
begin

text \<open>
  The devices of two builds as instances of the system of theory \<open>Io_System\<close>: the conventional FTL and the simple
  latency model, both with the page-wise data path. A small conventional device with one worker, one queue pair
  and one command is the example on which the properties of the queues are instantiated.
\<close>

section \<open>Instances\<close>

interpretation conv_system: io_system "conv_proc_nvme_io_cmd cfg" conv_release "conv_ok spp B" "conv_cost spp" "conv_good cfg spp B"
  "do_perform_io pfn bases lb" "\<lambda>c. c \<in> CS \<and> host_ok pfn bases lb CS L" "lists_ok pfn lb CS L"
  for cfg spp B pfn bases lb CS L
  by (intro io_system.intro conv_cmds.io_namespace_axioms prp_copy.data_copy_axioms)

interpretation simple_system: io_system simple_proc_nvme_io_cmd "\<lambda>_ ns. ns" "\<lambda>_. simple_inv" "\<lambda>_. 0" "\<lambda>_. True"
  "do_perform_io pfn bases lb" "\<lambda>c. c \<in> CS \<and> host_ok pfn bases lb CS L" "lists_ok pfn lb CS L"
  for pfn bases lb CS L
  by (intro io_system.intro simple_cmds.io_namespace_axioms prp_copy.data_copy_axioms)

section \<open>Segments of a namespace\<close>

lemma copy_segs_base:
  "idx bases (dec32 (nsid c)) = Some b \<Longrightarrow> copy_segs bases c (segs rem off ps) m = Some (dma_segs c (segs rem (b + off) ps) m)"
proof (induction ps arbitrary: rem off m)
  case Nil
  then show ?case by (simp add: copy_segs_def dma_segs_def)
next
  case (Cons p ps)
  have "copy_seg bases c p off (seg_len rem p) m = Some (dma_copy c p (b + off) (seg_len rem p) m)"
    using Cons.prems by (simp add: copy_seg_def dma_copy_def)
  then show ?case using Cons.IH [OF Cons.prems, of "rem - seg_len rem p" "off + seg_len rem p"]
    by (simp add: copy_segs_def dma_segs_def add.assoc)
qed

section \<open>The example\<close>

text \<open>A command of two pages of data, in two host pages that are not adjacent.\<close>

definition ex_cmd :: "nat \<Rightarrow> nat \<Rightarrow> nvme_command" where
  "ex_cmd opc a = \<lparr>opcode = opc, cflags = 0, command_id = 7, nsid = 1, prp1 = a, prp2 = a + 8192,
     cdw10 = 80, cdw11 = 0, cdw12 = 15, cdw13 = 0, cdw14 = 0, cdw15 = 0\<rparr>"

definition ex_stat :: nvmev_sq_stat where
  "ex_stat = \<lparr>nr_dispatched = 0, nr_dispatch = 0, nr_in_flight = 0, max_nr_in_flight = 0, total_io = 0\<rparr>"

definition ex_sq :: submission_queue where
  "ex_sq = \<lparr>sq_qid = 1, sq_cqid = 1, sq_size = 4, sq_st = ex_stat, sq_entries = replicate 64 (ex_cmd nvme_cmd_write 4096), sq_base = 0\<rparr>"

definition ex_cqe :: nvme_completion where
  "ex_cqe = \<lparr>ce_result0 = 0, ce_result1 = 0, ce_sq_head = 0, ce_sq_id = 1, ce_command_id = 0, ce_status = 0\<rparr>"

definition ex_cq :: completion_queue where
  "ex_cq = \<lparr>cq_qid = 1, cq_irq_vector = 1, cq_irq_enabled = True, cq_interrupt_ready = False, cq_size = 4, cq_phase = 1, cq_head = 0,
     cq_tail = - 1, cq_entries = replicate 256 ex_cqe, cq_base = 4096\<rparr>"

definition ex_mem :: sys_mem where
  "ex_mem = \<lparr>host = (\<lambda>x. x mod 251), disk = (\<lambda>_. 0)\<rparr>"

definition ex_dev :: "(conv_ns, sys_mem) nvmev_dev" where
  "ex_dev = \<lparr>io_workers = [init_worker 0], io_worker_turn = 0, nr_io_workers = 1, nspaces = [spl_ns], sqes = [None, Some ex_sq],
     cqes = [None, Some ex_cq], dmem = ex_mem, dclk = (\<lambda>i. 1000 + i), dtick = 0\<rparr>"

lemma ex_abs: "dev_abs ex_dev [[]]"
  by (simp add: ex_dev_def dev_abs_def init_abs)

lemma ex_cq_ok: "cq_ok ex_cq 0" "cqs_ok (cqes ex_dev)"
proof -
  show c: "cq_ok ex_cq 0" by (simp add: cq_ok_def ex_cq_def phase_of_def)
  have "ptr (cqes ex_dev) i = Some cq \<Longrightarrow> cq = ex_cq" for i cq
    by (cases i; cases "i - 1") (auto simp: ex_dev_def ptr_def idx_def split: if_splits)
  then show "cqs_ok (cqes ex_dev)" using c by (auto simp: cqs_ok_def)
qed

lemma ex_ptr: "ptr (sqes ex_dev) 1 = Some ex_sq" "ptr (cqes ex_dev) 1 = Some ex_cq"
  by (simp_all add: ex_dev_def ptr_def arr_simps)

lemma ex_fields: "rw_slba (ex_cmd opc a) = 80" "rw_length (ex_cmd opc a) = 15" "dec32 (nsid (ex_cmd opc a)) = 0" "opcode (ex_cmd opc a) = opc"
  by (simp_all add: rw_slba_def rw_length_def ex_cmd_def le64_def lo16_def u32_def dec32_def sub32_def)

lemma ex_pages: "req_bytes SAMSUNG_970PRO (ex_cmd opc a) = 8192" "req_pages spl_spp (ex_cmd opc a) = [10, 11]"
proof -
  have f: "first_lpn spl_spp (ex_cmd opc a) = 10" "last_lpn spl_spp (ex_cmd opc a) = 11"
    by (simp_all add: first_lpn_def last_lpn_def ex_fields spl_values u64_def)
  show "req_bytes SAMSUNG_970PRO (ex_cmd opc a) = 8192" by (simp add: req_bytes_def LBA_TO_BYTE_def ex_fields SAMSUNG_970PRO_def)
  show "req_pages spl_spp (ex_cmd opc a) = [10, 11]" by (simp add: req_pages_def f upt_rec)
qed

lemma ex_good: "conv_good SAMSUNG_970PRO spl_spp 1572864 (ex_cmd nvme_cmd_write a)" "conv_cost spl_spp (ex_cmd nvme_cmd_write a) = 2"
  by (simp_all add: conv_good_def conv_cost_def ex_pages ex_fields io_opcodes) (simp add: SAMSUNG_970PRO_def)

lemma ex_conv_ok: "conv_ok spl_spp 1572864 n spl_ns" if "n \<le> 900000"
  using spl_ns_ok affords_mono [OF _ that] by (simp add: conv_ok_def buffer_init_def spl_values)

lemma ex_admissible: "admissible (conv_good SAMSUNG_970PRO spl_spp 1572864) ex_dev ex_sq 0 1" "costs (conv_cost spl_spp) ex_sq 0 1 = 2"
  "cmd_at ex_sq 0 0 = ex_cmd nvme_cmd_write 4096"
proof -
  show c: "cmd_at ex_sq 0 0 = ex_cmd nvme_cmd_write 4096" by (simp add: cmd_at_def entry_at_def ex_sq_def)
  show "admissible (conv_good SAMSUNG_970PRO spl_spp 1572864) ex_dev ex_sq 0 1"
    by (simp add: admissible_def c ex_good ex_fields) (simp add: ex_dev_def)
  show "costs (conv_cost spl_spp) ex_sq 0 1 = 2" by (simp add: costs_def c ex_good)
qed

text \<open>The commands of the example with their addresses.\<close>

lemma ex_prps:
  assumes "a mod 4096 = 0"
  shows "prps pfn h (ex_cmd opc a) 0 (None, 0) (io_length 9 (ex_cmd opc a)) = Some [a, a + 8192]"
proof -
  have len: "io_length 9 (ex_cmd opc a) = 8192" by (simp add: io_length_def ex_fields)
  have "(a + 8192) mod 4096 = 0" using assms mod_mult_self2 [of a 4096 2] by simp
  then have s: "seg_len 8192 a = 4096" "seg_len 4096 (a + 8192) = 4096" using assms by (simp_all add: seg_len_def PAGE_SIZE_def Let_def)
  have "prps pfn h (ex_cmd opc a) 1 (None, 0) 4096 = Some [a + 8192]"
    by (subst prps.simps) (simp add: next_prp_def PAGE_SIZE_def ex_cmd_def s)
  then show ?thesis unfolding len by (subst prps.simps) (simp add: next_prp_def ex_cmd_def s)
qed

definition ex_cmds :: "nvme_command set" where
  "ex_cmds = {ex_cmd nvme_cmd_write 4096}"

definition ex_addr :: "nvme_command \<Rightarrow> nat list" where
  "ex_addr c = [prp1 c, prp2 c]"

lemma ex_lists: "lists_ok (\<lambda>_. True) 9 ex_cmds ex_addr ex_mem" "host_ok (\<lambda>_. True) [0] 9 ex_cmds ex_addr"
proof -
  have "ex_addr (ex_cmd opc a) = [a, a + 8192]" for opc a by (simp add: ex_addr_def ex_cmd_def)
  then show "lists_ok (\<lambda>_. True) 9 ex_cmds ex_addr ex_mem" using ex_prps [of 4096] by (simp add: lists_ok_def ex_cmds_def)
  show "host_ok (\<lambda>_. True) [0] 9 ex_cmds ex_addr" by (simp add: host_ok_def ex_cmds_def ex_fields apart_from_def io_opcodes)
qed

lemma ex_inv: "n \<le> 900000 \<Longrightarrow> sys_inv (conv_ok spl_spp 1572864 n) (lists_ok (\<lambda>_. True) 9 ex_cmds ex_addr) ex_dev"
  unfolding sys_inv_def using ex_abs ex_cq_ok(2) ex_conv_ok ex_lists(1)
  by (auto simp: all_ns_def ex_dev_def mono_def init_worker_def Let_def)

text \<open>A simple device with eight units, the third of which is busy.\<close>

definition ex_simple :: simple_ns where
  "ex_simple = \<lparr>s_id = 0, s_csi = NVME_CSI_NVM, s_size = 2 ^ 30, nr_io_units = 8, io_unit_shift = 12, s_lba_bits = 9, read_delay = 10, read_time = 100,
     read_trailing = 0, write_delay = 20, write_time = 200, write_trailing = 5, io_unit_stat = [0, 0, 7000, 0, 0, 0, 0, 0], s_clk = (\<lambda>i. 1000 + i), s_tick = 0\<rparr>"

end
