(* ===== verification/Queue_Properties.thy ===== *)
theory Queue_Properties
  imports Io_Devices
begin

text \<open>
  The properties of the I/O side: the dispatcher and the workers as a system, the work queues, the completion queues, the
  data path, and the simple latency model. Each is applied to the example of theory \<open>Io_Devices\<close>.
\<close>

section \<open>The system\<close>

text \<open>C13: Every state of the device that doorbells of admissible commands, consumed completions and worker passes can reach from a
  well-formed state is well-formed: the work queues are lists sorted by due time, the namespaces keep their invariant and
  can afford the budget that is left, the completion rings are intact, and no worker is ahead of the clock.\<close>

theorem io_reachable_inv:
  assumes "io_steps (conv_proc_nvme_io_cmd cfg) (do_perform_io pfn bases lb) conv_release lba_bits (conv_cost spp) (conv_good cfg spp B)
      (\<lambda>c. c \<in> CS \<and> host_ok pfn bases lb CS L) (n, dev) (m, dev')"
    and "sys_inv (conv_ok spp B n) (lists_ok pfn lb CS L) dev"
  shows "sys_inv (conv_ok spp B m) (lists_ok pfn lb CS L) dev'"
  using conv_system.steps_inv [OF assms(1)] assms(2) by simp

theorem io_reachable_inv_witness:
  "\<exists>db dev'. nvmev_proc_io_sq (conv_proc_nvme_io_cmd SAMSUNG_970PRO) 9 1 1 0 ex_dev = Some (db, dev') \<and>
    sys_inv (conv_ok spl_spp 1572864 100) (lists_ok (\<lambda>_. True) 9 ex_cmds ex_addr) dev'"
proof -
  have i: "sys_inv (conv_ok spl_spp 1572864 (costs (conv_cost spl_spp) ex_sq 0 1 + 100)) (lists_ok (\<lambda>_. True) 9 ex_cmds ex_addr) ex_dev"
    by (rule ex_inv) (simp add: ex_admissible [simplified])
  have s: "sq_size ex_sq \<le> length (sq_entries ex_sq)" "(0::nat) < sq_size ex_sq" "1 < sq_size ex_sq" by (simp_all add: ex_sq_def)
  have n: "1 = (if (1::nat) < 0 then 1 + sq_size ex_sq - 0 else 1 - 0)" by simp
  obtain db dev' where d: "nvmev_proc_io_sq (conv_proc_nvme_io_cmd SAMSUNG_970PRO) 9 1 1 0 ex_dev = Some (db, dev')"
    using conv_system.submit_inv [OF i ex_ptr(1) s n ex_admissible(1), of 9] by blast
  have "io_step (conv_proc_nvme_io_cmd SAMSUNG_970PRO) (do_perform_io (\<lambda>_. True) [0] 9) conv_release 9 (conv_cost spl_spp)
      (conv_good SAMSUNG_970PRO spl_spp 1572864) (\<lambda>c. c \<in> ex_cmds \<and> host_ok (\<lambda>_. True) [0] 9 ex_cmds ex_addr)
      (costs (conv_cost spl_spp) ex_sq 0 1 + 100, ex_dev) (100, dev')"
    by (rule io_step.submit [OF ex_ptr(1) s n ex_admissible(1) d])
  then have "io_steps (conv_proc_nvme_io_cmd SAMSUNG_970PRO) (do_perform_io (\<lambda>_. True) [0] 9) conv_release 9 (conv_cost spl_spp)
      (conv_good SAMSUNG_970PRO spl_spp 1572864) (\<lambda>c. c \<in> ex_cmds \<and> host_ok (\<lambda>_. True) [0] 9 ex_cmds ex_addr)
      (costs (conv_cost spl_spp) ex_sq 0 1 + 100, ex_dev) (100, dev')" unfolding io_steps_def by (rule r_into_rtranclp)
  from io_reachable_inv [OF this i] d show ?thesis by blast
qed

text \<open>C14: The doorbell of a submission queue with admissible commands that the namespaces can afford is served without failure: the commands
  are handed over in order from the old to the new tail, until one is refused; the value returned is the entry to go on
  with, and the new doorbell if none was refused; no request in flight is lost; the statistics count the commands; and
  if the work queue has room, each command handed over is in flight.\<close>

theorem dispatch_doorbell:
  fixes dev :: "(conv_ns, 'm) nvmev_dev"
  assumes "dev_abs dev qs" "ptr (sqes dev) sqid = Some sq" "sq_size sq \<le> length (sq_entries sq)" "old_db < sq_size sq" "new_db < sq_size sq"
    and "n = (if new_db < old_db then new_db + sq_size sq - old_db else new_db - old_db)"
    and "admissible (conv_good cfg spp B) dev sq old_db n" "all_ns (conv_ok spp B (costs (conv_cost spp) sq old_db n + m)) dev"
  shows "\<exists>k dev' qs'. nvmev_proc_io_sq (conv_proc_nvme_io_cmd cfg) lba_bits sqid new_db old_db dev = Some (entry_at sq old_db k, dev') \<and> k \<le> n \<and>
    (k = n \<longrightarrow> entry_at sq old_db k = new_db) \<and> dev_abs dev' qs' \<and> none_lost qs qs' \<and> all_ns (conv_ok spp B m) dev' \<and>
    ptr (sqes dev') sqid = Some (sq\<lparr>sq_st := end_dispatch (count_ios lba_bits sq old_db k (sq_st sq))\<rparr>) \<and>
    (k < n \<longrightarrow> (\<exists>d (d' :: (conv_ns, 'm) nvmev_dev). proc_io (conv_proc_nvme_io_cmd cfg) lba_bits sqid (entry_at sq old_db k) d = Some (None, d'))) \<and>
    (length (qs ! worker_of dev sqid) + costs (conv_cost spp) sq old_db n + n < NR_MAX_PARALLEL_IO \<longrightarrow>
      dispatched sqid sq old_db k (qs' ! worker_of dev sqid))"
  using conv_cmds.proc_io_sq_ok [OF assms(1-5), folded assms(6), OF assms(7,8), of lba_bits] by blast

theorem dispatch_doorbell_witness:
  "\<exists>k dev' qs'. nvmev_proc_io_sq (conv_proc_nvme_io_cmd SAMSUNG_970PRO) 9 1 1 0 ex_dev = Some (entry_at ex_sq 0 k, dev') \<and> k \<le> 1 \<and>
    dev_abs dev' qs' \<and> all_ns (conv_ok spl_spp 1572864 100) dev' \<and> dispatched 1 ex_sq 0 k (qs' ! 0)"
proof -
  have s: "sq_size ex_sq \<le> length (sq_entries ex_sq)" "(0::nat) < sq_size ex_sq" "1 < sq_size ex_sq" by (simp_all add: ex_sq_def)
  have n: "1 = (if (1::nat) < 0 then 1 + sq_size ex_sq - 0 else 1 - 0)" by simp
  have o: "all_ns (conv_ok spl_spp 1572864 (costs (conv_cost spl_spp) ex_sq 0 1 + 100)) ex_dev"
    by (simp add: all_ns_def ex_dev_def ex_admissible [simplified] ex_conv_ok)
  have w: "worker_of ex_dev 1 = 0" by (simp add: worker_of_def ex_dev_def)
  have r: "length ([[]] ! worker_of ex_dev 1) + costs (conv_cost spl_spp) ex_sq 0 1 + 1 < NR_MAX_PARALLEL_IO"
    by (simp add: w [simplified] ex_admissible [simplified] NR_MAX_PARALLEL_IO_def)
  from dispatch_doorbell [OF ex_abs ex_ptr(1) s n ex_admissible(1) o, of 9] show ?thesis using r w by auto
qed

text \<open>A command with a namespace id that does not exist, zero and the broadcast id included, makes the dispatcher call through a pointer outside
  the array of namespaces: the id is not checked.\<close>

theorem bad_nsid_out_of_bounds:
  assumes "ptr (sqes dev) sqid = Some sq" "sq_entry < length (sq_entries sq)"
    and "nsid (sq_entries sq ! sq_entry) = 0 \<or> length (nspaces dev) < nsid (sq_entries sq ! sq_entry)"
    and "nsid (sq_entries sq ! sq_entry) < 2 ^ 32" "length (nspaces dev) < 2 ^ 32 - 1"
  shows "proc_io proc lba_bits sqid sq_entry dev = None"
proof -
  have "length (nspaces dev) \<le> dec32 (nsid (sq_entries sq ! sq_entry))"
    using assms(3-5) by (auto simp: dec32_def sub32_def u32_def mod_if)
  then show ?thesis using assms(1,2) by (simp add: proc_io_def read_clk_def arr_simps)
qed

theorem bad_nsid_out_of_bounds_witness:
  "proc_io (conv_proc_nvme_io_cmd SAMSUNG_970PRO) 9 1 0
     (ex_dev\<lparr>sqes := [None, Some (ex_sq\<lparr>sq_entries := replicate 64 ((ex_cmd nvme_cmd_flush 0)\<lparr>nsid := 2 ^ 32 - 1\<rparr>)\<rparr>)]\<rparr>) = None"
  by (rule bad_nsid_out_of_bounds [where sq = "ex_sq\<lparr>sq_entries := replicate 64 ((ex_cmd nvme_cmd_flush 0)\<lparr>nsid := 2 ^ 32 - 1\<rparr>)\<rparr>"])
    (simp_all add: ptr_def arr_simps ex_dev_def)

section \<open>Work queues\<close>

text \<open>C33: Scheduling a request on the index-linked work queue implements insertion into the list of the worker of the submission queue,
  behind every request that is due no later; when all entries but one are in use, nothing happens and the request is
  dropped without notice.\<close>

theorem enqueue_refines:
  assumes "dev_abs dev qs" "ptr (sqes dev) sqid = Some sq" "sq_entry < length (sq_entries sq)"
  shows "\<exists>dev' old. enqueue_io_req sqid cqid sq_entry start ret dev = Some dev' \<and>
    dev_abs dev' (push_req dev sqid (payload (fill_req sqid cqid sq_entry (command_id (sq_entries sq ! sq_entry)) start (dclk dev (dtick dev)) ret old)) qs) \<and>
    dev_same dev dev'"
  using enqueue_ok [OF assms] .

theorem enqueue_refines_witness:
  "\<exists>dev' x. enqueue_io_req 1 1 0 5000 \<lparr>rs_status = 0, rs_nsecs_target = 9000\<rparr> ex_dev = Some dev' \<and> dev_abs dev' [[x]] \<and>
    wk_nsecs_target x = 9000 \<and> wk_command_id x = 7 \<and> \<not> wk_is_completed x"
proof -
  have l: "0 < length (sq_entries ex_sq)" "command_id (sq_entries ex_sq ! 0) = 7" by (simp_all add: ex_sq_def ex_cmd_def)
  have w: "worker_of ex_dev 1 = 0" "latest_of ex_dev 0 = 0" by (simp_all add: worker_of_def latest_of_def ex_dev_def init_worker_def Let_def)
  obtain dev' old where d: "enqueue_io_req 1 1 0 5000 \<lparr>rs_status = 0, rs_nsecs_target = 9000\<rparr> ex_dev = Some dev'"
    "dev_abs dev' (push_req ex_dev 1 (payload (fill_req 1 1 0 (command_id (sq_entries ex_sq ! 0)) 5000 (dclk ex_dev (dtick ex_dev))
      \<lparr>rs_status = 0, rs_nsecs_target = 9000\<rparr> old)) [[]])"
    using enqueue_refines [OF ex_abs ex_ptr(1) l(1), of 1 5000 "\<lparr>rs_status = 0, rs_nsecs_target = 9000\<rparr>"] by blast
  let ?x = "payload (fill_req 1 1 0 (command_id (sq_entries ex_sq ! 0)) 5000 (dclk ex_dev (dtick ex_dev)) \<lparr>rs_status = 0, rs_nsecs_target = 9000\<rparr> old)"
  have "push_req ex_dev 1 ?x [[]] = [[?x]]" by (simp add: push_req_def w [simplified] NR_MAX_PARALLEL_IO_def add_req_def ins_def Let_def)
  moreover have "wk_nsecs_target ?x = 9000" "wk_command_id ?x = 7" "\<not> wk_is_completed ?x" by (simp_all add: fill_req_def l payload_def)
  ultimately show ?thesis using d by (intro exI [of _ dev'] exI [of _ ?x]) simp
qed

text \<open>Linking a taken entry into the work queue from the tail is the reference insertion on the list of indices: behind every entry that
  is due no later than it. The queue stays well-formed and sorted, and only links change.\<close>

theorem insert_is_sorted_insertion:
  assumes "taken w io fr e" "wk_nsecs_target (work_queue w ! e) = target" "sorted_io w io"
  shows "\<exists>w'. insert_req_sorted e w target = Some w' \<and> wq_inv w' (ins (\<lambda>x. due w x \<le> due w e) e io) fr \<and> only_links w w' \<and>
    sorted_io w' (ins (\<lambda>x. due w x \<le> due w e) e io)"
  using insert_req_sorted_sorted [OF assms] .

theorem insert_is_sorted_insertion_witness:
  "\<exists>w'. insert_req_sorted 0 ((init_worker 0)\<lparr>free_seq := hd [1..<NR_MAX_PARALLEL_IO],
      work_queue := (work_queue (init_worker 0))[0 := (\<lambda>e. e\<lparr>wk_next := NIL, wk_prev := NIL, wk_nsecs_target := 5\<rparr>) (work_queue (init_worker 0) ! 0)]\<rparr>) 5 =
    Some w' \<and> wq_inv w' [0] [1..<NR_MAX_PARALLEL_IO]"
proof -
  let ?f = "\<lambda>e. e\<lparr>wk_next := NIL, wk_prev := NIL, wk_nsecs_target := 5\<rparr>"
  let ?w = "(init_worker 0)\<lparr>free_seq := hd [1..<NR_MAX_PARALLEL_IO],
      work_queue := (work_queue (init_worker 0))[0 := ?f (work_queue (init_worker 0) ! 0)]\<rparr>"
  have p: "0 < NR_MAX_PARALLEL_IO" "1 < NR_MAX_PARALLEL_IO" by (simp_all add: NR_MAX_PARALLEL_IO_def)
  have u: "[0..<NR_MAX_PARALLEL_IO] = 0 # [1..<NR_MAX_PARALLEL_IO]" using p(1) by (simp add: upt_conv_Cons)
  have i: "wq_inv (init_worker 0) [] (0 # [1..<NR_MAX_PARALLEL_IO])" using init_worker_ok(1) [of 0] unfolding u .
  have t: "taken ?w [] [1..<NR_MAX_PARALLEL_IO] 0" by (rule taken_fill [OF i, where f = ?f]) (use p in simp_all)
  have l: "0 < length (work_queue (init_worker 0))" using i p by (simp add: wq_inv_def)
  have "wk_nsecs_target (work_queue ?w ! 0) = 5" using l by simp
  from insert_is_sorted_insertion [OF t this] show ?thesis by (auto simp: sorted_io_def ins_def)
qed

text \<open>The reclaim implements dropping, from the list of each worker, the longest prefix of requests that are copied, completed and not after the time
  of the worker.\<close>

theorem reclaim_refines:
  assumes "dev_abs dev qs"
  shows "\<exists>dev'. reclaim_completed_reqs dev = Some dev' \<and> dev_abs dev' (map2 (\<lambda>w. dropWhile (reclaimable w)) (io_workers dev) qs) \<and> dev_same dev dev'"
  using reclaim_ok [OF assms] .

theorem reclaim_refines_witness:
  "\<exists>dev'. reclaim_completed_reqs ex_dev = Some dev' \<and> dev_abs dev' [[]] \<and> dev_same ex_dev dev'"
  using reclaim_refines [OF ex_abs] by (simp add: ex_dev_def)

text \<open>C15: A pass of a worker returns and visits its requests in the order of the list, each at a later reading of the clock. The
  memory afterwards is that of the copies of the host's requests that were neither copied nor completed, in that order, each with
  the command read again from its submission queue; the completion queues are those after one entry for each request of
  the host that falls due; the namespaces are those after the releases of buffer of the internal operations that fall
  due; nothing else changes.\<close>

theorem worker_pass:
  assumes "dev_abs dev qs" "k < length (io_workers dev)"
    and "\<forall>e \<in> set (qs ! k). serviceable (\<lambda>c. c \<in> CS \<and> host_ok pfn bases lb CS L) dev e"
    and "cqs_ok (cqes dev)" "lists_ok pfn lb CS L (dmem dev)" "mono (dclk dev)" "latest_of dev k \<le> dclk dev (dtick dev)"
  shows "\<exists>dev'. work_pass (do_perform_io pfn bases lb) rel k dev = Some dev' \<and>
    dev_abs dev' (qs[k := map2 visit (readings dev (length (qs ! k))) (qs ! k)]) \<and> pass_frame dev dev' \<and>
    cqs_ok (cqes dev') \<and> lists_ok pfn lb CS L (dmem dev') \<and>
    foldM post_if (zip (readings dev (length (qs ! k))) (qs ! k)) (cqes dev) = Some (cqes dev') \<and>
    foldM (copy_of (do_perform_io pfn bases lb) (sqes dev)) (qs ! k) (dmem dev) = Some (dmem dev') \<and>
    nspaces dev' = fold (release_of rel) (zip (readings dev (length (qs ! k))) (qs ! k)) (nspaces dev)"
  using prp_copy.work_pass_ok [OF assms] by blast

theorem worker_pass_witness:
  "\<exists>dev dev' x t. enqueue_io_req 1 1 0 500 \<lparr>rs_status = 0, rs_nsecs_target = 900\<rparr> ex_dev = Some dev \<and> dev_abs dev [[x]] \<and>
    work_pass (do_perform_io (\<lambda>_. True) [0] 9) conv_release 0 dev = Some dev' \<and> dev_abs dev' [[visit t x]] \<and> wk_is_completed (visit t x) \<and>
    do_perform_io (\<lambda>_. True) [0] 9 (ex_cmd nvme_cmd_write 4096) ex_mem = Some (dmem dev') \<and> nspaces dev' = nspaces dev"
proof -
  have l: "0 < length (sq_entries ex_sq)" "sq_entries ex_sq ! 0 = ex_cmd nvme_cmd_write 4096" by (simp_all add: ex_sq_def)
  have w: "worker_of ex_dev 1 = 0" "latest_of ex_dev 0 = 0" by (simp_all add: worker_of_def latest_of_def ex_dev_def init_worker_def Let_def)
  let ?ret = "\<lparr>rs_status = 0, rs_nsecs_target = 900\<rparr>"
  obtain dev old where d: "enqueue_io_req 1 1 0 500 ?ret ex_dev = Some dev" "dev_same ex_dev dev"
    "dev_abs dev (push_req ex_dev 1 (payload (fill_req 1 1 0 (command_id (sq_entries ex_sq ! 0)) 500 (dclk ex_dev (dtick ex_dev)) ?ret old)) [[]])"
    using enqueue_ok [OF ex_abs ex_ptr(1) l(1), of 1 500 ?ret] by blast
  obtain x where x: "x = payload (fill_req 1 1 0 (command_id (sq_entries ex_sq ! 0)) 500 (dclk ex_dev (dtick ex_dev)) ?ret old)" by simp
  have "push_req ex_dev 1 x [[]] = [[x]]" by (simp add: push_req_def w [simplified] NR_MAX_PARALLEL_IO_def add_req_def ins_def Let_def)
  then have a: "dev_abs dev [[x]]" using d(3) x by simp
  have f: "\<not> wk_is_completed x" "\<not> wk_is_internal x" "\<not> wk_is_copied x" "wk_sqid x = 1" "wk_cqid x = 1" "wk_sq_entry x = 0" "wk_nsecs_target x = 900"
    by (simp_all add: x fill_req_def payload_def)
  have S: "sqes dev = sqes ex_dev" "cqes dev = cqes ex_dev" "dmem dev = ex_mem" "dclk dev = (\<lambda>i. 1000 + i)"
    using d(2) by (simp_all add: dev_same_def ex_dev_def)
  have "0 < length (io_workers dev)" using dev_absD(2) [OF a] by (cases "io_workers dev") simp_all
  moreover have "0 < length (io_workers ex_dev)" by (simp add: ex_dev_def)
  ultimately have k: "0 < length (io_workers dev)" "latest_of dev 0 = 0" using dev_same_latest [OF d(2), of 0] w(2) by simp_all
  have r: "readings dev 1 = [1000 + dtick dev]" by (simp add: readings_def S)
  have "serviceable (\<lambda>c. c \<in> ex_cmds \<and> host_ok (\<lambda>_. True) [0] 9 ex_cmds ex_addr) dev x"
    using f ex_ptr ex_lists(2) l unfolding serviceable_def S(1,2) by (simp add: ex_cmds_def)
  then have sv: "\<forall>e \<in> set ([[x]] ! 0). serviceable (\<lambda>c. c \<in> ex_cmds \<and> host_ok (\<lambda>_. True) [0] 9 ex_cmds ex_addr) dev e" by simp
  have h: "cqs_ok (cqes dev)" "lists_ok (\<lambda>_. True) 9 ex_cmds ex_addr (dmem dev)" "mono (dclk dev)" "latest_of dev 0 \<le> dclk dev (dtick dev)"
    using ex_cq_ok(2) ex_lists(1) k(2) by (simp_all add: S mono_def)
  obtain dev' where "work_pass (do_perform_io (\<lambda>_. True) [0] 9) conv_release 0 dev = Some dev'"
    "dev_abs dev' ([[x]][0 := map2 visit (readings dev (length ([[x]] ! 0))) ([[x]] ! 0)])"
    "foldM (copy_of (do_perform_io (\<lambda>_. True) [0] 9) (sqes dev)) ([[x]] ! 0) (dmem dev) = Some (dmem dev')"
    "nspaces dev' = fold (release_of conv_release) (zip (readings dev (length ([[x]] ! 0))) ([[x]] ! 0)) (nspaces dev)"
    using worker_pass [OF a k(1) sv h, of conv_release] by blast
  moreover have "wk_is_completed (visit (1000 + dtick dev) x)" using f(1,7) by (simp add: visit_def)
  moreover have "ptr (sqes ex_dev) 1 = Some ex_sq" by (rule ex_ptr(1))
  ultimately show ?thesis using d(1) a r l
    by - (rule exI [of _ dev], rule exI [of _ dev'], rule exI [of _ x], rule exI [of _ "1000 + dtick dev"],
      simp add: copy_of_def release_of_def f S(1,3) arr_simps foldM_Nil_fun)
qed

end
