(* ===== verification/Data_Properties.thy ===== *)
theory Data_Properties
  imports Io_Devices
begin

text \<open>
  The properties of the completion queues, the data path and the simple latency model, each applied to the example of
  theory \<open>Io_Devices\<close> or to a small namespace of its own.
\<close>

section \<open>Completion queues\<close>

text \<open>C34: Completions are posted to consecutive slots of the ring, and each of the last \<open>size\<close> of them is found in its slot, unharmed by the later
  ones, with the phase bit of its round in the lowest bit of the status and the status above it; so the host tells new
  entries from old ones.\<close>

theorem completion_ring:
  assumes "cq_ok cq p" "\<forall>w \<in> set ws. wk_status w < 2 ^ 15"
  shows "\<exists>cq'. foldM post ws cq = Some cq' \<and> cq_ok cq' (p + length ws) \<and>
    (\<forall>j < length ws. length ws \<le> j + cq_size cq \<longrightarrow>
      (let e = cq_entries cq' ! ((p + j) mod cq_size cq); w = ws ! j
       in ce_command_id e = u16 (wk_command_id w) \<and> ce_sq_id e = u16 (wk_sqid w) \<and> ce_sq_head e = u16 (wk_sq_entry w) \<and>
          ce_status e mod 2 = phase_of (cq_size cq) (p + j) \<and> ce_status e div 2 = wk_status w))"
proof -
  obtain cq' where c: "foldM post ws cq = Some cq'" "cq_ok cq' (p + length ws)"
    "\<forall>j < length ws. length ws \<le> j + cq_size cq \<longrightarrow> cq_entries cq' ! ((p + j) mod cq_size cq) = make_cqe (phase_of (cq_size cq) (p + j)) (ws ! j)"
    using post_all [OF assms(1), of ws] by blast
  have "phase_of (cq_size cq) x \<in> {0, 1}" for x by (simp add: phase_of_def)
  then show ?thesis using c assms(2) cqe_status by (auto simp: Let_def make_cqe_def intro!: exI [of _ cq'])
qed

theorem completion_ring_witness:
  "\<exists>cq'. foldM post (replicate 6 (zero_work\<lparr>wk_command_id := 9\<rparr>)) ex_cq = Some cq' \<and> cq_ok cq' 6 \<and>
    ce_status (cq_entries cq' ! 1) mod 2 = 0 \<and> ce_status (cq_entries cq' ! 2) mod 2 = 1 \<and> ce_command_id (cq_entries cq' ! 2) = 9"
proof -
  let ?ws = "replicate 6 (zero_work\<lparr>wk_command_id := 9\<rparr>)"
  have s: "cq_size ex_cq = 4" by (simp add: ex_cq_def)
  have "\<forall>w \<in> set ?ws. wk_status w < 2 ^ 15" by (simp add: zero_work_def)
  from completion_ring [OF ex_cq_ok(1) this] obtain cq' where c: "foldM post ?ws ex_cq = Some cq'" "cq_ok cq' 6"
    "\<forall>j < 6. 6 \<le> j + 4 \<longrightarrow> ce_command_id (cq_entries cq' ! (j mod 4)) = u16 (wk_command_id (?ws ! j)) \<and>
       ce_status (cq_entries cq' ! (j mod 4)) mod 2 = phase_of 4 j" by (auto simp: s Let_def)
  have "ce_command_id (cq_entries cq' ! (2 mod 4)) = u16 (wk_command_id (?ws ! 2)) \<and> ce_status (cq_entries cq' ! (2 mod 4)) mod 2 = phase_of 4 2"
    "ce_status (cq_entries cq' ! (5 mod 4)) mod 2 = phase_of 4 5" using c(3) [rule_format, of 2] c(3) [rule_format, of 5] by simp_all
  then show ?thesis using c(1,2) by (simp add: phase_of_def u16_def)
qed

text \<open>C37: The doorbell of a completion queue is processed in finitely many steps: each entry between the old and the new head, around the ring,
  takes one request off the count of its submission queue, queues that are gone are skipped, and nothing else changes.\<close>

theorem completion_doorbell:
  assumes "ptr (cqes dev) cqid = Some cq" "old < cq_size cq" "new < cq_size cq" "cq_size cq < length (cq_entries cq)"
    "\<forall>e \<in> set (cq_entries cq). ce_sq_id e < length (sqes dev)"
  shows "nvmev_proc_io_cq cqid (int new) (int old) dev =
    Some (dev\<lparr>sqes := settle (map ((!) (cq_entries cq)) (consumed (cq_size cq) old new)) (sqes dev),
              cqes := (cqes dev)[cqid := Some (cq\<lparr>cq_tail := int new - 1\<rparr>)]\<rparr>)"
proof -
  let ?es = "map ((!) (cq_entries cq)) (consumed (cq_size cq) old new)"
  have "set (consumed (cq_size cq) old new) \<subseteq> {..<length (cq_entries cq)}" using assms(2-4) by (auto simp: consumed_def)
  then have es: "\<forall>e \<in> set ?es. ce_sq_id e < length (sqes dev)" using assms(5) by auto
  have "nvmev_proc_io_cq cqid (int new) (int old) dev = do {
     dev \<leftarrow> foldM (\<lambda>j. count_completion (cq_entries cq ! j)) (consumed (cq_size cq) old new) dev;
     Some (dev\<lparr>cqes := (cqes dev)[cqid := Some (cq\<lparr>cq_tail := int new - 1\<rparr>)]\<rparr>) }"
    by (rule proc_io_cq_loop) (use assms in simp_all)
  also have "foldM (\<lambda>j. count_completion (cq_entries cq ! j)) (consumed (cq_size cq) old new) dev = foldM count_completion ?es dev"
    by (rule foldM_nth)
  finally show ?thesis unfolding count_all [OF es] by simp
qed

theorem completion_doorbell_witness:
  "\<exists>dev'. nvmev_proc_io_cq 1 (int 1) (int 3) ex_dev = Some dev' \<and> nr_in_flight (sq_st (the (sqes dev' ! 1))) = 2 ^ 32 - 2"
proof -
  have c: "(3::nat) < cq_size ex_cq" "(1::nat) < cq_size ex_cq" "cq_size ex_cq < length (cq_entries ex_cq)"
    "\<forall>e \<in> set (cq_entries ex_cq). ce_sq_id e < length (sqes ex_dev)" by (simp_all add: ex_cq_def ex_cqe_def ex_dev_def)
  have s: "map ((!) (cq_entries ex_cq)) (consumed (cq_size ex_cq) 3 1) = [ex_cqe, ex_cqe]"
    by (simp add: consumed_def ex_cq_def upt_rec)
  have "nr_in_flight (sq_st (the (settle [ex_cqe, ex_cqe] (sqes ex_dev) ! 1))) = 2 ^ 32 - 2"
    by (simp add: settle_def ex_dev_def ex_cqe_def in_flight_upd_def ex_sq_def ex_stat_def dec32_def sub32_def u32_def)
  then show ?thesis unfolding completion_doorbell [OF ex_ptr(2) c] s by simp
qed

text \<open>The loop over the completion queue reads one entry behind the ring when it wraps: if the ring fills its pages, which it does at every
  size that is a multiple of 256, this is outside the queue.\<close>

theorem completion_doorbell_overrun:
  assumes "ptr (cqes dev) cqid = Some cq" "old < cq_size cq" "new < old" "cq_size cq = length (cq_entries cq)"
    "\<forall>e \<in> set (cq_entries cq). ce_sq_id e < length (sqes dev)"
  shows "nvmev_proc_io_cq cqid (int new) (int old) dev = None"
proof -
  have "cq_loop cq (int new) (int i) d = None" if "i \<le> cq_size cq" "new < i" "length (sqes d) = length (sqes dev)" for i and d :: "('a, 'b) nvmev_dev"
    using that
  proof (induction "cq_size cq - i" arbitrary: i d)
    case 0
    then show ?case using assms(4) by (subst cq_loop.simps) (simp add: arr_simps)
  next
    case (Suc n)
    have i: "i < length (cq_entries cq)" "i < cq_size cq" using Suc.hyps(2) assms(4) by simp_all
    have "ce_sq_id (cq_entries cq ! i) < length (sqes d)" using assms(5) i(1) Suc.prems(3) by simp
    note c = count_completion_ok [OF this]
    have "cq_loop cq (int new) (int (Suc i)) (d\<lparr>sqes := settle [cq_entries cq ! i] (sqes d)\<rparr>) = None"
      using Suc.hyps(2) Suc.prems by (intro Suc.hyps(1)) simp_all
    then show ?case using i Suc.prems(2) c by (subst cq_loop.simps) (simp add: arr_simps add.commute)
  qed
  from this [of old dev] show ?thesis using assms(1-3) by (simp add: nvmev_proc_io_cq_def)
qed

theorem completion_doorbell_overrun_witness:
  "nvmev_proc_io_cq 1 (int 1) (int 3) (ex_dev\<lparr>cqes := [None, Some (ex_cq\<lparr>cq_size := 256\<rparr>)]\<rparr>) = None"
  by (rule completion_doorbell_overrun [where cq = "ex_cq\<lparr>cq_size := 256\<rparr>"])
    (simp_all add: ptr_def arr_simps ex_cq_def ex_cqe_def ex_dev_def)

section \<open>The data path\<close>

text \<open>C35: On a host whose pages all have a kernel page, with data pages aligned from the second on and apart from the list (if there is one), copying page
  by page and copying runs of consecutive pages by DMA transfer the same bytes, except that DMA leaves out the offset
  of the namespace: they agree for the namespace at the start of the storage.\<close>

theorem prp_dma_equivalence:
  assumes "\<forall>x. pfn x" "idx bases (dec32 (nsid c)) = Some b" "prps pfn (host m) c 0 (None, 0) (io_length lb c) = Some ps" "length ps \<le> MAX_PRPS"
    "\<forall>p \<in> set (tl ps). p mod PAGE_SIZE = 0" "length ps \<le> 2 \<or> apart c (segs (io_length lb c) (cmd_io_offset lb c) ps)"
  shows "do_perform_io pfn bases lb c m = Some (dma_segs c (segs (io_length lb c) (b + cmd_io_offset lb c) ps) m) \<and>
    do_perform_io_using_dma pfn lb c m = Some (dma_segs c (segs (io_length lb c) (cmd_io_offset lb c) ps) m) \<and>
    (b = 0 \<longrightarrow> do_perform_io pfn bases lb c m = do_perform_io_using_dma pfn lb c m)"
  using page_ok [of pfn, OF _ assms(3,6), of bases] copy_segs_base [OF assms(2)] dma_ok [OF assms(3-5)] assms(1) by simp

theorem prp_dma_equivalence_witness:
  "do_perform_io (\<lambda>_. True) [0] 9 (ex_cmd nvme_cmd_read 4096) ex_mem = do_perform_io_using_dma (\<lambda>_. True) 9 (ex_cmd nvme_cmd_read 4096) ex_mem"
proof -
  let ?c = "ex_cmd nvme_cmd_read 4096"
  have p: "prps (\<lambda>_. True) (host ex_mem) ?c 0 (None, 0) (io_length 9 ?c) = Some [4096, 4096 + 8192]" by (rule ex_prps) simp
  have n: "idx [0] (dec32 (nsid ?c)) = Some 0" by (simp add: ex_fields arr_simps)
  have e: "do_perform_io (\<lambda>_. True) [0] 9 ?c ex_mem = Some (dma_segs ?c (segs (io_length 9 ?c) (0 + cmd_io_offset 9 ?c) [4096, 4096 + 8192]) ex_mem) \<and>
    do_perform_io_using_dma (\<lambda>_. True) 9 ?c ex_mem = Some (dma_segs ?c (segs (io_length 9 ?c) (cmd_io_offset 9 ?c) [4096, 4096 + 8192]) ex_mem) \<and>
    ((0::nat) = 0 \<longrightarrow> do_perform_io (\<lambda>_. True) [0] 9 ?c ex_mem = do_perform_io_using_dma (\<lambda>_. True) 9 ?c ex_mem)"
    by (rule prp_dma_equivalence [OF _ n p]) (simp_all add: MAX_PRPS_def PAGE_SIZE_def)
  then show ?thesis by simp
qed

text \<open>C36: What is written is read back: after a write from one set of pages and a read of the same blocks into another, each byte of the command is
  in the second where it was in the first, provided no two bytes of the second share an address.\<close>

theorem prp_roundtrip:
  assumes "\<forall>x. pfn x" "idx bases (dec32 (nsid cw)) = Some b" "nsid cr = nsid cw" "opcode cw = nvme_cmd_write" "opcode cr = nvme_cmd_read"
    "rw_slba cr = rw_slba cw" "rw_length cr = rw_length cw"
    and "prps pfn (host m) cw 0 (None, 0) (io_length lb cw) = Some ps" "prps pfn (host m) cr 0 (None, 0) (io_length lb cr) = Some qs"
    and "length qs \<le> 2 \<or> apart cr (segs (io_length lb cr) (cmd_io_offset lb cr) qs)" "inj_on (byte_addr (io_length lb cr) qs) {..<io_length lb cr}"
  shows "\<exists>m1 m2. do_perform_io pfn bases lb cw m = Some m1 \<and> do_perform_io pfn bases lb cr m1 = Some m2 \<and>
    (\<forall>j < io_length lb cw. host m2 (byte_addr (io_length lb cw) qs j) = host m (byte_addr (io_length lb cw) ps j))"
proof -
  let ?n = "io_length lb cw" and ?o = "b + cmd_io_offset lb cw"
  have n: "io_length lb cr = ?n" "b + cmd_io_offset lb cr = ?o" using assms(6,7) by (simp_all add: io_length_def cmd_io_offset_def)
  have bc: "idx bases (dec32 (nsid cr)) = Some b" using assms(2,3) by simp
  have pf: "pfn x" for x using assms(1) by blast
  let ?m1 = "m\<lparr>disk := \<lambda>x. if ?o \<le> x \<and> x < ?o + ?n then host m (byte_addr ?n ps (x - ?o)) else disk m x\<rparr>"
  have "length ps \<le> 2 \<or> apart cw (segs ?n (cmd_io_offset lb cw) ps)" using assms(4) by (simp add: apart_def io_opcodes)
  then have "do_perform_io pfn bases lb cw m = Some (dma_segs cw (segs ?n ?o ps) m)"
    using page_ok [of pfn, OF pf assms(8), of bases] copy_segs_base [OF assms(2)] by simp
  then have w: "do_perform_io pfn bases lb cw m = Some ?m1"
    using write_bytes [OF prps_covers [OF assms(8)], of cw ?o m] assms(4) by simp
  have "prps pfn (host ?m1) cr 0 (None, 0) (io_length lb cr) = Some qs" using assms(9) by simp
  from page_ok [of pfn, OF pf this assms(10), of bases] have
    "do_perform_io pfn bases lb cr ?m1 = Some (dma_segs cr (segs ?n ?o qs) ?m1)" using copy_segs_base [OF bc] n by simp
  moreover obtain h where h: "dma_segs cr (segs ?n ?o qs) ?m1 = ?m1\<lparr>host := h\<rparr>" "\<forall>j < ?n. h (byte_addr ?n qs j) = disk ?m1 (?o + j)"
    using read_bytes [OF prps_covers [OF assms(9)] assms(11,5), of ?o ?m1] n by auto
  ultimately have r: "do_perform_io pfn bases lb cr ?m1 = Some (?m1\<lparr>host := h\<rparr>)" by simp
  have "\<forall>j < ?n. host (?m1\<lparr>host := h\<rparr>) (byte_addr ?n qs j) = host m (byte_addr ?n ps j)" using h(2) by simp
  then show ?thesis using w r by blast
qed

theorem prp_roundtrip_witness:
  "\<exists>m1 m2. do_perform_io (\<lambda>_. True) [0] 9 (ex_cmd nvme_cmd_write 4096) ex_mem = Some m1 \<and>
    do_perform_io (\<lambda>_. True) [0] 9 (ex_cmd nvme_cmd_read 65536) m1 = Some m2 \<and>
    (\<forall>j < 8192. host m2 (byte_addr 8192 [65536, 73728] j) = host ex_mem (byte_addr 8192 [4096, 12288] j))"
proof -
  have l: "io_length 9 (ex_cmd opc a) = 8192" for opc a by (simp add: io_length_def ex_fields)
  have p: "prps (\<lambda>_. True) (host ex_mem) (ex_cmd nvme_cmd_write 4096) 0 (None, 0) (io_length 9 (ex_cmd nvme_cmd_write 4096)) = Some [4096, 12288]"
    "prps (\<lambda>_. True) (host ex_mem) (ex_cmd nvme_cmd_read 65536) 0 (None, 0) (io_length 9 (ex_cmd nvme_cmd_read 65536)) = Some [65536, 73728]"
    using ex_prps [of 4096] ex_prps [of 65536] by simp_all
  have "inj_on (byte_addr 8192 [65536, 73728]) {..<8192}"
    by (auto simp: inj_on_def seg_len_def PAGE_SIZE_def Let_def split: if_splits)
  then have i: "inj_on (byte_addr (io_length 9 (ex_cmd nvme_cmd_read 65536)) [65536, 73728]) {..<io_length 9 (ex_cmd nvme_cmd_read 65536)}"
    by (simp only: l)
  have n: "idx [0::nat] (dec32 (nsid (ex_cmd nvme_cmd_write 4096))) = Some 0" by (simp add: ex_fields arr_simps)
  have f: "nsid (ex_cmd nvme_cmd_read 65536) = nsid (ex_cmd nvme_cmd_write 4096)" by (simp add: ex_cmd_def)
  have r: "rw_slba (ex_cmd nvme_cmd_read 65536) = rw_slba (ex_cmd nvme_cmd_write 4096)"
    "rw_length (ex_cmd nvme_cmd_read 65536) = rw_length (ex_cmd nvme_cmd_write 4096)" by (simp_all only: ex_fields)
  have d: "length [65536::nat, 73728] \<le> 2 \<or> apart (ex_cmd nvme_cmd_read 65536)
      (segs (io_length 9 (ex_cmd nvme_cmd_read 65536)) (cmd_io_offset 9 (ex_cmd nvme_cmd_read 65536)) [65536, 73728])" by simp
  have t: "\<forall>x::nat. True" by simp
  from prp_roundtrip [OF t n f ex_fields(4) ex_fields(4) r p d i] show ?thesis unfolding l .
qed

section \<open>The simple latency model\<close>

text \<open>A read or write on the simple device completes after its delay and one latency for each unit of data, counted from the clock or from the time
  at which its first unit is free, whichever is later; flush completes when the last unit is free.\<close>

theorem simple_completion_time:
  assumes "simple_inv ns"
  shows "\<exists>ns'. simple_proc_nvme_io_cmd ns req ret =
    Some (True, (if opcode (rq_cmd req) = nvme_cmd_write \<or> opcode (rq_cmd req) = nvme_cmd_read then
        (let u = rw_slba (rq_cmd req) div 2 ^ (io_unit_shift ns - s_lba_bits ns) mod nr_io_units ns;
             w = opcode (rq_cmd req) = nvme_cmd_write
         in ret\<lparr>rs_nsecs_target := max (s_clk ns (s_tick ns)) (io_unit_stat ns ! u) + (if w then write_delay ns else read_delay ns) +
             (if w then write_time ns else read_time ns) * DIV_ROUND_UP (cmd_io_size (s_lba_bits ns) (rq_cmd req)) (2 ^ io_unit_shift ns)\<rparr>)
      else if opcode (rq_cmd req) = nvme_cmd_flush then ret\<lparr>rs_nsecs_target := Max (set (io_unit_stat ns))\<rparr> else ret), [], ns') \<and>
    simple_inv ns'"
proof -
  have c: "s_csi ns = NVME_CSI_NVM" using assms by (simp add: simple_inv_def)
  let ?ns = "ns\<lparr>s_tick := s_tick ns + 1\<rparr>"
  have inv': "simple_inv ?ns" using assms by (simp add: simple_inv_def)
  show ?thesis
  proof (cases "opcode (rq_cmd req) = nvme_cmd_write \<or> opcode (rq_cmd req) = nvme_cmd_read")
    case True
    obtain st where st: "schedule_io_units (opcode (rq_cmd req)) (rw_slba (rq_cmd req)) (cmd_io_size (s_lba_bits ns) (rq_cmd req)) (s_clk ns (s_tick ns)) ?ns =
      Some (max (s_clk ns (s_tick ns)) (io_unit_stat ns ! (rw_slba (rq_cmd req) div 2 ^ (io_unit_shift ns - s_lba_bits ns) mod nr_io_units ns)) +
        (if opcode (rq_cmd req) = nvme_cmd_write then write_delay ns else if opcode (rq_cmd req) = nvme_cmd_read then read_delay ns else 0) +
        (if opcode (rq_cmd req) = nvme_cmd_write then write_time ns else if opcode (rq_cmd req) = nvme_cmd_read then read_time ns else 0) *
          DIV_ROUND_UP (cmd_io_size (s_lba_bits ns) (rq_cmd req)) (2 ^ io_unit_shift ns), ?ns\<lparr>io_unit_stat := st\<rparr>)"
      "length st = nr_io_units ns"
      using schedule_io_units_ok [OF inv' cmd_size_pos, of "opcode (rq_cmd req)" "rw_slba (rq_cmd req)" "s_lba_bits ns" "rq_cmd req" "s_clk ns (s_tick ns)"] by auto
    have "simple_inv (?ns\<lparr>io_unit_stat := st\<rparr>)" using inv' st(2) by (simp add: simple_inv_def)
    then show ?thesis using st(1) True c by (auto simp: simple_proc_nvme_io_cmd_def Let_def)
  next
    case False
    then show ?thesis using c assms schedule_flush_ok [OF assms] by (simp add: simple_proc_nvme_io_cmd_def)
  qed
qed

theorem simple_completion_time_witness:
  "\<exists>ns'. simple_proc_nvme_io_cmd ex_simple \<lparr>rq_cmd = ex_cmd nvme_cmd_write 0, rq_sq_id = 1, rq_nsecs_start = 0\<rparr> \<lparr>rs_status = 0, rs_nsecs_target = 0\<rparr> =
    Some (True, \<lparr>rs_status = 0, rs_nsecs_target = 7000 + 20 + 200 * 2\<rparr>, [], ns') \<and> simple_inv ns'"
proof -
  have "simple_inv ex_simple" by (simp add: simple_inv_def ex_simple_def)
  from simple_completion_time [OF this, of "\<lparr>rq_cmd = ex_cmd nvme_cmd_write 0, rq_sq_id = 1, rq_nsecs_start = 0\<rparr>" "\<lparr>rs_status = 0, rs_nsecs_target = 0\<rparr>"]
  show ?thesis by (simp add: ex_fields cmd_io_size_def ex_simple_def DIV_ROUND_UP_def Let_def)
qed

end
