(* ===== verification/Zns_Ftl.thy ===== *)
theory Zns_Ftl
  imports Ssd Prp
begin

text \<open>
  The zoned namespace (\<open>zns_ftl.c\<close>, \<open>zns_ftl.h\<close>, \<open>nvme_zns.h\<close>): zone descriptors, zone resources, the arithmetic of zones and
  pages, and the construction. The handlers of the commands are in \<open>Zns_Mgmt\<close> and \<open>Zns_Io\<close>.

  The FTL points to its SSD, its buffers and the storage: they are fields of its record, the memory of host and storage
  included. The count of an acquired resource is an \<open>uint32_t\<close>: the assertion of \<open>release_zone_resource\<close> is the empty macro
  \<open>ASSERT\<close>, so a release without an acquisition wraps. An \<open>nvmev_ns\<close> of this kind has one FTL.
\<close>

section \<open>Data\<close>

datatype zone_state = ZONE_STATE_EMPTY | ZONE_STATE_OPENED_IMPL | ZONE_STATE_OPENED_EXPL | ZONE_STATE_CLOSED
  | ZONE_STATE_READ_ONLY | ZONE_STATE_FULL | ZONE_STATE_OFFLINE

fun zone_state_code :: "zone_state \<Rightarrow> nat" where
  "zone_state_code ZONE_STATE_EMPTY = 1"
| "zone_state_code ZONE_STATE_OPENED_IMPL = 2"
| "zone_state_code ZONE_STATE_OPENED_EXPL = 3"
| "zone_state_code ZONE_STATE_CLOSED = 4"
| "zone_state_code ZONE_STATE_READ_ONLY = 13"
| "zone_state_code ZONE_STATE_FULL = 14"
| "zone_state_code ZONE_STATE_OFFLINE = 15"

datatype zone_resource_type = ACTIVE_ZONE | OPEN_ZONE | ZRWA_ZONE

definition ZONE_TYPE_SEQ_WRITE_REQUIRED :: nat where "ZONE_TYPE_SEQ_WRITE_REQUIRED = 2"

text \<open>The bits and bytes of a descriptor that the code never writes stay zero and are no fields here.\<close>

record zone_descriptor =
  zd_type :: nat
  zd_state :: zone_state
  zrwav :: bool
  zone_capacity :: nat
  zslba :: nat
  zwp :: nat

record znsparams =
  nr_zones :: nat
  nr_active_zones :: nat
  nr_open_zones :: nat
  dies_per_zone :: nat
  zone_size :: nat
  zone_wb_size :: nat
  nr_zrwa_zones :: nat
  zrwafg_size :: nat
  zrwa_size :: nat
  zrwa_buffer_size :: nat
  lbas_per_zrwafg :: nat
  lbas_per_zrwa :: nat

record zone_resource_info =
  acquired_cnt :: nat
  total_cnt :: nat

record zns_ftl =
  zssd :: ssd
  zp :: znsparams
  res_infos :: "zone_resource_type \<Rightarrow> zone_resource_info"
  zone_descs :: "zone_descriptor list"
  report_buffer :: "nat list"
  zone_write_buffer :: "buffer list"
  zrwa_buffer :: "buffer list"
  storage_base_addr :: nat
  zmem :: sys_mem

text \<open>The buffers that an internal operation may give bytes back to.\<close>

datatype zns_buffer = Global_Buffer | Zone_Buffer nat | Zrwa_Buffer nat

record zns_op =
  zo_sqid :: nat
  zo_nsecs :: nat
  zo_buffer :: zns_buffer
  zo_release :: nat

definition NVME_SC_ZNS_INVALID_ZONE_OPERATION :: nat where "NVME_SC_ZNS_INVALID_ZONE_OPERATION = 0x1B6"
definition NVME_SC_ZNS_ZRWA_RSRC_UNAVAIL :: nat where "NVME_SC_ZNS_ZRWA_RSRC_UNAVAIL = 0x1B7"
definition NVME_SC_ZNS_ERR_BOUNDARY :: nat where "NVME_SC_ZNS_ERR_BOUNDARY = 0x1B8"
definition NVME_SC_ZNS_ERR_FULL :: nat where "NVME_SC_ZNS_ERR_FULL = 0x1B9"
definition NVME_SC_ZNS_ERR_READ_ONLY :: nat where "NVME_SC_ZNS_ERR_READ_ONLY = 0x1BA"
definition NVME_SC_ZNS_ERR_OFFLINE :: nat where "NVME_SC_ZNS_ERR_OFFLINE = 0x1BB"
definition NVME_SC_ZNS_INVALID_WRITE :: nat where "NVME_SC_ZNS_INVALID_WRITE = 0x1BC"
definition NVME_SC_ZNS_NO_ACTIVE_ZONE :: nat where "NVME_SC_ZNS_NO_ACTIVE_ZONE = 0x1BD"
definition NVME_SC_ZNS_NO_OPEN_ZONE :: nat where "NVME_SC_ZNS_NO_OPEN_ZONE = 0x1BE"
definition NVME_SC_ZNS_INVALID_TRANSITION :: nat where "NVME_SC_ZNS_INVALID_TRANSITION = 0x1BF"

lemmas zns_status = NVME_SC_SUCCESS_def NVME_SC_INVALID_FIELD_def NVME_SC_ZNS_INVALID_ZONE_OPERATION_def
  NVME_SC_ZNS_ZRWA_RSRC_UNAVAIL_def NVME_SC_ZNS_ERR_BOUNDARY_def NVME_SC_ZNS_ERR_FULL_def NVME_SC_ZNS_ERR_READ_ONLY_def
  NVME_SC_ZNS_ERR_OFFLINE_def NVME_SC_ZNS_INVALID_WRITE_def NVME_SC_ZNS_NO_ACTIVE_ZONE_def NVME_SC_ZNS_NO_OPEN_ZONE_def
  NVME_SC_ZNS_INVALID_TRANSITION_def

section \<open>Zones, resources, addresses\<close>

definition zspp :: "zns_ftl \<Rightarrow> ssdparams" where "zspp f = sp (zssd f)"

definition get_storage_addr_from_zid :: "zns_ftl \<Rightarrow> nat \<Rightarrow> nat" where
  "get_storage_addr_from_zid f zid = storage_base_addr f + zid * zone_size (zp f)"

definition is_zone_resource_avail :: "zns_ftl \<Rightarrow> zone_resource_type \<Rightarrow> bool" where
  "is_zone_resource_avail f t \<longleftrightarrow> acquired_cnt (res_infos f t) < total_cnt (res_infos f t)"

definition is_zone_resource_full :: "zns_ftl \<Rightarrow> zone_resource_type \<Rightarrow> bool" where
  "is_zone_resource_full f t \<longleftrightarrow> acquired_cnt (res_infos f t) = total_cnt (res_infos f t)"

definition upd_res :: "(nat \<Rightarrow> nat) \<Rightarrow> zone_resource_type \<Rightarrow> zns_ftl \<Rightarrow> zns_ftl" where
  "upd_res g t f = f\<lparr>res_infos := (res_infos f)(t := (res_infos f t)\<lparr>acquired_cnt := g (acquired_cnt (res_infos f t))\<rparr>)\<rparr>"

definition acquire_zone_resource :: "zns_ftl \<Rightarrow> zone_resource_type \<Rightarrow> bool \<times> zns_ftl" where
  "acquire_zone_resource f t = (if is_zone_resource_avail f t then (True, upd_res inc32 t f) else (False, f))"

definition release_zone_resource :: "zone_resource_type \<Rightarrow> zns_ftl \<Rightarrow> zns_ftl" where
  "release_zone_resource t f = upd_res dec32 t f"

text \<open>A write through a pointer to the descriptor of an existing zone.\<close>

definition upd_zone :: "nat \<Rightarrow> (zone_descriptor \<Rightarrow> zone_descriptor) \<Rightarrow> zns_ftl \<Rightarrow> zns_ftl" where
  "upd_zone zid g f = f\<lparr>zone_descs := modl (zone_descs f) zid g\<rparr>"

definition change_zone_state :: "nat \<Rightarrow> zone_state \<Rightarrow> zns_ftl \<Rightarrow> zns_ftl" where
  "change_zone_state zid st f = upd_zone zid (\<lambda>z. z\<lparr>zd_state := st\<rparr>) f"

text \<open>The logical blocks and the pages of a zone. The code divides by them; a caller here asserts that they are not 0.\<close>

definition lbas_per_zone :: "zns_ftl \<Rightarrow> nat" where "lbas_per_zone f = zone_size (zp f) div secsz (zspp f)"

definition lpns_per_zone :: "zns_ftl \<Rightarrow> nat" where "lpns_per_zone f = zone_size (zp f) div pgsz (zspp f)"

definition lpn_to_zone :: "zns_ftl \<Rightarrow> nat \<Rightarrow> nat" where "lpn_to_zone f lpn = u32 (lpn div lpns_per_zone f)"

definition zone_to_slpn :: "zns_ftl \<Rightarrow> nat \<Rightarrow> nat" where "zone_to_slpn f zid = u32 (zid * lpns_per_zone f)"

definition lba_to_zone :: "zns_ftl \<Rightarrow> nat \<Rightarrow> nat" where "lba_to_zone f lba = u32 (lba div lbas_per_zone f)"

definition zone_to_slba :: "zns_ftl \<Rightarrow> nat \<Rightarrow> nat" where "zone_to_slba f zid = u32 (zid * lbas_per_zone f)"

definition zone_to_elba :: "zns_ftl \<Rightarrow> nat \<Rightarrow> nat" where "zone_to_elba f zid = sub64 (zone_to_slba f (u32 (zid + 1))) 1"

definition zone_to_elpn :: "zns_ftl \<Rightarrow> nat \<Rightarrow> nat" where "zone_to_elpn f zid = zone_to_elba f zid div secs_per_pg (zspp f)"

definition die_to_channel :: "zns_ftl \<Rightarrow> nat \<Rightarrow> nat" where "die_to_channel f die = die mod nchs (zspp f)"

definition die_to_lun :: "zns_ftl \<Rightarrow> nat \<Rightarrow> nat" where "die_to_lun f die = die div nchs (zspp f)"

definition lba_to_lpn :: "zns_ftl \<Rightarrow> nat \<Rightarrow> nat" where "lba_to_lpn f lba = lba div secs_per_pg (zspp f)"

section \<open>Construction\<close>

definition zns_init_params :: "ssd_config \<Rightarrow> ssdparams \<Rightarrow> nat \<Rightarrow> znsparams option" where
  "zns_init_params cfg spp capacity = do {
     NVMEV_ASSERT (ZONE_SIZE cfg \<noteq> 0);
     NVMEV_ASSERT (secsz spp \<noteq> 0);
     let zpp = \<lparr>nr_zones = u32 (capacity div ZONE_SIZE cfg), nr_active_zones = u32 (capacity div ZONE_SIZE cfg),
                nr_open_zones = u32 (capacity div ZONE_SIZE cfg), dies_per_zone = DIES_PER_ZONE cfg, zone_size = u32 (ZONE_SIZE cfg),
                zone_wb_size = ZONE_WB_SIZE cfg, nr_zrwa_zones = MAX_ZRWA_ZONES cfg, zrwafg_size = ZRWAFG_SIZE cfg,
                zrwa_size = ZRWA_SIZE cfg, zrwa_buffer_size = ZRWA_BUFFER_SIZE cfg,
                lbas_per_zrwafg = ZRWAFG_SIZE cfg div secsz spp, lbas_per_zrwa = ZRWA_SIZE cfg div secsz spp\<rparr>
     in do {
       NVMEV_ASSERT (zone_size zpp \<noteq> 0 \<and> capacity mod zone_size zpp = 0);
       NVMEV_ASSERT (pgsz spp \<noteq> 0 \<and> zone_size zpp mod pgsz spp = 0);
       Some zpp } }"

text \<open>\<open>zslba\<close> is summed up in the loop. \<open>junk\<close> is the content of the report buffer, which has room for the head (64 bytes), one descriptor and
  one for each zone.\<close>

definition init_desc :: "ssd_config \<Rightarrow> nat \<Rightarrow> nat \<Rightarrow> zone_descriptor" where
  "init_desc cfg zsize i = \<lparr>zd_type = ZONE_TYPE_SEQ_WRITE_REQUIRED, zd_state = ZONE_STATE_EMPTY, zrwav = False,
     zone_capacity = BYTE_TO_LBA cfg zsize, zslba = u64 (i * BYTE_TO_LBA cfg zsize), zwp = u64 (i * BYTE_TO_LBA cfg zsize)\<rparr>"

definition init_descriptor :: "ssd_config \<Rightarrow> (nat \<Rightarrow> nat) \<Rightarrow> zns_ftl \<Rightarrow> zns_ftl" where
  "init_descriptor cfg junk f =
     (let n = nr_zones (zp f)
      in f\<lparr>zone_descs := map (init_desc cfg (zone_size (zp f))) [0..<n],
           report_buffer := map junk [0..<64 * (n + 2)],
           zrwa_buffer := (if zrwa_buffer_size (zp f) \<noteq> 0 then map (\<lambda>i. buffer_init (zrwa_buffer_size (zp f))) [0..<n] else zrwa_buffer f),
           zone_write_buffer := (if zone_wb_size (zp f) \<noteq> 0 then map (\<lambda>i. buffer_init (zone_wb_size (zp f))) [0..<n] else zone_write_buffer f)\<rparr>)"

definition init_resource :: "zns_ftl \<Rightarrow> zns_ftl" where
  "init_resource f = f\<lparr>res_infos := (\<lambda>_. \<lparr>acquired_cnt = 0, total_cnt = nr_zones (zp f)\<rparr>)\<rparr>"

text \<open>A null pointer to buffers is the empty list. The first argument of the construction is the memory that the pointers lead to.\<close>

definition zns_init_ftl :: "ssd_config \<Rightarrow> (nat \<Rightarrow> nat) \<Rightarrow> znsparams \<Rightarrow> ssd \<Rightarrow> nat \<Rightarrow> sys_mem \<Rightarrow> zns_ftl" where
  "zns_init_ftl cfg junk zpp s mapped_addr m =
     init_resource (init_descriptor cfg junk
       \<lparr>zssd = s, zp = zpp, res_infos = (\<lambda>_. \<lparr>acquired_cnt = 0, total_cnt = 0\<rparr>), zone_descs = [], report_buffer = [],
        zone_write_buffer = [], zrwa_buffer = [], storage_base_addr = mapped_addr, zmem = m\<rparr>)"

record zns_ns =
  z_id :: nat
  z_csi :: nat
  z_nr_parts :: nat
  z_size :: nat
  z_mapped :: nat
  zftl :: zns_ftl
  z_clk :: "nat \<Rightarrow> nat"
  z_tick :: nat

definition zns_init_namespace :: "ssd_config \<Rightarrow> (nat \<Rightarrow> nat) \<Rightarrow> nat \<Rightarrow> (nat \<Rightarrow> nat) \<Rightarrow> ssdparams \<Rightarrow> sys_mem \<Rightarrow> zns_ns \<Rightarrow>
    nat \<Rightarrow> nat \<Rightarrow> nat \<Rightarrow> nat \<Rightarrow> zns_ns option" where
  "zns_init_namespace cfg junk j clock spp0 m ns0 nid sz mapped_addr cpu_nr = do {
     spp \<leftarrow> ssd_init_params cfg spp0 sz 1;
     zpp \<leftarrow> zns_init_params cfg spp sz;
     Some (ns0\<lparr>z_id := nid, z_csi := NVME_CSI_ZNS, z_nr_parts := 1, z_size := sz, z_mapped := mapped_addr,
       zftl := zns_init_ftl cfg junk zpp (ssd_init j clock spp cpu_nr) mapped_addr m\<rparr>) }"

section \<open>Flush\<close>

definition zns_flush :: "zns_ns \<Rightarrow> (nvmev_result \<times> zns_ns) option" where
  "zns_flush ns =
     (let start = z_clk ns (z_tick ns)
      in do {
        (t, s) \<leftarrow> ssd_next_idle_time (zssd (zftl ns));
        Some (\<lparr>rs_status = NVME_SC_SUCCESS, rs_nsecs_target = max start t\<rparr>,
          ns\<lparr>z_tick := z_tick ns + 1, zftl := (zftl ns)\<lparr>zssd := s\<rparr>\<rparr>) })"

end
