(* ===== verification/Zns_Mgmt.thy ===== *)
theory Zns_Mgmt
  imports Zns_Ftl
begin

text \<open>
  Zone management (\<open>zns_mgmt_send.c\<close>, \<open>zns_mgmt_recv.c\<close>): the actions that move a zone through its states, and the zone report,
  which is laid out byte by byte in a buffer and copied to the pages of the host. An action returns its status and the new
  state.
\<close>

section \<open>Zone management send\<close>

definition zmgmt_send_close_zone :: "nat \<Rightarrow> zns_ftl \<Rightarrow> (nat \<times> zns_ftl) option" where
  "zmgmt_send_close_zone zid f = do {
     z \<leftarrow> idx (zone_descs f) zid;
     Some (case zd_state z of
       ZONE_STATE_OPENED_IMPL \<Rightarrow> (NVME_SC_SUCCESS, release_zone_resource OPEN_ZONE (change_zone_state zid ZONE_STATE_CLOSED f))
     | ZONE_STATE_OPENED_EXPL \<Rightarrow> (NVME_SC_SUCCESS, release_zone_resource OPEN_ZONE (change_zone_state zid ZONE_STATE_CLOSED f))
     | ZONE_STATE_CLOSED \<Rightarrow> (NVME_SC_SUCCESS, f)
     | _ \<Rightarrow> (NVME_SC_ZNS_INVALID_TRANSITION, f)) }"

text \<open>The parts of the switches of finish and reset: an open zone gives its open resource back and falls through to the closed one, which gives back the active and
  the ZRWA resource.\<close>

definition release_closed :: "bool \<Rightarrow> zns_ftl \<Rightarrow> zns_ftl" where
  "release_closed zrwa f =
     (let f = release_zone_resource ACTIVE_ZONE f
      in if zrwa then release_zone_resource ZRWA_ZONE f else f)"

definition release_opened :: "bool \<Rightarrow> zns_ftl \<Rightarrow> zns_ftl" where
  "release_opened zrwa f = release_closed zrwa (release_zone_resource OPEN_ZONE f)"

definition zmgmt_send_finish_zone :: "nat \<Rightarrow> zns_ftl \<Rightarrow> (nat \<times> zns_ftl) option" where
  "zmgmt_send_finish_zone zid f = do {
     z \<leftarrow> idx (zone_descs f) zid;
     Some (case zd_state z of
       ZONE_STATE_OPENED_IMPL \<Rightarrow> (NVME_SC_SUCCESS, change_zone_state zid ZONE_STATE_FULL (release_opened (zrwav z) f))
     | ZONE_STATE_OPENED_EXPL \<Rightarrow> (NVME_SC_SUCCESS, change_zone_state zid ZONE_STATE_FULL (release_opened (zrwav z) f))
     | ZONE_STATE_CLOSED \<Rightarrow> (NVME_SC_SUCCESS, change_zone_state zid ZONE_STATE_FULL (release_closed (zrwav z) f))
     | ZONE_STATE_EMPTY \<Rightarrow> (NVME_SC_SUCCESS, change_zone_state zid ZONE_STATE_FULL f)
     | ZONE_STATE_FULL \<Rightarrow> (NVME_SC_SUCCESS, f)
     | _ \<Rightarrow> (NVME_SC_ZNS_INVALID_TRANSITION, f)) }"

text \<open>The fall-through cases of the switch of open: an empty zone, when its resources are acquired, goes on as a closed one.\<close>

definition open_closed :: "nat \<Rightarrow> zns_ftl \<Rightarrow> nat \<times> zns_ftl" where
  "open_closed zid f =
     (let (ok, f) = acquire_zone_resource f OPEN_ZONE
      in if \<not> ok then (NVME_SC_ZNS_NO_OPEN_ZONE, f) else (NVME_SC_SUCCESS, change_zone_state zid ZONE_STATE_OPENED_EXPL f))"

definition open_empty :: "nat \<Rightarrow> bool \<Rightarrow> zns_ftl \<Rightarrow> nat \<times> zns_ftl" where
  "open_empty zid zrwa f =
     (if is_zone_resource_full f ACTIVE_ZONE then (NVME_SC_ZNS_NO_ACTIVE_ZONE, f)
      else if is_zone_resource_full f OPEN_ZONE then (NVME_SC_ZNS_NO_OPEN_ZONE, f)
      else if zrwa \<and> is_zone_resource_full f ZRWA_ZONE then (NVME_SC_ZNS_ZRWA_RSRC_UNAVAIL, f)
      else (let f = (if zrwa then upd_zone zid (\<lambda>z. z\<lparr>zrwav := True\<rparr>) (snd (acquire_zone_resource f ZRWA_ZONE)) else f)
            in open_closed zid (snd (acquire_zone_resource f ACTIVE_ZONE))))"

definition zmgmt_send_open_zone :: "nat \<Rightarrow> bool \<Rightarrow> zns_ftl \<Rightarrow> (nat \<times> zns_ftl) option" where
  "zmgmt_send_open_zone zid zrwa f = do {
     z \<leftarrow> idx (zone_descs f) zid;
     Some (case zd_state z of
       ZONE_STATE_EMPTY \<Rightarrow> open_empty zid zrwa f
     | ZONE_STATE_CLOSED \<Rightarrow> open_closed zid f
     | ZONE_STATE_OPENED_IMPL \<Rightarrow> (NVME_SC_SUCCESS, change_zone_state zid ZONE_STATE_OPENED_EXPL f)
     | ZONE_STATE_OPENED_EXPL \<Rightarrow> (NVME_SC_SUCCESS, f)
     | _ \<Rightarrow> (NVME_SC_ZNS_INVALID_TRANSITION, f)) }"

definition memset0 :: "(nat \<Rightarrow> nat) \<Rightarrow> nat \<Rightarrow> nat \<Rightarrow> nat \<Rightarrow> nat" where
  "memset0 dst d n = (\<lambda>x. if d \<le> x \<and> x < d + n then 0 else dst x)"

definition reset_zone :: "nat \<Rightarrow> zns_ftl \<Rightarrow> zns_ftl option" where
  "reset_zone zid f =
     (let f = f\<lparr>zmem := (zmem f)\<lparr>disk := memset0 (disk (zmem f)) (get_storage_addr_from_zid f zid) (zone_size (zp f))\<rparr>\<rparr>;
          f = upd_zone zid (\<lambda>z. z\<lparr>zwp := zslba z, zrwav := False\<rparr>) f
      in if zrwa_buffer_size (zp f) \<noteq> 0 then do {
           NVMEV_ASSERT (zid < length (zrwa_buffer f));
           Some (f\<lparr>zrwa_buffer := modl (zrwa_buffer f) zid buffer_refill\<rparr>) }
         else Some f)"

definition reset_to_empty :: "nat \<Rightarrow> zns_ftl \<Rightarrow> (nat \<times> zns_ftl) option" where
  "reset_to_empty zid f = do { f \<leftarrow> reset_zone zid (change_zone_state zid ZONE_STATE_EMPTY f); Some (NVME_SC_SUCCESS, f) }"

definition zmgmt_send_reset_zone :: "nat \<Rightarrow> zns_ftl \<Rightarrow> (nat \<times> zns_ftl) option" where
  "zmgmt_send_reset_zone zid f = do {
     z \<leftarrow> idx (zone_descs f) zid;
     case zd_state z of
       ZONE_STATE_OPENED_IMPL \<Rightarrow> reset_to_empty zid (release_opened (zrwav z) f)
     | ZONE_STATE_OPENED_EXPL \<Rightarrow> reset_to_empty zid (release_opened (zrwav z) f)
     | ZONE_STATE_CLOSED \<Rightarrow> reset_to_empty zid (release_closed (zrwav z) f)
     | ZONE_STATE_FULL \<Rightarrow> reset_to_empty zid f
     | ZONE_STATE_EMPTY \<Rightarrow> reset_to_empty zid f
     | _ \<Rightarrow> Some (NVME_SC_ZNS_INVALID_TRANSITION, f) }"

definition zmgmt_send_offline_zone :: "nat \<Rightarrow> zns_ftl \<Rightarrow> (nat \<times> zns_ftl) option" where
  "zmgmt_send_offline_zone zid f = do {
     z \<leftarrow> idx (zone_descs f) zid;
     Some (case zd_state z of
       ZONE_STATE_READ_ONLY \<Rightarrow> (NVME_SC_SUCCESS, change_zone_state zid ZONE_STATE_OFFLINE f)
     | ZONE_STATE_OFFLINE \<Rightarrow> (NVME_SC_SUCCESS, f)
     | _ \<Rightarrow> (NVME_SC_ZNS_INVALID_TRANSITION, f)) }"

text \<open>\<open>nr_lbas_flush % lbas_per_zrwafg\<close> divides without a check.\<close>

definition zmgmt_send_flush_explicit_zrwa :: "nat \<Rightarrow> zns_ftl \<Rightarrow> (nat \<times> zns_ftl) option" where
  "zmgmt_send_flush_explicit_zrwa slba f =
     (let zid = lba_to_zone f slba
      in do {
        z \<leftarrow> idx (zone_descs f) zid;
        let wp = zwp z; end_lba = u64 (zone_to_slba f zid + zone_capacity z);
            zrwa_end = min (sub64 (wp + lbas_per_zrwa (zp f)) 1) (sub64 end_lba 1);
            nr_lbas_flush = u64 (sub64 slba wp + 1)
        in if \<not> zrwav z then Some (NVME_SC_ZNS_INVALID_ZONE_OPERATION, f)
           else if \<not> (wp \<le> slba \<and> slba \<le> zrwa_end) then Some (NVME_SC_ZNS_INVALID_ZONE_OPERATION, f)
           else do {
             NVMEV_ASSERT (lbas_per_zrwafg (zp f) \<noteq> 0);
             if nr_lbas_flush mod lbas_per_zrwafg (zp f) \<noteq> 0 then Some (NVME_SC_INVALID_FIELD, f)
             else if zd_state z \<in> {ZONE_STATE_OPENED_EXPL, ZONE_STATE_OPENED_IMPL, ZONE_STATE_CLOSED} then
               let wp = u64 (slba + 1); f = upd_zone zid (\<lambda>z. z\<lparr>zwp := wp\<rparr>) f
               in if wp = end_lba then
                    let f = (if zd_state z \<noteq> ZONE_STATE_CLOSED then release_zone_resource OPEN_ZONE f else f)
                    in Some (NVME_SC_SUCCESS, change_zone_state zid ZONE_STATE_FULL
                         (release_zone_resource ZRWA_ZONE (release_zone_resource ACTIVE_ZONE f)))
                  else Some (NVME_SC_SUCCESS, f)
             else Some (NVME_SC_ZNS_INVALID_ZONE_OPERATION, f) } })"

definition ZSA_CLOSE_ZONE :: nat where "ZSA_CLOSE_ZONE = 1"
definition ZSA_FINISH_ZONE :: nat where "ZSA_FINISH_ZONE = 2"
definition ZSA_OPEN_ZONE :: nat where "ZSA_OPEN_ZONE = 3"
definition ZSA_RESET_ZONE :: nat where "ZSA_RESET_ZONE = 4"
definition ZSA_OFFLINE_ZONE :: nat where "ZSA_OFFLINE_ZONE = 5"
definition ZSA_FLUSH_EXPL_ZRWA :: nat where "ZSA_FLUSH_EXPL_ZRWA = 0x11"

lemmas zsa_codes = ZSA_CLOSE_ZONE_def ZSA_FINISH_ZONE_def ZSA_OPEN_ZONE_def ZSA_RESET_ZONE_def ZSA_OFFLINE_ZONE_def ZSA_FLUSH_EXPL_ZRWA_def

text \<open>For an action it does not know the function returns a status that nothing has assigned: \<open>None\<close> inside.\<close>

definition zmgmt_send :: "nat \<Rightarrow> nat \<Rightarrow> bool \<Rightarrow> zns_ftl \<Rightarrow> (nat option \<times> zns_ftl) option" where
  "zmgmt_send slba action opt f = do {
     NVMEV_ASSERT (lbas_per_zone f \<noteq> 0);
     let zid = lba_to_zone f slba; ret = map_option (\<lambda>(st, f). (Some st, f))
     in if action = ZSA_CLOSE_ZONE then ret (zmgmt_send_close_zone zid f)
        else if action = ZSA_FINISH_ZONE then ret (zmgmt_send_finish_zone zid f)
        else if action = ZSA_OPEN_ZONE then ret (zmgmt_send_open_zone zid opt f)
        else if action = ZSA_RESET_ZONE then ret (zmgmt_send_reset_zone zid f)
        else if action = ZSA_OFFLINE_ZONE then ret (zmgmt_send_offline_zone zid f)
        else if action = ZSA_FLUSH_EXPL_ZRWA then ret (zmgmt_send_flush_explicit_zrwa slba f)
        else Some (None, f) }"

text \<open>\<open>struct nvme_zone_mgmt_send\<close>.\<close>

definition zsa :: "nvme_command \<Rightarrow> nat" where "zsa c = cdw13 c mod 2 ^ 8"
definition select_all :: "nvme_command \<Rightarrow> bool" where "select_all c \<longleftrightarrow> odd (cdw13 c div 2 ^ 8)"
definition zsaso :: "nvme_command \<Rightarrow> bool" where "zsaso c \<longleftrightarrow> odd (cdw13 c div 2 ^ 9)"

definition zmgmt_send_all :: "nat \<Rightarrow> bool \<Rightarrow> zns_ftl \<Rightarrow> zns_ftl option" where
  "zmgmt_send_all action opt f =
     foldM (\<lambda>zid f. do { (_, f) \<leftarrow> zmgmt_send (zone_to_slba f zid) action opt f; Some f }) [0..<nr_zones (zp f)] f"

definition zns_zmgmt_send :: "zns_ftl \<Rightarrow> nvmev_request \<Rightarrow> (nvmev_result \<times> zns_ftl) option" where
  "zns_zmgmt_send f req =
     (let c = rq_cmd req; done = (\<lambda>st. \<lparr>rs_status = st, rs_nsecs_target = rq_nsecs_start req\<rparr>)
      in do {
        NVMEV_ASSERT (lbas_per_zone f \<noteq> 0);
        if select_all c then do { f \<leftarrow> zmgmt_send_all (zsa c) (zsaso c) f; Some (done NVME_SC_SUCCESS, f) }
        else do {
          (st, f) \<leftarrow> zmgmt_send (rw_slba c) (zsa c) (zsaso c) f;
          st \<leftarrow> st;
          Some (done st, f) } })"

section \<open>Zone management receive\<close>

text \<open>The bytes of a number and of a descriptor in memory.\<close>

definition le_bytes :: "nat \<Rightarrow> nat \<Rightarrow> nat list" where
  "le_bytes n v = map (\<lambda>k. v div 256 ^ k mod 256) [0..<n]"

definition zd_bytes :: "zone_descriptor \<Rightarrow> nat list" where
  "zd_bytes z = [zd_type z mod 16, 16 * zone_state_code (zd_state z), (if zrwav z then 8 else 0), 0] @ replicate 4 0 @
     le_bytes 8 (zone_capacity z) @ le_bytes 8 (zslba z) @ le_bytes 8 (zwp z) @ replicate 32 0"

text \<open>Writing bytes into a buffer; outside it there is no memory.\<close>

definition put_bytes :: "nat \<Rightarrow> nat list \<Rightarrow> nat list \<Rightarrow> nat list option" where
  "put_bytes off bs buf = do {
     NVMEV_ASSERT (off + length bs \<le> length buf);
     Some (take off buf @ bs @ drop (off + length bs) buf) }"

text \<open>\<open>struct nvme_zone_mgmt_recv\<close>.\<close>

definition nr_dw :: "nvme_command \<Rightarrow> nat" where "nr_dw c = u32 (cdw12 c)"
definition zra :: "nvme_command \<Rightarrow> nat" where "zra c = cdw13 c mod 2 ^ 8"
definition zra_specific_field :: "nvme_command \<Rightarrow> nat" where "zra_specific_field c = cdw13 c div 2 ^ 8 mod 2 ^ 8"
definition zra_specific_features :: "nvme_command \<Rightarrow> bool" where "zra_specific_features c \<longleftrightarrow> odd (cdw13 c div 2 ^ 16)"

definition recv_length :: "nvme_command \<Rightarrow> nat" where "recv_length c = inc32 (nr_dw c) * 4"

definition report_zones :: "zns_ftl \<Rightarrow> nvme_command \<Rightarrow> nat" where
  "report_zones f c =
     (let start_zid = lba_to_zone f (rw_slba c); left = sub64 (nr_zones (zp f)) start_zid;
          n = (if \<not> zra_specific_features c then left else sub64 (recv_length c div 64) 1)
      in if left < n then left else n)"

definition fill_zone_report :: "nvme_command \<Rightarrow> zns_ftl \<Rightarrow> zns_ftl option" where
  "fill_zone_report c f =
     (let start_zid = lba_to_zone f (rw_slba c); n = report_zones f c
      in do {
        NVMEV_ASSERT (start_zid + n \<le> length (zone_descs f));
        b \<leftarrow> put_bytes 0 (le_bytes 8 n) (report_buffer f);
        b \<leftarrow> put_bytes 64 (concat (map zd_bytes (take n (drop start_zid (zone_descs f))))) b;
        Some (f\<lparr>report_buffer := b\<rparr>) })"

definition check_zmgmt_rcv_option_supported :: "zns_ftl \<Rightarrow> nvme_command \<Rightarrow> bool" where
  "check_zmgmt_rcv_option_supported f c \<longleftrightarrow> \<not> nr_zones (zp f) \<le> lba_to_zone f (rw_slba c) \<and> zra c = 0 \<and> zra_specific_field c = 0"

definition zns_zmgmt_recv :: "zns_ftl \<Rightarrow> nvmev_request \<Rightarrow> (nvmev_result \<times> zns_ftl) option" where
  "zns_zmgmt_recv f req =
     (let c = rq_cmd req; done = (\<lambda>st. \<lparr>rs_status = st, rs_nsecs_target = rq_nsecs_start req\<rparr>)
      in do {
        NVMEV_ASSERT (lbas_per_zone f \<noteq> 0);
        if check_zmgmt_rcv_option_supported f c then do {
          f \<leftarrow> fill_zone_report c f;
          m \<leftarrow> prp_transfer_out (report_buffer f) c (recv_length c) (zmem f);
          Some (done NVME_SC_SUCCESS, f\<lparr>zmem := m\<rparr>) }
        else Some (done NVME_SC_INVALID_FIELD, f) })"

end
