(* ===== verification/Zns_Io.thy ===== *)
theory Zns_Io
  imports Zns_Mgmt
begin

text \<open>
  Reading and writing zones (\<open>zns_read_write.c\<close>) and the dispatch of the commands of a zoned namespace (\<open>zns_proc_nvme_io_cmd\<close>).

  A write returns the internal operations that it schedules and the command, whose start a zone append overwrites with the
  write pointer. \<open>None\<close> as the first result is the return value \<open>false\<close>: the command will be tried again.
\<close>

section \<open>Pages of a zone\<close>

definition check_boundary_error :: "zns_ftl \<Rightarrow> nat \<Rightarrow> nat \<Rightarrow> bool" where
  "check_boundary_error f slba nr_lba \<longleftrightarrow> lba_to_zone f slba = lba_to_zone f (sub64 (slba + nr_lba) 1)"

text \<open>The assertion on \<open>zrwav\<close> in the code is the empty macro.\<close>

definition increase_write_ptr :: "nat \<Rightarrow> nat \<Rightarrow> zns_ftl \<Rightarrow> zns_ftl option" where
  "increase_write_ptr zid nr_lba f = do {
     z \<leftarrow> idx (zone_descs f) zid;
     let wp = u64 (zwp z + u32 nr_lba); f = upd_zone zid (\<lambda>z. z\<lparr>zwp := wp\<rparr>) f
     in Some (if wp = u64 (zone_to_slba f zid + zone_capacity z)
              then change_zone_state zid ZONE_STATE_FULL (release_zone_resource ACTIVE_ZONE (release_zone_resource OPEN_ZONE f))
              else f) }"

definition lpn_to_ppa :: "zns_ftl \<Rightarrow> nat \<Rightarrow> ppa option" where
  "lpn_to_ppa f lpn =
     (let spp = zspp f; dpz = dies_per_zone (zp f)
      in do {
        NVMEV_ASSERT (lpns_per_zone f \<noteq> 0);
        NVMEV_ASSERT (tt_luns spp \<noteq> 0 \<and> pgs_per_oneshotpg spp \<noteq> 0 \<and> dpz \<noteq> 0 \<and> nchs spp \<noteq> 0);
        let zone = lpn_to_zone f lpn;
            off = sub64 lpn (zone_to_slpn f zone);
            sdie = u32 (u64 (zone * dpz) mod tt_luns spp);
            die = u32 (sdie + off div pgs_per_oneshotpg spp mod dpz)
        in Some (zero_ppa\<lparr>p_lun := u8 (die_to_lun f die), p_ch := u8 (die_to_channel f die),
                          p_pg := u16 (off mod pgs_per_oneshotpg spp)\<rparr>) })"

lemma lpn_to_ppa_pos: "lpn_to_ppa f lpn = Some a \<Longrightarrow> 0 < pgs_per_oneshotpg (zspp f)"
  by (auto simp: lpn_to_ppa_def Let_def bind_eq_Some_conv)

text \<open>A NAND command of a loop, and the pages up to the end of a group of \<open>g\<close> pages.\<close>

definition znand :: "nat \<Rightarrow> nat \<Rightarrow> nat \<Rightarrow> ppa \<Rightarrow> nand_cmd" where
  "znand c xfer stime a = \<lparr>nc_type = USER_IO, nc_cmd = c, nc_xfer_size = xfer, nc_stime = stime, nc_interleave = False, nc_ppa = a\<rparr>"

definition zns_nand :: "nand_cmd \<Rightarrow> zns_ftl \<Rightarrow> (nat \<times> zns_ftl) option" where
  "zns_nand ncmd f = do { (t, s) \<leftarrow> ssd_advance_nand (zssd f) ncmd; Some (t, f\<lparr>zssd := s\<rparr>) }"

definition run_pgs :: "nat \<Rightarrow> nat \<Rightarrow> nat \<Rightarrow> nat" where
  "run_pgs g left pg = min left (g - pg mod g)"

lemma run_pgs_pos: "0 < g \<Longrightarrow> 0 < left \<Longrightarrow> 0 < run_pgs g left pg" "run_pgs g left pg \<le> left"
  by (simp_all add: run_pgs_def)

section \<open>Write\<close>

text \<open>The buffer that a write goes through: one for each zone, if they are configured, or the one of the device.\<close>

definition get_buffer :: "zns_buffer \<Rightarrow> zns_ftl \<Rightarrow> buffer option" where
  "get_buffer b f = (case b of Global_Buffer \<Rightarrow> Some (write_buffer (zssd f))
     | Zone_Buffer i \<Rightarrow> idx (zone_write_buffer f) i | Zrwa_Buffer i \<Rightarrow> idx (zrwa_buffer f) i)"

definition set_buffer :: "zns_buffer \<Rightarrow> buffer \<Rightarrow> zns_ftl \<Rightarrow> zns_ftl" where
  "set_buffer b v f = (case b of Global_Buffer \<Rightarrow> f\<lparr>zssd := (zssd f)\<lparr>write_buffer := v\<rparr>\<rparr>
     | Zone_Buffer i \<Rightarrow> f\<lparr>zone_write_buffer := (zone_write_buffer f)[i := v]\<rparr> | Zrwa_Buffer i \<Rightarrow> f\<lparr>zrwa_buffer := (zrwa_buffer f)[i := v]\<rparr>)"

definition zns_allocate :: "zns_buffer \<Rightarrow> nat \<Rightarrow> zns_ftl \<Rightarrow> (nat \<times> zns_ftl) option" where
  "zns_allocate b n f = do {
     v \<leftarrow> get_buffer b f;
     (granted, v) \<leftarrow> buffer_allocate v n;
     Some (granted, set_buffer b v f) }"

definition zns_release :: "zns_op \<Rightarrow> zns_ftl \<Rightarrow> zns_ftl option" where
  "zns_release p f = do {
     v \<leftarrow> get_buffer (zo_buffer p) f;
     Some (set_buffer (zo_buffer p) (buffer_release v (zo_release p)) f) }"

text \<open>The switch on the state of the zone: a status other than success ends the command.\<close>

definition write_open_closed :: "nat \<Rightarrow> zns_ftl \<Rightarrow> nat \<times> zns_ftl" where
  "write_open_closed zid f =
     (let (ok, f) = acquire_zone_resource f OPEN_ZONE
      in if \<not> ok then (NVME_SC_ZNS_NO_OPEN_ZONE, f) else (NVME_SC_SUCCESS, change_zone_state zid ZONE_STATE_OPENED_IMPL f))"

definition write_state :: "nat \<Rightarrow> nat \<Rightarrow> zone_descriptor \<Rightarrow> zns_ftl \<Rightarrow> nat \<times> zns_ftl" where
  "write_state zid slba z f = (case zd_state z of
     ZONE_STATE_EMPTY \<Rightarrow>
       if slba \<noteq> zslba z then (NVME_SC_ZNS_INVALID_WRITE, f)
       else if is_zone_resource_full f ACTIVE_ZONE then (NVME_SC_ZNS_NO_ACTIVE_ZONE, f)
       else if is_zone_resource_full f OPEN_ZONE then (NVME_SC_ZNS_NO_OPEN_ZONE, f)
       else write_open_closed zid (snd (acquire_zone_resource f ACTIVE_ZONE))
   | ZONE_STATE_CLOSED \<Rightarrow> write_open_closed zid f
   | ZONE_STATE_OPENED_IMPL \<Rightarrow> (NVME_SC_SUCCESS, f)
   | ZONE_STATE_OPENED_EXPL \<Rightarrow> (NVME_SC_SUCCESS, f)
   | ZONE_STATE_FULL \<Rightarrow> (NVME_SC_ZNS_ERR_FULL, f)
   | ZONE_STATE_READ_ONLY \<Rightarrow> (NVME_SC_ZNS_ERR_READ_ONLY, f)
   | ZONE_STATE_OFFLINE \<Rightarrow> (NVME_SC_ZNS_ERR_OFFLINE, f))"

text \<open>The checks before the switch.\<close>

definition write_check :: "ssd_config \<Rightarrow> nat \<Rightarrow> nat \<Rightarrow> zone_descriptor \<Rightarrow> zns_ftl \<Rightarrow> nat" where
  "write_check cfg slba nr_lba z f =
     (if LBA_TO_BYTE cfg nr_lba mod write_unit_size (zspp f) \<noteq> 0 then NVME_SC_ZNS_INVALID_WRITE
      else if \<not> check_boundary_error f slba nr_lba then NVME_SC_ZNS_ERR_BOUNDARY
      else if slba \<noteq> zwp z then NVME_SC_ZNS_INVALID_WRITE
      else NVME_SC_SUCCESS)"

text \<open>The loop over the pages: a wordline is programmed when its last page, or the last page of the zone, is written.\<close>

definition release_bytes :: "nat \<Rightarrow> nat \<Rightarrow> zns_ftl \<Rightarrow> nat" where
  "release_bytes lpn zone_elpn f =
     (let wl = pgs_per_oneshotpg (zspp f) * pgsz (zspp f); unaligned_space = u32 (zone_size (zp f) mod wl)
      in if lpn = zone_elpn \<and> 0 < unaligned_space then unaligned_space else wl)"

function write_loop :: "nat \<Rightarrow> zns_buffer \<Rightarrow> nat \<Rightarrow> nat \<Rightarrow> nat \<Rightarrow> nat \<Rightarrow> nat \<Rightarrow> zns_op list \<Rightarrow> zns_ftl \<Rightarrow>
    (nat \<times> zns_op list \<times> zns_ftl) option" where
  "write_loop sqid buf stime zone_elpn elpn lpn latest ops f =
     (if elpn < lpn then Some (latest, ops, f)
      else do {
        a \<leftarrow> lpn_to_ppa f lpn;
        let one = pgs_per_oneshotpg (zspp f); pgs = run_pgs one (elpn - lpn + 1) (p_pg a)
        in do {
          (latest, ops, f) \<leftarrow>
            (if p_pg a mod one + pgs = one \<or> lpn + pgs - 1 = zone_elpn
             then do {
               (t, f) \<leftarrow> zns_nand (znand NAND_WRITE (one * pgsz (zspp f)) stime a) f;
               Some (max t latest, ops @ [\<lparr>zo_sqid = sqid, zo_nsecs = t, zo_buffer = buf,
                       zo_release = release_bytes (lpn + pgs - 1) zone_elpn f\<rparr>], f) }
             else Some (latest, ops, f));
          write_loop sqid buf stime zone_elpn elpn (lpn + pgs) latest ops f } })"
  by pat_completeness auto
termination
proof (relation "measure (\<lambda>(sqid, buf, stime, zone_elpn, elpn, lpn, latest, ops, f). elpn + 1 - lpn)", goal_cases)
  case (2 sqid buf stime zone_elpn elpn lpn latest ops f a one pgs)
  then have "0 < pgs" using run_pgs_pos(1) [OF lpn_to_ppa_pos [OF 2(2)], of "elpn - lpn + 1" "p_pg a"] by simp
  then show ?case using 2(1) by simp
qed simp

declare write_loop.simps [simp del]

definition set_slba :: "nat \<Rightarrow> nvme_command \<Rightarrow> nvme_command" where
  "set_slba v c = c\<lparr>cdw10 := u32 v, cdw11 := v div 2 ^ 32\<rparr>"

definition write_result :: "nvme_command \<Rightarrow> zns_ftl \<Rightarrow> nat \<Rightarrow> nat \<Rightarrow> nat \<Rightarrow> nvmev_result" where
  "write_result c f st latest xfer_completed = \<lparr>rs_status = st,
     rs_nsecs_target = (if rw_fua c \<or> \<not> write_early_completion (zspp f) then latest else xfer_completed)\<rparr>"

definition zns_write_plain :: "ssd_config \<Rightarrow> zns_ftl \<Rightarrow> nvmev_request \<Rightarrow>
    (nvmev_result option \<times> zns_op list \<times> nvme_command \<times> zns_ftl) option" where
  "zns_write_plain cfg f req =
     (let c = rq_cmd req; nr_lba = rw_length c + 1; start = rq_nsecs_start req; zid = lba_to_zone f (rw_slba c)
      in do {
        z \<leftarrow> idx (zone_descs f) zid;
        let slba = (if opcode c = nvme_cmd_zone_append then zwp z else rw_slba c);
            c = (if opcode c = nvme_cmd_zone_append then set_slba (zwp z) c else c);
            slpn = lba_to_lpn f slba; elpn = lba_to_lpn f (sub64 (slba + nr_lba) 1); zone_elpn = zone_to_elpn f zid;
            buf = (if zone_wb_size (zp f) \<noteq> 0 then Zone_Buffer zid else Global_Buffer)
        in do {
          NVMEV_ASSERT (secs_per_pg (zspp f) \<noteq> 0);
          (granted, f) \<leftarrow> zns_allocate buf (LBA_TO_BYTE cfg nr_lba) f;
          if granted < LBA_TO_BYTE cfg nr_lba then Some (None, [], c, f)
          else do {
            NVMEV_ASSERT (write_unit_size (zspp f) \<noteq> 0);
            let (st, f) = (case write_check cfg slba nr_lba z f of st \<Rightarrow>
                             if st \<noteq> NVME_SC_SUCCESS then (st, f) else write_state zid slba z f)
            in if st \<noteq> NVME_SC_SUCCESS then Some (Some (write_result c f st start start), [], c, f)
               else do {
                 f \<leftarrow> increase_write_ptr zid nr_lba f;
                 (xfer_completed, s) \<leftarrow> ssd_advance_write_buffer (zssd f) start (LBA_TO_BYTE cfg nr_lba);
                 (latest, ops, f) \<leftarrow> write_loop (rq_sq_id req) buf xfer_completed zone_elpn elpn slpn xfer_completed [] (f\<lparr>zssd := s\<rparr>);
                 Some (Some (write_result c f NVME_SC_SUCCESS latest xfer_completed), ops, c, f) } } } })"

section \<open>Write to a zone with a random write area\<close>

definition zrwa_state :: "nat \<Rightarrow> zone_descriptor \<Rightarrow> zns_ftl \<Rightarrow> (nat \<times> zns_ftl) option" where
  "zrwa_state zid z f = (case zd_state z of
     ZONE_STATE_OPENED_IMPL \<Rightarrow> Some (NVME_SC_SUCCESS, f)
   | ZONE_STATE_OPENED_EXPL \<Rightarrow> Some (NVME_SC_SUCCESS, f)
   | ZONE_STATE_FULL \<Rightarrow> Some (NVME_SC_ZNS_ERR_FULL, f)
   | ZONE_STATE_READ_ONLY \<Rightarrow> Some (NVME_SC_ZNS_ERR_READ_ONLY, f)
   | ZONE_STATE_OFFLINE \<Rightarrow> Some (NVME_SC_ZNS_ERR_OFFLINE, f)
   | _ \<Rightarrow> (let (ok, f) = acquire_zone_resource f OPEN_ZONE
       in if \<not> ok then Some (NVME_SC_ZNS_NO_OPEN_ZONE, f)
          else do {
            (granted, f) \<leftarrow> zns_allocate (Zrwa_Buffer zid) (zrwa_size (zp f)) f;
            NVMEV_ASSERT (granted \<noteq> 0);
            Some (NVME_SC_SUCCESS, change_zone_state zid ZONE_STATE_OPENED_IMPL f) }))"

function zrwa_loop :: "nat \<Rightarrow> nat \<Rightarrow> nat \<Rightarrow> nat \<Rightarrow> nat \<Rightarrow> nat \<Rightarrow> zns_op list \<Rightarrow> zns_ftl \<Rightarrow> (nat \<times> zns_op list \<times> zns_ftl) option" where
  "zrwa_loop sqid zid stime remaining lpn latest ops f =
     (if remaining = 0 then Some (latest, ops, f)
      else do {
        a \<leftarrow> lpn_to_ppa f lpn;
        let one = pgs_per_oneshotpg (zspp f); pgs = run_pgs one remaining (p_pg a)
        in do {
          (latest, ops, f) \<leftarrow>
            (if p_pg a mod one + pgs = one
             then do {
               (t, f) \<leftarrow> zns_nand (znand NAND_WRITE (one * pgsz (zspp f)) stime a) f;
               Some (max t latest, ops @ [\<lparr>zo_sqid = sqid, zo_nsecs = t, zo_buffer = Zrwa_Buffer zid,
                       zo_release = one * pgsz (zspp f)\<rparr>], f) }
             else Some (latest, ops, f));
          zrwa_loop sqid zid stime (remaining - pgs) (lpn + pgs) latest ops f } })"
  by pat_completeness auto
termination
proof (relation "measure (\<lambda>(sqid, zid, stime, remaining, lpn, latest, ops, f). remaining)", goal_cases)
  case (2 sqid zid stime remaining lpn latest ops f a one pgs)
  then have "0 < pgs" using run_pgs_pos(1) [OF lpn_to_ppa_pos [OF 2(2)], of remaining "p_pg a"] by simp
  then show ?case using 2(1) by simp
qed simp

declare zrwa_loop.simps [simp del]

text \<open>The blocks to flush: up to the end of the last flush group that the write reaches behind the random write area, or the whole area at the end of the zone. \<open>prev_wp\<close>
  is the write pointer before.\<close>

definition nr_lbas_flush :: "nat \<Rightarrow> nat \<Rightarrow> nat \<Rightarrow> zns_ftl \<Rightarrow> nat option" where
  "nr_lbas_flush zid prev_wp elba f =
     (let impl_start = u64 (prev_wp + lbas_per_zrwa (zp f)); fg = lbas_per_zrwafg (zp f)
      in if impl_start \<le> elba then do {
           NVMEV_ASSERT (fg \<noteq> 0);
           Some (u64 (DIV_ROUND_UP (u64 (sub64 elba impl_start + 1)) fg * fg)) }
         else if elba = zone_to_elba f zid then Some (u64 (sub64 elba prev_wp + 1))
         else Some 0)"

definition zrwa_check :: "ssd_config \<Rightarrow> nat \<Rightarrow> nat \<Rightarrow> zone_descriptor \<Rightarrow> zns_ftl \<Rightarrow> nat" where
  "zrwa_check cfg slba nr_lba z f =
     (if LBA_TO_BYTE cfg nr_lba mod write_unit_size (zspp f) \<noteq> 0 then NVME_SC_ZNS_INVALID_WRITE
      else if \<not> check_boundary_error f slba nr_lba then NVME_SC_ZNS_ERR_BOUNDARY
      else if slba < zwp z \<or> sub64 (zwp z + u32 (2 * lbas_per_zrwa (zp f))) 1 < sub64 (slba + nr_lba) 1 then NVME_SC_ZNS_INVALID_WRITE
      else NVME_SC_SUCCESS)"

definition zrwa_begin :: "ssd_config \<Rightarrow> nat \<Rightarrow> nat \<Rightarrow> nat \<Rightarrow> zone_descriptor \<Rightarrow> zns_ftl \<Rightarrow> (nat \<times> zns_ftl) option" where
  "zrwa_begin cfg zid slba nr_lba z f =
     (case zrwa_check cfg slba nr_lba z f of st \<Rightarrow> if st \<noteq> NVME_SC_SUCCESS then Some (st, f) else zrwa_state zid z f)"

text \<open>Taking the buffer of the blocks to flush and moving the write pointer over them; \<open>False\<close> if there is no room.\<close>

definition zrwa_advance :: "ssd_config \<Rightarrow> nat \<Rightarrow> nat \<Rightarrow> zns_ftl \<Rightarrow> (bool \<times> zns_ftl) option" where
  "zrwa_advance cfg zid n f =
     (if 0 < n then do {
        (granted, f) \<leftarrow> zns_allocate (Zrwa_Buffer zid) (LBA_TO_BYTE cfg n) f;
        if granted = 0 then Some (False, f) else do { f \<leftarrow> increase_write_ptr zid n f; Some (True, f) } }
      else Some (True, f))"

definition zrwa_run :: "ssd_config \<Rightarrow> nvmev_request \<Rightarrow> nat \<Rightarrow> nat \<Rightarrow> nat \<Rightarrow> zns_ftl \<Rightarrow> (nvmev_result \<times> zns_op list \<times> zns_ftl) option" where
  "zrwa_run cfg req zid prev_wp n f = do {
     (xfer_completed, s) \<leftarrow> ssd_advance_write_buffer (zssd f) (rq_nsecs_start req) (LBA_TO_BYTE cfg (rw_length (rq_cmd req) + 1));
     NVMEV_ASSERT (secs_per_pg (zspp f) \<noteq> 0);
     (latest, ops, f) \<leftarrow> zrwa_loop (rq_sq_id req) zid xfer_completed (n div secs_per_pg (zspp f)) (lba_to_lpn f prev_wp) xfer_completed []
       (f\<lparr>zssd := s\<rparr>);
     Some (write_result (rq_cmd req) f NVME_SC_SUCCESS latest xfer_completed, ops, f) }"

definition zns_write_zrwa :: "ssd_config \<Rightarrow> zns_ftl \<Rightarrow> nvmev_request \<Rightarrow>
    (nvmev_result option \<times> zns_op list \<times> nvme_command \<times> zns_ftl) option" where
  "zns_write_zrwa cfg f req =
     (let c = rq_cmd req; slba = rw_slba c; nr_lba = rw_length c + 1; start = rq_nsecs_start req; zid = lba_to_zone f slba
      in do {
        z \<leftarrow> idx (zone_descs f) zid;
        NVMEV_ASSERT (write_unit_size (zspp f) \<noteq> 0);
        (st, f) \<leftarrow> zrwa_begin cfg zid slba nr_lba z f;
        if st \<noteq> NVME_SC_SUCCESS then Some (Some (write_result c f st start start), [], c, f)
        else do {
          n \<leftarrow> nr_lbas_flush zid (zwp z) (sub64 (slba + nr_lba) 1) f;
          (ok, f) \<leftarrow> zrwa_advance cfg zid n f;
          if \<not> ok then Some (None, [], c, f)
          else do {
            (r, ops, f) \<leftarrow> zrwa_run cfg req zid (zwp z) n f;
            Some (Some r, ops, c, f) } } })"

definition zns_write :: "ssd_config \<Rightarrow> zns_ftl \<Rightarrow> nvmev_request \<Rightarrow>
    (nvmev_result option \<times> zns_op list \<times> nvme_command \<times> zns_ftl) option" where
  "zns_write cfg f req = do {
     NVMEV_ASSERT (secs_per_pg (zspp f) \<noteq> 0 \<and> lpns_per_zone f \<noteq> 0 \<and> lbas_per_zone f \<noteq> 0);
     z \<leftarrow> idx (zone_descs f) (lpn_to_zone f (lba_to_lpn f (rw_slba (rq_cmd req))));
     if \<not> zrwav z then zns_write_plain cfg f req else zns_write_zrwa cfg f req }"

section \<open>Read\<close>

function read_loop :: "nat \<Rightarrow> nat \<Rightarrow> nat \<Rightarrow> nat \<Rightarrow> zns_ftl \<Rightarrow> (nat \<times> zns_ftl) option" where
  "read_loop stime elpn lpn latest f =
     (if elpn < lpn then Some (latest, f)
      else do {
        a \<leftarrow> lpn_to_ppa f lpn;
        NVMEV_ASSERT (pgs_per_flashpg (zspp f) \<noteq> 0);
        let pgs = run_pgs (pgs_per_flashpg (zspp f)) (elpn - lpn + 1) (p_pg a)
        in do {
          (t, f) \<leftarrow> zns_nand (znand NAND_READ (pgs * pgsz (zspp f)) stime a) f;
          read_loop stime elpn (lpn + pgs) (max t latest) f } })"
  by pat_completeness auto
termination
proof (relation "measure (\<lambda>(stime, elpn, lpn, latest, f). elpn + 1 - lpn)", goal_cases)
  case (2 stime elpn lpn latest f a u pgs)
  then have "0 < pgs" using run_pgs_pos(1) [of "pgs_per_flashpg (zspp f)" "elpn - lpn + 1" "p_pg a"] by simp
  then show ?case using 2(1) by simp
qed simp

declare read_loop.simps [simp del]

text \<open>The timing of a read does not depend on its status.\<close>

definition zns_read :: "ssd_config \<Rightarrow> zns_ftl \<Rightarrow> nvmev_request \<Rightarrow> (nvmev_result \<times> zns_ftl) option" where
  "zns_read cfg f req =
     (let c = rq_cmd req; slba = rw_slba c; nr_lba = rw_length c + 1; spp = zspp f
      in do {
        NVMEV_ASSERT (secs_per_pg spp \<noteq> 0 \<and> lpns_per_zone f \<noteq> 0 \<and> lbas_per_zone f \<noteq> 0);
        z \<leftarrow> idx (zone_descs f) (lpn_to_zone f (lba_to_lpn f slba));
        let st = (if zd_state z = ZONE_STATE_OFFLINE then NVME_SC_ZNS_ERR_OFFLINE
                  else if \<not> check_boundary_error f slba nr_lba then NVME_SC_ZNS_ERR_BOUNDARY else NVME_SC_SUCCESS);
            stime = rq_nsecs_start req + (if LBA_TO_BYTE cfg nr_lba \<le> KB 4 then fw_4kb_rd_lat spp else fw_rd_lat spp)
        in do {
          (latest, f) \<leftarrow> read_loop stime (lba_to_lpn f (sub64 (slba + nr_lba) 1)) (lba_to_lpn f slba) stime f;
          (t, s) \<leftarrow> ssd_advance_pcie (zssd f) latest (nr_lba * secsz spp);
          Some (\<lparr>rs_status = st, rs_nsecs_target = max t latest\<rparr>, f\<lparr>zssd := s\<rparr>) } })"

section \<open>Dispatch\<close>

text \<open>The value returned, the result, the operations, the command and the namespace. A command that is not implemented leaves the result \<open>ret\<close>.\<close>

definition zns_proc_nvme_io_cmd :: "ssd_config \<Rightarrow> zns_ns \<Rightarrow> nvmev_request \<Rightarrow> nvmev_result \<Rightarrow>
    (bool \<times> nvmev_result \<times> zns_op list \<times> nvme_command \<times> zns_ns) option" where
  "zns_proc_nvme_io_cmd cfg ns req ret = do {
     NVMEV_ASSERT (z_csi ns = NVME_CSI_ZNS);
     NVMEV_ASSERT (z_nr_parts ns = 1);
     let c = rq_cmd req; opc = opcode c
     in if opc = nvme_cmd_write \<or> opc = nvme_cmd_zone_append then do {
          (r, ops, c, f) \<leftarrow> zns_write cfg (zftl ns) req;
          Some (case r of None \<Rightarrow> (False, ret, ops, c, ns\<lparr>zftl := f\<rparr>) | Some r \<Rightarrow> (True, r, ops, c, ns\<lparr>zftl := f\<rparr>)) }
        else if opc = nvme_cmd_read then do {
          (r, f) \<leftarrow> zns_read cfg (zftl ns) req;
          Some (True, r, [], c, ns\<lparr>zftl := f\<rparr>) }
        else if opc = nvme_cmd_flush then do {
          (r, ns) \<leftarrow> zns_flush ns;
          Some (True, r, [], c, ns) }
        else if opc = nvme_cmd_zone_mgmt_send then do {
          (r, f) \<leftarrow> zns_zmgmt_send (zftl ns) req;
          Some (True, r, [], c, ns\<lparr>zftl := f\<rparr>) }
        else if opc = nvme_cmd_zone_mgmt_recv then do {
          (r, f) \<leftarrow> zns_zmgmt_recv (zftl ns) req;
          Some (True, r, [], c, ns\<lparr>zftl := f\<rparr>) }
        else Some (True, ret, [], c, ns) }"

end
