(* ===== verification/Zns_Laws.thy ===== *)
theory Zns_Laws
  imports Zns_Io Ssd_Laws
begin

text \<open>
  The invariant of the zoned FTL: the descriptors describe consecutive zones of equal size, the write pointer of a zone without random
  write area stays in it, a zone that can be written has room, and the counters of active and open zones count them. Every
  operation keeps it; the state machine of a zone is stated as a table (\<open>zone_next\<close>).
\<close>

section \<open>Counting zones\<close>

definition cnt :: "('a \<Rightarrow> bool) \<Rightarrow> 'a list \<Rightarrow> nat" where "cnt P xs = length (filter P xs)"

lemma cnt_le: "cnt P xs \<le> length xs"
  by (simp add: cnt_def)

lemma cnt_upd: "i < length xs \<Longrightarrow> cnt P (xs[i := z]) + of_bool (P (xs ! i)) = cnt P xs + of_bool (P z)"
proof -
  assume i: "i < length xs"
  have "xs = take i xs @ xs ! i # drop (Suc i) xs" by (rule id_take_nth_drop [OF i])
  then have "cnt P xs = cnt P (take i xs @ xs ! i # drop (Suc i) xs)" by (rule arg_cong)
  moreover have "xs[i := z] = take i xs @ z # drop (Suc i) xs" by (rule upd_conv_take_nth_drop [OF i])
  ultimately show ?thesis by (simp add: cnt_def)
qed

lemma cnt_pos: "i < length xs \<Longrightarrow> P (xs ! i) \<Longrightarrow> 0 < cnt P xs"
  by (auto simp: cnt_def filter_empty_conv length_greater_0_conv [symmetric] simp del: length_greater_0_conv)

lemma cnt_less: "i < length xs \<Longrightarrow> \<not> P (xs ! i) \<Longrightarrow> cnt P xs < length xs"
  unfolding cnt_def by (rule length_filter_less [of "xs ! i"]) auto

lemma cnt_mono: "(\<And>x. x \<in> set xs \<Longrightarrow> P x \<Longrightarrow> Q x) \<Longrightarrow> cnt P xs \<le> cnt Q xs"
  unfolding cnt_def by (induction xs) auto

section \<open>Invariant\<close>

definition opened :: "zone_descriptor \<Rightarrow> bool" where
  "opened z \<longleftrightarrow> zd_state z = ZONE_STATE_OPENED_IMPL \<or> zd_state z = ZONE_STATE_OPENED_EXPL"

definition active :: "zone_descriptor \<Rightarrow> bool" where
  "active z \<longleftrightarrow> opened z \<or> zd_state z = ZONE_STATE_CLOSED"

definition zone_ok :: "nat \<Rightarrow> nat \<Rightarrow> zone_descriptor \<Rightarrow> bool" where
  "zone_ok n i z \<longleftrightarrow> zslba z = i * n \<and> zone_capacity z = n \<and> zd_type z = ZONE_TYPE_SEQ_WRITE_REQUIRED \<and>
     zd_state z \<noteq> ZONE_STATE_READ_ONLY \<and> zd_state z \<noteq> ZONE_STATE_OFFLINE \<and>
     (zd_state z = ZONE_STATE_EMPTY \<longrightarrow> \<not> zrwav z \<and> zwp z = zslba z) \<and>
     (\<not> zrwav z \<longrightarrow> zslba z \<le> zwp z \<and> zwp z \<le> zslba z + n \<and> (zd_state z \<noteq> ZONE_STATE_FULL \<longrightarrow> zwp z < zslba z + n))"

text \<open>The geometry: the arithmetic does not overflow, and each die that a page is placed on exists.\<close>

definition znand_ok :: "zns_ftl \<Rightarrow> bool" where
  "znand_ok f \<longleftrightarrow> tm_inv (zssd f) \<and> 0 < nchs (zspp f) \<and> nchs (zspp f) \<le> 2 ^ 8 \<and> luns_per_ch (zspp f) \<le> 2 ^ 8 \<and>
     tt_luns (zspp f) = luns_per_ch (zspp f) * nchs (zspp f) \<and> 0 < dies_per_zone (zp f) \<and> dies_per_zone (zp f) dvd luns_per_ch (zspp f) * nchs (zspp f) \<and>
     0 < luns_per_ch (zspp f) \<and> 0 < pgs_per_oneshotpg (zspp f) \<and> pgs_per_oneshotpg (zspp f) \<le> 2 ^ 16 \<and>
     (\<forall>c < nchs (zspp f). \<forall>l < luns_per_ch (zspp f). get_lun (zssd f) (zero_ppa\<lparr>p_ch := c, p_lun := l\<rparr>) \<noteq> None)"

definition zgeo :: "zns_ftl \<Rightarrow> bool" where
  "zgeo f \<longleftrightarrow> 0 < secsz (zspp f) \<and> 0 < secs_per_pg (zspp f) \<and> pgsz (zspp f) = secsz (zspp f) * secs_per_pg (zspp f) \<and>
     0 < zone_size (zp f) \<and> zone_size (zp f) mod (secsz (zspp f) * secs_per_pg (zspp f)) = 0 \<and> zone_size (zp f) < 2 ^ 32 \<and> nr_zones (zp f) * lbas_per_zone f < 2 ^ 32 \<and>
     nr_zones (zp f) < 2 ^ 32 - 1 \<and> 0 < write_unit_size (zspp f) \<and>
     length (report_buffer f) = 64 * (nr_zones (zp f) + 2) \<and>
     (zone_wb_size (zp f) \<noteq> 0 \<longrightarrow> length (zone_write_buffer f) = nr_zones (zp f)) \<and>
     (zrwa_buffer_size (zp f) \<noteq> 0 \<longrightarrow> length (zrwa_buffer f) = nr_zones (zp f)) \<and> znand_ok f"

definition res_ok :: "zns_ftl \<Rightarrow> bool" where
  "res_ok f \<longleftrightarrow> (\<forall>t. total_cnt (res_infos f t) = nr_zones (zp f)) \<and>
     acquired_cnt (res_infos f ACTIVE_ZONE) = cnt active (zone_descs f) \<and>
     acquired_cnt (res_infos f OPEN_ZONE) = cnt opened (zone_descs f) \<and>
     cnt (\<lambda>z. active z \<and> zrwav z) (zone_descs f) \<le> acquired_cnt (res_infos f ZRWA_ZONE) \<and>
     acquired_cnt (res_infos f ZRWA_ZONE) \<le> nr_zones (zp f)"

definition zinv :: "zns_ftl \<Rightarrow> bool" where
  "zinv f \<longleftrightarrow> zgeo f \<and> res_ok f \<and> length (zone_descs f) = nr_zones (zp f) \<and>
     (\<forall>i < nr_zones (zp f). zone_ok (lbas_per_zone f) i (zone_descs f ! i))"

lemma zinvD:
  assumes "zinv f"
  shows "zgeo f" "res_ok f" "length (zone_descs f) = nr_zones (zp f)" "\<And>i. i < nr_zones (zp f) \<Longrightarrow> zone_ok (lbas_per_zone f) i (zone_descs f ! i)"
  using assms by (auto simp: zinv_def)

lemma zgeo_pos:
  assumes "zgeo f"
  shows "0 < lbas_per_zone f" "0 < lpns_per_zone f" "lbas_per_zone f = lpns_per_zone f * secs_per_pg (zspp f)"
    "lbas_per_zone f \<le> zone_size (zp f)" "lpns_per_zone f \<le> lbas_per_zone f"
proof -
  obtain k where k: "zone_size (zp f) = secsz (zspp f) * secs_per_pg (zspp f) * k" using assms by (auto simp: zgeo_def mod_eq_0_iff_dvd dvd_def)
  have p: "0 < secsz (zspp f)" "0 < secs_per_pg (zspp f)" "pgsz (zspp f) = secsz (zspp f) * secs_per_pg (zspp f)" "0 < zone_size (zp f)"
    using assms by (simp_all add: zgeo_def)
  then have "0 < k" using k by (cases k) auto
  moreover have "lpns_per_zone f = k" using k p by (simp add: lpns_per_zone_def)
  moreover have "lbas_per_zone f = secs_per_pg (zspp f) * k" using k p by (simp add: lbas_per_zone_def mult.assoc)
  ultimately show "0 < lbas_per_zone f" "0 < lpns_per_zone f" "lbas_per_zone f = lpns_per_zone f * secs_per_pg (zspp f)" "lpns_per_zone f \<le> lbas_per_zone f"
    using p by simp_all
  show "lbas_per_zone f \<le> zone_size (zp f)" by (simp add: lbas_per_zone_def)
qed

text \<open>The zone of a block, and the first and last block of a zone.\<close>

lemma lba_zone:
  assumes "zgeo f" "zid < nr_zones (zp f)" "zid * lbas_per_zone f \<le> lba" "lba < zid * lbas_per_zone f + lbas_per_zone f"
  shows "lba_to_zone f lba = zid"
proof -
  have "lba div lbas_per_zone f = zid"
    by (rule div_nat_eqI) (use assms(3,4) in \<open>simp_all add: mult.commute add.commute\<close>)
  moreover have "zid < 2 ^ 32" using assms(1,2) by (simp add: zgeo_def)
  ultimately show ?thesis by (simp add: lba_to_zone_def)
qed

lemma zone_end: "zgeo f \<Longrightarrow> zid < nr_zones (zp f) \<Longrightarrow> zid * lbas_per_zone f + lbas_per_zone f < 2 ^ 32"
proof -
  assume g: "zgeo f" and z: "zid < nr_zones (zp f)"
  have "Suc zid * lbas_per_zone f \<le> nr_zones (zp f) * lbas_per_zone f" using z by (intro mult_le_mono1) simp
  then show ?thesis using g by (simp add: zgeo_def)
qed

lemma zone_slba: "zgeo f \<Longrightarrow> zid < nr_zones (zp f) \<Longrightarrow> zone_to_slba f zid = zid * lbas_per_zone f"
  using zone_end [of f zid] by (simp add: zone_to_slba_def)

lemma zone_slba_zone: "zgeo f \<Longrightarrow> zid < nr_zones (zp f) \<Longrightarrow> lba_to_zone f (zone_to_slba f zid) = zid"
  using zgeo_pos(1) by (simp add: zone_slba lba_zone)

lemma zone_elba: "zgeo f \<Longrightarrow> zid < nr_zones (zp f) \<Longrightarrow> zone_to_elba f zid = zid * lbas_per_zone f + lbas_per_zone f - 1"
proof -
  assume g: "zgeo f" and z: "zid < nr_zones (zp f)"
  have e: "zid * lbas_per_zone f + lbas_per_zone f < 2 ^ 32" "0 < lbas_per_zone f" using zone_end [OF g z] zgeo_pos(1) [OF g] by simp_all
  have "zid + 1 < 2 ^ 32" using g z by (simp add: zgeo_def)
  then have "zone_to_slba f (u32 (zid + 1)) = zid * lbas_per_zone f + lbas_per_zone f" using e(1) by (simp add: zone_to_slba_def add.commute)
  then show ?thesis using e by (simp add: zone_to_elba_def sub64_le)
qed

section \<open>What an operation leaves unchanged\<close>

lemma upd_simps [simp, frame_simps]:
  "zssd (upd_zone zid g f) = zssd f" "zp (upd_zone zid g f) = zp f" "res_infos (upd_zone zid g f) = res_infos f"
  "report_buffer (upd_zone zid g f) = report_buffer f" "zone_write_buffer (upd_zone zid g f) = zone_write_buffer f"
  "zrwa_buffer (upd_zone zid g f) = zrwa_buffer f" "storage_base_addr (upd_zone zid g f) = storage_base_addr f"
  "zmem (upd_zone zid g f) = zmem f" "zspp (upd_zone zid g f) = zspp f" "lbas_per_zone (upd_zone zid g f) = lbas_per_zone f"
  "zssd (upd_res h t f) = zssd f" "zp (upd_res h t f) = zp f" "zone_descs (upd_res h t f) = zone_descs f"
  "report_buffer (upd_res h t f) = report_buffer f" "zone_write_buffer (upd_res h t f) = zone_write_buffer f"
  "zrwa_buffer (upd_res h t f) = zrwa_buffer f" "storage_base_addr (upd_res h t f) = storage_base_addr f"
  "zmem (upd_res h t f) = zmem f" "zspp (upd_res h t f) = zspp f" "lbas_per_zone (upd_res h t f) = lbas_per_zone f"
  by (simp_all add: upd_zone_def upd_res_def zspp_def lbas_per_zone_def)

lemma upd_zone_descs: "zid < length (zone_descs f) \<Longrightarrow> zone_descs (upd_zone zid g f) = (zone_descs f)[zid := g (zone_descs f ! zid)]"
  by (simp add: upd_zone_def modl_def)

lemma upd_res_infos: "res_infos (upd_res h t f) = (res_infos f)(t := (res_infos f t)\<lparr>acquired_cnt := h (acquired_cnt (res_infos f t))\<rparr>)"
  by (simp add: upd_res_def)

text \<open>All but zones, resources, storage and the contents of buffers.\<close>

definition zkeep :: "zns_ftl \<Rightarrow> zns_ftl \<Rightarrow> bool" where
  "zkeep f f' \<longleftrightarrow> zp f' = zp f \<and> same_nand (zssd f) ((zssd f')\<lparr>write_buffer := write_buffer (zssd f)\<rparr>) \<and> (tm_inv (zssd f) \<longrightarrow> tm_inv (zssd f')) \<and>
     length (report_buffer f') = length (report_buffer f) \<and> length (zone_write_buffer f') = length (zone_write_buffer f) \<and>
     length (zrwa_buffer f') = length (zrwa_buffer f) \<and> storage_base_addr f' = storage_base_addr f"

lemma get_lun_wbuf [simp]: "get_lun (s\<lparr>write_buffer := b\<rparr>) a = get_lun s a"
  by (simp add: get_lun_def get_ch_def)

lemma get_blk_wbuf [simp]: "get_blk (s\<lparr>write_buffer := b\<rparr>) a = get_blk s a"
  by (simp add: get_blk_def get_pl_def)

lemma zkeep_refl [simp]: "zkeep f f"
  by (simp add: zkeep_def)

lemma zkeep_trans: "zkeep f g \<Longrightarrow> zkeep g h \<Longrightarrow> zkeep f h"
  by (auto simp: zkeep_def same_nand_def)

lemma zkeep_geo:
  assumes "zkeep f f'" "zgeo f"
  shows "zgeo f'" "zspp f' = zspp f" "lbas_per_zone f' = lbas_per_zone f"
proof -
  show s: "zspp f' = zspp f" using assms(1) by (auto simp: zkeep_def same_nand_def zspp_def)
  have p: "zp f' = zp f" using assms(1) by (simp add: zkeep_def)
  show l: "lbas_per_zone f' = lbas_per_zone f" by (simp add: lbas_per_zone_def s p)
  have "\<forall>a. get_lun (zssd f') a = None \<longleftrightarrow> get_lun (zssd f) a = None" using assms(1) by (simp add: zkeep_def same_nand_def)
  moreover have "tm_inv (zssd f')" using assms by (simp add: zkeep_def zgeo_def znand_ok_def)
  moreover have "znand_ok f" using assms(2) by (simp add: zgeo_def)
  ultimately have "znand_ok f'" unfolding znand_ok_def s p by blast
  then show "zgeo f'" using assms unfolding zgeo_def s p l by (simp add: zkeep_def)
qed

lemma zkeep_simps [simp]: "zkeep f (upd_zone zid g f)" "zkeep f (upd_res h t f)"
  by (simp_all add: zkeep_def)

text \<open>The invariant after an operation on one zone: its descriptor is well-formed and the counters follow it.\<close>

lemma zinv_step:
  assumes "zinv f" "zkeep f f'" "zone_descs f' = (zone_descs f)[i := z]" "i < nr_zones (zp f)" "zone_ok (lbas_per_zone f) i z"
    and "\<forall>t. total_cnt (res_infos f' t) = total_cnt (res_infos f t)"
    and "acquired_cnt (res_infos f' ACTIVE_ZONE) + of_bool (active (zone_descs f ! i)) = acquired_cnt (res_infos f ACTIVE_ZONE) + of_bool (active z)"
    and "acquired_cnt (res_infos f' OPEN_ZONE) + of_bool (opened (zone_descs f ! i)) = acquired_cnt (res_infos f OPEN_ZONE) + of_bool (opened z)"
    and "acquired_cnt (res_infos f ZRWA_ZONE) + of_bool (active z \<and> zrwav z) \<le>
      acquired_cnt (res_infos f' ZRWA_ZONE) + of_bool (active (zone_descs f ! i) \<and> zrwav (zone_descs f ! i))"
    and "acquired_cnt (res_infos f' ZRWA_ZONE) \<le> nr_zones (zp f)"
  shows "zinv f'"
proof -
  note I = zinvD [OF assms(1)] and K = zkeep_geo [OF assms(2) zinvD(1) [OF assms(1)]]
  have p: "zp f' = zp f" using assms(2) by (simp add: zkeep_def)
  have i: "i < length (zone_descs f)" using assms(4) I(3) by simp
  note c = cnt_upd [OF i, of _ z]
  have "res_ok f'"
    using I(2) assms(6-10) c [of active] c [of opened] c [of "\<lambda>z. active z \<and> zrwav z"] by (simp add: res_ok_def p assms(3))
  moreover have "\<forall>j < nr_zones (zp f'). zone_ok (lbas_per_zone f') j (zone_descs f' ! j)"
    using I(3,4) assms(3-5) by (simp add: p K nth_list_update)
  ultimately show ?thesis using K(1) I(3) assms(3) by (simp add: zinv_def p)
qed

text \<open>The account of the random write areas: the zones that hold one, and the resources of this kind that have been lost between two states,
  taken and no longer held by any zone. Nothing is lost when the counter follows the zone of the operation.\<close>

definition zrwa_held :: "zns_ftl \<Rightarrow> nat" where
  "zrwa_held f = cnt (\<lambda>z. active z \<and> zrwav z) (zone_descs f)"

definition leaks :: "nat \<Rightarrow> zns_ftl \<Rightarrow> zns_ftl \<Rightarrow> bool" where
  "leaks k f f' \<longleftrightarrow> acquired_cnt (res_infos f' ZRWA_ZONE) + zrwa_held f = acquired_cnt (res_infos f ZRWA_ZONE) + zrwa_held f' + k"

lemma leaks_step:
  assumes "zone_descs f' = (zone_descs f)[i := z]" "i < length (zone_descs f)"
    and "acquired_cnt (res_infos f' ZRWA_ZONE) + of_bool (active (zone_descs f ! i) \<and> zrwav (zone_descs f ! i)) =
      acquired_cnt (res_infos f ZRWA_ZONE) + of_bool (active z \<and> zrwav z) + k"
  shows "leaks k f f'"
  using cnt_upd [OF assms(2), of "\<lambda>z. active z \<and> zrwav z" z] assms(1,3) by (simp add: leaks_def zrwa_held_def)

lemma leaks_same: "zone_descs f' = zone_descs f \<Longrightarrow> res_infos f' = res_infos f \<Longrightarrow> leaks 0 f f'"
  by (simp add: leaks_def zrwa_held_def)

lemma leaks_refl [simp]: "leaks 0 f f"
  by (simp add: leaks_def)

lemma leaks_trans: "leaks j f g \<Longrightarrow> leaks k g h \<Longrightarrow> leaks (j + k) f h"
  by (simp add: leaks_def)

lemma leaks_trans0: "leaks 0 f g \<Longrightarrow> leaks 0 g h \<Longrightarrow> leaks 0 f h"
  using leaks_trans [of 0 f g 0 h] by simp

text \<open>The zones with a random write area that an operation fills.\<close>

definition zrwa_fills :: "zns_ftl \<Rightarrow> zns_ftl \<Rightarrow> nat" where
  "zrwa_fills f f' = card {i. i < length (zone_descs f) \<and> active (zone_descs f ! i) \<and> zrwav (zone_descs f ! i) \<and>
     zd_state (zone_descs f' ! i) = ZONE_STATE_FULL}"

lemma active_not_full: "active z \<Longrightarrow> zd_state z \<noteq> ZONE_STATE_FULL"
  by (auto simp: active_def opened_def)

lemma zrwa_fills_upd:
  assumes "zone_descs f' = (zone_descs f)[i := z]" "i < length (zone_descs f)"
  shows "zrwa_fills f f' = of_bool (active (zone_descs f ! i) \<and> zrwav (zone_descs f ! i) \<and> zd_state z = ZONE_STATE_FULL)"
proof -
  have "{j. j < length (zone_descs f) \<and> active (zone_descs f ! j) \<and> zrwav (zone_descs f ! j) \<and> zd_state (zone_descs f' ! j) = ZONE_STATE_FULL} =
    (if active (zone_descs f ! i) \<and> zrwav (zone_descs f ! i) \<and> zd_state z = ZONE_STATE_FULL then {i} else {})"
    using assms active_not_full by (auto simp: nth_list_update split: if_splits)
  then show ?thesis by (simp add: zrwa_fills_def)
qed

lemma zrwa_fills_same: "zone_descs f' = zone_descs f \<Longrightarrow> zrwa_fills f f' = 0"
  using active_not_full by (auto simp: zrwa_fills_def)

text \<open>An operation that touches no zone and no resource.\<close>

lemma zinv_frame:
  "zinv f \<Longrightarrow> zkeep f f' \<Longrightarrow> zone_descs f' = zone_descs f \<Longrightarrow> res_infos f' = res_infos f \<Longrightarrow> zinv f'"
  using zkeep_geo [of f f'] by (auto simp: zinv_def res_ok_def zkeep_def)

text \<open>No resource that an operation asks for is ever exhausted, and none that it releases is 0.\<close>

lemma res_bounds:
  assumes "zinv f" "i < nr_zones (zp f)"
  shows "\<not> active (zone_descs f ! i) \<Longrightarrow> is_zone_resource_avail f ACTIVE_ZONE"
    "\<not> opened (zone_descs f ! i) \<Longrightarrow> is_zone_resource_avail f OPEN_ZONE"
    "active (zone_descs f ! i) \<Longrightarrow> 0 < acquired_cnt (res_infos f ACTIVE_ZONE)"
    "opened (zone_descs f ! i) \<Longrightarrow> 0 < acquired_cnt (res_infos f OPEN_ZONE)"
    "active (zone_descs f ! i) \<Longrightarrow> zrwav (zone_descs f ! i) \<Longrightarrow> 0 < acquired_cnt (res_infos f ZRWA_ZONE)"
    "acquired_cnt (res_infos f t) < 2 ^ 32 - 1"
proof -
  note I = zinvD [OF assms(1)]
  have i: "i < length (zone_descs f)" using assms(2) I(3) by simp
  have R: "total_cnt (res_infos f t) = nr_zones (zp f)" for t using I(2) by (simp add: res_ok_def)
  have A: "acquired_cnt (res_infos f ACTIVE_ZONE) = cnt active (zone_descs f)" "acquired_cnt (res_infos f OPEN_ZONE) = cnt opened (zone_descs f)"
    "cnt (\<lambda>z. active z \<and> zrwav z) (zone_descs f) \<le> acquired_cnt (res_infos f ZRWA_ZONE)" "acquired_cnt (res_infos f ZRWA_ZONE) \<le> nr_zones (zp f)"
    using I(2) by (simp_all add: res_ok_def)
  show "\<not> active (zone_descs f ! i) \<Longrightarrow> is_zone_resource_avail f ACTIVE_ZONE" "\<not> opened (zone_descs f ! i) \<Longrightarrow> is_zone_resource_avail f OPEN_ZONE"
    using cnt_less [OF i, of active] cnt_less [OF i, of opened] I(3) by (simp_all add: is_zone_resource_avail_def R A)
  show "active (zone_descs f ! i) \<Longrightarrow> 0 < acquired_cnt (res_infos f ACTIVE_ZONE)" "opened (zone_descs f ! i) \<Longrightarrow> 0 < acquired_cnt (res_infos f OPEN_ZONE)"
    using cnt_pos [OF i, of active] cnt_pos [OF i, of opened] by (simp_all add: A)
  show "active (zone_descs f ! i) \<Longrightarrow> zrwav (zone_descs f ! i) \<Longrightarrow> 0 < acquired_cnt (res_infos f ZRWA_ZONE)"
    using cnt_pos [OF i, of "\<lambda>z. active z \<and> zrwav z"] A(3) by simp
  have "acquired_cnt (res_infos f t) \<le> nr_zones (zp f)"
    using cnt_le [of active "zone_descs f"] cnt_le [of opened "zone_descs f"] I(3) A by (cases t) simp_all
  then show "acquired_cnt (res_infos f t) < 2 ^ 32 - 1" using I(1) by (simp add: zgeo_def)
qed

end
