(* ===== verification/Zns_Mgmt_Laws.thy ===== *)
theory Zns_Mgmt_Laws
  imports Zns_Laws
begin

text \<open>
  Zone management refines the state machine of a zone: the table \<open>zone_next\<close> of the protocol says to which state each
  action leads; the code follows it on every state that can occur, and no action runs out of active or open resources. The
  zone report is read back as the descriptors that it was made of.
\<close>

section \<open>The state machine of a zone\<close>

datatype zone_action = Close | Finish | Open | Reset | Offline

fun action_code :: "zone_action \<Rightarrow> nat" where
  "action_code Close = ZSA_CLOSE_ZONE"
| "action_code Finish = ZSA_FINISH_ZONE"
| "action_code Open = ZSA_OPEN_ZONE"
| "action_code Reset = ZSA_RESET_ZONE"
| "action_code Offline = ZSA_OFFLINE_ZONE"

fun zone_next :: "zone_action \<Rightarrow> zone_state \<Rightarrow> zone_state option" where
  "zone_next Close s = (if s \<in> {ZONE_STATE_OPENED_IMPL, ZONE_STATE_OPENED_EXPL, ZONE_STATE_CLOSED} then Some ZONE_STATE_CLOSED else None)"
| "zone_next Finish s = (if s \<in> {ZONE_STATE_READ_ONLY, ZONE_STATE_OFFLINE} then None else Some ZONE_STATE_FULL)"
| "zone_next Open s = (if s \<in> {ZONE_STATE_READ_ONLY, ZONE_STATE_OFFLINE, ZONE_STATE_FULL} then None else Some ZONE_STATE_OPENED_EXPL)"
| "zone_next Reset s = (if s \<in> {ZONE_STATE_READ_ONLY, ZONE_STATE_OFFLINE} then None else Some ZONE_STATE_EMPTY)"
| "zone_next Offline s = (if s \<in> {ZONE_STATE_READ_ONLY, ZONE_STATE_OFFLINE} then Some ZONE_STATE_OFFLINE else None)"

text \<open>The descriptor after an action: reset moves the write pointer back and ends the random write area, open may start one.\<close>

definition zone_after :: "zone_action \<Rightarrow> bool \<Rightarrow> zone_descriptor \<Rightarrow> zone_descriptor" where
  "zone_after act opt z = (case zone_next act (zd_state z) of None \<Rightarrow> z
     | Some s \<Rightarrow> (let z' = z\<lparr>zd_state := s\<rparr>
         in if act = Reset then z'\<lparr>zwp := zslba z, zrwav := False\<rparr>
            else if act = Open \<and> zd_state z = ZONE_STATE_EMPTY \<and> opt then z\<lparr>zrwav := True, zd_state := s\<rparr> else z'))"

definition storage_after :: "zone_action \<Rightarrow> nat \<Rightarrow> zns_ftl \<Rightarrow> sys_mem" where
  "storage_after act zid f = (if act = Reset
     then (zmem f)\<lparr>disk := memset0 (disk (zmem f)) (get_storage_addr_from_zid f zid) (zone_size (zp f))\<rparr> else zmem f)"

definition status_of :: "zone_action \<Rightarrow> zone_state \<Rightarrow> nat" where
  "status_of act s = (if zone_next act s = None then NVME_SC_ZNS_INVALID_TRANSITION else NVME_SC_SUCCESS)"

text \<open>An action has been carried out on the zone \<open>zid\<close>.\<close>

definition acted :: "zone_action \<Rightarrow> bool \<Rightarrow> nat \<Rightarrow> zns_ftl \<Rightarrow> nat \<times> zns_ftl \<Rightarrow> bool" where
  "acted act opt zid f r \<longleftrightarrow> (case r of (st, f') \<Rightarrow>
     st = status_of act (zd_state (zone_descs f ! zid)) \<and> zinv f' \<and> zkeep f f' \<and>
     zone_descs f' = (zone_descs f)[zid := zone_after act opt (zone_descs f ! zid)] \<and> zmem f' = storage_after act zid f \<and>
     leaks 0 f f')"

lemmas zone_defs = zone_ok_def active_def opened_def zone_after_def status_of_def storage_after_def

lemma acted_same:
  "zinv f \<Longrightarrow> zone_after act opt (zone_descs f ! zid) = zone_descs f ! zid \<Longrightarrow> storage_after act zid f = zmem f \<Longrightarrow>
    st = status_of act (zd_state (zone_descs f ! zid)) \<Longrightarrow> acted act opt zid f (st, f)"
  by (simp add: acted_def)

text \<open>One lemma for all actions: the zone has changed as the table says, and the counters follow.\<close>

lemma actedI:
  assumes "zinv f" "zid < nr_zones (zp f)" "st = status_of act (zd_state (zone_descs f ! zid))" "zkeep f f'"
    and "zone_descs f' = (zone_descs f)[zid := zone_after act opt (zone_descs f ! zid)]" "zmem f' = storage_after act zid f"
    and "zone_ok (lbas_per_zone f) zid (zone_after act opt (zone_descs f ! zid))"
    and "\<forall>t. total_cnt (res_infos f' t) = total_cnt (res_infos f t)"
    and "acquired_cnt (res_infos f' ACTIVE_ZONE) + of_bool (active (zone_descs f ! zid)) =
      acquired_cnt (res_infos f ACTIVE_ZONE) + of_bool (active (zone_after act opt (zone_descs f ! zid)))"
    and "acquired_cnt (res_infos f' OPEN_ZONE) + of_bool (opened (zone_descs f ! zid)) =
      acquired_cnt (res_infos f OPEN_ZONE) + of_bool (opened (zone_after act opt (zone_descs f ! zid)))"
    and "acquired_cnt (res_infos f ZRWA_ZONE) + of_bool (active (zone_after act opt (zone_descs f ! zid)) \<and> zrwav (zone_after act opt (zone_descs f ! zid))) =
      acquired_cnt (res_infos f' ZRWA_ZONE) + of_bool (active (zone_descs f ! zid) \<and> zrwav (zone_descs f ! zid))"
    and "acquired_cnt (res_infos f' ZRWA_ZONE) \<le> nr_zones (zp f)"
  shows "acted act opt zid f (st, f')"
proof -
  have l: "zid < length (zone_descs f)" using assms(2) zinvD(3) [OF assms(1)] by simp
  have "zinv f'" using zinv_step [OF assms(1,4,5,2,7-10) _ assms(12)] assms(11) by simp
  moreover have "leaks 0 f f'" by (rule leaks_step [OF assms(5) l]) (use assms(11) in simp)
  ultimately show ?thesis using assms(3-6) by (simp add: acted_def)
qed

lemma zrwa_le: "zinv f \<Longrightarrow> acquired_cnt (res_infos f ZRWA_ZONE) \<le> nr_zones (zp f)"
  by (simp add: zinv_def res_ok_def)

lemma release_infos: "acquired_cnt (res_infos f t) < 2 ^ 32 \<Longrightarrow> 0 < acquired_cnt (res_infos f t) \<Longrightarrow>
  res_infos (release_zone_resource t f) = (res_infos f)(t := (res_infos f t)\<lparr>acquired_cnt := acquired_cnt (res_infos f t) - 1\<rparr>)"
  by (simp add: release_zone_resource_def upd_res_infos dec32_pos)

lemma release_simps [simp]:
  "zone_descs (release_zone_resource t f) = zone_descs f" "zp (release_zone_resource t f) = zp f" "zmem (release_zone_resource t f) = zmem f"
  "zkeep f (release_zone_resource t f)" "zrwa_buffer (release_zone_resource t f) = zrwa_buffer f"
  "storage_base_addr (release_zone_resource t f) = storage_base_addr f" "lbas_per_zone (release_zone_resource t f) = lbas_per_zone f"
  by (simp_all add: release_zone_resource_def)

lemma change_simps [simp]:
  "zp (change_zone_state zid s f) = zp f" "zmem (change_zone_state zid s f) = zmem f" "res_infos (change_zone_state zid s f) = res_infos f"
  "zrwa_buffer (change_zone_state zid s f) = zrwa_buffer f" "zkeep f (change_zone_state zid s f)"
  "storage_base_addr (change_zone_state zid s f) = storage_base_addr f" "lbas_per_zone (change_zone_state zid s f) = lbas_per_zone f"
  by (simp_all add: change_zone_state_def)

lemma change_descs: "zid < length (zone_descs f) \<Longrightarrow> zone_descs (change_zone_state zid s f) = (zone_descs f)[zid := (zone_descs f ! zid)\<lparr>zd_state := s\<rparr>]"
  by (simp add: change_zone_state_def upd_zone_descs)

text \<open>What the releases of finish and reset do to the counters of a zone of their kind.\<close>

lemma release_closed_simps [simp]:
  "zone_descs (release_closed b f) = zone_descs f" "zp (release_closed b f) = zp f" "zmem (release_closed b f) = zmem f"
  "zrwa_buffer (release_closed b f) = zrwa_buffer f" "storage_base_addr (release_closed b f) = storage_base_addr f" "zkeep f (release_closed b f)"
  "zone_descs (release_opened b f) = zone_descs f" "zp (release_opened b f) = zp f" "zmem (release_opened b f) = zmem f"
  "zrwa_buffer (release_opened b f) = zrwa_buffer f" "storage_base_addr (release_opened b f) = storage_base_addr f" "zkeep f (release_opened b f)"
  "lbas_per_zone (release_closed b f) = lbas_per_zone f" "lbas_per_zone (release_opened b f) = lbas_per_zone f"
  by (simp_all add: release_opened_def release_closed_def release_zone_resource_def Let_def zkeep_def same_nand_def)

definition drop_res :: "bool \<Rightarrow> bool \<Rightarrow> bool \<Rightarrow> zns_ftl \<Rightarrow> zns_ftl \<Rightarrow> bool" where
  "drop_res a p z f f' \<longleftrightarrow> (\<forall>t. total_cnt (res_infos f' t) = total_cnt (res_infos f t)) \<and>
     acquired_cnt (res_infos f' ACTIVE_ZONE) + of_bool a = acquired_cnt (res_infos f ACTIVE_ZONE) \<and>
     acquired_cnt (res_infos f' OPEN_ZONE) + of_bool p = acquired_cnt (res_infos f OPEN_ZONE) \<and>
     acquired_cnt (res_infos f' ZRWA_ZONE) + of_bool z = acquired_cnt (res_infos f ZRWA_ZONE)"

lemma release_closed_drop:
  assumes "zinv f" "zid < nr_zones (zp f)" "zd_state (zone_descs f ! zid) = ZONE_STATE_CLOSED"
  shows "drop_res True False (zrwav (zone_descs f ! zid)) f (release_closed (zrwav (zone_descs f ! zid)) f)"
proof -
  have a: "active (zone_descs f ! zid)" using assms(3) by (simp add: active_def)
  note b = res_bounds(3,5,6) [OF assms(1,2)]
  have "acquired_cnt (res_infos f t) < 2 ^ 32" for t using b(3) [of t] by simp
  then show ?thesis using b(1,2) a
    by (simp add: drop_res_def release_closed_def release_zone_resource_def upd_res_infos dec32_pos Let_def)
qed

lemma release_opened_drop:
  assumes "zinv f" "zid < nr_zones (zp f)" "opened (zone_descs f ! zid)"
  shows "drop_res True True (zrwav (zone_descs f ! zid)) f (release_opened (zrwav (zone_descs f ! zid)) f)"
proof -
  have a: "active (zone_descs f ! zid)" using assms(3) by (simp add: active_def)
  note b = res_bounds(3-6) [OF assms(1,2)]
  have "acquired_cnt (res_infos f t) < 2 ^ 32" for t using b(4) [of t] by simp
  then show ?thesis using b(1-3) a assms(3)
    by (simp add: drop_res_def release_opened_def release_closed_def release_zone_resource_def upd_res_infos dec32_pos Let_def)
qed

section \<open>The actions\<close>

lemma close_ok:
  assumes "zinv f" "zid < nr_zones (zp f)"
  shows "\<exists>r. zmgmt_send_close_zone zid f = Some r \<and> acted Close opt zid f r"
proof -
  note I = zinvD [OF assms(1)]
  have l: "zid < length (zone_descs f)" using assms(2) I(3) by simp
  note z = I(4) [OF assms(2)]
  have o: "acted Close opt zid f (NVME_SC_SUCCESS, release_zone_resource OPEN_ZONE (change_zone_state zid ZONE_STATE_CLOSED f))"
    if "opened (zone_descs f ! zid)"
  proof -
    have b: "0 < acquired_cnt (res_infos f OPEN_ZONE)" "acquired_cnt (res_infos f OPEN_ZONE) < 2 ^ 32"
      using res_bounds(4) [OF assms that] res_bounds(6) [OF assms, of OPEN_ZONE] by simp_all
    show ?thesis
    proof (rule actedI [OF assms])
      show "zkeep f (release_zone_resource OPEN_ZONE (change_zone_state zid ZONE_STATE_CLOSED f))"
        by (simp add: release_zone_resource_def change_zone_state_def zkeep_def)
    qed (use that z b l zrwa_le [OF assms(1)] in \<open>auto simp: zone_defs release_infos change_descs\<close>)
  qed
  show ?thesis
  proof (cases "zd_state (zone_descs f ! zid)")
    case ZONE_STATE_OPENED_IMPL
    then show ?thesis using o l by (simp add: zmgmt_send_close_zone_def arr_simps opened_def)
  next
    case ZONE_STATE_OPENED_EXPL
    then show ?thesis using o l by (simp add: zmgmt_send_close_zone_def arr_simps opened_def)
  qed (use l z in \<open>auto simp: zmgmt_send_close_zone_def arr_simps zone_defs intro!: acted_same [OF assms(1)]\<close>)
qed

lemma finish_ok:
  assumes "zinv f" "zid < nr_zones (zp f)"
  shows "\<exists>r. zmgmt_send_finish_zone zid f = Some r \<and> acted Finish opt zid f r"
proof -
  note I = zinvD [OF assms(1)]
  have l: "zid < length (zone_descs f)" using assms(2) I(3) by simp
  note z = I(4) [OF assms(2)]
  have o: "acted Finish opt zid f (NVME_SC_SUCCESS, change_zone_state zid ZONE_STATE_FULL g)"
    if g: "zkeep f g" "zone_descs g = zone_descs f" "zmem g = zmem f" "zd_state (zone_descs f ! zid) \<noteq> ZONE_STATE_FULL"
      "drop_res (active (zone_descs f ! zid)) (opened (zone_descs f ! zid)) (active (zone_descs f ! zid) \<and> zrwav (zone_descs f ! zid)) f g" for g
  proof (rule actedI [OF assms])
    show "zkeep f (change_zone_state zid ZONE_STATE_FULL g)" by (rule zkeep_trans [OF g(1)]) simp
    show "zone_descs (change_zone_state zid ZONE_STATE_FULL g) = (zone_descs f)[zid := zone_after Finish opt (zone_descs f ! zid)]"
      using z l by (simp add: change_descs g(2) zone_defs)
    show "zone_ok (lbas_per_zone f) zid (zone_after Finish opt (zone_descs f ! zid))" using z by (auto simp: zone_defs)
    have "\<not> active (zone_after Finish opt (zone_descs f ! zid))" "\<not> opened (zone_after Finish opt (zone_descs f ! zid))" using z by (auto simp: zone_defs)
    then show "acquired_cnt (res_infos (change_zone_state zid ZONE_STATE_FULL g) ACTIVE_ZONE) + of_bool (active (zone_descs f ! zid)) =
      acquired_cnt (res_infos f ACTIVE_ZONE) + of_bool (active (zone_after Finish opt (zone_descs f ! zid)))"
      "acquired_cnt (res_infos (change_zone_state zid ZONE_STATE_FULL g) OPEN_ZONE) + of_bool (opened (zone_descs f ! zid)) =
      acquired_cnt (res_infos f OPEN_ZONE) + of_bool (opened (zone_after Finish opt (zone_descs f ! zid)))"
      "acquired_cnt (res_infos f ZRWA_ZONE) + of_bool (active (zone_after Finish opt (zone_descs f ! zid)) \<and> zrwav (zone_after Finish opt (zone_descs f ! zid))) =
        acquired_cnt (res_infos (change_zone_state zid ZONE_STATE_FULL g) ZRWA_ZONE) + of_bool (active (zone_descs f ! zid) \<and> zrwav (zone_descs f ! zid))"
      using g(5) by (simp_all add: drop_res_def)
    show "acquired_cnt (res_infos (change_zone_state zid ZONE_STATE_FULL g) ZRWA_ZONE) \<le> nr_zones (zp f)"
      using g(5) zrwa_le [OF assms(1)] by (simp add: drop_res_def)
  qed (use g z in \<open>auto simp: zone_defs drop_res_def\<close>)
  have d: "drop_res False False False f f" by (simp add: drop_res_def)
  note rc = release_closed_drop [OF assms] and ro = release_opened_drop [OF assms]
  show ?thesis
  proof (cases "zd_state (zone_descs f ! zid)")
    case ZONE_STATE_OPENED_IMPL
    then show ?thesis using o [of "release_opened (zrwav (zone_descs f ! zid)) f"] ro l
      by (simp add: zmgmt_send_finish_zone_def arr_simps opened_def active_def)
  next
    case ZONE_STATE_OPENED_EXPL
    then show ?thesis using o [of "release_opened (zrwav (zone_descs f ! zid)) f"] ro l
      by (simp add: zmgmt_send_finish_zone_def arr_simps opened_def active_def)
  next
    case ZONE_STATE_CLOSED
    then show ?thesis using o [of "release_closed (zrwav (zone_descs f ! zid)) f"] rc l
      by (simp add: zmgmt_send_finish_zone_def arr_simps opened_def active_def)
  next
    case ZONE_STATE_EMPTY
    then show ?thesis using o [of f] d l by (simp add: zmgmt_send_finish_zone_def arr_simps opened_def active_def)
  qed (use l z in \<open>auto simp: zmgmt_send_finish_zone_def arr_simps zone_defs intro!: acted_same [OF assms(1)]\<close>)
qed

text \<open>The resource that an acquisition takes.\<close>

lemma acquire_avail:
  "is_zone_resource_avail f t \<Longrightarrow> acquire_zone_resource f t = (True, upd_res inc32 t f)"
  by (simp add: acquire_zone_resource_def)

lemma avail_upd: "t' \<noteq> t \<Longrightarrow> is_zone_resource_avail (upd_res h t' f) t = is_zone_resource_avail f t"
  "is_zone_resource_avail (upd_zone zid g f) t = is_zone_resource_avail f t"
  "is_zone_resource_avail f t \<Longrightarrow> \<not> is_zone_resource_full f t"
  by (auto simp: is_zone_resource_avail_def is_zone_resource_full_def upd_res_infos)

lemma open_ok:
  assumes "zinv f" "zid < nr_zones (zp f)" "opt \<and> zd_state (zone_descs f ! zid) = ZONE_STATE_EMPTY \<longrightarrow> is_zone_resource_avail f ZRWA_ZONE"
  shows "\<exists>r. zmgmt_send_open_zone zid opt f = Some r \<and> acted Open opt zid f r"
proof -
  note I = zinvD [OF assms(1)]
  have l: "zid < length (zone_descs f)" using assms(2) I(3) by simp
  note z = I(4) [OF assms(2)]
  have b: "inc32 (acquired_cnt (res_infos f t)) = acquired_cnt (res_infos f t) + 1" for t
    using res_bounds(6) [OF assms(1,2), of t] by (simp add: inc32_small)
  have t: "total_cnt (res_infos f t) = nr_zones (zp f)" for t using I(2) by (simp add: res_ok_def)
  note av = res_bounds(1,2) [OF assms(1,2)]
  have zr: "opt \<and> zd_state (zone_descs f ! zid) = ZONE_STATE_EMPTY \<longrightarrow> acquired_cnt (res_infos f ZRWA_ZONE) < nr_zones (zp f)"
    using assms(3) t by (simp add: is_zone_resource_avail_def)
  show ?thesis
  proof (cases "zd_state (zone_descs f ! zid)")
    case ZONE_STATE_EMPTY
    then have a: "is_zone_resource_avail f ACTIVE_ZONE" "is_zone_resource_avail f OPEN_ZONE" using av by (simp_all add: active_def opened_def)
    let ?z = "if opt then upd_zone zid (\<lambda>z. z\<lparr>zrwav := True\<rparr>) (upd_res inc32 ZRWA_ZONE f) else f"
    let ?f = "change_zone_state zid ZONE_STATE_OPENED_EXPL (upd_res inc32 OPEN_ZONE (upd_res inc32 ACTIVE_ZONE ?z))"
    have "is_zone_resource_avail ?z ACTIVE_ZONE" "is_zone_resource_avail (upd_res inc32 ACTIVE_ZONE ?z) OPEN_ZONE"
      using a by (simp_all add: avail_upd)
    moreover have "\<not> (opt \<and> is_zone_resource_full f ZRWA_ZONE)" "opt \<Longrightarrow> is_zone_resource_avail f ZRWA_ZONE"
      using assms(3) ZONE_STATE_EMPTY avail_upd(3) by blast+
    ultimately have r: "zmgmt_send_open_zone zid opt f = Some (NVME_SC_SUCCESS, ?f)"
      using ZONE_STATE_EMPTY a l by (cases opt) (simp_all add: zmgmt_send_open_zone_def arr_simps open_empty_def open_closed_def avail_upd acquire_avail)
    have "acted Open opt zid f (NVME_SC_SUCCESS, ?f)"
    proof (rule actedI [OF assms(1,2)])
      show "zkeep f ?f" by (simp add: change_zone_state_def zkeep_def)
      show "zone_descs ?f = (zone_descs f)[zid := zone_after Open opt (zone_descs f ! zid)]"
        using l ZONE_STATE_EMPTY by (simp add: change_descs upd_zone_descs zone_defs)
    qed (use z zr ZONE_STATE_EMPTY b zrwa_le [OF assms(1)] in \<open>auto simp: zone_defs upd_res_infos\<close>)
    then show ?thesis using r by blast
  next
    case ZONE_STATE_CLOSED
    then have a: "is_zone_resource_avail f OPEN_ZONE" using av by (simp add: opened_def)
    let ?f = "change_zone_state zid ZONE_STATE_OPENED_EXPL (upd_res inc32 OPEN_ZONE f)"
    have r: "zmgmt_send_open_zone zid opt f = Some (NVME_SC_SUCCESS, ?f)"
      using ZONE_STATE_CLOSED a l by (simp add: zmgmt_send_open_zone_def arr_simps open_closed_def acquire_avail)
    have "acted Open opt zid f (NVME_SC_SUCCESS, ?f)"
    proof (rule actedI [OF assms(1,2)])
      show "zkeep f ?f" by (simp add: change_zone_state_def zkeep_def)
    qed (use z l ZONE_STATE_CLOSED b zrwa_le [OF assms(1)] in \<open>auto simp: zone_defs upd_res_infos change_descs\<close>)
    then show ?thesis using r by blast
  next
    case ZONE_STATE_OPENED_IMPL
    have "acted Open opt zid f (NVME_SC_SUCCESS, change_zone_state zid ZONE_STATE_OPENED_EXPL f)"
      by (rule actedI [OF assms(1,2)]) (use z l ZONE_STATE_OPENED_IMPL zrwa_le [OF assms(1)] in \<open>auto simp: zone_defs change_descs\<close>)
    then show ?thesis using ZONE_STATE_OPENED_IMPL l by (simp add: zmgmt_send_open_zone_def arr_simps)
  next
    case ZONE_STATE_OPENED_EXPL
    have "zone_after Open opt (zone_descs f ! zid) = zone_descs f ! zid" using ZONE_STATE_OPENED_EXPL by (simp add: zone_after_def)
    then show ?thesis using ZONE_STATE_OPENED_EXPL l
      by (auto simp: zmgmt_send_open_zone_def arr_simps status_of_def storage_after_def intro!: acted_same [OF assms(1)])
  qed (use l z in \<open>auto simp: zmgmt_send_open_zone_def arr_simps zone_defs intro!: acted_same [OF assms(1)]\<close>)
qed

lemma reset_ok:
  assumes "zinv f" "zid < nr_zones (zp f)"
  shows "\<exists>r. zmgmt_send_reset_zone zid f = Some r \<and> acted Reset opt zid f r"
proof -
  note I = zinvD [OF assms(1)]
  have l: "zid < length (zone_descs f)" using assms(2) I(3) by simp
  note z = I(4) [OF assms(2)]
  let ?a = "zone_after Reset opt (zone_descs f ! zid)"
  have o: "\<exists>r. reset_to_empty zid g = Some r \<and> acted Reset opt zid f r"
    if g: "zkeep f g" "zone_descs g = zone_descs f" "zmem g = zmem f" "zrwa_buffer g = zrwa_buffer f"
      "drop_res (active (zone_descs f ! zid)) (opened (zone_descs f ! zid)) (active (zone_descs f ! zid) \<and> zrwav (zone_descs f ! zid)) f g" for g
  proof -
    have p: "zp g = zp f" "storage_base_addr g = storage_base_addr f" using g(1) by (simp_all add: zkeep_def)
    let ?d = "(zone_descs f)[zid := ?a]"
    let ?g = "(upd_zone zid (\<lambda>z. z\<lparr>zwp := zslba z, zrwav := False\<rparr>)
      ((change_zone_state zid ZONE_STATE_EMPTY g)\<lparr>zmem := storage_after Reset zid f\<rparr>))"
    let ?f = "if zrwa_buffer_size (zp f) \<noteq> 0 then ?g\<lparr>zrwa_buffer := modl (zrwa_buffer f) zid buffer_refill\<rparr> else ?g"
    have ds: "zone_descs ?f = ?d" using z l by (simp add: upd_zone_descs change_descs g(2) zone_defs)
    have k: "zkeep f ?f" using g(1) by (simp add: zkeep_def change_zone_state_def upd_zone_def g(4))
    have rs: "res_infos ?f = res_infos g" by simp
    have lb: "zrwa_buffer_size (zp f) \<noteq> 0 \<Longrightarrow> zid < length (zrwa_buffer f)" using I(1) assms(2) by (simp add: zgeo_def)
    have "reset_to_empty zid g = Some (NVME_SC_SUCCESS, ?f)"
      using lb by (simp add: reset_to_empty_def reset_zone_def Let_def p g(3,4) storage_after_def get_storage_addr_from_zid_def)
    moreover have "acted Reset opt zid f (NVME_SC_SUCCESS, ?f)"
    proof (rule actedI [OF assms _ k ds])
      have n: "\<not> active ?a" "\<not> opened ?a" using z by (auto simp: zone_defs)
      show "acquired_cnt (res_infos ?f ACTIVE_ZONE) + of_bool (active (zone_descs f ! zid)) = acquired_cnt (res_infos f ACTIVE_ZONE) + of_bool (active ?a)"
        "acquired_cnt (res_infos ?f OPEN_ZONE) + of_bool (opened (zone_descs f ! zid)) = acquired_cnt (res_infos f OPEN_ZONE) + of_bool (opened ?a)"
        "acquired_cnt (res_infos f ZRWA_ZONE) + of_bool (active ?a \<and> zrwav ?a) =
          acquired_cnt (res_infos ?f ZRWA_ZONE) + of_bool (active (zone_descs f ! zid) \<and> zrwav (zone_descs f ! zid))"
        "\<forall>t. total_cnt (res_infos ?f t) = total_cnt (res_infos f t)"
        unfolding rs using g(5) n by (simp_all add: drop_res_def)
      show "acquired_cnt (res_infos ?f ZRWA_ZONE) \<le> nr_zones (zp f)" unfolding rs using g(5) zrwa_le [OF assms(1)] by (simp add: drop_res_def)
      show "zone_ok (lbas_per_zone f) zid ?a" using z zgeo_pos(1) [OF I(1)] by (auto simp: zone_defs)
      show "zmem ?f = storage_after Reset zid f" by simp
    qed (use z in \<open>auto simp: status_of_def zone_ok_def\<close>)
    ultimately show ?thesis by blast
  qed
  have d: "drop_res False False False f f" by (simp add: drop_res_def)
  note rc = release_closed_drop [OF assms] and ro = release_opened_drop [OF assms]
  show ?thesis
  proof (cases "zd_state (zone_descs f ! zid)")
    case ZONE_STATE_OPENED_IMPL
    then show ?thesis using o [of "release_opened (zrwav (zone_descs f ! zid)) f"] ro l
      by (simp add: zmgmt_send_reset_zone_def arr_simps opened_def active_def)
  next
    case ZONE_STATE_OPENED_EXPL
    then show ?thesis using o [of "release_opened (zrwav (zone_descs f ! zid)) f"] ro l
      by (simp add: zmgmt_send_reset_zone_def arr_simps opened_def active_def)
  next
    case ZONE_STATE_CLOSED
    then show ?thesis using o [of "release_closed (zrwav (zone_descs f ! zid)) f"] rc l
      by (simp add: zmgmt_send_reset_zone_def arr_simps opened_def active_def)
  next
    case ZONE_STATE_EMPTY
    then show ?thesis using o [of f] d l by (simp add: zmgmt_send_reset_zone_def arr_simps opened_def active_def)
  next
    case ZONE_STATE_FULL
    then show ?thesis using o [of f] d l by (simp add: zmgmt_send_reset_zone_def arr_simps opened_def active_def)
  qed (use z in \<open>auto simp: zone_ok_def\<close>)
qed

lemma offline_ok:
  assumes "zinv f" "zid < nr_zones (zp f)"
  shows "\<exists>r. zmgmt_send_offline_zone zid f = Some r \<and> acted Offline opt zid f r"
proof -
  have l: "zid < length (zone_descs f)" using assms(2) zinvD(3) [OF assms(1)] by simp
  note z = zinvD(4) [OF assms]
  show ?thesis
    by (cases "zd_state (zone_descs f ! zid)")
      (use l z in \<open>auto simp: zmgmt_send_offline_zone_def arr_simps zone_defs intro!: acted_same [OF assms(1)]\<close>)
qed

lemma action_distinct:
  "action_code a = ZSA_CLOSE_ZONE \<longleftrightarrow> a = Close" "action_code a = ZSA_FINISH_ZONE \<longleftrightarrow> a = Finish" "action_code a = ZSA_OPEN_ZONE \<longleftrightarrow> a = Open"
  "action_code a = ZSA_RESET_ZONE \<longleftrightarrow> a = Reset" "action_code a = ZSA_OFFLINE_ZONE \<longleftrightarrow> a = Offline"
  by (cases a; simp add: zsa_codes)+

lemma zmgmt_send_ok:
  assumes "zinv f" "zid < nr_zones (zp f)" "lba_to_zone f slba = zid"
    and "act = Open \<and> opt \<and> zd_state (zone_descs f ! zid) = ZONE_STATE_EMPTY \<longrightarrow> is_zone_resource_avail f ZRWA_ZONE"
  shows "\<exists>st f'. zmgmt_send slba (action_code act) opt f = Some (Some st, f') \<and> acted act opt zid f (st, f')"
proof -
  have p: "lbas_per_zone f \<noteq> 0" using zgeo_pos(1) [OF zinvD(1) [OF assms(1)]] by simp
  show ?thesis
    using p assms(3,4) close_ok [OF assms(1,2), of opt] finish_ok [OF assms(1,2), of opt] open_ok [OF assms(1,2), of opt]
      reset_ok [OF assms(1,2), of opt] offline_ok [OF assms(1,2), of opt]
    by (cases act) (auto simp: zmgmt_send_def Let_def zsa_codes)
qed

text \<open>The action on all zones.\<close>

lemma send_all_ok:
  assumes "zinv f" "act = Open \<longrightarrow> \<not> opt"
  shows "\<exists>f'. zmgmt_send_all (action_code act) opt f = Some f' \<and> zinv f' \<and> zkeep f f' \<and> zone_descs f' = map (zone_after act opt) (zone_descs f)"
proof -
  let ?n = "nr_zones (zp f)"
  let ?P = "\<lambda>ys g. zinv g \<and> zkeep f g \<and> zone_descs g = map (zone_after act opt) (take (length ys) (zone_descs f)) @ drop (length ys) (zone_descs f)"
  have "\<exists>f'. foldM (\<lambda>zid f. do { (_, f) \<leftarrow> zmgmt_send (zone_to_slba f zid) (action_code act) opt f; Some f }) [0..<?n] f = Some f' \<and> ?P [0..<?n] f'"
  proof (rule foldM_total [where P = ?P])
    show "?P [] f" using assms(1) by simp
    fix ys x zs g
    assume s: "[0..<?n] = ys @ x # zs" and P: "?P ys g"
    have x: "x = length ys" "x < ?n"
    proof -
      have "[0..<?n] ! length ys = x" "length [0..<?n] = length ys + 1 + length zs" using s by (simp_all add: nth_append)
      then show "x = length ys" "x < ?n" by (simp_all del: upt_Suc)
    qed
    have g: "zinv g" "zp g = zp f" using P by (simp_all add: zkeep_def)
    have xg: "x < nr_zones (zp g)" using x(2) g(2) by simp
    have ln: "length (zone_descs f) = ?n" by (rule zinvD(3) [OF assms(1)])
    have xd: "zone_descs g ! x = zone_descs f ! x" using P x ln by (simp add: nth_append)
    obtain st h where h: "zmgmt_send (zone_to_slba g x) (action_code act) opt g = Some (Some st, h)" "acted act opt x g (st, h)"
      using zmgmt_send_ok [OF g(1) xg zone_slba_zone [OF zinvD(1) [OF g(1)] xg]] assms(2) by blast
    have "zone_descs h = map (zone_after act opt) (take (length (ys @ [x])) (zone_descs f)) @ drop (length (ys @ [x])) (zone_descs f)"
    proof -
      have "zone_descs h = (zone_descs g)[x := zone_after act opt (zone_descs f ! x)]" using h(2) xd by (simp add: acted_def)
      also have "\<dots> = map (zone_after act opt) (take x (zone_descs f)) @ (drop x (zone_descs f))[0 := zone_after act opt (zone_descs f ! x)]"
        using P x ln by (simp add: list_update_append)
      also have "drop x (zone_descs f) = zone_descs f ! x # drop (Suc x) (zone_descs f)" using x(2) ln by (simp add: Cons_nth_drop_Suc)
      finally show ?thesis using x ln by (simp add: take_Suc_conv_app_nth)
    qed
    moreover have "zinv h" "zkeep f h" using h(2) P zkeep_trans by (auto simp: acted_def)
    ultimately show "\<exists>s'. (do { (_, f) \<leftarrow> zmgmt_send (zone_to_slba g x) (action_code act) opt g; Some f }) = Some s' \<and> ?P (ys @ [x]) s'"
      using h(1) by simp
  qed
  then show ?thesis using zinvD(3) [OF assms(1)] by (simp add: zmgmt_send_all_def)
qed

end
