(* ===== verification/Zns_Io_Laws.thy ===== *)
theory Zns_Io_Laws
  imports Zns_Mgmt_Laws
begin

text \<open>
  Reading and writing zones: every page is on a die that exists, the loops return, the buffer bytes that a write gives back are
  those of the wordlines that it completes, and a write moves the write pointer and the zone as the protocol says.
\<close>

section \<open>Placement of pages\<close>

lemma dvd_room:
  fixes d n :: nat
  assumes "0 < d" "d dvd n" "d dvd a" "a < n" "r < d"
  shows "a + r < n"
proof -
  obtain k m where k: "n = d * k" "a = d * m" using assms(2,3) by (auto simp: dvd_def)
  then have "Suc m \<le> k" using assms(1,4) by simp
  then have "d * Suc m \<le> d * k" by (intro mult_le_mono2)
  then show ?thesis using k assms(5) by simp
qed

lemma lpn_to_ppa_ok:
  assumes "zgeo f"
  shows "\<exists>a. lpn_to_ppa f lpn = Some a \<and> get_lun (zssd f) a \<noteq> None \<and> p_pg a < pgs_per_oneshotpg (zspp f) \<and>
    p_pg a = sub64 lpn (zone_to_slpn f (lpn_to_zone f lpn)) mod pgs_per_oneshotpg (zspp f)"
proof -
  let ?n = "nchs (zspp f)" and ?l = "luns_per_ch (zspp f)" and ?d = "dies_per_zone (zp f)" and ?one = "pgs_per_oneshotpg (zspp f)"
  have g: "0 < ?n" "?n \<le> 2 ^ 8" "?l \<le> 2 ^ 8" "tt_luns (zspp f) = ?l * ?n" "0 < ?d" "?d dvd ?l * ?n" "0 < ?l" "0 < ?one" "?one \<le> 2 ^ 16"
    "\<And>c l. c < ?n \<Longrightarrow> l < ?l \<Longrightarrow> get_lun (zssd f) (zero_ppa\<lparr>p_ch := c, p_lun := l\<rparr>) \<noteq> None"
    using assms by (simp_all add: zgeo_def znand_ok_def)
  let ?tt = "?l * ?n" and ?z = "lpn_to_zone f lpn"
  let ?off = "sub64 lpn (zone_to_slpn f ?z)"
  have tt: "0 < ?tt" "?tt \<le> 2 ^ 16" using g(1,7) mult_le_mono [OF g(3,2)] by simp_all
  have dt: "?d \<le> ?tt" using g(6) tt(1) by (rule dvd_imp_le)
  have "?z < 2 ^ 32" by (simp add: lpn_to_zone_def u32_def)
  then have "?z * ?d \<le> 2 ^ 32 * 2 ^ 16" using dt tt(2) by (intro mult_le_mono) simp_all
  then have zd: "u64 (?z * ?d) = ?z * ?d" by simp
  have s: "?z * ?d mod ?tt < ?tt" using tt(1) by simp
  have "?z * ?d mod ?tt + ?off div ?one mod ?d < ?tt"
    by (rule dvd_room [OF g(5,6) _ s]) (use g(5,6) in \<open>simp_all add: dvd_mod\<close>)
  moreover define die where "die = ?z * ?d mod ?tt + ?off div ?one mod ?d"
  ultimately have die: "die < ?tt" by simp
  have ch: "die mod ?n < ?n" using g(1) by simp
  have lu: "die div ?n < ?l" using die g(1) by (simp add: div_less_iff_less_mult)
  have sm: "u32 (?z * ?d mod ?tt) = ?z * ?d mod ?tt" "u32 (u32 (?z * ?d mod ?tt) + ?off div ?one mod ?d) = die"
  proof -
    show "u32 (?z * ?d mod ?tt) = ?z * ?d mod ?tt" using s tt(2) by simp
    then show "u32 (u32 (?z * ?d mod ?tt) + ?off div ?one mod ?d) = die" using die tt(2) by (simp add: die_def)
  qed
  have pg: "?off mod ?one < ?one" using g(8) by simp
  then have pu: "u16 (?off mod ?one) = ?off mod ?one" using g(9) by simp
  have cu: "u8 (die mod ?n) = die mod ?n" "u8 (die div ?n) = die div ?n" using ch lu g(2,3) by simp_all
  have lz: "lpns_per_zone f \<noteq> 0" using zgeo_pos(2) [OF assms] by simp
  let ?a = "zero_ppa\<lparr>p_lun := die div ?n, p_ch := die mod ?n, p_pg := ?off mod ?one\<rparr>"
  have e: "lpn_to_ppa f lpn = Some ?a"
    using g lz by (simp add: lpn_to_ppa_def Let_def zd sm(2) [unfolded sm(1)] sm(1) pu die_to_channel_def die_to_lun_def cu)
  have "get_lun (zssd f) ?a = get_lun (zssd f) (zero_ppa\<lparr>p_ch := die mod ?n, p_lun := die div ?n\<rparr>)"
    by (simp add: get_lun_def get_ch_def)
  then have "get_lun (zssd f) ?a \<noteq> None" using g(10) [OF ch lu] by simp
  then show ?thesis using e pg by (intro exI [of _ ?a]) simp
qed

text \<open>Within a zone the page of a wordline is the offset in the zone modulo its size.\<close>

lemma page_offset:
  assumes "zgeo f" "zid < nr_zones (zp f)" "off < lpns_per_zone f"
  shows "sub64 (zid * lpns_per_zone f + off) (zone_to_slpn f (lpn_to_zone f (zid * lpns_per_zone f + off))) = off"
proof -
  have p: "0 < lpns_per_zone f" "lpns_per_zone f \<le> lbas_per_zone f" using zgeo_pos [OF assms(1)] by simp_all
  have z: "zid < 2 ^ 32" using assms(1,2) by (simp add: zgeo_def)
  have "(zid * lpns_per_zone f + off) div lpns_per_zone f = zid" using assms(3) p(1) by simp
  then have lz: "lpn_to_zone f (zid * lpns_per_zone f + off) = zid" using z by (simp add: lpn_to_zone_def)
  have "zid * lpns_per_zone f + lpns_per_zone f \<le> zid * lbas_per_zone f + lbas_per_zone f" using p(2) by (intro add_mono mult_le_mono2)
  then have b: "zid * lpns_per_zone f + lpns_per_zone f < 2 ^ 32" using zone_end [OF assms(1,2)] by simp
  then have "zone_to_slpn f zid = zid * lpns_per_zone f" by (simp add: zone_to_slpn_def)
  moreover have "zid * lpns_per_zone f + off < 2 ^ 64" using b assms(3) by simp
  ultimately show ?thesis by (simp add: lz sub64_le)
qed

section \<open>Timing\<close>

text \<open>Only the timing state has changed.\<close>

definition ztime :: "zns_ftl \<Rightarrow> zns_ftl \<Rightarrow> bool" where
  "ztime f f' \<longleftrightarrow> f' = f\<lparr>zssd := zssd f'\<rparr> \<and> same_nand (zssd f) (zssd f') \<and> (tm_inv (zssd f) \<longrightarrow> tm_inv (zssd f'))"

lemma ztime_refl [simp]: "ztime f f"
  by (simp add: ztime_def)

lemma ztimeD:
  assumes "ztime f f'"
  shows "zone_descs f' = zone_descs f" "res_infos f' = res_infos f" "zmem f' = zmem f" "zone_write_buffer f' = zone_write_buffer f"
    "zrwa_buffer f' = zrwa_buffer f" "zp f' = zp f" "zspp f' = zspp f" "zkeep f f'" "lbas_per_zone f' = lbas_per_zone f"
    "lpns_per_zone f' = lpns_per_zone f" "write_buffer (zssd f') = write_buffer (zssd f)"
proof -
  have e: "f' = f\<lparr>zssd := zssd f'\<rparr>" and s: "same_nand (zssd f) (zssd f')" "tm_inv (zssd f) \<longrightarrow> tm_inv (zssd f')" using assms unfolding ztime_def by blast+
  show 1: "zone_descs f' = zone_descs f" "res_infos f' = res_infos f" "zmem f' = zmem f" "zone_write_buffer f' = zone_write_buffer f"
    "zrwa_buffer f' = zrwa_buffer f" "zp f' = zp f" using arg_cong [OF e, of zone_descs] arg_cong [OF e, of res_infos] arg_cong [OF e, of zmem] arg_cong [OF e, of zone_write_buffer]
      arg_cong [OF e, of zrwa_buffer] arg_cong [OF e, of zp] by simp_all
  have 2: "report_buffer f' = report_buffer f" "storage_base_addr f' = storage_base_addr f"
    using arg_cong [OF e, of report_buffer] arg_cong [OF e, of storage_base_addr] by simp_all
  have sp: "sp (zssd f') = sp (zssd f)" "write_buffer (zssd f') = write_buffer (zssd f)" using s by (simp_all add: same_nand_def)
  then show "zspp f' = zspp f" "lbas_per_zone f' = lbas_per_zone f" "lpns_per_zone f' = lpns_per_zone f" "write_buffer (zssd f') = write_buffer (zssd f)"
    using 1 by (simp_all add: zspp_def lbas_per_zone_def lpns_per_zone_def)
  show "zkeep f f'" using s 1 2 sp by (simp add: zkeep_def same_nand_def)
qed

lemma ztime_trans: "ztime f g \<Longrightarrow> ztime g h \<Longrightarrow> ztime f h"
proof -
  assume a: "ztime f g" and b: "ztime g h"
  have gf: "g = f\<lparr>zssd := zssd g\<rparr>" and hg: "h = g\<lparr>zssd := zssd h\<rparr>" using a b unfolding ztime_def by blast+
  have "g\<lparr>zssd := zssd h\<rparr> = f\<lparr>zssd := zssd h\<rparr>" using arg_cong [OF gf, of "\<lambda>r. r\<lparr>zssd := zssd h\<rparr>"] by simp
  then have "h = f\<lparr>zssd := zssd h\<rparr>" using hg by (rule trans [rotated])
  then show ?thesis using a b same_nand_trans unfolding ztime_def by blast
qed

lemma ztime_geo: "ztime f f' \<Longrightarrow> zgeo f \<Longrightarrow> zgeo f'"
  using zkeep_geo(1) [OF ztimeD(8)] by blast

lemma ztime_inv: "ztime f f' \<Longrightarrow> zinv f \<Longrightarrow> zinv f'"
  by (rule zinv_frame [OF _ ztimeD(8) ztimeD(1) ztimeD(2)])

lemma tm_keep_ztime: "tm_keep (zssd f) s \<Longrightarrow> ztime f (f\<lparr>zssd := s\<rparr>)"
  by (simp add: ztime_def tm_keep_def)

lemma zns_nand_ok:
  assumes "zgeo f" "get_lun (zssd f) a \<noteq> None" "c = NAND_WRITE \<or> c = NAND_READ \<and> x \<noteq> 0"
  shows "\<exists>t f'. zns_nand (znand c x st a) f = Some (t, f') \<and> ztime f f' \<and> st \<le> t"
proof -
  have i: "tm_inv (zssd f)" using assms(1) by (simp add: zgeo_def znand_ok_def)
  have "\<exists>t s'. ssd_advance_nand (zssd f) (znand c x st a) = Some (t, s') \<and> tm_keep (zssd f) s' \<and> nc_stime (znand c x st a) \<le> t"
    by (rule ssd_advance_nand_safe [OF i]) (use assms in \<open>auto simp: znand_def NAND_READ_def NAND_WRITE_def\<close>)
  then show ?thesis using tm_keep_ztime by (fastforce simp: zns_nand_def znand_def)
qed

lemma wbuf_ok:
  assumes "zgeo f"
  shows "\<exists>t s. ssd_advance_write_buffer (zssd f) st n = Some (t, s) \<and> ztime f (f\<lparr>zssd := s\<rparr>) \<and>
    st + fw_wbuf_lat0 (zspp f) + fw_wbuf_lat1 (zspp f) * DIV_ROUND_UP n (KB 4) \<le> t"
proof -
  have i: "tm_inv (zssd f)" using assms by (simp add: zgeo_def znand_ok_def)
  from ssd_advance_write_buffer_ok [OF i, of st n] show ?thesis using tm_keep_ztime by (fastforce simp: zspp_def)
qed

section \<open>The loops\<close>

lemma read_loop_ok:
  "zgeo f \<Longrightarrow> \<exists>t f'. read_loop st elpn lpn latest f = Some (t, f') \<and> ztime f f' \<and> latest \<le> t"
proof (induction st elpn lpn latest f rule: read_loop.induct)
  case (1 st elpn lpn latest f)
  show ?case
  proof (cases "elpn < lpn")
    case True
    then show ?thesis by (subst read_loop.simps) simp
  next
    case False
    obtain a where a: "lpn_to_ppa f lpn = Some a" "get_lun (zssd f) a \<noteq> None" using lpn_to_ppa_ok [OF "1.prems"] by blast
    have p: "0 < pgs_per_flashpg (zspp f)" "0 < pgsz (zspp f)" using "1.prems" by (simp_all add: zgeo_def znand_ok_def tm_inv_def zspp_def)
    let ?k = "run_pgs (pgs_per_flashpg (zspp f)) (elpn - lpn + 1) (p_pg a)"
    have k: "0 < ?k" using run_pgs_pos(1) [OF p(1)] by simp
    obtain t g where n: "zns_nand (znand NAND_READ (?k * pgsz (zspp f)) st a) f = Some (t, g)" "ztime f g" "st \<le> t"
      using zns_nand_ok [OF "1.prems" a(2), of NAND_READ "?k * pgsz (zspp f)" st] k p(2) by auto
    have "\<exists>u h. read_loop st elpn (lpn + ?k) (max t latest) g = Some (u, h) \<and> ztime g h \<and> max t latest \<le> u"
      by (rule "1.IH" [OF False a(1) _ refl n(1)]) (use p ztime_geo [OF n(2) "1.prems"] in simp_all)
    then obtain u h where "read_loop st elpn (lpn + ?k) (max t latest) g = Some (u, h)" "ztime g h" "max t latest \<le> u" by blast
    then show ?thesis using False a(1) p(1) n ztime_trans by (subst read_loop.simps) fastforce
  qed
qed

text \<open>The bytes of write buffer that have been given back when the first \<open>k\<close> pages of a zone are written.\<close>

definition released :: "zns_ftl \<Rightarrow> nat \<Rightarrow> nat" where
  "released f k = (if k = lpns_per_zone f then zone_size (zp f) else k div pgs_per_oneshotpg (zspp f) * (pgs_per_oneshotpg (zspp f) * pgsz (zspp f)))"

lemma released_cong: "ztime f f' \<Longrightarrow> released f' k = released f k"
  using ztimeD(6,7,10) [of f f'] by (simp add: released_def)

lemma zone_bytes: "zgeo f \<Longrightarrow> zone_size (zp f) = lpns_per_zone f * pgsz (zspp f)"
  by (auto simp: zgeo_def lpns_per_zone_def)

lemma released_step:
  assumes "zgeo f" "off < lpns_per_zone f" "off + k \<le> lpns_per_zone f" "0 < k" "k \<le> pgs_per_oneshotpg (zspp f) - off mod pgs_per_oneshotpg (zspp f)"
    and "lpn + k - 1 = zone_elpn \<longleftrightarrow> off + k = lpns_per_zone f"
  shows "released f (off + k) = released f off +
    (if off mod pgs_per_oneshotpg (zspp f) + k = pgs_per_oneshotpg (zspp f) \<or> lpn + k - 1 = zone_elpn
     then release_bytes (lpn + k - 1) zone_elpn f else 0)"
proof -
  let ?one = "pgs_per_oneshotpg (zspp f)" and ?L = "lpns_per_zone f" and ?p = "pgsz (zspp f)"
  have one: "0 < ?one" using assms(1) by (simp add: zgeo_def znand_ok_def)
  have p: "0 < ?p" using assms(1) by (simp add: zgeo_def)
  have r: "off mod ?one + k \<le> ?one" using assms(5) mod_less_divisor [OF one, of off] by linarith
  have off: "off + k = off div ?one * ?one + (off mod ?one + k)" by simp
  have zs: "zone_size (zp f) = ?L * ?p" by (rule zone_bytes [OF assms(1)])
  have R0: "released f off = off div ?one * (?one * ?p)" using assms(2) by (simp add: released_def)
  show ?thesis
  proof (cases "off + k = ?L")
    case True
    then have R: "released f (off + k) = off div ?one * ?one * ?p + (off mod ?one + k) * ?p"
      by (simp add: released_def zs) (metis True add_mult_distrib off)
    show ?thesis
    proof (cases "off mod ?one + k = ?one")
      case e: True
      have "?L = (off div ?one + 1) * ?one" using True off e by simp
      then have "zone_size (zp f) = (off div ?one + 1) * (?one * ?p)" unfolding zs by (simp only: mult.assoc)
      then have "zone_size (zp f) mod (?one * ?p) = 0" by simp
      then show ?thesis using True R R0 assms(6) e by (simp add: release_bytes_def u32_def)
    next
      case e: False
      then have lt: "off mod ?one + k < ?one" using r by simp
      have "zone_size (zp f) = (off mod ?one + k) * ?p + off div ?one * (?one * ?p)" using True off zs by (metis add.commute add_mult_distrib mult.assoc)
      moreover have "(off mod ?one + k) * ?p < ?one * ?p" using lt p by simp
      ultimately have m: "zone_size (zp f) mod (?one * ?p) = (off mod ?one + k) * ?p" by simp
      have "0 < (off mod ?one + k) * ?p" using assms(4) p by simp
      moreover have "(off mod ?one + k) * ?p < 2 ^ 32"
      proof -
        have "zone_size (zp f) < 2 ^ 32" using assms(1) by (simp add: zgeo_def)
        then show ?thesis using mod_less_eq_dividend [of "zone_size (zp f)" "?one * ?p"] unfolding m by linarith
      qed
      ultimately show ?thesis using True R R0 assms(6) m by (simp add: release_bytes_def)
    qed
  next
    case False
    show ?thesis
    proof (cases "off mod ?one + k = ?one")
      case e: True
      have "(off + k) div ?one = off div ?one + 1"
        using off e one by (metis Suc_eq_plus1 div_mult_self_is_m mult_Suc add.commute)
      then show ?thesis using False R0 assms(6) e by (simp add: released_def release_bytes_def algebra_simps)
    next
      case e: False
      then have "(off + k) div ?one = off div ?one" using off r one
        by (metis div_mult_self3 add.commute div_eq_0_iff add.right_neutral le_neq_implies_less less_numeral_extra(3))
      then show ?thesis using False R0 assms(6) e by (simp add: released_def)
    qed
  qed
qed

end
