(* ===== verification/Zns_Write_Laws.thy ===== *)
theory Zns_Write_Laws
  imports Zns_Io_Laws
begin

text \<open>
  The write of a zone: its loop, its switch, the move of the write pointer, and the command as a whole in each of its outcomes.
\<close>

section \<open>The loop over the pages\<close>

definition zop_ok :: "nat \<Rightarrow> zns_buffer \<Rightarrow> nat \<Rightarrow> nat \<Rightarrow> zns_op \<Rightarrow> bool" where
  "zop_ok sqid buf st t p \<longleftrightarrow> zo_sqid p = sqid \<and> zo_buffer p = buf \<and> st \<le> zo_nsecs p \<and> zo_nsecs p \<le> t"

lemma zop_ok_mono: "zop_ok sqid buf st t p \<Longrightarrow> t \<le> t' \<Longrightarrow> zop_ok sqid buf st t' p"
  by (simp add: zop_ok_def)

text \<open>One round: a wordline that is complete is programmed.\<close>

lemma program_step:
  assumes "zgeo f" "get_lun (zssd f) a \<noteq> None"
  shows "\<exists>t o1 g. (if b then do {
               (t, f) \<leftarrow> zns_nand (znand NAND_WRITE n st a) f;
               Some (max t latest, ops @ [\<lparr>zo_sqid = sqid, zo_nsecs = t, zo_buffer = buf, zo_release = release_bytes lpn elpn f\<rparr>], f) }
             else Some (latest, ops, f)) = Some (t, ops @ o1, g) \<and> ztime f g \<and> latest \<le> t \<and> (\<forall>p \<in> set o1. zop_ok sqid buf st t p) \<and>
      sum_list (map zo_release o1) = (if b then release_bytes lpn elpn f else 0)"
proof (cases b)
  case True
  obtain t g where n: "zns_nand (znand NAND_WRITE n st a) f = Some (t, g)" "ztime f g" "st \<le> t"
    using zns_nand_ok [OF assms, of NAND_WRITE n st] by blast
  have "release_bytes lpn elpn g = release_bytes lpn elpn f" using ztimeD(6,7) [OF n(2)] by (simp add: release_bytes_def)
  then show ?thesis using n True by (simp add: zop_ok_def)
qed simp

lemma zwrite_loop_ok:
  assumes "zgeo f" "zid < nr_zones (zp f)" "zid * lpns_per_zone f \<le> lpn" "lpn \<le> elpn + 1" "elpn < zid * lpns_per_zone f + lpns_per_zone f"
    and "zone_elpn = zid * lpns_per_zone f + lpns_per_zone f - 1"
  shows "\<exists>t ops' f'. write_loop sqid buf st zone_elpn elpn lpn latest ops f = Some (t, ops @ ops', f') \<and> ztime f f' \<and> latest \<le> t \<and>
    (\<forall>p \<in> set ops'. zop_ok sqid buf st t p) \<and>
    released f (lpn - zid * lpns_per_zone f) + sum_list (map zo_release ops') = released f (elpn + 1 - zid * lpns_per_zone f)"
  using assms
proof (induction sqid buf st zone_elpn elpn lpn latest ops f rule: write_loop.induct)
  case (1 sqid buf st zone_elpn elpn lpn latest ops f)
  let ?L = "lpns_per_zone f" and ?one = "pgs_per_oneshotpg (zspp f)"
  show ?case
  proof (cases "elpn < lpn")
    case True
    then have "lpn = elpn + 1" using "1.prems"(4) by simp
    then show ?thesis by (subst write_loop.simps) simp
  next
    case False
    define off where "off = lpn - zid * ?L"
    have o: "lpn = zid * ?L + off" "off < ?L" using "1.prems"(3,5) False by (simp_all add: off_def)
    obtain a where a: "lpn_to_ppa f lpn = Some a" "get_lun (zssd f) a \<noteq> None" "p_pg a < ?one" "p_pg a = off mod ?one"
      using lpn_to_ppa_ok [OF "1.prems"(1), of lpn] page_offset [OF "1.prems"(1,2) o(2)] o(1) by auto
    let ?k = "run_pgs ?one (elpn - lpn + 1) (p_pg a)"
    have one: "0 < ?one" using a(3) by simp
    have k: "0 < ?k" "?k \<le> elpn - lpn + 1" "?k \<le> ?one - off mod ?one"
      using run_pgs_pos(1) [OF one, of "elpn - lpn + 1" "p_pg a"] run_pgs_pos(2) [of ?one "elpn - lpn + 1" "p_pg a"] a(4) by (simp_all add: run_pgs_def)
    have ok: "off + ?k \<le> ?L" using k(2) o "1.prems"(5) False by linarith
    have last: "lpn + ?k - 1 = zone_elpn \<longleftrightarrow> off + ?k = ?L" using k(1) ok o "1.prems"(6) by linarith
    let ?b = "p_pg a mod ?one + ?k = ?one \<or> lpn + ?k - 1 = zone_elpn"
    note step = released_step [OF "1.prems"(1) o(2) ok k(1) k(3) last]
    have pm: "p_pg a mod ?one = off mod ?one" using a(4) by simp
    obtain t o1 g where s: "(if ?b then do {
               (t, f) \<leftarrow> zns_nand (znand NAND_WRITE (?one * pgsz (zspp f)) st a) f;
               Some (max t latest, ops @ [\<lparr>zo_sqid = sqid, zo_nsecs = t, zo_buffer = buf,
                       zo_release = release_bytes (lpn + ?k - 1) zone_elpn f\<rparr>], f) }
             else Some (latest, ops, f)) = Some (t, ops @ o1, g)" "ztime f g" "latest \<le> t" "\<forall>p \<in> set o1. zop_ok sqid buf st t p"
      "sum_list (map zo_release o1) = (if ?b then release_bytes (lpn + ?k - 1) zone_elpn f else 0)"
      using program_step [OF "1.prems"(1) a(2), of ?b "?one * pgsz (zspp f)" st latest ops sqid buf "lpn + ?k - 1" zone_elpn] by blast
    have sim: "lpns_per_zone g = ?L" "zp g = zp f" using ztimeD(6,10) [OF s(2)] by simp_all
    obtain u o2 h where r: "write_loop sqid buf st zone_elpn elpn (lpn + ?k) t (ops @ o1) g = Some (u, (ops @ o1) @ o2, h)" "ztime g h" "t \<le> u"
      "\<forall>p \<in> set o2. zop_ok sqid buf st u p"
      "released g (lpn + ?k - zid * ?L) + sum_list (map zo_release o2) = released g (elpn + 1 - zid * ?L)"
    proof -
      have "\<exists>u o2 h. write_loop sqid buf st zone_elpn elpn (lpn + ?k) t (ops @ o1) g = Some (u, (ops @ o1) @ o2, h) \<and> ztime g h \<and> t \<le> u \<and>
        (\<forall>p \<in> set o2. zop_ok sqid buf st u p) \<and>
        released g (lpn + ?k - zid * lpns_per_zone g) + sum_list (map zo_release o2) = released g (elpn + 1 - zid * lpns_per_zone g)"
        by (rule "1.IH" [OF False a(1) refl refl s(1) refl refl])
          (use "1.prems" ztime_geo [OF s(2)] sim k(2) False in simp_all)
      then show ?thesis using that sim by auto
    qed
    have e: "write_loop sqid buf st zone_elpn elpn lpn latest ops f = Some (u, ops @ (o1 @ o2), h)"
      using r(1) by (subst write_loop.simps) (simp only: False a(1) s(1) Let_def if_False Option.bind.bind_lunit prod.case append_assoc)
    have "lpn + ?k - zid * ?L = off + ?k" using o(1) by simp
    then have "released f off + sum_list (map zo_release (o1 @ o2)) = released f (elpn + 1 - zid * ?L)"
      using step s(5) r(5) released_cong [OF s(2)] pm by simp
    moreover have "\<forall>p \<in> set (o1 @ o2). zop_ok sqid buf st u p" using s(4) r(3,4) zop_ok_mono by auto
    ultimately show ?thesis using e r(2,3) s(2,3) ztime_trans off_def by (intro exI [of _ u] exI [of _ "o1 @ o2"] exI [of _ h]) auto
  qed
qed

section \<open>Buffers\<close>

lemma get_set_buffer:
  "get_buffer b f = Some v \<Longrightarrow> get_buffer b (set_buffer b w f) = Some w"
  "get_buffer b f = Some v \<Longrightarrow> set_buffer b v f = f"
  by (auto simp: get_buffer_def set_buffer_def idx_def split: zns_buffer.splits if_splits)

lemma set_buffer_simps [simp]:
  "zone_descs (set_buffer b v f) = zone_descs f" "res_infos (set_buffer b v f) = res_infos f" "zmem (set_buffer b v f) = zmem f"
  "zp (set_buffer b v f) = zp f" "zspp (set_buffer b v f) = zspp f" "lbas_per_zone (set_buffer b v f) = lbas_per_zone f"
  "lpns_per_zone (set_buffer b v f) = lpns_per_zone f"
  by (simp_all add: set_buffer_def zspp_def lbas_per_zone_def lpns_per_zone_def split: zns_buffer.splits)

lemma tm_inv_wbuf [simp]: "tm_inv (s\<lparr>write_buffer := b\<rparr>) = tm_inv s"
  by (simp add: tm_inv_def)

lemma set_buffer_keep [simp]: "zkeep f (set_buffer b v f)"
  by (simp add: set_buffer_def zkeep_def same_nand_def split: zns_buffer.splits)

lemma set_buffer_inv: "zinv f \<Longrightarrow> zinv (set_buffer b v f)"
  by (rule zinv_frame) simp_all

text \<open>The fields of the buffers.\<close>

definition same_bufs :: "zns_ftl \<Rightarrow> zns_ftl \<Rightarrow> bool" where
  "same_bufs f f' \<longleftrightarrow> (\<forall>b. get_buffer b f' = get_buffer b f)"

lemma same_bufsI:
  "write_buffer (zssd f') = write_buffer (zssd f) \<Longrightarrow> zone_write_buffer f' = zone_write_buffer f \<Longrightarrow> zrwa_buffer f' = zrwa_buffer f \<Longrightarrow> same_bufs f f'"
  by (simp add: same_bufs_def get_buffer_def split: zns_buffer.split)

lemma ztime_bufs: "ztime f f' \<Longrightarrow> same_bufs f f'"
  by (rule same_bufsI) (use ztimeD [of f f'] in auto)

lemma same_bufs_trans: "same_bufs f g \<Longrightarrow> same_bufs g h \<Longrightarrow> same_bufs f h"
  by (simp add: same_bufs_def)

lemma upd_bufs [simp]: "same_bufs f (upd_zone zid g f)" "same_bufs f (upd_res h t f)"
  by (auto intro: same_bufsI)

text \<open>A request for buffer that the buffer can hold is granted in full, or nothing changes.\<close>

lemma zns_allocate_ok:
  assumes "get_buffer b f = Some v" "n \<le> b_size v" "n < 2 ^ 32"
  shows "zns_allocate b n f =
    (if b_remaining v < n then Some (0, f) else Some (n, set_buffer b (v\<lparr>b_remaining := b_remaining v - n\<rparr>) f))"
  using assms by (auto simp: zns_allocate_def buffer_allocate_def get_set_buffer)

section \<open>The state of the zone\<close>

text \<open>The descriptor after a write of \<open>n\<close> blocks at the write pointer of a zone that is not full.\<close>

definition zone_opened :: "zone_descriptor \<Rightarrow> zone_descriptor" where
  "zone_opened z = (if opened z then z else z\<lparr>zd_state := ZONE_STATE_OPENED_IMPL\<rparr>)"

definition zone_advanced :: "nat \<Rightarrow> zone_descriptor \<Rightarrow> zone_descriptor" where
  "zone_advanced n z = (let z' = z\<lparr>zwp := zwp z + n\<rparr>
     in if zwp z + n = zslba z + zone_capacity z then z'\<lparr>zd_state := ZONE_STATE_FULL\<rparr> else z')"

lemma write_state_ok:
  assumes "zinv f" "zid < nr_zones (zp f)" "z = zone_descs f ! zid" "slba = zwp z" "zd_state z \<noteq> ZONE_STATE_FULL"
  shows "\<exists>g. write_state zid slba z f = (NVME_SC_SUCCESS, g) \<and> zinv g \<and> zkeep f g \<and> same_bufs f g \<and> zmem g = zmem f \<and>
    zone_descs g = (zone_descs f)[zid := zone_opened z] \<and> (\<not> zrwav z \<longrightarrow> leaks 0 f g)"
proof -
  note I = zinvD [OF assms(1)] and av = res_bounds(1,2) [OF assms(1,2)] and z = zinvD(4) [OF assms(1,2)]
  have l: "zid < length (zone_descs f)" using assms(2) I(3) by simp
  have b: "inc32 (acquired_cnt (res_infos f t)) = acquired_cnt (res_infos f t) + 1" for t
    using res_bounds(6) [OF assms(1,2), of t] by (simp add: inc32_small)
  have same: "zone_opened z = z \<Longrightarrow> (zone_descs f)[zid := zone_opened z] = zone_descs f" using assms(3) by simp
  let ?o = "\<lambda>g. change_zone_state zid ZONE_STATE_OPENED_IMPL (upd_res inc32 OPEN_ZONE g)"
  have step: "zinv (?o g) \<and> zkeep f (?o g) \<and> same_bufs f (?o g) \<and> zmem (?o g) = zmem f \<and> zone_descs (?o g) = (zone_descs f)[zid := zone_opened z] \<and>
      (\<not> zrwav z \<longrightarrow> leaks 0 f (?o g))"
    if "\<not> opened z" "g = (if zd_state z = ZONE_STATE_EMPTY then upd_res inc32 ACTIVE_ZONE f else f)" for g
  proof -
    have d: "zone_descs (?o g) = (zone_descs f)[zid := zone_opened z]" using that l assms(3) by (simp add: change_descs zone_opened_def)
    have k: "zkeep f (?o g)" using that(2) by (simp add: change_zone_state_def zkeep_def)
    have "zinv (?o g)"
    proof (rule zinv_step [OF assms(1) k d assms(2)])
      show "zone_ok (lbas_per_zone f) zid (zone_opened z)" using z assms(3,5) by (auto simp: zone_ok_def zone_opened_def)
    qed (use that z assms(3,5) b zrwa_le [OF assms(1)] in \<open>auto simp: zone_opened_def active_def opened_def upd_res_infos zone_ok_def intro: zone_state.exhaust [of "zd_state z"]\<close>)
    moreover have "same_bufs f (?o g)" using that(2) by (intro same_bufsI) (simp_all add: change_zone_state_def)
    moreover have "leaks 0 f (?o g)" if "\<not> zrwav z"
      by (rule leaks_step [OF d l]) (use that \<open>g = _\<close> assms(3) in \<open>simp add: zone_opened_def upd_res_infos\<close>)
    ultimately show ?thesis using d k that(2) by simp
  qed
  show ?thesis
  proof (cases "zd_state z")
    case ZONE_STATE_EMPTY
    then have n: "\<not> active z" "\<not> opened z" by (simp_all add: active_def opened_def)
    then have a: "is_zone_resource_avail f ACTIVE_ZONE" "is_zone_resource_avail f OPEN_ZONE" using av assms(3) by simp_all
    have "slba = zslba z" using z assms(3,4) ZONE_STATE_EMPTY by (simp add: zone_ok_def)
    then have "write_state zid slba z f = (NVME_SC_SUCCESS, ?o (upd_res inc32 ACTIVE_ZONE f))"
      using ZONE_STATE_EMPTY a by (simp add: write_state_def write_open_closed_def acquire_avail avail_upd)
    then show ?thesis using step [OF n(2) refl] ZONE_STATE_EMPTY by simp
  next
    case ZONE_STATE_CLOSED
    then have n: "\<not> opened z" by (simp add: opened_def)
    then have "write_state zid slba z f = (NVME_SC_SUCCESS, ?o f)"
      using ZONE_STATE_CLOSED av(2) assms(3) by (simp add: write_state_def write_open_closed_def acquire_avail)
    then show ?thesis using step [OF n refl] ZONE_STATE_CLOSED by simp
  qed (use assms z same in \<open>auto simp: write_state_def zone_opened_def opened_def zone_ok_def same_bufs_def\<close>)
qed

section \<open>The write pointer\<close>

lemma zone_to_slba_upd: "zone_to_slba (upd_zone zid g f) i = zone_to_slba f i"
  by (simp add: zone_to_slba_def)

lemma increase_write_ptr_ok:
  assumes "zinv f" "zid < nr_zones (zp f)" "z = zone_descs f ! zid" "opened z" "\<not> zrwav z" "n < 2 ^ 32" "zwp z + n \<le> zslba z + zone_capacity z"
  shows "\<exists>g. increase_write_ptr zid n f = Some g \<and> zinv g \<and> zkeep f g \<and> same_bufs f g \<and> zmem g = zmem f \<and>
    zone_descs g = (zone_descs f)[zid := zone_advanced n z] \<and> leaks 0 f g"
proof -
  note I = zinvD [OF assms(1)] and z = zinvD(4) [OF assms(1,2)] and e = zone_end [OF zinvD(1) [OF assms(1)] assms(2)]
  have l: "zid < length (zone_descs f)" using assms(2) I(3) by simp
  have a: "active z" using assms(4) by (simp add: active_def)
  have b: "0 < acquired_cnt (res_infos f ACTIVE_ZONE)" "0 < acquired_cnt (res_infos f OPEN_ZONE)" "acquired_cnt (res_infos f t) < 2 ^ 32" for t
    using res_bounds(3,4) [OF assms(1,2)] res_bounds(6) [OF assms(1,2), of t] a assms(3,4) by simp_all
  have Z: "zslba z = zid * lbas_per_zone f" "zone_capacity z = lbas_per_zone f" using z assms(3) by (simp_all add: zone_ok_def)
  then have w: "u64 (zwp z + u32 n) = zwp z + n" "u64 (zone_to_slba f zid + zone_capacity z) = zslba z + zone_capacity z"
    using e assms(6,7) zone_slba [OF I(1) assms(2)] by (simp_all add: u32_def u64_def)
  let ?w = "upd_zone zid (\<lambda>z'. z'\<lparr>zwp := zwp z + n\<rparr>) f"
  let ?r = "release_zone_resource ACTIVE_ZONE (release_zone_resource OPEN_ZONE ?w)"
  let ?g = "if zwp z + n = zslba z + zone_capacity z then change_zone_state zid ZONE_STATE_FULL ?r else ?w"
  have "increase_write_ptr zid n f = Some ?g"
    using l w by (simp add: increase_write_ptr_def arr_simps Let_def assms(3) [symmetric] zone_to_slba_upd)
  moreover have d: "zone_descs ?g = (zone_descs f)[zid := zone_advanced n z]"
    using l assms(3) by (simp add: change_descs upd_zone_descs zone_advanced_def)
  moreover have k: "zkeep f ?g" by (simp add: release_zone_resource_def change_zone_state_def zkeep_def)
  moreover have "same_bufs f ?g" by (rule same_bufsI) (simp_all add: release_zone_resource_def change_zone_state_def)
  moreover have "zinv ?g"
  proof (rule zinv_step [OF assms(1) k d assms(2)])
    show "zone_ok (lbas_per_zone f) zid (zone_advanced n z)"
      using z assms(3-5,7) Z by (auto simp: zone_ok_def zone_advanced_def opened_def Let_def)
  qed (use assms(3-5) a b zrwa_le [OF assms(1)] in \<open>auto simp: zone_advanced_def active_def opened_def release_infos Let_def\<close>)
  moreover have "leaks 0 f ?g"
    by (rule leaks_step [OF d l]) (use assms(3,5) in \<open>simp add: zone_advanced_def Let_def release_zone_resource_def upd_res_infos\<close>)
  ultimately show ?thesis by (intro exI [of _ ?g]) simp
qed

lemma u32_near: "a \<le> b \<Longrightarrow> b < a + 2 ^ 32 \<Longrightarrow> u32 a = u32 b \<longleftrightarrow> a = b"
proof -
  assume ab: "a \<le> b" "b < a + 2 ^ 32"
  have "a = b" if "u32 a = u32 b"
  proof -
    have "2 ^ 32 dvd b - a" using that mod_eq_dvd_iff_nat [OF ab(1), of "2 ^ 32"] unfolding u32_def by metis
    then show ?thesis using ab nat_dvd_not_less [of "b - a" "2 ^ 32"] by fastforce
  qed
  then show ?thesis by blast
qed

lemma boundary:
  assumes "zgeo f" "0 < n" "n \<le> 2 ^ 16" "slba + n \<le> 2 ^ 63"
  shows "check_boundary_error f slba n \<longleftrightarrow> slba mod lbas_per_zone f + n \<le> lbas_per_zone f"
proof -
  let ?L = "lbas_per_zone f"
  have L: "0 < ?L" by (rule zgeo_pos(1) [OF assms(1)])
  have s: "sub64 (slba + n) 1 = slba + n - 1" using assms(2,4) by (simp add: sub64_le)
  have le: "slba div ?L \<le> (slba + n - 1) div ?L" using assms(2) by (intro div_le_mono) simp
  have "(slba + n - 1) div ?L \<le> slba div ?L + n"
  proof -
    have "n * 1 \<le> n * ?L" using L by (intro mult_le_mono2) simp
    then have "slba + n - 1 \<le> slba + n * ?L" by linarith
    then have "(slba + n - 1) div ?L \<le> (slba + n * ?L) div ?L" by (rule div_le_mono)
    then show ?thesis using L by simp
  qed
  then have "(slba + n - 1) div ?L < slba div ?L + 2 ^ 32" using assms(3) by simp
  then have "check_boundary_error f slba n \<longleftrightarrow> slba div ?L = (slba + n - 1) div ?L"
    unfolding check_boundary_error_def lba_to_zone_def s by (rule u32_near [OF le])
  also have "\<dots> \<longleftrightarrow> slba mod ?L + n \<le> ?L"
  proof -
    have e: "slba + n - 1 = slba div ?L * ?L + (slba mod ?L + n - 1)" using assms(2) by simp
    show ?thesis
    proof
      assume "slba div ?L = (slba + n - 1) div ?L"
      then have "slba + n - 1 < slba div ?L * ?L + ?L" using L by (metis add.commute div_mult_mod_eq mod_less_divisor nat_add_left_cancel_less)
      then show "slba mod ?L + n \<le> ?L" using e assms(2) by linarith
    next
      assume "slba mod ?L + n \<le> ?L"
      then have "slba mod ?L + n - 1 < ?L" using assms(2) by linarith
      then have "(slba div ?L * ?L + (slba mod ?L + n - 1)) div ?L = slba div ?L" using L by simp
      then show "slba div ?L = (slba + n - 1) div ?L" unfolding e [symmetric] by simp
    qed
  qed
  finally show ?thesis .
qed

section \<open>The command\<close>

text \<open>The block that the write starts at, its buffer, and its status, as the protocol has them.\<close>

definition write_lba :: "nvme_command \<Rightarrow> zone_descriptor \<Rightarrow> nat" where
  "write_lba c z = (if opcode c = nvme_cmd_zone_append then zwp z else rw_slba c)"

definition write_buf :: "zns_ftl \<Rightarrow> nat \<Rightarrow> zns_buffer" where
  "write_buf f zid = (if zone_wb_size (zp f) \<noteq> 0 then Zone_Buffer zid else Global_Buffer)"

definition zone_write_status :: "ssd_config \<Rightarrow> zns_ftl \<Rightarrow> nat \<Rightarrow> nat \<Rightarrow> zone_descriptor \<Rightarrow> nat" where
  "zone_write_status cfg f slba n z =
     (if LBA_TO_BYTE cfg n mod write_unit_size (zspp f) \<noteq> 0 then NVME_SC_ZNS_INVALID_WRITE
      else if lbas_per_zone f < slba mod lbas_per_zone f + n then NVME_SC_ZNS_ERR_BOUNDARY
      else if slba \<noteq> zwp z then NVME_SC_ZNS_INVALID_WRITE
      else if zd_state z = ZONE_STATE_FULL then NVME_SC_ZNS_ERR_FULL
      else NVME_SC_SUCCESS)"

text \<open>The operations of a write give back the bytes of the wordlines that it completes.\<close>

definition write_ops_ok :: "zns_ftl \<Rightarrow> nat \<Rightarrow> nat \<Rightarrow> nat \<Rightarrow> nat \<Rightarrow> nat \<Rightarrow> zns_op list \<Rightarrow> bool" where
  "write_ops_ok f sqid zid slba n t ops \<longleftrightarrow>
     (\<forall>p \<in> set ops. zo_sqid p = sqid \<and> zo_buffer p = write_buf f zid \<and> zo_nsecs p \<le> t) \<and>
     (let off = slba - zid * lbas_per_zone f
      in released f (off div secs_per_pg (zspp f)) + sum_list (map zo_release ops) = released f ((off + n - 1) div secs_per_pg (zspp f) + 1))"

text \<open>The pages of a range of blocks in a zone.\<close>

lemma range_pages:
  assumes "zgeo f" "zid < nr_zones (zp f)" "zid * lbas_per_zone f \<le> lba" "lba < zid * lbas_per_zone f + lbas_per_zone f"
  shows "lba_to_lpn f lba = zid * lpns_per_zone f + (lba - zid * lbas_per_zone f) div secs_per_pg (zspp f)"
    "(lba - zid * lbas_per_zone f) div secs_per_pg (zspp f) < lpns_per_zone f"
proof -
  have g: "0 < secs_per_pg (zspp f)" "lbas_per_zone f = lpns_per_zone f * secs_per_pg (zspp f)"
    using assms(1) zgeo_pos(3) [OF assms(1)] by (simp_all add: zgeo_def)
  have "lba = zid * lpns_per_zone f * secs_per_pg (zspp f) + (lba - zid * lbas_per_zone f)" using assms(3) by (simp add: g(2) mult.assoc)
  then show "lba_to_lpn f lba = zid * lpns_per_zone f + (lba - zid * lbas_per_zone f) div secs_per_pg (zspp f)"
    unfolding lba_to_lpn_def using g(1) by (metis div_mult_self3 less_numeral_extra(3))
  have "lba - zid * lbas_per_zone f < lpns_per_zone f * secs_per_pg (zspp f)" using assms(3,4) g(2) by linarith
  then show "(lba - zid * lbas_per_zone f) div secs_per_pg (zspp f) < lpns_per_zone f" by (simp add: less_mult_imp_div_less)
qed

lemma zone_elpn:
  assumes "zgeo f" "zid < nr_zones (zp f)"
  shows "zone_to_elpn f zid = zid * lpns_per_zone f + lpns_per_zone f - 1"
proof -
  have g: "0 < secs_per_pg (zspp f)" "lbas_per_zone f = lpns_per_zone f * secs_per_pg (zspp f)" "0 < lbas_per_zone f" "0 < lpns_per_zone f"
    using assms(1) zgeo_pos [OF assms(1)] by (simp_all add: zgeo_def)
  have "zone_to_elpn f zid = lba_to_lpn f (zid * lbas_per_zone f + lbas_per_zone f - 1)"
    by (simp add: zone_to_elpn_def lba_to_lpn_def zone_elba [OF assms])
  also have "\<dots> = zid * lpns_per_zone f + (lbas_per_zone f - 1) div secs_per_pg (zspp f)"
    by (subst range_pages(1) [OF assms]) (use g(3) in auto)
  also have "(lbas_per_zone f - 1) div secs_per_pg (zspp f) = lpns_per_zone f - 1"
  proof -
    have "lpns_per_zone f * secs_per_pg (zspp f) - 1 = (lpns_per_zone f - 1) * secs_per_pg (zspp f) + (secs_per_pg (zspp f) - 1)"
      using g(1,4) by (cases "lpns_per_zone f") simp_all
    moreover have "(a * s + (s - 1)) div s = a" if "0 < s" for a s :: nat
      by (rule div_nat_eqI) (use that in \<open>simp_all add: mult.commute\<close>)
    ultimately show ?thesis using g(1) by (simp only: g(2))
  qed
  finally show ?thesis using g(4) by simp
qed

text \<open>What follows when the zone has been opened: the write pointer, the time and the pages.\<close>

lemma write_tail_ok:
  assumes "zinv f" "zid < nr_zones (zp f)" "z = zone_descs f ! zid" "opened z" "\<not> zrwav z" "0 < n" "n \<le> 2 ^ 16"
    "zwp z + n \<le> zslba z + zone_capacity z"
  shows "\<exists>g u s v ops h. increase_write_ptr zid n f = Some g \<and> ssd_advance_write_buffer (zssd g) start bytes = Some (u, s) \<and>
    write_loop sqid (write_buf f zid) u (zone_to_elpn f zid) (lba_to_lpn f (sub64 (zwp z + n) 1)) (lba_to_lpn f (zwp z)) u [] (g\<lparr>zssd := s\<rparr>) = Some (v, ops, h) \<and>
    start + fw_wbuf_lat0 (zspp f) + fw_wbuf_lat1 (zspp f) * DIV_ROUND_UP bytes (KB 4) \<le> u \<and> u \<le> v \<and> write_ops_ok f sqid zid (zwp z) n v ops \<and>
    zinv h \<and> same_bufs f h \<and> zmem h = zmem f \<and> zone_descs h = (zone_descs f)[zid := zone_advanced n z] \<and>
    leaks 0 f h"
proof -
  note z = zinvD(4) [OF assms(1,2)] and G = zinvD(1) [OF assms(1)]
  note e = zone_end [OF G assms(2)]
  have Z: "zslba z = zid * lbas_per_zone f" "zone_capacity z = lbas_per_zone f" "zslba z \<le> zwp z" using z assms(3,5) by (simp_all add: zone_ok_def)
  have n32: "n < 2 ^ 32" using assms(7) by simp
  obtain g where g: "increase_write_ptr zid n f = Some g" "zinv g" "zkeep f g" "same_bufs f g" "zmem g = zmem f"
      "zone_descs g = (zone_descs f)[zid := zone_advanced n z]" "leaks 0 f g"
    using increase_write_ptr_ok [OF assms(1-5) n32 assms(8)] by blast
  have same: "zspp g = zspp f" "lbas_per_zone g = lbas_per_zone f" "zgeo g" "zp g = zp f"
    using zkeep_geo [OF g(3) G] g(3) by (simp_all add: zkeep_def)
  then have lp: "lpns_per_zone g = lpns_per_zone f" by (simp add: lpns_per_zone_def)
  obtain u s where u: "ssd_advance_write_buffer (zssd g) start bytes = Some (u, s)" "ztime g (g\<lparr>zssd := s\<rparr>)"
      "start + fw_wbuf_lat0 (zspp f) + fw_wbuf_lat1 (zspp f) * DIV_ROUND_UP bytes (KB 4) \<le> u"
    using wbuf_ok [OF same(3), of start bytes] same(1) by auto
  let ?k = "g\<lparr>zssd := s\<rparr>" and ?off = "zwp z - zid * lbas_per_zone f" and ?S = "secs_per_pg (zspp f)" and ?L = "lpns_per_zone f"
  have k: "zgeo ?k" "zp ?k = zp f" "lpns_per_zone ?k = lpns_per_zone f" using ztime_geo [OF u(2) same(3)] ztimeD(6,10) [OF u(2)] same(4) lp by simp_all
  have b: "zid * lbas_per_zone f \<le> zwp z" "zwp z + n \<le> zid * lbas_per_zone f + lbas_per_zone f" using Z assms(8) by simp_all
  have p1: "lba_to_lpn f (zwp z) = zid * ?L + ?off div ?S" "?off div ?S < ?L"
    using range_pages [OF G assms(2), of "zwp z"] b assms(6) by simp_all
  have s1: "sub64 (zwp z + n) 1 = zwp z + n - 1" using b e assms(6) by (simp add: sub64_le)
  have "zwp z + n - 1 - zid * lbas_per_zone f = ?off + n - 1" using b(1) assms(6) by linarith
  then have p2: "lba_to_lpn f (zwp z + n - 1) = zid * ?L + (?off + n - 1) div ?S" "(?off + n - 1) div ?S < ?L"
    using range_pages [OF G assms(2), of "zwp z + n - 1"] b assms(6) by simp_all
  have "\<exists>t ops h. write_loop sqid (write_buf f zid) u (zone_to_elpn f zid) (zid * ?L + (?off + n - 1) div ?S) (zid * ?L + ?off div ?S) u [] ?k = Some (t, [] @ ops, h) \<and>
      ztime ?k h \<and> u \<le> t \<and> (\<forall>p \<in> set ops. zop_ok sqid (write_buf f zid) u t p) \<and>
      released ?k (zid * ?L + ?off div ?S - zid * lpns_per_zone ?k) + sum_list (map zo_release ops) =
      released ?k (zid * ?L + (?off + n - 1) div ?S + 1 - zid * lpns_per_zone ?k)"
  proof (rule zwrite_loop_ok [OF k(1)])
    have "?off div ?S \<le> (?off + n - 1) div ?S" using assms(6) by (intro div_le_mono) simp
    then show "zid * ?L + ?off div ?S \<le> zid * ?L + (?off + n - 1) div ?S + 1" by simp
  qed (use assms(2) p2(2) zone_elpn [OF G assms(2)] in \<open>simp_all add: k(2,3)\<close>)
  then obtain t ops h where w: "write_loop sqid (write_buf f zid) u (zone_to_elpn f zid) (zid * ?L + (?off + n - 1) div ?S) (zid * ?L + ?off div ?S) u [] ?k = Some (t, ops, h)"
      "ztime ?k h" "u \<le> t" "\<forall>p \<in> set ops. zop_ok sqid (write_buf f zid) u t p"
      "released ?k (?off div ?S) + sum_list (map zo_release ops) = released ?k ((?off + n - 1) div ?S + 1)"
    by (auto simp: k(3))
  have T: "ztime g h" by (rule ztime_trans [OF u(2) w(2)])
  have rk: "released ?k i = released f i" for i using k(2,3) ztimeD(7) [OF u(2)] same(1) by (simp add: released_def)
  have "write_ops_ok f sqid zid (zwp z) n t ops" using w(4,5) by (simp add: write_ops_ok_def zop_ok_def rk Let_def)
  moreover have "zinv h" by (rule ztime_inv [OF T g(2)])
  moreover have "same_bufs f h" by (rule same_bufs_trans [OF g(4) ztime_bufs [OF T]])
  moreover have "zmem h = zmem f" "zone_descs h = (zone_descs f)[zid := zone_advanced n z]" using ztimeD(1,3) [OF T] g(5,6) by simp_all
  moreover have "leaks 0 f h" by (rule leaks_trans0 [OF g(7) leaks_same [OF ztimeD(1,2) [OF T]]])
  moreover note w(1) [folded p1(1) p2(1), folded s1]
  ultimately show ?thesis using g(1) u(1,3) w(3) by blast
qed

text \<open>A plain write as a whole: refused, ended by an error that keeps the buffer it has taken, or carried out.\<close>

lemma zns_write_plain_ok:
  assumes "zinv f" "zid < nr_zones (zp f)" "z = zone_descs f ! zid" "\<not> zrwav z" "lba_to_zone f (rw_slba c) = zid"
    and "opcode c \<noteq> nvme_cmd_zone_append \<longrightarrow> rw_slba c \<le> 2 ^ 62"
    and "c = rq_cmd req" "slba = write_lba c z" "n = rw_length c + 1" "n \<le> 2 ^ 16" "bytes = LBA_TO_BYTE cfg n" "0 < bytes" "bytes < 2 ^ 32"
    and "get_buffer (write_buf f zid) f = Some b" "bytes \<le> b_size b"
  shows "\<exists>r ops c' f'. zns_write_plain cfg f req = Some (r, ops, c', f') \<and> zinv f' \<and> zmem f' = zmem f \<and> leaks 0 f f' \<and>
    c' = (if opcode c = nvme_cmd_zone_append then set_slba (zwp z) c else c) \<and>
    (if b_remaining b < bytes then r = None \<and> ops = [] \<and> f' = f
     else get_buffer (write_buf f zid) f' = Some (b\<lparr>b_remaining := b_remaining b - bytes\<rparr>) \<and>
       (let st = zone_write_status cfg f slba n z
        in \<exists>t. r = Some \<lparr>rs_status = st, rs_nsecs_target = t\<rparr> \<and>
          (if st = NVME_SC_SUCCESS
           then zone_descs f' = (zone_descs f)[zid := zone_advanced n (zone_opened z)] \<and>
             rq_nsecs_start req + fw_wbuf_lat0 (zspp f) + fw_wbuf_lat1 (zspp f) * DIV_ROUND_UP bytes (KB 4) \<le> t \<and>
             (\<exists>v. write_ops_ok f (rq_sq_id req) zid slba n v ops)
           else t = rq_nsecs_start req \<and> ops = [] \<and> zone_descs f' = zone_descs f)))"
proof -
  note G = zinvD(1) [OF assms(1)] and z = zinvD(4) [OF assms(1,2)]
  have l: "zid < length (zone_descs f)" "idx (zone_descs f) zid = Some z" using assms(2,3) zinvD(3) [OF assms(1)] by (simp_all add: arr_simps)
  have g: "secs_per_pg (zspp f) \<noteq> 0" "write_unit_size (zspp f) \<noteq> 0" "zwp z \<le> 2 ^ 32"
    using G z zone_end [OF G assms(2)] assms(3,4) by (simp_all add: zgeo_def zone_ok_def)
  have n: "0 < n" "slba + n \<le> 2 ^ 63"
    using assms(6,8,9,10) g(3) G by (auto simp: write_lba_def zgeo_def)
  define c' where "c' = (if opcode c = nvme_cmd_zone_append then set_slba (zwp z) c else c)"
  define k where "k = set_buffer (write_buf f zid) (b\<lparr>b_remaining := b_remaining b - bytes\<rparr>) f"
  have K: "zinv k" "zone_descs k = zone_descs f" "zmem k = zmem f" "zp k = zp f" "zspp k = zspp f" "lbas_per_zone k = lbas_per_zone f"
    "lpns_per_zone k = lpns_per_zone f" "get_buffer (write_buf f zid) k = Some (b\<lparr>b_remaining := b_remaining b - bytes\<rparr>)"
    "write_buf k zid = write_buf f zid" "leaks 0 f k"
    using set_buffer_inv [OF assms(1)] get_set_buffer(1) [OF assms(14)] by (simp_all add: k_def write_buf_def leaks_same)
  have al: "zns_allocate (write_buf f zid) bytes f = (if b_remaining b < bytes then Some (0, f) else Some (bytes, k))"
    unfolding k_def by (rule zns_allocate_ok [OF assms(14,15,13)])
  let ?st = "zone_write_status cfg f slba n z" and ?w = "write_check cfg slba n z k"
  have wc: "?w = (if ?st = NVME_SC_ZNS_ERR_FULL then NVME_SC_SUCCESS else ?st)"
    using boundary [OF G n(1) assms(10) n(2)] K(5,6)
    by (auto simp: write_check_def zone_write_status_def zns_status check_boundary_error_def lba_to_zone_def)
  have unf: "zns_write_plain cfg f req = (if b_remaining b < bytes then Some (None, [], c', f)
     else case (case ?w of st \<Rightarrow> if st \<noteq> NVME_SC_SUCCESS then (st, k) else write_state zid slba z k) of (st, g) \<Rightarrow>
       if st \<noteq> NVME_SC_SUCCESS then Some (Some (write_result c' g st (rq_nsecs_start req) (rq_nsecs_start req)), [], c', g)
       else do {
         g \<leftarrow> increase_write_ptr zid n g;
         (u, s) \<leftarrow> ssd_advance_write_buffer (zssd g) (rq_nsecs_start req) bytes;
         (v, ops, h) \<leftarrow> write_loop (rq_sq_id req) (write_buf f zid) u (zone_to_elpn f zid) (lba_to_lpn f (sub64 (slba + n) 1)) (lba_to_lpn f slba)
           u [] (g\<lparr>zssd := s\<rparr>);
         Some (Some (write_result c' h NVME_SC_SUCCESS v u), ops, c', h) })"
    unfolding zns_write_plain_def Let_def assms(7) [symmetric] assms(5) l(2) Option.bind.bind_lunit write_lba_def [symmetric] assms(8) [symmetric]
      assms(9) [symmetric] assms(11) [symmetric] write_buf_def [symmetric] c'_def [symmetric] al
    using g(1,2) assms(12) K(5) by simp
  show ?thesis
  proof (cases "b_remaining b < bytes")
    case True
    then have "zns_write_plain cfg f req = Some (None, [], c', f)" using assms(12) by (simp add: unf)
    then show ?thesis using True assms(1) by (simp add: c'_def)
  next
    case False
    show ?thesis
    proof (cases "?st = NVME_SC_SUCCESS")
      case err: False
      have "(case ?w of st \<Rightarrow> if st \<noteq> NVME_SC_SUCCESS then (st, k) else write_state zid slba z k) = (?st, k)"
        using wc err by (auto simp: write_state_def zone_write_status_def zns_status split: if_splits)
      then have "zns_write_plain cfg f req = Some (Some (write_result c' k ?st (rq_nsecs_start req) (rq_nsecs_start req)), [], c', k)"
        using False err by (simp add: unf)
      then show ?thesis using False err K by (simp add: c'_def write_result_def Let_def)
    next
      case ok: True
      then have s: "slba = zwp z" "zd_state z \<noteq> ZONE_STATE_FULL" "slba mod lbas_per_zone f + n \<le> lbas_per_zone f"
        by (auto simp: zone_write_status_def zns_status split: if_splits)
      have zk: "zid < nr_zones (zp k)" "z = zone_descs k ! zid" using assms(2,3) K(2,4) by simp_all
      obtain g where g1: "write_state zid slba z k = (NVME_SC_SUCCESS, g)" "zinv g" "zkeep k g" "same_bufs k g" "zmem g = zmem k"
          "zone_descs g = (zone_descs k)[zid := zone_opened z]" "leaks 0 k g"
        using write_state_ok [OF K(1) zk s(1,2)] assms(4) by blast
      have same: "zspp g = zspp f" "lbas_per_zone g = lbas_per_zone f" "zp g = zp f"
        using zkeep_geo(2,3) [OF g1(3) zinvD(1) [OF K(1)]] g1(3) K(4-6) by (simp_all add: zkeep_def)
      let ?z = "zone_opened z"
      have zo: "opened ?z" "\<not> zrwav ?z" "zwp ?z = zwp z" "zslba ?z = zslba z" "zone_capacity ?z = zone_capacity z"
        using assms(4) by (auto simp: zone_opened_def opened_def)
      have zg: "zid < nr_zones (zp g)" "?z = zone_descs g ! zid" using assms(2) same(3) g1(6) K(2) l(1) by simp_all
      have room: "zwp ?z + n \<le> zslba ?z + zone_capacity ?z"
      proof -
        have Z: "zslba z = zid * lbas_per_zone f" "zone_capacity z = lbas_per_zone f" "zslba z \<le> zwp z" "zwp z < zslba z + lbas_per_zone f"
          using z assms(3,4) s(2) by (simp_all add: zone_ok_def)
        then have "zwp z mod lbas_per_zone f = zwp z - zslba z"
          by (metis add_diff_cancel_left' le_Suc_ex mod_less mod_mult_self3 nat_add_left_cancel_less)
        then show ?thesis using s(1,3) Z zo by simp
      qed
      obtain g' u s v ops h where t: "increase_write_ptr zid n g = Some g'" "ssd_advance_write_buffer (zssd g') (rq_nsecs_start req) bytes = Some (u, s)"
          "write_loop (rq_sq_id req) (write_buf g zid) u (zone_to_elpn g zid) (lba_to_lpn g (sub64 (zwp ?z + n) 1)) (lba_to_lpn g (zwp ?z)) u [] (g'\<lparr>zssd := s\<rparr>) =
            Some (v, ops, h)"
          "rq_nsecs_start req + fw_wbuf_lat0 (zspp g) + fw_wbuf_lat1 (zspp g) * DIV_ROUND_UP bytes (KB 4) \<le> u" "u \<le> v"
          "write_ops_ok g (rq_sq_id req) zid (zwp ?z) n v ops" "zinv h" "same_bufs g h" "zmem h = zmem g" "zone_descs h = (zone_descs g)[zid := zone_advanced n ?z]"
          "leaks 0 g h"
        using write_tail_ok [OF g1(2) zg zo(1,2) n(1) assms(10) room, of "rq_nsecs_start req" bytes "rq_sq_id req"] by blast
      have lp: "lpns_per_zone g = lpns_per_zone f" using same by (simp add: lpns_per_zone_def)
      have eqs: "write_buf g zid = write_buf f zid" "zone_to_elpn g zid = zone_to_elpn f zid" "\<And>x. lba_to_lpn g x = lba_to_lpn f x" "\<And>i. released g i = released f i"
        using same lp by (simp_all add: write_buf_def zone_to_elpn_def zone_to_elba_def zone_to_slba_def lba_to_lpn_def released_def)
      have cs: "(case ?w of st \<Rightarrow> if st \<noteq> NVME_SC_SUCCESS then (st, k) else write_state zid slba z k) = (NVME_SC_SUCCESS, g)"
        using wc ok g1(1) by (simp add: zns_status)
      have "zns_write_plain cfg f req = Some (Some (write_result c' h NVME_SC_SUCCESS v u), ops, c', h)"
        using False t(1,2) t(3) [unfolded eqs zo(3), folded s(1)] cs by (simp add: unf)
      moreover have "write_ops_ok f (rq_sq_id req) zid slba n v ops" using t(6) by (simp add: write_ops_ok_def eqs same zo(3) s(1))
      moreover have "get_buffer (write_buf f zid) h = Some (b\<lparr>b_remaining := b_remaining b - bytes\<rparr>)"
        using t(8) g1(4) K(8) by (simp add: same_bufs_def)
      moreover have "leaks 0 f h" by (rule leaks_trans0 [OF leaks_trans0 [OF K(10) g1(7)] t(11)])
      ultimately show ?thesis using False ok t(4,5,7,9,10) g1(5,6) K(2,3) same(1)
        by (auto simp: write_result_def Let_def c'_def)
    qed
  qed
qed

end
