(* ===== verification/Zns_Report_Laws.thy ===== *)
theory Zns_Report_Laws
  imports Zns_Mgmt_Laws Prp_Laws
begin

text \<open>
  The zone report: what the buffer holds, what arrives in the pages of the host, and that the descriptors are read back from
  there. The transfer to the host is the one of a read command from the buffer.
\<close>

section \<open>Bytes of numbers and descriptors\<close>

fun le_val :: "nat list \<Rightarrow> nat" where
  "le_val [] = 0"
| "le_val (b # bs) = b + 256 * le_val bs"

lemma length_le_bytes [simp]: "length (le_bytes n v) = n"
  by (simp add: le_bytes_def)

lemma le_bytes_Suc: "le_bytes (Suc n) v = v mod 256 # le_bytes n (v div 256)"
  by (simp add: le_bytes_def upt_conv_Cons map_Suc_upt [symmetric] comp_def div_mult2_eq del: upt_Suc)

lemma le_val_bytes: "le_val (le_bytes n v) = v mod 256 ^ n"
proof (induction n arbitrary: v)
  case 0
  then show ?case by (simp add: le_bytes_def)
next
  case (Suc n)
  have "v mod 256 ^ Suc n = v mod 256 + 256 * (v div 256 mod 256 ^ n)"
    by (simp add: mod_mult2_eq)
  then show ?case by (simp add: le_bytes_Suc Suc)
qed

lemma length_zd_bytes [simp]: "length (zd_bytes z) = 64"
  by (simp add: zd_bytes_def)

definition state_of_code :: "nat \<Rightarrow> zone_state" where
  "state_of_code c = (if c = 1 then ZONE_STATE_EMPTY else if c = 2 then ZONE_STATE_OPENED_IMPL else if c = 3 then ZONE_STATE_OPENED_EXPL
     else if c = 4 then ZONE_STATE_CLOSED else if c = 13 then ZONE_STATE_READ_ONLY else if c = 14 then ZONE_STATE_FULL else ZONE_STATE_OFFLINE)"

lemma state_of_code [simp]: "state_of_code (zone_state_code s) = s"
  by (cases s) (simp_all add: state_of_code_def)

text \<open>How the host reads a descriptor.\<close>

definition zd_parse :: "nat list \<Rightarrow> zone_descriptor" where
  "zd_parse b = \<lparr>zd_type = b ! 0 mod 16, zd_state = state_of_code (b ! 1 div 16), zrwav = odd (b ! 2 div 8),
     zone_capacity = le_val (take 8 (drop 8 b)), zslba = le_val (take 8 (drop 16 b)), zwp = le_val (take 8 (drop 24 b))\<rparr>"

lemma zd_parse_bytes:
  assumes "zd_type z < 16" "zone_capacity z < 2 ^ 64" "zslba z < 2 ^ 64" "zwp z < 2 ^ 64"
  shows "zd_parse (zd_bytes z) = z"
proof -
  have p: "256 ^ 8 = (2::nat) ^ 64" by simp
  have "zone_state_code (zd_state z) < 16" by (cases "zd_state z") simp_all
  then show ?thesis using assms by (cases z) (auto simp: zd_parse_def zd_bytes_def le_val_bytes p numeral_2_eq_2 simp del: power_numeral)
qed

lemma concat_nth:
  assumes "k < length zs"
  shows "take 64 (drop (64 * k) (concat (map zd_bytes zs))) = zd_bytes (zs ! k)" "length (concat (map zd_bytes zs)) = 64 * length zs"
proof -
  have l: "length (concat (map zd_bytes xs)) = 64 * length xs" for xs by (induction xs) simp_all
  show "length (concat (map zd_bytes zs)) = 64 * length zs" by (rule l)
  have "zs = take k zs @ zs ! k # drop (Suc k) zs" by (rule id_take_nth_drop [OF assms])
  then have "concat (map zd_bytes zs) = concat (map zd_bytes (take k zs)) @ zd_bytes (zs ! k) @ concat (map zd_bytes (drop (Suc k) zs))"
    by (metis concat.simps(2) concat_append list.simps(9) map_append)
  moreover have "length (concat (map zd_bytes (take k zs))) = 64 * k" using l [of "take k zs"] assms by simp
  ultimately show "take 64 (drop (64 * k) (concat (map zd_bytes zs))) = zd_bytes (zs ! k)" by simp
qed

section \<open>The report\<close>

lemma put_ok: "off + length bs \<le> length buf \<Longrightarrow> put_bytes off bs buf = Some (take off buf @ bs @ drop (off + length bs) buf)"
  by (simp add: put_bytes_def)

lemma report_count:
  assumes "zinv f" "lba_to_zone f (rw_slba c) < nr_zones (zp f)"
  shows "report_zones f c = (let left = nr_zones (zp f) - lba_to_zone f (rw_slba c)
     in if zra_specific_features c \<and> 64 \<le> recv_length c then min left (recv_length c div 64 - 1) else left)"
proof -
  have z: "nr_zones (zp f) < 2 ^ 32" using zinvD(1) [OF assms(1)] by (simp add: zgeo_def)
  then have l: "sub64 (nr_zones (zp f)) (lba_to_zone f (rw_slba c)) = nr_zones (zp f) - lba_to_zone f (rw_slba c)"
    using assms(2) by (simp add: sub64_le)
  have r: "recv_length c < 2 ^ 34" using u_bound(3) [of "nr_dw c + 1"] by (simp add: recv_length_def inc32_def)
  show ?thesis
  proof (cases "64 \<le> recv_length c")
    case True
    then have "1 \<le> recv_length c div 64" "recv_length c div 64 < 2 ^ 64" using r by (simp_all add: less_eq_div_iff_mult_less_eq div_less_iff_less_mult)
    then have "sub64 (recv_length c div 64) 1 = recv_length c div 64 - 1" by (rule sub64_le)
    then show ?thesis using True by (simp add: report_zones_def l Let_def min_def)
  next
    case False
    then have "sub64 (recv_length c div 64) 1 = 2 ^ 64 - 1" by (simp add: sub64_def u64_def)
    moreover have "nr_zones (zp f) - lba_to_zone f (rw_slba c) < 2 ^ 64 - 1"
      by (rule le_less_trans [of _ "nr_zones (zp f)"]) (use z in simp_all)
    ultimately show ?thesis using False by (simp add: report_zones_def l Let_def)
  qed
qed

text \<open>The buffer after the report has been made.\<close>

lemma fill_ok:
  assumes "zinv f" "lba_to_zone f (rw_slba c) < nr_zones (zp f)"
  defines "n \<equiv> report_zones f c" and "s \<equiv> lba_to_zone f (rw_slba c)"
  shows "\<exists>b. fill_zone_report c f = Some (f\<lparr>report_buffer := b\<rparr>) \<and> length b = length (report_buffer f) \<and> s + n \<le> nr_zones (zp f) \<and>
    take 8 b = le_bytes 8 n \<and> (\<forall>k < n. take 64 (drop (64 + 64 * k) b) = zd_bytes (zone_descs f ! (s + k)))"
proof -
  have n: "s + n \<le> nr_zones (zp f)" using report_count [OF assms(1,2)] assms(2) by (auto simp: n_def s_def Let_def min_def split: if_splits)
  have L: "length (report_buffer f) = 64 * (nr_zones (zp f) + 2)" "length (zone_descs f) = nr_zones (zp f)"
    using zinvD(1,3) [OF assms(1)] by (simp_all add: zgeo_def)
  let ?zs = "take n (drop s (zone_descs f))"
  have zs: "length ?zs = n" "\<And>k. k < n \<Longrightarrow> ?zs ! k = zone_descs f ! (s + k)" using n L(2) by simp_all
  have cl: "length (concat (map zd_bytes ?zs)) = 64 * n" using zs(1) by (induction ?zs arbitrary: n) (auto simp: length_concat sum_list_triv comp_def)
  let ?b1 = "le_bytes 8 n @ drop 8 (report_buffer f)"
  let ?b = "take 64 ?b1 @ concat (map zd_bytes ?zs) @ drop (64 + 64 * n) ?b1"
  have l1: "length ?b1 = length (report_buffer f)" using L(1) by simp
  have p1: "put_bytes 0 (le_bytes 8 n) (report_buffer f) = Some ?b1" using put_ok [of 0 "le_bytes 8 n" "report_buffer f"] L(1) by simp
  have p2: "put_bytes 64 (concat (map zd_bytes ?zs)) ?b1 = Some ?b" using put_ok [of 64 "concat (map zd_bytes ?zs)" ?b1] l1 L(1) n by (simp only: cl) simp
  have "fill_zone_report c f = Some (f\<lparr>report_buffer := ?b\<rparr>)"
    using n L(2) p1 p2 by (simp add: fill_zone_report_def Let_def n_def [symmetric] s_def [symmetric] del: put_bytes_def)
  moreover have "length ?b = length (report_buffer f)" using l1 L(1) n by (simp add: cl)
  moreover have "take 8 ?b = le_bytes 8 n" by simp
  moreover have "take 64 (drop (64 + 64 * k) ?b) = zd_bytes (zone_descs f ! (s + k))" if k: "k < n" for k
  proof -
    have t: "length (take 64 ?b1) = 64" using l1 L(1) by simp
    have "drop (64 + 64 * k) ?b = drop (64 * k) (concat (map zd_bytes ?zs) @ drop (64 + 64 * n) ?b1)" using t by (simp only: drop_append) simp
    then have "take 64 (drop (64 + 64 * k) ?b) = take 64 (drop (64 * k) (concat (map zd_bytes ?zs)))" using cl k by simp
    then show ?thesis using concat_nth(1) [of k ?zs] zs k by simp
  qed
  ultimately show ?thesis using n by blast
qed

end
