(* ===== verification/Zns_System.thy ===== *)
theory Zns_System
  imports Zns_Write_Laws Zns_Report_Laws
begin

text \<open>
  Every command of a zoned namespace keeps the invariant of its FTL, whatever its result, and so does the release of buffer bytes
  by the worker: \<open>zns_run\<close> composes them in any order.
\<close>

section \<open>Writes to a zone with a random write area\<close>

lemma idx_zone: "zinv f \<Longrightarrow> idx (zone_descs f) zid = Some z \<longleftrightarrow> zid < nr_zones (zp f) \<and> z = zone_descs f ! zid"
  using zinvD(3) [of f] by (auto simp: idx_def)

lemma zrwa_loop_ok:
  "zgeo f \<Longrightarrow> \<exists>t ops' f'. zrwa_loop sqid zid st rem lpn latest ops f = Some (t, ops @ ops', f') \<and> ztime f f' \<and> latest \<le> t"
proof (induction sqid zid st rem lpn latest ops f rule: zrwa_loop.induct)
  case (1 sqid zid st rem lpn latest ops f)
  show ?case
  proof (cases "rem = 0")
    case True
    then show ?thesis by (subst zrwa_loop.simps) simp
  next
    case False
    let ?one = "pgs_per_oneshotpg (zspp f)"
    obtain a where a: "lpn_to_ppa f lpn = Some a" "get_lun (zssd f) a \<noteq> None" using lpn_to_ppa_ok [OF "1.prems"] by blast
    let ?k = "run_pgs ?one rem (p_pg a)"
    let ?b = "p_pg a mod ?one + ?k = ?one"
    obtain t o1 g where s: "(if ?b then do {
               (t, f) \<leftarrow> zns_nand (znand NAND_WRITE (?one * pgsz (zspp f)) st a) f;
               Some (max t latest, ops @ [\<lparr>zo_sqid = sqid, zo_nsecs = t, zo_buffer = Zrwa_Buffer zid, zo_release = ?one * pgsz (zspp f)\<rparr>], f) }
             else Some (latest, ops, f)) = Some (t, ops @ o1, g)" "ztime f g" "latest \<le> t"
    proof (cases ?b)
      case True
      obtain t g where n: "zns_nand (znand NAND_WRITE (?one * pgsz (zspp f)) st a) f = Some (t, g)" "ztime f g"
        using zns_nand_ok [OF "1.prems" a(2), of NAND_WRITE "?one * pgsz (zspp f)" st] by blast
      have "?one = pgs_per_oneshotpg (zspp g)" "pgsz (zspp f) = pgsz (zspp g)" using ztimeD(7) [OF n(2)] by simp_all
      then show ?thesis using True n by (intro that [of "max t latest" _ g]) simp_all
    next
      case False
      then show ?thesis by (intro that [of latest "[]" f]) simp_all
    qed
    obtain u o2 h where r: "zrwa_loop sqid zid st (rem - ?k) (lpn + ?k) t (ops @ o1) g = Some (u, (ops @ o1) @ o2, h)" "ztime g h" "t \<le> u"
      using "1.IH" [OF False a(1) refl refl _ refl refl, of t "ops @ o1" g] s(1) ztime_geo [OF s(2) "1.prems"] by auto
    have "zrwa_loop sqid zid st rem lpn latest ops f = Some (u, ops @ (o1 @ o2), h)"
      using r(1) by (subst zrwa_loop.simps) (simp only: False a(1) s(1) Let_def if_False Option.bind.bind_lunit prod.case append_assoc)
    then show ?thesis using s(2,3) r(2,3) ztime_trans by (intro exI [of _ u] exI [of _ "o1 @ o2"] exI [of _ h]) auto
  qed
qed

lemma zns_allocate_inv:
  assumes "zns_allocate b n f = Some (k, f')"
  shows "zkeep f f'" "zone_descs f' = zone_descs f" "res_infos f' = res_infos f" "zmem f' = zmem f" "zinv f \<Longrightarrow> zinv f'"
    "leaks 0 f f'"
  using assms set_buffer_inv by (auto simp: zns_allocate_def bind_eq_Some_conv leaks_same)

text \<open>The write pointer of such a zone may move anywhere. When it reaches the end, the zone is full and keeps its resource of a random
  write area: the code releases the other two only.\<close>

lemma zrwa_write_ptr_inv:
  assumes "zinv f" "increase_write_ptr zid n f = Some g" "opened (zone_descs f ! zid)" "zrwav (zone_descs f ! zid)"
  shows "zinv g" "zmem g = zmem f" "\<exists>z'. zone_descs g = (zone_descs f)[zid := z'] \<and> leaks (of_bool (zd_state z' = ZONE_STATE_FULL)) f g"
proof -
  obtain z where z: "zid < nr_zones (zp f)" "z = zone_descs f ! zid" using assms(2) idx_zone [OF assms(1)]
    by (auto simp: increase_write_ptr_def bind_eq_Some_conv)
  have l: "zid < length (zone_descs f)" using z(1) zinvD(3) [OF assms(1)] by simp
  have a: "active z" using assms(3) z(2) by (simp add: active_def)
  have b: "0 < acquired_cnt (res_infos f ACTIVE_ZONE)" "0 < acquired_cnt (res_infos f OPEN_ZONE)" "acquired_cnt (res_infos f t) < 2 ^ 32" for t
    using res_bounds(3,4) [OF assms(1) z(1)] res_bounds(6) [OF assms(1) z(1), of t] a assms(3) z(2) by simp_all
  note zk = zinvD(4) [OF assms(1) z(1)]
  let ?wp = "u64 (zwp z + u32 n)"
  let ?w = "upd_zone zid (\<lambda>z'. z'\<lparr>zwp := ?wp\<rparr>) f"
  let ?r = "release_zone_resource ACTIVE_ZONE (release_zone_resource OPEN_ZONE ?w)"
  define full where "full \<longleftrightarrow> ?wp = u64 (zone_to_slba ?w zid + zone_capacity z)"
  have g: "g = (if full then change_zone_state zid ZONE_STATE_FULL ?r else ?w)"
    using assms(2) l by (auto simp: increase_write_ptr_def arr_simps Let_def z(2) full_def)
  have d: "zone_descs g = (zone_descs f)[zid := (if full then z\<lparr>zwp := ?wp, zd_state := ZONE_STATE_FULL\<rparr> else z\<lparr>zwp := ?wp\<rparr>)]"
    using l by (auto simp: g z(2) change_descs upd_zone_descs)
  have k: "zkeep f g" by (simp add: g release_zone_resource_def change_zone_state_def zkeep_def)
  show "zinv g"
  proof (rule zinv_step [OF assms(1) k d z(1)])
    show "zone_ok (lbas_per_zone f) zid (if full then z\<lparr>zwp := ?wp, zd_state := ZONE_STATE_FULL\<rparr> else z\<lparr>zwp := ?wp\<rparr>)"
      using zk assms(3,4) by (auto simp: z(2) zone_ok_def opened_def)
  qed (use z(2) assms(3,4) a b zrwa_le [OF assms(1)] in \<open>auto simp: g active_def opened_def release_infos\<close>)
  show "zmem g = zmem f" by (simp add: g)
  have "leaks (of_bool full) f g"
    by (rule leaks_step [OF d l]) (use z(2) assms(3,4) a b in \<open>auto simp: g active_def opened_def release_infos\<close>)
  moreover have "zd_state z \<noteq> ZONE_STATE_FULL" by (rule active_not_full [OF a])
  ultimately show "\<exists>z'. zone_descs g = (zone_descs f)[zid := z'] \<and> leaks (of_bool (zd_state z' = ZONE_STATE_FULL)) f g"
    using d by (intro exI [of _ "if full then z\<lparr>zwp := ?wp, zd_state := ZONE_STATE_FULL\<rparr> else z\<lparr>zwp := ?wp\<rparr>"])
      (cases full, simp_all)
qed

text \<open>The zone has been made ready for a write with success, or nothing has happened to the zones.\<close>

definition zrwa_opened :: "nat \<Rightarrow> zns_ftl \<Rightarrow> nat \<Rightarrow> zns_ftl \<Rightarrow> bool" where
  "zrwa_opened zid f st g \<longleftrightarrow> leaks 0 f g \<and>
     (if st = NVME_SC_SUCCESS then active (zone_descs f ! zid) \<and> (\<exists>z'. zone_descs g = (zone_descs f)[zid := z'])
      else zone_descs g = zone_descs f)"

lemma zrwa_state_inv:
  assumes "zinv f" "zid < nr_zones (zp f)" "z = zone_descs f ! zid" "zrwav z" "zrwa_state zid z f = Some (st, g)"
  shows "zinv g" "zmem g = zmem f" "st = NVME_SC_SUCCESS \<Longrightarrow> opened (zone_descs g ! zid) \<and> zrwav (zone_descs g ! zid)"
    "zrwa_opened zid f st g"
proof -
  note zk = zinvD(4) [OF assms(1,2)]
  have l: "zid < length (zone_descs f)" using assms(2) zinvD(3) [OF assms(1)] by simp
  have b: "inc32 (acquired_cnt (res_infos f OPEN_ZONE)) = acquired_cnt (res_infos f OPEN_ZONE) + 1"
    using res_bounds(6) [OF assms(1,2), of OPEN_ZONE] by (simp add: inc32_small)
  have ne: "zd_state z \<noteq> ZONE_STATE_EMPTY" using zk assms(3,4) by (auto simp: zone_ok_def)
  have "zinv g \<and> zmem g = zmem f \<and> (st = NVME_SC_SUCCESS \<longrightarrow> opened (zone_descs g ! zid) \<and> zrwav (zone_descs g ! zid)) \<and> zrwa_opened zid f st g"
  proof (cases "zd_state z = ZONE_STATE_CLOSED")
    case True
    then have c: "active z" "\<not> opened z" by (simp_all add: active_def opened_def)
    then have av: "acquire_zone_resource f OPEN_ZONE = (True, upd_res inc32 OPEN_ZONE f)"
      using res_bounds(2) [OF assms(1,2)] assms(3) by (simp add: acquire_avail)
    obtain k h where h: "zns_allocate (Zrwa_Buffer zid) (zrwa_size (zp f)) (upd_res inc32 OPEN_ZONE f) = Some (k, h)"
        "st = NVME_SC_SUCCESS" "g = change_zone_state zid ZONE_STATE_OPENED_IMPL h"
      using assms(5) True av by (auto simp: zrwa_state_def bind_eq_Some_conv)
    note H = zns_allocate_inv [OF h(1)]
    have d: "zone_descs g = (zone_descs f)[zid := z\<lparr>zd_state := ZONE_STATE_OPENED_IMPL\<rparr>]" using l H(2) by (simp add: h(3) change_descs assms(3))
    have k: "zkeep f g" unfolding h(3) by (rule zkeep_trans [OF zkeep_trans [OF _ H(1)]]) simp_all
    have "zinv g"
    proof (rule zinv_step [OF assms(1) k d assms(2)])
      show "zone_ok (lbas_per_zone f) zid (z\<lparr>zd_state := ZONE_STATE_OPENED_IMPL\<rparr>)" using zk assms(3,4) by (auto simp: zone_ok_def)
    qed (use assms(3,4) c b H(3) zrwa_le [OF assms(1)] in \<open>auto simp: h(3) active_def opened_def upd_res_infos\<close>)
    moreover have "leaks 0 f g"
      by (rule leaks_step [OF d l]) (use assms(3,4) c H(3) in \<open>simp add: h(3) active_def opened_def upd_res_infos\<close>)
    then have "zrwa_opened zid f st g" unfolding zrwa_opened_def using d c(1) h(2) assms(3) by auto
    ultimately show ?thesis using d l assms(4) H(4) by (simp add: h(3) opened_def)
  next
    case False
    then have "g = f \<and> (st = NVME_SC_SUCCESS \<longrightarrow> opened z)" using assms(5) ne
      by (auto simp: zrwa_state_def opened_def zns_status split: zone_state.splits)
    moreover have "(zone_descs f)[zid := zone_descs f ! zid] = zone_descs f" by simp
    ultimately show ?thesis using assms(1,3,4) unfolding zrwa_opened_def active_def by (metis leaks_refl)
  qed
  then show "zinv g" "zmem g = zmem f" "st = NVME_SC_SUCCESS \<Longrightarrow> opened (zone_descs g ! zid) \<and> zrwav (zone_descs g ! zid)"
    "zrwa_opened zid f st g" by blast+
qed

lemma zrwa_begin_inv:
  assumes "zinv f" "zid < nr_zones (zp f)" "z = zone_descs f ! zid" "zrwav z" "zrwa_begin cfg zid slba n z f = Some (st, g)"
  shows "zinv g" "zmem g = zmem f" "st = NVME_SC_SUCCESS \<Longrightarrow> opened (zone_descs g ! zid) \<and> zrwav (zone_descs g ! zid)"
    "zrwa_opened zid f st g"
proof -
  have e: "st \<noteq> NVME_SC_SUCCESS \<and> g = f \<or> zrwa_state zid z f = Some (st, g)"
    using assms(5) by (auto simp: zrwa_begin_def zns_status split: if_splits)
  have "zrwa_opened zid f st f" if "st \<noteq> NVME_SC_SUCCESS" using that by (simp add: zrwa_opened_def)
  then show "zinv g" "zmem g = zmem f" "st = NVME_SC_SUCCESS \<Longrightarrow> opened (zone_descs g ! zid) \<and> zrwav (zone_descs g ! zid)"
    "zrwa_opened zid f st g"
    using e zrwa_state_inv [OF assms(1-4)] assms(1) by blast+
qed

lemma zrwa_advance_inv:
  assumes "zinv f" "zrwa_advance cfg zid n f = Some (ok, g)" "opened (zone_descs f ! zid)" "zrwav (zone_descs f ! zid)"
  shows "zinv g" "zmem g = zmem f" "\<exists>z'. zone_descs g = (zone_descs f)[zid := z'] \<and> leaks (of_bool (zd_state z' = ZONE_STATE_FULL)) f g"
proof -
  let ?D = "\<lambda>f. \<exists>z'. zone_descs g = (zone_descs f)[zid := z'] \<and> leaks (of_bool (zd_state z' = ZONE_STATE_FULL)) f g"
  have keep: "?D f" if "zone_descs g = zone_descs f" "leaks 0 f g"
    using that active_not_full [of "zone_descs f ! zid"] assms(3) by (intro exI [of _ "zone_descs f ! zid"]) (simp add: active_def)
  have "zinv g \<and> zmem g = zmem f \<and> ?D f"
  proof (cases "0 < n")
    case True
    obtain k h where h: "zns_allocate (Zrwa_Buffer zid) (LBA_TO_BYTE cfg n) f = Some (k, h)" "k = 0 \<and> g = h \<or> increase_write_ptr zid n h = Some g"
      using assms(2) True by (auto simp: zrwa_advance_def bind_eq_Some_conv split: if_splits)
    note H = zns_allocate_inv [OF h(1)]
    note W = zrwa_write_ptr_inv [OF H(5) [OF assms(1)], of zid n g]
    have up: "?D f" if D: "?D h"
    proof -
      obtain z' where "zone_descs g = (zone_descs h)[zid := z']" "leaks (of_bool (zd_state z' = ZONE_STATE_FULL)) h g" using D by blast
      then show ?thesis using leaks_trans [OF H(6), of _ g] H(2) by (intro exI [of _ z']) simp
    qed
    show ?thesis
    proof (cases "k = 0 \<and> g = h")
      case True
      then have "g = h" by simp
      then show ?thesis using H(2,4,6) H(5) [OF assms(1)] keep by simp
    next
      case False
      then have i: "increase_write_ptr zid n h = Some g" using h(2) by blast
      have o: "opened (zone_descs h ! zid)" "zrwav (zone_descs h ! zid)" using assms(3,4) H(2) by simp_all
      note w = W [OF i o]
      have "?D f" by (rule up) (use w(3) in blast)
      then show ?thesis using w(1,2) H(4) by simp
    qed
  qed (use assms keep in \<open>auto simp: zrwa_advance_def\<close>)
  then show "zinv g" "zmem g = zmem f" "?D f" by blast+
qed

lemma zrwa_run_ok:
  assumes "zinv f"
  shows "\<exists>r ops g. zrwa_run cfg req zid wp n f = Some (r, ops, g) \<and> zinv g \<and> zmem g = zmem f \<and> zone_descs g = zone_descs f \<and> leaks 0 f g"
proof -
  have s: "secs_per_pg (zspp f) \<noteq> 0" using zinvD(1) [OF assms] by (simp add: zgeo_def)
  obtain u s' where u: "ssd_advance_write_buffer (zssd f) (rq_nsecs_start req) (LBA_TO_BYTE cfg (rw_length (rq_cmd req) + 1)) = Some (u, s')"
      "ztime f (f\<lparr>zssd := s'\<rparr>)"
    using wbuf_ok [OF zinvD(1) [OF assms], of "rq_nsecs_start req" "LBA_TO_BYTE cfg (rw_length (rq_cmd req) + 1)"] by blast
  from zrwa_loop_ok [OF ztime_geo [OF u(2) zinvD(1) [OF assms]], of "rq_sq_id req" zid u "n div secs_per_pg (zspp f)" "lba_to_lpn f wp" u "[]"]
  obtain v ops g where l: "zrwa_loop (rq_sq_id req) zid u (n div secs_per_pg (zspp f)) (lba_to_lpn f wp) u [] (f\<lparr>zssd := s'\<rparr>) = Some (v, [] @ ops, g)"
      "ztime (f\<lparr>zssd := s'\<rparr>) g" by blast
  have t: "ztime f g" by (rule ztime_trans [OF u(2) l(2)])
  show ?thesis using u(1) l(1) s ztime_inv [OF t assms] ztimeD(1,3) [OF t] leaks_same [OF ztimeD(1,2) [OF t]] by (simp add: zrwa_run_def)
qed

lemma zns_write_zrwa_inv:
  assumes "zinv f" "zns_write_zrwa cfg f req = Some (r, ops, c, f')" "zrwav (zone_descs f ! lba_to_zone f (rw_slba (rq_cmd req)))"
  shows "zinv f'" "zmem f' = zmem f" "leaks (zrwa_fills f f') f f'"
proof -
  let ?zid = "lba_to_zone f (rw_slba (rq_cmd req))" and ?slba = "rw_slba (rq_cmd req)" and ?n = "rw_length (rq_cmd req) + 1"
  obtain z where z: "idx (zone_descs f) ?zid = Some z" using assms(2) by (auto simp: zns_write_zrwa_def Let_def bind_eq_Some_conv)
  then have zz: "?zid < nr_zones (zp f)" "z = zone_descs f ! ?zid" using idx_zone [OF assms(1)] by simp_all
  obtain st g where s: "zrwa_begin cfg ?zid ?slba ?n z f = Some (st, g)"
    using assms(2) z by (auto simp: zns_write_zrwa_def Let_def bind_eq_Some_conv split: if_splits)
  have v: "zrwav z" using assms(3) zz(2) by simp
  note G = zrwa_begin_inv [OF assms(1) zz v s]
  have "zinv f' \<and> zmem f' = zmem f \<and> leaks (zrwa_fills f f') f f'"
  proof (cases "st = NVME_SC_SUCCESS")
    case False
    then have "leaks (zrwa_fills f g) f g" using G(4) zrwa_fills_same [of g f] by (simp add: zrwa_opened_def)
    then show ?thesis using False assms(2) z s G(1,2) by (auto simp: zns_write_zrwa_def Let_def bind_eq_Some_conv)
  next
    case True
    obtain n ok h where n: "zrwa_advance cfg ?zid n g = Some (ok, h)" "ok \<and> (\<exists>r. zrwa_run cfg req ?zid (zwp z) n h = Some (r, ops, f')) \<or> f' = h"
      using assms(2) z s True by (auto simp: zns_write_zrwa_def Let_def bind_eq_Some_conv split: if_splits)
    obtain z2 where h: "zinv h" "zmem h = zmem g" "zone_descs h = (zone_descs g)[?zid := z2]" "leaks (of_bool (zd_state z2 = ZONE_STATE_FULL)) g h"
      using zrwa_advance_inv [OF G(1) n(1)] G(3) [OF True] by blast
    have f': "zinv f'" "zmem f' = zmem h" "zone_descs f' = zone_descs h" "leaks 0 h f'"
      using zrwa_run_ok [OF h(1), of cfg req ?zid "zwp z" n] n(2) h(1) by auto
    have l: "?zid < length (zone_descs f)" using zz(1) zinvD(3) [OF assms(1)] by simp
    have O: "leaks 0 f g" "active (zone_descs f ! ?zid)" "\<exists>z1. zone_descs g = (zone_descs f)[?zid := z1]"
      using G(4) True by (simp_all add: zrwa_opened_def)
    then have d: "zone_descs f' = (zone_descs f)[?zid := z2]" using h(3) f'(3) by auto
    have "zrwa_fills f f' = of_bool (zd_state z2 = ZONE_STATE_FULL)" using zrwa_fills_upd [OF d l] O(2) assms(3) by simp
    then have "leaks (zrwa_fills f f') f f'" using leaks_trans [OF leaks_trans [OF O(1) h(4)] f'(4)] by simp
    then show ?thesis using f'(1,2) h(2) G(2) by simp
  qed
  then show "zinv f'" "zmem f' = zmem f" "leaks (zrwa_fills f f') f f'" by blast+
qed

section \<open>Management\<close>

lemma full_not_active: "\<not> active (z\<lparr>zwp := w, zd_state := ZONE_STATE_FULL\<rparr>)" "\<not> opened (z\<lparr>zwp := w, zd_state := ZONE_STATE_FULL\<rparr>)"
  by (simp_all add: active_def opened_def)

lemma flush_explicit_inv:
  assumes "zinv f" "zmgmt_send_flush_explicit_zrwa slba f = Some (st, f')"
  shows "zinv f'" "zmem f' = zmem f" "leaks 0 f f'"
proof -
  let ?zid = "lba_to_zone f slba"
  obtain z where z: "?zid < nr_zones (zp f)" "z = zone_descs f ! ?zid" using assms(2) idx_zone [OF assms(1)]
    by (auto simp: zmgmt_send_flush_explicit_zrwa_def bind_eq_Some_conv Let_def)
  have l: "?zid < length (zone_descs f)" using z(1) zinvD(3) [OF assms(1)] by simp
  note zk = zinvD(4) [OF assms(1) z(1)]
  let ?wp = "u64 (slba + 1)"
  let ?w = "upd_zone ?zid (\<lambda>z. z\<lparr>zwp := ?wp\<rparr>) f"
  let ?o = "if zd_state z \<noteq> ZONE_STATE_CLOSED then release_zone_resource OPEN_ZONE ?w else ?w"
  let ?full = "change_zone_state ?zid ZONE_STATE_FULL (release_zone_resource ZRWA_ZONE (release_zone_resource ACTIVE_ZONE ?o))"
  have zi: "idx (zone_descs f) ?zid = Some z" using idx_zone [OF assms(1)] z by blast
  have "f' = f \<or> zrwav z \<and> zd_state z \<in> {ZONE_STATE_OPENED_EXPL, ZONE_STATE_OPENED_IMPL, ZONE_STATE_CLOSED} \<and> (f' = ?w \<or> f' = ?full)"
    using assms(2) unfolding zmgmt_send_flush_explicit_zrwa_def Let_def zi Option.bind.bind_lunit
    by (simp only: if_bool_eq_conj NVMEV_ASSERT_def split: if_split_asm) simp_all
  then consider "f' = f" | "zrwav z" "active z" "f' = ?w" | "zrwav z" "active z" "f' = ?full"
    by (auto simp: active_def opened_def)
  then have "zinv f' \<and> zmem f' = zmem f \<and> leaks 0 f f'"
  proof cases
    case 2
    have d: "zone_descs f' = (zone_descs f)[?zid := z\<lparr>zwp := ?wp\<rparr>]" using l by (simp add: 2 upd_zone_descs z(2))
    have "zinv f'"
      by (rule zinv_step [OF assms(1) _ d z(1)]) (use zk 2 zrwa_le [OF assms(1)] in \<open>auto simp: z(2) zone_ok_def active_def opened_def\<close>)
    moreover have "leaks 0 f f'" by (rule leaks_step [OF d l]) (use 2 z(2) in \<open>simp add: active_def opened_def\<close>)
    ultimately show ?thesis by (simp add: 2)
  next
    case 3
    have b: "0 < acquired_cnt (res_infos f ACTIVE_ZONE)" "0 < acquired_cnt (res_infos f ZRWA_ZONE)"
      "opened z \<Longrightarrow> 0 < acquired_cnt (res_infos f OPEN_ZONE)" "acquired_cnt (res_infos f t) < 2 ^ 32" for t
      using res_bounds(3,4,5) [OF assms(1) z(1)] res_bounds(6) [OF assms(1) z(1), of t] 3 z(2) by simp_all
    have d: "zone_descs f' = (zone_descs f)[?zid := z\<lparr>zwp := ?wp, zd_state := ZONE_STATE_FULL\<rparr>]"
      using l by (auto simp: 3 change_descs upd_zone_descs z(2))
    have k: "zkeep f f'" by (simp add: 3 release_zone_resource_def change_zone_state_def zkeep_def)
    have o: "opened z \<longleftrightarrow> zd_state z \<noteq> ZONE_STATE_CLOSED" using 3(2) by (auto simp: active_def opened_def)
    have "zinv f'"
    proof (rule zinv_step [OF assms(1) k d z(1)])
      show "zone_ok (lbas_per_zone f) ?zid (z\<lparr>zwp := ?wp, zd_state := ZONE_STATE_FULL\<rparr>)" using zk 3 z(2) by (auto simp: zone_ok_def)
    qed (use z(2) 3(1,2) o b zrwa_le [OF assms(1)] in \<open>auto simp: 3(3) full_not_active release_infos\<close>)
    moreover have "leaks 0 f f'"
      by (rule leaks_step [OF d l]) (use z(2) 3(1,2) o b in \<open>auto simp: 3(3) full_not_active release_infos\<close>)
    ultimately show ?thesis by (simp add: 3)
  qed (use assms(1) in simp)
  then show "zinv f'" "zmem f' = zmem f" "leaks 0 f f'" by blast+
qed

lemma open_inv:
  assumes "zinv f" "zmgmt_send_open_zone zid opt f = Some (st, f')"
  shows "zinv f' \<and> leaks 0 f f'"
proof (cases "opt \<and> zd_state (zone_descs f ! zid) = ZONE_STATE_EMPTY \<longrightarrow> is_zone_resource_avail f ZRWA_ZONE")
  case True
  have "zid < nr_zones (zp f)" using assms(2) idx_zone [OF assms(1)] by (auto simp: zmgmt_send_open_zone_def bind_eq_Some_conv)
  then show ?thesis using open_ok [OF assms(1) _ True] assms(2) by (auto simp: acted_def)
next
  case False
  then have "is_zone_resource_full f ZRWA_ZONE"
    using zinvD(2) [OF assms(1)] by (auto simp: is_zone_resource_full_def is_zone_resource_avail_def res_ok_def)
  then show ?thesis using assms False idx_zone [OF assms(1)]
    by (auto simp: zmgmt_send_open_zone_def bind_eq_Some_conv open_empty_def split: if_splits)
qed

lemma zmgmt_send_inv:
  assumes "zinv f" "zmgmt_send slba act opt f = Some (st, f')"
  shows "zinv f' \<and> leaks 0 f f'"
proof -
  let ?zid = "lba_to_zone f slba"
  have i: "?zid < nr_zones (zp f)" if "idx (zone_descs f) ?zid \<noteq> None" using that zinvD(3) [OF assms(1)] by (auto simp: idx_def split: if_splits)
  have n: "idx (zone_descs f) ?zid = None \<Longrightarrow> zmgmt_send_close_zone ?zid f = None \<and> zmgmt_send_finish_zone ?zid f = None \<and>
      zmgmt_send_reset_zone ?zid f = None \<and> zmgmt_send_offline_zone ?zid f = None"
    by (simp add: zmgmt_send_close_zone_def zmgmt_send_finish_zone_def zmgmt_send_reset_zone_def zmgmt_send_offline_zone_def)
  have c: "zmgmt_send_close_zone ?zid f = Some (s, g) \<Longrightarrow> zinv g \<and> leaks 0 f g"
    "zmgmt_send_finish_zone ?zid f = Some (s, g) \<Longrightarrow> zinv g \<and> leaks 0 f g"
    "zmgmt_send_reset_zone ?zid f = Some (s, g) \<Longrightarrow> zinv g \<and> leaks 0 f g"
    "zmgmt_send_offline_zone ?zid f = Some (s, g) \<Longrightarrow> zinv g \<and> leaks 0 f g" for s g
    using i n close_ok [OF assms(1), of ?zid] finish_ok [OF assms(1), of ?zid] reset_ok [OF assms(1), of ?zid] offline_ok [OF assms(1), of ?zid]
    by (fastforce simp: acted_def)+
  show ?thesis using assms(2) c open_inv [OF assms(1)] flush_explicit_inv(1,3) [OF assms(1)] assms(1)
    by (auto simp: zmgmt_send_def Let_def bind_eq_Some_conv split: if_splits)
qed

lemma zns_zmgmt_send_inv: "zinv f \<Longrightarrow> zns_zmgmt_send f req = Some (r, f') \<Longrightarrow> zinv f' \<and> leaks 0 f f'"
proof -
  assume i: "zinv f" and e: "zns_zmgmt_send f req = Some (r, f')"
  have step: "zinv h \<and> leaks 0 f h" if "zinv g \<and> leaks 0 f g" "zmgmt_send slba act opt g = Some (st, h)" for slba act opt st g h
    using that(1) zmgmt_send_inv [OF _ that(2)] leaks_trans0 [of f g h] by simp
  have all: "zinv g \<and> leaks 0 f g" if "zmgmt_send_all act opt f = Some g" for act opt g
  proof (rule foldM_inv [where P = "\<lambda>g. zinv g \<and> leaks 0 f g", OF that [unfolded zmgmt_send_all_def]])
    show "zinv f \<and> leaks 0 f f" using i by simp
    fix zid s s'
    assume r: "zinv s \<and> leaks 0 f s" "do { (_, f) \<leftarrow> zmgmt_send (zone_to_slba s zid) act opt s; Some f } = Some s'"
    from r(2) obtain st where "zmgmt_send (zone_to_slba s zid) act opt s = Some (st, s')" by (auto simp: bind_eq_Some_conv)
    then show "zinv s' \<and> leaks 0 f s'" by (rule step [OF r(1)])
  qed
  have one: "zinv g \<and> leaks 0 f g" if "zmgmt_send slba act opt f = Some (st, g)" for slba act opt st g
    by (rule zmgmt_send_inv [OF i that])
  consider act opt where "zmgmt_send_all act opt f = Some f'" | slba act opt st where "zmgmt_send slba act opt f = Some (st, f')"
    using e by (auto simp: zns_zmgmt_send_def Let_def bind_eq_Some_conv split: if_splits)
  then show "zinv f' \<and> leaks 0 f f'" using all one by cases blast+
qed

lemma zns_zmgmt_recv_inv:
  assumes "zinv f" "zns_zmgmt_recv f req = Some (r, f')"
  shows "zinv f' \<and> zone_descs f' = zone_descs f \<and> res_infos f' = res_infos f"
proof -
  have "\<exists>b m. f' = f\<lparr>report_buffer := b, zmem := m\<rparr> \<and> length b = length (report_buffer f)"
  proof (cases "check_zmgmt_rcv_option_supported f (rq_cmd req)")
    case True
    then have s: "lba_to_zone f (rw_slba (rq_cmd req)) < nr_zones (zp f)" by (simp add: check_zmgmt_rcv_option_supported_def)
    obtain b where "fill_zone_report (rq_cmd req) f = Some (f\<lparr>report_buffer := b\<rparr>)" "length b = length (report_buffer f)"
      using fill_ok [OF assms(1) s] by blast
    then show ?thesis using assms(2) True by (auto simp: zns_zmgmt_recv_def Let_def bind_eq_Some_conv)
  next
    case False
    then have "f' = f\<lparr>report_buffer := report_buffer f, zmem := zmem f\<rparr>" using assms(2) by (auto simp: zns_zmgmt_recv_def Let_def bind_eq_Some_conv)
    then show ?thesis by blast
  qed
  then obtain b m where f': "f' = f\<lparr>report_buffer := b, zmem := m\<rparr>" "length b = length (report_buffer f)" by blast
  have "zkeep f f'" by (simp add: f' zkeep_def)
  then show ?thesis using zinv_frame [OF assms(1), of f'] by (simp add: f'(1))
qed

section \<open>Plain writes, reads, flush\<close>

lemma same_zone: "zgeo f \<Longrightarrow> lpn_to_zone f (lba_to_lpn f lba) = lba_to_zone f lba"
proof -
  assume g: "zgeo f"
  have "lba div secs_per_pg (zspp f) div lpns_per_zone f = lba div (secs_per_pg (zspp f) * lpns_per_zone f)" by (rule div_mult2_eq [symmetric])
  then show ?thesis using zgeo_pos(3) [OF g] by (simp add: lpn_to_zone_def lba_to_lpn_def lba_to_zone_def mult.commute)
qed

text \<open>Any plain write, also one outside the zone or beyond the last block.\<close>

lemma zns_write_plain_inv:
  assumes "zinv f" "zns_write_plain cfg f req = Some (r, ops, c', f')" "\<not> zrwav (zone_descs f ! lba_to_zone f (rw_slba (rq_cmd req)))" "LBA_BITS cfg \<le> 12"
  shows "zinv f' \<and> zmem f' = zmem f \<and> leaks 0 f f' \<and> (\<exists>z'. zone_descs f' = (zone_descs f)[lba_to_zone f (rw_slba (rq_cmd req)) := z'])"
proof -
  let ?c = "rq_cmd req"
  let ?zid = "lba_to_zone f (rw_slba ?c)" and ?n = "rw_length ?c + 1"
  obtain z where z: "idx (zone_descs f) ?zid = Some z" using assms(2) by (auto simp: zns_write_plain_def Let_def bind_eq_Some_conv)
  then have zz: "?zid < nr_zones (zp f)" "z = zone_descs f ! ?zid" using idx_zone [OF assms(1)] by simp_all
  define slba where "slba = write_lba ?c z"
  let ?bytes = "LBA_TO_BYTE cfg ?n"
  have n: "?n \<le> 2 ^ 16" by (simp add: rw_length_def lo16_def)
  have b: "0 < ?bytes" "?bytes < 2 ^ 32"
  proof -
    have "(2::nat) ^ LBA_BITS cfg \<le> 2 ^ 12" using assms(4) by (intro power_increasing) simp_all
    then have "?bytes \<le> 2 ^ 16 * 2 ^ 12" unfolding LBA_TO_BYTE_def using n by (intro mult_le_mono)
    then show "?bytes < 2 ^ 32" by simp
  qed (simp add: LBA_TO_BYTE_def)
  obtain k g where a: "zns_allocate (write_buf f ?zid) ?bytes f = Some (k, g)"
    using assms(2) z by (auto simp: zns_write_plain_def Let_def bind_eq_Some_conv write_buf_def split: if_splits)
  have same: "\<exists>z'. zone_descs f = (zone_descs f)[?zid := z']" by (rule exI [of _ "zone_descs f ! ?zid"]) simp
  from a obtain v where v: "get_buffer (write_buf f ?zid) f = Some v" "?bytes \<le> b_size v"
    by (auto simp: zns_allocate_def bind_eq_Some_conv buffer_allocate_def)
  show ?thesis
  proof (cases "slba = zwp z")
    case True
    have zi: "zslba z = ?zid * lbas_per_zone f" "zwp z \<le> ?zid * lbas_per_zone f + lbas_per_zone f"
      using zinvD(4) [OF assms(1) zz(1)] assms(3) zz(2) by (simp_all add: zone_ok_def)
    then have "opcode ?c \<noteq> nvme_cmd_zone_append \<longrightarrow> rw_slba ?c \<le> 2 ^ 62"
      using True zone_end [OF zinvD(1) [OF assms(1)] zz(1)] by (auto simp: slba_def write_lba_def)
    from zns_write_plain_ok [OF assms(1) zz _ refl this refl slba_def refl n refl b v] assms(2,3) zz(2)
    have w: "zinv f'" "zmem f' = zmem f" "leaks 0 f f'"
      "f' = f \<or> zone_descs f' = (zone_descs f)[?zid := zone_advanced ?n (zone_opened z)] \<or> zone_descs f' = zone_descs f"
      by (auto simp: Let_def split: if_splits)
    from w(4) same have "\<exists>z'. zone_descs f' = (zone_descs f)[?zid := z']" by auto
    then show ?thesis using w(1-3) by blast
  next
    case False
    then have "opcode ?c \<noteq> nvme_cmd_zone_append" "slba = rw_slba ?c" by (auto simp: slba_def write_lba_def)
    moreover have "write_check cfg slba ?n z g \<noteq> NVME_SC_SUCCESS" using False by (auto simp: write_check_def zns_status)
    ultimately have "f' = g"
      using assms(2) a z by (auto simp: zns_write_plain_def Let_def bind_eq_Some_conv write_buf_def split: if_splits)
    then show ?thesis using zns_allocate_inv(2,4,5,6) [OF a] assms(1) by (simp add: same)
  qed
qed

lemma zns_write_inv:
  assumes "zinv f" "zns_write cfg f req = Some (r, ops, c', f')" "LBA_BITS cfg \<le> 12"
  shows "zinv f' \<and> zmem f' = zmem f \<and> leaks (zrwa_fills f f') f f'"
proof -
  let ?zid = "lba_to_zone f (rw_slba (rq_cmd req))"
  note sz = same_zone [OF zinvD(1) [OF assms(1)]]
  obtain z where z: "idx (zone_descs f) ?zid = Some z" using assms(2) by (auto simp: zns_write_def bind_eq_Some_conv sz)
  then have zz: "z = zone_descs f ! ?zid" using idx_zone [OF assms(1)] by simp
  show ?thesis
  proof (cases "zrwav z")
    case True
    then have "zns_write_zrwa cfg f req = Some (r, ops, c', f')" using assms(2) z by (auto simp: zns_write_def bind_eq_Some_conv sz)
    then show ?thesis using zns_write_zrwa_inv [OF assms(1)] True zz by blast
  next
    case False
    then have "zns_write_plain cfg f req = Some (r, ops, c', f')" using assms(2) z by (auto simp: zns_write_def bind_eq_Some_conv sz)
    then have p: "zinv f' \<and> zmem f' = zmem f \<and> leaks 0 f f' \<and> (\<exists>z'. zone_descs f' = (zone_descs f)[?zid := z'])"
      using zns_write_plain_inv [OF assms(1) _ _ assms(3)] False zz by blast
    then obtain z' where d: "zone_descs f' = (zone_descs f)[?zid := z']" by blast
    have "?zid < length (zone_descs f)" using z by (auto simp: idx_def split: if_splits)
    then have "zrwa_fills f f' = 0" using zrwa_fills_upd [OF d] False zz by simp
    then show ?thesis using p by simp
  qed
qed

text \<open>A read of a zone that exists returns, with a status for the zone and its boundary, and changes the timing only.\<close>

definition zone_read_status :: "zns_ftl \<Rightarrow> nat \<Rightarrow> nat \<Rightarrow> nat" where
  "zone_read_status f slba n = (if lbas_per_zone f < slba mod lbas_per_zone f + n then NVME_SC_ZNS_ERR_BOUNDARY else NVME_SC_SUCCESS)"

lemma zns_read_ok:
  assumes "zinv f" "slba = rw_slba (rq_cmd req)" "n = rw_length (rq_cmd req) + 1" "lba_to_zone f slba < nr_zones (zp f)" "slba \<le> 2 ^ 62"
  shows "\<exists>t f'. zns_read cfg f req = Some (\<lparr>rs_status = zone_read_status f slba n, rs_nsecs_target = t\<rparr>, f') \<and> ztime f f' \<and>
    rq_nsecs_start req + (if LBA_TO_BYTE cfg n \<le> KB 4 then fw_4kb_rd_lat (zspp f) else fw_rd_lat (zspp f)) \<le> t"
proof -
  note G = zinvD(1) [OF assms(1)]
  let ?zid = "lba_to_zone f slba"
  have z: "idx (zone_descs f) ?zid = Some (zone_descs f ! ?zid)" using idx_zone [OF assms(1)] assms(4) by simp
  have n: "0 < n" "n \<le> 2 ^ 16" using assms(3) by (simp_all add: rw_length_def lo16_def)
  have st: "check_boundary_error f slba n \<longleftrightarrow> slba mod lbas_per_zone f + n \<le> lbas_per_zone f"
    by (rule boundary [OF G n]) (use assms(5) n(2) in simp)
  have off: "zd_state (zone_descs f ! ?zid) \<noteq> ZONE_STATE_OFFLINE" using zinvD(4) [OF assms(1,4)] by (simp add: zone_ok_def)
  let ?s = "rq_nsecs_start req + (if LBA_TO_BYTE cfg n \<le> KB 4 then fw_4kb_rd_lat (zspp f) else fw_rd_lat (zspp f))"
  obtain t g where l: "read_loop ?s (lba_to_lpn f (sub64 (slba + n) 1)) (lba_to_lpn f slba) ?s f = Some (t, g)" "ztime f g" "?s \<le> t"
    using read_loop_ok [OF G] by blast
  have "tm_inv (zssd g)" using ztime_geo [OF l(2) G] by (simp add: zgeo_def znand_ok_def)
  from ssd_advance_pcie_ok [OF this, of t "n * secsz (zspp f)"]
  obtain u s where p: "ssd_advance_pcie (zssd g) t (n * secsz (zspp f)) = Some (u, s)" "tm_keep (zssd g) s" by blast
  have g: "secs_per_pg (zspp f) \<noteq> 0 \<and> lpns_per_zone f \<noteq> 0 \<and> lbas_per_zone f \<noteq> 0" using G zgeo_pos(1,2) [OF G] by (simp add: zgeo_def)
  have "zns_read cfg f req = Some (\<lparr>rs_status = zone_read_status f slba n, rs_nsecs_target = max u t\<rparr>, g\<lparr>zssd := s\<rparr>)"
    unfolding zns_read_def Let_def assms(2,3) [symmetric] same_zone [OF G] z Option.bind.bind_lunit l(1) prod.case
    using g off st p(1) by (simp add: zone_read_status_def)
  moreover have "ztime f (g\<lparr>zssd := s\<rparr>)" by (rule ztime_trans [OF l(2) tm_keep_ztime [OF p(2)]])
  ultimately show ?thesis using l(3) by (intro exI [of _ "max u t"] exI [of _ "g\<lparr>zssd := s\<rparr>"]) simp
qed

lemma zns_read_inv:
  assumes "zinv f" "zns_read cfg f req = Some (r, f')"
  shows "ztime f f'"
proof -
  note G = zinvD(1) [OF assms(1)]
  obtain st lat t g u s where r: "read_loop lat (lba_to_lpn f (sub64 (rw_slba (rq_cmd req) + (rw_length (rq_cmd req) + 1)) 1)) (lba_to_lpn f (rw_slba (rq_cmd req))) lat f =
      Some (t, g)" "ssd_advance_pcie (zssd g) t ((rw_length (rq_cmd req) + 1) * secsz (zspp f)) = Some (u, s)" "f' = g\<lparr>zssd := s\<rparr>"
    using assms(2) unfolding zns_read_def Let_def by (auto simp: bind_eq_Some_conv)
  have g: "ztime f g" using read_loop_ok [OF G] r(1) by (metis option.inject prod.inject)
  have "tm_inv (zssd g)" using ztime_geo [OF g G] by (simp add: zgeo_def znand_ok_def)
  from ssd_advance_pcie_ok [OF this, of t "(rw_length (rq_cmd req) + 1) * secsz (zspp f)"] r(2)
  have "tm_keep (zssd g) s" by auto
  then show ?thesis using ztime_trans [OF g] tm_keep_ztime r(3) by blast
qed

lemma zns_flush_inv:
  assumes "zinv (zftl ns)" "zns_flush ns = Some (r, ns')"
  shows "ztime (zftl ns) (zftl ns')"
proof -
  have i: "tm_inv (zssd (zftl ns))" using zinvD(1) [OF assms(1)] by (simp add: zgeo_def znand_ok_def)
  have "zftl ns' = (zftl ns)\<lparr>zssd := (zssd (zftl ns))\<lparr>tick := tick (zssd (zftl ns)) + 1\<rparr>\<rparr>"
    using assms(2) by (auto simp: zns_flush_def ssd_next_idle_time_def get_ioclock_def bind_eq_Some_conv Let_def)
  then show ?thesis using tm_keep_ztime [OF tick_keep(1) [OF i]] by simp
qed

section \<open>The namespace\<close>

lemma zns_release_inv: "zinv f \<Longrightarrow> zns_release p f = Some f' \<Longrightarrow> zinv f' \<and> leaks 0 f f'"
  using set_buffer_inv by (auto simp: zns_release_def bind_eq_Some_conv leaks_same)

text \<open>The zones with a random write area that a command fills implicitly, by moving the write pointer to the end of the zone: only writes and
  appends do so.\<close>

definition fills :: "nvme_command \<Rightarrow> zns_ns \<Rightarrow> zns_ns \<Rightarrow> nat" where
  "fills c ns ns' = (if opcode c = nvme_cmd_write \<or> opcode c = nvme_cmd_zone_append then zrwa_fills (zftl ns) (zftl ns') else 0)"

lemma zns_proc_inv:
  assumes "zinv (zftl ns)" "zns_proc_nvme_io_cmd cfg ns req ret = Some (b, r, ops, c, ns')" "LBA_BITS cfg \<le> 12"
  shows "zinv (zftl ns') \<and> leaks (fills (rq_cmd req) ns ns') (zftl ns) (zftl ns')"
proof -
  let ?f = "zftl ns" and ?o = "opcode (rq_cmd req)"
  have time: "zinv g \<and> leaks 0 ?f g" if "ztime ?f g" for g using ztime_inv [OF that assms(1)] leaks_same [OF ztimeD(1,2) [OF that]] by simp
  note d = assms(2) [unfolded zns_proc_nvme_io_cmd_def Let_def]
  show ?thesis
  proof (cases "?o = nvme_cmd_write \<or> ?o = nvme_cmd_zone_append")
    case True
    then obtain r' ops' c' f' where "zns_write cfg ?f req = Some (r', ops', c', f')" "zftl ns' = f'"
      using d by (auto simp: bind_eq_Some_conv split: option.splits)
    then show ?thesis using zns_write_inv [OF assms(1) _ assms(3)] True by (auto simp: fills_def)
  next
    case False
    have rd: "zinv g \<and> leaks 0 ?f g" if "zns_read cfg ?f req = Some (r', g)" for r' g by (rule time [OF zns_read_inv [OF assms(1) that]])
    have fl: "zinv (zftl n) \<and> leaks 0 ?f (zftl n)" if "zns_flush ns = Some (r', n)" for r' n by (rule time [OF zns_flush_inv [OF assms(1) that]])
    have sd: "zinv g \<and> leaks 0 ?f g" if "zns_zmgmt_send ?f req = Some (r', g)" for r' g by (rule zns_zmgmt_send_inv [OF assms(1) that])
    have rv: "zinv g \<and> leaks 0 ?f g" if "zns_zmgmt_recv ?f req = Some (r', g)" for r' g
      using zns_zmgmt_recv_inv [OF assms(1) that] leaks_same [of g ?f] by simp
    have "zinv (zftl ns') \<and> leaks 0 ?f (zftl ns')"
      using False d rd fl sd rv assms(1) by (auto simp: bind_eq_Some_conv split: if_splits)
    then show ?thesis using False by (simp add: fills_def)
  qed
qed

text \<open>What a namespace goes through: commands, and releases of bytes by the worker. The index counts the implicit fills of zones with a random
  write area.\<close>

inductive zns_run :: "ssd_config \<Rightarrow> zns_ns \<Rightarrow> nat \<Rightarrow> zns_ns \<Rightarrow> bool" for cfg ns where
  start: "zns_run cfg ns 0 ns"
| command: "zns_run cfg ns k ns1 \<Longrightarrow> zns_proc_nvme_io_cmd cfg ns1 req ret = Some (b, r, ops, c, ns2) \<Longrightarrow>
    zns_run cfg ns (k + fills (rq_cmd req) ns1 ns2) ns2"
| worker: "zns_run cfg ns k ns1 \<Longrightarrow> zns_release p (zftl ns1) = Some f \<Longrightarrow> zns_run cfg ns k (ns1\<lparr>zftl := f\<rparr>)"

lemma zns_run_inv:
  assumes "zns_run cfg ns k ns'" "zinv (zftl ns)" "LBA_BITS cfg \<le> 12"
  shows "zinv (zftl ns') \<and> leaks k (zftl ns) (zftl ns')"
  using assms(1)
proof induction
  case (command k ns1 req ret b r ops c ns2)
  have "zinv (zftl ns1)" using command.IH by blast
  from zns_proc_inv [OF this command.hyps(2) assms(3)] show ?case using command.IH leaks_trans by blast
next
  case (worker k ns1 p f)
  have "zinv (zftl ns1)" using worker.IH by blast
  from zns_release_inv [OF this worker.hyps(2)] show ?case using worker.IH leaks_trans [of k _ "zftl ns1" 0 f] by simp
qed (use assms(2) in simp)

end
