(* ===== verification/Zns_Init.thy ===== *)
theory Zns_Init
  imports Zns_System Conv_Init
begin

text \<open>
  The namespace that \<open>zns_init_namespace\<close> builds satisfies the invariant, for each configuration whose numbers fit
  (\<open>zns_config_ok\<close>); the one of \<open>ZNS_PROTOTYPE\<close> does.
\<close>

section \<open>Geometry\<close>

definition zns_config_ok :: "ssd_config \<Rightarrow> nat \<Rightarrow> bool" where
  "zns_config_ok cfg sz \<longleftrightarrow> LBA_BITS cfg \<le> 12 \<and> 0 < FLASH_PAGE_SIZE cfg \<and> 0 < ONESHOT_PAGE_SIZE cfg \<and> ONESHOT_PAGE_SIZE cfg \<le> 2 ^ 28 \<and>
     0 < NAND_CHANNELS cfg \<and> NAND_CHANNELS cfg \<le> 2 ^ 8 \<and> 0 < LUNS_PER_NAND_CH cfg \<and> LUNS_PER_NAND_CH cfg \<le> 2 ^ 8 \<and>
     0 < DIES_PER_ZONE cfg \<and> DIES_PER_ZONE cfg dvd LUNS_PER_NAND_CH cfg * NAND_CHANNELS cfg \<and> 0 < WRITE_UNIT_SIZE cfg \<and>
     ZONE_SIZE cfg < 2 ^ 32 \<and> sz div LBA_SIZE cfg < 2 ^ 32 - 1 \<and> 0 < MAX_CH_XFER_SIZE cfg \<and> 0 < CELL_MODE cfg \<and> CELL_MODE cfg \<le> 3 \<and>
     BANDWIDTH_TO_MAX_CREDITS (NAND_CHANNEL_BANDWIDTH cfg) \<in> {1..<2 ^ 8} \<and> BANDWIDTH_TO_MAX_CREDITS (PCIE_BANDWIDTH cfg) \<in> {1..<2 ^ 8}"

lemma page_4k:
  assumes "LBA_BITS cfg \<le> 12"
  shows "LBA_SIZE cfg * (4096 div LBA_SIZE cfg) = 4096" "0 < 4096 div LBA_SIZE cfg" "0 < LBA_SIZE cfg"
proof -
  have "(2::nat) ^ LBA_BITS cfg dvd 2 ^ 12" by (rule le_imp_power_dvd [OF assms])
  then have d: "LBA_SIZE cfg dvd 4096" by (simp add: LBA_SIZE_def)
  show "LBA_SIZE cfg * (4096 div LBA_SIZE cfg) = 4096" using d by simp
  then show "0 < 4096 div LBA_SIZE cfg" "0 < LBA_SIZE cfg" by (cases "4096 div LBA_SIZE cfg"; simp add: LBA_SIZE_def)+
qed

lemma zns_params_fields:
  assumes "ssd_init_params cfg spp0 sz 1 = Some spp"
  shows "secsz spp = LBA_SIZE cfg \<and> secs_per_pg spp = 4096 div LBA_SIZE cfg \<and> pgsz spp = LBA_SIZE cfg * (4096 div LBA_SIZE cfg) \<and>
    nchs spp = NAND_CHANNELS cfg \<and> luns_per_ch spp = LUNS_PER_NAND_CH cfg \<and> tt_luns spp = LUNS_PER_NAND_CH cfg * NAND_CHANNELS cfg \<and>
    pgs_per_oneshotpg spp = ONESHOT_PAGE_SIZE cfg div pgsz spp \<and> pgs_per_flashpg spp = FLASH_PAGE_SIZE cfg div pgsz spp \<and>
    ONESHOT_PAGE_SIZE cfg mod pgsz spp = 0 \<and> FLASH_PAGE_SIZE cfg mod pgsz spp = 0 \<and>
    write_unit_size spp = WRITE_UNIT_SIZE cfg \<and> cell_mode spp = CELL_MODE cfg \<and> max_ch_xfer_size spp = MAX_CH_XFER_SIZE cfg \<and>
    length (pg_4kb_rd_lat spp) = 3 \<and> length (pg_rd_lat spp) = 3 \<and> ch_bandwidth spp = NAND_CHANNEL_BANDWIDTH cfg \<and> pcie_bandwidth spp = PCIE_BANDWIDTH cfg \<and>
    write_buffer_size spp = GLOBAL_WB_SIZE cfg \<and> fw_wbuf_lat0 spp = FW_WBUF_LATENCY0 cfg \<and> fw_wbuf_lat1 spp = FW_WBUF_LATENCY1 cfg \<and>
    fw_4kb_rd_lat spp = FW_4KB_READ_LATENCY cfg \<and> fw_rd_lat spp = FW_READ_LATENCY cfg"
  using assms unfolding ssd_init_params_def Let_def bind_eq_Some_conv
  by (elim exE conjE) (drule sym, simp)

lemma init_tree:
  assumes "timing_ok spp" "0 < pgs_per_flashpg spp"
  shows "tm_inv (ssd_init junk clock spp cpu)" "c < nchs spp \<Longrightarrow> l < luns_per_ch spp \<Longrightarrow> get_lun (ssd_init junk clock spp cpu) (zero_ppa\<lparr>p_ch := c, p_lun := l\<rparr>) \<noteq> None"
proof -
  have c: "chm_inv (chmodel_init (ch_bandwidth spp))" "chm_inv (chmodel_init (pcie_bandwidth spp))"
    using assms(1) by (auto intro!: chmodel_init_inv simp: timing_ok_def)
  have x: "chm_inv (m\<lparr>xfer_lat := n\<rparr>) = chm_inv m" for m n by (simp add: chm_inv_def slot_def)
  show "tm_inv (ssd_init junk clock spp cpu)"
    using assms c by (auto simp: tm_inv_def timing_ok_def ssd_init_def ssd_init_ch_def ssd_init_pcie_def Let_def x)
  show "c < nchs spp \<Longrightarrow> l < luns_per_ch spp \<Longrightarrow> get_lun (ssd_init junk clock spp cpu) (zero_ppa\<lparr>p_ch := c, p_lun := l\<rparr>) \<noteq> None"
    by (simp add: get_lun_def get_ch_def ssd_init_def ssd_init_ch_def Let_def idx_map idx_upt)
qed

section \<open>The FTL\<close>

text \<open>The zone resources and the descriptors as the construction leaves them.\<close>

lemma zns_init_ftl_fields:
  "zssd (zns_init_ftl cfg junk zpp s a m) = s" "zp (zns_init_ftl cfg junk zpp s a m) = zpp" "zmem (zns_init_ftl cfg junk zpp s a m) = m"
  "zone_descs (zns_init_ftl cfg junk zpp s a m) = map (init_desc cfg (zone_size zpp)) [0..<nr_zones zpp]"
  "res_infos (zns_init_ftl cfg junk zpp s a m) t = \<lparr>acquired_cnt = 0, total_cnt = nr_zones zpp\<rparr>"
  "length (report_buffer (zns_init_ftl cfg junk zpp s a m)) = 64 * (nr_zones zpp + 2)"
  "zone_wb_size zpp \<noteq> 0 \<Longrightarrow> zone_write_buffer (zns_init_ftl cfg junk zpp s a m) = map (\<lambda>i. buffer_init (zone_wb_size zpp)) [0..<nr_zones zpp]"
  "zrwa_buffer_size zpp \<noteq> 0 \<Longrightarrow> length (zrwa_buffer (zns_init_ftl cfg junk zpp s a m)) = nr_zones zpp"
  by (simp_all add: zns_init_ftl_def init_resource_def init_descriptor_def Let_def)

lemma zns_init_inv:
  assumes "zns_init_namespace cfg junk j clock spp0 m ns0 nid sz a cpu = Some ns" "zns_config_ok cfg sz"
  shows "zinv (zftl ns)"
proof -
  obtain spp zpp where s: "ssd_init_params cfg spp0 sz 1 = Some spp" "zns_init_params cfg spp sz = Some zpp"
      "zftl ns = zns_init_ftl cfg junk zpp (ssd_init j clock spp cpu) a m"
    using assms(1) by (auto simp: zns_init_namespace_def bind_eq_Some_conv)
  let ?f = "zns_init_ftl cfg junk zpp (ssd_init j clock spp cpu) a m"
  have C: "LBA_BITS cfg \<le> 12" using assms(2) by (simp add: zns_config_ok_def)
  note P = page_4k [OF C] and S = zns_params_fields [OF s(1)]
  have pg: "pgsz spp = 4096" using S P(1) by simp
  have zs: "zone_size zpp = ZONE_SIZE cfg" "0 < ZONE_SIZE cfg" "nr_zones zpp = u32 (sz div ZONE_SIZE cfg)" "dies_per_zone zpp = DIES_PER_ZONE cfg"
    "ZONE_SIZE cfg mod 4096 = 0"
    using s(2) assms(2) pg by (auto simp: zns_init_params_def Let_def bind_eq_Some_conv zns_config_ok_def u32_def)
  have dv: "LBA_SIZE cfg dvd ZONE_SIZE cfg"
  proof -
    have "LBA_SIZE cfg dvd 4096" using P(1) by (metis dvd_triv_left)
    then show ?thesis using zs(5) by (meson dvd_trans mod_0_imp_dvd)
  qed
  have fl: "zspp ?f = spp" "zp ?f = zpp" "zssd ?f = ssd_init j clock spp cpu" by (simp_all add: zspp_def zns_init_ftl_fields ssd_init_def)
  have lb: "lbas_per_zone ?f = ZONE_SIZE cfg div LBA_SIZE cfg" using S zs(1) by (simp add: lbas_per_zone_def fl)
  let ?k = "ZONE_SIZE cfg div LBA_SIZE cfg"
  have kp: "0 < ?k" using dv zs(2) P(3) by (auto simp: dvd_def)
  have total: "nr_zones zpp * ?k \<le> sz div LBA_SIZE cfg"
  proof -
    obtain q where q: "ZONE_SIZE cfg = LBA_SIZE cfg * q" using dv by (auto simp: dvd_def)
    have "nr_zones zpp \<le> sz div ZONE_SIZE cfg" by (simp add: zs(3) u32_def)
    moreover have "sz div ZONE_SIZE cfg * q = sz div LBA_SIZE cfg div q * q" by (simp add: q div_mult2_eq)
    ultimately have "nr_zones zpp * q \<le> sz div LBA_SIZE cfg" by (metis div_times_less_eq_dividend le_trans mult_le_mono1)
    then show ?thesis using q P(3) by simp
  qed
  have tz: "nr_zones zpp * ?k < 2 ^ 32 - 1" using total assms(2) by (simp add: zns_config_ok_def)
  have nz: "nr_zones zpp < 2 ^ 32 - 1" by (rule le_less_trans [OF _ tz]) (use kp in simp)
  have t: "timing_ok spp" using S assms(2) by (simp add: timing_ok_def zns_config_ok_def)
  have fp: "0 < pgs_per_flashpg spp" "0 < pgs_per_oneshotpg spp" "pgs_per_oneshotpg spp \<le> 2 ^ 16"
  proof -
    have "4096 dvd FLASH_PAGE_SIZE cfg" "4096 dvd ONESHOT_PAGE_SIZE cfg" using S pg by (simp_all add: dvd_eq_mod_eq_0)
    moreover have "0 < FLASH_PAGE_SIZE cfg" "0 < ONESHOT_PAGE_SIZE cfg" "ONESHOT_PAGE_SIZE cfg \<le> 2 ^ 28" using assms(2) by (simp_all add: zns_config_ok_def)
    moreover have "pgs_per_flashpg spp = FLASH_PAGE_SIZE cfg div 4096" "pgs_per_oneshotpg spp = ONESHOT_PAGE_SIZE cfg div 4096" using S pg by simp_all
    ultimately show "0 < pgs_per_flashpg spp" "0 < pgs_per_oneshotpg spp" "pgs_per_oneshotpg spp \<le> 2 ^ 16"
      by (auto simp: dvd_def)
  qed
  have "znand_ok ?f"
    unfolding znand_ok_def fl using init_tree [OF t fp(1)] S fp assms(2) zs(4) by (simp add: zns_config_ok_def mult.commute)
  moreover have "length (zone_write_buffer ?f) = nr_zones zpp" if "zone_wb_size zpp \<noteq> 0" using that by (simp add: zns_init_ftl_fields)
  ultimately have "zgeo ?f"
    using S P zs nz tz assms(2) zns_init_ftl_fields(6,8) [where zpp = zpp] unfolding zgeo_def fl lb by (simp add: zns_config_ok_def pg)
  moreover have "cnt Q (map (init_desc cfg (zone_size zpp)) [0..<nr_zones zpp]) = 0" if "\<And>i. \<not> Q (init_desc cfg (zone_size zpp) i)" for Q
    using that by (simp add: cnt_def filter_map comp_def)
  then have "res_ok ?f"
    by (simp add: res_ok_def zns_init_ftl_fields init_desc_def active_def opened_def)
  moreover have "zone_ok (lbas_per_zone ?f) i (zone_descs ?f ! i)" if i: "i < nr_zones zpp" for i
  proof -
    have "i * ?k \<le> nr_zones zpp * ?k" using i by (intro mult_le_mono1) simp
    also have "\<dots> < 2 ^ 64" using tz by simp
    finally have "i * ?k < 2 ^ 64" .
    then show ?thesis using i kp by (simp add: zns_init_ftl_fields zone_ok_def init_desc_def lb zs(1) BYTE_TO_LBA_def LBA_SIZE_def)
  qed
  ultimately show ?thesis by (simp add: zinv_def s(3) zns_init_ftl_fields)
qed

lemma zns_init_zrwa:
  assumes "zns_init_namespace cfg junk j clock spp0 m ns0 nid sz a cpu = Some ns"
  shows "acquired_cnt (res_infos (zftl ns) ZRWA_ZONE) = 0" "zrwa_held (zftl ns) = 0"
  using assms by (auto simp: zns_init_namespace_def bind_eq_Some_conv zns_init_ftl_fields zrwa_held_def cnt_def init_desc_def active_def opened_def)

end
