(* ===== verification/Zns_Device.thy ===== *)
theory Zns_Device
  imports Zns_Init Sample_Device
begin

text \<open>
  A zoned device of the configuration \<open>ZNS_PROTOTYPE\<close> with four zones, as the constructors leave it. The properties are
  applied to it.
\<close>

definition zx_mem :: sys_mem where "zx_mem = \<lparr>host = (\<lambda>x. x mod 251), disk = (\<lambda>x. x mod 241)\<rparr>"

text \<open>Memory of a namespace as an allocator may return it.\<close>

definition zx_raw :: zns_ns where
  "zx_raw = \<lparr>z_id = 0, z_csi = 0, z_nr_parts = 0, z_size = 0, z_mapped = 0,
     zftl = \<lparr>zssd = spl_ssd,
             zp = \<lparr>nr_zones = 0, nr_active_zones = 0, nr_open_zones = 0, dies_per_zone = 0, zone_size = 0, zone_wb_size = 0,
                   nr_zrwa_zones = 0, zrwafg_size = 0, zrwa_size = 0, zrwa_buffer_size = 0, lbas_per_zrwafg = 0, lbas_per_zrwa = 0\<rparr>,
             res_infos = (\<lambda>_. \<lparr>acquired_cnt = 0, total_cnt = 0\<rparr>), zone_descs = [], report_buffer = [], zone_write_buffer = [],
             zrwa_buffer = [], storage_base_addr = 0, zmem = zx_mem\<rparr>,
     z_clk = spl_clock, z_tick = 0\<rparr>"

definition zx_spp :: ssdparams where "zx_spp = the (ssd_init_params ZNS_PROTOTYPE spl_spp (MB 128) 1)"

lemma zx_params: "ssd_init_params ZNS_PROTOTYPE spl_spp (MB 128) 1 = Some zx_spp"
proof -
  have "ssd_init_params ZNS_PROTOTYPE spl_spp (MB 128) 1 \<noteq> None"
    by (simp add: ssd_init_params_def ZNS_PROTOTYPE_def LBA_SIZE_def KB_def MB_def DIV_ROUND_UP_def Let_def)
  then show ?thesis by (simp add: zx_spp_def)
qed

lemma zx_values:
  "secsz zx_spp = 512" "secs_per_pg zx_spp = 8" "pgsz zx_spp = 4096" "pgs_per_oneshotpg zx_spp = 32" "write_unit_size zx_spp = 131072"
  "write_buffer_size zx_spp = 33554432" "fw_wbuf_lat0 zx_spp = 0" "fw_wbuf_lat1 zx_spp = 0" "nchs zx_spp = 8" "luns_per_ch zx_spp = 16"
  "fw_rd_lat zx_spp = 32150" "fw_4kb_rd_lat zx_spp = 32150"
  using zns_params_fields [OF zx_params] by (simp_all add: ZNS_PROTOTYPE_def LBA_SIZE_def KB_def)

definition zx_zpp :: znsparams where
  "zx_zpp = \<lparr>nr_zones = 4, nr_active_zones = 4, nr_open_zones = 4, dies_per_zone = 1, zone_size = 33554432, zone_wb_size = 0,
     nr_zrwa_zones = 0, zrwafg_size = 0, zrwa_size = 0, zrwa_buffer_size = 0, lbas_per_zrwafg = 0, lbas_per_zrwa = 0\<rparr>"

lemma zx_zparams: "zns_init_params ZNS_PROTOTYPE zx_spp (MB 128) = Some zx_zpp"
  by (simp add: zns_init_params_def zx_values zx_zpp_def ZNS_PROTOTYPE_def MB_def u32_def Let_def)

definition zx_ns :: zns_ns where
  "zx_ns = the (zns_init_namespace ZNS_PROTOTYPE (\<lambda>_. 0) 0 spl_clock spl_spp zx_mem zx_raw 1 (MB 128) 4096 0)"

lemma zx_init: "zns_init_namespace ZNS_PROTOTYPE (\<lambda>_. 0) 0 spl_clock spl_spp zx_mem zx_raw 1 (MB 128) 4096 0 = Some zx_ns"
  by (simp add: zx_ns_def zns_init_namespace_def zx_params [simplified] zx_zparams [simplified])

lemma zx_ftl: "zftl zx_ns = zns_init_ftl ZNS_PROTOTYPE (\<lambda>_. 0) zx_zpp (ssd_init 0 spl_clock zx_spp 0) 4096 zx_mem"
  "z_csi zx_ns = NVME_CSI_ZNS" "z_nr_parts zx_ns = 1"
proof -
  have e: "zx_ns = zx_raw\<lparr>z_id := 1, z_csi := NVME_CSI_ZNS, z_nr_parts := 1, z_size := MB 128, z_mapped := 4096,
      zftl := zns_init_ftl ZNS_PROTOTYPE (\<lambda>_. 0) zx_zpp (ssd_init 0 spl_clock zx_spp 0) 4096 zx_mem\<rparr>"
    using zx_init by (auto simp: zns_init_namespace_def zx_params [simplified] zx_zparams [simplified])
  show "zftl zx_ns = zns_init_ftl ZNS_PROTOTYPE (\<lambda>_. 0) zx_zpp (ssd_init 0 spl_clock zx_spp 0) 4096 zx_mem"
    "z_csi zx_ns = NVME_CSI_ZNS" "z_nr_parts zx_ns = 1" unfolding e by simp_all
qed

lemma zx_config: "zns_config_ok ZNS_PROTOTYPE (MB 128)" "LBA_BITS ZNS_PROTOTYPE \<le> 12"
  by (simp_all add: zns_config_ok_def ZNS_PROTOTYPE_def LBA_SIZE_def KB_def MB_def BANDWIDTH_TO_MAX_CREDITS_def UNIT_TIME_INTERVAL_def
      NS_PER_SEC_def UNIT_XFER_SIZE_def UNIT_XFER_CREDITS_def)

lemma zx_inv: "zinv (zftl zx_ns)"
  by (rule zns_init_inv [OF zx_init zx_config(1)])

lemma zx_zp: "zp (zftl zx_ns) = zx_zpp" "zspp (zftl zx_ns) = zx_spp" "nr_zones zx_zpp = 4" "zone_wb_size zx_zpp = 0"
  by (simp_all add: zx_ftl zns_init_ftl_fields zspp_def ssd_init_def zx_zpp_def)

lemma zx_zones:
  "lbas_per_zone (zftl zx_ns) = 65536" "i < 4 \<Longrightarrow> zone_descs (zftl zx_ns) ! i =
    \<lparr>zd_type = ZONE_TYPE_SEQ_WRITE_REQUIRED, zd_state = ZONE_STATE_EMPTY, zrwav = False, zone_capacity = 65536, zslba = i * 65536, zwp = i * 65536\<rparr>"
  "length (zone_descs (zftl zx_ns)) = 4" "acquired_cnt (res_infos (zftl zx_ns) t) = 0" "total_cnt (res_infos (zftl zx_ns) t) = 4"
  "zmem (zftl zx_ns) = zx_mem" "write_buffer (zssd (zftl zx_ns)) = buffer_init 33554432"
proof -
  show "lbas_per_zone (zftl zx_ns) = 65536" by (simp add: lbas_per_zone_def zx_zp zx_values) (simp add: zx_zpp_def)
  show "zone_descs (zftl zx_ns) ! i = \<lparr>zd_type = ZONE_TYPE_SEQ_WRITE_REQUIRED, zd_state = ZONE_STATE_EMPTY, zrwav = False, zone_capacity = 65536,
      zslba = i * 65536, zwp = i * 65536\<rparr>" if "i < 4" for i
    using that by (simp add: zx_ftl zns_init_ftl_fields zx_zpp_def init_desc_def BYTE_TO_LBA_def ZNS_PROTOTYPE_def)
  show "length (zone_descs (zftl zx_ns)) = 4" "acquired_cnt (res_infos (zftl zx_ns) t) = 0" "total_cnt (res_infos (zftl zx_ns) t) = 4"
    "zmem (zftl zx_ns) = zx_mem" "write_buffer (zssd (zftl zx_ns)) = buffer_init 33554432"
    by (simp_all add: zx_ftl zns_init_ftl_fields zx_zp ssd_init_def zx_values)
qed

text \<open>Commands: the start of zone \<open>i\<close>, and the values of words 12 and 13.\<close>

definition zx_cmd :: "nat \<Rightarrow> nat \<Rightarrow> nat \<Rightarrow> nat \<Rightarrow> nvme_command" where
  "zx_cmd opc lba w12 w13 = \<lparr>opcode = opc, cflags = 0, command_id = 7, nsid = 1, prp1 = 8192, prp2 = 0, cdw10 = lba, cdw11 = 0, cdw12 = w12,
     cdw13 = w13, cdw14 = 0, cdw15 = 0\<rparr>"

definition zx_req :: "nvme_command \<Rightarrow> nvmev_request" where
  "zx_req c = \<lparr>rq_cmd = c, rq_sq_id = 1, rq_nsecs_start = 5000\<rparr>"

lemma zx_cmd_fields [simp]:
  "opcode (zx_cmd opc lba w12 w13) = opc" "lba < 2 ^ 32 \<Longrightarrow> rw_slba (zx_cmd opc lba w12 w13) = lba" "rw_length (zx_cmd opc lba w12 w13) = w12 mod 2 ^ 16"
  "cdw13 (zx_cmd opc lba w12 w13) = w13" "cdw12 (zx_cmd opc lba w12 w13) = w12" "prp1 (zx_cmd opc lba w12 w13) = 8192" "prp2 (zx_cmd opc lba w12 w13) = 0"
  by (simp_all add: zx_cmd_def rw_slba_def le64_def rw_length_def lo16_def)

lemma zx_req_fields [simp]: "rq_cmd (zx_req c) = c" "rq_sq_id (zx_req c) = 1" "rq_nsecs_start (zx_req c) = 5000"
  by (simp_all add: zx_req_def)

lemma zx_zone: "lba < 4 * 65536 \<Longrightarrow> lba_to_zone (zftl zx_ns) lba = lba div 65536"
  by (simp add: lba_to_zone_def zx_zones u32_def)

end
