(* ===== verification/Zns_Properties.thy ===== *)
theory Zns_Properties
  imports Zns_Device
begin

text \<open>
  The properties of the zoned namespace, each applied to the device of theory \<open>Zns_Device\<close>.
\<close>

section \<open>All states\<close>

text \<open>C25: In every state that a zoned namespace reaches from its construction, by commands of any kind and with any result and by the
  releases of the worker, the descriptors are well-formed and a zone that can be written has room at its write pointer. The
  counters of active and open zones are the numbers of these zones, so no zone ever lacks one of these two resources. The
  counter of random write areas is the number of active zones that have one plus the number \<open>k\<close> of zones with such an
  area that writes have filled so far: the code never gives back the resource of a zone that a write fills, so one can be
  taken only while these two numbers together are below the number of zones.\<close>

theorem zns_reachable_inv:
  assumes "zns_init_namespace cfg junk j clock spp0 m ns0 nid sz a cpu = Some ns" "zns_config_ok cfg sz" "zns_run cfg ns k ns'"
  shows "zinv (zftl ns') \<and>
    acquired_cnt (res_infos (zftl ns') ACTIVE_ZONE) = cnt active (zone_descs (zftl ns')) \<and>
    acquired_cnt (res_infos (zftl ns') OPEN_ZONE) = cnt opened (zone_descs (zftl ns')) \<and>
    acquired_cnt (res_infos (zftl ns') ZRWA_ZONE) = cnt (\<lambda>z. active z \<and> zrwav z) (zone_descs (zftl ns')) + k \<and>
    (\<forall>i < nr_zones (zp (zftl ns')). \<not> active (zone_descs (zftl ns') ! i) \<longrightarrow> is_zone_resource_avail (zftl ns') ACTIVE_ZONE) \<and>
    (\<forall>i < nr_zones (zp (zftl ns')). \<not> opened (zone_descs (zftl ns') ! i) \<longrightarrow> is_zone_resource_avail (zftl ns') OPEN_ZONE) \<and>
    (is_zone_resource_avail (zftl ns') ZRWA_ZONE \<longleftrightarrow>
      cnt (\<lambda>z. active z \<and> zrwav z) (zone_descs (zftl ns')) + k < nr_zones (zp (zftl ns')))"
proof -
  have "LBA_BITS cfg \<le> 12" using assms(2) by (simp add: zns_config_ok_def)
  then have i: "zinv (zftl ns')" and l: "leaks k (zftl ns) (zftl ns')"
    using zns_run_inv [OF assms(3) zns_init_inv [OF assms(1,2)]] by blast+
  have "acquired_cnt (res_infos (zftl ns') ZRWA_ZONE) = zrwa_held (zftl ns') + k"
    using l zns_init_zrwa [OF assms(1)] by (simp add: leaks_def)
  then show ?thesis using res_bounds(1,2) [OF i] i zinvD(2) [OF i] by (auto simp: res_ok_def zrwa_held_def is_zone_resource_avail_def)
qed

section \<open>Zone management\<close>

text \<open>C27: Zone management send refines the state machine of a zone: close, finish, open, reset and offline lead to the state of the table
  \<open>zone_next\<close>, or are refused as invalid transitions exactly where it has none; only the zone of the command changes, and only a reset
  touches the storage, which it clears over the whole zone.\<close>

theorem zone_mgmt_refines:
  assumes "zinv f" "zid < nr_zones (zp f)" "c = rq_cmd req" "lba_to_zone f (rw_slba c) = zid" "\<not> select_all c" "zsa c = action_code act"
    "act = Open \<and> zsaso c \<and> zd_state (zone_descs f ! zid) = ZONE_STATE_EMPTY \<longrightarrow> is_zone_resource_avail f ZRWA_ZONE"
  shows "\<exists>f'. zns_zmgmt_send f req = Some (\<lparr>rs_status = status_of act (zd_state (zone_descs f ! zid)), rs_nsecs_target = rq_nsecs_start req\<rparr>, f') \<and>
    zinv f' \<and> zone_descs f' = (zone_descs f)[zid := zone_after act (zsaso c) (zone_descs f ! zid)] \<and> zmem f' = storage_after act zid f"
proof -
  obtain st f' where "zmgmt_send (rw_slba c) (action_code act) (zsaso c) f = Some (Some st, f')" "acted act (zsaso c) zid f (st, f')"
    using zmgmt_send_ok [OF assms(1,2,4), of act "zsaso c"] assms(7) by blast
  moreover have "lbas_per_zone f \<noteq> 0" using zgeo_pos(1) [OF zinvD(1) [OF assms(1)]] by simp
  ultimately show ?thesis using assms(5,6) by (auto simp: zns_zmgmt_send_def assms(3) [symmetric] acted_def)
qed

theorem zone_mgmt_refines_witness:
  "\<exists>f'. zns_zmgmt_send (zftl zx_ns) (zx_req (zx_cmd nvme_cmd_zone_mgmt_send 65536 0 4)) = Some (\<lparr>rs_status = NVME_SC_SUCCESS, rs_nsecs_target = 5000\<rparr>, f') \<and>
    zone_descs f' = zone_descs (zftl zx_ns) \<and> disk (zmem f') (4096 + 33554432) = 0"
proof -
  let ?f = "zftl zx_ns" and ?c = "zx_cmd nvme_cmd_zone_mgmt_send 65536 0 4"
  have r: "1 < nr_zones (zp ?f)" "rw_slba ?c = 65536" "\<not> select_all ?c" "zsa ?c = action_code Reset"
    by (simp_all add: zx_zp select_all_def zsa_def zsa_codes)
  have "lba_to_zone ?f (rw_slba ?c) = 1" using zx_zone r(2) by simp
  from zone_mgmt_refines [OF zx_inv r(1) _ this r(3,4), of "zx_req ?c"]
  obtain f' where f': "zns_zmgmt_send ?f (zx_req ?c) = Some (\<lparr>rs_status = NVME_SC_SUCCESS, rs_nsecs_target = 5000\<rparr>, f')"
    "zone_descs f' = (zone_descs ?f)[1 := zone_after Reset (zsaso ?c) (zone_descs ?f ! 1)]" "zmem f' = storage_after Reset 1 ?f"
    using zx_zones(2) [of 1] by (auto simp: status_of_def)
  have "zone_after Reset (zsaso ?c) (zone_descs ?f ! 1) = zone_descs ?f ! 1" using zx_zones(2) [of 1] by (simp add: zone_after_def)
  moreover have "disk (zmem f') (4096 + 33554432) = 0"
    by (simp add: f'(3) storage_after_def memset0_def get_storage_addr_from_zid_def zx_zp) (simp add: zx_ftl zns_init_ftl_def init_resource_def init_descriptor_def zx_zpp_def Let_def)
  ultimately show ?thesis using f'(1,2) by (intro exI [of _ f']) simp
qed

text \<open>The witness of the first property: a device on which zone 1 has been opened with a random write area.\<close>

theorem zns_reachable_inv_witness:
  "\<exists>ns'. zns_run ZNS_PROTOTYPE zx_ns 0 ns' \<and> zinv (zftl ns') \<and> zd_state (zone_descs (zftl ns') ! 1) = ZONE_STATE_OPENED_EXPL \<and>
    0 < acquired_cnt (res_infos (zftl ns') OPEN_ZONE) \<and> 0 < acquired_cnt (res_infos (zftl ns') ZRWA_ZONE) \<and>
    acquired_cnt (res_infos (zftl ns') ZRWA_ZONE) = cnt (\<lambda>z. active z \<and> zrwav z) (zone_descs (zftl ns'))"
proof -
  let ?f = "zftl zx_ns" and ?c = "zx_cmd nvme_cmd_zone_mgmt_send 65536 0 0x203"
  let ?req = "zx_req ?c" and ?ret = "\<lparr>rs_status = 0, rs_nsecs_target = 0\<rparr>"
  have c: "rw_slba ?c = 65536" "\<not> select_all ?c" "zsa ?c = ZSA_OPEN_ZONE" "zsaso ?c"
    by (simp_all add: select_all_def zsa_def zsaso_def zsa_codes)
  have b: "lbas_per_zone ?f \<noteq> 0" "lba_to_zone ?f 65536 = 1" "1 < nr_zones (zp ?f)" "is_zone_resource_avail ?f ZRWA_ZONE"
    using zx_zones(1,4,5) zx_zone by (simp_all add: zx_zp is_zone_resource_avail_def)
  with zmgmt_send_ok [OF zx_inv, of 1 65536 Open True]
  obtain st f' where z: "zmgmt_send 65536 ZSA_OPEN_ZONE True ?f = Some (Some st, f')" "acted Open True 1 ?f (st, f')" by auto
  then have f': "zns_zmgmt_send ?f ?req = Some (\<lparr>rs_status = st, rs_nsecs_target = 5000\<rparr>, f')"
    using b(1) c by (auto simp: zns_zmgmt_send_def)
  have d: "zone_descs f' ! 1 = (zone_descs ?f ! 1)\<lparr>zrwav := True, zd_state := ZONE_STATE_OPENED_EXPL\<rparr>" "length (zone_descs f') = 4"
    using z(2) zx_zones(2) [of 1] zx_zones(3) by (simp_all add: acted_def zone_after_def)
  have "zns_proc_nvme_io_cmd ZNS_PROTOTYPE zx_ns ?req ?ret =
      Some (True, \<lparr>rs_status = st, rs_nsecs_target = 5000\<rparr>, [], rq_cmd ?req, zx_ns\<lparr>zftl := f'\<rparr>)"
    using f' by (simp add: zns_proc_nvme_io_cmd_def zx_ftl(2,3) io_opcodes)
  from zns_run.command [OF zns_run.start this]
  have run: "zns_run ZNS_PROTOTYPE zx_ns 0 (zx_ns\<lparr>zftl := f'\<rparr>)" by (simp add: fills_def io_opcodes)
  note p = zns_reachable_inv [OF zx_init zx_config(1) run]
  have "0 < cnt opened (zone_descs f')" "0 < cnt (\<lambda>z. active z \<and> zrwav z) (zone_descs f')"
    using d by (intro cnt_pos [of 1]; simp add: active_def opened_def)+
  then show ?thesis using run p d(1) by (intro exI [of _ "zx_ns\<lparr>zftl := f'\<rparr>"]) simp
qed

text \<open>With the bit \<open>select_all\<close> an action is carried out on every zone and reported as a success, also where it is no valid transition:
  there the zone stays as it is.\<close>

theorem zone_mgmt_all:
  assumes "zinv f" "select_all (rq_cmd req)" "zsa (rq_cmd req) = action_code act" "act = Open \<longrightarrow> \<not> zsaso (rq_cmd req)"
  shows "\<exists>f'. zns_zmgmt_send f req = Some (\<lparr>rs_status = NVME_SC_SUCCESS, rs_nsecs_target = rq_nsecs_start req\<rparr>, f') \<and> zinv f' \<and>
    zone_descs f' = map (zone_after act (zsaso (rq_cmd req))) (zone_descs f)"
proof -
  have "lbas_per_zone f \<noteq> 0" using zgeo_pos(1) [OF zinvD(1) [OF assms(1)]] by simp
  then show ?thesis using send_all_ok [OF assms(1,4)] assms(2,3) by (auto simp: zns_zmgmt_send_def)
qed

theorem zone_mgmt_all_witness:
  "\<exists>f'. zns_zmgmt_send (zftl zx_ns) (zx_req (zx_cmd nvme_cmd_zone_mgmt_send 0 0 0x102)) = Some (\<lparr>rs_status = NVME_SC_SUCCESS, rs_nsecs_target = 5000\<rparr>, f') \<and>
    (\<forall>i < 4. zd_state (zone_descs f' ! i) = ZONE_STATE_FULL)"
proof -
  let ?req = "zx_req (zx_cmd nvme_cmd_zone_mgmt_send 0 0 0x102)"
  have "select_all (rq_cmd ?req)" "zsa (rq_cmd ?req) = action_code Finish" by (simp_all add: select_all_def zsa_def zsa_codes)
  from zone_mgmt_all [OF zx_inv this] show ?thesis using zx_zones(2,3) by (auto simp: zone_after_def)
qed

text \<open>A zone that has been opened with a random write area although the configuration has none (its resource is counted by the number of zones) is a
  trap: an explicit flush of its first blocks divides by the size of the flush group, which is zero.\<close>

theorem explicit_flush_zero_division:
  assumes "zinv f" "lba_to_zone f slba = zid" "zid < nr_zones (zp f)" "z = zone_descs f ! zid" "zrwav z" "zwp z = 0" "slba < zone_capacity z"
    "lbas_per_zrwa (zp f) = 0" "lbas_per_zrwafg (zp f) = 0"
  shows "zmgmt_send slba ZSA_FLUSH_EXPL_ZRWA opt f = None"
proof -
  have z: "idx (zone_descs f) zid = Some z" using idx_zone [OF assms(1)] assms(3,4) by blast
  have c: "zone_capacity z = lbas_per_zone f" using zinvD(4) [OF assms(1,3)] assms(4) by (simp add: zone_ok_def)
  have e: "zone_to_slba f zid + zone_capacity z < 2 ^ 64"
    using zone_end [OF zinvD(1) [OF assms(1)] assms(3)] zone_slba [OF zinvD(1) [OF assms(1)] assms(3)] c by simp
  have "slba \<le> sub64 (u64 (zone_to_slba f zid + zone_capacity z)) 1" using e assms(7) by (simp add: sub64_le)
  moreover have "sub64 0 1 = 2 ^ 64 - 1" by (simp add: sub64_def u64_def)
  moreover have "slba \<le> 2 ^ 64 - 1" using assms(7) e by linarith
  ultimately have "slba \<le> min (sub64 (0 + 0) 1) (sub64 (u64 (zone_to_slba f zid + zone_capacity z)) 1)" by simp
  then show ?thesis
    using z assms(2,5,6,8,9) by (simp add: zmgmt_send_def zsa_codes zmgmt_send_flush_explicit_zrwa_def Let_def NVMEV_ASSERT_def split: option.split)
qed

theorem explicit_flush_zero_division_witness:
  "\<exists>f'. zmgmt_send 0 ZSA_OPEN_ZONE True (zftl zx_ns) = Some (Some NVME_SC_SUCCESS, f') \<and> zmgmt_send 7 ZSA_FLUSH_EXPL_ZRWA False f' = None"
proof -
  let ?f = "zftl zx_ns"
  have "lba_to_zone ?f 0 = 0" "0 < nr_zones (zp ?f)" "is_zone_resource_avail ?f ZRWA_ZONE"
    using zx_zone [of 0] zx_zones(4,5) by (simp_all add: zx_zp is_zone_resource_avail_def)
  with zmgmt_send_ok [OF zx_inv, of 0 0 Open True]
  obtain st f' where f': "zmgmt_send 0 ZSA_OPEN_ZONE True ?f = Some (Some st, f')" "acted Open True 0 ?f (st, f')" by auto
  have z: "zone_descs f' ! 0 = (zone_descs ?f ! 0)\<lparr>zrwav := True, zd_state := ZONE_STATE_OPENED_EXPL\<rparr>" "st = NVME_SC_SUCCESS"
    using f'(2) zx_zones(2) [of 0] zx_zones(3) by (simp_all add: acted_def status_of_def zone_after_def)
  have k: "zp f' = zx_zpp" "lbas_per_zone f' = 65536" "zinv f'"
    using f'(2) zkeep_geo(3) [OF _ zinvD(1) [OF zx_inv], of f'] by (simp_all add: acted_def zkeep_def zx_zp zx_zones(1))
  have "zmgmt_send 7 ZSA_FLUSH_EXPL_ZRWA False f' = None"
    by (rule explicit_flush_zero_division [where zid = 0, OF k(3) _ _ refl])
      (use z(1) zx_zones(2) [of 0] k in \<open>simp_all add: lba_to_zone_def zx_zpp_def\<close>)
  then show ?thesis using f'(1) z(2) by blast
qed

section \<open>Writes\<close>

lemma zns_write_plain_eq:
  assumes "zinv f" "zid < nr_zones (zp f)" "\<not> zrwav (zone_descs f ! zid)" "lba_to_zone f (rw_slba (rq_cmd req)) = zid"
  shows "zns_write cfg f req = zns_write_plain cfg f req"
proof -
  have "secs_per_pg (zspp f) \<noteq> 0 \<and> lpns_per_zone f \<noteq> 0 \<and> lbas_per_zone f \<noteq> 0"
    using zinvD(1) [OF assms(1)] zgeo_pos(1,2) [OF zinvD(1) [OF assms(1)]] by (simp add: zgeo_def)
  moreover have "idx (zone_descs f) zid = Some (zone_descs f ! zid)" using idx_zone [OF assms(1)] assms(2) by blast
  ultimately show ?thesis using assms(3,4) by (simp add: zns_write_def same_zone [OF zinvD(1) [OF assms(1)]])
qed

lemma zone_bytes_bound: "LBA_BITS cfg \<le> 12 \<Longrightarrow> n \<le> 2 ^ 16 \<Longrightarrow> LBA_TO_BYTE cfg n < 2 ^ 32"
proof -
  assume b: "LBA_BITS cfg \<le> 12" and n: "n \<le> 2 ^ 16"
  have "(2::nat) ^ LBA_BITS cfg \<le> 2 ^ 12" using b by (intro power_increasing) simp_all
  then have "LBA_TO_BYTE cfg n \<le> 2 ^ 16 * 2 ^ 12" unfolding LBA_TO_BYTE_def using n by (intro mult_le_mono)
  then show ?thesis by simp
qed

lemma rw_length_le: "rw_length c + 1 \<le> 2 ^ 16" "0 < rw_length c + 1"
  by (simp_all add: rw_length_def lo16_def)

lemma LBA_TO_BYTE_pos: "0 < n \<Longrightarrow> 0 < LBA_TO_BYTE cfg n"
  by (simp add: LBA_TO_BYTE_def)

lemma set_slba_rw: "v < 2 ^ 64 \<Longrightarrow> rw_slba (set_slba v c) = v"
proof -
  assume v: "v < 2 ^ 64"
  then have "u32 (v div 2 ^ 32) = v div 2 ^ 32" by (simp add: u32_def)
  then show ?thesis by (simp add: rw_slba_def set_slba_def le64_def u32_def)
qed

text \<open>C26: A write (or append) at the write pointer of a zone that is not full, that fits the zone, its write unit and the buffer, succeeds: the zone is opened
  and its write pointer moved, to the end exactly when it becomes full, and nothing else changes; an append is told its place in the command;
  the buffer pays for the blocks, the operations give back the wordlines that are complete, the last one of the zone included, and the
  command is not acknowledged before the buffer has been filled.\<close>

theorem zns_write_effect:
  assumes "zinv f" "c = rq_cmd req" "lba_to_zone f (rw_slba c) = zid" "zid < nr_zones (zp f)" "z = zone_descs f ! zid" "\<not> zrwav z"
    "zd_state z \<noteq> ZONE_STATE_FULL" "write_lba c z = zwp z" "n = rw_length c + 1" "zwp z + n \<le> zslba z + zone_capacity z"
    "bytes = LBA_TO_BYTE cfg n" "bytes mod write_unit_size (zspp f) = 0" "LBA_BITS cfg \<le> 12"
    "get_buffer (write_buf f zid) f = Some b" "bytes \<le> b_remaining b" "b_remaining b \<le> b_size b"
  shows "\<exists>t ops c' f'. zns_write cfg f req = Some (Some \<lparr>rs_status = NVME_SC_SUCCESS, rs_nsecs_target = t\<rparr>, ops, c', f') \<and> zinv f' \<and>
    zone_descs f' = (zone_descs f)[zid := zone_advanced n (zone_opened z)] \<and> zmem f' = zmem f \<and> rw_slba c' = zwp z \<and>
    get_buffer (write_buf f zid) f' = Some (b\<lparr>b_remaining := b_remaining b - bytes\<rparr>) \<and>
    (\<exists>v. write_ops_ok f (rq_sq_id req) zid (zwp z) n v ops) \<and>
    rq_nsecs_start req + fw_wbuf_lat0 (zspp f) + fw_wbuf_lat1 (zspp f) * DIV_ROUND_UP bytes (KB 4) \<le> t"
proof -
  note z = zinvD(4) [OF assms(1,4)] and e = zone_end [OF zinvD(1) [OF assms(1)] assms(4)]
  have Z: "zslba z = zid * lbas_per_zone f" "zone_capacity z = lbas_per_zone f" "zslba z \<le> zwp z" "zwp z < zslba z + lbas_per_zone f"
    using z assms(5-7) by (simp_all add: zone_ok_def)
  have w64: "zwp z \<le> 2 ^ 62" "zwp z < 2 ^ 64" using Z e by simp_all
  then have r: "opcode c \<noteq> nvme_cmd_zone_append \<longrightarrow> rw_slba c \<le> 2 ^ 62" using assms(8) by (auto simp: write_lba_def)
  have "zwp z mod lbas_per_zone f = zwp z - zslba z"
    using Z by (metis add_diff_cancel_left' le_Suc_ex mod_less mod_mult_self3 nat_add_left_cancel_less)
  then have st: "zone_write_status cfg f (zwp z) n z = NVME_SC_SUCCESS"
    using assms(7,10,11,12) Z by (auto simp: zone_write_status_def)
  have bs: "0 < bytes" "bytes < 2 ^ 32" "n \<le> 2 ^ 16" "bytes \<le> b_size b"
    using zone_bytes_bound [OF assms(13), of n] LBA_TO_BYTE_pos rw_length_le [of c] assms(9,11,15,16) by auto
  have app: "rw_slba (if opcode c = nvme_cmd_zone_append then set_slba (zwp z) c else c) = zwp z"
    using set_slba_rw [OF w64(2)] assms(8) by (auto simp: write_lba_def split: if_splits)
  have zv: "\<not> zrwav (zone_descs f ! zid)" and lz: "lba_to_zone f (rw_slba (rq_cmd req)) = zid" using assms(2,3,5,6) by simp_all
  from zns_write_plain_ok [OF assms(1,4,5,6,3) r assms(2) refl assms(9) bs(3) assms(11) bs(1,2) assms(14) bs(4)]
  show ?thesis unfolding zns_write_plain_eq [OF assms(1,4) zv lz]
    using assms(8,15) st app by (simp add: Let_def) blast
qed

lemma zx_buf: "write_buf (zftl zx_ns) i = Global_Buffer" "get_buffer Global_Buffer (zftl zx_ns) = Some (buffer_init 33554432)"
  by (simp_all add: write_buf_def zx_zp get_buffer_def zx_zones(7))

lemma zx_bytes: "LBA_TO_BYTE ZNS_PROTOTYPE n = n * 512"
  by (simp add: LBA_TO_BYTE_def ZNS_PROTOTYPE_def)

theorem zns_write_effect_witness:
  "\<exists>t ops c' f'. zns_write ZNS_PROTOTYPE (zftl zx_ns) (zx_req (zx_cmd nvme_cmd_zone_append 65536 511 0)) =
      Some (Some \<lparr>rs_status = NVME_SC_SUCCESS, rs_nsecs_target = t\<rparr>, ops, c', f') \<and>
    zd_state (zone_descs f' ! 1) = ZONE_STATE_OPENED_IMPL \<and> zwp (zone_descs f' ! 1) = 66048 \<and> sum_list (map zo_release ops) = 262144"
proof -
  let ?f = "zftl zx_ns" and ?c = "zx_cmd nvme_cmd_zone_append 65536 511 0"
  have z: "zone_descs ?f ! 1 = \<lparr>zd_type = ZONE_TYPE_SEQ_WRITE_REQUIRED, zd_state = ZONE_STATE_EMPTY, zrwav = False, zone_capacity = 65536, zslba = 65536,
      zwp = 65536\<rparr>" using zx_zones(2) [of 1] by simp
  note z1 = z [unfolded One_nat_def]
  have h: "rw_length ?c + 1 = 512" "rw_slba ?c = 65536" by simp_all
  have zone: "lba_to_zone ?f (rw_slba ?c) = 1" using zx_zone by simp
  have lp: "lpns_per_zone ?f = 8192" by (simp add: lpns_per_zone_def zx_zp zx_values) (simp add: zx_zpp_def)
  have "\<exists>t ops c' f'. zns_write ZNS_PROTOTYPE ?f (zx_req ?c) = Some (Some \<lparr>rs_status = NVME_SC_SUCCESS, rs_nsecs_target = t\<rparr>, ops, c', f') \<and> zinv f' \<and>
    zone_descs f' = (zone_descs ?f)[1 := zone_advanced 512 (zone_opened (zone_descs ?f ! 1))] \<and> zmem f' = zmem ?f \<and> rw_slba c' = zwp (zone_descs ?f ! 1) \<and>
    get_buffer (write_buf ?f 1) f' = Some (buffer_init 33554432\<lparr>b_remaining := b_remaining (buffer_init 33554432) - 262144\<rparr>) \<and>
    (\<exists>v. write_ops_ok ?f (rq_sq_id (zx_req ?c)) 1 (zwp (zone_descs ?f ! 1)) 512 v ops) \<and>
    rq_nsecs_start (zx_req ?c) + fw_wbuf_lat0 (zspp ?f) + fw_wbuf_lat1 (zspp ?f) * DIV_ROUND_UP 262144 (KB 4) \<le> t"
    by (rule zns_write_effect [OF zx_inv _ zone _ refl, where cfg = ZNS_PROTOTYPE])
      (simp_all add: z1 write_lba_def zx_zp zx_values zx_bytes zx_buf zx_config buffer_init_def)
  then obtain t ops c' f' v where w: "zns_write ZNS_PROTOTYPE ?f (zx_req ?c) = Some (Some \<lparr>rs_status = NVME_SC_SUCCESS, rs_nsecs_target = t\<rparr>, ops, c', f')"
    "zone_descs f' = (zone_descs ?f)[1 := zone_advanced 512 (zone_opened (zone_descs ?f ! 1))]"
    "write_ops_ok ?f 1 1 (zwp (zone_descs ?f ! 1)) 512 v ops" by auto
  have "sum_list (map zo_release ops) = 262144"
    using w(3) by (simp add: write_ops_ok_def Let_def z1 zx_zones(1) zx_zp zx_values released_def lp)
  moreover have "zd_state (zone_descs f' ! 1) = ZONE_STATE_OPENED_IMPL \<and> zwp (zone_descs f' ! 1) = 66048"
    using zx_zones(3) by (simp add: w(2) z1 zone_advanced_def zone_opened_def opened_def)
  ultimately show ?thesis using w(1) by blast
qed

text \<open>A write that the protocol does not allow (a size off the write unit, a range beyond its zone, a start off the write pointer, a full zone) is
  answered with its status at once and changes no zone, but the bytes of buffer that it took are lost: no operation gives them back.\<close>

theorem zns_write_error_leaks:
  assumes "zinv f" "c = rq_cmd req" "lba_to_zone f (rw_slba c) = zid" "zid < nr_zones (zp f)" "z = zone_descs f ! zid" "\<not> zrwav z"
    "rw_slba c \<le> 2 ^ 62" "n = rw_length c + 1" "zone_write_status cfg f (write_lba c z) n z \<noteq> NVME_SC_SUCCESS"
    "bytes = LBA_TO_BYTE cfg n" "LBA_BITS cfg \<le> 12"
    "get_buffer (write_buf f zid) f = Some b" "bytes \<le> b_remaining b" "b_remaining b \<le> b_size b"
  shows "\<exists>c' f'. zns_write cfg f req =
      Some (Some \<lparr>rs_status = zone_write_status cfg f (write_lba c z) n z, rs_nsecs_target = rq_nsecs_start req\<rparr>, [], c', f') \<and>
    zone_descs f' = zone_descs f \<and> zinv f' \<and>
    get_buffer (write_buf f zid) f' = Some (b\<lparr>b_remaining := b_remaining b - bytes\<rparr>)"
proof -
  have bs: "0 < bytes" "bytes < 2 ^ 32" "n \<le> 2 ^ 16" "bytes \<le> b_size b"
    using zone_bytes_bound [OF assms(11), of n] LBA_TO_BYTE_pos rw_length_le [of c] assms(8,10,13,14) by auto
  have r: "opcode c \<noteq> nvme_cmd_zone_append \<longrightarrow> rw_slba c \<le> 2 ^ 62" using assms(7) by blast
  have zv: "\<not> zrwav (zone_descs f ! zid)" and lz: "lba_to_zone f (rw_slba (rq_cmd req)) = zid" using assms(2,3,5,6) by simp_all
  from zns_write_plain_ok [OF assms(1,4,5,6,3) r assms(2) refl assms(8) bs(3) assms(10) bs(1,2) assms(12) bs(4)]
  show ?thesis unfolding zns_write_plain_eq [OF assms(1,4) zv lz]
    using assms(9,13) by (simp add: Let_def) blast
qed

theorem zns_write_error_leaks_witness:
  "\<exists>c' f'. zns_write ZNS_PROTOTYPE (zftl zx_ns) (zx_req (zx_cmd nvme_cmd_write 65792 255 0)) =
      Some (Some \<lparr>rs_status = NVME_SC_ZNS_INVALID_WRITE, rs_nsecs_target = 5000\<rparr>, [], c', f') \<and>
    get_buffer Global_Buffer f' = Some \<lparr>b_size = 33554432, b_remaining = 33554432 - 131072\<rparr>"
proof -
  let ?f = "zftl zx_ns" and ?c = "zx_cmd nvme_cmd_write 65792 255 0"
  have z: "zone_descs ?f ! 1 = \<lparr>zd_type = ZONE_TYPE_SEQ_WRITE_REQUIRED, zd_state = ZONE_STATE_EMPTY, zrwav = False, zone_capacity = 65536, zslba = 65536,
      zwp = 65536\<rparr>" using zx_zones(2) [of 1] by simp
  note z1 = z [unfolded One_nat_def]
  have zone: "lba_to_zone ?f (rw_slba ?c) = 1" using zx_zone by simp
  have st: "zone_write_status ZNS_PROTOTYPE ?f (write_lba ?c (zone_descs ?f ! 1)) 256 (zone_descs ?f ! 1) = NVME_SC_ZNS_INVALID_WRITE"
    by (simp add: zone_write_status_def z1 write_lba_def io_opcodes zx_zp zx_values zx_bytes zx_zones(1))
  have "\<exists>c' f'. zns_write ZNS_PROTOTYPE ?f (zx_req ?c) =
      Some (Some \<lparr>rs_status = zone_write_status ZNS_PROTOTYPE ?f (write_lba ?c (zone_descs ?f ! 1)) 256 (zone_descs ?f ! 1), rs_nsecs_target = rq_nsecs_start (zx_req ?c)\<rparr>, [], c', f') \<and>
    zone_descs f' = zone_descs ?f \<and> zinv f' \<and>
    get_buffer (write_buf ?f 1) f' = Some (buffer_init 33554432\<lparr>b_remaining := b_remaining (buffer_init 33554432) - 131072\<rparr>)"
    by (rule zns_write_error_leaks [OF zx_inv _ zone _ refl]) (simp_all add: st zx_zp zx_bytes zx_buf zx_config buffer_init_def, simp_all add: z1 st [unfolded One_nat_def z1] zns_status)
  then show ?thesis unfolding st by (auto simp: zx_buf buffer_init_def)
qed

section \<open>Reads and the zone report\<close>

text \<open>A read of an existing zone returns in every state of the zone and never before the firmware latency; it reports a boundary
  error for a range beyond the zone, touches no descriptor, resource, storage or buffer, and every page of it is on a die that exists.\<close>

theorem zns_read_only:
  assumes "zinv f" "c = rq_cmd req" "lba_to_zone f (rw_slba c) < nr_zones (zp f)" "rw_slba c \<le> 2 ^ 62"
  shows "\<exists>t f'. zns_read cfg f req = Some (\<lparr>rs_status = zone_read_status f (rw_slba c) (rw_length c + 1), rs_nsecs_target = t\<rparr>, f') \<and>
    zinv f' \<and> zone_descs f' = zone_descs f \<and> res_infos f' = res_infos f \<and> zmem f' = zmem f \<and> (\<forall>b. get_buffer b f' = get_buffer b f) \<and>
    rq_nsecs_start req + (if LBA_TO_BYTE cfg (rw_length c + 1) \<le> KB 4 then fw_4kb_rd_lat (zspp f) else fw_rd_lat (zspp f)) \<le> t"
proof -
  obtain t f' where r: "zns_read cfg f req = Some (\<lparr>rs_status = zone_read_status f (rw_slba c) (rw_length c + 1), rs_nsecs_target = t\<rparr>, f')" "ztime f f'"
      "rq_nsecs_start req + (if LBA_TO_BYTE cfg (rw_length c + 1) \<le> KB 4 then fw_4kb_rd_lat (zspp f) else fw_rd_lat (zspp f)) \<le> t"
    using zns_read_ok [OF assms(1) refl refl, of req cfg] assms(2-4) by blast
  then show ?thesis using ztimeD(1,2,3) [OF r(2)] ztime_inv [OF r(2) assms(1)] ztime_bufs [OF r(2)] by (auto simp: same_bufs_def)
qed

theorem zns_read_only_witness:
  "\<exists>t f'. zns_read ZNS_PROTOTYPE (zftl zx_ns) (zx_req (zx_cmd nvme_cmd_read 131064 15 0)) =
      Some (\<lparr>rs_status = NVME_SC_ZNS_ERR_BOUNDARY, rs_nsecs_target = t\<rparr>, f') \<and> 5000 + 32150 \<le> t"
proof -
  let ?c = "zx_cmd nvme_cmd_read 131064 15 0"
  have "lba_to_zone (zftl zx_ns) (rw_slba ?c) < nr_zones (zp (zftl zx_ns))" "rw_slba ?c \<le> 2 ^ 62" using zx_zone by (simp_all add: zx_zp)
  from zns_read_only [OF zx_inv _ this, of "zx_req ?c" ZNS_PROTOTYPE]
  show ?thesis by (auto simp: zone_read_status_def zx_zones(1) zx_zp zx_values zx_bytes KB_def)
qed

text \<open>C28: The host finds the zones in the report: what it reads at the addresses of its pages is the number of descriptors and behind the head, one
  after another, descriptors that parse to those of the zones from the one it asked for; provided its pages are apart, the
  length that it asks for is in the report buffer, and no number has outgrown its field.\<close>

theorem zone_report_roundtrip:
  assumes "zinv f" "c = rq_cmd req" "check_zmgmt_rcv_option_supported f c" "s = lba_to_zone f (rw_slba c)" "len = recv_length c"
    and "len \<le> length (report_buffer f)" "prps (\<lambda>_. True) (host (zmem f)) c 0 (None, 0) len = Some ps" "inj_on (byte_addr len ps) {..<len}"
    and "length ps \<le> 2 \<or> apart (as_read c) (segs len 0 ps)" "\<forall>z \<in> set (zone_descs f). zwp z < 2 ^ 64"
  shows "\<exists>f'. zns_zmgmt_recv f req = Some (\<lparr>rs_status = NVME_SC_SUCCESS, rs_nsecs_target = rq_nsecs_start req\<rparr>, f') \<and>
    zone_descs f' = zone_descs f \<and> disk (zmem f') = disk (zmem f) \<and>
    (8 \<le> len \<longrightarrow> le_val (map (\<lambda>j. host (zmem f') (byte_addr len ps j)) [0..<8]) = report_zones f c) \<and>
    (\<forall>k < report_zones f c. 128 + 64 * k \<le> len \<longrightarrow>
      zd_parse (map (\<lambda>j. host (zmem f') (byte_addr len ps (64 + 64 * k + j))) [0..<64]) = zone_descs f ! (s + k))"
proof -
  have s: "lba_to_zone f (rw_slba c) < nr_zones (zp f)" using assms(3) by (simp add: check_zmgmt_rcv_option_supported_def)
  obtain b where b: "fill_zone_report c f = Some (f\<lparr>report_buffer := b\<rparr>)" "length b = length (report_buffer f)" "s + report_zones f c \<le> nr_zones (zp f)"
      "take 8 b = le_bytes 8 (report_zones f c)" "\<forall>k < report_zones f c. take 64 (drop (64 + 64 * k) b) = zd_bytes (zone_descs f ! (s + k))"
    using fill_ok [OF assms(1) s] assms(4) by blast
  obtain h where h: "prp_transfer_out b c len (zmem f) = Some ((zmem f)\<lparr>host := h\<rparr>)" "\<forall>j < len. h (byte_addr len ps j) = b ! j"
    using transfer_ok [OF assms(7) _ assms(8,9), of b] assms(6) b(2) by auto
  have part: "map (\<lambda>j. h (byte_addr len ps (off + j))) [0..<n] = take n (drop off b)" if "off + n \<le> len" for off n
    using that h(2) b(2) assms(6) by (intro nth_equalityI) simp_all
  have "lbas_per_zone f \<noteq> 0" using zgeo_pos(1) [OF zinvD(1) [OF assms(1)]] by simp
  then have "zns_zmgmt_recv f req = Some (\<lparr>rs_status = NVME_SC_SUCCESS, rs_nsecs_target = rq_nsecs_start req\<rparr>,
      f\<lparr>report_buffer := b, zmem := (zmem f)\<lparr>host := h\<rparr>\<rparr>)"
    using assms(2,3,5) b(1) h(1) by (simp add: zns_zmgmt_recv_def Let_def)
  moreover have "le_val (map (\<lambda>j. h (byte_addr len ps j)) [0..<8]) = report_zones f c" if "8 \<le> len"
  proof -
    have "report_zones f c < 256 ^ 8" using b(3) zinvD(1) [OF assms(1)] by (simp add: zgeo_def)
    then show ?thesis using part [of 0 8] that b(4) by (simp add: le_val_bytes)
  qed
  moreover have "zd_parse (map (\<lambda>j. h (byte_addr len ps (64 + 64 * k + j))) [0..<64]) = zone_descs f ! (s + k)"
    if k: "k < report_zones f c" "128 + 64 * k \<le> len" for k
  proof -
    have i: "s + k < nr_zones (zp f)" using b(3) k(1) by simp
    then have m: "zone_descs f ! (s + k) \<in> set (zone_descs f)" using zinvD(3) [OF assms(1)] by simp
    have e: "(s + k) * lbas_per_zone f + lbas_per_zone f < 2 ^ 32" by (rule zone_end [OF zinvD(1) [OF assms(1)] i])
    have "zd_parse (zd_bytes (zone_descs f ! (s + k))) = zone_descs f ! (s + k)"
      by (rule zd_parse_bytes) (use zinvD(4) [OF assms(1) i] e assms(10) m in \<open>simp_all add: zone_ok_def ZONE_TYPE_SEQ_WRITE_REQUIRED_def\<close>)
    then show ?thesis using part [of "64 + 64 * k" 64] k b(5) by simp
  qed
  ultimately show ?thesis by (intro exI [of _ "f\<lparr>report_buffer := b, zmem := (zmem f)\<lparr>host := h\<rparr>\<rparr>"]) simp
qed

theorem zone_report_roundtrip_witness:
  "\<exists>f'. zns_zmgmt_recv (zftl zx_ns) (zx_req (zx_cmd nvme_cmd_zone_mgmt_recv 65536 63 0)) = Some (\<lparr>rs_status = NVME_SC_SUCCESS, rs_nsecs_target = 5000\<rparr>, f') \<and>
    le_val (map (\<lambda>j. host (zmem f') (8192 + j)) [0..<8]) = 3 \<and>
    zd_parse (map (\<lambda>j. host (zmem f') (8192 + (128 + j))) [0..<64]) = zone_descs (zftl zx_ns) ! 2"
proof -
  let ?f = "zftl zx_ns" and ?c = "zx_cmd nvme_cmd_zone_mgmt_recv 65536 63 0"
  have z: "lba_to_zone ?f (rw_slba ?c) = 1" using zx_zone by simp
  have len: "recv_length ?c = 256" by (simp add: recv_length_def nr_dw_def inc32_def u32_def)
  have s: "seg_len 256 8192 = 256" by (simp add: seg_len_def PAGE_SIZE_def)
  have p: "prps (\<lambda>_. True) h ?c 0 (None, 0) 256 = Some [8192]" for h
    by (subst prps.simps) (simp add: next_prp_def s prps.simps)
  have ba: "byte_addr 256 [8192] j = 8192 + j" if "j < 256" for j using that s by simp
  have sup: "check_zmgmt_rcv_option_supported ?f ?c" using z by (simp add: check_zmgmt_rcv_option_supported_def zx_zp zra_def zra_specific_field_def)
  have "lba_to_zone ?f (rw_slba ?c) < nr_zones (zp ?f)" unfolding z by (simp add: zx_zp)
  from report_count [OF zx_inv this]
  have r: "report_zones ?f ?c = 3" unfolding z by (simp add: zx_zp zra_specific_features_def Let_def)
  have rb: "256 \<le> length (report_buffer ?f)" by (simp add: zx_ftl zns_init_ftl_fields zx_zp)
  have inj: "inj_on (byte_addr 256 [8192]) {..<256}" using ba by (auto simp: inj_on_def)
  have wp: "\<forall>z \<in> set (zone_descs ?f). zwp z < 2 ^ 64" using zx_zones(2,3) by (auto simp: in_set_conv_nth)
  obtain f' where F: "zns_zmgmt_recv ?f (zx_req ?c) = Some (\<lparr>rs_status = NVME_SC_SUCCESS, rs_nsecs_target = rq_nsecs_start (zx_req ?c)\<rparr>, f')"
    "8 \<le> (256::nat) \<longrightarrow> le_val (map (\<lambda>j. host (zmem f') (byte_addr 256 [8192] j)) [0..<8]) = 3"
    "\<forall>k < 3. 128 + 64 * k \<le> 256 \<longrightarrow> zd_parse (map (\<lambda>j. host (zmem f') (byte_addr 256 [8192] (64 + 64 * k + j))) [0..<64]) = zone_descs ?f ! (1 + k)"
    using zone_report_roundtrip [OF zx_inv _ sup z [symmetric] len [symmetric] rb p inj _ wp, of "zx_req ?c", unfolded r] by force
  have f': "zns_zmgmt_recv ?f (zx_req ?c) = Some (\<lparr>rs_status = NVME_SC_SUCCESS, rs_nsecs_target = 5000\<rparr>, f')"
    "le_val (map (\<lambda>j. host (zmem f') (byte_addr 256 [8192] j)) [0..<8]) = 3"
    "zd_parse (map (\<lambda>j. host (zmem f') (byte_addr 256 [8192] (128 + j))) [0..<64]) = zone_descs ?f ! 2"
    using F(1,2) spec [OF F(3), of 1] by (simp_all del: byte_addr.simps add: numeral_2_eq_2)
  have m: "map (\<lambda>j. host (zmem f') (byte_addr 256 [8192] j)) [0..<8] = map (\<lambda>j. host (zmem f') (8192 + j)) [0..<8]"
    "map (\<lambda>j. host (zmem f') (byte_addr 256 [8192] (128 + j))) [0..<64] = map (\<lambda>j. host (zmem f') (8192 + (128 + j))) [0..<64]"
    using ba by (auto simp del: byte_addr.simps)
  show ?thesis using f'(1) f'(2) [unfolded m(1)] f'(3) [unfolded m(2)] by blast
qed

end
