(* ===== verification/Kv_Ftl.thy ===== *)
theory Kv_Ftl
  imports Simple_Ftl Prp
begin

text \<open>
  The key-value namespace (\<open>kv_ftl.c\<close>, \<open>kv_ftl.h\<close>, \<open>nvme_kv.h\<close>) with its two allocators (\<open>append_only.c\<close>, \<open>bitmap.c\<close>): a hash table whose
  slots are chained, the values in the storage, batches and iterators. The latency is the one of the I/O units of \<open>Simple_Ftl\<close>.

  A key is a list of bytes; reading or writing behind an array (the 16 bytes of the command, the 18 of an entry) has no
  behaviour. \<open>-1\<close> in an unsigned field is its greatest value. The walks over the table may not end; this is \<open>None\<close>.
\<close>

unbundle bit_operations_syntax

section \<open>Commands\<close>

definition nvme_cmd_kv_store :: nat where "nvme_cmd_kv_store = 0x81"
definition nvme_cmd_kv_append :: nat where "nvme_cmd_kv_append = 0x83"
definition nvme_cmd_kv_batch :: nat where "nvme_cmd_kv_batch = 0x85"
definition nvme_cmd_kv_retrieve :: nat where "nvme_cmd_kv_retrieve = 0x90"
definition nvme_cmd_kv_delete :: nat where "nvme_cmd_kv_delete = 0xA1"
definition nvme_cmd_kv_iter_req :: nat where "nvme_cmd_kv_iter_req = 0xB1"
definition nvme_cmd_kv_iter_read :: nat where "nvme_cmd_kv_iter_read = 0xB2"
definition nvme_cmd_kv_exist :: nat where "nvme_cmd_kv_exist = 0xB3"

lemmas kv_opcodes = nvme_cmd_kv_store_def nvme_cmd_kv_append_def nvme_cmd_kv_batch_def nvme_cmd_kv_retrieve_def nvme_cmd_kv_delete_def
  nvme_cmd_kv_iter_req_def nvme_cmd_kv_iter_read_def nvme_cmd_kv_exist_def

definition is_kv_cmd :: "nat \<Rightarrow> bool" where
  "is_kv_cmd opc \<longleftrightarrow> opc \<in> {nvme_cmd_kv_append, nvme_cmd_kv_store, nvme_cmd_kv_retrieve, nvme_cmd_kv_delete, nvme_cmd_kv_iter_req,
     nvme_cmd_kv_iter_read, nvme_cmd_kv_exist, nvme_cmd_kv_batch}"

definition KV_ERR_KEY_NOT_EXIST :: nat where "KV_ERR_KEY_NOT_EXIST = 0x310"

text \<open>The views of the command: \<open>value_len\<close> is word 10, the key is words 12 to 15.\<close>

definition bytes32 :: "nat \<Rightarrow> nat list" where
  "bytes32 w = map (\<lambda>k. w div 256 ^ k mod 256) [0..<4]"

definition kv_key :: "nvme_command \<Rightarrow> nat list" where
  "kv_key c = bytes32 (cdw12 c) @ bytes32 (cdw13 c) @ bytes32 (cdw14 c) @ bytes32 (cdw15 c)"

definition key_len :: "nvme_command \<Rightarrow> nat" where "key_len c = cdw11 c mod 2 ^ 8"
definition kv_option :: "nvme_command \<Rightarrow> nat" where "kv_option c = cdw11 c div 2 ^ 8 mod 2 ^ 8"
definition kv_rsvd4 :: "nvme_command \<Rightarrow> nat" where "kv_rsvd4 c = cdw11 c div 2 ^ 24 mod 2 ^ 8"
definition iter_handle_of :: "nvme_command \<Rightarrow> nat" where "iter_handle_of c = cdw11 c mod 2 ^ 8"
definition iter_val :: "nvme_command \<Rightarrow> nat" where "iter_val c = u32 (cdw12 c)"
definition iter_bitmask :: "nvme_command \<Rightarrow> nat" where "iter_bitmask c = u32 (cdw13 c)"

definition cmd_key_length :: "nvme_command \<Rightarrow> nat" where "cmd_key_length c = key_len c + 1"

definition cmd_value_length :: "nvme_command \<Rightarrow> nat" where "cmd_value_length c = u32 (u32 (cdw10 c) * 4)"

definition hash_function :: "nat list \<Rightarrow> nat" where
  "hash_function bs = fold (\<lambda>b h. u32 (h * 16777619) XOR b) bs 2166136261"

section \<open>Allocators\<close>

record append_only =
  ao_latest :: nat
  ao_dev_size :: nat
  ao_total_written :: nat

definition append_only_allocator_init :: "nat \<Rightarrow> append_only" where
  "append_only_allocator_init sz = \<lparr>ao_latest = 0, ao_dev_size = sz, ao_total_written = 0\<rparr>"

definition append_only_allocate :: "nat \<Rightarrow> append_only \<Rightarrow> nat \<times> append_only" where
  "append_only_allocate len a =
     (ao_latest a, a\<lparr>ao_latest := u64 (ao_latest a + len), ao_total_written := u64 (ao_total_written a + len)\<rparr>)"

text \<open>A bitmap is the function from the index of a bit; the arrays have 600000 and 300000 words. \<open>next_zero\<close> is
  \<open>bitmap_find_next_zero_area\<close> for one bit: the first clear bit from a position, or the size and 1.\<close>

definition SMALL_LENGTH :: nat where "SMALL_LENGTH = 1024"
definition LARGE_LENGTH :: nat where "LARGE_LENGTH = 4096"

record bitmap_pool =
  bm_bits :: "nat \<Rightarrow> bool"
  bm_nbits :: nat
  bm_words :: nat
  bm_last_pos :: nat
  bm_capacity :: nat

record bitmap_alloc =
  bm_small :: bitmap_pool
  bm_large :: bitmap_pool
  bm_dev_size :: nat
  bm_total_written :: nat

definition next_zero :: "(nat \<Rightarrow> bool) \<Rightarrow> nat \<Rightarrow> nat \<Rightarrow> nat" where
  "next_zero b n start = (case List.find (\<lambda>i. \<not> b i) [start..<n] of Some i \<Rightarrow> i | None \<Rightarrow> n + 1)"

definition bitmap_pool_init :: "nat \<Rightarrow> nat \<Rightarrow> bitmap_pool" where
  "bitmap_pool_init n words = \<lparr>bm_bits = (\<lambda>_. False), bm_nbits = n, bm_words = words, bm_last_pos = 0, bm_capacity = 0\<rparr>"

definition bitmap_allocator_init :: "nat \<Rightarrow> bitmap_alloc" where
  "bitmap_allocator_init sz = \<lparr>bm_small = bitmap_pool_init (sz div 2 div SMALL_LENGTH) 600000,
     bm_large = bitmap_pool_init (sz div 2 div LARGE_LENGTH) 300000, bm_dev_size = sz, bm_total_written = 0\<rparr>"

definition bitmap_take :: "bitmap_pool \<Rightarrow> (nat \<times> bitmap_pool) option" where
  "bitmap_take p =
     (let off = next_zero (bm_bits p) (bm_nbits p) (bm_last_pos p)
      in do {
        NVMEV_ASSERT (off < 64 * bm_words p);
        Some (off, p\<lparr>bm_bits := (bm_bits p)(off := True), bm_last_pos := (if bm_nbits p < off + 1 then 0 else off + 1),
          bm_capacity := bm_capacity p + 1\<rparr>) })"

definition bitmap_allocate :: "nat \<Rightarrow> bitmap_alloc \<Rightarrow> (nat \<times> bitmap_alloc) option" where
  "bitmap_allocate len b =
     (let b = b\<lparr>bm_total_written := u64 (bm_total_written b + len)\<rparr>
      in if SMALL_LENGTH < len then do {
           (off, p) \<leftarrow> bitmap_take (bm_large b);
           Some (bm_dev_size b div 2 + off * LARGE_LENGTH, b\<lparr>bm_large := p\<rparr>) }
         else do {
           (off, p) \<leftarrow> bitmap_take (bm_small b);
           Some (off * SMALL_LENGTH, b\<lparr>bm_small := p\<rparr>) })"

datatype allocator = Append_Only append_only | Bitmap bitmap_alloc

definition alloc_init :: "bool \<Rightarrow> nat \<Rightarrow> allocator" where
  "alloc_init bitmap sz = (if bitmap then Bitmap (bitmap_allocator_init sz) else Append_Only (append_only_allocator_init sz))"

fun alloc_allocate :: "nat \<Rightarrow> allocator \<Rightarrow> (nat \<times> allocator) option" where
  "alloc_allocate len (Append_Only a) = (let (off, a) = append_only_allocate len a in Some (off, Append_Only a))"
| "alloc_allocate len (Bitmap b) = map_option (\<lambda>(off, b). (off, Bitmap b)) (bitmap_allocate len b)"

section \<open>The hash table\<close>

definition NO_OFFSET :: nat where "NO_OFFSET = 2 ^ 64 - 1"
definition NO_SLOT :: nat where "NO_SLOT = 2 ^ 32 - 1"

record mapping_entry =
  m_key :: "nat list"
  mem_offset :: nat
  m_length :: nat
  next_slot :: nat

text \<open>The buffer of an iterator is written from its start by each read, and only what was written is copied out, so it is not
  part of the state. \<open>kv_init_namespace\<close> leaves the last of the 17 handles uninitialised.\<close>

record kv_iter_context =
  it_prefix :: nat
  it_bitmask :: nat
  it_pos :: nat

datatype iter_handle = Uninitialised | Null | Iter kv_iter_context

record kv_ftl =
  kv_table :: "mapping_entry list"
  hash_slots :: nat
  kv_alloc :: allocator
  kv_iters :: "iter_handle list"
  kv_storage_size :: nat

text \<open>\<open>memset(&mapping, -1, sizeof(struct mapping_entry))\<close>.\<close>

definition ones_entry :: mapping_entry where
  "ones_entry = \<lparr>m_key = replicate 18 255, mem_offset = NO_OFFSET, m_length = NO_OFFSET, next_slot = NO_SLOT\<rparr>"

definition get_hash_slot :: "kv_ftl \<Rightarrow> nat list \<Rightarrow> nat \<Rightarrow> nat option" where
  "get_hash_slot kv key n = do {
     NVMEV_ASSERT (n \<le> length key);
     NVMEV_ASSERT (hash_slots kv \<noteq> 0);
     Some (hash_function (take n key) mod hash_slots kv) }"

text \<open>The two loops of \<open>find_next_slot\<close>: the last slot of the chain (or the last before a slot that is free), and from it the
  next free slot.\<close>

partial_function (option) chain_tail :: "mapping_entry list \<Rightarrow> nat \<Rightarrow> nat \<Rightarrow> nat option" where
  "chain_tail t tail pr = do {
     e \<leftarrow> idx t tail;
     if mem_offset e \<noteq> NO_OFFSET then (if next_slot e = NO_SLOT then Some tail else chain_tail t (next_slot e) tail)
     else Some pr }"

partial_function (option) probe :: "mapping_entry list \<Rightarrow> nat \<Rightarrow> nat \<Rightarrow> nat option" where
  "probe t slots s = do {
     e \<leftarrow> idx t s;
     if mem_offset e \<noteq> NO_OFFSET then probe t slots (if slots \<le> inc32 s then 0 else inc32 s)
     else Some s }"

definition find_next_slot :: "kv_ftl \<Rightarrow> nat \<Rightarrow> (nat \<times> nat) option" where
  "find_next_slot kv original_slot = do {
     pr \<leftarrow> chain_tail (kv_table kv) original_slot NO_SLOT;
     s \<leftarrow> probe (kv_table kv) (hash_slots kv) pr;
     Some (s, pr) }"

definition chain_mapping :: "nat \<Rightarrow> nat \<Rightarrow> kv_ftl \<Rightarrow> kv_ftl" where
  "chain_mapping prev slot kv = kv\<lparr>kv_table := modl (kv_table kv) prev (\<lambda>e. e\<lparr>next_slot := slot\<rparr>)\<rparr>"

definition new_mapping_entry_by_key :: "nat list \<Rightarrow> nat \<Rightarrow> nat \<Rightarrow> nat \<Rightarrow> kv_ftl \<Rightarrow> kv_ftl option" where
  "new_mapping_entry_by_key key n val_len val_offset kv = do {
     NVMEV_ASSERT (val_offset < kv_storage_size kv);
     home \<leftarrow> get_hash_slot kv key n;
     e \<leftarrow> idx (kv_table kv) home;
     (slot, prev) \<leftarrow> (if mem_offset e \<noteq> NO_OFFSET then find_next_slot kv home else Some (home, NO_SLOT));
     NVMEV_ASSERT (slot < length (kv_table kv) \<and> n \<le> length (m_key (kv_table kv ! slot)));
     let kv = kv\<lparr>kv_table := modl (kv_table kv) slot (\<lambda>e. e\<lparr>m_key := take n key @ drop n (m_key e), mem_offset := val_offset, m_length := val_len\<rparr>)\<rparr>
     in Some (if prev \<noteq> NO_SLOT then chain_mapping prev slot kv else kv) }"

definition new_mapping_entry :: "nvme_command \<Rightarrow> nat \<Rightarrow> kv_ftl \<Rightarrow> kv_ftl option" where
  "new_mapping_entry c val_offset kv = new_mapping_entry_by_key (kv_key c) (cmd_key_length c) (cmd_value_length c) val_offset kv"

text \<open>The search that the next functions share: along the chain until the key is found.\<close>

partial_function (option) search :: "mapping_entry list \<Rightarrow> nat list \<Rightarrow> nat \<Rightarrow> nat \<Rightarrow> nat option option" where
  "search t key n s = do {
     e \<leftarrow> idx t s;
     if mem_offset e = NO_OFFSET then Some None
     else do {
       NVMEV_ASSERT (n \<le> length (m_key e));
       if take n key = take n (m_key e) then Some (Some s)
       else if next_slot e = NO_SLOT then Some None
       else search t key n (next_slot e) } }"

definition find_key :: "kv_ftl \<Rightarrow> nat list \<Rightarrow> nat \<Rightarrow> nat option option" where
  "find_key kv key n = do {
     s \<leftarrow> get_hash_slot kv key n;
     search (kv_table kv) key n s }"

definition get_mapping_entry_by_key :: "kv_ftl \<Rightarrow> nat list \<Rightarrow> nat \<Rightarrow> mapping_entry option" where
  "get_mapping_entry_by_key kv key n = do {
     f \<leftarrow> find_key kv key n;
     Some (case f of None \<Rightarrow> ones_entry
       | Some s \<Rightarrow> (let e = kv_table kv ! s in e\<lparr>m_key := take n (m_key e) @ drop n (m_key ones_entry)\<rparr>)) }"

definition get_mapping_entry :: "kv_ftl \<Rightarrow> nvme_command \<Rightarrow> mapping_entry option" where
  "get_mapping_entry kv c = get_mapping_entry_by_key kv (kv_key c) (cmd_key_length c)"

definition update_mapping_entry :: "nvme_command \<Rightarrow> kv_ftl \<Rightarrow> kv_ftl option" where
  "update_mapping_entry c kv = do {
     f \<leftarrow> find_key kv (kv_key c) (cmd_key_length c);
     Some (case f of None \<Rightarrow> kv
       | Some s \<Rightarrow> kv\<lparr>kv_table := modl (kv_table kv) s (\<lambda>e. e\<lparr>m_length := cmd_value_length c\<rparr>)\<rparr>) }"

definition delete_mapping_entry :: "nvme_command \<Rightarrow> kv_ftl \<Rightarrow> kv_ftl option" where
  "delete_mapping_entry c kv = do {
     f \<leftarrow> find_key kv (kv_key c) (cmd_key_length c);
     Some (case f of None \<Rightarrow> kv | Some s \<Rightarrow> kv\<lparr>kv_table := modl (kv_table kv) s (\<lambda>e. ones_entry)\<rparr>) }"

end
