(* ===== verification/Kv_Io.thy ===== *)
theory Kv_Io
  imports Kv_Ftl
begin

text \<open>
  The commands of the key-value namespace (\<open>kv_ftl.c\<close>): the time they take, and what they do to the table, the storage and the
  memory of the host (\<open>kv_perform_nvme_io_cmd\<close>, called by a worker when the time has come).

  \<open>disk\<close> of the memory is \<open>nvmev_vdev->storage_mapped\<close>; copying behind its \<open>storage_size\<close> bytes has no behaviour. The status is an output
  parameter that some paths leave as it was.
\<close>

section \<open>Time\<close>

record kv_ns =
  kns :: simple_ns
  kftl :: kv_ftl

text \<open>The operation codes that \<open>__schedule_io_units\<close> takes as writes, as reads, and as neither.\<close>

definition kv_sched_op :: "nat \<Rightarrow> nat" where
  "kv_sched_op opc =
     (if opc = nvme_cmd_write \<or> opc = nvme_cmd_kv_store \<or> opc = nvme_cmd_kv_batch then nvme_cmd_write
      else if opc = nvme_cmd_read \<or> opc = nvme_cmd_kv_retrieve then nvme_cmd_read
      else nvme_cmd_flush)"

definition kv_schedule_io_units :: "nat \<Rightarrow> nat \<Rightarrow> nat \<Rightarrow> nat \<Rightarrow> simple_ns \<Rightarrow> (nat \<times> simple_ns) option" where
  "kv_schedule_io_units opc lba len nsecs_start = schedule_io_units (kv_sched_op opc) lba len nsecs_start"

definition kv_proc_nvme_io_cmd :: "kv_ns proc_io_cmd" where
  "kv_proc_nvme_io_cmd ns req ret =
     (let cmd = rq_cmd req; s = kns ns; now = s_clk s (s_tick s)
      in if opcode cmd = nvme_cmd_write \<or> opcode cmd = nvme_cmd_read then do {
           (t, s) \<leftarrow> kv_schedule_io_units (opcode cmd) (rw_slba cmd) (cmd_io_size (s_lba_bits s) cmd) now (s\<lparr>s_tick := s_tick s + 1\<rparr>);
           Some (True, ret\<lparr>rs_nsecs_target := t\<rparr>, [], ns\<lparr>kns := s\<rparr>) }
         else if opcode cmd = nvme_cmd_flush then do {
           t \<leftarrow> schedule_flush s;
           Some (True, ret\<lparr>rs_nsecs_target := t\<rparr>, [], ns) }
         else if opcode cmd \<in> {nvme_cmd_kv_store, nvme_cmd_kv_retrieve, nvme_cmd_kv_batch} then do {
           (t, s) \<leftarrow> kv_schedule_io_units (opcode cmd) 0 (cmd_value_length cmd) now (s\<lparr>s_tick := s_tick s + 1\<rparr>);
           Some (True, ret\<lparr>rs_nsecs_target := t\<rparr>, [], ns\<lparr>kns := s\<lparr>s_tick := s_tick s + 1\<rparr>\<rparr>) }
         else Some (True, ret, [], ns))"

definition kv_identify_nvme_io_cmd :: "nvme_command \<Rightarrow> bool" where
  "kv_identify_nvme_io_cmd cmd = is_kv_cmd (opcode cmd)"

section \<open>Single values\<close>

definition allocate_mem_offset_by_length :: "nat \<Rightarrow> kv_ftl \<Rightarrow> (nat \<times> kv_ftl) option" where
  "allocate_mem_offset_by_length len kv = do {
     (off, a) \<leftarrow> alloc_allocate len (kv_alloc kv);
     Some (if off = NO_OFFSET then 0 else off, kv\<lparr>kv_alloc := a\<rparr>) }"

definition allocate_mem_offset :: "nvme_command \<Rightarrow> kv_ftl \<Rightarrow> (nat \<times> kv_ftl) option" where
  "allocate_mem_offset cmd kv =
     (if opcode cmd = nvme_cmd_kv_store then allocate_mem_offset_by_length (cmd_value_length cmd) kv else Some (0, kv))"

text \<open>The loop over the PRP entries of the value.\<close>

definition kv_copy :: "nat \<Rightarrow> nvme_command \<Rightarrow> nat \<Rightarrow> nat \<Rightarrow> nat \<Rightarrow> sys_mem \<Rightarrow> sys_mem option" where
  "kv_copy sz cmd a off n m =
     (if opcode cmd = nvme_cmd_kv_store then do {
        NVMEV_ASSERT (off + n \<le> sz);
        Some (m\<lparr>disk := memcpy (disk m) off (host m) a n\<rparr>) }
      else if opcode cmd = nvme_cmd_kv_retrieve then do {
        NVMEV_ASSERT (off + n \<le> sz);
        Some (m\<lparr>host := memcpy (host m) a (disk m) off n\<rparr>) }
      else Some m)"

function kv_copy_loop :: "nat \<Rightarrow> nvme_command \<Rightarrow> nat \<Rightarrow> nat option \<times> nat \<Rightarrow> nat \<Rightarrow> nat \<Rightarrow> sys_mem \<Rightarrow> sys_mem option" where
  "kv_copy_loop sz cmd n st rem off m =
     (if rem = 0 then Some m
      else do {
        (paddr, st) \<leftarrow> next_prp (\<lambda>_. True) (host m) cmd (n + 1) rem st;
        m \<leftarrow> kv_copy sz cmd paddr off (seg_len rem paddr) m;
        kv_copy_loop sz cmd (n + 1) st (rem - seg_len rem paddr) (off + seg_len rem paddr) m })"
  by pat_completeness auto
termination
  by (relation "measure (\<lambda>(sz, cmd, n, st, rem, off, m). rem)") (simp_all add: seg_len_pos)

declare kv_copy_loop.simps [simp del]

text \<open>\<open>__do_perform_kv_io\<close>: the result is the return value, the status, the table and the memory. The store first: it writes the value at
  the offset of the key, or at a new one, and then changes the table.\<close>

definition kv_store_io :: "nvme_command \<Rightarrow> mapping_entry \<Rightarrow> kv_ftl \<Rightarrow> sys_mem \<Rightarrow> (kv_ftl \<times> sys_mem) option" where
  "kv_store_io cmd entry kv m =
     (let len = cmd_value_length cmd
      in if mem_offset entry = NO_OFFSET then do {
           (off, kv) \<leftarrow> allocate_mem_offset cmd kv;
           m \<leftarrow> kv_copy_loop (kv_storage_size kv) cmd 0 (None, 0) len off m;
           kv \<leftarrow> new_mapping_entry cmd off kv;
           Some (kv, m) }
         else do {
           m \<leftarrow> kv_copy_loop (kv_storage_size kv) cmd 0 (None, 0) len (mem_offset entry) m;
           kv \<leftarrow> (if len \<noteq> m_length entry \<and> len \<le> SMALL_LENGTH \<and> m_length entry \<le> SMALL_LENGTH then update_mapping_entry cmd kv else Some kv);
           Some (kv, m) })"

definition do_perform_kv_io :: "nvme_command \<Rightarrow> nat \<Rightarrow> kv_ftl \<Rightarrow> sys_mem \<Rightarrow> (nat \<times> nat \<times> kv_ftl \<times> sys_mem) option" where
  "do_perform_kv_io cmd status kv m = do {
     entry \<leftarrow> get_mapping_entry kv cmd;
     if opcode cmd = nvme_cmd_kv_store then do {
       (kv, m) \<leftarrow> kv_store_io cmd entry kv m;
       Some (0, status, kv, m) }
     else if opcode cmd \<in> {nvme_cmd_kv_retrieve, nvme_cmd_kv_exist, nvme_cmd_kv_delete} \<and> mem_offset entry = NO_OFFSET then
       Some (0, KV_ERR_KEY_NOT_EXIST, kv, m)
     else if opcode cmd = nvme_cmd_kv_retrieve then
       (let len = min (m_length entry) (cmd_value_length cmd)
        in do {
          m \<leftarrow> kv_copy_loop (kv_storage_size kv) cmd 0 (None, 0) len (mem_offset entry) m;
          Some (u32 len, status, kv, m) })
     else if opcode cmd = nvme_cmd_kv_delete then do {
       kv \<leftarrow> delete_mapping_entry cmd kv;
       Some (0, status, kv, m) }
     else Some (0, status, kv, m) }"

section \<open>Batches\<close>

text \<open>The loop that copies the batch from the host into a buffer.\<close>

function prp_in_loop :: "nvme_command \<Rightarrow> nat \<Rightarrow> nat option \<times> nat \<Rightarrow> nat \<Rightarrow> sys_mem \<Rightarrow> nat list option" where
  "prp_in_loop cmd n st rem m =
     (if rem = 0 then Some []
      else do {
        (paddr, st) \<leftarrow> next_prp (\<lambda>_. True) (host m) cmd (n + 1) rem st;
        bs \<leftarrow> prp_in_loop cmd (n + 1) st (rem - seg_len rem paddr) m;
        Some (map (\<lambda>k. host m (paddr + k)) [0..<seg_len rem paddr] @ bs) })"
  by pat_completeness auto
termination
  by (relation "measure (\<lambda>(cmd, n, st, rem, m). rem)") (simp_all add: seg_len_pos)

declare prp_in_loop.simps [simp del]

definition write_bytes_at :: "nat \<Rightarrow> nat list \<Rightarrow> (nat \<Rightarrow> nat) \<Rightarrow> nat \<Rightarrow> nat" where
  "write_bytes_at off bs d = (\<lambda>x. if off \<le> x \<and> x < off + length bs then bs ! (x - off) else d x)"

text \<open>An update does not change the length: the call is commented out in the code.\<close>

definition do_perform_kv_batched_io :: "nat \<Rightarrow> nat list \<Rightarrow> nat \<Rightarrow> nat list \<Rightarrow> kv_ftl \<Rightarrow> sys_mem \<Rightarrow> (kv_ftl \<times> sys_mem) option" where
  "do_perform_kv_batched_io opc key n val kv m = do {
     entry \<leftarrow> get_mapping_entry_by_key kv key n;
     if opc = nvme_cmd_kv_store then do {
       (off, kv) \<leftarrow> (if mem_offset entry = NO_OFFSET then allocate_mem_offset_by_length (length val) kv else Some (mem_offset entry, kv));
       NVMEV_ASSERT (off + length val \<le> kv_storage_size kv);
       let m = m\<lparr>disk := write_bytes_at off val (disk m)\<rparr>
       in do {
         kv \<leftarrow> (if mem_offset entry = NO_OFFSET then new_mapping_entry_by_key key n (length val) off kv else Some kv);
         Some (kv, m) } }
     else Some (kv, m) }"

definition ALIGN_LEN :: nat where "ALIGN_LEN = 64"
definition MAX_SUB_CMD :: nat where "MAX_SUB_CMD = 8"

definition align_len :: "nat \<Rightarrow> nat" where "align_len n = ((n - 1) div ALIGN_LEN + 1) * ALIGN_LEN"

definition slice :: "nat list \<Rightarrow> nat \<Rightarrow> nat \<Rightarrow> nat list option" where
  "slice bs off n = do { NVMEV_ASSERT (off + n \<le> length bs); Some (take n (drop off bs)) }"

text \<open>\<open>struct sub_cmd_attribute\<close> has 16 bytes, \<open>struct batch_cmd_head\<close> 512. The key is copied to an array of 20 bytes and the value to one of
  4097.\<close>

definition batch_step :: "nat list \<Rightarrow> nat \<Rightarrow> nat \<times> kv_ftl \<times> sys_mem \<Rightarrow> (nat \<times> kv_ftl \<times> sys_mem) option" where
  "batch_step buf i s = (let (payload_offset, kv, m) = s in do {
     NVMEV_ASSERT (i < MAX_SUB_CMD);
     a \<leftarrow> slice buf (16 * i) 16;
     let opc = a ! 0; n = a ! 1; vlen = a ! 4 + 256 * (a ! 5 + 256 * (a ! 6 + 256 * a ! 7))
     in do {
       NVMEV_ASSERT (n \<le> 20 \<and> vlen \<le> 4097);
       key \<leftarrow> slice buf (512 + payload_offset) n;
       val \<leftarrow> slice buf (512 + payload_offset + align_len n) vlen;
       (kv, m) \<leftarrow> do_perform_kv_batched_io opc (key @ replicate (20 - n) 0) n val kv m;
       Some (payload_offset + align_len n + align_len vlen + ALIGN_LEN, kv, m) } })"

definition do_perform_kv_batch :: "nvme_command \<Rightarrow> kv_ftl \<Rightarrow> sys_mem \<Rightarrow> (nat \<times> kv_ftl \<times> sys_mem) option" where
  "do_perform_kv_batch cmd kv m = do {
     buf \<leftarrow> prp_in_loop cmd 0 (None, 0) (cmd_value_length cmd) m;
     (p, kv, m) \<leftarrow> foldM (batch_step buf) [0..<kv_rsvd4 cmd] (ALIGN_LEN, kv, m);
     Some (0, kv, m) }"

section \<open>Iterators\<close>

definition handle_at :: "kv_ftl \<Rightarrow> nat \<Rightarrow> kv_iter_context option option" where
  "handle_at kv i = do {
     h \<leftarrow> idx (kv_iters kv) i;
     (case h of Uninitialised \<Rightarrow> None | Null \<Rightarrow> Some None | Iter c \<Rightarrow> Some (Some c)) }"

text \<open>The first free handle from \<open>i\<close> to 16.\<close>

function free_handle :: "kv_ftl \<Rightarrow> nat \<Rightarrow> nat option option" where
  "free_handle kv i =
     (if 16 < i then Some None
      else do { h \<leftarrow> handle_at kv i; if h = None then Some (Some i) else free_handle kv (i + 1) })"
  by pat_completeness auto
termination
  by (relation "measure (\<lambda>(kv, i). 17 - i)") auto

declare free_handle.simps [simp del]

definition kv_iter_open :: "nvme_command \<Rightarrow> nat \<Rightarrow> kv_ftl \<Rightarrow> (nat \<times> nat \<times> kv_ftl) option" where
  "kv_iter_open cmd status kv = do {
     f \<leftarrow> free_handle kv 1;
     Some (case f of None \<Rightarrow> (1, status, kv)
       | Some i \<Rightarrow> (i, 0, kv\<lparr>kv_iters := (kv_iters kv)[i := Iter \<lparr>it_prefix = iter_val cmd, it_bitmask = iter_bitmask cmd, it_pos = 0\<rparr>]\<rparr>)) }"

definition kv_iter_close :: "nvme_command \<Rightarrow> kv_ftl \<Rightarrow> (nat \<times> nat \<times> kv_ftl) option" where
  "kv_iter_close cmd kv = do {
     h \<leftarrow> handle_at kv (iter_handle_of cmd);
     Some (0, 0, if h = None then kv else kv\<lparr>kv_iters := (kv_iters kv)[iter_handle_of cmd := Null]\<rparr>) }"

text \<open>The scan of the table from \<open>pos\<close>: the keys found so far are \<open>ks\<close>, of 16 bytes each, and 20 bytes of the buffer for each after the first 4. The
  result is the position, the keys and whether the end was reached.\<close>

definition key_word :: "nat list \<Rightarrow> nat" where
  "key_word k = k ! 0 + 256 * (k ! 1 + 256 * (k ! 2 + 256 * k ! 3))"

definition iter_match :: "kv_iter_context \<Rightarrow> mapping_entry \<Rightarrow> bool" where
  "iter_match c e \<longleftrightarrow> mem_offset e \<noteq> NO_OFFSET \<and> key_word (m_key e) AND it_bitmask c = it_prefix c AND it_bitmask c"

definition iter_room :: "nat list list \<Rightarrow> bool" where
  "iter_room ks \<longleftrightarrow> 4 + 20 * length ks + 4 + 16 \<le> 1024"

function iter_scan :: "kv_ftl \<Rightarrow> kv_iter_context \<Rightarrow> nat \<Rightarrow> nat list list \<Rightarrow> (nat \<times> nat list list \<times> bool) option" where
  "iter_scan kv c pos ks =
     (if hash_slots kv \<le> pos then Some (pos, ks, False)
      else do {
        e \<leftarrow> idx (kv_table kv) pos;
        if iter_match c e \<and> \<not> iter_room ks then Some (pos, ks, False)
        else let ks = (if iter_match c e then ks @ [take 16 (m_key e)] else ks)
             in if pos + 1 = hash_slots kv then Some (pos + 1, ks, True) else iter_scan kv c (pos + 1) ks })"
  by pat_completeness auto
termination
  by (relation "measure (\<lambda>(kv, c, pos, ks). hash_slots kv - pos)") auto

declare iter_scan.simps [simp del]

definition iter_bytes :: "nat list list \<Rightarrow> nat list" where
  "iter_bytes ks = bytes32 (length ks) @ concat (map (\<lambda>k. bytes32 16 @ k) ks)"

definition kv_iter_read :: "nvme_command \<Rightarrow> nat \<Rightarrow> kv_ftl \<Rightarrow> sys_mem \<Rightarrow> (nat \<times> nat \<times> kv_ftl \<times> sys_mem) option" where
  "kv_iter_read cmd status kv m = do {
     h \<leftarrow> handle_at kv (iter_handle_of cmd);
     case h of None \<Rightarrow> Some (0, status, kv, m)
     | Some c \<Rightarrow> do {
         (pos, ks, end_reached) \<leftarrow> iter_scan kv c (it_pos c) [];
         let buf = iter_bytes ks; kv = kv\<lparr>kv_iters := (kv_iters kv)[iter_handle_of cmd := Iter (c\<lparr>it_pos := pos\<rparr>)]\<rparr>
         in do {
           m \<leftarrow> prp_transfer_out buf cmd (length buf) m;
           Some (length buf, if end_reached then 0x393 else 0, kv, m) } } }"

definition do_perform_kv_iter_io :: "nvme_command \<Rightarrow> nat \<Rightarrow> kv_ftl \<Rightarrow> sys_mem \<Rightarrow> (nat \<times> nat \<times> kv_ftl \<times> sys_mem) option" where
  "do_perform_kv_iter_io cmd status kv m =
     (if opcode cmd = nvme_cmd_kv_iter_req then
        (if odd (kv_option cmd) then do { (r, s, kv) \<leftarrow> kv_iter_open cmd status kv; Some (r, s, kv, m) }
         else if odd (kv_option cmd div 2) then do { (r, s, kv) \<leftarrow> kv_iter_close cmd kv; Some (r, s, kv, m) }
         else Some (0, status, kv, m))
      else if opcode cmd = nvme_cmd_kv_iter_read then kv_iter_read cmd status kv m
      else Some (0, status, kv, m))"

definition kv_perform_nvme_io_cmd :: "nvme_command \<Rightarrow> nat \<Rightarrow> kv_ftl \<Rightarrow> sys_mem \<Rightarrow> (nat \<times> nat \<times> kv_ftl \<times> sys_mem) option" where
  "kv_perform_nvme_io_cmd cmd status kv m =
     (if opcode cmd = nvme_cmd_kv_batch then do { (r, kv, m) \<leftarrow> do_perform_kv_batch cmd kv m; Some (r, status, kv, m) }
      else if opcode cmd = nvme_cmd_kv_iter_req \<or> opcode cmd = nvme_cmd_kv_iter_read then do_perform_kv_iter_io cmd status kv m
      else do_perform_kv_io cmd status kv m)"

section \<open>Initialisation\<close>

text \<open>The table has \<open>KV_MAPPING_TABLE_SIZE\<close> bytes (\<open>table_size\<close>), zeroed and then set to free; an entry has 48 bytes.\<close>

definition KV_MAPPING_ENTRY_SIZE :: nat where "KV_MAPPING_ENTRY_SIZE = 48"

definition free_entry :: mapping_entry where
  "free_entry = \<lparr>m_key = replicate 18 0, mem_offset = NO_OFFSET, m_length = NO_OFFSET, next_slot = NO_SLOT\<rparr>"

definition kv_init_ftl :: "bool \<Rightarrow> nat \<Rightarrow> nat \<Rightarrow> kv_ftl" where
  "kv_init_ftl bitmap table_size storage_size =
     (let n = table_size div KV_MAPPING_ENTRY_SIZE
      in \<lparr>kv_table = replicate n free_entry, hash_slots = n, kv_alloc = alloc_init bitmap storage_size,
          kv_iters = replicate 16 Null @ [Uninitialised], kv_storage_size = storage_size\<rparr>)"

definition kv_init_namespace :: "bool \<Rightarrow> nat \<Rightarrow> nat \<Rightarrow> nat \<Rightarrow> nat \<Rightarrow> simple_ns \<Rightarrow> kv_ns" where
  "kv_init_namespace bitmap table_size storage_size nid sz s =
     \<lparr>kns = s\<lparr>s_id := nid, s_csi := NVME_CSI_NVM, s_size := sz\<rparr>, kftl = kv_init_ftl bitmap table_size storage_size\<rparr>"

end
