(* ===== verification/Kv_Laws.thy ===== *)
theory Kv_Laws
  imports Kv_Io Prp_Laws
begin

text \<open>
  The hash table as a map. The occupied slots are linked into paths, which end at a slot without successor or with one that is free; the
  invariant says that every path ends, that every key is on the path of its home slot and is there once. Then the search is the lookup in the
  map, an insertion adds one key whatever collisions it meets, and a deletion at the end of a path removes one.
\<close>

section \<open>Paths\<close>

definition occupied :: "mapping_entry list \<Rightarrow> nat \<Rightarrow> bool" where
  "occupied t s \<longleftrightarrow> s < length t \<and> mem_offset (t ! s) \<noteq> NO_OFFSET"

definition kpath_end :: "mapping_entry list \<Rightarrow> nat \<Rightarrow> bool" where
  "kpath_end t s \<longleftrightarrow> s = NO_SLOT \<or> s < length t \<and> mem_offset (t ! s) = NO_OFFSET"

fun kpath :: "mapping_entry list \<Rightarrow> nat \<Rightarrow> nat list \<Rightarrow> bool" where
  "kpath t s [] \<longleftrightarrow> kpath_end t s"
| "kpath t s (p # ps) \<longleftrightarrow> p = s \<and> occupied t s \<and> kpath t (next_slot (t ! s)) ps"

lemma occupied_less: "occupied t s \<Longrightarrow> s < length t"
  by (simp add: occupied_def)

lemma kpath_occupied: "kpath t s ps \<Longrightarrow> p \<in> set ps \<Longrightarrow> occupied t p"
  by (induction ps arbitrary: s) auto

lemma occupied_not_end: "occupied t s \<Longrightarrow> length t \<le> NO_SLOT \<Longrightarrow> \<not> kpath_end t s"
  by (auto simp: occupied_def kpath_end_def)

lemma kpath_unique: "kpath t s ps \<Longrightarrow> kpath t s qs \<Longrightarrow> length t \<le> NO_SLOT \<Longrightarrow> ps = qs"
proof (induction ps arbitrary: s qs)
  case Nil
  then show ?case by (cases qs) (auto dest: occupied_not_end)
next
  case (Cons p ps)
  then show ?case by (cases qs) (auto dest: occupied_not_end)
qed

lemma kpath_last: "kpath t s ps \<Longrightarrow> ps \<noteq> [] \<Longrightarrow> kpath_end t (next_slot (t ! last ps))"
  by (induction ps arbitrary: s) auto

text \<open>Only the last slot of a path is followed by the end.\<close>

lemma kpath_end_last: "kpath t s ps \<Longrightarrow> p \<in> set ps \<Longrightarrow> kpath_end t (next_slot (t ! p)) \<Longrightarrow> length t \<le> NO_SLOT \<Longrightarrow> p = last ps"
proof (induction ps arbitrary: s)
  case (Cons q ps)
  show ?case
  proof (cases "p = q")
    case True
    then have "kpath_end t (next_slot (t ! s))" "kpath t (next_slot (t ! s)) ps" using Cons.prems by auto
    then have "ps = []" using Cons.prems(4) by (cases ps) (auto dest: occupied_not_end)
    then show ?thesis using True by simp
  next
    case False
    then have "p \<in> set ps" using Cons.prems(2) by simp
    then show ?thesis using Cons by auto
  qed
qed simp

text \<open>What the two walks of the code find on a path.\<close>

lemma search_path:
  assumes "kpath t s ps" "length t \<le> NO_SLOT" "\<And>p. p \<in> set ps \<Longrightarrow> n \<le> length (m_key (t ! p))" "s \<noteq> NO_SLOT"
  shows "search t key n s = Some (List.find (\<lambda>p. take n key = take n (m_key (t ! p))) ps)"
  using assms
proof (induction ps arbitrary: s)
  case Nil
  then show ?case by (subst search.simps) (simp add: kpath_end_def arr_simps)
next
  case (Cons p ps)
  then have s: "p = s" "s < length t" "mem_offset (t ! s) \<noteq> NO_OFFSET" "kpath t (next_slot (t ! s)) ps" "n \<le> length (m_key (t ! s))"
    by (auto simp: occupied_def)
  have e: "ps = []" if "next_slot (t ! s) = NO_SLOT"
    using s(4) that Cons.prems(2) by (cases ps) (auto simp: occupied_def)
  have IH: "search t key n (next_slot (t ! s)) = Some (List.find (\<lambda>p. take n key = take n (m_key (t ! p))) ps)" if "next_slot (t ! s) \<noteq> NO_SLOT"
    using Cons.IH [OF s(4) Cons.prems(2) _ that] Cons.prems(3) by simp
  show ?case
    by (subst search.simps) (use s e IH in \<open>auto simp: arr_simps\<close>)
qed

lemma chain_tail_path:
  assumes "kpath t s ps" "length t \<le> NO_SLOT" "s \<noteq> NO_SLOT"
  shows "chain_tail t s pr = Some (if ps = [] then pr else last ps)"
  using assms
proof (induction ps arbitrary: s pr)
  case Nil
  then show ?case by (subst chain_tail.simps) (simp add: kpath_end_def arr_simps)
next
  case (Cons p ps)
  then have s: "p = s" "s < length t" "mem_offset (t ! s) \<noteq> NO_OFFSET" "kpath t (next_slot (t ! s)) ps" by (auto simp: occupied_def)
  have e: "ps = []" if "next_slot (t ! s) = NO_SLOT"
    using s(4) that Cons.prems(2) by (cases ps) (auto simp: occupied_def)
  show ?case
    by (subst chain_tail.simps) (use s e Cons.IH [OF s(4) Cons.prems(2), of s] in \<open>auto simp: arr_simps\<close>)
qed

text \<open>The probing ends at a free slot when there is one.\<close>

lemma probe_ok:
  assumes "length t \<le> NO_SLOT" "s < length t" "f < length t" "mem_offset (t ! f) = NO_OFFSET"
  shows "\<exists>x. probe t (length t) s = Some x \<and> x < length t \<and> mem_offset (t ! x) = NO_OFFSET"
  using assms(2)
proof (induction "if s \<le> f then f - s else f + length t - s" arbitrary: s rule: less_induct)
  case less
  show ?case
  proof (cases "mem_offset (t ! s) = NO_OFFSET")
    case True
    then show ?thesis using less.prems by (subst probe.simps) (simp add: arr_simps)
  next
    case False
    have i: "inc32 s = s + 1" using less.prems assms(1) by (simp add: inc32_def NO_SLOT_def)
    let ?n = "if length t \<le> s + 1 then 0 else s + 1"
    have "probe t (length t) s = probe t (length t) ?n"
      using less.prems False i by (subst probe.simps) (simp add: arr_simps)
    moreover have "s \<noteq> f" using False assms(4) by auto
    then have "(if ?n \<le> f then f - ?n else f + length t - ?n) < (if s \<le> f then f - s else f + length t - s)" "?n < length t"
      using less.prems assms(3) by (auto split: if_splits)
    ultimately show ?thesis using less.hyps [of ?n] by simp
  qed
qed

section \<open>Changes of the table\<close>

text \<open>The slot \<open>x\<close> becomes occupied and, if \<open>pr\<close> is a slot at the end of a path, its successor.\<close>

definition linked :: "mapping_entry list \<Rightarrow> nat \<Rightarrow> nat \<Rightarrow> mapping_entry \<Rightarrow> mapping_entry list" where
  "linked t pr x e = (if pr = NO_SLOT then t[x := e] else modl (t[x := e]) pr (\<lambda>e. e\<lparr>next_slot := x\<rparr>))"

definition can_link :: "mapping_entry list \<Rightarrow> nat \<Rightarrow> nat \<Rightarrow> mapping_entry \<Rightarrow> bool" where
  "can_link t pr x e \<longleftrightarrow> length t \<le> NO_SLOT \<and> x < length t \<and> mem_offset (t ! x) = NO_OFFSET \<and> mem_offset e \<noteq> NO_OFFSET \<and> next_slot e = NO_SLOT \<and>
     (pr \<noteq> NO_SLOT \<longrightarrow> occupied t pr \<and> kpath_end t (next_slot (t ! pr)))"

lemma linked_nth:
  assumes "can_link t pr x e" "s < length t"
  shows "linked t pr x e ! s = (if s = x then e else if s = pr then (t ! s)\<lparr>next_slot := x\<rparr> else t ! s)"
  using assms by (auto simp: linked_def can_link_def occupied_def arr_simps nth_list_update)

lemma length_linked [simp]: "length (linked t pr x e) = length t"
  by (simp add: linked_def)

lemma linked_occupied: "can_link t pr x e \<Longrightarrow> occupied (linked t pr x e) s \<longleftrightarrow> occupied t s \<or> s = x"
  by (cases "s < length t") (auto simp: occupied_def linked_nth, auto simp: can_link_def)

lemma linked_end: "can_link t pr x e \<Longrightarrow> kpath_end (linked t pr x e) s \<longleftrightarrow> kpath_end t s \<and> s \<noteq> x"
  by (cases "s < length t") (auto simp: kpath_end_def linked_nth, auto simp: can_link_def NO_SLOT_def)

lemma linked_new_path: "can_link t pr x e \<Longrightarrow> kpath (linked t pr x e) x [x]"
  using linked_nth [of t pr x e x] by (simp add: linked_occupied linked_end can_link_def) (auto simp: kpath_end_def can_link_def)

lemma linked_path:
  assumes c: "can_link t pr x e" and p: "kpath t s ps"
  shows "\<exists>ps'. kpath (linked t pr x e) s ps' \<and> set ps \<subseteq> set ps' \<and> set ps' \<subseteq> insert x (set ps) \<and> (pr \<in> set ps \<or> s = x \<longrightarrow> x \<in> set ps')"
  using p
proof (induction ps arbitrary: s)
  case Nil
  show ?case
  proof (cases "s = x")
    case True
    then show ?thesis using linked_new_path [OF c] by (intro exI [of _ "[x]"]) simp
  next
    case False
    then show ?thesis using Nil linked_end [OF c] by (intro exI [of _ "[]"]) simp
  qed
next
  case (Cons q ps)
  have q: "q = s" "occupied t s" "kpath t (next_slot (t ! s)) ps" using Cons.prems by auto
  have sx: "s \<noteq> x" using q(2) c by (auto simp: occupied_def can_link_def)
  have sl: "s < length t" using q(2) by (simp add: occupied_def)
  have o: "occupied (linked t pr x e) s" using linked_occupied [OF c] q(2) by simp
  show ?case
  proof (cases "s = pr")
    case True
    have "pr \<noteq> NO_SLOT" using sl c True by (auto simp: can_link_def)
    then have "kpath_end t (next_slot (t ! s))" using c True by (auto simp: can_link_def)
    then have "ps = []" using q(3) c by (cases ps) (auto simp: can_link_def dest: occupied_not_end)
    moreover have "next_slot (linked t pr x e ! s) = x" using linked_nth [OF c sl] sx True by simp
    ultimately show ?thesis using o linked_new_path [OF c] q(1) by (intro exI [of _ "[s, x]"]) auto
  next
    case False
    obtain ps' where ps': "kpath (linked t pr x e) (next_slot (t ! s)) ps'" "set ps \<subseteq> set ps'" "set ps' \<subseteq> insert x (set ps)"
        "pr \<in> set ps \<or> next_slot (t ! s) = x \<longrightarrow> x \<in> set ps'" using Cons.IH [OF q(3)] by blast
    have "next_slot (linked t pr x e ! s) = next_slot (t ! s)" using linked_nth [OF c sl] sx False by simp
    then show ?thesis using o ps' q(1) False sx by (intro exI [of _ "s # ps'"]) auto
  qed
qed

text \<open>The slot \<open>x\<close>, at the end of a path, becomes free.\<close>

lemma freed_path:
  assumes p: "kpath t s ps" and x: "occupied t x" "kpath_end t (next_slot (t ! x))" and l: "length t \<le> NO_SLOT" and e: "mem_offset e = NO_OFFSET"
  shows "\<exists>ps'. kpath (t[x := e]) s ps' \<and> set ps' = set ps - {x}"
  using p
proof (induction ps arbitrary: s)
  case Nil
  have "kpath_end (t[x := e]) s" using Nil x(1) e by (auto simp: kpath_end_def occupied_def nth_list_update)
  then show ?case by (intro exI [of _ "[]"]) simp
next
  case (Cons q ps)
  have q: "q = s" "occupied t s" "kpath t (next_slot (t ! s)) ps" using Cons.prems by auto
  show ?case
  proof (cases "s = x")
    case True
    then have "ps = []" using q(3) x(2) l by (cases ps) (auto dest: occupied_not_end)
    moreover have "kpath_end (t[x := e]) s" using True q(2) e by (simp add: kpath_end_def occupied_def)
    ultimately show ?thesis using q(1) True by (intro exI [of _ "[]"]) simp
  next
    case False
    obtain ps' where "kpath (t[x := e]) (next_slot (t ! s)) ps'" "set ps' = set ps - {x}" using Cons.IH [OF q(3)] by blast
    then show ?thesis using False q(1,2) by (intro exI [of _ "s # ps'"]) (auto simp: occupied_def)
  qed
qed

end
