(* ===== verification/Kv_Map.thy ===== *)
theory Kv_Map
  imports Kv_Laws
begin

text \<open>
  The table as a map from keys of \<open>n\<close> bytes to regions of the storage, and the storage as a map from keys to values: what each operation
  of the table does to these maps. The offsets are those of the append-only allocator, the one that is configured.
\<close>

section \<open>Invariant\<close>

definition home :: "kv_ftl \<Rightarrow> nat list \<Rightarrow> nat" where
  "home kv k = hash_function k mod hash_slots kv"

definition kv_ok :: "nat \<Rightarrow> kv_ftl \<Rightarrow> bool" where
  "kv_ok n kv \<longleftrightarrow> (let t = kv_table kv in
     n \<le> 18 \<and> length t = hash_slots kv \<and> 0 < hash_slots kv \<and> hash_slots kv \<le> NO_SLOT \<and> kv_storage_size kv \<le> NO_OFFSET \<and>
     (\<forall>s < hash_slots kv. length (m_key (t ! s)) = 18) \<and>
     (\<forall>s < hash_slots kv. mem_offset (t ! s) = NO_OFFSET \<longrightarrow> next_slot (t ! s) = NO_SLOT) \<and>
     (\<forall>s < hash_slots kv. \<exists>ps. kpath t s ps) \<and>
     (\<forall>s. occupied t s \<longrightarrow> (\<exists>ps. kpath t (home kv (take n (m_key (t ! s)))) ps \<and> s \<in> set ps)) \<and>
     (\<forall>s s'. occupied t s \<longrightarrow> occupied t s' \<longrightarrow> take n (m_key (t ! s)) = take n (m_key (t ! s')) \<longrightarrow> s = s'))"

lemma kv_okD:
  assumes "kv_ok n kv"
  shows "n \<le> 18" "length (kv_table kv) = hash_slots kv" "0 < hash_slots kv" "hash_slots kv \<le> NO_SLOT" "kv_storage_size kv \<le> NO_OFFSET"
    "\<And>s. s < hash_slots kv \<Longrightarrow> length (m_key (kv_table kv ! s)) = 18"
    "\<And>s. s < hash_slots kv \<Longrightarrow> mem_offset (kv_table kv ! s) = NO_OFFSET \<Longrightarrow> next_slot (kv_table kv ! s) = NO_SLOT"
    "\<And>s. s < hash_slots kv \<Longrightarrow> \<exists>ps. kpath (kv_table kv) s ps"
    "\<And>s. occupied (kv_table kv) s \<Longrightarrow> \<exists>ps. kpath (kv_table kv) (home kv (take n (m_key (kv_table kv ! s)))) ps \<and> s \<in> set ps"
    "\<And>s s'. occupied (kv_table kv) s \<Longrightarrow> occupied (kv_table kv) s' \<Longrightarrow>
       take n (m_key (kv_table kv ! s)) = take n (m_key (kv_table kv ! s')) \<Longrightarrow> s = s'"
  using assms unfolding kv_ok_def Let_def by (elim conjE; simp; fail | elim conjE; blast; fail)+

lemma home_less: "kv_ok n kv \<Longrightarrow> home kv k < hash_slots kv"
  using kv_okD(3) [of n kv] by (simp add: home_def)

lemma hash_slot_ok: "kv_ok n kv \<Longrightarrow> n \<le> length key \<Longrightarrow> get_hash_slot kv key n = Some (home kv (take n key))"
  using kv_okD(3) [of n kv] by (simp add: get_hash_slot_def home_def)

section \<open>Lookup\<close>

definition kv_slot :: "nat \<Rightarrow> kv_ftl \<Rightarrow> nat list \<Rightarrow> nat option" where
  "kv_slot n kv k = List.find (\<lambda>s. mem_offset (kv_table kv ! s) \<noteq> NO_OFFSET \<and> take n (m_key (kv_table kv ! s)) = k) [0..<length (kv_table kv)]"

definition kv_region :: "nat \<Rightarrow> kv_ftl \<Rightarrow> nat list \<Rightarrow> (nat \<times> nat) option" where
  "kv_region n kv k = map_option (\<lambda>s. (mem_offset (kv_table kv ! s), m_length (kv_table kv ! s))) (kv_slot n kv k)"

lemma kv_slot_Some:
  assumes "kv_ok n kv"
  shows "kv_slot n kv k = Some s \<longleftrightarrow> occupied (kv_table kv) s \<and> take n (m_key (kv_table kv ! s)) = k"
proof
  assume "kv_slot n kv k = Some s"
  then show "occupied (kv_table kv) s \<and> take n (m_key (kv_table kv ! s)) = k"
    by (auto simp: kv_slot_def occupied_def find_Some_iff)
next
  assume s: "occupied (kv_table kv) s \<and> take n (m_key (kv_table kv ! s)) = k"
  then have "kv_slot n kv k \<noteq> None" by (auto simp: kv_slot_def occupied_def find_None_iff)
  then obtain s' where s': "kv_slot n kv k = Some s'" by auto
  then have "occupied (kv_table kv) s' \<and> take n (m_key (kv_table kv ! s')) = k"
    by (auto simp: kv_slot_def occupied_def find_Some_iff)
  then have "s' = s" using s kv_okD(10) [OF assms] by simp
  then show "kv_slot n kv k = Some s" using s' by simp
qed

lemma kv_slot_None:
  "kv_ok n kv \<Longrightarrow> kv_slot n kv k = None \<longleftrightarrow> (\<forall>s. occupied (kv_table kv) s \<longrightarrow> take n (m_key (kv_table kv ! s)) \<noteq> k)"
  using kv_slot_Some [of n kv k] by (cases "kv_slot n kv k") auto

lemma find_key_ok:
  assumes "kv_ok n kv" "n \<le> length key"
  shows "find_key kv key n = Some (kv_slot n kv (take n key))"
proof -
  let ?t = "kv_table kv" let ?h = "home kv (take n key)"
  have l: "length ?t \<le> NO_SLOT" "?h < length ?t" using kv_okD(2,4) [OF assms(1)] home_less [OF assms(1)] by simp_all
  then obtain ps where ps: "kpath ?t ?h ps" using kv_okD(8) [OF assms(1)] kv_okD(2) [OF assms(1)] by auto
  have k: "n \<le> length (m_key (?t ! p))" if "p \<in> set ps" for p
    using kpath_occupied [OF ps that] kv_okD(1,2,6) [OF assms(1)] by (simp add: occupied_def)
  have s: "search ?t key n ?h = Some (List.find (\<lambda>p. take n key = take n (m_key (?t ! p))) ps)"
    by (rule search_path [OF ps l(1) k]) (use l in simp_all)
  have "List.find (\<lambda>p. take n key = take n (m_key (?t ! p))) ps = kv_slot n kv (take n key)"
  proof (cases "List.find (\<lambda>p. take n key = take n (m_key (?t ! p))) ps")
    case None
    have "take n (m_key (?t ! s)) \<noteq> take n key" if s: "occupied ?t s" for s
    proof
      assume e: "take n (m_key (?t ! s)) = take n key"
      obtain qs where "kpath ?t (home kv (take n (m_key (?t ! s)))) qs" "s \<in> set qs" using kv_okD(9) [OF assms(1) s] by blast
      then have "s \<in> set ps" using kpath_unique [OF ps _ l(1)] e by simp
      then have "take n key \<noteq> take n (m_key (?t ! s))" using None by (simp add: find_None_iff)
      then show False using e by simp
    qed
    then have "kv_slot n kv (take n key) = None" by (subst kv_slot_None [OF assms(1)]) simp
    then show ?thesis using None by simp
  next
    case (Some p)
    then have "p \<in> set ps" "take n (m_key (?t ! p)) = take n key" by (auto simp: find_Some_iff)
    then have "kv_slot n kv (take n key) = Some p" using kpath_occupied [OF ps] by (simp add: kv_slot_Some [OF assms(1), THEN iffD2])
    then show ?thesis using Some by simp
  qed
  then show ?thesis using s hash_slot_ok [OF assms] by (simp add: find_key_def)
qed

text \<open>The entry that the code works with.\<close>

lemma get_entry_ok:
  assumes "kv_ok n kv" "n \<le> length key"
  shows "\<exists>e. get_mapping_entry_by_key kv key n = Some e \<and>
    (case kv_region n kv (take n key) of None \<Rightarrow> mem_offset e = NO_OFFSET
     | Some (off, len) \<Rightarrow> mem_offset e = off \<and> m_length e = len \<and> off \<noteq> NO_OFFSET)"
proof (cases "kv_slot n kv (take n key)")
  case None
  then show ?thesis using find_key_ok [OF assms] by (simp add: get_mapping_entry_by_key_def kv_region_def ones_entry_def)
next
  case (Some s)
  then have "mem_offset (kv_table kv ! s) \<noteq> NO_OFFSET" using kv_slot_Some [OF assms(1)] by (simp add: occupied_def)
  then show ?thesis using Some find_key_ok [OF assms] by (simp add: get_mapping_entry_by_key_def kv_region_def Let_def)
qed

section \<open>Insertion\<close>

text \<open>The general step: a free slot is filled and linked so that it is on the path of its home.\<close>

lemma linked_kv_ok:
  assumes ok: "kv_ok n kv" and c: "can_link (kv_table kv) pr x e" and k: "length (m_key e) = 18" "kv_slot n kv (take n (m_key e)) = None"
    and h: "home kv (take n (m_key e)) = x \<or> (\<exists>ps. kpath (kv_table kv) (home kv (take n (m_key e))) ps \<and> pr \<in> set ps)"
  defines "kv' \<equiv> kv\<lparr>kv_table := linked (kv_table kv) pr x e\<rparr>"
  shows "kv_ok n kv'" "kv_region n kv' = (kv_region n kv)(take n (m_key e) \<mapsto> (mem_offset e, m_length e))"
proof -
  let ?t = "kv_table kv" let ?t' = "linked ?t pr x e"
  note D = kv_okD [OF ok]
  have x: "x < length ?t" using c by (simp add: can_link_def)
  have nth: "?t' ! s = (if s = x then e else if s = pr then (?t ! s)\<lparr>next_slot := x\<rparr> else ?t ! s)" if "s < length ?t" for s
    by (rule linked_nth [OF c that])
  have key: "m_key (?t' ! s) = (if s = x then m_key e else m_key (?t ! s))" if "s < length ?t" for s using nth [OF that] by simp
  have occ: "occupied ?t' s \<longleftrightarrow> occupied ?t s \<or> s = x" for s by (rule linked_occupied [OF c])
  have xo: "\<not> occupied ?t x" using c by (simp add: can_link_def occupied_def)
  have hm: "home kv' = home kv" unfolding kv'_def by (simp add: home_def fun_eq_iff)
  have new: "take n (m_key (?t ! s)) \<noteq> take n (m_key e)" if "occupied ?t s" for s
    using k(2) kv_slot_None [OF ok] that by blast
  have P: "\<exists>ps. kpath ?t' s ps" if "s < length ?t" for s
    using D(2,8) linked_path [OF c] that by metis
  have R: "\<exists>ps. kpath ?t' (home kv (take n (m_key (?t' ! s)))) ps \<and> s \<in> set ps" if s: "occupied ?t' s" for s
  proof (cases "s = x")
    case True
    then have ks: "m_key (?t' ! s) = m_key e" using key x by simp
    show ?thesis
      using h
    proof
      assume "home kv (take n (m_key e)) = x"
      then show ?thesis using linked_new_path [OF c] True ks by (intro exI [of _ "[x]"]) simp
    next
      assume "\<exists>ps. kpath ?t (home kv (take n (m_key e))) ps \<and> pr \<in> set ps"
      then show ?thesis using linked_path [OF c] True ks by metis
    qed
  next
    case False
    then have s': "occupied ?t s" using s occ by simp
    then have "m_key (?t' ! s) = m_key (?t ! s)" using key False by (simp add: occupied_def)
    then show ?thesis using D(9) [OF s'] linked_path [OF c] by (metis subsetD)
  qed
  have U: "s = s'" if "occupied ?t' s" "occupied ?t' s'" "take n (m_key (?t' ! s)) = take n (m_key (?t' ! s'))" for s s'
  proof -
    have "occupied ?t s \<or> s = x" "occupied ?t s' \<or> s' = x" using that(1,2) occ by auto
    moreover have "s < length ?t" "s' < length ?t" using that(1,2) by (auto simp: occupied_def)
    ultimately show ?thesis using that(3) key [of s] key [of s'] new D(10) [of s s'] by (auto split: if_splits)
  qed
  have F: "next_slot (?t' ! s) = NO_SLOT" if "s < length ?t" "mem_offset (?t' ! s) = NO_OFFSET" for s
  proof -
    have "\<not> occupied ?t' s" using that by (simp add: occupied_def)
    then have "s \<noteq> x" "\<not> occupied ?t s" using occ by auto
    moreover from this have "s \<noteq> pr" using c that(1) D(2,4) by (auto simp: can_link_def)
    ultimately show ?thesis using nth [OF that(1)] D(2,7) that(1) by (simp add: occupied_def)
  qed
  have K: "length (m_key (?t' ! s)) = 18" if "s < length ?t" for s using key that k(1) D(2,6) by simp
  show ok': "kv_ok n kv'" unfolding kv_ok_def Let_def
    using D(1-5) K F P R U hm by (simp add: kv'_def home_def)
  show "kv_region n kv' = (kv_region n kv)(take n (m_key e) \<mapsto> (mem_offset e, m_length e))"
  proof
    fix k0
    show "kv_region n kv' k0 = ((kv_region n kv)(take n (m_key e) \<mapsto> (mem_offset e, m_length e))) k0"
    proof (cases "k0 = take n (m_key e)")
      case True
      then have "kv_slot n kv' k0 = Some x" using kv_slot_Some [OF ok'] occ key x by (simp add: kv'_def)
      then show ?thesis using nth [OF x] True by (simp add: kv_region_def kv'_def)
    next
      case False
      have "occupied ?t' s \<and> take n (m_key (?t' ! s)) = k0 \<longleftrightarrow> occupied ?t s \<and> take n (m_key (?t ! s)) = k0" for s
        using occ [of s] key [of s] False xo by (cases "s = x") (auto dest: occupied_less)
      then have e: "kv_slot n kv' k0 = Some s \<longleftrightarrow> kv_slot n kv k0 = Some s" for s
        using kv_slot_Some [OF ok'] kv_slot_Some [OF ok] by (simp add: kv'_def)
      have "mem_offset (?t' ! s) = mem_offset (?t ! s) \<and> m_length (?t' ! s) = m_length (?t ! s)" if "occupied ?t s" for s
        using nth [of s] that xo by (auto simp: occupied_def)
      moreover have "kv_slot n kv' k0 = kv_slot n kv k0" using e by (metis option.exhaust)
      ultimately have "kv_region n kv' k0 = kv_region n kv k0"
        using kv_slot_Some [OF ok, THEN iffD1, of k0] by (cases "kv_slot n kv k0") (simp_all add: kv_region_def kv'_def)
      then show ?thesis using False by simp
    qed
  qed
qed

lemma new_mapping_ok:
  assumes ok: "kv_ok n kv" and n: "n \<le> length key" and new: "kv_slot n kv (take n key) = None"
    and free: "f < hash_slots kv" "mem_offset (kv_table kv ! f) = NO_OFFSET" and off: "off < kv_storage_size kv"
  shows "\<exists>t. new_mapping_entry_by_key key n len off kv = Some (kv\<lparr>kv_table := t\<rparr>) \<and> kv_ok n (kv\<lparr>kv_table := t\<rparr>) \<and>
    kv_region n (kv\<lparr>kv_table := t\<rparr>) = (kv_region n kv)(take n key \<mapsto> (off, len))"
proof -
  let ?t = "kv_table kv" let ?h = "home kv (take n key)"
  note D = kv_okD [OF ok]
  have h: "?h < length ?t" using home_less [OF ok] D(2) by simp
  obtain ps where ps: "kpath ?t ?h ps" using D(2,8) h by auto
  let ?pr = "if ps = [] then NO_SLOT else last ps"
  have l: "length ?t \<le> NO_SLOT" "?h \<noteq> NO_SLOT" using D(2,4) h by simp_all
  have po: "occupied ?t ?pr" if "ps \<noteq> []" using kpath_occupied [OF ps] that by simp
  have ph: "mem_offset (?t ! ?h) \<noteq> NO_OFFSET \<longleftrightarrow> ps \<noteq> []" using ps l h by (cases ps) (auto simp: kpath_end_def occupied_def)
  obtain x where x: "(if mem_offset (?t ! ?h) \<noteq> NO_OFFSET then find_next_slot kv ?h else Some (?h, NO_SLOT)) = Some (x, ?pr)"
      "x < length ?t" "mem_offset (?t ! x) = NO_OFFSET" "ps = [] \<longrightarrow> x = ?h"
  proof (cases "ps = []")
    case True
    then show ?thesis using that [of ?h] ph h by simp
  next
    case False
    have "last ps < length ?t" using po [OF False] False by (simp add: occupied_def)
    from probe_ok [OF l(1) this _ free(2)] free(1) D(2)
    obtain y where y: "probe ?t (length ?t) (last ps) = Some y" "y < length ?t" "mem_offset (?t ! y) = NO_OFFSET" by auto
    have "find_next_slot kv ?h = Some (y, last ps)"
      using chain_tail_path [OF ps l] False y(1) D(2) by (simp add: find_next_slot_def)
    then show ?thesis using that [of y] y ph False by simp
  qed
  define e where "e = (?t ! x)\<lparr>m_key := take n key @ drop n (m_key (?t ! x)), mem_offset := off, m_length := len\<rparr>"
  have xk: "length (m_key (?t ! x)) = 18" "next_slot (?t ! x) = NO_SLOT" using D(2,6,7) x(2,3) by auto
  have e: "take n (m_key e) = take n key" "length (m_key e) = 18" "mem_offset e = off" "m_length e = len" "next_slot e = NO_SLOT"
    using n xk D(1) by (simp_all add: e_def)
  have c: "can_link ?t ?pr x e"
    using l(1) x(2,3) e(3,5) off D(5) po kpath_last [OF ps] by (auto simp: can_link_def)
  have "home kv (take n (m_key e)) = x \<or> (\<exists>ps. kpath ?t (home kv (take n (m_key e))) ps \<and> ?pr \<in> set ps)"
    using x(4) ps e(1) by (cases "ps = []") auto
  note L = linked_kv_ok [OF ok c e(2) _ this]
  have tl: "(if ?pr \<noteq> NO_SLOT then chain_mapping ?pr x (kv\<lparr>kv_table := modl ?t x (\<lambda>e. e\<lparr>m_key := take n key @ drop n (m_key e), mem_offset := off, m_length := len\<rparr>)\<rparr>)
      else kv\<lparr>kv_table := modl ?t x (\<lambda>e. e\<lparr>m_key := take n key @ drop n (m_key e), mem_offset := off, m_length := len\<rparr>)\<rparr>) = kv\<lparr>kv_table := linked ?t ?pr x e\<rparr>"
    unfolding linked_def chain_mapping_def e_def by (simp add: modl_def)
  have "new_mapping_entry_by_key key n len off kv = Some (kv\<lparr>kv_table := linked ?t ?pr x e\<rparr>)"
    using off hash_slot_ok [OF ok n] h x xk D(1) tl by (simp add: new_mapping_entry_by_key_def arr_simps del: if_not_P)
  then show ?thesis using L new e by (intro exI [of _ "linked ?t ?pr x e"]) simp
qed

section \<open>Update and deletion\<close>

lemma kv_ok_cong: "kv_ok n (kv\<lparr>kv_alloc := a\<rparr>) = kv_ok n kv" "kv_ok n (kv\<lparr>kv_iters := i\<rparr>) = kv_ok n kv"
  "kv_region n (kv\<lparr>kv_alloc := a\<rparr>) = kv_region n kv" "kv_region n (kv\<lparr>kv_iters := i\<rparr>) = kv_region n kv"
  "kv_slot n (kv\<lparr>kv_alloc := a\<rparr>) = kv_slot n kv" "kv_slot n (kv\<lparr>kv_iters := i\<rparr>) = kv_slot n kv"
  by (simp_all add: kv_ok_def home_def kv_region_def kv_slot_def fun_eq_iff)

lemma kpath_cong:
  assumes "length t' = length t" "\<And>s. s < length t \<Longrightarrow> mem_offset (t' ! s) = mem_offset (t ! s) \<and> next_slot (t' ! s) = next_slot (t ! s)"
  shows "kpath t' s ps = kpath t s ps"
proof -
  have o: "occupied t' s = occupied t s" "kpath_end t' s = kpath_end t s" for s
    using assms by (auto simp: occupied_def kpath_end_def)
  show ?thesis
  proof (induction ps arbitrary: s)
    case (Cons p ps)
    show ?case
    proof (cases "occupied t s")
      case True
      then have "next_slot (t' ! s) = next_slot (t ! s)" using assms(2) by (simp add: occupied_def)
      then show ?thesis using Cons o by simp
    qed (simp add: o)
  qed (simp add: o)
qed

lemma relength_ok:
  fixes len :: nat
  assumes ok: "kv_ok n kv" and s: "kv_slot n kv k = Some s"
  defines "kv' \<equiv> kv\<lparr>kv_table := modl (kv_table kv) s (\<lambda>e. e\<lparr>m_length := len\<rparr>)\<rparr>"
  shows "kv_ok n kv'" "kv_region n kv' = (kv_region n kv)(k \<mapsto> (fst (the (kv_region n kv k)), len))"
proof -
  let ?t = "kv_table kv" let ?t' = "modl ?t s (\<lambda>e. e\<lparr>m_length := len\<rparr>)"
  note D = kv_okD [OF ok]
  have so: "occupied ?t s" "take n (m_key (?t ! s)) = k" using s kv_slot_Some [OF ok] by simp_all
  have e: "?t' ! x = (if x = s then (?t ! x)\<lparr>m_length := len\<rparr> else ?t ! x)" if "x < length ?t" for x using that by (simp add: arr_simps)
  have P: "kpath ?t' x ps = kpath ?t x ps" for x ps by (rule kpath_cong) (simp_all add: e)
  have E: "\<exists>ps. kpath ?t' x ps" if "x < hash_slots kv" for x using D(8) [OF that] unfolding P .
  have O: "occupied ?t' x = occupied ?t x" for x using e [of x] by (cases "x = s") (auto simp: occupied_def)
  have K: "m_key (?t' ! x) = m_key (?t ! x)" if "x < length ?t" for x using e [OF that] by simp
  have hm: "home kv' = home kv" by (simp add: home_def kv'_def fun_eq_iff)
  have KO: "occupied ?t x \<and> m_key (?t' ! x) = m_key (?t ! x)" if "occupied ?t' x" for x using that O K [of x] by (auto dest: occupied_less)
  have R: "\<exists>ps. kpath ?t' (home kv (take n (m_key (?t' ! x)))) ps \<and> x \<in> set ps" if "occupied ?t' x" for x
    using D(9) [of x] KO [OF that] P by simp
  have U: "x = y" if "occupied ?t' x" "occupied ?t' y" "take n (m_key (?t' ! x)) = take n (m_key (?t' ! y))" for x y
    using D(10) [of x y] that(3) KO [OF that(1)] KO [OF that(2)] by simp
  have F: "next_slot (?t' ! x) = NO_SLOT" if "x < hash_slots kv" "mem_offset (?t' ! x) = NO_OFFSET" for x
    using D(2,7) e [of x] that by (simp split: if_splits)
  show ok': "kv_ok n kv'" unfolding kv_ok_def Let_def
    using D(1-6) E K R U F by (simp add: kv'_def home_def)
  have "kv_slot n kv' = kv_slot n kv"
  proof
    fix k0
    have "occupied ?t' x \<and> take n (m_key (?t' ! x)) = k0 \<longleftrightarrow> occupied ?t x \<and> take n (m_key (?t ! x)) = k0" for x
      using O [of x] K [of x] by (auto dest: occupied_less)
    then have "kv_slot n kv' k0 = Some x \<longleftrightarrow> kv_slot n kv k0 = Some x" for x
      using kv_slot_Some [OF ok', of k0 x] kv_slot_Some [OF ok, of k0 x] by (simp add: kv'_def)
    then show "kv_slot n kv' k0 = kv_slot n kv k0" by (metis option.exhaust)
  qed
  then show "kv_region n kv' = (kv_region n kv)(k \<mapsto> (fst (the (kv_region n kv k)), len))"
  proof -
    have "kv_region n kv' k0 = ((kv_region n kv)(k \<mapsto> (fst (the (kv_region n kv k)), len))) k0" for k0
    proof (cases "kv_slot n kv k0")
      case None
      then show ?thesis using \<open>kv_slot n kv' = kv_slot n kv\<close> s by (auto simp: kv_region_def)
    next
      case (Some x)
      have "x < length ?t" "take n (m_key (?t ! x)) = k0" using Some kv_slot_Some [OF ok] by (auto simp: occupied_def)
      then show ?thesis using \<open>kv_slot n kv' = kv_slot n kv\<close> s Some so(2) e [of x] by (auto simp: kv_region_def kv'_def)
    qed
    then show ?thesis by (simp add: fun_eq_iff)
  qed
qed

lemma delete_ok:
  assumes ok: "kv_ok n kv" and s: "kv_slot n kv k = Some s" and l: "kpath_end (kv_table kv) (next_slot (kv_table kv ! s))"
  defines "kv' \<equiv> kv\<lparr>kv_table := modl (kv_table kv) s (\<lambda>_. ones_entry)\<rparr>"
  shows "kv_ok n kv'" "kv_region n kv' = (kv_region n kv)(k := None)"
proof -
  let ?t = "kv_table kv" let ?t' = "?t[s := ones_entry]"
  note D = kv_okD [OF ok]
  have so: "occupied ?t s" "take n (m_key (?t ! s)) = k" using s kv_slot_Some [OF ok] by simp_all
  have sl: "s < length ?t" by (rule occupied_less [OF so(1)])
  have kv': "kv' = kv\<lparr>kv_table := ?t'\<rparr>" by (simp add: kv'_def modl_def)
  have O: "occupied ?t' x \<longleftrightarrow> occupied ?t x \<and> x \<noteq> s" for x using sl by (cases "x = s") (auto simp: occupied_def ones_entry_def)
  have P: "\<exists>ps'. kpath ?t' x ps' \<and> set ps' = set ps - {s}" if "kpath ?t x ps" for x ps
    by (rule freed_path [OF that so(1) l]) (use D(2,4) in \<open>simp_all add: ones_entry_def\<close>)
  have hm: "home kv' = home kv" by (simp add: home_def kv'_def fun_eq_iff)
  have E: "\<exists>ps. kpath ?t' x ps" if "x < hash_slots kv" for x using D(8) [OF that] P by metis
  have R: "\<exists>ps. kpath ?t' (home kv (take n (m_key (?t' ! x)))) ps \<and> x \<in> set ps" if x: "occupied ?t' x" for x
  proof -
    have "occupied ?t x" "x \<noteq> s" using O x by simp_all
    moreover from this obtain ps where "kpath ?t (home kv (take n (m_key (?t ! x)))) ps" "x \<in> set ps" using D(9) by blast
    ultimately show ?thesis using P [of _ ps] by auto
  qed
  have U: "x = y" if "occupied ?t' x" "occupied ?t' y" "take n (m_key (?t' ! x)) = take n (m_key (?t' ! y))" for x y
    using D(10) [of x y] that O by simp
  have F: "next_slot (?t' ! x) = NO_SLOT" if "x < hash_slots kv" "mem_offset (?t' ! x) = NO_OFFSET" for x
    using D(2,7) that by (cases "x = s") (simp_all add: ones_entry_def)
  have K: "length (m_key (?t' ! x)) = 18" if "x < hash_slots kv" for x
    using D(2,6) that by (cases "x = s") (simp_all add: ones_entry_def)
  show ok': "kv_ok n kv'" unfolding kv_ok_def Let_def
    using D(1-5) E R U F K by (simp add: kv' home_def)
  show "kv_region n kv' = (kv_region n kv)(k := None)"
  proof
    fix k0
    have e: "occupied ?t' x \<and> take n (m_key (?t' ! x)) = k0 \<longleftrightarrow> occupied ?t x \<and> take n (m_key (?t ! x)) = k0 \<and> k0 \<noteq> k" for x
      using O [of x] D(10) [OF _ so(1), of x] so(2) by (cases "x = s") auto
    show "kv_region n kv' k0 = ((kv_region n kv)(k := None)) k0"
    proof (cases "k0 = k")
      case True
      then have "kv_slot n kv' k0 = None" using kv_slot_None [OF ok', of k0] e by (auto simp: kv')
      then show ?thesis using True by (simp add: kv_region_def)
    next
      case False
      have "kv_slot n kv' k0 = Some x \<longleftrightarrow> kv_slot n kv k0 = Some x" for x
        using e [of x] False kv_slot_Some [OF ok', of k0 x] kv_slot_Some [OF ok, of k0 x] by (simp add: kv')
      then have "kv_slot n kv' k0 = kv_slot n kv k0" by (metis option.exhaust)
      moreover have "x \<noteq> s" if "kv_slot n kv k0 = Some x" for x using kv_slot_Some [OF ok, THEN iffD1, OF that] so(2) False by auto
      ultimately show ?thesis using False by (cases "kv_slot n kv k0") (auto simp: kv_region_def kv')
    qed
  qed
qed

end
