(* ===== verification/Kv_Data.thy ===== *)
theory Kv_Data
  imports Kv_Map
begin

text \<open>
  The storage as a map from keys to values (\<open>kv_val\<close>): the regions of the keys lie below the position of the append-only allocator
  and are disjoint, so a store, a retrieve and a delete are an update, a lookup and a removal of the map.
\<close>

section \<open>Copying\<close>

definition as_io :: "nvme_command \<Rightarrow> nvme_command" where
  "as_io c = c\<lparr>opcode := (if opcode c = nvme_cmd_kv_store then nvme_cmd_write else nvme_cmd_read), nsid := 1\<rparr>"

lemma as_io_prp: "next_prp pfn h (as_io c) n rem st = next_prp pfn h c n rem st"
  by (cases st) (simp add: next_prp_def as_io_def)

lemma as_io_base: "idx [0::nat] (dec32 (nsid (as_io c))) = Some 0"
  by (simp add: as_io_def dec32_def sub32_le arr_simps)

lemma as_io_copy:
  "opcode c = nvme_cmd_kv_store \<or> opcode c = nvme_cmd_kv_retrieve \<Longrightarrow> off + n \<le> sz \<Longrightarrow>
    kv_copy sz c a off n m = copy_seg [0] (as_io c) a off n m"
  using as_io_base [of c] by (auto simp: kv_copy_def copy_seg_def as_io_def io_opcodes kv_opcodes)

lemma prps_as_io: "prps pfn h (as_io c) n st rem = prps pfn h c n st rem"
proof (induction pfn h c n st rem rule: prps.induct)
  case (1 pfn h c n st rem)
  show ?case
  proof (cases "rem = 0 \<or> next_prp pfn h c (n + 1) rem st = None")
    case True
    then show ?thesis by (subst (1 2) prps.simps) (auto simp: as_io_prp)
  next
    case False
    then obtain p st' where r: "next_prp pfn h c (n + 1) rem st = Some (p, st')" by auto
    then have "prps pfn h (as_io c) (n + 1) st' (rem - seg_len rem p) = prps pfn h c (n + 1) st' (rem - seg_len rem p)"
      using "1.IH" False by simp
    then show ?thesis using False r by (subst (1 2) prps.simps) (simp add: as_io_prp)
  qed
qed

lemma kv_copy_perform:
  "opcode c = nvme_cmd_kv_store \<or> opcode c = nvme_cmd_kv_retrieve \<Longrightarrow> off + rem \<le> sz \<Longrightarrow>
    kv_copy_loop sz c n st rem off m = perform_loop (\<lambda>_. True) [0] (as_io c) n st rem off m"
proof (induction sz c n st rem off m rule: kv_copy_loop.induct)
  case (1 sz c n st rem off m)
  show ?case
  proof (cases "rem = 0 \<or> next_prp (\<lambda>_. True) (host m) c (n + 1) rem st = None")
    case True
    then show ?thesis by (subst kv_copy_loop.simps, subst perform_loop.simps) (auto simp: as_io_prp)
  next
    case False
    then obtain p st' where r: "next_prp (\<lambda>_. True) (host m) c (n + 1) rem st = Some (p, st')" by auto
    let ?k = "seg_len rem p"
    have l: "off + ?k \<le> sz" "off + ?k + (rem - ?k) \<le> sz" using seg_len_pos(2) [of rem p] "1.prems"(2) by simp_all
    note cp = as_io_copy [OF "1.prems"(1) l(1), of p m]
    have da: "data_addr (\<lambda>_. True) p = p" by (simp add: data_addr_def)
    show ?thesis
    proof (cases "copy_seg [0] (as_io c) p off ?k m")
      case None
      then show ?thesis using False r cp da by (subst kv_copy_loop.simps, subst perform_loop.simps) (simp add: as_io_prp)
    next
      case (Some m')
      have "kv_copy_loop sz c (n + 1) st' (rem - ?k) (off + ?k) m' = perform_loop (\<lambda>_. True) [0] (as_io c) (n + 1) st' (rem - ?k) (off + ?k) m'"
        by (rule "1.IH" [of _ p st']) (use False r cp Some "1.prems" l in simp_all)
      then show ?thesis using False r cp da Some by (subst kv_copy_loop.simps, subst perform_loop.simps) (simp add: as_io_prp)
    qed
  qed
qed

lemma kv_copy_segs:
  assumes "prps (\<lambda>_. True) (host m) c 0 (None, 0) len = Some ps" "opcode c = nvme_cmd_kv_store \<or> opcode c = nvme_cmd_kv_retrieve" "off + len \<le> sz"
    "length ps \<le> 2 \<or> apart (as_io c) (segs len off ps)"
  shows "kv_copy_loop sz c 0 (None, 0) len off m = Some (dma_segs (as_io c) (segs len off ps) m)"
proof -
  have p: "prps (\<lambda>_. True) (host m) (as_io c) 0 (None, 0) len = Some ps" using assms(1) by (simp add: prps_as_io)
  have "perform_loop (\<lambda>_. True) [0] (as_io c) 0 (None, 0) len off m = copy_segs [0] (as_io c) (segs len off ps) m"
    by (rule perform_loop_segs [OF _ p]) (use assms(4) in \<open>simp_all add: list_safe_def\<close>)
  then show ?thesis using kv_copy_perform [OF assms(2,3)] copy_segs_dma [OF as_io_base] by simp
qed

text \<open>The value of a store, and the two transfers.\<close>

definition host_value :: "(nat \<Rightarrow> nat) \<Rightarrow> nat list \<Rightarrow> nat \<Rightarrow> nat list" where
  "host_value h ps len = map (\<lambda>j. h (byte_addr len ps j)) [0..<len]"

lemma kv_copy_in:
  assumes "prps (\<lambda>_. True) (host m) c 0 (None, 0) len = Some ps" "opcode c = nvme_cmd_kv_store" "off + len \<le> sz"
  shows "kv_copy_loop sz c 0 (None, 0) len off m =
    Some (m\<lparr>disk := \<lambda>x. if off \<le> x \<and> x < off + len then host m (byte_addr len ps (x - off)) else disk m x\<rparr>)"
proof -
  have w: "opcode (as_io c) = nvme_cmd_write" using assms(2) by (simp add: as_io_def)
  then have "apart (as_io c) (segs len off ps)" by (simp add: apart_def io_opcodes)
  then show ?thesis using kv_copy_segs [OF assms(1) _ assms(3)] assms(2) write_bytes [OF prps_covers [OF assms(1)], of "as_io c" off m] w by simp
qed

lemma kv_copy_out:
  assumes "prps (\<lambda>_. True) (host m) c 0 (None, 0) len = Some ps" "opcode c = nvme_cmd_kv_retrieve" "off + len \<le> sz"
    "length ps \<le> 2 \<or> apart (as_io c) (segs len off ps)" "inj_on (byte_addr len ps) {..<len}"
  shows "\<exists>h. kv_copy_loop sz c 0 (None, 0) len off m = Some (m\<lparr>host := h\<rparr>) \<and> host_value h ps len = map (\<lambda>j. disk m (off + j)) [0..<len]"
proof -
  have "opcode (as_io c) = nvme_cmd_read" using assms(2) by (simp add: as_io_def kv_opcodes)
  from read_bytes [OF prps_covers [OF assms(1)] assms(5) this, of off m]
  obtain h where "dma_segs (as_io c) (segs len off ps) m = m\<lparr>host := h\<rparr>" "\<forall>j < len. h (byte_addr len ps j) = disk m (off + j)" by blast
  then show ?thesis using kv_copy_segs [OF assms(1) _ assms(3,4)] assms(2) by (auto simp: host_value_def)
qed

section \<open>Values\<close>

definition kv_latest :: "kv_ftl \<Rightarrow> nat" where
  "kv_latest kv = (case kv_alloc kv of Append_Only a \<Rightarrow> ao_latest a | Bitmap b \<Rightarrow> 0)"

definition disjoint_regions :: "nat \<times> nat \<Rightarrow> nat \<times> nat \<Rightarrow> bool" where
  "disjoint_regions r r' \<longleftrightarrow> fst r + snd r \<le> fst r' \<or> fst r' + snd r' \<le> fst r"

definition kv_inv :: "nat \<Rightarrow> kv_ftl \<Rightarrow> bool" where
  "kv_inv n kv \<longleftrightarrow> kv_ok n kv \<and> (\<exists>a. kv_alloc kv = Append_Only a) \<and> kv_latest kv \<le> kv_storage_size kv \<and>
     (\<forall>k r. kv_region n kv k = Some r \<longrightarrow> fst r + snd r \<le> kv_latest kv) \<and>
     (\<forall>k k' r r'. kv_region n kv k = Some r \<longrightarrow> kv_region n kv k' = Some r' \<longrightarrow> k \<noteq> k' \<longrightarrow> disjoint_regions r r')"

lemma kv_invD:
  assumes "kv_inv n kv"
  shows "kv_ok n kv" "\<exists>a. kv_alloc kv = Append_Only a" "kv_latest kv \<le> kv_storage_size kv"
    "\<And>k r. kv_region n kv k = Some r \<Longrightarrow> fst r + snd r \<le> kv_latest kv"
    "\<And>k k' r r'. kv_region n kv k = Some r \<Longrightarrow> kv_region n kv k' = Some r' \<Longrightarrow> k \<noteq> k' \<Longrightarrow> disjoint_regions r r'"
  using assms unfolding kv_inv_def by (elim conjE; simp; fail | elim conjE; blast; fail)+

definition region_value :: "sys_mem \<Rightarrow> nat \<times> nat \<Rightarrow> nat list" where
  "region_value m r = map (\<lambda>j. disk m (fst r + j)) [0..<snd r]"

definition kv_val :: "nat \<Rightarrow> kv_ftl \<Rightarrow> sys_mem \<Rightarrow> nat list \<Rightarrow> nat list option" where
  "kv_val n kv m k = map_option (region_value m) (kv_region n kv k)"

text \<open>A region is set to the value, and the others are elsewhere.\<close>

lemma kv_val_upd:
  assumes "kv_region n kv' = (kv_region n kv)(k \<mapsto> (off, len))" "\<And>k' r. k' \<noteq> k \<Longrightarrow> kv_region n kv k' = Some r \<Longrightarrow> disjoint_regions r (off, len)"
  shows "kv_val n kv' (m\<lparr>disk := \<lambda>x. if off \<le> x \<and> x < off + len then f (x - off) else disk m x\<rparr>) =
    (kv_val n kv m)(k \<mapsto> map f [0..<len])"
proof
  fix k'
  let ?m = "m\<lparr>disk := \<lambda>x. if off \<le> x \<and> x < off + len then f (x - off) else disk m x\<rparr>"
  show "kv_val n kv' ?m k' = ((kv_val n kv m)(k \<mapsto> map f [0..<len])) k'"
  proof (cases "k' = k")
    case True
    then show ?thesis by (simp add: kv_val_def assms(1) region_value_def)
  next
    case False
    have "region_value ?m r = region_value m r" if "kv_region n kv k' = Some r" for r
      using assms(2) [OF False that] by (auto simp: region_value_def disjoint_regions_def)
    then show ?thesis using False by (cases "kv_region n kv k'") (simp_all add: kv_val_def assms(1))
  qed
qed

lemma length_kv_key [simp]: "length (kv_key c) = 16"
  by (simp add: kv_key_def bytes32_def)

text \<open>When a store is admitted: there is room for a new key, or the value is as long as before or shorter than a short one.\<close>

definition store_admitted :: "nat \<Rightarrow> kv_ftl \<Rightarrow> nat list \<Rightarrow> nat \<Rightarrow> bool" where
  "store_admitted n kv k len \<longleftrightarrow> (case kv_region n kv k of
     None \<Rightarrow> (\<exists>s < hash_slots kv. mem_offset (kv_table kv ! s) = NO_OFFSET) \<and> kv_latest kv + len \<le> kv_storage_size kv \<and> kv_latest kv < kv_storage_size kv
   | Some (off, l) \<Rightarrow> len = l \<or> len < l \<and> l \<le> SMALL_LENGTH)"

lemma region_slot: "kv_region n kv k = None \<longleftrightarrow> kv_slot n kv k = None"
  by (simp add: kv_region_def)

lemma allocate_ok:
  assumes "kv_inv n kv" "kv_latest kv + len \<le> kv_storage_size kv" "kv_latest kv < kv_storage_size kv"
  shows "\<exists>a. allocate_mem_offset_by_length len kv = Some (kv_latest kv, kv\<lparr>kv_alloc := Append_Only a\<rparr>) \<and> ao_latest a = kv_latest kv + len"
proof -
  obtain a where a: "kv_alloc kv = Append_Only a" using kv_invD(2) [OF assms(1)] by blast
  have s: "kv_storage_size kv \<le> NO_OFFSET" using kv_okD(5) [OF kv_invD(1) [OF assms(1)]] .
  have "kv_latest kv + len < 2 ^ 64" "ao_latest a \<noteq> NO_OFFSET" using assms(2,3) s a by (simp_all add: NO_OFFSET_def kv_latest_def)
  then show ?thesis using a
    by (intro exI [of _ "snd (append_only_allocate len a)"]) (simp add: allocate_mem_offset_by_length_def append_only_allocate_def kv_latest_def)
qed

text \<open>The invariant after an insertion at the position of the allocator.\<close>

lemma inserted_inv:
  assumes inv: "kv_inv n kv" and ok: "kv_ok n kv'" and a: "kv_alloc kv' = Append_Only a" "ao_latest a = kv_latest kv + len"
    and s: "kv_storage_size kv' = kv_storage_size kv" "kv_latest kv + len \<le> kv_storage_size kv"
    and r: "kv_region n kv' = (kv_region n kv)(k \<mapsto> (kv_latest kv, len))"
  shows "kv_inv n kv'"
proof -
  note I = kv_invD [OF inv]
  have l: "kv_latest kv' = kv_latest kv + len" using a by (simp add: kv_latest_def)
  have "fst x + snd x \<le> kv_latest kv'" if "kv_region n kv' k0 = Some x" for k0 x
    using that I(4) [of k0 x] unfolding r l by (cases "k0 = k") auto
  moreover have "disjoint_regions x y" if "kv_region n kv' k1 = Some x" "kv_region n kv' k2 = Some y" "k1 \<noteq> k2" for k1 k2 x y
    using that I(4) [of k1 x] I(4) [of k2 y] I(5) [of k1 x k2 y] unfolding r
    by (cases "k1 = k"; cases "k2 = k") (auto simp: disjoint_regions_def)
  moreover have "kv_latest kv' \<le> kv_storage_size kv'" using s l by simp
  ultimately show ?thesis using ok a(1) unfolding kv_inv_def by blast
qed

section \<open>Commands\<close>

text \<open>What a command does to the map from keys to values.\<close>

definition kv_bytes :: "nvme_command \<Rightarrow> nat list" where
  "kv_bytes c = take (cmd_key_length c) (kv_key c)"

lemma store_new:
  assumes inv: "kv_inv n kv" and c: "opcode c = nvme_cmd_kv_store" "cmd_key_length c = n" "n \<le> 16"
    and p: "prps (\<lambda>_. True) (host m) c 0 (None, 0) (cmd_value_length c) = Some ps"
    and r: "kv_region n kv (kv_bytes c) = None" and ad: "store_admitted n kv (kv_bytes c) (cmd_value_length c)" and e: "mem_offset e = NO_OFFSET"
  shows "\<exists>kv' m'. kv_store_io c e kv m = Some (kv', m') \<and> kv_inv n kv' \<and> host m' = host m \<and>
    kv_val n kv' m' = (kv_val n kv m)(kv_bytes c \<mapsto> host_value (host m) ps (cmd_value_length c))"
proof -
  let ?len = "cmd_value_length c" let ?k = "kv_bytes c" let ?o = "kv_latest kv"
  note I = kv_invD [OF inv]
  obtain f where f: "f < hash_slots kv" "mem_offset (kv_table kv ! f) = NO_OFFSET" "?o + ?len \<le> kv_storage_size kv" "?o < kv_storage_size kv"
    using ad r by (auto simp: store_admitted_def)
  obtain a where a: "allocate_mem_offset_by_length ?len kv = Some (?o, kv\<lparr>kv_alloc := Append_Only a\<rparr>)" "ao_latest a = ?o + ?len"
    using allocate_ok [OF inv f(3,4)] by blast
  let ?kv = "kv\<lparr>kv_alloc := Append_Only a\<rparr>"
  let ?m = "m\<lparr>disk := \<lambda>x. if ?o \<le> x \<and> x < ?o + ?len then host m (byte_addr ?len ps (x - ?o)) else disk m x\<rparr>"
  have cp: "kv_copy_loop (kv_storage_size kv) c 0 (None, 0) ?len ?o m = Some ?m" by (rule kv_copy_in [OF p c(1) f(3)])
  have k: "take n (kv_key c) = ?k" using c(2) by (simp add: kv_bytes_def)
  have ok: "kv_ok n ?kv" "kv_slot n ?kv ?k = None" using I(1) r by (simp_all add: kv_ok_cong region_slot)
  have "\<exists>t. new_mapping_entry_by_key (kv_key c) n ?len ?o ?kv = Some (?kv\<lparr>kv_table := t\<rparr>) \<and> kv_ok n (?kv\<lparr>kv_table := t\<rparr>) \<and>
      kv_region n (?kv\<lparr>kv_table := t\<rparr>) = (kv_region n ?kv)(take n (kv_key c) \<mapsto> (?o, ?len))"
    by (rule new_mapping_ok [OF ok(1)]) (use ok(2) c(3) f k in simp_all)
  then obtain t where t: "new_mapping_entry_by_key (kv_key c) n ?len ?o ?kv = Some (?kv\<lparr>kv_table := t\<rparr>)" "kv_ok n (?kv\<lparr>kv_table := t\<rparr>)"
      "kv_region n (?kv\<lparr>kv_table := t\<rparr>) = (kv_region n kv)(?k \<mapsto> (?o, ?len))" using k by (auto simp: kv_ok_cong)
  have st: "kv_store_io c e kv m = Some (?kv\<lparr>kv_table := t\<rparr>, ?m)"
    using e a(1) cp t(1) c by (simp add: kv_store_io_def allocate_mem_offset_def new_mapping_entry_def Let_def)
  have "kv_inv n (?kv\<lparr>kv_table := t\<rparr>)"
    by (rule inserted_inv [OF inv t(2) _ a(2) _ f(3) t(3)]) simp_all
  moreover have "kv_val n (?kv\<lparr>kv_table := t\<rparr>) ?m = (kv_val n kv m)(?k \<mapsto> map (\<lambda>j. host m (byte_addr ?len ps j)) [0..<?len])"
    by (rule kv_val_upd [OF t(3)]) (use I(4) in \<open>auto simp: disjoint_regions_def\<close>)
  ultimately show ?thesis using st by (simp add: host_value_def)
qed

lemma store_old:
  assumes inv: "kv_inv n kv" and c: "opcode c = nvme_cmd_kv_store" "cmd_key_length c = n" "n \<le> 16"
    and p: "prps (\<lambda>_. True) (host m) c 0 (None, 0) (cmd_value_length c) = Some ps"
    and r: "kv_region n kv (kv_bytes c) = Some (off, l)" and ad: "store_admitted n kv (kv_bytes c) (cmd_value_length c)"
    and e: "mem_offset e = off" "m_length e = l" "off \<noteq> NO_OFFSET"
  shows "\<exists>kv' m'. kv_store_io c e kv m = Some (kv', m') \<and> kv_inv n kv' \<and> host m' = host m \<and>
    kv_val n kv' m' = (kv_val n kv m)(kv_bytes c \<mapsto> host_value (host m) ps (cmd_value_length c))"
proof -
  let ?len = "cmd_value_length c" let ?k = "kv_bytes c"
  note I = kv_invD [OF inv]
  have len: "?len = l \<or> ?len < l \<and> l \<le> SMALL_LENGTH" using ad r by (simp add: store_admitted_def)
  have fit: "off + l \<le> kv_storage_size kv" using I(4) [OF r] I(3) by simp
  let ?m = "m\<lparr>disk := \<lambda>x. if off \<le> x \<and> x < off + ?len then host m (byte_addr ?len ps (x - off)) else disk m x\<rparr>"
  have cp: "kv_copy_loop (kv_storage_size kv) c 0 (None, 0) ?len off m = Some ?m" by (rule kv_copy_in [OF p c(1)]) (use fit len in auto)
  obtain s where s: "kv_slot n kv ?k = Some s" using r by (auto simp: kv_region_def)
  have k: "take n (kv_key c) = ?k" using c(2) by (simp add: kv_bytes_def)
  have dj: "disjoint_regions x (off, ?len)" if "k' \<noteq> ?k" "kv_region n kv k' = Some x" for k' x
    using I(5) [OF that(2) r that(1)] len by (auto simp: disjoint_regions_def)
  have "\<exists>kv'. kv_store_io c e kv m = Some (kv', ?m) \<and> kv_inv n kv' \<and> kv_region n kv' = (kv_region n kv)(?k \<mapsto> (off, ?len))"
  proof (cases "?len = l")
    case True
    then have "kv_region n kv = (kv_region n kv)(?k \<mapsto> (off, ?len))" using r by (simp add: fun_upd_idem)
    then show ?thesis using True e cp inv by (simp add: kv_store_io_def Let_def)
  next
    case False
    let ?kv = "kv\<lparr>kv_table := modl (kv_table kv) s (\<lambda>e. e\<lparr>m_length := ?len\<rparr>)\<rparr>"
    have "find_key kv (kv_key c) n = Some (Some s)" using find_key_ok [OF I(1), of "kv_key c"] c(3) k s by simp
    then have u: "update_mapping_entry c kv = Some ?kv" using c(2) by (simp add: update_mapping_entry_def)
    have st: "kv_store_io c e kv m = Some (?kv, ?m)" using False len e cp u by (simp add: kv_store_io_def Let_def)
    have R: "kv_ok n ?kv" "kv_region n ?kv = (kv_region n kv)(?k \<mapsto> (off, ?len))"
      using relength_ok [OF I(1) s, of ?len] r by simp_all
    have "fst x + snd x \<le> kv_latest kv" if "kv_region n ?kv k0 = Some x" for k0 x
      using that I(4) [of k0 x] I(4) [OF r] len unfolding R(2) by (cases "k0 = ?k") auto
    moreover have "disjoint_regions x y" if "kv_region n ?kv k1 = Some x" "kv_region n ?kv k2 = Some y" "k1 \<noteq> k2" for k1 k2 x y
      using that I(5) [of k1 x k2 y] dj [of k1 x] dj [of k2 y] unfolding R(2)
      by (cases "k1 = ?k"; cases "k2 = ?k") (auto simp: disjoint_regions_def)
    moreover have "kv_alloc ?kv = kv_alloc kv" "kv_latest ?kv = kv_latest kv" "kv_storage_size ?kv = kv_storage_size kv" by (simp_all add: kv_latest_def)
    ultimately have "kv_inv n ?kv" unfolding kv_inv_def using R(1) I(2,3) by metis
    then show ?thesis using st R(2) by blast
  qed
  then obtain kv' where kv': "kv_store_io c e kv m = Some (kv', ?m)" "kv_inv n kv'" "kv_region n kv' = (kv_region n kv)(?k \<mapsto> (off, ?len))" by blast
  have "kv_val n kv' ?m = (kv_val n kv m)(?k \<mapsto> map (\<lambda>j. host m (byte_addr ?len ps j)) [0..<?len])"
    by (rule kv_val_upd [OF kv'(3) dj])
  then show ?thesis using kv'(1,2) by (simp add: host_value_def)
qed

text \<open>The transfer of a retrieve can be made: its pages are named, are apart from the list, and no byte is written twice.\<close>

definition transfer_ok_for :: "nvme_command \<Rightarrow> sys_mem \<Rightarrow> nat \<Rightarrow> nat list \<Rightarrow> bool" where
  "transfer_ok_for c m len ps \<longleftrightarrow> prps (\<lambda>_. True) (host m) c 0 (None, 0) len = Some ps \<and>
     (length ps \<le> 2 \<or> apart (as_io c) (segs len 0 ps)) \<and> inj_on (byte_addr len ps) {..<len}"

lemma segs_off: "segs rem off ps = map (\<lambda>(a, x, n). (a, x + off, n)) (segs rem 0 ps)"
proof (induction ps arbitrary: rem off)
  case (Cons p ps)
  show ?case using Cons [of "rem - seg_len rem p" "off + seg_len rem p"] Cons [of "rem - seg_len rem p" "seg_len rem p"]
    by (simp add: case_prod_beta add.assoc add.commute)
qed simp

lemma apart_off: "apart c (segs len off ps) = apart c (segs len 0 ps)"
  by (subst segs_off) (force simp: apart_def)

lemma entry_ok:
  assumes "kv_inv n kv" "cmd_key_length c = n" "n \<le> 16"
  shows "\<exists>e. get_mapping_entry kv c = Some e \<and> (case kv_region n kv (kv_bytes c) of None \<Rightarrow> mem_offset e = NO_OFFSET
     | Some (off, len) \<Rightarrow> mem_offset e = off \<and> m_length e = len \<and> off \<noteq> NO_OFFSET)"
  using get_entry_ok [OF kv_invD(1) [OF assms(1)], of "kv_key c"] assms(2,3) by (simp add: get_mapping_entry_def kv_bytes_def)

lemma kv_store_ok:
  assumes inv: "kv_inv n kv" and c: "opcode c = nvme_cmd_kv_store" "cmd_key_length c = n" "n \<le> 16"
    and p: "prps (\<lambda>_. True) (host m) c 0 (None, 0) (cmd_value_length c) = Some ps" and ad: "store_admitted n kv (kv_bytes c) (cmd_value_length c)"
  shows "\<exists>kv' m'. do_perform_kv_io c st kv m = Some (0, st, kv', m') \<and> kv_inv n kv' \<and> host m' = host m \<and>
    kv_val n kv' m' = (kv_val n kv m)(kv_bytes c \<mapsto> host_value (host m) ps (cmd_value_length c))"
proof -
  obtain e where e: "get_mapping_entry kv c = Some e" "case kv_region n kv (kv_bytes c) of None \<Rightarrow> mem_offset e = NO_OFFSET
     | Some (off, len) \<Rightarrow> mem_offset e = off \<and> m_length e = len \<and> off \<noteq> NO_OFFSET" using entry_ok [OF inv c(2,3)] by blast
  have "\<exists>kv' m'. kv_store_io c e kv m = Some (kv', m') \<and> kv_inv n kv' \<and> host m' = host m \<and>
      kv_val n kv' m' = (kv_val n kv m)(kv_bytes c \<mapsto> host_value (host m) ps (cmd_value_length c))"
    using store_new [OF inv c p _ ad, of e] store_old [OF inv c p _ ad, of _ _ e] e(2)
    by (cases "kv_region n kv (kv_bytes c)") auto
  then show ?thesis using e(1) c(1) by (auto simp: do_perform_kv_io_def)
qed

lemma absent_ok:
  assumes inv: "kv_inv n kv" and c: "opcode c \<in> {nvme_cmd_kv_retrieve, nvme_cmd_kv_exist, nvme_cmd_kv_delete}" "cmd_key_length c = n" "n \<le> 16"
    and r: "kv_region n kv (kv_bytes c) = None"
  shows "do_perform_kv_io c st kv m = Some (0, KV_ERR_KEY_NOT_EXIST, kv, m)"
  using entry_ok [OF inv c(2,3)] r c(1) by (auto simp: do_perform_kv_io_def kv_opcodes)

lemma retrieve_ok:
  assumes inv: "kv_inv n kv" and c: "opcode c = nvme_cmd_kv_retrieve" "cmd_key_length c = n" "n \<le> 16"
    and r: "kv_region n kv (kv_bytes c) = Some (off, l)" and t: "transfer_ok_for c m (min l (cmd_value_length c)) ps"
  shows "\<exists>h. do_perform_kv_io c st kv m = Some (min l (cmd_value_length c), st, kv, m\<lparr>host := h\<rparr>) \<and>
    host_value h ps (min l (cmd_value_length c)) = take (cmd_value_length c) (region_value m (off, l))"
proof -
  let ?len = "min l (cmd_value_length c)"
  obtain e where e: "get_mapping_entry kv c = Some e" "mem_offset e = off" "m_length e = l" "off \<noteq> NO_OFFSET"
    using entry_ok [OF inv c(2,3)] r by auto
  have "off + ?len \<le> kv_storage_size kv" using kv_invD(3,4) [OF inv] r by fastforce
  then obtain h where h: "kv_copy_loop (kv_storage_size kv) c 0 (None, 0) ?len off m = Some (m\<lparr>host := h\<rparr>)"
      "host_value h ps ?len = map (\<lambda>j. disk m (off + j)) [0..<?len]"
    using kv_copy_out [of m c ?len ps off "kv_storage_size kv"] t c(1) apart_off [of "as_io c" ?len off ps] by (auto simp: transfer_ok_for_def)
  have "u32 ?len = ?len" using u_bound(3) [of "u32 (cdw10 c) * 4"] by (intro u_small(3)) (simp add: cmd_value_length_def min_less_iff_disj)
  then have "do_perform_kv_io c st kv m = Some (?len, st, kv, m\<lparr>host := h\<rparr>)"
    using e h(1) c(1) by (simp add: do_perform_kv_io_def kv_opcodes Let_def)
  moreover have "host_value h ps ?len = take (cmd_value_length c) (region_value m (off, l))"
    unfolding h(2) by (cases "cmd_value_length c \<le> l") (simp_all add: region_value_def take_map min_def)
  ultimately show ?thesis by blast
qed

lemma exist_ok:
  assumes inv: "kv_inv n kv" and c: "opcode c = nvme_cmd_kv_exist" "cmd_key_length c = n" "n \<le> 16"
    and r: "kv_region n kv (kv_bytes c) \<noteq> None"
  shows "do_perform_kv_io c st kv m = Some (0, st, kv, m)"
  using entry_ok [OF inv c(2,3)] r c(1) by (auto simp: do_perform_kv_io_def kv_opcodes)

text \<open>A deletion is admitted when nothing follows the slot of the key on its path.\<close>

definition delete_admitted :: "nat \<Rightarrow> kv_ftl \<Rightarrow> nat list \<Rightarrow> bool" where
  "delete_admitted n kv k \<longleftrightarrow> (case kv_slot n kv k of None \<Rightarrow> True | Some s \<Rightarrow> kpath_end (kv_table kv) (next_slot (kv_table kv ! s)))"

lemma remove_ok:
  assumes inv: "kv_inv n kv" and c: "opcode c = nvme_cmd_kv_delete" "cmd_key_length c = n" "n \<le> 16"
    and r: "kv_region n kv (kv_bytes c) \<noteq> None" and ad: "delete_admitted n kv (kv_bytes c)"
  shows "\<exists>kv'. do_perform_kv_io c st kv m = Some (0, st, kv', m) \<and> kv_inv n kv' \<and> kv_val n kv' m = (kv_val n kv m)(kv_bytes c := None)"
proof -
  note I = kv_invD [OF inv]
  obtain s where s: "kv_slot n kv (kv_bytes c) = Some s" using r by (auto simp: kv_region_def)
  let ?kv = "kv\<lparr>kv_table := modl (kv_table kv) s (\<lambda>_. ones_entry)\<rparr>"
  have R: "kv_ok n ?kv" "kv_region n ?kv = (kv_region n kv)(kv_bytes c := None)"
    by (rule delete_ok [OF I(1) s]; use ad s in \<open>simp add: delete_admitted_def\<close>)+
  have "find_key kv (kv_key c) n = Some (Some s)" using find_key_ok [OF I(1), of "kv_key c"] c(2,3) s by (simp add: kv_bytes_def)
  then have "delete_mapping_entry c kv = Some ?kv" using c(2) by (simp add: delete_mapping_entry_def)
  then have d: "do_perform_kv_io c st kv m = Some (0, st, ?kv, m)"
    using entry_ok [OF inv c(2,3)] r c(1) by (auto simp: do_perform_kv_io_def kv_opcodes)
  have sub: "kv_region n kv k = Some x \<and> k \<noteq> kv_bytes c" if "kv_region n ?kv k = Some x" for k x using that unfolding R(2) by (auto split: if_splits)
  have "kv_alloc ?kv = kv_alloc kv" "kv_latest ?kv = kv_latest kv" "kv_storage_size ?kv = kv_storage_size kv" by (simp_all add: kv_latest_def)
  then have "kv_inv n ?kv" unfolding kv_inv_def using R(1) I(2-5) sub by metis
  moreover have "kv_val n ?kv m = (kv_val n kv m)(kv_bytes c := None)" by (rule ext) (simp add: kv_val_def R(2))
  ultimately show ?thesis using d by blast
qed

section \<open>Initialisation and runs\<close>

lemma init_kv_inv:
  assumes "48 \<le> ts" "ts div 48 \<le> NO_SLOT" "ss \<le> NO_OFFSET" "n \<le> 18"
  shows "kv_inv n (kv_init_ftl False ts ss)" "kv_val n (kv_init_ftl False ts ss) m = (\<lambda>_. None)"
proof -
  let ?kv = "kv_init_ftl False ts ss"
  have e: "kv_table ?kv ! s = free_entry" if "s < ts div 48" for s using that by (simp add: kv_init_ftl_def KV_MAPPING_ENTRY_SIZE_def Let_def)
  have f: "mem_offset free_entry = NO_OFFSET" "next_slot free_entry = NO_SLOT" "length (m_key free_entry) = 18" by (simp_all add: free_entry_def)
  have l: "length (kv_table ?kv) = ts div 48" "hash_slots ?kv = ts div 48" "kv_storage_size ?kv = ss"
    by (simp_all add: kv_init_ftl_def KV_MAPPING_ENTRY_SIZE_def Let_def)
  have o: "\<not> occupied (kv_table ?kv) s" for s using e [of s] l f by (auto simp: occupied_def)
  have "kpath (kv_table ?kv) s []" if "s < ts div 48" for s using e [OF that] that l f by (simp add: kpath_end_def)
  then have p: "\<exists>ps. kpath (kv_table ?kv) s ps" if "s < ts div 48" for s using that by blast
  have "0 < ts div 48" using assms(1) by (simp add: div_greater_zero_iff)
  then have ok: "kv_ok n ?kv" unfolding kv_ok_def Let_def l using assms l(3) e f o p by (simp add: l)
  have r: "kv_region n ?kv = (\<lambda>_. None)"
  proof
    fix k
    have "kv_slot n ?kv k = None" unfolding kv_slot_None [OF ok] using o by blast
    then show "kv_region n ?kv k = None" by (simp add: kv_region_def)
  qed
  have "kv_alloc ?kv = Append_Only (append_only_allocator_init ss)" by (simp add: kv_init_ftl_def alloc_init_def Let_def)
  then show "kv_inv n ?kv" unfolding kv_inv_def using ok r l by (simp add: kv_latest_def append_only_allocator_init_def)
  show "kv_val n ?kv m = (\<lambda>_. None)" by (simp add: kv_val_def r fun_eq_iff)
qed

text \<open>The map that a sequence of commands should produce, and the runs: the host changes its memory as it likes between commands.\<close>

definition kv_spec :: "nvme_command \<Rightarrow> nat list \<Rightarrow> (nat list \<Rightarrow> nat list option) \<Rightarrow> nat list \<Rightarrow> nat list option" where
  "kv_spec c v M = (if opcode c = nvme_cmd_kv_store then M(kv_bytes c \<mapsto> v)
     else if opcode c = nvme_cmd_kv_delete then M(kv_bytes c := None) else M)"

definition kv_admitted :: "nat \<Rightarrow> kv_ftl \<Rightarrow> sys_mem \<Rightarrow> nvme_command \<Rightarrow> nat list \<Rightarrow> bool" where
  "kv_admitted n kv m c ps \<longleftrightarrow> n \<le> 16 \<and> cmd_key_length c = n \<and>
     (if opcode c = nvme_cmd_kv_store then
        prps (\<lambda>_. True) (host m) c 0 (None, 0) (cmd_value_length c) = Some ps \<and> store_admitted n kv (kv_bytes c) (cmd_value_length c)
      else if opcode c = nvme_cmd_kv_retrieve then
        (case kv_region n kv (kv_bytes c) of None \<Rightarrow> True | Some (off, l) \<Rightarrow> transfer_ok_for c m (min l (cmd_value_length c)) ps)
      else opcode c = nvme_cmd_kv_exist \<or> opcode c = nvme_cmd_kv_delete \<and> delete_admitted n kv (kv_bytes c))"

inductive kv_run :: "nat \<Rightarrow> kv_ftl \<Rightarrow> sys_mem \<Rightarrow> (nat list \<Rightarrow> nat list option) \<Rightarrow> bool" for n where
  kv_start: "48 \<le> ts \<Longrightarrow> ts div 48 \<le> NO_SLOT \<Longrightarrow> ss \<le> NO_OFFSET \<Longrightarrow> n \<le> 16 \<Longrightarrow> kv_run n (kv_init_ftl False ts ss) m (\<lambda>_. None)"
| kv_host: "kv_run n kv m M \<Longrightarrow> kv_run n kv (m\<lparr>host := h\<rparr>) M"
| kv_command: "kv_run n kv m M \<Longrightarrow> kv_admitted n kv m c ps \<Longrightarrow> do_perform_kv_io c st kv m = Some (r, st', kv', m') \<Longrightarrow>
    kv_run n kv' m' (kv_spec c (host_value (host m) ps (cmd_value_length c)) M)"

lemma kv_val_host [simp]: "kv_val n kv (m\<lparr>host := h\<rparr>) = kv_val n kv m"
proof -
  have "region_value (m\<lparr>host := h\<rparr>) = region_value m" by (rule ext) (simp add: region_value_def)
  then show ?thesis by (intro ext) (simp only: kv_val_def)
qed

text \<open>One admitted command.\<close>

lemma kv_step_ok:
  assumes inv: "kv_inv n kv" and ad: "kv_admitted n kv m c ps"
  shows "\<exists>r st' kv' m'. do_perform_kv_io c st kv m = Some (r, st', kv', m') \<and> kv_inv n kv' \<and>
    kv_val n kv' m' = kv_spec c (host_value (host m) ps (cmd_value_length c)) (kv_val n kv m)"
proof -
  have n: "cmd_key_length c = n" "n \<le> 16" using ad by (simp_all add: kv_admitted_def)
  consider (store) "opcode c = nvme_cmd_kv_store"
    | (absent) "opcode c \<noteq> nvme_cmd_kv_store" "opcode c \<in> {nvme_cmd_kv_retrieve, nvme_cmd_kv_exist, nvme_cmd_kv_delete}" "kv_region n kv (kv_bytes c) = None"
    | (retrieve) "opcode c = nvme_cmd_kv_retrieve" "kv_region n kv (kv_bytes c) \<noteq> None"
    | (exist) "opcode c = nvme_cmd_kv_exist" "kv_region n kv (kv_bytes c) \<noteq> None"
    | (delete) "opcode c = nvme_cmd_kv_delete" "kv_region n kv (kv_bytes c) \<noteq> None"
  proof -
    have "opcode c \<in> {nvme_cmd_kv_store, nvme_cmd_kv_retrieve, nvme_cmd_kv_exist, nvme_cmd_kv_delete}"
      using ad unfolding kv_admitted_def by (auto split: if_splits)
    then show thesis using that by (cases "kv_region n kv (kv_bytes c) = None"; cases "opcode c = nvme_cmd_kv_store") blast+
  qed
  then show ?thesis
  proof cases
    case store
    then show ?thesis using kv_store_ok [OF inv store n, of m ps st] ad by (auto simp: kv_admitted_def kv_spec_def)
  next
    case absent
    then have "kv_val n kv m (kv_bytes c) = None" by (simp add: kv_val_def)
    then have "kv_spec c v (kv_val n kv m) = kv_val n kv m" for v using absent(1) by (auto simp: kv_spec_def fun_eq_iff)
    then show ?thesis using absent_ok [OF inv absent(2) n absent(3), of st m] inv by simp
  next
    case retrieve
    then obtain off l where r: "kv_region n kv (kv_bytes c) = Some (off, l)" by auto
    then have "transfer_ok_for c m (min l (cmd_value_length c)) ps" using ad retrieve(1) by (simp add: kv_admitted_def kv_opcodes)
    from retrieve_ok [OF inv retrieve(1) n r this, of st] show ?thesis using inv retrieve(1) by (auto simp: kv_spec_def kv_opcodes)
  next
    case exist
    then show ?thesis using exist_ok [OF inv exist(1) n exist(2), of st m] inv by (simp add: kv_spec_def kv_opcodes)
  next
    case delete
    then have "delete_admitted n kv (kv_bytes c)" using ad by (simp add: kv_admitted_def kv_opcodes)
    from remove_ok [OF inv delete(1) n delete(2) this, of st m] show ?thesis using delete(1) by (auto simp: kv_spec_def kv_opcodes)
  qed
qed

lemma kv_run_ok: "kv_run n kv m M \<Longrightarrow> kv_inv n kv \<and> kv_val n kv m = M"
proof (induction rule: kv_run.induct)
  case (kv_start ts ss m)
  then show ?case using init_kv_inv [of ts ss n] by simp
next
  case (kv_command kv m M c ps st r st' kv' m')
  then show ?case using kv_step_ok [of n kv m c ps st] by auto
qed simp

text \<open>A transfer within the first page.\<close>

lemma one_page:
  assumes "0 < len" "prp1 c mod PAGE_SIZE + len \<le> PAGE_SIZE"
  shows "prps pfn h c 0 (None, 0) len = Some [prp1 c]" "j < len \<Longrightarrow> byte_addr len [prp1 c] j = prp1 c + j"
    "inj_on (byte_addr len [prp1 c]) {..<len}"
proof -
  have s: "seg_len len (prp1 c) = len" using assms by (auto simp: seg_len_def Let_def)
  show "prps pfn h c 0 (None, 0) len = Some [prp1 c]" using assms(1) s by (simp add: prps_pos next_prp_def)
  show "j < len \<Longrightarrow> byte_addr len [prp1 c] j = prp1 c + j" using s by simp
  show "inj_on (byte_addr len [prp1 c]) {..<len}" using s by (auto simp: inj_on_def)
qed

end
