(* ===== verification/Kv_Scan.thy ===== *)
theory Kv_Scan
  imports Kv_Data
begin

text \<open>
  What the lookups and the iterators see: a deletion in the middle of a path cuts off the keys behind it, and a read of an iterator delivers the
  matching keys of an interval of slots.
\<close>

section \<open>A deletion in the middle of a path\<close>

lemma kpath_tail: "kpath t x (ps @ s # qs) \<Longrightarrow> kpath t s (s # qs)"
  by (induction ps arbitrary: x) auto

lemma kpath_distinct: "kpath t x ps \<Longrightarrow> length t \<le> NO_SLOT \<Longrightarrow> distinct ps"
proof (rule ccontr)
  assume p: "kpath t x ps" "length t \<le> NO_SLOT" and "\<not> distinct ps"
  then obtain as bs cs y where "ps = as @ [y] @ bs @ [y] @ cs" using not_distinct_decomp by blast
  then have "kpath t y (y # bs @ y # cs)" "kpath t y (y # cs)" using p(1) kpath_tail [of t x as y] kpath_tail [of t x "as @ y # bs" y cs] by simp_all
  then have "y # bs @ y # cs = y # cs" using kpath_unique p(2) by blast
  then show False by simp
qed

lemma kpath_cut:
  "kpath t x (ps @ s # qs) \<Longrightarrow> s \<notin> set ps \<Longrightarrow> mem_offset e = NO_OFFSET \<Longrightarrow> kpath (t[s := e]) x ps"
proof (induction ps arbitrary: x)
  case Nil
  then show ?case by (auto simp: kpath_end_def occupied_def)
next
  case (Cons p ps)
  then have p: "p = x" "occupied t x" "kpath t (next_slot (t ! x)) (ps @ s # qs)" "x \<noteq> s" by auto
  then have "kpath (t[s := e]) (next_slot (t ! x)) ps" using Cons by simp
  then show ?case using p by (simp add: occupied_def)
qed

text \<open>The keys behind the slot can no longer be found.\<close>

lemma delete_cuts:
  assumes ok: "kv_ok n kv" and c: "cmd_key_length c = n" "n \<le> 16" and s: "kv_slot n kv (kv_bytes c) = Some s"
    and p: "kpath (kv_table kv) (home kv k) (ps @ s # qs)" "s' \<in> set qs" "kv_slot n kv k = Some s'" and k: "length k = n"
  shows "\<exists>kv'. delete_mapping_entry c kv = Some kv' \<and> find_key kv' k n = Some None \<and>
    occupied (kv_table kv') s' \<and> take n (m_key (kv_table kv' ! s')) = k"
proof -
  let ?t = "kv_table kv" let ?t' = "?t[s := ones_entry]" let ?kv = "kv\<lparr>kv_table := ?t'\<rparr>"
  note D = kv_okD [OF ok]
  have l: "length ?t \<le> NO_SLOT" using D(2,4) by simp
  have ds: "distinct (ps @ s # qs)" by (rule kpath_distinct [OF p(1) l])
  have "find_key kv (kv_key c) n = Some (Some s)" using find_key_ok [OF ok, of "kv_key c"] c s by (simp add: kv_bytes_def)
  then have d: "delete_mapping_entry c kv = Some ?kv" using c(1) by (simp add: delete_mapping_entry_def modl_def)
  have cut: "kpath ?t' (home kv k) ps" by (rule kpath_cut [OF p(1)]) (use ds in \<open>simp_all add: ones_entry_def\<close>)
  have so: "occupied ?t s'" "take n (m_key (?t ! s')) = k" using p(3) kv_slot_Some [OF ok] by simp_all
  have ks: "n \<le> length (m_key (?t' ! x)) \<and> take n (m_key (?t' ! x)) \<noteq> k" if "x \<in> set ps" for x
  proof -
    have x: "x \<noteq> s" "x \<noteq> s'" "occupied ?t x" using that ds p(2) kpath_occupied [OF p(1), of x] by auto
    then have "take n (m_key (?t ! x)) \<noteq> k" using D(10) [OF x(3) so(1)] so(2) by auto
    then show ?thesis using x D(1,2,6) by (simp add: occupied_def)
  qed
  have "search ?t' k n (home kv k) = Some (List.find (\<lambda>p. take n k = take n (m_key (?t' ! p))) ps)"
    by (rule search_path [OF cut]) (use l ks home_less [OF ok, of k] D(2,4) in auto)
  also have "take n k \<noteq> take n (m_key (?t' ! x))" if "x \<in> set ps" for x using ks [OF that] k by (metis order_refl take_all)
  then have "List.find (\<lambda>p. take n k = take n (m_key (?t' ! p))) ps = None" unfolding find_None_iff by blast
  finally have "find_key ?kv k n = Some None" using hash_slot_ok [OF ok, of k] k by (simp add: find_key_def get_hash_slot_def home_def split: if_splits)
  moreover have "s' \<noteq> s" using p(2) ds by auto
  ultimately show ?thesis using d so by (intro exI [of _ ?kv]) (simp add: occupied_def)
qed

section \<open>Iterators\<close>

text \<open>A read delivers the matching keys of an interval of slots, to the end of the table or until 51 keys are found.\<close>

definition matching_keys :: "kv_ftl \<Rightarrow> kv_iter_context \<Rightarrow> nat \<Rightarrow> nat \<Rightarrow> nat list list" where
  "matching_keys kv c from to = map (\<lambda>s. take 16 (m_key (kv_table kv ! s))) (filter (\<lambda>s. iter_match c (kv_table kv ! s)) [from..<to])"

lemma matching_keys_step:
  "pos < to \<Longrightarrow> matching_keys kv c pos to =
    (if iter_match c (kv_table kv ! pos) then [take 16 (m_key (kv_table kv ! pos))] else []) @ matching_keys kv c (pos + 1) to"
  by (simp add: matching_keys_def upt_conv_Cons)

lemma iter_scan_ok:
  "length (kv_table kv) = hash_slots kv \<Longrightarrow> pos \<le> hash_slots kv \<Longrightarrow> length ks \<le> 51 \<Longrightarrow>
    \<exists>pos'. iter_scan kv c pos ks = Some (pos', ks @ matching_keys kv c pos pos', pos < hash_slots kv \<and> pos' = hash_slots kv) \<and>
      pos \<le> pos' \<and> pos' \<le> hash_slots kv \<and> length (ks @ matching_keys kv c pos pos') \<le> 51 \<and>
      (pos' = hash_slots kv \<or> length (ks @ matching_keys kv c pos pos') = 51)"
proof (induction kv c pos ks rule: iter_scan.induct)
  case (1 kv c pos ks)
  have room: "iter_room ks \<longleftrightarrow> length ks < 51" by (auto simp: iter_room_def)
  have nil: "matching_keys kv c p p = []" for p by (simp add: matching_keys_def)
  show ?case
  proof (cases "hash_slots kv \<le> pos \<or> iter_match c (kv_table kv ! pos) \<and> \<not> iter_room ks")
    case True
    then show ?thesis using "1.prems" room nil by (subst iter_scan.simps) (auto simp: arr_simps)
  next
    case False
    let ?ks = "if iter_match c (kv_table kv ! pos) then ks @ [take 16 (m_key (kv_table kv ! pos))] else ks"
    have p: "pos < hash_slots kv" "idx (kv_table kv) pos = Some (kv_table kv ! pos)" using False "1.prems"(1) by (auto simp: arr_simps)
    have k: "length ?ks \<le> 51" using False room "1.prems"(3) by auto
    have st: "ks @ matching_keys kv c pos q = ?ks @ matching_keys kv c (pos + 1) q" if "pos < q" for q
      using matching_keys_step [OF that, of kv c] by simp
    show ?thesis
    proof (cases "pos + 1 = hash_slots kv")
      case True
      then have "iter_scan kv c pos ks = Some (pos + 1, ?ks, True)" using False p by (subst iter_scan.simps) (auto simp: Let_def)
      then show ?thesis using st [of "pos + 1"] nil k p(1) True by (intro exI [of _ "pos + 1"]) simp
    next
      case ne: False
      then have E: "iter_scan kv c pos ks = iter_scan kv c (pos + 1) ?ks" using False p by (subst iter_scan.simps) (auto simp: Let_def)
      have "\<exists>pos'. iter_scan kv c (pos + 1) ?ks = Some (pos', ?ks @ matching_keys kv c (pos + 1) pos', pos + 1 < hash_slots kv \<and> pos' = hash_slots kv) \<and>
          pos + 1 \<le> pos' \<and> pos' \<le> hash_slots kv \<and> length (?ks @ matching_keys kv c (pos + 1) pos') \<le> 51 \<and>
          (pos' = hash_slots kv \<or> length (?ks @ matching_keys kv c (pos + 1) pos') = 51)"
        by (rule "1.IH" [of "kv_table kv ! pos"]) (use False ne p k "1.prems"(1) in auto)
      then obtain q where q: "iter_scan kv c (pos + 1) ?ks = Some (q, ?ks @ matching_keys kv c (pos + 1) q, pos + 1 < hash_slots kv \<and> q = hash_slots kv)"
          "pos + 1 \<le> q" "q \<le> hash_slots kv" "length (?ks @ matching_keys kv c (pos + 1) q) \<le> 51"
          "q = hash_slots kv \<or> length (?ks @ matching_keys kv c (pos + 1) q) = 51" by blast
      have b: "pos + 1 < hash_slots kv" "pos < q" using ne p(1) q(2) by simp_all
      note e = st [OF b(2), symmetric]
      have "iter_scan kv c pos ks = Some (q, ks @ matching_keys kv c pos q, pos < hash_slots kv \<and> q = hash_slots kv)"
        using E q(1) b(1) p(1) unfolding e by simp
      then show ?thesis using q(2-5) unfolding e by (intro exI [of _ q]) simp
    qed
  qed
qed

lemma length_iter_bytes: "(\<And>k. k \<in> set ks \<Longrightarrow> length k = 16) \<Longrightarrow> length (iter_bytes ks) = 4 + 20 * length ks"
proof -
  assume "\<And>k. k \<in> set ks \<Longrightarrow> length k = 16"
  then have "length (concat (map (\<lambda>k. bytes32 16 @ k) ks)) = 20 * length ks" by (induction ks) (simp_all add: bytes32_def)
  then show ?thesis by (simp add: iter_bytes_def bytes32_def)
qed

end
