(* ===== verification/Kv_Device.thy ===== *)
theory Kv_Device
  imports Kv_Scan
begin

text \<open>
  The key-value namespace keeps the contract of a namespace (\<open>io_namespace\<close>), and small tables for the examples: four slots, keys of one
  byte, and three keys whose home is the same slot.
\<close>

section \<open>The contract of a namespace\<close>

definition kv_sized :: "nvme_command \<Rightarrow> bool" where
  "kv_sized c \<longleftrightarrow> opcode c \<in> {nvme_cmd_kv_store, nvme_cmd_kv_retrieve, nvme_cmd_kv_batch} \<longrightarrow> 0 < cmd_value_length c"

interpretation kv_cmds: io_namespace kv_proc_nvme_io_cmd "\<lambda>_ ns. ns" "\<lambda>_ ns. simple_inv (kns ns)" "\<lambda>_. 0" kv_sized
proof
  fix n :: nat and ns :: kv_ns and cmd :: nvme_command and sqid t :: nat
  assume inv: "simple_inv (kns ns)" and good: "kv_sized cmd"
  let ?req = "\<lparr>rq_cmd = cmd, rq_sq_id = sqid, rq_nsecs_start = t\<rparr>" let ?ret = "\<lparr>rs_status = NVME_SC_SUCCESS, rs_nsecs_target = t\<rparr>"
  let ?s = "(kns ns)\<lparr>s_tick := s_tick (kns ns) + 1\<rparr>"
  have inv': "simple_inv ?s" using inv by (simp add: simple_inv_def)
  have sched: "\<exists>tt st. kv_schedule_io_units opc lba len now ?s = Some (tt, ?s\<lparr>io_unit_stat := st\<rparr>) \<and> length st = nr_io_units ?s"
    if "0 < len" for opc lba len now
    using schedule_io_units_ok [OF inv' that, of "kv_sched_op opc" lba now] by (auto simp: kv_schedule_io_units_def)
  have keep: "simple_inv (?s\<lparr>io_unit_stat := st, s_tick := k\<rparr>)" "simple_inv (?s\<lparr>io_unit_stat := st\<rparr>)" if "length st = nr_io_units ?s" for st k
    using inv' that by (simp_all add: simple_inv_def)
  have "\<exists>res ns'. kv_proc_nvme_io_cmd ns ?req ?ret = Some (True, res, [], ns') \<and> simple_inv (kns ns')"
  proof (cases "opcode cmd = nvme_cmd_write \<or> opcode cmd = nvme_cmd_read")
    case True
    obtain tt st where "kv_schedule_io_units (opcode cmd) (rw_slba cmd) (cmd_io_size (s_lba_bits (kns ns)) cmd) (s_clk (kns ns) (s_tick (kns ns))) ?s =
        Some (tt, ?s\<lparr>io_unit_stat := st\<rparr>)" "length st = nr_io_units ?s" using sched [OF cmd_size_pos] by blast
    then show ?thesis using True keep(2) by (simp add: kv_proc_nvme_io_cmd_def Let_def)
  next
    case rw: False
    show ?thesis
    proof (cases "opcode cmd \<in> {nvme_cmd_kv_store, nvme_cmd_kv_retrieve, nvme_cmd_kv_batch}")
      case True
      then have "0 < cmd_value_length cmd" using good by (simp add: kv_sized_def)
      then obtain tt st where "kv_schedule_io_units (opcode cmd) 0 (cmd_value_length cmd) (s_clk (kns ns) (s_tick (kns ns))) ?s =
          Some (tt, ?s\<lparr>io_unit_stat := st\<rparr>)" "length st = nr_io_units ?s" using sched by blast
      moreover have "opcode cmd \<noteq> nvme_cmd_flush" using True by (auto simp: io_opcodes kv_opcodes)
      ultimately show ?thesis using rw True keep(1) by (simp add: kv_proc_nvme_io_cmd_def Let_def)
    next
      case False
      then show ?thesis using rw inv schedule_flush_ok [OF inv] by (simp add: kv_proc_nvme_io_cmd_def Let_def)
    qed
  qed
  then show "\<exists>b res ops ns'. kv_proc_nvme_io_cmd ns ?req ?ret = Some (b, res, ops, ns') \<and> simple_inv (kns ns') \<and> length ops \<le> 0 \<and>
      (\<forall>p \<in> set ops. io_sqid p = sqid)" by force
qed simp_all

section \<open>Small tables\<close>

definition kx0 :: kv_ftl where "kx0 = kv_init_ftl False 192 8192"

definition kx_mem :: sys_mem where "kx_mem = \<lparr>host = (\<lambda>x. x mod 256), disk = (\<lambda>_. 0)\<rparr>"

definition kx_cmd :: "nat \<Rightarrow> nat \<Rightarrow> nvme_command" where
  "kx_cmd opc k = \<lparr>opcode = opc, cflags = 0, command_id = 0, nsid = 1, prp1 = 4096, prp2 = 0, cdw10 = 1, cdw11 = 0, cdw12 = k, cdw13 = 0,
     cdw14 = 0, cdw15 = 0\<rparr>"

lemma kx_cmd_simps [simp]: "opcode (kx_cmd opc k) = opc" "cmd_key_length (kx_cmd opc k) = 1" "cmd_value_length (kx_cmd opc k) = 4"
  "prp1 (kx_cmd opc k) = 4096"
  by (simp_all add: kx_cmd_def cmd_key_length_def key_len_def cmd_value_length_def)

lemma kx_bytes [simp]: "kv_bytes (kx_cmd opc k) = [k mod 256]"
  by (simp add: kv_bytes_def kv_key_def bytes32_def kx_cmd_def cmd_key_length_def key_len_def upt_rec [of 0 4])

lemma kx_prps: "prps (\<lambda>_. True) h (kx_cmd opc k) 0 (None, 0) 4 = Some [4096]"
  using one_page(1) [of 4 "kx_cmd opc k"] by (simp add: PAGE_SIZE_def)

lemma kx_value: "map (\<lambda>j. f (byte_addr 4 [4096] j)) [0..<4] = [f 4096, f 4097, f 4098, f 4099]"
proof -
  have b: "byte_addr 4 [4096] j = 4096 + j" if "j < 4" for j using one_page(2) [of 4 "kx_cmd 0 0" j] that by (simp add: PAGE_SIZE_def)
  have "[0..<4] = [0, 1, 2, 3::nat]" by (simp add: upt_rec)
  then show ?thesis using b [of 0] b [of 1] b [of 2] b [of 3] by simp
qed

lemma kx0_inv: "kv_inv 1 kx0" "kv_val 1 kx0 m = (\<lambda>_. None)"
  unfolding kx0_def by (rule init_kv_inv; simp add: NO_SLOT_def NO_OFFSET_def)+

lemma kx0_room: "store_admitted 1 kx0 k 4"
proof -
  have "kv_region 1 kx0 k = None" using kx0_inv(2) [of undefined] by (simp add: kv_val_def fun_eq_iff)
  moreover have "kv_table kx0 = replicate 4 free_entry" "hash_slots kx0 = 4" "kv_latest kx0 = 0" "kv_storage_size kx0 = 8192"
    by (simp_all add: kx0_def kv_init_ftl_def KV_MAPPING_ENTRY_SIZE_def Let_def kv_latest_def alloc_init_def append_only_allocator_init_def)
  ultimately show ?thesis by (auto simp: store_admitted_def free_entry_def intro!: exI [of _ 0])
qed

text \<open>The keys 0, 4 and 8 have the home 3; they were stored in this order.\<close>

definition kx_entry :: "nat \<Rightarrow> nat \<Rightarrow> nat \<Rightarrow> mapping_entry" where
  "kx_entry k off nxt = \<lparr>m_key = k # replicate 17 0, mem_offset = off, m_length = 4, next_slot = nxt\<rparr>"

definition kx3 :: kv_ftl where
  "kx3 = kx0\<lparr>kv_table := [kx_entry 4 4 1, kx_entry 8 8 NO_SLOT, free_entry, kx_entry 0 0 0]\<rparr>"

lemma kx_home: "hash_function [0] mod 4 = 3" "hash_function [4] mod 4 = 3" "hash_function [8] mod 4 = 3"
  by (simp_all add: hash_function_def u32_def)

lemma less4: "s < 4 \<longleftrightarrow> s = 0 \<or> s = 1 \<or> s = 2 \<or> s = (3::nat)"
  by auto

lemma kx3_simps [simp]: "kv_table kx3 = [kx_entry 4 4 1, kx_entry 8 8 NO_SLOT, free_entry, kx_entry 0 0 0]" "hash_slots kx3 = 4"
  "kv_storage_size kx3 = 8192"
  by (simp_all add: kx3_def kx0_def kv_init_ftl_def KV_MAPPING_ENTRY_SIZE_def Let_def)

lemma kx3_occupied: "occupied (kv_table kx3) s \<longleftrightarrow> s = 0 \<or> s = 1 \<or> s = 3"
  using less4 [of s] by (auto simp: occupied_def kx_entry_def free_entry_def NO_OFFSET_def)

lemma kx3_path: "kpath (kv_table kx3) 3 [3, 0, 1]" "kpath (kv_table kx3) 0 [0, 1]" "kpath (kv_table kx3) 1 [1]" "kpath (kv_table kx3) 2 []"
proof -
  have n: "next_slot (kv_table kx3 ! 3) = 0" "next_slot (kv_table kx3 ! 0) = 1" "next_slot (kv_table kx3 ! 1) = NO_SLOT"
    "mem_offset (kv_table kx3 ! 2) = NO_OFFSET" "length (kv_table kx3) = 4" by (simp_all add: kx_entry_def free_entry_def)
  show "kpath (kv_table kx3) 3 [3, 0, 1]" "kpath (kv_table kx3) 0 [0, 1]" "kpath (kv_table kx3) 1 [1]" "kpath (kv_table kx3) 2 []"
    unfolding kpath.simps kx3_occupied n by (simp_all add: kpath_end_def free_entry_def)
qed

lemma kx3_key: "take (Suc 0) (m_key (kx_entry k off nxt)) = [k]"
  by (simp add: kx_entry_def)

lemma kx3_ok: "kv_ok 1 kx3"
proof -
  have h: "home kx3 [0] = 3" "home kx3 [4] = 3" "home kx3 [8] = 3" using kx_home by (simp_all add: home_def)
  have P: "\<exists>ps. kpath (kv_table kx3) s ps" if "s < 4" for s using that kx3_path unfolding less4 by blast
  have R: "\<exists>ps. kpath (kv_table kx3) (home kx3 (take 1 (m_key (kv_table kx3 ! s)))) ps \<and> s \<in> set ps" if "occupied (kv_table kx3) s" for s
  proof -
    have "home kx3 (take 1 (m_key (kv_table kx3 ! s))) = 3 \<and> s \<in> set [3, 0, 1]" using that h unfolding kx3_occupied by (auto simp: kx3_key)
    then show ?thesis using kx3_path(1) by metis
  qed
  have U: "s = s'" if "occupied (kv_table kx3) s" "occupied (kv_table kx3) s'" "take 1 (m_key (kv_table kx3 ! s)) = take 1 (m_key (kv_table kx3 ! s'))" for s s'
    using that unfolding kx3_occupied by (auto simp: kx3_key)
  have K: "length (m_key (kv_table kx3 ! s)) = 18" if "s < 4" for s
    using that unfolding less4 by (auto simp: kx_entry_def free_entry_def)
  have F: "next_slot (kv_table kx3 ! s) = NO_SLOT" if "s < 4" "mem_offset (kv_table kx3 ! s) = NO_OFFSET" for s
    using that unfolding less4 by (auto simp: kx_entry_def free_entry_def NO_OFFSET_def)
  show ?thesis unfolding kv_ok_def Let_def kx3_simps(2,3)
    using P R U K F by (auto simp: NO_SLOT_def NO_OFFSET_def simp del: kx3_simps(1)) simp
qed

end
