(* ===== verification/Kv_Properties.thy ===== *)
theory Kv_Properties
  imports Kv_Device
begin

text \<open>The properties of the key-value namespace.\<close>

text \<open>C29: For keys of one length, the key-value namespace implements a map from keys to values: after every sequence of admitted stores,
  retrieves, existence checks and deletions from the initial state, with the host changing its memory between them, the table and the storage
  stand for exactly the map that the same sequence of updates and removals gives, whatever keys collide in the table; and every admitted
  command returns.\<close>

theorem kv_run_refines:
  assumes "kv_run n kv m M"
  shows "kv_inv n kv \<and> kv_val n kv m = M \<and> (\<forall>c ps st. kv_admitted n kv m c ps \<longrightarrow> (\<exists>r. do_perform_kv_io c st kv m = Some r))"
proof -
  have i: "kv_inv n kv" "kv_val n kv m = M" using kv_run_ok [OF assms] by simp_all
  have "\<exists>r. do_perform_kv_io c st kv m = Some r" if "kv_admitted n kv m c ps" for c ps st
    using kv_step_ok [OF i(1) that, of st] by blast
  then show ?thesis using i by blast
qed

lemma kx_run: "\<exists>kv m. kv_run 1 kv m [[4] \<mapsto> [0, 1, 2, 3]]"
proof -
  let ?c = "kx_cmd nvme_cmd_kv_store 4"
  have s: "kv_run 1 kx0 kx_mem (\<lambda>_. None)" unfolding kx0_def by (rule kv_start) (simp_all add: NO_SLOT_def NO_OFFSET_def)
  have a: "kv_admitted 1 kx0 kx_mem ?c [4096]" using kx_prps kx0_room by (simp add: kv_admitted_def)
  obtain r st' kv' m' where "do_perform_kv_io ?c 0 kx0 kx_mem = Some (r, st', kv', m')" using kv_step_ok [OF kx0_inv(1) a, of 0] by blast
  from kv_command [OF s a this] have "kv_run 1 kv' m' (kv_spec ?c (host_value (host kx_mem) [4096] 4) (\<lambda>_. None))" by simp
  moreover have "host_value (host kx_mem) [4096] 4 = [0, 1, 2, 3]"
    unfolding host_value_def kx_value by (simp add: kx_mem_def)
  ultimately show ?thesis by (auto simp: kv_spec_def)
qed

theorem kv_run_refines_witness: "\<exists>kv m. kv_inv 1 kv \<and> kv_val 1 kv m [4] = Some [0, 1, 2, 3] \<and> kv_val 1 kv m [0] = None"
proof -
  obtain kv m where "kv_run 1 kv m [[4] \<mapsto> [0, 1, 2, 3]]" using kx_run by blast
  from kv_run_refines [OF this] show ?thesis by (intro exI [of _ kv] exI [of _ m]) simp
qed

text \<open>A store whose value lies in pages that the host names, of a new key for which there is a free slot and room, or of a key that is
  there and whose value keeps its length or becomes shorter (and was at most 1024 bytes long), succeeds: the key has exactly the bytes of the
  host, all other keys have the values they had, and the memory of the host is unchanged.\<close>

theorem kv_store_effect:
  assumes "kv_inv n kv" "opcode c = nvme_cmd_kv_store" "cmd_key_length c = n" "n \<le> 16"
    and "prps (\<lambda>_. True) (host m) c 0 (None, 0) (cmd_value_length c) = Some ps" and "store_admitted n kv (kv_bytes c) (cmd_value_length c)"
  shows "\<exists>kv' m'. kv_perform_nvme_io_cmd c st kv m = Some (0, st, kv', m') \<and> kv_inv n kv' \<and> host m' = host m \<and>
    kv_val n kv' m' = (kv_val n kv m)(kv_bytes c \<mapsto> map (\<lambda>j. host m (byte_addr (cmd_value_length c) ps j)) [0..<cmd_value_length c])"
  using kv_store_ok [OF assms, of st] assms(2) by (simp add: kv_perform_nvme_io_cmd_def host_value_def kv_opcodes)

theorem kv_store_effect_witness:
  "\<exists>kv' m'. kv_perform_nvme_io_cmd (kx_cmd nvme_cmd_kv_store 4) 0 kx0 kx_mem = Some (0, 0, kv', m') \<and> kv_val 1 kv' m' [4] = Some [0, 1, 2, 3]"
proof -
  let ?c = "kx_cmd nvme_cmd_kv_store 4"
  have v: "map (\<lambda>j. host kx_mem (byte_addr 4 [4096] j)) [0..<4] = [0, 1, 2, 3]"
    unfolding kx_value by (simp add: kx_mem_def)
  have "\<exists>kv' m'. kv_perform_nvme_io_cmd ?c 0 kx0 kx_mem = Some (0, 0, kv', m') \<and> kv_inv 1 kv' \<and> host m' = host kx_mem \<and>
      kv_val 1 kv' m' = (kv_val 1 kx0 kx_mem)(kv_bytes ?c \<mapsto> map (\<lambda>j. host kx_mem (byte_addr (cmd_value_length ?c) [4096] j)) [0..<cmd_value_length ?c])"
    by (rule kv_store_effect [OF kx0_inv(1)]) (use kx_prps kx0_room in simp_all)
  then obtain kv' m' where r: "kv_perform_nvme_io_cmd ?c 0 kx0 kx_mem = Some (0, 0, kv', m')"
    "kv_val 1 kv' m' = (kv_val 1 kx0 kx_mem)(kv_bytes ?c \<mapsto> map (\<lambda>j. host kx_mem (byte_addr (cmd_value_length ?c) [4096] j)) [0..<cmd_value_length ?c])"
    by blast
  then have "kv_val 1 kv' m' [4] = Some [0, 1, 2, 3]" using v by simp
  then show ?thesis using r(1) by blast
qed

text \<open>C30: A retrieve of a key that has a value delivers it to the host, cut off at the length of the command, returns the number of bytes and changes
  neither the table nor the storage; a retrieve of any other key reports that the key does not exist and changes nothing.\<close>

theorem kv_retrieve_effect:
  assumes "kv_inv n kv" "opcode c = nvme_cmd_kv_retrieve" "cmd_key_length c = n" "n \<le> 16"
    and "\<And>v. kv_val n kv m (kv_bytes c) = Some v \<Longrightarrow> transfer_ok_for c m (min (length v) (cmd_value_length c)) ps"
  shows "case kv_val n kv m (kv_bytes c) of
      None \<Rightarrow> kv_perform_nvme_io_cmd c st kv m = Some (0, KV_ERR_KEY_NOT_EXIST, kv, m)
    | Some v \<Rightarrow> \<exists>h. kv_perform_nvme_io_cmd c st kv m = Some (min (length v) (cmd_value_length c), st, kv, m\<lparr>host := h\<rparr>) \<and>
        map (\<lambda>j. h (byte_addr (min (length v) (cmd_value_length c)) ps j)) [0..<min (length v) (cmd_value_length c)] = take (cmd_value_length c) v"
proof -
  have d: "kv_perform_nvme_io_cmd c st kv m = do_perform_kv_io c st kv m" using assms(2) by (simp add: kv_perform_nvme_io_cmd_def kv_opcodes)
  show ?thesis
  proof (cases "kv_region n kv (kv_bytes c)")
    case None
    then show ?thesis using absent_ok [OF assms(1) _ assms(3,4), of st m] assms(2) d by (simp add: kv_val_def)
  next
    case (Some r)
    obtain off l where r: "r = (off, l)" by (cases r)
    have v: "kv_val n kv m (kv_bytes c) = Some (region_value m (off, l))" "length (region_value m (off, l)) = l"
      using Some r by (simp_all add: kv_val_def region_value_def)
    have "transfer_ok_for c m (min l (cmd_value_length c)) ps" using assms(5) [OF v(1)] v(2) by simp
    from retrieve_ok [OF assms(1-4) Some [unfolded r] this, of st] show ?thesis using v d by (simp add: host_value_def)
  qed
qed

theorem kv_retrieve_effect_witness:
  "\<exists>kv m h. kv_val 1 kv m [4] = Some [0, 1, 2, 3] \<and>
    kv_perform_nvme_io_cmd (kx_cmd nvme_cmd_kv_retrieve 4) 0 kv m = Some (4, 0, kv, m\<lparr>host := h\<rparr>) \<and> h 4098 = 2"
proof -
  let ?c = "kx_cmd nvme_cmd_kv_retrieve 4"
  obtain kv m where r: "kv_run 1 kv m [[4] \<mapsto> [0, 1, 2, 3]]" using kx_run by blast
  then have i: "kv_inv 1 kv" "kv_val 1 kv m = [[4] \<mapsto> [0, 1, 2, 3]]" using kv_run_ok by blast+
  have t: "transfer_ok_for ?c m (min (length v) (cmd_value_length ?c)) [4096]" if "kv_val 1 kv m (kv_bytes ?c) = Some v" for v
  proof -
    have "length v = 4" using that i(2) by auto
    then show ?thesis using kx_prps one_page(3) [of 4 ?c] by (simp add: transfer_ok_for_def PAGE_SIZE_def)
  qed
  have "\<exists>h. kv_perform_nvme_io_cmd ?c 0 kv m = Some (4, 0, kv, m\<lparr>host := h\<rparr>) \<and> map (\<lambda>j. h (byte_addr 4 [4096] j)) [0..<4] = [0, 1, 2, 3]"
  proof -
    have v: "kv_val 1 kv m (kv_bytes ?c) = Some [0, 1, 2, 3]" "min (length [0, 1, 2, 3 :: nat]) (cmd_value_length ?c) = 4" using i(2) by simp_all
    have "case kv_val 1 kv m (kv_bytes ?c) of
        None \<Rightarrow> kv_perform_nvme_io_cmd ?c 0 kv m = Some (0, KV_ERR_KEY_NOT_EXIST, kv, m)
      | Some v \<Rightarrow> \<exists>h. kv_perform_nvme_io_cmd ?c 0 kv m = Some (min (length v) (cmd_value_length ?c), 0, kv, m\<lparr>host := h\<rparr>) \<and>
          map (\<lambda>j. h (byte_addr (min (length v) (cmd_value_length ?c)) [4096] j)) [0..<min (length v) (cmd_value_length ?c)] = take (cmd_value_length ?c) v"
      by (rule kv_retrieve_effect [OF i(1) _ _ _ t]) simp_all
    then show ?thesis unfolding v(1) option.case v(2) by (simp del: byte_addr.simps)
  qed
  then obtain h where h: "kv_perform_nvme_io_cmd ?c 0 kv m = Some (4, 0, kv, m\<lparr>host := h\<rparr>)" "map (\<lambda>j. h (byte_addr 4 [4096] j)) [0..<4] = [0, 1, 2, 3]" by (elim exE conjE) (rule that)
  have "h 4098 = 2" using h(2) unfolding kx_value by simp
  then show ?thesis using i(2) h(1) by (intro exI [of _ kv] exI [of _ m] exI [of _ h]) simp
qed

text \<open>C31: Deleting a key whose slot has successors on a path loses keys: the entry is set to free together with its link, so every key that is reached
  through the slot is reported as not existing although its entry is still in the table.\<close>

theorem kv_delete_cuts_chain:
  assumes "kv_ok n kv" "cmd_key_length c = n" "n \<le> 16" "kv_slot n kv (kv_bytes c) = Some s"
    and "kpath (kv_table kv) (hash_function k mod hash_slots kv) (ps @ s # qs)" "s' \<in> set qs" "kv_slot n kv k = Some s'" "length k = n"
  shows "\<exists>kv'. delete_mapping_entry c kv = Some kv' \<and> find_key kv' k n = Some None \<and>
    mem_offset (kv_table kv' ! s') \<noteq> NO_OFFSET \<and> take n (m_key (kv_table kv' ! s')) = k"
  using delete_cuts [OF assms(1-4) assms(5) [folded home_def] assms(6-8)] by (auto simp: occupied_def)

theorem kv_delete_cuts_chain_witness:
  "\<exists>kv'. delete_mapping_entry (kx_cmd nvme_cmd_kv_delete 4) kx3 = Some kv' \<and> find_key kv' [8] 1 = Some None \<and> m_key (kv_table kv' ! 1) ! 0 = 8"
proof -
  have s: "kv_slot 1 kx3 [4] = Some 0" "kv_slot 1 kx3 [8] = Some 1"
    unfolding kv_slot_Some [OF kx3_ok] kx3_occupied by (simp_all add: kx3_key)
  have p: "kpath (kv_table kx3) (hash_function [8] mod hash_slots kx3) ([3] @ 0 # [1])" using kx3_path(1) kx_home by (simp only: kx3_simps append.simps)
  have "\<exists>kv'. delete_mapping_entry (kx_cmd nvme_cmd_kv_delete 4) kx3 = Some kv' \<and> find_key kv' [8] 1 = Some None \<and>
      mem_offset (kv_table kv' ! 1) \<noteq> NO_OFFSET \<and> take 1 (m_key (kv_table kv' ! 1)) = [8]"
    by (rule kv_delete_cuts_chain [OF kx3_ok _ _ _ p _ s(2)]) (use s(1) in simp_all)
  moreover have "x ! 0 = a" if "take 1 x = [a]" for x :: "nat list" and a using that by (cases x) simp_all
  ultimately show ?thesis by blast
qed

text \<open>C32: A read of an open iterator delivers to the host, in table order, the matching keys of the slots from the position of the iterator to the new
  position, each with its length before it and their number in front, and moves the position there. It stops at the end of the table, which
  it reports, or at the 51st key, the most that the buffer holds; so successive reads pass every slot once.\<close>

theorem kv_iter_read_effect:
  assumes "kv_ok n kv" "idx (kv_iters kv) (iter_handle_of c) = Some (Iter ctx)" "it_pos ctx \<le> hash_slots kv" "prp1 c mod PAGE_SIZE + 1024 \<le> PAGE_SIZE"
  shows "\<exists>pos h. kv_iter_read c st kv m = Some (4 + 20 * length (matching_keys kv ctx (it_pos ctx) pos),
        if it_pos ctx < hash_slots kv \<and> pos = hash_slots kv then 0x393 else 0,
        kv\<lparr>kv_iters := (kv_iters kv)[iter_handle_of c := Iter (ctx\<lparr>it_pos := pos\<rparr>)]\<rparr>, m\<lparr>host := h\<rparr>) \<and>
      it_pos ctx \<le> pos \<and> pos \<le> hash_slots kv \<and> (pos = hash_slots kv \<or> length (matching_keys kv ctx (it_pos ctx) pos) = 51) \<and>
      map (\<lambda>j. h (prp1 c + j)) [0..<4 + 20 * length (matching_keys kv ctx (it_pos ctx) pos)] = iter_bytes (matching_keys kv ctx (it_pos ctx) pos)"
proof -
  note D = kv_okD [OF assms(1)]
  obtain pos where s: "iter_scan kv ctx (it_pos ctx) [] =
      Some (pos, matching_keys kv ctx (it_pos ctx) pos, it_pos ctx < hash_slots kv \<and> pos = hash_slots kv)"
    "it_pos ctx \<le> pos" "pos \<le> hash_slots kv" "length (matching_keys kv ctx (it_pos ctx) pos) \<le> 51"
    "pos = hash_slots kv \<or> length (matching_keys kv ctx (it_pos ctx) pos) = 51"
    using iter_scan_ok [OF D(2) assms(3), of "[]" ctx] by auto
  let ?ks = "matching_keys kv ctx (it_pos ctx) pos" let ?b = "iter_bytes ?ks"
  have "length k = 16" if "k \<in> set ?ks" for k using that s(3) D(6) by (auto simp: matching_keys_def)
  then have l: "length ?b = 4 + 20 * length ?ks" by (rule length_iter_bytes)
  then have f: "0 < length ?b" "prp1 c mod PAGE_SIZE + length ?b \<le> PAGE_SIZE" using s(4) assms(4) by simp_all
  obtain h where h: "prp_transfer_out ?b c (length ?b) m = Some (m\<lparr>host := h\<rparr>)" "\<forall>j < length ?b. h (byte_addr (length ?b) [prp1 c] j) = ?b ! j"
    using transfer_ok [OF one_page(1) [OF f] order_refl one_page(3) [OF f], of m] by auto
  have "map (\<lambda>j. h (prp1 c + j)) [0..<length ?b] = ?b" by (rule nth_equalityI) (use h(2) one_page(2) [OF f] in auto)
  moreover have "kv_iter_read c st kv m = Some (length ?b, if it_pos ctx < hash_slots kv \<and> pos = hash_slots kv then 0x393 else 0,
      kv\<lparr>kv_iters := (kv_iters kv)[iter_handle_of c := Iter (ctx\<lparr>it_pos := pos\<rparr>)]\<rparr>, m\<lparr>host := h\<rparr>)"
    using assms(2) s(1) h(1) by (simp add: kv_iter_read_def handle_at_def Let_def)
  ultimately show ?thesis using s(2,3,5) unfolding l by blast
qed

theorem kv_iter_read_effect_witness:
  "\<exists>st kv' m'. kv_iter_read ((kx_cmd nvme_cmd_kv_iter_read 0)\<lparr>cdw11 := 1\<rparr>) 0
      (kx3\<lparr>kv_iters := [Null, Iter \<lparr>it_prefix = 8, it_bitmask = 255, it_pos = 0\<rparr>]\<rparr>) kx_mem = Some (24, st, kv', m')"
proof -
  let ?ctx = "\<lparr>it_prefix = 8, it_bitmask = 255, it_pos = 0\<rparr>" let ?kv = "kx3\<lparr>kv_iters := [Null, Iter ?ctx]\<rparr>"
  let ?c = "(kx_cmd nvme_cmd_kv_iter_read 0)\<lparr>cdw11 := 1\<rparr>"
  have ok: "kv_ok 1 ?kv" using kx3_ok by (simp add: kv_ok_cong)
  have h: "iter_handle_of ?c = 1" by (simp add: iter_handle_of_def)
  obtain pos h' where r: "kv_iter_read ?c 0 ?kv kx_mem = Some (4 + 20 * length (matching_keys ?kv ?ctx (it_pos ?ctx) pos),
        if it_pos ?ctx < hash_slots ?kv \<and> pos = hash_slots ?kv then 0x393 else 0,
        ?kv\<lparr>kv_iters := (kv_iters ?kv)[iter_handle_of ?c := Iter (?ctx\<lparr>it_pos := pos\<rparr>)]\<rparr>, kx_mem\<lparr>host := h'\<rparr>)"
    "pos = hash_slots ?kv \<or> length (matching_keys ?kv ?ctx (it_pos ?ctx) pos) = 51" "pos \<le> hash_slots ?kv"
    using kv_iter_read_effect [OF ok, of ?c ?ctx 0 kx_mem] h by (auto simp: arr_simps PAGE_SIZE_def)
  have m: "length (matching_keys ?kv ?ctx 0 4) = 1"
    by (simp add: matching_keys_def upt_rec [of _ 4] iter_match_def kx_entry_def free_entry_def key_word_def NO_OFFSET_def nth_Cons')
  have "pos = 4"
  proof (rule ccontr)
    assume "pos \<noteq> 4"
    then have "length (matching_keys ?kv ?ctx 0 pos) = 51" using r(2) by simp
    moreover have "length (matching_keys ?kv ?ctx 0 pos) \<le> length [0..<pos]" unfolding matching_keys_def length_map by (rule length_filter_le)
    ultimately show False using r(3) by simp
  qed
  then show ?thesis using r(1) m by simp
qed

end
