(* ===== verification/Admin.thy ===== *)
theory Admin
  imports Io_Dispatch Zns_Mgmt Kv_Io
begin

text \<open>
  The controller around the I/O queues: the admin queue (\<open>admin.c\<close>) with the creation and deletion of I/O queues, the log pages, the
  identify data and the features.

  The admin queues are pages of the memory of the host, so a submission entry is parsed from its 64 bytes when it is read, and a completion
  entry is written as 16 bytes. The entries of a new I/O queue are those that lie in its pages. \<open>kzalloc\<close> succeeds. What \<open>admin.c\<close> reads of
  a namespace is the function \<open>info\<close>; the macros of the build are a record.
\<close>

section \<open>Controller\<close>

definition NR_MAX_IO_QUEUE :: nat where "NR_MAX_IO_QUEUE = 72"

text \<open>A mapped queue is its address and the number of its pages.\<close>

record admin_queue =
  aq_phase :: nat
  aq_sq_depth :: nat
  aq_cq_depth :: nat
  aq_cq_head :: nat
  aq_sq :: "(nat \<times> nat) option"
  aq_cq :: "(nat \<times> nat) option"

record ctrl_regs =
  r_aqa :: nat
  r_asq :: nat
  r_acq :: nat
  r_cc :: nat
  r_csts :: nat

datatype irq = Msi nat | Intx

text \<open>\<open>irqs\<close> are the interrupts that were raised; \<open>pci_cfg\<close> are the bytes of the PCI configuration space (\<open>virtDev\<close>).\<close>

record 'ns ctrl =
  cdev :: "('ns, sys_mem) nvmev_dev"
  admin_q :: "admin_queue option"
  dbs :: "nat list"
  old_dbs :: "nat list"
  bar :: ctrl_regs
  old_bar :: ctrl_regs
  nr_sq :: nat
  nr_cq :: nat
  msix_enabled :: bool
  intx_disabled :: bool
  pci_cfg :: "nat list"
  irqs :: "irq list"

record ns_info =
  ni_csi :: nat
  ni_size :: nat
  ni_zns :: znsparams

record build =
  b_lba_bits :: nat
  b_ssd_types :: "nat list"
  b_mdts :: nat
  b_zns :: bool

definition SSD_TYPE_ZNS :: nat where "SSD_TYPE_ZNS = 2"

section \<open>Memory\<close>

definition le_at :: "nat \<Rightarrow> (nat \<Rightarrow> nat) \<Rightarrow> nat \<Rightarrow> nat" where
  "le_at n h a = foldr (\<lambda>k v. h (a + k) + 256 * v) [0..<n] 0"

definition host_put :: "nat \<Rightarrow> nat list \<Rightarrow> 'ns ctrl \<Rightarrow> 'ns ctrl" where
  "host_put a bs c = c\<lparr>cdev := (cdev c)\<lparr>dmem := (dmem (cdev c))\<lparr>host := write_bytes_at a bs (host (dmem (cdev c)))\<rparr>\<rparr>\<rparr>"

definition parse_cmd :: "(nat \<Rightarrow> nat) \<Rightarrow> nat \<Rightarrow> nvme_command" where
  "parse_cmd h a = \<lparr>opcode = le_at 1 h a, cflags = le_at 1 h (a + 1), command_id = le_at 2 h (a + 2), nsid = le_at 4 h (a + 4),
     prp1 = le_at 8 h (a + 24), prp2 = le_at 8 h (a + 32), cdw10 = le_at 4 h (a + 40), cdw11 = le_at 4 h (a + 44), cdw12 = le_at 4 h (a + 48),
     cdw13 = le_at 4 h (a + 52), cdw14 = le_at 4 h (a + 56), cdw15 = le_at 4 h (a + 60)\<rparr>"

definition cqe_bytes :: "nvme_completion \<Rightarrow> nat list" where
  "cqe_bytes e = le_bytes 4 (ce_result0 e) @ le_bytes 4 (ce_result1 e) @ le_bytes 2 (ce_sq_head e) @ le_bytes 2 (ce_sq_id e) @
     le_bytes 2 (ce_command_id e) @ le_bytes 2 (ce_status e)"

definition parse_cqe :: "(nat \<Rightarrow> nat) \<Rightarrow> nat \<Rightarrow> nvme_completion" where
  "parse_cqe h a = \<lparr>ce_result0 = le_at 4 h a, ce_result1 = le_at 4 h (a + 4), ce_sq_head = le_at 2 h (a + 8), ce_sq_id = le_at 2 h (a + 10),
     ce_command_id = le_at 2 h (a + 12), ce_status = le_at 2 h (a + 14)\<rparr>"

text \<open>A structure that is cleared and then filled: the offsets of its fields and their bytes.\<close>

definition struct_bytes :: "nat \<Rightarrow> (nat \<times> nat list) list \<Rightarrow> nat list" where
  "struct_bytes n fs = fold (\<lambda>(off, bs) pg. take off pg @ bs @ drop (off + length bs) pg) fs (replicate n 0)"

section \<open>Entries of the admin queue\<close>

definition admin_sqe :: "'ns ctrl \<Rightarrow> nat \<Rightarrow> nvme_command option" where
  "admin_sqe c eid = do {
     q \<leftarrow> admin_q c;
     (a, pages) \<leftarrow> aq_sq q;
     NVMEV_ASSERT (eid div 64 < pages);
     Some (parse_cmd (host (dmem (cdev c))) (a + 64 * eid)) }"

definition make_cq_entry_results :: "nat \<Rightarrow> nat \<Rightarrow> nat \<Rightarrow> nat \<Rightarrow> 'ns ctrl \<Rightarrow> 'ns ctrl option" where
  "make_cq_entry_results eid ret result0 result1 c = do {
     cmd \<leftarrow> admin_sqe c eid;
     q \<leftarrow> admin_q c;
     (a, pages) \<leftarrow> aq_cq q;
     NVMEV_ASSERT (aq_cq_head q div 256 < pages);
     let c = host_put (a + 16 * aq_cq_head q) (cqe_bytes \<lparr>ce_result0 = result0, ce_result1 = result1, ce_sq_head = u16 eid, ce_sq_id = 0,
               ce_command_id = command_id cmd, ce_status = u16 (or (aq_phase q) (2 * ret))\<rparr>) c;
         wrap = Suc (aq_cq_head q) = aq_cq_depth q
     in Some (c\<lparr>admin_q := Some (q\<lparr>aq_cq_head := (if wrap then 0 else Suc (aq_cq_head q)),
                                  aq_phase := (if wrap then (if aq_phase q = 0 then 1 else 0) else aq_phase q)\<rparr>)\<rparr>) }"

definition make_cq_entry :: "nat \<Rightarrow> nat \<Rightarrow> 'ns ctrl \<Rightarrow> 'ns ctrl option" where
  "make_cq_entry eid ret = make_cq_entry_results eid ret 0 0"

section \<open>I/O queues\<close>

definition upd_db :: "nat \<Rightarrow> nat \<Rightarrow> 'ns ctrl \<Rightarrow> 'ns ctrl option" where
  "upd_db i v c = do {
     NVMEV_ASSERT (i < length (dbs c) \<and> i < length (old_dbs c));
     Some (c\<lparr>dbs := (dbs c)[i := v], old_dbs := (old_dbs c)[i := v]\<rparr>) }"

definition set_cq :: "nat \<Rightarrow> completion_queue option \<Rightarrow> 'ns ctrl \<Rightarrow> 'ns ctrl option" where
  "set_cq i q c = do {
     NVMEV_ASSERT (i < length (cqes (cdev c)));
     Some (c\<lparr>cdev := (cdev c)\<lparr>cqes := (cqes (cdev c))[i := q]\<rparr>\<rparr>) }"

definition set_sq :: "nat \<Rightarrow> submission_queue option \<Rightarrow> 'ns ctrl \<Rightarrow> 'ns ctrl option" where
  "set_sq i q c = do {
     NVMEV_ASSERT (i < length (sqes (cdev c)));
     Some (c\<lparr>cdev := (cdev c)\<lparr>sqes := (sqes (cdev c))[i := q]\<rparr>\<rparr>) }"

text \<open>\<open>irq_vector\<close> is zero in the new structure when interrupts are not enabled.\<close>

definition new_cq :: "(nat \<Rightarrow> nat) \<Rightarrow> nvme_command \<Rightarrow> completion_queue" where
  "new_cq h cmd = (let irq = odd (lo16 (cdw11 cmd) div 2); qsize = hi16 (cdw10 cmd) + 1; num_pages = DIV_ROUND_UP (qsize * 16) PAGE_SIZE
     in \<lparr>cq_qid = lo16 (cdw10 cmd), cq_irq_vector = (if irq then hi16 (cdw11 cmd) else 0), cq_irq_enabled = irq, cq_interrupt_ready = False,
         cq_size = qsize, cq_phase = 1, cq_head = 0, cq_tail = -1,
         cq_entries = map (\<lambda>k. parse_cqe h (prp1 cmd + 16 * k)) [0..<256 * num_pages], cq_base = prp1 cmd\<rparr>)"

definition admin_create_cq :: "nat \<Rightarrow> 'ns ctrl \<Rightarrow> 'ns ctrl option" where
  "admin_create_cq eid c = do {
     cmd \<leftarrow> admin_sqe c eid;
     let cq = new_cq (host (dmem (cdev c))) cmd
     in do {
       c \<leftarrow> set_cq (cq_qid cq) (Some cq) c;
       c \<leftarrow> upd_db (cq_qid cq * 2 + 1) 0 c;
       make_cq_entry eid NVME_SC_SUCCESS c } }"

definition admin_delete_cq :: "nat \<Rightarrow> 'ns ctrl \<Rightarrow> 'ns ctrl option" where
  "admin_delete_cq eid c = do {
     cmd \<leftarrow> admin_sqe c eid;
     c \<leftarrow> set_cq (lo16 (cdw10 cmd)) None c;
     make_cq_entry eid NVME_SC_SUCCESS c }"

definition zero_stat :: nvmev_sq_stat where
  "zero_stat = \<lparr>nr_dispatched = 0, nr_dispatch = 0, nr_in_flight = 0, max_nr_in_flight = 0, total_io = 0\<rparr>"

definition new_sq :: "(nat \<Rightarrow> nat) \<Rightarrow> nvme_command \<Rightarrow> submission_queue" where
  "new_sq h cmd = (let qsize = hi16 (cdw10 cmd) + 1; num_pages = DIV_ROUND_UP (qsize * 64) PAGE_SIZE
     in \<lparr>sq_qid = lo16 (cdw10 cmd), sq_cqid = hi16 (cdw11 cmd), sq_size = qsize, sq_st = zero_stat,
         sq_entries = map (\<lambda>k. parse_cmd h (prp1 cmd + 64 * k)) [0..<64 * num_pages], sq_base = prp1 cmd\<rparr>)"

definition admin_create_sq :: "nat \<Rightarrow> 'ns ctrl \<Rightarrow> 'ns ctrl option" where
  "admin_create_sq eid c = do {
     cmd \<leftarrow> admin_sqe c eid;
     let sq = new_sq (host (dmem (cdev c))) cmd
     in do {
       c \<leftarrow> set_sq (sq_qid sq) (Some sq) c;
       c \<leftarrow> upd_db (sq_qid sq * 2) 0 c;
       make_cq_entry eid NVME_SC_SUCCESS c } }"

definition admin_delete_sq :: "nat \<Rightarrow> 'ns ctrl \<Rightarrow> 'ns ctrl option" where
  "admin_delete_sq eid c = do {
     cmd \<leftarrow> admin_sqe c eid;
     c \<leftarrow> set_sq (lo16 (cdw10 cmd)) None c;
     make_cq_entry eid NVME_SC_SUCCESS c }"

section \<open>Log pages\<close>

definition NVME_LOG_SMART :: nat where "NVME_LOG_SMART = 2"
definition NVME_LOG_CMD_EFFECTS :: nat where "NVME_LOG_CMD_EFFECTS = 5"

definition smart_log :: "nat list" where "smart_log = struct_bytes 512 [(4, [20])]"

definition effects_log :: "bool \<Rightarrow> nat list" where
  "effects_log zns = struct_bytes 4096 (map (\<lambda>op. (4 * op, le_bytes 4 1)) [0x02, 0x06, 0x09, 0x0a, 0x0c] @
     (if zns then [(1024 + 4 * nvme_cmd_zone_append, le_bytes 4 1), (1024 + 4 * nvme_cmd_zone_mgmt_send, le_bytes 4 3),
                   (1024 + 4 * nvme_cmd_zone_mgmt_recv, le_bytes 4 1)] else []))"

definition log_len :: "nvme_command \<Rightarrow> nat" where
  "log_len cmd = u32 (u32 (lo16 (cdw11 cmd) * 2 ^ 16 + hi16 (cdw10 cmd) + 1) * 4)"

text \<open>Copying more bytes than the log has reads behind it.\<close>

definition admin_get_log_page :: "build \<Rightarrow> nat \<Rightarrow> 'ns ctrl \<Rightarrow> 'ns ctrl option" where
  "admin_get_log_page b eid c = do {
     cmd \<leftarrow> admin_sqe c eid;
     let lid = cdw10 cmd mod 256; len = log_len cmd
     in do {
       bs \<leftarrow> (if lid = NVME_LOG_SMART then slice smart_log 0 len
              else if lid = NVME_LOG_CMD_EFFECTS then slice (effects_log (b_zns b)) 0 len
              else Some (replicate len 0));
       make_cq_entry eid NVME_SC_SUCCESS (host_put (prp1 cmd) bs c) } }"

section \<open>Identify\<close>

definition lbaf_bytes :: "nat \<Rightarrow> nat \<Rightarrow> nat \<Rightarrow> nat list" where "lbaf_bytes ms ds rp = le_bytes 2 ms @ [ds, rp]"

definition id_ns :: "nat \<Rightarrow> nat \<Rightarrow> nat list option" where
  "id_ns lba_bits sz = do {
     NVMEV_ASSERT (lba_bits = 9 \<or> lba_bits = 12);
     let flbas = (if lba_bits = 9 then 0 else 3); ds = (if lba_bits = 9 then 9 else 12); n = sz div 2 ^ ds
     in Some (struct_bytes 4096 [(0, le_bytes 8 n), (8, le_bytes 8 n), (16, le_bytes 8 n), (25, [6]), (26, [flbas]), (29, [0]),
          (128, lbaf_bytes 0 9 2), (132, lbaf_bytes 8 9 2), (136, lbaf_bytes 16 9 2), (140, lbaf_bytes 0 12 0), (144, lbaf_bytes 8 12 0),
          (148, lbaf_bytes 64 12 0), (152, lbaf_bytes 128 12 0)]) }"

definition ns_at :: "('ns \<Rightarrow> ns_info) \<Rightarrow> 'ns ctrl \<Rightarrow> nvme_command \<Rightarrow> ns_info option" where
  "ns_at info c cmd = map_option info (idx (nspaces (cdev c)) (dec32 (nsid cmd)))"

definition admin_identify_namespace :: "('ns \<Rightarrow> ns_info) \<Rightarrow> build \<Rightarrow> nat \<Rightarrow> 'ns ctrl \<Rightarrow> 'ns ctrl option" where
  "admin_identify_namespace info b eid c = do {
     cmd \<leftarrow> admin_sqe c eid;
     ns \<leftarrow> ns_at info c cmd;
     bs \<leftarrow> id_ns (b_lba_bits b) (ni_size ns);
     make_cq_entry eid NVME_SC_SUCCESS (host_put (prp1 cmd) bs c) }"

definition admin_identify_namespaces :: "nat \<Rightarrow> 'ns ctrl \<Rightarrow> 'ns ctrl option" where
  "admin_identify_namespaces eid c = do {
     cmd \<leftarrow> admin_sqe c eid;
     let ids = concat (map (le_bytes 4) (filter (\<lambda>i. nsid cmd < i) [1..<length (nspaces (cdev c)) + 1]))
     in make_cq_entry eid NVME_SC_SUCCESS (host_put (prp1 cmd) (struct_bytes (2 * PAGE_SIZE) [(0, ids)]) c) }"

definition admin_identify_namespace_desc :: "('ns \<Rightarrow> ns_info) \<Rightarrow> nat \<Rightarrow> 'ns ctrl \<Rightarrow> 'ns ctrl option" where
  "admin_identify_namespace_desc info eid c = do {
     cmd \<leftarrow> admin_sqe c eid;
     ns \<leftarrow> ns_at info c cmd;
     make_cq_entry eid NVME_SC_SUCCESS (host_put (prp1 cmd) (struct_bytes 4096 [(0, [4]), (1, [1]), (4, [u8 (ni_csi ns)])]) c) }"

definition id_zns_ns :: "nat \<Rightarrow> znsparams \<Rightarrow> nat list" where
  "id_zns_ns lba_bits p = struct_bytes 4096 ([(4, le_bytes 4 (dec32 (nr_active_zones p))), (8, le_bytes 4 (dec32 (nr_open_zones p)))] @
     (if 0 < nr_zrwa_zones p then [(2, le_bytes 2 2), (44, le_bytes 4 (dec32 (nr_zrwa_zones p))), (48, le_bytes 2 (zrwafg_size p)),
        (50, le_bytes 2 (zrwa_size p)), (52, [1])] else []) @
     [(2816, le_bytes 8 (zone_size p div 2 ^ lba_bits)), (2824, [0])])"

definition admin_identify_zns_namespace :: "('ns \<Rightarrow> ns_info) \<Rightarrow> build \<Rightarrow> nat \<Rightarrow> 'ns ctrl \<Rightarrow> 'ns ctrl option" where
  "admin_identify_zns_namespace info b eid c = do {
     cmd \<leftarrow> admin_sqe c eid;
     ns \<leftarrow> ns_at info c cmd;
     ty \<leftarrow> idx (b_ssd_types b) (dec32 (nsid cmd));
     if ty \<noteq> SSD_TYPE_ZNS then make_cq_entry eid NVME_SC_SUCCESS c
     else do {
       NVMEV_ASSERT (ni_csi ns = NVME_CSI_ZNS);
       make_cq_entry eid NVME_SC_SUCCESS (host_put (prp1 cmd) (id_zns_ns (b_lba_bits b) (ni_zns ns)) c) } }"

definition admin_identify_zns_ctrl :: "nat \<Rightarrow> 'ns ctrl \<Rightarrow> 'ns ctrl option" where
  "admin_identify_zns_ctrl eid c = do {
     cmd \<leftarrow> admin_sqe c eid;
     make_cq_entry eid NVME_SC_SUCCESS (host_put (prp1 cmd) [0] c) }"

definition ascii :: "string \<Rightarrow> nat list" where "ascii = map of_char"

definition id_ctrl :: "nat \<Rightarrow> nat \<Rightarrow> nat list" where
  "id_ctrl nr_ns mdts = struct_bytes 4096 [(516, le_bytes 4 nr_ns), (520, le_bytes 2 0), (258, [3]), (525, [0]),
     (4, ascii ''CSL_Virt_SN_01'' @ [0]), (24, ascii ''CSL_Virt_MN_01'' @ [0]), (64, ascii ''CSL_002'' @ [0]), (77, [u8 mdts]),
     (512, [0x66]), (513, [0x44])]"

definition admin_identify_ctrl :: "build \<Rightarrow> nat \<Rightarrow> 'ns ctrl \<Rightarrow> 'ns ctrl option" where
  "admin_identify_ctrl b eid c = do {
     cmd \<leftarrow> admin_sqe c eid;
     make_cq_entry eid NVME_SC_SUCCESS (host_put (prp1 cmd) (id_ctrl (length (nspaces (cdev c))) (b_mdts b)) c) }"

definition admin_identify :: "('ns \<Rightarrow> ns_info) \<Rightarrow> build \<Rightarrow> nat \<Rightarrow> 'ns ctrl \<Rightarrow> 'ns ctrl option" where
  "admin_identify info b eid c = do {
     cmd \<leftarrow> admin_sqe c eid;
     let cns = cdw10 cmd
     in if cns = 0 then admin_identify_namespace info b eid c
        else if cns = 1 then admin_identify_ctrl b eid c
        else if cns = 2 then admin_identify_namespaces eid c
        else if cns = 3 then admin_identify_namespace_desc info eid c
        else if cns = 5 then admin_identify_zns_namespace info b eid c
        else if cns = 6 then admin_identify_zns_ctrl eid c
        else make_cq_entry eid NVME_SC_INVALID_OPCODE c }"

section \<open>Features\<close>

definition NVME_FEAT_NUM_QUEUES :: nat where "NVME_FEAT_NUM_QUEUES = 7"

definition queue_numbers :: "'ns ctrl \<Rightarrow> nat" where
  "queue_numbers c = u32 (or (dec32 (nr_cq c) * 2 ^ 16) (dec32 (nr_sq c)))"

definition admin_set_features :: "nat \<Rightarrow> 'ns ctrl \<Rightarrow> 'ns ctrl option" where
  "admin_set_features eid c = do {
     cmd \<leftarrow> admin_sqe c eid;
     if cdw10 cmd = NVME_FEAT_NUM_QUEUES then
       (let c = c\<lparr>nr_sq := min (lo16 (cdw11 cmd) + 1) NR_MAX_IO_QUEUE, nr_cq := min (hi16 (cdw11 cmd) + 1) NR_MAX_IO_QUEUE\<rparr>
        in make_cq_entry_results eid NVME_SC_SUCCESS (queue_numbers c) 0 c)
     else make_cq_entry_results eid NVME_SC_SUCCESS 0 0 c }"

definition admin_get_features :: "nat \<Rightarrow> 'ns ctrl \<Rightarrow> 'ns ctrl option" where
  "admin_get_features eid c = do {
     cmd \<leftarrow> admin_sqe c eid;
     make_cq_entry_results eid NVME_SC_SUCCESS (if cdw10 cmd = NVME_FEAT_NUM_QUEUES then queue_numbers c else 0) 0 c }"

definition admin_async_event :: "nat \<Rightarrow> 'ns ctrl \<Rightarrow> 'ns ctrl option" where
  "admin_async_event eid c = make_cq_entry eid NVME_SC_SUCCESS c"

section \<open>Dispatch\<close>

definition nvme_admin_delete_sq :: nat where "nvme_admin_delete_sq = 0x00"
definition nvme_admin_create_sq :: nat where "nvme_admin_create_sq = 0x01"
definition nvme_admin_get_log_page :: nat where "nvme_admin_get_log_page = 0x02"
definition nvme_admin_delete_cq :: nat where "nvme_admin_delete_cq = 0x04"
definition nvme_admin_create_cq :: nat where "nvme_admin_create_cq = 0x05"
definition nvme_admin_identify :: nat where "nvme_admin_identify = 0x06"
definition nvme_admin_abort_cmd :: nat where "nvme_admin_abort_cmd = 0x08"
definition nvme_admin_set_features :: nat where "nvme_admin_set_features = 0x09"
definition nvme_admin_get_features :: nat where "nvme_admin_get_features = 0x0a"
definition nvme_admin_async_event :: nat where "nvme_admin_async_event = 0x0c"

lemmas admin_opcodes = nvme_admin_delete_sq_def nvme_admin_create_sq_def nvme_admin_get_log_page_def nvme_admin_delete_cq_def
  nvme_admin_create_cq_def nvme_admin_identify_def nvme_admin_abort_cmd_def nvme_admin_set_features_def nvme_admin_get_features_def
  nvme_admin_async_event_def

definition proc_admin_req :: "('ns \<Rightarrow> ns_info) \<Rightarrow> build \<Rightarrow> nat \<Rightarrow> 'ns ctrl \<Rightarrow> 'ns ctrl option" where
  "proc_admin_req info b eid c = do {
     cmd \<leftarrow> admin_sqe c eid;
     let op = opcode cmd
     in if op = nvme_admin_delete_sq then admin_delete_sq eid c
        else if op = nvme_admin_create_sq then admin_create_sq eid c
        else if op = nvme_admin_get_log_page then admin_get_log_page b eid c
        else if op = nvme_admin_delete_cq then admin_delete_cq eid c
        else if op = nvme_admin_create_cq then admin_create_cq eid c
        else if op = nvme_admin_identify then admin_identify info b eid c
        else if op = nvme_admin_abort_cmd then Some c
        else if op = nvme_admin_set_features then admin_set_features eid c
        else if op = nvme_admin_get_features then admin_get_features eid c
        else if op = nvme_admin_async_event then admin_async_event eid c
        else make_cq_entry eid NVME_SC_INVALID_OPCODE c }"

fun admin_loop :: "('ns \<Rightarrow> ns_info) \<Rightarrow> build \<Rightarrow> nat \<Rightarrow> nat \<Rightarrow> 'ns ctrl \<Rightarrow> 'ns ctrl option" where
  "admin_loop info b 0 cur c = Some c"
| "admin_loop info b (Suc n) cur c = do {
     c \<leftarrow> proc_admin_req info b cur c;
     q \<leftarrow> admin_q c;
     admin_loop info b n (if Suc cur = aq_sq_depth q then 0 else Suc cur) c }"

text \<open>\<open>nvmev_signal_irq\<close>; the vector has an interrupt in the kernel. Bit 3 of the PCI status, at offset 6, is the interrupt status.\<close>

definition set_field :: "nat \<Rightarrow> nat \<Rightarrow> nat \<Rightarrow> nat \<Rightarrow> nat" where
  "set_field lo width v x = x - (x div 2 ^ lo mod 2 ^ width) * 2 ^ lo + v * 2 ^ lo"

definition nvmev_signal_irq :: "nat \<Rightarrow> 'ns ctrl \<Rightarrow> 'ns ctrl" where
  "nvmev_signal_irq v c =
     (if msix_enabled c then c\<lparr>irqs := irqs c @ [Msi v]\<rparr>
      else c\<lparr>pci_cfg := modl (pci_cfg c) 6 (set_field 3 1 1), irqs := irqs c @ [Intx]\<rparr>)"

text \<open>The doorbells are below \<open>2^31\<close>, so the difference in the code is the one of integers.\<close>

definition nvmev_proc_admin_sq :: "('ns \<Rightarrow> ns_info) \<Rightarrow> build \<Rightarrow> nat \<Rightarrow> nat \<Rightarrow> 'ns ctrl \<Rightarrow> 'ns ctrl option" where
  "nvmev_proc_admin_sq info b new_db old_db c = do {
     num_proc \<leftarrow> (if new_db < old_db then do { q \<leftarrow> admin_q c; Some (new_db + aq_sq_depth q - old_db) } else Some (new_db - old_db));
     c \<leftarrow> admin_loop info b num_proc old_db c;
     Some (nvmev_signal_irq 0 c) }"

definition nvmev_proc_admin_cq :: "nat \<Rightarrow> nat \<Rightarrow> 'ns ctrl \<Rightarrow> 'ns ctrl option" where
  "nvmev_proc_admin_cq new_db old_db c = Some c"

end
