(* ===== verification/Controller.thy ===== *)
theory Controller
  imports Admin
begin

text \<open>
  The registers of the controller and the dispatcher (\<open>nvmev_proc_bars\<close> of \<open>pci.c\<close>, \<open>nvmev_proc_dbs\<close> of \<open>main.c\<close>), and the configuration space of
  the virtual PCI device (\<open>pci.c\<close>).

  The dispatcher polls: it compares the registers and the doorbells, which the host writes, with copies of their last values, and processes
  at most one changed register in a call. A step of the host is a change of \<open>bar\<close>, of \<open>dbs\<close> or of the memory.
\<close>

unbundle bit_operations_syntax

section \<open>Registers\<close>

definition aqa_asqs :: "nat \<Rightarrow> nat" where "aqa_asqs r = r mod 2 ^ 12"
definition aqa_acqs :: "nat \<Rightarrow> nat" where "aqa_acqs r = r div 2 ^ 16 mod 2 ^ 12"
definition cc_en :: "nat \<Rightarrow> nat" where "cc_en r = r mod 2"
definition cc_shn :: "nat \<Rightarrow> nat" where "cc_shn r = r div 2 ^ 14 mod 2 ^ 2"

text \<open>The pages from an address on, for entries of \<open>n\<close> bytes.\<close>

definition map_queue :: "nat \<Rightarrow> nat \<Rightarrow> nat \<Rightarrow> nat \<times> nat" where
  "map_queue base depth n = (base div PAGE_SIZE * PAGE_SIZE, DIV_ROUND_UP (depth * n) PAGE_SIZE)"

definition no_queue :: admin_queue where
  "no_queue = \<lparr>aq_phase = 0, aq_sq_depth = 0, aq_cq_depth = 0, aq_cq_head = 0, aq_sq = None, aq_cq = None\<rparr>"

definition bar_aqa :: "'ns ctrl \<Rightarrow> 'ns ctrl option" where
  "bar_aqa c =
     (let q = (case admin_q c of None \<Rightarrow> no_queue | Some q \<Rightarrow> q); r = r_aqa (bar c);
          q = q\<lparr>aq_cq_head := 0, aq_phase := 1, aq_sq_depth := aqa_asqs r + 1, aq_cq_depth := aqa_acqs r + 1\<rparr>
      in do {
        c \<leftarrow> upd_db 0 0 (c\<lparr>old_bar := (old_bar c)\<lparr>r_aqa := r\<rparr>, admin_q := Some q\<rparr>);
        upd_db 1 0 c })"

definition bar_asq :: "admin_queue \<Rightarrow> 'ns ctrl \<Rightarrow> 'ns ctrl option" where
  "bar_asq q c =
     (let d = aqa_asqs (r_aqa (bar c)) + 1
      in upd_db 0 0 (c\<lparr>old_bar := (old_bar c)\<lparr>r_asq := r_asq (bar c)\<rparr>,
           admin_q := Some (q\<lparr>aq_sq_depth := d, aq_sq := Some (map_queue (r_asq (bar c)) d 64)\<rparr>)\<rparr>))"

definition bar_acq :: "admin_queue \<Rightarrow> 'ns ctrl \<Rightarrow> 'ns ctrl option" where
  "bar_acq q c =
     (let d = aqa_acqs (r_aqa (bar c)) + 1
      in upd_db 1 0 (c\<lparr>old_bar := (old_bar c)\<lparr>r_acq := r_acq (bar c)\<rparr>,
           admin_q := Some (q\<lparr>aq_cq_depth := d, aq_cq := Some (map_queue (r_acq (bar c)) d 16), aq_cq_head := 0, aq_phase := 1\<rparr>)\<rparr>))"

definition bar_cc :: "'ns ctrl \<Rightarrow> 'ns ctrl option" where
  "bar_cc c =
     (let r = r_cc (bar c); rdy = (if cc_en r = 1 then (if admin_q c \<noteq> None then Some 1 else None) else Some 0);
          csts = (case rdy of None \<Rightarrow> r_csts (bar c) | Some v \<Rightarrow> set_field 0 1 v (r_csts (bar c)))
      in do {
        c \<leftarrow> (if cc_shn r = 1 then do {
               c \<leftarrow> upd_db 0 0 (c\<lparr>bar := (bar c)\<lparr>r_csts := set_field 2 2 2 csts\<rparr>\<rparr>);
               c \<leftarrow> upd_db 1 0 c;
               q \<leftarrow> admin_q c;
               Some (c\<lparr>admin_q := Some (q\<lparr>aq_cq_head := 0\<rparr>)\<rparr>) }
             else Some (c\<lparr>bar := (bar c)\<lparr>r_csts := csts\<rparr>\<rparr>));
        Some (c\<lparr>old_bar := (old_bar c)\<lparr>r_cc := r\<rparr>\<rparr>) })"

definition nvmev_proc_bars :: "'ns ctrl \<Rightarrow> (bool \<times> 'ns ctrl) option" where
  "nvmev_proc_bars c =
     (if r_aqa (old_bar c) \<noteq> r_aqa (bar c) then map_option (Pair True) (bar_aqa c)
      else if r_asq (old_bar c) \<noteq> r_asq (bar c) then
        (case admin_q c of None \<Rightarrow> Some (True, c) | Some q \<Rightarrow> map_option (Pair True) (bar_asq q c))
      else if r_acq (old_bar c) \<noteq> r_acq (bar c) then
        (case admin_q c of None \<Rightarrow> Some (True, c) | Some q \<Rightarrow> map_option (Pair True) (bar_acq q c))
      else if r_cc (old_bar c) \<noteq> r_cc (bar c) then map_option (Pair True) (bar_cc c)
      else Some (False, c))"

section \<open>Doorbells\<close>

definition admin_dbs :: "('ns \<Rightarrow> ns_info) \<Rightarrow> build \<Rightarrow> 'ns ctrl \<Rightarrow> (bool \<times> 'ns ctrl) option" where
  "admin_dbs info b c = do {
     new_db \<leftarrow> idx (dbs c) 0;
     old_db \<leftarrow> idx (old_dbs c) 0;
     (u0, c) \<leftarrow> (if new_db \<noteq> old_db then do {
                 c \<leftarrow> nvmev_proc_admin_sq info b new_db old_db c;
                 Some (True, c\<lparr>old_dbs := (old_dbs c)[0 := new_db]\<rparr>) }
               else Some (False, c));
     new_db \<leftarrow> idx (dbs c) 1;
     old_db \<leftarrow> idx (old_dbs c) 1;
     if new_db \<noteq> old_db then do {
       c \<leftarrow> nvmev_proc_admin_cq new_db old_db c;
       Some (True, c\<lparr>old_dbs := (old_dbs c)[1 := new_db]\<rparr>) }
     else Some (u0, c) }"

text \<open>The entries of a queue are in the memory of the host. What a doorbell or a worker reads are the entries that are in the pages then, not those
  of the time when the queue was made, and what a worker posts goes to the pages.\<close>

definition fetch_sq :: "(nat \<Rightarrow> nat) \<Rightarrow> submission_queue \<Rightarrow> submission_queue" where
  "fetch_sq h sq = sq\<lparr>sq_entries := map (\<lambda>k. parse_cmd h (sq_base sq + 64 * k)) [0..<length (sq_entries sq)]\<rparr>"

definition fetch_cq :: "(nat \<Rightarrow> nat) \<Rightarrow> completion_queue \<Rightarrow> completion_queue" where
  "fetch_cq h cq = cq\<lparr>cq_entries := map (\<lambda>k. parse_cqe h (cq_base cq + 16 * k)) [0..<length (cq_entries cq)]\<rparr>"

definition fetch_queues :: "('ns, sys_mem) nvmev_dev \<Rightarrow> ('ns, sys_mem) nvmev_dev" where
  "fetch_queues dev = dev\<lparr>sqes := map (map_option (fetch_sq (host (dmem dev)))) (sqes dev),
     cqes := map (map_option (fetch_cq (host (dmem dev)))) (cqes dev)\<rparr>"

definition store_cq :: "completion_queue \<Rightarrow> (nat \<Rightarrow> nat) \<Rightarrow> nat \<Rightarrow> nat" where
  "store_cq cq h = write_bytes_at (cq_base cq) (concat (map cqe_bytes (cq_entries cq))) h"

definition store_completions :: "('ns, sys_mem) nvmev_dev \<Rightarrow> ('ns, sys_mem) nvmev_dev" where
  "store_completions dev = dev\<lparr>dmem := (dmem dev)\<lparr>host := fold (\<lambda>q h. case q of None \<Rightarrow> h | Some cq \<Rightarrow> store_cq cq h) (cqes dev) (host (dmem dev))\<rparr>\<rparr>"

text \<open>A pass of worker \<open>k\<close> over the requests that are due, between the pages it reads and the pages it writes.\<close>

definition worker_round :: "(nvme_command \<Rightarrow> sys_mem \<Rightarrow> sys_mem option) \<Rightarrow> (nat \<Rightarrow> 'ns \<Rightarrow> 'ns) \<Rightarrow> nat \<Rightarrow> 'ns ctrl \<Rightarrow> 'ns ctrl option" where
  "worker_round perform rel k c = do {
     dev \<leftarrow> work_pass perform rel k (fetch_queues (cdev c));
     Some (c\<lparr>cdev := store_completions dev\<rparr>) }"

definition sq_db :: "'ns proc_io_cmd \<Rightarrow> nat \<Rightarrow> nat \<Rightarrow> bool \<times> 'ns ctrl \<Rightarrow> (bool \<times> 'ns ctrl) option" where
  "sq_db proc lba_bits qid s = (let (updated, c) = s in do {
     q \<leftarrow> idx (sqes (cdev c)) qid;
     if q = None then Some (updated, c)
     else do {
       new_db \<leftarrow> idx (dbs c) (qid * 2);
       old_db \<leftarrow> idx (old_dbs c) (qid * 2);
       if new_db \<noteq> old_db then do {
         (db, dev) \<leftarrow> nvmev_proc_io_sq proc lba_bits qid new_db old_db (fetch_queues (cdev c));
         Some (True, c\<lparr>cdev := dev, old_dbs := (old_dbs c)[qid * 2 := db]\<rparr>) }
       else Some (updated, c) } })"

definition cq_db :: "nat \<Rightarrow> bool \<times> 'ns ctrl \<Rightarrow> (bool \<times> 'ns ctrl) option" where
  "cq_db qid s = (let (updated, c) = s in do {
     q \<leftarrow> idx (cqes (cdev c)) qid;
     if q = None then Some (updated, c)
     else do {
       new_db \<leftarrow> idx (dbs c) (qid * 2 + 1);
       old_db \<leftarrow> idx (old_dbs c) (qid * 2 + 1);
       if new_db \<noteq> old_db then do {
         dev \<leftarrow> nvmev_proc_io_cq qid (s32 new_db) (s32 old_db) (fetch_queues (cdev c));
         Some (True, c\<lparr>cdev := dev, old_dbs := (old_dbs c)[qid * 2 + 1 := new_db]\<rparr>) }
       else Some (updated, c) } })"

definition nvmev_proc_dbs :: "('ns \<Rightarrow> ns_info) \<Rightarrow> build \<Rightarrow> 'ns proc_io_cmd \<Rightarrow> 'ns ctrl \<Rightarrow> (bool \<times> 'ns ctrl) option" where
  "nvmev_proc_dbs info b proc c = do {
     (u, c) \<leftarrow> admin_dbs info b c;
     (u, c) \<leftarrow> foldM (sq_db proc (b_lba_bits b)) [1..<nr_sq c + 1] (u, c);
     foldM cq_db [1..<nr_cq c + 1] (u, c) }"

text \<open>One round of \<open>nvmev_dispatcher\<close>.\<close>

definition dispatcher_round :: "('ns \<Rightarrow> ns_info) \<Rightarrow> build \<Rightarrow> 'ns proc_io_cmd \<Rightarrow> 'ns ctrl \<Rightarrow> (bool \<times> 'ns ctrl) option" where
  "dispatcher_round info b proc c = do {
     (u, c) \<leftarrow> nvmev_proc_bars c;
     (v, c) \<leftarrow> nvmev_proc_dbs info b proc c;
     Some (u \<or> v, c) }"

section \<open>Configuration space\<close>

definition OFFS_PCI_PM_CAP :: nat where "OFFS_PCI_PM_CAP = 0x40"
definition OFFS_PCI_MSIX_CAP :: nat where "OFFS_PCI_MSIX_CAP = 0x50"
definition OFFS_PCIE_CAP :: nat where "OFFS_PCIE_CAP = 0x60"
definition OFFS_PCI_EXT_CAP :: nat where "OFFS_PCI_EXT_CAP = 256"

text \<open>The kernel's offsets and bits (\<open>pci_regs.h\<close>): the command register is at 4, its interrupt-disable bit is \<open>0x400\<close>, the status at 6, the
  self test at 15 with the start bit \<open>0x40\<close>, the first base address at 16, the interrupt line at 60; in the MSI-X capability the flags are at 2.\<close>

definition write_mask :: "nat \<Rightarrow> nat" where
  "write_mask off =
     (if off < OFFS_PCI_PM_CAP then
        (if off = 4 then 0x400 else if off = 6 then 0xF200 else if off = 15 then 0x40
         else if off = 16 then 0xFFFFC000 else if off = 60 then 0xFF else 0)
      else if off < OFFS_PCI_MSIX_CAP then 2 ^ 32 - 1
      else if off < OFFS_PCIE_CAP then (if off - OFFS_PCI_MSIX_CAP = 2 then 0xC000 else 0)
      else 2 ^ 32 - 1)"

definition nvmev_pci_read :: "nat \<Rightarrow> nat \<Rightarrow> nat \<Rightarrow> 'ns ctrl \<Rightarrow> (nat \<times> nat) option" where
  "nvmev_pci_read devfn off sz c =
     (if devfn \<noteq> 0 then Some (1, 0)
      else do { bs \<leftarrow> slice (pci_cfg c) off sz; Some (0, le_at sz (\<lambda>k. bs ! k) 0) })"

definition put_cfg :: "nat \<Rightarrow> nat list \<Rightarrow> nat list \<Rightarrow> nat list" where
  "put_cfg off bs pg = take off pg @ bs @ drop (off + length bs) pg"

text \<open>\<open>size\<close> is at most 4. The side effects of the command register and of the MSI-X flags come before the new value is stored.\<close>

definition nvmev_pci_write :: "nat \<Rightarrow> nat \<Rightarrow> nat \<Rightarrow> 'ns ctrl \<Rightarrow> 'ns ctrl option" where
  "nvmev_pci_write off sz new c = do {
     NVMEV_ASSERT (sz \<le> 4);
     bs \<leftarrow> slice (pci_cfg c) off sz;
     let val = le_at sz (\<lambda>k. bs ! k) 0; mask = write_mask off;
         c = (if off = 4 \<and> odd ((val XOR new) div 0x400) then
                (let dis = odd (new div 0x400); c = c\<lparr>intx_disabled := dis\<rparr>
                 in if dis then c else c\<lparr>pci_cfg := modl (pci_cfg c) 6 (set_field 3 1 0)\<rparr>)
              else if off = OFFS_PCI_MSIX_CAP + 2 \<and> odd ((val XOR new) div 0x8000) then c\<lparr>msix_enabled := odd (new div 0x8000)\<rparr>
              else c);
         v = u32 (or (and val (2 ^ 32 - 1 - mask)) (and new mask))
     in Some (c\<lparr>pci_cfg := put_cfg off (le_bytes sz v) (pci_cfg c)\<rparr>) }"

section \<open>Construction\<close>

definition NVMEV_VENDOR_ID :: nat where "NVMEV_VENDOR_ID = 0x0c51"
definition NVMEV_DEVICE_ID :: nat where "NVMEV_DEVICE_ID = 0x0110"
definition NVMEV_SUBSYSTEM_ID :: nat where "NVMEV_SUBSYSTEM_ID = 0x370d"
definition NVMEV_SUBSYSTEM_VENDOR_ID :: nat where "NVMEV_SUBSYSTEM_VENDOR_ID = NVMEV_VENDOR_ID"
definition NVMEV_INTX_IRQ :: nat where "NVMEV_INTX_IRQ = 15"

text \<open>The fields that the code sets, with their offsets in the configuration space.\<close>

definition pci_header_settings :: "nat \<Rightarrow> (nat \<times> nat list) list" where
  "pci_header_settings base_pa = [(2, le_bytes 2 NVMEV_DEVICE_ID), (0, le_bytes 2 NVMEV_VENDOR_ID), (4, [2]), (6, [0x10]), (14, [0]), (8, [1]),
     (11, [1]), (10, [8]), (9, [2]), (16, le_bytes 4 (4 + u32 base_pa div 2 ^ 14 * 2 ^ 14)), (20, le_bytes 4 (base_pa div 2 ^ 32)),
     (46, le_bytes 2 NVMEV_SUBSYSTEM_ID), (44, le_bytes 2 NVMEV_SUBSYSTEM_VENDOR_ID), (48, le_bytes 4 0), (52, [OFFS_PCI_PM_CAP]),
     (61, [0]), (60, [NVMEV_INTX_IRQ])]"

definition pci_pmcap_settings :: "(nat \<times> nat list) list" where
  "pci_pmcap_settings = [(OFFS_PCI_PM_CAP, [1]), (OFFS_PCI_PM_CAP + 1, [OFFS_PCI_MSIX_CAP]), (OFFS_PCI_PM_CAP + 2, le_bytes 2 3),
     (OFFS_PCI_PM_CAP + 4, le_bytes 2 8)]"

definition pci_msixcap_settings :: "(nat \<times> nat list) list" where
  "pci_msixcap_settings = [(OFFS_PCI_MSIX_CAP, [0x11]), (OFFS_PCI_MSIX_CAP + 1, [OFFS_PCIE_CAP]), (OFFS_PCI_MSIX_CAP + 2, le_bytes 2 (2 ^ 15 + 127)),
     (OFFS_PCI_MSIX_CAP + 4, le_bytes 4 (0x400 * 2 ^ 3)), (OFFS_PCI_MSIX_CAP + 8, le_bytes 4 (0x1000 * 2 ^ 3))]"

definition pci_pciecap_settings :: "(nat \<times> nat list) list" where
  "pci_pciecap_settings = [(OFFS_PCIE_CAP, [0x10]), (OFFS_PCIE_CAP + 1, [0]), (OFFS_PCIE_CAP + 2, le_bytes 2 2),
     (OFFS_PCIE_CAP + 4, le_bytes 4 (1 + 2 ^ 5 + 6 * 2 ^ 6 + 2 * 2 ^ 9 + 2 ^ 15 + 2 ^ 28))]"

definition ext_cap :: "nat \<Rightarrow> nat \<Rightarrow> nat \<Rightarrow> (nat \<times> nat list)" where
  "ext_cap off cid nxt = (OFFS_PCI_EXT_CAP + off, le_bytes 2 cid @ le_bytes 2 (1 + nxt * 2 ^ 4))"

definition pci_extcap_settings :: "(nat \<times> nat list) list" where
  "pci_extcap_settings = [ext_cap 0 0x01 (256 + 0x50), ext_cap 0x50 0x02 (256 + 0x80), ext_cap 0x80 0x04 (256 + 0x90),
     ext_cap 0x90 0x0E (256 + 0x170), ext_cap 0x170 0x03 (256 + 0x1a0), ext_cap 0x1a0 0x19 0]"

definition pci_space :: "nat \<Rightarrow> nat list" where
  "pci_space base_pa = struct_bytes PAGE_SIZE (pci_header_settings base_pa @ pci_pmcap_settings @ pci_msixcap_settings @ pci_pciecap_settings @
     pci_extcap_settings)"

definition zero_regs :: ctrl_regs where
  "zero_regs = \<lparr>r_aqa = 0, r_asq = 0, r_acq = 0, r_cc = 0, r_csts = 0\<rparr>"

text \<open>\<open>VDEV_INIT\<close> and \<open>NVMEV_PCI_INIT\<close>: no queues, the registers and doorbells zero and equal to their copies.\<close>

definition nvmev_pci_init :: "nat \<Rightarrow> ('ns, sys_mem) nvmev_dev \<Rightarrow> 'ns ctrl" where
  "nvmev_pci_init memmap_start dev =
     \<lparr>cdev = dev\<lparr>sqes := replicate (NR_MAX_IO_QUEUE + 1) None, cqes := replicate (NR_MAX_IO_QUEUE + 1) None\<rparr>, admin_q = None,
      dbs = replicate 1024 0, old_dbs = replicate 1024 0, bar = zero_regs, old_bar = zero_regs, nr_sq = 0, nr_cq = 0, msix_enabled = False,
      intx_disabled = False, pci_cfg = pci_space memmap_start, irqs = []\<rparr>"

end
