(* ===== verification/Admin_Laws.thy ===== *)
theory Admin_Laws
  imports Controller Zns_Report_Laws
begin

text \<open>
  The admin queue: an admissible command is carried out and completed, the completion entry is found in the next place of the ring with its
  phase bit, and the controller stays well-formed.
\<close>

section \<open>Bytes\<close>

lemma le_at_Suc: "le_at (Suc n) h a = h a + 256 * le_at n h (a + 1)"
proof -
  have "foldr (\<lambda>k v. h (a + k) + 256 * v) (map Suc [0..<n]) 0 = foldr (\<lambda>k v. h (a + 1 + k) + 256 * v) [0..<n] 0"
    by (simp add: foldr_map comp_def)
  moreover have "[0..<Suc n] = 0 # map Suc [0..<n]" by (simp add: upt_conv_Cons map_Suc_upt)
  ultimately show ?thesis by (simp add: le_at_def del: upt_Suc)
qed

lemma le_at_value: "(\<And>i. i < n \<Longrightarrow> h (a + i) = v div 256 ^ i mod 256) \<Longrightarrow> le_at n h a = v mod 256 ^ n"
proof (induction n arbitrary: a v)
  case 0
  then show ?case by (simp add: le_at_def)
next
  case (Suc n)
  have "h (a + 1 + i) = v div 256 div 256 ^ i mod 256" if "i < n" for i
    using Suc.prems [of "Suc i"] that by (simp add: div_mult2_eq)
  then have "le_at n h (a + 1) = v div 256 mod 256 ^ n" by (rule Suc.IH)
  then have "le_at (Suc n) h a = v mod 256 + 256 * (v div 256 mod 256 ^ n)" using Suc.prems [of 0] by (simp add: le_at_Suc)
  also have "\<dots> = v mod 256 ^ Suc n" by (simp add: mod_mult2_eq)
  finally show ?case .
qed

lemma le_at_put:
  assumes "take n (drop k bs) = le_bytes n v" "k + n \<le> length bs"
  shows "le_at n (write_bytes_at a bs h) (a + k) = v mod 256 ^ n"
proof (rule le_at_value)
  fix i assume i: "i < n"
  have "bs ! (k + i) = take n (drop k bs) ! i" using i assms(2) by simp
  also have "\<dots> = v div 256 ^ i mod 256" unfolding assms(1) using i by (simp add: le_bytes_def)
  finally show "write_bytes_at a bs h (a + k + i) = v div 256 ^ i mod 256" using i assms(2) by (simp add: write_bytes_at_def)
qed

lemma le_at_cong: "(\<And>i. i < n \<Longrightarrow> h (a + i) = h' (a + i)) \<Longrightarrow> le_at n h a = le_at n h' a"
proof (induction n arbitrary: a)
  case (Suc n)
  have "h (a + 1 + i) = h' (a + 1 + i)" if "i < n" for i using Suc.prems [of "Suc i"] that by simp
  then have "le_at n h (a + 1) = le_at n h' (a + 1)" by (rule Suc.IH)
  then show ?case using Suc.prems [of 0] by (simp add: le_at_Suc)
qed (simp add: le_at_def)

lemma parse_cmd_cong: "(\<And>i. i < 64 \<Longrightarrow> h (a + i) = h' (a + i)) \<Longrightarrow> parse_cmd h a = parse_cmd h' a"
proof -
  assume e: "\<And>i. i < 64 \<Longrightarrow> h (a + i) = h' (a + i)"
  have "le_at n h (a + k) = le_at n h' (a + k)" if "k + n \<le> 64" for k n
    by (rule le_at_cong) (use e [of "k + _"] that in \<open>simp add: add.assoc\<close>)
  from this [of 0] this [of 1 1] this [of 2 2] this show ?thesis by (simp add: parse_cmd_def)
qed

lemma length_struct: "\<forall>x \<in> set fs. fst x + length (snd x) \<le> n \<Longrightarrow> length (struct_bytes n fs) = n"
proof -
  have "length (fold (\<lambda>(off, bs) pg. take off pg @ bs @ drop (off + length bs) pg) fs pg) = length pg"
    if "\<forall>x \<in> set fs. fst x + length (snd x) \<le> length pg" for pg :: "nat list"
    using that
  proof (induction fs arbitrary: pg)
    case (Cons x fs)
    have "length (take (fst x) pg @ snd x @ drop (fst x + length (snd x)) pg) = length pg" using Cons.prems by simp
    then show ?case using Cons.IH [of "take (fst x) pg @ snd x @ drop (fst x + length (snd x)) pg"] Cons.prems by (simp add: case_prod_beta)
  qed simp
  then show "\<forall>x \<in> set fs. fst x + length (snd x) \<le> n \<Longrightarrow> length (struct_bytes n fs) = n" by (simp add: struct_bytes_def)
qed

lemma parse_cqe_bytes:
  assumes "ce_result0 e < 2 ^ 32" "ce_result1 e < 2 ^ 32" "ce_sq_head e < 2 ^ 16" "ce_sq_id e < 2 ^ 16" "ce_command_id e < 2 ^ 16" "ce_status e < 2 ^ 16"
  shows "parse_cqe (write_bytes_at a (cqe_bytes e) h) a = e"
proof -
  let ?bs = "cqe_bytes e" let ?h = "write_bytes_at a ?bs h"
  have l: "length ?bs = 16" by (simp add: cqe_bytes_def)
  have p: "le_at n ?h (a + k) = v mod 256 ^ n" if "take n (drop k ?bs) = le_bytes n v" "k + n \<le> 16" for n k v
    using le_at_put [OF that(1), of a h] that(2) l by simp
  note f = p [of 4 0 "ce_result0 e"] p [of 4 4 "ce_result1 e"] p [of 2 8 "ce_sq_head e"] p [of 2 10 "ce_sq_id e"]
    p [of 2 12 "ce_command_id e"] p [of 2 14 "ce_status e"]
  have "le_at 4 ?h a = ce_result0 e mod 256 ^ 4" "le_at 4 ?h (a + 4) = ce_result1 e mod 256 ^ 4" "le_at 2 ?h (a + 8) = ce_sq_head e mod 256 ^ 2"
    "le_at 2 ?h (a + 10) = ce_sq_id e mod 256 ^ 2" "le_at 2 ?h (a + 12) = ce_command_id e mod 256 ^ 2" "le_at 2 ?h (a + 14) = ce_status e mod 256 ^ 2"
    using f unfolding cqe_bytes_def by simp_all
  then show ?thesis using assms by (simp add: parse_cqe_def)
qed

definition outside :: "nat \<Rightarrow> nat \<Rightarrow> nat \<Rightarrow> bool" where
  "outside a n x \<longleftrightarrow> x < a \<or> a + n \<le> x"

section \<open>Entries of a ring\<close>

text \<open>The format of the entries of a ring: each has \<open>w\<close> bytes, and what is written is read back. Its clients read one of many entries, and
  compare two states of the memory.\<close>

locale entry_format =
  fixes enc :: "'e \<Rightarrow> nat list" and dec :: "(nat \<Rightarrow> nat) \<Rightarrow> nat \<Rightarrow> 'e" and fits :: "'e \<Rightarrow> bool" and w :: nat
  assumes length_enc: "length (enc e) = w"
    and dec_enc: "fits e \<Longrightarrow> dec (write_bytes_at a (enc e) h) a = e"
    and dec_local: "(\<And>i. i < w \<Longrightarrow> h (a + i) = h' (a + i)) \<Longrightarrow> dec h a = dec h' a"
begin

lemma length_entries: "length (concat (map enc es)) = w * length es"
  by (induction es) (simp_all add: length_enc)

lemma entry_of_list:
  assumes "k < length es" "fits (es ! k)"
  shows "dec (write_bytes_at a (concat (map enc es)) h) (a + w * k) = es ! k"
proof -
  let ?bs = "concat (map enc es)"
  have "es = take k es @ es ! k # drop (Suc k) es" by (rule id_take_nth_drop [OF assms(1)])
  then have bs: "?bs = concat (map enc (take k es)) @ enc (es ! k) @ concat (map enc (drop (Suc k) es))"
    by (metis concat.simps(2) concat_append list.simps(9) map_append)
  have l: "length (concat (map enc (take k es))) = w * k" using assms(1) by (simp add: length_entries)
  have b: "?bs ! (w * k + i) = enc (es ! k) ! i" if "i < w" for i using that unfolding bs by (simp add: nth_append l length_enc)
  have lt: "w * k + i < length ?bs" if "i < w" for i
    using that unfolding bs by (simp add: l length_enc)
  have "dec (write_bytes_at a ?bs h) (a + w * k) = dec (write_bytes_at (a + w * k) (enc (es ! k)) h) (a + w * k)"
    by (rule dec_local) (use b lt in \<open>simp add: write_bytes_at_def length_enc\<close>)
  then show ?thesis using dec_enc [OF assms(2)] by simp
qed

lemma entry_kept: "\<forall>i < w. outside b (length bs) (a + i) \<Longrightarrow> dec (write_bytes_at b bs h) a = dec h a"
  by (rule dec_local) (auto simp: write_bytes_at_def outside_def)

end

text \<open>Completion entries.\<close>

definition cqe_fits :: "nvme_completion \<Rightarrow> bool" where
  "cqe_fits e \<longleftrightarrow> ce_result0 e < 2 ^ 32 \<and> ce_result1 e < 2 ^ 32 \<and> ce_sq_head e < 2 ^ 16 \<and> ce_sq_id e < 2 ^ 16 \<and> ce_command_id e < 2 ^ 16 \<and> ce_status e < 2 ^ 16"

lemma parse_cqe_cong: "(\<And>i. i < 16 \<Longrightarrow> h (a + i) = h' (a + i)) \<Longrightarrow> parse_cqe h a = parse_cqe h' a"
proof -
  assume e: "\<And>i. i < 16 \<Longrightarrow> h (a + i) = h' (a + i)"
  have "le_at n h (a + k) = le_at n h' (a + k)" if "k + n \<le> 16" for k n
    by (rule le_at_cong) (use e [of "k + _"] that in \<open>simp add: add.assoc\<close>)
  from this [of 0] this show ?thesis by (simp add: parse_cqe_def)
qed

interpretation cq_entries: entry_format cqe_bytes parse_cqe cqe_fits 16
proof
  show "length (cqe_bytes e) = 16" for e by (simp add: cqe_bytes_def)
  show "cqe_fits e \<Longrightarrow> parse_cqe (write_bytes_at a (cqe_bytes e) h) a = e" for e a h by (simp add: cqe_fits_def parse_cqe_bytes)
  show "(\<And>i. i < 16 \<Longrightarrow> h (a + i) = h' (a + i)) \<Longrightarrow> parse_cqe h a = parse_cqe h' a" for h h' a by (rule parse_cqe_cong)
qed

section \<open>Pages of the host\<close>

text \<open>A new queue holds what is in its pages, a command that the host stores later is fetched, and completions that are stored are read back.\<close>

lemma fetch_new: "fetch_sq h (new_sq h cmd) = new_sq h cmd" "fetch_cq h (new_cq h cmd) = new_cq h cmd"
  by (simp_all add: fetch_sq_def fetch_cq_def new_sq_def new_cq_def Let_def)

lemma fetch_entry: "k < length (sq_entries sq) \<Longrightarrow> sq_entries (fetch_sq h sq) ! k = parse_cmd h (sq_base sq + 64 * k)"
  by (simp add: fetch_sq_def)

lemma fetch_stored:
  assumes "\<forall>e \<in> set (cq_entries cq). cqe_fits e"
  shows "fetch_cq (store_cq cq h) cq = cq"
proof -
  have "map (\<lambda>k. parse_cqe (store_cq cq h) (cq_base cq + 16 * k)) [0..<length (cq_entries cq)] = cq_entries cq"
    by (rule nth_equalityI) (use assms cq_entries.entry_of_list in \<open>simp_all add: store_cq_def\<close>)
  then show ?thesis by (simp add: fetch_cq_def)
qed

section \<open>The ring\<close>

definition adm_ok :: "'ns ctrl \<Rightarrow> bool" where
  "adm_ok c \<longleftrightarrow> length (dbs c) = 1024 \<and> length (old_dbs c) = 1024 \<and> length (sqes (cdev c)) = NR_MAX_IO_QUEUE + 1 \<and>
     length (cqes (cdev c)) = NR_MAX_IO_QUEUE + 1 \<and>
     (\<exists>q a n b m. admin_q c = Some q \<and> aq_sq q = Some (a, n) \<and> aq_cq q = Some (b, m) \<and> aq_sq_depth q \<le> 64 * n \<and> aq_cq_depth q \<le> 256 * m \<and>
       aq_cq_head q < aq_cq_depth q \<and> aq_phase q \<le> 1)"

text \<open>The addresses of the entries, and the queue after one more completion.\<close>

definition sqe_addr :: "'ns ctrl \<Rightarrow> nat \<Rightarrow> nat" where
  "sqe_addr c eid = fst (the (aq_sq (the (admin_q c)))) + 64 * eid"

definition cqe_addr :: "'ns ctrl \<Rightarrow> nat" where
  "cqe_addr c = fst (the (aq_cq (the (admin_q c)))) + 16 * aq_cq_head (the (admin_q c))"

definition next_cq :: "admin_queue \<Rightarrow> admin_queue" where
  "next_cq q = (let wrap = Suc (aq_cq_head q) = aq_cq_depth q
     in q\<lparr>aq_cq_head := (if wrap then 0 else Suc (aq_cq_head q)),
          aq_phase := (if wrap then (if aq_phase q = 0 then 1 else 0) else aq_phase q)\<rparr>)"

definition chost :: "'ns ctrl \<Rightarrow> nat \<Rightarrow> nat" where "chost c = host (dmem (cdev c))"

definition sqe_at :: "'ns ctrl \<Rightarrow> nat \<Rightarrow> nvme_command" where "sqe_at c eid = parse_cmd (chost c) (sqe_addr c eid)"

lemma admin_sqe_ok: "adm_ok c \<Longrightarrow> eid < aq_sq_depth (the (admin_q c)) \<Longrightarrow> admin_sqe c eid = Some (sqe_at c eid)"
  by (auto simp: adm_ok_def admin_sqe_def sqe_at_def sqe_addr_def chost_def div_less_iff_less_mult)

text \<open>The completion that is found in the ring.\<close>

definition completed :: "nat \<Rightarrow> nat \<Rightarrow> nat \<Rightarrow> nat \<Rightarrow> 'ns ctrl \<Rightarrow> 'ns ctrl \<Rightarrow> bool" where
  "completed eid cid st r0 c c' \<longleftrightarrow> parse_cqe (chost c') (cqe_addr c) = \<lparr>ce_result0 = r0, ce_result1 = 0, ce_sq_head = u16 eid, ce_sq_id = 0,
       ce_command_id = cid, ce_status = aq_phase (the (admin_q c)) + 2 * st\<rparr> \<and>
     admin_q c' = map_option next_cq (admin_q c)"

text \<open>What an operation of the admin queue leaves as it was, apart from the memory and the queues.\<close>

definition same_adm :: "'ns ctrl \<Rightarrow> 'ns ctrl \<Rightarrow> bool" where
  "same_adm c c' \<longleftrightarrow> admin_q c' = admin_q c \<and> length (dbs c') = length (dbs c) \<and> length (old_dbs c') = length (old_dbs c) \<and>
     dbs c' ! 0 = dbs c ! 0 \<and> length (sqes (cdev c')) = length (sqes (cdev c)) \<and> length (cqes (cdev c')) = length (cqes (cdev c)) \<and>
     irqs c' = irqs c \<and> msix_enabled c' = msix_enabled c \<and> nspaces (cdev c') = nspaces (cdev c)"

lemma same_adm_ok: "same_adm c c' \<Longrightarrow> adm_ok c \<Longrightarrow> adm_ok c'"
  unfolding same_adm_def adm_ok_def by (elim conjE) simp

lemma phase_status: "p \<le> 1 \<Longrightarrow> st \<le> 1 \<Longrightarrow> u16 (or p (2 * st)) = p + 2 * st"
proof -
  assume "p \<le> 1" "st \<le> 1"
  then have "p = 0 \<or> p = 1" "st = 0 \<or> st = 1" by auto
  then show ?thesis by auto
qed

lemma admin_post_ok:
  assumes c: "adm_ok c" "command_id (sqe_at c eid) < 2 ^ 16" and e: "eid < aq_sq_depth (the (admin_q c))" and r: "st \<le> 1" "r0 < 2 ^ 32"
  shows "\<exists>c'. make_cq_entry_results eid st r0 0 c = Some c' \<and> adm_ok c' \<and> completed eid (command_id (sqe_at c eid)) st r0 c c' \<and>
    same_adm c (c'\<lparr>admin_q := admin_q c\<rparr>) \<and> cdev c' = (cdev c)\<lparr>dmem := dmem (cdev c')\<rparr> \<and> dbs c' = dbs c \<and> old_dbs c' = old_dbs c \<and>
    (\<forall>x. x < cqe_addr c \<or> cqe_addr c + 16 \<le> x \<longrightarrow> chost c' x = chost c x)"
proof -
  obtain q a n b m where q: "admin_q c = Some q" "aq_sq q = Some (a, n)" "aq_cq q = Some (b, m)" "aq_sq_depth q \<le> 64 * n" "aq_cq_depth q \<le> 256 * m"
      "aq_cq_head q < aq_cq_depth q" "aq_phase q \<le> 1" using c(1) by (auto simp: adm_ok_def)
  let ?cid = "command_id (sqe_at c eid)"
  let ?e = "\<lparr>ce_result0 = r0, ce_result1 = 0, ce_sq_head = u16 eid, ce_sq_id = 0, ce_command_id = ?cid, ce_status = u16 (or (aq_phase q) (2 * st))\<rparr>"
  let ?c = "(host_put (b + 16 * aq_cq_head q) (cqe_bytes ?e) c)\<lparr>admin_q := Some (next_cq q)\<rparr>"
  have l: "aq_cq_head q div 256 < m" using q(5,6) by (simp add: div_less_iff_less_mult)
  have "make_cq_entry_results eid st r0 0 c = Some ?c"
    using admin_sqe_ok [OF c(1) e] q(1,3) l by (simp add: make_cq_entry_results_def next_cq_def Let_def)
  moreover have n: "aq_sq (next_cq q) = aq_sq q" "aq_cq (next_cq q) = aq_cq q" "aq_sq_depth (next_cq q) = aq_sq_depth q"
    "aq_cq_depth (next_cq q) = aq_cq_depth q" "aq_cq_head (next_cq q) < aq_cq_depth (next_cq q)" "aq_phase (next_cq q) \<le> 1"
    using q(6,7) by (auto simp: next_cq_def Let_def)
  have "adm_ok ?c" using c(1) q n by (simp add: adm_ok_def host_put_def)
  moreover note cid = c(2)
  have ca: "cqe_addr c = b + 16 * aq_cq_head q" using q by (simp add: cqe_addr_def)
  have hp: "chost ?c = write_bytes_at (b + 16 * aq_cq_head q) (cqe_bytes ?e) (chost c)" by (simp add: chost_def host_put_def)
  have "parse_cqe (write_bytes_at (b + 16 * aq_cq_head q) (cqe_bytes ?e) (chost c)) (b + 16 * aq_cq_head q) = ?e"
    by (rule cq_entries.dec_enc) (use cid r u_bound in \<open>simp add: cqe_fits_def\<close>)
  then have "completed eid ?cid st r0 c ?c"
    using q(1) phase_status [OF q(7) r(1)] unfolding completed_def ca hp by simp
  moreover have "same_adm c (?c\<lparr>admin_q := admin_q c\<rparr>)" by (simp add: same_adm_def host_put_def)
  moreover have "chost ?c x = chost c x" if "x < cqe_addr c \<or> cqe_addr c + 16 \<le> x" for x
    using that unfolding ca hp by (auto simp: write_bytes_at_def cqe_bytes_def)
  moreover have "cdev ?c = (cdev c)\<lparr>dmem := dmem (cdev ?c)\<rparr>" "dbs ?c = dbs c" "old_dbs ?c = old_dbs c" by (simp_all add: host_put_def)
  ultimately show ?thesis by blast
qed

section \<open>Requests\<close>

text \<open>The work before the completion does not touch the entry or the queue.\<close>

lemma complete_after:
  assumes c: "adm_ok c" "command_id (sqe_at c eid) < 2 ^ 16" "eid < aq_sq_depth (the (admin_q c))" and s: "same_adm c c1" "sqe_at c1 eid = sqe_at c eid"
    and r: "st \<le> 1" "r0 < 2 ^ 32"
  shows "\<exists>c'. make_cq_entry_results eid st r0 0 c1 = Some c' \<and> adm_ok c' \<and> completed eid (command_id (sqe_at c eid)) st r0 c c' \<and>
    same_adm c (c'\<lparr>admin_q := admin_q c\<rparr>) \<and> cdev c' = (cdev c1)\<lparr>dmem := dmem (cdev c')\<rparr> \<and> dbs c' = dbs c1 \<and> old_dbs c' = old_dbs c1 \<and>
    (\<forall>x. x < cqe_addr c \<or> cqe_addr c + 16 \<le> x \<longrightarrow> chost c' x = chost c1 x)"
proof -
  have q: "admin_q c1 = admin_q c" "cqe_addr c1 = cqe_addr c" using s(1) by (simp_all add: same_adm_def cqe_addr_def)
  have e: "eid < aq_sq_depth (the (admin_q c1))" "command_id (sqe_at c1 eid) < 2 ^ 16" using c q s(2) by simp_all
  obtain c' where c': "make_cq_entry_results eid st r0 0 c1 = Some c'" "adm_ok c'" "completed eid (command_id (sqe_at c1 eid)) st r0 c1 c'"
    "same_adm c1 (c'\<lparr>admin_q := admin_q c1\<rparr>)" "cdev c' = (cdev c1)\<lparr>dmem := dmem (cdev c')\<rparr>" "dbs c' = dbs c1" "old_dbs c' = old_dbs c1"
    "\<forall>x. x < cqe_addr c1 \<or> cqe_addr c1 + 16 \<le> x \<longrightarrow> chost c' x = chost c1 x"
    using admin_post_ok [OF same_adm_ok [OF s(1) c(1)] e(2,1) r] by blast
  have "completed eid (command_id (sqe_at c eid)) st r0 c c'" using c'(3) q s(2) by (simp add: completed_def)
  moreover have "same_adm c (c'\<lparr>admin_q := admin_q c\<rparr>)" using c'(4) s(1) by (simp add: same_adm_def)
  ultimately show ?thesis using c'(1,2,5-8) q(2) by auto
qed

lemma same_adm_refl [simp]: "same_adm c c"
  by (simp add: same_adm_def)

definition ranges_apart :: "nat \<Rightarrow> nat \<Rightarrow> nat \<Rightarrow> nat \<Rightarrow> bool" where
  "ranges_apart a n b m \<longleftrightarrow> a + n \<le> b \<or> b + m \<le> (a :: nat)"

lemma put_adm:
  assumes "adm_ok c" "ranges_apart a (length bs) (sqe_addr c eid) 64"
  shows "same_adm c (host_put a bs c)" "sqe_at (host_put a bs c) eid = sqe_at c eid" "chost (host_put a bs c) = write_bytes_at a bs (chost c)"
proof -
  show "same_adm c (host_put a bs c)" by (simp add: same_adm_def host_put_def)
  show h: "chost (host_put a bs c) = write_bytes_at a bs (chost c)" by (simp add: chost_def host_put_def)
  have "sqe_addr (host_put a bs c) eid = sqe_addr c eid" by (simp add: sqe_addr_def host_put_def)
  then show "sqe_at (host_put a bs c) eid = sqe_at c eid" using assms(2) unfolding sqe_at_def h
    by (auto intro!: parse_cmd_cong simp: write_bytes_at_def ranges_apart_def)
qed

lemma set_queue_adm:
  assumes "adm_ok c" "i \<le> NR_MAX_IO_QUEUE"
  shows "set_cq i q c = Some (c\<lparr>cdev := (cdev c)\<lparr>cqes := (cqes (cdev c))[i := q]\<rparr>\<rparr>)"
    "set_sq i s c = Some (c\<lparr>cdev := (cdev c)\<lparr>sqes := (sqes (cdev c))[i := s]\<rparr>\<rparr>)"
    "0 < k \<Longrightarrow> k < 1024 \<Longrightarrow> upd_db k v c = Some (c\<lparr>dbs := (dbs c)[k := v], old_dbs := (old_dbs c)[k := v]\<rparr>)"
  using assms by (simp_all add: adm_ok_def set_cq_def set_sq_def upd_db_def)

text \<open>The commands that the code can carry out.\<close>

definition data_len :: "nvme_command \<Rightarrow> nat" where
  "data_len cmd = (if opcode cmd = nvme_admin_get_log_page then log_len cmd else if opcode cmd = nvme_admin_identify then 2 * PAGE_SIZE else 0)"

definition adm_admissible :: "('ns \<Rightarrow> ns_info) \<Rightarrow> build \<Rightarrow> 'ns ctrl \<Rightarrow> nat \<Rightarrow> bool" where
  "adm_admissible info b c eid \<longleftrightarrow> (let cmd = sqe_at c eid; op = opcode cmd; qid = lo16 (cdw10 cmd); lid = cdw10 cmd mod 256; cns = cdw10 cmd in
     command_id cmd < 2 ^ 16 \<and> op \<noteq> nvme_admin_abort_cmd \<and> ranges_apart (prp1 cmd) (data_len cmd) (sqe_addr c eid) 64 \<and>
     (op \<in> {nvme_admin_delete_sq, nvme_admin_delete_cq} \<longrightarrow> qid \<le> NR_MAX_IO_QUEUE) \<and>
     (op \<in> {nvme_admin_create_sq, nvme_admin_create_cq} \<longrightarrow> 0 < qid \<and> qid \<le> NR_MAX_IO_QUEUE) \<and>
     (op = nvme_admin_get_log_page \<longrightarrow> (lid = NVME_LOG_SMART \<longrightarrow> log_len cmd \<le> 512) \<and> (lid = NVME_LOG_CMD_EFFECTS \<longrightarrow> log_len cmd \<le> 4096)) \<and>
     (op = nvme_admin_identify \<and> cns \<in> {0, 3, 5} \<longrightarrow> dec32 (nsid cmd) < length (nspaces (cdev c))) \<and>
     (op = nvme_admin_identify \<and> cns = 0 \<longrightarrow> b_lba_bits b \<in> {9, 12}) \<and>
     (op = nvme_admin_identify \<and> cns = 2 \<longrightarrow> length (nspaces (cdev c)) \<le> 1024) \<and>
     (op = nvme_admin_identify \<and> cns = 5 \<longrightarrow> dec32 (nsid cmd) < length (b_ssd_types b) \<and>
        (b_ssd_types b ! dec32 (nsid cmd) = SSD_TYPE_ZNS \<longrightarrow> ni_csi (info (nspaces (cdev c) ! dec32 (nsid cmd))) = NVME_CSI_ZNS)))"

definition adm_status :: "nvme_command \<Rightarrow> nat" where
  "adm_status cmd = (if opcode cmd = nvme_admin_identify \<and> cdw10 cmd \<notin> {0, 1, 2, 3, 5, 6} \<or>
       opcode cmd \<notin> {nvme_admin_delete_sq, nvme_admin_create_sq, nvme_admin_get_log_page, nvme_admin_delete_cq, nvme_admin_create_cq,
         nvme_admin_identify, nvme_admin_set_features, nvme_admin_get_features, nvme_admin_async_event}
     then NVME_SC_INVALID_OPCODE else NVME_SC_SUCCESS)"

text \<open>The command is completed and nothing else is written than its data and its completion entry.\<close>

definition carried_out :: "nat \<Rightarrow> 'ns ctrl \<Rightarrow> 'ns ctrl option \<Rightarrow> bool" where
  "carried_out eid c r \<longleftrightarrow> (\<exists>c' r0. r = Some c' \<and> adm_ok c' \<and>
     completed eid (command_id (sqe_at c eid)) (adm_status (sqe_at c eid)) r0 c c' \<and> same_adm c (c'\<lparr>admin_q := admin_q c\<rparr>) \<and>
     (\<forall>x. outside (prp1 (sqe_at c eid)) (data_len (sqe_at c eid)) x \<and> outside (cqe_addr c) 16 x \<longrightarrow> chost c' x = chost c x))"

lemma carried_outI:
  assumes "adm_ok c" "command_id (sqe_at c eid) < 2 ^ 16" "eid < aq_sq_depth (the (admin_q c))" "same_adm c c1" "sqe_at c1 eid = sqe_at c eid" "r0 < 2 ^ 32"
    and "st = adm_status (sqe_at c eid)"
    and fr: "\<And>x. outside (prp1 (sqe_at c eid)) (data_len (sqe_at c eid)) x \<Longrightarrow> chost c1 x = chost c x"
  shows "carried_out eid c (make_cq_entry_results eid st r0 0 c1)"
proof -
  have "st \<le> 1" using assms(7) by (simp add: adm_status_def NVME_SC_SUCCESS_def NVME_SC_INVALID_OPCODE_def)
  from complete_after [OF assms(1-5) this assms(6)] fr show ?thesis unfolding carried_out_def assms(7) by (auto simp: outside_def)
qed

end
