(* ===== verification/Admin_Requests.thy ===== *)
theory Admin_Requests
  imports Admin_Laws
begin

text \<open>
  The admin commands one after the other: an admissible command is carried out and completed; what the identify command and the creation of
  a queue leave behind.
\<close>

section \<open>Lengths of the data\<close>

lemma length_smart_log: "length smart_log = 512"
  unfolding smart_log_def by (rule length_struct) simp

lemma length_effects_log: "length (effects_log z) = 4096"
  unfolding effects_log_def
  by (rule length_struct) (auto simp: nvme_cmd_zone_append_def nvme_cmd_zone_mgmt_send_def nvme_cmd_zone_mgmt_recv_def)

lemma id_ns_some:
  assumes "lba_bits \<in> {9, 12}"
  shows "\<exists>bs. id_ns lba_bits sz = Some bs \<and> length bs = 4096"
proof -
  have "length (struct_bytes 4096 [(0, le_bytes 8 n), (8, le_bytes 8 n), (16, le_bytes 8 n), (25, [6]), (26, [fl]), (29, [0]),
          (128, lbaf_bytes 0 9 2), (132, lbaf_bytes 8 9 2), (136, lbaf_bytes 16 9 2), (140, lbaf_bytes 0 12 0), (144, lbaf_bytes 8 12 0),
          (148, lbaf_bytes 64 12 0), (152, lbaf_bytes 128 12 0)]) = 4096" for n fl
    by (rule length_struct) (simp add: lbaf_bytes_def)
  then show ?thesis using assms by (auto simp: id_ns_def Let_def)
qed

lemma length_id_zns: "length (id_zns_ns lba_bits p) = 4096"
  unfolding id_zns_ns_def by (rule length_struct) auto

lemma length_id_ctrl: "length (id_ctrl n mdts) = 4096"
  unfolding id_ctrl_def by (rule length_struct) (simp add: ascii_def)

lemma length_ids: "length (concat (map (le_bytes 4) xs)) = 4 * length xs"
  by (induction xs) simp_all

lemma length_id_desc: "length (struct_bytes 4096 [(0, [4]), (1, [1]), (4, [v])]) = 4096"
  by (rule length_struct) simp

lemma length_id_list:
  "n \<le> 1024 \<Longrightarrow> length (struct_bytes (2 * PAGE_SIZE) [(0, concat (map (le_bytes 4) (filter P [1..<n + 1])))]) = 2 * PAGE_SIZE"
proof (rule length_struct)
  assume n: "n \<le> 1024"
  have "length (filter P [1..<n + 1]) \<le> length [1..<n + 1]" by (rule length_filter_le)
  moreover have "length [1..<n + 1] = n" by (subst length_upt) simp
  ultimately have "4 * length (filter P [1..<n + 1]) \<le> 2 * PAGE_SIZE" using n by (simp add: PAGE_SIZE_def del: upt_Suc)
  then show "\<forall>x\<in>set [(0, concat (map (le_bytes 4) (filter P [1..<n + 1])))]. fst x + length (snd x) \<le> 2 * PAGE_SIZE"
    by (simp only: length_ids list.set ball_simps fst_conv snd_conv add_0 simp_thms)
qed

section \<open>Every command\<close>

lemma queue_numbers_small: "queue_numbers c < 2 ^ 32"
  unfolding queue_numbers_def by (rule u_bound)

lemma adm_entry:
  assumes "adm_ok c" "eid < aq_sq_depth (the (admin_q c))"
  shows "\<exists>q. admin_q c = Some q"
  using assms by (auto simp: adm_ok_def)

text \<open>The four shapes of a request: the completion alone, after data, after a feature and after a change of a queue.\<close>

lemma shape_plain:
  assumes "adm_ok c" "command_id (sqe_at c eid) < 2 ^ 16" "eid < aq_sq_depth (the (admin_q c))" "r0 < 2 ^ 32" "st = adm_status (sqe_at c eid)"
  shows "carried_out eid c (make_cq_entry_results eid st r0 0 c)"
  by (rule carried_outI [OF assms(1-3) same_adm_refl refl assms(4,5) refl])

lemma shape_data:
  assumes "adm_ok c" "command_id (sqe_at c eid) < 2 ^ 16" "eid < aq_sq_depth (the (admin_q c))"
    and "ranges_apart (prp1 (sqe_at c eid)) (data_len (sqe_at c eid)) (sqe_addr c eid) 64" "length bs \<le> data_len (sqe_at c eid)" "adm_status (sqe_at c eid) = NVME_SC_SUCCESS"
  shows "carried_out eid c (make_cq_entry eid NVME_SC_SUCCESS (host_put (prp1 (sqe_at c eid)) bs c))"
proof -
  have a: "ranges_apart (prp1 (sqe_at c eid)) (length bs) (sqe_addr c eid) 64" using assms(4,5) by (auto simp: ranges_apart_def)
  show ?thesis unfolding make_cq_entry_def
    by (rule carried_outI [OF assms(1-3) put_adm(1,2) [OF assms(1) a]])
      (use assms(5) in \<open>auto simp: assms(6) put_adm(3) [OF assms(1) a] outside_def write_bytes_at_def\<close>)
qed

lemma shape_queue:
  assumes "adm_ok c" "command_id (sqe_at c eid) < 2 ^ 16" "eid < aq_sq_depth (the (admin_q c))" "adm_status (sqe_at c eid) = NVME_SC_SUCCESS"
    and "admin_q c1 = admin_q c" "dmem (cdev c1) = dmem (cdev c)" "same_adm c c1"
  shows "carried_out eid c (make_cq_entry eid NVME_SC_SUCCESS c1)"
proof -
  have "sqe_at c1 eid = sqe_at c eid" using assms(5,6) by (simp add: sqe_at_def chost_def sqe_addr_def)
  then show ?thesis unfolding make_cq_entry_def by (intro carried_outI [OF assms(1-3,7)]) (simp_all add: assms(4,6) chost_def)
qed

text \<open>A queue is put in its place and its doorbell is cleared.\<close>

lemma create_steps:
  assumes "adm_ok c" "0 < i" "i \<le> NR_MAX_IO_QUEUE" "k = i * 2 \<or> k = i * 2 + 1"
  shows "set_cq i q c = Some (c\<lparr>cdev := (cdev c)\<lparr>cqes := (cqes (cdev c))[i := q]\<rparr>\<rparr>)"
    "set_sq i s c = Some (c\<lparr>cdev := (cdev c)\<lparr>sqes := (sqes (cdev c))[i := s]\<rparr>\<rparr>)"
    "upd_db k 0 (c\<lparr>cdev := d\<rparr>) = Some (c\<lparr>cdev := d, dbs := (dbs c)[k := 0], old_dbs := (old_dbs c)[k := 0]\<rparr>)"
proof -
  show "set_cq i q c = Some (c\<lparr>cdev := (cdev c)\<lparr>cqes := (cqes (cdev c))[i := q]\<rparr>\<rparr>)"
    "set_sq i s c = Some (c\<lparr>cdev := (cdev c)\<lparr>sqes := (sqes (cdev c))[i := s]\<rparr>\<rparr>)"
    using set_queue_adm(1,2) [OF assms(1,3)] by simp_all
  have "k < 1024" using assms(3,4) by (auto simp: NR_MAX_IO_QUEUE_def)
  then show "upd_db k 0 (c\<lparr>cdev := d\<rparr>) = Some (c\<lparr>cdev := d, dbs := (dbs c)[k := 0], old_dbs := (old_dbs c)[k := 0]\<rparr>)"
    using assms(1) by (simp add: upd_db_def adm_ok_def)
qed

lemma create_cq_run:
  assumes "adm_ok c" "eid < aq_sq_depth (the (admin_q c))" "cq = new_cq (chost c) (sqe_at c eid)" "0 < cq_qid cq" "cq_qid cq \<le> NR_MAX_IO_QUEUE"
  shows "admin_create_cq eid c = make_cq_entry eid NVME_SC_SUCCESS (c\<lparr>cdev := (cdev c)\<lparr>cqes := (cqes (cdev c))[cq_qid cq := Some cq]\<rparr>,
     dbs := (dbs c)[cq_qid cq * 2 + 1 := 0], old_dbs := (old_dbs c)[cq_qid cq * 2 + 1 := 0]\<rparr>)"
  using admin_sqe_ok [OF assms(1,2)] create_steps [OF assms(1,4,5), of "cq_qid cq * 2 + 1"] assms(3)
  by (simp add: admin_create_cq_def Let_def chost_def)

lemma create_sq_run:
  assumes "adm_ok c" "eid < aq_sq_depth (the (admin_q c))" "sq = new_sq (chost c) (sqe_at c eid)" "0 < sq_qid sq" "sq_qid sq \<le> NR_MAX_IO_QUEUE"
  shows "admin_create_sq eid c = make_cq_entry eid NVME_SC_SUCCESS (c\<lparr>cdev := (cdev c)\<lparr>sqes := (sqes (cdev c))[sq_qid sq := Some sq]\<rparr>,
     dbs := (dbs c)[sq_qid sq * 2 := 0], old_dbs := (old_dbs c)[sq_qid sq * 2 := 0]\<rparr>)"
  using admin_sqe_ok [OF assms(1,2)] create_steps [OF assms(1,4,5), of "sq_qid sq * 2"] assms(3)
  by (simp add: admin_create_sq_def Let_def chost_def)

text \<open>Every request by its operation code.\<close>

lemma delete_ok_adm:
  assumes c: "adm_ok c" "eid < aq_sq_depth (the (admin_q c))" "command_id (sqe_at c eid) < 2 ^ 16" "adm_status (sqe_at c eid) = NVME_SC_SUCCESS"
    and q: "lo16 (cdw10 (sqe_at c eid)) \<le> NR_MAX_IO_QUEUE"
  shows "carried_out eid c (admin_delete_sq eid c)" "carried_out eid c (admin_delete_cq eid c)"
proof -
  note s = set_queue_adm(1,2) [OF c(1) q] and e = admin_sqe_ok [OF c(1,2)] and sh = shape_queue [OF c(1,3,2,4)]
  show "carried_out eid c (admin_delete_sq eid c)" by (simp add: admin_delete_sq_def e s, rule sh) (simp_all add: same_adm_def)
  show "carried_out eid c (admin_delete_cq eid c)" by (simp add: admin_delete_cq_def e s, rule sh) (simp_all add: same_adm_def)
qed

lemma create_ok_adm:
  assumes c: "adm_ok c" "eid < aq_sq_depth (the (admin_q c))" "command_id (sqe_at c eid) < 2 ^ 16" "adm_status (sqe_at c eid) = NVME_SC_SUCCESS"
    and q: "0 < lo16 (cdw10 (sqe_at c eid))" "lo16 (cdw10 (sqe_at c eid)) \<le> NR_MAX_IO_QUEUE"
  shows "carried_out eid c (admin_create_sq eid c)" "carried_out eid c (admin_create_cq eid c)"
proof -
  note sh = shape_queue [OF c(1,3,2,4)]
  have l: "sq_qid (new_sq h cmd) = lo16 (cdw10 cmd)" "cq_qid (new_cq h cmd) = lo16 (cdw10 cmd)" for h cmd
    by (simp_all add: new_sq_def new_cq_def Let_def)
  show "carried_out eid c (admin_create_sq eid c)"
    by (subst create_sq_run [OF c(1,2) refl], simp_all only: l q, rule sh) (use q in \<open>simp_all add: same_adm_def\<close>)
  show "carried_out eid c (admin_create_cq eid c)"
    by (subst create_cq_run [OF c(1,2) refl], simp_all only: l q, rule sh) (use q in \<open>simp_all add: same_adm_def\<close>)
qed

lemma slice_whole: "n \<le> length xs \<Longrightarrow> slice xs 0 n = Some (take n xs)"
  by (simp add: slice_def)

lemma log_ok_adm:
  assumes c: "adm_ok c" "eid < aq_sq_depth (the (admin_q c))" "opcode (sqe_at c eid) = nvme_admin_get_log_page" "adm_admissible info b c eid"
  shows "carried_out eid c (admin_get_log_page b eid c)"
proof -
  let ?cmd = "sqe_at c eid" let ?len = "log_len ?cmd"
  have dl: "data_len ?cmd = ?len" using c(3) by (simp add: data_len_def)
  have a: "command_id ?cmd < 2 ^ 16" "ranges_apart (prp1 ?cmd) (data_len ?cmd) (sqe_addr c eid) 64"
    "cdw10 ?cmd mod 256 = NVME_LOG_SMART \<Longrightarrow> ?len \<le> 512" "cdw10 ?cmd mod 256 = NVME_LOG_CMD_EFFECTS \<Longrightarrow> ?len \<le> 4096"
    using c(3,4) by (auto simp: adm_admissible_def Let_def data_len_def)
  have st: "adm_status ?cmd = NVME_SC_SUCCESS" using c(3) by (simp add: adm_status_def admin_opcodes)
  let ?r = "\<lambda>bs. make_cq_entry eid NVME_SC_SUCCESS (host_put (prp1 ?cmd) bs c)"
  have "admin_get_log_page b eid c = ?r (take ?len smart_log) \<or> admin_get_log_page b eid c = ?r (take ?len (effects_log (b_zns b))) \<or>
      admin_get_log_page b eid c = ?r (replicate ?len 0)"
    using a(3,4) admin_sqe_ok [OF c(1,2)] by (simp add: admin_get_log_page_def Let_def slice_whole length_smart_log length_effects_log)
  moreover have "length (take ?len smart_log) \<le> ?len" "length (take ?len (effects_log (b_zns b))) \<le> ?len" "length (replicate ?len (0::nat)) \<le> ?len"
    by simp_all
  ultimately have "\<exists>bs. length bs \<le> ?len \<and> admin_get_log_page b eid c = ?r bs" by blast
  then show ?thesis using shape_data [OF c(1) a(1) c(2) a(2) _ st] dl by auto
qed

lemma identify_ok_adm:
  assumes c: "adm_ok c" "eid < aq_sq_depth (the (admin_q c))" "opcode (sqe_at c eid) = nvme_admin_identify" "adm_admissible info b c eid"
  shows "carried_out eid c (admin_identify info b eid c)"
proof -
  let ?cmd = "sqe_at c eid" let ?cns = "cdw10 ?cmd"
  have dl: "data_len ?cmd = 2 * PAGE_SIZE" using c(3) by (simp add: data_len_def admin_opcodes)
  have a: "command_id ?cmd < 2 ^ 16" "ranges_apart (prp1 ?cmd) (data_len ?cmd) (sqe_addr c eid) 64"
    and ns: "?cns \<in> {0, 3, 5} \<Longrightarrow> dec32 (nsid ?cmd) < length (nspaces (cdev c))" and lb: "?cns = 0 \<Longrightarrow> b_lba_bits b \<in> {9, 12}"
    and nn: "?cns = 2 \<Longrightarrow> length (nspaces (cdev c)) \<le> 1024" and ty: "?cns = 5 \<Longrightarrow> dec32 (nsid ?cmd) < length (b_ssd_types b)"
      "?cns = 5 \<Longrightarrow> b_ssd_types b ! dec32 (nsid ?cmd) = SSD_TYPE_ZNS \<Longrightarrow> ni_csi (info (nspaces (cdev c) ! dec32 (nsid ?cmd))) = NVME_CSI_ZNS"
    using c(3,4) by (auto simp: adm_admissible_def Let_def data_len_def admin_opcodes)
  note e = admin_sqe_ok [OF c(1,2)]
  have n: "?cns \<in> {0, 3, 5} \<Longrightarrow> ns_at info c ?cmd = Some (info (nspaces (cdev c) ! dec32 (nsid ?cmd)))"
    using ns by (simp add: ns_at_def idx_def)
  show ?thesis
  proof (cases "?cns \<in> {0, 1, 2, 3, 5, 6}")
    case False
    then have st: "adm_status ?cmd = NVME_SC_INVALID_OPCODE" using c(3) by (simp add: adm_status_def)
    have r: "admin_identify info b eid c = make_cq_entry eid NVME_SC_INVALID_OPCODE c" using False e by (simp add: admin_identify_def)
    show ?thesis unfolding r make_cq_entry_def by (rule shape_plain [OF c(1) a(1) c(2)]) (simp_all add: st)
  next
    case True
    then have st: "adm_status ?cmd = NVME_SC_SUCCESS" using c(3) by (auto simp: adm_status_def admin_opcodes)
    note d = shape_data [OF c(1) a(1) c(2) a(2) _ st, unfolded dl] and p = shape_plain [OF c(1) a(1) c(2)]
    consider "?cns = 0" | "?cns = 1" | "?cns = 2" | "?cns = 3" | "?cns = 5" | "?cns = 6" using True by auto
    then show ?thesis
    proof cases
      case 1
      obtain bs where bs: "id_ns (b_lba_bits b) (ni_size (info (nspaces (cdev c) ! dec32 (nsid ?cmd)))) = Some bs" "length bs = 4096"
        using id_ns_some [OF lb [OF 1]] by blast
      have "admin_identify info b eid c = make_cq_entry eid NVME_SC_SUCCESS (host_put (prp1 ?cmd) bs c)"
        using 1 e n bs(1) by (simp add: admin_identify_def admin_identify_namespace_def)
      then show ?thesis using d [of bs] bs(2) by (simp add: PAGE_SIZE_def)
    next
      case 2
      then show ?thesis using e d [of "id_ctrl (length (nspaces (cdev c))) (b_mdts b)"]
        by (simp add: admin_identify_def admin_identify_ctrl_def length_id_ctrl PAGE_SIZE_def)
    next
      case 3
      then show ?thesis
        using e d [of "struct_bytes (2 * PAGE_SIZE) [(0, concat (map (le_bytes 4) (filter (\<lambda>i. nsid ?cmd < i) [1..<length (nspaces (cdev c)) + 1])))]"]
          length_id_list [OF nn [OF 3], of "\<lambda>i. nsid ?cmd < i"]
        by (simp add: admin_identify_def admin_identify_namespaces_def del: upt_Suc)
    next
      case 4
      then show ?thesis using e n d [of "struct_bytes 4096 [(0, [4]), (1, [1]), (4, [u8 (ni_csi (info (nspaces (cdev c) ! dec32 (nsid ?cmd))))])]"]
        by (simp add: admin_identify_def admin_identify_namespace_desc_def length_id_desc [unfolded One_nat_def] PAGE_SIZE_def)
    next
      case 5
      show ?thesis
      proof (cases "b_ssd_types b ! dec32 (nsid ?cmd) = SSD_TYPE_ZNS")
        case False
        then show ?thesis using 5 e n ty(1) p [of 0 NVME_SC_SUCCESS] st
          by (simp add: admin_identify_def admin_identify_zns_namespace_def idx_def make_cq_entry_def)
      next
        case True
        then show ?thesis using 5 e n ty d [of "id_zns_ns (b_lba_bits b) (ni_zns (info (nspaces (cdev c) ! dec32 (nsid ?cmd))))"]
          by (simp add: admin_identify_def admin_identify_zns_namespace_def idx_def length_id_zns PAGE_SIZE_def)
      qed
    next
      case 6
      then show ?thesis using e d [of "[0]"] by (simp add: admin_identify_def admin_identify_zns_ctrl_def PAGE_SIZE_def)
    qed
  qed
qed

lemma features_ok_adm:
  assumes c: "adm_ok c" "eid < aq_sq_depth (the (admin_q c))" "command_id (sqe_at c eid) < 2 ^ 16" "adm_status (sqe_at c eid) = NVME_SC_SUCCESS"
  shows "carried_out eid c (admin_set_features eid c)" "carried_out eid c (admin_get_features eid c)" "carried_out eid c (admin_async_event eid c)"
proof -
  note e = admin_sqe_ok [OF c(1,2)] and p = shape_plain [OF c(1,3,2)] and i = carried_outI [OF c(1,3,2)]
  let ?c = "\<lambda>n m. c\<lparr>nr_sq := n, nr_cq := m\<rparr>"
  have s: "sqe_at (?c n m) eid = sqe_at c eid" "same_adm c (?c n m)" "chost (?c n m) = chost c" for n m by (simp_all add: sqe_at_def chost_def sqe_addr_def same_adm_def)
  show "carried_out eid c (admin_set_features eid c)"
    by (auto simp: admin_set_features_def Let_def e intro!: i [OF s(2,1) queue_numbers_small c(4) [symmetric]] p [of 0 NVME_SC_SUCCESS] simp: c(4) s(3))
  show "carried_out eid c (admin_get_features eid c)"
    by (auto simp: admin_get_features_def e c(4) intro!: p queue_numbers_small)
  show "carried_out eid c (admin_async_event eid c)" using p [of 0] c(4) by (simp add: admin_async_event_def make_cq_entry_def)
qed

lemma request_ok:
  assumes c: "adm_ok c" "eid < aq_sq_depth (the (admin_q c))" "adm_admissible info b c eid"
  shows "carried_out eid c (proc_admin_req info b eid c)"
proof -
  let ?cmd = "sqe_at c eid" let ?op = "opcode ?cmd"
  note e = admin_sqe_ok [OF c(1,2)]
  have a: "command_id ?cmd < 2 ^ 16" "?op \<noteq> nvme_admin_abort_cmd" using c(3) by (simp_all add: adm_admissible_def Let_def)
  have del: "?op \<in> {nvme_admin_delete_sq, nvme_admin_delete_cq} \<Longrightarrow> lo16 (cdw10 ?cmd) \<le> NR_MAX_IO_QUEUE"
    and cre: "?op \<in> {nvme_admin_create_sq, nvme_admin_create_cq} \<Longrightarrow> 0 < lo16 (cdw10 ?cmd) \<and> lo16 (cdw10 ?cmd) \<le> NR_MAX_IO_QUEUE"
    using c(3) unfolding adm_admissible_def Let_def by blast+
  let ?known = "{nvme_admin_delete_sq, nvme_admin_create_sq, nvme_admin_get_log_page, nvme_admin_delete_cq, nvme_admin_create_cq,
         nvme_admin_identify, nvme_admin_set_features, nvme_admin_get_features, nvme_admin_async_event}"
  consider "?op \<in> {nvme_admin_delete_sq, nvme_admin_delete_cq}" | "?op \<in> {nvme_admin_create_sq, nvme_admin_create_cq}"
    | "?op = nvme_admin_get_log_page" | "?op = nvme_admin_identify" | "?op \<in> {nvme_admin_set_features, nvme_admin_get_features, nvme_admin_async_event}"
    | "?op \<notin> ?known" by auto
  then show ?thesis
  proof cases
    case 1
    then have st: "adm_status ?cmd = NVME_SC_SUCCESS" by (auto simp: adm_status_def admin_opcodes)
    show ?thesis using 1 e delete_ok_adm [OF c(1,2) a(1) st del [OF 1]] by (auto simp: proc_admin_req_def admin_opcodes)
  next
    case 2
    then have st: "adm_status ?cmd = NVME_SC_SUCCESS" by (auto simp: adm_status_def admin_opcodes)
    show ?thesis using 2 e create_ok_adm [OF c(1,2) a(1) st] cre [OF 2] by (auto simp: proc_admin_req_def admin_opcodes)
  next
    case 3
    then show ?thesis using e log_ok_adm [OF c(1,2) 3 c(3)] by (simp add: proc_admin_req_def admin_opcodes)
  next
    case 4
    then show ?thesis using e identify_ok_adm [OF c(1,2) 4 c(3)] by (simp add: proc_admin_req_def admin_opcodes)
  next
    case 5
    then have st: "adm_status ?cmd = NVME_SC_SUCCESS" by (auto simp: adm_status_def admin_opcodes)
    show ?thesis using 5 e features_ok_adm [OF c(1,2) a(1) st] by (auto simp: proc_admin_req_def admin_opcodes)
  next
    case 6
    then have st: "adm_status ?cmd = NVME_SC_INVALID_OPCODE" by (simp add: adm_status_def)
    have "proc_admin_req info b eid c = make_cq_entry eid NVME_SC_INVALID_OPCODE c" using 6 a(2) e by (simp add: proc_admin_req_def)
    then show ?thesis using shape_plain [OF c(1) a(1) c(2), of 0 NVME_SC_INVALID_OPCODE] st by (simp add: make_cq_entry_def)
  qed
qed

end
