(* ===== verification/Admin_Doorbell.thy ===== *)
theory Admin_Doorbell
  imports Admin_Requests
begin

text \<open>
  The doorbell of the admin queue: all new commands are carried out in order, and their completions stand one after the other in the ring,
  when the data of the commands lie apart from the two rings.
\<close>

section \<open>The rings\<close>

abbreviation sqd :: "'ns ctrl \<Rightarrow> nat" where "sqd c \<equiv> aq_sq_depth (the (admin_q c))"
abbreviation cqd :: "'ns ctrl \<Rightarrow> nat" where "cqd c \<equiv> aq_cq_depth (the (admin_q c))"

definition sq_base :: "'ns ctrl \<Rightarrow> nat" where "sq_base c = fst (the (aq_sq (the (admin_q c))))"
definition cq_base :: "'ns ctrl \<Rightarrow> nat" where "cq_base c = fst (the (aq_cq (the (admin_q c))))"

definition rings_apart :: "'ns ctrl \<Rightarrow> bool" where
  "rings_apart c \<longleftrightarrow> ranges_apart (sq_base c) (64 * sqd c) (cq_base c) (16 * cqd c)"

definition adm_good :: "('ns \<Rightarrow> ns_info) \<Rightarrow> build \<Rightarrow> 'ns ctrl \<Rightarrow> nat \<Rightarrow> bool" where
  "adm_good info b c eid \<longleftrightarrow> adm_admissible info b c eid \<and>
     ranges_apart (prp1 (sqe_at c eid)) (data_len (sqe_at c eid)) (sq_base c) (64 * sqd c) \<and>
     ranges_apart (prp1 (sqe_at c eid)) (data_len (sqe_at c eid)) (cq_base c) (16 * cqd c)"

text \<open>The place of the completion that comes \<open>k\<close> after the next one, and its phase.\<close>

definition cq_slot :: "'ns ctrl \<Rightarrow> nat \<Rightarrow> nat" where
  "cq_slot c k = cq_base c + 16 * ((aq_cq_head (the (admin_q c)) + k) mod cqd c)"

definition cq_phase_at :: "'ns ctrl \<Rightarrow> nat \<Rightarrow> nat" where
  "cq_phase_at c k = (aq_phase (the (admin_q c)) + (aq_cq_head (the (admin_q c)) + k) div cqd c) mod 2"

definition posted :: "'ns ctrl \<Rightarrow> 'ns ctrl \<Rightarrow> nat \<Rightarrow> nat \<Rightarrow> bool" where
  "posted c c' k eid \<longleftrightarrow> (let e = parse_cqe (chost c') (cq_slot c k); cmd = sqe_at c eid
     in ce_command_id e = command_id cmd \<and> ce_sq_head e = u16 eid \<and> ce_status e = cq_phase_at c k + 2 * adm_status cmd)"

definition same_rings :: "'ns ctrl \<Rightarrow> 'ns ctrl \<Rightarrow> bool" where
  "same_rings c c' \<longleftrightarrow> sqd c' = sqd c \<and> cqd c' = cqd c \<and> sq_base c' = sq_base c \<and> cq_base c' = cq_base c \<and>
     nspaces (cdev c') = nspaces (cdev c) \<and> (\<forall>e < sqd c. sqe_at c' e = sqe_at c e)"

lemma same_rings_good:
  assumes "same_rings c c'" "e < sqd c"
  shows "adm_good info b c' e = adm_good info b c e"
proof -
  have "sqe_at c' e = sqe_at c e" "sqe_addr c' e = sqe_addr c e" "nspaces (cdev c') = nspaces (cdev c)" "sq_base c' = sq_base c" "cq_base c' = cq_base c"
    "sqd c' = sqd c" "cqd c' = cqd c"
    using assms by (auto simp: same_rings_def sqe_addr_def sq_base_def)
  then show ?thesis by (simp add: adm_good_def adm_admissible_def)
qed

section \<open>One command\<close>

lemma one_step:
  assumes c: "adm_ok c" "rings_apart c" "eid < sqd c" "adm_good info b c eid"
  shows "\<exists>c'. proc_admin_req info b eid c = Some c' \<and> adm_ok c' \<and> same_rings c c' \<and> same_adm c (c'\<lparr>admin_q := admin_q c\<rparr>) \<and>
    admin_q c' = map_option next_cq (admin_q c) \<and> posted c c' 0 eid \<and>
    (\<forall>x. outside (prp1 (sqe_at c eid)) (data_len (sqe_at c eid)) x \<and> outside (cq_slot c 0) 16 x \<longrightarrow> chost c' x = chost c x)"
proof -
  obtain q a n b' m where q: "admin_q c = Some q" "aq_sq q = Some (a, n)" "aq_cq q = Some (b', m)" "aq_cq_head q < aq_cq_depth q" "aq_phase q \<le> 1"
    using c(1) by (auto simp: adm_ok_def)
  have "adm_admissible info b c eid" using c(4) by (simp add: adm_good_def)
  from request_ok [OF c(1,3) this] obtain c' r0 where c': "proc_admin_req info b eid c = Some c'" "adm_ok c'"
    "completed eid (command_id (sqe_at c eid)) (adm_status (sqe_at c eid)) r0 c c'" "same_adm c (c'\<lparr>admin_q := admin_q c\<rparr>)"
    and fr: "\<And>x. outside (prp1 (sqe_at c eid)) (data_len (sqe_at c eid)) x \<Longrightarrow> outside (cqe_addr c) 16 x \<Longrightarrow> chost c' x = chost c x"
    unfolding carried_out_def by blast
  have slot: "cq_slot c 0 = cqe_addr c" using q by (simp add: cq_slot_def cq_base_def cqe_addr_def)
  have aq: "admin_q c' = map_option next_cq (admin_q c)" using c'(3) by (simp add: completed_def)
  have "posted c c' 0 eid" using c'(3) q unfolding posted_def slot by (simp add: completed_def cq_phase_at_def)
  moreover have "sqe_at c' e = sqe_at c e" if e: "e < sqd c" for e
  proof -
    have r: "sq_base c \<le> sqe_addr c e" "sqe_addr c e + 64 \<le> sq_base c + 64 * sqd c" using e by (simp_all add: sqe_addr_def sq_base_def)
    have t: "cq_base c \<le> cqe_addr c" "cqe_addr c + 16 \<le> cq_base c + 16 * cqd c" using q by (simp_all add: cqe_addr_def cq_base_def)
    have "outside (prp1 (sqe_at c eid)) (data_len (sqe_at c eid)) (sqe_addr c e + i)" if "i < 64" for i
      using c(4) r that unfolding adm_good_def ranges_apart_def outside_def by linarith
    moreover have "outside (cqe_addr c) 16 (sqe_addr c e + i)" if "i < 64" for i
      using c(2) r t that unfolding rings_apart_def ranges_apart_def outside_def by linarith
    ultimately have "chost c' (sqe_addr c e + i) = chost c (sqe_addr c e + i)" if "i < 64" for i by (intro fr) (use that in blast)+
    then have "parse_cmd (chost c') (sqe_addr c e) = parse_cmd (chost c) (sqe_addr c e)" by (rule parse_cmd_cong)
    moreover have "sqe_addr c' e = sqe_addr c e" using aq q by (simp add: sqe_addr_def next_cq_def Let_def)
    ultimately show ?thesis unfolding sqe_at_def by simp
  qed
  then have "same_rings c c'" using aq q c'(4) by (simp add: same_rings_def sq_base_def cq_base_def next_cq_def Let_def same_adm_def)
  ultimately show ?thesis using c'(1,2,4) aq fr slot by auto
qed

lemma next_slot:
  assumes "adm_ok c" "admin_q c' = map_option next_cq (admin_q c)"
  shows "cq_slot c' k = cq_slot c (Suc k)" "cq_phase_at c' k = cq_phase_at c (Suc k)"
proof -
  obtain q where q: "admin_q c = Some q" "aq_cq_head q < aq_cq_depth q" "aq_phase q \<le> 1" using assms(1) by (auto simp: adm_ok_def)
  have b: "cq_base c' = cq_base c" using assms(2) q(1) by (simp add: cq_base_def next_cq_def Let_def)
  have p: "(1 - aq_phase q + x) mod 2 = (aq_phase q + Suc x) mod 2" for x
    using q(3) by (cases "aq_phase q") (auto simp: mod_2_eq_odd)
  have w: "(if aq_phase q = 0 then 1 else 0) = 1 - aq_phase q" using q(3) by auto
  show "cq_slot c' k = cq_slot c (Suc k)"
  proof (cases "Suc (aq_cq_head q) = aq_cq_depth q")
    case True
    then have e: "Suc (aq_cq_head q + k) = k + aq_cq_depth q" by simp
    show ?thesis using assms(2) q(1) b True unfolding cq_slot_def by (simp add: next_cq_def Let_def e)
  next
    case False
    then show ?thesis using assms(2) q(1) b unfolding cq_slot_def by (simp add: next_cq_def Let_def)
  qed
  show "cq_phase_at c' k = cq_phase_at c (Suc k)"
  proof (cases "Suc (aq_cq_head q) = aq_cq_depth q")
    case True
    then have e: "Suc (aq_cq_head q + k) = k + aq_cq_depth q" by simp
    have "(k + aq_cq_depth q) div aq_cq_depth q = Suc (k div aq_cq_depth q)" using div_add_self2 [of "aq_cq_depth q" k] q(2) by auto
    then show ?thesis using assms(2) q(1) True p [of "k div aq_cq_depth q"] w unfolding cq_phase_at_def by (simp add: next_cq_def Let_def e)
  next
    case False
    then show ?thesis using assms(2) q(1) unfolding cq_phase_at_def by (simp add: next_cq_def Let_def)
  qed
qed

section \<open>All commands\<close>

lemma slot_disjoint:
  assumes "adm_ok c" "0 < k" "k < cqd c" "i < 16"
  shows "outside (cq_slot c k) 16 (cq_slot c 0 + i)"
proof -
  let ?h = "aq_cq_head (the (admin_q c))"
  have h: "?h < cqd c" using assms(1) by (auto simp: adm_ok_def)
  have "(?h + k) mod cqd c \<noteq> ?h"
  proof (cases "?h + k < cqd c")
    case False
    then have "(?h + k) mod cqd c = ?h + k - cqd c" using h assms(3) by (simp add: mod_if)
    then show ?thesis using False assms(2,3) by arith
  qed (use assms(2) in simp)
  then show ?thesis using h assms(4) unfolding outside_def cq_slot_def by simp linarith
qed

lemma slot_in_ring: "adm_ok c \<Longrightarrow> cq_base c \<le> cq_slot c k \<and> cq_slot c k + 16 \<le> cq_base c + 16 * cqd c"
proof -
  assume "adm_ok c"
  then have "(aq_cq_head (the (admin_q c)) + k) mod cqd c < cqd c" by (intro mod_less_divisor) (auto simp: adm_ok_def)
  then show ?thesis by (simp add: cq_slot_def)
qed

lemma good_slot: "adm_ok c \<Longrightarrow> adm_good info b c e \<Longrightarrow> i < 16 \<Longrightarrow> outside (prp1 (sqe_at c e)) (data_len (sqe_at c e)) (cq_slot c k + i)"
  using slot_in_ring [of c k] by (auto simp: adm_good_def ranges_apart_def outside_def)

lemma admin_loop_ok:
  assumes "adm_ok c" "rings_apart c" "cur < sqd c" "n \<le> cqd c" "\<forall>k < n. adm_good info b c ((cur + k) mod sqd c)"
  shows "\<exists>c'. admin_loop info b n cur c = Some c' \<and> adm_ok c' \<and> same_rings c c' \<and> same_adm c (c'\<lparr>admin_q := admin_q c\<rparr>) \<and>
    cq_slot c' = (\<lambda>k. cq_slot c (k + n)) \<and> cq_phase_at c' = (\<lambda>k. cq_phase_at c (k + n)) \<and>
    (\<forall>k < n. posted c c' k ((cur + k) mod sqd c)) \<and>
    (\<forall>x. (\<forall>k < n. outside (prp1 (sqe_at c ((cur + k) mod sqd c))) (data_len (sqe_at c ((cur + k) mod sqd c))) x \<and> outside (cq_slot c k) 16 x) \<longrightarrow>
       chost c' x = chost c x)"
  using assms
proof (induction n arbitrary: cur c)
  case 0
  have "same_rings c c" by (simp add: same_rings_def)
  then show ?case using 0 by simp
next
  case (Suc n)
  have g0: "adm_good info b c cur" using Suc.prems(3,5) by (metis add_0_right mod_less zero_less_Suc)
  obtain c1 where c1: "proc_admin_req info b cur c = Some c1" "adm_ok c1" "same_rings c c1" "same_adm c (c1\<lparr>admin_q := admin_q c\<rparr>)"
    "admin_q c1 = map_option next_cq (admin_q c)" "posted c c1 0 cur"
    and f1: "\<And>x. outside (prp1 (sqe_at c cur)) (data_len (sqe_at c cur)) x \<Longrightarrow> outside (cq_slot c 0) 16 x \<Longrightarrow> chost c1 x = chost c x"
    using one_step [OF Suc.prems(1,2,3) g0] by blast
  let ?cur = "if Suc cur = sqd c then 0 else Suc cur"
  have d: "sqd c1 = sqd c" "cqd c1 = cqd c" using c1(3) by (simp_all add: same_rings_def)
  have cur: "?cur < sqd c1" using Suc.prems(3) d by auto
  have i: "(?cur + k) mod sqd c1 = (cur + Suc k) mod sqd c" for k
  proof (cases "Suc cur = sqd c")
    case True
    then have e: "cur + Suc k = k + sqd c" by simp
    have "(?cur + k) mod sqd c1 = k mod sqd c" using True d(1) by simp
    then show ?thesis by (simp only: e mod_add_self2)
  qed (use d in simp)
  have lt: "(cur + k) mod sqd c < sqd c" for k using Suc.prems(3) by (intro mod_less_divisor) simp
  have "adm_good info b c1 ((cur + Suc k) mod sqd c)" if "k < n" for k
    using Suc.prems(5) that same_rings_good [OF c1(3) lt, of info b "Suc k"] by blast
  then have g: "\<forall>k < n. adm_good info b c1 ((?cur + k) mod sqd c1)" unfolding i by blast
  have ra: "rings_apart c1" using Suc.prems(2) c1(3) by (simp add: rings_apart_def same_rings_def)
  note ns = next_slot [OF Suc.prems(1) c1(5)]
  obtain c' where c': "admin_loop info b n ?cur c1 = Some c'" "adm_ok c'" "same_rings c1 c'" "same_adm c1 (c'\<lparr>admin_q := admin_q c1\<rparr>)"
    "cq_slot c' = (\<lambda>k. cq_slot c1 (k + n))" "cq_phase_at c' = (\<lambda>k. cq_phase_at c1 (k + n))"
    "\<forall>k < n. posted c1 c' k ((cur + Suc k) mod sqd c)"
    and f: "\<And>x. \<forall>k < n. outside (prp1 (sqe_at c1 ((cur + Suc k) mod sqd c))) (data_len (sqe_at c1 ((cur + Suc k) mod sqd c))) x \<and>
       outside (cq_slot c1 k) 16 x \<Longrightarrow> chost c' x = chost c1 x"
    using Suc.IH [OF c1(2) ra cur _ g] Suc.prems(4) d unfolding i by auto
  have sq: "sqe_at c1 ((cur + k) mod sqd c) = sqe_at c ((cur + k) mod sqd c)" for k using c1(3) lt by (simp add: same_rings_def)
  have run: "admin_loop info b (Suc n) cur c = Some c'"
    using c1(1,2) c'(1) d by (auto simp: adm_ok_def)
  have sr: "same_rings c c'" using c1(3) c'(3) by (simp add: same_rings_def)
  have sa: "same_adm c (c'\<lparr>admin_q := admin_q c\<rparr>)" using c1(4) c'(4) by (simp add: same_adm_def)
  have p0: "posted c c' 0 cur"
  proof -
    have "outside (cq_slot c (Suc k)) 16 (cq_slot c 0 + i)" if "k < n" "i < 16" for i k
      using slot_disjoint [OF Suc.prems(1), of "Suc k" i] that Suc.prems(4) by simp
    moreover have "outside (prp1 (sqe_at c ((cur + Suc k) mod sqd c))) (data_len (sqe_at c ((cur + Suc k) mod sqd c))) (cq_slot c 0 + i)"
      if "k < n" "i < 16" for i k
      using good_slot [OF Suc.prems(1) _ that(2)] Suc.prems(5) that(1) by blast
    ultimately have "chost c' (cq_slot c 0 + i) = chost c1 (cq_slot c 0 + i)" if "i < 16" for i
      by - (rule f, unfold sq ns, use that in blast)
    then have "parse_cqe (chost c') (cq_slot c 0) = parse_cqe (chost c1) (cq_slot c 0)" by (rule cq_entries.dec_local)
    then show ?thesis using c1(6) by (simp add: posted_def)
  qed
  have ps: "posted c c' k ((cur + k) mod sqd c)" if "k < Suc n" for k
  proof (cases k)
    case 0
    then show ?thesis using p0 Suc.prems(3) by simp
  next
    case (Suc k')
    then have "posted c1 c' k' ((cur + Suc k') mod sqd c)" using c'(7) that by blast
    then show ?thesis unfolding posted_def Suc sq ns by simp
  qed
  have "chost c' x = chost c x" if o: "\<forall>k < Suc n. outside (prp1 (sqe_at c ((cur + k) mod sqd c))) (data_len (sqe_at c ((cur + k) mod sqd c))) x \<and>
     outside (cq_slot c k) 16 x" for x
  proof -
    have "chost c' x = chost c1 x" by (rule f, unfold sq ns) (use o in auto)
    also have "\<dots> = chost c x" using o Suc.prems(3) by (intro f1) (metis add_0_right mod_less zero_less_Suc)+
    finally show ?thesis .
  qed
  then show ?case using run c'(2,5,6) sr sa ps ns by (intro exI [of _ c']) (simp add: fun_eq_iff)
qed

end
