(* ===== verification/Module_Init.thy ===== *)
theory Module_Init
  imports Controller
begin

text \<open>
  The module (\<open>main.c\<close>): its parameters are checked and turned into the configuration, the storage is divided into namespaces, and the
  statistics of the queues can be read and cleared.

  The architecture's check that the memory is reserved is the parameter \<open>arch_ok\<close>. The threads, the creation and removal of the files under
  \<open>/proc\<close>, their formatting and the text of the messages are not modelled.
\<close>

section \<open>Configuration\<close>

record module_params =
  p_memmap_start :: nat
  p_memmap_size :: nat
  p_read_time :: nat
  p_read_delay :: nat
  p_read_trailing :: nat
  p_write_time :: nat
  p_write_delay :: nat
  p_write_trailing :: nat
  p_nr_io_units :: nat
  p_io_unit_shift :: nat
  p_cpus :: "string option"

record nvmev_config =
  g_memmap_start :: nat
  g_memmap_size :: nat
  g_storage_start :: nat
  g_storage_size :: nat
  g_cpu_nr_dispatcher :: nat
  g_cpu_nr_io_workers :: "nat list"
  g_nr_io_units :: nat
  g_io_unit_shift :: nat
  g_read_delay :: nat
  g_read_time :: nat
  g_read_trailing :: nat
  g_write_delay :: nat
  g_write_time :: nat
  g_write_trailing :: nat

datatype errno = EINVAL | EPERM

definition validate_configs :: "(nat \<Rightarrow> nat \<Rightarrow> bool) \<Rightarrow> module_params \<Rightarrow> errno option" where
  "validate_configs arch_ok p =
     (if p_memmap_start p = 0 then Some EINVAL
      else if p_memmap_size p = 0 then Some EINVAL
      else if p_memmap_size p \<le> MB 1 then Some EINVAL
      else if \<not> arch_ok (p_memmap_start p) (p_memmap_size p) then Some EPERM
      else if p_nr_io_units p = 0 \<or> p_io_unit_shift p = 0 then Some EINVAL
      else if p_read_time p = 0 then Some EINVAL
      else if p_write_time p = 0 then Some EINVAL
      else None)"

text \<open>\<open>strsep\<close> splits at every comma; \<open>simple_strtol\<close> reads an optional minus sign and decimal digits.\<close>

fun split_commas :: "string \<Rightarrow> string list" where
  "split_commas [] = [[]]"
| "split_commas (ch # s) = (if ch = CHR '','' then [] # split_commas s
     else case split_commas s of [] \<Rightarrow> [[ch]] | t # ts \<Rightarrow> (ch # t) # ts)"

definition is_digit :: "char \<Rightarrow> bool" where "is_digit ch \<longleftrightarrow> 48 \<le> (of_char ch :: nat) \<and> (of_char ch :: nat) \<le> 57"

definition decimal :: "string \<Rightarrow> nat" where
  "decimal s = fold (\<lambda>ch v. v * 10 + (of_char ch - 48)) (takeWhile is_digit s) 0"

definition parse_cpu :: "string \<Rightarrow> nat" where
  "parse_cpu s = (case s of ch # r \<Rightarrow> if ch = CHR ''-'' then sub32 0 (decimal r) else u32 (decimal s) | [] \<Rightarrow> 0)"

text \<open>The loop over the list of processors: the first is the dispatcher's, the others are put into an array of 32.\<close>

fun cpu_loop :: "string list \<Rightarrow> bool \<Rightarrow> nvmev_config \<Rightarrow> nvmev_config option" where
  "cpu_loop [] first g = Some g"
| "cpu_loop (s # ss) first g =
     (if first then cpu_loop ss False (g\<lparr>g_cpu_nr_dispatcher := parse_cpu s\<rparr>)
      else do {
        NVMEV_ASSERT (length (g_cpu_nr_io_workers g) < 32);
        cpu_loop ss False (g\<lparr>g_cpu_nr_io_workers := g_cpu_nr_io_workers g @ [parse_cpu s]\<rparr>) })"

text \<open>The result inside is \<open>None\<close> when the parameters are refused. In the key-value build the table is taken off the size.\<close>

definition load_configs :: "(nat \<Rightarrow> nat \<Rightarrow> bool) \<Rightarrow> bool \<Rightarrow> nat \<Rightarrow> module_params \<Rightarrow> nvmev_config option option" where
  "load_configs arch_ok kv_build table_size p =
     (if validate_configs arch_ok p \<noteq> None then Some None
      else let memmap_size = (if kv_build then sub64 (p_memmap_size p) table_size else p_memmap_size p);
               g = \<lparr>g_memmap_start = p_memmap_start p, g_memmap_size = memmap_size, g_storage_start = u64 (p_memmap_start p + MB 1),
                    g_storage_size = sub64 memmap_size (MB 1), g_cpu_nr_dispatcher = 2 ^ 32 - 1, g_cpu_nr_io_workers = [],
                    g_nr_io_units = p_nr_io_units p, g_io_unit_shift = p_io_unit_shift p, g_read_delay = p_read_delay p,
                    g_read_time = p_read_time p, g_read_trailing = p_read_trailing p, g_write_delay = p_write_delay p,
                    g_write_time = p_write_time p, g_write_trailing = p_write_trailing p\<rparr>
           in map_option Some (cpu_loop (case p_cpus p of None \<Rightarrow> [] | Some s \<Rightarrow> split_commas s) True g))"

section \<open>Namespaces\<close>

record ns_slot =
  sl_type :: nat
  sl_size :: nat
  sl_addr :: nat
  sl_logical :: nat

definition SSD_TYPE_NVM :: nat where "SSD_TYPE_NVM = 0"
definition SSD_TYPE_CONV :: nat where "SSD_TYPE_CONV = 1"
definition SSD_TYPE_KV :: nat where "SSD_TYPE_KV = 3"

text \<open>The size that the host sees: in a conventional namespace the part used as SLC counts a third.\<close>

definition logical_size :: "nat \<Rightarrow> nat \<Rightarrow> nat \<Rightarrow> nat" where
  "logical_size slc ty sz = (if ty = SSD_TYPE_CONV then u64 (u64 ((100 - slc) * sz) + u64 (slc * sz) div 3) div 100 else sz)"

definition ns_step :: "nat \<Rightarrow> nat list \<Rightarrow> nat list \<Rightarrow> nat \<Rightarrow> ns_slot list \<times> nat \<times> nat \<Rightarrow> (ns_slot list \<times> nat \<times> nat) option" where
  "ns_step slc types caps i s = (let (ns, remaining_capacity, ns_addr) = s in do {
     cap \<leftarrow> idx caps i;
     ty \<leftarrow> idx types i;
     NVMEV_ASSERT (ty \<le> 3);
     let sz = (if cap = 0 then remaining_capacity else min cap remaining_capacity)
     in Some (ns @ [\<lparr>sl_type = ty, sl_size = sz, sl_addr = ns_addr, sl_logical = logical_size slc ty sz\<rparr>],
              sub64 remaining_capacity sz, ns_addr + sz) })"

definition nvmev_namespace_init :: "nat \<Rightarrow> nat list \<Rightarrow> nat list \<Rightarrow> nat \<Rightarrow> nat \<Rightarrow> nat \<Rightarrow> ns_slot list option" where
  "nvmev_namespace_init slc types caps nr_ns storage_size storage_mapped =
     map_option fst (foldM (ns_step slc types caps) [0..<nr_ns] ([], storage_size, storage_mapped))"

section \<open>Statistics\<close>

definition get_nr_entries :: "'ns ctrl \<Rightarrow> nat \<Rightarrow> nat \<Rightarrow> int option" where
  "get_nr_entries c i queue_size = do {
     n \<leftarrow> idx (dbs c) i;
     p \<leftarrow> idx (old_dbs c) i;
     let diff = s32 (sub32 n p)
     in Some (if diff < 0 then diff + int queue_size else diff) }"

text \<open>Reading the file \<open>stat\<close> gives one line for each queue and the totals, and restarts the maxima.\<close>

record stat_line =
  sn_queue :: nat
  sn_entries :: int
  sn_stat :: nvmev_sq_stat

definition stat_step :: "nat \<Rightarrow> (stat_line list \<times> nvmev_sq_stat) \<times> 'ns ctrl \<Rightarrow> ((stat_line list \<times> nvmev_sq_stat) \<times> 'ns ctrl) option" where
  "stat_step i s = (let ((out, tot), c) = s in do {
     q \<leftarrow> idx (sqes (cdev c)) i;
     case q of None \<Rightarrow> Some ((out, tot), c)
     | Some sq \<Rightarrow> do {
         e \<leftarrow> get_nr_entries c (i * 2) (sq_size sq);
         let st = sq_st sq;
             tot = tot\<lparr>nr_in_flight := u32 (nr_in_flight tot + nr_in_flight st), nr_dispatch := u32 (nr_dispatch tot + nr_dispatch st),
                       nr_dispatched := u32 (nr_dispatched tot + nr_dispatched st), total_io := u64 (total_io tot + total_io st)\<rparr>
         in do {
           c \<leftarrow> set_sq i (Some (sq\<lparr>sq_st := st\<lparr>max_nr_in_flight := 0\<rparr>\<rparr>)) c;
           Some ((out @ [\<lparr>sn_queue = i, sn_entries = e, sn_stat = st\<rparr>], tot), c) } } })"

definition proc_read_stat :: "'ns ctrl \<Rightarrow> ((stat_line list \<times> nvmev_sq_stat) \<times> 'ns ctrl) option" where
  "proc_read_stat c = foldM stat_step [1..<nr_sq c + 1] (([], zero_stat), c)"

definition proc_write_stat :: "'ns ctrl \<Rightarrow> 'ns ctrl option" where
  "proc_write_stat c = foldM (\<lambda>i c. do {
     q \<leftarrow> idx (sqes (cdev c)) i;
     case q of None \<Rightarrow> Some c | Some sq \<Rightarrow> set_sq i (Some (sq\<lparr>sq_st := zero_stat\<rparr>)) c }) [1..<nr_sq c + 1] c"

end
