(* ===== verification/Controller_Laws.thy ===== *)
theory Controller_Laws
  imports Admin_Doorbell Module_Init
begin

text \<open>
  The registers that the dispatcher polls, the configuration space of the PCI device, and the division of the storage into namespaces.
\<close>

section \<open>Registers\<close>

text \<open>The dispatcher has taken over every register.\<close>

definition regs_settled :: "'ns ctrl \<Rightarrow> bool" where
  "regs_settled c \<longleftrightarrow> r_aqa (old_bar c) = r_aqa (bar c) \<and> r_asq (old_bar c) = r_asq (bar c) \<and> r_acq (old_bar c) = r_acq (bar c) \<and>
     r_cc (old_bar c) = r_cc (bar c)"

fun polls :: "nat \<Rightarrow> 'ns ctrl \<Rightarrow> 'ns ctrl option" where
  "polls 0 c = Some c"
| "polls (Suc n) c = do { (u, c) \<leftarrow> nvmev_proc_bars c; polls n c }"

text \<open>The registers were written in an order that the dispatcher can follow.\<close>

definition pollable :: "'ns ctrl \<Rightarrow> bool" where
  "pollable c \<longleftrightarrow> admin_q c \<noteq> None \<or> r_aqa (old_bar c) \<noteq> r_aqa (bar c) \<or>
     r_asq (old_bar c) = r_asq (bar c) \<and> r_acq (old_bar c) = r_acq (bar c) \<and> (r_cc (old_bar c) = r_cc (bar c) \<or> cc_shn (r_cc (bar c)) \<noteq> 1)"

definition doorbells_ok :: "'ns ctrl \<Rightarrow> bool" where
  "doorbells_ok c \<longleftrightarrow> 2 \<le> length (dbs c) \<and> 2 \<le> length (old_dbs c)"

definition diffs :: "'ns ctrl \<Rightarrow> nat" where
  "diffs c = of_bool (r_aqa (old_bar c) \<noteq> r_aqa (bar c)) + of_bool (r_asq (old_bar c) \<noteq> r_asq (bar c)) +
     of_bool (r_acq (old_bar c) \<noteq> r_acq (bar c)) + of_bool (r_cc (old_bar c) \<noteq> r_cc (bar c))"

definition same_request :: "'ns ctrl \<Rightarrow> 'ns ctrl \<Rightarrow> bool" where
  "same_request c c' \<longleftrightarrow> r_aqa (bar c') = r_aqa (bar c) \<and> r_asq (bar c') = r_asq (bar c) \<and> r_acq (bar c') = r_acq (bar c) \<and> r_cc (bar c') = r_cc (bar c)"

lemma diffs_settled: "diffs c = 0 \<longleftrightarrow> regs_settled c"
  by (auto simp: diffs_def regs_settled_def)

lemma settled_stays: "regs_settled c \<Longrightarrow> nvmev_proc_bars c = Some (False, c)"
  by (simp add: regs_settled_def nvmev_proc_bars_def)

lemma polls_settled: "regs_settled c \<Longrightarrow> polls n c = Some c"
  by (induction n) (simp_all add: settled_stays)

lemma upd_db_low: "doorbells_ok c \<Longrightarrow> i \<le> 1 \<Longrightarrow> upd_db i v c = Some (c\<lparr>dbs := (dbs c)[i := v], old_dbs := (old_dbs c)[i := v]\<rparr>)"
  by (simp add: doorbells_ok_def upd_db_def)

text \<open>What each register does to the registers, the doorbells and the admin queue.\<close>

definition takes :: "(ctrl_regs \<Rightarrow> ctrl_regs) \<Rightarrow> 'ns ctrl \<Rightarrow> 'ns ctrl option \<Rightarrow> bool" where
  "takes f c r \<longleftrightarrow> (\<exists>c'. r = Some c' \<and> doorbells_ok c' \<and> same_request c c' \<and> old_bar c' = f (old_bar c) \<and> (admin_q c \<noteq> None \<longrightarrow> admin_q c' \<noteq> None))"

lemma bar_ok:
  assumes "doorbells_ok c"
  shows "takes (\<lambda>r. r\<lparr>r_aqa := r_aqa (bar c)\<rparr>) c (bar_aqa c)" "\<exists>c'. bar_aqa c = Some c' \<and> admin_q c' \<noteq> None"
    "takes (\<lambda>r. r\<lparr>r_asq := r_asq (bar c)\<rparr>) c (bar_asq q c)" "takes (\<lambda>r. r\<lparr>r_acq := r_acq (bar c)\<rparr>) c (bar_acq q c)"
    "admin_q c \<noteq> None \<or> cc_shn (r_cc (bar c)) \<noteq> 1 \<Longrightarrow> takes (\<lambda>r. r\<lparr>r_cc := r_cc (bar c)\<rparr>) c (bar_cc c)"
proof -
  have d: "2 \<le> length (dbs c)" "2 \<le> length (old_dbs c)" "dbs c \<noteq> []" "old_dbs c \<noteq> []" "Suc 0 < length (dbs c)" "Suc 0 < length (old_dbs c)"
    using assms by (auto simp: doorbells_ok_def)
  note u = takes_def upd_db_def doorbells_ok_def same_request_def Let_def
  show "takes (\<lambda>r. r\<lparr>r_aqa := r_aqa (bar c)\<rparr>) c (bar_aqa c)" "\<exists>c'. bar_aqa c = Some c' \<and> admin_q c' \<noteq> None"
    "takes (\<lambda>r. r\<lparr>r_asq := r_asq (bar c)\<rparr>) c (bar_asq q c)" "takes (\<lambda>r. r\<lparr>r_acq := r_acq (bar c)\<rparr>) c (bar_acq q c)"
    using d by (simp_all add: u bar_aqa_def bar_asq_def bar_acq_def)
  show "takes (\<lambda>r. r\<lparr>r_cc := r_cc (bar c)\<rparr>) c (bar_cc c)" if "admin_q c \<noteq> None \<or> cc_shn (r_cc (bar c)) \<noteq> 1"
    using d that by (cases "cc_shn (r_cc (bar c)) = 1") (auto simp: u bar_cc_def)
qed

lemma poll_step:
  assumes "doorbells_ok c" "pollable c" "\<not> regs_settled c"
  shows "\<exists>c'. nvmev_proc_bars c = Some (True, c') \<and> doorbells_ok c' \<and> pollable c' \<and> diffs c = Suc (diffs c') \<and> same_request c c'"
proof -
  note b = bar_ok [OF assms(1)]
  have take: ?thesis
    if t: "takes f c r" "nvmev_proc_bars c = map_option (Pair True) r" "diffs (c\<lparr>old_bar := f (old_bar c)\<rparr>) + 1 = diffs c"
      "\<And>c'. r = Some c' \<Longrightarrow> admin_q c \<noteq> None \<Longrightarrow> admin_q c' \<noteq> None \<Longrightarrow> pollable c'" "admin_q c = None \<Longrightarrow> \<forall>c'. r = Some c' \<longrightarrow> pollable c'" for f r
  proof -
    obtain c' where c': "r = Some c'" "doorbells_ok c'" "same_request c c'" "old_bar c' = f (old_bar c)" "admin_q c \<noteq> None \<longrightarrow> admin_q c' \<noteq> None"
      using t(1) unfolding takes_def by blast
    have "diffs c' = diffs (c\<lparr>old_bar := f (old_bar c)\<rparr>)" using c'(3,4) by (simp add: diffs_def same_request_def)
    moreover have "pollable c'" using t(4,5) c'(1,5) by blast
    ultimately show ?thesis using t(2,3) c'(1-3) by (intro exI [of _ c']) simp
  qed
  have p: "admin_q c' \<noteq> None \<Longrightarrow> pollable c'" for c' :: "'a ctrl" by (simp add: pollable_def)
  consider "r_aqa (old_bar c) \<noteq> r_aqa (bar c)" | "r_aqa (old_bar c) = r_aqa (bar c)" "r_asq (old_bar c) \<noteq> r_asq (bar c)"
    | "r_aqa (old_bar c) = r_aqa (bar c)" "r_asq (old_bar c) = r_asq (bar c)" "r_acq (old_bar c) \<noteq> r_acq (bar c)"
    | "r_aqa (old_bar c) = r_aqa (bar c)" "r_asq (old_bar c) = r_asq (bar c)" "r_acq (old_bar c) = r_acq (bar c)" "r_cc (old_bar c) \<noteq> r_cc (bar c)"
    using assms(3) by (auto simp: regs_settled_def)
  then show ?thesis
  proof cases
    case 1
    show ?thesis
      by (rule take [OF b(1)]) (use 1 b(2) in \<open>auto simp: nvmev_proc_bars_def diffs_def intro!: p\<close>)
  next
    case 2
    then obtain q where q: "admin_q c = Some q" using assms(2) by (auto simp: pollable_def)
    show ?thesis by (rule take [OF b(3) [of q]]) (use 2 q in \<open>simp_all add: nvmev_proc_bars_def diffs_def p\<close>)
  next
    case 3
    then obtain q where q: "admin_q c = Some q" using assms(2) by (auto simp: pollable_def)
    show ?thesis by (rule take [OF b(4) [of q]]) (use 3 q in \<open>simp_all add: nvmev_proc_bars_def diffs_def p\<close>)
  next
    case 4
    then have s: "admin_q c \<noteq> None \<or> cc_shn (r_cc (bar c)) \<noteq> 1" using assms(2) by (auto simp: pollable_def)
    have "pollable c'" if "bar_cc c = Some c'" for c'
      using b(5) [OF s] that 4 by (simp add: takes_def pollable_def same_request_def)
    then show ?thesis by (intro take [OF b(5) [OF s]]) (use 4 in \<open>simp_all add: nvmev_proc_bars_def diffs_def\<close>)
  qed
qed

lemma polls_settle:
  assumes "doorbells_ok c" "pollable c" "diffs c \<le> n"
  shows "\<exists>c'. polls n c = Some c' \<and> regs_settled c' \<and> same_request c c'"
  using assms
proof (induction n arbitrary: c)
  case 0
  then show ?case by (simp add: diffs_settled same_request_def)
next
  case (Suc n)
  show ?case
  proof (cases "regs_settled c")
    case True
    then show ?thesis using polls_settled [OF True] by (simp add: same_request_def)
  next
    case False
    obtain c1 where c1: "nvmev_proc_bars c = Some (True, c1)" "doorbells_ok c1" "pollable c1" "diffs c = Suc (diffs c1)" "same_request c c1"
      using poll_step [OF Suc.prems(1,2) False] by blast
    then obtain c' where "polls n c1 = Some c'" "regs_settled c'" "same_request c1 c'" using Suc.IH [OF c1(2,3)] Suc.prems(3) by auto
    then show ?thesis using c1(1,5) by (auto simp: same_request_def)
  qed
qed

lemma unpollable:
  assumes "doorbells_ok c" "\<not> pollable c"
  shows "polls n c = Some c' \<Longrightarrow> \<not> regs_settled c'"
proof -
  have n: "admin_q c = None" "r_aqa (old_bar c) = r_aqa (bar c)" "\<not> regs_settled c" using assms(2) by (auto simp: pollable_def regs_settled_def)
  show "polls n c = Some c' \<Longrightarrow> \<not> regs_settled c'"
  proof (cases "r_asq (old_bar c) = r_asq (bar c) \<and> r_acq (old_bar c) = r_acq (bar c)")
    case True
    then have "r_cc (old_bar c) \<noteq> r_cc (bar c)" "cc_shn (r_cc (bar c)) = 1" using assms(2) by (auto simp: pollable_def)
    then have "nvmev_proc_bars c = None" using n True by (auto simp: nvmev_proc_bars_def bar_cc_def Let_def upd_db_def)
    then show "polls n c = Some c' \<Longrightarrow> \<not> regs_settled c'" using n(3) by (cases n) auto
  next
    case False
    then have s: "nvmev_proc_bars c = Some (True, c)" using n by (auto simp: nvmev_proc_bars_def)
    have "polls n c = Some c" by (induction n) (simp_all add: s)
    then show "polls n c = Some c' \<Longrightarrow> \<not> regs_settled c'" using n(3) by simp
  qed
qed

lemma diffs_le: "diffs c \<le> 4"
  by (simp add: diffs_def)

text \<open>The host sets up the admin queue and enables the controller.\<close>

definition request :: "nat \<Rightarrow> nat \<Rightarrow> nat \<Rightarrow> nat \<Rightarrow> 'ns ctrl \<Rightarrow> 'ns ctrl" where
  "request aqa asq acq cc c = c\<lparr>bar := (bar c)\<lparr>r_aqa := aqa, r_asq := asq, r_acq := acq, r_cc := cc\<rparr>\<rparr>"

lemma set_rdy: "set_field 0 1 1 x mod 2 = 1"
  by (simp add: set_field_def minus_mod_eq_mult_div mod_Suc)

lemma map_queue_fits: "0 < e \<Longrightarrow> e dvd PAGE_SIZE \<Longrightarrow> map_queue a d e = (b, n) \<Longrightarrow> d \<le> PAGE_SIZE div e * n"
proof -
  assume "0 < e" "e dvd PAGE_SIZE" "map_queue a d e = (b, n)"
  then have n: "n = DIV_ROUND_UP (d * e) PAGE_SIZE" by (simp add: map_queue_def)
  have "d * e \<le> n * PAGE_SIZE" unfolding n using DIV_ROUND_UP_mult_ge [of PAGE_SIZE "d * e"] by (simp add: PAGE_SIZE_def mult.commute)
  then have "d * e \<le> n * (PAGE_SIZE div e) * e" using \<open>e dvd PAGE_SIZE\<close> by (metis dvd_div_mult_self mult.assoc)
  then show ?thesis using \<open>0 < e\<close> by (simp add: mult.commute)
qed

lemma enable_run:
  assumes c: "adm_ok c \<or> admin_q c = None \<and> length (dbs c) = 1024 \<and> length (old_dbs c) = 1024 \<and> length (sqes (cdev c)) = NR_MAX_IO_QUEUE + 1 \<and>
      length (cqes (cdev c)) = NR_MAX_IO_QUEUE + 1"
    and ch: "r_aqa (old_bar c) \<noteq> aqa" "r_asq (old_bar c) \<noteq> asq" "r_acq (old_bar c) \<noteq> acq" "r_cc (old_bar c) \<noteq> cc" "cc_en cc = 1" "cc_shn cc \<noteq> 1"
  shows "\<exists>c'. polls 4 (request aqa asq acq cc c) = Some c' \<and> adm_ok c' \<and> regs_settled c' \<and> r_csts (bar c') mod 2 = 1 \<and>
    admin_q c' = Some \<lparr>aq_phase = 1, aq_sq_depth = aqa_asqs aqa + 1, aq_cq_depth = aqa_acqs aqa + 1, aq_cq_head = 0,
      aq_sq = Some (map_queue asq (aqa_asqs aqa + 1) 64), aq_cq = Some (map_queue acq (aqa_acqs aqa + 1) 16)\<rparr> \<and>
    dbs c' ! 0 = 0 \<and> dbs c' ! 1 = 0 \<and> old_dbs c' ! 0 = 0 \<and> old_dbs c' ! 1 = 0 \<and> cdev c' = cdev c \<and> pci_cfg c' = pci_cfg c"
proof -
  have l: "length (dbs c) = 1024" "length (old_dbs c) = 1024" "length (sqes (cdev c)) = NR_MAX_IO_QUEUE + 1" "length (cqes (cdev c)) = NR_MAX_IO_QUEUE + 1"
    using c by (auto simp: adm_ok_def)
  obtain a n where a: "map_queue asq (aqa_asqs aqa + 1) 64 = (a, n)" by fastforce
  obtain b m where b: "map_queue acq (aqa_acqs aqa + 1) 16 = (b, m)" by fastforce
  have f: "Suc (aqa_asqs aqa) \<le> 64 * n" "Suc (aqa_acqs aqa) \<le> 256 * m"
    using map_queue_fits [OF _ _ a] map_queue_fits [OF _ _ b] by (simp_all add: PAGE_SIZE_def)
  have a': "map_queue asq (Suc (aqa_asqs aqa)) 64 = (a, n)" "map_queue acq (Suc (aqa_acqs aqa)) 16 = (b, m)" using a b by simp_all
  have four: "polls 4 x = do { (u, x) \<leftarrow> nvmev_proc_bars x; (u, x) \<leftarrow> nvmev_proc_bars x; (u, x) \<leftarrow> nvmev_proc_bars x; (u, x) \<leftarrow> nvmev_proc_bars x; Some x }"
    for x :: "'a ctrl" by (simp add: numeral_eq_Suc case_prod_unfold)
  show ?thesis
    using ch l f unfolding four
    by (cases "admin_q c")
      (simp_all add: request_def nvmev_proc_bars_def bar_aqa_def bar_asq_def bar_acq_def bar_cc_def upd_db_def Let_def adm_ok_def regs_settled_def set_rdy [unfolded One_nat_def] a' no_queue_def)
qed

section \<open>Configuration space\<close>

text \<open>The value of the bytes at a place of the configuration space.\<close>

definition cfg_at :: "nat list \<Rightarrow> nat \<Rightarrow> nat \<Rightarrow> nat" where
  "cfg_at pg off n = le_at n (\<lambda>k. pg ! k) off"

lemma pci_read_ok: "off + n \<le> length (pci_cfg c) \<Longrightarrow> nvmev_pci_read 0 off n c = Some (0, cfg_at (pci_cfg c) off n)"
  by (auto simp: nvmev_pci_read_def slice_def cfg_at_def le_at_def intro!: foldr_cong)

lemma put_cfg_nth:
  assumes "off + length bs \<le> length pg" "i < length pg"
  shows "put_cfg off bs pg ! i = (if outside off (length bs) i then pg ! i else bs ! (i - off))" "length (put_cfg off bs pg) = length pg"
  using assms by (auto simp: put_cfg_def nth_append outside_def min_def)

lemma cfg_at_put:
  assumes "off + n \<le> length pg"
  shows "cfg_at (put_cfg off (le_bytes n v) pg) off n = v mod 256 ^ n"
  unfolding cfg_at_def
proof (rule le_at_value)
  fix i assume "i < n"
  then show "put_cfg off (le_bytes n v) pg ! (off + i) = v div 256 ^ i mod 256"
    using put_cfg_nth(1) [of off "le_bytes n v" pg "off + i"] assms by (simp add: outside_def) (simp add: le_bytes_def)
qed

text \<open>The value that is stored, and what else a write changes: the bit of the interrupt status when interrupts are enabled again.\<close>

definition merged :: "nat \<Rightarrow> nat \<Rightarrow> nat \<Rightarrow> nat" where
  "merged off val new = u32 (or (and val (2 ^ 32 - 1 - write_mask off)) (and new (write_mask off)))"

lemma pci_write_run:
  assumes "off + n \<le> length (pci_cfg c)" "n \<le> 4" "6 < length (pci_cfg c)"
  shows "\<exists>c' pg. nvmev_pci_write off n new c = Some c' \<and> pci_cfg c' = put_cfg off (le_bytes n (merged off (cfg_at (pci_cfg c) off n) new)) pg \<and>
    length pg = length (pci_cfg c) \<and> (\<forall>i. i < length pg \<and> (i \<noteq> 6 \<or> off \<noteq> 4) \<longrightarrow> pg ! i = pci_cfg c ! i)"
proof -
  have v: "le_at n (\<lambda>k. take n (drop off (pci_cfg c)) ! k) 0 = cfg_at (pci_cfg c) off n"
    using assms(1) by (auto simp: cfg_at_def le_at_def intro!: foldr_cong)
  let ?pg = "if off = 4 \<and> odd ((cfg_at (pci_cfg c) off n XOR new) div 0x400) \<and> \<not> odd (new div 0x400) then modl (pci_cfg c) 6 (set_field 3 1 0) else pci_cfg c"
  have p: "length ?pg = length (pci_cfg c)" "\<forall>i. i < length ?pg \<and> (i \<noteq> 6 \<or> off \<noteq> 4) \<longrightarrow> ?pg ! i = pci_cfg c ! i" by (simp_all add: nth_modl)
  have "\<exists>c'. nvmev_pci_write off n new c = Some c' \<and> pci_cfg c' = put_cfg off (le_bytes n (merged off (cfg_at (pci_cfg c) off n) new)) ?pg"
  proof (cases "off = 4")
    case True
    show ?thesis using assms v [unfolded True] unfolding True by (simp add: nvmev_pci_write_def slice_def merged_def Let_def OFFS_PCI_MSIX_CAP_def)
  next
    case False
    then show ?thesis using assms by (simp add: nvmev_pci_write_def slice_def v merged_def Let_def OFFS_PCI_MSIX_CAP_def)
  qed
  with p show ?thesis by blast
qed

text \<open>A byte of a structure is in the last field that covers it.\<close>

lemma struct_at:
  assumes "\<forall>x \<in> set fs. fst x + length (snd x) \<le> n" "i < n"
  shows "struct_bytes n fs ! i = (case find (\<lambda>x. fst x \<le> i \<and> i < fst x + length (snd x)) (rev fs) of Some x \<Rightarrow> snd x ! (i - fst x) | None \<Rightarrow> 0)"
  using assms
proof (induction fs rule: rev_induct)
  case Nil
  then show ?case by (simp add: struct_bytes_def)
next
  case (snoc x fs)
  let ?pg = "struct_bytes n fs"
  have l: "length ?pg = n" by (rule length_struct) (use snoc.prems in simp)
  have "struct_bytes n (fs @ [x]) = put_cfg (fst x) (snd x) ?pg" by (simp add: struct_bytes_def put_cfg_def case_prod_beta)
  then have "struct_bytes n (fs @ [x]) ! i = (if outside (fst x) (length (snd x)) i then ?pg ! i else snd x ! (i - fst x))"
    using put_cfg_nth(1) [of "fst x" "snd x" ?pg i] snoc.prems l by simp
  moreover have "outside (fst x) (length (snd x)) i \<longleftrightarrow> \<not> (fst x \<le> i \<and> i < fst x + length (snd x))" by (auto simp: outside_def)
  ultimately show ?case using snoc.IH snoc.prems by simp
qed

text \<open>How the host walks the two lists of capabilities: pairs of the place and the identifier.\<close>

fun cap_list :: "nat \<Rightarrow> nat list \<Rightarrow> nat \<Rightarrow> (nat \<times> nat) list" where
  "cap_list 0 pg p = []"
| "cap_list (Suc n) pg p = (if p = 0 then [] else (p, pg ! p) # cap_list n pg (pg ! (p + 1)))"

fun ext_cap_list :: "nat \<Rightarrow> nat list \<Rightarrow> nat \<Rightarrow> (nat \<times> nat) list" where
  "ext_cap_list 0 pg p = []"
| "ext_cap_list (Suc n) pg p = (if p = 0 then [] else (p, cfg_at pg p 2) # ext_cap_list n pg (cfg_at pg (p + 2) 2 div 2 ^ 4))"

lemma pci_space_fits:
  "\<forall>x \<in> set (pci_header_settings a @ pci_pmcap_settings @ pci_msixcap_settings @ pci_pciecap_settings @ pci_extcap_settings).
     fst x + length (snd x) \<le> PAGE_SIZE"
  by (simp add: pci_header_settings_def pci_pmcap_settings_def pci_msixcap_settings_def pci_pciecap_settings_def pci_extcap_settings_def ext_cap_def
    OFFS_PCI_PM_CAP_def OFFS_PCI_MSIX_CAP_def OFFS_PCIE_CAP_def OFFS_PCI_EXT_CAP_def PAGE_SIZE_def)

lemma length_pci_space: "length (pci_space a) = 4096"
  unfolding pci_space_def by (subst length_struct [OF pci_space_fits]) (simp add: PAGE_SIZE_def)

lemmas pci_settings = pci_header_settings_def pci_pmcap_settings_def pci_msixcap_settings_def pci_pciecap_settings_def pci_extcap_settings_def ext_cap_def
  OFFS_PCI_PM_CAP_def OFFS_PCI_MSIX_CAP_def OFFS_PCIE_CAP_def OFFS_PCI_EXT_CAP_def

lemma pci_space_at: "i < 4096 \<Longrightarrow> pci_space a ! i =
   (case find (\<lambda>x. fst x \<le> i \<and> i < fst x + length (snd x)) (rev (pci_header_settings a @ pci_pmcap_settings @ pci_msixcap_settings @
      pci_pciecap_settings @ pci_extcap_settings)) of Some x \<Rightarrow> snd x ! (i - fst x) | None \<Rightarrow> 0)"
  unfolding pci_space_def by (rule struct_at [OF pci_space_fits]) (simp add: PAGE_SIZE_def)

lemma cap_list_num: "cap_list (numeral n) pg p = (if p = 0 then [] else (p, pg ! p) # cap_list (pred_numeral n) pg (pg ! (p + 1)))"
  by (simp add: numeral_eq_Suc)

lemma ext_cap_list_num:
  "ext_cap_list (numeral n) pg p = (if p = 0 then [] else (p, cfg_at pg p 2) # ext_cap_list (pred_numeral n) pg (cfg_at pg (p + 2) 2 div 2 ^ 4))"
  by (simp add: numeral_eq_Suc)

lemma cfg_at_2: "cfg_at pg p 2 = pg ! p + 256 * pg ! Suc p"
  by (simp add: cfg_at_def le_at_def upt_rec)

lemma le_bytes_2: "le_bytes 2 v = [v mod 256, v div 256 mod 256]"
  by (simp add: le_bytes_def upt_rec)

lemma pci_bytes:
  "pci_space a ! 52 = 0x40" "pci_space a ! 0x40 = 1" "pci_space a ! 0x41 = 0x50" "pci_space a ! 0x50 = 0x11" "pci_space a ! 0x51 = 0x60"
  "pci_space a ! 0x60 = 0x10" "pci_space a ! 0x61 = 0"
  by (simp_all add: pci_space_at pci_settings)

lemma pci_caps: "cap_list 8 (pci_space a) (pci_space a ! 52) = [(0x40, 0x01), (0x50, 0x11), (0x60, 0x10)]"
  by (simp add: cap_list_num pci_bytes)

lemma pci_ext_bytes:
  "cfg_at (pci_space a) 256 2 = 1" "cfg_at (pci_space a) 258 2 = 1 + (256 + 0x50) * 2 ^ 4"
  "cfg_at (pci_space a) 336 2 = 2" "cfg_at (pci_space a) 338 2 = 1 + (256 + 0x80) * 2 ^ 4"
  "cfg_at (pci_space a) 384 2 = 4" "cfg_at (pci_space a) 386 2 = 1 + (256 + 0x90) * 2 ^ 4"
  "cfg_at (pci_space a) 400 2 = 0x0E" "cfg_at (pci_space a) 402 2 = 1 + (256 + 0x170) * 2 ^ 4"
  "cfg_at (pci_space a) 624 2 = 3" "cfg_at (pci_space a) 626 2 = 1 + (256 + 0x1a0) * 2 ^ 4"
  "cfg_at (pci_space a) 672 2 = 0x19" "cfg_at (pci_space a) 674 2 = 1"
  by (simp_all add: cfg_at_2 pci_space_at pci_settings le_bytes_2)

lemma pci_ext_caps: "ext_cap_list 8 (pci_space a) OFFS_PCI_EXT_CAP = [(256, 0x01), (336, 0x02), (384, 0x04), (400, 0x0E), (624, 0x03), (672, 0x19)]"
  by (simp add: ext_cap_list_num OFFS_PCI_EXT_CAP_def pci_ext_bytes)

text \<open>The first base address: the low 14 bits cannot be written.\<close>

lemma pci_bar: "cfg_at (pci_space a) 16 4 = 4 + u32 a div 2 ^ 14 * 2 ^ 14"
proof -
  let ?v = "4 + u32 a div 2 ^ 14 * 2 ^ 14"
  have "pci_space a ! (16 + i) = ?v div 256 ^ i mod 256" if "i < 4" for i
  proof -
    have "i = 0 \<or> i = 1 \<or> i = 2 \<or> i = 3" using that by auto
    then show ?thesis by (elim disjE) (simp_all add: pci_space_at pci_settings le_bytes_def)
  qed
  then have "cfg_at (pci_space a) 16 4 = ?v mod 256 ^ 4" unfolding cfg_at_def by (rule le_at_value)
  moreover have "u32 a < 2 ^ 32" by (rule u_bound)
  then have "u32 a div 2 ^ 14 < 2 ^ 18" by (simp add: div_less_iff_less_mult)
  then have "?v < 256 ^ 4" by simp
  ultimately show ?thesis by simp
qed

lemma bar_merge:
  assumes "new < 2 ^ 32" "val mod 2 ^ 14 = 4"
  shows "merged 16 val new = 4 + new div 2 ^ 14 * 2 ^ 14"
proof -
  have m: "and val 16383 = 4"
    using assms(2) by (simp add: take_bit_eq_mask [of 14 val, symmetric, unfolded mask_eq_exp_minus_1, simplified] take_bit_eq_mod)
  have "and new 0xFFFFC000 = new div 2 ^ 14 * 2 ^ 14"
  proof -
    have "(0xFFFFC000 :: nat) = push_bit 14 (mask 18)" by (simp add: push_bit_eq_mult mask_eq_exp_minus_1)
    then have "and new 0xFFFFC000 = push_bit 14 (and (drop_bit 14 new) (mask 18))"
      by (simp add: bit_eq_iff bit_simps) (metis add_diff_cancel_left' le_iff_add)
    also have "\<dots> = push_bit 14 (take_bit 18 (drop_bit 14 new))" by (simp add: take_bit_eq_mask)
    also have "\<dots> = new div 2 ^ 14 * 2 ^ 14" using assms(1) by (simp add: push_bit_eq_mult take_bit_eq_mod drop_bit_eq_div mod_less div_less_iff_less_mult)
    finally show ?thesis .
  qed
  moreover have "or 4 (x * 2 ^ 14) = 4 + x * 2 ^ 14" for x :: nat
  proof -
    have "bit (4::nat) n \<longleftrightarrow> n = 2" for n using bit_exp_iff [where 'a = nat, of 2 n] by auto
    then have "and 4 (push_bit 14 x) = (0::nat)" by (intro bit_eqI) (auto simp: bit_simps)
    then show ?thesis using disjunctive_add_eq_or [of 4 "push_bit 14 x"] by (simp add: push_bit_eq_mult)
  qed
  moreover have "4 + new div 2 ^ 14 * 2 ^ 14 < 2 ^ 32"
  proof -
    have "new div 2 ^ 14 < 2 ^ 18" using assms(1) by (simp add: div_less_iff_less_mult)
    then show ?thesis by simp
  qed
  ultimately show ?thesis using m by (simp add: merged_def write_mask_def OFFS_PCI_PM_CAP_def u32_def)
qed

section \<open>Namespaces\<close>

lemma logical_le: "slc \<le> 100 \<Longrightarrow> sz < 2 ^ 57 \<Longrightarrow> logical_size slc ty sz \<le> sz"
proof -
  assume s: "slc \<le> 100" "sz < 2 ^ 57"
  obtain a b where ab: "a = (100 - slc) * sz" "b = slc * sz" by simp
  have e: "a + b = 100 * sz" using s(1) unfolding ab by (simp add: add_mult_distrib [symmetric])
  have d: "b div 3 \<le> b" by simp
  have "a < 2 ^ 64" "b < 2 ^ 64" "a + b div 3 \<le> sz * 100" "a + b div 3 < 2 ^ 64" using s(2) e d by simp_all
  then have "u64 (u64 a + u64 b div 3) div 100 \<le> sz" by (simp add: u64_def)
  then show ?thesis unfolding logical_size_def ab by simp
qed

lemma ns_init_step:
  assumes l: "nr \<le> length caps" "nr \<le> length types" "\<forall>ty \<in> set types. ty \<le> 3" and s: "slc \<le> 100" "storage < 2 ^ 57"
  shows "\<exists>ns. foldM (ns_step slc types caps) [0..<nr] ([], storage, base) = Some (ns, storage - sum_list (map sl_size ns), base + sum_list (map sl_size ns)) \<and>
    length ns = nr \<and> sum_list (map sl_size ns) \<le> storage \<and>
    (\<forall>i < nr. sl_addr (ns ! i) = base + sum_list (map sl_size (take i ns)) \<and> sl_logical (ns ! i) \<le> sl_size (ns ! i) \<and> sl_type (ns ! i) = types ! i \<and>
       (caps ! i \<noteq> 0 \<longrightarrow> sl_size (ns ! i) \<le> caps ! i))"
  using l(1,2)
proof (induction nr)
  case 0
  then show ?case by simp
next
  case (Suc k)
  then obtain ns where ns: "foldM (ns_step slc types caps) [0..<k] ([], storage, base) =
      Some (ns, storage - sum_list (map sl_size ns), base + sum_list (map sl_size ns))" "length ns = k" "sum_list (map sl_size ns) \<le> storage"
    "\<forall>i < k. sl_addr (ns ! i) = base + sum_list (map sl_size (take i ns)) \<and> sl_logical (ns ! i) \<le> sl_size (ns ! i) \<and> sl_type (ns ! i) = types ! i \<and>
       (caps ! i \<noteq> 0 \<longrightarrow> sl_size (ns ! i) \<le> caps ! i)" by auto
  let ?rem = "storage - sum_list (map sl_size ns)" let ?sz = "if caps ! k = 0 then ?rem else min (caps ! k) ?rem"
  let ?sl = "\<lparr>sl_type = types ! k, sl_size = ?sz, sl_addr = base + sum_list (map sl_size ns), sl_logical = logical_size slc (types ! k) ?sz\<rparr>"
  have ty: "types ! k \<le> 3" using l(3) Suc.prems by simp
  have sz: "?sz \<le> ?rem" "?rem < 2 ^ 64" "?sz < 2 ^ 57" using s(2) by auto
  have sub: "sub64 ?rem ?sz = storage - (sum_list (map sl_size ns) + ?sz)" using sz(1,2) by (subst sub64_le) simp_all
  have "foldM (ns_step slc types caps) [0..<Suc k] ([], storage, base) =
      Some (ns @ [?sl], storage - sum_list (map sl_size (ns @ [?sl])), base + sum_list (map sl_size (ns @ [?sl])))"
    using Suc.prems ns(1) ty sub by (simp add: ns_step_def idx_def Let_def)
  moreover have "sum_list (map sl_size (ns @ [?sl])) \<le> storage" using ns(3) sz(1) by simp
  moreover have "\<forall>i < Suc k. sl_addr ((ns @ [?sl]) ! i) = base + sum_list (map sl_size (take i (ns @ [?sl]))) \<and>
      sl_logical ((ns @ [?sl]) ! i) \<le> sl_size ((ns @ [?sl]) ! i) \<and> sl_type ((ns @ [?sl]) ! i) = types ! i \<and>
      (caps ! i \<noteq> 0 \<longrightarrow> sl_size ((ns @ [?sl]) ! i) \<le> caps ! i)"
    using ns(2,4) logical_le [OF s(1) sz(3)] by (auto simp: nth_append less_Suc_eq)
  ultimately show ?case using ns(2) by (intro exI [of _ "ns @ [?sl]"]) simp
qed

end
