(* ===== verification/Controller_Properties.thy ===== *)
theory Controller_Properties
  imports Controller_Laws Worker_Laws
begin

text \<open>
  The properties of the controller: the admin queue, the registers, the configuration space and the namespaces, each with an instance.
\<close>

section \<open>Commands in memory\<close>

text \<open>How the host writes a command.\<close>

definition cmd_bytes :: "nvme_command \<Rightarrow> nat list" where
  "cmd_bytes cmd = le_bytes 1 (opcode cmd) @ le_bytes 1 (cflags cmd) @ le_bytes 2 (command_id cmd) @ le_bytes 4 (nsid cmd) @ replicate 16 0 @
     le_bytes 8 (prp1 cmd) @ le_bytes 8 (prp2 cmd) @ le_bytes 4 (cdw10 cmd) @ le_bytes 4 (cdw11 cmd) @ le_bytes 4 (cdw12 cmd) @
     le_bytes 4 (cdw13 cmd) @ le_bytes 4 (cdw14 cmd) @ le_bytes 4 (cdw15 cmd)"

definition cmd_fits :: "nvme_command \<Rightarrow> bool" where
  "cmd_fits cmd \<longleftrightarrow> opcode cmd < 2 ^ 8 \<and> cflags cmd < 2 ^ 8 \<and> command_id cmd < 2 ^ 16 \<and> nsid cmd < 2 ^ 32 \<and> prp1 cmd < 2 ^ 64 \<and> prp2 cmd < 2 ^ 64 \<and>
     cdw10 cmd < 2 ^ 32 \<and> cdw11 cmd < 2 ^ 32 \<and> cdw12 cmd < 2 ^ 32 \<and> cdw13 cmd < 2 ^ 32 \<and> cdw14 cmd < 2 ^ 32 \<and> cdw15 cmd < 2 ^ 32"

lemma length_cmd_bytes [simp]: "length (cmd_bytes cmd) = 64"
  by (simp add: cmd_bytes_def)

lemma parse_cmd_bytes:
  assumes "cmd_fits cmd"
  shows "parse_cmd (write_bytes_at a (cmd_bytes cmd) h) a = cmd"
proof -
  have p: "le_at n (write_bytes_at a (cmd_bytes cmd) h) (a + off) = v mod 256 ^ n" if "take n (drop off (cmd_bytes cmd)) = le_bytes n v" "off + n \<le> 64" for n off v
    using le_at_put [OF that(1), of a h] that(2) by simp
  note f = p [of 1 0 "opcode cmd"] p [of 1 1 "cflags cmd"] p [of 2 2 "command_id cmd"] p [of 4 4 "nsid cmd"] p [of 8 24 "prp1 cmd"] p [of 8 32 "prp2 cmd"]
    p [of 4 40 "cdw10 cmd"] p [of 4 44 "cdw11 cmd"] p [of 4 48 "cdw12 cmd"] p [of 4 52 "cdw13 cmd"] p [of 4 56 "cdw14 cmd"] p [of 4 60 "cdw15 cmd"]
  have m: "opcode cmd mod 256 = opcode cmd" "cflags cmd mod 256 = cflags cmd" "command_id cmd mod 65536 = command_id cmd"
    "nsid cmd mod 4294967296 = nsid cmd" "prp1 cmd mod 18446744073709551616 = prp1 cmd" "prp2 cmd mod 18446744073709551616 = prp2 cmd"
    "cdw10 cmd mod 4294967296 = cdw10 cmd" "cdw11 cmd mod 4294967296 = cdw11 cmd" "cdw12 cmd mod 4294967296 = cdw12 cmd"
    "cdw13 cmd mod 4294967296 = cdw13 cmd" "cdw14 cmd mod 4294967296 = cdw14 cmd" "cdw15 cmd mod 4294967296 = cdw15 cmd"
    using assms by (simp_all add: cmd_fits_def)
  show ?thesis using f by (simp add: parse_cmd_def cmd_bytes_def m)
qed

interpretation sq_entries: entry_format cmd_bytes parse_cmd cmd_fits 64
proof
  show "length (cmd_bytes cmd) = 64" for cmd by simp
  show "cmd_fits cmd \<Longrightarrow> parse_cmd (write_bytes_at a (cmd_bytes cmd) h) a = cmd" for cmd a h by (rule parse_cmd_bytes)
  show "(\<And>i. i < 64 \<Longrightarrow> h (a + i) = h' (a + i)) \<Longrightarrow> parse_cmd h a = parse_cmd h' a" for h h' a by (rule parse_cmd_cong)
qed

section \<open>An example\<close>

text \<open>A controller with one namespace; its admin rings have four entries, the last place of the completion ring is the next. The new commands
  are those in the places 2, 3, 0.\<close>

definition ax_cmd :: "nat \<Rightarrow> nat \<Rightarrow> nat \<Rightarrow> nat \<Rightarrow> nat \<Rightarrow> nvme_command" where
  "ax_cmd op cid p d10 d11 = \<lparr>opcode = op, cflags = 0, command_id = cid, nsid = 1, prp1 = p, prp2 = 0, cdw10 = d10, cdw11 = d11, cdw12 = 0,
     cdw13 = 0, cdw14 = 0, cdw15 = 0\<rparr>"

definition ax_cmds :: "nvme_command list" where
  "ax_cmds = [ax_cmd nvme_admin_identify 10 65536 0 0, ax_cmd nvme_admin_get_features 11 0 NVME_FEAT_NUM_QUEUES 0,
     ax_cmd nvme_admin_create_cq 12 131072 (63 * 65536 + 1) (5 * 65536 + 3), ax_cmd nvme_admin_create_sq 13 196608 (63 * 65536 + 1) 65537]"

definition ax_zns :: znsparams where
  "ax_zns = \<lparr>nr_zones = 0, nr_active_zones = 0, nr_open_zones = 0, dies_per_zone = 0, zone_size = 0, zone_wb_size = 0, nr_zrwa_zones = 0,
     zrwafg_size = 0, zrwa_size = 0, zrwa_buffer_size = 0, lbas_per_zrwafg = 0, lbas_per_zrwa = 0\<rparr>"

definition ax_build :: build where "ax_build = \<lparr>b_lba_bits = 9, b_ssd_types = [1], b_mdts = 5, b_zns = False\<rparr>"

definition ax_dev :: "(ns_info, sys_mem) nvmev_dev" where
  "ax_dev = \<lparr>io_workers = [], io_worker_turn = 0, nr_io_workers = 0, nspaces = [\<lparr>ni_csi = 0, ni_size = 2 ^ 30, ni_zns = ax_zns\<rparr>], sqes = [], cqes = [],
     dmem = \<lparr>host = write_bytes_at 4096 (concat (map cmd_bytes ax_cmds)) (\<lambda>_. 0), disk = (\<lambda>_. 0)\<rparr>, dclk = (\<lambda>_. 0), dtick = 0\<rparr>"

definition ax0 :: "ns_info ctrl" where "ax0 = nvmev_pci_init (GB 4) ax_dev"

definition ax :: "ns_info ctrl" where
  "ax = ax0\<lparr>admin_q := Some \<lparr>aq_phase = 1, aq_sq_depth = 4, aq_cq_depth = 4, aq_cq_head = 3, aq_sq = Some (4096, 1), aq_cq = Some (8192, 1)\<rparr>\<rparr>"

lemma ax_ok: "adm_ok ax" "rings_apart ax" "sqd ax = 4" "cqd ax = 4" "sq_base ax = 4096" "cq_base ax = 8192" "aq_cq_head (the (admin_q ax)) = 3"
  "cqe_addr ax = 8240" "irqs ax = []" "msix_enabled ax = False"
  by (simp_all add: adm_ok_def ax_def ax0_def nvmev_pci_init_def rings_apart_def ranges_apart_def sq_base_def cq_base_def cqe_addr_def)

lemma ax_sqe: "k < 4 \<Longrightarrow> sqe_at ax k = ax_cmds ! k" "sqe_addr ax k = 4096 + 64 * k"
proof -
  show a: "sqe_addr ax k = 4096 + 64 * k" by (simp add: sqe_addr_def ax_def)
  assume k: "k < 4"
  then have "k = 0 \<or> k = 1 \<or> k = 2 \<or> k = 3" by auto
  then have "cmd_fits (ax_cmds ! k)"
    by (elim disjE) (simp_all add: ax_cmds_def ax_cmd_def cmd_fits_def admin_opcodes NVME_FEAT_NUM_QUEUES_def)
  moreover have "chost ax = write_bytes_at 4096 (concat (map cmd_bytes ax_cmds)) (\<lambda>_. 0)"
    by (simp add: chost_def ax_def ax0_def nvmev_pci_init_def ax_dev_def)
  ultimately show "sqe_at ax k = ax_cmds ! k" using sq_entries.entry_of_list [of k ax_cmds 4096] k unfolding sqe_at_def a by (simp add: ax_cmds_def)
qed

lemma ax_ns: "nspaces (cdev ax) = [\<lparr>ni_csi = 0, ni_size = 2 ^ 30, ni_zns = ax_zns\<rparr>]"
  by (simp add: ax_def ax0_def nvmev_pci_init_def ax_dev_def)

lemma ax_good: "k < 4 \<Longrightarrow> adm_good id ax_build ax k"
proof -
  assume k: "k < 4"
  then have "k = 0 \<or> k = 1 \<or> k = 2 \<or> k = 3" by auto
  then show ?thesis using ax_sqe(1) [OF k] ax_sqe(2)
    by (elim disjE) (simp_all add: adm_good_def adm_admissible_def ax_ok ax_ns Let_def ax_cmds_def ax_cmd_def admin_opcodes ranges_apart_def data_len_def PAGE_SIZE_def
      NVME_FEAT_NUM_QUEUES_def ax_build_def dec32_pos lo16_def NR_MAX_IO_QUEUE_def)
qed

section \<open>Admin queue\<close>

text \<open>C16: A new value of the doorbell of the admin queue makes the dispatcher carry out all new commands, also around the end of the ring:
  the completions stand in order in the next places of the completion ring, each with the identifier and the status of its command and with the
  phase bit of its round, the controller stays well-formed and one interrupt is raised. The data of the commands lie apart from the rings.\<close>

theorem admin_doorbell_posts:
  assumes "adm_ok c" "rings_apart c" "old_db < sqd c" "new_db < sqd c" "n = (new_db + sqd c - old_db) mod sqd c" "n \<le> cqd c"
    and "\<forall>k < n. adm_good info b c ((old_db + k) mod sqd c)"
  shows "\<exists>c'. nvmev_proc_admin_sq info b new_db old_db c = Some c' \<and> adm_ok c' \<and>
    (\<forall>k < n. let e = parse_cqe (chost c') (cq_base c + 16 * ((aq_cq_head (the (admin_q c)) + k) mod cqd c)); cmd = sqe_at c ((old_db + k) mod sqd c)
       in ce_command_id e = command_id cmd \<and> ce_status e = cq_phase_at c k + 2 * adm_status cmd) \<and>
    cq_slot c' 0 = cq_slot c n \<and> cq_phase_at c' 0 = cq_phase_at c n \<and>
    irqs c' = irqs c @ [if msix_enabled c then Msi 0 else Intx]"
proof -
  have n: "n = (if new_db < old_db then new_db + sqd c - old_db else new_db - old_db)"
    using assms(3,4) unfolding assms(5) by (auto simp: mod_if not_less)
  obtain c1 where c1: "admin_loop info b n old_db c = Some c1" "adm_ok c1" "same_adm c (c1\<lparr>admin_q := admin_q c\<rparr>)" "cq_slot c1 0 = cq_slot c n"
    "cq_phase_at c1 0 = cq_phase_at c n" "\<forall>k < n. posted c c1 k ((old_db + k) mod sqd c)"
    using admin_loop_ok [OF assms(1-3,6,7)] by auto
  obtain q where q: "admin_q c = Some q" using assms(1) by (auto simp: adm_ok_def)
  have run: "nvmev_proc_admin_sq info b new_db old_db c = Some (nvmev_signal_irq 0 c1)"
    using c1(1) q n by (auto simp: nvmev_proc_admin_sq_def)
  have s: "adm_ok (nvmev_signal_irq 0 c1)" "cq_slot (nvmev_signal_irq 0 c1) 0 = cq_slot c1 0" "cq_phase_at (nvmev_signal_irq 0 c1) 0 = cq_phase_at c1 0"
    "chost (nvmev_signal_irq 0 c1) = chost c1" "irqs (nvmev_signal_irq 0 c1) = irqs c1 @ [if msix_enabled c1 then Msi 0 else Intx]"
    using c1(2) by (simp_all add: nvmev_signal_irq_def adm_ok_def cq_slot_def cq_phase_at_def cq_base_def chost_def)
  have i: "irqs c1 = irqs c" "msix_enabled c1 = msix_enabled c" using c1(3) by (simp_all add: same_adm_def)
  show ?thesis using run s c1(4-6) unfolding i by (intro exI [of _ "nvmev_signal_irq 0 c1"]) (simp add: posted_def Let_def cq_slot_def)
qed

theorem admin_doorbell_posts_witness:
  "\<exists>c'. nvmev_proc_admin_sq id ax_build 1 2 ax = Some c' \<and> ce_command_id (parse_cqe (chost c') 8240) = 12 \<and>
    ce_status (parse_cqe (chost c') 8240) = 1 \<and> ce_command_id (parse_cqe (chost c') 8192) = 13 \<and> ce_status (parse_cqe (chost c') 8192) = 0 \<and>
    ce_command_id (parse_cqe (chost c') 8208) = 10 \<and> irqs c' = [Intx]"
proof -
  have g: "\<forall>k < 3. adm_good id ax_build ax ((2 + k) mod sqd ax)" using ax_good by (simp add: ax_ok)
  have "\<exists>c'. nvmev_proc_admin_sq id ax_build 1 2 ax = Some c' \<and> adm_ok c' \<and>
    (\<forall>k < 3. let e = parse_cqe (chost c') (cq_base ax + 16 * ((aq_cq_head (the (admin_q ax)) + k) mod cqd ax)); cmd = sqe_at ax ((2 + k) mod sqd ax)
       in ce_command_id e = command_id cmd \<and> ce_status e = cq_phase_at ax k + 2 * adm_status cmd) \<and>
    cq_slot c' 0 = cq_slot ax 3 \<and> cq_phase_at c' 0 = cq_phase_at ax 3 \<and> irqs c' = irqs ax @ [if msix_enabled ax then Msi 0 else Intx]"
    by (rule admin_doorbell_posts [where n = 3, OF ax_ok(1,2) _ _ _ _ g]) (simp_all add: ax_ok(3,4))
  then obtain c' where c': "nvmev_proc_admin_sq id ax_build 1 2 ax = Some c'" "irqs c' = irqs ax @ [if msix_enabled ax then Msi 0 else Intx]"
    "\<forall>k < 3. let e = parse_cqe (chost c') (8192 + 16 * ((3 + k) mod 4)); cmd = sqe_at ax ((2 + k) mod 4)
       in ce_command_id e = command_id cmd \<and> ce_status e = cq_phase_at ax k + 2 * adm_status cmd"
    unfolding ax_ok(3,4,6,7) by blast
  have p: "cq_phase_at ax 0 = 1" "cq_phase_at ax 1 = 0" by (simp_all add: cq_phase_at_def ax_def)
  have e: "ax_cmds ! 2 = ax_cmd nvme_admin_create_cq 12 131072 (63 * 65536 + 1) (5 * 65536 + 3)"
    "ax_cmds ! 3 = ax_cmd nvme_admin_create_sq 13 196608 (63 * 65536 + 1) 65537" "ax_cmds ! 0 = ax_cmd nvme_admin_identify 10 65536 0 0"
    by (simp_all add: ax_cmds_def)
  have st: "adm_status (ax_cmds ! 2) = 0" "adm_status (ax_cmds ! 3) = 0"
    by (simp_all only: e) (simp_all add: ax_cmd_def adm_status_def admin_opcodes NVME_SC_SUCCESS_def)
  have id: "command_id (ax_cmds ! 2) = 12" "command_id (ax_cmds ! 3) = 13" "command_id (ax_cmds ! 0) = 10" by (simp_all only: e) (simp_all add: ax_cmd_def)
  have "ce_command_id (parse_cqe (chost c') 8240) = 12 \<and> ce_status (parse_cqe (chost c') 8240) = 1"
    using c'(3) [rule_format, of 0] p(1) st(1) id(1) ax_sqe(1) [of 2] by (simp add: Let_def)
  moreover have "ce_command_id (parse_cqe (chost c') 8192) = 13 \<and> ce_status (parse_cqe (chost c') 8192) = 0"
    using c'(3) [rule_format, of 1] p(2) st(2) id(2) ax_sqe(1) [of 3] by (simp add: Let_def)
  moreover have "ce_command_id (parse_cqe (chost c') 8208) = 10"
    using c'(3) [rule_format, of 2] id(3) ax_sqe(1) [of 0] by (simp add: Let_def)
  ultimately show ?thesis using c'(1,2) by (simp add: ax_ok)
qed

text \<open>A new queue is one that the I/O side can work with.\<close>

lemma new_cq_ok: "cq_ok (new_cq h cmd) 0"
proof -
  let ?sz = "hi16 (cdw10 cmd) + 1"
  have "?sz * 16 \<le> PAGE_SIZE * DIV_ROUND_UP (?sz * 16) PAGE_SIZE" by (rule DIV_ROUND_UP_mult_ge) (simp add: PAGE_SIZE_def)
  then have "?sz \<le> 256 * DIV_ROUND_UP (?sz * 16) PAGE_SIZE" by (simp add: PAGE_SIZE_def)
  then show ?thesis by (simp add: cq_ok_def new_cq_def Let_def phase_of_def)
qed

lemma new_sq_fits: "sq_size (new_sq h cmd) \<le> length (sq_entries (new_sq h cmd))"
proof -
  let ?sz = "hi16 (cdw10 cmd) + 1"
  have "?sz * 64 \<le> PAGE_SIZE * DIV_ROUND_UP (?sz * 64) PAGE_SIZE" by (rule DIV_ROUND_UP_mult_ge) (simp add: PAGE_SIZE_def)
  then have "?sz \<le> 64 * DIV_ROUND_UP (?sz * 64) PAGE_SIZE" by (simp add: PAGE_SIZE_def)
  then show ?thesis by (simp add: new_sq_def Let_def)
qed

lemma cqs_ok_update: "cqs_ok cqs \<Longrightarrow> cq_ok cq p \<Longrightarrow> cqs_ok (cqs[i := Some cq])"
  by (cases "i < length cqs") (auto simp: cqs_ok_def ptr_def idx_def nth_list_update split: if_splits)

lemma create_done:
  assumes "adm_ok c" "command_id (sqe_at c eid) < 2 ^ 16" "eid < sqd c" "same_adm c c1" "admin_q c1 = admin_q c" "dmem (cdev c1) = dmem (cdev c)"
  shows "\<exists>c'. make_cq_entry eid NVME_SC_SUCCESS c1 = Some c' \<and> adm_ok c' \<and> sqes (cdev c') = sqes (cdev c1) \<and> cqes (cdev c') = cqes (cdev c1) \<and>
    dbs c' = dbs c1 \<and> old_dbs c' = old_dbs c1"
proof -
  have e: "sqe_at c1 eid = sqe_at c eid" using assms(5,6) by (simp add: sqe_at_def chost_def sqe_addr_def)
  obtain c' where c': "make_cq_entry_results eid NVME_SC_SUCCESS 0 0 c1 = Some c'" "adm_ok c'" "cdev c' = (cdev c1)\<lparr>dmem := dmem (cdev c')\<rparr>"
    "dbs c' = dbs c1" "old_dbs c' = old_dbs c1"
    using complete_after [OF assms(1-4) e, of NVME_SC_SUCCESS 0] by (auto simp: NVME_SC_SUCCESS_def)
  have "sqes (cdev c') = sqes (cdev c1)" "cqes (cdev c') = cqes (cdev c1)" by (subst c'(3), simp)+
  then show ?thesis using c' by (simp add: make_cq_entry_def)
qed

text \<open>C18: An admitted command to create a queue puts the new queue in its place and leaves every other queue; the queue has the size, the pages
  and the interrupt vector or the completion queue that the command names; its doorbells are equal, so that no command is pending; and the
  completion queues stay well-formed for the workers that post to them.\<close>

theorem create_queue_effect:
  assumes "adm_ok c" "eid < sqd c" "adm_admissible info b c eid" "cqs_ok (cqes (cdev c))" "cmd = sqe_at c eid" "qid = lo16 (cdw10 cmd)"
    and "opcode cmd = nvme_admin_create_cq \<or> opcode cmd = nvme_admin_create_sq"
  shows "\<exists>c'. proc_admin_req info b eid c = Some c' \<and> adm_ok c' \<and> cqs_ok (cqes (cdev c')) \<and>
    (if opcode cmd = nvme_admin_create_cq
     then cqes (cdev c') = (cqes (cdev c))[qid := Some (new_cq (chost c) cmd)] \<and> sqes (cdev c') = sqes (cdev c) \<and>
       cq_size (new_cq (chost c) cmd) = hi16 (cdw10 cmd) + 1 \<and> cq_irq_vector (new_cq (chost c) cmd) = (if odd (lo16 (cdw11 cmd) div 2) then hi16 (cdw11 cmd) else 0) \<and>
       dbs c' ! (qid * 2 + 1) = old_dbs c' ! (qid * 2 + 1)
     else sqes (cdev c') = (sqes (cdev c))[qid := Some (new_sq (chost c) cmd)] \<and> cqes (cdev c') = cqes (cdev c) \<and>
       sq_cqid (new_sq (chost c) cmd) = hi16 (cdw11 cmd) \<and> sq_size (new_sq (chost c) cmd) = hi16 (cdw10 cmd) + 1 \<and>
       (\<forall>k < sq_size (new_sq (chost c) cmd). k < length (sq_entries (new_sq (chost c) cmd)) \<and>
          sq_entries (new_sq (chost c) cmd) ! k = parse_cmd (chost c) (prp1 cmd + 64 * k)) \<and>
       dbs c' ! (qid * 2) = old_dbs c' ! (qid * 2))"
proof -
  have a: "command_id (sqe_at c eid) < 2 ^ 16" using assms(3) by (simp add: adm_admissible_def Let_def)
  have q: "0 < qid" "qid \<le> NR_MAX_IO_QUEUE" using assms(3,7) unfolding adm_admissible_def Let_def assms(5,6) by blast+
  have l: "sq_qid (new_sq h cmd) = qid" "cq_qid (new_cq h cmd) = qid" for h
    by (simp_all add: new_sq_def new_cq_def Let_def assms(6))
  have d: "length (dbs c) = 1024" "length (old_dbs c) = 1024" "qid * 2 + 1 < 1024" using assms(1) q by (simp_all add: adm_ok_def NR_MAX_IO_QUEUE_def)
  note e = admin_sqe_ok [OF assms(1,2)]
  show ?thesis
  proof (cases "opcode cmd = nvme_admin_create_cq")
    case True
    have "proc_admin_req info b eid c = admin_create_cq eid c" using True e by (simp add: proc_admin_req_def assms(5) admin_opcodes)
    also have "\<dots> = make_cq_entry eid NVME_SC_SUCCESS (c\<lparr>cdev := (cdev c)\<lparr>cqes := (cqes (cdev c))[qid := Some (new_cq (chost c) cmd)]\<rparr>,
        dbs := (dbs c)[qid * 2 + 1 := 0], old_dbs := (old_dbs c)[qid * 2 + 1 := 0]\<rparr>)" (is "_ = make_cq_entry eid _ ?c")
      using create_cq_run [OF assms(1,2) refl] l q by (simp add: assms(5))
    finally have r: "proc_admin_req info b eid c = make_cq_entry eid NVME_SC_SUCCESS ?c" .
    obtain c' where c': "make_cq_entry eid NVME_SC_SUCCESS ?c = Some c'" "adm_ok c'" "sqes (cdev c') = sqes (cdev ?c)" "cqes (cdev c') = cqes (cdev ?c)"
      "dbs c' = dbs ?c" "old_dbs c' = old_dbs ?c" using create_done [OF assms(1) a assms(2), of ?c] by (auto simp: same_adm_def)
    have "cqs_ok (cqes (cdev c'))" using cqs_ok_update [OF assms(4) new_cq_ok] c'(4) by simp
    then show ?thesis using r c' True d by (simp add: new_cq_def Let_def)
  next
    case False
    then have o: "opcode cmd = nvme_admin_create_sq" using assms(7) by simp
    have "proc_admin_req info b eid c = admin_create_sq eid c" using o e by (simp add: proc_admin_req_def assms(5) admin_opcodes)
    also have "\<dots> = make_cq_entry eid NVME_SC_SUCCESS (c\<lparr>cdev := (cdev c)\<lparr>sqes := (sqes (cdev c))[qid := Some (new_sq (chost c) cmd)]\<rparr>,
        dbs := (dbs c)[qid * 2 := 0], old_dbs := (old_dbs c)[qid * 2 := 0]\<rparr>)" (is "_ = make_cq_entry eid _ ?c")
      using create_sq_run [OF assms(1,2) refl] l q by (simp add: assms(5))
    finally have r: "proc_admin_req info b eid c = make_cq_entry eid NVME_SC_SUCCESS ?c" .
    obtain c' where c': "make_cq_entry eid NVME_SC_SUCCESS ?c = Some c'" "adm_ok c'" "sqes (cdev c') = sqes (cdev ?c)" "cqes (cdev c') = cqes (cdev ?c)"
      "dbs c' = dbs ?c" "old_dbs c' = old_dbs ?c"
      using create_done [OF assms(1) a assms(2), of ?c] q(1) by (auto simp: same_adm_def)
    have "\<forall>k < sq_size (new_sq (chost c) cmd). k < length (sq_entries (new_sq (chost c) cmd)) \<and>
        sq_entries (new_sq (chost c) cmd) ! k = parse_cmd (chost c) (prp1 cmd + 64 * k)"
      using new_sq_fits [of "chost c" cmd] by (auto simp: new_sq_def Let_def)
    moreover have "sq_cqid (new_sq (chost c) cmd) = hi16 (cdw11 cmd)" "sq_size (new_sq (chost c) cmd) = hi16 (cdw10 cmd) + 1"
      by (simp_all add: new_sq_def Let_def)
    moreover have "cqs_ok (cqes (cdev c'))" using assms(4) c'(4) by simp
    ultimately show ?thesis using r c' False d by simp
  qed
qed

theorem create_queue_effect_witness:
  "\<exists>c'. proc_admin_req id ax_build 2 ax = Some c' \<and> (\<exists>cq. cqes (cdev c') ! 1 = Some cq \<and> cq_size cq = 64 \<and> cq_irq_vector cq = 5)"
proof -
  have e: "ax_cmds ! 2 = ax_cmd nvme_admin_create_cq 12 131072 (63 * 65536 + 1) (5 * 65536 + 3)" by (simp add: ax_cmds_def)
  have o: "opcode (sqe_at ax 2) = nvme_admin_create_cq" "lo16 (cdw10 (sqe_at ax 2)) = 1" "hi16 (cdw10 (sqe_at ax 2)) + 1 = 64"
    "odd (lo16 (cdw11 (sqe_at ax 2)) div 2)" "hi16 (cdw11 (sqe_at ax 2)) = 5"
    using ax_sqe(1) [of 2] by (simp_all add: e) (simp_all add: ax_cmd_def lo16_def hi16_def)
  have a: "adm_admissible id ax_build ax 2" using ax_good [of 2] by (simp add: adm_good_def)
  have q: "cqes (cdev ax) = replicate 73 None" by (simp add: ax_def ax0_def nvmev_pci_init_def NR_MAX_IO_QUEUE_def)
  then have k: "cqs_ok (cqes (cdev ax))" by (auto simp: cqs_ok_def ptr_def idx_def split: if_splits)
  from create_queue_effect [OF ax_ok(1) _ a k refl refl] o obtain c' where "proc_admin_req id ax_build 2 ax = Some c'"
    "cqes (cdev c') = (cqes (cdev ax))[1 := Some (new_cq (chost ax) (sqe_at ax 2))]" "cq_size (new_cq (chost ax) (sqe_at ax 2)) = 64"
    "cq_irq_vector (new_cq (chost ax) (sqe_at ax 2)) = 5" by (auto simp: ax_ok(3))
  moreover have "(cqes (cdev ax))[1 := Some (new_cq (chost ax) (sqe_at ax 2))] ! 1 = Some (new_cq (chost ax) (sqe_at ax 2))" unfolding q by simp
  ultimately show ?thesis by metis
qed

text \<open>What the data of a request hold after its completion.\<close>

lemma data_arrives:
  assumes "adm_ok c" "command_id (sqe_at c eid) < 2 ^ 16" "eid < sqd c" "ranges_apart a (length bs) (sqe_addr c eid) 64" "ranges_apart a (length bs) (cqe_addr c) 16"
  shows "\<exists>c'. make_cq_entry eid NVME_SC_SUCCESS (host_put a bs c) = Some c' \<and> adm_ok c' \<and> (\<forall>i < length bs. chost c' (a + i) = bs ! i)"
proof -
  note p = put_adm [OF assms(1,4)]
  obtain c' where c': "make_cq_entry_results eid NVME_SC_SUCCESS 0 0 (host_put a bs c) = Some c'" "adm_ok c'"
    and f: "\<And>x. x < cqe_addr c \<or> cqe_addr c + 16 \<le> x \<Longrightarrow> chost c' x = chost (host_put a bs c) x"
    using complete_after [OF assms(1-3) p(1,2), of NVME_SC_SUCCESS 0] by (auto simp: NVME_SC_SUCCESS_def)
  have "chost c' (a + i) = bs ! i" if "i < length bs" for i
    using f [of "a + i"] that assms(5) by (auto simp: p(3) ranges_apart_def write_bytes_at_def)
  then show ?thesis using c' by (simp add: make_cq_entry_def)
qed

lemma id_ns_fields:
  assumes "id_ns lba_bits sz = Some bs"
  shows "lba_bits = 9 \<or> lba_bits = 12" "bs ! 26 = (if lba_bits = 9 then 0 else 3)" "bs ! 25 = 6" "bs ! (128 + 4 * bs ! 26 + 2) = lba_bits"
    "i < 8 \<Longrightarrow> bs ! i = (sz div 2 ^ lba_bits) div 256 ^ i mod 256"
proof -
  show l: "lba_bits = 9 \<or> lba_bits = 12" using assms by (auto simp: id_ns_def Let_def NVMEV_ASSERT_def split: if_splits)
  define n where "n = sz div 2 ^ lba_bits"
  define fl where "fl = (if lba_bits = 9 then 0 else 3 :: nat)"
  let ?fs = "[(0, le_bytes 8 n), (8, le_bytes 8 n), (16, le_bytes 8 n), (25, [6]), (26, [fl]), (29, [0]), (128, lbaf_bytes 0 9 2), (132, lbaf_bytes 8 9 2),
    (136, lbaf_bytes 16 9 2), (140, lbaf_bytes 0 12 0), (144, lbaf_bytes 8 12 0), (148, lbaf_bytes 64 12 0), (152, lbaf_bytes 128 12 0)]"
  have b: "bs = struct_bytes 4096 ?fs" using assms l by (auto simp: id_ns_def Let_def n_def fl_def)
  have at: "bs ! i = (case find (\<lambda>x. fst x \<le> i \<and> i < fst x + length (snd x)) (rev ?fs) of Some x \<Rightarrow> snd x ! (i - fst x) | None \<Rightarrow> 0)" if "i < 4096" for i
    unfolding b by (rule struct_at) (use that in \<open>simp_all add: lbaf_bytes_def\<close>)
  show 26: "bs ! 26 = (if lba_bits = 9 then 0 else 3)" by (simp add: at lbaf_bytes_def fl_def)
  show "bs ! 25 = 6" by (simp add: at lbaf_bytes_def)
  show "bs ! (128 + 4 * bs ! 26 + 2) = lba_bits" using l unfolding 26 by (auto simp: at lbaf_bytes_def nth_append)
  show "bs ! i = (sz div 2 ^ lba_bits) div 256 ^ i mod 256" if "i < 8"
    using that by (simp add: at lbaf_bytes_def n_def [symmetric]) (simp add: le_bytes_def)
qed

text \<open>C19: What the host reads back from the data of an identify command for a namespace: the block size of the format in use is the one of the
  build, and the size in blocks is that of the namespace.\<close>

theorem identify_namespace_roundtrip:
  assumes "adm_ok c" "eid < sqd c" "adm_admissible info b c eid" "cmd = sqe_at c eid" "opcode cmd = nvme_admin_identify" "cdw10 cmd = 0"
    and "1 \<le> nsid cmd" "nsid cmd < 2 ^ 32" "ns = info (nspaces (cdev c) ! (nsid cmd - 1))" "ni_size ns < 2 ^ 64"
    and "ranges_apart (prp1 cmd) PAGE_SIZE (cqe_addr c) 16"
  shows "\<exists>c'. proc_admin_req info b eid c = Some c' \<and> adm_ok c' \<and>
    (let f = chost c' (prp1 cmd + 26)
     in f \<le> chost c' (prp1 cmd + 25) \<and> chost c' (prp1 cmd + 128 + 4 * f + 2) = b_lba_bits b \<and>
       le_at 8 (chost c') (prp1 cmd) = ni_size ns div 2 ^ b_lba_bits b)"
proof -
  have d: "dec32 (nsid cmd) = nsid cmd - 1" using assms(7,8) by (simp add: dec32_pos)
  have a: "command_id (sqe_at c eid) < 2 ^ 16" "nsid cmd - 1 < length (nspaces (cdev c))" "b_lba_bits b \<in> {9, 12}"
      "ranges_apart (prp1 cmd) (2 * PAGE_SIZE) (sqe_addr c eid) 64"
    using assms(3,5,6) d unfolding adm_admissible_def Let_def assms(4) by (auto simp: data_len_def admin_opcodes)
  obtain bs where bs: "id_ns (b_lba_bits b) (ni_size ns) = Some bs" "length bs = 4096" using id_ns_some [OF a(3)] by blast
  have "proc_admin_req info b eid c = make_cq_entry eid NVME_SC_SUCCESS (host_put (prp1 cmd) bs c)"
    using admin_sqe_ok [OF assms(1,2)] assms(5,6) a(2) bs(1) d
    by (simp add: proc_admin_req_def admin_identify_def admin_identify_namespace_def ns_at_def idx_def admin_opcodes assms(4,9))
  moreover obtain c' where c': "make_cq_entry eid NVME_SC_SUCCESS (host_put (prp1 cmd) bs c) = Some c'" "adm_ok c'"
    "\<forall>i < length bs. chost c' (prp1 cmd + i) = bs ! i"
  proof -
    have "ranges_apart (prp1 cmd) (length bs) (sqe_addr c eid) 64" "ranges_apart (prp1 cmd) (length bs) (cqe_addr c) 16"
      using a(4) assms(11) bs(2) by (auto simp: ranges_apart_def PAGE_SIZE_def)
    then show ?thesis using data_arrives [OF assms(1) a(1) assms(2)] that by blast
  qed
  note f = id_ns_fields [OF bs(1)]
  have h: "chost c' (prp1 cmd + i) = bs ! i" if "i < 4096" for i using c'(3) bs(2) that by simp
  have l: "le_at 8 (chost c') (prp1 cmd) = (ni_size ns div 2 ^ b_lba_bits b) mod 256 ^ 8" by (rule le_at_value) (use h f(5) in simp)
  have "ni_size ns div 2 ^ b_lba_bits b < 2 ^ 64" by (rule le_less_trans [OF div_le_dividend assms(10)])
  then have m: "(ni_size ns div 2 ^ b_lba_bits b) mod 256 ^ 8 = ni_size ns div 2 ^ b_lba_bits b" by simp
  have x: "chost c' (prp1 cmd + 128 + 4 * (bs ! 26) + 2) = bs ! (128 + 4 * bs ! 26 + 2)" 
  proof -
    have lt: "128 + 4 * bs ! 26 + 2 < 4096" using f(2) by (cases "b_lba_bits b = 9") simp_all
    have "prp1 cmd + 128 + 4 * (bs ! 26) + 2 = prp1 cmd + (128 + 4 * bs ! 26 + 2)" by simp
    then show ?thesis using h [OF lt] by (simp only:)
  qed
  ultimately show ?thesis using c'(1,2) h [of 26] h [of 25] l m f(2-4) x by (intro exI [of _ c']) (simp add: Let_def)
qed

theorem identify_namespace_roundtrip_witness:
  "\<exists>c'. proc_admin_req id ax_build 0 ax = Some c' \<and> le_at 8 (chost c') 65536 = 2097152"
proof -
  have e: "ax_cmds ! 0 = ax_cmd nvme_admin_identify 10 65536 0 0" by (simp add: ax_cmds_def)
  have s: "opcode (sqe_at ax 0) = nvme_admin_identify" "cdw10 (sqe_at ax 0) = 0" "nsid (sqe_at ax 0) = 1" "prp1 (sqe_at ax 0) = 65536"
    using ax_sqe(1) [of 0] by (simp_all add: e) (simp_all add: ax_cmd_def)
  have a: "adm_admissible id ax_build ax 0" using ax_good [of 0] by (simp add: adm_good_def)
  have p: "ranges_apart (prp1 (sqe_at ax 0)) PAGE_SIZE (cqe_addr ax) 16" by (simp add: s ax_ok ranges_apart_def PAGE_SIZE_def)
  have "\<exists>c'. proc_admin_req id ax_build 0 ax = Some c' \<and> adm_ok c' \<and> (let f = chost c' (prp1 (sqe_at ax 0) + 26)
     in f \<le> chost c' (prp1 (sqe_at ax 0) + 25) \<and> chost c' (prp1 (sqe_at ax 0) + 128 + 4 * f + 2) = b_lba_bits ax_build \<and>
       le_at 8 (chost c') (prp1 (sqe_at ax 0)) = ni_size (id (nspaces (cdev ax) ! (nsid (sqe_at ax 0) - 1))) div 2 ^ b_lba_bits ax_build)"
    by (rule identify_namespace_roundtrip [OF ax_ok(1) _ a refl s(1,2) _ _ refl _ p]) (simp_all add: s(3) ax_ok ax_ns)
  then show ?thesis by (auto simp: Let_def s ax_ns ax_build_def)
qed

section \<open>Registers\<close>

text \<open>C20: The dispatcher takes over every register that the host has written in at most four passes, and then finds nothing to do, exactly when
  the admin queue exists or its size is written before or with its addresses (and a shutdown is not the first request); otherwise no number of
  passes takes over the registers.\<close>

theorem registers_settle:
  assumes "doorbells_ok c"
  shows "((\<exists>n c'. polls n c = Some c' \<and> regs_settled c') \<longleftrightarrow> pollable c) \<and>
    (pollable c \<longrightarrow> (\<exists>c'. polls 4 c = Some c' \<and> regs_settled c' \<and> same_request c c' \<and> nvmev_proc_bars c' = Some (False, c')))"
proof -
  have s: "\<exists>c'. polls 4 c = Some c' \<and> regs_settled c' \<and> same_request c c'" if "pollable c"
    by (rule polls_settle [OF assms that diffs_le])
  then have f: "pollable c \<longrightarrow> (\<exists>c'. polls 4 c = Some c' \<and> regs_settled c' \<and> same_request c c' \<and> nvmev_proc_bars c' = Some (False, c'))"
    using settled_stays by blast
  have "(\<exists>n c'. polls n c = Some c' \<and> regs_settled c') \<longleftrightarrow> pollable c" using s unpollable [OF assms] by blast
  then show ?thesis using f by blast
qed

definition ax_early :: "ns_info ctrl" where "ax_early = request 0 4096 0 0 ax0"

theorem registers_settle_witness:
  "(\<exists>c'. polls 4 ax = Some c' \<and> regs_settled c' \<and> nvmev_proc_bars c' = Some (False, c')) \<and> \<not> (\<exists>n c'. polls n ax_early = Some c' \<and> regs_settled c')"
proof -
  have "doorbells_ok ax" "pollable ax" "doorbells_ok ax_early" "\<not> pollable ax_early"
    by (simp_all add: doorbells_ok_def ax_def ax0_def ax_early_def request_def nvmev_pci_init_def pollable_def zero_regs_def)
  then show ?thesis using registers_settle [of ax] registers_settle [of ax_early] by blast
qed

text \<open>When the host sets up the admin queue and enables the controller, four passes later the controller is ready, the rings lie in the pages
  that were given with the sizes that were given, the doorbells are zero, and the controller is well-formed for the commands to come.\<close>

theorem controller_enabled:
  assumes "adm_ok c \<or> admin_q c = None \<and> length (dbs c) = 1024 \<and> length (old_dbs c) = 1024 \<and> length (sqes (cdev c)) = NR_MAX_IO_QUEUE + 1 \<and>
      length (cqes (cdev c)) = NR_MAX_IO_QUEUE + 1"
    and "r_aqa (old_bar c) \<noteq> aqa" "r_asq (old_bar c) \<noteq> asq" "r_acq (old_bar c) \<noteq> acq" "r_cc (old_bar c) \<noteq> cc" "cc_en cc = 1" "cc_shn cc \<noteq> 1"
  shows "\<exists>c'. polls 4 (request aqa asq acq cc c) = Some c' \<and> adm_ok c' \<and> regs_settled c' \<and> r_csts (bar c') mod 2 = 1 \<and>
    admin_q c' = Some \<lparr>aq_phase = 1, aq_sq_depth = aqa_asqs aqa + 1, aq_cq_depth = aqa_acqs aqa + 1, aq_cq_head = 0,
      aq_sq = Some (map_queue asq (aqa_asqs aqa + 1) 64), aq_cq = Some (map_queue acq (aqa_acqs aqa + 1) 16)\<rparr> \<and>
    dbs c' ! 0 = 0 \<and> dbs c' ! 1 = 0 \<and> old_dbs c' ! 0 = 0 \<and> old_dbs c' ! 1 = 0 \<and> cdev c' = cdev c \<and> pci_cfg c' = pci_cfg c"
  by (rule enable_run [OF assms])

theorem controller_enabled_witness:
  "\<exists>c'. polls 4 (request (31 * 2 ^ 16 + 31) 4096 8192 1 ax0) = Some c' \<and> adm_ok c' \<and> r_csts (bar c') mod 2 = 1 \<and> sqd c' = 32 \<and> sq_base c' = 4096"
proof -
  have i: "admin_q ax0 = None" "length (dbs ax0) = 1024" "length (old_dbs ax0) = 1024" "length (sqes (cdev ax0)) = NR_MAX_IO_QUEUE + 1"
    "length (cqes (cdev ax0)) = NR_MAX_IO_QUEUE + 1" "old_bar ax0 = zero_regs"
    by (simp_all add: ax0_def nvmev_pci_init_def)
  have "\<exists>c'. polls 4 (request (31 * 2 ^ 16 + 31) 4096 8192 1 ax0) = Some c' \<and> adm_ok c' \<and> regs_settled c' \<and> r_csts (bar c') mod 2 = 1 \<and>
    admin_q c' = Some \<lparr>aq_phase = 1, aq_sq_depth = aqa_asqs (31 * 2 ^ 16 + 31) + 1, aq_cq_depth = aqa_acqs (31 * 2 ^ 16 + 31) + 1, aq_cq_head = 0,
      aq_sq = Some (map_queue 4096 (aqa_asqs (31 * 2 ^ 16 + 31) + 1) 64), aq_cq = Some (map_queue 8192 (aqa_acqs (31 * 2 ^ 16 + 31) + 1) 16)\<rparr> \<and>
    dbs c' ! 0 = 0 \<and> dbs c' ! 1 = 0 \<and> old_dbs c' ! 0 = 0 \<and> old_dbs c' ! 1 = 0 \<and> cdev c' = cdev ax0 \<and> pci_cfg c' = pci_cfg ax0"
    by (rule controller_enabled) (simp_all add: i zero_regs_def cc_en_def cc_shn_def)
  then show ?thesis by (auto simp: aqa_asqs_def aqa_acqs_def sq_base_def map_queue_def PAGE_SIZE_def)
qed

section \<open>Configuration space\<close>

text \<open>C21: The host finds the device as PCI discovery expects it, whatever the address of the storage: the two lists of capabilities end and hold
  the six extended and the three other capabilities; a value written to the first base address is read back rounded down to the size of the
  window with the type bits kept, so that writing ones reveals a window of 16 KB; and no other byte changes.\<close>

theorem pci_discovery:
  assumes "pci_cfg c = pci_space base" "new < 2 ^ 32"
  shows "cap_list 8 (pci_cfg c) (pci_cfg c ! 52) = [(0x40, 0x01), (0x50, 0x11), (0x60, 0x10)] \<and>
    ext_cap_list 8 (pci_cfg c) OFFS_PCI_EXT_CAP = [(256, 0x01), (336, 0x02), (384, 0x04), (400, 0x0E), (624, 0x03), (672, 0x19)] \<and>
    (\<exists>c'. nvmev_pci_write 16 4 new c = Some c' \<and> nvmev_pci_read 0 16 4 c' = Some (0, 4 + new div 2 ^ 14 * 2 ^ 14) \<and>
       (\<forall>i. i < length (pci_cfg c) \<and> (i < 16 \<or> 20 \<le> i) \<longrightarrow> pci_cfg c' ! i = pci_cfg c ! i))"
proof -
  have 1: "cap_list 8 (pci_cfg c) (pci_cfg c ! 52) = [(0x40, 0x01), (0x50, 0x11), (0x60, 0x10)]" unfolding assms(1) by (rule pci_caps)
  have 2: "ext_cap_list 8 (pci_cfg c) OFFS_PCI_EXT_CAP = [(256, 0x01), (336, 0x02), (384, 0x04), (400, 0x0E), (624, 0x03), (672, 0x19)]"
    unfolding assms(1) by (rule pci_ext_caps)
  have l: "length (pci_cfg c) = 4096" unfolding assms(1) by (rule length_pci_space)
  let ?v = "merged 16 (cfg_at (pci_cfg c) 16 4) new"
  have v: "?v = 4 + new div 2 ^ 14 * 2 ^ 14" unfolding assms(1) pci_bar by (rule bar_merge [OF assms(2)]) simp
  have "new div 2 ^ 14 < 2 ^ 18" using assms(2) by (simp add: div_less_iff_less_mult)
  then have m: "(4 + new div 2 ^ 14 * 2 ^ 14) mod 256 ^ 4 = 4 + new div 2 ^ 14 * 2 ^ 14" by (intro mod_less) simp
  obtain c' pg where c': "nvmev_pci_write 16 4 new c = Some c'" "pci_cfg c' = put_cfg 16 (le_bytes 4 ?v) pg" "length pg = length (pci_cfg c)"
    "\<forall>i. i < length pg \<and> (i \<noteq> 6 \<or> (16::nat) \<noteq> 4) \<longrightarrow> pg ! i = pci_cfg c ! i"
    using pci_write_run [of 16 4 c new] l by auto
  have n: "length (pci_cfg c') = 4096" using c'(2,3) l by (simp add: put_cfg_nth(2) [where i = 0])
  have "nvmev_pci_read 0 16 4 c' = Some (0, 4 + new div 2 ^ 14 * 2 ^ 14)"
    using pci_read_ok [of 16 4 c'] cfg_at_put [of 16 4 pg ?v] n c'(2,3) l m unfolding v by simp
  moreover have "pci_cfg c' ! i = pci_cfg c ! i" if "i < length (pci_cfg c)" "i < 16 \<or> 20 \<le> i" for i
    using put_cfg_nth(1) [of 16 "le_bytes 4 ?v" pg i] c'(2-4) that l by (auto simp: outside_def)
  ultimately show ?thesis using 1 2 c'(1) by blast
qed

theorem pci_discovery_witness:
  "\<exists>c'. nvmev_pci_write 16 4 0xFFFFFFFF ax = Some c' \<and> nvmev_pci_read 0 16 4 c' = Some (0, 0xFFFFC004)"
proof -
  have "pci_cfg ax = pci_space (GB 4)" by (simp add: ax_def ax0_def nvmev_pci_init_def)
  from pci_discovery [OF this, of "0xFFFFFFFF"] show ?thesis by auto
qed

section \<open>Module\<close>

text \<open>C22: The namespaces divide the storage: they follow one another without overlap inside the storage, none is larger than its configured
  capacity, and what the host sees of a namespace fits into its part.\<close>

theorem namespaces_partition:
  assumes "nr \<le> length caps" "nr \<le> length types" "\<forall>ty \<in> set types. ty \<le> 3" "slc \<le> 100" "storage < 2 ^ 57"
  shows "\<exists>ns. nvmev_namespace_init slc types caps nr storage base = Some ns \<and> length ns = nr \<and>
    (\<forall>i < nr. base \<le> sl_addr (ns ! i) \<and> sl_addr (ns ! i) + sl_size (ns ! i) \<le> base + storage \<and> sl_logical (ns ! i) \<le> sl_size (ns ! i) \<and>
       (caps ! i \<noteq> 0 \<longrightarrow> sl_size (ns ! i) \<le> caps ! i)) \<and>
    (\<forall>i j. i < j \<and> j < nr \<longrightarrow> sl_addr (ns ! i) + sl_size (ns ! i) \<le> sl_addr (ns ! j))"
proof -
  obtain ns where ns: "foldM (ns_step slc types caps) [0..<nr] ([], storage, base) =
      Some (ns, storage - sum_list (map sl_size ns), base + sum_list (map sl_size ns))" "length ns = nr" "sum_list (map sl_size ns) \<le> storage"
    and e: "\<And>i. i < nr \<Longrightarrow> sl_addr (ns ! i) = base + sum_list (map sl_size (take i ns)) \<and> sl_logical (ns ! i) \<le> sl_size (ns ! i) \<and>
       (caps ! i \<noteq> 0 \<longrightarrow> sl_size (ns ! i) \<le> caps ! i)"
    using ns_init_step [OF assms] by metis
  have step: "sum_list (map sl_size (take i ns)) + sl_size (ns ! i) = sum_list (map sl_size (take (Suc i) ns))" if "i < nr" for i
    using that ns(2) by (simp add: take_Suc_conv_app_nth)
  have mono: "sum_list (map sl_size (take i ns)) \<le> sum_list (map sl_size (take j ns))" if "i \<le> j" for i j
  proof -
    have "take j ns = take i ns @ take (j - i) (drop i ns)" using that by (metis le_add_diff_inverse take_add)
    then show ?thesis by simp
  qed
  have all: "sum_list (map sl_size (take i ns)) \<le> storage" for i using mono [of i "max i nr"] ns(2,3) by simp
  have "sl_addr (ns ! i) + sl_size (ns ! i) \<le> base + storage" if "i < nr" for i using e [OF that] step [OF that] all [of "Suc i"] by simp
  moreover have "sl_addr (ns ! i) + sl_size (ns ! i) \<le> sl_addr (ns ! j)" if "i < j" "j < nr" for i j
    using e [of i] e [of j] step [of i] mono [of "Suc i" j] that by simp
  moreover have "nvmev_namespace_init slc types caps nr storage base = Some ns" using ns(1) by (simp add: nvmev_namespace_init_def)
  ultimately show ?thesis using ns(2) e by (intro exI [of _ ns]) auto
qed

theorem namespaces_partition_witness:
  "\<exists>ns. nvmev_namespace_init 10 [1, 1] [GB 1, 0] 2 (GB 4) (GB 8) = Some ns \<and> length ns = 2 \<and>
    sl_addr (ns ! 0) + sl_size (ns ! 0) \<le> sl_addr (ns ! 1) \<and> sl_addr (ns ! 1) + sl_size (ns ! 1) \<le> GB 8 + GB 4"
proof -
  have "GB 4 < 2 ^ 57" by (simp add: GB_def)
  from namespaces_partition [of 2 "[GB 1, 0]" "[1, 1]" 10 "GB 4" "GB 8", OF _ _ _ _ this] show ?thesis by fastforce
qed

lemma cpu_loop_later:
  "length (g_cpu_nr_io_workers g) + length ss \<le> 32 \<Longrightarrow>
     cpu_loop ss False g = Some (g\<lparr>g_cpu_nr_io_workers := g_cpu_nr_io_workers g @ map parse_cpu ss\<rparr>)"
  "length (g_cpu_nr_io_workers g) \<le> 32 \<Longrightarrow> 32 < length (g_cpu_nr_io_workers g) + length ss \<Longrightarrow> cpu_loop ss False g = None"
proof (induction ss arbitrary: g)
  case (Cons s ss)
  {
    case 1
    then show ?case using Cons.IH(1) [of "g\<lparr>g_cpu_nr_io_workers := g_cpu_nr_io_workers g @ [parse_cpu s]\<rparr>"] by simp
  next
    case 2
    then show ?case using Cons.IH(2) [of "g\<lparr>g_cpu_nr_io_workers := g_cpu_nr_io_workers g @ [parse_cpu s]\<rparr>"]
      by (cases "length (g_cpu_nr_io_workers g) < 32") (auto simp: NVMEV_ASSERT_def)
  }
qed simp_all

lemma split_commas_some: "split_commas s \<noteq> []"
  by (induction s) (auto split: list.splits)

definition refused :: "(nat \<Rightarrow> nat \<Rightarrow> bool) \<Rightarrow> module_params \<Rightarrow> bool" where
  "refused arch_ok p \<longleftrightarrow> p_memmap_start p = 0 \<or> p_memmap_size p \<le> MB 1 \<or> \<not> arch_ok (p_memmap_start p) (p_memmap_size p) \<or> p_nr_io_units p = 0 \<or>
     p_io_unit_shift p = 0 \<or> p_read_time p = 0 \<or> p_write_time p = 0"

text \<open>The configuration that is loaded from accepted parameters.\<close>

definition loaded :: "module_params \<Rightarrow> string \<Rightarrow> string list \<Rightarrow> nvmev_config" where
  "loaded p d ws = \<lparr>g_memmap_start = p_memmap_start p, g_memmap_size = p_memmap_size p, g_storage_start = u64 (p_memmap_start p + MB 1),
     g_storage_size = sub64 (p_memmap_size p) (MB 1), g_cpu_nr_dispatcher = parse_cpu d, g_cpu_nr_io_workers = map parse_cpu ws,
     g_nr_io_units = p_nr_io_units p, g_io_unit_shift = p_io_unit_shift p, g_read_delay = p_read_delay p,
     g_read_time = p_read_time p, g_read_trailing = p_read_trailing p, g_write_delay = p_write_delay p,
     g_write_time = p_write_time p, g_write_trailing = p_write_trailing p\<rparr>"

lemma load_eq:
  assumes "p_cpus p = Some s" "split_commas s = d # ws"
  shows "load_configs arch_ok False tbl p = (if refused arch_ok p then Some None else if length ws \<le> 32 then Some (Some (loaded p d ws)) else None)"
proof -
  have v: "validate_configs arch_ok p \<noteq> None \<longleftrightarrow> refused arch_ok p" by (auto simp: validate_configs_def refused_def MB_def)
  have l: "load_configs arch_ok False tbl p = (if refused arch_ok p then Some None
      else map_option Some (cpu_loop ws False ((loaded p d ws)\<lparr>g_cpu_nr_io_workers := []\<rparr>)))"
    using v by (simp add: load_configs_def assms loaded_def Let_def)
  show ?thesis using cpu_loop_later [of "(loaded p d ws)\<lparr>g_cpu_nr_io_workers := []\<rparr>" ws] unfolding l by (simp add: loaded_def)
qed

lemma loaded_region:
  assumes "\<not> refused arch_ok p" "p_memmap_start p + p_memmap_size p < 2 ^ 64"
  shows "g_storage_start (loaded p d ws) = p_memmap_start p + MB 1"
    "g_storage_size (loaded p d ws) = p_memmap_size p - MB 1" "MB 1 \<le> p_memmap_size p"
proof -
  show m: "MB 1 \<le> p_memmap_size p" using assms(1) by (simp add: refused_def)
  show "g_storage_start (loaded p d ws) = p_memmap_start p + MB 1" using m assms(2) by (simp add: loaded_def u64_def)
  show "g_storage_size (loaded p d ws) = p_memmap_size p - MB 1" using m assms(2) unfolding loaded_def by (simp add: sub64_le)
qed

lemma load_accepted:
  assumes "\<not> refused arch_ok p" "p_cpus p = Some s" "length (split_commas s) \<le> 33" "p_memmap_start p + p_memmap_size p < 2 ^ 64" "p_memmap_size p < 2 ^ 57"
  shows "\<exists>g. load_configs arch_ok False tbl p = Some (Some g) \<and> g_storage_size g < 2 ^ 57 \<and> g_memmap_start g = p_memmap_start p \<and>
    length (g_cpu_nr_io_workers g) = length (split_commas s) - 1"
proof -
  obtain d ws where d: "split_commas s = d # ws" using split_commas_some [of s] by (cases "split_commas s") auto
  have "g_storage_size (loaded p d ws) < 2 ^ 57" using loaded_region(2) [OF assms(1,4), of d ws] assms(5) by simp
  then show ?thesis using load_eq [OF assms(2) d] assms(1,3) d by (intro exI [of _ "loaded p d ws"]) (simp add: loaded_def)
qed

text \<open>C23: The module refuses a configuration exactly for its documented reasons. An accepted one has the storage behind the first megabyte of the
  reserved memory and up to its end, and one dispatcher and the workers in the order of the list. The code does not check the length of the
  list: one with more than 32 workers is written behind the array.\<close>

theorem load_configs_effect:
  assumes "p_cpus p = Some s" "p_memmap_start p + p_memmap_size p < 2 ^ 64"
  shows "(load_configs arch_ok False tbl p = Some None \<longleftrightarrow> refused arch_ok p) \<and>
    (load_configs arch_ok False tbl p = None \<longleftrightarrow> \<not> refused arch_ok p \<and> 33 < length (split_commas s)) \<and>
    (\<forall>g. load_configs arch_ok False tbl p = Some (Some g) \<longrightarrow> g_storage_start g = p_memmap_start p + MB 1 \<and>
       g_storage_start g + g_storage_size g = p_memmap_start p + p_memmap_size p \<and> g_cpu_nr_dispatcher g = parse_cpu (hd (split_commas s)) \<and>
       g_cpu_nr_io_workers g = map parse_cpu (tl (split_commas s)))"
proof -
  obtain d ws where d: "split_commas s = d # ws" using split_commas_some [of s] by (cases "split_commas s") auto
  note l = load_eq [OF assms(1) d]
  have 1: "load_configs arch_ok False tbl p = Some None \<longleftrightarrow> refused arch_ok p" using l by simp
  have 2: "load_configs arch_ok False tbl p = None \<longleftrightarrow> \<not> refused arch_ok p \<and> 33 < length (split_commas s)" using l d by auto
  have 3: "g_storage_start g = p_memmap_start p + MB 1 \<and> g_storage_start g + g_storage_size g = p_memmap_start p + p_memmap_size p \<and>
      g_cpu_nr_dispatcher g = parse_cpu (hd (split_commas s)) \<and> g_cpu_nr_io_workers g = map parse_cpu (tl (split_commas s))"
    if "load_configs arch_ok False tbl p = Some (Some g)" for g
  proof -
    have g: "g = loaded p d ws" "\<not> refused arch_ok p" using that l by (simp_all split: if_splits)
    then show ?thesis using loaded_region(1,2) [OF g(2) assms(2), of d ws] loaded_region(3) [OF g(2) assms(2)] d by (simp add: loaded_def)
  qed
  show ?thesis using 1 2 3 by blast
qed

definition ax_params :: "string \<Rightarrow> module_params" where
  "ax_params s = \<lparr>p_memmap_start = GB 4, p_memmap_size = GB 16, p_read_time = 1, p_read_delay = 1, p_read_trailing = 0, p_write_time = 1, p_write_delay = 1,
     p_write_trailing = 0, p_nr_io_units = 8, p_io_unit_shift = 12, p_cpus = Some s\<rparr>"

theorem load_configs_effect_witness:
  "\<exists>g. load_configs (\<lambda>_ _. True) False 0 (ax_params ''7,8'') = Some (Some g) \<and> g_cpu_nr_dispatcher g = 7 \<and> g_cpu_nr_io_workers g = [8]"
proof -
  have r: "\<not> refused (\<lambda>_ _. True) (ax_params ''7,8'')" by (simp add: refused_def ax_params_def GB_def MB_def)
  have b: "p_memmap_start (ax_params ''7,8'') + p_memmap_size (ax_params ''7,8'') < 2 ^ 64" by (simp add: ax_params_def GB_def)
  have c: "p_cpus (ax_params ''7,8'') = Some ''7,8''" by (simp add: ax_params_def)
  have v: "split_commas ''7,8'' = [''7'', ''8'']" "parse_cpu ''7'' = 7" "parse_cpu ''8'' = 8"
    by (simp_all add: parse_cpu_def decimal_def is_digit_def u32_def)
  note e = load_configs_effect [OF c b, of "\<lambda>_ _. True" 0]
  obtain x where "load_configs (\<lambda>_ _. True) False 0 (ax_params ''7,8'') = Some x" using e v(1) by (cases "load_configs (\<lambda>_ _. True) False 0 (ax_params ''7,8'')") auto
  moreover obtain g where "x = Some g" using e r calculation by (cases x) auto
  ultimately show ?thesis using e v by auto
qed

end
