(* ===== verification/Dma_Engine.thy ===== *)
theory Dma_Engine
  imports Prelude "HOL-Library.Multiset"
begin

text \<open>
  The use of the DMA engine (\<open>dma.c\<close>): the choice of a channel by its name, and one transfer.

  The engine is the kernel's. What it does is a parameter: \<open>req\<close> is \<open>dma_request_channel\<close>, which picks one of the channels that are free and can
  copy memory, if one passes the filter; \<open>dma_answer\<close> is how the engine takes and ends one transfer. Messages and delays are not modelled, and
  the memory that is allocated is there.
\<close>

section \<open>State\<close>

record dma_chan =
  dc_name :: string
  dc_device :: string
  dc_no_order :: bool
  dc_memcpy :: bool

record ioat_dma_params =
  dp_channel :: string
  dp_device :: string
  dp_max_channels :: nat
  dp_polled :: bool

record ioat_dma_info =
  di_params :: ioat_dma_params
  di_channels :: "dma_chan list"
  di_nr_channels :: nat
  di_last_error :: int
  di_thread :: "dma_chan option"
  di_test_channel :: string
  di_pool :: "dma_chan list"

definition CHANNEL_NAME_LEN :: nat where "CHANNEL_NAME_LEN = 20"

definition EBUSY :: int where "EBUSY = 16"
definition EINVAL_no :: int where "EINVAL_no = 22"
definition ENOMEM :: int where "ENOMEM = 12"

text \<open>Before the first use. \<open>di_pool\<close> are the channels of the machine that nobody has taken.\<close>

definition dma_start :: "dma_chan list \<Rightarrow> ioat_dma_info" where
  "dma_start pool = \<lparr>di_params = \<lparr>dp_channel = [], dp_device = [], dp_max_channels = 0, dp_polled = False\<rparr>, di_channels = [], di_nr_channels = 0,
     di_last_error = 0, di_thread = None, di_test_channel = [], di_pool = pool\<rparr>"

section \<open>Channels\<close>

definition ioat_dma_match_channel :: "ioat_dma_params \<Rightarrow> dma_chan \<Rightarrow> bool" where
  "ioat_dma_match_channel p ch \<longleftrightarrow> (if dp_channel p = [] then True else dc_name ch = dp_channel p)"

definition ioat_dma_match_device :: "ioat_dma_params \<Rightarrow> dma_chan \<Rightarrow> bool" where
  "ioat_dma_match_device p ch \<longleftrightarrow> (if dp_device p = [] then True else dc_device ch = dp_device p)"

definition dma_filter :: "ioat_dma_params \<Rightarrow> dma_chan \<Rightarrow> bool" where
  "dma_filter p ch \<longleftrightarrow> ioat_dma_match_channel p ch \<and> ioat_dma_match_device p ch"

definition ioat_dma_add_channel :: "dma_chan \<Rightarrow> ioat_dma_info \<Rightarrow> ioat_dma_info" where
  "ioat_dma_add_channel ch info =
     (let info = (if dc_no_order ch \<and> dp_polled (di_params info) then info\<lparr>di_params := (di_params info)\<lparr>dp_polled := False\<rparr>\<rparr> else info);
          info = (if dc_memcpy ch then info\<lparr>di_thread := Some ch\<rparr> else info)
      in info\<lparr>di_channels := di_channels info @ [ch], di_nr_channels := di_nr_channels info + 1\<rparr>)"

type_synonym request_fun = "dma_chan list \<Rightarrow> (dma_chan \<Rightarrow> bool) \<Rightarrow> dma_chan option"

text \<open>The channel that is granted is no longer free; a channel that was not free cannot be granted.\<close>

function request_channels :: "request_fun \<Rightarrow> ioat_dma_info \<Rightarrow> ioat_dma_info option" where
  "request_channels req info =
     (case req (filter dc_memcpy (di_pool info)) (dma_filter (di_params info)) of
        None \<Rightarrow> Some info
      | Some ch \<Rightarrow>
          if ch \<notin> set (di_pool info) then None
          else let info' = ioat_dma_add_channel ch (info\<lparr>di_pool := remove1 ch (di_pool info)\<rparr>)
               in if dp_max_channels (di_params info') \<noteq> 0 \<and> dp_max_channels (di_params info') \<le> di_nr_channels info' then Some info'
                  else request_channels req info')"
  by pat_completeness auto
termination
proof (relation "measure (\<lambda>(req, info). length (di_pool info))", goal_cases)
  case (2 req info ch info')
  then have "ch \<in> set (di_pool info)" by simp
  then have "length (remove1 ch (di_pool info)) < length (di_pool info)"
    using length_pos_if_in_set [of ch "di_pool info"] by (simp add: length_remove1)
  then show ?case using 2 by (simp add: ioat_dma_add_channel_def Let_def)
qed simp

declare request_channels.simps [simp del]

text \<open>\<open>strim\<close> removes white space at both ends.\<close>

definition is_space :: "char \<Rightarrow> bool" where
  "is_space ch \<longleftrightarrow> (let c = (of_char ch :: nat) in 9 \<le> c \<and> c \<le> 13 \<or> c = 32 \<or> c = 160)"

definition strim :: "string \<Rightarrow> string" where
  "strim s = rev (dropWhile is_space (rev (dropWhile is_space s)))"

definition add_threaded_dma :: "request_fun \<Rightarrow> ioat_dma_info \<Rightarrow> ioat_dma_info option" where
  "add_threaded_dma req info = request_channels req
     (info\<lparr>di_params := \<lparr>dp_channel = strim (di_test_channel info), dp_device = [], dp_max_channels = 0, dp_polled = True\<rparr>\<rparr>)"

definition ioat_dma_chan_set :: "request_fun \<Rightarrow> string \<Rightarrow> ioat_dma_info \<Rightarrow> (int \<times> ioat_dma_info) option" where
  "ioat_dma_chan_set req val info = do {
     NVMEV_ASSERT (length val < CHANNEL_NAME_LEN);
     let info = info\<lparr>di_test_channel := val\<rparr>; name = strim val; fail = (\<lambda>e info. (- e, info\<lparr>di_last_error := - e\<rparr>))
     in if \<exists>ch \<in> set (di_channels info). dc_name ch = name then Some (fail EBUSY info)
        else do {
          info \<leftarrow> add_threaded_dma req info;
          Some (if di_channels info \<noteq> [] then
                  (if dc_name (last (di_channels info)) \<noteq> name \<and> name \<noteq> [] then fail EINVAL_no info else (0, info\<lparr>di_last_error := 0\<rparr>))
                else fail EBUSY info) } }"

text \<open>The channels are given back.\<close>

definition ioat_dma_cleanup :: "ioat_dma_info \<Rightarrow> ioat_dma_info" where
  "ioat_dma_cleanup info = info\<lparr>di_pool := di_pool info @ di_channels info, di_channels := [], di_nr_channels := 0\<rparr>"

section \<open>Transfers\<close>

datatype dma_status = DMA_COMPLETE | DMA_IN_PROGRESS | DMA_ERROR | DMA_OUT_OF_ORDER

text \<open>What the engine answers: whether a descriptor is prepared and accepted, how a synchronous wait ends, whether the callback comes in time, and
  the status that is read afterwards.\<close>

record dma_answer =
  da_prepared :: bool
  da_submit_error :: bool
  da_sync_wait :: dma_status
  da_callback :: bool
  da_is_complete :: dma_status

text \<open>The result and whether the channel is terminated. A transfer without a channel uses a pointer that is not set.\<close>

definition ioat_dma_submit :: "dma_answer \<Rightarrow> ioat_dma_info \<Rightarrow> (int \<times> bool) option" where
  "ioat_dma_submit a info = do {
     chan \<leftarrow> di_thread info;
     let failed = (- ENOMEM, True); polled = dp_polled (di_params info)
     in Some (if \<not> da_prepared a then failed
              else if da_submit_error a then failed
              else let status = (if polled then da_sync_wait a else da_is_complete a);
                       finished = (if polled then status = DMA_COMPLETE else da_callback a)
                   in if \<not> finished then failed
                      else if status \<noteq> DMA_COMPLETE \<and> \<not> (dc_no_order chan \<and> status = DMA_OUT_OF_ORDER) then failed
                      else (0, polled)) }"

section \<open>Laws\<close>

text \<open>What \<open>dma_request_channel\<close> promises.\<close>

definition request_law :: "request_fun \<Rightarrow> bool" where
  "request_law req \<longleftrightarrow> (\<forall>pool flt. case req pool flt of None \<Rightarrow> \<forall>ch \<in> set pool. \<not> flt ch | Some ch \<Rightarrow> ch \<in> set pool \<and> flt ch)"

lemma request_law_find: "request_law (\<lambda>pool flt. find flt pool)"
  by (auto simp: request_law_def find_None_iff find_Some_iff split: option.splits)

lemma add_channel_fields [simp]:
  "di_channels (ioat_dma_add_channel ch info) = di_channels info @ [ch]" "di_pool (ioat_dma_add_channel ch info) = di_pool info"
  "di_thread (ioat_dma_add_channel ch info) = (if dc_memcpy ch then Some ch else di_thread info)"
  "dp_channel (di_params (ioat_dma_add_channel ch info)) = dp_channel (di_params info)"
  "dp_device (di_params (ioat_dma_add_channel ch info)) = dp_device (di_params info)"
  "dp_max_channels (di_params (ioat_dma_add_channel ch info)) = dp_max_channels (di_params info)"
  "dp_polled (di_params (ioat_dma_add_channel ch info)) = (dp_polled (di_params info) \<and> \<not> dc_no_order ch)"
  by (auto simp: ioat_dma_add_channel_def Let_def)

text \<open>All free channels that match are taken; the last one is used.\<close>

definition wanted :: "ioat_dma_params \<Rightarrow> dma_chan \<Rightarrow> bool" where
  "wanted p ch \<longleftrightarrow> dc_memcpy ch \<and> dma_filter p ch"

lemma wanted_same: "dp_channel p = dp_channel q \<Longrightarrow> dp_device p = dp_device q \<Longrightarrow> wanted p = wanted q"
  by (simp add: wanted_def fun_eq_iff dma_filter_def ioat_dma_match_channel_def ioat_dma_match_device_def)

lemma request_channels_all:
  assumes "request_law req" "dp_max_channels (di_params info) = 0"
  shows "\<exists>info' new. request_channels req info = Some info' \<and> di_channels info' = di_channels info @ new \<and>
    mset new = filter_mset (wanted (di_params info)) (mset (di_pool info)) \<and> di_pool info' = filter (\<lambda>ch. \<not> wanted (di_params info) ch) (di_pool info) \<and>
    di_thread info' = (if new = [] then di_thread info else Some (last new)) \<and>
    dp_polled (di_params info') = (dp_polled (di_params info) \<and> (\<forall>ch \<in> set new. \<not> dc_no_order ch)) \<and> di_test_channel info' = di_test_channel info"
  using assms(2)
proof (induction "length (di_pool info)" arbitrary: info rule: less_induct)
  case less
  let ?p = "di_params info" let ?w = "wanted ?p"
  show ?case
  proof (cases "req (filter dc_memcpy (di_pool info)) (dma_filter ?p)")
    case None
    then have n: "\<forall>ch \<in> set (filter dc_memcpy (di_pool info)). \<not> dma_filter ?p ch"
      using assms(1) [unfolded request_law_def, rule_format, of "filter dc_memcpy (di_pool info)" "dma_filter ?p"] by simp
    then have w: "filter (\<lambda>ch. \<not> ?w ch) (di_pool info) = di_pool info" "filter_mset ?w (mset (di_pool info)) = {#}"
      by (auto simp: wanted_def mset_filter [symmetric] filter_empty_conv intro!: filter_True simp del: mset_filter)
    have "request_channels req info = Some info" using None by (subst request_channels.simps) simp
    then show ?thesis using w by (intro exI [of _ info] exI [of _ "[]"]) simp
  next
    case (Some ch)
    then have c: "ch \<in> set (di_pool info)" "dc_memcpy ch" "?w ch"
      using assms(1) [unfolded request_law_def, rule_format, of "filter dc_memcpy (di_pool info)" "dma_filter ?p"] by (auto simp: wanted_def)
    let ?i = "ioat_dma_add_channel ch (info\<lparr>di_pool := remove1 ch (di_pool info)\<rparr>)"
    have l: "length (di_pool ?i) < length (di_pool info)"
      using c(1) length_pos_if_in_set [of ch "di_pool info"] by (simp add: length_remove1)
    have w: "wanted (di_params ?i) = ?w" by (rule wanted_same) simp_all
    have r: "request_channels req info = request_channels req ?i" using Some c(1) less.prems by (subst request_channels.simps) (simp add: Let_def)
    obtain info' new where i: "request_channels req ?i = Some info'" "di_channels info' = di_channels ?i @ new"
      "mset new = filter_mset (wanted (di_params ?i)) (mset (di_pool ?i))" "di_pool info' = filter (\<lambda>ch. \<not> wanted (di_params ?i) ch) (di_pool ?i)"
      "di_thread info' = (if new = [] then di_thread ?i else Some (last new))"
      "dp_polled (di_params info') = (dp_polled (di_params ?i) \<and> (\<forall>ch \<in> set new. \<not> dc_no_order ch))" "di_test_channel info' = di_test_channel ?i"
      using less.hyps [OF l] less.prems by auto
    have "ch \<in># mset (di_pool info)" using c(1) by simp
    then have "filter_mset ?w (mset (di_pool info)) = add_mset ch (filter_mset ?w (mset (remove1 ch (di_pool info))))"
      using c(3) by (metis filter_mset_add_mset insert_DiffM mset_remove1)
    then have m: "mset (ch # new) = filter_mset ?w (mset (di_pool info))" using i(3) unfolding w by simp
    have "filter (\<lambda>ch. \<not> ?w ch) (remove1 ch (di_pool info)) = filter (\<lambda>ch. \<not> ?w ch) (di_pool info)"
      using c(3) by (simp add: filter_remove1 remove1_idem)
    then have p: "di_pool info' = filter (\<lambda>ch. \<not> ?w ch) (di_pool info)" using i(4) unfolding w by simp
    show ?thesis using r i(1,2,5-7) m p c(2) by (intro exI [of _ info'] exI [of _ "ch # new"]) (auto simp: ioat_dma_add_channel_def Let_def)
  qed
qed

end
