(* ===== verification/Module_Run.thy ===== *)
theory Module_Run
  imports Module_Init Dma_Engine Conv_Io Zns_Ftl Kv_Io
begin

text \<open>
  The module as a whole (\<open>main.c\<close>): loading it composes the configuration, the namespaces, the DMA engine, the PCI device and the workers; the
  files under \<open>/proc\<close> change the configuration and the statistics while it runs.

  The models of the devices are records of different types; a namespace of the module is one of the four. The record \<open>boot\<close> holds what the module
  finds when it is loaded: the flash configuration of the build, the clocks, and what \<open>kmalloc\<close> left in the structures before the constructors
  fill them. \<open>mapped\<close> is the address that \<open>memremap\<close> gives for the storage. What \<open>sscanf\<close> converts is the list \<open>vals\<close> of the numbers that it stores, from the first on.
\<close>

section \<open>Module\<close>

record 'ns module =
  m_config :: nvmev_config
  m_ctrl :: "'ns ctrl"
  m_io_unit_stat :: "nat list"
  m_using_dma :: bool
  m_dma :: ioat_dma_info

definition NVMEV_STORAGE_INIT :: "nvmev_config \<Rightarrow> nat list" where
  "NVMEV_STORAGE_INIT g = replicate (g_nr_io_units g) 0"

datatype any_ns = Nvm_ns simple_ns | Conv_ns conv_ns | Zns_ns zns_ns | Kv_ns kv_ns

record boot =
  bt_cfg :: ssd_config
  bt_junk :: "nat \<Rightarrow> nat"
  bt_jiffies :: nat
  bt_clock :: "nat \<Rightarrow> nat \<Rightarrow> nat"
  bt_ftl :: "nat \<Rightarrow> conv_ftl"
  bt_spp :: ssdparams
  bt_conv :: conv_ns
  bt_zns :: zns_ns
  bt_simple :: simple_ns
  bt_bitmap :: bool

text \<open>A simple device reads its timing in the configuration and has the table of \<open>io_unit_stat\<close>.\<close>

definition simple_of :: "nvmev_config \<Rightarrow> simple_ns \<Rightarrow> simple_ns" where
  "simple_of g s = s\<lparr>nr_io_units := g_nr_io_units g, io_unit_shift := g_io_unit_shift g, read_delay := g_read_delay g, read_time := g_read_time g,
     read_trailing := g_read_trailing g, write_delay := g_write_delay g, write_time := g_write_time g, write_trailing := g_write_trailing g,
     io_unit_stat := NVMEV_STORAGE_INIT g\<rparr>"

text \<open>The constructor of the type of a namespace; for a conventional one the loop then replaces the size by the logical size.\<close>

definition make_namespace :: "boot \<Rightarrow> nat \<Rightarrow> sys_mem \<Rightarrow> nvmev_config \<Rightarrow> nat \<Rightarrow> ns_slot \<Rightarrow> any_ns option" where
  "make_namespace bt table_size m g i sl =
     (let size = sl_size sl; disp_no = g_cpu_nr_dispatcher g
      in if sl_type sl = SSD_TYPE_NVM then Some (Nvm_ns (simple_init_namespace i size (simple_of g (bt_simple bt))))
         else if sl_type sl = SSD_TYPE_CONV then do {
           ns \<leftarrow> conv_init_namespace (bt_cfg bt) (bt_junk bt) (bt_jiffies bt) (bt_clock bt) (bt_ftl bt) (bt_spp bt) (bt_conv bt) i size disp_no;
           Some (Conv_ns (ns\<lparr>ns_size := sl_logical sl\<rparr>)) }
         else if sl_type sl = SSD_TYPE_ZNS then
           map_option Zns_ns (zns_init_namespace (bt_cfg bt) (bt_junk bt) (bt_jiffies bt) (bt_clock bt 0) (bt_spp bt) m (bt_zns bt) i size (sl_addr sl) disp_no)
         else if sl_type sl = SSD_TYPE_KV then
           Some (Kv_ns (kv_init_namespace (bt_bitmap bt) table_size (g_storage_size g) i size (simple_of g (bt_simple bt))))
         else None)"

definition namespaces_of :: "(nat \<Rightarrow> ns_slot \<Rightarrow> 'ns option) \<Rightarrow> ns_slot list \<Rightarrow> 'ns list option" where
  "namespaces_of con slots = foldM (\<lambda>i nss. do { sl \<leftarrow> idx slots i; n \<leftarrow> con i sl; Some (nss @ [n]) }) [0..<length slots] []"

definition dma_setup :: "request_fun \<Rightarrow> bool \<Rightarrow> dma_chan list \<Rightarrow> (bool \<times> ioat_dma_info) option" where
  "dma_setup req using_dma pool =
     (if using_dma then do { (r, info) \<leftarrow> ioat_dma_chan_set req ''dma7chan0'' (dma_start pool); Some (r = 0, info) }
      else Some (False, dma_start pool))"

text \<open>The result inside is \<open>None\<close> when the module is not loaded.\<close>

definition NVMeV_init :: "(nat \<Rightarrow> nat \<Rightarrow> bool) \<Rightarrow> bool \<Rightarrow> nat \<Rightarrow> nat \<Rightarrow> nat list \<Rightarrow> nat list \<Rightarrow> nat \<Rightarrow> boot \<Rightarrow> request_fun \<Rightarrow> bool \<Rightarrow>
    dma_chan list \<Rightarrow> nat \<Rightarrow> sys_mem \<Rightarrow> (nat \<Rightarrow> nat) \<Rightarrow> module_params \<Rightarrow> any_ns module option option" where
  "NVMeV_init arch_ok kv_build table_size slc types caps nr_ns bt req using_dma pool mapped m wclk p = do {
     cfg \<leftarrow> load_configs arch_ok kv_build table_size p;
     case cfg of None \<Rightarrow> Some None
     | Some g \<Rightarrow> do {
         slots \<leftarrow> nvmev_namespace_init slc types caps nr_ns (g_storage_size g) mapped;
         nss \<leftarrow> namespaces_of (make_namespace bt table_size m g) slots;
         (dma, info) \<leftarrow> dma_setup req using_dma pool;
         let dev = \<lparr>io_workers = [], io_worker_turn = 0, nr_io_workers = length (g_cpu_nr_io_workers g), nspaces = nss, sqes = [], cqes = [],
                    dmem = m, dclk = wclk, dtick = 0\<rparr>;
             c = nvmev_pci_init (g_memmap_start g) dev
         in Some (Some \<lparr>m_config = g, m_ctrl = c\<lparr>cdev := nvmev_io_worker_init (cdev c)\<rparr>, m_io_unit_stat = NVMEV_STORAGE_INIT g,
              m_using_dma = dma, m_dma = info\<rparr>) } }"

section \<open>Files\<close>

definition set_times :: "nat list \<Rightarrow> nat \<times> nat \<times> nat \<Rightarrow> nat \<times> nat \<times> nat" where
  "set_times vals old = (case old of (d, t, r) \<Rightarrow> (case vals of [] \<Rightarrow> (d, t, r) | [d'] \<Rightarrow> (d', t, r) | [d', t'] \<Rightarrow> (d', t', r) | d' # t' # r' # _ \<Rightarrow> (d', t', r')))"

definition write_read_times :: "nat list \<Rightarrow> nvmev_config \<Rightarrow> nvmev_config" where
  "write_read_times vals g = (case set_times vals (g_read_delay g, g_read_time g, g_read_trailing g) of
     (d, t, r) \<Rightarrow> g\<lparr>g_read_delay := d, g_read_time := t, g_read_trailing := r\<rparr>)"

definition write_write_times :: "nat list \<Rightarrow> nvmev_config \<Rightarrow> nvmev_config" where
  "write_write_times vals g = (case set_times vals (g_write_delay g, g_write_time g, g_write_trailing g) of
     (d, t, r) \<Rightarrow> g\<lparr>g_write_delay := d, g_write_time := t, g_write_trailing := r\<rparr>)"

definition write_io_units :: "nat list \<Rightarrow> 'ns module \<Rightarrow> 'ns module" where
  "write_io_units vals m = (case vals of [] \<Rightarrow> m
     | n # rest \<Rightarrow> m\<lparr>m_config := (m_config m)\<lparr>g_nr_io_units := n, g_io_unit_shift := (case rest of [] \<Rightarrow> g_io_unit_shift (m_config m) | s # _ \<Rightarrow> s)\<rparr>,
                     m_io_unit_stat := replicate n 0\<rparr>)"

definition proc_file_write :: "string \<Rightarrow> nat list \<Rightarrow> 'ns module \<Rightarrow> 'ns module option" where
  "proc_file_write filename vals m =
     (if filename = ''read_times'' then Some (m\<lparr>m_config := write_read_times vals (m_config m)\<rparr>)
      else if filename = ''write_times'' then Some (m\<lparr>m_config := write_write_times vals (m_config m)\<rparr>)
      else if filename = ''io_units'' then Some (write_io_units vals m)
      else if filename = ''stat'' then do { c \<leftarrow> proc_write_stat (m_ctrl m); Some (m\<lparr>m_ctrl := c\<rparr>) }
      else Some m)"

end
