(* ===== verification/Module_Properties.thy ===== *)
theory Module_Properties
  imports Controller_Properties Module_Run Zns_Device Io_Devices
begin

text \<open>
  The properties of the module as a whole, from the parameters to a controller that is ready, and of the DMA engine.
\<close>

section \<open>DMA engine\<close>

lemma last_in_new:
  assumes "mset new = filter_mset P (mset pool)"
  shows "new \<noteq> [] \<longleftrightarrow> (\<exists>ch \<in> set pool. P ch)" "new \<noteq> [] \<Longrightarrow> last new \<in> set pool \<and> P (last new)" "set new = {ch \<in> set pool. P ch}"
proof -
  show s: "set new = {ch \<in> set pool. P ch}" using assms by (metis mset_filter set_filter set_mset_mset)
  show "new \<noteq> [] \<longleftrightarrow> (\<exists>ch \<in> set pool. P ch)"
  proof -
    have "set new \<noteq> {} \<longleftrightarrow> (\<exists>ch \<in> set pool. P ch)" unfolding s by blast
    then show ?thesis by simp
  qed
  show "new \<noteq> [] \<Longrightarrow> last new \<in> set pool \<and> P (last new)" using s last_in_set [of new] by blast
qed

lemma chan_set_run:
  assumes "request_law req" "name \<noteq> []" "strim name = name" "length name < CHANNEL_NAME_LEN"
  shows "\<exists>r info. ioat_dma_chan_set req name (dma_start pool) = Some (r, info) \<and>
    (r = 0 \<longleftrightarrow> (\<exists>ch \<in> set pool. dc_memcpy ch \<and> dc_name ch = name)) \<and>
    (r = 0 \<longrightarrow> (\<exists>ch \<in> set pool. di_thread info = Some ch \<and> dc_memcpy ch \<and> dc_name ch = name)) \<and>
    (r \<noteq> 0 \<longrightarrow> di_thread info = None \<and> di_channels info = []) \<and>
    di_pool info = filter (\<lambda>ch. \<not> (dc_memcpy ch \<and> dc_name ch = name)) pool \<and>
    mset (di_channels info) = filter_mset (\<lambda>ch. dc_memcpy ch \<and> dc_name ch = name) (mset pool) \<and>
    (dp_polled (di_params info) \<longleftrightarrow> (\<forall>ch \<in> set pool. dc_memcpy ch \<and> dc_name ch = name \<longrightarrow> \<not> dc_no_order ch))"
proof -
  obtain s where sd: "s = (dma_start pool)\<lparr>di_test_channel := name,
    di_params := \<lparr>dp_channel = name, dp_device = [], dp_max_channels = 0, dp_polled = True\<rparr>\<rparr>" by blast
  let ?w = "\<lambda>ch. dc_memcpy ch \<and> dc_name ch = name"
  have w: "wanted (di_params s) = ?w"
    using assms(2) by (auto simp: sd fun_eq_iff wanted_def dma_filter_def ioat_dma_match_channel_def ioat_dma_match_device_def)
  have f: "di_channels s = []" "di_pool s = pool" "di_thread s = None" "dp_polled (di_params s)" "dp_max_channels (di_params s) = 0"
    by (simp_all add: sd dma_start_def)
  obtain info new where i: "request_channels req s = Some info" "di_channels info = new" "mset new = filter_mset ?w (mset pool)"
    "di_pool info = filter (\<lambda>ch. \<not> ?w ch) pool" "di_thread info = (if new = [] then None else Some (last new))"
    "dp_polled (di_params info) = (\<forall>ch \<in> set new. \<not> dc_no_order ch)"
    using request_channels_all [OF assms(1) f(5)] f by (elim exE conjE) (rule that, simp_all add: w)
  note l = last_in_new [OF i(3)]
  let ?r = "if new = [] then (- EBUSY, info\<lparr>di_last_error := - EBUSY\<rparr>) else (0, info\<lparr>di_last_error := 0\<rparr>)"
  have t: "add_threaded_dma req ((dma_start pool)\<lparr>di_test_channel := name\<rparr>) = Some info"
    using i(1) assms(3) by (simp add: add_threaded_dma_def sd)
  have e: "di_channels ((dma_start pool)\<lparr>di_test_channel := name\<rparr>) = []" by (simp add: dma_start_def)
  have "ioat_dma_chan_set req name (dma_start pool) = Some ?r"
    using l(2) by (cases "new = []") (simp_all add: ioat_dma_chan_set_def Let_def t e i(2) assms(3,4))
  moreover have "(new \<noteq> []) = (\<exists>ch \<in> set pool. ?w ch)" by (rule l(1))
  moreover have "new \<noteq> [] \<Longrightarrow> last new \<in> set pool \<and> ?w (last new)" by (rule l(2))
  moreover have "(\<forall>ch \<in> set new. \<not> dc_no_order ch) = (\<forall>ch \<in> set pool. ?w ch \<longrightarrow> \<not> dc_no_order ch)" unfolding l(3) by blast
  moreover have "filter_mset ?w (mset pool) = mset new" by (rule i(3) [symmetric])
  ultimately show ?thesis using i(2,4-6) by (cases "new = []") (simp_all add: EBUSY_def)
qed

text \<open>C24: The first request for a channel by its name succeeds exactly when a free channel of that name can copy memory; then such a channel is used for
  the transfers, and otherwise none is. Exactly the free channels of that name that can copy memory are taken, and the pool of free channels keeps all the
  others, in their order. The engine is polled unless one of the channels that are taken completes out of order.\<close>

theorem dma_chan_set_effect:
  assumes "request_law req" "name \<noteq> []" "strim name = name" "length name < CHANNEL_NAME_LEN"
  shows "\<exists>r info. ioat_dma_chan_set req name (dma_start pool) = Some (r, info) \<and>
    (r = 0 \<longleftrightarrow> (\<exists>ch \<in> set pool. dc_memcpy ch \<and> dc_name ch = name)) \<and>
    (r = 0 \<longrightarrow> (\<exists>ch \<in> set pool. di_thread info = Some ch \<and> dc_memcpy ch \<and> dc_name ch = name)) \<and>
    (r \<noteq> 0 \<longrightarrow> di_thread info = None \<and> di_channels info = []) \<and>
    di_pool info = filter (\<lambda>ch. \<not> (dc_memcpy ch \<and> dc_name ch = name)) pool \<and>
    mset (di_channels info) = filter_mset (\<lambda>ch. dc_memcpy ch \<and> dc_name ch = name) (mset pool) \<and>
    (dp_polled (di_params info) \<longleftrightarrow> (\<forall>ch \<in> set pool. dc_memcpy ch \<and> dc_name ch = name \<longrightarrow> \<not> dc_no_order ch))"
  by (rule chan_set_run [OF assms])

theorem dma_chan_set_effect_witness:
  "\<exists>info. ioat_dma_chan_set (\<lambda>pool flt. find flt pool) ''dma7chan0''
      (dma_start [\<lparr>dc_name = ''dma0chan0'', dc_device = [], dc_no_order = False, dc_memcpy = True\<rparr>,
                  \<lparr>dc_name = ''dma7chan0'', dc_device = [], dc_no_order = True, dc_memcpy = True\<rparr>]) = Some (0, info) \<and>
    \<not> dp_polled (di_params info) \<and> map dc_name (di_pool info) = [''dma0chan0''] \<and> map dc_name (di_channels info) = [''dma7chan0'']"
proof -
  let ?pool = "[\<lparr>dc_name = ''dma0chan0'', dc_device = [], dc_no_order = False, dc_memcpy = True\<rparr>,
                \<lparr>dc_name = ''dma7chan0'', dc_device = [], dc_no_order = True, dc_memcpy = True\<rparr>]"
  have n: "''dma7chan0'' \<noteq> []" "strim ''dma7chan0'' = ''dma7chan0''" "length ''dma7chan0'' < CHANNEL_NAME_LEN"
    by (simp_all add: strim_def is_space_def CHANNEL_NAME_LEN_def Let_def)
  obtain r info where "ioat_dma_chan_set (\<lambda>pool flt. find flt pool) ''dma7chan0'' (dma_start ?pool) = Some (r, info)"
    "r = 0 \<longleftrightarrow> (\<exists>ch \<in> set ?pool. dc_memcpy ch \<and> dc_name ch = ''dma7chan0'')"
    "di_pool info = filter (\<lambda>ch. \<not> (dc_memcpy ch \<and> dc_name ch = ''dma7chan0'')) ?pool"
    "mset (di_channels info) = filter_mset (\<lambda>ch. dc_memcpy ch \<and> dc_name ch = ''dma7chan0'') (mset ?pool)"
    "dp_polled (di_params info) \<longleftrightarrow> (\<forall>ch \<in> set ?pool. dc_memcpy ch \<and> dc_name ch = ''dma7chan0'' \<longrightarrow> \<not> dc_no_order ch)"
    using dma_chan_set_effect [OF request_law_find n, of ?pool] by blast
  then show ?thesis by simp
qed

section \<open>From the parameters to a ready controller\<close>

lemma namespaces_total:
  assumes "\<And>i sl. idx slots i = Some sl \<Longrightarrow> con i sl \<noteq> None"
  shows "\<exists>nss. namespaces_of con slots = Some nss \<and> length nss = length slots \<and> (\<forall>i < length slots. con i (slots ! i) = Some (nss ! i))"
proof -
  let ?f = "\<lambda>i nss. do { sl \<leftarrow> idx slots i; n \<leftarrow> con i sl; Some (nss @ [n]) }"
  have "\<exists>nss. foldM ?f [0..<k] [] = Some nss \<and> length nss = k \<and> (\<forall>i < k. con i (slots ! i) = Some (nss ! i))" if "k \<le> length slots" for k
    using that
  proof (induction k)
    case (Suc k)
    then obtain nss where n: "foldM ?f [0..<k] [] = Some nss" "length nss = k" "\<forall>i < k. con i (slots ! i) = Some (nss ! i)" by auto
    obtain x where x: "con k (slots ! k) = Some x" using assms [of k "slots ! k"] Suc.prems by (auto simp: arr_simps)
    have "foldM ?f [0..<Suc k] [] = Some (nss @ [x])" using n(1) x Suc.prems by (simp add: foldM_append arr_simps)
    then show ?case using n(2,3) x by (intro exI [of _ "nss @ [x]"]) (auto simp: nth_append less_Suc_eq)
  qed simp
  then show ?thesis unfolding namespaces_of_def by blast
qed

lemma dma_setup_total:
  assumes "request_law req"
  shows "\<exists>info. dma_setup req u pool = Some (u \<and> (\<exists>ch \<in> set pool. dc_memcpy ch \<and> dc_name ch = ''dma7chan0''), info)"
proof -
  have n: "''dma7chan0'' \<noteq> []" "strim ''dma7chan0'' = ''dma7chan0''" "length ''dma7chan0'' < CHANNEL_NAME_LEN"
    by (simp_all add: strim_def is_space_def CHANNEL_NAME_LEN_def Let_def)
  obtain r info where "ioat_dma_chan_set req ''dma7chan0'' (dma_start pool) = Some (r, info)"
    "r = 0 \<longleftrightarrow> (\<exists>ch \<in> set pool. dc_memcpy ch \<and> dc_name ch = ''dma7chan0'')"
    using chan_set_run [OF assms n, of pool] by blast
  then show ?thesis by (cases u) (auto simp: dma_setup_def)
qed

text \<open>C17: When the module is loaded with accepted parameters, the constructors take the namespaces that the storage is divided into, and the host then
  sets up the admin queue and enables the controller, four passes of the dispatcher later the controller is ready and well-formed, with all
  namespaces, each as its constructor made it, one worker for each processor but the first of the list, no I/O queue, and the PCI device at the start of the reserved memory; the DMA engine is used when it was asked for and its channel exists, and
  otherwise the bytes are copied.\<close>

theorem module_ready:
  assumes p: "\<not> refused arch_ok p" "p_cpus p = Some s" "length (split_commas s) \<le> 33" "p_memmap_start p + p_memmap_size p < 2 ^ 64" "p_memmap_size p < 2 ^ 57"
    and n: "nr \<le> length caps" "nr \<le> length types" "\<forall>ty \<in> set types. ty \<le> 3" "slc \<le> 100"
    and c: "\<forall>g slots i sl. load_configs arch_ok False tbl p = Some (Some g) \<and>
      nvmev_namespace_init slc types caps nr (g_storage_size g) base_va = Some slots \<and> idx slots i = Some sl \<longrightarrow> make_namespace bt tbl m g i sl \<noteq> None"
    and r: "request_law req" and h: "aqa \<noteq> 0" "asq \<noteq> 0" "acq \<noteq> 0" "cc_en cc = 1" "cc_shn cc \<noteq> 1"
  shows "\<exists>md c' slots. NVMeV_init arch_ok False tbl slc types caps nr bt req using_dma pool base_va m wclk p = Some (Some md) \<and>
    polls 4 (request aqa asq acq cc (m_ctrl md)) = Some c' \<and> adm_ok c' \<and> regs_settled c' \<and> r_csts (bar c') mod 2 = 1 \<and>
    length (nspaces (cdev c')) = nr \<and> length (io_workers (cdev c')) = length (split_commas s) - 1 \<and>
    (\<forall>q \<in> set (sqes (cdev c')). q = None) \<and> (\<forall>q \<in> set (cqes (cdev c')). q = None) \<and> pci_cfg c' = pci_space (p_memmap_start p) \<and>
    m_using_dma md = (using_dma \<and> (\<exists>ch \<in> set pool. dc_memcpy ch \<and> dc_name ch = ''dma7chan0'')) \<and>
    nvmev_namespace_init slc types caps nr (g_storage_size (m_config md)) base_va = Some slots \<and>
    (\<forall>i < nr. make_namespace bt tbl m (m_config md) i (slots ! i) = Some (nspaces (cdev c') ! i))"
proof -
  obtain g where g: "load_configs arch_ok False tbl p = Some (Some g)" "g_storage_size g < 2 ^ 57" "g_memmap_start g = p_memmap_start p"
    "length (g_cpu_nr_io_workers g) = length (split_commas s) - 1"
    using load_accepted [OF p] by blast
  obtain ns where ns: "nvmev_namespace_init slc types caps nr (g_storage_size g) base_va = Some ns" "length ns = nr"
    using ns_init_step [OF n(1-4) g(2), of base_va] by (auto simp: nvmev_namespace_init_def)
  obtain nss where nss: "namespaces_of (make_namespace bt tbl m g) ns = Some nss" "length nss = nr"
    "\<forall>i < nr. make_namespace bt tbl m g i (ns ! i) = Some (nss ! i)"
    using namespaces_total [of ns "make_namespace bt tbl m g"] c g(1) ns(1,2) by auto
  obtain info where d: "dma_setup req using_dma pool = Some (using_dma \<and> (\<exists>ch \<in> set pool. dc_memcpy ch \<and> dc_name ch = ''dma7chan0''), info)"
    using dma_setup_total [OF r] by blast
  let ?dev = "\<lparr>io_workers = [], io_worker_turn = 0, nr_io_workers = length (g_cpu_nr_io_workers g), nspaces = nss, sqes = [], cqes = [],
    dmem = m, dclk = wclk, dtick = 0\<rparr>"
  let ?i = "nvmev_pci_init (g_memmap_start g) ?dev" let ?c = "?i\<lparr>cdev := nvmev_io_worker_init (cdev ?i)\<rparr>"
  have init: "NVMeV_init arch_ok False tbl slc types caps nr bt req using_dma pool base_va m wclk p = Some (Some \<lparr>m_config = g, m_ctrl = ?c,
      m_io_unit_stat = NVMEV_STORAGE_INIT g, m_using_dma = (using_dma \<and> (\<exists>ch \<in> set pool. dc_memcpy ch \<and> dc_name ch = ''dma7chan0'')), m_dma = info\<rparr>)"
    using g(1) ns(1) nss(1) d by (simp add: NVMeV_init_def Let_def)
  have c: "admin_q ?c = None" "length (dbs ?c) = 1024" "length (old_dbs ?c) = 1024" "length (sqes (cdev ?c)) = NR_MAX_IO_QUEUE + 1"
    "length (cqes (cdev ?c)) = NR_MAX_IO_QUEUE + 1" "old_bar ?c = zero_regs" "nspaces (cdev ?c) = nss" "pci_cfg ?c = pci_space (p_memmap_start p)"
    "length (io_workers (cdev ?c)) = length (split_commas s) - 1" "\<forall>q \<in> set (sqes (cdev ?c)). q = None" "\<forall>q \<in> set (cqes (cdev ?c)). q = None"
    using g(3,4) by (simp_all add: nvmev_pci_init_def nvmev_io_worker_init_def)
  have cc: "cc \<noteq> 0" using h(4) by (auto simp: cc_en_def)
  have "\<exists>c'. polls 4 (request aqa asq acq cc ?c) = Some c' \<and> adm_ok c' \<and> regs_settled c' \<and> r_csts (bar c') mod 2 = 1 \<and>
    admin_q c' = Some \<lparr>aq_phase = 1, aq_sq_depth = aqa_asqs aqa + 1, aq_cq_depth = aqa_acqs aqa + 1, aq_cq_head = 0,
      aq_sq = Some (map_queue asq (aqa_asqs aqa + 1) 64), aq_cq = Some (map_queue acq (aqa_acqs aqa + 1) 16)\<rparr> \<and>
    dbs c' ! 0 = 0 \<and> dbs c' ! 1 = 0 \<and> old_dbs c' ! 0 = 0 \<and> old_dbs c' ! 1 = 0 \<and> cdev c' = cdev ?c \<and> pci_cfg c' = pci_cfg ?c"
    by (rule enable_run) (use c(1-6) h cc in \<open>simp_all add: zero_regs_def\<close>)
  then obtain c' where c': "polls 4 (request aqa asq acq cc ?c) = Some c'" "adm_ok c'" "regs_settled c'" "r_csts (bar c') mod 2 = 1" "cdev c' = cdev ?c"
    "pci_cfg c' = pci_cfg ?c" by blast
  have sp: "nspaces (cdev c') = nss" using c'(5) c(7) by simp
  have made: "\<forall>i < nr. make_namespace bt tbl m g i (ns ! i) = Some (nspaces (cdev c') ! i)" using nss(3) unfolding sp .
  show ?thesis
    by (rule exI, rule exI [of _ c'], rule exI [of _ ns], intro conjI, rule init) (use c' c(7-11) nss(2) ns(1) made in simp_all)
qed

text \<open>A conventional device of 16 GB, with its own constructor.\<close>

definition conv_boot :: boot where
  "conv_boot = \<lparr>bt_cfg = SAMSUNG_970PRO, bt_junk = \<lambda>_. 0, bt_jiffies = 0, bt_clock = \<lambda>_. spl_clock, bt_ftl = \<lambda>_. spl_mem, bt_spp = spl_spp,
     bt_conv = spl_ns, bt_zns = zx_raw, bt_simple = ex_simple, bt_bitmap = False\<rparr>"

definition conv_params :: module_params where "conv_params = (ax_params ''7,8'')\<lparr>p_memmap_size := GB 16 + MB 1\<rparr>"

lemma conv_slots:
  assumes "load_configs (\<lambda>_ _. True) False 0 conv_params = Some (Some g)" "nvmev_namespace_init 10 [1] [0] 1 (g_storage_size g) (GB 5) = Some slots"
    "idx slots i = Some sl"
  shows "make_namespace conv_boot 0 m g i sl \<noteq> None"
proof -
  have "g_storage_size g = GB 16"
    using assms(1) by (auto simp: load_configs_def conv_params_def ax_params_def GB_def MB_def sub64_def u64_def Let_def split: if_splits)
  then have z: "sl_size sl = GB 16" "sl_type sl = SSD_TYPE_CONV"
    using assms(2,3) by (auto simp: nvmev_namespace_init_def ns_step_def idx_def Let_def NVMEV_ASSERT_def SSD_TYPE_CONV_def split: if_splits)
  have n: "SSD_PARTITIONS SAMSUNG_970PRO = 4" by (simp add: SAMSUNG_970PRO_def)
  have sp: "ssd_init_params_slc SAMSUNG_970PRO (GB 16) (SSD_PARTITIONS SAMSUNG_970PRO) = Some spl_spp" using spl_params by (simp add: n)
  have "0 < SSD_PARTITIONS SAMSUNG_970PRO" by (simp add: n)
  note I = conv_init_namespace_ok [OF sp spl_ok this]
  obtain ns where "conv_init_namespace SAMSUNG_970PRO (\<lambda>_. 0) 0 (\<lambda>_. spl_clock) (\<lambda>_. spl_mem) spl_spp spl_ns i (GB 16) (g_cpu_nr_dispatcher g) = Some ns"
    using I [of "\<lambda>_. 0" 0 "\<lambda>_. spl_clock" "\<lambda>_. spl_mem" spl_spp spl_ns i "g_cpu_nr_dispatcher g"] by blast
  with z show ?thesis by (simp add: make_namespace_def conv_boot_def SSD_TYPE_CONV_def SSD_TYPE_NVM_def Let_def)
qed

theorem module_ready_witness:
  "\<exists>md c'. NVMeV_init (\<lambda>_ _. True) False 0 10 [1] [0] 1 conv_boot (\<lambda>pool flt. find flt pool) True [] (GB 5) (dmem ax_dev) (\<lambda>_. 0) conv_params =
      Some (Some md) \<and> polls 4 (request (31 * 2 ^ 16 + 31) 4096 8192 1 (m_ctrl md)) = Some c' \<and> adm_ok c' \<and> \<not> m_using_dma md \<and>
      length (nspaces (cdev c')) = 1"
proof -
  have r: "\<not> refused (\<lambda>_ _. True) conv_params" by (simp add: refused_def conv_params_def ax_params_def GB_def MB_def)
  have b: "p_memmap_start conv_params + p_memmap_size conv_params < 2 ^ 64" "p_memmap_size conv_params < 2 ^ 57"
    by (simp_all add: conv_params_def ax_params_def GB_def MB_def)
  have c: "p_cpus conv_params = Some ''7,8''" by (simp add: conv_params_def ax_params_def)
  have l: "length (split_commas ''7,8'') \<le> 33" by simp
  have t: "1 \<le> length [0 :: nat]" "1 \<le> length [1 :: nat]" "\<forall>ty \<in> set [1]. ty \<le> (3 :: nat)" "10 \<le> (100 :: nat)" by simp_all
  have h: "31 * 2 ^ 16 + 31 \<noteq> (0 :: nat)" "4096 \<noteq> (0 :: nat)" "8192 \<noteq> (0 :: nat)" "cc_en 1 = 1" "cc_shn 1 \<noteq> 1"
    by (simp_all add: cc_en_def cc_shn_def)
  have k: "\<forall>g slots i sl. load_configs (\<lambda>_ _. True) False 0 conv_params = Some (Some g) \<and>
      nvmev_namespace_init 10 [1] [0] 1 (g_storage_size g) (GB 5) = Some slots \<and> idx slots i = Some sl \<longrightarrow>
      make_namespace conv_boot 0 (dmem ax_dev) g i sl \<noteq> None" using conv_slots by blast
  from module_ready [OF r c l b t k request_law_find h, of True "[]" "\<lambda>_. 0"] show ?thesis by auto
qed

end
