(* ===== verification/Memory_Ledger.thy ===== *)
theory Memory_Ledger
  imports Conv_Io Zns_Ftl "HOL-Library.Multiset"
begin

text \<open>
  Who frees what: the allocations and releases of the constructors and destructors of flash (\<open>ssd.c\<close>) and of the namespaces (\<open>conv_ftl.c\<close>, \<open>zns_ftl.c\<close>,
  \<open>kv_ftl.c\<close>, \<open>simple_ftl.c\<close>), in the order of the code.

  A function of the code is here the list of its calls of \<open>kmalloc\<close>, \<open>vmalloc\<close>, \<open>memremap\<close> (\<open>Get\<close>) and of \<open>kfree\<close>, \<open>vfree\<close>, \<open>memunmap\<close> (\<open>Put\<close>). A block
  is named by the pointer that holds it and the indices on the way to it: namespace, partition, channel, die, plane, block, page. The ledger is the
  multiset of the blocks that are allocated, so a block that is given back twice, or was never allocated, is \<open>None\<close>. \<open>kfree\<close> of NULL does nothing.
  The counters that the destructors read (\<open>nluns\<close>, \<open>npls\<close>, \<open>nblks\<close>, \<open>npgs\<close>) are set by the constructors and never written again.
\<close>

section \<open>Ledger\<close>

type_synonym block = "string \<times> nat list"

datatype mem_op = Get block | Put block

fun mem_step :: "mem_op \<Rightarrow> block multiset \<Rightarrow> block multiset option" where
  "mem_step (Get b) L = Some (add_mset b L)"
| "mem_step (Put b) L = (if b \<in># L then Some (L - {#b#}) else None)"

definition mem_run :: "mem_op list \<Rightarrow> block multiset \<Rightarrow> block multiset option" where
  "mem_run ops L = foldM mem_step ops L"

definition each :: "nat list \<Rightarrow> (nat \<Rightarrow> mem_op list) \<Rightarrow> mem_op list" where
  "each is f = concat (map f is)"

section \<open>Flash\<close>

definition page_alloc :: "nat list \<Rightarrow> mem_op list" where "page_alloc pt = [Get (''sec'', pt)]"

definition page_free :: "nat list \<Rightarrow> mem_op list" where "page_free pt = [Put (''sec'', pt)]"

definition blk_alloc :: "nand_block \<Rightarrow> nat list \<Rightarrow> mem_op list" where
  "blk_alloc b pt = Get (''pg'', pt) # each [0..<npgs b] (\<lambda>i. page_alloc (pt @ [i]))"

definition blk_free :: "nand_block \<Rightarrow> nat list \<Rightarrow> mem_op list" where
  "blk_free b pt = each [0..<npgs b] (\<lambda>i. page_free (pt @ [i])) @ [Put (''pg'', pt)]"

definition plane_blk :: "ssdparams \<Rightarrow> nat \<Rightarrow> nand_block" where
  "plane_blk spp i = (if i < tt_lines_slc spp then ssd_init_nand_blk_slc spp else ssd_init_nand_blk spp)"

definition plane_alloc :: "ssdparams \<Rightarrow> nat list \<Rightarrow> mem_op list" where
  "plane_alloc spp pt = Get (''blk'', pt) # each [0..<blks_per_pl spp] (\<lambda>i. blk_alloc (plane_blk spp i) (pt @ [i]))"

definition plane_free :: "ssdparams \<Rightarrow> nat list \<Rightarrow> mem_op list" where
  "plane_free spp pt = each [0..<blks_per_pl spp] (\<lambda>i. blk_free (plane_blk spp i) (pt @ [i])) @ [Put (''blk'', pt)]"

definition lun_alloc :: "ssdparams \<Rightarrow> nat list \<Rightarrow> mem_op list" where
  "lun_alloc spp pt = Get (''pl'', pt) # each [0..<pls_per_lun spp] (\<lambda>i. plane_alloc spp (pt @ [i]))"

definition lun_free :: "ssdparams \<Rightarrow> nat list \<Rightarrow> mem_op list" where
  "lun_free spp pt = each [0..<pls_per_lun spp] (\<lambda>i. plane_free spp (pt @ [i])) @ [Put (''pl'', pt)]"

definition ch_alloc :: "ssdparams \<Rightarrow> nat list \<Rightarrow> mem_op list" where
  "ch_alloc spp pt = Get (''lun'', pt) # each [0..<luns_per_ch spp] (\<lambda>i. lun_alloc spp (pt @ [i])) @ [Get (''ch_model'', pt)]"

definition ch_free :: "ssdparams \<Rightarrow> nat list \<Rightarrow> mem_op list" where
  "ch_free spp pt = Put (''ch_model'', pt) # each [0..<luns_per_ch spp] (\<lambda>i. lun_free spp (pt @ [i])) @ [Put (''lun'', pt)]"

definition ssd_alloc :: "ssdparams \<Rightarrow> nat list \<Rightarrow> mem_op list" where
  "ssd_alloc spp pt = Get (''ch'', pt) # each [0..<nchs spp] (\<lambda>i. ch_alloc spp (pt @ [i])) @
     [Get (''pcie'', pt), Get (''pcie_model'', pt), Get (''write_buffer'', pt)]"

text \<open>\<open>ssd_remove\<close>; \<open>shared\<close> says that the pointers to the link and the buffer are NULL.\<close>

definition ssd_remove :: "bool \<Rightarrow> ssdparams \<Rightarrow> nat list \<Rightarrow> mem_op list" where
  "ssd_remove shared spp pt =
     (if shared then [] else [Put (''write_buffer'', pt), Put (''pcie_model'', pt), Put (''pcie'', pt)]) @
     each [0..<nchs spp] (\<lambda>i. ch_free spp (pt @ [i])) @ [Put (''ch'', pt)]"

section \<open>Namespaces\<close>

definition lines_alloc :: "nat list \<Rightarrow> mem_op list" where
  "lines_alloc pt = (if ENABLE_SLC_CACHE then [Get (''lm_lines'', pt), Get (''slm_lines'', pt)] else [Get (''lm_lines'', pt)]) @
     [Get (''lm_pq'', pt), Get (''lm_pq_d'', pt)] @ (if ENABLE_SLC_CACHE then [Get (''slm_pq'', pt), Get (''slm_pq_d'', pt)] else [])"

definition remove_lines :: "nat list \<Rightarrow> mem_op list" where
  "remove_lines pt = [Put (''lm_pq_d'', pt), Put (''lm_pq'', pt), Put (''lm_lines'', pt)] @
     (if ENABLE_SLC_CACHE then [Put (''slm_pq_d'', pt), Put (''slm_pq'', pt), Put (''slm_lines'', pt)] else [])"

definition conv_ftl_alloc :: "nat list \<Rightarrow> mem_op list" where
  "conv_ftl_alloc pt = [Get (''maptbl'', pt), Get (''rmap'', pt)] @ lines_alloc pt"

definition conv_remove_ftl :: "nat list \<Rightarrow> mem_op list" where
  "conv_remove_ftl pt = remove_lines pt @ [Put (''rmap'', pt), Put (''maptbl'', pt)]"

definition conv_alloc :: "ssdparams \<Rightarrow> nat \<Rightarrow> nat \<Rightarrow> mem_op list" where
  "conv_alloc spp parts n = Get (''conv_ftls'', [n]) #
     each [0..<parts] (\<lambda>i. Get (''ssd'', [n, i]) # ssd_alloc spp [n, i] @ conv_ftl_alloc [n, i]) @
     each [1..<parts] (\<lambda>i. [Put (''pcie_model'', [n, i]), Put (''pcie'', [n, i]), Put (''write_buffer'', [n, i])])"

definition conv_remove_namespace :: "ssdparams \<Rightarrow> nat \<Rightarrow> nat \<Rightarrow> mem_op list" where
  "conv_remove_namespace spp parts n =
     each [0..<parts] (\<lambda>i. conv_remove_ftl [n, i] @ ssd_remove (0 < i) spp [n, i] @ [Put (''ssd'', [n, i])]) @ [Put (''conv_ftls'', [n])]"

definition descriptor_alloc :: "znsparams \<Rightarrow> nat \<Rightarrow> mem_op list" where
  "descriptor_alloc zpp n = [Get (''zone_descs'', [n]), Get (''report_buffer'', [n])] @
     (if zrwa_buffer_size zpp \<noteq> 0 then [Get (''zrwa_buffer'', [n])] else []) @ (if zone_wb_size zpp \<noteq> 0 then [Get (''zone_write_buffer'', [n])] else [])"

definition remove_descriptor :: "znsparams \<Rightarrow> nat \<Rightarrow> mem_op list" where
  "remove_descriptor zpp n = (if zrwa_buffer_size zpp \<noteq> 0 then [Put (''zrwa_buffer'', [n])] else []) @
     (if zone_wb_size zpp \<noteq> 0 then [Put (''zone_write_buffer'', [n])] else []) @ [Put (''report_buffer'', [n]), Put (''zone_descs'', [n])]"

definition zns_alloc :: "ssdparams \<Rightarrow> znsparams \<Rightarrow> nat \<Rightarrow> mem_op list" where
  "zns_alloc spp zpp n = Get (''ssd'', [n]) # ssd_alloc spp [n] @ Get (''zns_ftl'', [n]) # descriptor_alloc zpp n"

definition zns_remove_namespace :: "ssdparams \<Rightarrow> znsparams \<Rightarrow> nat \<Rightarrow> mem_op list" where
  "zns_remove_namespace spp zpp n = ssd_remove False spp [n] @ remove_descriptor zpp n @ [Put (''ssd'', [n]), Put (''zns_ftl'', [n])]"

definition kv_alloc :: "nat \<Rightarrow> mem_op list" where
  "kv_alloc n = [Get (''kv_ftl'', [n]), Get (''kv_mapping_table'', [n])]"

definition kv_remove_namespace :: "nat \<Rightarrow> mem_op list" where "kv_remove_namespace n = [Put (''kv_ftl'', [n])]"

text \<open>The context of an iterator and its buffer: \<open>kv_iter_open\<close> allocates them, \<open>kv_iter_close\<close> gives them back.\<close>

definition iter_alloc :: "nat \<Rightarrow> nat \<Rightarrow> mem_op list" where
  "iter_alloc n h = [Get (''iter_handle'', [n, h]), Get (''iter_buf'', [n, h])]"

definition iter_free :: "nat \<Rightarrow> nat \<Rightarrow> mem_op list" where
  "iter_free n h = [Put (''iter_buf'', [n, h]), Put (''iter_handle'', [n, h])]"

text \<open>The four kinds of a namespace, with the parameters of its geometry. A simple namespace has no memory of its own.\<close>

datatype ns_kind = Nvm | Conv ssdparams nat | Zns ssdparams znsparams | Kv

fun ns_alloc :: "ns_kind \<Rightarrow> nat \<Rightarrow> mem_op list" where
  "ns_alloc Nvm n = []"
| "ns_alloc (Conv spp parts) n = conv_alloc spp parts n"
| "ns_alloc (Zns spp zpp) n = zns_alloc spp zpp n"
| "ns_alloc Kv n = kv_alloc n"

fun ns_remove :: "ns_kind \<Rightarrow> nat \<Rightarrow> mem_op list" where
  "ns_remove Nvm n = []"
| "ns_remove (Conv spp parts) n = conv_remove_namespace spp parts n"
| "ns_remove (Zns spp zpp) n = zns_remove_namespace spp zpp n"
| "ns_remove Kv n = kv_remove_namespace n"

section \<open>Balance\<close>

text \<open>The blocks that a list of calls allocates, and the ones it gives back.\<close>

definition gets :: "mem_op list \<Rightarrow> block multiset" where
  "gets ops = (\<Sum>x\<leftarrow>ops. case x of Get b \<Rightarrow> {#b#} | Put b \<Rightarrow> {#})"

definition puts :: "mem_op list \<Rightarrow> block multiset" where
  "puts ops = (\<Sum>x\<leftarrow>ops. case x of Get b \<Rightarrow> {#} | Put b \<Rightarrow> {#b#})"

lemma gets_simps [simp]:
  "gets [] = {#}" "gets (Get b # xs) = add_mset b (gets xs)" "gets (Put b # xs) = gets xs" "gets (xs @ ys) = gets xs + gets ys"
  by (simp_all add: gets_def)

lemma puts_simps [simp]:
  "puts [] = {#}" "puts (Put b # xs) = add_mset b (puts xs)" "puts (Get b # xs) = puts xs" "puts (xs @ ys) = puts xs + puts ys"
  by (simp_all add: puts_def)

lemma gets_each: "gets (each is f) = (\<Sum>i\<leftarrow>is. gets (f i))"
  by (induction "is") (simp_all add: each_def)

lemma puts_each: "puts (each is f) = (\<Sum>i\<leftarrow>is. puts (f i))"
  by (induction "is") (simp_all add: each_def)

lemma mem_run_simps [simp]:
  "mem_run [] L = Some L" "mem_run (x # xs) L = mem_step x L \<bind> mem_run xs" "mem_run (xs @ ys) L = mem_run xs L \<bind> mem_run ys"
  by (simp_all add: mem_run_def [abs_def])

lemma run_gets: "puts ops = {#} \<Longrightarrow> mem_run ops L = Some (gets ops + L)"
proof (induction ops arbitrary: L)
  case (Cons x xs) then show ?case by (cases x) simp_all
qed simp

lemma run_puts: "gets ops = {#} \<Longrightarrow> puts ops \<subseteq># L \<Longrightarrow> mem_run ops L = Some (L - puts ops)"
proof (induction ops arbitrary: L)
  case (Cons x xs)
  then obtain b where x: "x = Put b" by (cases x) auto
  have "b \<in># L" "puts xs \<subseteq># L - {#b#}" using Cons.prems x by (auto simp: insert_subset_eq_iff)
  then show ?case using Cons x by simp
qed simp

lemma run_give: "gets ops = {#} \<Longrightarrow> mem_run ops (puts ops + L) = Some L"
  by (simp add: run_puts)

lemma sum_list_empty: "(\<And>i. i \<in> set is \<Longrightarrow> f i = ({#} :: block multiset)) \<Longrightarrow> (\<Sum>i\<leftarrow>is. f i) = {#}"
  by (induction "is") simp_all

lemmas alloc_defs = page_alloc_def blk_alloc_def plane_alloc_def lun_alloc_def ch_alloc_def ssd_alloc_def lines_alloc_def conv_ftl_alloc_def
  descriptor_alloc_def zns_alloc_def kv_alloc_def

lemmas free_defs = page_free_def blk_free_def plane_free_def lun_free_def ch_free_def ssd_remove_def remove_lines_def conv_remove_ftl_def
  remove_descriptor_def zns_remove_namespace_def kv_remove_namespace_def

text \<open>Flash gives back what it allocated, up to the link and the buffer.\<close>

lemma flash_balance:
  "puts (blk_free b pt) = gets (blk_alloc b pt)" "puts (plane_free spp pt) = gets (plane_alloc spp pt)"
  "puts (lun_free spp pt) = gets (lun_alloc spp pt)" "puts (ch_free spp pt) = gets (ch_alloc spp pt)"
  by (simp_all add: alloc_defs free_defs gets_each puts_each)

lemma flash_only:
  "puts (ssd_alloc spp pt) = {#}" "gets (ssd_remove sh spp pt) = {#}"
  by (simp_all add: alloc_defs free_defs gets_each puts_each sum_list_empty)

lemma ssd_balance:
  "puts (ssd_remove sh spp pt) + (if sh then {#(''pcie'', pt), (''pcie_model'', pt), (''write_buffer'', pt)#} else {#}) = gets (ssd_alloc spp pt)"
  by (simp add: ssd_remove_def ssd_alloc_def gets_each puts_each flash_balance)

text \<open>A namespace. The key-value namespace does not unmap its table.\<close>

definition ns_leak :: "ns_kind \<Rightarrow> nat \<Rightarrow> block multiset" where
  "ns_leak k n = (case k of Kv \<Rightarrow> {#(''kv_mapping_table'', [n])#} | _ \<Rightarrow> {#})"

definition link_of :: "nat list \<Rightarrow> block multiset" where
  "link_of pt = {#(''pcie_model'', pt), (''pcie'', pt), (''write_buffer'', pt)#}"

lemma after_first: "(\<Sum>i\<leftarrow>[0..<m]. if 0 < i then f i else {#}) = (\<Sum>i\<leftarrow>[1..<m]. f i :: block multiset)"
proof (cases m)
  case (Suc k)
  have "(\<Sum>i\<leftarrow>[1..<m]. if 0 < i then f i else {#}) = (\<Sum>i\<leftarrow>[1..<m]. f i)" by (intro arg_cong [of _ _ sum_list] map_cong) auto
  then show ?thesis using Suc by (simp add: upt_conv_Cons del: upt_Suc)
qed simp

lemma ssd_alloc_link: "gets (ssd_alloc spp pt) = puts (ssd_remove sh spp pt) + (if sh then link_of pt else {#})"
  unfolding ssd_balance [of sh spp pt, symmetric] by (simp add: link_of_def add_mset_commute)

lemma ns_remove_only: "gets (ns_remove k n) = {#}"
  by (cases k) (simp_all add: free_defs conv_remove_namespace_def gets_each puts_each flash_only sum_list_empty)

lemma ns_alloc_run: "mem_run (ns_alloc k n) L = Some (puts (ns_remove k n) + ns_leak k n + L)"
proof (cases k)
  case (Conv spp parts)
  let ?mk = "each [0..<parts] (\<lambda>i. Get (''ssd'', [n, i]) # ssd_alloc spp [n, i] @ conv_ftl_alloc [n, i])"
  let ?give = "each [1..<parts] (\<lambda>i. [Put (''pcie_model'', [n, i]), Put (''pcie'', [n, i]), Put (''write_buffer'', [n, i])])"
  have p: "puts ?mk = {#}" by (simp add: puts_each flash_only sum_list_empty alloc_defs)
  have g: "gets ?give = {#}" "puts ?give = (\<Sum>i\<leftarrow>[1..<parts]. link_of [n, i])"
    by (simp_all add: gets_each puts_each sum_list_empty link_of_def)
  have "gets ?mk = (\<Sum>i\<leftarrow>[0..<parts]. puts (conv_remove_ftl [n, i] @ ssd_remove (0 < i) spp [n, i] @ [Put (''ssd'', [n, i])]) +
      (if 0 < i then link_of [n, i] else {#}))"
    unfolding gets_each by (intro arg_cong [of _ _ sum_list] map_cong refl)
      (simp add: ssd_alloc_link [of spp "[n, x]" "0 < x" for x] conv_ftl_alloc_def lines_alloc_def conv_remove_ftl_def remove_lines_def)
  then have m: "add_mset (''conv_ftls'', [n]) (gets ?mk) = puts (ns_remove k n) + puts ?give"
    unfolding sum_list_addf after_first g(2) by (simp add: Conv conv_remove_namespace_def puts_each)
  have "mem_run (ns_alloc k n) L = mem_run ?give (gets ?mk + add_mset (''conv_ftls'', [n]) L)"
    by (simp add: Conv conv_alloc_def run_gets [OF p])
  also have "gets ?mk + add_mset (''conv_ftls'', [n]) L = puts ?give + (puts (ns_remove k n) + L)" using m by simp
  also have "mem_run ?give \<dots> = Some (puts (ns_remove k n) + L)" by (rule run_give [OF g(1)])
  finally show ?thesis by (simp add: Conv ns_leak_def)
next
  case (Zns spp zpp)
  have "puts (ns_alloc k n) = {#}" by (simp add: Zns alloc_defs puts_each sum_list_empty)
  moreover have "gets (ns_alloc k n) = puts (ns_remove k n)"
    by (simp add: Zns zns_alloc_def zns_remove_namespace_def ssd_alloc_link [of spp "[n]" False] descriptor_alloc_def remove_descriptor_def)
  ultimately show ?thesis by (simp add: run_gets ns_leak_def Zns)
qed (simp_all add: alloc_defs free_defs ns_leak_def)

end
