(* ===== verification/Module_Exit.thy ===== *)
theory Module_Exit
  imports Memory_Ledger Admin
begin

text \<open>
  The memory of the module from loading to unloading (\<open>main.c\<close>, \<open>pci.c\<close>, the queues of \<open>admin.c\<close>, the workers of \<open>io.c\<close>), in the ledger of
  \<open>Memory_Ledger\<close>. Threads, mappings, the PCI bus, the files under \<open>/proc\<close> and the entries of DMA channels are blocks as well.

  While the module runs, the host makes and deletes queues, sets the registers of the admin queue, opens and closes iterators of key-value
  namespaces, and exchanges \<open>io_unit_stat\<close> through \<open>/proc\<close>. The record \<open>life\<close> keeps the pointers that the module has to these blocks; \<open>Some m\<close> is a
  queue, and \<open>m\<close> says that its pages had to be mapped. The buffers of a key-value batch and the mappings of host pages live within one call of the
  function that makes and frees them, and are not on the ledger.
\<close>

section \<open>Loading\<close>

record mem_plan =
  mp_kinds :: "ns_kind list"
  mp_workers :: nat
  mp_channels :: nat
  mp_using_dma :: bool

definition vdev_init :: "mem_op list" where
  "vdev_init = [Get (''vdev'', []), Get (''virtDev'', [])]"

definition storage_init :: "mem_op list" where
  "storage_init = [Get (''io_unit_stat'', []), Get (''storage_mapped'', []), Get (''proc_root'', []), Get (''read_times'', []), Get (''write_times'', []),
     Get (''io_units'', []), Get (''stat'', []), Get (''debug'', [])]"

definition storage_final :: "mem_op list" where
  "storage_final = [Put (''read_times'', []), Put (''write_times'', []), Put (''io_units'', []), Put (''stat'', []), Put (''debug'', []),
     Put (''proc_root'', []), Put (''storage_mapped'', []), Put (''io_unit_stat'', [])]"

definition namespace_init :: "ns_kind list \<Rightarrow> mem_op list" where
  "namespace_init ks = Get (''ns'', []) # each [0..<length ks] (\<lambda>i. ns_alloc (ks ! i) i)"

definition namespace_final :: "ns_kind list \<Rightarrow> mem_op list" where
  "namespace_final ks = each [0..<length ks] (\<lambda>i. ns_remove (ks ! i) i) @ [Put (''ns'', [])]"

definition dma_init :: "nat \<Rightarrow> mem_op list" where
  "dma_init k = each [0..<k] (\<lambda>i. [Get (''dtc'', [i])])"

definition dma_final :: "nat \<Rightarrow> mem_op list" where
  "dma_final k = each [0..<k] (\<lambda>i. [Put (''dtc'', [i])])"

definition create_pci_bus :: "mem_op list" where
  "create_pci_bus = [Get (''virt_bus'', []), Get (''bar'', []), Get (''old_dbs'', []), Get (''old_bar'', []), Get (''msix_table'', [])]"

definition io_worker_alloc :: "nat \<Rightarrow> mem_op list" where
  "io_worker_alloc w = Get (''io_workers'', []) # each [0..<w] (\<lambda>i. [Get (''work_queue'', [i]), Get (''io_thread'', [i])])"

definition io_worker_final :: "nat \<Rightarrow> mem_op list" where
  "io_worker_final w = each [0..<w] (\<lambda>i. [Put (''io_thread'', [i]), Put (''work_queue'', [i])]) @ [Put (''io_workers'', [])]"

text \<open>\<open>VDEV_FINALIZE\<close>: \<open>pci\<close> says that the bus was created; the admin queue is NULL or has its two rings or not.\<close>

definition vdev_finalize :: "bool \<Rightarrow> (bool \<times> bool) option \<Rightarrow> mem_op list" where
  "vdev_finalize pci adm =
     (if pci then [Put (''msix_table'', []), Put (''bar'', []), Put (''old_bar'', []), Put (''old_dbs'', [])] else []) @
     (case adm of None \<Rightarrow> []
      | Some (sq, cq) \<Rightarrow> (if cq then [Put (''nvme_cq'', [])] else []) @ (if sq then [Put (''nvme_sq'', [])] else []) @ [Put (''admin_q'', [])]) @
     [Put (''virtDev'', []), Put (''vdev'', [])]"

text \<open>\<open>NVMeV_init\<close>: whether the module is loaded, and the calls.\<close>

definition load_module :: "mem_plan \<Rightarrow> bool \<Rightarrow> bool \<Rightarrow> bool \<times> mem_op list" where
  "load_module mp config_ok bus_ok =
     (if \<not> config_ok then (False, vdev_init @ vdev_finalize False None)
      else let ops = vdev_init @ storage_init @ namespace_init (mp_kinds mp) @ dma_init (mp_channels mp)
           in if \<not> bus_ok then (False, ops @ vdev_finalize False None)
              else (True, ops @ create_pci_bus @ io_worker_alloc (mp_workers mp) @ [Get (''nvmev_dispatcher'', [])]))"

section \<open>Running\<close>

text \<open>The pointer of an iterator handle: what \<open>kmalloc\<close> left in the handle 16, which the constructor does not clear, NULL, or a context.\<close>

datatype iter_ptr = Stray | No_iter | Open_iter

definition iters_init :: "ns_kind \<Rightarrow> iter_ptr list" where
  "iters_init k = (case k of Kv \<Rightarrow> replicate 16 No_iter @ [Stray] | _ \<Rightarrow> [])"

record life =
  lf_ledger :: "block multiset"
  lf_sqes :: "bool option list"
  lf_cqes :: "bool option list"
  lf_admin :: "(bool \<times> bool) option"
  lf_nr_sq :: nat
  lf_nr_cq :: nat
  lf_iters :: "iter_ptr list list"

definition queue_alloc :: "string \<Rightarrow> nat \<Rightarrow> bool \<Rightarrow> mem_op list" where
  "queue_alloc k q mapped = [Get (k, [q]), Get (k @ ''_pages'', [q])] @ (if mapped then [Get (k @ ''_mapped'', [q])] else [])"

definition queue_free :: "string \<Rightarrow> nat \<Rightarrow> bool option \<Rightarrow> mem_op list" where
  "queue_free k q p = (case p of None \<Rightarrow> []
     | Some mapped \<Rightarrow> [Put (k @ ''_pages'', [q])] @ (if mapped then [Put (k @ ''_mapped'', [q])] else []) @ [Put (k, [q])])"

text \<open>The search of \<open>kv_iter_open\<close> for a free handle; comparing what was never written has no result.\<close>

fun free_iter :: "iter_ptr list \<Rightarrow> nat list \<Rightarrow> nat option option" where
  "free_iter is [] = Some None"
| "free_iter is (h # hs) = do {
     p \<leftarrow> idx is h;
     case p of Stray \<Rightarrow> None | No_iter \<Rightarrow> Some (Some h) | Open_iter \<Rightarrow> free_iter is hs }"

datatype life_event = Create_sq nat bool | Delete_sq nat | Create_cq nat bool | Delete_cq nat | Set_aqa | Set_asq | Set_acq | Set_queues nat nat
  | Set_io_units | Iter_open nat | Iter_close nat nat

definition on_ledger :: "mem_op list \<Rightarrow> (life \<Rightarrow> life) \<Rightarrow> life \<Rightarrow> life option" where
  "on_ledger ops f s = do { L \<leftarrow> mem_run ops (lf_ledger s); Some (f (s\<lparr>lf_ledger := L\<rparr>)) }"

fun life_step :: "life_event \<Rightarrow> life \<Rightarrow> life option" where
  "life_step (Create_sq q m) s = do {
     NVMEV_ASSERT (q < length (lf_sqes s));
     on_ledger (queue_alloc ''sq'' q m) (\<lambda>s. s\<lparr>lf_sqes := (lf_sqes s)[q := Some m]\<rparr>) s }"
| "life_step (Delete_sq q) s = do {
     p \<leftarrow> idx (lf_sqes s) q;
     on_ledger (queue_free ''sq'' q p) (\<lambda>s. s\<lparr>lf_sqes := (lf_sqes s)[q := None]\<rparr>) s }"
| "life_step (Create_cq q m) s = do {
     NVMEV_ASSERT (q < length (lf_cqes s));
     on_ledger (queue_alloc ''cq'' q m) (\<lambda>s. s\<lparr>lf_cqes := (lf_cqes s)[q := Some m]\<rparr>) s }"
| "life_step (Delete_cq q) s = do {
     p \<leftarrow> idx (lf_cqes s) q;
     on_ledger (queue_free ''cq'' q p) (\<lambda>s. s\<lparr>lf_cqes := (lf_cqes s)[q := None]\<rparr>) s }"
| "life_step Set_aqa s = (case lf_admin s of
     None \<Rightarrow> on_ledger [Get (''admin_q'', [])] (\<lambda>s. s\<lparr>lf_admin := Some (False, False)\<rparr>) s | Some _ \<Rightarrow> Some s)"
| "life_step Set_asq s = (case lf_admin s of
     None \<Rightarrow> Some s
   | Some (sq, cq) \<Rightarrow> on_ledger ((if sq then [Put (''nvme_sq'', [])] else []) @ [Get (''nvme_sq'', [])]) (\<lambda>s. s\<lparr>lf_admin := Some (True, cq)\<rparr>) s)"
| "life_step Set_acq s = (case lf_admin s of
     None \<Rightarrow> Some s
   | Some (sq, cq) \<Rightarrow> on_ledger ((if cq then [Put (''nvme_cq'', [])] else []) @ [Get (''nvme_cq'', [])]) (\<lambda>s. s\<lparr>lf_admin := Some (sq, True)\<rparr>) s)"
| "life_step (Set_queues n m) s = Some (s\<lparr>lf_nr_sq := min n NR_MAX_IO_QUEUE, lf_nr_cq := min m NR_MAX_IO_QUEUE\<rparr>)"
| "life_step Set_io_units s = on_ledger [Get (''io_unit_stat'', []), Put (''io_unit_stat'', [])] (\<lambda>s. s) s"
| "life_step (Iter_open n) s = do {
     is \<leftarrow> idx (lf_iters s) n;
     r \<leftarrow> free_iter is [1..<17];
     case r of None \<Rightarrow> Some s
     | Some h \<Rightarrow> on_ledger (iter_alloc n h) (\<lambda>s. s\<lparr>lf_iters := (lf_iters s)[n := is[h := Open_iter]]\<rparr>) s }"
| "life_step (Iter_close n h) s = do {
     is \<leftarrow> idx (lf_iters s) n;
     p \<leftarrow> idx is h;
     case p of Stray \<Rightarrow> None | No_iter \<Rightarrow> Some s
     | Open_iter \<Rightarrow> on_ledger (iter_free n h) (\<lambda>s. s\<lparr>lf_iters := (lf_iters s)[n := is[h := No_iter]]\<rparr>) s }"

definition no_queues :: "bool option list" where "no_queues = replicate (NR_MAX_IO_QUEUE + 1) None"

definition fresh_life :: "ns_kind list \<Rightarrow> block multiset \<Rightarrow> life" where
  "fresh_life ks L = \<lparr>lf_ledger = L, lf_sqes = no_queues, lf_cqes = no_queues, lf_admin = None, lf_nr_sq = 0, lf_nr_cq = 0,
     lf_iters = map iters_init ks\<rparr>"

section \<open>Unloading\<close>

definition queues_final :: "string \<Rightarrow> nat \<Rightarrow> bool option list \<Rightarrow> mem_op list" where
  "queues_final k nr qs = each [0..<nr] (\<lambda>i. if qs ! i = None then [] else [Put (k, [i])])"

definition NVMeV_exit :: "mem_plan \<Rightarrow> life \<Rightarrow> block multiset option" where
  "NVMeV_exit mp s = do {
     NVMEV_ASSERT (lf_nr_sq s \<le> length (lf_sqes s) \<and> lf_nr_cq s \<le> length (lf_cqes s));
     mem_run ([Put (''virt_bus'', []), Put (''nvmev_dispatcher'', [])] @ io_worker_final (mp_workers mp) @ namespace_final (mp_kinds mp) @ storage_final @
       (if mp_using_dma mp then dma_final (mp_channels mp) else []) @ queues_final ''sq'' (lf_nr_sq s) (lf_sqes s) @
       queues_final ''cq'' (lf_nr_cq s) (lf_cqes s) @ vdev_finalize True (lf_admin s)) (lf_ledger s) }"

section \<open>Laws\<close>

text \<open>The blocks that the pointers hold, and what is left of a queue when the first \<open>nr\<close> entries of the array are freed.\<close>

definition queue_held :: "string \<Rightarrow> nat \<Rightarrow> bool option \<Rightarrow> block multiset" where
  "queue_held k q p = (case p of None \<Rightarrow> {#} | Some m \<Rightarrow> gets (queue_alloc k q m))"

definition held :: "string \<Rightarrow> bool option list \<Rightarrow> block multiset" where
  "held k qs = (\<Sum>q\<leftarrow>[0..<length qs]. queue_held k q (qs ! q))"

definition queue_leak :: "string \<Rightarrow> nat \<Rightarrow> nat \<Rightarrow> bool option \<Rightarrow> block multiset" where
  "queue_leak k nr q p = (case p of None \<Rightarrow> {#}
     | Some m \<Rightarrow> (if q < nr then {#} else {#(k, [q])#}) + {#(k @ ''_pages'', [q])#} + (if m then {#(k @ ''_mapped'', [q])#} else {#}))"

definition leak :: "string \<Rightarrow> nat \<Rightarrow> bool option list \<Rightarrow> block multiset" where
  "leak k nr qs = (\<Sum>q\<leftarrow>[0..<length qs]. queue_leak k nr q (qs ! q))"

text \<open>The blocks of the open iterators.\<close>

definition iter_held :: "nat \<Rightarrow> nat \<Rightarrow> iter_ptr \<Rightarrow> block multiset" where
  "iter_held n h p = (if p = Open_iter then gets (iter_alloc n h) else {#})"

definition ns_iters :: "nat \<Rightarrow> iter_ptr list \<Rightarrow> block multiset" where
  "ns_iters n is = (\<Sum>h\<leftarrow>[0..<length is]. iter_held n h (is ! h))"

definition iters_held :: "iter_ptr list list \<Rightarrow> block multiset" where
  "iters_held iss = (\<Sum>n\<leftarrow>[0..<length iss]. ns_iters n (iss ! n))"

definition admin_held :: "(bool \<times> bool) option \<Rightarrow> block multiset" where
  "admin_held a = (case a of None \<Rightarrow> {#}
     | Some (sq, cq) \<Rightarrow> {#(''admin_q'', [])#} + (if sq then {#(''nvme_sq'', [])#} else {#}) + (if cq then {#(''nvme_cq'', [])#} else {#}))"

definition table_leak :: "ns_kind list \<Rightarrow> block multiset" where
  "table_leak ks = (\<Sum>i\<leftarrow>[0..<length ks]. ns_leak (ks ! i) i)"

lemma run_each_ns:
  "mem_run (each is (\<lambda>i. ns_alloc (ks ! i) i)) L = Some ((\<Sum>i\<leftarrow>is. puts (ns_remove (ks ! i) i)) + (\<Sum>i\<leftarrow>is. ns_leak (ks ! i) i) + L)"
  by (induction "is" arbitrary: L) (simp_all add: each_def ns_alloc_run ac_simps)

lemma namespace_init_run: "mem_run (namespace_init ks) L = Some (puts (namespace_final ks) + table_leak ks + L)"
  by (simp add: namespace_init_def run_each_ns namespace_final_def puts_each table_leak_def)

lemma final_only:
  "gets (namespace_final ks) = {#}" "gets (io_worker_final w) = {#}" "gets (dma_final k) = {#}" "gets storage_final = {#}"
  "gets (queues_final k' nr qs) = {#}" "gets (vdev_finalize pci adm) = {#}" "gets (queue_free k' q p) = {#}"
  by (auto simp: namespace_final_def io_worker_final_def dma_final_def storage_final_def queues_final_def vdev_finalize_def queue_free_def gets_each
      ns_remove_only split: option.split intro!: sum_list_empty)

lemma init_run:
  "mem_run vdev_init L = Some ({#(''vdev'', []), (''virtDev'', [])#} + L)" "mem_run storage_init L = Some (puts storage_final + L)"
  "mem_run (dma_init k) L = Some (puts (dma_final k) + L)" "mem_run (io_worker_alloc w) L = Some (puts (io_worker_final w) + L)"
  by (subst run_gets; simp add: vdev_init_def storage_init_def storage_final_def dma_init_def dma_final_def io_worker_alloc_def io_worker_final_def
      gets_each puts_each sum_list_empty add_mset_commute)+

lemma slots_update:
  fixes g :: "nat \<Rightarrow> 'p \<Rightarrow> block multiset"
  assumes "q < length qs"
  shows "(\<Sum>j\<leftarrow>[0..<length qs]. g j (qs[q := x] ! j)) + g q (qs ! q) = (\<Sum>j\<leftarrow>[0..<length qs]. g j (qs ! j)) + g q x"
proof -
  let ?n = "length qs"
  have s: "(\<Sum>j\<leftarrow>[0..<?n]. g j (ys ! j)) = g q (ys ! q) + (\<Sum>j\<in>{0..<?n} - {q}. g j (ys ! j))" for ys
    using assms by (simp add: interv_sum_list_conv_sum_set_nat sum.remove [of "{0..<?n}" q])
  have "(\<Sum>j\<in>{0..<?n} - {q}. g j (qs[q := x] ! j)) = (\<Sum>j\<in>{0..<?n} - {q}. g j (qs ! j))" by (intro sum.cong) auto
  then show ?thesis using s [of qs] s [of "qs[q := x]"] assms by simp
qed

lemma held_update: "q < length qs \<Longrightarrow> held k (qs[q := x]) + queue_held k q (qs ! q) = held k qs + queue_held k q x"
  using slots_update [of q qs "queue_held k" x] by (simp add: held_def)

lemma iters_update:
  assumes "n < length iss" "h < length (iss ! n)"
  shows "iters_held (iss[n := (iss ! n)[h := p]]) + iter_held n h (iss ! n ! h) = iters_held iss + iter_held n h p"
proof -
  have "iters_held (iss[n := (iss ! n)[h := p]]) + ns_iters n (iss ! n) = iters_held iss + ns_iters n ((iss ! n)[h := p])"
    using slots_update [OF assms(1), of ns_iters "(iss ! n)[h := p]"] by (simp add: iters_held_def)
  moreover have "ns_iters n ((iss ! n)[h := p]) + iter_held n h (iss ! n ! h) = ns_iters n (iss ! n) + iter_held n h p"
    using slots_update [OF assms(2), of "iter_held n" p] by (simp add: ns_iters_def)
  ultimately have "iters_held (iss[n := (iss ! n)[h := p]]) + ns_iters n (iss ! n) + iter_held n h (iss ! n ! h) =
      iters_held iss + (ns_iters n (iss ! n) + iter_held n h p)" by (simp add: add.assoc)
  then have "ns_iters n (iss ! n) + (iters_held (iss[n := (iss ! n)[h := p]]) + iter_held n h (iss ! n ! h)) =
      ns_iters n (iss ! n) + (iters_held iss + iter_held n h p)" by (simp only: ac_simps)
  then show ?thesis by (rule add_left_imp_eq)
qed

lemma held_split:
  assumes "nr \<le> length qs"
  shows "held k qs = puts (queues_final k nr qs) + leak k nr qs"
proof -
  let ?f = "\<lambda>q. if q < nr then (if qs ! q = None then {#} else {#(k, [q])#}) else {#}"
  have "queue_held k q p = (if q < nr then (if p = None then {#} else {#(k, [q])#}) else {#}) + queue_leak k nr q p" for q p
    by (cases p) (simp_all add: queue_held_def queue_leak_def queue_alloc_def)
  then have "held k qs = (\<Sum>q\<leftarrow>[0..<length qs]. ?f q) + leak k nr qs" by (simp add: held_def leak_def sum_list_addf)
  also have "(\<Sum>q\<leftarrow>[0..<length qs]. ?f q) = (\<Sum>q\<leftarrow>[0..<nr]. ?f q) + (\<Sum>q\<leftarrow>[nr..<length qs]. ?f q)"
    using assms upt_add_eq_append [of 0 nr "length qs - nr"] by simp
  also have "(\<Sum>q\<leftarrow>[nr..<length qs]. ?f q) = {#}" by (intro sum_list_empty) simp
  also have "(\<Sum>q\<leftarrow>[0..<nr]. ?f q) = puts (queues_final k nr qs)"
    unfolding queues_final_def puts_each by (intro arg_cong [of _ _ sum_list] map_cong) auto
  finally show ?thesis by simp
qed

section \<open>Reachable states\<close>

text \<open>The host makes a queue only where there is none, and names queues of the arrays. It names a key-value namespace to open or close an iterator, opens
  at most 15 at a time and closes one of the handles below 16: the pointer of the sixteenth is not initialised.\<close>

fun in_order :: "life_event \<Rightarrow> life \<Rightarrow> bool" where
  "in_order (Create_sq q m) s \<longleftrightarrow> idx (lf_sqes s) q = Some None"
| "in_order (Delete_sq q) s \<longleftrightarrow> q < length (lf_sqes s)"
| "in_order (Create_cq q m) s \<longleftrightarrow> idx (lf_cqes s) q = Some None"
| "in_order (Delete_cq q) s \<longleftrightarrow> q < length (lf_cqes s)"
| "in_order (Iter_open n) s \<longleftrightarrow> (\<exists>is. idx (lf_iters s) n = Some is \<and> (\<exists>h \<in> {1..<16}. idx is h = Some No_iter))"
| "in_order (Iter_close n h) s \<longleftrightarrow> (\<exists>is. idx (lf_iters s) n = Some is \<and> is \<noteq> [] \<and> h < 16)"
| "in_order _ s \<longleftrightarrow> True"

inductive life_reach :: "mem_plan \<Rightarrow> life \<Rightarrow> bool" for mp where
  loaded: "mem_run (snd (load_module mp True True)) {#} = Some L \<Longrightarrow> life_reach mp (fresh_life (mp_kinds mp) L)"
| step: "life_reach mp s \<Longrightarrow> in_order e s \<Longrightarrow> life_step e s = Some s' \<Longrightarrow> life_reach mp s'"

definition loaded_blocks :: "mem_plan \<Rightarrow> block multiset" where
  "loaded_blocks mp = {#(''vdev'', []), (''virtDev'', [])#} + puts storage_final + puts (namespace_final (mp_kinds mp)) + table_leak (mp_kinds mp) +
     puts (dma_final (mp_channels mp)) + gets create_pci_bus + puts (io_worker_final (mp_workers mp)) + {#(''nvmev_dispatcher'', [])#}"

lemma load_run: "mem_run (snd (load_module mp True True)) {#} = Some (loaded_blocks mp)"
proof -
  have c: "mem_run create_pci_bus L = Some (gets create_pci_bus + L)" for L by (rule run_gets) (simp add: create_pci_bus_def)
  show ?thesis by (simp add: load_module_def init_run namespace_init_run c loaded_blocks_def)
qed

definition life_ok :: "mem_plan \<Rightarrow> life \<Rightarrow> bool" where
  "life_ok mp s \<longleftrightarrow> lf_ledger s = iters_held (lf_iters s) + held ''sq'' (lf_sqes s) + held ''cq'' (lf_cqes s) + admin_held (lf_admin s) + loaded_blocks mp \<and>
     (\<forall>is \<in> set (lf_iters s). is = [] \<or> length is = 17 \<and> (\<forall>h < 16. is ! h \<noteq> Stray)) \<and>
     length (lf_sqes s) = NR_MAX_IO_QUEUE + 1 \<and> length (lf_cqes s) = NR_MAX_IO_QUEUE + 1 \<and> lf_nr_sq s \<le> NR_MAX_IO_QUEUE \<and>
     lf_nr_cq s \<le> NR_MAX_IO_QUEUE"

lemma queue_alloc_run: "mem_run (queue_alloc k q m) L = Some (queue_held k q (Some m) + L)"
  by (simp add: queue_held_def queue_alloc_def)

lemma queue_free_run: "mem_run (queue_free k q p) (queue_held k q p + L) = Some L"
proof -
  have "puts (queue_free k q p) = queue_held k q p" by (cases p) (simp_all add: queue_held_def queue_alloc_def queue_free_def)
  then show ?thesis using run_give [OF final_only(7)] by metis
qed

lemma held_add: "q < length qs \<Longrightarrow> qs ! q = None \<Longrightarrow> held k (qs[q := Some m]) = held k qs + queue_held k q (Some m)"
  using held_update [of q qs k "Some m"] by (simp add: queue_held_def)

lemma held_remove: "q < length qs \<Longrightarrow> held k qs = queue_held k q (qs ! q) + held k (qs[q := None])"
  using held_update [of q qs k None] by (simp add: queue_held_def [of _ _ None] add.commute)

text \<open>Opening and closing an iterator.\<close>

lemma free_iter_found:
  assumes "\<forall>h < 16. is ! h \<noteq> Stray" "length is = 17" "\<exists>h \<in> set hs. is ! h = No_iter" "\<forall>h \<in> set hs. h < 16"
  shows "\<exists>h < 16. free_iter is (hs @ ks) = Some (Some h) \<and> is ! h = No_iter"
  using assms(3,4)
proof (induction hs)
  case (Cons h hs)
  have "h < 16" "h < length is" "is ! h \<noteq> Stray" using Cons.prems(2) assms(1,2) by simp_all
  then show ?case using Cons by (cases "is ! h") (auto simp: arr_simps)
qed simp

lemma iters_ok_upd:
  assumes "\<forall>is \<in> set iss. is = [] \<or> length is = 17 \<and> (\<forall>h < 16. is ! h \<noteq> Stray)" "n < length iss" "p \<noteq> Stray"
  shows "\<forall>is \<in> set (iss[n := (iss ! n)[h := p]]). is = [] \<or> length is = 17 \<and> (\<forall>h < 16. is ! h \<noteq> Stray)"
proof
  fix x assume "x \<in> set (iss[n := (iss ! n)[h := p]])"
  then consider "x \<in> set iss" | "x = (iss ! n)[h := p]" using set_update_subset_insert by fastforce
  then show "x = [] \<or> length x = 17 \<and> (\<forall>h < 16. x ! h \<noteq> Stray)"
  proof cases
    case 2
    have "iss ! n = [] \<or> length (iss ! n) = 17 \<and> (\<forall>h < 16. iss ! n ! h \<noteq> Stray)" using assms(1,2) by simp
    then show ?thesis using 2 assms(3) by (cases "h < length (iss ! n)") (auto simp: nth_list_update list_update_beyond)
  qed (use assms(1) in blast)
qed

lemmas life_simps = life_ok_def on_ledger_def idx_def NVMEV_ASSERT_def admin_held_def

lemma life_step_ok: "life_ok mp s \<Longrightarrow> in_order e s \<Longrightarrow> \<exists>s'. life_step e s = Some s' \<and> life_ok mp s'"
proof (cases e)
  case (Delete_sq q)
  assume "life_ok mp s" "in_order e s"
  then have q: "q < length (lf_sqes s)" and l: "lf_ledger s = queue_held ''sq'' q (lf_sqes s ! q) + (iters_held (lf_iters s) + held ''sq'' ((lf_sqes s)[q := None]) +
      held ''cq'' (lf_cqes s) + admin_held (lf_admin s) + loaded_blocks mp)"
    using Delete_sq held_remove [of q "lf_sqes s" "''sq''"] by (simp_all add: life_ok_def ac_simps)
  show ?thesis using Delete_sq q \<open>life_ok mp s\<close> by (simp add: life_simps l queue_free_run)
next
  case (Delete_cq q)
  assume "life_ok mp s" "in_order e s"
  then have q: "q < length (lf_cqes s)" and l: "lf_ledger s = queue_held ''cq'' q (lf_cqes s ! q) + (iters_held (lf_iters s) + held ''sq'' (lf_sqes s) +
      held ''cq'' ((lf_cqes s)[q := None]) + admin_held (lf_admin s) + loaded_blocks mp)"
    using Delete_cq held_remove [of q "lf_cqes s" "''cq''"] by (simp_all add: life_ok_def ac_simps)
  show ?thesis using Delete_cq q \<open>life_ok mp s\<close> by (simp add: life_simps l queue_free_run)
next
  case (Iter_open n)
  assume ok: "life_ok mp s" and o: "in_order e s"
  obtain "is" h where i: "idx (lf_iters s) n = Some is" "h \<in> {1..<16}" "idx is h = Some No_iter" using o Iter_open by auto
  have n: "n < length (lf_iters s)" "is = lf_iters s ! n" using i(1) by (auto simp: arr_simps)
  have v: "is = [] \<or> length is = 17 \<and> (\<forall>h < 16. is ! h \<noteq> Stray)" using ok n by (simp add: life_ok_def)
  then have v': "length is = 17" "\<forall>h < 16. is ! h \<noteq> Stray" using i(3) by (auto simp: arr_simps)
  have x: "is ! h = No_iter" using i(3) by (simp add: arr_simps)
  have "\<exists>h < 16. free_iter is ([1..<16] @ [16]) = Some (Some h) \<and> is ! h = No_iter"
    by (rule free_iter_found [OF v'(2,1)]) (use i(2) x in auto)
  moreover have "[1..<16] @ [16] = [1..<17 :: nat]" by (simp add: upt_rec)
  ultimately obtain h where h: "h < 16" "free_iter is [1..<17] = Some (Some h)" "is ! h = No_iter" by auto
  have "iters_held ((lf_iters s)[n := is[h := Open_iter]]) = iter_held n h Open_iter + iters_held (lf_iters s)"
    using iters_update [of n "lf_iters s" h Open_iter] n v'(1) h(1,3) by (simp add: iter_held_def)
  moreover have "mem_run (iter_alloc n h) L = Some (iter_held n h Open_iter + L)" for L by (simp add: iter_held_def iter_alloc_def)
  moreover have "\<forall>is \<in> set ((lf_iters s)[n := is[h := Open_iter]]). is = [] \<or> length is = 17 \<and> (\<forall>h < 16. is ! h \<noteq> Stray)"
    unfolding n(2) by (rule iters_ok_upd) (use ok n(1) in \<open>simp_all add: life_ok_def\<close>)
  ultimately show ?thesis using Iter_open i(1) h(2) ok by (simp add: on_ledger_def life_ok_def add.assoc)
next
  case (Iter_close n h)
  assume ok: "life_ok mp s" and o: "in_order e s"
  obtain "is" where i: "idx (lf_iters s) n = Some is" "is \<noteq> []" "h < 16" using o Iter_close by auto
  have n: "n < length (lf_iters s)" "is = lf_iters s ! n" using i(1) by (auto simp: arr_simps)
  have v: "length is = 17" "is ! h \<noteq> Stray" using ok n i(2,3) by (auto simp: life_ok_def)
  then have p: "idx is h = Some (is ! h)" using i(3) by (simp add: arr_simps)
  show ?thesis
  proof (cases "is ! h")
    case Open_iter
    have l: "iters_held (lf_iters s) = iter_held n h Open_iter + iters_held ((lf_iters s)[n := is[h := No_iter]])"
      using iters_update [of n "lf_iters s" h No_iter] n v(1) i(3) Open_iter by (simp add: iter_held_def add.commute)
    have m: "mem_run (iter_free n h) (iter_held n h Open_iter + L) = Some L" for L
      by (simp add: iter_held_def iter_alloc_def iter_free_def)
    have "lf_ledger s = iter_held n h Open_iter + (iters_held ((lf_iters s)[n := is[h := No_iter]]) + held ''sq'' (lf_sqes s) +
        held ''cq'' (lf_cqes s) + admin_held (lf_admin s) + loaded_blocks mp)" using ok unfolding life_ok_def l by (simp only: add.assoc)
    then have r: "mem_run (iter_free n h) (lf_ledger s) = Some (iters_held ((lf_iters s)[n := is[h := No_iter]]) + held ''sq'' (lf_sqes s) +
        held ''cq'' (lf_cqes s) + admin_held (lf_admin s) + loaded_blocks mp)" using m by simp
    have "\<forall>is \<in> set ((lf_iters s)[n := is[h := No_iter]]). is = [] \<or> length is = 17 \<and> (\<forall>h < 16. is ! h \<noteq> Stray)"
      unfolding n(2) by (rule iters_ok_upd) (use ok n(1) in \<open>simp_all add: life_ok_def\<close>)
    then show ?thesis using Iter_close i(1) p Open_iter r ok by (simp add: on_ledger_def life_ok_def)
  qed (use Iter_close i(1) p v(2) ok in simp_all)
qed (auto simp: life_simps held_add queue_alloc_run split: option.splits if_splits)

lemma life_reach_ok: "life_reach mp s \<Longrightarrow> life_ok mp s"
proof (induction rule: life_reach.induct)
  case (loaded L)
  have "no_queues ! q = None" if "q < length no_queues" for q using that unfolding no_queues_def by (metis length_replicate nth_replicate)
  then have "held k no_queues = {#}" for k unfolding held_def by (intro sum_list_empty) (simp add: queue_held_def)
  moreover have "iter_held n h (iters_init k ! h) = {#}" if "h < length (iters_init k)" for n h k
    using that by (auto simp: iters_init_def iter_held_def nth_append split: ns_kind.splits)
  then have "ns_iters n (iters_init k) = {#}" for n k unfolding ns_iters_def by (intro sum_list_empty) simp
  then have "iters_held (map iters_init ks) = {#}" for ks unfolding iters_held_def by (intro sum_list_empty) simp
  moreover have "\<forall>is \<in> set (map iters_init ks). is = [] \<or> length is = 17 \<and> (\<forall>h < 16. is ! h \<noteq> Stray)" for ks
    by (auto simp: iters_init_def nth_append split: ns_kind.splits)
  ultimately show ?case using loaded load_run [of mp] by (simp add: life_ok_def fresh_life_def admin_held_def no_queues_def)
next
  case (step s e s')
  then show ?case using life_step_ok [of mp s e] by auto
qed

text \<open>What is still allocated when the module is gone.\<close>

definition left_behind :: "mem_plan \<Rightarrow> life \<Rightarrow> block multiset" where
  "left_behind mp s = leak ''sq'' (lf_nr_sq s) (lf_sqes s) + leak ''cq'' (lf_nr_cq s) (lf_cqes s) + table_leak (mp_kinds mp) +
     iters_held (lf_iters s) + (if mp_using_dma mp then {#} else puts (dma_final (mp_channels mp)))"

lemma exit_run:
  assumes "life_ok mp s"
  shows "NVMeV_exit mp s = Some (left_behind mp s)"
proof -
  let ?dma = "if mp_using_dma mp then dma_final (mp_channels mp) else []"
  let ?ops = "[Put (''virt_bus'', []), Put (''nvmev_dispatcher'', [])] @ io_worker_final (mp_workers mp) @ namespace_final (mp_kinds mp) @ storage_final @
    ?dma @ queues_final ''sq'' (lf_nr_sq s) (lf_sqes s) @ queues_final ''cq'' (lf_nr_cq s) (lf_cqes s) @ vdev_finalize True (lf_admin s)"
  have g: "gets ?ops = {#}" by (simp add: final_only)
  have v: "puts (vdev_finalize True a) + {#(''virt_bus'', [])#} = admin_held a + gets create_pci_bus + {#(''vdev'', []), (''virtDev'', [])#}" for a
    by (cases a) (auto simp: vdev_finalize_def admin_held_def create_pci_bus_def)
  have n: "lf_nr_sq s \<le> length (lf_sqes s)" "lf_nr_cq s \<le> length (lf_cqes s)" using assms by (simp_all add: life_ok_def)
  have l: "lf_ledger s = puts ?ops + left_behind mp s"
    using assms v [of "lf_admin s"] by (simp add: life_ok_def loaded_blocks_def left_behind_def held_split [OF n(1)] held_split [OF n(2)])
  have "mem_run ?ops (lf_ledger s) = Some (left_behind mp s)" unfolding l by (rule run_give [OF g])
  then show ?thesis using n by (simp add: NVMeV_exit_def NVMEV_ASSERT_def)
qed

text \<open>When the bus cannot be made, only the device itself is given back.\<close>

lemma failed_load:
  "map_option (\<lambda>L. (fst (load_module mp True False), L)) (mem_run (snd (load_module mp True False)) {#}) =
     Some (False, puts storage_final + puts (namespace_final (mp_kinds mp)) + table_leak (mp_kinds mp) + puts (dma_final (mp_channels mp)))"
  "mem_run (snd (load_module mp False b)) {#} = Some {#}"
  by (simp_all add: load_module_def init_run namespace_init_run vdev_finalize_def vdev_init_def)

text \<open>The structure of a queue is left behind when its number is not below the number of queues.\<close>

lemma in_sum_list: "x \<in># (\<Sum>i\<leftarrow>is. f i) \<longleftrightarrow> (\<exists>i \<in> set is. x \<in># f i)" for f :: "nat \<Rightarrow> block multiset"
  by (induction "is") auto

lemma in_leak: "x \<in># leak k n qs \<longleftrightarrow> (\<exists>q < length qs. x \<in># queue_leak k n q (qs ! q))"
  by (auto simp: leak_def in_sum_list)

lemma in_queue_leak:
  "(k', [q']) \<in># queue_leak k n q p \<longleftrightarrow> q' = q \<and> (\<exists>m. p = Some m \<and> (k' = k \<and> n \<le> q \<or> k' = k @ ''_pages'' \<or> m \<and> k' = k @ ''_mapped''))"
  by (cases p) (auto simp: queue_leak_def)

lemma in_iters_held:
  "x \<in># iters_held iss \<longleftrightarrow> (\<exists>n is h. idx iss n = Some is \<and> idx is h = Some Open_iter \<and> x \<in> {(''iter_handle'', [n, h]), (''iter_buf'', [n, h])})"
  by (auto simp: iters_held_def ns_iters_def in_sum_list iter_held_def iter_alloc_def arr_simps split: if_splits)

text \<open>So are both blocks of an iterator that is still open: removing the namespace does not look at its handles.\<close>

lemma iter_left_behind:
  "(''iter_handle'', [n, h]) \<in># left_behind mp s \<longleftrightarrow> (\<exists>is. idx (lf_iters s) n = Some is \<and> idx is h = Some Open_iter)"
  "(''iter_buf'', [n, h]) \<in># left_behind mp s \<longleftrightarrow> (\<exists>is. idx (lf_iters s) n = Some is \<and> idx is h = Some Open_iter)"
proof -
  have o: "x \<notin># leak k m qs \<and> x \<notin># table_leak ks \<and> x \<notin># puts (dma_final c)" if "snd x = [n, h]" for x k m qs ks c
    using that by (auto simp: in_leak queue_leak_def table_leak_def in_sum_list ns_leak_def dma_final_def puts_each
        split: ns_kind.splits option.splits if_splits)
  show "(''iter_handle'', [n, h]) \<in># left_behind mp s \<longleftrightarrow> (\<exists>is. idx (lf_iters s) n = Some is \<and> idx is h = Some Open_iter)"
    "(''iter_buf'', [n, h]) \<in># left_behind mp s \<longleftrightarrow> (\<exists>is. idx (lf_iters s) n = Some is \<and> idx is h = Some Open_iter)"
    using o by (simp_all add: left_behind_def in_iters_held)
qed

lemma queue_left_behind:
  "(''sq'', [q]) \<in># left_behind mp s \<longleftrightarrow> (\<exists>m. idx (lf_sqes s) q = Some (Some m)) \<and> lf_nr_sq s \<le> q"
proof -
  have "(''sq'', [q]) \<notin># iters_held iss" for iss by (simp add: in_iters_held)
  moreover have "(''sq'', [q]) \<notin># leak ''cq'' n qs" for n qs by (simp add: in_leak in_queue_leak)
  moreover have "(''sq'', [q]) \<notin># table_leak ks" for ks by (auto simp: table_leak_def in_sum_list ns_leak_def split: ns_kind.splits)
  moreover have "(''sq'', [q]) \<notin># puts (dma_final n)" for n by (auto simp: dma_final_def puts_each)
  moreover have "(''sq'', [q]) \<in># leak ''sq'' n qs \<longleftrightarrow> (\<exists>m. idx qs q = Some (Some m)) \<and> n \<le> q" for n qs
    by (auto simp: in_leak in_queue_leak idx_def)
  ultimately show ?thesis by (simp add: left_behind_def)
qed

end
