(* ===== verification/Memory_Properties.thy ===== *)
theory Memory_Properties
  imports Module_Exit
begin

text \<open>
  The properties of the memory of the module.
\<close>

text \<open>C38: From loading to unloading, as long as the host makes queues only where there is none and keeps at most fifteen iterators open in a
  key-value namespace, no block is given back twice or without having been allocated: every request of the host is carried out, and unloading succeeds.
  What it leaves behind is exactly the lists of pages and the mappings of the queues that still exist, the table of a key-value namespace, the
  context and the buffer of every iterator that is still open, the DMA channels when the module does not use them, and the structure of a queue whose
  number is not below the number of queues; as queues are numbered from 1, that is always the last one.\<close>

theorem module_exit_effect:
  assumes "life_reach mp s"
  shows "(\<forall>e. in_order e s \<longrightarrow> life_step e s \<noteq> None) \<and> NVMeV_exit mp s = Some (left_behind mp s) \<and>
    (\<forall>q. (''sq'', [q]) \<in># left_behind mp s \<longleftrightarrow> (\<exists>m. idx (lf_sqes s) q = Some (Some m)) \<and> lf_nr_sq s \<le> q) \<and>
    (\<forall>n h. (''iter_handle'', [n, h]) \<in># left_behind mp s \<longleftrightarrow> (\<exists>is. idx (lf_iters s) n = Some is \<and> idx is h = Some Open_iter)) \<and>
    (\<forall>n h. (''iter_buf'', [n, h]) \<in># left_behind mp s \<longleftrightarrow> (\<exists>is. idx (lf_iters s) n = Some is \<and> idx is h = Some Open_iter))"
proof -
  have ok: "life_ok mp s" using assms by (rule life_reach_ok)
  then have "life_step e s \<noteq> None" if "in_order e s" for e using life_step_ok [OF ok that] by auto
  then show ?thesis using exit_run [OF ok] queue_left_behind iter_left_behind by simp
qed

definition small_plan :: mem_plan where
  "small_plan = \<lparr>mp_kinds = [Kv, Nvm], mp_workers = 2, mp_channels = 0, mp_using_dma = False\<rparr>"

definition open_first :: "iter_ptr list" where "open_first = (iters_init Kv)[1 := Open_iter]"

definition one_queue :: life where
  "one_queue = (fresh_life [Kv, Nvm] ({#(''sq'', [1]), (''sq_pages'', [1]), (''iter_handle'', [0, 1]), (''iter_buf'', [0, 1])#} + loaded_blocks small_plan))
     \<lparr>lf_sqes := no_queues[1 := Some False], lf_nr_sq := 1, lf_iters := [open_first, []]\<rparr>"

lemma fresh_iters: "map iters_init [Kv, Nvm] = [iters_init Kv, []]" "idx (iters_init Kv) 1 = Some No_iter"
  "free_iter (iters_init Kv) [1..<17] = Some (Some 1)"
  by (simp_all add: iters_init_def arr_simps nth_append upt_rec)

lemma one_queue_reached: "life_reach small_plan one_queue"
proof -
  let ?s0 = "fresh_life [Kv, Nvm] (loaded_blocks small_plan)"
  let ?s1 = "?s0\<lparr>lf_nr_sq := 1\<rparr>"
  let ?s2 = "?s1\<lparr>lf_ledger := {#(''iter_handle'', [0, 1]), (''iter_buf'', [0, 1])#} + loaded_blocks small_plan, lf_iters := [open_first, []]\<rparr>"
  have q: "no_queues ! 1 = None" "1 < length no_queues" by (simp_all add: no_queues_def NR_MAX_IO_QUEUE_def)
  have k: "mp_kinds small_plan = [Kv, Nvm]" by (simp add: small_plan_def)
  have 0: "life_reach small_plan ?s0" using life_reach.loaded [OF load_run [of small_plan]] by (simp only: k)
  have 1: "life_reach small_plan ?s1"
    by (rule life_reach.step [OF 0, of "Set_queues 1 0"]) (simp_all add: fresh_life_def NR_MAX_IO_QUEUE_def)
  have i: "idx (lf_iters ?s1) 0 = Some (iters_init Kv)" by (simp add: fresh_life_def idx_def)
  have 2: "life_reach small_plan ?s2"
  proof (rule life_reach.step [OF 1, of "Iter_open 0"])
    show "in_order (Iter_open 0) ?s1" using i fresh_iters(2) by fastforce
    show "life_step (Iter_open 0) ?s1 = Some ?s2" using fresh_iters(3)
      by (simp add: idx_def on_ledger_def iter_alloc_def fresh_life_def open_first_def iters_init_def [of Nvm] add_mset_commute)
  qed
  show ?thesis
    by (rule life_reach.step [OF 2, of "Create_sq 1 False"])
      (use q in \<open>simp_all add: one_queue_def fresh_life_def life_simps queue_alloc_def add_mset_commute\<close>)
qed

text \<open>A host with one queue and one open iterator: the structure of the queue and the buffer of the iterator are left behind.\<close>

theorem module_exit_effect_witness:
  "NVMeV_exit small_plan one_queue = Some (left_behind small_plan one_queue) \<and> (''sq'', [1]) \<in># left_behind small_plan one_queue \<and>
   (''iter_buf'', [0, 1]) \<in># left_behind small_plan one_queue"
proof -
  have "\<exists>m. idx (lf_sqes one_queue) 1 = Some (Some m)" "lf_nr_sq one_queue \<le> 1"
    by (auto simp: one_queue_def fresh_life_def no_queues_def NR_MAX_IO_QUEUE_def idx_def)
  moreover have "\<exists>is. idx (lf_iters one_queue) 0 = Some is \<and> idx is 1 = Some Open_iter"
    by (simp add: one_queue_def fresh_life_def idx_def open_first_def iters_init_def)
  ultimately show ?thesis using module_exit_effect [OF one_queue_reached] by blast
qed

end
