(* ===== verification/Spec2Isabelle.thy ===== *)
theory Spec2Isabelle
  imports Core_Properties Ftl_Properties Conv_Properties Queue_Properties Data_Properties Zns_Properties Kv_Properties Module_Properties Memory_Properties
begin

text \<open>
  NVMeVirt with an SLC cache: a kernel module that behaves as an NVMe SSD. The host writes commands into queues in its memory and rings
  doorbells; a dispatcher thread polls the doorbells, asks the FTL of the namespace when a command would be done on flash, and hands it to a
  worker thread, which copies the data between the host and reserved memory and posts the completion when that time has come.

  \<^bold>\<open>Modelling.\<close> A structure of the code is a record, an enumeration a datatype. A function is a definition of the same name (without leading
  underscores) that takes the state and returns it changed. The result is an option: \<open>None\<close> stands for what has no defined outcome in the code, that is
  \<open>BUG_ON\<close> and \<open>NVMEV_ASSERT\<close>, a NULL pointer, an index outside an array, a division by zero, or a value that was never set; refusals that the
  code handles are values inside. So a theorem that an operation returns also says that nothing of this kind happens. Counters are natural numbers
  that are wrapped where the code's type wraps (\<open>u8\<close> to \<open>u64\<close>, \<open>dec32\<close>, \<open>sub32\<close>, \<open>sub64\<close> of \<open>Prelude\<close>). A clock is a sequence of
  readings, a monotone one where a law needs it. Memory of the host is a function from addresses to bytes. Allocation succeeds.

  \<^bold>\<open>Parts.\<close> From the flash upwards:

  \<^item> Victim queue, \<open>pqueue/\<close>: \<open>Pqueue\<close>, a binary heap of indices with the callbacks of its client (locale \<open>pq_callbacks\<close>, interpreted for the
    lines of the FTL in \<open>Conv_Inv\<close>): heap order, positions, the multiset of entries.
  \<^item> Channel model, \<open>channel_model.c\<close>: \<open>Channel_Model\<close>, a ring of bandwidth credits; every request returns.
  \<^item> Configuration, \<open>ssd_config.h\<close>: \<open>Ssd_Config\<close>, one record of macros for each flash build.
  \<^item> Flash, \<open>ssd.c\<close>: \<open>Ssd\<close> and \<open>Ssd_Laws\<close>, geometry, the tree of channels, dies, blocks and pages, write buffer, NAND timing.
  \<^item> Conventional FTL, \<open>conv_ftl.c\<close>: \<open>Conv_Ftl\<close> is one partition (mapping tables, lines, write pointers, garbage collection of TLC lines, migration of SLC
    lines), \<open>Conv_Io\<close> the namespace over the partitions with write, read, flush, dispatch and construction. \<open>Conv_Geo\<close> describes the order of pages
    in a line; \<open>Conv_Inv\<close> the invariant of pages, blocks, lines and pointers and its preservation; \<open>Conv_Append\<close>, \<open>Conv_Map\<close>, \<open>Conv_Gc\<close>,
    \<open>Conv_Collect\<close>, \<open>Conv_Write\<close> and \<open>Conv_Init\<close> the operations one by one; \<open>Conv_Choice\<close> which line victim selection takes, each candidate rated at
    the reading of the running clock that the scan takes for it; \<open>Conv_Io_Laws\<close> the namespace; \<open>Conv_Reach\<close> every history of commands and buffer
    releases from the constructor, with the pages that were written (\<open>conv_run\<close>); \<open>Sample_Device\<close> the device of the default build with
    16 GB, to which the properties are applied.
  \<^item> I/O queues, \<open>io.c\<close>: \<open>Work_Queue\<close> is the work queue of a worker, linked lists in an array; \<open>Io_Dispatch\<close> the dispatcher, submission and completion
    queues, worker passes and interrupts. \<open>Work_Queue_Laws\<close> and \<open>Dispatch_Laws\<close> show that the arrays implement sorted lists of requests;
    \<open>Dispatch_Client\<close> states the contract of a namespace (locale \<open>io_namespace\<close>) and what the dispatcher does with any provider; \<open>Worker_Laws\<close> and
    \<open>Completion_Laws\<close> the same for workers, with the contract of the copying (\<open>data_copy\<close>); \<open>Io_System\<close> composes them (locale \<open>io_system\<close>) to a
    transition system of doorbells and passes.
  \<^item> Data path, \<open>io.c\<close>: \<open>Prp\<close> and \<open>Prp_Laws\<close>, the walk over the pages of a command, copying page by page and by DMA.
  \<^item> The providers of \<open>io_namespace\<close>: \<open>Conv_Dispatch\<close> (conventional), \<open>Simple_Ftl\<close> (\<open>simple_ftl.c\<close>), \<open>Kv_Device\<close> (key-value). \<open>Io_Devices\<close> interprets the whole
    system for the conventional and the simple device.
  \<^item> Zoned namespace, \<open>zns_*.c\<close>: \<open>Zns_Ftl\<close> (zones, resources, buffers), \<open>Zns_Mgmt\<close> (management send and receive), \<open>Zns_Io\<close> (write, append, random write
    area, read); \<open>Zns_Laws\<close>, \<open>Zns_Mgmt_Laws\<close>, \<open>Zns_Report_Laws\<close>, \<open>Zns_Io_Laws\<close>, \<open>Zns_Write_Laws\<close> show the invariant of zones and counters and
    the refinement of the zone state machine, \<open>Zns_System\<close> and \<open>Zns_Init\<close> reachability from the constructor. \<open>zns_run\<close> counts the zones with a
    random write area that writes fill, as the code does not give back the resource of such an area (\<open>leaks\<close> in \<open>Zns_Laws\<close>).
  \<^item> Key-value namespace, \<open>kv_ftl.c\<close>, \<open>append_only.c\<close>, \<open>bitmap.c\<close>: \<open>Kv_Ftl\<close> (hash table with chains, allocators), \<open>Kv_Io\<close> (commands, batches, iterators);
    \<open>Kv_Laws\<close> and \<open>Kv_Map\<close> the chains and the table as a map, \<open>Kv_Data\<close> the values, \<open>Kv_Scan\<close> deletion and iterators.
  \<^item> Controller, \<open>admin.c\<close>, \<open>pci.c\<close>, \<open>main.c\<close>: \<open>Admin\<close> (admin commands on rings in the memory of the host), \<open>Controller\<close> (registers, doorbells, PCI
    configuration space; the rings of the I/O queues in the memory of the host, from which each doorbell and each pass of a worker reads and to which
    completions are written), \<open>Module_Init\<close> (parameters, namespaces, statistics), \<open>Dma_Engine\<close> (\<open>dma.c\<close>), \<open>Module_Run\<close> (loading the module with
    the constructors of the four kinds of namespaces, files under \<open>/proc\<close>). \<open>Admin_Laws\<close> has the format of ring entries (locale \<open>entry_format\<close>, interpreted for commands and completions), \<open>Admin_Requests\<close> every
    command, \<open>Admin_Doorbell\<close> a sequence of commands, \<open>Controller_Laws\<close> registers, configuration space and namespaces.
  \<^item> Memory: \<open>Memory_Ledger\<close> has the constructors and destructors of flash and of the namespaces as lists of allocations and releases, run on a ledger of the
    blocks that are allocated; \<open>Module_Exit\<close> loading, the queues and the key-value iterators that the host makes and deletes meanwhile (a step relation with an
    invariant), and unloading (\<open>NVMeV_exit\<close>, \<open>VDEV_FINALIZE\<close>).

  \<^bold>\<open>Properties.\<close> The theories whose names end in \<open>Properties\<close> hold the numbered properties, each with an instance at concrete values:
  \<open>Conv_Properties\<close> and \<open>Ftl_Properties\<close> (no logical page is lost by writing, collection or migration; in every history of commands the mapped pages
  are those that were written, the tables inverse bijections and the counters of the lines exact; what a host command returns and when), \<open>Queue_Properties\<close> and \<open>Data_Properties\<close> (no request is lost, its data are copied, completions in order and on time, no reachable
  failure, equal transfers), \<open>Zns_Properties\<close>, \<open>Kv_Properties\<close> (a map from keys to values), \<open>Controller_Properties\<close> and \<open>Module_Properties\<close> (commands to
  completions, registers, configuration, from the parameters to a ready controller), \<open>Memory_Properties\<close> (no block is freed twice, and what is left behind),
  \<open>Core_Properties\<close> (what the FTLs rest on). Some of their theorems show an error of the code, as a branch that fails or a state that is wrong.

  \<^bold>\<open>Loops and bounds.\<close> Loops over an index are folds or recursions whose termination is proved from a measure. The loops whose end depends on the data (the
  credits of a channel, the pointers of the linked lists and chains, the probing of the hash table, the completion doorbell) are partial functions in the
  option monad, so that not ending is \<open>None\<close>; the laws prove that they end on well-formed states. \<open>polls n\<close> are \<open>n\<close> passes over the
  registers; four are enough, as there are four registers and every pass takes over one. The lists of capabilities are walked with fuel 8 and have three
  and six members.

  \<^bold>\<open>Parameters.\<close> What is not in the repository is an argument: the validity of a page frame (\<open>pfn\<close>), the check of the reserved memory (\<open>arch_ok\<close>), the
  DMA engine (\<open>req\<close> with the law \<open>request_law\<close>, \<open>dma_answer\<close>), the readings of the clocks,
  and the contents of memory that was never set (\<open>junk\<close>, and the structures of \<open>boot\<close> before their constructors fill them).

  \<^bold>\<open>Not modelled.\<close> Threads are sequences of steps: kthread creation, sleeping, locks and memory barriers do not appear, and a step of a thread is
  one pass, which reads the clock for every request and is not interrupted by the other threads; a worker reads the wall clock itself, not its local clock plus
  the difference that it took once. Messages and the text under \<open>/proc\<close>, the performance counters of \<open>PERF_DEBUG\<close>, the delivery of an interrupt
  to a processor (\<open>signal_irq\<close> in \<open>pci.c\<close>), the mapping of the BAR and the scan of the PCI bus, \<open>memparse\<close> and \<open>sscanf\<close> (their results are arguments),
  and the constants and layouts of \<open>nvme.h\<close>, \<open>nvme_kv.h\<close> and \<open>pci.h\<close> that no modelled code reads.
\<close>

end
